(* ===== verification/Prelude.thy ===== *)
theory Prelude
  imports Main "HOL-Library.Word" "HOL-Library.Monad_Syntax"
begin

text \<open>
  Vocabulary shared by the components of the watch firmware.

  \<^item> Machine integers. Bytes that travel over a link or sit in a buffer are \<open>8 word\<close>.
    Counters, indices and time stamps are \<open>nat\<close>; the wrap-around of the C type is written out
    with \<open>u8\<close>, \<open>u16\<close>, \<open>u32\<close>, \<open>u64\<close> and the subtraction \<open>u16_minus\<close>, \<open>u32_minus\<close>.
  \<^item> Faults. A run that violates an assertion of the code or touches memory outside an object
    has no result: the definitions return \<open>None\<close>. A theorem that states a result
    \<open>Some r\<close> therefore also states that no assertion fires and no access is out of bounds.
  \<^item> Memory. An array object is a list; \<open>mem_read\<close> and \<open>mem_write\<close> are \<open>memcpy\<close> from and to
    an array at an offset, with the bounds check that C leaves to the programmer.
\<close>

named_theorems wrap_simps "unfolding of the fixed-width helpers"
named_theorems mem_simps "reading and writing arrays"
named_theorems inv_simps "unfolding of component invariants"

type_synonym byte = "8 word"

section \<open>Fixed-width arithmetic on naturals\<close>

definition u8 :: "nat \<Rightarrow> nat" where
  "u8 n = n mod 256"

definition u16 :: "nat \<Rightarrow> nat" where
  "u16 n = n mod 65536"

definition u32 :: "nat \<Rightarrow> nat" where
  "u32 n = n mod 4294967296"

definition u64 :: "nat \<Rightarrow> nat" where
  "u64 n = n mod 18446744073709551616"

definition u8_minus :: "nat \<Rightarrow> nat \<Rightarrow> nat" where
  "u8_minus a b = (a + (256 - b mod 256)) mod 256"

definition u16_minus :: "nat \<Rightarrow> nat \<Rightarrow> nat" where
  "u16_minus a b = (a + (65536 - b mod 65536)) mod 65536"

definition u32_minus :: "nat \<Rightarrow> nat \<Rightarrow> nat" where
  "u32_minus a b = (a + (4294967296 - b mod 4294967296)) mod 4294967296"

definition u64_minus :: "nat \<Rightarrow> nat \<Rightarrow> nat" where
  "u64_minus a b = (a + (18446744073709551616 - b mod 18446744073709551616)) mod 18446744073709551616"

lemma u8_id [wrap_simps]: "n < 256 \<Longrightarrow> u8 n = n"
  by (simp add: u8_def)

lemma u16_id [wrap_simps]: "n < 65536 \<Longrightarrow> u16 n = n"
  by (simp add: u16_def)

lemma u32_id [wrap_simps]: "n < 4294967296 \<Longrightarrow> u32 n = n"
  by (simp add: u32_def)

lemma u64_id [wrap_simps]: "n < 18446744073709551616 \<Longrightarrow> u64 n = n"
  by (simp add: u64_def)

lemma u8_less [simp]: "u8 n < 256"
  by (simp add: u8_def)

lemma u16_less [simp]: "u16 n < 65536"
  by (simp add: u16_def)

lemma u32_less [simp]: "u32 n < 4294967296"
  by (simp add: u32_def)

lemma u64_less [simp]: "u64 n < 18446744073709551616"
  by (simp add: u64_def)

lemma wrap_minus:
  fixes a b m :: nat
  assumes "b \<le> a" and "a < m"
  shows "(a + (m - b mod m)) mod m = a - b"
proof -
  have "a + (m - b mod m) = (a - b) + m"
    using assms by simp
  then have "(a + (m - b mod m)) mod m = (a - b) mod m"
    by (simp only: mod_add_self2)
  then show ?thesis
    using assms by simp
qed

lemma u8_minus_id [wrap_simps]: "b \<le> a \<Longrightarrow> a < 256 \<Longrightarrow> u8_minus a b = a - b"
  unfolding u8_minus_def by (rule wrap_minus)

lemma u16_minus_id [wrap_simps]: "b \<le> a \<Longrightarrow> a < 65536 \<Longrightarrow> u16_minus a b = a - b"
  unfolding u16_minus_def by (rule wrap_minus)

lemma u32_minus_id [wrap_simps]: "b \<le> a \<Longrightarrow> a < 4294967296 \<Longrightarrow> u32_minus a b = a - b"
  unfolding u32_minus_def by (rule wrap_minus)

lemma u64_minus_id [wrap_simps]:
  "b \<le> a \<Longrightarrow> a < 18446744073709551616 \<Longrightarrow> u64_minus a b = a - b"
  unfolding u64_minus_def by (rule wrap_minus)

lemma u32_minus_less [simp]: "u32_minus a b < 4294967296"
  by (simp add: u32_minus_def)

text \<open>Unsigned subtraction measures elapsed time across one wrap of the counter.\<close>

lemma wrap_minus_elapsed:
  fixes t d m :: nat
  assumes "t < m" and "d < m"
  shows "((t + d) mod m + (m - t mod m)) mod m = d"
proof -
  have "((t + d) mod m + (m - t)) mod m = ((t + d) + (m - t)) mod m"
    by (rule mod_add_left_eq)
  also have "(t + d) + (m - t) = d + m"
    using assms by simp
  finally show ?thesis
    using assms by simp
qed

lemma u32_minus_elapsed: "t < 4294967296 \<Longrightarrow> d < 4294967296 \<Longrightarrow> u32_minus (u32 (t + d)) t = d"
  unfolding u32_minus_def u32_def by (rule wrap_minus_elapsed)

lemma u64_minus_elapsed:
  "t < 18446744073709551616 \<Longrightarrow> d < 18446744073709551616 \<Longrightarrow> u64_minus (u64 (t + d)) t = d"
  unfolding u64_minus_def u64_def by (rule wrap_minus_elapsed)

text \<open>Division of signed integers in C truncates towards zero.\<close>

definition c_div :: "int \<Rightarrow> int \<Rightarrow> int" where
  "c_div a b = sgn a * sgn b * (\<bar>a\<bar> div \<bar>b\<bar>)"

lemma c_div_nonneg [wrap_simps]: "0 \<le> a \<Longrightarrow> 0 < b \<Longrightarrow> c_div a b = a div b"
  by (cases "a = 0") (simp_all add: c_div_def)

section \<open>Bytes\<close>

lemma unat_byte_less [simp]: "unat (b :: byte) < 256"
  using unsigned_less [of b] by simp

lemma unat_byte_less_u16 [simp]: "unat (b :: byte) < 65536"
  by (rule less_trans [OF unat_byte_less]) simp

lemma unat_u16_less [simp]: "unat (w :: 16 word) < 65536"
  using unsigned_less [of w] by simp

lemma unat_byte_le: "unat (b :: byte) \<le> 255"
  using unat_byte_less [of b] by linarith

definition byte_of :: "nat \<Rightarrow> byte" where
  "byte_of n = word_of_nat n"

lemma unat_byte_of [simp]: "unat (byte_of n) = u8 n"
  by (simp add: byte_of_def u8_def unat_of_nat)

lemma byte_of_unat [simp]: "byte_of (unat b) = b"
  by (simp add: byte_of_def)

section \<open>Arrays\<close>

definition rd :: "'a list \<Rightarrow> nat \<Rightarrow> 'a option" where
  "rd xs i = (if i < length xs then Some (xs ! i) else None)"

definition mem_read :: "'a list \<Rightarrow> nat \<Rightarrow> nat \<Rightarrow> 'a list option" where
  "mem_read buf off n = (if off + n \<le> length buf then Some (take n (drop off buf)) else None)"

definition mem_write :: "'a list \<Rightarrow> nat \<Rightarrow> 'a list \<Rightarrow> 'a list option" where
  "mem_write buf off xs =
     (if off + length xs \<le> length buf
      then Some (take off buf @ xs @ drop (off + length xs) buf) else None)"

lemma rd_Some [mem_simps]: "i < length xs \<Longrightarrow> rd xs i = Some (xs ! i)"
  by (simp add: rd_def)

lemma rd_eq_Some_iff: "rd xs i = Some x \<longleftrightarrow> i < length xs \<and> x = xs ! i"
  by (auto simp: rd_def)

lemma mem_read_Some [mem_simps]:
  "off + n \<le> length buf \<Longrightarrow> mem_read buf off n = Some (take n (drop off buf))"
  by (simp add: mem_read_def)

lemma mem_write_Some [mem_simps]:
  "off + length xs \<le> length buf \<Longrightarrow>
   mem_write buf off xs = Some (take off buf @ xs @ drop (off + length xs) buf)"
  by (simp add: mem_write_def)

lemma mem_write_length:
  "mem_write buf off xs = Some buf' \<Longrightarrow> length buf' = length buf"
  by (auto simp: mem_write_def split: if_splits)

lemma mem_write_same:
  "mem_write buf off xs = Some buf' \<Longrightarrow> take (length xs) (drop off buf') = xs"
  by (auto simp: mem_write_def split: if_splits)

lemma mem_write_below:
  assumes "mem_write buf off xs = Some buf'" and "o2 + n \<le> off"
  shows "take n (drop o2 buf') = take n (drop o2 buf)"
proof -
  have b: "buf' = take off buf @ xs @ drop (off + length xs) buf" and l: "off \<le> length buf"
    using assms(1) by (auto simp: mem_write_def split: if_splits)
  have "take n (drop o2 buf') = take n (drop o2 (take off buf))"
    using b l assms(2) by simp
  also have "\<dots> = take n (drop o2 buf)"
    using assms(2) by (simp add: drop_take min_def)
  finally show ?thesis .
qed

lemma mem_write_above:
  assumes "mem_write buf off xs = Some buf'" and "off + length xs \<le> o2"
  shows "take n (drop o2 buf') = take n (drop o2 buf)"
  using assms by (auto simp: mem_write_def split: if_splits)

lemma mem_write_take:
  "mem_write buf off xs = Some buf' \<Longrightarrow> take (off + length xs) buf' = take off buf @ xs"
  by (auto simp: mem_write_def split: if_splits)

section \<open>Lists\<close>

definition last_n :: "nat \<Rightarrow> 'a list \<Rightarrow> 'a list" where
  "last_n n xs = drop (length xs - n) xs"

lemma last_n_short [simp]: "length xs \<le> n \<Longrightarrow> last_n n xs = xs"
  by (simp add: last_n_def)

lemma length_last_n [simp]: "length (last_n n xs) = min n (length xs)"
  by (auto simp: last_n_def)

lemma last_n_map: "map f (last_n n xs) = last_n n (map f xs)"
  by (simp add: last_n_def drop_map)

lemma set_last_n: "x \<in> set (last_n n xs) \<Longrightarrow> x \<in> set xs"
  by (auto simp: last_n_def dest: in_set_dropD)

lemma last_n_snoc:
  assumes "0 < n"
  shows "last_n n (last_n n xs @ ys) = last_n n (xs @ ys)"
proof (cases "length xs \<le> n")
  case False
  then have "last_n n (last_n n xs @ ys) = drop (length ys) (drop (length xs - n) xs @ ys)"
    by (simp add: last_n_def)
  also have "\<dots> = last_n n (xs @ ys)"
    using False by (simp add: last_n_def add.commute)
  finally show ?thesis .
qed simp

lemma map_upt_shift: "map f [Suc a..<Suc b] = map (\<lambda>k. f (Suc k)) [a..<b]"
  by (simp add: map_Suc_upt [symmetric] comp_def del: upt_Suc)

lemma bind_eq_Some_iff: "Option.bind x f = Some y \<longleftrightarrow> (\<exists>z. x = Some z \<and> f z = Some y)"
  by (cases x) auto

section \<open>Removing an array element by shifting\<close>

text \<open>The loop \<open>for (j = i; j < n - 1; j++) xs[j] = xs[j + 1]\<close> that several tables use.\<close>

function shift_down :: "'a list \<Rightarrow> nat \<Rightarrow> nat \<Rightarrow> 'a list" where
  "shift_down xs j n = (if Suc j < n then shift_down (xs[j := xs ! Suc j]) (Suc j) n else xs)"
  by pat_completeness auto

termination
  by (relation "measure (\<lambda>(xs, j, n). n - j)") auto

declare shift_down.simps [simp del]

definition remove_nth :: "nat \<Rightarrow> 'a list \<Rightarrow> 'a list" where
  "remove_nth i xs = take i xs @ drop (Suc i) xs"

lemma length_shift_down [simp]: "length (shift_down xs j n) = length xs"
proof (induction xs j n rule: shift_down.induct)
  case (1 xs j n)
  then show ?case
    by (cases "Suc j < n") (simp_all add: shift_down.simps [of xs j n])
qed

lemma shift_down_take:
  assumes "j < n" and "n \<le> length xs"
  shows "take (n - 1) (shift_down xs j n) = remove_nth j (take n xs)"
  using assms
proof (induction xs j n rule: shift_down.induct)
  case (1 xs j n)
  show ?case
  proof (cases "Suc j < n")
    case True
    have "take (n - 1) (shift_down xs j n) = remove_nth (Suc j) (take n (xs[j := xs ! Suc j]))"
      using 1 True by (simp add: shift_down.simps [of xs j n])
    also have "\<dots> = take j xs @ [xs ! Suc j] @ take (n - Suc (Suc j)) (drop (Suc (Suc j)) xs)"
      using True "1.prems" by (simp add: remove_nth_def drop_take take_Suc_conv_app_nth)
    also have "[xs ! Suc j] @ take (n - Suc (Suc j)) (drop (Suc (Suc j)) xs) = drop (Suc j) (take n xs)"
    proof -
      have "drop (Suc j) xs = xs ! Suc j # drop (Suc (Suc j)) xs"
        using True "1.prems" by (simp add: Cons_nth_drop_Suc)
      moreover have "n - Suc j = Suc (n - Suc (Suc j))"
        using True by simp
      ultimately show ?thesis
        by (simp add: drop_take)
    qed
    finally show ?thesis
      using True by (simp add: remove_nth_def)
  next
    case False
    then have "n = Suc j"
      using "1.prems" by simp
    then show ?thesis
      by (simp add: shift_down.simps [of xs j "Suc j"] remove_nth_def)
  qed
qed

lemma shift_down_drop: "n - 1 \<le> k \<Longrightarrow> drop k (shift_down xs j n) = drop k xs"
proof (induction xs j n rule: shift_down.induct)
  case (1 xs j n)
  then show ?case
    by (cases "Suc j < n") (simp_all add: shift_down.simps [of xs j n])
qed

lemma remove_nth_map: "map f (remove_nth i xs) = remove_nth i (map f xs)"
  by (simp add: remove_nth_def take_map drop_map)

lemma length_remove_nth: "i < length xs \<Longrightarrow> length (remove_nth i xs) = length xs - 1"
  by (simp add: remove_nth_def)

lemma set_remove_nth: "set (remove_nth i xs) \<subseteq> set xs"
  by (auto simp: remove_nth_def dest: in_set_takeD in_set_dropD)

lemma distinct_remove_nth: "distinct xs \<Longrightarrow> distinct (remove_nth i xs)"
  by (simp add: remove_nth_def set_take_disj_set_drop_if_distinct)

lemma remove_nth_remove1:
  assumes "distinct xs" and "i < length xs"
  shows "remove_nth i xs = remove1 (xs ! i) xs"
proof -
  have xs: "xs = take i xs @ xs ! i # drop (Suc i) xs"
    using assms(2) by (rule id_take_nth_drop)
  moreover have "xs ! i \<notin> set (take i xs)"
    using assms by (metis (no_types, lifting) in_set_conv_nth length_take less_imp_le_nat
        min.absorb2 nth_eq_iff_index_eq nth_take order_less_le_trans order_less_irrefl)
  ultimately show ?thesis
    by (metis remove1_append remove1.simps(2) remove_nth_def)
qed

section \<open>Loops that may fail\<close>

text \<open>A loop over the elements of a list that stops with \<open>None\<close> at the first failing step.\<close>

primrec mfold :: "('a \<Rightarrow> 's \<Rightarrow> 's option) \<Rightarrow> 'a list \<Rightarrow> 's \<Rightarrow> 's option" where
  "mfold f [] s = Some s"
| "mfold f (x # xs) s = Option.bind (f x s) (mfold f xs)"

lemma mfold_invariant:
  assumes "P s" and "\<And>x s. x \<in> set xs \<Longrightarrow> P s \<Longrightarrow> \<exists>s'. f x s = Some s' \<and> P s'"
  shows "\<exists>s'. mfold f xs s = Some s' \<and> P s'"
  using assms
proof (induction xs arbitrary: s)
  case (Cons x xs)
  obtain s1 where "f x s = Some s1" "P s1"
    using Cons.prems(2) [of x s] Cons.prems(1) by auto
  then show ?case
    using Cons.IH [of s1] Cons.prems(2) by auto
qed simp

lemma mfold_total: "(\<And>x s. x \<in> set xs \<Longrightarrow> \<exists>s'. f x s = Some s') \<Longrightarrow> \<exists>s'. mfold f xs s = Some s'"
  using mfold_invariant [of "\<lambda>_. True" s xs f] by simp

lemma mfold_upt:
  assumes "a \<le> b" and "P a s" and "\<And>i s. a \<le> i \<Longrightarrow> i < b \<Longrightarrow> P i s \<Longrightarrow> \<exists>s'. f i s = Some s' \<and> P (Suc i) s'"
  shows "\<exists>s'. mfold f [a..<b] s = Some s' \<and> P b s'"
  using assms
proof (induction "b - a" arbitrary: a s)
  case (Suc n)
  have ab: "a < b"
    using Suc.hyps(2) by simp
  obtain s1 where "f a s = Some s1" "P (Suc a) s1"
    using Suc.prems(3) [of a s] Suc.prems(2) ab by auto
  moreover have "\<exists>s'. mfold f [Suc a..<b] s1 = Some s' \<and> P b s'"
    using Suc.hyps Suc.prems(3) calculation(2) by (intro Suc.hyps(1)) auto
  ultimately show ?case
    using ab by (simp add: upt_rec [of a b])
qed simp

end
