(* ===== verification/Ring_Buffer.thy ===== *)
theory Ring_Buffer
  imports Prelude
begin

text \<open>
  The ring buffer of \<open>components/common\<close> (\<open>ring_buffer.c\<close>, \<open>ring_buffer.h\<close>).

  The storage is the byte array the caller hands to \<open>ringbuf_init\<close>; element \<open>i\<close> occupies the
  \<open>element_size\<close> bytes from \<open>i * element_size\<close>. The indices and the count are the C code's
  16-bit fields. A pointer argument that may be \<open>NULL\<close> is an option. The mutex is present or
  absent; taking it with \<open>portMAX_DELAY\<close> blocks until it is free, so every operation below is one
  critical section. \<open>configASSERT\<close> and an access outside the storage are the value \<open>None\<close>.

  The specification is a bounded queue: \<open>rb_items\<close> reads the queue off the storage, and the locale
  \<open>drop_oldest_fifo\<close> states what a client relies on.
\<close>

section \<open>State and operations\<close>

datatype rb_overflow_policy = RB_OVERFLOW_DROP_OLDEST | RB_OVERFLOW_DROP_NEWEST

record ring_buffer =
  rb_buffer :: "byte list"
  rb_element_size :: nat
  rb_capacity :: nat
  rb_read_idx :: nat
  rb_write_idx :: nat
  rb_count :: nat
  rb_mutex :: bool
  rb_overflow_policy :: rb_overflow_policy

definition ringbuf_next :: "ring_buffer \<Rightarrow> nat \<Rightarrow> nat" where
  "ringbuf_next rb index = u32 (index + 1) mod rb_capacity rb"

definition ringbuf_is_empty_unsafe :: "ring_buffer \<Rightarrow> bool" where
  "ringbuf_is_empty_unsafe rb \<longleftrightarrow> rb_count rb = 0"

definition ringbuf_is_full_unsafe :: "ring_buffer \<Rightarrow> bool" where
  "ringbuf_is_full_unsafe rb \<longleftrightarrow> rb_count rb = rb_capacity rb"

definition ringbuf_ptr :: "ring_buffer \<Rightarrow> nat \<Rightarrow> nat" where
  "ringbuf_ptr rb index = index * rb_element_size rb"

text \<open>
  \<open>ringbuf_init\<close>: \<open>rbp\<close> is the structure the pointer refers to, \<open>storage\<close> the array handed over
  and \<open>mutex_ok\<close> whether \<open>xSemaphoreCreateMutex\<close> returned a mutex.
\<close>

definition ringbuf_init ::
  "bool \<Rightarrow> ring_buffer option \<Rightarrow> byte list option \<Rightarrow> nat \<Rightarrow> nat \<Rightarrow> rb_overflow_policy \<Rightarrow>
   bool \<times> ring_buffer option" where
  "ringbuf_init mutex_ok rbp storage capacity element_size policy =
     (case (rbp, storage) of
        (Some rb, Some st) \<Rightarrow>
          if capacity < 1 \<or> element_size = 0 then (False, rbp)
          else (mutex_ok,
                Some (rb\<lparr>rb_buffer := st, rb_capacity := capacity, rb_element_size := element_size,
                         rb_read_idx := 0, rb_write_idx := 0, rb_count := 0,
                         rb_overflow_policy := policy, rb_mutex := mutex_ok\<rparr>))
      | _ \<Rightarrow> (False, rbp))"

definition ringbuf_deinit :: "ring_buffer option \<Rightarrow> ring_buffer option" where
  "ringbuf_deinit rbp =
     (case rbp of
        None \<Rightarrow> None
      | Some rb \<Rightarrow> if \<not> rb_mutex rb then Some rb else Some (rb\<lparr>rb_mutex := False\<rparr>))"

definition ringbuf_is_empty :: "ring_buffer option \<Rightarrow> bool" where
  "ringbuf_is_empty rbp =
     (case rbp of
        None \<Rightarrow> True
      | Some rb \<Rightarrow> if \<not> rb_mutex rb then True else ringbuf_is_empty_unsafe rb)"

definition ringbuf_is_full :: "ring_buffer option \<Rightarrow> bool" where
  "ringbuf_is_full rbp =
     (case rbp of
        None \<Rightarrow> True
      | Some rb \<Rightarrow> if \<not> rb_mutex rb then True else ringbuf_is_full_unsafe rb)"

definition ringbuf_clear :: "ring_buffer option \<Rightarrow> bool \<times> ring_buffer option" where
  "ringbuf_clear rbp =
     (case rbp of
        None \<Rightarrow> (False, None)
      | Some rb \<Rightarrow>
          if \<not> rb_mutex rb then (False, Some rb)
          else (True, Some (rb\<lparr>rb_read_idx := 0, rb_write_idx := 0, rb_count := 0\<rparr>)))"

text \<open>The critical section of \<open>ringbuf_pop\<close>: the copied element, when there is one.\<close>

definition ringbuf_pop_locked :: "ring_buffer \<Rightarrow> (byte list option \<times> ring_buffer) option" where
  "ringbuf_pop_locked rb =
     (if ringbuf_is_empty_unsafe rb then Some (None, rb)
      else do {
        item \<leftarrow> mem_read (rb_buffer rb) (ringbuf_ptr rb (rb_read_idx rb)) (rb_element_size rb);
        let rb' = rb\<lparr>rb_read_idx := ringbuf_next rb (rb_read_idx rb),
                     rb_count := u16_minus (rb_count rb) 1\<rparr>;
        if rb_count rb' \<le> rb_capacity rb' then Some (Some item, rb') else None
      })"

definition ringbuf_pop ::
  "ring_buffer option \<Rightarrow> bool \<Rightarrow> ((bool \<times> byte list option) \<times> ring_buffer option) option" where
  "ringbuf_pop rbp item_nonnull =
     (case rbp of
        None \<Rightarrow> Some ((False, None), None)
      | Some rb \<Rightarrow>
          if \<not> rb_mutex rb \<or> \<not> item_nonnull then Some ((False, None), rbp)
          else do {
            (item, rb') \<leftarrow> ringbuf_pop_locked rb;
            Some ((item \<noteq> None, item), Some rb')
          })"

text \<open>The critical section of \<open>ringbuf_push\<close>.\<close>

definition ringbuf_push_locked :: "ring_buffer \<Rightarrow> byte list \<Rightarrow> (bool \<times> ring_buffer) option" where
  "ringbuf_push_locked rb item =
     (if ringbuf_is_full_unsafe rb \<and> rb_overflow_policy rb = RB_OVERFLOW_DROP_NEWEST
      then Some (False, rb)
      else do {
        let rb1 = (if ringbuf_is_full_unsafe rb
                   then rb\<lparr>rb_count := u16_minus (rb_count rb) 1,
                           rb_read_idx := ringbuf_next rb (rb_read_idx rb)\<rparr>
                   else rb);
        buf \<leftarrow> mem_write (rb_buffer rb1) (ringbuf_ptr rb1 (rb_write_idx rb1))
                 (take (rb_element_size rb1) item);
        let rb2 = rb1\<lparr>rb_buffer := buf,
                      rb_write_idx := ringbuf_next rb1 (rb_write_idx rb1),
                      rb_count := u16 (rb_count rb1 + 1)\<rparr>;
        if rb_count rb2 \<le> rb_capacity rb2 then Some (True, rb2) else None
      })"

definition ringbuf_push ::
  "ring_buffer option \<Rightarrow> byte list option \<Rightarrow> (bool \<times> ring_buffer option) option" where
  "ringbuf_push rbp itemp =
     (case (rbp, itemp) of
        (Some rb, Some item) \<Rightarrow>
          if \<not> rb_mutex rb then Some (False, rbp)
          else do { (ok, rb') \<leftarrow> ringbuf_push_locked rb item; Some (ok, Some rb') }
      | _ \<Rightarrow> Some (False, rbp))"

definition ringbuf_capacity :: "ring_buffer option \<Rightarrow> nat" where
  "ringbuf_capacity rbp = (case rbp of Some rb \<Rightarrow> rb_capacity rb | None \<Rightarrow> 0)"

section \<open>Invariant and abstraction\<close>

definition rb_ok :: "ring_buffer \<Rightarrow> bool" where
  "rb_ok rb \<longleftrightarrow>
     0 < rb_capacity rb \<and> rb_capacity rb < 65536 \<and> 0 < rb_element_size rb \<and>
     rb_capacity rb * rb_element_size rb \<le> length (rb_buffer rb) \<and>
     rb_read_idx rb < rb_capacity rb \<and> rb_count rb \<le> rb_capacity rb \<and>
     rb_write_idx rb = (rb_read_idx rb + rb_count rb) mod rb_capacity rb"

definition rb_slot :: "ring_buffer \<Rightarrow> nat \<Rightarrow> byte list" where
  "rb_slot rb i = take (rb_element_size rb) (drop (i * rb_element_size rb) (rb_buffer rb))"

definition rb_items :: "ring_buffer \<Rightarrow> byte list list" where
  "rb_items rb =
     map (\<lambda>k. rb_slot rb ((rb_read_idx rb + k) mod rb_capacity rb)) [0..<rb_count rb]"

lemma length_rb_items [simp]: "length (rb_items rb) = rb_count rb"
  by (simp add: rb_items_def)

lemma rb_slot_in_buffer:
  assumes "rb_ok rb" and "i < rb_capacity rb"
  shows "i * rb_element_size rb + rb_element_size rb \<le> length (rb_buffer rb)"
proof -
  have "Suc i * rb_element_size rb \<le> rb_capacity rb * rb_element_size rb"
    using assms(2) by (intro mult_right_mono) simp_all
  then show ?thesis
    using assms(1) by (simp add: rb_ok_def)
qed

lemma ringbuf_next_ok:
  "rb_ok rb \<Longrightarrow> i < rb_capacity rb \<Longrightarrow> ringbuf_next rb i = Suc i mod rb_capacity rb"
  by (simp add: ringbuf_next_def rb_ok_def wrap_simps)

lemma ring_index_inj:
  fixes cap r k c :: nat
  assumes "k < c" and "c < cap"
  shows "(r + k) mod cap \<noteq> (r + c) mod cap"
proof
  assume "(r + k) mod cap = (r + c) mod cap"
  then have "cap dvd (r + c) - (r + k)"
    using assms mod_eq_dvd_iff_nat [of "r + k" "r + c" cap] by simp
  then have "cap \<le> c - k"
    using assms by (intro dvd_imp_le) simp_all
  then show False
    using assms by simp
qed

text \<open>Removing the oldest element, shared by \<open>ringbuf_pop\<close> and the overflow branch of \<open>ringbuf_push\<close>.\<close>

definition rb_drop :: "ring_buffer \<Rightarrow> ring_buffer" where
  "rb_drop rb = rb\<lparr>rb_read_idx := ringbuf_next rb (rb_read_idx rb),
                   rb_count := u16_minus (rb_count rb) 1\<rparr>"

lemma rb_drop_ok:
  assumes "rb_ok rb" and "0 < rb_count rb"
  shows "rb_ok (rb_drop rb)" and "rb_items (rb_drop rb) = tl (rb_items rb)"
    and "rb_count (rb_drop rb) = rb_count rb - 1"
proof -
  let ?cap = "rb_capacity rb" and ?r = "rb_read_idx rb" and ?c = "rb_count rb"
  have n: "ringbuf_next rb ?r = Suc ?r mod ?cap"
    using assms(1) by (simp add: ringbuf_next_ok rb_ok_def)
  have c: "u16_minus ?c (Suc 0) = ?c - 1"
    using assms u16_minus_id [of "Suc 0" ?c] by (simp add: rb_ok_def)
  have shift: "(Suc ?r mod ?cap + k) mod ?cap = (?r + Suc k) mod ?cap" for k
    by (simp add: mod_add_left_eq)
  have "(Suc ?r mod ?cap + (?c - 1)) mod ?cap = (?r + ?c) mod ?cap"
    using shift [of "?c - 1"] assms(2) by simp
  then show "rb_ok (rb_drop rb)"
    using assms by (auto simp: rb_ok_def rb_drop_def n c)
  show "rb_count (rb_drop rb) = rb_count rb - 1"
    by (simp add: rb_drop_def c)
  obtain m where m: "?c = Suc m"
    using assms(2) by (cases ?c) auto
  have "tl (rb_items rb) = map (\<lambda>k. rb_slot rb ((?r + k) mod ?cap)) [Suc 0..<Suc m]"
    by (simp add: rb_items_def m upt_conv_Cons del: upt_Suc)
  also have "\<dots> = rb_items (rb_drop rb)"
    using c m
    by (simp add: map_upt_shift rb_items_def rb_drop_def n shift rb_slot_def del: upt_Suc)
  finally show "rb_items (rb_drop rb) = tl (rb_items rb)"
    by simp
qed

lemma ringbuf_pop_locked_empty:
  "rb_items rb = [] \<Longrightarrow> ringbuf_pop_locked rb = Some (None, rb)"
  by (simp add: rb_items_def ringbuf_pop_locked_def ringbuf_is_empty_unsafe_def)

lemma ringbuf_pop_locked_some:
  assumes "rb_ok rb" and "rb_items rb \<noteq> []"
  shows "ringbuf_pop_locked rb = Some (Some (hd (rb_items rb)), rb_drop rb)"
proof -
  have c: "0 < rb_count rb"
    using assms(2) by (simp add: rb_items_def)
  have "hd (rb_items rb) = rb_slot rb (rb_read_idx rb)"
    using assms(1) c by (simp add: rb_items_def rb_ok_def upt_conv_Cons)
  moreover have "rb_count (rb_drop rb) \<le> rb_capacity (rb_drop rb)"
    using rb_drop_ok(1) [OF assms(1) c] by (simp add: rb_ok_def)
  ultimately show ?thesis
    using assms(1) c rb_slot_in_buffer [of rb "rb_read_idx rb"]
    by (simp add: ringbuf_pop_locked_def ringbuf_is_empty_unsafe_def ringbuf_ptr_def rb_slot_def
        rb_drop_def rb_ok_def Let_def mem_simps)
qed

text \<open>Writing one element behind the newest one.\<close>

lemma rb_append_ok:
  assumes ok: "rb_ok rb" and room: "rb_count rb < rb_capacity rb"
    and len: "length item = rb_element_size rb"
  obtains buf where
    "mem_write (rb_buffer rb) (ringbuf_ptr rb (rb_write_idx rb)) item = Some buf"
    and "rb_ok (rb\<lparr>rb_buffer := buf, rb_write_idx := ringbuf_next rb (rb_write_idx rb),
                   rb_count := u16 (rb_count rb + 1)\<rparr>)"
    and "rb_items (rb\<lparr>rb_buffer := buf, rb_write_idx := ringbuf_next rb (rb_write_idx rb),
                   rb_count := u16 (rb_count rb + 1)\<rparr>) = rb_items rb @ [item]"
    and "u16 (rb_count rb + 1) = Suc (rb_count rb)"
proof -
  let ?cap = "rb_capacity rb" and ?w = "rb_write_idx rb" and ?es = "rb_element_size rb"
  let ?r = "rb_read_idx rb" and ?c = "rb_count rb"
  have w: "?w < ?cap" and weq: "?w = (?r + ?c) mod ?cap"
    using ok by (auto simp: rb_ok_def)
  obtain buf where buf: "mem_write (rb_buffer rb) (?w * ?es) item = Some buf"
    using rb_slot_in_buffer [OF ok w] len by (simp add: mem_simps)
  let ?rb' = "rb\<lparr>rb_buffer := buf, rb_write_idx := ringbuf_next rb ?w, rb_count := u16 (?c + 1)\<rparr>"
  have cnt: "u16 (Suc ?c) = Suc ?c"
    using ok room by (simp add: rb_ok_def wrap_simps)
  have nxt: "ringbuf_next rb ?w = (?r + Suc ?c) mod ?cap"
    using ringbuf_next_ok [OF ok w] by (simp add: weq mod_Suc_eq)
  have ok': "rb_ok ?rb'"
    using ok room mem_write_length [OF buf] nxt by (auto simp: rb_ok_def cnt)
  have other: "rb_slot ?rb' i = rb_slot rb i" if "i \<noteq> ?w" for i
  proof (cases "i < ?w")
    case True
    then have "Suc i * ?es \<le> ?w * ?es"
      by (intro mult_right_mono) simp_all
    then show ?thesis
      using mem_write_below [OF buf, of "i * ?es" ?es] by (simp add: rb_slot_def add.commute)
  next
    case False
    then have "Suc ?w * ?es \<le> i * ?es"
      using that by (intro mult_right_mono) simp_all
    then show ?thesis
      using mem_write_above [OF buf, of "i * ?es" ?es] len by (simp add: rb_slot_def add.commute)
  qed
  have same: "rb_slot ?rb' ?w = item"
    using mem_write_same [OF buf] len by (simp add: rb_slot_def)
  define slot' where "slot' = rb_slot ?rb'"
  have "slot' ((?r + k) mod ?cap) = rb_slot rb ((?r + k) mod ?cap)" if "k < ?c" for k
    unfolding slot'_def using that room by (intro other) (simp add: weq ring_index_inj)
  moreover have "slot' ((?r + ?c) mod ?cap) = item"
    using same by (simp only: slot'_def weq)
  moreover have "rb_items ?rb' = map (\<lambda>k. slot' ((?r + k) mod ?cap)) ([0..<?c] @ [?c])"
    by (simp add: rb_items_def cnt slot'_def)
  ultimately have "rb_items ?rb' = rb_items rb @ [item]"
    by (simp add: rb_items_def)
  then show thesis
    using buf ok' cnt that by (simp add: ringbuf_ptr_def)
qed

text \<open>What no operation but \<open>ringbuf_init\<close> and \<open>ringbuf_deinit\<close> changes.\<close>

definition rb_config :: "ring_buffer \<Rightarrow> nat \<times> nat \<times> rb_overflow_policy \<times> bool" where
  "rb_config rb = (rb_capacity rb, rb_element_size rb, rb_overflow_policy rb, rb_mutex rb)"

lemma ringbuf_push_locked_room:
  assumes "rb_ok rb" and "rb_count rb < rb_capacity rb" and "length item = rb_element_size rb"
  shows "\<exists>rb'. ringbuf_push_locked rb item = Some (True, rb') \<and> rb_ok rb' \<and>
           rb_items rb' = rb_items rb @ [item] \<and> rb_config rb' = rb_config rb"
proof -
  obtain buf where *:
    "mem_write (rb_buffer rb) (ringbuf_ptr rb (rb_write_idx rb)) item = Some buf"
    "rb_ok (rb\<lparr>rb_buffer := buf, rb_write_idx := ringbuf_next rb (rb_write_idx rb),
                rb_count := u16 (rb_count rb + 1)\<rparr>)"
    "rb_items (rb\<lparr>rb_buffer := buf, rb_write_idx := ringbuf_next rb (rb_write_idx rb),
                rb_count := u16 (rb_count rb + 1)\<rparr>) = rb_items rb @ [item]"
    "u16 (rb_count rb + 1) = Suc (rb_count rb)"
    using rb_append_ok [OF assms] .
  then show ?thesis
    using assms
    by (intro exI [of _ "rb\<lparr>rb_buffer := buf, rb_write_idx := ringbuf_next rb (rb_write_idx rb),
                           rb_count := u16 (rb_count rb + 1)\<rparr>"])
      (simp add: ringbuf_push_locked_def ringbuf_is_full_unsafe_def rb_config_def)
qed

lemma rb_drop_swap:
  "rb\<lparr>rb_count := u16_minus (rb_count rb) 1, rb_read_idx := ringbuf_next rb (rb_read_idx rb)\<rparr> =
   rb_drop rb"
  by (cases rb) (simp add: rb_drop_def)

lemma ringbuf_push_locked_full_oldest:
  assumes "rb_ok rb" and full: "rb_count rb = rb_capacity rb"
    and pol: "rb_overflow_policy rb = RB_OVERFLOW_DROP_OLDEST"
  shows "ringbuf_push_locked rb item = ringbuf_push_locked (rb_drop rb) item"
proof -
  have "0 < rb_count rb"
    using assms by (simp add: rb_ok_def)
  then have "rb_count (rb_drop rb) \<noteq> rb_capacity (rb_drop rb)"
    using rb_drop_ok(3) [OF assms(1)] full by (simp add: rb_drop_def)
  then show ?thesis
    using full pol
    unfolding ringbuf_push_locked_def ringbuf_is_full_unsafe_def Let_def rb_drop_swap by simp
qed

lemma rb_drop_simps [simp]:
  "rb_capacity (rb_drop rb) = rb_capacity rb"
  "rb_element_size (rb_drop rb) = rb_element_size rb"
  "rb_overflow_policy (rb_drop rb) = rb_overflow_policy rb"
  "rb_mutex (rb_drop rb) = rb_mutex rb"
  by (simp_all add: rb_drop_def)

text \<open>The push that drops the oldest element keeps the newest \<open>capacity\<close> elements.\<close>

lemma ringbuf_push_locked_oldest:
  assumes ok: "rb_ok rb" and pol: "rb_overflow_policy rb = RB_OVERFLOW_DROP_OLDEST"
    and len: "length item = rb_element_size rb"
  shows "\<exists>rb'. ringbuf_push_locked rb item = Some (True, rb') \<and> rb_ok rb' \<and>
           rb_items rb' = last_n (rb_capacity rb) (rb_items rb @ [item]) \<and>
           rb_config rb' = rb_config rb"
proof (cases "rb_count rb < rb_capacity rb")
  case True
  then show ?thesis
    using ringbuf_push_locked_room [OF ok True len] by simp
next
  case False
  then have full: "rb_count rb = rb_capacity rb" and pos: "0 < rb_count rb"
    using ok by (auto simp: rb_ok_def)
  note d = rb_drop_ok [OF ok pos]
  have tl: "tl (rb_items rb) @ [item] = last_n (rb_capacity rb) (rb_items rb @ [item])"
    using full pos length_rb_items [of rb] by (cases "rb_items rb") (auto simp: last_n_def)
  have "\<exists>rb'. ringbuf_push_locked (rb_drop rb) item = Some (True, rb') \<and> rb_ok rb' \<and>
           rb_items rb' = rb_items (rb_drop rb) @ [item] \<and> rb_config rb' = rb_config (rb_drop rb)"
    using d full pos len by (intro ringbuf_push_locked_room) simp_all
  then show ?thesis
    unfolding ringbuf_push_locked_full_oldest [OF ok full pol] d(2) tl
    by (simp add: rb_config_def)
qed

lemma ringbuf_push_locked_newest:
  assumes "rb_count rb = rb_capacity rb" and "rb_overflow_policy rb = RB_OVERFLOW_DROP_NEWEST"
  shows "ringbuf_push_locked rb item = Some (False, rb)"
  using assms by (simp add: ringbuf_push_locked_def ringbuf_is_full_unsafe_def)

section \<open>The queue interface\<close>

text \<open>
  What the users of a queue rely on. \<open>pop\<close> returns no element exactly when the queue is empty and
  the oldest element otherwise; a push on a full queue discards the oldest element.
\<close>

primrec push_all :: "('s \<Rightarrow> 'a \<Rightarrow> (bool \<times> 's) option) \<Rightarrow> 's \<Rightarrow> 'a list \<Rightarrow> 's option" where
  "push_all push s [] = Some s"
| "push_all push s (x # xs) = do { (ok, s') \<leftarrow> push s x; push_all push s' xs }"

primrec pop_n :: "('s \<Rightarrow> ('a option \<times> 's) option) \<Rightarrow> nat \<Rightarrow> 's \<Rightarrow> ('a list \<times> 's) option" where
  "pop_n pop 0 s = Some ([], s)"
| "pop_n pop (Suc n) s =
     do { (r, s') \<leftarrow> pop s;
          case r of None \<Rightarrow> Some ([], s')
          | Some x \<Rightarrow> do { (xs, s'') \<leftarrow> pop_n pop n s'; Some (x # xs, s'') } }"

locale fifo =
  fixes pop :: "'s \<Rightarrow> ('a option \<times> 's) option"
    and invar :: "'s \<Rightarrow> bool"
    and items :: "'s \<Rightarrow> 'a list"
  assumes pop_empty: "invar s \<Longrightarrow> items s = [] \<Longrightarrow> pop s = Some (None, s)"
    and pop_Cons: "invar s \<Longrightarrow> items s = x # xs \<Longrightarrow>
      \<exists>s'. pop s = Some (Some x, s') \<and> invar s' \<and> items s' = xs"
begin

lemma pop_total: "invar s \<Longrightarrow> \<exists>r s'. pop s = Some (r, s') \<and> invar s'"
  using pop_empty [of s] pop_Cons [of s] by (cases "items s") auto

lemma pop_n_items:
  assumes "invar s"
  shows "\<exists>s'. pop_n pop n s = Some (take n (items s), s') \<and> invar s' \<and> items s' = drop n (items s)"
  using assms
proof (induction n arbitrary: s)
  case (Suc n)
  show ?case
  proof (cases "items s")
    case Nil
    then show ?thesis
      using Suc.prems pop_empty [of s] by simp
  next
    case (Cons x xs)
    then obtain s1 where "pop s = Some (Some x, s1)" "invar s1" "items s1 = xs"
      using Suc.prems pop_Cons by blast
    then show ?thesis
      using Suc.IH [of s1] Cons by auto
  qed
qed simp

end

locale drop_oldest_fifo = fifo pop invar items
  for pop :: "'s \<Rightarrow> ('a option \<times> 's) option" and invar :: "'s \<Rightarrow> bool" and items :: "'s \<Rightarrow> 'a list" +
  fixes push :: "'s \<Rightarrow> 'a \<Rightarrow> (bool \<times> 's) option"
    and admits :: "'s \<Rightarrow> 'a \<Rightarrow> bool"
    and cap :: "'s \<Rightarrow> nat"
  assumes cap_pos: "invar s \<Longrightarrow> 0 < cap s"
    and items_bound: "invar s \<Longrightarrow> length (items s) \<le> cap s"
    and push_ok: "invar s \<Longrightarrow> admits s x \<Longrightarrow>
      \<exists>s'. push s x = Some (True, s') \<and> invar s' \<and> items s' = last_n (cap s) (items s @ [x]) \<and>
           cap s' = cap s \<and> admits s' = admits s"
begin

lemma push_all_items:
  assumes "invar s" and "\<forall>x \<in> set xs. admits s x"
  shows "\<exists>s'. push_all push s xs = Some s' \<and> invar s' \<and> items s' = last_n (cap s) (items s @ xs)"
  using assms
proof (induction xs arbitrary: s)
  case Nil
  then show ?case
    using items_bound by simp
next
  case (Cons x xs)
  then obtain s1 where s1: "push s x = Some (True, s1)" "invar s1"
    "items s1 = last_n (cap s) (items s @ [x])" "cap s1 = cap s" "admits s1 = admits s"
    using push_ok [of s x] by auto
  then obtain s2 where "push_all push s1 xs = Some s2" "invar s2"
    "items s2 = last_n (cap s) (items s1 @ xs)"
    using Cons.IH [of s1] Cons.prems(2) by auto
  then show ?case
    using s1 last_n_snoc [of "cap s" "items s @ [x]" xs] cap_pos [OF Cons.prems(1)] by simp
qed

text \<open>Everything pushed comes out in order, except that only the newest \<open>cap\<close> elements survive.\<close>

lemma push_all_pop_n:
  assumes "invar s" and "\<forall>x \<in> set xs. admits s x" and "cap s \<le> n"
  shows "\<exists>s1 s2. push_all push s xs = Some s1 \<and>
           pop_n pop n s1 = Some (last_n (cap s) (items s @ xs), s2) \<and> items s2 = []"
proof -
  obtain s1 where s1: "push_all push s xs = Some s1" "invar s1"
    "items s1 = last_n (cap s) (items s @ xs)"
    using push_all_items [OF assms(1,2)] by blast
  then show ?thesis
    using pop_n_items [of s1 n] assms(3) by (auto simp: min_def)
qed

end

text \<open>The ring buffer with the policy \<open>RB_OVERFLOW_DROP_OLDEST\<close> is such a queue.\<close>

definition rb_oldest_ok :: "ring_buffer \<Rightarrow> bool" where
  "rb_oldest_ok rb \<longleftrightarrow> rb_ok rb \<and> rb_mutex rb \<and> rb_overflow_policy rb = RB_OVERFLOW_DROP_OLDEST"

definition rb_admits :: "ring_buffer \<Rightarrow> byte list \<Rightarrow> bool" where
  "rb_admits rb item \<longleftrightarrow> length item = rb_element_size rb"

interpretation ring: drop_oldest_fifo
  ringbuf_pop_locked rb_oldest_ok rb_items ringbuf_push_locked rb_admits rb_capacity
proof (unfold_locales, goal_cases)
  case (1 s)
  then show ?case
    by (simp add: ringbuf_pop_locked_empty)
next
  case (2 s x xs)
  then show ?case
    using rb_drop_ok [of s] ringbuf_pop_locked_some [of s] length_rb_items [of s]
    by (simp add: rb_oldest_ok_def)
next
  case (5 s x)
  then show ?case
    using ringbuf_push_locked_oldest [of s x]
    by (force simp: rb_oldest_ok_def rb_admits_def rb_config_def fun_eq_iff)
qed (simp_all add: rb_oldest_ok_def rb_ok_def)

section \<open>Properties\<close>

text \<open>
  C6: pushing any sequence of elements of the configured size on a ring buffer with the
  drop-oldest policy and then popping returns exactly the newest \<open>capacity\<close> elements in the order
  they were pushed, whatever the indices were; no assertion of the code fires and no byte outside
  the storage is touched.
\<close>

theorem ringbuf_fifo_order:
  assumes "rb_ok rb" and "rb_mutex rb" and "rb_overflow_policy rb = RB_OVERFLOW_DROP_OLDEST"
    and "\<forall>x \<in> set xs. length x = rb_element_size rb"
  shows "\<exists>rb1 rb2. push_all ringbuf_push_locked rb xs = Some rb1 \<and>
           pop_n ringbuf_pop_locked (rb_capacity rb) rb1 =
             Some (last_n (rb_capacity rb) (rb_items rb @ xs), rb2) \<and>
           rb_items rb2 = []"
  using assms by (intro ring.push_all_pop_n) (simp_all add: rb_oldest_ok_def rb_admits_def)

definition rb_example :: ring_buffer where
  "rb_example = \<lparr>rb_buffer = [0, 0, 0, 0], rb_element_size = 2, rb_capacity = 2, rb_read_idx = 1,
     rb_write_idx = 1, rb_count = 0, rb_mutex = True,
     rb_overflow_policy = RB_OVERFLOW_DROP_OLDEST\<rparr>"

theorem ringbuf_fifo_order_witness:
  "\<exists>rb1 rb2. push_all ringbuf_push_locked rb_example [[1, 2], [3, 4], [5, 6]] = Some rb1 \<and>
     pop_n ringbuf_pop_locked 2 rb1 = Some ([[3, 4], [5, 6]], rb2) \<and> rb_items rb2 = []"
  using ringbuf_fifo_order [of rb_example "[[1, 2], [3, 4], [5, 6]]"]
  by (simp add: rb_example_def rb_ok_def rb_items_def last_n_def)

text \<open>
  A push on a full ring buffer with the drop-newest policy is refused and leaves the buffer
  as it was; below capacity it appends the element.
\<close>

lemma ringbuf_push_drop_newest:
  assumes "rb_ok rb" and "rb_mutex rb" and "rb_overflow_policy rb = RB_OVERFLOW_DROP_NEWEST"
    and "length item = rb_element_size rb"
  shows "\<exists>rb'. ringbuf_push (Some rb) (Some item) = Some (rb_count rb < rb_capacity rb, Some rb') \<and>
           rb_ok rb' \<and>
           rb_items rb' = (if rb_count rb < rb_capacity rb then rb_items rb @ [item] else rb_items rb)"
proof (cases "rb_count rb < rb_capacity rb")
  case True
  then show ?thesis
    using assms ringbuf_push_locked_room [of rb item] by (auto simp: ringbuf_push_def)
next
  case False
  then show ?thesis
    using assms ringbuf_push_locked_newest [of rb item]
    by (auto simp: ringbuf_push_def rb_ok_def)
qed

lemma ringbuf_push_drop_newest_witness:
  "\<exists>rb'. ringbuf_push (Some (rb_example\<lparr>rb_overflow_policy := RB_OVERFLOW_DROP_NEWEST\<rparr>))
            (Some [7, 8]) = Some (True, Some rb') \<and> rb_items rb' = [[7, 8]]"
  using ringbuf_push_drop_newest
    [of "rb_example\<lparr>rb_overflow_policy := RB_OVERFLOW_DROP_NEWEST\<rparr>" "[7, 8]"]
  by (auto simp: rb_example_def rb_ok_def rb_items_def)

text \<open>
  A buffer that \<open>ringbuf_init\<close> accepts satisfies the invariant and is empty, provided the storage is
  as large as the caller says.
\<close>

lemma ringbuf_init_ok:
  assumes "capacity < 65536" and "capacity * element_size \<le> length st"
    and "ringbuf_init mutex_ok rbp (Some st) capacity element_size policy = (True, rbp')"
  shows "\<exists>rb. rbp' = Some rb \<and> rb_ok rb \<and> rb_mutex rb \<and> rb_items rb = [] \<and>
           rb_config rb = (capacity, element_size, policy, True)"
  using assms
  by (auto simp: ringbuf_init_def rb_ok_def rb_items_def rb_config_def split: option.splits if_splits)

lemma ringbuf_clear_ok:
  assumes "rb_ok rb" and "rb_mutex rb"
  shows "\<exists>rb'. ringbuf_clear (Some rb) = (True, Some rb') \<and> rb_ok rb' \<and> rb_items rb' = [] \<and>
           rb_config rb' = rb_config rb"
  using assms by (auto simp: ringbuf_clear_def rb_ok_def rb_items_def rb_config_def)

lemma ringbuf_is_empty_iff:
  "rb_mutex rb \<Longrightarrow> ringbuf_is_empty (Some rb) \<longleftrightarrow> rb_items rb = []"
  by (simp add: ringbuf_is_empty_def ringbuf_is_empty_unsafe_def rb_items_def)

end
