(* ===== verification/Ble_Fifo.thy ===== *)
theory Ble_Fifo
  imports Ring_Buffer
begin

text \<open>
  The message type of the BLE link (\<open>ble_types.h\<close>, \<open>ble_consts.h\<close>) and its transmit and receive
  queues (\<open>ble_fifo.c\<close>), two ring buffers of \<open>BLE_FIFO_SIZE\<close> messages over static storage.

  A \<open>ble_msg_t\<close> has no padding (all its members are bytes), so the object copied by \<open>memcpy\<close> is
  the three header bytes followed by the payload array; \<open>ble_msg_bytes\<close> and \<open>ble_msg_of_bytes\<close>
  are this representation. The static arrays are the \<open>rb_buffer\<close> of the two static ring buffers
  from the start, so the storage handed to \<open>ringbuf_init\<close> is that array.
\<close>

section \<open>Messages\<close>

definition BLE_MAX_PAYLOAD_SIZE :: nat where "BLE_MAX_PAYLOAD_SIZE = 250"
definition BLE_FIFO_SIZE :: nat where "BLE_FIFO_SIZE = 20"
definition BLE_MAGIC :: byte where "BLE_MAGIC = 0xA5"
definition BLE_HDR_SIZE :: nat where "BLE_HDR_SIZE = 3"

definition BLE_OP_TIME_UPDATE :: byte where "BLE_OP_TIME_UPDATE = 0x01"
definition BLE_OP_WEATHER_UPDATE :: byte where "BLE_OP_WEATHER_UPDATE = 0x02"
definition BLE_OP_DATED_WEATHER_QUERY :: byte where "BLE_OP_DATED_WEATHER_QUERY = 0x03"
definition BLE_OP_NOTIFICATION_SEND :: byte where "BLE_OP_NOTIFICATION_SEND = 0x04"
definition BLE_OP_MULTICHUNK_SEND :: byte where "BLE_OP_MULTICHUNK_SEND = 0xF0"

lemmas ble_consts =
  BLE_MAX_PAYLOAD_SIZE_def BLE_FIFO_SIZE_def BLE_MAGIC_def BLE_HDR_SIZE_def

lemmas ble_opcodes =
  BLE_OP_TIME_UPDATE_def BLE_OP_WEATHER_UPDATE_def BLE_OP_DATED_WEATHER_QUERY_def
  BLE_OP_NOTIFICATION_SEND_def BLE_OP_MULTICHUNK_SEND_def

datatype ble_comm_type = BLE_TX | BLE_RX

record ble_msg_hdr =
  h_opcode :: byte
  h_req_app :: byte
  h_len :: byte

record ble_msg =
  m_hdr :: ble_msg_hdr
  m_payload :: "byte list"

text \<open>The C type: a payload array of fixed size. \<open>ble_msg_ok\<close> adds the length bound of the queue.\<close>

definition ble_msg_typed :: "ble_msg \<Rightarrow> bool" where
  "ble_msg_typed m \<longleftrightarrow> length (m_payload m) = BLE_MAX_PAYLOAD_SIZE"

definition ble_msg_ok :: "ble_msg \<Rightarrow> bool" where
  "ble_msg_ok m \<longleftrightarrow> ble_msg_typed m \<and> unat (h_len (m_hdr m)) \<le> BLE_MAX_PAYLOAD_SIZE"

definition ble_msg_bytes :: "ble_msg \<Rightarrow> byte list" where
  "ble_msg_bytes m = h_opcode (m_hdr m) # h_req_app (m_hdr m) # h_len (m_hdr m) # m_payload m"

definition ble_msg_of_bytes :: "byte list \<Rightarrow> ble_msg" where
  "ble_msg_of_bytes bs =
     \<lparr>m_hdr = \<lparr>h_opcode = bs ! 0, h_req_app = bs ! 1, h_len = bs ! 2\<rparr>, m_payload = drop 3 bs\<rparr>"

definition sizeof_ble_msg :: nat where
  "sizeof_ble_msg = BLE_HDR_SIZE + BLE_MAX_PAYLOAD_SIZE"

lemma ble_msg_of_bytes_inverse [simp]: "ble_msg_of_bytes (ble_msg_bytes m) = m"
  by (simp add: ble_msg_of_bytes_def ble_msg_bytes_def)

lemma length_ble_msg_bytes: "ble_msg_typed m \<Longrightarrow> length (ble_msg_bytes m) = sizeof_ble_msg"
  by (simp add: ble_msg_bytes_def ble_msg_typed_def sizeof_ble_msg_def ble_consts)

text \<open>The bytes of a message that count: header fields and the first \<open>len\<close> payload bytes.\<close>

definition msg_data :: "ble_msg \<Rightarrow> byte list" where
  "msg_data m = take (unat (h_len (m_hdr m))) (m_payload m)"

lemma length_msg_data: "ble_msg_ok m \<Longrightarrow> length (msg_data m) = unat (h_len (m_hdr m))"
  by (simp add: msg_data_def ble_msg_ok_def ble_msg_typed_def)

section \<open>The two queues\<close>

record ble_fifo =
  tx_fifo :: ring_buffer
  rx_fifo :: ring_buffer

definition get_fifo :: "ble_comm_type \<Rightarrow> ble_fifo \<Rightarrow> ring_buffer" where
  "get_fifo type q = (case type of BLE_TX \<Rightarrow> tx_fifo q | BLE_RX \<Rightarrow> rx_fifo q)"

definition put_fifo :: "ble_comm_type \<Rightarrow> ring_buffer \<Rightarrow> ble_fifo \<Rightarrow> ble_fifo" where
  "put_fifo type rb q = (case type of BLE_TX \<Rightarrow> q\<lparr>tx_fifo := rb\<rparr> | BLE_RX \<Rightarrow> q\<lparr>rx_fifo := rb\<rparr>)"

text \<open>\<open>mtx\<close> and \<open>mrx\<close> tell whether the two mutexes could be created.\<close>

definition ble_fifo_init :: "bool \<Rightarrow> bool \<Rightarrow> ble_fifo \<Rightarrow> bool \<times> ble_fifo" where
  "ble_fifo_init mtx mrx q =
     (let (ok1, tx) = ringbuf_init mtx (Some (tx_fifo q)) (Some (rb_buffer (tx_fifo q)))
                        BLE_FIFO_SIZE sizeof_ble_msg RB_OVERFLOW_DROP_OLDEST;
          (ok2, rx) = ringbuf_init mrx (Some (rx_fifo q)) (Some (rb_buffer (rx_fifo q)))
                        BLE_FIFO_SIZE sizeof_ble_msg RB_OVERFLOW_DROP_OLDEST
      in (ok1 \<and> ok2, q\<lparr>tx_fifo := the tx, rx_fifo := the rx\<rparr>))"

definition ble_fifo_deinit :: "ble_fifo \<Rightarrow> ble_fifo" where
  "ble_fifo_deinit q =
     q\<lparr>tx_fifo := the (ringbuf_deinit (Some (tx_fifo q))),
       rx_fifo := the (ringbuf_deinit (Some (rx_fifo q)))\<rparr>"

definition add_ble_msg_to_queue ::
  "ble_msg option \<Rightarrow> ble_comm_type \<Rightarrow> ble_fifo \<Rightarrow> (bool \<times> ble_fifo) option" where
  "add_ble_msg_to_queue msgp type q =
     (case msgp of
        None \<Rightarrow> Some (False, q)
      | Some msg \<Rightarrow>
          if unat (h_len (m_hdr msg)) > BLE_MAX_PAYLOAD_SIZE then Some (False, q)
          else do {
            (ok, rb) \<leftarrow> ringbuf_push (Some (get_fifo type q)) (Some (ble_msg_bytes msg));
            Some (ok, put_fifo type (the rb) q)
          })"

text \<open>\<open>get_next_ble_msg\<close> returns true exactly when it fills \<open>*msg\<close>: the message is the result.\<close>

definition get_next_ble_msg ::
  "bool \<Rightarrow> ble_comm_type \<Rightarrow> ble_fifo \<Rightarrow> (ble_msg option \<times> ble_fifo) option" where
  "get_next_ble_msg msg_nonnull type q =
     (if \<not> msg_nonnull then Some (None, q)
      else do {
        ((ok, item), rb) \<leftarrow> ringbuf_pop (Some (get_fifo type q)) True;
        Some (if ok then map_option ble_msg_of_bytes item else None, put_fifo type (the rb) q)
      })"

lemma get_put_fifo [simp]:
  "get_fifo t (put_fifo t rb q) = rb"
  "t \<noteq> t' \<Longrightarrow> get_fifo t (put_fifo t' rb q) = get_fifo t q"
  by (cases t; cases t'; simp add: get_fifo_def put_fifo_def)+

section \<open>Invariant and queue contents\<close>

definition msg_ring_ok :: "ring_buffer \<Rightarrow> bool" where
  "msg_ring_ok rb \<longleftrightarrow>
     rb_oldest_ok rb \<and> rb_capacity rb = BLE_FIFO_SIZE \<and> rb_element_size rb = sizeof_ble_msg \<and>
     (\<forall>bs \<in> set (rb_items rb). \<exists>m. ble_msg_ok m \<and> bs = ble_msg_bytes m)"

definition ble_fifo_ok :: "ble_fifo \<Rightarrow> bool" where
  "ble_fifo_ok q \<longleftrightarrow> msg_ring_ok (tx_fifo q) \<and> msg_ring_ok (rx_fifo q)"

definition ble_items :: "ble_comm_type \<Rightarrow> ble_fifo \<Rightarrow> ble_msg list" where
  "ble_items t q = map ble_msg_of_bytes (rb_items (get_fifo t q))"

lemma ble_fifo_ok_alt: "ble_fifo_ok q \<longleftrightarrow> (\<forall>t. msg_ring_ok (get_fifo t q))"
proof
  assume "ble_fifo_ok q"
  then show "\<forall>t. msg_ring_ok (get_fifo t q)"
    by (auto simp: ble_fifo_ok_def get_fifo_def split: ble_comm_type.split)
next
  assume "\<forall>t. msg_ring_ok (get_fifo t q)"
  then have "msg_ring_ok (get_fifo BLE_TX q)" and "msg_ring_ok (get_fifo BLE_RX q)"
    by blast+
  then show "ble_fifo_ok q"
    by (simp add: ble_fifo_ok_def get_fifo_def)
qed

lemma ble_fifo_ok_put:
  assumes "ble_fifo_ok q" and "msg_ring_ok rb"
  shows "ble_fifo_ok (put_fifo t rb q)"
  using assms by (cases t) (simp_all add: ble_fifo_ok_def put_fifo_def)

lemma ble_items_ok: "ble_fifo_ok q \<Longrightarrow> m \<in> set (ble_items t q) \<Longrightarrow> ble_msg_ok m"
  by (fastforce simp: ble_items_def ble_fifo_ok_alt msg_ring_ok_def)

lemma ble_items_put_other: "t \<noteq> t' \<Longrightarrow> ble_items t (put_fifo t' rb q) = ble_items t q"
  by (simp add: ble_items_def)

lemma add_ble_msg_ok:
  assumes ok: "ble_fifo_ok q" and m: "ble_msg_ok m"
  shows "\<exists>q'. add_ble_msg_to_queue (Some m) t q = Some (True, q') \<and> ble_fifo_ok q' \<and>
           ble_items t q' = last_n BLE_FIFO_SIZE (ble_items t q @ [m]) \<and>
           (\<forall>t'. t' \<noteq> t \<longrightarrow> ble_items t' q' = ble_items t' q)"
proof -
  let ?rb = "get_fifo t q"
  have rb: "msg_ring_ok ?rb"
    using ok by (simp add: ble_fifo_ok_alt)
  then obtain rb' where rb': "ringbuf_push_locked ?rb (ble_msg_bytes m) = Some (True, rb')"
    "rb_oldest_ok rb'" "rb_items rb' = last_n BLE_FIFO_SIZE (rb_items ?rb @ [ble_msg_bytes m])"
    "rb_capacity rb' = BLE_FIFO_SIZE" "rb_admits rb' = rb_admits ?rb"
    using ring.push_ok [of ?rb "ble_msg_bytes m"] m
    by (auto simp: msg_ring_ok_def rb_admits_def ble_msg_ok_def length_ble_msg_bytes)
  have "rb_element_size rb' = sizeof_ble_msg"
    using rb fun_cong [OF rb'(5), of "replicate sizeof_ble_msg 0"]
    by (simp add: rb_admits_def [abs_def] msg_ring_ok_def)
  then have "msg_ring_ok rb'"
    using rb rb' m by (auto simp: msg_ring_ok_def dest!: set_last_n)
  moreover have "rb_mutex ?rb"
    using rb by (simp add: msg_ring_ok_def rb_oldest_ok_def)
  ultimately show ?thesis
    using rb' m ble_fifo_ok_put [OF ok]
    by (auto simp: add_ble_msg_to_queue_def ringbuf_push_def ble_msg_ok_def ble_items_def
        last_n_map)
qed

lemma get_next_ble_msg_Cons:
  assumes ok: "ble_fifo_ok q" and "ble_items t q = m # ms"
  shows "\<exists>q'. get_next_ble_msg True t q = Some (Some m, q') \<and> ble_fifo_ok q' \<and>
           ble_items t q' = ms \<and> (\<forall>t'. t' \<noteq> t \<longrightarrow> ble_items t' q' = ble_items t' q)"
proof -
  let ?rb = "get_fifo t q"
  have rb: "msg_ring_ok ?rb"
    using ok by (simp add: ble_fifo_ok_alt)
  obtain b bs where b: "rb_items ?rb = b # bs" "m = ble_msg_of_bytes b" "ms = map ble_msg_of_bytes bs"
    using assms(2) by (auto simp: ble_items_def)
  have "rb_ok ?rb" and "rb_mutex ?rb" and pos: "0 < rb_count ?rb"
    using rb b length_rb_items [of ?rb] by (simp_all add: msg_ring_ok_def rb_oldest_ok_def)
  moreover have "msg_ring_ok (rb_drop ?rb)"
    using rb b rb_drop_ok [OF \<open>rb_ok ?rb\<close> pos] by (simp add: msg_ring_ok_def rb_oldest_ok_def)
  ultimately show ?thesis
    using b ringbuf_pop_locked_some [of ?rb] rb_drop_ok [of ?rb] ble_fifo_ok_put [OF ok]
    by (simp add: get_next_ble_msg_def ringbuf_pop_def ble_items_def)
qed

lemma get_next_ble_msg_Nil:
  assumes "ble_fifo_ok q" and "ble_items t q = []"
  shows "get_next_ble_msg True t q = Some (None, q)"
proof -
  have "rb_mutex (get_fifo t q)"
    using assms(1) by (simp add: ble_fifo_ok_alt msg_ring_ok_def rb_oldest_ok_def)
  moreover have "put_fifo t (get_fifo t q) q = q"
    by (cases t) (simp_all add: put_fifo_def get_fifo_def)
  ultimately show ?thesis
    using assms ringbuf_pop_locked_empty [of "get_fifo t q"]
    by (simp add: get_next_ble_msg_def ringbuf_pop_def ble_items_def)
qed

lemma get_next_ble_msg_total:
  assumes "ble_fifo_ok q"
  shows "\<exists>r q'. get_next_ble_msg True t q = Some (r, q') \<and> ble_fifo_ok q' \<and>
           (\<forall>m. r = Some m \<longrightarrow> ble_msg_ok m)"
proof (cases "ble_items t q")
  case Nil
  then show ?thesis
    using get_next_ble_msg_Nil [OF assms] assms by simp
next
  case (Cons m ms)
  then show ?thesis
    using get_next_ble_msg_Cons [OF assms Cons] ble_items_ok [OF assms, of m t] by auto
qed

text \<open>Each of the two queues is a drop-oldest queue of messages.\<close>

interpretation bleq: drop_oldest_fifo
  "get_next_ble_msg True t" ble_fifo_ok "ble_items t"
  "\<lambda>q m. add_ble_msg_to_queue (Some m) t q" "\<lambda>q. ble_msg_ok" "\<lambda>q. BLE_FIFO_SIZE"
  for t
proof (unfold_locales, goal_cases)
  case (1 s)
  then show ?case
    by (rule get_next_ble_msg_Nil)
next
  case (2 s x xs)
  then show ?case
    using get_next_ble_msg_Cons by blast
next
  case (3 s)
  then show ?case
    by (simp add: ble_consts)
next
  case (4 s)
  then have "msg_ring_ok (get_fifo t s)"
    by (simp add: ble_fifo_ok_alt)
  then show ?case
    by (simp add: ble_items_def msg_ring_ok_def rb_oldest_ok_def rb_ok_def)
next
  case (5 s x)
  then show ?case
    using add_ble_msg_ok [of s x t] by blast
qed

text \<open>
  The static initial state: zeroed storage, no mutex.
\<close>

definition ble_fifo_static :: ble_fifo where
  "ble_fifo_static =
     (let rb = \<lparr>rb_buffer = replicate (BLE_FIFO_SIZE * sizeof_ble_msg) 0, rb_element_size = 0,
                rb_capacity = 0, rb_read_idx = 0, rb_write_idx = 0, rb_count = 0,
                rb_mutex = False, rb_overflow_policy = RB_OVERFLOW_DROP_OLDEST\<rparr>
      in \<lparr>tx_fifo = rb, rx_fifo = rb\<rparr>)"

definition ble_storage_ok :: "ble_fifo \<Rightarrow> bool" where
  "ble_storage_ok q \<longleftrightarrow>
     length (rb_buffer (tx_fifo q)) = BLE_FIFO_SIZE * sizeof_ble_msg \<and>
     length (rb_buffer (rx_fifo q)) = BLE_FIFO_SIZE * sizeof_ble_msg"

lemma ble_storage_ok_static: "ble_storage_ok ble_fifo_static"
  by (simp add: ble_storage_ok_def ble_fifo_static_def Let_def)

lemma ble_fifo_init_ok:
  assumes "ble_storage_ok q" and "ble_fifo_init mtx mrx q = (True, q')"
  shows "ble_fifo_ok q'" and "ble_items t q' = []"
proof -
  have "mtx \<and> mrx"
    using assms(2)
    by (auto simp: ble_fifo_init_def ringbuf_init_def ble_consts sizeof_ble_msg_def)
  then have "q' = q\<lparr>tx_fifo := the (snd (ringbuf_init True (Some (tx_fifo q))
      (Some (rb_buffer (tx_fifo q))) BLE_FIFO_SIZE sizeof_ble_msg RB_OVERFLOW_DROP_OLDEST)),
      rx_fifo := the (snd (ringbuf_init True (Some (rx_fifo q))
      (Some (rb_buffer (rx_fifo q))) BLE_FIFO_SIZE sizeof_ble_msg RB_OVERFLOW_DROP_OLDEST))\<rparr>"
    using assms(2) by (auto simp: ble_fifo_init_def split: prod.splits)
  then show "ble_fifo_ok q'" and "ble_items t q' = []"
    using assms(1)
    by (simp_all add: ringbuf_init_def ble_consts sizeof_ble_msg_def ble_fifo_ok_def
        msg_ring_ok_def rb_oldest_ok_def rb_ok_def rb_items_def ble_storage_ok_def
        ble_items_def get_fifo_def split: ble_comm_type.split)
qed

section \<open>Properties\<close>

text \<open>
  Messages added to the transmit or the receive queue come out in order with every byte intact;
  after more than \<open>BLE_FIFO_SIZE\<close> additions the oldest are the ones lost, and the other queue is
  not affected by either operation.
\<close>

lemma ble_queue_order:
  assumes "ble_fifo_ok q" and "\<forall>m \<in> set ms. ble_msg_ok m"
  shows "\<exists>q1 q2. push_all (\<lambda>q m. add_ble_msg_to_queue (Some m) t q) q ms = Some q1 \<and>
           pop_n (get_next_ble_msg True t) BLE_FIFO_SIZE q1 =
             Some (last_n BLE_FIFO_SIZE (ble_items t q @ ms), q2) \<and>
           ble_items t q2 = []"
  using assms by (intro bleq.push_all_pop_n) simp_all

definition ble_fifo_start :: ble_fifo where
  "ble_fifo_start = snd (ble_fifo_init True True ble_fifo_static)"

lemma ble_fifo_start_ok: "ble_fifo_ok ble_fifo_start" and ble_fifo_start_items: "ble_items t ble_fifo_start = []"
proof -
  have *: "ble_fifo_init True True ble_fifo_static = (True, ble_fifo_start)"
    by (simp add: ble_fifo_start_def ble_fifo_init_def ringbuf_init_def ble_consts sizeof_ble_msg_def)
  show "ble_fifo_ok ble_fifo_start" and "ble_items t ble_fifo_start = []"
    using ble_fifo_init_ok [OF ble_storage_ok_static *] by simp_all
qed

definition ble_msg_example :: ble_msg where
  "ble_msg_example = \<lparr>m_hdr = \<lparr>h_opcode = 1, h_req_app = 7, h_len = 2\<rparr>,
                      m_payload = [9, 8] @ replicate 248 0\<rparr>"

lemma ble_msg_example_ok: "ble_msg_ok ble_msg_example"
  by (simp add: ble_msg_ok_def ble_msg_typed_def ble_msg_example_def ble_consts)

lemma ble_queue_order_witness:
  "\<exists>q1 q2. push_all (\<lambda>q m. add_ble_msg_to_queue (Some m) BLE_RX q) ble_fifo_start
       [ble_msg_example] = Some q1 \<and>
     pop_n (get_next_ble_msg True BLE_RX) BLE_FIFO_SIZE q1 = Some ([ble_msg_example], q2)"
  using ble_queue_order [of ble_fifo_start "[ble_msg_example]" BLE_RX]
    ble_fifo_start_ok ble_fifo_start_items [of BLE_RX] ble_msg_example_ok
  by (auto simp: ble_consts)

end
