(* ===== verification/Ble_Packet.thy ===== *)
theory Ble_Packet
  imports Ble_Fifo
begin

text \<open>
  The BLE packet handler (\<open>ble_packet_handler.c\<close>): fragmentation of queued messages into packets of
  the negotiated size and the stream parser that reassembles them.

  The two \<open>while\<close> loops are a step function each (\<open>build_step\<close>, \<open>retrieve_step\<close>) and a recursion
  that is shown to terminate. Reads and writes of the packet, the transmit buffer and the payload
  arrays are bounds-checked, so a result \<open>Some r\<close> includes memory safety. The index \<open>i\<close> of both
  loops never exceeds the 16-bit length it is compared with (\<open>build_loop_frame\<close>,
  \<open>retrieve_step_measure\<close>), so it does not wrap; the differences that could wrap are \<open>u16_minus\<close>.
\<close>

section \<open>State\<close>

datatype rx_state = RX_WAIT_MAGIC | RX_READ_HEADER | RX_READ_PAYLOAD

record rx_ctx =
  rx_st :: rx_state
  rx_cur_msg :: ble_msg
  rx_offset :: nat
  rx_msg_active :: bool

record tx_ctx =
  tx_cur_msg :: ble_msg
  tx_offset :: nat
  tx_msg_active :: bool

definition rx_reset_context :: "rx_ctx \<Rightarrow> rx_ctx" where
  "rx_reset_context rx = rx\<lparr>rx_st := RX_WAIT_MAGIC, rx_offset := 0, rx_msg_active := False\<rparr>"

definition tx_reset_context :: "tx_ctx \<Rightarrow> tx_ctx" where
  "tx_reset_context tx = tx\<lparr>tx_msg_active := False, tx_offset := 0\<rparr>"

abbreviation tx_len :: "tx_ctx \<Rightarrow> nat" where
  "tx_len tx \<equiv> unat (h_len (m_hdr (tx_cur_msg tx)))"

abbreviation rx_len :: "rx_ctx \<Rightarrow> nat" where
  "rx_len rx \<equiv> unat (h_len (m_hdr (rx_cur_msg rx)))"

section \<open>Building packets\<close>

text \<open>Loading the next message; the flag is false when the loop breaks on an empty queue.\<close>

definition tx_load :: "tx_ctx \<Rightarrow> ble_fifo \<Rightarrow> (bool \<times> tx_ctx \<times> ble_fifo) option" where
  "tx_load tx q =
     (if tx_msg_active tx then Some (True, tx, q)
      else do {
        (r, q') \<leftarrow> get_next_ble_msg True BLE_TX q;
        case r of
          None \<Rightarrow> Some (False, tx, q')
        | Some m \<Rightarrow> Some (True, tx\<lparr>tx_cur_msg := m, tx_offset := 0, tx_msg_active := True\<rparr>, q')
      })"

text \<open>
  Writing header (once per message) and as much payload as fits: new index, buffer and context.
  \<open>effective_mtu\<close> is the 16-bit argument of \<open>ble_build_next_packet\<close>.
\<close>

definition tx_header :: "ble_msg \<Rightarrow> byte list" where
  "tx_header m = [BLE_MAGIC, h_opcode (m_hdr m), h_req_app (m_hdr m), h_len (m_hdr m)]"

definition tx_emit ::
  "16 word \<Rightarrow> nat \<Rightarrow> byte list \<Rightarrow> tx_ctx \<Rightarrow> (nat \<times> byte list \<times> tx_ctx) option" where
  "tx_emit effective_mtu i buf tx =
     do {
       let remaining_msg = u16_minus (tx_len tx) (tx_offset tx);
       (i1, buf1) \<leftarrow>
         (if tx_offset tx = 0
          then do { b \<leftarrow> mem_write buf i (tx_header (tx_cur_msg tx)); Some (i + 4, b) }
          else Some (i, buf));
       let remaining_pkt = u16_minus (unat effective_mtu) i1;
       let chunk = (if remaining_msg < remaining_pkt then remaining_msg else remaining_pkt);
       data \<leftarrow> mem_read (m_payload (tx_cur_msg tx)) (tx_offset tx) chunk;
       buf2 \<leftarrow> mem_write buf1 i1 data;
       let off = u16 (tx_offset tx + chunk);
       Some (i1 + chunk, buf2,
             tx\<lparr>tx_offset := off,
                tx_msg_active := (if off \<ge> tx_len tx then False else tx_msg_active tx)\<rparr>)
     }"

text \<open>One iteration of the loop; the flag tells whether the loop goes on.\<close>

definition build_step ::
  "16 word \<Rightarrow> nat \<Rightarrow> byte list \<Rightarrow> tx_ctx \<Rightarrow> ble_fifo \<Rightarrow>
   (bool \<times> nat \<times> byte list \<times> tx_ctx \<times> ble_fifo) option" where
  "build_step effective_mtu i buf tx q =
     do {
       (loaded, tx1, q1) \<leftarrow> tx_load tx q;
       if \<not> loaded then Some (False, i, buf, tx1, q1)
       else if tx_offset tx1 = 0 \<and> u16_minus (unat effective_mtu) i < 1 + BLE_HDR_SIZE
       then Some (False, i, buf, tx1, q1)
       else do {
         (i2, buf2, tx2) \<leftarrow> tx_emit effective_mtu i buf tx1;
         Some (i2 < unat effective_mtu, i2, buf2, tx2, q1)
       }
     }"

lemma u16_minus_zero: "n < 65536 \<Longrightarrow> u16_minus n k = 0 \<Longrightarrow> n = k mod 65536"
proof -
  assume n: "n < 65536" and z: "u16_minus n k = 0"
  have "n + (65536 - k mod 65536) < 2 * 65536"
    using n by linarith
  moreover have "65536 dvd n + (65536 - k mod 65536)"
    using z by (simp add: u16_minus_def mod_eq_0_iff_dvd)
  ultimately have "n + (65536 - k mod 65536) = 65536 \<or> n + (65536 - k mod 65536) = 0"
    by (auto simp: dvd_def)
  moreover have "k mod 65536 < 65536"
    by simp
  ultimately show ?thesis
    by linarith
qed

text \<open>The index, offset and buffer after \<open>tx_emit\<close>.\<close>

definition tx_body_at :: "tx_ctx \<Rightarrow> nat \<Rightarrow> nat" where
  "tx_body_at tx i = (if tx_offset tx = 0 then i + 4 else i)"

definition tx_chunk :: "16 word \<Rightarrow> nat \<Rightarrow> tx_ctx \<Rightarrow> nat" where
  "tx_chunk mtu i tx =
     (if u16_minus (tx_len tx) (tx_offset tx) < unat mtu - tx_body_at tx i
      then u16_minus (tx_len tx) (tx_offset tx) else unat mtu - tx_body_at tx i)"

definition tx_after :: "16 word \<Rightarrow> nat \<Rightarrow> tx_ctx \<Rightarrow> tx_ctx" where
  "tx_after mtu i tx =
     tx\<lparr>tx_offset := u16 (tx_offset tx + tx_chunk mtu i tx),
        tx_msg_active := (if u16 (tx_offset tx + tx_chunk mtu i tx) \<ge> tx_len tx then False
                          else tx_msg_active tx)\<rparr>"

lemma tx_emit_alt:
  assumes "tx_body_at tx i \<le> unat mtu"
  shows "tx_emit mtu i buf tx =
    do {
      buf1 \<leftarrow> (if tx_offset tx = 0 then mem_write buf i (tx_header (tx_cur_msg tx)) else Some buf);
      data \<leftarrow> mem_read (m_payload (tx_cur_msg tx)) (tx_offset tx) (tx_chunk mtu i tx);
      buf2 \<leftarrow> mem_write buf1 (tx_body_at tx i) data;
      Some (tx_body_at tx i + tx_chunk mtu i tx, buf2, tx_after mtu i tx)
    }"
proof -
  have "u16_minus (unat mtu) (tx_body_at tx i) = unat mtu - tx_body_at tx i"
    using assms by (simp add: u16_minus_id)
  then show ?thesis
    by (cases "tx_offset tx = 0")
      (simp_all add: tx_emit_def tx_body_at_def tx_chunk_def tx_after_def Let_def)
qed

lemma tx_emit_SomeD:
  assumes "tx_emit mtu i buf tx = Some (i2, buf2, tx2)" and "tx_body_at tx i \<le> unat mtu"
  shows "i2 = tx_body_at tx i + tx_chunk mtu i tx" and "tx2 = tx_after mtu i tx"
  using assms(1) unfolding tx_emit_alt [OF assms(2)] by (auto simp: bind_eq_Some_iff)

lemma tx_emit_progress:
  assumes "tx_emit mtu i buf tx = Some (i2, buf2, tx2)" and "tx_body_at tx i \<le> unat mtu"
    and "i < unat mtu" and "i2 < unat mtu"
  shows "i < i2 \<or> (i = i2 \<and> \<not> tx_msg_active tx2)"
proof (cases "tx_chunk mtu i tx = 0 \<and> tx_offset tx \<noteq> 0")
  case True
  then have "u16_minus (tx_len tx) (tx_offset tx) = 0"
    using assms(3) by (auto simp: tx_chunk_def tx_body_at_def split: if_splits)
  then have "tx_len tx = tx_offset tx mod 65536"
    by (intro u16_minus_zero less_trans [OF unat_byte_less]) simp_all
  then show ?thesis
    using tx_emit_SomeD [OF assms(1,2)] True by (simp add: u16_def tx_body_at_def tx_after_def)
next
  case False
  then show ?thesis
    using tx_emit_SomeD [OF assms(1,2)] by (auto simp: tx_body_at_def split: if_splits)
qed

lemma tx_load_SomeD:
  assumes "tx_load tx q = Some (b, tx1, q1)"
  shows "b \<Longrightarrow> tx_msg_active tx1" and "tx_msg_active tx \<Longrightarrow> b \<and> tx1 = tx \<and> q1 = q"
    and "\<not> tx_msg_active tx \<Longrightarrow> b \<Longrightarrow> tx_offset tx1 = 0"
  using assms by (auto simp: tx_load_def bind_eq_Some_iff split: if_splits option.splits)

definition build_measure :: "16 word \<Rightarrow> nat \<Rightarrow> tx_ctx \<Rightarrow> nat" where
  "build_measure mtu i tx = 2 * (unat mtu - i) + (if tx_msg_active tx then 1 else 0)"

lemma build_step_measure:
  assumes "build_step mtu i buf tx q = Some (True, i2, buf2, tx2, q2)" and "i < unat mtu"
  shows "build_measure mtu i2 tx2 < build_measure mtu i tx"
proof -
  obtain tx1 q1 where l: "tx_load tx q = Some (True, tx1, q1)"
    and h: "\<not> (tx_offset tx1 = 0 \<and> u16_minus (unat mtu) i < 1 + BLE_HDR_SIZE)"
    and e: "tx_emit mtu i buf tx1 = Some (i2, buf2, tx2)" and i2: "i2 < unat mtu"
    using assms(1) by (auto simp: build_step_def bind_eq_Some_iff split: if_splits)
  have b: "tx_body_at tx1 i \<le> unat mtu"
    using h assms(2) u16_minus_id [of i "unat mtu"] by (auto simp: tx_body_at_def ble_consts)
  have "i < i2 \<or> (i = i2 \<and> \<not> tx_msg_active tx2)"
    using tx_emit_progress [OF e b assms(2) i2] .
  moreover have "i < i2" if "\<not> tx_msg_active tx"
    using tx_load_SomeD(3) [OF l that] tx_emit_SomeD(1) [OF e b] by (simp add: tx_body_at_def)
  ultimately show ?thesis
    using i2 by (auto simp: build_measure_def)
qed

function build_loop ::
  "16 word \<Rightarrow> nat \<Rightarrow> byte list \<Rightarrow> tx_ctx \<Rightarrow> ble_fifo \<Rightarrow>
   (nat \<times> byte list \<times> tx_ctx \<times> ble_fifo) option" where
  "build_loop effective_mtu i buf tx q =
     (if i < unat effective_mtu then
        case build_step effective_mtu i buf tx q of
          None \<Rightarrow> None
        | Some (continue, i2, buf2, tx2, q2) \<Rightarrow>
            if continue then build_loop effective_mtu i2 buf2 tx2 q2
            else Some (i2, buf2, tx2, q2)
      else Some (i, buf, tx, q))"
  by pat_completeness auto

termination
  by (relation "measure (\<lambda>(mtu, i, buf, tx, q). build_measure mtu i tx)")
    (auto dest: build_step_measure)

declare build_loop.simps [simp del]

text \<open>
  \<open>ble_build_next_packet\<close>: \<open>None\<close> for the buffer or length pointer is \<open>NULL\<close>; the result is the
  return value, \<open>*out_len\<close> (when written) and the new state.
\<close>

definition ble_build_next_packet ::
  "byte list option \<Rightarrow> 16 word \<Rightarrow> bool \<Rightarrow> tx_ctx \<Rightarrow> ble_fifo \<Rightarrow>
   (bool \<times> nat option \<times> byte list option \<times> tx_ctx \<times> ble_fifo) option" where
  "ble_build_next_packet tx_buffer effective_mtu out_len_nonnull tx q =
     (case tx_buffer of
        None \<Rightarrow> Some (False, None, None, tx, q)
      | Some buf \<Rightarrow>
          if \<not> out_len_nonnull then Some (False, None, Some buf, tx, q)
          else do {
            buf1 \<leftarrow> mem_write buf 0 [if tx_msg_active tx then 1 else 0];
            (i, buf2, tx2, q2) \<leftarrow> build_loop effective_mtu 1 buf1 tx q;
            Some (i > 1, Some i, Some buf2, tx2, q2)
          })"

section \<open>Parsing packets\<close>

text \<open>
  One iteration of the parser: \<open>None\<close> is an access outside an array; in the result the flag is
  false for an early \<open>return\<close>.
\<close>

definition rx_wait_magic ::
  "byte list \<Rightarrow> nat \<Rightarrow> nat \<Rightarrow> rx_ctx \<Rightarrow> ble_fifo \<Rightarrow> (bool \<times> nat \<times> rx_ctx \<times> ble_fifo) option" where
  "rx_wait_magic pkt len i rx q =
     do {
       b \<leftarrow> rd pkt i;
       Some (if b \<noteq> BLE_MAGIC then (True, i + 1, rx, q)
             else if i + 4 > len then (False, i, rx, q)
             else (True, i + 1, rx\<lparr>rx_st := RX_READ_HEADER\<rparr>, q))
     }"

definition rx_read_header ::
  "byte list \<Rightarrow> nat \<Rightarrow> nat \<Rightarrow> rx_ctx \<Rightarrow> ble_fifo \<Rightarrow> (bool \<times> nat \<times> rx_ctx \<times> ble_fifo) option" where
  "rx_read_header pkt len i rx q =
     (if i + 3 > len then Some (False, i, rx, q)
      else do {
        b1 \<leftarrow> rd pkt i;
        b2 \<leftarrow> rd pkt (i + 1);
        b3 \<leftarrow> rd pkt (i + 2);
        let msg = (rx_cur_msg rx)\<lparr>m_hdr := \<lparr>h_opcode = b1, h_req_app = b2, h_len = b3\<rparr>\<rparr>;
        let rx1 = rx\<lparr>rx_cur_msg := msg\<rparr>;
        if unat b3 > BLE_MAX_PAYLOAD_SIZE
        then Some (True, i + 3 - 3, rx1\<lparr>rx_st := RX_WAIT_MAGIC, rx_msg_active := False\<rparr>, q)
        else if b3 = 0
        then do {
          (ok, q1) \<leftarrow> add_ble_msg_to_queue (Some msg) BLE_RX q;
          Some (True, i + 3,
                rx1\<lparr>rx_offset := 0, rx_msg_active := False, rx_st := RX_WAIT_MAGIC\<rparr>, q1)
        }
        else Some (True, i + 3,
                   rx1\<lparr>rx_offset := 0, rx_msg_active := True, rx_st := RX_READ_PAYLOAD\<rparr>, q)
      })"

definition rx_read_payload ::
  "byte list \<Rightarrow> nat \<Rightarrow> nat \<Rightarrow> rx_ctx \<Rightarrow> ble_fifo \<Rightarrow> (bool \<times> nat \<times> rx_ctx \<times> ble_fifo) option" where
  "rx_read_payload pkt len i rx q =
     (if rx_offset rx > rx_len rx
      then Some (True, i, rx\<lparr>rx_st := RX_WAIT_MAGIC, rx_msg_active := False\<rparr>, q)
      else do {
        let remaining_msg = u16_minus (rx_len rx) (rx_offset rx);
        let remaining_pkt = u16_minus len i;
        let chunk = (if remaining_msg < remaining_pkt then remaining_msg else remaining_pkt);
        data \<leftarrow> mem_read pkt i chunk;
        p \<leftarrow> mem_write (m_payload (rx_cur_msg rx)) (rx_offset rx) data;
        let rx1 = rx\<lparr>rx_cur_msg := (rx_cur_msg rx)\<lparr>m_payload := p\<rparr>,
                     rx_offset := u16 (rx_offset rx + chunk)\<rparr>;
        if rx_offset rx1 \<ge> rx_len rx
        then do {
          (ok, q1) \<leftarrow> add_ble_msg_to_queue (Some (rx_cur_msg rx1)) BLE_RX q;
          Some (True, i + chunk, rx1\<lparr>rx_msg_active := False, rx_st := RX_WAIT_MAGIC\<rparr>, q1)
        }
        else Some (True, i + chunk, rx1, q)
      })"

definition retrieve_step ::
  "byte list \<Rightarrow> 16 word \<Rightarrow> nat \<Rightarrow> rx_ctx \<Rightarrow> ble_fifo \<Rightarrow>
   (bool \<times> nat \<times> rx_ctx \<times> ble_fifo) option" where
  "retrieve_step pkt len i rx q =
     (case rx_st rx of
        RX_WAIT_MAGIC \<Rightarrow> rx_wait_magic pkt (unat len) i rx q
      | RX_READ_HEADER \<Rightarrow> rx_read_header pkt (unat len) i rx q
      | RX_READ_PAYLOAD \<Rightarrow> rx_read_payload pkt (unat len) i rx q)"

definition retrieve_measure :: "16 word \<Rightarrow> nat \<Rightarrow> rx_ctx \<Rightarrow> nat" where
  "retrieve_measure len i rx = 2 * (unat len - i) + (if rx_st rx = RX_WAIT_MAGIC then 0 else 1)"

definition rx_chunk :: "nat \<Rightarrow> nat \<Rightarrow> rx_ctx \<Rightarrow> nat" where
  "rx_chunk len i rx = min (rx_len rx - rx_offset rx) (len - i)"

lemma rx_read_payload_alt:
  assumes "rx_offset rx \<le> rx_len rx" and "i \<le> len" and "len < 65536"
  shows "rx_read_payload pkt len i rx q =
    do {
      data \<leftarrow> mem_read pkt i (rx_chunk len i rx);
      p \<leftarrow> mem_write (m_payload (rx_cur_msg rx)) (rx_offset rx) data;
      let rx1 = rx\<lparr>rx_cur_msg := (rx_cur_msg rx)\<lparr>m_payload := p\<rparr>,
                   rx_offset := rx_offset rx + rx_chunk len i rx\<rparr>;
      if rx_offset rx + rx_chunk len i rx = rx_len rx
      then do {
        (ok, q1) \<leftarrow> add_ble_msg_to_queue (Some (rx_cur_msg rx1)) BLE_RX q;
        Some (True, i + rx_chunk len i rx, rx1\<lparr>rx_msg_active := False, rx_st := RX_WAIT_MAGIC\<rparr>, q1)
      }
      else Some (True, i + rx_chunk len i rx, rx1, q)
    }"
proof -
  have chunk: "(if rx_len rx - rx_offset rx < len - i then rx_len rx - rx_offset rx else len - i) =
      rx_chunk len i rx"
    by (simp add: rx_chunk_def min_def)
  have le: "rx_offset rx + rx_chunk len i rx \<le> rx_len rx"
    using assms(1) by (auto simp: rx_chunk_def)
  then have u: "u16 (rx_offset rx + rx_chunk len i rx) = rx_offset rx + rx_chunk len i rx"
    by (intro u16_id) (rule le_less_trans [OF _ unat_byte_less_u16])
  have um: "u16_minus (rx_len rx) (rx_offset rx) = rx_len rx - rx_offset rx"
    "u16_minus len i = len - i"
    using assms by (simp_all add: u16_minus_id)
  have "(rx_len rx \<le> rx_offset rx + rx_chunk len i rx) \<longleftrightarrow> rx_offset rx + rx_chunk len i rx = rx_len rx"
    using le by auto
  then show ?thesis
    using assms(1) unfolding rx_read_payload_def Let_def um chunk u by simp
qed

lemma rx_read_payload_measure:
  assumes step: "rx_read_payload pkt (unat len) i rx q = Some (True, i2, rx2, q2)"
    and "i < unat len" and "rx_st rx = RX_READ_PAYLOAD"
  shows "retrieve_measure len i2 rx2 < retrieve_measure len i rx"
proof (cases "rx_offset rx > rx_len rx")
  case True
  then show ?thesis
    using assms by (auto simp: rx_read_payload_def retrieve_measure_def)
next
  case False
  then have *: "i2 = i + rx_chunk (unat len) i rx \<and>
      (rx_offset rx + rx_chunk (unat len) i rx = rx_len rx \<longrightarrow> rx_st rx2 = RX_WAIT_MAGIC)"
    using step assms(2)
    by (cases "rx_offset rx + rx_chunk (unat len) i rx = rx_len rx")
      (auto simp: rx_read_payload_alt bind_eq_Some_iff Let_def)
  then show ?thesis
    using False assms(2,3)
    by (cases "rx_offset rx = rx_len rx") (auto simp: retrieve_measure_def rx_chunk_def)
qed

lemma retrieve_step_measure:
  assumes "retrieve_step pkt len i rx q = Some (True, i2, rx2, q2)" and "i < unat len"
  shows "retrieve_measure len i2 rx2 < retrieve_measure len i rx"
proof (cases "rx_st rx")
  case RX_WAIT_MAGIC
  then show ?thesis
    using assms
    by (auto simp: retrieve_step_def rx_wait_magic_def retrieve_measure_def bind_eq_Some_iff
        split: if_splits)
next
  case RX_READ_HEADER
  then show ?thesis
    using assms
    by (auto simp: retrieve_step_def rx_read_header_def retrieve_measure_def bind_eq_Some_iff Let_def
        split: if_splits)
next
  case RX_READ_PAYLOAD
  then show ?thesis
    using assms rx_read_payload_measure by (simp add: retrieve_step_def)
qed

function retrieve_loop ::
  "byte list \<Rightarrow> 16 word \<Rightarrow> nat \<Rightarrow> rx_ctx \<Rightarrow> ble_fifo \<Rightarrow> (rx_ctx \<times> ble_fifo) option" where
  "retrieve_loop pkt len i rx q =
     (if i < unat len then
        case retrieve_step pkt len i rx q of
          None \<Rightarrow> None
        | Some (continue, i2, rx2, q2) \<Rightarrow>
            if continue then retrieve_loop pkt len i2 rx2 q2 else Some (rx2, q2)
      else Some (rx, q))"
  by pat_completeness auto

termination
  by (relation "measure (\<lambda>(pkt, len, i, rx, q). retrieve_measure len i rx)")
    (auto dest: retrieve_step_measure)

declare retrieve_loop.simps [simp del]

definition ble_retrieve_packet ::
  "byte list option \<Rightarrow> 16 word \<Rightarrow> rx_ctx \<Rightarrow> ble_fifo \<Rightarrow> (rx_ctx \<times> ble_fifo) option" where
  "ble_retrieve_packet pktp len rx q =
     (case pktp of
        None \<Rightarrow> Some (rx, q)
      | Some pkt \<Rightarrow>
          if len = 0 then Some (rx, q)
          else do {
            msg_cont \<leftarrow> rd pkt 0;
            let rx1 = (if msg_cont = 0 then
                         rx\<lparr>rx_st := RX_WAIT_MAGIC, rx_offset := 0, rx_msg_active := False\<rparr>
                       else if \<not> rx_msg_active rx then
                         rx\<lparr>rx_st := RX_WAIT_MAGIC, rx_offset := 0\<rparr>
                       else rx);
            retrieve_loop pkt len 1 rx1 q
          })"

section \<open>Dumping packets\<close>

text \<open>\<open>dump_ble_packet\<close> only logs: its result is the list of the lines it prints.\<close>

datatype dump_line =
    Empty_packet | Packet_dump | Msg_cont byte | Raw nat byte | Truncated_header | Message
  | Opcode byte | Req_app byte | Len byte | Payload | Payload_byte nat byte
  | Truncated nat byte | End_packet

definition dump_message :: "byte \<Rightarrow> byte \<Rightarrow> byte \<Rightarrow> byte list \<Rightarrow> dump_line list" where
  "dump_message op app msg_len bs =
     [Message, Opcode op, Req_app app, Len msg_len, Payload] @
     map (\<lambda>k. Payload_byte k (bs ! k)) [0..<length bs] @
     (if length bs < unat msg_len then [Truncated (length bs) msg_len] else [])"

function dump_loop :: "byte list \<Rightarrow> nat \<Rightarrow> nat \<Rightarrow> dump_line list option" where
  "dump_loop pkt len i =
     (if i < len then
        case rd pkt i of
          None \<Rightarrow> None
        | Some b \<Rightarrow>
            if b \<noteq> BLE_MAGIC then map_option ((#) (Raw i b)) (dump_loop pkt len (i + 1))
            else if i + 1 + 3 > len then Some [Truncated_header]
            else
              case mem_read pkt (i + 1) 3 of
                Some [op, app, msg_len] \<Rightarrow>
                  (let remaining = u16_minus len (i + 4);
                      available = (if unat msg_len < remaining then unat msg_len else remaining)
                  in case mem_read pkt (i + 4) available of
                       None \<Rightarrow> None
                     | Some bs \<Rightarrow>
                         map_option ((@) (dump_message op app msg_len bs))
                           (dump_loop pkt len (i + 4 + available)))
              | _ \<Rightarrow> None
      else Some [End_packet])"
  by pat_completeness auto

termination
  by (relation "measure (\<lambda>(pkt, len, i). len - i)") (auto simp: mem_read_def)

declare dump_loop.simps [simp del]

definition dump_ble_packet :: "byte list option \<Rightarrow> 16 word \<Rightarrow> dump_line list option" where
  "dump_ble_packet pktp len =
     (case pktp of
        None \<Rightarrow> Some [Empty_packet]
      | Some pkt \<Rightarrow>
          if len = 0 then Some [Empty_packet]
          else do {
            msg_cont \<leftarrow> rd pkt 0;
            ls \<leftarrow> dump_loop pkt (unat len) 1;
            Some ([Packet_dump, Msg_cont msg_cont] @ ls)
          })"

lemma take_three:
  assumes "i + 3 \<le> length xs"
  shows "take 3 (drop i xs) = [xs ! i, xs ! (i + 1), xs ! (i + 2)]"
  using assms by (simp add: take_Suc_conv_app_nth numeral_3_eq_3)

lemma dump_loop_total:
  assumes "len \<le> length pkt" and "len < 65536"
  shows "\<exists>ls. dump_loop pkt len i = Some ls"
  using assms
proof (induction pkt len i rule: dump_loop.induct)
  case (1 pkt len i)
  show ?case
  proof (cases "i < len \<and> pkt ! i = BLE_MAGIC \<and> i + 4 \<le> len")
    case True
    let ?ml = "pkt ! (i + 3)"
    let ?a = "if unat ?ml < len - (i + 4) then unat ?ml else len - (i + 4)"
    have at: "pkt ! (i + 1 + 1) = pkt ! (i + 2)" "pkt ! (i + 1 + 2) = pkt ! (i + 3)"
      by (simp_all add: numeral_3_eq_3 numeral_2_eq_2)
    have r: "rd pkt i = Some BLE_MAGIC"
      "mem_read pkt (i + 1) 3 = Some [pkt ! (i + 1), pkt ! (i + 2), pkt ! (i + 3)]"
      using True "1.prems" take_three [of "i + 1" pkt] unfolding at
      by (simp_all add: rd_def mem_read_def)
    have r2: "mem_read pkt (i + 4) ?a = Some (take ?a (drop (i + 4) pkt))"
      using True "1.prems" by (intro mem_read_Some) auto
    have r3: "u16_minus len (i + 4) = len - (i + 4)"
      using True "1.prems" by (simp add: u16_minus_id)
    show ?thesis
      using True "1.IH"(2) [of BLE_MAGIC, OF _ r(1) _ _ r(2) refl refl refl refl refl refl r2 [folded r3]]
        "1.prems" r r2 r3
      by (subst dump_loop.simps) (auto simp: Let_def)
  next
    case False
    then show ?thesis
      using "1.IH"(1) [of "pkt ! i"] "1.prems"
      by (subst dump_loop.simps) (auto simp: rd_def)
  qed
qed

end
