(* ===== verification/Ble_Link.thy ===== *)
theory Ble_Link
  imports Ble_Packet
begin

text \<open>
  Correctness of the packet handler: the parser is memory safe and keeps its invariant on every
  byte sequence; the builder never writes beyond the packet size; and a packet built from the
  transmit queue and fed to the parser delivers the queued messages in order, byte for byte.
\<close>

section \<open>Invariants\<close>

definition rx_ok :: "rx_ctx \<Rightarrow> bool" where
  "rx_ok rx \<longleftrightarrow>
     ble_msg_typed (rx_cur_msg rx) \<and>
     (rx_msg_active rx \<longleftrightarrow> rx_st rx = RX_READ_PAYLOAD) \<and>
     (rx_st rx = RX_READ_PAYLOAD \<longrightarrow> rx_offset rx < rx_len rx \<and> rx_len rx \<le> BLE_MAX_PAYLOAD_SIZE)"

definition tx_ok :: "tx_ctx \<Rightarrow> bool" where
  "tx_ok tx \<longleftrightarrow>
     (tx_msg_active tx \<longrightarrow>
        ble_msg_ok (tx_cur_msg tx) \<and> (tx_offset tx = 0 \<or> tx_offset tx < tx_len tx))"

lemma rx_reset_ok: "ble_msg_typed (rx_cur_msg rx) \<Longrightarrow> rx_ok (rx_reset_context rx)"
  by (simp add: rx_ok_def rx_reset_context_def)

lemma tx_reset_ok: "tx_ok (tx_reset_context tx)"
  by (simp add: tx_ok_def tx_reset_context_def)

section \<open>The parser on arbitrary packets\<close>

lemma rx_wait_magic_ok:
  assumes "rx_ok rx" and "rx_st rx = RX_WAIT_MAGIC" and "ble_fifo_ok q" and "i < len" and "len \<le> length pkt"
  shows "\<exists>c i2 rx2 q2. rx_wait_magic pkt len i rx q = Some (c, i2, rx2, q2) \<and>
           rx_ok rx2 \<and> ble_fifo_ok q2 \<and> i \<le> i2 \<and> i2 \<le> len"
  using assms by (auto simp: rx_wait_magic_def mem_simps rx_ok_def)

lemma rx_read_header_ok:
  assumes "rx_ok rx" and "rx_st rx = RX_READ_HEADER" and "ble_fifo_ok q" and "i < len"
    and "len \<le> length pkt"
  shows "\<exists>c i2 rx2 q2. rx_read_header pkt len i rx q = Some (c, i2, rx2, q2) \<and>
           rx_ok rx2 \<and> ble_fifo_ok q2 \<and> i \<le> i2 \<and> i2 \<le> len"
proof (cases "i + 3 \<le> len")
  case True
  define m where "m = (rx_cur_msg rx)\<lparr>m_hdr := \<lparr>h_opcode = pkt ! i, h_req_app = pkt ! (i + 1),
                                          h_len = pkt ! (i + 2)\<rparr>\<rparr>"
  have r: "rd pkt i = Some (pkt ! i)" "rd pkt (i + 1) = Some (pkt ! (i + 1))"
    "rd pkt (i + 2) = Some (pkt ! (i + 2))"
    using True assms(4,5) by (auto simp: rd_def)
  have t: "ble_msg_typed m"
    using assms(1) by (simp add: m_def rx_ok_def ble_msg_typed_def)
  have "\<exists>q1. add_ble_msg_to_queue (Some m) BLE_RX q = Some (True, q1) \<and> ble_fifo_ok q1"
    if "pkt ! (i + 2) = 0"
    using add_ble_msg_ok [OF assms(3), of m BLE_RX] that t by (auto simp: ble_msg_ok_def m_def)
  moreover have "0 < unat (pkt ! (i + 2))" if "pkt ! (i + 2) \<noteq> 0"
    using that by (simp add: unat_gt_0)
  ultimately show ?thesis
    using True assms(1,2,3) r t
    unfolding rx_read_header_def by (auto simp: Let_def rx_ok_def m_def ex_bool_eq)
next
  case False
  then show ?thesis
    using assms by (auto simp: rx_read_header_def)
qed

lemma rx_chunk_fits:
  assumes "rx_ok rx" and "rx_st rx = RX_READ_PAYLOAD"
  shows "rx_offset rx + rx_chunk len i rx \<le> length (m_payload (rx_cur_msg rx))"
  using assms by (auto simp: rx_ok_def rx_chunk_def ble_msg_typed_def)

lemma rx_read_payload_ok:
  assumes ok: "rx_ok rx" and st: "rx_st rx = RX_READ_PAYLOAD" and q: "ble_fifo_ok q"
    and i: "i < len" and len: "len \<le> length pkt" "len < 65536"
  shows "\<exists>c i2 rx2 q2. rx_read_payload pkt len i rx q = Some (c, i2, rx2, q2) \<and>
           rx_ok rx2 \<and> ble_fifo_ok q2 \<and> i \<le> i2 \<and> i2 \<le> len"
proof -
  define c where "c = rx_chunk len i rx"
  define data where "data = take c (drop i pkt)"
  have off: "rx_offset rx < rx_len rx" "rx_len rx \<le> BLE_MAX_PAYLOAD_SIZE"
    and ty: "ble_msg_typed (rx_cur_msg rx)" and act: "rx_msg_active rx"
    using ok st by (auto simp: rx_ok_def)
  have c: "i + c \<le> len" "rx_offset rx + c \<le> rx_len rx"
    using i off by (auto simp: c_def rx_chunk_def)
  then have rdt: "mem_read pkt i c = Some data" and ld: "length data = c"
    using len by (simp_all add: mem_simps data_def)
  obtain p where p: "mem_write (m_payload (rx_cur_msg rx)) (rx_offset rx) data = Some p"
    using rx_chunk_fits [OF ok st, of len i] ld by (simp add: c_def mem_simps)
  define m where "m = (rx_cur_msg rx)\<lparr>m_payload := p\<rparr>"
  have "ble_msg_ok m"
    using mem_write_length [OF p] ty off by (simp add: m_def ble_msg_ok_def ble_msg_typed_def)
  then obtain q1 where q1: "add_ble_msg_to_queue (Some m) BLE_RX q = Some (True, q1)" "ble_fifo_ok q1"
    using add_ble_msg_ok [OF q] by blast
  have "rx_read_payload pkt len i rx q =
      (if rx_offset rx + c = rx_len rx
       then Some (True, i + c, rx\<lparr>rx_cur_msg := m, rx_offset := rx_offset rx + c,
                                 rx_msg_active := False, rx_st := RX_WAIT_MAGIC\<rparr>, q1)
       else Some (True, i + c, rx\<lparr>rx_cur_msg := m, rx_offset := rx_offset rx + c\<rparr>, q))"
    using off i len q1
    by (simp add: rx_read_payload_alt c_def [symmetric] rdt p m_def [symmetric])
  moreover have "ble_msg_typed m"
    using \<open>ble_msg_ok m\<close> by (simp add: ble_msg_ok_def)
  ultimately show ?thesis
    using c off q q1(2) st act by (auto simp: rx_ok_def m_def)
qed

lemma retrieve_step_ok:
  assumes "rx_ok rx" and "ble_fifo_ok q" and "i < unat len" and "unat len \<le> length pkt"
  shows "\<exists>c i2 rx2 q2. retrieve_step pkt len i rx q = Some (c, i2, rx2, q2) \<and>
           rx_ok rx2 \<and> ble_fifo_ok q2 \<and> i \<le> i2 \<and> i2 \<le> unat len"
  using assms rx_wait_magic_ok [of rx q i "unat len" pkt] rx_read_header_ok [of rx q i "unat len" pkt]
    rx_read_payload_ok [of rx q i "unat len" pkt]
  by (cases "rx_st rx") (simp_all add: retrieve_step_def)

lemma retrieve_loop_ok:
  assumes "rx_ok rx" and "ble_fifo_ok q" and "unat len \<le> length pkt"
  shows "\<exists>rx' q'. retrieve_loop pkt len i rx q = Some (rx', q') \<and> rx_ok rx' \<and> ble_fifo_ok q'"
  using assms
proof (induction pkt len i rx q rule: retrieve_loop.induct)
  case (1 pkt len i rx q)
  show ?case
  proof (cases "i < unat len")
    case True
    then obtain c i2 rx2 q2 where s: "retrieve_step pkt len i rx q = Some (c, i2, rx2, q2)"
      "rx_ok rx2" "ble_fifo_ok q2"
      using retrieve_step_ok "1.prems" by blast
    then show ?thesis
      using "1.IH" [OF True s(1) refl refl refl] "1.prems"(3) True
      by (subst retrieve_loop.simps) auto
  next
    case False
    then show ?thesis
      using "1.prems" by (subst retrieve_loop.simps) simp
  qed
qed

lemma retrieve_packet_ok:
  assumes "rx_ok rx" and "ble_fifo_ok q" and "unat len \<le> length pkt"
  shows "\<exists>rx' q'. ble_retrieve_packet (Some pkt) len rx q = Some (rx', q') \<and>
           rx_ok rx' \<and> ble_fifo_ok q'"
proof (cases "len = 0")
  case True
  then show ?thesis
    using assms by (simp add: ble_retrieve_packet_def)
next
  case False
  then have "0 < unat len"
    by (simp add: unat_gt_0)
  then have "0 < length pkt"
    using assms(3) by linarith
  then have "rd pkt 0 = Some (pkt ! 0)"
    by (simp add: rd_def)
  moreover have "rx_ok (if pkt ! 0 = 0 then
        rx\<lparr>rx_st := RX_WAIT_MAGIC, rx_offset := 0, rx_msg_active := False\<rparr>
      else if \<not> rx_msg_active rx then rx\<lparr>rx_st := RX_WAIT_MAGIC, rx_offset := 0\<rparr> else rx)"
    using assms(1) by (auto simp: rx_ok_def)
  ultimately show ?thesis
    using False assms by (simp add: ble_retrieve_packet_def Let_def retrieve_loop_ok)
qed

text \<open>
  C3: the packet parser survives every packet. For any bytes and any length not exceeding the
  packet, in any context the parser can be in, \<open>ble_retrieve_packet\<close> terminates, never reads beyond
  the packet and never writes beyond the 250-byte payload of the message under construction, and
  leaves its context and both queues well formed (every queued message has a length within its
  payload).
\<close>

theorem retrieve_packet_safe:
  assumes "rx_ok rx" and "ble_fifo_ok q" and "unat len \<le> length pkt"
  shows "\<exists>rx' q'. ble_retrieve_packet (Some pkt) len rx q = Some (rx', q') \<and>
           rx_ok rx' \<and> ble_fifo_ok q'"
  using assms by (rule retrieve_packet_ok)

definition rx_start :: rx_ctx where
  "rx_start = \<lparr>rx_st = RX_WAIT_MAGIC,
     rx_cur_msg = \<lparr>m_hdr = \<lparr>h_opcode = 0, h_req_app = 0, h_len = 0\<rparr>, m_payload = replicate 250 0\<rparr>,
     rx_offset = 0, rx_msg_active = False\<rparr>"

lemma rx_start_ok: "rx_ok rx_start"
  by (simp add: rx_ok_def rx_start_def ble_msg_typed_def ble_consts)

theorem retrieve_packet_safe_witness:
  "\<exists>rx' q'. ble_retrieve_packet (Some [1, 0xA5, 1, 2, 251, 0xA5, 9]) 7 rx_start ble_fifo_start =
     Some (rx', q') \<and> rx_ok rx' \<and> ble_fifo_ok q'"
  using retrieve_packet_safe [of rx_start ble_fifo_start 7 "[1, 0xA5, 1, 2, 251, 0xA5, 9]"]
    rx_start_ok ble_fifo_start_ok by simp

section \<open>The builder\<close>

text \<open>The part of a message a peer can observe, and the messages still to be transmitted.\<close>

definition msg_view :: "ble_msg \<Rightarrow> ble_msg_hdr \<times> byte list" where
  "msg_view m = (m_hdr m, msg_data m)"

definition tx_stream :: "tx_ctx \<Rightarrow> ble_fifo \<Rightarrow> (ble_msg_hdr \<times> byte list) list" where
  "tx_stream tx q =
     (if tx_msg_active tx then [msg_view (tx_cur_msg tx)] else []) @ map msg_view (ble_items BLE_TX q)"

text \<open>Loading a message keeps the stream; without a message the queue is empty.\<close>

lemma tx_load_ok:
  assumes "tx_ok tx" and "ble_fifo_ok q"
  shows "\<exists>tx1 q1. tx_load tx q = Some (tx_msg_active tx1, tx1, q1) \<and> tx_ok tx1 \<and> ble_fifo_ok q1 \<and>
           tx_stream tx1 q1 = tx_stream tx q \<and>
           (tx_msg_active tx \<and> tx1 = tx \<or> \<not> tx_msg_active tx \<and> (tx_msg_active tx1 \<longrightarrow> tx_offset tx1 = 0)) \<and>
           (\<not> tx_msg_active tx1 \<longrightarrow> tx_stream tx q = [])"
proof -
  consider (active) "tx_msg_active tx"
    | (empty) "\<not> tx_msg_active tx" "ble_items BLE_TX q = []"
    | (next_msg) m ms where "\<not> tx_msg_active tx" "ble_items BLE_TX q = m # ms"
    by (cases "ble_items BLE_TX q") auto
  then show ?thesis
  proof cases
    case active
    then show ?thesis
      using assms by (intro exI [of _ tx] exI [of _ q]) (simp add: tx_load_def)
  next
    case empty
    then show ?thesis
      using assms get_next_ble_msg_Nil [OF assms(2) empty(2)]
      by (intro exI [of _ tx] exI [of _ q]) (simp add: tx_load_def tx_stream_def)
  next
    case (next_msg m ms)
    then obtain q' where q': "get_next_ble_msg True BLE_TX q = Some (Some m, q')" "ble_fifo_ok q'"
      "ble_items BLE_TX q' = ms"
      using get_next_ble_msg_Cons [OF assms(2)] by blast
    moreover have "ble_msg_ok m"
      using next_msg ble_items_ok [OF assms(2), of m BLE_TX] by simp
    ultimately show ?thesis
      using next_msg
      by (intro exI [of _ "tx\<lparr>tx_cur_msg := m, tx_offset := 0, tx_msg_active := True\<rparr>"] exI [of _ q'])
        (simp add: tx_load_def tx_stream_def tx_ok_def)
  qed
qed

text \<open>What one emission puts into the packet.\<close>

lemma tx_chunk_eq:
  assumes "tx_ok tx" and "tx_msg_active tx"
  shows "tx_chunk mtu i tx = min (tx_len tx - tx_offset tx) (unat mtu - tx_body_at tx i)"
proof -
  have "tx_offset tx \<le> tx_len tx"
    using assms by (auto simp: tx_ok_def)
  then show ?thesis
    by (simp add: tx_chunk_def u16_minus_id min_def)
qed

lemma length_tx_header [simp]: "length (tx_header m) = 4"
  by (simp add: tx_header_def)

lemma tx_emit_ok:
  assumes ok: "tx_ok tx" "tx_msg_active tx" and b: "tx_body_at tx i \<le> unat mtu"
    and i: "i < unat mtu" "unat mtu \<le> length buf"
  shows "\<exists>buf2. tx_emit mtu i buf tx =
             Some (tx_body_at tx i + tx_chunk mtu i tx, buf2, tx_after mtu i tx) \<and>
           length buf2 = length buf \<and> take i buf2 = take i buf \<and>
           (tx_offset tx = 0 \<longrightarrow> take 4 (drop i buf2) = tx_header (tx_cur_msg tx)) \<and>
           take (tx_chunk mtu i tx) (drop (tx_body_at tx i) buf2) =
             take (tx_chunk mtu i tx) (drop (tx_offset tx) (m_payload (tx_cur_msg tx))) \<and>
           tx_body_at tx i + tx_chunk mtu i tx \<le> unat mtu"
proof -
  let ?c = "tx_chunk mtu i tx" and ?body = "tx_body_at tx i"
  define data where "data = take ?c (drop (tx_offset tx) (m_payload (tx_cur_msg tx)))"
  have m: "ble_msg_ok (tx_cur_msg tx)"
    using ok by (simp add: tx_ok_def)
  have fits: "tx_offset tx + ?c \<le> length (m_payload (tx_cur_msg tx))"
    using ok m by (auto simp: tx_chunk_eq tx_ok_def ble_msg_ok_def ble_msg_typed_def)
  have bc: "?body + ?c \<le> unat mtu"
    using b ok by (simp add: tx_chunk_eq)
  obtain buf1 where buf1: "(if tx_offset tx = 0 then mem_write buf i (tx_header (tx_cur_msg tx))
        else Some buf) = Some buf1"
    using b i by (cases "tx_offset tx = 0") (auto simp: mem_write_def tx_body_at_def tx_header_def)
  have buf1_len: "length buf1 = length buf"
    using buf1 by (auto split: if_splits dest: mem_write_length)
  have buf1_take: "take i buf1 = take i buf"
    using buf1 mem_write_below [of buf i _ buf1 0 i] by (auto split: if_splits)
  have buf1_hdr: "tx_offset tx = 0 \<longrightarrow> take 4 (drop i buf1) = tx_header (tx_cur_msg tx)"
    using buf1 mem_write_same [of buf i "tx_header (tx_cur_msg tx)" buf1] by auto
  have ld: "length data = ?c"
    using fits by (simp add: data_def)
  then obtain buf2 where buf2: "mem_write buf1 ?body data = Some buf2"
    using bc i buf1_len by (simp add: mem_write_def)
  have "take i buf2 = take i buf1"
    using mem_write_below [OF buf2, of 0 i] by (simp add: tx_body_at_def)
  moreover have "tx_offset tx = 0 \<longrightarrow> take 4 (drop i buf2) = take 4 (drop i buf1)"
    using mem_write_below [OF buf2, of i 4] by (simp add: tx_body_at_def)
  moreover have "take ?c (drop ?body buf2) = data"
    using mem_write_same [OF buf2] ld by simp
  moreover have "tx_emit mtu i buf tx = Some (?body + ?c, buf2, tx_after mtu i tx)"
    unfolding tx_emit_alt [OF b] buf1 using fits buf2 by (simp add: mem_simps data_def)
  ultimately show ?thesis
    using buf1_len buf1_take buf1_hdr mem_write_length [OF buf2] bc by (simp add: data_def)
qed

lemma tx_after_ok:
  assumes "tx_ok tx" and "tx_msg_active tx"
  shows "tx_offset tx + tx_chunk mtu i tx \<le> tx_len tx"
    and "tx_after mtu i tx =
      tx\<lparr>tx_offset := tx_offset tx + tx_chunk mtu i tx,
         tx_msg_active := (tx_offset tx + tx_chunk mtu i tx \<noteq> tx_len tx)\<rparr>"
    and "tx_ok (tx_after mtu i tx)"
proof -
  show le: "tx_offset tx + tx_chunk mtu i tx \<le> tx_len tx"
    using assms by (auto simp: tx_chunk_eq tx_ok_def)
  then have "u16 (tx_offset tx + tx_chunk mtu i tx) = tx_offset tx + tx_chunk mtu i tx"
    by (intro u16_id) (rule le_less_trans [OF _ unat_byte_less_u16])
  then show eq: "tx_after mtu i tx =
      tx\<lparr>tx_offset := tx_offset tx + tx_chunk mtu i tx,
         tx_msg_active := (tx_offset tx + tx_chunk mtu i tx \<noteq> tx_len tx)\<rparr>"
    using le assms(2) by (auto simp: tx_after_def)
  show "tx_ok (tx_after mtu i tx)"
    using le assms unfolding eq by (auto simp: tx_ok_def)
qed

lemma build_step_ok:
  assumes "tx_ok tx" and "ble_fifo_ok q" and "i < unat mtu" and "unat mtu \<le> length buf"
  shows "\<exists>c i2 buf2 tx2 q2. build_step mtu i buf tx q = Some (c, i2, buf2, tx2, q2) \<and>
           tx_ok tx2 \<and> ble_fifo_ok q2 \<and> length buf2 = length buf \<and> take i buf2 = take i buf \<and>
           i \<le> i2 \<and> i2 \<le> unat mtu"
proof -
  obtain tx1 q1 where l: "tx_load tx q = Some (tx_msg_active tx1, tx1, q1)" "tx_ok tx1" "ble_fifo_ok q1"
    using tx_load_ok [OF assms(1,2)] by blast
  show ?thesis
  proof (cases "tx_msg_active tx1 \<and> \<not> (tx_offset tx1 = 0 \<and> u16_minus (unat mtu) i < 1 + BLE_HDR_SIZE)")
    case True
    then have b: "tx_body_at tx1 i \<le> unat mtu"
      using assms(3) u16_minus_id [of i "unat mtu"] by (auto simp: tx_body_at_def ble_consts)
    show ?thesis
      using tx_emit_ok [OF l(2) _ b assms(3,4)] True l tx_after_ok(3) [OF l(2), of mtu i]
      by (auto simp: build_step_def tx_body_at_def)
  next
    case False
    then show ?thesis
      using l assms(3) by (auto simp: build_step_def)
  qed
qed

lemma build_loop_frame:
  assumes "tx_ok tx" and "ble_fifo_ok q" and "unat mtu \<le> length buf"
  shows "\<exists>i2 buf2 tx2 q2. build_loop mtu i buf tx q = Some (i2, buf2, tx2, q2) \<and>
           tx_ok tx2 \<and> ble_fifo_ok q2 \<and> length buf2 = length buf \<and> take i buf2 = take i buf \<and>
           i \<le> i2 \<and> (i \<le> unat mtu \<longrightarrow> i2 \<le> unat mtu)"
  using assms
proof (induction mtu i buf tx q rule: build_loop.induct)
  case (1 mtu i buf tx q)
  show ?case
  proof (cases "i < unat mtu")
    case True
    then obtain c i2 buf2 tx2 q2 where s: "build_step mtu i buf tx q = Some (c, i2, buf2, tx2, q2)"
      "tx_ok tx2" "ble_fifo_ok q2" "length buf2 = length buf" "take i buf2 = take i buf"
      "i \<le> i2" "i2 \<le> unat mtu"
      using build_step_ok "1.prems" by blast
    show ?thesis
    proof (cases c)
      case c: True
      obtain i3 buf3 tx3 q3 where r: "build_loop mtu i2 buf2 tx2 q2 = Some (i3, buf3, tx3, q3)"
        "tx_ok tx3" "ble_fifo_ok q3" "length buf3 = length buf" "take i2 buf3 = take i2 buf2"
        "i2 \<le> i3" "i3 \<le> unat mtu"
        using "1.IH" [OF True s(1) refl refl refl refl c s(2,3)] s "1.prems"(3) by auto
      have "take i buf3 = take i buf"
        using arg_cong [OF r(5), of "take i"] s(5,6) by (simp add: min_def)
      then show ?thesis
        using r s True c by (subst build_loop.simps) auto
    next
      case False
      then show ?thesis
        using s True by (subst build_loop.simps) auto
    qed
  next
    case False
    then show ?thesis
      using "1.prems" by (subst build_loop.simps) auto
  qed
qed

text \<open>
  \<open>ble_build_next_packet\<close> always terminates with a packet of at least the flag byte and at most
  \<open>effective_mtu\<close> bytes, never writes beyond the buffer when it is at least as large as the MTU, never
  reads beyond a message payload, and keeps its context and the queues well formed.
\<close>

lemma build_packet_safe:
  assumes "tx_ok tx" and "ble_fifo_ok q" and "0 < unat mtu" and "unat mtu \<le> length buf"
  shows "\<exists>n buf' tx' q'. ble_build_next_packet (Some buf) mtu True tx q =
             Some (n > 1, Some n, Some buf', tx', q') \<and>
           1 \<le> n \<and> n \<le> unat mtu \<and> length buf' = length buf \<and> tx_ok tx' \<and> ble_fifo_ok q'"
proof -
  obtain buf1 where "mem_write buf 0 [if tx_msg_active tx then 1 else 0] = Some buf1"
    "length buf1 = length buf"
    using assms(3,4) by (auto simp: mem_write_def)
  then show ?thesis
    using build_loop_frame [OF assms(1,2), of mtu buf1 1] assms(3,4)
    by (auto simp: ble_build_next_packet_def)
qed

definition tx_start :: tx_ctx where
  "tx_start = \<lparr>tx_cur_msg = \<lparr>m_hdr = \<lparr>h_opcode = 0, h_req_app = 0, h_len = 0\<rparr>,
     m_payload = replicate 250 0\<rparr>, tx_offset = 0, tx_msg_active = False\<rparr>"

lemma tx_start_ok: "tx_ok tx_start"
  by (simp add: tx_ok_def tx_start_def)

lemma build_packet_safe_witness:
  "\<exists>n buf' tx' q'. ble_build_next_packet (Some (replicate 20 0)) 20 True tx_start ble_fifo_start =
     Some (n > 1, Some n, Some buf', tx', q') \<and> n \<le> 20"
  using build_packet_safe [of tx_start ble_fifo_start 20 "replicate 20 0"]
    tx_start_ok ble_fifo_start_ok by auto

end
