(* ===== verification/Ble_Roundtrip.thy ===== *)
theory Ble_Roundtrip
  imports Ble_Link
begin

text \<open>
  The two ends of the link together: a packet produced by \<open>ble_build_next_packet\<close> and handed to
  \<open>ble_retrieve_packet\<close> moves messages from the transmit stream of one side to the receive queue of
  the other. \<open>link_rel\<close> relates the two contexts between packets.
\<close>

section \<open>Relation between the two contexts\<close>

definition rx_idle :: "rx_ctx \<Rightarrow> bool" where
  "rx_idle rx \<longleftrightarrow> rx_ok rx \<and> rx_st rx = RX_WAIT_MAGIC"

definition rx_reading :: "rx_ctx \<Rightarrow> ble_msg \<Rightarrow> nat \<Rightarrow> bool" where
  "rx_reading rx m k \<longleftrightarrow>
     rx_ok rx \<and> rx_st rx = RX_READ_PAYLOAD \<and> m_hdr (rx_cur_msg rx) = m_hdr m \<and> rx_offset rx = k \<and>
     take k (m_payload (rx_cur_msg rx)) = take k (m_payload m)"

definition link_rel :: "tx_ctx \<Rightarrow> rx_ctx \<Rightarrow> bool" where
  "link_rel tx rx \<longleftrightarrow>
     (if tx_msg_active tx \<and> tx_offset tx \<noteq> 0 then rx_reading rx (tx_cur_msg tx) (tx_offset tx)
      else rx_idle rx)"

text \<open>The receive queue after a number of messages was delivered.\<close>

definition delivered :: "ble_fifo \<Rightarrow> (ble_msg_hdr \<times> byte list) list \<Rightarrow> ble_fifo \<Rightarrow> bool" where
  "delivered q vs q' \<longleftrightarrow>
     ble_fifo_ok q' \<and>
     map msg_view (ble_items BLE_RX q') = last_n BLE_FIFO_SIZE (map msg_view (ble_items BLE_RX q) @ vs)"

lemma delivered_Nil: "ble_fifo_ok q \<Longrightarrow> delivered q [] q"
  using bleq.items_bound [of q BLE_RX] by (simp add: delivered_def)

lemma delivered_append:
  "delivered q vs q1 \<Longrightarrow> delivered q1 ws q2 \<Longrightarrow> delivered q (vs @ ws) q2"
  by (simp add: delivered_def last_n_snoc ble_consts flip: append_assoc)

lemma delivered_add:
  assumes "ble_fifo_ok q" and "ble_msg_ok m" and "msg_view m = v"
  shows "\<exists>q'. add_ble_msg_to_queue (Some m) BLE_RX q = Some (True, q') \<and> delivered q [v] q'"
  using add_ble_msg_ok [OF assms(1,2), of BLE_RX] assms(3)
  by (auto simp: delivered_def last_n_map)

lemma retrieve_loop_step:
  assumes "i < unat len" and "retrieve_step pkt len i rx q = Some (True, i2, rx2, q2)"
  shows "retrieve_loop pkt len i rx q = retrieve_loop pkt len i2 rx2 q2"
  using assms by (subst retrieve_loop.simps) simp

lemma retrieve_loop_done: "unat len \<le> i \<Longrightarrow> retrieve_loop pkt len i rx q = Some (rx, q)"
  by (subst retrieve_loop.simps) simp

lemma nth_of_segment:
  "take n (drop i xs) = ys \<Longrightarrow> k < n \<Longrightarrow> i + n \<le> length xs \<Longrightarrow> xs ! (i + k) = ys ! k"
  by (metis add_leD1 nth_drop nth_take)

section \<open>The parser on well-formed segments\<close>

lemma parse_header:
  assumes idle: "rx_idle rx" and m: "ble_msg_ok m" and len: "i + 4 \<le> unat len" "unat len \<le> length pkt"
    and seg: "take 4 (drop i pkt) = tx_header m"
  shows "\<exists>rx'. retrieve_loop pkt len i rx q = retrieve_loop pkt len (i + 1) rx' q \<and>
           rx_ok rx' \<and> rx_st rx' = RX_READ_HEADER"
    and "rd pkt (i + 1) = Some (h_opcode (m_hdr m))" and "rd pkt (i + 2) = Some (h_req_app (m_hdr m))"
    and "rd pkt (i + 3) = Some (h_len (m_hdr m))"
proof -
  have at: "pkt ! (i + k) = tx_header m ! k" if "k < 4" for k
    using nth_of_segment [OF seg that] len by simp
  show "rd pkt (i + 1) = Some (h_opcode (m_hdr m))" "rd pkt (i + 2) = Some (h_req_app (m_hdr m))"
    "rd pkt (i + 3) = Some (h_len (m_hdr m))"
    using at [of 1] at [of 2] at [of 3] len by (simp_all add: rd_def tx_header_def)
  have "rd pkt i = Some BLE_MAGIC"
    using at [of 0] len by (simp add: rd_def tx_header_def)
  then have "retrieve_step pkt len i rx q = Some (True, i + 1, rx\<lparr>rx_st := RX_READ_HEADER\<rparr>, q)"
    using idle len by (simp add: retrieve_step_def rx_idle_def rx_wait_magic_def)
  then have "retrieve_loop pkt len i rx q =
      retrieve_loop pkt len (i + 1) (rx\<lparr>rx_st := RX_READ_HEADER\<rparr>) q"
    using len by (intro retrieve_loop_step) simp_all
  then show "\<exists>rx'. retrieve_loop pkt len i rx q = retrieve_loop pkt len (i + 1) rx' q \<and>
           rx_ok rx' \<and> rx_st rx' = RX_READ_HEADER"
    using idle by (intro exI [of _ "rx\<lparr>rx_st := RX_READ_HEADER\<rparr>"]) (simp add: rx_idle_def rx_ok_def)
qed

lemma parse_fresh_empty:
  assumes "rx_idle rx" and m: "ble_msg_ok m" and len: "i + 4 \<le> unat len" "unat len \<le> length pkt"
    and "take 4 (drop i pkt) = tx_header m" and q: "ble_fifo_ok q" and z: "unat (h_len (m_hdr m)) = 0"
  shows "\<exists>rx' q'. retrieve_loop pkt len i rx q = retrieve_loop pkt len (i + 4) rx' q' \<and>
           rx_idle rx' \<and> delivered q [msg_view m] q'"
proof -
  note h = parse_header [OF assms(1-5)]
  obtain rx1 where rx1: "retrieve_loop pkt len i rx q = retrieve_loop pkt len (i + 1) rx1 q"
    "rx_ok rx1" "rx_st rx1 = RX_READ_HEADER"
    using h(1) by blast
  let ?m = "(rx_cur_msg rx1)\<lparr>m_hdr := m_hdr m\<rparr>"
  have z': "h_len (m_hdr m) = 0"
    using z by (simp add: unat_eq_0)
  have "ble_msg_ok ?m" and "msg_view ?m = msg_view m"
    using m rx1(2) z by (simp_all add: ble_msg_ok_def ble_msg_typed_def rx_ok_def msg_view_def msg_data_def)
  then obtain q' where q': "add_ble_msg_to_queue (Some ?m) BLE_RX q = Some (True, q')"
    "delivered q [msg_view m] q'"
    using delivered_add [OF q] by blast
  have hdr: "\<lparr>h_opcode = h_opcode (m_hdr m), h_req_app = h_req_app (m_hdr m), h_len = 0\<rparr> = m_hdr m"
    using z' by (cases "m_hdr m") simp
  let ?rx = "rx1\<lparr>rx_cur_msg := ?m, rx_offset := 0, rx_msg_active := False, rx_st := RX_WAIT_MAGIC\<rparr>"
  have "retrieve_step pkt len (i + 1) rx1 q = Some (True, i + 4, ?rx, q')"
    using h(2-4) rx1(3) len z' q'(1)
    by (simp add: retrieve_step_def rx_read_header_def numeral_eq_Suc Let_def hdr)
  then have "retrieve_loop pkt len (i + 1) rx1 q = retrieve_loop pkt len (i + 4) ?rx q'"
    using len by (intro retrieve_loop_step) simp_all
  moreover have "rx_idle ?rx"
    using rx1(2) by (simp add: rx_idle_def rx_ok_def ble_msg_typed_def)
  ultimately show ?thesis
    using rx1(1) q'(2) by auto
qed

lemma parse_fresh_payload:
  assumes "rx_idle rx" and m: "ble_msg_ok m" and len: "i + 4 \<le> unat len" "unat len \<le> length pkt"
    and "take 4 (drop i pkt) = tx_header m" and z: "0 < unat (h_len (m_hdr m))"
  shows "\<exists>rx'. retrieve_loop pkt len i rx q = retrieve_loop pkt len (i + 4) rx' q \<and> rx_reading rx' m 0"
proof -
  note h = parse_header [OF assms(1-5)]
  obtain rx1 where rx1: "retrieve_loop pkt len i rx q = retrieve_loop pkt len (i + 1) rx1 q"
    "rx_ok rx1" "rx_st rx1 = RX_READ_HEADER"
    using h(1) by blast
  have z': "h_len (m_hdr m) \<noteq> 0"
    using z by auto
  let ?rx = "rx1\<lparr>rx_cur_msg := (rx_cur_msg rx1)\<lparr>m_hdr := m_hdr m\<rparr>, rx_offset := 0,
                rx_msg_active := True, rx_st := RX_READ_PAYLOAD\<rparr>"
  have "retrieve_step pkt len (i + 1) rx1 q = Some (True, i + 4, ?rx, q)"
    using h(2-4) rx1(3) len z' m
    by (simp add: retrieve_step_def rx_read_header_def numeral_eq_Suc ble_msg_ok_def)
  then have "retrieve_loop pkt len (i + 1) rx1 q = retrieve_loop pkt len (i + 4) ?rx q"
    using len by (intro retrieve_loop_step) simp_all
  moreover have "rx_reading ?rx m 0"
    using rx1(2) m z by (simp add: rx_reading_def rx_ok_def ble_msg_typed_def ble_msg_ok_def)
  ultimately show ?thesis
    using rx1(1) by auto
qed

lemma parse_payload:
  assumes rd: "rx_reading rx m k" and m: "ble_msg_ok m" and i: "i < unat len" "unat len \<le> length pkt"
    and c: "c = min (unat (h_len (m_hdr m)) - k) (unat len - i)"
    and seg: "take c (drop i pkt) = take c (drop k (m_payload m))" and q: "ble_fifo_ok q"
  shows "\<exists>rx' q'. retrieve_loop pkt len i rx q = retrieve_loop pkt len (i + c) rx' q' \<and>
           (if k + c = unat (h_len (m_hdr m)) then rx_idle rx' \<and> delivered q [msg_view m] q'
            else rx_reading rx' m (k + c) \<and> q' = q)"
proof -
  let ?n = "unat (h_len (m_hdr m))"
  have hdr: "m_hdr (rx_cur_msg rx) = m_hdr m" and st: "rx_st rx = RX_READ_PAYLOAD"
    and k: "rx_offset rx = k" and pre: "take k (m_payload (rx_cur_msg rx)) = take k (m_payload m)"
    and ok: "rx_ok rx"
    using rd by (simp_all add: rx_reading_def)
  have kn: "k < ?n" "?n \<le> BLE_MAX_PAYLOAD_SIZE" and ty: "ble_msg_typed (rx_cur_msg rx)"
    and act: "rx_msg_active rx"
    using ok st k hdr by (auto simp: rx_ok_def)
  have cc: "rx_chunk (unat len) i rx = c"
    using c k hdr by (simp add: rx_chunk_def)
  define data where "data = take c (drop i pkt)"
  have ld: "length data = c" and rdt: "mem_read pkt i c = Some data"
    using c i by (auto simp: data_def mem_simps)
  have kc: "k + c \<le> ?n"
    using c kn by auto
  obtain p where p: "mem_write (m_payload (rx_cur_msg rx)) k data = Some p"
    using kc kn ty ld by (simp add: mem_simps ble_msg_typed_def)
  have lp: "length p = BLE_MAX_PAYLOAD_SIZE"
    using mem_write_length [OF p] ty by (simp add: ble_msg_typed_def)
  have pp: "take (k + c) p = take (k + c) (m_payload m)"
    using mem_write_take [OF p] ld pre seg data_def by (simp add: take_add)
  let ?m = "(rx_cur_msg rx)\<lparr>m_payload := p\<rparr>"
  have step: "retrieve_step pkt len i rx q =
      (if k + c = ?n then
         do { (b, q1) \<leftarrow> add_ble_msg_to_queue (Some ?m) BLE_RX q;
              Some (True, i + c, rx\<lparr>rx_cur_msg := ?m, rx_offset := k + c,
                                   rx_msg_active := False, rx_st := RX_WAIT_MAGIC\<rparr>, q1) }
       else Some (True, i + c, rx\<lparr>rx_cur_msg := ?m, rx_offset := k + c\<rparr>, q))"
    using kn i k hdr by (simp add: retrieve_step_def st rx_read_payload_alt cc rdt p)
  show ?thesis
  proof (cases "k + c = ?n")
    case True
    have "ble_msg_ok ?m" and "msg_view ?m = msg_view m"
      using m lp hdr pp True by (simp_all add: ble_msg_ok_def ble_msg_typed_def msg_view_def msg_data_def)
    then obtain q' where "add_ble_msg_to_queue (Some ?m) BLE_RX q = Some (True, q')"
      "delivered q [msg_view m] q'"
      using delivered_add [OF q] by blast
    moreover have "rx_idle (rx\<lparr>rx_cur_msg := ?m, rx_offset := k + c, rx_msg_active := False,
                               rx_st := RX_WAIT_MAGIC\<rparr>)"
      using lp by (simp add: rx_idle_def rx_ok_def ble_msg_typed_def)
    ultimately show ?thesis
      using step True retrieve_loop_step [OF i(1)] by auto
  next
    case False
    then have "rx_reading (rx\<lparr>rx_cur_msg := ?m, rx_offset := k + c\<rparr>) m (k + c)"
      using kc kn lp hdr pp st act by (simp add: rx_reading_def rx_ok_def ble_msg_typed_def)
    then show ?thesis
      using step False retrieve_loop_step [OF i(1)] by auto
  qed
qed

section \<open>One emission and its parse\<close>

lemma emission_payload:
  assumes ok: "tx_ok tx" "tx_msg_active tx" and pos: "0 < tx_chunk mtu i tx"
    and rd: "rx_reading rx (tx_cur_msg tx) (tx_offset tx)"
    and len: "tx_body_at tx i + tx_chunk mtu i tx \<le> unat len" "unat len \<le> length pkt"
    and full: "tx_msg_active (tx_after mtu i tx) \<longrightarrow> unat len = tx_body_at tx i + tx_chunk mtu i tx"
    and seg: "take (tx_chunk mtu i tx) (drop (tx_body_at tx i) pkt) =
      take (tx_chunk mtu i tx) (drop (tx_offset tx) (m_payload (tx_cur_msg tx)))"
    and q: "ble_fifo_ok q"
  shows "\<exists>rx' q'. retrieve_loop pkt len (tx_body_at tx i) rx q =
             retrieve_loop pkt len (tx_body_at tx i + tx_chunk mtu i tx) rx' q' \<and>
           link_rel (tx_after mtu i tx) rx' \<and>
           delivered q (if tx_msg_active (tx_after mtu i tx) then [] else [msg_view (tx_cur_msg tx)]) q'"
proof -
  let ?c = "tx_chunk mtu i tx" and ?body = "tx_body_at tx i" and ?m = "tx_cur_msg tx"
  have m: "ble_msg_ok ?m"
    using ok by (simp add: tx_ok_def)
  note after = tx_after_ok [OF ok, of mtu i]
  have act: "tx_msg_active (tx_after mtu i tx) \<longleftrightarrow> tx_offset tx + ?c \<noteq> tx_len tx"
    by (simp add: after(2))
  have c: "?c = min (tx_len tx - tx_offset tx) (unat len - ?body)"
    using after(1) full len act by (auto simp: min_def)
  have "?body < unat len"
    using pos len by linarith
  then obtain rx' q' where "retrieve_loop pkt len ?body rx q = retrieve_loop pkt len (?body + ?c) rx' q'"
    "if tx_offset tx + ?c = tx_len tx then rx_idle rx' \<and> delivered q [msg_view ?m] q'
     else rx_reading rx' ?m (tx_offset tx + ?c) \<and> q' = q"
    using parse_payload [OF rd m _ len(2) c seg q] by blast
  then show ?thesis
    using pos delivered_Nil [OF q]
    by (intro exI [of _ rx'] exI [of _ q']) (auto simp: after(2) link_rel_def split: if_splits)
qed

lemma emission_parsed:
  assumes ok: "tx_ok tx" "tx_msg_active tx" and rel: "link_rel tx rx" and i: "i < unat mtu"
    and len: "tx_body_at tx i + tx_chunk mtu i tx \<le> unat len" "unat len \<le> length pkt"
    and full: "tx_msg_active (tx_after mtu i tx) \<longrightarrow> unat len = tx_body_at tx i + tx_chunk mtu i tx"
    and exact: "\<not> (tx_msg_active (tx_after mtu i tx) \<and> tx_offset (tx_after mtu i tx) = 0)"
    and hdr: "tx_offset tx = 0 \<longrightarrow> take 4 (drop i pkt) = tx_header (tx_cur_msg tx)"
    and seg: "take (tx_chunk mtu i tx) (drop (tx_body_at tx i) pkt) =
      take (tx_chunk mtu i tx) (drop (tx_offset tx) (m_payload (tx_cur_msg tx)))"
    and q: "ble_fifo_ok q"
  shows "\<exists>rx' q'. retrieve_loop pkt len i rx q =
             retrieve_loop pkt len (tx_body_at tx i + tx_chunk mtu i tx) rx' q' \<and>
           link_rel (tx_after mtu i tx) rx' \<and>
           delivered q (if tx_msg_active (tx_after mtu i tx) then [] else [msg_view (tx_cur_msg tx)]) q'"
proof -
  have m: "ble_msg_ok (tx_cur_msg tx)"
    using ok by (simp add: tx_ok_def)
  note after = tx_after_ok [OF ok, of mtu i]
  note pay = emission_payload [OF ok _ _ len full seg q]
  consider (cont) "tx_offset tx \<noteq> 0" | (empty) "tx_offset tx = 0" "tx_len tx = 0"
    | (fresh) "tx_offset tx = 0" "0 < tx_len tx" by auto
  then show ?thesis
  proof cases
    case cont
    then have "0 < tx_chunk mtu i tx" and "tx_body_at tx i = i"
      using ok i by (auto simp: tx_chunk_eq tx_ok_def tx_body_at_def)
    then show ?thesis
      using pay [of rx] rel cont ok by (simp add: link_rel_def)
  next
    case empty
    have "tx_chunk mtu i tx = 0"
      using ok empty by (simp add: tx_chunk_eq)
    moreover have "rx_idle rx"
      using rel empty by (simp add: link_rel_def)
    ultimately show ?thesis
      using parse_fresh_empty [of rx "tx_cur_msg tx" i len pkt q] empty m len hdr q
      by (simp add: after(2) tx_body_at_def link_rel_def)
  next
    case fresh
    then have pos: "0 < tx_chunk mtu i tx"
      using exact by (auto simp: after(2))
    obtain rx1 where "retrieve_loop pkt len i rx q = retrieve_loop pkt len (tx_body_at tx i) rx1 q"
      "rx_reading rx1 (tx_cur_msg tx) (tx_offset tx)"
      using parse_fresh_payload [of rx "tx_cur_msg tx" i len pkt q] fresh m len hdr rel
      by (auto simp: link_rel_def tx_body_at_def)
    then show ?thesis
      using pay [OF pos, of rx1] by simp
  qed
qed

section \<open>One packet\<close>

lemma segment_preserved:
  "take n xs = take n ys \<Longrightarrow> i + k \<le> n \<Longrightarrow> take k (drop i xs) = take k (drop i ys)"
proof -
  assume eq: "take n xs = take n ys" and le: "i + k \<le> n"
  have "take (i + k) xs = take (i + k) ys"
    using arg_cong [OF eq, of "take (i + k)"] le by (simp add: min_absorb1)
  then show ?thesis
    by (simp add: take_drop add.commute)
qed

lemma build_loop_parsed:
  assumes "tx_ok tx" and "ble_fifo_ok q" and "unat mtu \<le> length buf"
    and "build_loop mtu i buf tx q = Some (n, pkt, tx', q')" and "unat len = n"
    and "\<not> (tx_msg_active tx' \<and> tx_offset tx' = 0 \<and> n = unat mtu)"
    and "link_rel tx rx" and "ble_fifo_ok qr" and "take n rbuf = take n pkt" and "n \<le> length rbuf"
  shows "\<exists>rx' qr' vs. retrieve_loop rbuf len i rx qr = Some (rx', qr') \<and> link_rel tx' rx' \<and>
           delivered qr vs qr' \<and> vs @ tx_stream tx' q' = tx_stream tx q"
  using assms
proof (induction mtu i buf tx q arbitrary: rx qr rule: build_loop.induct)
  case (1 mtu i buf tx q)
  note prems = "1.prems"
  have stay: ?case if "n = i" "link_rel tx' rx" "tx_stream tx' q' = tx_stream tx q"
    using that prems delivered_Nil by (auto simp: retrieve_loop_done)
  show ?case
  proof (cases "i < unat mtu")
    case False
    then show ?thesis
      using prems(4,7) stay by (simp add: build_loop.simps)
  next
    case i: True
    obtain tx1 q1 where l: "tx_load tx q = Some (tx_msg_active tx1, tx1, q1)" "tx_ok tx1"
      "ble_fifo_ok q1" "tx_stream tx1 q1 = tx_stream tx q"
      "tx_msg_active tx \<and> tx1 = tx \<or> \<not> tx_msg_active tx \<and> (tx_msg_active tx1 \<longrightarrow> tx_offset tx1 = 0)"
      using tx_load_ok [OF prems(1,2)] by blast
    have rel1: "link_rel tx1 rx"
      using l(5) prems(7) by (auto simp: link_rel_def)
    show ?thesis
    proof (cases "tx_msg_active tx1 \<and> \<not> (tx_offset tx1 = 0 \<and> u16_minus (unat mtu) i < 1 + BLE_HDR_SIZE)")
      case False
      then have "build_step mtu i buf tx q = Some (False, i, buf, tx1, q1)"
        using l(1) by (auto simp: build_step_def)
      then show ?thesis
        using prems(4) i rel1 l(4) stay by (simp add: build_loop.simps)
    next
      case emit: True
      then have b: "tx_body_at tx1 i \<le> unat mtu" and act: "tx_msg_active tx1"
        using i u16_minus_id [of i "unat mtu"] by (auto simp: tx_body_at_def ble_consts)
      let ?i2 = "tx_body_at tx1 i + tx_chunk mtu i tx1" and ?tx2 = "tx_after mtu i tx1"
      note after = tx_after_ok [OF l(2) act, of mtu i]
      obtain buf2 where e: "tx_emit mtu i buf tx1 = Some (?i2, buf2, ?tx2)" "length buf2 = length buf"
        "tx_offset tx1 = 0 \<longrightarrow> take 4 (drop i buf2) = tx_header (tx_cur_msg tx1)"
        "take (tx_chunk mtu i tx1) (drop (tx_body_at tx1 i) buf2) =
           take (tx_chunk mtu i tx1) (drop (tx_offset tx1) (m_payload (tx_cur_msg tx1)))"
        "?i2 \<le> unat mtu"
        using tx_emit_ok [OF l(2) act b i prems(3)] by (elim exE conjE) (rule that)
      have step: "build_step mtu i buf tx q = Some (?i2 < unat mtu, ?i2, buf2, ?tx2, q1)"
        using l(1) emit e(1) by (auto simp: build_step_def)
      have loop: "(if ?i2 < unat mtu then build_loop mtu ?i2 buf2 ?tx2 q1
                   else Some (?i2, buf2, ?tx2, q1)) = Some (n, pkt, tx', q')"
        using prems(4) i step by (simp add: build_loop.simps [of mtu i])
      have built: "?i2 \<le> n" "take ?i2 pkt = take ?i2 buf2"
        using loop build_loop_frame [OF after(3) l(3), of mtu buf2 ?i2] e(2,5) prems(3)
        by (auto split: if_splits)
      have "take ?i2 rbuf = take ?i2 pkt"
        using arg_cong [OF prems(9), of "take ?i2"] built(1) by (simp add: min_absorb1)
      then have frame: "?i2 \<le> n" "take ?i2 rbuf = take ?i2 buf2" "n \<le> length rbuf"
        using built prems(10) by simp_all
      have inact: "?i2 < unat mtu \<Longrightarrow> \<not> tx_msg_active ?tx2"
        using l(2) act by (auto simp: after(2) tx_chunk_eq tx_ok_def)
      have exact: "\<not> (tx_msg_active ?tx2 \<and> tx_offset ?tx2 = 0)"
        using loop prems(6) e(5) inact by (auto split: if_splits)
      have full: "tx_msg_active ?tx2 \<longrightarrow> unat len = ?i2"
        using loop inact prems(5) by (auto split: if_splits)
      have hdr: "tx_offset tx1 = 0 \<longrightarrow> take 4 (drop i rbuf) = tx_header (tx_cur_msg tx1)"
        using e(3) segment_preserved [OF frame(2), of i 4] by (simp add: tx_body_at_def)
      have seg: "take (tx_chunk mtu i tx1) (drop (tx_body_at tx1 i) rbuf) =
          take (tx_chunk mtu i tx1) (drop (tx_offset tx1) (m_payload (tx_cur_msg tx1)))"
        using e(4) segment_preserved [OF frame(2), of "tx_body_at tx1 i" "tx_chunk mtu i tx1"] by simp
      obtain rx2 qr2 where r: "retrieve_loop rbuf len i rx qr = retrieve_loop rbuf len ?i2 rx2 qr2"
        "link_rel ?tx2 rx2"
        "delivered qr (if tx_msg_active ?tx2 then [] else [msg_view (tx_cur_msg tx1)]) qr2"
        using emission_parsed [OF l(2) act rel1 i _ _ full exact hdr seg prems(8)] frame prems(5)
        by auto
      have st: "(if tx_msg_active ?tx2 then [] else [msg_view (tx_cur_msg tx1)]) @ tx_stream ?tx2 q1 =
          tx_stream tx q"
        using l(4) act by (auto simp: tx_stream_def after(2) split: if_splits)
      show ?thesis
      proof (cases "?i2 < unat mtu")
        case True
        then obtain rx' qr' vs where "retrieve_loop rbuf len ?i2 rx2 qr2 = Some (rx', qr')"
          "link_rel tx' rx'" "delivered qr2 vs qr'" "vs @ tx_stream tx' q' = tx_stream ?tx2 q1"
          using "1.IH" [OF i step refl refl refl refl True after(3) l(3) _ _ prems(5,6) r(2), of qr2]
            loop e(2) prems(3,9,10) r(3) by (auto simp: delivered_def)
        then show ?thesis
          using r st delivered_append [OF r(3)] by (metis append_assoc)
      next
        case False
        then have "n = ?i2" "tx' = ?tx2" "q' = q1"
          using loop by auto
        then show ?thesis
          using r st prems(5) by (auto simp: retrieve_loop_done)
      qed
    qed
  qed
qed

text \<open>The flag byte of the packet and what the receiver makes of it.\<close>

lemma build_packet_SomeD:
  assumes "ble_build_next_packet (Some buf) mtu True tx q = Some (r, Some n, Some pkt, tx', q')"
  obtains buf1 where "mem_write buf 0 [if tx_msg_active tx then 1 else 0] = Some buf1"
    and "build_loop mtu 1 buf1 tx q = Some (n, pkt, tx', q')" and "r = (n > 1)"
  using assms by (auto simp: ble_build_next_packet_def bind_eq_Some_iff)

lemma retrieve_packet_start:
  assumes "link_rel tx rx" and "len \<noteq> 0" and "rd pkt 0 = Some (if tx_msg_active tx then 1 else 0)"
  shows "\<exists>rx1. ble_retrieve_packet (Some pkt) len rx q = retrieve_loop pkt len 1 rx1 q \<and> link_rel tx rx1"
proof (cases "tx_msg_active tx \<and> tx_offset tx \<noteq> 0")
  case True
  then have "rx_msg_active rx"
    using assms(1) by (simp add: link_rel_def rx_reading_def rx_ok_def)
  then show ?thesis
    using assms True by (intro exI [of _ rx]) (simp add: ble_retrieve_packet_def)
next
  case False
  then have "rx_idle rx"
    using assms(1) by (simp add: link_rel_def)
  then have idle: "rx_idle (rx_reset_context rx)" and act: "\<not> rx_msg_active rx"
    by (simp_all add: rx_idle_def rx_ok_def rx_reset_context_def)
  have "rx\<lparr>rx_st := RX_WAIT_MAGIC, rx_offset := 0\<rparr> = rx_reset_context rx"
    using act by (cases rx) (simp add: rx_reset_context_def)
  moreover have "(rx_reset_context rx)\<lparr>rx_msg_active := False\<rparr> = rx_reset_context rx"
    by (simp add: rx_reset_context_def)
  ultimately have "ble_retrieve_packet (Some pkt) len rx q = retrieve_loop pkt len 1 (rx_reset_context rx) q"
    using assms(2,3) act
    by (cases "tx_msg_active tx")
      (simp_all add: ble_retrieve_packet_def rx_reset_context_def [of rx, symmetric])
  then show ?thesis
    using idle False by (auto simp: link_rel_def)
qed

text \<open>A packet that the header of a message with payload fills to its last byte.\<close>

definition header_filled :: "16 word \<Rightarrow> nat \<Rightarrow> tx_ctx \<Rightarrow> bool" where
  "header_filled mtu n tx' \<longleftrightarrow> tx_msg_active tx' \<and> tx_offset tx' = 0 \<and> n = unat mtu"

text \<open>The receiver has the packet at the start of a buffer of its own.\<close>

lemma packet_delivered:
  assumes tx: "tx_ok tx" "ble_fifo_ok q" and mtu: "0 < unat mtu" "unat mtu \<le> length buf"
    and build: "ble_build_next_packet (Some buf) mtu True tx q = Some (r, Some n, Some pkt, tx', q')"
    and exact: "\<not> header_filled mtu n tx'"
    and rx: "link_rel tx rx" "ble_fifo_ok qr" and rbuf: "take n rbuf = take n pkt" "n \<le> length rbuf"
  shows "\<exists>rx' qr' vs. ble_retrieve_packet (Some rbuf) (word_of_nat n) rx qr = Some (rx', qr') \<and>
           link_rel tx' rx' \<and> delivered qr vs qr' \<and> vs @ tx_stream tx' q' = tx_stream tx q"
proof -
  obtain buf1 where b: "mem_write buf 0 [if tx_msg_active tx then 1 else 0] = Some buf1"
    "build_loop mtu 1 buf1 tx q = Some (n, pkt, tx', q')"
    using build_packet_SomeD [OF build] by blast
  have lb: "unat mtu \<le> length buf1"
    using mem_write_length [OF b(1)] mtu by simp
  have f: "1 \<le> n" "n \<le> unat mtu" "take 1 pkt = take 1 buf1"
    using build_loop_frame [OF tx lb, of 1] b(2) mtu lb by auto
  have n: "unat (word_of_nat n :: 16 word) = n"
    using le_less_trans [OF f(2) unat_u16_less] by (simp add: unat_of_nat)
  have "take 1 rbuf = take 1 pkt"
    using arg_cong [OF rbuf(1), of "take 1"] f(1) by (simp add: min_absorb1)
  then have "take 1 rbuf = [if tx_msg_active tx then 1 else 0]"
    using f(3) mem_write_take [OF b(1)] by simp
  then have "rd rbuf 0 = Some (if tx_msg_active tx then 1 else 0)"
    using f(1) rbuf(2) by (cases rbuf) (auto simp: rd_def)
  moreover have "(word_of_nat n :: 16 word) \<noteq> 0"
    using n f(1) by auto
  ultimately obtain rx1 where "link_rel tx rx1"
    "ble_retrieve_packet (Some rbuf) (word_of_nat n) rx qr = retrieve_loop rbuf (word_of_nat n) 1 rx1 qr"
    using retrieve_packet_start [OF rx(1)] by blast
  then show ?thesis
    using build_loop_parsed [OF tx lb b(2) n _ _ rx(2) rbuf, of rx1] exact by (simp add: header_filled_def)
qed

text \<open>
  C1: one packet transports the stream, unless the header of a message fills it to the last byte. Let the two contexts be in step and
  let the receiver have a packet of the builder at the start of its buffer. If the packet does not end with the header of a message
  whose payload has not begun (\<open>header_filled\<close>: the builder would repeat that header, treated in the last section), the parser delivers some
  messages \<open>vs\<close> to its receive queue, in order and byte for byte (the oldest entries of a full queue are dropped), the contexts stay in step, and delivered
  plus still pending messages are exactly the messages that were pending before: nothing is lost, duplicated or altered.
\<close>

theorem packet_roundtrip:
  assumes "tx_ok tx" and "ble_fifo_ok q" and "0 < unat mtu" and "unat mtu \<le> length buf"
    and "ble_build_next_packet (Some buf) mtu True tx q = Some (r, Some n, Some pkt, tx', q')"
    and "\<not> header_filled mtu n tx'"
    and "link_rel tx rx" and "ble_fifo_ok qr" and "take n rbuf = take n pkt" and "n \<le> length rbuf"
  shows "\<exists>rx' qr' vs. ble_retrieve_packet (Some rbuf) (word_of_nat n) rx qr = Some (rx', qr') \<and>
           link_rel tx' rx' \<and> ble_fifo_ok qr' \<and>
           map msg_view (ble_items BLE_RX qr') =
             last_n BLE_FIFO_SIZE (map msg_view (ble_items BLE_RX qr) @ vs) \<and>
           vs @ tx_stream tx' q' = tx_stream tx q"
  using packet_delivered [OF assms] by (auto simp: delivered_def)

definition tx_example :: tx_ctx where
  "tx_example = \<lparr>tx_cur_msg = ble_msg_example, tx_offset = 0, tx_msg_active = True\<rparr>"

lemma packet_roundtrip_instance:
  "ble_build_next_packet (Some [0, 0, 0, 0, 0, 0, 0]) 7 True tx_example ble_fifo_start =
   Some (True, Some 7, Some [1, 0xA5, 1, 7, 2, 9, 8],
         tx_example\<lparr>tx_offset := 2, tx_msg_active := False\<rparr>, ble_fifo_start)"
  by (simp add: ble_build_next_packet_def build_loop.simps build_step_def tx_load_def tx_emit_def
      mem_write_def mem_read_def tx_header_def ble_msg_example_def tx_example_def u16_minus_def u16_def
      ble_consts)

theorem packet_roundtrip_witness:
  "\<exists>rx' qr' vs. ble_retrieve_packet (Some [1, 0xA5, 1, 7, 2, 9, 8]) (word_of_nat 7) rx_start
       ble_fifo_start = Some (rx', qr') \<and>
     map msg_view (ble_items BLE_RX qr') = last_n BLE_FIFO_SIZE vs \<and> vs = [msg_view ble_msg_example]"
proof -
  have "tx_ok tx_example" and "link_rel tx_example rx_start"
    using ble_msg_example_ok rx_start_ok
    by (simp_all add: tx_example_def tx_ok_def link_rel_def rx_idle_def rx_start_def)
  moreover have "tx_stream tx_example ble_fifo_start = [msg_view ble_msg_example]"
    and "tx_stream (tx_example\<lparr>tx_offset := 2, tx_msg_active := False\<rparr>) ble_fifo_start = []"
    by (simp_all add: tx_stream_def tx_example_def ble_fifo_start_items)
  ultimately show ?thesis
    using packet_roundtrip [OF _ ble_fifo_start_ok _ _ packet_roundtrip_instance _ _ ble_fifo_start_ok refl,
        of rx_start]
    by (auto simp: ble_fifo_start_items header_filled_def)
qed

section \<open>Sequences of packets\<close>

text \<open>
  \<open>link_run mtu s ps t\<close>: the builder makes the packets \<open>ps\<close> in order, starting in the state \<open>s\<close> of the sender and ending in \<open>t\<close>; the flag of a
  packet tells whether a header fills it to the last byte.
\<close>

inductive link_run :: "16 word \<Rightarrow> tx_ctx \<times> ble_fifo \<Rightarrow> (byte list \<times> bool) list \<Rightarrow> tx_ctx \<times> ble_fifo \<Rightarrow> bool" for mtu where
  link_refl: "link_run mtu s [] s"
| link_packet:
    "unat mtu \<le> length buf \<Longrightarrow>
     ble_build_next_packet (Some buf) mtu True tx q = Some (True, Some n, Some pkt, tx', q') \<Longrightarrow>
     link_run mtu (tx', q') ps t \<Longrightarrow>
     link_run mtu (tx, q) ((take n pkt, header_filled mtu n tx') # ps) t"

text \<open>The receiver gets packets, each at the start of its buffer \<open>rbuf\<close>, which keeps what was behind.\<close>

definition receive_packet :: "byte list \<Rightarrow> byte list \<times> rx_ctx \<times> ble_fifo \<Rightarrow> (byte list \<times> rx_ctx \<times> ble_fifo) option" where
  "receive_packet pkt = (\<lambda>(rbuf, rx, q).
     do {
       rbuf' \<leftarrow> mem_write rbuf 0 pkt;
       (rx', q') \<leftarrow> ble_retrieve_packet (Some rbuf') (word_of_nat (length pkt)) rx q;
       Some (rbuf', rx', q')
     })"

lemma build_packet_ok:
  assumes "tx_ok tx" and "ble_fifo_ok q" and "0 < unat mtu" and "unat mtu \<le> length buf"
  shows "\<exists>n buf' tx' q'. ble_build_next_packet (Some buf) mtu True tx q =
             Some (n > 1, Some n, Some buf', tx', q') \<and> tx_ok tx' \<and> ble_fifo_ok q'"
proof -
  obtain buf1 where "mem_write buf 0 [if tx_msg_active tx then 1 else 0] = Some buf1"
    "length buf1 = length buf"
    using assms(3,4) by (auto simp: mem_write_def)
  then show ?thesis
    using build_loop_frame [OF assms(1,2), of mtu buf1 1] assms(3,4)
    by (auto simp: ble_build_next_packet_def)
qed

lemma built_length:
  assumes "tx_ok tx" and "ble_fifo_ok q" and "0 < unat mtu" and "unat mtu \<le> length buf"
    and "ble_build_next_packet (Some buf) mtu True tx q = Some (r, Some n, Some pkt, tx', q')"
  shows "n \<le> unat mtu" and "length (take n pkt) = n"
proof -
  obtain buf1 where b: "mem_write buf 0 [if tx_msg_active tx then 1 else 0] = Some buf1"
    "build_loop mtu 1 buf1 tx q = Some (n, pkt, tx', q')"
    using build_packet_SomeD [OF assms(5)] by blast
  have lb: "unat mtu \<le> length buf1"
    using mem_write_length [OF b(1)] assms(4) by simp
  then show "n \<le> unat mtu" and "length (take n pkt) = n"
    using build_loop_frame [OF assms(1,2) lb, of 1] b(2) assms(3) by auto
qed

lemma receive_built:
  assumes "tx_ok tx" "ble_fifo_ok q" and mtu: "0 < unat mtu" "unat mtu \<le> length buf"
    and "ble_build_next_packet (Some buf) mtu True tx q = Some (r, Some n, Some pkt, tx', q')"
    and "\<not> header_filled mtu n tx'" and "link_rel tx rx" "ble_fifo_ok qr" and "unat mtu \<le> length rbuf"
  shows "\<exists>rbuf' rx' qr' vs. receive_packet (take n pkt) (rbuf, rx, qr) = Some (rbuf', rx', qr') \<and> length rbuf' = length rbuf \<and>
           link_rel tx' rx' \<and> delivered qr vs qr' \<and> vs @ tx_stream tx' q' = tx_stream tx q"
proof -
  let ?p = "take n pkt"
  have n: "n \<le> length rbuf" "length ?p = n"
    using built_length [OF assms(1-5)] assms(9) by simp_all
  then obtain rbuf' where w: "mem_write rbuf 0 ?p = Some rbuf'" "length rbuf' = length rbuf" "take n rbuf' = take n pkt"
    using n by (auto simp: mem_write_def)
  then have "n \<le> length rbuf'" using n(1) by simp
  then obtain rx' qr' vs where "ble_retrieve_packet (Some rbuf') (word_of_nat n) rx qr = Some (rx', qr')" "link_rel tx' rx'"
    "delivered qr vs qr'" "vs @ tx_stream tx' q' = tx_stream tx q"
    using packet_delivered [OF assms(1-8) w(3)] by blast
  then show ?thesis using w n(2) by (auto simp: receive_packet_def)
qed

lemma link_run_invariant:
  assumes "link_run mtu s ps t" and "0 < unat mtu" and "tx_ok (fst s)" "ble_fifo_ok (snd s)" "link_rel (fst s) rx" "ble_fifo_ok qr"
    and "\<forall>p \<in> set ps. \<not> snd p" and "unat mtu \<le> length rbuf"
  shows "\<exists>rbuf' rx' qr' vs. mfold receive_packet (map fst ps) (rbuf, rx, qr) = Some (rbuf', rx', qr') \<and>
     link_rel (fst t) rx' \<and> delivered qr vs qr' \<and> vs @ tx_stream (fst t) (snd t) = tx_stream (fst s) (snd s)"
  using assms
proof (induction arbitrary: rx qr rbuf rule: link_run.induct)
  case (link_refl s)
  then show ?case
    using delivered_Nil [of qr] by auto
next
  case (link_packet buf tx q n pkt tx' q' ps t)
  note prems = link_packet.prems
  have ok: "tx_ok tx" "ble_fifo_ok q" using prems(2,3) by simp_all
  have ok': "tx_ok (fst (tx', q'))" "ble_fifo_ok (snd (tx', q'))"
    using build_packet_ok [OF ok prems(1) link_packet.hyps(1)] link_packet.hyps(2) by auto
  have x: "\<not> header_filled mtu n tx'" "link_rel tx rx" using prems(4,6) by simp_all
  obtain rbuf1 rx1 qr1 vs where 1: "receive_packet (take n pkt) (rbuf, rx, qr) = Some (rbuf1, rx1, qr1)" "length rbuf1 = length rbuf"
    "link_rel tx' rx1" "delivered qr vs qr1" "vs @ tx_stream tx' q' = tx_stream tx q"
    using receive_built [OF ok prems(1) link_packet.hyps(1,2) x prems(5,7)] by blast
  obtain rbuf2 rx2 qr2 ws where "mfold receive_packet (map fst ps) (rbuf1, rx1, qr1) = Some (rbuf2, rx2, qr2)" "link_rel (fst t) rx2"
    "delivered qr1 ws qr2" "ws @ tx_stream (fst t) (snd t) = tx_stream tx' q'"
    using link_packet.IH [OF prems(1) ok', of rx1 qr1 rbuf1] 1 prems(6,7) by (auto simp: delivered_def)
  then show ?case
    using 1 delivered_append [OF 1(4)] by (intro exI [of _ rbuf2] exI [of _ rx2] exI [of _ qr2] exI [of _ "vs @ ws"]) simp
qed

text \<open>
  C2: any number of packets transports the stream, as long as no packet is filled to its last byte by the header of a message. Let the
  two contexts be in step, let the builder make packets \<open>ps\<close> one after another, and let the receiver get them in this order. If none of them ends with the header
  of a message whose payload has not begun (then the code corrupts the stream, see the last section), no access leaves the buffer of the
  receiver, and the messages delivered followed by the messages still pending are the messages that were pending at the
  start: once the sender has nothing left, the receiver has got every message in order and unaltered.
\<close>

theorem link_run_delivers:
  assumes "link_run mtu (tx0, q0) ps (tx, q)" and "\<forall>p \<in> set ps. \<not> snd p" and "0 < unat mtu" and "unat mtu \<le> length rbuf"
    and "tx_ok tx0" and "ble_fifo_ok q0" and "link_rel tx0 rx0" and "ble_fifo_ok qr0"
  shows "\<exists>rbuf' rx qr vs. mfold receive_packet (map fst ps) (rbuf, rx0, qr0) = Some (rbuf', rx, qr) \<and> link_rel tx rx \<and>
           map msg_view (ble_items BLE_RX qr) = last_n BLE_FIFO_SIZE (map msg_view (ble_items BLE_RX qr0) @ vs) \<and>
           vs @ tx_stream tx q = tx_stream tx0 q0"
  using link_run_invariant [OF assms(1,3), of rx0 qr0 rbuf] assms by (auto simp: delivered_def)

theorem link_run_delivers_witness:
  "\<exists>rbuf rx qr vs. mfold receive_packet [[1, 0xA5, 1, 7, 2, 9, 8]] (replicate 7 0, rx_start, ble_fifo_start) = Some (rbuf, rx, qr) \<and>
     map msg_view (ble_items BLE_RX qr) = last_n BLE_FIFO_SIZE vs \<and> vs = [msg_view ble_msg_example]"
proof -
  let ?tx = "tx_example\<lparr>tx_offset := 2, tx_msg_active := False\<rparr>"
  have ok: "tx_ok tx_example" "link_rel tx_example rx_start"
    using ble_msg_example_ok rx_start_ok
    by (simp_all add: tx_example_def tx_ok_def link_rel_def rx_idle_def rx_start_def)
  have "link_run 7 (tx_example, ble_fifo_start) [(take 7 [1, 0xA5, 1, 7, 2, 9, 8], header_filled 7 7 ?tx)] (?tx, ble_fifo_start)"
    by (rule link_packet [OF _ packet_roundtrip_instance link_refl]) simp
  then have run: "link_run 7 (tx_example, ble_fifo_start) [([1, 0xA5, 1, 7, 2, 9, 8], False)] (?tx, ble_fifo_start)"
    by (simp add: header_filled_def)
  have "\<exists>rbuf rx qr vs. mfold receive_packet (map fst [([1, 0xA5, 1, 7, 2, 9, 8], False)]) (replicate 7 0, rx_start, ble_fifo_start) =
      Some (rbuf, rx, qr) \<and> link_rel ?tx rx \<and> map msg_view (ble_items BLE_RX qr) =
      last_n BLE_FIFO_SIZE (map msg_view (ble_items BLE_RX ble_fifo_start) @ vs) \<and>
      vs @ tx_stream ?tx ble_fifo_start = tx_stream tx_example ble_fifo_start"
    by (rule link_run_delivers [OF run _ _ _ ok(1) ble_fifo_start_ok ok(2) ble_fifo_start_ok]) simp_all
  then show ?thesis
    by (auto simp: tx_stream_def tx_example_def ble_fifo_start_items)
qed

lemma build_pending_iff:
  assumes "tx_ok tx" and "ble_fifo_ok q" and "5 \<le> unat mtu" and "unat mtu \<le> length buf"
  shows "\<exists>out buf' tx' q'. ble_build_next_packet (Some buf) mtu True tx q =
           Some (tx_stream tx q \<noteq> [], out, buf', tx', q')"
proof -
  obtain buf1 where w: "mem_write buf 0 [if tx_msg_active tx then 1 else 0] = Some buf1"
    and lb: "unat mtu \<le> length buf1"
    using assms(3,4) by (auto simp: mem_write_def)
  obtain tx1 q1 where l: "tx_load tx q = Some (tx_msg_active tx1, tx1, q1)" "tx_ok tx1"
    "ble_fifo_ok q1" "tx_stream tx1 q1 = tx_stream tx q" "\<not> tx_msg_active tx1 \<longrightarrow> tx_stream tx q = []"
    using tx_load_ok [OF assms(1,2)] by blast
  have m: "\<not> u16_minus (unat mtu) 1 < 1 + BLE_HDR_SIZE" "1 < unat mtu"
    using assms(3) u16_minus_id [of 1 "unat mtu"] by (auto simp: ble_consts)
  obtain n pkt tx' q' where b: "build_loop mtu 1 buf1 tx q = Some (n, pkt, tx', q')"
    using build_loop_frame [OF assms(1,2) lb] by blast
  have "1 < n \<longleftrightarrow> tx_stream tx q \<noteq> []"
  proof (cases "tx_msg_active tx1")
    case True
    have body: "tx_body_at tx1 1 \<le> unat mtu"
      using m assms(3) by (auto simp: tx_body_at_def)
    let ?i2 = "tx_body_at tx1 1 + tx_chunk mtu 1 tx1"
    obtain buf2 where e: "tx_emit mtu 1 buf1 tx1 = Some (?i2, buf2, tx_after mtu 1 tx1)"
      "length buf2 = length buf1"
      using tx_emit_ok [OF l(2) True body m(2) lb] by blast
    have "(if ?i2 < unat mtu then build_loop mtu ?i2 buf2 (tx_after mtu 1 tx1) q1
           else Some (?i2, buf2, tx_after mtu 1 tx1, q1)) = Some (n, pkt, tx', q')"
      using b m e l(1) True
      by (simp add: build_loop.simps [of mtu "Suc 0"] build_step_def split: if_splits)
    then have "?i2 \<le> n"
      using build_loop_frame [OF tx_after_ok(3) [OF l(2) True, of mtu 1] l(3), of mtu buf2 ?i2] lb e(2)
      by (auto split: if_splits)
    moreover have "1 < ?i2"
      using l(2) True m(2) by (auto simp: tx_body_at_def tx_chunk_eq tx_ok_def)
    moreover have "tx_stream tx q \<noteq> []"
      using l(4) True by (auto simp: tx_stream_def)
    ultimately show ?thesis
      by simp
  next
    case False
    then show ?thesis
      using b m l(1,5) by (auto simp: build_loop.simps [of mtu "Suc 0"] build_step_def)
  qed
  then show ?thesis
    using w b by (simp add: ble_build_next_packet_def)
qed

text \<open>
  With room for a header and the flag byte, \<open>ble_build_next_packet\<close> returns true exactly when
  there is something to send: a message in progress or in the transmit queue.
\<close>

lemma build_returns_pending:
  assumes "tx_ok tx" and "ble_fifo_ok q" and "5 \<le> unat mtu" and "unat mtu \<le> length buf"
  shows "\<exists>out buf' tx' q'. ble_build_next_packet (Some buf) mtu True tx q =
           Some (tx_stream tx q \<noteq> [], out, buf', tx', q')"
  using assms by (rule build_pending_iff)

lemma build_returns_pending_witness:
  "\<exists>out buf' tx' q'. ble_build_next_packet (Some [0, 0, 0, 0, 0]) 5 True tx_start ble_fifo_start =
     Some (False, out, buf', tx', q')"
  using build_returns_pending [of tx_start ble_fifo_start 5 "[0, 0, 0, 0, 0]"]
    tx_start_ok ble_fifo_start_ok
  by (simp add: tx_stream_def tx_start_def ble_fifo_start_items)

section \<open>A header that fills the packet\<close>

text \<open>
  The excluded case. A message of 11 bytes is being sent with an effective MTU of 20 and a two-byte
  message follows it: the second header ends exactly at the end of the packet.
\<close>

definition tx_eleven :: tx_ctx where
  "tx_eleven = \<lparr>tx_cur_msg = \<lparr>m_hdr = \<lparr>h_opcode = 3, h_req_app = 4, h_len = 11\<rparr>,
      m_payload = [1, 2, 3, 4, 5, 6, 7, 8, 9, 10, 11] @ replicate 239 0\<rparr>,
     tx_offset = 0, tx_msg_active = True\<rparr>"

definition fill_packet1 :: "byte list" where
  "fill_packet1 =
     [1, 0xA5, 3, 4, 11, 1, 2, 3, 4, 5, 6, 7, 8, 9, 10, 11, 0xA5, 1, 7, 2]"

definition fill_packet2 :: "byte list" where
  "fill_packet2 =
     [1, 0xA5, 1, 7, 2, 9, 8, 3, 4, 5, 6, 7, 8, 9, 10, 11, 0xA5, 1, 7, 2]"

lemmas build_eval =
  ble_build_next_packet_def build_loop.simps build_step_def tx_load_def tx_emit_def
  mem_write_def mem_read_def tx_header_def ble_msg_example_def u16_minus_def u16_def ble_consts

lemma fill_build1:
  assumes "get_next_ble_msg True BLE_TX q = Some (Some ble_msg_example, q1)"
  shows "ble_build_next_packet (Some [0, 0, 0, 0, 0, 0, 0, 0, 0, 0, 0, 0, 0, 0, 0, 0, 0, 0, 0, 0]) 20
           True tx_eleven q = Some (True, Some 20, Some fill_packet1, tx_example, q1)"
  using assms by (simp add: build_eval tx_eleven_def fill_packet1_def tx_example_def)

lemma fill_build2:
  assumes "get_next_ble_msg True BLE_TX q = Some (None, q)"
  shows "ble_build_next_packet (Some fill_packet1) 20 True tx_example q =
     Some (True, Some 7, Some fill_packet2, tx_example\<lparr>tx_offset := 2, tx_msg_active := False\<rparr>, q)"
  using assms by (simp add: build_eval tx_example_def fill_packet1_def fill_packet2_def)

lemmas retrieve_eval =
  ble_retrieve_packet_def retrieve_loop.simps retrieve_step_def rx_wait_magic_def rx_read_header_def
  rx_read_payload_def rd_def mem_write_def mem_read_def u16_minus_def u16_def ble_consts Let_def

definition fill_rx :: rx_ctx where
  "fill_rx = \<lparr>rx_st = RX_READ_PAYLOAD,
     rx_cur_msg = (tx_cur_msg tx_eleven)\<lparr>m_hdr := m_hdr ble_msg_example\<rparr>,
     rx_offset = 0, rx_msg_active = True\<rparr>"

definition fill_bad_msg :: ble_msg where
  "fill_bad_msg = \<lparr>m_hdr = m_hdr ble_msg_example,
     m_payload = [0xA5, 1, 3, 4, 5, 6, 7, 8, 9, 10, 11] @ replicate 239 0\<rparr>"

lemma fill_retrieve1:
  assumes "add_ble_msg_to_queue (Some (tx_cur_msg tx_eleven)) BLE_RX qr = Some (True, qr1)"
  shows "ble_retrieve_packet (Some fill_packet1) 20 rx_start qr = Some (fill_rx, qr1)"
  using assms
  by (simp add: retrieve_eval fill_packet1_def rx_start_def fill_rx_def tx_eleven_def ble_msg_example_def)

lemma fill_retrieve2:
  assumes "add_ble_msg_to_queue (Some fill_bad_msg) BLE_RX qr = Some (True, qr1)"
  shows "\<exists>rx. ble_retrieve_packet (Some fill_packet2) 7 fill_rx qr = Some (rx, qr1)"
  using assms
  by (simp add: retrieve_eval fill_packet2_def fill_rx_def tx_eleven_def ble_msg_example_def
      fill_bad_msg_def)

lemma fill_msgs_ok: "ble_msg_ok (tx_cur_msg tx_eleven)" "ble_msg_ok fill_bad_msg"
  by (simp_all add: ble_msg_ok_def ble_msg_typed_def tx_eleven_def fill_bad_msg_def ble_msg_example_def
      ble_consts)

text \<open>
  When a header fills the packet to the last byte, the builder sends the header again in the next
  packet, flagged as a continuation, and the receiver takes the repeated header for payload: the
  two-byte message \<open>[9, 8]\<close> arrives as \<open>[0xA5, 1]\<close>, the first bytes of its own header.
\<close>

lemma header_fill_corrupts:
  assumes "ble_fifo_ok q" and "ble_items BLE_TX q = [ble_msg_example]"
    and "ble_fifo_ok qr" and "ble_items BLE_RX qr = []"
  shows "\<exists>tx1 q1 rx1 qr1 tx2 q2 rx2 qr2.
    ble_build_next_packet (Some [0, 0, 0, 0, 0, 0, 0, 0, 0, 0, 0, 0, 0, 0, 0, 0, 0, 0, 0, 0]) 20
      True tx_eleven q = Some (True, Some 20, Some fill_packet1, tx1, q1) \<and>
    ble_retrieve_packet (Some fill_packet1) 20 rx_start qr = Some (rx1, qr1) \<and>
    ble_build_next_packet (Some fill_packet1) 20 True tx1 q1 =
      Some (True, Some 7, Some fill_packet2, tx2, q2) \<and>
    ble_retrieve_packet (Some fill_packet2) 7 rx1 qr1 = Some (rx2, qr2) \<and>
    map msg_data (ble_items BLE_RX qr2) = [[1, 2, 3, 4, 5, 6, 7, 8, 9, 10, 11], [0xA5, 1]] \<and>
    msg_data ble_msg_example = [9, 8]"
proof -
  obtain q1 where q1: "get_next_ble_msg True BLE_TX q = Some (Some ble_msg_example, q1)" "ble_fifo_ok q1"
    "ble_items BLE_TX q1 = []"
    using get_next_ble_msg_Cons [OF assms(1,2)] by blast
  obtain qr1 where qr1: "add_ble_msg_to_queue (Some (tx_cur_msg tx_eleven)) BLE_RX qr = Some (True, qr1)"
    "ble_fifo_ok qr1" "ble_items BLE_RX qr1 = [tx_cur_msg tx_eleven]"
    using add_ble_msg_ok [OF assms(3) fill_msgs_ok(1), of BLE_RX] assms(4) by (auto simp: ble_consts)
  obtain qr2 where qr2: "add_ble_msg_to_queue (Some fill_bad_msg) BLE_RX qr1 = Some (True, qr2)"
    "ble_items BLE_RX qr2 = [tx_cur_msg tx_eleven, fill_bad_msg]"
    using add_ble_msg_ok [OF qr1(2) fill_msgs_ok(2), of BLE_RX] qr1(3) by (auto simp: ble_consts)
  have "map msg_data (ble_items BLE_RX qr2) = [[1, 2, 3, 4, 5, 6, 7, 8, 9, 10, 11], [0xA5, 1]]"
    and "msg_data ble_msg_example = [9, 8]"
    by (simp_all add: qr2(2) msg_data_def tx_eleven_def fill_bad_msg_def ble_msg_example_def)
  then show ?thesis
    using fill_build1 [OF q1(1)] fill_build2 [OF get_next_ble_msg_Nil [OF q1(2,3)]]
      fill_retrieve1 [OF qr1(1)] fill_retrieve2 [OF qr2(1)]
    by (elim exE, intro exI conjI) assumption+
qed

lemma ble_queue_one: "\<exists>q. ble_fifo_ok q \<and> ble_items BLE_TX q = [ble_msg_example] \<and>
    add_ble_msg_to_queue (Some ble_msg_example) BLE_TX ble_fifo_start = Some (True, q)"
  using add_ble_msg_ok [OF ble_fifo_start_ok ble_msg_example_ok, of BLE_TX]
  by (auto simp: ble_fifo_start_items ble_consts)

lemma header_fill_corrupts_witness:
  "\<exists>q tx1 q1 rx1 qr1. add_ble_msg_to_queue (Some ble_msg_example) BLE_TX ble_fifo_start = Some (True, q) \<and>
     ble_build_next_packet (Some [0, 0, 0, 0, 0, 0, 0, 0, 0, 0, 0, 0, 0, 0, 0, 0, 0, 0, 0, 0]) 20
       True tx_eleven q = Some (True, Some 20, Some fill_packet1, tx1, q1) \<and>
     ble_retrieve_packet (Some fill_packet1) 20 rx_start ble_fifo_start = Some (rx1, qr1)"
proof -
  obtain q where "ble_fifo_ok q" "ble_items BLE_TX q = [ble_msg_example]"
    and add: "add_ble_msg_to_queue (Some ble_msg_example) BLE_TX ble_fifo_start = Some (True, q)"
    using ble_queue_one by blast
  then show ?thesis
    using header_fill_corrupts [of q ble_fifo_start] ble_fifo_start_ok ble_fifo_start_items by blast
qed

end
