(* ===== verification/Event_Manager.thy ===== *)
theory Event_Manager
  imports Prelude
begin

text \<open>
  The event bus (\<open>event_manager.c\<close>): a table of at most eight handlers per event. Handlers are
  function pointers: a type \<open>'h\<close> with equality, run by a parameter \<open>call\<close> that maps the event and the
  state to the new state. The statics of the module are the record \<open>event_mgr\<close>; the rest of the
  program's state is the record extension, so a handler may change everything, the table included.
\<close>

section \<open>State\<close>

datatype event_id =
    EVENT_UI_INACTIVE | EVENT_WATCHFACE_UPDATE | EVENT_WORK_TICK | EVENT_SENSOR_TICK
  | EVENT_APP_WORK_SCHEDULE | EVENT_NOTIFICATION_RECEIVED | EVENT_CALL_RECEIVED
  | EVENT_ALARM_TRIGGERED | EVENT_BLE_REQUEST | EVENT_TIME_SYNC | EVENT_WEATHER_SYNC
  | EVENT_WATCH_STATIONARY | EVENT_DFU_START | EVENT_NEW_STEPS | EVENT_COUNT

text \<open>The numbering of the C enumeration; \<open>EVENT_COUNT\<close> is the first invalid value.\<close>

primrec event_index :: "event_id \<Rightarrow> nat" where
  "event_index EVENT_UI_INACTIVE = 0"
| "event_index EVENT_WATCHFACE_UPDATE = 1"
| "event_index EVENT_WORK_TICK = 2"
| "event_index EVENT_SENSOR_TICK = 3"
| "event_index EVENT_APP_WORK_SCHEDULE = 4"
| "event_index EVENT_NOTIFICATION_RECEIVED = 5"
| "event_index EVENT_CALL_RECEIVED = 6"
| "event_index EVENT_ALARM_TRIGGERED = 7"
| "event_index EVENT_BLE_REQUEST = 8"
| "event_index EVENT_TIME_SYNC = 9"
| "event_index EVENT_WEATHER_SYNC = 10"
| "event_index EVENT_WATCH_STATIONARY = 11"
| "event_index EVENT_DFU_START = 12"
| "event_index EVENT_NEW_STEPS = 13"
| "event_index EVENT_COUNT = 14"

record 'd event =
  ev :: event_id
  ev_payload_len :: nat
  ev_data :: 'd

definition MAX_EVENT_SUBSCRIBERS :: nat where "MAX_EVENT_SUBSCRIBERS = 8"

record 'h event_subscription =
  es_handlers :: "'h option list"
  es_count :: byte

record 'h event_mgr =
  em_subscriptions :: "'h event_subscription list"
  em_initialized :: bool

definition empty_subscription :: "'h event_subscription" where
  "empty_subscription = \<lparr>es_handlers = replicate MAX_EVENT_SUBSCRIBERS None, es_count = 0\<rparr>"

section \<open>Operations\<close>

definition event_manager_init :: "('h, 'z) event_mgr_scheme \<Rightarrow> bool \<times> ('h, 'z) event_mgr_scheme" where
  "event_manager_init s =
     (True, s\<lparr>em_subscriptions := replicate (event_index EVENT_COUNT) empty_subscription,
              em_initialized := True\<rparr>)"

definition event_manager_deinit :: "('h, 'z) event_mgr_scheme \<Rightarrow> ('h, 'z) event_mgr_scheme" where
  "event_manager_deinit s =
     s\<lparr>em_subscriptions := replicate (event_index EVENT_COUNT) empty_subscription,
       em_initialized := False\<rparr>"

abbreviation the_sub :: "event_id \<Rightarrow> ('h, 'z) event_mgr_scheme \<Rightarrow> 'h event_subscription" where
  "the_sub e s \<equiv> em_subscriptions s ! event_index e"

definition put_sub ::
  "event_id \<Rightarrow> 'h event_subscription \<Rightarrow> ('h, 'z) event_mgr_scheme \<Rightarrow> ('h, 'z) event_mgr_scheme" where
  "put_sub e sub s = s\<lparr>em_subscriptions := (em_subscriptions s)[event_index e := sub]\<rparr>"

text \<open>The search loop over the first \<open>count\<close> handlers.\<close>

definition find_handler :: "'h \<Rightarrow> 'h event_subscription \<Rightarrow> nat option" where
  "find_handler h sub = find (\<lambda>i. es_handlers sub ! i = Some h) [0..<unat (es_count sub)]"

definition event_subscribe ::
  "event_id \<Rightarrow> 'h option \<Rightarrow> ('h, 'z) event_mgr_scheme \<Rightarrow> bool \<times> ('h, 'z) event_mgr_scheme" where
  "event_subscribe e hp s =
     (case hp of
        None \<Rightarrow> (False, s)
      | Some h \<Rightarrow>
          if \<not> em_initialized s \<or> event_index e \<ge> event_index EVENT_COUNT then (False, s)
          else
            let sub = the_sub e s in
            if find_handler h sub \<noteq> None then (True, s)
            else if unat (es_count sub) \<ge> MAX_EVENT_SUBSCRIBERS then (False, s)
            else (True, put_sub e
                    (sub\<lparr>es_handlers := (es_handlers sub)[unat (es_count sub) := Some h],
                         es_count := es_count sub + 1\<rparr>) s))"

definition event_unsubscribe ::
  "event_id \<Rightarrow> 'h option \<Rightarrow> ('h, 'z) event_mgr_scheme \<Rightarrow> bool \<times> ('h, 'z) event_mgr_scheme" where
  "event_unsubscribe e hp s =
     (case hp of
        None \<Rightarrow> (False, s)
      | Some h \<Rightarrow>
          if \<not> em_initialized s \<or> event_index e \<ge> event_index EVENT_COUNT then (False, s)
          else
            let sub = the_sub e s in
            case find_handler h sub of
              None \<Rightarrow> (False, s)
            | Some i \<Rightarrow>
                let n = unat (es_count sub);
                    hs = shift_down (es_handlers sub) i n;
                    c = es_count sub - 1
                in (True, put_sub e (sub\<lparr>es_handlers := hs[unat c := None], es_count := c\<rparr>) s))"

text \<open>
  The dispatch loop reads the count and the handler from the current state in every iteration.
  \<open>None\<close> is a call through a null or missing handler.
\<close>

function publish_loop ::
  "('h \<Rightarrow> 'd event \<Rightarrow> ('h, 'z) event_mgr_scheme \<Rightarrow> ('h, 'z) event_mgr_scheme) \<Rightarrow> 'd event \<Rightarrow> nat \<Rightarrow>
   ('h, 'z) event_mgr_scheme \<Rightarrow> ('h, 'z) event_mgr_scheme option" where
  "publish_loop call e i s =
     (if i < unat (es_count (the_sub (ev e) s)) then
        case rd (es_handlers (the_sub (ev e) s)) i of
          Some (Some h) \<Rightarrow> publish_loop call e (i + 1) (call h e s)
        | _ \<Rightarrow> None
      else Some s)"
  by pat_completeness auto

termination
proof (relation "measure (\<lambda>(call, e, i, s). 256 - i)", goal_cases)
  case (2 call e i s hp h)
  then show ?case
    using less_trans [OF 2(1) unat_byte_less] by simp
qed simp

declare publish_loop.simps [simp del]

definition event_publish ::
  "('h \<Rightarrow> 'd event \<Rightarrow> ('h, 'z) event_mgr_scheme \<Rightarrow> ('h, 'z) event_mgr_scheme) \<Rightarrow> 'd event option \<Rightarrow>
   ('h, 'z) event_mgr_scheme \<Rightarrow> (bool \<times> ('h, 'z) event_mgr_scheme) option" where
  "event_publish call ep s =
     (case ep of
        None \<Rightarrow> Some (False, s)
      | Some e \<Rightarrow>
          if \<not> em_initialized s then Some (False, s)
          else if event_index (ev e) \<ge> event_index EVENT_COUNT then Some (False, s)
          else do { s' \<leftarrow> publish_loop call e 0 s; Some (True, s') })"

section \<open>Invariant and subscriber lists\<close>

definition sub_ok :: "'h event_subscription \<Rightarrow> bool" where
  "sub_ok sub \<longleftrightarrow>
     length (es_handlers sub) = MAX_EVENT_SUBSCRIBERS \<and> unat (es_count sub) \<le> MAX_EVENT_SUBSCRIBERS \<and>
     (\<exists>hs. distinct hs \<and> length hs = unat (es_count sub) \<and>
           es_handlers sub = map Some hs @ replicate (MAX_EVENT_SUBSCRIBERS - length hs) None)"

definition em_ok :: "('h, 'z) event_mgr_scheme \<Rightarrow> bool" where
  "em_ok s \<longleftrightarrow>
     length (em_subscriptions s) = event_index EVENT_COUNT \<and> (\<forall>sub \<in> set (em_subscriptions s). sub_ok sub)"

definition subs :: "('h, 'z) event_mgr_scheme \<Rightarrow> event_id \<Rightarrow> 'h list" where
  "subs s e = map the (take (unat (es_count (the_sub e s))) (es_handlers (the_sub e s)))"

lemma event_index_less: "e \<noteq> EVENT_COUNT \<Longrightarrow> event_index e < 14"
  by (cases e) simp_all

lemma event_index_inj: "event_index e = event_index e' \<Longrightarrow> e = e'"
  by (cases e; cases e') simp_all

lemma sub_ok_list:
  assumes "sub_ok sub"
  shows "es_handlers sub = map Some (map the (take (unat (es_count sub)) (es_handlers sub))) @
           replicate (MAX_EVENT_SUBSCRIBERS - unat (es_count sub)) None"
    and "distinct (map the (take (unat (es_count sub)) (es_handlers sub)))"
  using assms by (auto simp: sub_ok_def comp_def)

lemma the_sub_ok: "em_ok s \<Longrightarrow> e \<noteq> EVENT_COUNT \<Longrightarrow> sub_ok (the_sub e s)"
  using event_index_less [of e] by (simp add: em_ok_def)

lemma sub_facts:
  assumes "em_ok s" and "e \<noteq> EVENT_COUNT"
  shows "es_handlers (the_sub e s) = map Some (subs s e) @
           replicate (MAX_EVENT_SUBSCRIBERS - length (subs s e)) None"
    and "distinct (subs s e)" and "unat (es_count (the_sub e s)) = length (subs s e)"
    and "length (subs s e) \<le> MAX_EVENT_SUBSCRIBERS"
proof -
  have ok: "sub_ok (the_sub e s)"
    by (rule the_sub_ok [OF assms])
  then show c: "unat (es_count (the_sub e s)) = length (subs s e)"
    and "length (subs s e) \<le> MAX_EVENT_SUBSCRIBERS"
    by (simp_all add: subs_def sub_ok_def)
  show "distinct (subs s e)"
    using sub_ok_list(2) [OF ok] by (simp add: subs_def)
  show "es_handlers (the_sub e s) = map Some (subs s e) @
           replicate (MAX_EVENT_SUBSCRIBERS - length (subs s e)) None"
    using sub_ok_list(1) [OF ok] unfolding c [symmetric] by (simp only: subs_def)
qed

lemma find_handler_eq:
  assumes "em_ok s" and "e \<noteq> EVENT_COUNT"
  shows "find_handler h (the_sub e s) = find (\<lambda>i. subs s e ! i = h) [0..<length (subs s e)]"
proof -
  have "es_handlers (the_sub e s) ! i = Some (subs s e ! i)" if "i < length (subs s e)" for i
    using that by (simp add: sub_facts(1) [OF assms] nth_append)
  then show ?thesis
    unfolding find_handler_def sub_facts(3) [OF assms] by (intro find_cong) auto
qed

lemma find_handler_None:
  "em_ok s \<Longrightarrow> e \<noteq> EVENT_COUNT \<Longrightarrow> find_handler h (the_sub e s) = None \<longleftrightarrow> h \<notin> set (subs s e)"
  by (auto simp: find_handler_eq find_None_iff in_set_conv_nth)

lemma find_handler_Some:
  assumes "em_ok s" and "e \<noteq> EVENT_COUNT" and "find_handler h (the_sub e s) = Some i"
  shows "i < length (subs s e)" and "subs s e ! i = h"
  using assms(3) unfolding find_handler_eq [OF assms(1,2)] by (auto simp: find_Some_iff)

text \<open>Writing back a subscription with a given handler list.\<close>

lemma put_sub_ok:
  assumes ok: "em_ok s" and e: "e \<noteq> EVENT_COUNT" and hs: "distinct hs" "length hs \<le> MAX_EVENT_SUBSCRIBERS"
    and sub: "es_handlers sub = map Some hs @ replicate (MAX_EVENT_SUBSCRIBERS - length hs) None"
      "unat (es_count sub) = length hs"
  shows "em_ok (put_sub e sub s)" and "subs (put_sub e sub s) e = hs"
    and "e' \<noteq> e \<Longrightarrow> subs (put_sub e sub s) e' = subs s e'"
    and "em_initialized (put_sub e sub s) = em_initialized s"
proof -
  have l: "event_index e < length (em_subscriptions s)"
    using ok event_index_less [OF e] by (simp add: em_ok_def)
  have "sub_ok sub"
    using hs sub by (auto simp: sub_ok_def)
  then show "em_ok (put_sub e sub s)"
    using ok by (auto simp: em_ok_def put_sub_def dest!: set_update_subset_insert [THEN subsetD])
  show "subs (put_sub e sub s) e = hs"
    using l sub by (simp add: subs_def put_sub_def comp_def)
  show "subs (put_sub e sub s) e' = subs s e'" if "e' \<noteq> e"
  proof -
    have "event_index e \<noteq> event_index e'"
      using event_index_inj [of e e'] that by blast
    then show ?thesis
      by (simp add: subs_def put_sub_def)
  qed
  show "em_initialized (put_sub e sub s) = em_initialized s"
    by (simp add: put_sub_def)
qed

lemma event_subscribe_ok:
  assumes ok: "em_ok s" "em_initialized s" and e: "e \<noteq> EVENT_COUNT"
    and r_def: "r = event_subscribe e (Some h) s"
  shows "em_ok (snd r)" and "em_initialized (snd r)"
    and "fst r \<longleftrightarrow> h \<in> set (subs s e) \<or> length (subs s e) < MAX_EVENT_SUBSCRIBERS"
    and "subs (snd r) e = (if fst r \<and> h \<notin> set (subs s e) then subs s e @ [h] else subs s e)"
    and "e' \<noteq> e \<Longrightarrow> subs (snd r) e' = subs s e'"
proof -
  note f = sub_facts [OF ok(1) e]
  let ?sub = "the_sub e s"
  have ix: "\<not> event_index EVENT_COUNT \<le> event_index e"
    using event_index_less [OF e] by simp
  have r_eq: "r = (if h \<in> set (subs s e) then (True, s)
      else if length (subs s e) \<ge> MAX_EVENT_SUBSCRIBERS then (False, s)
      else (True, put_sub e (?sub\<lparr>es_handlers := (es_handlers ?sub)[length (subs s e) := Some h],
                                  es_count := es_count ?sub + 1\<rparr>) s))"
    using ok(2) ix find_handler_None [OF ok(1) e, of h] by (auto simp: r_def event_subscribe_def f(3) Let_def)
  have room: "em_ok (snd r) \<and> em_initialized (snd r) \<and> fst r \<and> subs (snd r) e = subs s e @ [h] \<and>
      (e' \<noteq> e \<longrightarrow> subs (snd r) e' = subs s e')"
    if new: "h \<notin> set (subs s e)" "length (subs s e) < MAX_EVENT_SUBSCRIBERS"
  proof -
    obtain m where m: "MAX_EVENT_SUBSCRIBERS - length (subs s e) = Suc m"
      using new(2) by (metis Suc_diff_Suc)
    have hs: "(es_handlers ?sub)[length (subs s e) := Some h] =
        map Some (subs s e @ [h]) @ replicate (MAX_EVENT_SUBSCRIBERS - length (subs s e @ [h])) None"
      using m by (simp add: f(1) list_update_append)
    have cnt: "unat (es_count ?sub + 1) = length (subs s e @ [h])"
      using new(2) f(3) by (simp add: unat_word_ariths MAX_EVENT_SUBSCRIBERS_def)
    show ?thesis
      using r_eq new ok(2)
        put_sub_ok [OF ok(1) e, of "subs s e @ [h]"
          "?sub\<lparr>es_handlers := (es_handlers ?sub)[length (subs s e) := Some h],
                es_count := es_count ?sub + 1\<rparr>"] f(2) hs cnt
      by simp
  qed
  show "em_ok (snd r)" "em_initialized (snd r)"
    "fst r \<longleftrightarrow> h \<in> set (subs s e) \<or> length (subs s e) < MAX_EVENT_SUBSCRIBERS"
    "subs (snd r) e = (if fst r \<and> h \<notin> set (subs s e) then subs s e @ [h] else subs s e)"
    "e' \<noteq> e \<Longrightarrow> subs (snd r) e' = subs s e'"
    using room r_eq ok by (cases "h \<notin> set (subs s e) \<and> length (subs s e) < MAX_EVENT_SUBSCRIBERS"; auto)+
qed

lemma event_unsubscribe_ok:
  assumes ok: "em_ok s" "em_initialized s" and e: "e \<noteq> EVENT_COUNT"
    and r_def: "r = event_unsubscribe e (Some h) s"
  shows "em_ok (snd r)" and "em_initialized (snd r)" and "fst r \<longleftrightarrow> h \<in> set (subs s e)"
    and "subs (snd r) e = remove1 h (subs s e)" and "e' \<noteq> e \<Longrightarrow> subs (snd r) e' = subs s e'"
proof -
  note f = sub_facts [OF ok(1) e]
  let ?sub = "the_sub e s" and ?n = "length (subs s e)"
  have ix: "\<not> event_index EVENT_COUNT \<le> event_index e"
    using event_index_less [OF e] by simp
  have "em_ok (snd r) \<and> em_initialized (snd r) \<and> (fst r \<longleftrightarrow> h \<in> set (subs s e)) \<and>
      subs (snd r) e = remove1 h (subs s e) \<and> (e' \<noteq> e \<longrightarrow> subs (snd r) e' = subs s e')"
  proof (cases "find_handler h ?sub")
    case None
    then show ?thesis
      using ok ix find_handler_None [OF ok(1) e, of h]
      by (simp add: r_def event_unsubscribe_def remove1_idem)
  next
    case (Some i)
    note i = find_handler_Some [OF ok(1) e Some]
    let ?hs = "shift_down (es_handlers ?sub) i ?n"
    have c: "unat (es_count ?sub - 1) = ?n - 1"
      using i(1) f(3,4) by (subst unat_sub) (auto simp: word_le_nat_alt)
    have take: "take (?n - 1) ?hs = map Some (remove1 h (subs s e))"
      using shift_down_take [of i ?n "es_handlers ?sub"] i f(2) f(1)
      by (simp add: remove_nth_map [symmetric] remove_nth_remove1)
    have drop: "drop ?n ?hs = replicate (MAX_EVENT_SUBSCRIBERS - ?n) None"
      using shift_down_drop [of ?n ?n "es_handlers ?sub" i] f(1) by simp
    have len: "length ?hs = MAX_EVENT_SUBSCRIBERS"
      using f(1,4) by simp
    have n: "?n = Suc (?n - 1)"
      using i(1) by simp
    have "?hs[?n - 1 := None] = take (?n - 1) ?hs @ None # drop ?n ?hs"
      using i(1) f(4) len n upd_conv_take_nth_drop [of "?n - 1" ?hs None] by simp
    also have "\<dots> = map Some (remove1 h (subs s e)) @
        replicate (MAX_EVENT_SUBSCRIBERS - length (remove1 h (subs s e))) None"
    proof -
      have "length (remove1 h (subs s e)) = ?n - 1"
        using i by (metis length_remove1 nth_mem)
      then have "MAX_EVENT_SUBSCRIBERS - length (remove1 h (subs s e)) = Suc (MAX_EVENT_SUBSCRIBERS - ?n)"
        using i(1) f(4) by simp
      then show ?thesis
        by (simp only: take drop replicate_Suc)
    qed
    finally have hs: "?hs[?n - 1 := None] = map Some (remove1 h (subs s e)) @
        replicate (MAX_EVENT_SUBSCRIBERS - length (remove1 h (subs s e))) None" .
    have mem: "h \<in> set (subs s e)"
      using i by auto
    have r_eq: "r = (True, put_sub e (?sub\<lparr>es_handlers := ?hs[?n - 1 := None],
        es_count := es_count ?sub - 1\<rparr>) s)"
      using ok(2) ix Some c by (simp add: r_def event_unsubscribe_def f(3) Let_def)
    show ?thesis
      unfolding r_eq
      using put_sub_ok [OF ok(1) e, of "remove1 h (subs s e)" "?sub\<lparr>es_handlers := ?hs[?n - 1 := None],
          es_count := es_count ?sub - 1\<rparr>"] hs c f(2,4) mem ok(2)
      by (simp add: length_remove1)
  qed
  then show "em_ok (snd r)" "em_initialized (snd r)" "fst r \<longleftrightarrow> h \<in> set (subs s e)"
    "subs (snd r) e = remove1 h (subs s e)" "e' \<noteq> e \<Longrightarrow> subs (snd r) e' = subs s e'"
    by blast+
qed

section \<open>The bus as an interface\<close>

text \<open>
  What the components that subscribe at start and unsubscribe at stop rely on, and what follows:
  a component that undoes its own subscriptions leaves the bus as it found it.
\<close>

locale event_bus =
  fixes subscribe :: "'e \<Rightarrow> 'h option \<Rightarrow> 's \<Rightarrow> bool \<times> 's"
    and unsubscribe :: "'e \<Rightarrow> 'h option \<Rightarrow> 's \<Rightarrow> bool \<times> 's"
    and handlers :: "'s \<Rightarrow> 'e \<Rightarrow> 'h list"
    and invar :: "'s \<Rightarrow> bool"
    and valid :: "'e \<Rightarrow> bool"
    and cap :: nat
  assumes subscribe_invar: "invar s \<Longrightarrow> valid e \<Longrightarrow> invar (snd (subscribe e (Some h) s))"
    and subscribe_fst: "invar s \<Longrightarrow> valid e \<Longrightarrow>
      fst (subscribe e (Some h) s) \<longleftrightarrow> h \<in> set (handlers s e) \<or> length (handlers s e) < cap"
    and subscribe_handlers: "invar s \<Longrightarrow> valid e \<Longrightarrow>
      handlers (snd (subscribe e (Some h) s)) e =
        (if fst (subscribe e (Some h) s) \<and> h \<notin> set (handlers s e) then handlers s e @ [h]
         else handlers s e)"
    and subscribe_other: "invar s \<Longrightarrow> valid e \<Longrightarrow> e' \<noteq> e \<Longrightarrow>
      handlers (snd (subscribe e (Some h) s)) e' = handlers s e'"
    and unsubscribe_invar: "invar s \<Longrightarrow> valid e \<Longrightarrow> invar (snd (unsubscribe e (Some h) s))"
    and unsubscribe_fst: "invar s \<Longrightarrow> valid e \<Longrightarrow>
      fst (unsubscribe e (Some h) s) \<longleftrightarrow> h \<in> set (handlers s e)"
    and unsubscribe_handlers: "invar s \<Longrightarrow> valid e \<Longrightarrow>
      handlers (snd (unsubscribe e (Some h) s)) e = remove1 h (handlers s e)"
    and unsubscribe_other: "invar s \<Longrightarrow> valid e \<Longrightarrow> e' \<noteq> e \<Longrightarrow>
      handlers (snd (unsubscribe e (Some h) s)) e' = handlers s e'"
    and handlers_distinct: "invar s \<Longrightarrow> valid e \<Longrightarrow> distinct (handlers s e)"
begin

definition subscribe_pairs :: "('e \<times> 'h) list \<Rightarrow> 's \<Rightarrow> 's" where
  "subscribe_pairs ps s = fold (\<lambda>(e, h) s. snd (subscribe e (Some h) s)) ps s"

definition unsubscribe_pairs :: "('e \<times> 'h) list \<Rightarrow> 's \<Rightarrow> 's" where
  "unsubscribe_pairs ps s = fold (\<lambda>(e, h) s. snd (unsubscribe e (Some h) s)) ps s"

lemma subscribe_idem:
  assumes "invar s" and "valid e" and "fst (subscribe e (Some h) s)"
  shows "fst (subscribe e (Some h) (snd (subscribe e (Some h) s)))"
    and "handlers (snd (subscribe e (Some h) (snd (subscribe e (Some h) s)))) e' =
         handlers (snd (subscribe e (Some h) s)) e'"
proof -
  let ?t = "snd (subscribe e (Some h) s)"
  have t: "invar ?t" and mem: "h \<in> set (handlers ?t e)"
    using assms subscribe_invar subscribe_handlers [of s e h] by auto
  then show f: "fst (subscribe e (Some h) ?t)"
    using assms(2) by (simp add: subscribe_fst)
  show "handlers (snd (subscribe e (Some h) ?t)) e' = handlers ?t e'"
    using t mem assms(2) subscribe_handlers [of ?t e h] subscribe_other [of ?t e e' h]
    by (cases "e' = e") auto
qed

lemma unsubscribe_pairs_handlers:
  assumes "invar s" and "\<forall>(e, h) \<in> set ps. valid e" and "valid e"
  shows "invar (unsubscribe_pairs ps s) \<and>
         set (handlers (unsubscribe_pairs ps s) e) = set (handlers s e) - {h. (e, h) \<in> set ps}"
  using assms
proof (induction ps arbitrary: s)
  case Nil
  then show ?case
    by (simp add: unsubscribe_pairs_def)
next
  case (Cons p ps)
  obtain e1 h1 where p: "p = (e1, h1)" "valid e1"
    using Cons.prems(2) by (cases p) auto
  let ?t = "snd (unsubscribe e1 (Some h1) s)"
  have t: "invar ?t"
    using Cons.prems(1) p(2) by (rule unsubscribe_invar)
  have "set (handlers ?t e) = set (handlers s e) - {h. e = e1 \<and> h = h1}"
    using Cons.prems(1) p(2) unsubscribe_handlers [of s e1 h1] unsubscribe_other [of s e1 e h1]
      handlers_distinct [of s e1] by (cases "e = e1") auto
  moreover have "invar (unsubscribe_pairs ps ?t) \<and>
      set (handlers (unsubscribe_pairs ps ?t) e) = set (handlers ?t e) - {h. (e, h) \<in> set ps}"
    using Cons.IH [OF t] Cons.prems(2,3) by simp
  moreover have "unsubscribe_pairs (p # ps) s = unsubscribe_pairs ps ?t"
    by (simp add: unsubscribe_pairs_def p(1))
  ultimately show ?case
    using p(1) by auto
qed

lemma subscribe_pairs_handlers:
  assumes "invar s" and "\<forall>(e, h) \<in> set ps. valid e" and "valid e"
  shows "invar (subscribe_pairs ps s) \<and> set (handlers s e) \<subseteq> set (handlers (subscribe_pairs ps s) e) \<and>
         set (handlers (subscribe_pairs ps s) e) \<subseteq> set (handlers s e) \<union> {h. (e, h) \<in> set ps}"
  using assms
proof (induction ps arbitrary: s)
  case Nil
  then show ?case
    by (simp add: subscribe_pairs_def)
next
  case (Cons p ps)
  obtain e1 h1 where p: "p = (e1, h1)" "valid e1"
    using Cons.prems(2) by (cases p) auto
  let ?t = "snd (subscribe e1 (Some h1) s)"
  have t: "invar ?t"
    using Cons.prems(1) p(2) by (rule subscribe_invar)
  have "set (handlers s e) \<subseteq> set (handlers ?t e) \<and>
      set (handlers ?t e) \<subseteq> set (handlers s e) \<union> {h. e = e1 \<and> h = h1}"
    using Cons.prems(1) p(2) subscribe_handlers [of s e1 h1] subscribe_other [of s e1 e h1]
    by (cases "e = e1") auto
  moreover have "subscribe_pairs (p # ps) s = subscribe_pairs ps ?t"
    by (simp add: subscribe_pairs_def p(1))
  ultimately show ?case
    using Cons.IH [OF t] Cons.prems(2,3) p(1) by auto
qed

text \<open>A component that subscribes handlers of its own and later unsubscribes them all.\<close>

lemma subscribe_unsubscribe_restores:
  assumes "invar s" and "\<forall>(e, h) \<in> set ps. valid e \<and> h \<notin> set (handlers s e)" and "valid e"
  shows "set (handlers (unsubscribe_pairs ps (subscribe_pairs ps s)) e) = set (handlers s e)"
proof -
  have v: "\<forall>(e, h) \<in> set ps. valid e"
    using assms(2) by auto
  have "set (handlers (unsubscribe_pairs ps (subscribe_pairs ps s)) e) =
      set (handlers (subscribe_pairs ps s) e) - {h. (e, h) \<in> set ps}"
    using unsubscribe_pairs_handlers [OF _ v assms(3)] subscribe_pairs_handlers [OF assms(1) v assms(3)]
    by blast
  then show ?thesis
    using subscribe_pairs_handlers [OF assms(1) v assms(3)] assms(2) by auto
qed

end

definition em_ready :: "('h, 'z) event_mgr_scheme \<Rightarrow> bool" where
  "em_ready s \<longleftrightarrow> em_ok s \<and> em_initialized s"

interpretation bus: event_bus
  event_subscribe event_unsubscribe subs em_ready "\<lambda>e. e \<noteq> EVENT_COUNT" MAX_EVENT_SUBSCRIBERS
proof (unfold_locales, goal_cases)
  case (1 s e h)
  then show ?case
    using event_subscribe_ok(1,2) [of s e "event_subscribe e (Some h) s" h] by (simp add: em_ready_def)
next
  case (2 s e h)
  then show ?case
    using event_subscribe_ok(3) [of s e "event_subscribe e (Some h) s" h] by (simp add: em_ready_def)
next
  case (3 s e h)
  then show ?case
    using event_subscribe_ok(4) [of s e "event_subscribe e (Some h) s" h] by (simp add: em_ready_def)
next
  case (4 s e e' h)
  then show ?case
    using event_subscribe_ok(5) [of s e "event_subscribe e (Some h) s" h] by (simp add: em_ready_def)
next
  case (5 s e h)
  then show ?case
    using event_unsubscribe_ok(1,2) [of s e "event_unsubscribe e (Some h) s" h] by (simp add: em_ready_def)
next
  case (6 s e h)
  then show ?case
    using event_unsubscribe_ok(3) [of s e "event_unsubscribe e (Some h) s" h] by (simp add: em_ready_def)
next
  case (7 s e h)
  then show ?case
    using event_unsubscribe_ok(4) [of s e "event_unsubscribe e (Some h) s" h] by (simp add: em_ready_def)
next
  case (8 s e e' h)
  then show ?case
    using event_unsubscribe_ok(5) [of s e "event_unsubscribe e (Some h) s" h] by (simp add: em_ready_def)
next
  case (9 s e)
  then show ?case
    using sub_facts(2) [of s e] by (simp add: em_ready_def)
qed

lemma event_manager_init_ready: "em_ready (snd (event_manager_init s))"
  by (auto simp: em_ready_def em_ok_def event_manager_init_def sub_ok_def empty_subscription_def)

lemma event_manager_init_subs: "e \<noteq> EVENT_COUNT \<Longrightarrow> subs (snd (event_manager_init s)) e = []"
  using event_index_less [of e]
  by (simp add: subs_def event_manager_init_def empty_subscription_def)

section \<open>Properties\<close>

text \<open>
  Subscribing appends the handler behind the present ones unless it is already there or eight
  handlers are registered; it succeeds in the first two cases and fails in the third; no other event
  is affected and the table stays well formed (distinct handlers, no gap, nothing behind the count).
\<close>

lemma event_subscribe_correct:
  assumes "em_ready s" and "e \<noteq> EVENT_COUNT"
  shows "\<exists>s'. event_subscribe e (Some h) s =
             (h \<in> set (subs s e) \<or> length (subs s e) < MAX_EVENT_SUBSCRIBERS, s') \<and> em_ready s' \<and>
           subs s' e = (if h \<in> set (subs s e) \<or> length (subs s e) = MAX_EVENT_SUBSCRIBERS
                        then subs s e else subs s e @ [h]) \<and>
           (\<forall>e'. e' \<noteq> e \<longrightarrow> subs s' e' = subs s e')"
proof -
  obtain b s' where r: "event_subscribe e (Some h) s = (b, s')"
    by (cases "event_subscribe e (Some h) s")
  have "length (subs s e) \<le> MAX_EVENT_SUBSCRIBERS"
    using assms sub_facts(4) [of s e] by (auto simp: em_ready_def)
  then show ?thesis
    using bus.subscribe_invar [OF assms, of h] bus.subscribe_fst [OF assms, of h]
      bus.subscribe_handlers [OF assms, of h] bus.subscribe_other [OF assms, of _ h] r by auto
qed

definition em_static :: "nat event_mgr" where
  "em_static = \<lparr>em_subscriptions = [], em_initialized = False\<rparr>"

definition em_start :: "nat event_mgr" where
  "em_start = snd (event_manager_init em_static)"

lemma event_subscribe_correct_witness:
  "\<exists>s'. event_subscribe EVENT_TIME_SYNC (Some 5) em_start = (True, s') \<and>
     subs s' EVENT_TIME_SYNC = [5]"
  using event_subscribe_correct [of em_start EVENT_TIME_SYNC 5]
    event_manager_init_ready [of em_static] event_manager_init_subs [of EVENT_TIME_SYNC em_static]
  by (auto simp: em_start_def MAX_EVENT_SUBSCRIBERS_def)

text \<open>
  Unsubscribing removes exactly the given handler, keeps the order of the others, reports
  whether the handler was registered, and affects no other event.
\<close>

lemma event_unsubscribe_correct:
  assumes "em_ready s" and "e \<noteq> EVENT_COUNT"
  shows "\<exists>s'. event_unsubscribe e (Some h) s = (h \<in> set (subs s e), s') \<and> em_ready s' \<and>
           subs s' e = remove1 h (subs s e) \<and> h \<notin> set (subs s' e) \<and>
           (\<forall>e'. e' \<noteq> e \<longrightarrow> subs s' e' = subs s e')"
proof -
  obtain b s' where r: "event_unsubscribe e (Some h) s = (b, s')"
    by (cases "event_unsubscribe e (Some h) s")
  then show ?thesis
    using bus.unsubscribe_invar [OF assms, of h] bus.unsubscribe_fst [OF assms, of h]
      bus.unsubscribe_handlers [OF assms, of h] bus.unsubscribe_other [OF assms, of _ h]
      bus.handlers_distinct [OF assms] by auto
qed

lemma event_unsubscribe_correct_witness:
  "\<exists>s'. event_unsubscribe EVENT_TIME_SYNC (Some 5) em_start = (False, s') \<and> subs s' EVENT_TIME_SYNC = []"
  using event_unsubscribe_correct [of em_start EVENT_TIME_SYNC 5]
    event_manager_init_ready [of em_static] event_manager_init_subs [of EVENT_TIME_SYNC em_static]
  by (auto simp: em_start_def)

text \<open>
  The dispatch loop with handlers that leave the table alone: every handler runs once, in order.
\<close>

lemma publish_loop_fold:
  assumes "em_ok s" and "ev e \<noteq> EVENT_COUNT"
    and frame: "\<And>h t. em_subscriptions (call h e t) = em_subscriptions t"
    and "i \<le> length (subs s (ev e))"
  shows "publish_loop call e i s = Some (fold (\<lambda>h. call h e) (drop i (subs s (ev e))) s)"
  using assms
proof (induction "length (subs s (ev e)) - i" arbitrary: i s)
  case 0
  then show ?case
    using sub_facts(3) [of s "ev e"] by (simp add: publish_loop.simps)
next
  case (Suc n)
  note f = sub_facts [OF Suc.prems(1,2)]
  let ?hs = "subs s (ev e)"
  have i: "i < length ?hs"
    using Suc.hyps(2) by simp
  let ?t = "call (?hs ! i) e s"
  have sub: "em_subscriptions ?t = em_subscriptions s"
    by (rule Suc.prems(3))
  then have hs: "subs ?t (ev e) = ?hs" and ok: "em_ok ?t"
    using Suc.prems(1) by (simp_all add: subs_def em_ok_def)
  have "rd (es_handlers (the_sub (ev e) s)) i = Some (Some (?hs ! i))"
    using i f(1) by (simp add: rd_def nth_append)
  then have "publish_loop call e i s = publish_loop call e (i + 1) ?t"
    using i f(3) by (simp add: publish_loop.simps [of call e i s])
  also have "\<dots> = Some (fold (\<lambda>h. call h e) (drop (i + 1) ?hs) ?t)"
    using Suc.hyps(1) [of ?t "i + 1"] Suc.hyps(2) Suc.prems(2,3) hs ok i by simp
  also have "\<dots> = Some (fold (\<lambda>h. call h e) (drop i ?hs) s)"
    using i by (simp add: Cons_nth_drop_Suc [symmetric])
  finally show ?case .
qed

text \<open>
  C7: publishing an event runs every handler subscribed to it exactly once, in the order of
  subscription, and runs nothing else, provided the handlers do not change the subscription table
  themselves; an uninitialised bus, a null event or an invalid id is refused without any effect.
\<close>

theorem event_publish_runs_subscribers:
  assumes "em_ok s" and "ev e \<noteq> EVENT_COUNT"
    and "\<And>h t. em_subscriptions (call h e t) = em_subscriptions t"
  shows "event_publish call (Some e) s =
     Some (if em_initialized s then (True, fold (\<lambda>h. call h e) (subs s (ev e)) s) else (False, s))"
  using publish_loop_fold [OF assms(1,2), of call 0] assms(3) event_index_less [OF assms(2)]
  by (simp add: event_publish_def)

text \<open>A concrete bus whose handlers append their number to a trace.\<close>

record traced_mgr = "nat event_mgr" +
  trace :: "nat list"

definition trace_call :: "nat \<Rightarrow> unit event \<Rightarrow> traced_mgr \<Rightarrow> traced_mgr" where
  "trace_call h e s = s\<lparr>trace := trace s @ [h]\<rparr>"

definition traced_start :: traced_mgr where
  "traced_start =
     \<lparr>em_subscriptions = (replicate 14 empty_subscription)
        [9 := \<lparr>es_handlers = [Some 3, Some 1] @ replicate 6 None, es_count = 2\<rparr>],
      em_initialized = True, trace = []\<rparr>"

theorem event_publish_runs_subscribers_witness:
  "\<exists>s. event_publish trace_call (Some \<lparr>ev = EVENT_TIME_SYNC, ev_payload_len = 0, ev_data = ()\<rparr>)
         traced_start = Some (True, s) \<and> trace s = [3, 1]"
proof -
  let ?e = "\<lparr>ev = EVENT_TIME_SYNC, ev_payload_len = 0, ev_data = ()\<rparr>"
  have sub: "sub_ok \<lparr>es_handlers = [Some (3 :: nat), Some 1] @ replicate 6 None, es_count = 2\<rparr>"
    "sub_ok (empty_subscription :: nat event_subscription)"
    unfolding sub_ok_def
    by (auto simp: MAX_EVENT_SUBSCRIBERS_def empty_subscription_def intro!: exI [of _ "[3, 1]"])
  have "em_ok traced_start"
    using sub by (auto simp: em_ok_def traced_start_def dest!: set_update_subset_insert [THEN subsetD])
  moreover have "subs traced_start EVENT_TIME_SYNC = [3, 1]"
    by (simp add: subs_def traced_start_def)
  ultimately show ?thesis
    using event_publish_runs_subscribers [of traced_start ?e trace_call]
    by (simp add: trace_call_def traced_start_def)
qed

end
