(* ===== verification/Common_Types.thy ===== *)
theory Common_Types
  imports Event_Manager
begin

text \<open>
  The data types shared by the components (\<open>common_types.h\<close>, \<open>common_consts.h\<close>) and the payloads that
  travel with events. A C enumeration that receives a value from outside keeps the out-of-range values
  in a constructor of their own. Text fields are byte arrays of the declared size.
\<close>

datatype ble_req_type =
  UPDATE_SYSTEM_TIME | UPDATE_SYSTEM_WEATHER | DATED_WEATHER_QUERY | BLE_REQ_OTHER nat

record ble_req =
  req_code :: ble_req_type
  req_app_id :: byte
  req_data_len :: nat
  req_data :: "byte list option"

datatype phone_app = WHATSAPP | MESSAGE | NAVIGATION | CALL | UNKNOWN | PHONE_APP_OTHER nat

definition phone_app_of :: "nat \<Rightarrow> phone_app" where
  "phone_app_of n =
     (if n = 0 then WHATSAPP else if n = 1 then MESSAGE else if n = 2 then NAVIGATION
      else if n = 3 then CALL else if n = 4 then UNKNOWN else PHONE_APP_OTHER n)"

definition MAX_APP_RESPONSE_SIZE :: nat where "MAX_APP_RESPONSE_SIZE = 220"
definition MAX_NOTIFICATION_TITLE_SIZE :: nat where "MAX_NOTIFICATION_TITLE_SIZE = 14"
definition MAX_NOTIFICATION_BODY_SIZE :: nat where "MAX_NOTIFICATION_BODY_SIZE = 100"
definition MAX_WATCH_ALARMS :: nat where "MAX_WATCH_ALARMS = 5"
definition WATCHFACE_SYSTEM_APP_ID :: nat where "WATCHFACE_SYSTEM_APP_ID = 1"
definition CORE_SYSTEM_APP_ID :: nat where "CORE_SYSTEM_APP_ID = 2"

lemmas common_consts =
  MAX_APP_RESPONSE_SIZE_def MAX_NOTIFICATION_TITLE_SIZE_def MAX_NOTIFICATION_BODY_SIZE_def
  MAX_WATCH_ALARMS_def WATCHFACE_SYSTEM_APP_ID_def CORE_SYSTEM_APP_ID_def

text \<open>The two handler pointers of a notification: present or \<open>NULL\<close>.\<close>

record notification =
  n_app :: phone_app
  n_app_name :: "byte list"
  n_body :: "byte list"
  n_action_name :: "byte list"
  n_dismiss_text :: "byte list"
  n_action_handler :: bool
  n_dismiss_handler :: bool

datatype app_ble_req = DATED_WEATHER_REQUEST

record app_update =
  au_req :: app_ble_req
  au_req_app :: byte
  au_data :: "byte list"

record time_sync =
  last_sync_time :: nat
  ts_valid :: nat

record hourly_weather =
  temperature :: int
  humidity :: byte
  precip_prob :: byte
  weather_code :: byte
  wind_speed :: byte

record weather_sync =
  expires_at :: nat
  hourly_today :: "hourly_weather list"

datatype alarm_type = ALARM_TYPE_GLOBAL | ALARM_TYPE_WATCH | ALARM_TYPE_INVALID

record alarm =
  epoch :: nat
  al_type :: alarm_type
  sync_with_phone :: bool

text \<open>What the \<open>data\<close> pointer of an event refers to.\<close>

datatype event_data =
    Data_none
  | Data_time nat
  | Data_weather weather_sync
  | Data_app_update app_update
  | Data_notification notification
  | Data_ble_req ble_req
  | Data_alarm alarm
  | Data_steps nat

type_synonym sys_event = "event_data event"

text \<open>Sizes the code puts into \<open>payload_len\<close> (four-byte enumerations and pointers).\<close>

definition sizeof_weather_sync :: nat where "sizeof_weather_sync = 148"
definition sizeof_app_update :: nat where "sizeof_app_update = 228"
definition sizeof_ble_req :: nat where "sizeof_ble_req = 12"
definition sizeof_alarm :: nat where "sizeof_alarm = 12"
definition sizeof_notification :: nat where "sizeof_notification = 156"

text \<open>Reinterpretation of an unsigned 16-bit value as \<open>int16_t\<close>, and back.\<close>

definition s16 :: "nat \<Rightarrow> int" where
  "s16 n = (if u16 n < 32768 then int (u16 n) else int (u16 n) - 65536)"

definition u16_of_int :: "int \<Rightarrow> nat" where
  "u16_of_int i = nat (i mod 65536)"

lemma s16_u16_of_int:
  assumes "-32768 \<le> i" and "i < 32768"
  shows "s16 (u16_of_int i) = i"
proof (cases "0 \<le> i")
  case True
  then show ?thesis
    using assms by (simp add: s16_def u16_of_int_def u16_def)
next
  case False
  have "i mod 65536 = (i + 65536) mod 65536"
    by simp
  also have "\<dots> = i + 65536"
    using assms False by (intro mod_pos_pos_trivial) auto
  finally have "i mod 65536 = i + 65536" .
  then show ?thesis
    using False assms by (simp add: s16_def u16_of_int_def u16_def)
qed

lemma u16_of_int_less: "u16_of_int i < 65536"
  by (simp add: u16_of_int_def nat_less_iff)

end
