(* ===== verification/Ble_Request.thy ===== *)
theory Ble_Request
  imports Ble_Fifo Common_Types
begin

text \<open>
  Requests of the applications to the phone (\<open>ble_request_handler.c\<close>): each becomes a message in the
  transmit queue. A message initialised with designated initialisers has a zeroed payload.
\<close>

definition zero_payload :: "byte list" where
  "zero_payload = replicate BLE_MAX_PAYLOAD_SIZE 0"

definition req_msg :: "byte \<Rightarrow> byte \<Rightarrow> nat \<Rightarrow> ble_msg" where
  "req_msg op app n =
     \<lparr>m_hdr = \<lparr>h_opcode = op, h_req_app = app, h_len = byte_of n\<rparr>, m_payload = zero_payload\<rparr>"

definition handle_ble_request :: "ble_req option \<Rightarrow> ble_fifo \<Rightarrow> (bool \<times> ble_fifo) option" where
  "handle_ble_request reqp q =
     (case reqp of
        None \<Rightarrow> Some (False, q)
      | Some req \<Rightarrow>
          (case req_code req of
             UPDATE_SYSTEM_TIME \<Rightarrow>
               add_ble_msg_to_queue (Some (req_msg BLE_OP_TIME_UPDATE (req_app_id req) 0)) BLE_TX q
           | UPDATE_SYSTEM_WEATHER \<Rightarrow>
               add_ble_msg_to_queue (Some (req_msg BLE_OP_WEATHER_UPDATE (req_app_id req) 0)) BLE_TX q
           | DATED_WEATHER_QUERY \<Rightarrow>
               let new_msg = req_msg BLE_OP_DATED_WEATHER_QUERY (req_app_id req) (req_data_len req) in
               if req_data_len req \<le> BLE_MAX_PAYLOAD_SIZE then do {
                 d \<leftarrow> req_data req;
                 bs \<leftarrow> mem_read d 0 (req_data_len req);
                 p \<leftarrow> mem_write (m_payload new_msg) 0 bs;
                 add_ble_msg_to_queue (Some (new_msg\<lparr>m_payload := p\<rparr>)) BLE_TX q
               }
               else Some (False, q)
           | BLE_REQ_OTHER _ \<Rightarrow> Some (False, q)))"

definition req_opcode :: "ble_req_type \<Rightarrow> byte" where
  "req_opcode c =
     (case c of UPDATE_SYSTEM_TIME \<Rightarrow> BLE_OP_TIME_UPDATE | UPDATE_SYSTEM_WEATHER \<Rightarrow> BLE_OP_WEATHER_UPDATE
      | _ \<Rightarrow> BLE_OP_DATED_WEATHER_QUERY)"

definition req_bytes :: "ble_req \<Rightarrow> byte list" where
  "req_bytes req =
     (if req_code req = DATED_WEATHER_QUERY then take (req_data_len req) (the (req_data req)) else [])"

definition req_ok :: "ble_req \<Rightarrow> bool" where
  "req_ok req \<longleftrightarrow>
     (\<forall>n. req_code req \<noteq> BLE_REQ_OTHER n) \<and>
     (req_code req = DATED_WEATHER_QUERY \<longrightarrow>
        req_data_len req \<le> BLE_MAX_PAYLOAD_SIZE \<and>
        (\<exists>d. req_data req = Some d \<and> req_data_len req \<le> length d))"

lemma req_msg_ok:
  "n \<le> BLE_MAX_PAYLOAD_SIZE \<Longrightarrow> ble_msg_ok (req_msg op app n)"
  by (simp add: req_msg_def ble_msg_ok_def ble_msg_typed_def zero_payload_def ble_consts u8_id)

lemma handle_ble_request_ok:
  assumes q: "ble_fifo_ok q" and r: "req_ok req"
  shows "\<exists>m q'. handle_ble_request (Some req) q = Some (True, q') \<and> ble_fifo_ok q' \<and> ble_msg_ok m \<and>
           ble_items BLE_TX q' = last_n BLE_FIFO_SIZE (ble_items BLE_TX q @ [m]) \<and>
           m_hdr m = \<lparr>h_opcode = req_opcode (req_code req), h_req_app = req_app_id req,
                      h_len = byte_of (length (req_bytes req))\<rparr> \<and>
           msg_data m = req_bytes req"
proof (cases "req_code req = DATED_WEATHER_QUERY")
  case True
  let ?n = "req_data_len req" and ?m0 = "req_msg BLE_OP_DATED_WEATHER_QUERY (req_app_id req) (req_data_len req)"
  obtain d where d: "req_data req = Some d" "?n \<le> length d" and n: "?n \<le> BLE_MAX_PAYLOAD_SIZE"
    using r True by (auto simp: req_ok_def)
  define m where "m = ?m0\<lparr>m_payload := take ?n d @ drop ?n zero_payload\<rparr>"
  have m: "ble_msg_ok m"
    using n d by (simp add: m_def req_msg_def ble_msg_ok_def ble_msg_typed_def zero_payload_def
        ble_consts u8_id)
  then obtain q' where q': "add_ble_msg_to_queue (Some m) BLE_TX q = Some (True, q')" "ble_fifo_ok q'"
    "ble_items BLE_TX q' = last_n BLE_FIFO_SIZE (ble_items BLE_TX q @ [m])"
    using add_ble_msg_ok [OF q] by blast
  have "handle_ble_request (Some req) q = Some (True, q')"
    using True n d q'(1)
    by (simp add: handle_ble_request_def mem_read_def mem_write_def m_def req_msg_def zero_payload_def
        Let_def)
  moreover have "msg_data m = req_bytes req"
    using True n d by (simp add: m_def msg_data_def req_msg_def req_bytes_def ble_consts u8_id)
  moreover have "m_hdr m = \<lparr>h_opcode = req_opcode (req_code req), h_req_app = req_app_id req,
                      h_len = byte_of (length (req_bytes req))\<rparr>"
    using True d by (simp add: m_def req_msg_def req_opcode_def req_bytes_def min_def)
  ultimately show ?thesis
    using m q'(2,3) by blast
next
  case False
  define m where "m = req_msg (req_opcode (req_code req)) (req_app_id req) 0"
  have m: "ble_msg_ok m"
    by (simp add: m_def req_msg_ok)
  then obtain q' where q': "add_ble_msg_to_queue (Some m) BLE_TX q = Some (True, q')" "ble_fifo_ok q'"
    "ble_items BLE_TX q' = last_n BLE_FIFO_SIZE (ble_items BLE_TX q @ [m])"
    using add_ble_msg_ok [OF q] by blast
  have "handle_ble_request (Some req) q = Some (True, q')"
    using False r q'(1)
    by (auto simp: handle_ble_request_def m_def req_opcode_def req_ok_def split: ble_req_type.split)
  then show ?thesis
    using False m q'(2,3)
    by (intro exI [of _ m] exI [of _ q'])
      (simp add: m_def msg_data_def req_msg_def req_bytes_def u8_def)
qed

text \<open>
  A well-formed request is queued for transmission as one message that carries the opcode of the
  request, the requesting application and exactly the request's data (nothing for a time or weather
  update); the result is true and no byte outside the request's buffer or the message is touched.
\<close>

lemma ble_request_queued:
  assumes "ble_fifo_ok q" and "req_ok req"
  shows "\<exists>m q'. handle_ble_request (Some req) q = Some (True, q') \<and> ble_fifo_ok q' \<and>
           ble_items BLE_TX q' = last_n BLE_FIFO_SIZE (ble_items BLE_TX q @ [m]) \<and>
           h_opcode (m_hdr m) = req_opcode (req_code req) \<and> h_req_app (m_hdr m) = req_app_id req \<and>
           msg_data m = req_bytes req"
proof -
  obtain m q' where "handle_ble_request (Some req) q = Some (True, q')" "ble_fifo_ok q'"
    "ble_items BLE_TX q' = last_n BLE_FIFO_SIZE (ble_items BLE_TX q @ [m])"
    "m_hdr m = \<lparr>h_opcode = req_opcode (req_code req), h_req_app = req_app_id req,
                h_len = byte_of (length (req_bytes req))\<rparr>" "msg_data m = req_bytes req"
    using handle_ble_request_ok [OF assms] by blast
  then show ?thesis
    by (intro exI [of _ m] exI [of _ q']) simp
qed

lemma ble_request_queued_witness:
  "\<exists>m q'. handle_ble_request
       (Some \<lparr>req_code = DATED_WEATHER_QUERY, req_app_id = 3, req_data_len = 2, req_data = Some [20, 26]\<rparr>)
       ble_fifo_start = Some (True, q') \<and> ble_items BLE_TX q' = [m] \<and> msg_data m = [20, 26]"
  using ble_request_queued [OF ble_fifo_start_ok,
      of "\<lparr>req_code = DATED_WEATHER_QUERY, req_app_id = 3, req_data_len = 2, req_data = Some [20, 26]\<rparr>"]
  by (auto simp: req_ok_def ble_consts ble_fifo_start_items req_bytes_def)

text \<open>A query with more data than a message holds, or an unknown code, is refused.\<close>

lemma handle_ble_request_refused:
  "req_code req = DATED_WEATHER_QUERY \<and> BLE_MAX_PAYLOAD_SIZE < req_data_len req \<or>
   req_code req = BLE_REQ_OTHER n \<Longrightarrow> handle_ble_request (Some req) q = Some (False, q)"
  by (auto simp: handle_ble_request_def)

end
