(* ===== verification/Ble_Multichunk.thy ===== *)
theory Ble_Multichunk
  imports Ble_Fifo
begin

unbundle bit_operations_syntax

text \<open>
  The multi-chunk parser (\<open>ble_multichunk_handler.c\<close>): a message larger than one BLE message is sent
  as a header, numbered chunks and a CRC, and reassembled into an allocated buffer.

  \<open>esp_rom_crc32_le\<close> is the ROM function and \<open>malloc\<close> the allocator: both are parameters. \<open>malloc\<close>
  yields the initial contents of the block or \<open>None\<close>; \<open>malloc_spec\<close> is its contract, a block of the
  requested size. The static parser is threaded through; the second result is the message handed to
  the response handler, if any.
\<close>

section \<open>State\<close>

definition BLE_MULTICHUNK_MAGIC :: byte where "BLE_MULTICHUNK_MAGIC = 0xB9"
definition BLE_MAX_MULTICHUNK_SIZE :: nat where "BLE_MAX_MULTICHUNK_SIZE = 2048"

datatype parser_state =
  PARSER_STATE_READ_HEADER | PARSER_STATE_READ_CHUNKS | PARSER_STATE_READ_CRC | PARSER_STATE_INVALID

record multichunk_header =
  mh_opcode :: byte
  mh_total_chunks :: byte
  mh_total_size :: nat

record multichunk_parser =
  mp_state :: parser_state
  mp_hdr :: multichunk_header
  mp_curr_chunk_id :: byte
  mp_req_app :: byte
  mp_read_size :: nat
  mp_crc :: "32 word"
  mp_out_data :: "byte list option"

record ble_multichunk_msg =
  mm_opcode :: byte
  mm_req_app :: byte
  mm_len :: nat
  mm_data :: "byte list option"

text \<open>The \<open>memset\<close> of \<open>reset_multichunk_parser\<close>; the block is freed before.\<close>

definition reset_multichunk_parser :: "multichunk_parser \<Rightarrow> multichunk_parser" where
  "reset_multichunk_parser p =
     \<lparr>mp_state = PARSER_STATE_READ_HEADER,
      mp_hdr = \<lparr>mh_opcode = 0, mh_total_chunks = 0, mh_total_size = 0\<rparr>,
      mp_curr_chunk_id = 0, mp_req_app = 0, mp_read_size = 0, mp_crc = 0, mp_out_data = None\<rparr>"

section \<open>Operations\<close>

definition read_multichunk_header ::
  "multichunk_parser \<Rightarrow> ble_msg \<Rightarrow> (bool \<times> multichunk_parser) option" where
  "read_multichunk_header p msg =
     (if mp_state p \<noteq> PARSER_STATE_READ_HEADER then None
      else if unat (h_len (m_hdr msg)) \<le> 6 \<or> unat (h_len (m_hdr msg)) > BLE_MAX_PAYLOAD_SIZE
      then Some (False, p)
      else do {
        b0 \<leftarrow> rd (m_payload msg) 0;
        if b0 \<noteq> BLE_MULTICHUNK_MAGIC then Some (False, p)
        else do {
          b1 \<leftarrow> rd (m_payload msg) 1;
          b2 \<leftarrow> rd (m_payload msg) 2;
          b3 \<leftarrow> rd (m_payload msg) 3;
          b4 \<leftarrow> rd (m_payload msg) 4;
          let size = 256 * unat b3 + unat b4;
          let p1 = p\<lparr>mp_hdr := \<lparr>mh_opcode = b1, mh_total_chunks = b2, mh_total_size = size\<rparr>\<rparr>;
          Some (\<not> (b2 = 0 \<or> size = 0) \<and> \<not> size > BLE_MAX_MULTICHUNK_SIZE, p1)
        }
      })"

text \<open>
  The three blocks of \<open>parse_new_chunk\<close>. Each yields the parser and, when control reaches the next
  block, the current \<open>chunk_offset\<close>; \<open>None\<close> inside is an early return.
\<close>

definition chunk_start ::
  "(nat \<Rightarrow> byte list option) \<Rightarrow> ble_msg \<Rightarrow> multichunk_parser \<Rightarrow> (multichunk_parser \<times> bool) option" where
  "chunk_start malloc chunk p =
     (if mp_state p = PARSER_STATE_READ_HEADER then do {
        (ok, p1) \<leftarrow> read_multichunk_header p chunk;
        if \<not> ok then Some (reset_multichunk_parser p1, False)
        else
          let d = malloc (mh_total_size (mp_hdr p1));
              p2 = p1\<lparr>mp_req_app := h_req_app (m_hdr chunk), mp_state := PARSER_STATE_READ_CHUNKS,
                      mp_out_data := d\<rparr>
          in if d = None then Some (reset_multichunk_parser p2, False) else Some (p2, True)
      }
      else Some (p, True))"

definition chunk_data ::
  "ble_msg \<Rightarrow> multichunk_parser \<Rightarrow> (multichunk_parser \<times> nat option) option" where
  "chunk_data chunk p =
     (if mp_state p = PARSER_STATE_READ_CHUNKS then
        let hlen = unat (h_len (m_hdr chunk));
            first = (mp_curr_chunk_id p = 0);
            off0 = (if first then 5 else 0);
            len0 = (if first then u8_minus hlen (off0 + 1) else u8_minus hlen 1);
            total = mh_total_size (mp_hdr p)
        in if hlen \<le> (if first then 6 else 1) then Some (reset_multichunk_parser p, None)
           else if mp_read_size p > total then Some (reset_multichunk_parser p, None)
           else do {
             let clen = (if total - mp_read_size p < len0 then u8 (total - mp_read_size p) else len0);
             id \<leftarrow> rd (m_payload chunk) off0;
             if id \<noteq> mp_curr_chunk_id p then Some (reset_multichunk_parser p, None)
             else do {
               data \<leftarrow> mem_read (m_payload chunk) (off0 + 1) clen;
               d \<leftarrow> mp_out_data p;
               d' \<leftarrow> mem_write d (mp_read_size p) data;
               let off = u8 (off0 + 1 + clen);
               let p1 = p\<lparr>mp_out_data := Some d', mp_read_size := u16 (mp_read_size p + clen),
                          mp_curr_chunk_id := mp_curr_chunk_id p + 1\<rparr>;
               let last = (mp_curr_chunk_id p1 = mh_total_chunks (mp_hdr p));
               if mp_read_size p1 = total \<and> \<not> last then Some (reset_multichunk_parser p1, None)
               else if last \<and> mp_read_size p1 \<noteq> total then Some (reset_multichunk_parser p1, None)
               else if last \<and> mp_read_size p1 = total
               then Some (p1\<lparr>mp_state := PARSER_STATE_READ_CRC, mp_read_size := 0\<rparr>, Some off)
               else Some (p1, Some off)
             }
           }
      else Some (p, Some 0))"

text \<open>The loop that collects the four bytes of the CRC, most significant first.\<close>

function crc_loop ::
  "byte list \<Rightarrow> nat \<Rightarrow> nat \<Rightarrow> nat \<Rightarrow> 32 word \<Rightarrow> (nat \<times> nat \<times> 32 word) option" where
  "crc_loop payload hlen off read_size crc =
     (if read_size \<noteq> 4 \<and> off < hlen then
        case rd payload off of
          None \<Rightarrow> None
        | Some b \<Rightarrow> crc_loop payload hlen (off + 1) (read_size + 1)
                      (crc OR push_bit ((3 - read_size) * 8) (ucast b))
      else Some (off, read_size, crc))"
  by pat_completeness auto

termination
  by (relation "measure (\<lambda>(payload, hlen, off, rs, crc). hlen - off)") auto

declare crc_loop.simps [simp del]

definition chunk_crc ::
  "(byte list \<Rightarrow> 32 word) \<Rightarrow> ble_msg \<Rightarrow> nat \<Rightarrow> multichunk_parser \<Rightarrow>
   (multichunk_parser \<times> ble_multichunk_msg option) option" where
  "chunk_crc crc32 chunk off p =
     (if mp_state p = PARSER_STATE_READ_CRC then do {
        let hlen = unat (h_len (m_hdr chunk));
        (off1, rs, crc) \<leftarrow> crc_loop (m_payload chunk) hlen off (mp_read_size p) (mp_crc p);
        let p1 = p\<lparr>mp_crc := crc, mp_read_size := rs\<rparr>;
        if rs = 4 then
          if off1 \<noteq> hlen then Some (reset_multichunk_parser p1, None)
          else do {
            d \<leftarrow> mp_out_data p1;
            data \<leftarrow> mem_read d 0 (mh_total_size (mp_hdr p1));
            if crc32 data \<noteq> crc then Some (reset_multichunk_parser p1, None)
            else
              Some (reset_multichunk_parser (p1\<lparr>mp_out_data := None\<rparr>),
                    Some \<lparr>mm_opcode = mh_opcode (mp_hdr p1), mm_req_app = mp_req_app p1,
                          mm_len = mh_total_size (mp_hdr p1), mm_data = Some d\<rparr>)
          }
        else Some (p1, None)
      }
      else Some (p, None))"

definition parse_new_chunk ::
  "(byte list \<Rightarrow> 32 word) \<Rightarrow> (nat \<Rightarrow> byte list option) \<Rightarrow> ble_msg option \<Rightarrow> bool \<Rightarrow>
   multichunk_parser \<Rightarrow> (multichunk_parser \<times> ble_multichunk_msg option) option" where
  "parse_new_chunk crc32 malloc chunkp handler_nonnull p =
     (case chunkp of
        None \<Rightarrow> Some (reset_multichunk_parser p, None)
      | Some chunk \<Rightarrow>
          if \<not> handler_nonnull then None
          else do {
            (p1, go_on) \<leftarrow> chunk_start malloc chunk p;
            if \<not> go_on then Some (p1, None)
            else do {
              (p2, off) \<leftarrow> chunk_data chunk p1;
              case off of None \<Rightarrow> Some (p2, None) | Some k \<Rightarrow> chunk_crc crc32 chunk k p2
            }
          })"

section \<open>Invariant\<close>

definition malloc_spec :: "(nat \<Rightarrow> byte list option) \<Rightarrow> bool" where
  "malloc_spec malloc \<longleftrightarrow> (\<forall>n d. malloc n = Some d \<longrightarrow> length d = n)"

definition mp_hdr_ok :: "multichunk_parser \<Rightarrow> bool" where
  "mp_hdr_ok p \<longleftrightarrow>
     0 < mh_total_size (mp_hdr p) \<and> mh_total_size (mp_hdr p) \<le> BLE_MAX_MULTICHUNK_SIZE \<and>
     mh_total_chunks (mp_hdr p) \<noteq> 0 \<and>
     (\<exists>d. mp_out_data p = Some d \<and> length d = mh_total_size (mp_hdr p))"

definition mp_ok :: "multichunk_parser \<Rightarrow> bool" where
  "mp_ok p \<longleftrightarrow>
     (case mp_state p of
        PARSER_STATE_READ_HEADER \<Rightarrow>
          mp_out_data p = None \<and> mp_read_size p = 0 \<and> mp_curr_chunk_id p = 0 \<and> mp_crc p = 0
      | PARSER_STATE_READ_CHUNKS \<Rightarrow>
          mp_hdr_ok p \<and> mp_read_size p < mh_total_size (mp_hdr p) \<and> mp_crc p = 0 \<and>
          unat (mp_curr_chunk_id p) < unat (mh_total_chunks (mp_hdr p))
      | PARSER_STATE_READ_CRC \<Rightarrow> mp_hdr_ok p \<and> mp_read_size p < 4
      | PARSER_STATE_INVALID \<Rightarrow> False)"

lemma reset_ok [simp]: "mp_ok (reset_multichunk_parser p)"
  by (simp add: mp_ok_def reset_multichunk_parser_def)

lemma rd_payload: "ble_msg_typed m \<Longrightarrow> i < 250 \<Longrightarrow> rd (m_payload m) i = Some (m_payload m ! i)"
  by (simp add: rd_def ble_msg_typed_def ble_consts)

lemma read_header_ok:
  assumes "mp_state p = PARSER_STATE_READ_HEADER" and "ble_msg_typed chunk"
  shows "\<exists>b h. read_multichunk_header p chunk = Some (b, p\<lparr>mp_hdr := h\<rparr>) \<and>
           (b \<longrightarrow> 0 < mh_total_size h \<and> mh_total_size h \<le> BLE_MAX_MULTICHUNK_SIZE \<and>
                 mh_total_chunks h \<noteq> 0)"
proof -
  have same: "p = p\<lparr>mp_hdr := mp_hdr p\<rparr>"
    by simp
  show ?thesis
  proof (cases "unat (h_len (m_hdr chunk)) \<le> 6 \<or> unat (h_len (m_hdr chunk)) > BLE_MAX_PAYLOAD_SIZE \<or>
      m_payload chunk ! 0 \<noteq> BLE_MULTICHUNK_MAGIC")
    case True
    then show ?thesis
      using assms by (intro exI [of _ False] exI [of _ "mp_hdr p"])
        (auto simp: read_multichunk_header_def rd_payload)
  next
    case False
    then show ?thesis
      using assms by (simp add: read_multichunk_header_def rd_payload Let_def) auto
  qed
qed

lemma chunk_start_ok:
  assumes ok: "mp_ok p" and m: "malloc_spec malloc" and ty: "ble_msg_typed chunk"
  shows "\<exists>p1 b. chunk_start malloc chunk p = Some (p1, b) \<and> mp_ok p1 \<and>
           (b \<longrightarrow> mp_state p1 \<noteq> PARSER_STATE_READ_HEADER)"
proof (cases "mp_state p = PARSER_STATE_READ_HEADER")
  case True
  then obtain b h where h: "read_multichunk_header p chunk = Some (b, p\<lparr>mp_hdr := h\<rparr>)"
    "b \<longrightarrow> 0 < mh_total_size h \<and> mh_total_size h \<le> BLE_MAX_MULTICHUNK_SIZE \<and> mh_total_chunks h \<noteq> 0"
    using read_header_ok ty by blast
  show ?thesis
  proof (cases "b \<and> malloc (mh_total_size h) \<noteq> None")
    case b: True
    then obtain d where d: "malloc (mh_total_size h) = Some d" "length d = mh_total_size h"
      using m by (auto simp: malloc_spec_def)
    then show ?thesis
      using b True h ok
      by (intro exI [of _ True] exI [of _ "p\<lparr>mp_hdr := h, mp_req_app := h_req_app (m_hdr chunk),
            mp_state := PARSER_STATE_READ_CHUNKS, mp_out_data := Some d\<rparr>"])
        (simp add: chunk_start_def mp_ok_def mp_hdr_ok_def unat_gt_0 Let_def)
  next
    case False
    then show ?thesis
      using True h by (auto simp: chunk_start_def Let_def)
  qed
next
  case False
  then show ?thesis
    using ok by (auto simp: chunk_start_def)
qed

text \<open>The chunk block, once the id matches: what is copied and where parsing goes on.\<close>

definition chunk_off :: "multichunk_parser \<Rightarrow> nat" where
  "chunk_off p = (if mp_curr_chunk_id p = 0 then 6 else 1)"

definition chunk_take :: "ble_msg \<Rightarrow> multichunk_parser \<Rightarrow> nat" where
  "chunk_take chunk p =
     min (mh_total_size (mp_hdr p) - mp_read_size p) (unat (h_len (m_hdr chunk)) - chunk_off p)"

definition chunk_stored :: "byte list \<Rightarrow> nat \<Rightarrow> multichunk_parser \<Rightarrow> multichunk_parser" where
  "chunk_stored d' n p =
     p\<lparr>mp_out_data := Some d', mp_read_size := mp_read_size p + n,
       mp_curr_chunk_id := mp_curr_chunk_id p + 1\<rparr>"

lemma chunk_data_cases:
  assumes st: "mp_state p = PARSER_STATE_READ_CHUNKS" and ok: "mp_ok p" and m: "ble_msg_ok chunk"
    and d: "mp_out_data p = Some d"
  defines "n \<equiv> chunk_take chunk p"
  defines "d' \<equiv> take (mp_read_size p) d @ take n (drop (chunk_off p) (m_payload chunk)) @
                drop (mp_read_size p + n) d"
  defines "p1 \<equiv> chunk_stored d' n p"
  shows "chunk_data chunk p =
     Some (if unat (h_len (m_hdr chunk)) \<le> chunk_off p \<or>
              m_payload chunk ! (chunk_off p - 1) \<noteq> mp_curr_chunk_id p \<or>
              (mp_read_size p + n = mh_total_size (mp_hdr p)) \<noteq>
                (mp_curr_chunk_id p + 1 = mh_total_chunks (mp_hdr p))
           then (reset_multichunk_parser p, None)
           else if mp_read_size p + n = mh_total_size (mp_hdr p)
           then (p1\<lparr>mp_state := PARSER_STATE_READ_CRC, mp_read_size := 0\<rparr>, Some (chunk_off p + n))
           else (p1, Some (chunk_off p + n)))"
proof -
  let ?hlen = "unat (h_len (m_hdr chunk))" and ?total = "mh_total_size (mp_hdr p)"
  let ?off0 = "if mp_curr_chunk_id p = 0 then 5 else 0 :: nat"
  have off0: "?off0 + 1 = chunk_off p" "?off0 = chunk_off p - 1"
    by (simp_all add: chunk_off_def)
  have hl: "?hlen \<le> 250" and ty: "length (m_payload chunk) = 250"
    using m by (simp_all add: ble_msg_ok_def ble_msg_typed_def ble_consts)
  have tot: "mp_read_size p < ?total" "?total \<le> 2048" and ld: "length d = ?total"
    using ok st d by (auto simp: mp_ok_def mp_hdr_ok_def BLE_MAX_MULTICHUNK_SIZE_def)
  have short: "(if mp_curr_chunk_id p = 0 then 6 else 1) = chunk_off p"
    by (simp add: chunk_off_def)
  show ?thesis
  proof (cases "?hlen \<le> chunk_off p")
    case True
    then show ?thesis
      using st by (simp add: chunk_data_def Let_def short)
  next
    case False
    have len0: "(if mp_curr_chunk_id p = 0 then u8_minus ?hlen (?off0 + 1) else u8_minus ?hlen 1) =
        ?hlen - chunk_off p"
      using False hl by (auto simp: chunk_off_def u8_minus_id)
    have clen: "(if ?total - mp_read_size p < ?hlen - chunk_off p then u8 (?total - mp_read_size p)
        else ?hlen - chunk_off p) = n"
      using hl by (auto simp: n_def chunk_take_def u8_id)
    have n: "chunk_off p + n \<le> 250" "mp_read_size p + n \<le> ?total"
      using False hl tot by (auto simp: n_def chunk_take_def)
    have r: "rd (m_payload chunk) ?off0 = Some (m_payload chunk ! (chunk_off p - 1))"
      "mem_read (m_payload chunk) (?off0 + 1) n = Some (take n (drop (chunk_off p) (m_payload chunk)))"
      "mem_write d (mp_read_size p) (take n (drop (chunk_off p) (m_payload chunk))) = Some d'"
      unfolding off0(1) using n ty ld by (auto simp: rd_def mem_read_def mem_write_def d'_def chunk_off_def)
    have w: "u8 (?off0 + 1 + n) = chunk_off p + n" "u16 (mp_read_size p + n) = mp_read_size p + n"
      unfolding off0(1) using n tot by (simp_all add: u8_id u16_id)
    have nlt: "\<not> ?total < mp_read_size p"
      using tot by simp
    show ?thesis
      unfolding chunk_data_def Let_def len0 clen w short
      using st False nlt r d
      by (simp add: p1_def chunk_stored_def reset_multichunk_parser_def)
  qed
qed

lemma chunk_data_ok:
  assumes ok: "mp_ok p" and m: "ble_msg_ok chunk" and st: "mp_state p \<noteq> PARSER_STATE_READ_HEADER"
  shows "\<exists>p1 off. chunk_data chunk p = Some (p1, off) \<and> mp_ok p1"
proof (cases "mp_state p = PARSER_STATE_READ_CHUNKS")
  case True
  then obtain d where d: "mp_out_data p = Some d" "length d = mh_total_size (mp_hdr p)"
    "mp_read_size p < mh_total_size (mp_hdr p)" "unat (mp_curr_chunk_id p) < unat (mh_total_chunks (mp_hdr p))"
    using ok by (auto simp: mp_ok_def mp_hdr_ok_def)
  define n where "n = chunk_take chunk p"
  define d' where "d' = take (mp_read_size p) d @ take n (drop (chunk_off p) (m_payload chunk)) @
                drop (mp_read_size p + n) d"
  have "unat (mp_curr_chunk_id p + 1) = unat (mp_curr_chunk_id p) + 1"
    using d(4) unat_byte_le [of "mh_total_chunks (mp_hdr p)"] by (simp add: unat_word_ariths)
  then have id: "mp_curr_chunk_id p + 1 \<noteq> mh_total_chunks (mp_hdr p) \<Longrightarrow>
      unat (mp_curr_chunk_id p + 1) < unat (mh_total_chunks (mp_hdr p))"
    using d(4) by (metis Suc_eq_plus1 Suc_lessI word_unat_eq_iff)
  have n: "mp_read_size p + n \<le> mh_total_size (mp_hdr p)"
    using d(3) by (auto simp: n_def chunk_take_def)
  have "chunk_off p + n \<le> 250" if "\<not> unat (h_len (m_hdr chunk)) \<le> chunk_off p"
    using that m by (auto simp: n_def chunk_take_def ble_msg_ok_def ble_consts)
  then have len: "length d' = mh_total_size (mp_hdr p)" if "\<not> unat (h_len (m_hdr chunk)) \<le> chunk_off p"
    using that n d(2) m by (auto simp: d'_def ble_msg_ok_def ble_msg_typed_def ble_consts)
  have crc: "mp_ok ((chunk_stored d' n p)\<lparr>mp_state := PARSER_STATE_READ_CRC, mp_read_size := 0\<rparr>)"
    and more: "mp_read_size p + n \<noteq> mh_total_size (mp_hdr p) \<Longrightarrow>
      mp_curr_chunk_id p + 1 \<noteq> mh_total_chunks (mp_hdr p) \<Longrightarrow> mp_ok (chunk_stored d' n p)"
    if "\<not> unat (h_len (m_hdr chunk)) \<le> chunk_off p"
    using ok True n id len [OF that] by (simp_all add: mp_ok_def mp_hdr_ok_def chunk_stored_def)
  show ?thesis
    using crc more unfolding chunk_data_cases [OF True ok m d(1), folded n_def, folded d'_def] by auto
next
  case False
  then show ?thesis
    using ok by (simp add: chunk_data_def)
qed

section \<open>The CRC\<close>

primrec crc_acc :: "nat \<Rightarrow> 32 word \<Rightarrow> byte list \<Rightarrow> 32 word" where
  "crc_acc k crc [] = crc"
| "crc_acc k crc (b # bs) = crc_acc (k + 1) (crc OR push_bit ((3 - k) * 8) (ucast b)) bs"

lemma crc_acc_append: "crc_acc k crc (xs @ ys) = crc_acc (k + length xs) (crc_acc k crc xs) ys"
  by (induction xs arbitrary: k crc) simp_all

lemma crc_loop_eq:
  assumes "hlen \<le> length xs" and "k \<le> 4"
  shows "crc_loop xs hlen off k crc =
     Some (off + min (4 - k) (hlen - off), k + min (4 - k) (hlen - off),
           crc_acc k crc (take (min (4 - k) (hlen - off)) (drop off xs)))"
  using assms
proof (induction xs hlen off k crc rule: crc_loop.induct)
  case (1 xs hlen off k crc)
  show ?case
  proof (cases "k \<noteq> 4 \<and> off < hlen")
    case True
    let ?m = "min (4 - Suc k) (hlen - Suc off)"
    have m: "min (4 - k) (hlen - off) = Suc ?m"
      using True "1.prems" by auto
    have "drop off xs = xs ! off # drop (Suc off) xs" and "rd xs off = Some (xs ! off)"
      using True "1.prems" by (simp_all add: Cons_nth_drop_Suc rd_def)
    then show ?thesis
      using "1.IH" [of "xs ! off"] True "1.prems" m
      by (subst crc_loop.simps) simp
  next
    case False
    then show ?thesis
      using "1.prems" by (subst crc_loop.simps) auto
  qed
qed

text \<open>The four bytes of a CRC in transmission order, and that the parser's accumulation inverts it.\<close>

definition crc_bytes :: "32 word \<Rightarrow> byte list" where
  "crc_bytes w = [ucast (drop_bit 24 w), ucast (drop_bit 16 w), ucast (drop_bit 8 w), ucast w]"

lemma crc_acc_crc_bytes: "crc_acc 0 0 (crc_bytes w) = w"
proof (rule bit_word_eqI)
  fix n assume "n < LENGTH(32)"
  then consider "n < 8" | "8 \<le> n" "n < 16" | "16 \<le> n" "n < 24" | "24 \<le> n" "n < 32"
    by force
  then show "bit (crc_acc 0 0 (crc_bytes w)) n = bit w n"
    by cases (auto simp: crc_bytes_def bit_or_iff bit_push_bit_iff bit_ucast_iff bit_drop_bit_eq)
qed

lemma chunk_crc_ok:
  assumes ok: "mp_ok p" and m: "ble_msg_ok chunk" and st: "mp_state p \<noteq> PARSER_STATE_READ_HEADER"
  shows "\<exists>p1 out. chunk_crc crc32 chunk off p = Some (p1, out) \<and> mp_ok p1 \<and>
           (\<forall>msg. out = Some msg \<longrightarrow>
              (\<exists>d. mm_data msg = Some d \<and> length d = mm_len msg \<and> 0 < mm_len msg \<and>
                   mm_len msg \<le> BLE_MAX_MULTICHUNK_SIZE))"
proof (cases "mp_state p = PARSER_STATE_READ_CRC")
  case True
  then obtain d where d: "mp_out_data p = Some d" "length d = mh_total_size (mp_hdr p)"
    "mp_read_size p < 4" "0 < mh_total_size (mp_hdr p)" "mh_total_size (mp_hdr p) \<le> BLE_MAX_MULTICHUNK_SIZE"
    "mh_total_chunks (mp_hdr p) \<noteq> 0"
    using ok by (auto simp: mp_ok_def mp_hdr_ok_def)
  have h: "unat (h_len (m_hdr chunk)) \<le> length (m_payload chunk)"
    using m by (simp add: ble_msg_ok_def ble_msg_typed_def)
  obtain off1 rs crc where c: "crc_loop (m_payload chunk) (unat (h_len (m_hdr chunk))) off
      (mp_read_size p) (mp_crc p) = Some (off1, rs, crc)" "rs \<le> 4"
    using crc_loop_eq [OF h] d(3) by auto
  have "rs < 4 \<Longrightarrow> mp_ok (p\<lparr>mp_crc := crc, mp_read_size := rs\<rparr>)"
    using ok True by (simp add: mp_ok_def mp_hdr_ok_def)
  then show ?thesis
    using True d c by (auto simp: chunk_crc_def Let_def mem_simps)
next
  case False
  then show ?thesis
    using ok by (simp add: chunk_crc_def)
qed

lemma parse_new_chunk_result:
  assumes "mp_ok p" and "malloc_spec malloc" and "\<forall>chunk. chunkp = Some chunk \<longrightarrow> ble_msg_ok chunk"
  shows "\<exists>p1 out. parse_new_chunk crc32 malloc chunkp True p = Some (p1, out) \<and> mp_ok p1 \<and>
           (\<forall>msg. out = Some msg \<longrightarrow>
              (\<exists>d. mm_data msg = Some d \<and> length d = mm_len msg \<and> 0 < mm_len msg \<and>
                   mm_len msg \<le> BLE_MAX_MULTICHUNK_SIZE))"
proof (cases chunkp)
  case None
  then show ?thesis
    by (simp add: parse_new_chunk_def)
next
  case (Some chunk)
  then have m: "ble_msg_ok chunk" "ble_msg_typed chunk"
    using assms(3) by (auto simp: ble_msg_ok_def)
  obtain p1 b where s: "chunk_start malloc chunk p = Some (p1, b)" "mp_ok p1"
    "b \<longrightarrow> mp_state p1 \<noteq> PARSER_STATE_READ_HEADER"
    using chunk_start_ok [OF assms(1,2) m(2)] by blast
  show ?thesis
  proof (cases b)
    case True
    then obtain p2 off where d: "chunk_data chunk p1 = Some (p2, off)" "mp_ok p2"
      using chunk_data_ok [OF s(2) m(1)] s(3) by blast
    have "mp_state p2 \<noteq> PARSER_STATE_READ_HEADER" if "off = Some k" for k
      using d(1) that True s(3)
      by (auto simp: chunk_data_def bind_eq_Some_iff Let_def split: if_splits)
    then show ?thesis
      using Some s d True chunk_crc_ok [OF d(2) m(1), of crc32]
      by (cases off) (auto simp: parse_new_chunk_def)
  next
    case False
    then show ?thesis
      using Some s by (simp add: parse_new_chunk_def)
  qed
qed

lemma parse_new_chunk_total:
  assumes "mp_ok p" and "malloc_spec malloc" and "ble_msg_ok chunk"
  shows "\<exists>r. parse_new_chunk crc32 malloc (Some chunk) True p = Some r \<and> mp_ok (fst r)"
  using parse_new_chunk_result [OF assms(1,2), of "Some chunk" crc32] assms(3) by auto

text \<open>
  The multi-chunk parser survives every sequence of messages. On any message with a length within
  its payload (or on the \<open>NULL\<close> reset request), in every state it can reach, \<open>parse_new_chunk\<close> returns
  without failing an assertion, reading beyond the message or writing beyond the allocated block, and
  stays well formed; a message it hands to the response handler owns a block of exactly the announced
  length, between 1 and 2048 bytes.
\<close>

lemma parse_new_chunk_safe:
  assumes "mp_ok p" and "malloc_spec malloc" and "\<forall>chunk. chunkp = Some chunk \<longrightarrow> ble_msg_ok chunk"
  shows "\<exists>p1 out. parse_new_chunk crc32 malloc chunkp True p = Some (p1, out) \<and> mp_ok p1 \<and>
           (\<forall>msg. out = Some msg \<longrightarrow>
              (\<exists>d. mm_data msg = Some d \<and> length d = mm_len msg \<and> 0 < mm_len msg \<and>
                   mm_len msg \<le> BLE_MAX_MULTICHUNK_SIZE))"
  using assms by (rule parse_new_chunk_result)

definition mp_start :: multichunk_parser where
  "mp_start = \<lparr>mp_state = PARSER_STATE_READ_HEADER,
      mp_hdr = \<lparr>mh_opcode = 0, mh_total_chunks = 0, mh_total_size = 0\<rparr>,
      mp_curr_chunk_id = 0, mp_req_app = 0, mp_read_size = 0, mp_crc = 0, mp_out_data = None\<rparr>"

lemma mp_start_ok: "mp_ok mp_start"
  by (simp add: mp_ok_def mp_start_def)

definition malloc_zero :: "nat \<Rightarrow> byte list option" where
  "malloc_zero n = Some (replicate n 0)"

lemma malloc_zero_spec: "malloc_spec malloc_zero"
  by (simp add: malloc_spec_def malloc_zero_def)

lemma parse_new_chunk_safe_witness:
  "\<exists>p1 out. parse_new_chunk (\<lambda>d. 0) malloc_zero (Some ble_msg_example) True mp_start = Some (p1, out) \<and>
     mp_ok p1"
  using parse_new_chunk_safe [OF mp_start_ok malloc_zero_spec, of "Some ble_msg_example" "\<lambda>d. 0"]
    ble_msg_example_ok by auto

section \<open>Reassembly\<close>

text \<open>
  A sender as the format comment of the source describes it: a header with magic, opcode, number of
  chunks and total size, then every chunk behind its number, then the CRC. The CRC is split as
  \<open>x @ y\<close>: \<open>x\<close> rides in the message of the last chunk, \<open>y\<close> (if any) in a message of its own.
\<close>

definition mc_msg :: "byte \<Rightarrow> byte list \<Rightarrow> ble_msg" where
  "mc_msg app bs =
     \<lparr>m_hdr = \<lparr>h_opcode = BLE_OP_MULTICHUNK_SEND, h_req_app = app, h_len = byte_of (length bs)\<rparr>,
      m_payload = bs @ replicate (250 - length bs) 0\<rparr>"

definition mc_header :: "byte \<Rightarrow> nat \<Rightarrow> nat \<Rightarrow> byte list" where
  "mc_header op n sz =
     [BLE_MULTICHUNK_MAGIC, op, byte_of n, byte_of (sz div 256), byte_of (sz mod 256)]"

fun mc_bodies :: "nat \<Rightarrow> byte list list \<Rightarrow> byte list \<Rightarrow> byte list list" where
  "mc_bodies k [] x = []"
| "mc_bodies k [c] x = [byte_of k # c @ x]"
| "mc_bodies k (c # d # cs) x = (byte_of k # c) # mc_bodies (k + 1) (d # cs) x"

definition mc_encode ::
  "byte \<Rightarrow> byte \<Rightarrow> byte list list \<Rightarrow> byte list \<Rightarrow> byte list \<Rightarrow> ble_msg list" where
  "mc_encode op app cs x y =
     (let bs = mc_bodies 0 cs x;
          sz = length (concat cs)
      in mc_msg app (mc_header op (length cs) sz @ hd bs) # map (mc_msg app) (tl bs) @
         (if y = [] then [] else [mc_msg app y]))"

primrec parse_chunks ::
  "(byte list \<Rightarrow> 32 word) \<Rightarrow> (nat \<Rightarrow> byte list option) \<Rightarrow> ble_msg list \<Rightarrow> multichunk_parser \<Rightarrow>
   (multichunk_parser \<times> ble_multichunk_msg list) option" where
  "parse_chunks crc32 malloc [] p = Some (p, [])"
| "parse_chunks crc32 malloc (m # ms) p =
     do { (p1, out) \<leftarrow> parse_new_chunk crc32 malloc (Some m) True p;
          (p2, outs) \<leftarrow> parse_chunks crc32 malloc ms p1;
          Some (p2, (case out of None \<Rightarrow> outs | Some x \<Rightarrow> x # outs)) }"

lemma mc_msg_simps:
  assumes "length bs \<le> 250"
  shows "unat (h_len (m_hdr (mc_msg app bs))) = length bs" and "ble_msg_ok (mc_msg app bs)"
    and "take (length bs) (m_payload (mc_msg app bs)) = bs" and "h_req_app (m_hdr (mc_msg app bs)) = app"
  using assms by (simp_all add: mc_msg_def u8_id ble_msg_ok_def ble_msg_typed_def ble_consts)

text \<open>The parser between chunks \<open>k\<close> and \<open>k + 1\<close>, with the data received so far; and in the CRC.\<close>

definition mc_at ::
  "byte \<Rightarrow> byte \<Rightarrow> nat \<Rightarrow> nat \<Rightarrow> nat \<Rightarrow> byte list \<Rightarrow> multichunk_parser \<Rightarrow> bool" where
  "mc_at op app n sz k got p \<longleftrightarrow>
     mp_ok p \<and> mp_state p = PARSER_STATE_READ_CHUNKS \<and> k < 256 \<and> n < 256 \<and>
     mp_hdr p = \<lparr>mh_opcode = op, mh_total_chunks = byte_of n, mh_total_size = sz\<rparr> \<and>
     mp_req_app p = app \<and> mp_curr_chunk_id p = byte_of k \<and> mp_read_size p = length got \<and>
     (\<exists>d. mp_out_data p = Some d \<and> take (length got) d = got)"

definition mc_in_crc ::
  "byte \<Rightarrow> byte \<Rightarrow> byte list \<Rightarrow> byte list \<Rightarrow> multichunk_parser \<Rightarrow> bool" where
  "mc_in_crc op app got x p \<longleftrightarrow>
     mp_ok p \<and> mp_state p = PARSER_STATE_READ_CRC \<and> mh_opcode (mp_hdr p) = op \<and>
     mh_total_size (mp_hdr p) = length got \<and> mp_req_app p = app \<and>
     mp_read_size p = length x \<and> mp_crc p = crc_acc 0 0 x \<and> mp_out_data p = Some got"

definition mc_result :: "byte \<Rightarrow> byte \<Rightarrow> byte list \<Rightarrow> ble_multichunk_msg" where
  "mc_result op app data =
     \<lparr>mm_opcode = op, mm_req_app = app, mm_len = length data, mm_data = Some data\<rparr>"

text \<open>CRC bytes \<open>z\<close> at the end of a message: collected, and the message delivered when complete.\<close>

lemma chunk_crc_collect:
  assumes p: "mc_in_crc op app got x p" and "bs = pre @ z" and "length bs \<le> 250"
    and len: "length x + length z \<le> 4" and w: "length x + length z = 4 \<Longrightarrow> crc_acc 0 0 (x @ z) = crc32 got"
  shows "\<exists>p1. chunk_crc crc32 (mc_msg app bs) (length pre) p =
           Some (p1, if length x + length z = 4 then Some (mc_result op app got) else None) \<and>
         (length x + length z < 4 \<longrightarrow> mc_in_crc op app got (x @ z) p1)"
proof -
  note m = mc_msg_simps [OF assms(3), of app]
  have k: "length x < 4"
    using p by (auto simp: mc_in_crc_def mp_ok_def)
  have "take (length z) (drop (length pre) (m_payload (mc_msg app bs))) = z"
    using assms(2) by (simp add: mc_msg_def)
  moreover have "min (4 - length x) (length bs - length pre) = length z"
    using assms(2) len by simp
  ultimately have c: "crc_loop (m_payload (mc_msg app bs)) (length bs) (length pre) (length x)
      (crc_acc 0 0 x) = Some (length pre + length z, length x + length z, crc_acc 0 0 (x @ z))"
    using crc_loop_eq [of "length bs" "m_payload (mc_msg app bs)" "length x" "length pre"] k
    by (simp add: crc_acc_append mc_msg_def)
  show ?thesis
  proof (cases "length x + length z = 4")
    case True
    then show ?thesis
      using p c w assms(2) m(1)
      by (simp add: chunk_crc_def mc_in_crc_def mem_simps mc_result_def)
  next
    case False
    then show ?thesis
      using p c len m(1) by (auto simp: chunk_crc_def mc_in_crc_def mp_ok_def mp_hdr_ok_def)
  qed
qed

definition chunk_tail ::
  "(byte list \<Rightarrow> 32 word) \<Rightarrow> ble_msg \<Rightarrow> multichunk_parser \<Rightarrow>
   (multichunk_parser \<times> ble_multichunk_msg option) option" where
  "chunk_tail crc32 chunk p =
     do { (p2, off) \<leftarrow> chunk_data chunk p;
          case off of None \<Rightarrow> Some (p2, None) | Some k \<Rightarrow> chunk_crc crc32 chunk k p2 }"

lemma parse_new_chunk_tail:
  "mp_state p \<noteq> PARSER_STATE_READ_HEADER \<Longrightarrow>
   parse_new_chunk crc32 malloc (Some m) True p = chunk_tail crc32 m p"
  by (simp add: parse_new_chunk_def chunk_start_def chunk_tail_def)

lemma byte_of_inj: "a < 256 \<Longrightarrow> b < 256 \<Longrightarrow> byte_of a = byte_of b \<longleftrightarrow> a = b"
  by (metis u8_id unat_byte_of)

lemma byte_of_Suc: "byte_of (Suc k) = byte_of k + 1"
  by (simp add: byte_of_def)

text \<open>Storing chunk \<open>k\<close>: either more chunks follow or the CRC does.\<close>

lemma chunk_data_stores:
  assumes p: "mc_at op app n sz k got p" and bs: "bs = pre @ byte_of k # c @ x" "length bs \<le> 250"
    and pre: "length pre = chunk_off p - 1" and c: "c \<noteq> []" and n: "Suc k \<le> n"
    and tot: "length got + length c \<le> sz" "length got + length c = sz \<longleftrightarrow> Suc k = n"
    and x: "Suc k = n \<or> x = []"
  shows "\<exists>p1. chunk_data (mc_msg app bs) p = Some (p1, Some (chunk_off p + length c)) \<and>
           (if Suc k = n then mc_in_crc op app (got @ c) [] p1
            else mc_at op app n sz (Suc k) (got @ c) p1)"
proof -
  note m = mc_msg_simps [OF bs(2), of app]
  have st: "mp_state p = PARSER_STATE_READ_CHUNKS" and ok: "mp_ok p" and kn: "k < 256" "n < 256"
    and hdr: "mp_hdr p = \<lparr>mh_opcode = op, mh_total_chunks = byte_of n, mh_total_size = sz\<rparr>"
    and id: "mp_curr_chunk_id p = byte_of k" and rs: "mp_read_size p = length got"
    and req: "mp_req_app p = app"
    using p by (simp_all add: mc_at_def)
  obtain d where d: "mp_out_data p = Some d" "take (length got) d = got" "length d = sz"
    using p by (auto simp: mc_at_def mp_ok_def mp_hdr_ok_def)
  have pos: "1 \<le> chunk_off p"
    by (simp add: chunk_off_def)
  then have lb: "length bs = chunk_off p + length c + length x"
    using bs(1) pre by simp
  have take: "chunk_take (mc_msg app bs) p = length c"
    using tot x lb m(1) by (auto simp: chunk_take_def hdr rs)
  have pay: "take (length c) (drop (chunk_off p) (m_payload (mc_msg app bs))) = c"
    "m_payload (mc_msg app bs) ! (chunk_off p - 1) = byte_of k"
  proof -
    have "m_payload (mc_msg app bs) = (pre @ [byte_of k]) @ c @ x @ replicate (250 - length bs) 0"
      and l: "length (pre @ [byte_of k]) = chunk_off p"
      using bs(1) pre pos by (simp_all add: mc_msg_def)
    then show "take (length c) (drop (chunk_off p) (m_payload (mc_msg app bs))) = c"
      by (simp only: drop_append take_append) simp
    show "m_payload (mc_msg app bs) ! (chunk_off p - 1) = byte_of k"
      using bs(1) pre by (simp add: mc_msg_def nth_append)
  qed
  let ?d = "got @ c @ drop (length got + length c) d"
  have last: "byte_of k + 1 = byte_of n \<longleftrightarrow> Suc k = n"
    using byte_of_inj [of "Suc k" n] n kn by (simp add: byte_of_Suc)
  have long: "\<not> length bs \<le> chunk_off p"
    using lb c by simp
  note eq = chunk_data_cases [OF st ok m(2) d(1), unfolded take pay m(1) rs d(2) hdr id, simplified last]
  show ?thesis
  proof (cases "Suc k = n")
    case True
    then have dd: "?d = got @ c"
      using tot d(3) by simp
    then show ?thesis
      using True eq tot long last ok st d(3) hdr req kn
      by (simp add: mc_in_crc_def chunk_stored_def rs mp_ok_def mp_hdr_ok_def)
  next
    case False
    then have k1: "Suc k < 256" "length got + length c < sz"
      using n kn tot by auto
    have eq1: "chunk_data (mc_msg app bs) p =
        Some (chunk_stored ?d (length c) p, Some (chunk_off p + length c))"
      using eq False tot long last k1 by simp
    then have "mp_ok (chunk_stored ?d (length c) p)"
      using chunk_data_ok [OF ok m(2)] st by auto
    then show ?thesis
      using False eq1 st hdr req kn k1
      by (simp add: mc_at_def chunk_stored_def rs id byte_of_Suc)
  qed
qed

text \<open>What the parser returns for one chunk message: nothing before the last, then the CRC part.\<close>

lemma chunk_tail_mid:
  assumes "mc_at op app n sz k got p" and "length (pre @ byte_of k # c) \<le> 250"
    and "length pre = chunk_off p - 1" and "c \<noteq> []" and "Suc k < n" and "length got + length c < sz"
  shows "\<exists>p1. chunk_tail crc32 (mc_msg app (pre @ byte_of k # c)) p = Some (p1, None) \<and>
           mc_at op app n sz (Suc k) (got @ c) p1"
proof -
  obtain p1 where "chunk_data (mc_msg app (pre @ byte_of k # c)) p =
      Some (p1, Some (chunk_off p + length c))" "mc_at op app n sz (Suc k) (got @ c) p1"
    using chunk_data_stores [OF assms(1) _ assms(2,3,4), of "[]"] assms(5,6) by auto
  then show ?thesis
    by (simp add: chunk_tail_def chunk_crc_def mc_at_def)
qed

lemma chunk_tail_last:
  assumes "mc_at op app n sz k got p" and len: "length (pre @ byte_of k # c @ x) \<le> 250"
    and pre: "length pre = chunk_off p - 1" and "c \<noteq> []" and "Suc k = n" and "length got + length c = sz"
    and xy: "x @ y = crc_bytes (crc32 (got @ c))"
  shows "\<exists>p1. chunk_tail crc32 (mc_msg app (pre @ byte_of k # c @ x)) p =
             Some (p1, if y = [] then Some (mc_result op app (got @ c)) else None) \<and>
           (y \<noteq> [] \<longrightarrow> mc_in_crc op app (got @ c) x p1)"
proof -
  obtain p1 where p1: "chunk_data (mc_msg app (pre @ byte_of k # c @ x)) p =
      Some (p1, Some (chunk_off p + length c))" "mc_in_crc op app (got @ c) [] p1"
    using chunk_data_stores [OF assms(1) refl len pre assms(4)] assms(5,6) by auto
  have off: "chunk_off p + length c = length (pre @ byte_of k # c)"
    using pre by (simp add: chunk_off_def)
  have l: "length x + length y = 4"
    using arg_cong [OF xy, of length] by (simp add: crc_bytes_def)
  have w: "crc_acc 0 0 ([] @ x) = crc32 (got @ c)" if "length ([] :: byte list) + length x = 4"
    using that l xy crc_acc_crc_bytes [of "crc32 (got @ c)"] by simp
  obtain p2 where "chunk_crc crc32 (mc_msg app (pre @ byte_of k # c @ x)) (chunk_off p + length c) p1 =
      Some (p2, if length x = 4 then Some (mc_result op app (got @ c)) else None)"
    "length x < 4 \<longrightarrow> mc_in_crc op app (got @ c) x p2"
    using chunk_crc_collect [where pre = "pre @ byte_of k # c" and z = x and x = "[]" and ?crc32.0 = crc32 and
        got = "got @ c", OF p1(2) _ len _ w] l
    unfolding off by auto
  moreover have "length x = 4 \<longleftrightarrow> y = []" and "y \<noteq> [] \<Longrightarrow> length x < 4"
    using l by (cases y; simp)+
  ultimately show ?thesis
    using p1(1) by (auto simp: chunk_tail_def)
qed

lemma parse_crc_rest:
  assumes "mc_in_crc op app got x p" and xy: "x @ y = crc_bytes (crc32 got)"
  shows "\<exists>p1. parse_chunks crc32 malloc [mc_msg app y] p = Some (p1, [mc_result op app got])"
proof -
  have l: "length x + length y = 4"
    using arg_cong [OF xy, of length] by (simp add: crc_bytes_def)
  have "\<exists>p1. chunk_crc crc32 (mc_msg app y) (length ([] :: byte list)) p =
      Some (p1, if length x + length y = 4 then Some (mc_result op app got) else None) \<and>
      (length x + length y < 4 \<longrightarrow> mc_in_crc op app got (x @ y) p1)"
    by (rule chunk_crc_collect [OF assms(1)])
      (use l crc_acc_crc_bytes in \<open>simp_all add: xy\<close>)
  then show ?thesis
    using assms(1) l
    by (auto simp: parse_new_chunk_tail mc_in_crc_def chunk_tail_def chunk_data_def)
qed

lemma parse_bodies:
  assumes "mc_at op app n sz k got p" and "k \<noteq> 0" and "cs \<noteq> []" and "n = k + length cs"
    and "sz = length got + length (concat cs)" and "\<forall>c \<in> set cs. c \<noteq> []"
    and "\<forall>b \<in> set (mc_bodies k cs x). length b \<le> 250"
    and "x @ y = crc_bytes (crc32 (got @ concat cs))"
  shows "\<exists>p1. parse_chunks crc32 malloc
           (map (mc_msg app) (mc_bodies k cs x) @ (if y = [] then [] else [mc_msg app y])) p =
         Some (p1, [mc_result op app (got @ concat cs)])"
  using assms
proof (induction k cs x arbitrary: got p rule: mc_bodies.induct)
  case (1 k x)
  then show ?case
    by simp
next
  case (2 k c x)
  have st: "mp_state p \<noteq> PARSER_STATE_READ_HEADER" and off: "chunk_off p = 1"
    using "2.prems"(1,2) byte_of_inj [of k 0] by (auto simp: mc_at_def chunk_off_def byte_of_def)
  obtain p1 where "chunk_tail crc32 (mc_msg app (byte_of k # c @ x)) p =
      Some (p1, if y = [] then Some (mc_result op app (got @ c)) else None)"
    "y \<noteq> [] \<longrightarrow> mc_in_crc op app (got @ c) x p1"
    using chunk_tail_last [OF "2.prems"(1), of "[]" c x y crc32] "2.prems" off by auto
  then show ?case
    using parse_crc_rest [of op app "got @ c" x p1 y crc32 malloc] "2.prems"(8)
    by (cases "y = []") (auto simp: parse_new_chunk_tail [OF st])
next
  case (3 k c d cs x)
  have st: "mp_state p \<noteq> PARSER_STATE_READ_HEADER" and off: "chunk_off p = 1"
    using "3.prems"(1,2) byte_of_inj [of k 0] by (auto simp: mc_at_def chunk_off_def byte_of_def)
  have "length d > 0"
    using "3.prems"(6) by simp
  then obtain p1 where t: "chunk_tail crc32 (mc_msg app (byte_of k # c)) p = Some (p1, None)"
    "mc_at op app n sz (Suc k) (got @ c) p1"
    using chunk_tail_mid [OF "3.prems"(1), of "[]" c crc32] "3.prems" off by auto
  then show ?case
    using "3.IH" [of "got @ c" p1] "3.prems" by (auto simp: parse_new_chunk_tail [OF st])
qed

lemma parse_first_header:
  assumes "malloc sz = Some d" and "length d = sz" and "0 < sz" and "sz \<le> 2048" and "0 < n" and "n < 256"
    and "6 < length (mc_header op n sz @ body)" and len: "length (mc_header op n sz @ body) \<le> 250"
  shows "\<exists>p1. parse_new_chunk crc32 malloc (Some (mc_msg app (mc_header op n sz @ body))) True mp_start =
           chunk_tail crc32 (mc_msg app (mc_header op n sz @ body)) p1 \<and>
         mc_at op app n sz 0 [] p1 \<and> chunk_off p1 = 6"
proof -
  let ?m = "mc_msg app (mc_header op n sz @ body)"
  let ?h = "\<lparr>mh_opcode = op, mh_total_chunks = byte_of n, mh_total_size = sz\<rparr>"
  let ?p = "mp_start\<lparr>mp_hdr := ?h, mp_req_app := app, mp_state := PARSER_STATE_READ_CHUNKS,
                     mp_out_data := Some d\<rparr>"
  note m = mc_msg_simps [OF len, of app]
  have "rd (m_payload ?m) 0 = Some BLE_MULTICHUNK_MAGIC" "rd (m_payload ?m) 1 = Some op"
    "rd (m_payload ?m) 2 = Some (byte_of n)" "rd (m_payload ?m) 3 = Some (byte_of (sz div 256))"
    "rd (m_payload ?m) 4 = Some (byte_of (sz mod 256))"
    by (simp_all add: rd_def mc_msg_def mc_header_def)
  moreover have u: "256 * unat (byte_of (sz div 256)) + unat (byte_of (sz mod 256)) = sz"
    using assms(4) by (simp add: u8_id)
  moreover have "0 < unat (byte_of (sz div 256)) \<or> 0 < unat (byte_of (sz mod 256))"
    using u assms(3) by (metis add_0 mult_0_right neq0_conv)
  moreover have n: "byte_of n \<noteq> 0"
    using byte_of_inj [of n 0] assms(5,6) by (auto simp: byte_of_def)
  ultimately have "read_multichunk_header mp_start ?m = Some (True, mp_start\<lparr>mp_hdr := ?h\<rparr>)"
    using m(1) assms(3,4,7,8)
    by (simp add: read_multichunk_header_def mp_start_def ble_consts BLE_MAX_MULTICHUNK_SIZE_def)
  then have "chunk_start malloc ?m mp_start = Some (?p, True)"
    using assms(1) m(4) by (simp add: chunk_start_def mp_start_def)
  then show ?thesis
    using assms n
    by (intro exI [of _ ?p])
      (simp add: parse_new_chunk_def chunk_tail_def mc_at_def mp_ok_def mp_hdr_ok_def mp_start_def
        chunk_off_def byte_of_def BLE_MAX_MULTICHUNK_SIZE_def unat_gt_0)
qed

text \<open>
  C4: a large message is reassembled. For every opcode, requesting application and non-empty chunks of
  at most 2048 bytes in total that fit their messages, however the CRC is split between the last chunk
  and a trailing message, the parser started in its initial state hands exactly one message to the
  response handler, with the sender's opcode and application and the concatenation of the chunks as
  data, provided the CRC sent is the one the ROM function computes for it.
\<close>

theorem multichunk_roundtrip:
  assumes "cs \<noteq> []" and "\<forall>c \<in> set cs. c \<noteq> []" and "length cs < 256" and "length (concat cs) \<le> 2048"
    and "length (hd (mc_bodies 0 cs x)) \<le> 245" and "\<forall>b \<in> set (tl (mc_bodies 0 cs x)). length b \<le> 250"
    and "x @ y = crc_bytes (crc32 (concat cs))"
    and "malloc_spec malloc" and "malloc (length (concat cs)) \<noteq> None"
  shows "\<exists>p. parse_chunks crc32 malloc (mc_encode op app cs x y) mp_start =
           Some (p, [\<lparr>mm_opcode = op, mm_req_app = app, mm_len = length (concat cs),
                      mm_data = Some (concat cs)\<rparr>])"
proof -
  let ?sz = "length (concat cs)" and ?n = "length cs"
  obtain c cs' where cs: "cs = c # cs'"
    using assms(1) by (cases cs) auto
  obtain d where d: "malloc ?sz = Some d" "length d = ?sz"
    using assms(8,9) by (auto simp: malloc_spec_def)
  have c0: "c \<noteq> []"
    using assms(2) cs by simp
  have pos: "0 < ?sz" "0 < ?n"
    using c0 cs by auto
  show ?thesis
  proof (cases cs')
    case Nil
    let ?body = "byte_of 0 # c @ x"
    have hl: "length (mc_header op ?n ?sz @ ?body) \<le> 250" "6 < length (mc_header op ?n ?sz @ ?body)"
      using assms(5) c0 by (simp_all add: cs Nil mc_header_def)
    obtain p1 where p1: "parse_new_chunk crc32 malloc (Some (mc_msg app (mc_header op ?n ?sz @ ?body)))
        True mp_start = chunk_tail crc32 (mc_msg app (mc_header op ?n ?sz @ ?body)) p1"
      "mc_at op app ?n ?sz 0 [] p1" "chunk_off p1 = 6"
      using parse_first_header [of malloc, OF d pos(1) assms(4) pos(2) assms(3) hl(2,1)] by blast
    have "length (mc_header op ?n ?sz) = chunk_off p1 - 1"
      using p1(3) by (simp add: mc_header_def)
    then have "\<exists>p2. chunk_tail crc32 (mc_msg app (mc_header op ?n ?sz @ ?body)) p1 =
        Some (p2, if y = [] then Some (mc_result op app ([] @ c)) else None) \<and>
        (y \<noteq> [] \<longrightarrow> mc_in_crc op app ([] @ c) x p2)"
      using assms(7) by (intro chunk_tail_last [OF p1(2) hl(1) _ c0]) (simp_all add: cs Nil)
    then obtain p2 where "chunk_tail crc32 (mc_msg app (mc_header op ?n ?sz @ ?body)) p1 =
        Some (p2, if y = [] then Some (mc_result op app c) else None)"
      "y \<noteq> [] \<longrightarrow> mc_in_crc op app c x p2"
      by auto
    then show ?thesis
      using p1(1) parse_crc_rest [of op app c x p2 y crc32 malloc] assms(7)
      by (cases "y = []") (auto simp: mc_encode_def cs Nil mc_result_def)
  next
    case (Cons c2 cs2)
    let ?body = "byte_of 0 # c"
    have hl: "length (mc_header op ?n ?sz @ ?body) \<le> 250" "6 < length (mc_header op ?n ?sz @ ?body)"
      using assms(5) c0 by (simp_all add: cs Cons mc_header_def)
    obtain p1 where p1: "parse_new_chunk crc32 malloc (Some (mc_msg app (mc_header op ?n ?sz @ ?body)))
        True mp_start = chunk_tail crc32 (mc_msg app (mc_header op ?n ?sz @ ?body)) p1"
      "mc_at op app ?n ?sz 0 [] p1" "chunk_off p1 = 6"
      using parse_first_header [of malloc, OF d pos(1) assms(4) pos(2) assms(3) hl(2,1)] by blast
    have "length (mc_header op ?n ?sz) = chunk_off p1 - 1" "c2 \<noteq> []"
      using p1(3) assms(2) by (simp_all add: mc_header_def cs Cons)
    then obtain p2 where "chunk_tail crc32 (mc_msg app (mc_header op ?n ?sz @ ?body)) p1 = Some (p2, None)"
      "mc_at op app ?n ?sz (Suc 0) c p2"
      using chunk_tail_mid [OF p1(2) hl(1) _ c0, of crc32] by (auto simp: cs Cons)
    then show ?thesis
      using p1(1) parse_bodies [of op app ?n ?sz "Suc 0" c p2 cs' x y crc32 malloc] assms(2,6,7)
      by (auto simp: mc_encode_def cs Cons mc_result_def)
  qed
qed

theorem multichunk_roundtrip_witness:
  "\<exists>p. parse_chunks (\<lambda>d. 0x01020304) malloc_zero (mc_encode 5 7 [[1, 2], [3]] [1] [2, 3, 4]) mp_start =
     Some (p, [\<lparr>mm_opcode = 5, mm_req_app = 7, mm_len = 3, mm_data = Some [1, 2, 3]\<rparr>])"
  using multichunk_roundtrip [of "[[1, 2], [3]]" "[1]" "[2, 3, 4]" "\<lambda>d. 0x01020304" malloc_zero 5 7]
    malloc_zero_spec
  by (simp add: malloc_zero_def crc_bytes_def numeral_3_eq_3)

end
