(* ===== verification/Ble_Response.thy ===== *)
theory Ble_Response
  imports Ble_Multichunk Common_Types
begin

text \<open>
  Messages from the phone (\<open>ble_response_handler.c\<close>): time, weather and notification payloads are
  decoded and published on the event bus, multi-chunk messages go to the multi-chunk parser. Shifted
  bytes are combined with \<open>|\<close> in the source; the bytes do not overlap, so the model adds them.

  The state is the event bus extended with the static multi-chunk parser. \<open>call\<close> runs a subscribed
  handler, as in the event manager; \<open>garbage\<close> is the content of uninitialised stack objects.
\<close>

section \<open>Payload decoding\<close>

definition be16 :: "byte \<Rightarrow> byte \<Rightarrow> nat" where
  "be16 a b = 256 * unat a + unat b"

definition be32 :: "byte \<Rightarrow> byte \<Rightarrow> byte \<Rightarrow> byte \<Rightarrow> nat" where
  "be32 a b c d = 16777216 * unat a + 65536 * unat b + 256 * unat c + unat d"

text \<open>One iteration of the weather loop at index \<open>idx\<close>.\<close>

definition parse_hour :: "byte list \<Rightarrow> nat \<Rightarrow> hourly_weather option" where
  "parse_hour payload idx =
     do {
       t1 \<leftarrow> rd payload idx;
       t0 \<leftarrow> rd payload (idx + 1);
       h \<leftarrow> rd payload (idx + 2);
       p \<leftarrow> rd payload (idx + 3);
       c \<leftarrow> rd payload (idx + 4);
       w \<leftarrow> rd payload (idx + 5);
       Some \<lparr>temperature = s16 (be16 t1 t0), humidity = h, precip_prob = p, weather_code = c, wind_speed = w\<rparr>
     }"

primrec parse_hours :: "byte list \<Rightarrow> nat \<Rightarrow> nat \<Rightarrow> hourly_weather list option" where
  "parse_hours payload idx 0 = Some []"
| "parse_hours payload idx (Suc n) =
     do { h \<leftarrow> parse_hour payload idx; hs \<leftarrow> parse_hours payload (idx + 6) n; Some (h # hs) }"

definition parse_weather_payload :: "byte list \<Rightarrow> weather_sync option" where
  "parse_weather_payload payload =
     do {
       a \<leftarrow> rd payload 0; b \<leftarrow> rd payload 1; c \<leftarrow> rd payload 2; d \<leftarrow> rd payload 3;
       hs \<leftarrow> parse_hours payload 4 24;
       Some \<lparr>expires_at = be32 a b c d, hourly_today = hs\<rparr>
     }"

definition parse_date_time_payload :: "byte list \<Rightarrow> nat option" where
  "parse_date_time_payload payload =
     do { a \<leftarrow> rd payload 0; b \<leftarrow> rd payload 1; c \<leftarrow> rd payload 2; d \<leftarrow> rd payload 3; Some (be32 a b c d) }"

text \<open>
  \<open>extract_lean_string\<close>: the result is \<open>None\<close> for \<open>false\<close>, otherwise the new index and the destination
  array; the outer option is an access outside an array.
\<close>

definition extract_lean_string ::
  "byte list \<Rightarrow> nat \<Rightarrow> nat \<Rightarrow> byte list \<Rightarrow> nat \<Rightarrow> (nat \<times> byte list) option option" where
  "extract_lean_string payload payload_len idx dest dest_max =
     (if idx \<ge> payload_len then Some None
      else do {
        b \<leftarrow> rd payload idx;
        let str_len = unat b;
        let idx1 = u16 (idx + 1);
        if idx1 + str_len > payload_len then Some None
        else do {
          let copy_bytes = (if str_len < dest_max - 1 then str_len else dest_max - 1);
          bs \<leftarrow> mem_read payload idx1 copy_bytes;
          dest1 \<leftarrow> mem_write dest 0 bs;
          dest2 \<leftarrow> mem_write dest1 copy_bytes [0];
          Some (Some (u16 (idx1 + str_len), dest2))
        }
      })"

definition BLE_MSG_TIME_SIZE :: nat where "BLE_MSG_TIME_SIZE = 4"
definition BLE_MSG_WEATHER_SIZE :: nat where "BLE_MSG_WEATHER_SIZE = 148"
definition BLE_MSG_MIN_NOTIFICATION_SIZE :: nat where "BLE_MSG_MIN_NOTIFICATION_SIZE = 5"

lemmas msg_sizes =
  BLE_MSG_TIME_SIZE_def BLE_MSG_WEATHER_SIZE_def BLE_MSG_MIN_NOTIFICATION_SIZE_def

definition parse_notification_payload ::
  "byte list \<Rightarrow> nat \<Rightarrow> notification \<Rightarrow> notification option option" where
  "parse_notification_payload payload len dest =
     (if len < BLE_MSG_MIN_NOTIFICATION_SIZE then Some None
      else do {
        b \<leftarrow> rd payload 0;
        let d1 = dest\<lparr>n_app := phone_app_of (unat b)\<rparr>;
        r1 \<leftarrow> extract_lean_string payload len 1 (n_app_name d1) MAX_NOTIFICATION_TITLE_SIZE;
        case r1 of
          None \<Rightarrow> Some None
        | Some (idx, name) \<Rightarrow> do {
            r2 \<leftarrow> extract_lean_string payload len idx (n_body d1) MAX_NOTIFICATION_BODY_SIZE;
            case r2 of
              None \<Rightarrow> Some None
            | Some (idx2, body) \<Rightarrow>
                Some (Some (d1\<lparr>n_app_name := name, n_body := body,
                               n_action_handler := False, n_dismiss_handler := False\<rparr>))
          }
      })"

section \<open>Dispatch\<close>

record 'h ble_sys = "'h event_mgr" +
  bs_parser :: multichunk_parser

text \<open>\<open>handle_ble_multichunk_response\<close> frees the data of every message: no opcode is handled yet.\<close>

definition handle_ble_multichunk_response :: "ble_multichunk_msg option \<Rightarrow> ble_multichunk_msg option" where
  "handle_ble_multichunk_response msgp = map_option (\<lambda>m. m\<lparr>mm_data := None\<rparr>) msgp"

text \<open>The array copied into an application update: the hours as they lie in memory.\<close>

definition hourly_bytes :: "hourly_weather \<Rightarrow> byte list" where
  "hourly_bytes h =
     [byte_of (u16_of_int (temperature h)), byte_of (u16_of_int (temperature h) div 256),
      humidity h, precip_prob h, weather_code h, wind_speed h]"

type_synonym ('h, 'z) sys_call =
  "'h \<Rightarrow> sys_event \<Rightarrow> ('h, 'z) ble_sys_scheme \<Rightarrow> ('h, 'z) ble_sys_scheme"

definition publish_data ::
  "('h, 'z) sys_call \<Rightarrow> event_id \<Rightarrow> nat \<Rightarrow> event_data \<Rightarrow> ('h, 'z) ble_sys_scheme \<Rightarrow>
   (bool \<times> ('h, 'z) ble_sys_scheme) option" where
  "publish_data call e n d s =
     event_publish call (Some \<lparr>ev = e, ev_payload_len = n, ev_data = d\<rparr>) s"

definition handle_ble_response ::
  "('h, 'z) sys_call \<Rightarrow> (byte list \<Rightarrow> 32 word) \<Rightarrow> (nat \<Rightarrow> byte list option) \<Rightarrow> notification \<Rightarrow> byte list \<Rightarrow>
   ble_msg option \<Rightarrow> ('h, 'z) ble_sys_scheme \<Rightarrow> (bool \<times> ('h, 'z) ble_sys_scheme) option" where
  "handle_ble_response call crc32 malloc garbage_n garbage_data msgp s =
     (case msgp of
        None \<Rightarrow> Some (False, s)
      | Some msg \<Rightarrow>
          let op = h_opcode (m_hdr msg); n = unat (h_len (m_hdr msg)) in
          if op = BLE_OP_TIME_UPDATE then
            if n = BLE_MSG_TIME_SIZE then do {
              t \<leftarrow> parse_date_time_payload (m_payload msg);
              publish_data call EVENT_TIME_SYNC 4 (Data_time t) s
            }
            else Some (False, s)
          else if op = BLE_OP_WEATHER_UPDATE then
            if n = BLE_MSG_WEATHER_SIZE then do {
              w \<leftarrow> parse_weather_payload (m_payload msg);
              publish_data call EVENT_WEATHER_SYNC sizeof_weather_sync (Data_weather w) s
            }
            else Some (False, s)
          else if op = BLE_OP_DATED_WEATHER_QUERY then
            if n = BLE_MSG_WEATHER_SIZE then do {
              w \<leftarrow> parse_weather_payload (m_payload msg);
              d \<leftarrow> mem_write garbage_data 0 (concat (map hourly_bytes (hourly_today w)));
              publish_data call EVENT_APP_WORK_SCHEDULE sizeof_app_update
                (Data_app_update \<lparr>au_req = DATED_WEATHER_REQUEST, au_req_app = h_req_app (m_hdr msg),
                                  au_data = d\<rparr>) s
            }
            else Some (False, s)
          else if op = BLE_OP_NOTIFICATION_SEND then
            if n \<ge> BLE_MSG_MIN_NOTIFICATION_SIZE then do {
              r \<leftarrow> parse_notification_payload (m_payload msg) n garbage_n;
              case r of
                None \<Rightarrow> Some (False, s)
              | Some nt \<Rightarrow>
                  publish_data call EVENT_NOTIFICATION_RECEIVED sizeof_notification (Data_notification nt) s
            }
            else Some (False, s)
          else if op = BLE_OP_MULTICHUNK_SEND then do {
            (p, out) \<leftarrow> parse_new_chunk crc32 malloc (Some msg) True (bs_parser s);
            let done = handle_ble_multichunk_response out;
            Some (True, s\<lparr>bs_parser := p\<rparr>)
          }
          else Some (False, s))"

section \<open>Decoding is total and inverts the documented layout\<close>

lemma parse_hours_total:
  "idx + 6 * n \<le> length payload \<Longrightarrow> \<exists>hs. parse_hours payload idx n = Some hs \<and> length hs = n"
proof (induction n arbitrary: idx)
  case (Suc n)
  have "idx + 6 + 6 * n \<le> length payload"
    using Suc.prems by simp
  then obtain hs where "parse_hours payload (idx + 6) n = Some hs" "length hs = n"
    using Suc.IH by blast
  then show ?case
    using Suc.prems by (simp add: parse_hour_def rd_def)
qed simp

lemma parse_weather_total:
  assumes "148 \<le> length payload"
  shows "\<exists>w. parse_weather_payload payload = Some w \<and> length (hourly_today w) = 24"
  using parse_hours_total [of 4 24 payload] assms by (auto simp: parse_weather_payload_def rd_def)

definition be32_bytes :: "nat \<Rightarrow> byte list" where
  "be32_bytes n = [byte_of (n div 16777216), byte_of (n div 65536), byte_of (n div 256), byte_of n]"

lemma be32_roundtrip:
  assumes "n < 4294967296"
  shows "be32 (byte_of (n div 16777216)) (byte_of (n div 65536)) (byte_of (n div 256)) (byte_of n) = n"
proof -
  define a b c where "a = n div 256" and "b = a div 256" and "c = b div 256"
  have d: "n div 65536 = b" "n div 16777216 = c" "n div 256 = a"
    by (simp_all add: a_def b_def c_def div_mult2_eq [symmetric])
  have c: "c < 256"
    using assms by (simp add: a_def b_def c_def div_mult2_eq [symmetric] less_mult_imp_div_less)
  have "n = 256 * a + n mod 256" "a = 256 * b + a mod 256" "b = 256 * c + b mod 256"
    by (simp_all add: a_def b_def c_def)
  then have "n = 16777216 * c + 65536 * (b mod 256) + 256 * (a mod 256) + n mod 256"
    by linarith
  then show ?thesis
    using c unfolding be32_def d by (simp add: u8_def)
qed

definition hour_wire :: "hourly_weather \<Rightarrow> byte list" where
  "hour_wire h =
     [byte_of (u16_of_int (temperature h) div 256), byte_of (u16_of_int (temperature h)),
      humidity h, precip_prob h, weather_code h, wind_speed h]"

definition weather_wire :: "weather_sync \<Rightarrow> byte list" where
  "weather_wire w = be32_bytes (expires_at w) @ concat (map hour_wire (hourly_today w))"

definition hour_ok :: "hourly_weather \<Rightarrow> bool" where
  "hour_ok h \<longleftrightarrow> -32768 \<le> temperature h \<and> temperature h < 32768"

lemma parse_hour_wire:
  assumes "hour_ok h" and "idx = length pre"
  shows "parse_hour (pre @ hour_wire h @ post) idx = Some h"
proof -
  have "u16_of_int (temperature h) div 256 < 256"
    using u16_of_int_less [of "temperature h"] by (simp add: less_mult_imp_div_less)
  then have "s16 (be16 (byte_of (u16_of_int (temperature h) div 256)) (byte_of (u16_of_int (temperature h)))) =
      s16 (u16_of_int (temperature h))"
    by (simp add: be16_def u8_def)
  also have "\<dots> = temperature h"
    using assms(1) by (intro s16_u16_of_int) (simp_all add: hour_ok_def)
  finally show ?thesis
    using assms(2) by (simp add: parse_hour_def rd_def hour_wire_def nth_append)
qed

lemma parse_hours_wire:
  assumes "\<forall>h \<in> set hs. hour_ok h" and "idx = length pre"
  shows "parse_hours (pre @ concat (map hour_wire hs) @ post) idx (length hs) = Some hs"
  using assms
proof (induction hs arbitrary: pre idx)
  case (Cons h hs)
  have "parse_hours ((pre @ hour_wire h) @ concat (map hour_wire hs) @ post) (idx + 6) (length hs) = Some hs"
    using Cons.prems by (intro Cons.IH) (simp_all add: hour_wire_def)
  then show ?case
    using Cons.prems parse_hour_wire [of h idx pre "concat (map hour_wire hs) @ post"] by simp
qed simp

text \<open>
  The weather decoder inverts the documented wire layout: for every expiry time and 24 hours with
  temperatures in the 16-bit range, encoding them as the layout comment says and decoding the payload
  yields the same forecast, whatever follows in the payload array; negative temperatures included.
\<close>

lemma weather_roundtrip:
  assumes "expires_at w < 4294967296" and "length (hourly_today w) = 24"
    and "\<forall>h \<in> set (hourly_today w). hour_ok h"
  shows "parse_weather_payload (weather_wire w @ rest) = Some w"
proof -
  let ?n = "expires_at w"
  have "parse_hours (be32_bytes ?n @ concat (map hour_wire (hourly_today w)) @ rest) 4 24 =
      Some (hourly_today w)"
    using parse_hours_wire [OF assms(3), of 4 "be32_bytes ?n" rest] assms(2) by (simp add: be32_bytes_def)
  then show ?thesis
    using be32_roundtrip [OF assms(1)]
    by (simp add: parse_weather_payload_def weather_wire_def be32_bytes_def rd_def)
qed

lemma weather_roundtrip_witness:
  "parse_weather_payload (weather_wire \<lparr>expires_at = 1700000000,
      hourly_today = replicate 24 \<lparr>temperature = -55, humidity = 80, precip_prob = 10,
        weather_code = 3, wind_speed = 12\<rparr>\<rparr> @ [1, 2]) =
   Some \<lparr>expires_at = 1700000000,
      hourly_today = replicate 24 \<lparr>temperature = -55, humidity = 80, precip_prob = 10,
        weather_code = 3, wind_speed = 12\<rparr>\<rparr>"
  using weather_roundtrip [of "\<lparr>expires_at = 1700000000,
      hourly_today = replicate 24 \<lparr>temperature = -55, humidity = 80, precip_prob = 10,
        weather_code = 3, wind_speed = 12\<rparr>\<rparr>" "[1, 2]"]
  by (simp add: hour_ok_def)

section \<open>Notifications\<close>

text \<open>A C string in an array: the bytes before the first terminator.\<close>

definition c_string :: "byte list \<Rightarrow> byte list" where
  "c_string bs = takeWhile (\<lambda>b. b \<noteq> 0) bs"

lemma extract_lean_string_safe:
  assumes "payload_len \<le> length payload" and "payload_len < 256" and "length dest = dest_max" and "0 < dest_max"
  shows "\<exists>r. extract_lean_string payload payload_len idx dest dest_max = Some r \<and>
           (\<forall>i d. r = Some (i, d) \<longrightarrow> length d = dest_max \<and> i \<le> payload_len \<and> (0 :: byte) \<in> set d)"
proof (cases "idx \<ge> payload_len \<or> idx + 1 + unat (payload ! idx) > payload_len")
  case True
  then show ?thesis
    using assms(1,2) by (auto simp: extract_lean_string_def rd_def u16_id Let_def)
next
  case False
  define n where "n = unat (payload ! idx)"
  define c where "c = (if n < dest_max - 1 then n else dest_max - 1)"
  have idx: "idx + 1 + n \<le> payload_len" "idx < payload_len" "c \<le> n" "c < dest_max"
    using False assms(4) by (auto simp: n_def c_def)
  let ?bs = "take c (drop (idx + 1) payload)"
  have r: "rd payload idx = Some (payload ! idx)" "mem_read payload (idx + 1) c = Some ?bs"
    using idx assms(1) by (simp_all add: rd_def mem_read_def)
  have lb: "length ?bs = c"
    using idx assms(1) by simp
  have "0 + length ?bs \<le> length dest"
    unfolding lb using idx(4) assms(3) by simp
  then obtain d1 where d1: "mem_write dest 0 ?bs = Some d1"
    unfolding mem_write_def by (simp only: if_True)
  then have d1: "mem_write dest 0 ?bs = Some d1" "length d1 = dest_max"
    using mem_write_length [OF d1] assms(3) by simp_all
  have d2: "mem_write d1 c [0] = Some (take c d1 @ [0] @ drop (c + 1) d1)"
    using d1(2) idx(4) by (simp add: mem_write_def)
  have "extract_lean_string payload payload_len idx dest dest_max =
      Some (Some (idx + 1 + n, take c d1 @ [0] @ drop (c + 1) d1))"
  proof -
    have b: "unat (payload ! idx) = n"
      by (simp add: n_def)
    have "\<not> payload_len \<le> idx" "\<not> payload_len < idx + 1 + n" "u16 (idx + 1) = idx + 1"
      "u16 (idx + 1 + n) = idx + 1 + n"
      using idx assms(2) by (simp_all add: u16_id)
    then show ?thesis
      unfolding extract_lean_string_def
      using r d1(1) d2 b c_def by (simp only: Let_def bind.bind_lunit if_False)
  qed
  then show ?thesis
    using idx d1(2) by simp
qed

lemma extract_lean_string_value:
  assumes p: "payload = pre @ byte_of (length str) # str @ post" and idx: "idx = length pre"
    and len: "length (pre @ byte_of (length str) # str) \<le> payload_len" "payload_len < 256"
    and d: "length dest = dest_max" "0 < dest_max" and nz: "0 \<notin> set str"
  shows "\<exists>dest'. extract_lean_string payload payload_len idx dest dest_max =
           Some (Some (idx + 1 + length str, dest')) \<and> length dest' = dest_max \<and>
         c_string dest' = take (dest_max - 1) str"
proof -
  define c where "c = (if length str < dest_max - 1 then length str else dest_max - 1)"
  have n: "unat (byte_of (length str)) = length str"
    using len by (simp add: u8_id)
  have c: "c \<le> length str" "c < dest_max" "take c str = take (dest_max - 1) str"
    using d(2) by (auto simp: c_def)
  have r: "rd payload idx = Some (byte_of (length str))" "mem_read payload (idx + 1) c = Some (take c str)"
    using c(1) by (simp_all add: p idx rd_def mem_read_def)
  have w1: "mem_write dest 0 (take c str) = Some (take c str @ drop c dest)"
    using c(1,2) d by (simp add: mem_write_def)
  have w2: "mem_write (take c str @ drop c dest) c [0] = Some (take c str @ 0 # drop (Suc c) dest)"
    using c(1,2) d by (simp add: mem_write_def)
  have u16a: "u16 (idx + 1) = idx + 1" and u16b: "u16 (idx + 1 + length str) = idx + 1 + length str"
    using len idx by (simp_all add: u16_id)
  have "\<not> payload_len \<le> idx" and "\<not> payload_len < idx + 1 + length str"
    using len idx by auto
  then have "extract_lean_string payload payload_len idx dest dest_max =
      Some (Some (idx + 1 + length str, take c str @ 0 # drop (Suc c) dest))"
    unfolding extract_lean_string_def
    using r w1 w2 n c_def by (simp only: Let_def bind.bind_lunit if_False u16a u16b)
  moreover have "c_string (take c str @ 0 # drop (Suc c) dest) = take c str"
    using nz by (auto simp: c_string_def takeWhile_append dest: in_set_takeD)
  moreover have "length (take c str @ 0 # drop (Suc c) dest) = dest_max"
    using c(1,2) d by simp
  ultimately show ?thesis
    unfolding c(3) [symmetric] by blast
qed

definition notification_wire :: "byte \<Rightarrow> byte list \<Rightarrow> byte list \<Rightarrow> byte list" where
  "notification_wire app name body =
     app # byte_of (length name) # name @ byte_of (length body) # body"

definition notif_typed :: "notification \<Rightarrow> bool" where
  "notif_typed n \<longleftrightarrow> length (n_app_name n) = 14 \<and> length (n_body n) = 100"

text \<open>
  A notification in the documented layout is decoded: the application, and the two texts cut to
  what fits the arrays (13 and 99 characters), terminated inside the array; the handlers are cleared.
\<close>

lemma notification_decoded:
  assumes "notif_typed n0" and "length (notification_wire app name body) < 256" and "0 \<notin> set name"
    and "0 \<notin> set body" and "5 \<le> length (notification_wire app name body)"
  shows "\<exists>n. parse_notification_payload (notification_wire app name body @ rest)
             (length (notification_wire app name body)) n0 = Some (Some n) \<and>
           n_app n = phone_app_of (unat app) \<and> c_string (n_app_name n) = take 13 name \<and>
           c_string (n_body n) = take 99 body \<and> length (n_app_name n) = 14 \<and> length (n_body n) = 100 \<and>
           \<not> n_action_handler n \<and> \<not> n_dismiss_handler n"
proof -
  let ?p = "notification_wire app name body @ rest" and ?len = "length (notification_wire app name body)"
  let ?d = "n0\<lparr>n_app := phone_app_of (unat app)\<rparr>"
  have l: "length name + length body + 3 = ?len"
    by (simp add: notification_wire_def)
  obtain name' where e1: "extract_lean_string ?p ?len 1 (n_app_name ?d) MAX_NOTIFICATION_TITLE_SIZE =
      Some (Some (1 + 1 + length name, name'))" "length name' = 14" "c_string name' = take 13 name"
    using extract_lean_string_value [of ?p "[app]" name "byte_of (length body) # body @ rest" 1 ?len
        "n_app_name ?d" 14] assms l
    by (auto simp: notification_wire_def notif_typed_def common_consts)
  obtain body' where e2: "extract_lean_string ?p ?len (1 + 1 + length name) (n_body ?d)
      MAX_NOTIFICATION_BODY_SIZE = Some (Some (1 + 1 + length name + 1 + length body, body'))"
    "length body' = 100" "c_string body' = take 99 body"
    using extract_lean_string_value [of ?p "app # byte_of (length name) # name" body rest
        "1 + 1 + length name" ?len "n_body ?d" 100] assms l
    by (auto simp: notification_wire_def notif_typed_def common_consts)
  have "rd ?p 0 = Some app"
    by (simp add: rd_def notification_wire_def)
  then show ?thesis
    using e1 e2 assms(5) by (simp add: parse_notification_payload_def msg_sizes)
qed

definition notif_zero :: notification where
  "notif_zero = \<lparr>n_app = UNKNOWN, n_app_name = replicate 14 0, n_body = replicate 100 0,
     n_action_name = replicate 15 0, n_dismiss_text = replicate 15 0,
     n_action_handler = False, n_dismiss_handler = False\<rparr>"

lemma notification_decoded_witness:
  "\<exists>n. parse_notification_payload (notification_wire 1 [72, 105] [79, 75] @ [7]) 7 notif_zero =
         Some (Some n) \<and> n_app n = MESSAGE \<and> c_string (n_app_name n) = [72, 105] \<and>
       c_string (n_body n) = [79, 75]"
proof -
  have l: "length (notification_wire 1 [72, 105] [79, 75]) = 7"
    by (simp add: notification_wire_def)
  have "notif_typed notif_zero" and "phone_app_of (unat (1 :: byte)) = MESSAGE"
    by (simp_all add: notif_typed_def notif_zero_def phone_app_of_def)
  then show ?thesis
    using notification_decoded [of notif_zero 1 "[72, 105]" "[79, 75]" "[7]"] unfolding l by auto
qed

lemma parse_notification_safe:
  assumes "len \<le> length payload" and "len < 256" and "notif_typed n0"
  shows "\<exists>r. parse_notification_payload payload len n0 = Some r"
proof (cases "len < BLE_MSG_MIN_NOTIFICATION_SIZE")
  case False
  let ?d = "n0\<lparr>n_app := phone_app_of (unat (payload ! 0))\<rparr>"
  have "0 < length payload"
    using False assms(1) unfolding msg_sizes by linarith
  then have r: "rd payload 0 = Some (payload ! 0)"
    by (simp add: rd_def)
  obtain r1 where r1: "extract_lean_string payload len 1 (n_app_name ?d) MAX_NOTIFICATION_TITLE_SIZE = Some r1"
    using extract_lean_string_safe [of len payload "n_app_name ?d" MAX_NOTIFICATION_TITLE_SIZE 1] assms
    by (auto simp: notif_typed_def common_consts)
  show ?thesis
  proof (cases r1)
    case None
    then show ?thesis
      using False r r1 by (simp add: parse_notification_payload_def)
  next
    case (Some p)
    obtain r2 where "extract_lean_string payload len (fst p) (n_body ?d) MAX_NOTIFICATION_BODY_SIZE = Some r2"
      using extract_lean_string_safe [of len payload "n_body ?d" MAX_NOTIFICATION_BODY_SIZE "fst p"] assms
      by (auto simp: notif_typed_def common_consts)
    then show ?thesis
      using False r r1 Some
      by (cases p; cases r2) (auto simp: parse_notification_payload_def split: prod.split)
  qed
qed (simp add: parse_notification_payload_def)

section \<open>Dispatch properties\<close>

lemma publish_data_runs:
  assumes "em_ok s" and "e \<noteq> EVENT_COUNT"
    and "\<And>h e t. em_subscriptions (call h e t) = em_subscriptions t"
  shows "publish_data call e n d s =
     Some (if em_initialized s
           then (True, fold (\<lambda>h. call h \<lparr>ev = e, ev_payload_len = n, ev_data = d\<rparr>) (subs s e) s)
           else (False, s))"
  using publish_loop_fold [of s "\<lparr>ev = e, ev_payload_len = n, ev_data = d\<rparr>" call 0] assms
    event_index_less [OF assms(2)]
  by (simp add: publish_data_def event_publish_def)

lemma publish_data_total:
  assumes "em_ok s" and "e \<noteq> EVENT_COUNT"
    and "\<And>h e t. em_subscriptions (call h e t) = em_subscriptions t"
  shows "\<exists>b s'. publish_data call e n d s = Some (b, s')"
  using publish_data_runs [OF assms] by auto

lemma length_hourly_concat: "length (concat (map hourly_bytes hs)) = 6 * length hs"
  by (induction hs) (simp_all add: hourly_bytes_def)

text \<open>
  Whatever well-formed message the phone sends, the response handler returns: no payload is read
  beyond its end, no destination array is overrun, no assertion of the multi-chunk parser fires, and
  the parser stays well formed (given an allocator that returns blocks of the requested size and event
  handlers that do not edit the subscription table).
\<close>

lemma ble_response_safe:
  fixes s :: "('h, 'z) ble_sys_scheme"
  assumes m: "ble_msg_ok msg" and p: "mp_ok (bs_parser s)" and a: "malloc_spec malloc"
    and g: "notif_typed garbage_n" "length garbage_data = MAX_APP_RESPONSE_SIZE"
    and em: "em_ok s" and c: "\<And>h e t. em_subscriptions (call h e t) = em_subscriptions t"
  shows "\<exists>b s'. handle_ble_response call crc32 malloc garbage_n garbage_data (Some msg) s = Some (b, s')"
proof -
  let ?n = "unat (h_len (m_hdr msg))"
  have len: "length (m_payload msg) = 250" "?n \<le> 250"
    using m by (simp_all add: ble_msg_ok_def ble_msg_typed_def ble_consts)
  note pub = publish_data_total [OF em _ c]
  obtain t where t: "parse_date_time_payload (m_payload msg) = Some t"
    using len by (simp add: parse_date_time_payload_def rd_def)
  obtain w where w: "parse_weather_payload (m_payload msg) = Some w" "length (hourly_today w) = 24"
    using parse_weather_total [of "m_payload msg"] len by auto
  obtain d where d: "mem_write garbage_data 0 (concat (map hourly_bytes (hourly_today w))) = Some d"
    using w(2) g(2) length_hourly_concat [of "hourly_today w"] by (simp add: mem_write_def common_consts)
  obtain r where r: "parse_notification_payload (m_payload msg) ?n garbage_n = Some r"
    using parse_notification_safe [of ?n "m_payload msg" garbage_n] len g(1) by auto
  obtain pr where pr: "parse_new_chunk crc32 malloc (Some msg) True (bs_parser s) = Some pr"
    using parse_new_chunk_total [OF p a m] by blast
  show ?thesis
    using pub t w d r pr
    by (auto simp: handle_ble_response_def Let_def split: option.split prod.split)
qed

definition sys_start :: "nat ble_sys" where
  "sys_start = \<lparr>em_subscriptions = replicate 14 empty_subscription, em_initialized = True,
     bs_parser = mp_start\<rparr>"

lemma sys_start_ok: "em_ok sys_start"
  by (auto simp: em_ok_def sys_start_def sub_ok_def empty_subscription_def)

lemma ble_response_safe_witness:
  "\<exists>b s'. handle_ble_response (\<lambda>h e t. t) (\<lambda>d. 0) malloc_zero notif_zero (replicate 220 0)
     (Some ble_msg_example) sys_start = Some (b, s')"
  using ble_response_safe [of ble_msg_example sys_start malloc_zero notif_zero "replicate 220 0"
      "\<lambda>h e t. t" "\<lambda>d. 0"] ble_msg_example_ok malloc_zero_spec mp_start_ok sys_start_ok
  by (simp add: sys_start_def notif_typed_def notif_zero_def common_consts)

end
