(* ===== verification/Ble_Manager.thy ===== *)
theory Ble_Manager
  imports Ble_Roundtrip Ble_Request Ble_Response
begin

text \<open>
  The BLE manager (\<open>ble_manager.c\<close>): connection state, the GAP event handler, the two hooks that the
  runtime runs (\<open>process_rx_buffers\<close>, \<open>populate_tx_buffers\<close>) and the receive callback.

  NimBLE is a parameter: what it is asked to do is the list of \<open>ble_effect\<close>s an operation returns,
  what it answers (allocation of a buffer, \<open>ble_gap_terminate\<close>, ...) is an argument. The two
  \<open>while\<close> loops may run forever for an unusable MTU, so they are \<open>partial_function\<close>s.
\<close>

section \<open>State\<close>

definition BLE_HS_CONN_HANDLE_NONE :: nat where "BLE_HS_CONN_HANDLE_NONE = 65535"

record ble_context =
  conn_handle :: nat
  is_connected :: bool
  shutdown_initiated :: bool
  notifications_enabled :: bool
  effective_mtu :: "16 word"
  shutdown_sem :: bool

record ble_link =
  bl_ctx :: ble_context
  bl_rx :: rx_ctx
  bl_tx :: tx_ctx
  bl_fifo :: ble_fifo
  bl_tx_buffer :: "byte list"
  bl_rx_buffer :: "byte list"

datatype ble_effect =
    Start_advertising | Update_params nat | Set_phy nat | Give_shutdown_sem
  | Notify nat "byte list" | Terminate nat | Adv_stop
  | Register_hook string | Unregister_hook string

section \<open>Receiving\<close>

text \<open>\<open>mw_rx_write_cb\<close>: \<open>om\<close> is the content of the received buffer chain; the flag is the error return.\<close>

definition mw_rx_write_cb :: "byte list \<Rightarrow> ble_link \<Rightarrow> (bool \<times> ble_link) option" where
  "mw_rx_write_cb om b =
     (let len = u16 (length om) in
      if len > length (bl_rx_buffer b) then Some (False, b)
      else do {
        buf \<leftarrow> mem_write (bl_rx_buffer b) 0 (take len om);
        (rx, q) \<leftarrow> ble_retrieve_packet (Some buf) (word_of_nat len) (bl_rx b) (bl_fifo b);
        Some (True, b\<lparr>bl_rx_buffer := buf, bl_rx := rx, bl_fifo := q\<rparr>)
      })"

section \<open>Connection events\<close>

datatype gap_event =
    GAP_CONNECT nat nat | GAP_DISCONNECT | GAP_MTU nat | GAP_SUBSCRIBE nat
  | GAP_CONN_UPDATE | GAP_PHY_UPDATE_COMPLETE | GAP_ADV_COMPLETE | GAP_OTHER nat

definition ble_gap_event :: "gap_event \<Rightarrow> ble_link \<Rightarrow> ble_effect list \<times> ble_link" where
  "ble_gap_event event b =
     (case event of
        GAP_CONNECT status handle \<Rightarrow>
          if status = 0 then
            ([Update_params handle, Set_phy handle],
             b\<lparr>bl_ctx := (bl_ctx b)\<lparr>conn_handle := handle, is_connected := True\<rparr>,
               bl_rx := rx_reset_context (bl_rx b)\<rparr>)
          else ([Start_advertising], b)
      | GAP_DISCONNECT \<Rightarrow>
          (if \<not> shutdown_initiated (bl_ctx b) then [Start_advertising]
           else if shutdown_sem (bl_ctx b) then [Give_shutdown_sem] else [],
           b\<lparr>bl_ctx := (bl_ctx b)\<lparr>is_connected := False, notifications_enabled := False,
                conn_handle := BLE_HS_CONN_HANDLE_NONE, effective_mtu := 20\<rparr>,
             bl_rx := rx_reset_context (bl_rx b)\<rparr>)
      | GAP_MTU v \<Rightarrow>
          ([], b\<lparr>bl_ctx := (bl_ctx b)\<lparr>effective_mtu := (if v > 3 then word_of_nat (v - 3) else 0)\<rparr>\<rparr>)
      | GAP_SUBSCRIBE cur_notify \<Rightarrow>
          ([], b\<lparr>bl_ctx := (bl_ctx b)\<lparr>notifications_enabled := (cur_notify \<noteq> 0)\<rparr>\<rparr>)
      | GAP_ADV_COMPLETE \<Rightarrow>
          (if \<not> shutdown_initiated (bl_ctx b) then [Start_advertising] else [], b)
      | _ \<Rightarrow> ([], b))"

section \<open>Transmitting\<close>

text \<open>
  The loop of \<open>populate_tx_buffers\<close>; \<open>mbuf_ok k\<close> tells whether the \<open>k\<close>-th buffer can be allocated.
  A failed notification only frees the buffer.
\<close>

partial_function (option) populate_loop ::
  "(nat \<Rightarrow> bool) \<Rightarrow> nat \<Rightarrow> ble_link \<Rightarrow> (byte list list \<times> ble_link) option" where
  "populate_loop mbuf_ok k b =
     do {
       (more, out, buf, tx, q) \<leftarrow>
         ble_build_next_packet (Some (bl_tx_buffer b)) (effective_mtu (bl_ctx b)) True (bl_tx b) (bl_fifo b);
       let b1 = b\<lparr>bl_tx_buffer := the buf, bl_tx := tx, bl_fifo := q\<rparr>;
       if \<not> more then Some ([], b1)
       else if \<not> mbuf_ok k then Some ([], b1)
       else do {
         (pkts, b2) \<leftarrow> populate_loop mbuf_ok (k + 1) b1;
         Some (take (the out) (the buf) # pkts, b2)
       }
     }"

definition populate_tx_buffers :: "(nat \<Rightarrow> bool) \<Rightarrow> ble_link \<Rightarrow> (ble_effect list \<times> ble_link) option" where
  "populate_tx_buffers mbuf_ok b =
     (if \<not> is_connected (bl_ctx b) \<or> \<not> notifications_enabled (bl_ctx b) then Some ([], b)
      else do {
        (pkts, b1) \<leftarrow> populate_loop mbuf_ok 0 b;
        Some (map (Notify (conn_handle (bl_ctx b))) pkts, b1)
      })"

text \<open>The loop of \<open>process_rx_buffers\<close>, with the response handler of the phone's messages.\<close>

partial_function (option) process_rx_loop ::
  "(ble_msg \<Rightarrow> 's \<Rightarrow> (bool \<times> 's) option) \<Rightarrow> ble_fifo \<Rightarrow> 's \<Rightarrow> (ble_fifo \<times> 's) option" where
  "process_rx_loop handle q s =
     do {
       (r, q1) \<leftarrow> get_next_ble_msg True BLE_RX q;
       case r of
         None \<Rightarrow> Some (q1, s)
       | Some msg \<Rightarrow> do { (ok, s1) \<leftarrow> handle msg s; process_rx_loop handle q1 s1 }
     }"

definition process_rx_buffers ::
  "('h, 'z) sys_call \<Rightarrow> (byte list \<Rightarrow> 32 word) \<Rightarrow> (nat \<Rightarrow> byte list option) \<Rightarrow> notification \<Rightarrow> byte list \<Rightarrow>
   ble_link \<Rightarrow> ('h, 'z) ble_sys_scheme \<Rightarrow> (ble_link \<times> ('h, 'z) ble_sys_scheme) option" where
  "process_rx_buffers call crc32 malloc gn gd b s =
     do {
       (q, s1) \<leftarrow> process_rx_loop (\<lambda>m. handle_ble_response call crc32 malloc gn gd (Some m)) (bl_fifo b) s;
       Some (b\<lparr>bl_fifo := q\<rparr>, s1)
     }"

text \<open>\<open>submit_ble_request\<close>, the subscriber of \<open>EVENT_BLE_REQUEST\<close>; the size check is an assertion.\<close>


definition submit_ble_request :: "sys_event option \<Rightarrow> ble_link \<Rightarrow> ble_link option" where
  "submit_ble_request evp b =
     (case evp of
        None \<Rightarrow> Some b
      | Some e \<Rightarrow>
          if ev_payload_len e \<noteq> sizeof_ble_req then None
          else case ev_data e of
            Data_ble_req r \<Rightarrow> do { (ok, q) \<leftarrow> handle_ble_request (Some r) (bl_fifo b); Some (b\<lparr>bl_fifo := q\<rparr>) }
          | _ \<Rightarrow> None)"

section \<open>Start and stop\<close>

text \<open>
  \<open>sem_ok\<close>, \<open>mtx\<close>, \<open>mrx\<close>: the semaphore and the two queue mutexes could be created; \<open>stack_ok\<close>: every
  checked call into the stack succeeded; \<open>h\<close> is the identity of \<open>submit_ble_request\<close> as a handler.
\<close>

definition ble_manager_init ::
  "'h \<Rightarrow> bool \<Rightarrow> bool \<Rightarrow> bool \<Rightarrow> bool \<Rightarrow> ble_link \<Rightarrow> ('h, 'z) event_mgr_scheme \<Rightarrow>
   (ble_effect list \<times> ble_link \<times> ('h, 'z) event_mgr_scheme) option" where
  "ble_manager_init h sem_ok mtx mrx stack_ok b s =
     (let c = (bl_ctx b)\<lparr>is_connected := False, notifications_enabled := False,
                 conn_handle := BLE_HS_CONN_HANDLE_NONE, effective_mtu := 20,
                 shutdown_initiated := False, shutdown_sem := sem_ok\<rparr>
      in if \<not> sem_ok then None
         else
           let (ok1, q) = ble_fifo_init mtx mrx (bl_fifo b) in
           if \<not> stack_ok then None
           else
             let (ok, s1) = event_subscribe EVENT_BLE_REQUEST (Some h) s in
             if \<not> ok then None
             else Some ([Register_hook ''process_rx_buffers'', Register_hook ''populate_tx_buffers''],
                        b\<lparr>bl_ctx := c, bl_fifo := q\<rparr>, s1))"

definition ble_manager_deinit ::
  "'h \<Rightarrow> bool \<Rightarrow> ble_link \<Rightarrow> ('h, 'z) event_mgr_scheme \<Rightarrow>
   (ble_effect list \<times> ble_link \<times> ('h, 'z) event_mgr_scheme) option" where
  "ble_manager_deinit h stop_ok b s =
     (let c = bl_ctx b;
          hooks = [Unregister_hook ''populate_tx_buffers'', Unregister_hook ''process_rx_buffers''];
          s1 = snd (event_unsubscribe EVENT_BLE_REQUEST (Some h) s);
          linked = is_connected c \<and> conn_handle c \<noteq> BLE_HS_CONN_HANDLE_NONE
      in if linked \<and> \<not> shutdown_sem c then None
         else if \<not> stop_ok then None
         else Some (hooks @ (if linked then [Terminate (conn_handle c)] else [Adv_stop]),
                    b\<lparr>bl_ctx := c\<lparr>shutdown_initiated := False, shutdown_sem := False\<rparr>,
                      bl_fifo := ble_fifo_deinit (bl_fifo b)\<rparr>, s1))"

section \<open>Invariant\<close>

definition link_ok :: "ble_link \<Rightarrow> bool" where
  "link_ok b \<longleftrightarrow>
     ble_fifo_ok (bl_fifo b) \<and> rx_ok (bl_rx b) \<and> tx_ok (bl_tx b) \<and>
     length (bl_tx_buffer b) = 517 \<and> length (bl_rx_buffer b) = 517 \<and>
     (\<not> is_connected (bl_ctx b) \<longrightarrow> conn_handle (bl_ctx b) = BLE_HS_CONN_HANDLE_NONE)"

lemma rx_reset_ok': "rx_ok rx \<Longrightarrow> rx_ok (rx_reset_context rx)"
  by (simp add: rx_ok_def rx_reset_context_def)

lemma gap_event_link_ok: "link_ok b \<Longrightarrow> link_ok (snd (ble_gap_event e b))"
  by (cases e) (auto simp: link_ok_def ble_gap_event_def rx_reset_ok')

lemma rx_write_ok:
  assumes "link_ok b" and "length om < 65536"
  shows "\<exists>r b'. mw_rx_write_cb om b = Some (r, b') \<and> link_ok b' \<and> (r \<longleftrightarrow> length om \<le> 517)"
proof (cases "length om \<le> 517")
  case True
  let ?buf = "om @ drop (length om) (bl_rx_buffer b)"
  have w: "mem_write (bl_rx_buffer b) 0 (take (u16 (length om)) om) = Some ?buf"
    using assms True by (simp add: mem_write_def link_ok_def u16_id)
  have "unat (word_of_nat (length om) :: 16 word) = length om"
    using assms(2) by (simp add: unat_of_nat)
  moreover have "length ?buf = 517"
    using assms(1) True by (simp add: link_ok_def)
  ultimately obtain rx q where
    "ble_retrieve_packet (Some ?buf) (word_of_nat (length om)) (bl_rx b) (bl_fifo b) = Some (rx, q)"
    "rx_ok rx" "ble_fifo_ok q"
    using retrieve_packet_ok [of "bl_rx b" "bl_fifo b" "word_of_nat (length om)" ?buf] assms(1) True
    by (auto simp: link_ok_def)
  then show ?thesis
    using True w assms \<open>length ?buf = 517\<close>
    by (auto simp: mw_rx_write_cb_def u16_id link_ok_def Let_def)
next
  case False
  then show ?thesis
    using assms by (auto simp: mw_rx_write_cb_def u16_id link_ok_def Let_def ex_bool_eq)
qed

section \<open>The transmit loop ends\<close>

text \<open>Weight of what is still to be sent; a loaded message weighs one less than a queued one.\<close>

definition tx_weight :: "tx_ctx \<Rightarrow> nat" where
  "tx_weight tx =
     (if tx_msg_active tx then if tx_offset tx = 0 then tx_len tx + 1 else tx_len tx - tx_offset tx else 0)"

definition queue_weight :: "ble_fifo \<Rightarrow> nat" where
  "queue_weight q = sum_list (map (\<lambda>m. unat (h_len (m_hdr m)) + 2) (ble_items BLE_TX q))"

lemma tx_load_weight:
  assumes "tx_ok tx" and "ble_fifo_ok q" and "tx_load tx q = Some (b, tx1, q1)"
  shows "tx_weight tx1 + queue_weight q1 \<le> tx_weight tx + queue_weight q"
proof (cases "tx_msg_active tx")
  case True
  then show ?thesis
    using tx_load_SomeD(2) [OF assms(3)] by simp
next
  case False
  then show ?thesis
  proof (cases "ble_items BLE_TX q")
    case Nil
    then show ?thesis
      using False assms(3) get_next_ble_msg_Nil [OF assms(2) Nil] by (simp add: tx_load_def)
  next
    case (Cons m ms)
    then obtain q' where "get_next_ble_msg True BLE_TX q = Some (Some m, q')" "ble_items BLE_TX q' = ms"
      using get_next_ble_msg_Cons [OF assms(2)] by blast
    then show ?thesis
      using False assms(3) Cons by (auto simp: tx_load_def tx_weight_def queue_weight_def)
  qed
qed

lemma tx_after_weight:
  assumes "tx_ok tx" and "tx_msg_active tx"
  shows "tx_weight (tx_after mtu i tx) \<le> tx_weight tx"
    and "0 < tx_chunk mtu i tx \<or> tx_len tx = 0 \<Longrightarrow> tx_weight (tx_after mtu i tx) < tx_weight tx"
proof -
  have "tx_offset tx = 0 \<or> tx_offset tx < tx_len tx"
    using assms by (auto simp: tx_ok_def)
  then show "tx_weight (tx_after mtu i tx) \<le> tx_weight tx"
    and "0 < tx_chunk mtu i tx \<or> tx_len tx = 0 \<Longrightarrow> tx_weight (tx_after mtu i tx) < tx_weight tx"
    using tx_after_ok(1,2) [OF assms, of mtu i] assms(2) by (auto simp: tx_weight_def)
qed

lemma build_loop_weight:
  assumes "tx_ok tx" and "ble_fifo_ok q" and "unat mtu \<le> length buf"
    and "build_loop mtu i buf tx q = Some (n, pkt, tx', q')"
  shows "tx_weight tx' + queue_weight q' \<le> tx_weight tx + queue_weight q"
    and "i = 1 \<Longrightarrow> 6 \<le> unat mtu \<Longrightarrow> 1 < n \<Longrightarrow>
         tx_weight tx' + queue_weight q' < tx_weight tx + queue_weight q"
proof -
  have "tx_weight tx' + queue_weight q' \<le> tx_weight tx + queue_weight q \<and>
    (i = 1 \<and> 6 \<le> unat mtu \<and> 1 < n \<longrightarrow>
       tx_weight tx' + queue_weight q' < tx_weight tx + queue_weight q)"
    using assms
  proof (induction mtu i buf tx q rule: build_loop.induct)
    case (1 mtu i buf tx q)
    note prems = "1.prems"
    show ?case
    proof (cases "i < unat mtu")
      case False
      then show ?thesis
        using prems(4) by (auto simp: build_loop.simps [of mtu i])
    next
      case i: True
      obtain tx1 q1 where l: "tx_load tx q = Some (tx_msg_active tx1, tx1, q1)" "tx_ok tx1" "ble_fifo_ok q1"
        using tx_load_ok [OF prems(1,2)] by blast
      note wl = tx_load_weight [OF prems(1,2) l(1)]
      show ?thesis
      proof (cases "tx_msg_active tx1 \<and> \<not> (tx_offset tx1 = 0 \<and> u16_minus (unat mtu) i < 1 + BLE_HDR_SIZE)")
        case False
        then have "build_step mtu i buf tx q = Some (False, i, buf, tx1, q1)"
          using l(1) by (auto simp: build_step_def)
        then show ?thesis
          using prems(4) i wl by (auto simp: build_loop.simps [of mtu i])
      next
        case emit: True
        then have b: "tx_body_at tx1 i \<le> unat mtu" and act: "tx_msg_active tx1"
          using i u16_minus_id [of i "unat mtu"] by (auto simp: tx_body_at_def ble_consts)
        let ?i2 = "tx_body_at tx1 i + tx_chunk mtu i tx1" and ?tx2 = "tx_after mtu i tx1"
        obtain buf2 where e: "tx_emit mtu i buf tx1 = Some (?i2, buf2, ?tx2)" "length buf2 = length buf"
          using tx_emit_ok [OF l(2) act b i prems(3)] by blast
        have step: "build_step mtu i buf tx q = Some (?i2 < unat mtu, ?i2, buf2, ?tx2, q1)"
          using l(1) emit e(1) by (auto simp: build_step_def)
        have loop: "(if ?i2 < unat mtu then build_loop mtu ?i2 buf2 ?tx2 q1
                     else Some (?i2, buf2, ?tx2, q1)) = Some (n, pkt, tx', q')"
          using prems(4) i step by (simp add: build_loop.simps [of mtu i])
        have rest: "tx_weight tx' + queue_weight q' \<le> tx_weight ?tx2 + queue_weight q1"
          using "1.IH" [OF i step refl refl refl refl _ tx_after_ok(3) [OF l(2) act] l(3)]
            loop e(2) prems(3) by (auto split: if_splits)
        have "0 < tx_chunk mtu i tx1 \<or> tx_len tx1 = 0" if "i = 1" "6 \<le> unat mtu"
          using l(2) act that by (auto simp: tx_chunk_eq tx_ok_def tx_body_at_def)
        then show ?thesis
          using rest wl tx_after_weight [OF l(2) act, of mtu i] by fastforce
      qed
    qed
  qed
  then show "tx_weight tx' + queue_weight q' \<le> tx_weight tx + queue_weight q"
    and "i = 1 \<Longrightarrow> 6 \<le> unat mtu \<Longrightarrow> 1 < n \<Longrightarrow>
         tx_weight tx' + queue_weight q' < tx_weight tx + queue_weight q"
    by auto
qed

lemma build_loop_empty:
  assumes "tx_ok tx" and "ble_fifo_ok q" and "i < unat mtu \<and> tx_stream tx q = []"
    and "build_loop mtu i buf tx q = Some (n, pkt, tx', q')"
  shows "tx_stream tx' q' = []"
proof -
  obtain tx1 q1 where l: "tx_load tx q = Some (tx_msg_active tx1, tx1, q1)" "tx_stream tx1 q1 = []"
    using tx_load_ok [OF assms(1,2)] assms(3) by auto
  then have "\<not> tx_msg_active tx1"
    by (auto simp: tx_stream_def)
  then show ?thesis
    using assms(3,4) l by (auto simp: build_loop.simps [of mtu i] build_step_def)
qed

lemma populate_step:
  assumes "link_ok b" and mtu: "6 \<le> unat (effective_mtu (bl_ctx b))" "unat (effective_mtu (bl_ctx b)) \<le> 517"
  shows "\<exists>more n pkt tx q. ble_build_next_packet (Some (bl_tx_buffer b)) (effective_mtu (bl_ctx b)) True
             (bl_tx b) (bl_fifo b) = Some (more, Some n, Some pkt, tx, q) \<and>
           link_ok (b\<lparr>bl_tx_buffer := pkt, bl_tx := tx, bl_fifo := q\<rparr>) \<and>
           (more \<longleftrightarrow> tx_stream (bl_tx b) (bl_fifo b) \<noteq> []) \<and>
           (more \<longrightarrow> tx_weight tx + queue_weight q < tx_weight (bl_tx b) + queue_weight (bl_fifo b)) \<and>
           (\<not> more \<longrightarrow> tx_stream tx q = [])"
proof -
  let ?mtu = "effective_mtu (bl_ctx b)"
  have ok: "tx_ok (bl_tx b)" "ble_fifo_ok (bl_fifo b)" "length (bl_tx_buffer b) = 517"
    using assms(1) by (simp_all add: link_ok_def)
  have m: "0 < unat ?mtu" "unat ?mtu \<le> length (bl_tx_buffer b)" "5 \<le> unat ?mtu"
    using mtu ok(3) by auto
  obtain n buf tx q where r: "ble_build_next_packet (Some (bl_tx_buffer b)) ?mtu True (bl_tx b) (bl_fifo b) =
      Some (n > 1, Some n, Some buf, tx, q)" "tx_ok tx" "ble_fifo_ok q"
    using build_packet_ok [OF ok(1,2) m(1,2)] by blast
  obtain buf1 where l: "mem_write (bl_tx_buffer b) 0 [if tx_msg_active (bl_tx b) then 1 else 0] = Some buf1"
    "build_loop ?mtu 1 buf1 (bl_tx b) (bl_fifo b) = Some (n, buf, tx, q)"
    using build_packet_SomeD [OF r(1)] by blast
  have lb: "length buf1 = 517"
    using mem_write_length [OF l(1)] ok(3) by simp
  then have mb: "unat ?mtu \<le> length buf1"
    using mtu(2) by simp
  have len: "length buf = 517"
    using build_loop_frame [OF ok(1,2) mb, of 1] l(2) lb by auto
  have more: "n > 1 \<longleftrightarrow> tx_stream (bl_tx b) (bl_fifo b) \<noteq> []"
    using build_pending_iff [OF ok(1,2) m(3,2)] r(1) by auto
  have "tx_weight tx + queue_weight q < tx_weight (bl_tx b) + queue_weight (bl_fifo b)" if "n > 1"
    using build_loop_weight(2) [OF ok(1,2) mb l(2) refl mtu(1) that] .
  moreover have "tx_stream tx q = []" if "\<not> n > 1"
    using build_loop_empty [OF ok(1,2) _ l(2)] more that m(3) by simp
  ultimately show ?thesis
    using r len more assms(1)
    by (intro exI [of _ "n > 1"] exI [of _ n] exI [of _ buf] exI [of _ tx] exI [of _ q])
      (auto simp: link_ok_def)
qed

text \<open>
  What became of the packets that the builder made: all but the one for which no buffer could be allocated are notified, and the
  loop ends for want of a buffer or with nothing left to send.
\<close>

definition all_sent :: "(nat \<Rightarrow> bool) \<Rightarrow> nat \<Rightarrow> ble_link \<Rightarrow> byte list list \<Rightarrow> ble_link \<Rightarrow> bool" where
  "all_sent mbuf_ok k b pkts b' \<longleftrightarrow> (\<exists>ps lost tx q. pkts = map fst ps \<and>
     link_run (effective_mtu (bl_ctx b)) (bl_tx b, bl_fifo b) (ps @ lost) (tx, q) \<and>
     (lost = [] \<and> tx_stream tx q = [] \<and> tx_stream (bl_tx b') (bl_fifo b') = [] \<or>
      length lost = 1 \<and> \<not> mbuf_ok (k + length ps) \<and> (tx, q) = (bl_tx b', bl_fifo b')))"

lemma populate_loop_ends:
  assumes "link_ok b" and "6 \<le> unat (effective_mtu (bl_ctx b))" and "unat (effective_mtu (bl_ctx b)) \<le> 517"
  shows "\<exists>pkts b'. populate_loop mbuf_ok k b = Some (pkts, b') \<and> link_ok b' \<and> bl_ctx b' = bl_ctx b \<and> all_sent mbuf_ok k b pkts b'"
  using assms
proof (induction "tx_weight (bl_tx b) + queue_weight (bl_fifo b)" arbitrary: b k rule: less_induct)
  case less
  let ?mtu = "effective_mtu (bl_ctx b)"
  have len: "unat ?mtu \<le> length (bl_tx_buffer b)" using less.prems by (simp add: link_ok_def)
  obtain more n pkt tx q where s: "ble_build_next_packet (Some (bl_tx_buffer b)) ?mtu
      True (bl_tx b) (bl_fifo b) = Some (more, Some n, Some pkt, tx, q)"
    "link_ok (b\<lparr>bl_tx_buffer := pkt, bl_tx := tx, bl_fifo := q\<rparr>)"
    "more \<longrightarrow> tx_weight tx + queue_weight q < tx_weight (bl_tx b) + queue_weight (bl_fifo b)"
    "\<not> more \<longrightarrow> tx_stream tx q = [] \<and> tx_stream (bl_tx b) (bl_fifo b) = []"
    using populate_step [OF less.prems] by blast
  let ?b = "b\<lparr>bl_tx_buffer := pkt, bl_tx := tx, bl_fifo := q\<rparr>"
  have one: "link_run ?mtu (bl_tx b, bl_fifo b) ((take n pkt, header_filled ?mtu n tx) # ps) t"
    if "link_run ?mtu (tx, q) ps t" more for ps t
    using that(2) s(1) by (intro link_packet [OF len _ that(1)]) simp
  consider (go) more "mbuf_ok k" | (nobuf) more "\<not> mbuf_ok k" | (idle) "\<not> more" by blast
  then show ?case
  proof cases
    case go
    then have "\<exists>pkts b'. populate_loop mbuf_ok (k + 1) ?b = Some (pkts, b') \<and> link_ok b' \<and>
        bl_ctx b' = bl_ctx ?b \<and> all_sent mbuf_ok (k + 1) ?b pkts b'"
      using s(2,3) less.prems by (intro less.hyps) simp_all
    then obtain pkts b' where r: "populate_loop mbuf_ok (k + 1) ?b = Some (pkts, b')" "link_ok b'"
      "bl_ctx b' = bl_ctx b" "all_sent mbuf_ok (k + 1) ?b pkts b'"
      by auto
    then obtain ps lost tx2 q2 where a: "pkts = map fst ps" "link_run ?mtu (tx, q) (ps @ lost) (tx2, q2)"
      "lost = [] \<and> tx_stream tx2 q2 = [] \<and> tx_stream (bl_tx b') (bl_fifo b') = [] \<or>
       length lost = 1 \<and> \<not> mbuf_ok (k + 1 + length ps) \<and> (tx2, q2) = (bl_tx b', bl_fifo b')"
      by (auto simp: all_sent_def)
    then have "all_sent mbuf_ok k b (take n pkt # pkts) b'"
      using one [OF a(2) go(1)] unfolding all_sent_def
      by (intro exI [of _ "(take n pkt, header_filled ?mtu n tx) # ps"] exI [of _ lost] exI [of _ tx2] exI [of _ q2]) simp
    then show ?thesis
      using s(1) go r(1-3) by (subst populate_loop.simps) (simp add: Let_def)
  next
    case nobuf
    then have "populate_loop mbuf_ok k b = Some ([], ?b)"
      using s(1) by (subst populate_loop.simps) (auto simp: Let_def)
    moreover have "all_sent mbuf_ok k b [] ?b"
      using one [OF link_refl nobuf(1)] nobuf(2) unfolding all_sent_def
      by (intro exI [of _ "[]"] exI [of _ "[(take n pkt, header_filled ?mtu n tx)]"] exI [of _ tx] exI [of _ q]) simp
    ultimately show ?thesis using s(2) by simp
  next
    case idle
    then have "populate_loop mbuf_ok k b = Some ([], ?b)"
      using s(1) by (subst populate_loop.simps) (auto simp: Let_def)
    moreover have "all_sent mbuf_ok k b [] ?b"
      using s(4) idle link_refl [of ?mtu "(bl_tx b, bl_fifo b)"] unfolding all_sent_def by (intro exI [of _ "[]"]) auto
    ultimately show ?thesis using s(2) by simp
  qed
qed


definition ble_link_start :: ble_link where
  "ble_link_start =
     \<lparr>bl_ctx = \<lparr>conn_handle = 1, is_connected = True, shutdown_initiated = False,
        notifications_enabled = True, effective_mtu = 20, shutdown_sem = True\<rparr>,
      bl_rx = rx_start, bl_tx = tx_example, bl_fifo = ble_fifo_start,
      bl_tx_buffer = replicate 517 0, bl_rx_buffer = replicate 517 0\<rparr>"

lemma ble_link_start_ok: "link_ok ble_link_start"
  using ble_msg_example_ok rx_start_ok ble_fifo_start_ok
  by (simp add: link_ok_def ble_link_start_def tx_ok_def tx_example_def)


text \<open>
  C8: the receive callback and every connection event keep the link well formed: packets longer than
  the receive buffer are refused, all others are parsed without leaving it; and after a disconnect the
  link is unconnected with the default MTU and a receive context waiting for a new message, and
  advertising starts again unless a shutdown is in progress.
\<close>

theorem ble_link_invariant:
  assumes "link_ok b" and "length om < 65536"
  shows "(\<exists>b'. mw_rx_write_cb om b = Some (length om \<le> 517, b') \<and> link_ok b') \<and>
         link_ok (snd (ble_gap_event e b)) \<and>
         (let r = ble_gap_event GAP_DISCONNECT b in
            \<not> is_connected (bl_ctx (snd r)) \<and> effective_mtu (bl_ctx (snd r)) = 20 \<and>
            rx_st (bl_rx (snd r)) = RX_WAIT_MAGIC \<and>
            (Start_advertising \<in> set (fst r) \<longleftrightarrow> \<not> shutdown_initiated (bl_ctx b)))"
  using rx_write_ok [OF assms] gap_event_link_ok [OF assms(1)]
  by (auto simp: ble_gap_event_def rx_reset_context_def Let_def)

theorem ble_link_invariant_witness:
  "\<exists>b'. mw_rx_write_cb [0, 0xA5, 1, 2] ble_link_start = Some (True, b') \<and> link_ok b'"
  using ble_link_invariant [OF ble_link_start_ok, of "[0, 0xA5, 1, 2]" GAP_DISCONNECT] by simp

section \<open>The receive hook\<close>

lemma process_rx_loop_fold:
  assumes "ble_fifo_ok q" and "\<And>m t. m \<in> set (ble_items BLE_RX q) \<Longrightarrow> I t \<Longrightarrow>
      \<exists>ok t'. handle m t = Some (ok, t') \<and> I t'" and "I s"
  shows "\<exists>q' s'. process_rx_loop handle q s = Some (q', s') \<and> ble_fifo_ok q' \<and> ble_items BLE_RX q' = [] \<and>
           ble_items BLE_TX q' = ble_items BLE_TX q \<and> I s' \<and>
           s' = fold (\<lambda>m t. snd (the (handle m t))) (ble_items BLE_RX q) s"
  using assms
proof (induction "ble_items BLE_RX q" arbitrary: q s)
  case Nil
  then show ?case
    using get_next_ble_msg_Nil [OF Nil.prems(1) Nil.hyps(1) [symmetric]] Nil.hyps
    by (subst process_rx_loop.simps) simp
next
  case (Cons m ms)
  obtain q1 where q1: "get_next_ble_msg True BLE_RX q = Some (Some m, q1)" "ble_fifo_ok q1"
    "ble_items BLE_RX q1 = ms" "ble_items BLE_TX q1 = ble_items BLE_TX q"
    using get_next_ble_msg_Cons [OF Cons.prems(1) Cons.hyps(2) [symmetric]] by auto
  obtain ok t where t: "handle m s = Some (ok, t)" "I t"
    using Cons.prems(2) [of m s] Cons.prems(3) Cons.hyps(2) by (metis list.set_intros(1))
  have mem: "m' \<in> set (ble_items BLE_RX q)" if "m' \<in> set (ble_items BLE_RX q1)" for m'
    using that q1(3) Cons.hyps(2) by (metis list.set_intros(2))
  have "\<exists>q' s'. process_rx_loop handle q1 t = Some (q', s') \<and> ble_fifo_ok q' \<and> ble_items BLE_RX q' = [] \<and>
      ble_items BLE_TX q' = ble_items BLE_TX q1 \<and> I s' \<and>
      s' = fold (\<lambda>m t. snd (the (handle m t))) (ble_items BLE_RX q1) t"
    using q1(2,3) Cons.prems(2) mem t(2) by (intro Cons.hyps(1)) auto
  then show ?case
    using q1 t Cons.hyps(2) [symmetric] by (subst process_rx_loop.simps) auto
qed

end
