(* ===== verification/Tick_Manager.thy ===== *)
theory Tick_Manager
  imports Common_Types
begin

text \<open>
  Periodic ticks (\<open>tick_manager.c\<close>) on top of the event bus. The ESP timer service is a parameter: the
  calls made are returned as \<open>timer_cmd\<close>s; whether a timer could be created or restarted is an
  argument. The statics of the module extend the event bus record, so that event handlers that run
  inside the tick callback see and may change them.
\<close>

datatype tick_type = TICK_WATCHFACE | TICK_WORK | TICK_INVALID

primrec tick_index :: "tick_type \<Rightarrow> nat" where
  "tick_index TICK_WATCHFACE = 0"
| "tick_index TICK_WORK = 1"
| "tick_index TICK_INVALID = 2"

text \<open>The table of intervals and the registry of ticks derived from the work tick.\<close>

definition tick_intervals_ms :: "nat list" where
  "tick_intervals_ms = [30, 1025]"

record dependent_tick =
  interval_work_ticks :: nat
  event_mapping :: event_id

definition dep_tick_registry :: "dependent_tick list" where
  "dep_tick_registry = [\<lparr>interval_work_ticks = 60, event_mapping = EVENT_SENSOR_TICK\<rparr>]"

datatype timer_cmd =
    Timer_create nat | Timer_stop nat | Timer_delete nat | Timer_start_periodic nat nat
  | Timer_restart_at nat nat nat

record 'h tick_sys = "'h event_mgr" +
  tick_timers :: "bool list"
  dep_ticks_counter :: "nat list"
  last_work_tick_us :: int

type_synonym ('h, 'z) tick_call =
  "'h \<Rightarrow> sys_event \<Rightarrow> ('h, 'z) tick_sys_scheme \<Rightarrow> ('h, 'z) tick_sys_scheme"

definition plain_event :: "event_id \<Rightarrow> sys_event" where
  "plain_event e = \<lparr>ev = e, ev_payload_len = 0, ev_data = Data_none\<rparr>"

section \<open>Operations\<close>

text \<open>The loop over the dependent ticks.\<close>

primrec dep_tick_loop ::
  "('h, 'z) tick_call \<Rightarrow> nat list \<Rightarrow> ('h, 'z) tick_sys_scheme \<Rightarrow> ('h, 'z) tick_sys_scheme option" where
  "dep_tick_loop call [] s = Some s"
| "dep_tick_loop call (i # ls) s =
     do {
       c \<leftarrow> rd (dep_ticks_counter s) i;
       let n = u32 (c + 1);
       s' \<leftarrow> (if n \<ge> interval_work_ticks (dep_tick_registry ! i)
              then do {
                (ok, t) \<leftarrow> event_publish call (Some (plain_event (event_mapping (dep_tick_registry ! i))))
                             (s\<lparr>dep_ticks_counter := (dep_ticks_counter s)[i := 0]\<rparr>);
                Some t
              }
              else Some (s\<lparr>dep_ticks_counter := (dep_ticks_counter s)[i := n]\<rparr>));
       dep_tick_loop call ls s'
     }"

text \<open>\<open>tick_event_cb\<close>: \<open>now\<close> is \<open>esp_timer_get_time()\<close>.\<close>

definition tick_event_cb ::
  "('h, 'z) tick_call \<Rightarrow> tick_type \<Rightarrow> int \<Rightarrow> ('h, 'z) tick_sys_scheme \<Rightarrow> ('h, 'z) tick_sys_scheme option" where
  "tick_event_cb call type now s =
     (case type of
        TICK_INVALID \<Rightarrow> None
      | TICK_WATCHFACE \<Rightarrow>
          do { (ok, t) \<leftarrow> event_publish call (Some (plain_event EVENT_WATCHFACE_UPDATE)) s; Some t }
      | TICK_WORK \<Rightarrow>
          do {
            (ok, t) \<leftarrow> event_publish call (Some (plain_event EVENT_WORK_TICK)) (s\<lparr>last_work_tick_us := now\<rparr>);
            dep_tick_loop call [0..<length dep_tick_registry] t
          })"

definition tick_manager_init ::
  "(nat \<Rightarrow> bool) \<Rightarrow> ('h, 'z) tick_sys_scheme \<Rightarrow> timer_cmd list \<times> ('h, 'z) tick_sys_scheme" where
  "tick_manager_init create_ok s =
     ([Timer_create 0, Timer_create 1],
      s\<lparr>tick_timers := [create_ok 0, create_ok 1],
        dep_ticks_counter := replicate (length dep_tick_registry) 0, last_work_tick_us := -1\<rparr>)"

definition tick_manager_deinit ::
  "('h, 'z) tick_sys_scheme \<Rightarrow> timer_cmd list \<times> ('h, 'z) tick_sys_scheme" where
  "tick_manager_deinit s =
     (concat (map (\<lambda>i. if tick_timers s ! i then [Timer_stop i, Timer_delete i] else [])
                [0..<tick_index TICK_INVALID]),
      s\<lparr>tick_timers := map (\<lambda>i. False) (tick_timers s)\<rparr>)"

definition tick_manager_shift_work_tick ::
  "bool \<Rightarrow> nat \<Rightarrow> ('h, 'z) tick_sys_scheme \<Rightarrow> bool \<times> timer_cmd list" where
  "tick_manager_shift_work_tick restart_ok delta_us s =
     (if \<not> tick_timers s ! tick_index TICK_WORK then (False, [])
      else if last_work_tick_us s < 0 then (False, [])
      else
        let period = tick_intervals_ms ! tick_index TICK_WORK * 1000;
            next_tick = u64 (nat (last_work_tick_us s) + period)
        in (restart_ok, [Timer_restart_at (tick_index TICK_WORK) period (u64 (next_tick + delta_us))]))"

definition tick_manager_generate_tick ::
  "tick_type \<Rightarrow> ('h, 'z) tick_sys_scheme \<Rightarrow> timer_cmd list" where
  "tick_manager_generate_tick type s =
     (if tick_index type \<ge> tick_index TICK_INVALID then []
      else if tick_timers s ! tick_index type
      then [Timer_start_periodic (tick_index type) (tick_intervals_ms ! tick_index type * 1000)]
      else [])"

definition tick_manager_stop_tick ::
  "tick_type \<Rightarrow> ('h, 'z) tick_sys_scheme \<Rightarrow> timer_cmd list \<times> ('h, 'z) tick_sys_scheme" where
  "tick_manager_stop_tick type s =
     (if tick_index type \<ge> tick_index TICK_INVALID then ([], s)
      else (if tick_timers s ! tick_index type then [Timer_stop (tick_index type)] else [],
            if type = TICK_WORK then s\<lparr>last_work_tick_us := -1\<rparr> else s))"

definition tick_manager_get_tick_interval_ms :: "tick_type \<Rightarrow> nat" where
  "tick_manager_get_tick_interval_ms type =
     (if tick_index type \<ge> tick_index TICK_INVALID then 0 else tick_intervals_ms ! tick_index type)"

section \<open>The sensor tick\<close>

text \<open>Handlers that leave the subscription table and the tick counters alone.\<close>

definition tick_frame :: "('h, 'z) tick_call \<Rightarrow> bool" where
  "tick_frame call \<longleftrightarrow>
     (\<forall>h e t. em_subscriptions (call h e t) = em_subscriptions t \<and>
              em_initialized (call h e t) = em_initialized t \<and>
              dep_ticks_counter (call h e t) = dep_ticks_counter t)"

definition run_handlers ::
  "('h, 'z) tick_call \<Rightarrow> event_id \<Rightarrow> ('h, 'z) tick_sys_scheme \<Rightarrow> ('h, 'z) tick_sys_scheme" where
  "run_handlers call e s = fold (\<lambda>h. call h (plain_event e)) (subs s e) s"

lemma fold_frame:
  assumes "tick_frame call"
  shows "em_subscriptions (fold (\<lambda>h. call h e) hs s) = em_subscriptions s \<and>
         em_initialized (fold (\<lambda>h. call h e) hs s) = em_initialized s \<and>
         dep_ticks_counter (fold (\<lambda>h. call h e) hs s) = dep_ticks_counter s"
  using assms by (induction hs arbitrary: s) (auto simp: tick_frame_def)

lemma publish_tick:
  assumes "tick_frame call" and "em_ready s" and "e \<noteq> EVENT_COUNT"
  shows "event_publish call (Some (plain_event e)) s = Some (True, run_handlers call e s)"
    and "em_ready (run_handlers call e s)"
    and "dep_ticks_counter (run_handlers call e s) = dep_ticks_counter s"
proof -
  have "publish_loop call (plain_event e) 0 s = Some (run_handlers call e s)"
    using publish_loop_fold [of s "plain_event e" call 0] assms
    by (simp add: em_ready_def plain_event_def tick_frame_def run_handlers_def)
  then show "event_publish call (Some (plain_event e)) s = Some (True, run_handlers call e s)"
    using assms event_index_less [OF assms(3)]
    by (simp add: event_publish_def em_ready_def plain_event_def)
  show "em_ready (run_handlers call e s)"
    and "dep_ticks_counter (run_handlers call e s) = dep_ticks_counter s"
    using fold_frame [OF assms(1), of "plain_event e" "subs s e" s] assms(2)
    by (simp_all add: run_handlers_def em_ready_def em_ok_def)
qed

text \<open>One work tick: the work handlers run, and the sensor handlers when the counter reaches 60.\<close>

definition work_tick ::
  "('h, 'z) tick_call \<Rightarrow> int \<Rightarrow> ('h, 'z) tick_sys_scheme \<Rightarrow> ('h, 'z) tick_sys_scheme" where
  "work_tick call now s =
     (let t = run_handlers call EVENT_WORK_TICK (s\<lparr>last_work_tick_us := now\<rparr>);
          c = hd (dep_ticks_counter t) + 1
      in if c \<ge> 60 then run_handlers call EVENT_SENSOR_TICK (t\<lparr>dep_ticks_counter := [0]\<rparr>)
         else t\<lparr>dep_ticks_counter := [c]\<rparr>)"

lemma em_ready_update:
  "em_ready (s\<lparr>last_work_tick_us := t\<rparr>) = em_ready s"
  "em_ready (s\<lparr>dep_ticks_counter := c\<rparr>) = em_ready s"
  by (simp_all add: em_ready_def em_ok_def)

lemma tick_work_eq:
  assumes "tick_frame call" and "em_ready s" and "dep_ticks_counter s = [c]" and "c < 60"
  shows "tick_event_cb call TICK_WORK now s = Some (work_tick call now s)"
    and "em_ready (work_tick call now s)" and "dep_ticks_counter (work_tick call now s) = [(c + 1) mod 60]"
proof -
  let ?t = "run_handlers call EVENT_WORK_TICK (s\<lparr>last_work_tick_us := now\<rparr>)"
  have t: "event_publish call (Some (plain_event EVENT_WORK_TICK)) (s\<lparr>last_work_tick_us := now\<rparr>) =
      Some (True, ?t)" "em_ready ?t" "dep_ticks_counter ?t = [c]"
    using publish_tick [OF assms(1), of "s\<lparr>last_work_tick_us := now\<rparr>" EVENT_WORK_TICK] assms
    by (simp_all add: em_ready_update)
  let ?z = "?t\<lparr>dep_ticks_counter := [0]\<rparr>"
  have z: "event_publish call (Some (plain_event EVENT_SENSOR_TICK)) ?z =
      Some (True, run_handlers call EVENT_SENSOR_TICK ?z)" "em_ready (run_handlers call EVENT_SENSOR_TICK ?z)"
    "dep_ticks_counter (run_handlers call EVENT_SENSOR_TICK ?z) = [0]"
    using publish_tick [OF assms(1), of ?z EVENT_SENSOR_TICK] t(2) by (simp_all add: em_ready_update)
  have u: "u32 (c + 1) = c + 1"
    using assms(4) by (simp add: u32_id)
  have upt: "[0..<length dep_tick_registry] = [0]"
    by (simp add: dep_tick_registry_def)
  have reg: "interval_work_ticks (dep_tick_registry ! 0) = 60"
    "event_mapping (dep_tick_registry ! 0) = EVENT_SENSOR_TICK"
    by (simp_all add: dep_tick_registry_def)
  show "tick_event_cb call TICK_WORK now s = Some (work_tick call now s)"
    using t z u assms(4) upt reg
    by (cases "60 \<le> c + 1") (simp_all add: tick_event_cb_def work_tick_def rd_def Let_def)
  show "em_ready (work_tick call now s)"
    using t z by (simp add: work_tick_def Let_def em_ready_update)
  show "dep_ticks_counter (work_tick call now s) = [(c + 1) mod 60]"
  proof (cases "60 \<le> c + 1")
    case True
    then have "c = 59"
      using assms(4) by simp
    then show ?thesis
      using t z by (simp add: work_tick_def Let_def)
  next
    case False
    then show ?thesis
      using t by (simp add: work_tick_def Let_def)
  qed
qed

primrec work_ticks ::
  "('h, 'z) tick_call \<Rightarrow> int list \<Rightarrow> ('h, 'z) tick_sys_scheme \<Rightarrow> ('h, 'z) tick_sys_scheme option" where
  "work_ticks call [] s = Some s"
| "work_ticks call (t # ts) s = do { s' \<leftarrow> tick_event_cb call TICK_WORK t s; work_ticks call ts s' }"

lemma work_ticks_counter:
  assumes "tick_frame call" and "em_ready s" and "dep_ticks_counter s = [c]" and "c < 60"
  shows "\<exists>s'. work_ticks call ts s = Some s' \<and> em_ready s' \<and>
           dep_ticks_counter s' = [(c + length ts) mod 60]"
  using assms(2-4)
proof (induction ts arbitrary: s c)
  case (Cons t ts)
  note w = tick_work_eq [OF assms(1) Cons.prems, of t]
  have "\<exists>s'. work_ticks call ts (work_tick call t s) = Some s' \<and> em_ready s' \<and>
      dep_ticks_counter s' = [((c + 1) mod 60 + length ts) mod 60]"
    using w by (intro Cons.IH) simp_all
  then show ?case
    using w(1) by (simp add: mod_add_left_eq)
qed simp

text \<open>
  The sensor tick comes every sixty work ticks. After any number \<open>n\<close> of work ticks from a fresh
  start, the next work tick runs the handlers of \<open>EVENT_WORK_TICK\<close> and then, exactly when \<open>n + 1\<close> is a
  multiple of 60, the handlers of \<open>EVENT_SENSOR_TICK\<close> (handlers that edit neither the subscription
  table nor the counters).
\<close>

lemma sensor_tick_every_sixty:
  assumes "tick_frame call" and "em_ready s" and "dep_ticks_counter s = [0]"
  shows "\<exists>s1. work_ticks call ts s = Some s1 \<and>
     (let t = run_handlers call EVENT_WORK_TICK (s1\<lparr>last_work_tick_us := now\<rparr>) in
      tick_event_cb call TICK_WORK now s1 =
        Some (if 60 dvd length ts + 1
              then run_handlers call EVENT_SENSOR_TICK (t\<lparr>dep_ticks_counter := [0]\<rparr>)
              else t\<lparr>dep_ticks_counter := [length ts mod 60 + 1]\<rparr>))"
proof -
  obtain s1 where s1: "work_ticks call ts s = Some s1" "em_ready s1"
    "dep_ticks_counter s1 = [length ts mod 60]"
    using work_ticks_counter [OF assms, of ts] by auto
  have c: "length ts mod 60 < 60"
    by simp
  have hd: "dep_ticks_counter (run_handlers call EVENT_WORK_TICK (s1\<lparr>last_work_tick_us := now\<rparr>)) =
      [length ts mod 60]"
    using publish_tick(3) [OF assms(1), of "s1\<lparr>last_work_tick_us := now\<rparr>" EVENT_WORK_TICK] s1
    by (simp add: em_ready_update)
  have "60 \<le> length ts mod 60 + 1 \<longleftrightarrow> 60 dvd length ts + 1"
    by presburger
  then show ?thesis
    using s1(1) tick_work_eq(1) [OF assms(1) s1(2,3) c, of now] hd
    by (simp add: work_tick_def Let_def)
qed

definition tick_start :: "nat tick_sys" where
  "tick_start = \<lparr>em_subscriptions = replicate 14 empty_subscription, em_initialized = True,
     tick_timers = [True, True], dep_ticks_counter = [0], last_work_tick_us = -1\<rparr>"

lemma sensor_tick_every_sixty_witness:
  "\<exists>s1. work_ticks (\<lambda>h e t. t) (replicate 59 0) tick_start = Some s1 \<and>
     tick_event_cb (\<lambda>h e t. t) TICK_WORK 5 s1 =
       Some (run_handlers (\<lambda>h e t. t) EVENT_SENSOR_TICK
              ((run_handlers (\<lambda>h e t. t) EVENT_WORK_TICK (s1\<lparr>last_work_tick_us := 5\<rparr>))
                \<lparr>dep_ticks_counter := [0]\<rparr>))"
proof -
  have "em_ready tick_start"
    by (auto simp: em_ready_def em_ok_def tick_start_def sub_ok_def empty_subscription_def)
  then show ?thesis
    using sensor_tick_every_sixty [of "\<lambda>h e t. t" tick_start "replicate 59 0" 5]
    by (auto simp: tick_frame_def tick_start_def Let_def)
qed

end
