(* ===== verification/Locks.thy ===== *)
theory Locks
  imports Prelude
begin

text \<open>
  The locks of the firmware: the counter of \<open>wakelock_manager.c\<close>, the indirection of
  \<open>sleep_lock_service.c\<close> with its \<open>WITH_SLEEP_LOCK\<close> macro, and the UI mutex of \<open>global_locks.c\<close>.

  The counter is a C \<open>atomic_int\<close>: an integer with the wrap-around of 32 bits. The release of a wake
  lock is two atomic steps, a fetch-and-add and, on a bad release, a store; \<open>wl_step\<close> interleaves the
  steps of several tasks. FreeRTOS is a parameter: whether a take succeeds is an argument.
\<close>

section \<open>Wake locks\<close>

definition s32 :: "int \<Rightarrow> int" where
  "s32 i = (i + 2147483648) mod 4294967296 - 2147483648"

lemma s32_id: "-2147483648 \<le> i \<Longrightarrow> i < 2147483648 \<Longrightarrow> s32 i = i"
  by (simp add: s32_def)

definition wakelock_manager_init :: "int \<Rightarrow> int" where
  "wakelock_manager_init c = 0"

definition wakelock_manager_acquire_wakelock :: "int \<Rightarrow> int" where
  "wakelock_manager_acquire_wakelock c = s32 (c + 1)"

text \<open>Without interference: the fetched value decides whether the counter is forced back to zero.\<close>

definition wakelock_manager_release_wakelock :: "int \<Rightarrow> int" where
  "wakelock_manager_release_wakelock c = (if c \<le> 0 then 0 else s32 (c - 1))"

definition wakelock_manager_is_wake_locked :: "int \<Rightarrow> bool" where
  "wakelock_manager_is_wake_locked c \<longleftrightarrow> c > 0"

definition wakelock_manager_deinit :: "int \<Rightarrow> int option" where
  "wakelock_manager_deinit c = (if wakelock_manager_is_wake_locked c then None else Some 0)"

datatype lock_op = Acquire | Release

primrec wl_apply :: "lock_op \<Rightarrow> int \<Rightarrow> int" where
  "wl_apply Acquire c = wakelock_manager_acquire_wakelock c"
| "wl_apply Release c = wakelock_manager_release_wakelock c"

text \<open>Number of holders after a history: an unmatched release counts for nothing.\<close>

primrec holders :: "lock_op list \<Rightarrow> nat \<Rightarrow> nat" where
  "holders [] n = n"
| "holders (x # xs) n = holders xs (case x of Acquire \<Rightarrow> n + 1 | Release \<Rightarrow> n - 1)"

lemma wl_fold_holders:
  assumes "n + length ops < 2147483648"
  shows "fold wl_apply ops (int n) = int (holders ops n)"
  using assms
proof (induction ops arbitrary: n)
  case (Cons x xs)
  show ?case
  proof (cases x)
    case Acquire
    then have "wl_apply x (int n) = int (n + 1)"
      using Cons.prems by (simp add: wakelock_manager_acquire_wakelock_def s32_id)
    then show ?thesis
      using Acquire Cons.IH [of "n + 1"] Cons.prems by simp
  next
    case Release
    then have "wl_apply x (int n) = int (n - 1)"
      using Cons.prems by (auto simp: wakelock_manager_release_wakelock_def s32_id of_nat_diff)
    then show ?thesis
      using Release Cons.IH [of "n - 1"] Cons.prems by simp
  qed
qed simp

lemma holders_balanced:
  assumes "\<forall>k \<le> length ops. count_list (take k ops) Release \<le> n + count_list (take k ops) Acquire"
  shows "holders ops n + count_list ops Release = n + count_list ops Acquire"
  using assms
proof (induction ops arbitrary: n)
  case (Cons x xs)
  have step: "count_list (take k xs) Release + count_list [x] Release \<le>
      n + (count_list (take k xs) Acquire + count_list [x] Acquire)" if "k \<le> length xs" for k
    using Cons.prems [rule_format, of "Suc k"] that by (cases x) auto
  show ?case
  proof (cases x)
    case Acquire
    then show ?thesis
      using Cons.IH [of "n + 1"] step by simp
  next
    case Release
    have "1 \<le> n"
      using step [of 0] Release by simp
    moreover have "count_list (take k xs) Release \<le> n - 1 + count_list (take k xs) Acquire"
      if "k \<le> length xs" for k
      using step [OF that] Release by simp
    ultimately show ?thesis
      using Release Cons.IH [of "n - 1"] by simp
  qed
qed simp

text \<open>
  The wake lock counts its holders. After any history of acquires and releases in which no
  prefix releases more than it acquired, the counter is the number of acquires minus the number of
  releases, so the watch is wake locked exactly while somebody still holds the lock.
\<close>

lemma wakelock_counts_holders:
  assumes "length ops < 2147483648"
    and "\<forall>k \<le> length ops. count_list (take k ops) Release \<le> count_list (take k ops) Acquire"
  shows "fold wl_apply ops (wakelock_manager_init c) = int (count_list ops Acquire) - int (count_list ops Release) \<and>
         (wakelock_manager_is_wake_locked (fold wl_apply ops (wakelock_manager_init c)) \<longleftrightarrow>
            count_list ops Release < count_list ops Acquire)"
  using wl_fold_holders [of 0 ops] holders_balanced [of ops 0] assms
  by (auto simp: wakelock_manager_init_def wakelock_manager_is_wake_locked_def)

lemma wakelock_counts_holders_witness:
  "fold wl_apply [Acquire, Acquire, Release] (wakelock_manager_init 7) = 1"
proof -
  have "\<forall>k \<le> length [Acquire, Acquire, Release].
      count_list (take k [Acquire, Acquire, Release]) Release \<le>
      count_list (take k [Acquire, Acquire, Release]) Acquire"
    by (auto simp: le_Suc_eq numeral_eq_Suc)
  then show ?thesis
    using wakelock_counts_holders [of "[Acquire, Acquire, Release]" 7] by simp
qed

subsection \<open>Interleaved releases\<close>

text \<open>
  A task inside a release that fetched a non-positive value still has to store zero. The state is the
  counter and the number of tasks at that point.
\<close>

inductive wl_step :: "int \<times> nat \<Rightarrow> lock_op option \<Rightarrow> int \<times> nat \<Rightarrow> bool" where
  wl_acquire: "wl_step (c, p) (Some Acquire) (s32 (c + 1), p)"
| wl_release: "c > 0 \<Longrightarrow> wl_step (c, p) (Some Release) (s32 (c - 1), p)"
| wl_bad_release: "c \<le> 0 \<Longrightarrow> wl_step (c, p) (Some Release) (s32 (c - 1), p + 1)"
| wl_store: "wl_step (c, Suc p) None (0, p)"

inductive_cases wl_storeE: "wl_step (c, p) None t"

lemma wl_step_positive:
  assumes "wl_step (c, 0) l (c', p')" and "0 \<le> c" and "c < 2147483647" and "l = Some Release \<longrightarrow> 0 < c"
  shows "p' = 0" and "0 \<le> c'" and "c' = (if l = Some Acquire then c + 1 else c - 1)"
  using assms by (cases rule: wl_step.cases; auto simp: s32_id)+

section \<open>The sleep lock service\<close>

text \<open>
  The interface is a pair of function pointers, each present or not; acquire and release of the
  registered implementation act on the state \<open>'s\<close>.
\<close>

record 's sleep_lock_interface =
  sleep_lock_acquire :: "('s \<Rightarrow> 's) option"
  sleep_lock_release :: "('s \<Rightarrow> 's) option"

type_synonym 's lock_impl = "'s sleep_lock_interface option"

definition sleep_lock_service_init :: "'s lock_impl \<Rightarrow> 's lock_impl" where
  "sleep_lock_service_init apis = apis"

definition sleep_lock_service_deinit :: "'s lock_impl" where
  "sleep_lock_service_deinit = None"

definition sleep_lock_service_acquire_lock :: "'s lock_impl \<Rightarrow> 's \<Rightarrow> 's" where
  "sleep_lock_service_acquire_lock impl s =
     (case impl of
        Some i \<Rightarrow> (case sleep_lock_acquire i of Some f \<Rightarrow> f s | None \<Rightarrow> s)
      | None \<Rightarrow> s)"

definition sleep_lock_service_release_lock :: "'s lock_impl \<Rightarrow> 's \<Rightarrow> 's" where
  "sleep_lock_service_release_lock impl s =
     (case impl of
        Some i \<Rightarrow> (case sleep_lock_release i of Some f \<Rightarrow> f s | None \<Rightarrow> s)
      | None \<Rightarrow> s)"

text \<open>\<open>WITH_SLEEP_LOCK() body\<close>: the body runs once between acquire and release.\<close>

definition with_sleep_lock :: "'s lock_impl \<Rightarrow> ('s \<Rightarrow> 's) \<Rightarrow> 's \<Rightarrow> 's" where
  "with_sleep_lock impl body s =
     sleep_lock_service_release_lock impl (body (sleep_lock_service_acquire_lock impl s))"

text \<open>
  The contract of a counting lock, what its users rely on and its instance: the wake lock registered
  as the implementation of the service.
\<close>

locale counting_lock =
  fixes acquire :: "'s \<Rightarrow> 's" and release :: "'s \<Rightarrow> 's" and level :: "'s \<Rightarrow> nat" and locked :: "'s \<Rightarrow> bool"
    and ok :: "'s \<Rightarrow> bool" and room :: "'s \<Rightarrow> bool"
  assumes acquire_level: "ok s \<Longrightarrow> room s \<Longrightarrow> level (acquire s) = level s + 1"
    and acquire_ok: "ok s \<Longrightarrow> room s \<Longrightarrow> ok (acquire s)"
    and release_level: "ok s \<Longrightarrow> level s > 0 \<Longrightarrow> level (release s) = level s - 1"
    and release_ok: "ok s \<Longrightarrow> ok (release s)"
    and locked_iff: "ok s \<Longrightarrow> locked s \<longleftrightarrow> 0 < level s"
begin

lemma locked_inside: "ok s \<Longrightarrow> room s \<Longrightarrow> locked (acquire s)"
  by (simp add: locked_iff acquire_level acquire_ok)

lemma section_restores:
  assumes "ok s" and "room s" and "ok (body (acquire s))" and "level (body (acquire s)) = level (acquire s)"
  shows "level (release (body (acquire s))) = level s"
  using assms by (simp add: release_level acquire_level)

end

definition wakelock_impl :: "int lock_impl" where
  "wakelock_impl = Some \<lparr>sleep_lock_acquire = Some wakelock_manager_acquire_wakelock,
                         sleep_lock_release = Some wakelock_manager_release_wakelock\<rparr>"

interpretation wl: counting_lock
  "sleep_lock_service_acquire_lock wakelock_impl" "sleep_lock_service_release_lock wakelock_impl"
  nat wakelock_manager_is_wake_locked "\<lambda>c. 0 \<le> c \<and> c < 2147483648" "\<lambda>c. c < 2147483647"
  by unfold_locales
    (auto simp: sleep_lock_service_acquire_lock_def sleep_lock_service_release_lock_def wakelock_impl_def
      wakelock_manager_acquire_wakelock_def wakelock_manager_release_wakelock_def
      wakelock_manager_is_wake_locked_def s32_id)

section \<open>The UI mutex\<close>

text \<open>\<open>init_locks\<close> aborts when the mutex cannot be allocated; the mutex is present or absent.\<close>

definition init_locks :: "bool \<Rightarrow> bool \<Rightarrow> bool option" where
  "init_locks create_ok ui_mutex =
     (if \<not> ui_mutex then if create_ok then Some True else None else Some True)"

definition acquire_lock_ui :: "bool \<Rightarrow> bool \<Rightarrow> bool" where
  "acquire_lock_ui take_ok ui_mutex = (if \<not> ui_mutex then False else take_ok)"

definition relinquish_ui_lock :: "bool \<Rightarrow> bool \<Rightarrow> bool" where
  "relinquish_ui_lock give_ok ui_mutex = (if \<not> ui_mutex then False else give_ok)"

text \<open>
  Code run under \<open>WITH_SLEEP_LOCK\<close> runs with the watch wake locked, and a body that itself leaves
  the lock balanced brings the wake lock back to the level before, whatever that level was.
\<close>

lemma with_sleep_lock_balanced:
  assumes "0 \<le> c" and "c < 2147483647"
    and "body (sleep_lock_service_acquire_lock wakelock_impl c) = sleep_lock_service_acquire_lock wakelock_impl c"
  shows "wakelock_manager_is_wake_locked (sleep_lock_service_acquire_lock wakelock_impl c) \<and>
         nat (with_sleep_lock wakelock_impl body c) = nat c"
  using wl.locked_inside [of c] wl.section_restores [of c body] wl.acquire_ok [of c] assms
  by (simp add: with_sleep_lock_def)

lemma with_sleep_lock_balanced_witness:
  "wakelock_manager_is_wake_locked (sleep_lock_service_acquire_lock wakelock_impl 0) \<and>
   nat (with_sleep_lock wakelock_impl (\<lambda>c. c) 0) = 0"
  using with_sleep_lock_balanced [of 0 "\<lambda>c. c"] by simp

end
