(* ===== verification/Alarm_Manager.thy ===== *)
theory Alarm_Manager
  imports Common_Types
begin

text \<open>
  The alarm list (\<open>alarm_manager.c\<close>): at most five alarms in an array kept sorted by time, a one-shot
  timer armed for the first one. The clock (\<open>state_manager_get_epoch_time\<close>), the outcome of taking the
  mutex and of creating objects are arguments; the calls on the ESP timer are returned as \<open>alarm_cmd\<close>s.
  Epochs are 32-bit: \<open>now + ALARM_BUFFER_SEC\<close> and differences wrap as in the code. \<open>memmove\<close> reads the
  source range and writes the target range, both bounds-checked.
\<close>

section \<open>State\<close>

record alarm_sync =
  as_alarms :: "alarm list"
  as_n_alarms :: nat
  as_valid :: nat

record alarm_mgr =
  am_alarms :: "alarm_sync option"
  am_timer :: bool
  am_mutex :: bool

datatype alarm_cmd = Alarm_timer_stop | Alarm_timer_start_once nat | Alarm_timer_delete

definition ALARM_BUFFER_SEC :: nat where "ALARM_BUFFER_SEC = 5"

lemmas alarm_consts = ALARM_BUFFER_SEC_def MAX_WATCH_ALARMS_def

section \<open>Operations\<close>

text \<open>The scan of \<open>discard_expired_alarms\<close>: index of the first alarm that is still ahead.\<close>

function first_valid :: "alarm list \<Rightarrow> nat \<Rightarrow> nat \<Rightarrow> nat \<Rightarrow> nat" where
  "first_valid as n now i =
     (if i < n \<and> epoch (as ! i) \<le> u32 (now + ALARM_BUFFER_SEC) then first_valid as n now (i + 1) else i)"
  by pat_completeness auto

termination
  by (relation "measure (\<lambda>(as, n, now, i). n - i)") auto

declare first_valid.simps [simp del]

definition discard_expired_alarms :: "nat \<Rightarrow> alarm_sync \<Rightarrow> alarm_sync option" where
  "discard_expired_alarms now a =
     (if as_n_alarms a = 0 then Some a
      else
        let valid_idx = first_valid (as_alarms a) (as_n_alarms a) now 0 in
        if valid_idx = 0 then Some a
        else
          let remaining = as_n_alarms a - valid_idx in
          if remaining > 0 then do {
            src \<leftarrow> mem_read (as_alarms a) valid_idx remaining;
            as \<leftarrow> mem_write (as_alarms a) 0 src;
            Some (a\<lparr>as_alarms := as, as_n_alarms := remaining\<rparr>)
          }
          else Some (a\<lparr>as_n_alarms := remaining\<rparr>))"

definition schedule_next_alarm_internal :: "nat \<Rightarrow> alarm_mgr \<Rightarrow> alarm_cmd list" where
  "schedule_next_alarm_internal now m =
     (case am_alarms m of
        None \<Rightarrow> []
      | Some a \<Rightarrow>
          if as_n_alarms a = 0 \<or> \<not> am_timer m then []
          else
            let target_epoch = epoch (as_alarms a ! 0);
                timeout_us = (if target_epoch > u32 (now + ALARM_BUFFER_SEC)
                              then u64 (u32_minus target_epoch now * 1000000) else 5 * 1000000)
            in [Alarm_timer_stop, Alarm_timer_start_once timeout_us])"

definition alarm_manager_revalidate ::
  "bool \<Rightarrow> nat \<Rightarrow> nat \<Rightarrow> alarm_mgr \<Rightarrow> (bool \<times> alarm_cmd list \<times> alarm_mgr) option" where
  "alarm_manager_revalidate take_ok now now2 m =
     (case am_alarms m of
        None \<Rightarrow> Some (False, [], m)
      | Some a \<Rightarrow>
          if \<not> am_timer m then Some (False, [], m)
          else if am_mutex m \<and> \<not> take_ok then Some (False, [], m)
          else do {
            a1 \<leftarrow> discard_expired_alarms now a;
            let m1 = m\<lparr>am_alarms := Some a1\<rparr>;
            Some (True, if as_n_alarms a1 > 0 then schedule_next_alarm_internal now2 m1
                        else [Alarm_timer_stop], m1)
          })"

text \<open>The result is the returned count and the prefix copied into the caller's buffer.\<close>

definition alarm_manager_get_all_alarms :: "bool \<Rightarrow> bool \<Rightarrow> alarm_mgr \<Rightarrow> (nat \<times> alarm list) option" where
  "alarm_manager_get_all_alarms take_ok buff_nonnull m =
     (if \<not> am_mutex m \<or> \<not> buff_nonnull then Some (0, [])
      else if \<not> take_ok then Some (0, [])
      else case am_alarms m of
        None \<Rightarrow> Some (0, [])
      | Some a \<Rightarrow>
          if as_n_alarms a > MAX_WATCH_ALARMS then Some (0, [])
          else do { xs \<leftarrow> mem_read (as_alarms a) 0 (as_n_alarms a); Some (as_n_alarms a, xs) })"

text \<open>The shifting loop of the insertion: \<open>k\<close> is \<open>insert_idx + 1\<close>.\<close>

primrec insert_shift :: "alarm list \<Rightarrow> nat \<Rightarrow> nat \<Rightarrow> alarm list \<times> nat" where
  "insert_shift as 0 e = (as, 0)"
| "insert_shift as (Suc k) e =
     (if epoch (as ! k) > e then insert_shift (as[Suc k := as ! k]) k e else (as, Suc k))"

definition alarm_manager_create_alarm ::
  "bool \<Rightarrow> nat \<Rightarrow> nat \<Rightarrow> alarm option \<Rightarrow> alarm_mgr \<Rightarrow> (bool \<times> alarm_cmd list \<times> alarm_mgr) option" where
  "alarm_manager_create_alarm take_ok now now2 alarmp m =
     (case (alarmp, am_alarms m) of
        (Some al, Some a) \<Rightarrow>
          if \<not> as_n_alarms a \<le> MAX_WATCH_ALARMS then None
          else if am_mutex m \<and> \<not> take_ok then Some (False, [], m)
          else if epoch al \<le> now \<or> u32_minus (epoch al) now \<le> ALARM_BUFFER_SEC then Some (False, [], m)
          else if u32_minus (epoch al) now > 31536000 then Some (False, [], m)
          else if list_ex (\<lambda>k. epoch (as_alarms a ! k) = epoch al) [0..<as_n_alarms a] then Some (False, [], m)
          else if as_n_alarms a = MAX_WATCH_ALARMS \<and>
                  epoch al \<ge> epoch (as_alarms a ! (MAX_WATCH_ALARMS - 1)) then Some (False, [], m)
          else
            let count = (if as_n_alarms a = MAX_WATCH_ALARMS then MAX_WATCH_ALARMS - 1 else as_n_alarms a);
                (as, k) = insert_shift (as_alarms a) count (epoch al);
                a1 = a\<lparr>as_alarms := as[k := al],
                       as_n_alarms := (if as_n_alarms a < MAX_WATCH_ALARMS then as_n_alarms a + 1
                                       else as_n_alarms a)\<rparr>;
                m1 = m\<lparr>am_alarms := Some a1\<rparr>
            in Some (True, if k = 0 then schedule_next_alarm_internal now2 m1 else [], m1)
      | _ \<Rightarrow> Some (False, [], m))"

text \<open>The guarded \<open>memmove\<close> of \<open>num_to_move\<close> elements from position \<open>i + 1\<close> to \<open>i\<close>.\<close>

definition close_gap :: "'a list \<Rightarrow> nat \<Rightarrow> nat \<Rightarrow> 'a list option" where
  "close_gap xs i num_to_move =
     (if num_to_move > 0 then do { src \<leftarrow> mem_read xs (i + 1) num_to_move; mem_write xs i src } else Some xs)"

definition alarm_manager_delete_alarm ::
  "bool \<Rightarrow> nat \<Rightarrow> int \<Rightarrow> alarm_mgr \<Rightarrow> (bool \<times> alarm_cmd list \<times> alarm_mgr) option" where
  "alarm_manager_delete_alarm take_ok now index m =
     (case am_alarms m of
        None \<Rightarrow> Some (False, [], m)
      | Some a \<Rightarrow>
          if am_mutex m \<and> \<not> take_ok then Some (False, [], m)
          else if index < 0 \<or> index \<ge> int (as_n_alarms a) then Some (False, [], m)
          else
            let i = nat index; num_to_move = as_n_alarms a - 1 - i in
            do {
              as \<leftarrow> close_gap (as_alarms a) i num_to_move;
              let a1 = a\<lparr>as_alarms := as, as_n_alarms := as_n_alarms a - 1\<rparr>;
              let m1 = m\<lparr>am_alarms := Some a1\<rparr>;
              Some (True, if i = 0 then if as_n_alarms a1 > 0 then schedule_next_alarm_internal now m1
                                        else [Alarm_timer_stop]
                          else [], m1)
            })"

text \<open>
  \<open>alarm_manager_edit_alarm\<close> takes the mutex itself, then deletes and creates, and creates the old
  alarm again when the new one is refused; \<open>t0\<close> to \<open>t3\<close> are the outcomes of the takes, \<open>n1\<close>, \<open>n2\<close>, \<open>n2'\<close>,
  \<open>n3\<close> and \<open>n3'\<close> the clock readings of the three inner calls.
\<close>

definition alarm_manager_edit_alarm ::
  "bool \<Rightarrow> bool \<Rightarrow> bool \<Rightarrow> bool \<Rightarrow> nat \<Rightarrow> nat \<Rightarrow> nat \<Rightarrow> nat \<Rightarrow> nat \<Rightarrow> int \<Rightarrow> alarm option \<Rightarrow> alarm_mgr \<Rightarrow>
   (bool \<times> alarm_cmd list \<times> alarm_mgr) option" where
  "alarm_manager_edit_alarm t0 t1 t2 t3 n1 n2 n2' n3 n3' index newp m =
     (case (am_alarms m, newp) of
        (Some a, Some new) \<Rightarrow>
          if am_mutex m \<and> \<not> t0 then Some (False, [], m)
          else if index < 0 \<or> index \<ge> int (as_n_alarms a) then Some (False, [], m)
          else do {
            old \<leftarrow> rd (as_alarms a) (nat index);
            (d, c1, m1) \<leftarrow> alarm_manager_delete_alarm t1 n1 index m;
            if \<not> d then Some (False, c1, m1)
            else do {
              (ok, c2, m2) \<leftarrow> alarm_manager_create_alarm t2 n2 n2' (Some new) m1;
              if ok then Some (True, c1 @ c2, m2)
              else do {
                (ok3, c3, m3) \<leftarrow> alarm_manager_create_alarm t3 n3 n3' (Some old) m2;
                Some (False, c1 @ c2 @ c3, m3)
              }
            }
          }
      | _ \<Rightarrow> Some (False, [], m))"

definition compare_alarms :: "alarm \<Rightarrow> alarm \<Rightarrow> int" where
  "compare_alarms a1 a2 =
     (if epoch a1 < epoch a2 then -1 else if epoch a1 > epoch a2 then 1 else 0)"

record 'h alarm_sys = "'h event_mgr" +
  as_mgr :: alarm_mgr

text \<open>The critical section of \<open>alarm_fired_cb\<close> and the callback itself.\<close>

definition alarm_fired_pop ::
  "bool \<Rightarrow> nat \<Rightarrow> alarm_mgr \<Rightarrow> (alarm option \<times> alarm_cmd list \<times> alarm_mgr) option" where
  "alarm_fired_pop take_ok now m =
     (if \<not> (am_mutex m \<and> take_ok) then Some (None, [], m)
      else case am_alarms m of
        None \<Rightarrow> Some (None, [], m)
      | Some a \<Rightarrow>
          if as_n_alarms a = 0 then Some (None, [], m)
          else do {
            fired \<leftarrow> rd (as_alarms a) 0;
            as \<leftarrow> close_gap (as_alarms a) 0 (as_n_alarms a - 1);
            let a1 = a\<lparr>as_alarms := as, as_n_alarms := as_n_alarms a - 1\<rparr>;
            let m1 = m\<lparr>am_alarms := Some a1\<rparr>;
            Some (Some fired, if as_n_alarms a1 > 0 then schedule_next_alarm_internal now m1 else [], m1)
          })"

definition alarm_fired_cb ::
  "('h \<Rightarrow> sys_event \<Rightarrow> ('h, 'z) alarm_sys_scheme \<Rightarrow> ('h, 'z) alarm_sys_scheme) \<Rightarrow> bool \<Rightarrow> nat \<Rightarrow>
   ('h, 'z) alarm_sys_scheme \<Rightarrow> (alarm_cmd list \<times> ('h, 'z) alarm_sys_scheme) option" where
  "alarm_fired_cb call take_ok now s =
     do {
       (popped, cmds, m1) \<leftarrow> alarm_fired_pop take_ok now (as_mgr s);
       case popped of
         None \<Rightarrow> Some (cmds, s\<lparr>as_mgr := m1\<rparr>)
       | Some fired \<Rightarrow> do {
           (ok, s1) \<leftarrow> event_publish call
             (Some \<lparr>ev = EVENT_ALARM_TRIGGERED, ev_payload_len = sizeof_alarm, ev_data = Data_alarm fired\<rparr>)
             (s\<lparr>as_mgr := m1\<rparr>);
           Some (cmds, s1)
         }
     }"

text \<open>
  \<open>qsort\<close> orders the array by the comparison function it is given. The C library leaves the order of
  equal elements open; the model keeps their order, and no theorem depends on it.
\<close>

primrec cmp_insert :: "('a \<Rightarrow> 'a \<Rightarrow> int) \<Rightarrow> 'a \<Rightarrow> 'a list \<Rightarrow> 'a list" where
  "cmp_insert cmp x [] = [x]"
| "cmp_insert cmp x (y # ys) = (if cmp x y \<le> 0 then x # y # ys else y # cmp_insert cmp x ys)"

definition qsort :: "('a \<Rightarrow> 'a \<Rightarrow> int) \<Rightarrow> 'a list \<Rightarrow> 'a list" where
  "qsort cmp xs = foldr (cmp_insert cmp) xs []"

definition alarm_manager_init ::
  "bool \<Rightarrow> bool \<Rightarrow> nat \<Rightarrow> nat \<Rightarrow> alarm_sync option \<Rightarrow> alarm_mgr \<Rightarrow> (alarm_cmd list \<times> alarm_mgr) option" where
  "alarm_manager_init timer_ok mutex_ok now now2 rtc m =
     (case rtc of
        None \<Rightarrow> None
      | Some a \<Rightarrow>
          if \<not> as_n_alarms a \<le> MAX_WATCH_ALARMS then None
          else if \<not> timer_ok \<or> \<not> mutex_ok then None
          else do {
            let n = as_n_alarms a;
            let a1 = (if n > 0 then a\<lparr>as_alarms := qsort compare_alarms (take n (as_alarms a)) @ drop n (as_alarms a)\<rparr>
                      else a);
            a2 \<leftarrow> discard_expired_alarms now a1;
            let m1 = \<lparr>am_alarms = Some a2, am_timer = True, am_mutex = True\<rparr>;
            Some (if as_n_alarms a2 > 0 then schedule_next_alarm_internal now2 m1 else [], m1)
          })"

definition alarm_manager_deinit :: "alarm_mgr \<Rightarrow> alarm_cmd list \<times> alarm_mgr" where
  "alarm_manager_deinit m =
     (if am_timer m then [Alarm_timer_stop, Alarm_timer_delete] else [],
      \<lparr>am_alarms = None, am_timer = False, am_mutex = False\<rparr>)"

section \<open>Invariant\<close>

definition alarm_list :: "alarm_sync \<Rightarrow> alarm list" where
  "alarm_list a = take (as_n_alarms a) (as_alarms a)"

definition alarms_ok :: "alarm_sync \<Rightarrow> bool" where
  "alarms_ok a \<longleftrightarrow>
     length (as_alarms a) = MAX_WATCH_ALARMS \<and> as_n_alarms a \<le> MAX_WATCH_ALARMS \<and>
     sorted (map epoch (alarm_list a)) \<and> (\<forall>x \<in> set (alarm_list a). epoch x < 4294967296)"

lemma length_alarm_list: "alarms_ok a \<Longrightarrow> length (alarm_list a) = as_n_alarms a"
  by (simp add: alarms_ok_def alarm_list_def)

text \<open>The insertion loop puts the alarm behind all earlier ones.\<close>

lemma length_insert_shift: "length (fst (insert_shift as k e)) = length as"
  by (induction k arbitrary: as) auto

lemma insert_shift_le: "snd (insert_shift as k e) \<le> k"
  by (induction k arbitrary: as) (auto intro: le_SucI)

lemma insert_shift_correct:
  assumes "k < length as" and "sorted (map epoch (take k as))" and "epoch x = e"
  shows "take (Suc k) ((fst (insert_shift as k e))[snd (insert_shift as k e) := x]) =
       filter (\<lambda>y. epoch y \<le> e) (take k as) @ x # filter (\<lambda>y. \<not> epoch y \<le> e) (take k as) \<and>
     drop (Suc k) ((fst (insert_shift as k e))[snd (insert_shift as k e) := x]) = drop (Suc k) as"
  using assms(1,2)
proof (induction k arbitrary: as)
  case 0
  then show ?case
    by (cases as) auto
next
  case (Suc k)
  let ?as = "as[Suc k := as ! k]"
  let ?r = "insert_shift ?as k e"
  let ?res = "(fst ?r)[snd ?r := x]"
  have tk: "take (Suc k) as = take k as @ [as ! k]"
    using Suc.prems by (simp add: take_Suc_conv_app_nth)
  have srt: "sorted (map epoch (take k as))" "\<forall>y \<in> set (take k as). epoch y \<le> epoch (as ! k)"
    using Suc.prems(2) by (auto simp: tk sorted_append)
  show ?case
  proof (cases "epoch (as ! k) > e")
    case True
    have ih: "take (Suc k) ?res =
          filter (\<lambda>y. epoch y \<le> e) (take k as) @ x # filter (\<lambda>y. \<not> epoch y \<le> e) (take k as)"
      "drop (Suc k) ?res = drop (Suc k) ?as"
      using Suc.IH [of ?as] Suc.prems(1) srt(1) by simp_all
    have "?res ! Suc k = as ! k"
      using arg_cong [OF ih(2), of hd] Suc.prems(1) length_insert_shift [of ?as k e]
      by (simp add: hd_drop_conv_nth)
    then have tk2: "take (Suc (Suc k)) ?res = take (Suc k) ?res @ [as ! k]"
      using Suc.prems(1) length_insert_shift [of ?as k e] by (simp add: take_Suc_conv_app_nth)
    have "drop 1 (drop (Suc k) ?res) = drop 1 (drop (Suc k) ?as)"
      by (simp only: ih(2))
    then have "drop (Suc (Suc k)) ?res = drop (Suc (Suc k)) as"
      by simp
    then show ?thesis
      using True by (simp add: tk2 ih(1) tk)
  next
    case False
    then have "\<forall>y \<in> set (take (Suc k) as). epoch y \<le> e"
      using srt(2) by (auto simp: tk)
    then have "filter (\<lambda>y. epoch y \<le> e) (take (Suc k) as) = take (Suc k) as"
      "filter (\<lambda>y. \<not> epoch y \<le> e) (take (Suc k) as) = []"
      by (auto simp: filter_id_conv filter_empty_conv)
    then show ?thesis
      using False Suc.prems(1) by (simp add: take_Suc_conv_app_nth [of "Suc k"])
  qed
qed

text \<open>\<open>qsort\<close> with \<open>compare_alarms\<close> sorts by time.\<close>

lemma set_cmp_insert: "set (cmp_insert cmp x ys) = insert x (set ys)"
  by (induction ys) auto

lemma length_qsort: "length (qsort cmp xs) = length xs"
proof -
  have "length (cmp_insert cmp x ys) = Suc (length ys)" for x and ys :: "'a list"
    by (induction ys) auto
  then show ?thesis
    unfolding qsort_def by (induction xs) auto
qed

lemma set_qsort: "set (qsort cmp xs) = set xs"
  unfolding qsort_def by (induction xs) (auto simp: set_cmp_insert)

lemma sorted_cmp_insert:
  "sorted (map epoch ys) \<Longrightarrow> sorted (map epoch (cmp_insert compare_alarms x ys))"
  by (induction ys) (auto simp: compare_alarms_def set_cmp_insert split: if_splits)

lemma sorted_qsort: "sorted (map epoch (qsort compare_alarms xs))"
  unfolding qsort_def by (induction xs) (auto simp: sorted_cmp_insert)

section \<open>Discarding\<close>

lemma first_valid_eq:
  "n \<le> length as \<Longrightarrow> i \<le> n \<Longrightarrow> first_valid as n now i =
     i + length (takeWhile (\<lambda>x. epoch x \<le> u32 (now + ALARM_BUFFER_SEC)) (drop i (take n as)))"
proof (induction as n now i rule: first_valid.induct)
  case (1 as n now i)
  show ?case
  proof (cases "i < n")
    case True
    then have d: "drop i (take n as) = as ! i # drop (Suc i) (take n as)"
      using "1.prems" by (metis Cons_nth_drop_Suc length_take min.absorb2 nth_take)
    show ?thesis
    proof (cases "epoch (as ! i) \<le> u32 (now + ALARM_BUFFER_SEC)")
      case le: True
      then have "first_valid as n now i = first_valid as n now (i + 1)"
        using True by (simp add: first_valid.simps [of as n now i])
      then show ?thesis
        using "1.IH" "1.prems" True le d by simp
    next
      case False
      then show ?thesis
        using d by (simp add: first_valid.simps [of as n now i])
    qed
  next
    case False
    then show ?thesis
      using "1.prems" by (simp add: first_valid.simps [of as n now n])
  qed
qed

lemma sorted_dropWhile_filter:
  "sorted (map epoch xs) \<Longrightarrow> dropWhile (\<lambda>x. epoch x \<le> t) xs = filter (\<lambda>x. t < epoch x) xs"
  by (induction xs) (auto intro!: filter_True [symmetric])

text \<open>On a sorted array the scan drops exactly the alarms that are due within the buffer time.\<close>

lemma discard_correct:
  assumes ok: "alarms_ok a"
  shows "\<exists>a1. discard_expired_alarms now a = Some a1 \<and> alarms_ok a1 \<and>
     alarm_list a1 = filter (\<lambda>x. u32 (now + ALARM_BUFFER_SEC) < epoch x) (alarm_list a)"
proof -
  let ?t = "u32 (now + ALARM_BUFFER_SEC)"
  let ?n = "as_n_alarms a"
  define v where "v = first_valid (as_alarms a) ?n now 0"
  have n: "?n \<le> length (as_alarms a)" and srt: "sorted (map epoch (alarm_list a))"
    using ok by (simp_all add: alarms_ok_def)
  have v: "v = length (takeWhile (\<lambda>x. epoch x \<le> ?t) (alarm_list a))"
    using first_valid_eq [of ?n "as_alarms a" 0 now] n by (simp add: v_def alarm_list_def)
  have vn: "v \<le> ?n"
    using length_takeWhile_le [of "\<lambda>x. epoch x \<le> ?t" "alarm_list a"] length_alarm_list [OF ok] by (simp add: v)
  have flt: "filter (\<lambda>x. ?t < epoch x) (alarm_list a) = drop v (alarm_list a)"
    using sorted_dropWhile_filter [OF srt, of ?t] by (simp add: v dropWhile_eq_drop)
  obtain a1 where a1: "discard_expired_alarms now a = Some a1" "alarm_list a1 = drop v (alarm_list a)"
    "length (as_alarms a1) = length (as_alarms a)" "as_n_alarms a1 \<le> ?n"
  proof (cases "v = 0")
    case True
    then show ?thesis
      using that [of a] by (simp add: discard_expired_alarms_def v_def [symmetric])
  next
    case False
    show ?thesis
    proof (cases "v = ?n")
      case True
      then show ?thesis
        using False that [of "a\<lparr>as_n_alarms := 0\<rparr>"] length_alarm_list [OF ok]
        by (simp add: discard_expired_alarms_def v_def [symmetric] alarm_list_def)
    next
      case ne: False
      show ?thesis
        using False ne vn n
        by (intro that [of "a\<lparr>as_alarms := take (?n - v) (drop v (as_alarms a)) @ drop (?n - v) (as_alarms a),
              as_n_alarms := ?n - v\<rparr>"])
          (simp_all add: discard_expired_alarms_def v_def [symmetric] mem_simps alarm_list_def drop_take Let_def)
    qed
  qed
  have "sorted (map epoch (alarm_list a1))" "\<forall>x \<in> set (alarm_list a1). epoch x < 4294967296"
    using ok a1(2) by (auto simp: alarms_ok_def drop_map [symmetric] dest: in_set_dropD)
  then show ?thesis
    using a1 flt ok by (auto simp: alarms_ok_def)
qed

section \<open>Creating\<close>

text \<open>When an alarm is accepted, and the list it leads to, on the abstract list of alarms.\<close>

definition alarm_acceptable :: "nat \<Rightarrow> alarm \<Rightarrow> alarm list \<Rightarrow> bool" where
  "alarm_acceptable now al xs \<longleftrightarrow>
     now + ALARM_BUFFER_SEC < epoch al \<and> epoch al \<le> now + 31536000 \<and> epoch al \<notin> epoch ` set xs \<and>
     (length xs = MAX_WATCH_ALARMS \<longrightarrow> epoch al < epoch (last xs))"

definition alarm_insert :: "alarm \<Rightarrow> alarm list \<Rightarrow> alarm list" where
  "alarm_insert al xs =
     (let ys = (if length xs = MAX_WATCH_ALARMS then butlast xs else xs)
      in filter (\<lambda>y. epoch y \<le> epoch al) ys @ al # filter (\<lambda>y. \<not> epoch y \<le> epoch al) ys)"

lemma sorted_partition_insert:
  "sorted (map epoch ys) \<Longrightarrow>
   sorted (map epoch (filter (\<lambda>y. epoch y \<le> epoch al) ys @ al # filter (\<lambda>y. \<not> epoch y \<le> epoch al) ys))"
  by (auto simp: sorted_append intro: sorted_filter)

lemma sorted_alarm_insert:
  assumes "sorted (map epoch xs)"
  shows "sorted (map epoch (alarm_insert al xs))"
proof -
  have "sorted (map epoch (butlast xs))"
    using assms by (metis map_butlast sorted_butlast)
  then show ?thesis
    using assms unfolding alarm_insert_def Let_def by (intro sorted_partition_insert) simp
qed

lemma set_alarm_insert_subset: "set (alarm_insert al xs) \<subseteq> insert al (set xs)"
  by (auto simp: alarm_insert_def Let_def dest: in_set_butlastD)

lemma length_alarm_insert:
  "length xs \<le> MAX_WATCH_ALARMS \<Longrightarrow> length (alarm_insert al xs) = min MAX_WATCH_ALARMS (Suc (length xs))"
  using sum_length_filter_compl [of "\<lambda>y. epoch y \<le> epoch al" xs]
    sum_length_filter_compl [of "\<lambda>y. epoch y \<le> epoch al" "butlast xs"]
  by (simp add: alarm_insert_def Let_def alarm_consts)

lemma distinct_alarm_insert:
  assumes "distinct (map epoch xs)" and "epoch al \<notin> epoch ` set xs"
  shows "distinct (map epoch (alarm_insert al xs))"
proof -
  have "distinct (map epoch (butlast xs))"
    using assms(1) by (metis distinct_butlast map_butlast)
  then show ?thesis
    using assms by (auto simp: alarm_insert_def Let_def distinct_map inj_on_def dest: in_set_butlastD)
qed

lemma create_guards:
  assumes ok: "alarms_ok a" and e: "epoch al < 4294967296" and now: "now < 4294967296"
  shows "alarm_acceptable now al (alarm_list a) \<longleftrightarrow>
     \<not> (epoch al \<le> now \<or> u32_minus (epoch al) now \<le> ALARM_BUFFER_SEC) \<and>
     \<not> u32_minus (epoch al) now > 31536000 \<and>
     \<not> list_ex (\<lambda>k. epoch (as_alarms a ! k) = epoch al) [0..<as_n_alarms a] \<and>
     \<not> (as_n_alarms a = MAX_WATCH_ALARMS \<and> epoch al \<ge> epoch (as_alarms a ! (MAX_WATCH_ALARMS - 1)))"
proof -
  have len: "length (as_alarms a) = MAX_WATCH_ALARMS" "as_n_alarms a \<le> MAX_WATCH_ALARMS"
    using ok by (simp_all add: alarms_ok_def)
  have dup: "list_ex (\<lambda>k. epoch (as_alarms a ! k) = epoch al) [0..<as_n_alarms a] \<longleftrightarrow> epoch al \<in> epoch ` set (alarm_list a)"
    using len by (auto simp: list_ex_iff alarm_list_def nth_image [symmetric] image_iff) (metis atLeastLessThan_iff le0)
  have lst: "last (alarm_list a) = as_alarms a ! (MAX_WATCH_ALARMS - 1)" if "as_n_alarms a = MAX_WATCH_ALARMS"
    using that len by (simp add: alarm_list_def last_conv_nth alarm_consts flip: length_greater_0_conv)
  have "u32_minus (epoch al) now = epoch al - now" if "now \<le> epoch al"
    using that e by (simp add: wrap_simps)
  then show ?thesis
    using dup lst length_alarm_list [OF ok] by (auto simp: alarm_acceptable_def not_le)
qed

text \<open>What \<open>create\<close> leaves in the array when the alarm is accepted.\<close>

definition created :: "alarm \<Rightarrow> alarm_sync \<Rightarrow> alarm_sync" where
  "created al a =
     (let count = (if as_n_alarms a = MAX_WATCH_ALARMS then MAX_WATCH_ALARMS - 1 else as_n_alarms a);
          (as, k) = insert_shift (as_alarms a) count (epoch al)
      in a\<lparr>as_alarms := as[k := al],
           as_n_alarms := (if as_n_alarms a < MAX_WATCH_ALARMS then as_n_alarms a + 1 else as_n_alarms a)\<rparr>)"

lemma alarm_list_created:
  assumes ok: "alarms_ok a"
  shows "alarm_list (created al a) = alarm_insert al (alarm_list a)"
proof -
  let ?n = "as_n_alarms a"
  let ?c = "if ?n = MAX_WATCH_ALARMS then MAX_WATCH_ALARMS - 1 else ?n"
  let ?r = "insert_shift (as_alarms a) ?c (epoch al)"
  have len: "length (as_alarms a) = MAX_WATCH_ALARMS" "?n \<le> MAX_WATCH_ALARMS"
    and srt: "sorted (map epoch (take ?n (as_alarms a)))"
    using ok by (simp_all add: alarms_ok_def alarm_list_def)
  have "take ?c (as_alarms a) = take ?c (take ?n (as_alarms a))"
    using len by (simp add: alarm_consts)
  then have srt2: "sorted (map epoch (take ?c (as_alarms a)))"
    using sorted_wrt_take [OF srt, of ?c] by (simp only: take_map)
  have ys: "take ?c (as_alarms a) = (if length (alarm_list a) = MAX_WATCH_ALARMS then butlast (alarm_list a) else alarm_list a)"
    using len by (auto simp: alarm_list_def butlast_conv_take alarm_consts)
  have suc: "Suc ?c = (if ?n < MAX_WATCH_ALARMS then ?n + 1 else ?n)"
    using len by (auto simp: alarm_consts)
  have "alarm_list (created al a) = take (Suc ?c) ((fst ?r)[snd ?r := al])"
    unfolding suc by (simp add: alarm_list_def created_def split_beta Let_def)
  also have "\<dots> = alarm_insert al (alarm_list a)"
    using insert_shift_correct [of ?c "as_alarms a" al "epoch al"] srt2 len
    unfolding ys alarm_insert_def Let_def by (auto simp: alarm_consts split: if_splits)
  finally show ?thesis .
qed

lemma alarms_ok_created:
  assumes ok: "alarms_ok a" and e: "epoch al < 4294967296"
  shows "alarms_ok (created al a)"
proof -
  have l: "alarm_list (created al a) = alarm_insert al (alarm_list a)"
    by (rule alarm_list_created [OF ok])
  have "length (as_alarms (created al a)) = MAX_WATCH_ALARMS" "as_n_alarms (created al a) \<le> MAX_WATCH_ALARMS"
    using ok by (auto simp: created_def split_beta Let_def length_insert_shift alarms_ok_def)
  moreover have "sorted (map epoch (alarm_insert al (alarm_list a)))"
    using ok by (intro sorted_alarm_insert) (simp add: alarms_ok_def)
  ultimately show ?thesis
    using ok e set_alarm_insert_subset [of al "alarm_list a"] unfolding alarms_ok_def l by auto
qed

lemma create_eq:
  assumes ok: "alarms_ok a" and a: "am_alarms m = Some a" and l: "am_mutex m \<longrightarrow> take_ok"
    and e: "epoch al < 4294967296" and now: "now < 4294967296"
  shows "alarm_manager_create_alarm take_ok now now2 (Some al) m =
     (if alarm_acceptable now al (alarm_list a)
      then let m1 = m\<lparr>am_alarms := Some (created al a)\<rparr>
           in Some (True, if snd (insert_shift (as_alarms a)
                (if as_n_alarms a = MAX_WATCH_ALARMS then MAX_WATCH_ALARMS - 1 else as_n_alarms a) (epoch al)) = 0
              then schedule_next_alarm_internal now2 m1 else [], m1)
      else Some (False, [], m))"
proof -
  have "am_mutex m \<and> \<not> take_ok \<longleftrightarrow> False"
    using l by simp
  then show ?thesis
  using ok create_guards [OF ok e now]
  by (simp add: alarm_manager_create_alarm_def a created_def alarms_ok_def split_beta Let_def not_le not_less
      del: de_Morgan_conj de_Morgan_disj)
qed

section \<open>Deleting and firing\<close>

lemma close_gap_correct:
  assumes "i < n" and "n \<le> length xs"
  shows "\<exists>ys. close_gap xs i (n - 1 - i) = Some ys \<and> length ys = length xs \<and> take (n - 1) ys = remove_nth i (take n xs)"
proof (cases "n - 1 - i > 0")
  case True
  let ?ys = "take i xs @ take (n - 1 - i) (drop (i + 1) xs) @ drop (n - 1) xs"
  have "take (n - 1) ?ys = remove_nth i (take n xs)"
    using assms True by (simp add: remove_nth_def drop_take)
  moreover have "length ?ys = length xs"
    using assms by simp
  ultimately show ?thesis
    using assms True by (simp add: close_gap_def mem_simps)
next
  case False
  then have "n = Suc i"
    using assms by simp
  then show ?thesis
    using assms by (simp add: close_gap_def remove_nth_def)
qed

lemma sorted_remove_nth:
  fixes xs :: "nat list"
  assumes "sorted xs"
  shows "sorted (remove_nth i xs)"
proof -
  have "sorted (take i xs @ drop i xs)"
    using assms by simp
  then have "\<forall>x \<in> set (take i xs). \<forall>y \<in> set (drop i xs). x \<le> y"
    unfolding sorted_append by blast
  moreover have "set (drop (Suc i) xs) \<subseteq> set (drop i xs)"
    by (rule set_drop_subset_set_drop) simp
  ultimately show ?thesis
    using assms by (auto simp: remove_nth_def sorted_append sorted_wrt_drop sorted_wrt_take)
qed

lemma alarms_ok_remove:
  assumes ok: "alarms_ok a" and i: "i < as_n_alarms a" and len: "length ys = length (as_alarms a)"
    and tk: "take (as_n_alarms a - 1) ys = remove_nth i (take (as_n_alarms a) (as_alarms a))"
  shows "alarms_ok (a\<lparr>as_alarms := ys, as_n_alarms := as_n_alarms a - 1\<rparr>)"
    and "alarm_list (a\<lparr>as_alarms := ys, as_n_alarms := as_n_alarms a - 1\<rparr>) = remove_nth i (alarm_list a)"
proof -
  show l: "alarm_list (a\<lparr>as_alarms := ys, as_n_alarms := as_n_alarms a - 1\<rparr>) = remove_nth i (alarm_list a)"
    using tk by (simp add: alarm_list_def)
  have "sorted (remove_nth i (map epoch (alarm_list a)))"
    using ok by (intro sorted_remove_nth) (simp add: alarms_ok_def)
  then show "alarms_ok (a\<lparr>as_alarms := ys, as_n_alarms := as_n_alarms a - 1\<rparr>)"
    using ok len set_remove_nth [of i "alarm_list a"] unfolding alarms_ok_def l
    by (auto simp: remove_nth_map)
qed

lemma delete_eq:
  assumes ok: "alarms_ok a" and a: "am_alarms m = Some a" and l: "am_mutex m \<longrightarrow> take_ok"
    and i: "0 \<le> index" "index < int (as_n_alarms a)"
  shows "\<exists>a1. alarms_ok a1 \<and> alarm_list a1 = remove_nth (nat index) (alarm_list a) \<and>
     alarm_manager_delete_alarm take_ok now index m =
       Some (True, if index = 0 then if as_n_alarms a1 > 0
                                     then schedule_next_alarm_internal now (m\<lparr>am_alarms := Some a1\<rparr>)
                                     else [Alarm_timer_stop]
                   else [], m\<lparr>am_alarms := Some a1\<rparr>)"
proof -
  have n: "nat index < as_n_alarms a" "as_n_alarms a \<le> length (as_alarms a)"
    using i ok by (auto simp: alarms_ok_def)
  obtain ys where ys: "close_gap (as_alarms a) (nat index) (as_n_alarms a - 1 - nat index) = Some ys" "length ys = length (as_alarms a)"
    "take (as_n_alarms a - 1) ys = remove_nth (nat index) (take (as_n_alarms a) (as_alarms a))"
    using close_gap_correct [OF n] by blast
  let ?a1 = "a\<lparr>as_alarms := ys, as_n_alarms := as_n_alarms a - 1\<rparr>"
  have "nat index = 0 \<longleftrightarrow> index = 0"
    using i by auto
  then show ?thesis
    using alarms_ok_remove [OF ok n(1) ys(2,3)] i l a
    by (intro exI [of _ ?a1]) (simp add: alarm_manager_delete_alarm_def ys(1) [simplified] Let_def)
qed

lemma delete_bad_index:
  assumes "am_alarms m = Some a" and "index < 0 \<or> index \<ge> int (as_n_alarms a)"
  shows "alarm_manager_delete_alarm take_ok now index m = Some (False, [], m)"
  using assms by (auto simp: alarm_manager_delete_alarm_def)

lemma fired_pop_eq:
  assumes ok: "alarms_ok a" and a: "am_alarms m = Some a" and l: "am_mutex m" "take_ok"
    and n: "as_n_alarms a > 0"
  shows "\<exists>a1. alarms_ok a1 \<and> alarm_list a1 = tl (alarm_list a) \<and>
     alarm_fired_pop take_ok now m =
       Some (Some (hd (alarm_list a)),
         if as_n_alarms a1 > 0 then schedule_next_alarm_internal now (m\<lparr>am_alarms := Some a1\<rparr>) else [],
         m\<lparr>am_alarms := Some a1\<rparr>)"
proof -
  have n2: "as_n_alarms a \<le> length (as_alarms a)"
    using ok by (auto simp: alarms_ok_def)
  obtain ys where ys: "close_gap (as_alarms a) 0 (as_n_alarms a - 1 - 0) = Some ys" "length ys = length (as_alarms a)"
    "take (as_n_alarms a - 1) ys = remove_nth 0 (take (as_n_alarms a) (as_alarms a))"
    using close_gap_correct [OF n n2] by blast
  let ?a1 = "a\<lparr>as_alarms := ys, as_n_alarms := as_n_alarms a - 1\<rparr>"
  have hd: "rd (as_alarms a) 0 = Some (hd (alarm_list a))"
    using n n2 by (cases "as_alarms a") (auto simp: rd_def alarm_list_def take_Cons')
  have "remove_nth 0 (alarm_list a) = tl (alarm_list a)"
    by (simp add: remove_nth_def drop_Suc)
  then show ?thesis
    using alarms_ok_remove [OF ok n ys(2,3)] n l a
    by (intro exI [of _ ?a1]) (simp add: alarm_fired_pop_def ys(1) [simplified] hd Let_def)
qed

section \<open>The new alarm and the timer\<close>

lemma insert_shift_index:
  "k \<le> length as \<Longrightarrow> sorted (map epoch (take k as)) \<Longrightarrow>
   snd (insert_shift as k e) = length (filter (\<lambda>y. epoch y \<le> e) (take k as))"
proof (induction k arbitrary: as)
  case (Suc k)
  have tk: "take (Suc k) as = take k as @ [as ! k]"
    using Suc.prems by (simp add: take_Suc_conv_app_nth)
  have srt: "sorted (map epoch (take k as))" "\<forall>y \<in> set (take k as). epoch y \<le> epoch (as ! k)"
    using Suc.prems(2) by (auto simp: tk sorted_append)
  show ?case
  proof (cases "epoch (as ! k) > e")
    case True
    then show ?thesis
      using Suc.IH [of "as[Suc k := as ! k]"] Suc.prems srt by (simp add: tk)
  next
    case False
    then have "filter (\<lambda>y. epoch y \<le> e) (take k as) = take k as"
      using srt(2) by (auto simp: filter_id_conv)
    then show ?thesis
      using False Suc.prems by (simp add: tk)
  qed
qed simp

text \<open>The command that arms the timer for the first alarm of a list.\<close>

definition arm_for :: "nat \<Rightarrow> alarm \<Rightarrow> alarm_cmd list" where
  "arm_for now al =
     [Alarm_timer_stop,
      Alarm_timer_start_once (if epoch al > now + ALARM_BUFFER_SEC then (epoch al - now) * 1000000 else 5000000)]"

lemma schedule_eq:
  assumes "am_alarms m = Some a" and "alarms_ok a" and "as_n_alarms a > 0" and "am_timer m"
    and "now + ALARM_BUFFER_SEC < 4294967296"
  shows "schedule_next_alarm_internal now m = arm_for now (hd (alarm_list a))"
proof -
  have hd: "as_alarms a ! 0 = hd (alarm_list a)"
    using assms(2,3) by (cases "as_alarms a") (auto simp: alarm_list_def take_Cons' alarms_ok_def)
  have "hd (alarm_list a) \<in> set (alarm_list a)"
    using assms(2,3) length_alarm_list [OF assms(2)] by (intro hd_in_set) auto
  then have e: "epoch (hd (alarm_list a)) < 4294967296"
    using assms(2) by (simp add: alarms_ok_def)
  have "u32_minus (epoch (hd (alarm_list a))) now = epoch (hd (alarm_list a)) - now"
    if "epoch (hd (alarm_list a)) > now + ALARM_BUFFER_SEC"
    using that e by (simp add: wrap_simps)
  moreover have "u64 ((epoch (hd (alarm_list a)) - now) * 1000000) = (epoch (hd (alarm_list a)) - now) * 1000000"
    using e by (intro u64_id) simp
  ultimately show ?thesis
    using assms(1,3-5) by (simp add: schedule_next_alarm_internal_def arm_for_def hd u32_id Let_def)
qed

lemma created_head:
  assumes ok: "alarms_ok a"
  shows "snd (insert_shift (as_alarms a)
       (if as_n_alarms a = MAX_WATCH_ALARMS then MAX_WATCH_ALARMS - 1 else as_n_alarms a) (epoch al)) = 0 \<longleftrightarrow>
     \<not> (\<exists>y \<in> set (take (MAX_WATCH_ALARMS - 1) (alarm_list a)). epoch y \<le> epoch al)"
proof -
  let ?c = "if as_n_alarms a = MAX_WATCH_ALARMS then MAX_WATCH_ALARMS - 1 else as_n_alarms a"
  have len: "length (as_alarms a) = MAX_WATCH_ALARMS" "as_n_alarms a \<le> MAX_WATCH_ALARMS"
    and srt: "sorted (map epoch (take (as_n_alarms a) (as_alarms a)))"
    using ok by (simp_all add: alarms_ok_def alarm_list_def)
  have tk: "take ?c (as_alarms a) = take (MAX_WATCH_ALARMS - 1) (alarm_list a)"
  proof -
    have "as_n_alarms a = 5 \<or> min 4 (as_n_alarms a) = as_n_alarms a"
      using len(2) by (auto simp: alarm_consts min_def)
    then show ?thesis
      by (auto simp: alarm_list_def alarm_consts)
  qed
  have "sorted (map epoch (take ?c (as_alarms a)))"
    using sorted_wrt_take [OF srt, of "MAX_WATCH_ALARMS - 1"] unfolding tk by (simp only: take_map alarm_list_def)
  then have "snd (insert_shift (as_alarms a) ?c (epoch al)) =
      length (filter (\<lambda>y. epoch y \<le> epoch al) (take ?c (as_alarms a)))"
    using len by (intro insert_shift_index) (auto simp: alarm_consts)
  then show ?thesis
    unfolding tk by (auto simp: filter_empty_conv)
qed

lemma hd_alarm_insert:
  assumes "\<not> (\<exists>y \<in> set (take (MAX_WATCH_ALARMS - 1) xs). epoch y \<le> epoch al)" and "length xs \<le> MAX_WATCH_ALARMS"
  shows "hd (alarm_insert al xs) = al"
proof -
  have "set (if length xs = MAX_WATCH_ALARMS then butlast xs else xs) \<subseteq> set (take (MAX_WATCH_ALARMS - 1) xs)"
    using assms(2) by (auto simp: butlast_conv_take alarm_consts)
  then have "filter (\<lambda>y. epoch y \<le> epoch al) (if length xs = MAX_WATCH_ALARMS then butlast xs else xs) = []"
    using assms(1) by (auto simp: filter_empty_conv)
  then show ?thesis
    by (simp only: alarm_insert_def Let_def append_Nil list.sel)
qed

lemma create_correct:
  assumes ok: "alarms_ok a" and a: "am_alarms m = Some a" and l: "am_mutex m \<longrightarrow> take_ok"
    and e: "epoch al < 4294967296" and now: "now < 4294967296" "now2 + ALARM_BUFFER_SEC < 4294967296"
    and acc: "alarm_acceptable now al (alarm_list a)" and t: "am_timer m"
  shows "\<exists>a1. alarms_ok a1 \<and> alarm_list a1 = alarm_insert al (alarm_list a) \<and>
     alarm_manager_create_alarm take_ok now now2 (Some al) m =
       Some (True, if \<exists>y \<in> set (take (MAX_WATCH_ALARMS - 1) (alarm_list a)). epoch y \<le> epoch al then []
                   else arm_for now2 al, m\<lparr>am_alarms := Some a1\<rparr>)"
proof (intro exI [of _ "created al a"] conjI alarms_ok_created [OF ok e] alarm_list_created [OF ok])
  let ?a1 = "created al a"
  have "length (alarm_list ?a1) > 0"
    unfolding alarm_list_created [OF ok] by (simp add: alarm_insert_def Let_def)
  then have n: "as_n_alarms ?a1 > 0"
    by (simp add: alarm_list_def)
  have "schedule_next_alarm_internal now2 (m\<lparr>am_alarms := Some ?a1\<rparr>) = arm_for now2 (hd (alarm_list ?a1))"
    using alarms_ok_created [OF ok e] n t now by (intro schedule_eq) simp_all
  moreover have "hd (alarm_list ?a1) = al"
    if "\<not> (\<exists>y \<in> set (take (MAX_WATCH_ALARMS - 1) (alarm_list a)). epoch y \<le> epoch al)"
    using hd_alarm_insert [OF that] length_alarm_list [OF ok] ok
    by (simp add: alarm_list_created [OF ok] alarms_ok_def)
  ultimately show "alarm_manager_create_alarm take_ok now now2 (Some al) m =
       Some (True, if \<exists>y \<in> set (take (MAX_WATCH_ALARMS - 1) (alarm_list a)). epoch y \<le> epoch al then []
                   else arm_for now2 al, m\<lparr>am_alarms := Some ?a1\<rparr>)"
    using create_eq [OF ok a l e now(1), of now2] acc created_head [OF ok, of al] by (simp only: Let_def if_True if_False split: if_splits) auto
qed

section \<open>Editing\<close>

lemma edit_decompose:
  assumes ok: "alarms_ok a" and a: "am_alarms m = Some a" and l: "am_mutex m \<longrightarrow> t0 \<and> t1 \<and> t2 \<and> t3"
    and i: "0 \<le> index" "index < int (as_n_alarms a)"
  shows "\<exists>a1 c1. alarms_ok a1 \<and> alarm_list a1 = remove_nth (nat index) (alarm_list a) \<and>
     alarm_manager_edit_alarm t0 t1 t2 t3 n1 n2 n2' n3 n3' index (Some new) m =
       do {
         (ok, c2, m2) \<leftarrow> alarm_manager_create_alarm t2 n2 n2' (Some new) (m\<lparr>am_alarms := Some a1\<rparr>);
         if ok then Some (True, c1 @ c2, m2)
         else do {
           (ok3, c3, m3) \<leftarrow> alarm_manager_create_alarm t3 n3 n3' (Some (alarm_list a ! nat index)) m2;
           Some (False, c1 @ c2 @ c3, m3)
         }
       }"
proof -
  have "am_mutex m \<longrightarrow> t1"
    using l by simp
  from delete_eq [OF ok a this i, of n1] obtain a1 c1 where a1: "alarms_ok a1"
    "alarm_list a1 = remove_nth (nat index) (alarm_list a)"
    "alarm_manager_delete_alarm t1 n1 index m = Some (True, c1, m\<lparr>am_alarms := Some a1\<rparr>)"
    by blast
  have "nat index < length (as_alarms a)" "as_alarms a ! nat index = alarm_list a ! nat index"
    using ok i by (auto simp: alarms_ok_def alarm_list_def)
  then show ?thesis
    using a1 a l i by (intro exI [of _ a1] exI [of _ c1]) (auto simp: alarm_manager_edit_alarm_def rd_def)
qed

lemma nth_alarm_list:
  "alarms_ok a \<Longrightarrow> 0 \<le> index \<Longrightarrow> index < int (as_n_alarms a) \<Longrightarrow>
   alarm_list a ! nat index \<in> set (alarm_list a) \<and> epoch (alarm_list a ! nat index) < 4294967296"
  using length_alarm_list [of a] by (auto simp: alarms_ok_def)

lemma sorted_remove_insert:
  assumes srt: "sorted (map epoch xs)" and d: "distinct (map epoch xs)" and i: "i < length xs"
  shows "filter (\<lambda>y. epoch y \<le> epoch (xs ! i)) (remove_nth i xs) @ xs ! i #
     filter (\<lambda>y. \<not> epoch y \<le> epoch (xs ! i)) (remove_nth i xs) = xs"
proof -
  have xs: "xs = take i xs @ xs ! i # drop (Suc i) xs"
    using i by (rule id_take_nth_drop)
  have "sorted (map epoch (take i xs @ xs ! i # drop (Suc i) xs))"
    "distinct (map epoch (take i xs @ xs ! i # drop (Suc i) xs))"
    using srt d xs by simp_all
  then have "\<forall>y \<in> set (take i xs). epoch y \<le> epoch (xs ! i)"
    "\<forall>y \<in> set (drop (Suc i) xs). \<not> epoch y \<le> epoch (xs ! i)"
    unfolding map_append sorted_append distinct_append by auto (metis image_eqI order.antisym)
  then have "filter (\<lambda>y. epoch y \<le> epoch (xs ! i)) (remove_nth i xs) = take i xs"
    "filter (\<lambda>y. \<not> epoch y \<le> epoch (xs ! i)) (remove_nth i xs) = drop (Suc i) xs"
    by (simp_all add: remove_nth_def)
  then show ?thesis
    using xs by simp
qed

lemma reinsert_removed:
  assumes ok: "alarms_ok a" and d: "distinct (map epoch (alarm_list a))" and i: "i < length (alarm_list a)"
  shows "alarm_insert (alarm_list a ! i) (remove_nth i (alarm_list a)) = alarm_list a"
    and "length (remove_nth i (alarm_list a)) < MAX_WATCH_ALARMS"
    and "epoch (alarm_list a ! i) \<notin> epoch ` set (remove_nth i (alarm_list a))"
proof -
  let ?xs = "alarm_list a"
  have srt: "sorted (map epoch ?xs)" "length ?xs \<le> MAX_WATCH_ALARMS"
    using ok length_alarm_list [OF ok] by (simp_all add: alarms_ok_def)
  show len: "length (remove_nth i ?xs) < MAX_WATCH_ALARMS"
    using length_remove_nth [OF i] i srt(2) by simp
  then show "alarm_insert (?xs ! i) (remove_nth i ?xs) = ?xs"
    using sorted_remove_insert [OF srt(1) d i] by (simp add: alarm_insert_def)
  have "distinct (map epoch (take i ?xs @ ?xs ! i # drop (Suc i) ?xs))"
    using d i by (simp flip: id_take_nth_drop)
  then show "epoch (?xs ! i) \<notin> epoch ` set (remove_nth i ?xs)"
    by (auto simp: remove_nth_def)
qed

section \<open>Properties\<close>

text \<open>
  C12: creating an alarm. An alarm that is more than five seconds and at most a year ahead, whose time
  is not in the list yet and, when the list is full, that comes before the last entry, is inserted in
  time order (a full list loses its last entry); the array stays sorted, in bounds and within its
  capacity, and the timer is armed for the new alarm when it becomes the first one.
\<close>

theorem alarm_create_inserts:
  assumes "alarms_ok a" and "am_alarms m = Some a" and "am_mutex m \<longrightarrow> take_ok"
    and "epoch al < 4294967296" and "now < 4294967296" and "now2 + ALARM_BUFFER_SEC < 4294967296"
    and "alarm_acceptable now al (alarm_list a)" and "am_timer m"
  shows "\<exists>a1. alarms_ok a1 \<and> alarm_list a1 = alarm_insert al (alarm_list a) \<and>
     alarm_manager_create_alarm take_ok now now2 (Some al) m =
       Some (True, if \<exists>y \<in> set (take (MAX_WATCH_ALARMS - 1) (alarm_list a)). epoch y \<le> epoch al then []
                   else arm_for now2 al, m\<lparr>am_alarms := Some a1\<rparr>)"
  using assms by (rule create_correct)

definition ex_alarm :: "nat \<Rightarrow> alarm" where
  "ex_alarm t = \<lparr>epoch = t, al_type = ALARM_TYPE_WATCH, sync_with_phone = False\<rparr>"

definition ex_alarms :: "nat list \<Rightarrow> alarm_sync" where
  "ex_alarms ts = \<lparr>as_alarms = map ex_alarm ts @ replicate (5 - length ts) (ex_alarm 0), as_n_alarms = length ts, as_valid = 1\<rparr>"

definition ex_mgr :: "nat list \<Rightarrow> alarm_mgr" where
  "ex_mgr ts = \<lparr>am_alarms = Some (ex_alarms ts), am_timer = True, am_mutex = True\<rparr>"

lemma ex_alarms_list: "alarm_list (ex_alarms ts) = map ex_alarm ts"
  by (simp add: alarm_list_def ex_alarms_def)

lemma ex_alarms_ok:
  "length ts \<le> 5 \<Longrightarrow> sorted ts \<Longrightarrow> \<forall>t \<in> set ts. t < 4294967296 \<Longrightarrow> alarms_ok (ex_alarms ts)"
  by (simp add: alarms_ok_def ex_alarms_list comp_def ex_alarm_def alarm_consts) (simp add: ex_alarms_def)

lemma ex_mgr_simps [simp]:
  "am_alarms (ex_mgr ts) = Some (ex_alarms ts)" "am_timer (ex_mgr ts)" "am_mutex (ex_mgr ts)"
  "epoch (ex_alarm t) = t" "as_n_alarms (ex_alarms ts) = length ts"
  by (simp_all add: ex_mgr_def ex_alarm_def ex_alarms_def)

theorem alarm_create_inserts_witness:
  "\<exists>a1. alarms_ok a1 \<and> map epoch (alarm_list a1) = [150, 200, 300] \<and>
     alarm_manager_create_alarm True 100 100 (Some (ex_alarm 150)) (ex_mgr [200, 300]) =
       Some (True, [Alarm_timer_stop, Alarm_timer_start_once 50000000], (ex_mgr [200, 300])\<lparr>am_alarms := Some a1\<rparr>)"
proof -
  obtain a1 where "alarms_ok a1" "alarm_list a1 = alarm_insert (ex_alarm 150) [ex_alarm 200, ex_alarm 300]"
    "alarm_manager_create_alarm True 100 100 (Some (ex_alarm 150)) (ex_mgr [200, 300]) =
       Some (True, arm_for 100 (ex_alarm 150), (ex_mgr [200, 300])\<lparr>am_alarms := Some a1\<rparr>)"
    using alarm_create_inserts [of "ex_alarms [200, 300]" "ex_mgr [200, 300]" True "ex_alarm 150" 100 100]
      ex_alarms_ok [of "[200, 300]"]
    by (auto simp: ex_alarms_list alarm_acceptable_def alarm_consts)
  then show ?thesis
    by (intro exI [of _ a1]) (simp add: alarm_insert_def arm_for_def alarm_consts)
qed

text \<open>An alarm that fails one of the checks is refused and nothing changes.\<close>

lemma create_refused:
  assumes "alarms_ok a" and "am_alarms m = Some a" and "am_mutex m \<longrightarrow> take_ok"
    and "epoch al < 4294967296" and "now < 4294967296" and "\<not> alarm_acceptable now al (alarm_list a)"
  shows "alarm_manager_create_alarm take_ok now now2 (Some al) m = Some (False, [], m)"
  using create_eq [OF assms(1-5), of now2] assms(6) by simp

lemma edit_refused:
  assumes ok: "alarms_ok a" and a: "am_alarms m = Some a" and l: "am_mutex m \<longrightarrow> t0 \<and> t1 \<and> t2 \<and> t3"
    and i: "0 \<le> index" "index < int (as_n_alarms a)" and new: "epoch new < 4294967296"
    and n2: "n2 < 4294967296"
    and no: "\<not> alarm_acceptable n2 new (remove_nth (nat index) (alarm_list a))"
  shows "\<exists>a1 c1. alarms_ok a1 \<and> alarm_list a1 = remove_nth (nat index) (alarm_list a) \<and>
     alarm_manager_edit_alarm t0 t1 t2 t3 n1 n2 n2' n3 n3' index (Some new) m =
       do {
         (ok3, c3, m3) \<leftarrow> alarm_manager_create_alarm t3 n3 n3' (Some (alarm_list a ! nat index)) (m\<lparr>am_alarms := Some a1\<rparr>);
         Some (False, c1 @ c3, m3)
       }"
proof -
  obtain a1 c1 where a1: "alarms_ok a1" "alarm_list a1 = remove_nth (nat index) (alarm_list a)"
    "alarm_manager_edit_alarm t0 t1 t2 t3 n1 n2 n2' n3 n3' index (Some new) m =
       do {
         (ok, c2, m2) \<leftarrow> alarm_manager_create_alarm t2 n2 n2' (Some new) (m\<lparr>am_alarms := Some a1\<rparr>);
         if ok then Some (True, c1 @ c2, m2)
         else do {
           (ok3, c3, m3) \<leftarrow> alarm_manager_create_alarm t3 n3 n3' (Some (alarm_list a ! nat index)) m2;
           Some (False, c1 @ c2 @ c3, m3)
         }
       }"
    using edit_decompose [OF ok a l i] by blast
  have "alarm_manager_create_alarm t2 n2 n2' (Some new) (m\<lparr>am_alarms := Some a1\<rparr>) =
      Some (False, [], m\<lparr>am_alarms := Some a1\<rparr>)"
    using a1 l new n2 no by (intro create_refused [of a1]) simp_all
  then show ?thesis
    using a1 by (intro exI [of _ a1] exI [of _ c1]) simp
qed

text \<open>
  An edit that is refused is rolled back: when the replaced alarm itself is still more than five
  seconds and at most a year ahead, the list after a refused edit is the list before it.
\<close>

lemma alarm_edit_rolls_back:
  assumes "alarms_ok a" and "am_alarms m = Some a" and "am_mutex m \<longrightarrow> t0 \<and> t1 \<and> t2 \<and> t3"
    and "0 \<le> index" and "index < int (as_n_alarms a)" and "epoch new < 4294967296" and "n2 < 4294967296"
    and "\<not> alarm_acceptable n2 new (remove_nth (nat index) (alarm_list a))"
    and "distinct (map epoch (alarm_list a))" and "am_timer m" and "n3' + ALARM_BUFFER_SEC < 4294967296"
    and "n3 + ALARM_BUFFER_SEC < epoch (alarm_list a ! nat index)"
    and "epoch (alarm_list a ! nat index) \<le> n3 + 31536000"
  shows "\<exists>a2 cmds. alarm_manager_edit_alarm t0 t1 t2 t3 n1 n2 n2' n3 n3' index (Some new) m =
       Some (False, cmds, m\<lparr>am_alarms := Some a2\<rparr>) \<and> alarms_ok a2 \<and> alarm_list a2 = alarm_list a"
proof -
  let ?old = "alarm_list a ! nat index"
  obtain a1 c1 where a1: "alarms_ok a1" "alarm_list a1 = remove_nth (nat index) (alarm_list a)"
    "alarm_manager_edit_alarm t0 t1 t2 t3 n1 n2 n2' n3 n3' index (Some new) m =
       do {
         (ok3, c3, m3) \<leftarrow> alarm_manager_create_alarm t3 n3 n3' (Some ?old) (m\<lparr>am_alarms := Some a1\<rparr>);
         Some (False, c1 @ c3, m3)
       }"
    using edit_refused [OF assms(1-8)] by blast
  have old: "epoch ?old < 4294967296"
    using nth_alarm_list [OF assms(1,4,5)] by blast
  have "nat index < length (alarm_list a)"
    using assms(4,5) length_alarm_list [OF assms(1)] by simp
  note r = reinsert_removed [OF assms(1,9) this]
  have "alarm_acceptable n3 ?old (alarm_list a1)"
    using r assms(12,13) by (simp add: alarm_acceptable_def a1(2))
  then obtain a2 c3 where "alarms_ok a2" "alarm_list a2 = alarm_insert ?old (alarm_list a1)"
    "alarm_manager_create_alarm t3 n3 n3' (Some ?old) (m\<lparr>am_alarms := Some a1\<rparr>) =
      Some (True, c3, m\<lparr>am_alarms := Some a2\<rparr>)"
    using create_correct [of a1 "m\<lparr>am_alarms := Some a1\<rparr>" t3 ?old n3 n3'] a1(1) assms(3,10-12) old by auto
  then show ?thesis
    using a1(2,3) r(1) by (intro exI [of _ a2] exI [of _ "c1 @ c3"]) simp
qed

lemma alarm_edit_rolls_back_witness:
  "\<exists>a2 cmds. alarm_manager_edit_alarm True True True True 100 100 100 101 101 0 (Some (ex_alarm 50)) (ex_mgr [200, 300]) =
       Some (False, cmds, (ex_mgr [200, 300])\<lparr>am_alarms := Some a2\<rparr>) \<and> map epoch (alarm_list a2) = [200, 300]"
proof -
  obtain a2 cmds where "alarm_manager_edit_alarm True True True True 100 100 100 101 101 0 (Some (ex_alarm 50)) (ex_mgr [200, 300]) =
       Some (False, cmds, (ex_mgr [200, 300])\<lparr>am_alarms := Some a2\<rparr>)" "alarm_list a2 = alarm_list (ex_alarms [200, 300])"
    using alarm_edit_rolls_back [of "ex_alarms [200, 300]" "ex_mgr [200, 300]" True True True True 0 "ex_alarm 50" 100 101 101 100 100]
      ex_alarms_ok [of "[200, 300]"]
    by (auto simp: ex_alarms_list alarm_acceptable_def alarm_consts)
  then show ?thesis
    by (intro exI [of _ a2] exI [of _ cmds]) (simp add: ex_alarms_list)
qed

text \<open>
  The roll-back has a gap. When the replaced alarm is due within five seconds, a refused edit
  reports failure and the alarm is gone: the list lost an entry that was neither fired nor deleted.
\<close>

lemma alarm_edit_drops_due_alarm:
  assumes "alarms_ok a" and "am_alarms m = Some a" and "am_mutex m \<longrightarrow> t0 \<and> t1 \<and> t2 \<and> t3"
    and "0 \<le> index" and "index < int (as_n_alarms a)" and "epoch new < 4294967296" and "n2 < 4294967296"
    and "\<not> alarm_acceptable n2 new (remove_nth (nat index) (alarm_list a))"
    and "n3 < 4294967296" and "epoch (alarm_list a ! nat index) \<le> n3 + ALARM_BUFFER_SEC"
  shows "\<exists>a2 cmds. alarm_manager_edit_alarm t0 t1 t2 t3 n1 n2 n2' n3 n3' index (Some new) m =
       Some (False, cmds, m\<lparr>am_alarms := Some a2\<rparr>) \<and> alarm_list a2 = remove_nth (nat index) (alarm_list a)"
proof -
  let ?old = "alarm_list a ! nat index"
  obtain a1 c1 where a1: "alarms_ok a1" "alarm_list a1 = remove_nth (nat index) (alarm_list a)"
    "alarm_manager_edit_alarm t0 t1 t2 t3 n1 n2 n2' n3 n3' index (Some new) m =
       do {
         (ok3, c3, m3) \<leftarrow> alarm_manager_create_alarm t3 n3 n3' (Some ?old) (m\<lparr>am_alarms := Some a1\<rparr>);
         Some (False, c1 @ c3, m3)
       }"
    using edit_refused [OF assms(1-8)] by blast
  have "alarm_manager_create_alarm t3 n3 n3' (Some ?old) (m\<lparr>am_alarms := Some a1\<rparr>) =
      Some (False, [], m\<lparr>am_alarms := Some a1\<rparr>)"
    using a1(1) assms(3,9,10) nth_alarm_list [OF assms(1,4,5)]
    by (intro create_refused [of a1]) (simp_all add: alarm_acceptable_def)
  then show ?thesis
    using a1 by (intro exI [of _ a1] exI [of _ c1]) simp
qed

lemma alarm_edit_drops_due_alarm_witness:
  "\<exists>a2 cmds. alarm_manager_edit_alarm True True True True 100 100 100 100 100 0 (Some (ex_alarm 50)) (ex_mgr [103, 300]) =
       Some (False, cmds, (ex_mgr [103, 300])\<lparr>am_alarms := Some a2\<rparr>) \<and> map epoch (alarm_list a2) = [300]"
proof -
  obtain a2 cmds where "alarm_manager_edit_alarm True True True True 100 100 100 100 100 0 (Some (ex_alarm 50)) (ex_mgr [103, 300]) =
       Some (False, cmds, (ex_mgr [103, 300])\<lparr>am_alarms := Some a2\<rparr>)" "alarm_list a2 = remove_nth 0 (alarm_list (ex_alarms [103, 300]))"
    using alarm_edit_drops_due_alarm [of "ex_alarms [103, 300]" "ex_mgr [103, 300]" True True True True 0 "ex_alarm 50" 100 100 100 100 100]
      ex_alarms_ok [of "[103, 300]"]
    by (auto simp: ex_alarms_list alarm_acceptable_def alarm_consts)
  then show ?thesis
    by (intro exI [of _ a2] exI [of _ cmds]) (simp add: ex_alarms_list remove_nth_def)
qed

text \<open>Initialisation sorts what the RTC memory kept and discards what is due.\<close>

lemma init_correct:
  assumes "length (as_alarms a) = MAX_WATCH_ALARMS" and "as_n_alarms a \<le> MAX_WATCH_ALARMS"
    and "\<forall>x \<in> set (alarm_list a). epoch x < 4294967296"
  shows "\<exists>a2 cmds. alarm_manager_init True True now now2 (Some a) m =
       Some (cmds, \<lparr>am_alarms = Some a2, am_timer = True, am_mutex = True\<rparr>) \<and> alarms_ok a2 \<and>
     set (alarm_list a2) = {x \<in> set (alarm_list a). u32 (now + ALARM_BUFFER_SEC) < epoch x}"
proof -
  let ?n = "as_n_alarms a"
  let ?a1 = "if ?n > 0 then a\<lparr>as_alarms := qsort compare_alarms (take ?n (as_alarms a)) @ drop ?n (as_alarms a)\<rparr> else a"
  have l: "alarm_list ?a1 = qsort compare_alarms (alarm_list a)"
    using assms(1,2) by (cases "?n = 0") (simp_all add: alarm_list_def length_qsort, simp add: qsort_def)
  have "length (as_alarms ?a1) = MAX_WATCH_ALARMS" "as_n_alarms ?a1 \<le> MAX_WATCH_ALARMS"
    using assms(1,2) by (simp_all add: length_qsort)
  then have "alarms_ok ?a1"
    unfolding alarms_ok_def l using assms(3) by (simp add: sorted_qsort set_qsort)
  from discard_correct [OF this, of now] obtain a2 where a2: "discard_expired_alarms now ?a1 = Some a2" "alarms_ok a2"
    "alarm_list a2 = filter (\<lambda>x. u32 (now + ALARM_BUFFER_SEC) < epoch x) (alarm_list ?a1)"
    by blast
  have "set (alarm_list a2) = {x \<in> set (alarm_list a). u32 (now + ALARM_BUFFER_SEC) < epoch x}"
    using a2(3) unfolding l by (simp add: set_qsort)
  then show ?thesis
    using a2(1,2) assms(2) by (intro exI [of _ a2]) (simp add: alarm_manager_init_def Let_def)
qed

text \<open>
  When the timer fires, the first alarm leaves the list, the timer is armed for the next one when
  there is one, and \<open>EVENT_ALARM_TRIGGERED\<close> is published with the alarm that fired, after the list was
  updated.
\<close>

lemma alarm_fired_publishes_head:
  assumes "alarms_ok a" and "am_alarms (as_mgr s) = Some a" and "am_mutex (as_mgr s)" and "am_timer (as_mgr s)"
    and "alarm_list a = al # rest" and "now + ALARM_BUFFER_SEC < 4294967296"
  shows "\<exists>a1. alarms_ok a1 \<and> alarm_list a1 = rest \<and>
     alarm_fired_cb call True now s =
       do {
         (ok, s1) \<leftarrow> event_publish call
            (Some \<lparr>ev = EVENT_ALARM_TRIGGERED, ev_payload_len = sizeof_alarm, ev_data = Data_alarm al\<rparr>)
            (s\<lparr>as_mgr := (as_mgr s)\<lparr>am_alarms := Some a1\<rparr>\<rparr>);
         Some (case rest of [] \<Rightarrow> [] | nxt # _ \<Rightarrow> arm_for now nxt, s1)
       }"
proof -
  have n: "as_n_alarms a > 0"
    using length_alarm_list [OF assms(1)] assms(5) by simp
  from fired_pop_eq [OF assms(1-3) TrueI this, of now] obtain a1 where a1: "alarms_ok a1" "alarm_list a1 = rest"
    "alarm_fired_pop True now (as_mgr s) = Some (Some al,
       if as_n_alarms a1 > 0 then schedule_next_alarm_internal now ((as_mgr s)\<lparr>am_alarms := Some a1\<rparr>) else [],
       (as_mgr s)\<lparr>am_alarms := Some a1\<rparr>)"
    using assms(5) by auto
  have "as_n_alarms a1 = length rest"
    using length_alarm_list [OF a1(1)] a1(2) by simp
  moreover have "schedule_next_alarm_internal now ((as_mgr s)\<lparr>am_alarms := Some a1\<rparr>) = arm_for now (hd rest)"
    if "as_n_alarms a1 > 0"
    using that a1(1,2) assms(4,6) schedule_eq [of "(as_mgr s)\<lparr>am_alarms := Some a1\<rparr>" a1 now] by simp
  ultimately show ?thesis
    using a1 by (intro exI [of _ a1]) (cases rest; simp add: alarm_fired_cb_def)
qed

lemma alarm_fired_publishes_head_witness:
  "\<exists>a1. alarm_list a1 = [ex_alarm 300] \<and>
     alarm_fired_cb (\<lambda>h e s. s) True 100
       \<lparr>em_subscriptions = [] :: nat event_subscription list, em_initialized = True, as_mgr = ex_mgr [103, 300]\<rparr> =
     do {
       (ok, s1) \<leftarrow> event_publish (\<lambda>h e s. s)
          (Some \<lparr>ev = EVENT_ALARM_TRIGGERED, ev_payload_len = sizeof_alarm, ev_data = Data_alarm (ex_alarm 103)\<rparr>)
          \<lparr>em_subscriptions = [], em_initialized = True, as_mgr = (ex_mgr [103, 300])\<lparr>am_alarms := Some a1\<rparr>\<rparr>;
       Some (arm_for 100 (ex_alarm 300), s1)
     }"
  using alarm_fired_publishes_head [of "ex_alarms [103, 300]"
      "\<lparr>em_subscriptions = [] :: nat event_subscription list, em_initialized = True, as_mgr = ex_mgr [103, 300]\<rparr>"
      "ex_alarm 103" "[ex_alarm 300]" 100 "\<lambda>h e s. s"] ex_alarms_ok [of "[103, 300]"]
  by (auto simp: ex_alarms_list alarm_consts)

section \<open>Reachable lists\<close>

text \<open>The operations that change the list, in any order and with any outcome of the locks and the clock.\<close>

inductive alarm_step :: "alarm_mgr \<Rightarrow> alarm_mgr \<Rightarrow> bool" where
  create: "alarm_manager_create_alarm t now now2 (Some al) m = Some (r, cmds, m') \<Longrightarrow> epoch al < 4294967296 \<Longrightarrow>
     now < 4294967296 \<Longrightarrow> alarm_step m m'"
| delete: "alarm_manager_delete_alarm t now index m = Some (r, cmds, m') \<Longrightarrow> alarm_step m m'"
| revalidate: "alarm_manager_revalidate t now now2 m = Some (r, cmds, m') \<Longrightarrow> alarm_step m m'"
| fired: "alarm_fired_pop t now m = Some (al, cmds, m') \<Longrightarrow> alarm_step m m'"

inductive_cases alarm_stepE: "alarm_step m m'"

definition alarm_mgr_ok :: "alarm_mgr \<Rightarrow> bool" where
  "alarm_mgr_ok m \<longleftrightarrow> (case am_alarms m of None \<Rightarrow> True | Some a \<Rightarrow> alarms_ok a \<and> distinct (map epoch (alarm_list a)))"

lemma distinct_filter_map: "distinct (map f xs) \<Longrightarrow> distinct (map f (filter P xs))"
  by (simp add: distinct_map inj_on_def)

lemma create_keeps:
  assumes "alarm_manager_create_alarm t now now2 (Some al) m = Some (r, cmds, m')" and "alarm_mgr_ok m"
    and "epoch al < 4294967296" and "now < 4294967296"
  shows "alarm_mgr_ok m'"
proof (cases "am_alarms m")
  case None
  then show ?thesis
    using assms by (simp add: alarm_manager_create_alarm_def)
next
  case (Some a)
  have ok: "alarms_ok a" "distinct (map epoch (alarm_list a))"
    using assms(2) Some by (simp_all add: alarm_mgr_ok_def)
  show ?thesis
  proof (cases "am_mutex m \<longrightarrow> t")
    case True
    have "alarm_mgr_ok (m\<lparr>am_alarms := Some (created al a)\<rparr>)" if "alarm_acceptable now al (alarm_list a)"
      using that alarms_ok_created [OF ok(1) assms(3)] distinct_alarm_insert [OF ok(2), of al]
      by (simp add: alarm_mgr_ok_def alarm_list_created [OF ok(1)] alarm_acceptable_def)
    then show ?thesis
      using create_eq [OF ok(1) Some True assms(3,4), of now2] assms(1,2) by (auto simp: Let_def split: if_splits)
  next
    case False
    then show ?thesis
      using assms(1,2) Some ok(1) by (auto simp: alarm_manager_create_alarm_def alarms_ok_def)
  qed
qed

lemma delete_keeps:
  assumes "alarm_manager_delete_alarm t now index m = Some (r, cmds, m')" and "alarm_mgr_ok m"
  shows "alarm_mgr_ok m'"
proof (cases "\<exists>a. am_alarms m = Some a \<and> (am_mutex m \<longrightarrow> t) \<and> 0 \<le> index \<and> index < int (as_n_alarms a)")
  case True
  then obtain a where a: "am_alarms m = Some a" "am_mutex m \<longrightarrow> t" "0 \<le> index" "index < int (as_n_alarms a)"
    by blast
  have ok: "alarms_ok a" "distinct (map epoch (alarm_list a))"
    using assms(2) a(1) by (simp_all add: alarm_mgr_ok_def)
  show ?thesis
    using delete_eq [OF ok(1) a, of now] assms(1) distinct_remove_nth [OF ok(2), of "nat index"]
    by (auto simp: alarm_mgr_ok_def remove_nth_map)
next
  case False
  then show ?thesis
    using assms by (auto simp: alarm_manager_delete_alarm_def split: option.splits if_splits)
qed

lemma revalidate_keeps:
  assumes "alarm_manager_revalidate t now now2 m = Some (r, cmds, m')" and "alarm_mgr_ok m"
  shows "alarm_mgr_ok m'"
proof (cases "am_alarms m")
  case None
  then show ?thesis
    using assms by (simp add: alarm_manager_revalidate_def)
next
  case (Some a)
  have ok: "alarms_ok a" "distinct (map epoch (alarm_list a))"
    using assms(2) Some by (simp_all add: alarm_mgr_ok_def)
  obtain a1 where "discard_expired_alarms now a = Some a1" "alarms_ok a1"
    "alarm_list a1 = filter (\<lambda>x. u32 (now + ALARM_BUFFER_SEC) < epoch x) (alarm_list a)"
    using discard_correct [OF ok(1)] by blast
  then show ?thesis
    using assms Some distinct_filter_map [OF ok(2)]
    by (auto simp: alarm_manager_revalidate_def alarm_mgr_ok_def Let_def split: if_splits)
qed

lemma fired_keeps:
  assumes "alarm_fired_pop t now m = Some (al, cmds, m')" and "alarm_mgr_ok m"
  shows "alarm_mgr_ok m'"
proof (cases "\<exists>a. am_alarms m = Some a \<and> am_mutex m \<and> t \<and> as_n_alarms a > 0")
  case True
  then obtain a where a: "am_alarms m = Some a" "am_mutex m" t "as_n_alarms a > 0"
    by blast
  have ok: "alarms_ok a" "distinct (map epoch (alarm_list a))"
    using assms(2) a(1) by (simp_all add: alarm_mgr_ok_def)
  show ?thesis
    using fired_pop_eq [OF ok(1) a, of now] assms(1) distinct_tl [OF ok(2)]
    by (auto simp: alarm_mgr_ok_def map_tl)
next
  case False
  then show ?thesis
    using assms by (auto simp: alarm_fired_pop_def split: option.splits if_splits)
qed

text \<open>
  C11: in every state reachable by creating, deleting, revalidating and firing, the alarms fit the
  array, are sorted by time and have distinct times.
\<close>

theorem alarm_list_invariant:
  assumes "alarm_step\<^sup>*\<^sup>* m m'" and "alarm_mgr_ok m"
  shows "alarm_mgr_ok m'"
  using assms
proof (induction rule: rtranclp_induct)
  case (step y z)
  then show ?case
    by (auto elim!: alarm_stepE intro: create_keeps delete_keeps revalidate_keeps fired_keeps)
qed

theorem alarm_list_invariant_witness:
  "\<exists>a1. alarm_step\<^sup>*\<^sup>* (ex_mgr [200, 300]) ((ex_mgr [200, 300])\<lparr>am_alarms := Some a1\<rparr>) \<and>
     alarm_mgr_ok ((ex_mgr [200, 300])\<lparr>am_alarms := Some a1\<rparr>)"
proof -
  have ok: "alarms_ok (ex_alarms [200, 300])"
    by (intro ex_alarms_ok) simp_all
  obtain a1 where "alarm_manager_delete_alarm True 100 0 (ex_mgr [200, 300]) =
      Some (True, schedule_next_alarm_internal 100 ((ex_mgr [200, 300])\<lparr>am_alarms := Some a1\<rparr>), (ex_mgr [200, 300])\<lparr>am_alarms := Some a1\<rparr>)"
    using delete_eq [OF ok, of "ex_mgr [200, 300]" True 0 100] length_alarm_list
    by (auto simp: ex_alarms_list remove_nth_def dest!: length_alarm_list split: if_splits)
  then have "alarm_step\<^sup>*\<^sup>* (ex_mgr [200, 300]) ((ex_mgr [200, 300])\<lparr>am_alarms := Some a1\<rparr>)"
    by (intro r_into_rtranclp alarm_step.delete)
  moreover have "alarm_mgr_ok (ex_mgr [200, 300])"
    using ok by (simp add: alarm_mgr_ok_def ex_alarms_list)
  ultimately show ?thesis
    using alarm_list_invariant [of "ex_mgr [200, 300]" "(ex_mgr [200, 300])\<lparr>am_alarms := Some a1\<rparr>"] by blast
qed

end
