(* ===== verification/State_Manager.thy ===== *)
theory State_Manager
  imports Alarm_Manager
begin

text \<open>
  The watch state kept in RTC memory (\<open>state_manager.c\<close>): the time of the last synchronisation, the
  weather, the alarms and the step counter, with a registry of the requests sent to the phone.

  The system clock is the field \<open>sys_time\<close>; \<open>settimeofday\<close> sets it and \<open>time(NULL)\<close> reads it. The alarm
  manager works on the alarms of the watch state through a pointer: the model hands the object
  to the alarm manager at initialisation and takes it back when the pointer is dropped. Handlers are
  registered by identity; \<open>hid\<close> gives the identities of the three callbacks of this component.
\<close>

section \<open>State\<close>

record state_entry =
  last_req_time :: nat
  request_pending :: bool

record state_registry =
  reg_time :: state_entry
  reg_weather :: state_entry
  reg_alarms :: state_entry

record watch_state =
  time_state :: time_sync
  weather_state :: weather_sync
  ws_alarms :: alarm_sync
  steps :: nat

record 'h state_sys = "'h alarm_sys" +
  sm_watch :: watch_state
  sm_registry :: state_registry
  sys_time :: nat

datatype state_handler = Update_time_state_cb | Update_weather_state_cb | Update_steps_cb

text \<open>The all-zero objects that \<open>memset\<close> leaves.\<close>

definition zero_hour :: hourly_weather where
  "zero_hour = \<lparr>temperature = 0, humidity = 0, precip_prob = 0, weather_code = 0, wind_speed = 0\<rparr>"

definition zero_weather :: weather_sync where
  "zero_weather = \<lparr>expires_at = 0, hourly_today = replicate 24 zero_hour\<rparr>"

definition zero_alarm :: alarm where
  "zero_alarm = \<lparr>epoch = 0, al_type = ALARM_TYPE_GLOBAL, sync_with_phone = False\<rparr>"

definition zero_alarms :: alarm_sync where
  "zero_alarms = \<lparr>as_alarms = replicate MAX_WATCH_ALARMS zero_alarm, as_n_alarms = 0, as_valid = 0\<rparr>"

definition zero_entry :: state_entry where
  "zero_entry = \<lparr>last_req_time = 0, request_pending = False\<rparr>"

definition zero_watch :: watch_state where
  "zero_watch = \<lparr>time_state = \<lparr>last_sync_time = 0, ts_valid = 0\<rparr>, weather_state = zero_weather,
     ws_alarms = zero_alarms, steps = 0\<rparr>"

definition zero_registry :: state_registry where
  "zero_registry = \<lparr>reg_time = zero_entry, reg_weather = zero_entry, reg_alarms = zero_entry\<rparr>"

lemmas zero_defs = zero_hour_def zero_weather_def zero_alarm_def zero_alarms_def zero_entry_def
  zero_watch_def zero_registry_def

section \<open>Operations\<close>

definition state_manager_get_epoch_time :: "('h, 'z) state_sys_scheme \<Rightarrow> nat" where
  "state_manager_get_epoch_time s = (if ts_valid (time_state (sm_watch s)) = 0 then 0 else u32 (sys_time s))"

definition state_request_complete :: "state_entry \<Rightarrow> state_entry" where
  "state_request_complete e = e\<lparr>last_req_time := 0, request_pending := False\<rparr>"

text \<open>The callback of a time synchronisation; \<open>take_ok\<close> is the outcome of taking the alarm lock.\<close>

definition update_time_state_cb ::
  "bool \<Rightarrow> sys_event \<Rightarrow> ('h, 'z) state_sys_scheme \<Rightarrow> (alarm_cmd list \<times> ('h, 'z) state_sys_scheme) option" where
  "update_time_state_cb take_ok e s =
     (if ev_payload_len e \<noteq> 4 then None
      else case ev_data e of
        Data_time t \<Rightarrow>
          let s1 = s\<lparr>sm_watch := (sm_watch s)\<lparr>time_state := \<lparr>last_sync_time = t, ts_valid = 1\<rparr>\<rparr>,
                     sm_registry := (sm_registry s)\<lparr>reg_time := state_request_complete (reg_time (sm_registry s))\<rparr>,
                     sys_time := t\<rparr>;
              now = state_manager_get_epoch_time s1
          in do {
            (r, cmds, m) \<leftarrow> alarm_manager_revalidate take_ok now now (as_mgr s1);
            Some (cmds, s1\<lparr>as_mgr := m\<rparr>)
          }
      | _ \<Rightarrow> None)"

definition update_weather_state_cb ::
  "sys_event \<Rightarrow> ('h, 'z) state_sys_scheme \<Rightarrow> ('h, 'z) state_sys_scheme option" where
  "update_weather_state_cb e s =
     (if ev_payload_len e \<noteq> sizeof_weather_sync then None
      else case ev_data e of
        Data_weather w \<Rightarrow>
          Some (s\<lparr>sm_watch := (sm_watch s)\<lparr>weather_state := w\<rparr>,
                  sm_registry := (sm_registry s)\<lparr>reg_weather := state_request_complete (reg_weather (sm_registry s))\<rparr>\<rparr>)
      | _ \<Rightarrow> None)"

definition update_steps_cb ::
  "sys_event option \<Rightarrow> ('h, 'z) state_sys_scheme \<Rightarrow> ('h, 'z) state_sys_scheme option" where
  "update_steps_cb ep s =
     (case ep of
        None \<Rightarrow> None
      | Some e \<Rightarrow>
          if ev_payload_len e \<noteq> 4 then None
          else case ev_data e of
            Data_steps n \<Rightarrow> Some (s\<lparr>sm_watch := (sm_watch s)\<lparr>steps := u32 (steps (sm_watch s) + n)\<rparr>\<rparr>)
          | _ \<Rightarrow> None)"

type_synonym ('h, 'z) state_call =
  "'h \<Rightarrow> sys_event \<Rightarrow> ('h, 'z) state_sys_scheme \<Rightarrow> ('h, 'z) state_sys_scheme"

definition sync_request :: "ble_req_type \<Rightarrow> sys_event" where
  "sync_request code =
     \<lparr>ev = EVENT_BLE_REQUEST, ev_payload_len = sizeof_ble_req,
      ev_data = Data_ble_req \<lparr>req_code = code, req_app_id = 0, req_data_len = 0, req_data = None\<rparr>\<rparr>"

text \<open>The three checks of \<open>state_manager_init\<close> on what the RTC memory kept.\<close>

definition wipe_unsynced :: "('h, 'z) state_sys_scheme \<Rightarrow> ('h, 'z) state_sys_scheme" where
  "wipe_unsynced s =
     (if ts_valid (time_state (sm_watch s)) \<noteq> 1 then s\<lparr>sm_watch := zero_watch, sm_registry := zero_registry\<rparr> else s)"

definition wipe_weather :: "('h, 'z) state_sys_scheme \<Rightarrow> ('h, 'z) state_sys_scheme" where
  "wipe_weather s =
     (if state_manager_get_epoch_time s > expires_at (weather_state (sm_watch s))
      then s\<lparr>sm_watch := (sm_watch s)\<lparr>weather_state := zero_weather\<rparr>,
             sm_registry := (sm_registry s)\<lparr>reg_weather := zero_entry\<rparr>\<rparr>
      else s)"

definition wipe_alarms :: "('h, 'z) state_sys_scheme \<Rightarrow> ('h, 'z) state_sys_scheme" where
  "wipe_alarms s =
     (if as_valid (ws_alarms (sm_watch s)) \<noteq> 1 \<or> as_n_alarms (ws_alarms (sm_watch s)) > MAX_WATCH_ALARMS
      then s\<lparr>sm_watch := (sm_watch s)\<lparr>ws_alarms := zero_alarms\<lparr>as_valid := 1\<rparr>\<rparr>,
             sm_registry := (sm_registry s)\<lparr>reg_alarms := zero_entry\<rparr>\<rparr>
      else s)"

definition state_manager_init ::
  "('h, 'z) state_call \<Rightarrow> (state_handler \<Rightarrow> 'h) \<Rightarrow> bool \<Rightarrow> bool \<Rightarrow> ('h, 'z) state_sys_scheme \<Rightarrow>
   (alarm_cmd list \<times> ('h, 'z) state_sys_scheme) option" where
  "state_manager_init call hid timer_ok mutex_ok s =
     (let s1 = wipe_alarms (wipe_weather (wipe_unsynced s)); now = state_manager_get_epoch_time s1 in
      do {
        (cmds, m) \<leftarrow> alarm_manager_init timer_ok mutex_ok now now (Some (ws_alarms (sm_watch s1))) (as_mgr s1);
        let s2 = s1\<lparr>as_mgr := m\<rparr>;
        let (b1, s3) = event_subscribe EVENT_TIME_SYNC (Some (hid Update_time_state_cb)) s2;
        if \<not> b1 then None else do {
          let (b2, s4) = event_subscribe EVENT_WEATHER_SYNC (Some (hid Update_weather_state_cb)) s3;
          if \<not> b2 then None else do {
            let (b3, s5) = event_subscribe EVENT_NEW_STEPS (Some (hid Update_steps_cb)) s4;
            if \<not> b3 then None else do {
              (p1, s6) \<leftarrow> event_publish call (Some (sync_request UPDATE_SYSTEM_TIME)) s5;
              let s7 = (if p1 then s6\<lparr>sm_registry := (sm_registry s6)\<lparr>reg_time :=
                          \<lparr>last_req_time = u32 (sys_time s6), request_pending = True\<rparr>\<rparr>\<rparr>
                        else s6);
              (p2, s8) \<leftarrow> event_publish call (Some (sync_request UPDATE_SYSTEM_WEATHER)) s7;
              Some (cmds, s8)
            }
          }
        }
      })"

definition state_manager_deinit ::
  "(state_handler \<Rightarrow> 'h) \<Rightarrow> ('h, 'z) state_sys_scheme \<Rightarrow> alarm_cmd list \<times> ('h, 'z) state_sys_scheme" where
  "state_manager_deinit hid s =
     (let s1 = (case am_alarms (as_mgr s) of
                  None \<Rightarrow> s
                | Some a \<Rightarrow> s\<lparr>sm_watch := (sm_watch s)\<lparr>ws_alarms := a\<rparr>\<rparr>);
          (cmds, m) = alarm_manager_deinit (as_mgr s1);
          s2 = snd (event_unsubscribe EVENT_TIME_SYNC (Some (hid Update_time_state_cb)) (s1\<lparr>as_mgr := m\<rparr>));
          s3 = snd (event_unsubscribe EVENT_WEATHER_SYNC (Some (hid Update_weather_state_cb)) s2);
          s4 = snd (event_unsubscribe EVENT_NEW_STEPS (Some (hid Update_steps_cb)) s3)
      in (cmds, s4))"

definition state_manager_get_weather_today :: "('h, 'z) state_sys_scheme \<Rightarrow> hourly_weather list" where
  "state_manager_get_weather_today s = hourly_today (weather_state (sm_watch s))"

definition state_manager_get_step_count :: "('h, 'z) state_sys_scheme \<Rightarrow> nat" where
  "state_manager_get_step_count s = steps (sm_watch s)"

text \<open>The decision of \<open>state_manager_check_validity\<close> (with its update of the registry), then the request.\<close>

definition validity_decision :: "('h, 'z) state_sys_scheme \<Rightarrow> bool \<times> ('h, 'z) state_sys_scheme" where
  "validity_decision s =
     (let current_uptime = u32 (sys_time s); ts = time_state (sm_watch s); e = reg_time (sm_registry s);
          due = (u32_minus current_uptime (last_req_time e) \<ge> 300);
          marked = s\<lparr>sm_registry := (sm_registry s)\<lparr>reg_time := \<lparr>last_req_time = current_uptime, request_pending = True\<rparr>\<rparr>\<rparr>
      in if ts_valid ts \<noteq> 0 then
           if u32_minus (state_manager_get_epoch_time s) (last_sync_time ts) > 3600
           then if due then (True, marked) else (False, s)
           else (False, s)
         else if due then (True, marked) else (False, s))"

definition state_manager_check_validity ::
  "('h, 'z) state_call \<Rightarrow> ('h, 'z) state_sys_scheme \<Rightarrow> ('h, 'z) state_sys_scheme option" where
  "state_manager_check_validity call s =
     (let (fire_time_sync, s1) = validity_decision s in
      if fire_time_sync then do {
        (b, s2) \<leftarrow> event_publish call (Some (sync_request UPDATE_SYSTEM_TIME)) s1;
        Some s2
      }
      else Some s1)"

section \<open>Time synchronisation\<close>

lemma revalidate_correct:
  assumes ok: "alarms_ok a" and m: "am_alarms m = Some a" "am_timer m" "am_mutex m \<longrightarrow> take_ok"
    and now: "now + ALARM_BUFFER_SEC < 4294967296"
  shows "\<exists>a1. alarms_ok a1 \<and> alarm_list a1 = filter (\<lambda>x. now + ALARM_BUFFER_SEC < epoch x) (alarm_list a) \<and>
     alarm_manager_revalidate take_ok now now m =
       Some (True, case alarm_list a1 of [] \<Rightarrow> [Alarm_timer_stop] | nxt # _ \<Rightarrow> arm_for now nxt,
             m\<lparr>am_alarms := Some a1\<rparr>)"
proof -
  obtain a1 where a1: "discard_expired_alarms now a = Some a1" "alarms_ok a1"
    "alarm_list a1 = filter (\<lambda>x. now + ALARM_BUFFER_SEC < epoch x) (alarm_list a)"
    using discard_correct [OF ok, of now] now by (auto simp: u32_id)
  have n: "as_n_alarms a1 = length (alarm_list a1)"
    using length_alarm_list [OF a1(2)] by simp
  have "schedule_next_alarm_internal now (m\<lparr>am_alarms := Some a1\<rparr>) = arm_for now (hd (alarm_list a1))"
    if "as_n_alarms a1 > 0"
    using that a1(2) m(2) now by (intro schedule_eq) simp_all
  then show ?thesis
    using a1 m n
    by (intro exI [of _ a1]) (auto simp: alarm_manager_revalidate_def Let_def split: list.split)
qed

text \<open>
  A time synchronisation to \<open>t\<close> makes \<open>t\<close> the watch's time, closes the pending request, and
  leaves of the alarms exactly those more than five seconds ahead of \<open>t\<close>, with the timer armed for the
  first of them (or stopped when none is left).
\<close>

lemma time_sync_applies:
  fixes s :: "('h, 'z) state_sys_scheme"
  assumes "alarms_ok a" and "am_alarms (as_mgr s) = Some a" and "am_timer (as_mgr s)"
    and "am_mutex (as_mgr s) \<longrightarrow> take_ok" and "t + ALARM_BUFFER_SEC < 4294967296"
  shows "\<exists>s' a1. update_time_state_cb take_ok \<lparr>ev = EVENT_TIME_SYNC, ev_payload_len = 4, ev_data = Data_time t\<rparr> s =
       Some (case alarm_list a1 of [] \<Rightarrow> [Alarm_timer_stop] | nxt # _ \<Rightarrow> arm_for t nxt, s') \<and>
     state_manager_get_epoch_time s' = t \<and> \<not> request_pending (reg_time (sm_registry s')) \<and>
     am_alarms (as_mgr s') = Some a1 \<and> alarms_ok a1 \<and>
     alarm_list a1 = filter (\<lambda>x. t + ALARM_BUFFER_SEC < epoch x) (alarm_list a) \<and>
     weather_state (sm_watch s') = weather_state (sm_watch s) \<and> steps (sm_watch s') = steps (sm_watch s)"
proof -
  obtain a1 where a1: "alarms_ok a1" "alarm_list a1 = filter (\<lambda>x. t + ALARM_BUFFER_SEC < epoch x) (alarm_list a)"
    "alarm_manager_revalidate take_ok t t (as_mgr s) =
       Some (True, case alarm_list a1 of [] \<Rightarrow> [Alarm_timer_stop] | nxt # _ \<Rightarrow> arm_for t nxt,
             (as_mgr s)\<lparr>am_alarms := Some a1\<rparr>)"
    using revalidate_correct [OF assms(1-5)] by blast
  have t: "u32 t = t"
    using assms(5) by (simp add: u32_id)
  show ?thesis
    using a1
    by (intro exI [of _ "s\<lparr>sm_watch := (sm_watch s)\<lparr>time_state := \<lparr>last_sync_time = t, ts_valid = 1\<rparr>\<rparr>,
                     sm_registry := (sm_registry s)\<lparr>reg_time := state_request_complete (reg_time (sm_registry s))\<rparr>,
                     sys_time := t, as_mgr := (as_mgr s)\<lparr>am_alarms := Some a1\<rparr>\<rparr>"] exI [of _ a1])
      (simp add: update_time_state_cb_def state_manager_get_epoch_time_def state_request_complete_def t Let_def)
qed

definition ex_state :: "nat list \<Rightarrow> nat state_sys" where
  "ex_state ts = \<lparr>em_subscriptions = replicate 14 empty_subscription, em_initialized = True,
     as_mgr = ex_mgr ts, sm_watch = zero_watch, sm_registry = zero_registry, sys_time = 0\<rparr>"

lemma time_sync_applies_witness:
  "\<exists>s' a1. update_time_state_cb True \<lparr>ev = EVENT_TIME_SYNC, ev_payload_len = 4, ev_data = Data_time 150\<rparr>
       (ex_state [100, 200]) = Some (arm_for 150 (ex_alarm 200), s') \<and>
     state_manager_get_epoch_time s' = 150 \<and> am_alarms (as_mgr s') = Some a1 \<and> alarm_list a1 = [ex_alarm 200]"
proof -
  have "as_mgr (ex_state [100, 200]) = ex_mgr [100, 200]"
    by (simp add: ex_state_def)
  then show ?thesis
    using time_sync_applies [of "ex_alarms [100, 200]" "ex_state [100, 200]" True 150] ex_alarms_ok [of "[100, 200]"]
    by (auto simp: ex_alarms_list alarm_consts)
qed

section \<open>Steps\<close>

primrec step_events :: "nat list \<Rightarrow> ('h, 'z) state_sys_scheme \<Rightarrow> ('h, 'z) state_sys_scheme option" where
  "step_events [] s = Some s"
| "step_events (n # ns) s = do {
     s1 \<leftarrow> update_steps_cb (Some \<lparr>ev = EVENT_NEW_STEPS, ev_payload_len = 4, ev_data = Data_steps n\<rparr>) s;
     step_events ns s1
   }"

text \<open>The step counter is the sum of all reported steps, modulo \<open>2\<^sup>3\<^sup>2\<close>.\<close>

lemma steps_accumulate:
  fixes s :: "('h, 'z) state_sys_scheme"
  assumes "steps (sm_watch s) < 4294967296"
  shows "\<exists>s'. step_events ns s = Some s' \<and> state_manager_get_step_count s' = u32 (steps (sm_watch s) + sum_list ns)"
  using assms
proof (induction ns arbitrary: s)
  case (Cons n ns)
  let ?s1 = "s\<lparr>sm_watch := (sm_watch s)\<lparr>steps := u32 (steps (sm_watch s) + n)\<rparr>\<rparr>"
  have "u32 (u32 (steps (sm_watch s) + n) + sum_list ns) = u32 (steps (sm_watch s) + (n + sum_list ns))"
    by (simp add: u32_def mod_add_left_eq add.assoc)
  then show ?case
    using Cons.IH [of ?s1] by (simp add: update_steps_cb_def)
qed (simp add: state_manager_get_step_count_def u32_id)

section \<open>Requests are rate limited\<close>

text \<open>A run of checks at the given clock readings; the times at which a request is sent.\<close>

primrec requests_at :: "nat list \<Rightarrow> ('h, 'z) state_sys_scheme \<Rightarrow> nat list" where
  "requests_at [] s = []"
| "requests_at (t # ts) s =
     (let (fire, s1) = validity_decision (s\<lparr>sys_time := t\<rparr>) in (if fire then [t] else []) @ requests_at ts s1)"

lemma validity_decision_cases:
  fixes s :: "('h, 'z) state_sys_scheme"
  assumes "validity_decision s = (b, s1)" and "sys_time s < 4294967296"
  shows "b \<Longrightarrow> u32_minus (sys_time s) (last_req_time (reg_time (sm_registry s))) \<ge> 300 \<and>
           last_req_time (reg_time (sm_registry s1)) = sys_time s"
    and "\<not> b \<Longrightarrow> s1 = s"
  using assms by (auto simp: validity_decision_def Let_def u32_id split: if_splits)

lemma requests_spaced_from:
  fixes s :: "('h, 'z) state_sys_scheme"
  assumes "sorted ts" and "\<forall>t \<in> set ts. last_req_time (reg_time (sm_registry s)) \<le> t \<and> t < 4294967296"
  shows "sorted_wrt (\<lambda>a b. a + 300 \<le> b) (requests_at ts s) \<and>
     (\<forall>r \<in> set (requests_at ts s). last_req_time (reg_time (sm_registry s)) + 300 \<le> r)"
  using assms
proof (induction ts arbitrary: s)
  case (Cons t ts)
  obtain b s1 where d: "validity_decision (s\<lparr>sys_time := t\<rparr>) = (b, s1)"
    by (cases "validity_decision (s\<lparr>sys_time := t\<rparr>)")
  have t: "t < 4294967296" "last_req_time (reg_time (sm_registry s)) \<le> t"
    using Cons.prems by simp_all
  note c = validity_decision_cases [OF d]
  show ?case
  proof (cases b)
    case True
    have "last_req_time (reg_time (sm_registry s1)) = t" "last_req_time (reg_time (sm_registry s)) + 300 \<le> t"
      using c(1) [OF _ True] t by (auto simp: u32_minus_id)
    moreover have "sorted_wrt (\<lambda>a b. a + 300 \<le> b) (requests_at ts s1) \<and>
        (\<forall>r \<in> set (requests_at ts s1). last_req_time (reg_time (sm_registry s1)) + 300 \<le> r)"
      using Cons.prems calculation(1) by (intro Cons.IH) auto
    ultimately show ?thesis
      using True d by fastforce
  next
    case False
    then have s1: "s1 = s\<lparr>sys_time := t\<rparr>"
      using c(2) t by simp
    have "sorted_wrt (\<lambda>a b. a + 300 \<le> b) (requests_at ts s1) \<and>
        (\<forall>r \<in> set (requests_at ts s1). last_req_time (reg_time (sm_registry s1)) + 300 \<le> r)"
      using Cons.prems by (intro Cons.IH) (auto simp: s1)
    then show ?thesis
      using False d by (simp add: s1)
  qed
qed simp

text \<open>
  The validity check never floods the link: however often it runs, two time requests that it
  sends are at least five minutes apart, as long as the clock moves forward.
\<close>

lemma time_requests_rate_limited:
  fixes s :: "('h, 'z) state_sys_scheme"
  assumes "sorted ts" and "\<forall>t \<in> set ts. last_req_time (reg_time (sm_registry s)) \<le> t \<and> t < 4294967296"
  shows "sorted_wrt (\<lambda>a b. a + 300 \<le> b) (requests_at ts s)"
  using requests_spaced_from [OF assms] by blast

lemma time_requests_rate_limited_witness:
  "requests_at [1000, 1200, 1400] (ex_state []) = [1000, 1400] \<and> sorted_wrt (\<lambda>a b. a + 300 \<le> b) [1000, 1400 :: nat]"
proof -
  have "requests_at [1000, 1200, 1400] (ex_state []) = [1000, 1400]"
    by (simp add: validity_decision_def ex_state_def zero_defs Let_def u32_def u32_minus_def)
  then show ?thesis
    using time_requests_rate_limited [of "[1000, 1200, 1400]" "ex_state []"]
    by (simp add: ex_state_def zero_defs)
qed

section \<open>Restart\<close>

lemma event_subscribe_frame:
  "\<exists>t. snd (event_subscribe e hp s) = s\<lparr>em_subscriptions := t\<rparr>"
  "\<exists>t. snd (event_unsubscribe e hp s) = s\<lparr>em_subscriptions := t\<rparr>"
proof -
  have "s = s\<lparr>em_subscriptions := em_subscriptions s\<rparr>"
    by simp
  then have same: "\<exists>t. s = s\<lparr>em_subscriptions := t\<rparr>"
    by blast
  then show "\<exists>t. snd (event_subscribe e hp s) = s\<lparr>em_subscriptions := t\<rparr>"
    "\<exists>t. snd (event_unsubscribe e hp s) = s\<lparr>em_subscriptions := t\<rparr>"
    by (auto simp: event_subscribe_def event_unsubscribe_def put_sub_def Let_def split: option.split)
qed

text \<open>The outcome of the checks on the RTC memory is always a well-formed array of alarms.\<close>

definition rtc_typed :: "alarm_sync \<Rightarrow> bool" where
  "rtc_typed a \<longleftrightarrow> length (as_alarms a) = MAX_WATCH_ALARMS \<and> (\<forall>x \<in> set (as_alarms a). epoch x < 4294967296)"

lemma wiped_alarms_typed:
  assumes "rtc_typed (ws_alarms (sm_watch s))"
  shows "rtc_typed (ws_alarms (sm_watch (wipe_alarms (wipe_weather (wipe_unsynced s))))) \<and>
     as_n_alarms (ws_alarms (sm_watch (wipe_alarms (wipe_weather (wipe_unsynced s))))) \<le> MAX_WATCH_ALARMS"
proof -
  have z: "rtc_typed zero_alarms" "rtc_typed (zero_alarms\<lparr>as_valid := 1\<rparr>)"
    by (simp_all add: rtc_typed_def zero_defs)
  have "rtc_typed (ws_alarms (sm_watch (wipe_weather (wipe_unsynced s))))"
    using assms z by (auto simp: wipe_weather_def wipe_unsynced_def zero_watch_def)
  then show ?thesis
    using z by (auto simp: wipe_alarms_def zero_alarms_def)
qed

lemma rtc_typed_list: "rtc_typed a \<Longrightarrow> \<forall>x \<in> set (alarm_list a). epoch x < 4294967296"
  by (auto simp: rtc_typed_def alarm_list_def dest: in_set_takeD)

text \<open>
  A bus with room for the three callbacks, and subscribers of the requests to the phone (the only event that this component publishes) that leave
  the subscriptions and the alarms alone. Subscribers of other events, the three callbacks among them, may do anything.
\<close>

definition has_room :: "('h, 'z) event_mgr_scheme \<Rightarrow> bool" where
  "has_room s \<longleftrightarrow>
     length (subs s EVENT_TIME_SYNC) < MAX_EVENT_SUBSCRIBERS \<and>
     length (subs s EVENT_WEATHER_SYNC) < MAX_EVENT_SUBSCRIBERS \<and>
     length (subs s EVENT_NEW_STEPS) < MAX_EVENT_SUBSCRIBERS"

definition state_frame :: "('h, 'z) state_call \<Rightarrow> bool" where
  "state_frame call \<longleftrightarrow>
     (\<forall>h e t. ev e = EVENT_BLE_REQUEST \<longrightarrow> em_subscriptions (call h e t) = em_subscriptions t \<and>
        em_initialized (call h e t) = em_initialized t \<and> as_mgr (call h e t) = as_mgr t)"

lemma state_publish:
  fixes s :: "('h, 'z) state_sys_scheme"
  assumes "state_frame call" and "em_ready s"
  shows "\<exists>s'. event_publish call (Some (sync_request code)) s = Some (True, s') \<and> em_ready s' \<and>
     as_mgr s' = as_mgr s \<and> em_subscriptions s' = em_subscriptions s"
proof -
  let ?e = "sync_request code"
  have ne: "ev ?e \<noteq> EVENT_COUNT" "event_index (ev ?e) < event_index EVENT_COUNT" "ev ?e = EVENT_BLE_REQUEST"
    by (simp_all add: sync_request_def)
  let ?s' = "fold (\<lambda>h. call h ?e) (subs s (ev ?e)) s"
  have fr: "em_subscriptions (fold (\<lambda>h. call h ?e) hs t) = em_subscriptions t \<and>
      em_initialized (fold (\<lambda>h. call h ?e) hs t) = em_initialized t \<and> as_mgr (fold (\<lambda>h. call h ?e) hs t) = as_mgr t" for hs t
    using assms(1) ne(3) by (induction hs arbitrary: t) (simp_all add: state_frame_def)
  have "publish_loop call ?e 0 s = Some ?s'"
    using publish_loop_fold [of s ?e call 0] assms ne by (simp add: em_ready_def state_frame_def)
  then have "event_publish call (Some ?e) s = Some (True, ?s')"
    using assms(2) ne(2) by (simp add: event_publish_def em_ready_def not_le)
  then show ?thesis
    using fr [of "subs s (ev ?e)" s] assms(2) by (intro exI [of _ ?s']) (simp add: em_ready_def em_ok_def)
qed

lemma subscribe_ready:
  assumes "em_ready s" and "e \<noteq> EVENT_COUNT" and "length (subs s e) < MAX_EVENT_SUBSCRIBERS"
  shows "\<exists>t. event_subscribe e (Some h) s = (True, s\<lparr>em_subscriptions := t\<rparr>) \<and>
     em_ready (s\<lparr>em_subscriptions := t\<rparr>) \<and> h \<in> set (subs (s\<lparr>em_subscriptions := t\<rparr>) e) \<and>
     (\<forall>e'. e' \<noteq> e \<longrightarrow> subs (s\<lparr>em_subscriptions := t\<rparr>) e' = subs s e')"
proof -
  obtain t where t: "snd (event_subscribe e (Some h) s) = s\<lparr>em_subscriptions := t\<rparr>"
    using event_subscribe_frame(1) by blast
  moreover have "fst (event_subscribe e (Some h) s)"
    using bus.subscribe_fst [OF assms(1,2), of h] assms(3) by simp
  ultimately show ?thesis
    using bus.subscribe_invar [OF assms(1,2), of h] bus.subscribe_handlers [OF assms(1,2), of h]
      bus.subscribe_other [OF assms(1,2), of _ h] by (intro exI [of _ t]) (auto simp: prod_eq_iff)
qed

lemma em_ready_state_update:
  "em_ready (s\<lparr>as_mgr := m\<rparr>) = em_ready s" "em_ready (s\<lparr>sm_registry := r\<rparr>) = em_ready s"
  "em_ready (s\<lparr>sm_watch := w\<rparr>) = em_ready s"
  "subs (s\<lparr>as_mgr := m\<rparr>) e = subs s e" "subs (s\<lparr>sm_registry := r\<rparr>) e = subs s e" "subs (s\<lparr>sm_watch := w\<rparr>) e = subs s e"
  by (simp_all add: em_ready_def em_ok_def subs_def)

lemma wipe_bus:
  "em_ready (wipe_alarms (wipe_weather (wipe_unsynced s))) = em_ready s"
  "subs (wipe_alarms (wipe_weather (wipe_unsynced s))) e = subs s e"
  by (simp_all add: wipe_alarms_def wipe_weather_def wipe_unsynced_def em_ready_state_update)

lemma subs_cong: "em_subscriptions s = em_subscriptions t \<Longrightarrow> subs s e = subs t e"
  by (simp add: subs_def)

text \<open>The tail of \<open>state_manager_init\<close>: registration of the callbacks and the two requests.\<close>

lemma init_tail:
  fixes s :: "('h, 'z) state_sys_scheme"
  assumes rdy: "em_ready s" and room: "has_room s" and fr: "state_frame call"
    and m: "alarm_manager_init timer_ok mutex_ok
       (state_manager_get_epoch_time (wipe_alarms (wipe_weather (wipe_unsynced s))))
       (state_manager_get_epoch_time (wipe_alarms (wipe_weather (wipe_unsynced s))))
       (Some (ws_alarms (sm_watch (wipe_alarms (wipe_weather (wipe_unsynced s))))))
       (as_mgr (wipe_alarms (wipe_weather (wipe_unsynced s)))) = Some (cmds, m)"
  shows "\<exists>s'. state_manager_init call hid timer_ok mutex_ok s = Some (cmds, s') \<and> em_ready s' \<and> as_mgr s' = m \<and>
     hid Update_time_state_cb \<in> set (subs s' EVENT_TIME_SYNC) \<and>
     hid Update_weather_state_cb \<in> set (subs s' EVENT_WEATHER_SYNC) \<and>
     hid Update_steps_cb \<in> set (subs s' EVENT_NEW_STEPS)"
proof -
  let ?s2 = "(wipe_alarms (wipe_weather (wipe_unsynced s)))\<lparr>as_mgr := m\<rparr>"
  have s2: "em_ready ?s2" "\<And>e. subs ?s2 e = subs s e"
    using rdy by (simp_all add: em_ready_state_update wipe_bus)
  obtain t3 where s3: "event_subscribe EVENT_TIME_SYNC (Some (hid Update_time_state_cb)) ?s2 =
      (True, ?s2\<lparr>em_subscriptions := t3\<rparr>)" "em_ready (?s2\<lparr>em_subscriptions := t3\<rparr>)"
    "hid Update_time_state_cb \<in> set (subs (?s2\<lparr>em_subscriptions := t3\<rparr>) EVENT_TIME_SYNC)"
    "\<forall>e'. e' \<noteq> EVENT_TIME_SYNC \<longrightarrow> subs (?s2\<lparr>em_subscriptions := t3\<rparr>) e' = subs s e'"
    using subscribe_ready [OF s2(1), of EVENT_TIME_SYNC] room by (auto simp: has_room_def s2(2))
  let ?s3 = "?s2\<lparr>em_subscriptions := t3\<rparr>"
  have r3: "length (subs ?s3 EVENT_WEATHER_SYNC) < MAX_EVENT_SUBSCRIBERS"
    using room by (simp add: has_room_def s3(4))
  obtain t4 where s4: "event_subscribe EVENT_WEATHER_SYNC (Some (hid Update_weather_state_cb)) ?s3 =
      (True, ?s3\<lparr>em_subscriptions := t4\<rparr>)" "em_ready (?s3\<lparr>em_subscriptions := t4\<rparr>)"
    "hid Update_weather_state_cb \<in> set (subs (?s3\<lparr>em_subscriptions := t4\<rparr>) EVENT_WEATHER_SYNC)"
    "\<forall>e'. e' \<noteq> EVENT_WEATHER_SYNC \<longrightarrow> subs (?s3\<lparr>em_subscriptions := t4\<rparr>) e' = subs ?s3 e'"
    using subscribe_ready [OF s3(2) _ r3] by auto
  let ?s4 = "?s3\<lparr>em_subscriptions := t4\<rparr>"
  have r4: "length (subs ?s4 EVENT_NEW_STEPS) < MAX_EVENT_SUBSCRIBERS"
    using room s3(4) s4(4) by (simp add: has_room_def)
  obtain t5 where s5: "event_subscribe EVENT_NEW_STEPS (Some (hid Update_steps_cb)) ?s4 =
      (True, ?s4\<lparr>em_subscriptions := t5\<rparr>)" "em_ready (?s4\<lparr>em_subscriptions := t5\<rparr>)"
    "hid Update_steps_cb \<in> set (subs (?s4\<lparr>em_subscriptions := t5\<rparr>) EVENT_NEW_STEPS)"
    "\<forall>e'. e' \<noteq> EVENT_NEW_STEPS \<longrightarrow> subs (?s4\<lparr>em_subscriptions := t5\<rparr>) e' = subs ?s4 e'"
    using subscribe_ready [OF s4(2) _ r4] by auto
  let ?s5 = "?s4\<lparr>em_subscriptions := t5\<rparr>"
  have in5: "hid Update_time_state_cb \<in> set (subs ?s5 EVENT_TIME_SYNC)"
    "hid Update_weather_state_cb \<in> set (subs ?s5 EVENT_WEATHER_SYNC)"
    using s5(4) s4(3,4) s3(3) by simp_all
  obtain s6 where s6: "event_publish call (Some (sync_request UPDATE_SYSTEM_TIME)) ?s5 = Some (True, s6)"
    "em_ready s6" "as_mgr s6 = m" "em_subscriptions s6 = em_subscriptions ?s5"
    using state_publish [OF fr s5(2), of UPDATE_SYSTEM_TIME] by auto
  let ?s7 = "s6\<lparr>sm_registry := (sm_registry s6)\<lparr>reg_time := \<lparr>last_req_time = u32 (sys_time s6), request_pending = True\<rparr>\<rparr>\<rparr>"
  have "em_ready ?s7"
    using s6(2) by (simp add: em_ready_state_update)
  then obtain s8 where s8: "event_publish call (Some (sync_request UPDATE_SYSTEM_WEATHER)) ?s7 = Some (True, s8)"
    "em_ready s8" "as_mgr s8 = m" "em_subscriptions s8 = em_subscriptions ?s5"
    using state_publish [OF fr, of ?s7 UPDATE_SYSTEM_WEATHER] s6(3,4) by auto
  have "state_manager_init call hid timer_ok mutex_ok s = Some (cmds, s8)"
    using m s3(1) s4(1) s5(1) s6(1) s8(1) by (simp add: state_manager_init_def Let_def)
  then show ?thesis
    using s8(2,3) in5 s5(3) subs_cong [OF s8(4)] by (intro exI [of _ s8]) simp
qed

lemma unsubscribe_keeps:
  assumes "em_ready s" and "has_room s" and "e \<noteq> EVENT_COUNT"
  shows "\<exists>t. snd (event_unsubscribe e (Some h) s) = s\<lparr>em_subscriptions := t\<rparr> \<and>
     em_ready (s\<lparr>em_subscriptions := t\<rparr>) \<and> has_room (s\<lparr>em_subscriptions := t\<rparr>)"
proof -
  obtain t where t: "snd (event_unsubscribe e (Some h) s) = s\<lparr>em_subscriptions := t\<rparr>"
    using event_subscribe_frame(2) by blast
  have "length (subs (s\<lparr>em_subscriptions := t\<rparr>) e') \<le> length (subs s e')" for e'
    using bus.unsubscribe_handlers [OF assms(1,3), of h] bus.unsubscribe_other [OF assms(1,3), of e' h] t
    by (cases "e' = e") (auto simp: length_remove1)
  then have "has_room (s\<lparr>em_subscriptions := t\<rparr>)"
    using assms(2) unfolding has_room_def by (meson le_less_trans)
  then show ?thesis
    using bus.unsubscribe_invar [OF assms(1,3), of h] t by auto
qed

lemma deinit_keeps:
  fixes s :: "('h, 'z) state_sys_scheme"
  assumes "em_ready s" and "has_room s" and "am_alarms (as_mgr s) = Some a"
  shows "\<exists>s1. snd (state_manager_deinit hid s) = s1 \<and> em_ready s1 \<and> has_room s1 \<and>
     sm_watch s1 = (sm_watch s)\<lparr>ws_alarms := a\<rparr> \<and> sys_time s1 = sys_time s"
proof -
  let ?s1 = "s\<lparr>sm_watch := (sm_watch s)\<lparr>ws_alarms := a\<rparr>, as_mgr := snd (alarm_manager_deinit (as_mgr s))\<rparr>"
  have s1: "em_ready ?s1" "has_room ?s1"
    using assms(1,2) by (simp_all add: em_ready_def em_ok_def has_room_def subs_def)
  obtain t2 where s2: "snd (event_unsubscribe EVENT_TIME_SYNC (Some (hid Update_time_state_cb)) ?s1) = ?s1\<lparr>em_subscriptions := t2\<rparr>"
    "em_ready (?s1\<lparr>em_subscriptions := t2\<rparr>)" "has_room (?s1\<lparr>em_subscriptions := t2\<rparr>)"
    using unsubscribe_keeps [OF s1, of EVENT_TIME_SYNC] by auto
  obtain t3 where s3: "snd (event_unsubscribe EVENT_WEATHER_SYNC (Some (hid Update_weather_state_cb)) (?s1\<lparr>em_subscriptions := t2\<rparr>)) =
      ?s1\<lparr>em_subscriptions := t2\<rparr>\<lparr>em_subscriptions := t3\<rparr>"
    "em_ready (?s1\<lparr>em_subscriptions := t2\<rparr>\<lparr>em_subscriptions := t3\<rparr>)" "has_room (?s1\<lparr>em_subscriptions := t2\<rparr>\<lparr>em_subscriptions := t3\<rparr>)"
    using unsubscribe_keeps [OF s2(2,3), of EVENT_WEATHER_SYNC] by auto
  let ?s3 = "?s1\<lparr>em_subscriptions := t2\<rparr>\<lparr>em_subscriptions := t3\<rparr>"
  obtain t4 where s4: "snd (event_unsubscribe EVENT_NEW_STEPS (Some (hid Update_steps_cb)) ?s3) = ?s3\<lparr>em_subscriptions := t4\<rparr>"
    "em_ready (?s3\<lparr>em_subscriptions := t4\<rparr>)" "has_room (?s3\<lparr>em_subscriptions := t4\<rparr>)"
    using unsubscribe_keeps [OF s3(2,3), of EVENT_NEW_STEPS] by auto
  have "snd (state_manager_deinit hid s) = ?s3\<lparr>em_subscriptions := t4\<rparr>"
    using s2(1) s3(1) s4(1) assms(3) by (simp add: state_manager_deinit_def alarm_manager_deinit_def Let_def)
  then show ?thesis
    using s4(2,3) by simp
qed

lemma wipes_keep_alarms:
  assumes "ts_valid (time_state (sm_watch s)) = 1" and "as_valid (ws_alarms (sm_watch s)) = 1"
    and "as_n_alarms (ws_alarms (sm_watch s)) \<le> MAX_WATCH_ALARMS"
  shows "ws_alarms (sm_watch (wipe_alarms (wipe_weather (wipe_unsynced s)))) = ws_alarms (sm_watch s)"
    and "state_manager_get_epoch_time (wipe_alarms (wipe_weather (wipe_unsynced s))) = u32 (sys_time s)"
  using assms by (simp_all add: wipe_alarms_def wipe_weather_def wipe_unsynced_def state_manager_get_epoch_time_def)

text \<open>
  C13: a synchronised watch keeps its alarms over a restart. Let the bus have room for the callbacks, let the timer and the mutex of the alarms be
  created, and let the subscribers of the requests to the phone leave subscriptions and alarms alone. Then shutting the state manager down and
  initialising it again (as around deep sleep) succeeds, and the alarm list is, in time order, the alarms of before that are still more than five
  seconds ahead; the three callbacks are registered.
\<close>

theorem restart_keeps_alarms:
  fixes s :: "('h, 'z) state_sys_scheme"
  assumes "em_ready s" and "has_room s" and "state_frame call"
    and "am_alarms (as_mgr s) = Some a" and "alarms_ok a" and "as_valid a = 1"
    and "ts_valid (time_state (sm_watch s)) = 1" and "sys_time s + ALARM_BUFFER_SEC < 4294967296"
  shows "\<exists>cmds s' a2. state_manager_init call hid True True (snd (state_manager_deinit hid s)) = Some (cmds, s') \<and>
     am_alarms (as_mgr s') = Some a2 \<and> alarms_ok a2 \<and>
     set (alarm_list a2) = {x \<in> set (alarm_list a). sys_time s + ALARM_BUFFER_SEC < epoch x} \<and>
     hid Update_time_state_cb \<in> set (subs s' EVENT_TIME_SYNC) \<and>
     hid Update_weather_state_cb \<in> set (subs s' EVENT_WEATHER_SYNC) \<and>
     hid Update_steps_cb \<in> set (subs s' EVENT_NEW_STEPS)"
proof -
  obtain s1 where s1: "snd (state_manager_deinit hid s) = s1" "em_ready s1" "has_room s1"
    "sm_watch s1 = (sm_watch s)\<lparr>ws_alarms := a\<rparr>" "sys_time s1 = sys_time s"
    using deinit_keeps [OF assms(1,2,4)] by blast
  let ?w = "wipe_alarms (wipe_weather (wipe_unsynced s1))"
  have w: "ws_alarms (sm_watch ?w) = a" "state_manager_get_epoch_time ?w = sys_time s"
    using wipes_keep_alarms [of s1] s1(4,5) assms(5-8) by (simp_all add: alarms_ok_def u32_id)
  obtain a2 cmds where a2: "alarm_manager_init True True (sys_time s) (sys_time s) (Some a) (as_mgr ?w) =
       Some (cmds, \<lparr>am_alarms = Some a2, am_timer = True, am_mutex = True\<rparr>)" "alarms_ok a2"
     "set (alarm_list a2) = {x \<in> set (alarm_list a). sys_time s + ALARM_BUFFER_SEC < epoch x}"
    using init_correct [of a "sys_time s" "sys_time s" "as_mgr ?w"] assms(5,8) by (auto simp: alarms_ok_def u32_id)
  show ?thesis
    using init_tail [OF s1(2,3) assms(3), of True True cmds _ hid] a2 w s1(1) by (auto simp: w)
qed

text \<open>
  A dispatcher of the firmware: the callbacks of the state manager, and the subscriber of the requests to the phone, which queues them outside the
  state of this component.
\<close>

record requests_state = "nat state_sys" +
  queued_requests :: "event_data list"

definition state_hid :: "state_handler \<Rightarrow> nat" where
  "state_hid k = (case k of Update_time_state_cb \<Rightarrow> 1 | Update_weather_state_cb \<Rightarrow> 2 | Update_steps_cb \<Rightarrow> 3)"

definition state_dispatch :: "nat \<Rightarrow> sys_event \<Rightarrow> requests_state \<Rightarrow> requests_state" where
  "state_dispatch h e t =
     (if h = 1 then (case update_time_state_cb True e t of Some (cmds, t') \<Rightarrow> t' | None \<Rightarrow> t)
      else if h = 2 then (case update_weather_state_cb e t of Some t' \<Rightarrow> t' | None \<Rightarrow> t)
      else if h = 3 then (case update_steps_cb (Some e) t of Some t' \<Rightarrow> t' | None \<Rightarrow> t)
      else if ev e = EVENT_BLE_REQUEST then t\<lparr>queued_requests := queued_requests t @ [ev_data e]\<rparr>
      else t)"

text \<open>On a request to the phone, the callbacks of the other events fail an assertion; they are not subscribed to it.\<close>

definition typed_dispatch :: "nat \<Rightarrow> sys_event \<Rightarrow> requests_state \<Rightarrow> requests_state" where
  "typed_dispatch h e t = (if h \<in> {1, 2, 3} \<and> ev e = EVENT_BLE_REQUEST then t else state_dispatch h e t)"

theorem restart_keeps_alarms_witness:
  "\<exists>s. \<exists>cmds s' a2. state_manager_init typed_dispatch state_hid True True (snd (state_manager_deinit state_hid s)) = Some (cmds, s') \<and>
     am_alarms (as_mgr s) = Some (ex_alarms [100, 200]) \<and> am_alarms (as_mgr s') = Some a2 \<and> set (alarm_list a2) = {ex_alarm 200}"
proof -
  let ?s = "state_sys.extend ((ex_state [100, 200])\<lparr>sm_watch := zero_watch\<lparr>time_state := \<lparr>last_sync_time = 50, ts_valid = 1\<rparr>\<rparr>, sys_time := 150\<rparr>)
    \<lparr>queued_requests = []\<rparr>"
  have "em_ready ?s"
    by (auto simp: em_ready_def em_ok_def ex_state_def sub_ok_def empty_subscription_def state_sys.defs)
  moreover have "has_room ?s"
    by (simp add: has_room_def subs_def ex_state_def empty_subscription_def MAX_EVENT_SUBSCRIBERS_def state_sys.defs)
  moreover have "am_alarms (as_mgr ?s) = Some (ex_alarms [100, 200])" "as_valid (ex_alarms [100, 200]) = 1"
    by (simp_all add: ex_state_def ex_alarms_def state_sys.defs)
  moreover have "{x \<in> set (alarm_list (ex_alarms [100, 200])). 150 + ALARM_BUFFER_SEC < epoch x} = {ex_alarm 200}"
    by (auto simp: ex_alarms_list alarm_consts)
  moreover have "state_frame typed_dispatch"
    by (auto simp: state_frame_def typed_dispatch_def state_dispatch_def)
  moreover have "ts_valid (time_state (sm_watch ?s)) = 1" "sys_time ?s = 150"
    by (simp_all add: state_sys.defs)
  ultimately show ?thesis
    using restart_keeps_alarms [of ?s typed_dispatch "ex_alarms [100, 200]" state_hid] ex_alarms_ok [of "[100, 200]"]
    by (intro exI [of _ ?s]) (auto simp: alarm_consts)
qed

end
