(* ===== verification/Rtos_Queue.thy ===== *)
theory Rtos_Queue
  imports Prelude
begin

text \<open>
  The interface of the FreeRTOS queues that several components use. The queues are not part of the
  repository: definitions take the operations as an argument and theorems about contents assume
  \<open>queue_spec\<close>, the documented behaviour of a bounded FIFO for calls with a zero timeout. A list with a
  capacity satisfies it.
\<close>

text \<open>The interface of the FreeRTOS queues (calls with a zero timeout).\<close>

record ('x, 'q) queue_ops =
  xQueueCreate :: "nat \<Rightarrow> 'q option"
  xQueueSend :: "'x \<Rightarrow> 'q \<Rightarrow> bool \<times> 'q"
  xQueueReceive :: "'q \<Rightarrow> ('x \<times> 'q) option"
  uxQueueMessagesWaiting :: "'q \<Rightarrow> nat"
  xQueueReset :: "'q \<Rightarrow> 'q"

definition queue_spec :: "('x, 'q) queue_ops \<Rightarrow> ('q \<Rightarrow> 'x list) \<Rightarrow> ('q \<Rightarrow> nat) \<Rightarrow> bool" where
  "queue_spec ops items cap \<longleftrightarrow>
     (\<forall>n q. xQueueCreate ops n = Some q \<longrightarrow> items q = [] \<and> cap q = n) \<and>
     (\<forall>x q. xQueueSend ops x q = (if length (items q) < cap q
              then (True, snd (xQueueSend ops x q)) else (False, q)) \<and>
            (length (items q) < cap q \<longrightarrow> items (snd (xQueueSend ops x q)) = items q @ [x] \<and>
               cap (snd (xQueueSend ops x q)) = cap q)) \<and>
     (\<forall>q. items q = [] \<longrightarrow> xQueueReceive ops q = None) \<and>
     (\<forall>q x xs. items q = x # xs \<longrightarrow> (\<exists>q'. xQueueReceive ops q = Some (x, q') \<and> items q' = xs \<and> cap q' = cap q)) \<and>
     (\<forall>q. uxQueueMessagesWaiting ops q = length (items q) \<and> length (items q) \<le> cap q) \<and>
     (\<forall>q. items (xQueueReset ops q) = [] \<and> cap (xQueueReset ops q) = cap q)"

primrec send_all :: "('x, 'q) queue_ops \<Rightarrow> 'x list \<Rightarrow> 'q \<Rightarrow> 'q" where
  "send_all ops [] q = q"
| "send_all ops (x # xs) q = send_all ops xs (snd (xQueueSend ops x q))"

lemma queue_send:
  assumes "queue_spec ops items cap"
  shows "items (snd (xQueueSend ops x q)) = take (cap q) (items q @ [x])"
    and "cap (snd (xQueueSend ops x q)) = cap q"
    and "fst (xQueueSend ops x q) \<longleftrightarrow> length (items q) < cap q"
proof -
  have s: "xQueueSend ops x q = (if length (items q) < cap q then (True, snd (xQueueSend ops x q)) else (False, q))"
    "length (items q) < cap q \<longrightarrow> items (snd (xQueueSend ops x q)) = items q @ [x] \<and> cap (snd (xQueueSend ops x q)) = cap q"
    "length (items q) \<le> cap q"
    using assms unfolding queue_spec_def by blast+
  have full: "xQueueSend ops x q = (False, q)" "length (items q) = cap q" if "\<not> length (items q) < cap q"
    using that s by auto
  show "items (snd (xQueueSend ops x q)) = take (cap q) (items q @ [x])" "cap (snd (xQueueSend ops x q)) = cap q"
    using s(2) full by (cases "length (items q) < cap q"; simp)+
  show "fst (xQueueSend ops x q) \<longleftrightarrow> length (items q) < cap q"
    by (subst s(1)) simp
qed

lemma take_snoc_append: "take c (take c (xs @ [y]) @ ys) = take c (xs @ y # ys)"
  by (cases "c \<le> length xs") (simp_all add: take_Cons')

lemma send_all_items:
  assumes "queue_spec ops items cap"
  shows "items (send_all ops xs q) = take (cap q) (items q @ xs) \<and> cap (send_all ops xs q) = cap q"
proof (induction xs arbitrary: q)
  case Nil
  have "length (items q) \<le> cap q"
    using assms unfolding queue_spec_def by blast
  then show ?case
    by simp
next
  case (Cons x xs)
  then show ?case
    by (simp add: queue_send [OF assms] take_snoc_append del: take_append)
qed

text \<open>A queue as a capacity and a list.\<close>

definition list_items :: "nat \<times> 'x list \<Rightarrow> 'x list" where
  "list_items q = take (fst q) (snd q)"

definition list_queue :: "('x, nat \<times> 'x list) queue_ops" where
  "list_queue = \<lparr>xQueueCreate = (\<lambda>n. Some (n, [])),
     xQueueSend = (\<lambda>x q. if length (list_items q) < fst q then (True, (fst q, list_items q @ [x])) else (False, q)),
     xQueueReceive = (\<lambda>q. case list_items q of [] \<Rightarrow> None | x # xs \<Rightarrow> Some (x, (fst q, xs))),
     uxQueueMessagesWaiting = (\<lambda>q. length (list_items q)),
     xQueueReset = (\<lambda>q. (fst q, []))\<rparr>"

lemma list_queue_spec: "queue_spec list_queue list_items fst"
proof -
  have "list_items (c, xs) = xs" if "take c ys = x # xs" for c and x :: "'x" and xs ys
  proof -
    have "length (take c ys) \<le> c"
      by simp
    then show ?thesis
      using that by (simp add: list_items_def)
  qed
  then show ?thesis
    by (auto simp: queue_spec_def list_queue_def list_items_def)
qed

end
