(* ===== verification/Worker_Pool.thy ===== *)
theory Worker_Pool
  imports Rtos_Queue
begin

text \<open>
  The worker pool and its watchdog (\<open>runtime_worker_pool.c\<close>, \<open>runtime_watchdog.c\<close>, \<open>runtime_utils.c\<close>) and
  the state that they share with the runtime manager.

  Calls on tasks, timers and semaphores are appended to the trace \<open>rt_trace\<close>; whether an object could be created is an
  argument. A handle is present or null.
\<close>

section \<open>Types\<close>

datatype runtime_work_type = WORK_TYPE_SYSTEM | WORK_TYPE_USER

datatype runtime_state_t =
  RUNTIME_STATE_SLEEP | RUNTIME_STATE_BACKGROUND_ACTIVE | RUNTIME_STATE_GRACE_PERIOD | RUNTIME_STATE_UI_ACTIVE

text \<open>A work function is one of a client or the adapter that runs the curfew hook stored in the payload.\<close>

datatype 'f work_fn = Work_fn 'f | Curfew_hook_adapter

datatype 'f work_arg = Arg_bytes "byte list" | Arg_hook "'f option"

record 'f work_item =
  wi_handler :: "'f work_fn option"
  wi_type :: runtime_work_type
  wi_arg :: "'f work_arg"
  wi_priority :: nat

definition MAX_USER_WORK_PER_WINDOW :: nat where "MAX_USER_WORK_PER_WINDOW = 10"
definition MAX_SYSTEM_WORK_PER_WINDOW :: nat where "MAX_SYSTEM_WORK_PER_WINDOW = 10"
definition WORKER_POOL_SIZE :: nat where "WORKER_POOL_SIZE = 6"
definition WORKER_POOL_SYSTEM_ALLOCATION :: nat where "WORKER_POOL_SYSTEM_ALLOCATION = 4"
definition WORKER_POOL_USER_ALLOCATION :: nat where
  "WORKER_POOL_USER_ALLOCATION = WORKER_POOL_SIZE - WORKER_POOL_SYSTEM_ALLOCATION"
definition RUNTIME_BASELINE_PRIORITY :: nat where "RUNTIME_BASELINE_PRIORITY = 1"
definition RUNTIME_USER_PRIORITY :: nat where "RUNTIME_USER_PRIORITY = 2"
definition RUNTIME_SYSTEM_PRIORITY :: nat where "RUNTIME_SYSTEM_PRIORITY = 3"
definition TIMEOUT_USER_WORK_SOFT_MS :: int where "TIMEOUT_USER_WORK_SOFT_MS = 30"
definition TIMEOUT_USER_WORK_HARD_MS :: int where "TIMEOUT_USER_WORK_HARD_MS = 10"
definition WINDOW_BACKGROUND_MAX_MS :: int where "WINDOW_BACKGROUND_MAX_MS = 160"
definition WINDOW_GRACE_PERIOD_MS :: int where "WINDOW_GRACE_PERIOD_MS = 200"
definition WINDOW_UI_MAX_MS :: int where "WINDOW_UI_MAX_MS = 700"
definition WINDOW_IDLE_DEBOUNCE_INTERVAL_MS :: int where "WINDOW_IDLE_DEBOUNCE_INTERVAL_MS = 10"
definition MAX_CURFEW_HOOKS :: nat where "MAX_CURFEW_HOOKS = 4"

lemmas runtime_consts =
  MAX_USER_WORK_PER_WINDOW_def MAX_SYSTEM_WORK_PER_WINDOW_def WORKER_POOL_SIZE_def
  WORKER_POOL_SYSTEM_ALLOCATION_def WORKER_POOL_USER_ALLOCATION_def MAX_CURFEW_HOOKS_def
  WINDOW_BACKGROUND_MAX_MS_def WINDOW_GRACE_PERIOD_MS_def WINDOW_UI_MAX_MS_def WINDOW_IDLE_DEBOUNCE_INTERVAL_MS_def

record worker =
  w_id :: nat
  w_working :: bool
  w_type :: runtime_work_type
  w_task :: bool
  w_abort :: bool
  w_soft :: bool
  w_hard :: bool

definition zero_worker :: worker where
  "zero_worker = \<lparr>w_id = 0, w_working = False, w_type = WORK_TYPE_SYSTEM, w_task = False, w_abort = False,
     w_soft = False, w_hard = False\<rparr>"

datatype rt_timer = Total_window_timer | Grace_period_timer | Curfew_settlement_timer | Soft_close nat | Hard_close nat

datatype rt_cmd =
    Timer_start_once rt_timer int
  | Timer_stop rt_timer
  | Timer_delete rt_timer
  | Task_create nat
  | Task_delete nat
  | Task_resume nat
  | Task_suspend nat
  | Task_priority nat nat
  | Shutdown_sem_give

record ('f, 'q) runtime =
  user_work :: "'q option"
  system_work :: "'q option"
  pending_user_work :: "'q option"
  pending_system_work :: "'q option"
  runtime_lock :: bool
  runtime_state :: runtime_state_t
  window_hooks :: "'f option list"
  active_hook_count :: nat
  rt_initialized :: bool
  window_start_time :: int
  grace_start_time :: int
  total_window_timer :: bool
  grace_period_timer :: bool
  curfew_settlement_timer :: bool
  work_state :: runtime_state_t
  shutdown_initialized :: bool
  shutdown_sem :: bool
  workers :: "worker list"
  active_workers :: int
  watchdog_workers :: bool
  pool_queues :: bool
  rt_trace :: "rt_cmd list"

definition emit :: "rt_cmd list \<Rightarrow> ('f, 'q, 'z) runtime_scheme \<Rightarrow> ('f, 'q, 'z) runtime_scheme" where
  "emit cs s = s\<lparr>rt_trace := rt_trace s @ cs\<rparr>"

definition set_worker :: "nat \<Rightarrow> worker \<Rightarrow> ('f, 'q, 'z) runtime_scheme \<Rightarrow> ('f, 'q, 'z) runtime_scheme" where
  "set_worker i w s = s\<lparr>workers := (workers s)[i := w]\<rparr>"

section \<open>Timers\<close>

text \<open>\<open>init_timer\<close> creates a timer unless the handle is set; failing to create one aborts.\<close>

definition init_timer :: "bool \<Rightarrow> bool \<Rightarrow> bool option" where
  "init_timer create_ok handle = (if handle then Some True else if create_ok then Some True else None)"

definition safe_timer_cleanup :: "bool \<Rightarrow> rt_timer \<Rightarrow> bool \<Rightarrow> bool \<times> rt_cmd list" where
  "safe_timer_cleanup active t handle =
     (if \<not> handle then (False, [])
      else (False, (if active then [Timer_stop t] else []) @ [Timer_delete t]))"

section \<open>Worker pool\<close>

definition worker_pool_resume_all :: "('f, 'q, 'z) runtime_scheme \<Rightarrow> ('f, 'q, 'z) runtime_scheme" where
  "worker_pool_resume_all s =
     emit (map Task_resume (filter (\<lambda>i. w_task (workers s ! i)) [0..<WORKER_POOL_SIZE])) s"

definition worker_pool_suspend_all :: "('f, 'q, 'z) runtime_scheme \<Rightarrow> ('f, 'q, 'z) runtime_scheme" where
  "worker_pool_suspend_all s =
     emit (map Task_suspend (filter (\<lambda>i. w_task (workers s ! i)) [0..<WORKER_POOL_SIZE])) s"

definition worker_pool_has_work :: "('f work_item, 'q) queue_ops \<Rightarrow> ('f, 'q, 'z) runtime_scheme \<Rightarrow> bool option" where
  "worker_pool_has_work ops s =
     (if \<not> pool_queues s then None
      else do {
        uq \<leftarrow> user_work s;
        sq \<leftarrow> system_work s;
        Some (active_workers s > 0 \<or> uxQueueMessagesWaiting ops sq \<noteq> 0 \<or> uxQueueMessagesWaiting ops uq \<noteq> 0)
      })"

definition watchdog_manager_init_stalled_worker :: "bool \<Rightarrow> worker \<Rightarrow> worker option" where
  "watchdog_manager_init_stalled_worker timer_ok w =
     do {
       soft \<leftarrow> init_timer timer_ok (w_soft w);
       hard \<leftarrow> init_timer timer_ok (w_hard w);
       Some (w\<lparr>w_soft := soft, w_hard := hard\<rparr>)
     }"

definition worker_pool_recover_stalled_worker ::
  "bool \<Rightarrow> bool \<Rightarrow> nat \<Rightarrow> bool \<Rightarrow> ('f, 'q, 'z) runtime_scheme \<Rightarrow> ('f, 'q, 'z) runtime_scheme option" where
  "worker_pool_recover_stalled_worker timer_ok task_ok i resume s =
     do {
       temp0 \<leftarrow> rd (workers s) i;
       if \<not> w_working temp0 then Some s
       else do {
         let temp = temp0\<lparr>w_working := False\<rparr>;
         let s1 = (if w_task temp then (emit [Task_delete i] s)\<lparr>active_workers := active_workers s - 1\<rparr> else s);
         let w1 = zero_worker\<lparr>w_id := w_id temp, w_type := w_type temp\<rparr>;
         w2 \<leftarrow> (if w_type temp = WORK_TYPE_USER then
                  let w = w1\<lparr>w_soft := w_soft temp, w_hard := w_hard temp\<rparr> in
                  if \<not> w_soft w \<or> \<not> w_hard w then watchdog_manager_init_stalled_worker timer_ok w else Some w
                else Some w1);
         let w3 = w2\<lparr>w_task := task_ok, w_abort := False, w_working := False\<rparr>;
         let s2 = emit [Task_create i] (set_worker i w3 s1);
         Some (if \<not> resume \<and> w_task w3 then emit [Task_suspend i] s2 else s2)
       }
     }"

section \<open>Watchdog\<close>

definition worker_soft_abort_cb :: "nat \<Rightarrow> ('f, 'q, 'z) runtime_scheme \<Rightarrow> ('f, 'q, 'z) runtime_scheme option" where
  "worker_soft_abort_cb i s =
     do {
       w \<leftarrow> rd (workers s) i;
       if \<not> w_hard w then None
       else Some (emit [Timer_stop (Soft_close i), Timer_stop (Hard_close i),
                        Timer_start_once (Hard_close i) (TIMEOUT_USER_WORK_HARD_MS * 1000)]
                  (set_worker i (w\<lparr>w_abort := True\<rparr>) s))
     }"

definition worker_hard_abort_cb ::
  "bool \<Rightarrow> bool \<Rightarrow> nat \<Rightarrow> ('f, 'q, 'z) runtime_scheme \<Rightarrow> ('f, 'q, 'z) runtime_scheme option" where
  "worker_hard_abort_cb timer_ok task_ok i s =
     do {
       w \<leftarrow> rd (workers s) i;
       if \<not> w_hard w then None
       else worker_pool_recover_stalled_worker timer_ok task_ok i True
              (emit [Timer_stop (Hard_close i)] (set_worker i (w\<lparr>w_abort := True\<rparr>) s))
     }"

definition watchdog_start_user_work :: "nat \<Rightarrow> ('f, 'q, 'z) runtime_scheme \<Rightarrow> ('f, 'q, 'z) runtime_scheme option" where
  "watchdog_start_user_work i s =
     do {
       w \<leftarrow> rd (workers s) i;
       if \<not> w_soft w then None
       else Some (emit [Timer_stop (Soft_close i), Timer_start_once (Soft_close i) (TIMEOUT_USER_WORK_SOFT_MS * 1000)] s)
     }"

definition watchdog_stop_user_work :: "nat \<Rightarrow> ('f, 'q, 'z) runtime_scheme \<Rightarrow> ('f, 'q, 'z) runtime_scheme option" where
  "watchdog_stop_user_work i s =
     do {
       w \<leftarrow> rd (workers s) i;
       if \<not> w_soft w \<or> \<not> w_hard w then None
       else Some (emit [Timer_stop (Soft_close i), Timer_stop (Hard_close i)] s)
     }"

primrec abort_loop ::
  "bool \<Rightarrow> (nat \<Rightarrow> bool) \<Rightarrow> nat list \<Rightarrow> ('f, 'q, 'z) runtime_scheme \<Rightarrow> ('f, 'q, 'z) runtime_scheme option" where
  "abort_loop timer_ok task_ok [] s = Some s"
| "abort_loop timer_ok task_ok (i # is) s =
     do {
       w \<leftarrow> rd (workers s) i;
       s1 \<leftarrow> (if w_working w then
                worker_pool_recover_stalled_worker timer_ok (task_ok i) i False
                  (if w_type w = WORK_TYPE_USER
                   then emit [Timer_stop (Soft_close i), Timer_stop (Hard_close i)] s else s)
              else Some s);
       abort_loop timer_ok task_ok is s1
     }"

definition watchdog_force_all_mandatory_abort ::
  "bool \<Rightarrow> (nat \<Rightarrow> bool) \<Rightarrow> ('f, 'q, 'z) runtime_scheme \<Rightarrow> ('f, 'q, 'z) runtime_scheme option" where
  "watchdog_force_all_mandatory_abort timer_ok task_ok s =
     (if \<not> watchdog_workers s then None else abort_loop timer_ok task_ok [0..<WORKER_POOL_SIZE] s)"

definition watchdog_force_all_cooperative_abort ::
  "('f, 'q, 'z) runtime_scheme \<Rightarrow> ('f, 'q, 'z) runtime_scheme option" where
  "watchdog_force_all_cooperative_abort s =
     (if \<not> watchdog_workers s then None
      else Some (s\<lparr>workers := map (\<lambda>w. w\<lparr>w_abort := True\<rparr>) (take WORKER_POOL_SIZE (workers s)) @
                             drop WORKER_POOL_SIZE (workers s)\<rparr>))"

definition watchdog_manager_init ::
  "bool \<Rightarrow> ('f, 'q, 'z) runtime_scheme \<Rightarrow> ('f, 'q, 'z) runtime_scheme option" where
  "watchdog_manager_init timer_ok s =
     do {
       w0 \<leftarrow> rd (workers s) 0;
       w0' \<leftarrow> watchdog_manager_init_stalled_worker timer_ok w0;
       w1 \<leftarrow> rd (workers s) 1;
       w1' \<leftarrow> watchdog_manager_init_stalled_worker timer_ok w1;
       Some ((set_worker 1 w1' (set_worker 0 w0' s))\<lparr>watchdog_workers := True\<rparr>)
     }"

text \<open>\<open>active\<close> tells which timers \<open>esp_timer_is_active\<close> reports as running.\<close>

primrec watchdog_cleanup ::
  "(rt_timer \<Rightarrow> bool) \<Rightarrow> nat list \<Rightarrow> ('f, 'q, 'z) runtime_scheme \<Rightarrow> ('f, 'q, 'z) runtime_scheme option" where
  "watchdog_cleanup active [] s = Some s"
| "watchdog_cleanup active (i # is) s =
     do {
       w \<leftarrow> rd (workers s) i;
       let (soft, c1) = safe_timer_cleanup (active (Soft_close i)) (Soft_close i) (w_soft w);
       let (hard, c2) = safe_timer_cleanup (active (Hard_close i)) (Hard_close i) (w_hard w);
       watchdog_cleanup active is (emit (c1 @ c2) (set_worker i (w\<lparr>w_soft := soft, w_hard := hard\<rparr>) s))
     }"

definition watchdog_manager_deinit ::
  "(rt_timer \<Rightarrow> bool) \<Rightarrow> ('f, 'q, 'z) runtime_scheme \<Rightarrow> ('f, 'q, 'z) runtime_scheme option" where
  "watchdog_manager_deinit active s =
     do {
       s1 \<leftarrow> watchdog_cleanup active [0..<WORKER_POOL_USER_ALLOCATION] s;
       Some (s1\<lparr>watchdog_workers := False\<rparr>)
     }"

section \<open>Pool set-up\<close>

definition new_worker :: "bool \<Rightarrow> nat \<Rightarrow> runtime_work_type \<Rightarrow> worker" where
  "new_worker task_ok idx ty =
     zero_worker\<lparr>w_id := idx, w_type := ty, w_abort := False, w_working := False, w_task := task_ok\<rparr>"

definition worker_pool_init ::
  "bool \<Rightarrow> (nat \<Rightarrow> bool) \<Rightarrow> ('f, 'q, 'z) runtime_scheme \<Rightarrow> ('f, 'q, 'z) runtime_scheme option" where
  "worker_pool_init timer_ok task_ok s =
     do {
       let ws = map (\<lambda>i. new_worker (task_ok i) i (if i < WORKER_POOL_USER_ALLOCATION then WORK_TYPE_USER else WORK_TYPE_SYSTEM))
                    [0..<WORKER_POOL_SIZE];
       let s1 = emit (map Task_create [0..<WORKER_POOL_SIZE]) (s\<lparr>workers := ws, pool_queues := True\<rparr>);
       s2 \<leftarrow> watchdog_manager_init timer_ok s1;
       Some (worker_pool_suspend_all s2)
     }"

definition worker_pool_deinit ::
  "(rt_timer \<Rightarrow> bool) \<Rightarrow> ('f, 'q, 'z) runtime_scheme \<Rightarrow> ('f, 'q, 'z) runtime_scheme option" where
  "worker_pool_deinit active s =
     do {
       s1 \<leftarrow> watchdog_manager_deinit active s;
       let s2 = worker_pool_suspend_all s1;
       let s3 = emit (map Task_delete (filter (\<lambda>i. w_task (workers s2 ! i)) [0..<WORKER_POOL_SIZE])) s2;
       Some (s3\<lparr>workers := replicate WORKER_POOL_SIZE zero_worker, active_workers := 0, pool_queues := False\<rparr>)
     }"

section \<open>Invariant of the pool\<close>

text \<open>
  Six workers, the first two for user work with both watchdog timers; a working worker has a task; and
  the atomic counter is the number of working workers.
\<close>

definition worker_ok :: "nat \<Rightarrow> worker \<Rightarrow> bool" where
  "worker_ok i w \<longleftrightarrow>
     w_id w = i \<and> (w_working w \<longrightarrow> w_task w) \<and>
     w_type w = (if i < WORKER_POOL_USER_ALLOCATION then WORK_TYPE_USER else WORK_TYPE_SYSTEM) \<and>
     (w_type w = WORK_TYPE_USER \<longrightarrow> w_soft w \<and> w_hard w)"

definition working_count :: "worker list \<Rightarrow> nat" where
  "working_count ws = length (filter w_working ws)"

definition pool_ok :: "('f, 'q, 'z) runtime_scheme \<Rightarrow> bool" where
  "pool_ok s \<longleftrightarrow>
     length (workers s) = WORKER_POOL_SIZE \<and> (\<forall>i < WORKER_POOL_SIZE. worker_ok i (workers s ! i)) \<and>
     active_workers s = int (working_count (workers s)) \<and> watchdog_workers s"

lemma working_count_update:
  "i < length ws \<Longrightarrow> working_count (ws[i := w]) + (if w_working (ws ! i) then 1 else 0) =
     working_count ws + (if w_working w then 1 else 0)"
proof (induction ws arbitrary: i)
  case (Cons v vs)
  show ?case
  proof (cases i)
    case (Suc j)
    then show ?thesis
      using Cons.IH [of j] Cons.prems by (simp add: working_count_def split: if_splits)
  qed (simp add: working_count_def)
qed simp

lemma pool_ok_trace [simp]:
  "pool_ok (emit cs s) = pool_ok s" "workers (emit cs s) = workers s" "active_workers (emit cs s) = active_workers s"
  "watchdog_workers (emit cs s) = watchdog_workers s" "rt_trace (emit cs s) = rt_trace s @ cs"
  by (simp_all add: pool_ok_def emit_def)

lemma pool_ok_abort:
  "pool_ok s \<Longrightarrow> i < WORKER_POOL_SIZE \<Longrightarrow> pool_ok (set_worker i ((workers s ! i)\<lparr>w_abort := b\<rparr>) s)"
  using working_count_update [of i "workers s" "(workers s ! i)\<lparr>w_abort := b\<rparr>"]
  by (auto simp: pool_ok_def set_worker_def nth_list_update worker_ok_def split: if_splits)

text \<open>Everything but the pool and the trace is the same.\<close>

definition same_manager :: "('f, 'q, 'z) runtime_scheme \<Rightarrow> ('f, 'q, 'z) runtime_scheme \<Rightarrow> bool" where
  "same_manager s s' \<longleftrightarrow>
     s' = s\<lparr>workers := workers s', active_workers := active_workers s', rt_trace := rt_trace s'\<rparr>"

lemma same_manager_refl [simp]: "same_manager s s"
  by (simp add: same_manager_def)

lemma same_manager_fields:
  assumes "same_manager s s'"
  shows "user_work s' = user_work s" "system_work s' = system_work s" "pending_user_work s' = pending_user_work s"
    "pending_system_work s' = pending_system_work s" "runtime_lock s' = runtime_lock s"
    "runtime_state s' = runtime_state s" "window_hooks s' = window_hooks s"
    "active_hook_count s' = active_hook_count s" "watchdog_workers s' = watchdog_workers s"
    "pool_queues s' = pool_queues s" "shutdown_initialized s' = shutdown_initialized s"
    "shutdown_sem s' = shutdown_sem s" "rt_initialized s' = rt_initialized s" "work_state s' = work_state s"
    "grace_period_timer s' = grace_period_timer s"
proof -
  define ws a t where "ws = workers s'" and "a = active_workers s'" and "t = rt_trace s'"
  have s': "s' = s\<lparr>workers := ws, active_workers := a, rt_trace := t\<rparr>"
    using assms by (simp add: same_manager_def ws_def a_def t_def)
  show "user_work s' = user_work s" "system_work s' = system_work s" "pending_user_work s' = pending_user_work s"
    "pending_system_work s' = pending_system_work s" "runtime_lock s' = runtime_lock s"
    "runtime_state s' = runtime_state s" "window_hooks s' = window_hooks s"
    "active_hook_count s' = active_hook_count s" "watchdog_workers s' = watchdog_workers s"
    "pool_queues s' = pool_queues s" "shutdown_initialized s' = shutdown_initialized s"
    "shutdown_sem s' = shutdown_sem s" "rt_initialized s' = rt_initialized s" "work_state s' = work_state s"
    "grace_period_timer s' = grace_period_timer s"
    by (simp_all add: s')
qed

lemma same_manager_trans: "same_manager s t \<Longrightarrow> same_manager t u \<Longrightarrow> same_manager s u"
  by (cases s; cases t; cases u) (simp add: same_manager_def)

lemma same_manager_emit [simp]: "same_manager s (emit cs s)"
  by (simp add: same_manager_def emit_def)

text \<open>Recovering a worker replaces its task and leaves it idle; an idle worker is left alone.\<close>

lemma recover_correct:
  assumes ok: "pool_ok s" and i: "i < WORKER_POOL_SIZE"
  shows "\<exists>s'. worker_pool_recover_stalled_worker timer_ok task_ok i resume s = Some s' \<and> pool_ok s' \<and>
     same_manager s s' \<and> \<not> w_working (workers s' ! i) \<and> (\<forall>j. j \<noteq> i \<longrightarrow> workers s' ! j = workers s ! j)"
proof (cases "w_working (workers s ! i)")
  case False
  then show ?thesis
    using ok i by (simp add: worker_pool_recover_stalled_worker_def rd_def pool_ok_def)
next
  case True
  let ?w = "workers s ! i"
  have w: "worker_ok i ?w" "i < length (workers s)"
    using ok i by (simp_all add: pool_ok_def)
  let ?n = "\<lparr>w_id = w_id ?w, w_working = False, w_type = w_type ?w, w_task = task_ok, w_abort = False,
     w_soft = (w_type ?w = WORK_TYPE_USER), w_hard = (w_type ?w = WORK_TYPE_USER)\<rparr>"
  let ?s1 = "(emit [Task_delete i] s)\<lparr>active_workers := active_workers s - 1\<rparr>"
  let ?s2 = "emit [Task_create i] (set_worker i ?n ?s1)"
  let ?s3 = "if \<not> resume \<and> task_ok then emit [Task_suspend i] ?s2 else ?s2"
  have "worker_pool_recover_stalled_worker timer_ok task_ok i resume s = Some ?s3"
    using True w
    by (cases "w_type ?w") (simp_all add: worker_pool_recover_stalled_worker_def rd_def zero_worker_def worker_ok_def Let_def)
  moreover have "worker_ok i ?n"
    using w(1) by (simp add: worker_ok_def)
  then have "pool_ok (set_worker i ?n ?s1)"
    using ok w(2) True working_count_update [of i "workers s" ?n]
    by (simp add: pool_ok_def set_worker_def nth_list_update emit_def)
  then have "pool_ok ?s3"
    by (cases resume; cases task_ok) simp_all
  moreover have "same_manager s ?s3"
    by (simp add: same_manager_def emit_def set_worker_def)
  moreover have "\<not> w_working (workers ?s3 ! i)" "\<forall>j. j \<noteq> i \<longrightarrow> workers ?s3 ! j = workers s ! j"
    using w(2) by (simp_all add: set_worker_def)
  ultimately show ?thesis
    by blast
qed

lemma abort_loop_correct:
  assumes "pool_ok s" and "set is \<subseteq> {..<WORKER_POOL_SIZE}"
  shows "\<exists>s'. abort_loop timer_ok task_ok is s = Some s' \<and> pool_ok s' \<and> same_manager s s' \<and>
     (\<forall>j. w_working (workers s' ! j) \<longrightarrow> j \<notin> set is \<and> w_working (workers s ! j))"
  using assms
proof (induction "is" arbitrary: s)
  case (Cons i "is")
  have i: "i < WORKER_POOL_SIZE" "i < length (workers s)"
    using Cons.prems by (auto simp: pool_ok_def)
  show ?case
  proof (cases "w_working (workers s ! i)")
    case True
    let ?t = "if w_type (workers s ! i) = WORK_TYPE_USER then emit [Timer_stop (Soft_close i), Timer_stop (Hard_close i)] s else s"
    have t: "pool_ok ?t" "same_manager s ?t" "workers ?t = workers s"
      using Cons.prems(1) by simp_all
    obtain s1 where s1: "worker_pool_recover_stalled_worker timer_ok (task_ok i) i False ?t = Some s1" "pool_ok s1"
      "same_manager ?t s1" "\<not> w_working (workers s1 ! i)" "\<forall>j. j \<noteq> i \<longrightarrow> workers s1 ! j = workers s ! j"
      using recover_correct [OF t(1) i(1), of timer_ok "task_ok i" False] t(3) by auto
    obtain s2 where s2: "abort_loop timer_ok task_ok is s1 = Some s2" "pool_ok s2" "same_manager s1 s2"
      "\<forall>j. w_working (workers s2 ! j) \<longrightarrow> j \<notin> set is \<and> w_working (workers s1 ! j)"
      using Cons.IH [OF s1(2)] Cons.prems(2) by auto
    have "abort_loop timer_ok task_ok (i # is) s = Some s2"
      using True i s1(1) s2(1) by (simp add: rd_def)
    moreover have "same_manager s s2"
      using t(2) s1(3) s2(3) by (blast intro: same_manager_trans)
    moreover have "j \<notin> set (i # is) \<and> w_working (workers s ! j)" if "w_working (workers s2 ! j)" for j
      using that s2(4) s1(4,5) by (cases "j = i") auto
    ultimately show ?thesis
      using s2(2) by blast
  next
    case False
    then show ?thesis
      using Cons.IH [OF Cons.prems(1)] Cons.prems(2) i by (auto simp: rd_def)
  qed
qed simp

lemma mandatory_abort_correct:
  assumes "pool_ok s"
  shows "\<exists>s'. watchdog_force_all_mandatory_abort timer_ok task_ok s = Some s' \<and> pool_ok s' \<and> same_manager s s' \<and>
     (\<forall>w \<in> set (workers s'). \<not> w_working w) \<and> active_workers s' = 0"
proof -
  obtain s' where s': "abort_loop timer_ok task_ok [0..<WORKER_POOL_SIZE] s = Some s'" "pool_ok s'" "same_manager s s'"
    "\<forall>j. w_working (workers s' ! j) \<longrightarrow> j \<notin> {0..<WORKER_POOL_SIZE}"
    using abort_loop_correct [OF assms, of "[0..<WORKER_POOL_SIZE]" timer_ok task_ok] by (auto simp: subset_iff)
  have idle: "\<forall>w \<in> set (workers s'). \<not> w_working w"
    using s'(2,4) by (auto simp: in_set_conv_nth pool_ok_def)
  then have "active_workers s' = 0"
    using s'(2) by (simp add: pool_ok_def working_count_def filter_empty_conv)
  then show ?thesis
    using s' idle assms by (auto simp: watchdog_force_all_mandatory_abort_def pool_ok_def)
qed

text \<open>A freshly initialised pool satisfies the invariant.\<close>

lemma worker_pool_init_ok:
  assumes "active_workers s = 0"
  shows "\<exists>s'. worker_pool_init True task_ok s = Some s' \<and> pool_ok s' \<and> pool_queues s' \<and>
     (\<forall>w \<in> set (workers s'). \<not> w_working w) \<and> user_work s' = user_work s \<and> system_work s' = system_work s"
proof -
  have u: "[0..<WORKER_POOL_SIZE] = [0, 1, 2, 3, 4, 5]" "WORKER_POOL_USER_ALLOCATION = 2"
    by (simp_all add: runtime_consts upt_rec)
  have six: "(\<forall>i < WORKER_POOL_SIZE. P i) \<longleftrightarrow> P 0 \<and> P 1 \<and> P 2 \<and> P 3 \<and> P 4 \<and> P 5" for P
  proof -
    have "i < 6 \<longleftrightarrow> i = 0 \<or> i = 1 \<or> i = 2 \<or> i = 3 \<or> i = 4 \<or> i = (5 :: nat)" for i
      by linarith
    then show ?thesis
      by (auto simp: runtime_consts)
  qed
  show ?thesis
    using assms
    by (simp add: worker_pool_init_def watchdog_manager_init_def watchdog_manager_init_stalled_worker_def
        init_timer_def u rd_def new_worker_def zero_worker_def worker_pool_suspend_all_def pool_ok_def six
        worker_ok_def set_worker_def working_count_def Let_def)
      (simp add: emit_def runtime_consts)
qed

end
