(* ===== verification/Runtime_Manager.thy ===== *)
theory Runtime_Manager
  imports Worker_Pool Event_Manager
begin

text \<open>
  The runtime manager (\<open>runtime_manager.c\<close>): work is done in windows. A work tick opens a window (user
  interface or background), the window ends in a grace period in which the registered curfew hooks run,
  and then everything sleeps until the next tick. Work submitted in the grace period waits for the next
  window.

  A record of environment answers accompanies every operation: whether the (recursive) lock could be
  taken, the clock readings, whether the settlement timer is running, and whether timers and tasks can
  be created. Nested takes of the recursive lock by the same task succeed.
\<close>

record rt_env =
  e_lock :: bool
  e_now :: int
  e_now2 :: int
  e_settle_active :: bool
  e_timer_ok :: bool
  e_task_ok :: "nat \<Rightarrow> bool"

section \<open>Operations\<close>

definition acquire_lock_runtime :: "rt_env \<Rightarrow> ('f, 'q, 'z) runtime_scheme \<Rightarrow> bool" where
  "acquire_lock_runtime env s = (runtime_lock s \<and> e_lock env)"

definition with_runtime_lock ::
  "rt_env \<Rightarrow> (('f, 'q, 'z) runtime_scheme \<Rightarrow> ('f, 'q, 'z) runtime_scheme option) \<Rightarrow>
   ('f, 'q, 'z) runtime_scheme \<Rightarrow> ('f, 'q, 'z) runtime_scheme option" where
  "with_runtime_lock env body s = (if acquire_lock_runtime env s then body s else Some s)"

text \<open>The loop of \<open>drain_pending_queue\<close>; a queue that never runs empty would keep it from returning.\<close>

partial_function (option) drain_loop :: "('f work_item, 'q) queue_ops \<Rightarrow> 'q \<Rightarrow> 'q \<Rightarrow> ('q \<times> 'q) option" where
  "drain_loop ops src dst =
     (case xQueueReceive ops src of
        None \<Rightarrow> Some (src, dst)
      | Some (work_item, src') \<Rightarrow> drain_loop ops src' (snd (xQueueSend ops work_item dst)))"

definition drain_pending_queue ::
  "('f work_item, 'q) queue_ops \<Rightarrow> runtime_state_t \<Rightarrow> 'q option \<Rightarrow> 'q option \<Rightarrow> ('q option \<times> 'q option) option" where
  "drain_pending_queue ops st queue_src queue_dest =
     (case (queue_src, queue_dest) of
        (Some src, Some dst) \<Rightarrow>
          if st = RUNTIME_STATE_GRACE_PERIOD then Some (Some src, Some dst)
          else do { (src', dst') \<leftarrow> drain_loop ops src dst; Some (Some src', Some dst') }
      | _ \<Rightarrow> None)"

definition is_system_completely_idle :: "('f work_item, 'q) queue_ops \<Rightarrow> ('f, 'q, 'z) runtime_scheme \<Rightarrow> bool option" where
  "is_system_completely_idle ops s = map_option Not (worker_pool_has_work ops s)"

text \<open>The settlement timer: started unless it runs, for the debounce interval or what is left of the period.\<close>

definition arm_settlement ::
  "rt_env \<Rightarrow> int \<Rightarrow> int \<Rightarrow> ('f, 'q, 'z) runtime_scheme \<Rightarrow> ('f, 'q, 'z) runtime_scheme" where
  "arm_settlement env start limit_ms s =
     (if e_settle_active env then s
      else
        let remaining = limit_ms * 1000 - (e_now2 env - start) in
        if remaining > 0 then
          emit [Timer_start_once Curfew_settlement_timer
                  (if remaining < WINDOW_IDLE_DEBOUNCE_INTERVAL_MS * 1000 then remaining
                   else WINDOW_IDLE_DEBOUNCE_INTERVAL_MS * 1000)] s
        else s)"

definition evaluate_early_curfew_body ::
  "rt_env \<Rightarrow> ('f work_item, 'q) queue_ops \<Rightarrow> ('f, 'q, 'z) runtime_scheme \<Rightarrow> ('f, 'q, 'z) runtime_scheme option" where
  "evaluate_early_curfew_body env ops s =
     (if runtime_state s = RUNTIME_STATE_UI_ACTIVE \<or> runtime_state s = RUNTIME_STATE_BACKGROUND_ACTIVE then do {
        idle \<leftarrow> is_system_completely_idle ops s;
        Some (if idle then arm_settlement env (window_start_time s)
                (if runtime_state s = RUNTIME_STATE_UI_ACTIVE then WINDOW_UI_MAX_MS else WINDOW_BACKGROUND_MAX_MS) s
              else s)
      }
      else if runtime_state s = RUNTIME_STATE_GRACE_PERIOD then do {
        idle \<leftarrow> is_system_completely_idle ops s;
        Some (if idle then arm_settlement env (grace_start_time s) WINDOW_GRACE_PERIOD_MS s else s)
      }
      else Some s)"

definition runtime_manager_evaluate_early_curfew ::
  "rt_env \<Rightarrow> ('f work_item, 'q) queue_ops \<Rightarrow> ('f, 'q, 'z) runtime_scheme \<Rightarrow> ('f, 'q, 'z) runtime_scheme option" where
  "runtime_manager_evaluate_early_curfew env ops = with_runtime_lock env (evaluate_early_curfew_body env ops)"

text \<open>\<open>set_runtime_state\<close> under the lock, by target.\<close>

definition enter_active ::
  "rt_env \<Rightarrow> ('f work_item, 'q) queue_ops \<Rightarrow> runtime_state_t \<Rightarrow> ('f, 'q, 'z) runtime_scheme \<Rightarrow> ('f, 'q, 'z) runtime_scheme option" where
  "enter_active env ops target s =
     (if runtime_state s = RUNTIME_STATE_SLEEP then
        let window_duration = (if target = RUNTIME_STATE_UI_ACTIVE then WINDOW_UI_MAX_MS * 1000 else WINDOW_BACKGROUND_MAX_MS * 1000) in
        if e_now env = 0 then None
        else evaluate_early_curfew_body env ops
               (worker_pool_resume_all
                 (emit [Timer_start_once Total_window_timer window_duration]
                   (s\<lparr>runtime_state := target, window_start_time := e_now env\<rparr>)))
      else Some s)"

definition enter_sleep ::
  "rt_env \<Rightarrow> ('f work_item, 'q) queue_ops \<Rightarrow> ('f, 'q, 'z) runtime_scheme \<Rightarrow> ('f, 'q, 'z) runtime_scheme option" where
  "enter_sleep env ops s =
     (let s1 = (emit [Timer_stop Total_window_timer, Timer_stop Grace_period_timer, Timer_stop Curfew_settlement_timer] s)
                 \<lparr>runtime_state := RUNTIME_STATE_SLEEP\<rparr>
      in do {
        (pu, u) \<leftarrow> drain_pending_queue ops (runtime_state s1) (pending_user_work s1) (user_work s1);
        (ps, y) \<leftarrow> drain_pending_queue ops (runtime_state s1) (pending_system_work s1) (system_work s1);
        let s2 = s1\<lparr>pending_user_work := pu, user_work := u, pending_system_work := ps, system_work := y\<rparr>;
        s3 \<leftarrow> watchdog_force_all_mandatory_abort (e_timer_ok env) (e_task_ok env) s2;
        let s4 = worker_pool_suspend_all s3;
        Some (if shutdown_initialized s4 \<and> shutdown_sem s4 then emit [Shutdown_sem_give] s4 else s4)
      })"

definition set_runtime_state_body ::
  "rt_env \<Rightarrow> ('f work_item, 'q) queue_ops \<Rightarrow> runtime_state_t \<Rightarrow> ('f, 'q, 'z) runtime_scheme \<Rightarrow> ('f, 'q, 'z) runtime_scheme option" where
  "set_runtime_state_body env ops target s =
     (if runtime_state s = target then Some s
      else case target of
        RUNTIME_STATE_UI_ACTIVE \<Rightarrow> enter_active env ops target s
      | RUNTIME_STATE_BACKGROUND_ACTIVE \<Rightarrow> enter_active env ops target s
      | RUNTIME_STATE_SLEEP \<Rightarrow> enter_sleep env ops s
      | RUNTIME_STATE_GRACE_PERIOD \<Rightarrow> Some s)"

definition set_runtime_state ::
  "rt_env \<Rightarrow> ('f work_item, 'q) queue_ops \<Rightarrow> runtime_state_t \<Rightarrow> ('f, 'q, 'z) runtime_scheme \<Rightarrow> ('f, 'q, 'z) runtime_scheme option" where
  "set_runtime_state env ops target = with_runtime_lock env (set_runtime_state_body env ops target)"

text \<open>The hooks that \<open>curfew_hook_adapter\<close> runs: the one stored in the payload, unless it is null.\<close>

definition curfew_hook_adapter :: "('f \<Rightarrow> 's \<Rightarrow> 's) \<Rightarrow> 'f work_arg option \<Rightarrow> 's \<Rightarrow> 's" where
  "curfew_hook_adapter run arg1 st =
     (case arg1 of
        Some (Arg_hook (Some hook)) \<Rightarrow> run hook st
      | _ \<Rightarrow> st)"

definition hook_item :: "'f option \<Rightarrow> 'f work_item" where
  "hook_item h = \<lparr>wi_handler = Some Curfew_hook_adapter, wi_type = WORK_TYPE_SYSTEM, wi_arg = Arg_hook h,
     wi_priority = RUNTIME_SYSTEM_PRIORITY\<rparr>"

definition runtime_manager_begin_curfew_unsafe ::
  "rt_env \<Rightarrow> ('f work_item, 'q) queue_ops \<Rightarrow> ('f, 'q, 'z) runtime_scheme \<Rightarrow> ('f, 'q, 'z) runtime_scheme option" where
  "runtime_manager_begin_curfew_unsafe env ops s =
     (let s1 = emit [Timer_stop Total_window_timer, Timer_stop Curfew_settlement_timer] s in
      do {
        busy \<leftarrow> (if active_hook_count s1 = 0 then worker_pool_has_work ops s1 else Some True);
        if \<not> busy then set_runtime_state_body env ops RUNTIME_STATE_SLEEP s1
        else if \<not> grace_period_timer s1 then None
        else do {
          sq \<leftarrow> system_work s1;
          let s2 = emit [Timer_start_once Grace_period_timer (WINDOW_GRACE_PERIOD_MS * 1000)]
                     (s1\<lparr>runtime_state := RUNTIME_STATE_GRACE_PERIOD, grace_start_time := e_now env\<rparr>);
          Some (s2\<lparr>system_work := Some (send_all ops (map hook_item (take (active_hook_count s2) (window_hooks s2))) sq)\<rparr>)
        }
      })"

definition is_active_state :: "runtime_state_t \<Rightarrow> bool" where
  "is_active_state st \<longleftrightarrow> st = RUNTIME_STATE_BACKGROUND_ACTIVE \<or> st = RUNTIME_STATE_UI_ACTIVE"

definition work_window_expiry_cb ::
  "rt_env \<Rightarrow> ('f work_item, 'q) queue_ops \<Rightarrow> ('f, 'q, 'z) runtime_scheme \<Rightarrow> ('f, 'q, 'z) runtime_scheme option" where
  "work_window_expiry_cb env ops =
     with_runtime_lock env (\<lambda>s.
       if is_active_state (runtime_state s) then runtime_manager_begin_curfew_unsafe env ops s else Some s)"

definition grace_period_expiry_cb ::
  "rt_env \<Rightarrow> ('f work_item, 'q) queue_ops \<Rightarrow> ('f, 'q, 'z) runtime_scheme \<Rightarrow> ('f, 'q, 'z) runtime_scheme option" where
  "grace_period_expiry_cb env ops =
     with_runtime_lock env (\<lambda>s.
       if runtime_state s = RUNTIME_STATE_GRACE_PERIOD then do {
         s1 \<leftarrow> watchdog_force_all_cooperative_abort (emit [Timer_stop Grace_period_timer] s);
         uq \<leftarrow> user_work s1;
         set_runtime_state_body env ops RUNTIME_STATE_SLEEP (s1\<lparr>user_work := Some (xQueueReset ops uq)\<rparr>)
       }
       else Some s)"

definition curfew_settlement_expiry_cb ::
  "rt_env \<Rightarrow> ('f work_item, 'q) queue_ops \<Rightarrow> ('f, 'q, 'z) runtime_scheme \<Rightarrow> ('f, 'q, 'z) runtime_scheme option" where
  "curfew_settlement_expiry_cb env ops =
     with_runtime_lock env (\<lambda>s.
       if is_active_state (runtime_state s) then do {
         idle \<leftarrow> is_system_completely_idle ops s;
         if idle then runtime_manager_begin_curfew_unsafe env ops s else Some s
       }
       else if runtime_state s = RUNTIME_STATE_GRACE_PERIOD then do {
         idle \<leftarrow> is_system_completely_idle ops s;
         if idle then set_runtime_state_body env ops RUNTIME_STATE_SLEEP s else Some s
       }
       else Some s)"

definition runtime_manager_reset_settlement_timer ::
  "rt_env \<Rightarrow> ('f, 'q, 'z) runtime_scheme \<Rightarrow> ('f, 'q, 'z) runtime_scheme option" where
  "runtime_manager_reset_settlement_timer env =
     with_runtime_lock env (\<lambda>s. Some (emit [Timer_stop Curfew_settlement_timer] s))"

definition start_work_cb ::
  "rt_env \<Rightarrow> ('f work_item, 'q) queue_ops \<Rightarrow> ('f, 'q, 'z) runtime_scheme \<Rightarrow> ('f, 'q, 'z) runtime_scheme option" where
  "start_work_cb env ops s = (if rt_initialized s then set_runtime_state env ops (work_state s) s else Some s)"

text \<open>Set-up and shutdown; \<open>h\<close> is the identity of \<open>start_work_cb\<close> on the event bus \<open>b\<close>.\<close>

definition runtime_manager_init ::
  "rt_env \<Rightarrow> ('f work_item, 'q) queue_ops \<Rightarrow> 'h \<Rightarrow> bool \<Rightarrow> ('h, 'y) event_mgr_scheme \<Rightarrow> ('f, 'q, 'z) runtime_scheme \<Rightarrow>
   (('h, 'y) event_mgr_scheme \<times> ('f, 'q, 'z) runtime_scheme) option" where
  "runtime_manager_init env ops h mutex_ok b s =
     (if rt_initialized s then Some (b, s)
      else do {
        uq \<leftarrow> xQueueCreate ops MAX_USER_WORK_PER_WINDOW;
        sq \<leftarrow> xQueueCreate ops MAX_SYSTEM_WORK_PER_WINDOW;
        puq \<leftarrow> xQueueCreate ops (MAX_USER_WORK_PER_WINDOW div 2);
        psq \<leftarrow> xQueueCreate ops (MAX_SYSTEM_WORK_PER_WINDOW div 2);
        if \<not> mutex_ok then None
        else do {
          let s1 = s\<lparr>user_work := Some uq, system_work := Some sq, pending_user_work := Some puq,
                     pending_system_work := Some psq, runtime_lock := True, active_hook_count := 0,
                     runtime_state := RUNTIME_STATE_SLEEP, shutdown_initialized := False,
                     window_start_time := 0, grace_start_time := 0, total_window_timer := False,
                     grace_period_timer := False, curfew_settlement_timer := False\<rparr>;
          s2 \<leftarrow> worker_pool_init (e_timer_ok env) (e_task_ok env) s1;
          t1 \<leftarrow> init_timer (e_timer_ok env) (total_window_timer s2);
          t2 \<leftarrow> init_timer (e_timer_ok env) (grace_period_timer s2);
          t3 \<leftarrow> init_timer (e_timer_ok env) (curfew_settlement_timer s2);
          Some (snd (event_subscribe EVENT_WORK_TICK (Some h) b),
                s2\<lparr>total_window_timer := t1, grace_period_timer := t2, curfew_settlement_timer := t3,
                   rt_initialized := True, work_state := RUNTIME_STATE_UI_ACTIVE\<rparr>)
        }
      })"

definition runtime_manager_deinit ::
  "rt_env \<Rightarrow> ('f work_item, 'q) queue_ops \<Rightarrow> 'h \<Rightarrow> bool \<Rightarrow> (rt_timer \<Rightarrow> bool) \<Rightarrow> ('h, 'y) event_mgr_scheme \<Rightarrow>
   ('f, 'q, 'z) runtime_scheme \<Rightarrow> (('h, 'y) event_mgr_scheme \<times> ('f, 'q, 'z) runtime_scheme) option" where
  "runtime_manager_deinit env ops h finished active b s =
     do {
       let s1 = s\<lparr>shutdown_initialized := True, shutdown_sem := True, active_hook_count := 0\<rparr>;
       s2 \<leftarrow> (if finished then Some s1 else set_runtime_state env ops RUNTIME_STATE_SLEEP s1);
       s3 \<leftarrow> worker_pool_deinit active (s2\<lparr>shutdown_sem := False\<rparr>);
       let (t1, c1) = safe_timer_cleanup (active Total_window_timer) Total_window_timer (total_window_timer s3);
       let (t2, c2) = safe_timer_cleanup (active Grace_period_timer) Grace_period_timer (grace_period_timer s3);
       let (t3, c3) = safe_timer_cleanup (active Curfew_settlement_timer) Curfew_settlement_timer (curfew_settlement_timer s3);
       Some (snd (event_unsubscribe EVENT_WORK_TICK (Some h) b),
             (emit (c1 @ c2 @ c3) s3)\<lparr>total_window_timer := t1, grace_period_timer := t2, curfew_settlement_timer := t3,
               user_work := None, system_work := None, pending_user_work := None, pending_system_work := None,
               runtime_lock := False, rt_initialized := False\<rparr>)
     }"

definition runtime_manager_set_active_state ::
  "bool \<Rightarrow> ('f, 'q, 'z) runtime_scheme \<Rightarrow> ('f, 'q, 'z) runtime_scheme" where
  "runtime_manager_set_active_state ui_active_state s =
     s\<lparr>work_state := (if ui_active_state then RUNTIME_STATE_UI_ACTIVE else RUNTIME_STATE_BACKGROUND_ACTIVE)\<rparr>"

definition runtime_get_state :: "rt_env \<Rightarrow> ('f, 'q, 'z) runtime_scheme \<Rightarrow> runtime_state_t" where
  "runtime_get_state env s = (if acquire_lock_runtime env s then runtime_state s else RUNTIME_STATE_SLEEP)"

text \<open>Submitting work. The result starts as \<open>pdPASS\<close> and the block is skipped when the lock times out.\<close>

definition schedule_user_work ::
  "rt_env \<Rightarrow> ('f work_item, 'q) queue_ops \<Rightarrow> 'f work_item option \<Rightarrow> ('f, 'q, 'z) runtime_scheme \<Rightarrow>
   (bool \<times> ('f, 'q, 'z) runtime_scheme) option" where
  "schedule_user_work env ops itemp s =
     (if \<not> rt_initialized s then Some (False, s)
      else case (user_work s, itemp) of
        (None, _) \<Rightarrow> Some (False, s)
      | (_, None) \<Rightarrow> Some (False, s)
      | (Some uq, Some item) \<Rightarrow>
          if wi_handler item = None \<or> shutdown_initialized s then Some (False, s)
          else if \<not> acquire_lock_runtime env s then Some (True, s)
          else if runtime_state s = RUNTIME_STATE_GRACE_PERIOD then do {
            pq \<leftarrow> pending_user_work s;
            let (r, pq') = xQueueSend ops item pq;
            Some (r, s\<lparr>pending_user_work := Some pq'\<rparr>)
          }
          else let (r, uq') = xQueueSend ops item uq in Some (r, s\<lparr>user_work := Some uq'\<rparr>))"

definition schedule_system_work ::
  "rt_env \<Rightarrow> ('f work_item, 'q) queue_ops \<Rightarrow> 'f work_item option \<Rightarrow> ('f, 'q, 'z) runtime_scheme \<Rightarrow>
   (bool \<times> ('f, 'q, 'z) runtime_scheme) option" where
  "schedule_system_work env ops itemp s =
     (if \<not> rt_initialized s then Some (False, s)
      else case (system_work s, itemp) of
        (None, _) \<Rightarrow> Some (False, s)
      | (_, None) \<Rightarrow> Some (False, s)
      | (Some sq, Some item) \<Rightarrow>
          if wi_handler item = None \<or> shutdown_initialized s then Some (False, s)
          else if \<not> acquire_lock_runtime env s then Some (True, s)
          else if runtime_state s = RUNTIME_STATE_GRACE_PERIOD then do {
            pq \<leftarrow> pending_system_work s;
            let (r, pq') = xQueueSend ops item pq;
            Some (r, s\<lparr>pending_system_work := Some pq'\<rparr>)
          }
          else let (r, sq') = xQueueSend ops item sq in Some (r, s\<lparr>system_work := Some sq'\<rparr>))"

definition runtime_manager_register_hook ::
  "rt_env \<Rightarrow> 'f option \<Rightarrow> ('f, 'q, 'z) runtime_scheme \<Rightarrow> bool \<times> ('f, 'q, 'z) runtime_scheme" where
  "runtime_manager_register_hook env hook s =
     (if \<not> rt_initialized s \<or> hook = None \<or> shutdown_initialized s then (False, s)
      else if \<not> acquire_lock_runtime env s then (True, s)
      else if active_hook_count s \<ge> MAX_CURFEW_HOOKS then (False, s)
      else (True, s\<lparr>window_hooks := (window_hooks s)[active_hook_count s := hook],
                    active_hook_count := active_hook_count s + 1\<rparr>))"

text \<open>The search-and-shift loop of \<open>runtime_manager_unregister_hook\<close> from index \<open>i\<close>.\<close>

function unregister_loop :: "'f option \<Rightarrow> nat \<Rightarrow> nat \<Rightarrow> bool \<Rightarrow> 'f option list \<Rightarrow> bool \<times> 'f option list" where
  "unregister_loop hook n i success hs =
     (if i < n then
        let success' = (success \<or> hs ! i = hook) in
        unregister_loop hook n (i + 1) success' (if success' \<and> i \<noteq> n - 1 then hs[i := hs ! (i + 1)] else hs)
      else (success, hs))"
  by pat_completeness auto

termination
  by (relation "measure (\<lambda>(hook, n, i, success, hs). n - i)") auto

declare unregister_loop.simps [simp del]

definition runtime_manager_unregister_hook ::
  "rt_env \<Rightarrow> 'f option \<Rightarrow> ('f, 'q, 'z) runtime_scheme \<Rightarrow> bool \<times> ('f, 'q, 'z) runtime_scheme" where
  "runtime_manager_unregister_hook env hook s =
     (if \<not> rt_initialized s \<or> hook = None then (False, s)
      else if \<not> acquire_lock_runtime env s then (False, s)
      else
        let (success, hs) = unregister_loop hook (active_hook_count s) 0 False (window_hooks s) in
        if success then
          (True, s\<lparr>window_hooks := hs[active_hook_count s - 1 := None], active_hook_count := active_hook_count s - 1\<rparr>)
        else (False, s\<lparr>window_hooks := hs\<rparr>))"

section \<open>The workers\<close>

text \<open>
  One pass of \<open>pool_worker_entry\<close>: from receiving an item to calling its handler, and from the return of
  the handler to the end of the pass. \<open>None\<close> in the first component of the result is the blocking wait
  on an empty queue.
\<close>

definition pool_worker_begin ::
  "rt_env \<Rightarrow> ('f work_item, 'q) queue_ops \<Rightarrow> nat \<Rightarrow> ('f, 'q, 'z) runtime_scheme \<Rightarrow>
   ('f work_item option \<times> ('f, 'q, 'z) runtime_scheme) option" where
  "pool_worker_begin env ops i s =
     do {
       w \<leftarrow> rd (workers s) i;
       q \<leftarrow> (if w_type w = WORK_TYPE_USER then user_work s else system_work s);
       case xQueueReceive ops q of
         None \<Rightarrow> Some (None, s)
       | Some (item, q') \<Rightarrow> do {
           let s1 = (if w_type w = WORK_TYPE_USER then s\<lparr>user_work := Some q'\<rparr> else s\<lparr>system_work := Some q'\<rparr>);
           s2 \<leftarrow> runtime_manager_reset_settlement_timer env (s1\<lparr>active_workers := active_workers s1 + 1\<rparr>);
           let user = (wi_type item = WORK_TYPE_USER);
           let s3 = set_worker i (w\<lparr>w_abort := False\<rparr>)
                      (emit [Task_priority i (if user then RUNTIME_USER_PRIORITY else RUNTIME_SYSTEM_PRIORITY)] s2);
           s4 \<leftarrow> (if user then watchdog_start_user_work i s3 else Some s3);
           Some (Some item, set_worker i (w\<lparr>w_abort := False, w_working := True\<rparr>) s4)
         }
     }"

definition pool_worker_end ::
  "rt_env \<Rightarrow> ('f work_item, 'q) queue_ops \<Rightarrow> nat \<Rightarrow> 'f work_item \<Rightarrow> ('f, 'q, 'z) runtime_scheme \<Rightarrow> ('f, 'q, 'z) runtime_scheme option" where
  "pool_worker_end env ops i item s =
     do {
       w \<leftarrow> rd (workers s) i;
       let s1 = set_worker i (w\<lparr>w_working := False\<rparr>) s;
       s2 \<leftarrow> (if wi_type item = WORK_TYPE_USER then watchdog_stop_user_work i s1 else Some s1);
       let s3 = emit [Task_priority i RUNTIME_BASELINE_PRIORITY] (set_worker i (w\<lparr>w_working := False, w_abort := True\<rparr>) s2);
       let s4 = s3\<lparr>active_workers := active_workers s3 - 1\<rparr>;
       if active_workers s3 = 1 then runtime_manager_evaluate_early_curfew env ops s4 else Some s4
     }"

section \<open>Queues\<close>

lemma drain_loop_correct:
  assumes "queue_spec ops items cap"
  shows "\<exists>src' dst'. drain_loop ops src dst = Some (src', dst') \<and> items src' = [] \<and> cap src' = cap src \<and>
     items dst' = take (cap dst) (items dst @ items src) \<and> cap dst' = cap dst"
proof (induction "items src" arbitrary: src dst)
  case Nil
  have "xQueueReceive ops src = None" "length (items dst) \<le> cap dst"
    using assms Nil unfolding queue_spec_def by auto
  then show ?case
    using Nil by (simp add: drain_loop.simps [of ops src dst])
next
  case (Cons x xs)
  obtain src1 where r: "xQueueReceive ops src = Some (x, src1)" "items src1 = xs" "cap src1 = cap src"
    using assms Cons.hyps(2) [symmetric] unfolding queue_spec_def by blast
  let ?d = "snd (xQueueSend ops x dst)"
  obtain src' dst' where "drain_loop ops src1 ?d = Some (src', dst')" "items src' = []" "cap src' = cap src"
    "items dst' = take (cap dst) (items dst @ x # xs)" "cap dst' = cap dst"
    using Cons.hyps(1) [of src1 ?d] r
    by (auto simp: queue_send [OF assms] take_snoc_append simp del: take_append)
  then show ?case
    using r(1) Cons.hyps(2) [symmetric] by (simp add: drain_loop.simps [of ops src dst])
qed

section \<open>Invariant\<close>

definition all_system :: "'f work_item list \<Rightarrow> bool" where
  "all_system xs \<longleftrightarrow> (\<forall>x \<in> set xs. wi_type x = WORK_TYPE_SYSTEM)"

definition queues_ok ::
  "('q \<Rightarrow> 'f work_item list) \<Rightarrow> ('q \<Rightarrow> nat) \<Rightarrow> 'q option \<Rightarrow> 'q option \<Rightarrow> 'q option \<Rightarrow> 'q option \<Rightarrow> bool" where
  "queues_ok items cap u y pu py \<longleftrightarrow>
     (\<exists>uq yq puq pyq. u = Some uq \<and> y = Some yq \<and> pu = Some puq \<and> py = Some pyq \<and>
        all_system (items yq) \<and> all_system (items pyq))"

definition rt_ok :: "('q \<Rightarrow> 'f work_item list) \<Rightarrow> ('q \<Rightarrow> nat) \<Rightarrow> ('f, 'q, 'z) runtime_scheme \<Rightarrow> bool" where
  "rt_ok items cap s \<longleftrightarrow>
     pool_ok s \<and> pool_queues s \<and> runtime_lock s \<and> rt_initialized s \<and> grace_period_timer s \<and>
     queues_ok items cap (user_work s) (system_work s) (pending_user_work s) (pending_system_work s) \<and>
     length (window_hooks s) = MAX_CURFEW_HOOKS \<and> active_hook_count s \<le> MAX_CURFEW_HOOKS \<and>
     is_active_state (work_state s)"

text \<open>The transitions of the window automaton.\<close>

definition allowed :: "runtime_state_t \<Rightarrow> runtime_state_t \<Rightarrow> bool" where
  "allowed st st' \<longleftrightarrow>
     st' = st \<or> st' = RUNTIME_STATE_SLEEP \<or>
     (st = RUNTIME_STATE_SLEEP \<and> is_active_state st') \<or>
     (is_active_state st \<and> st' = RUNTIME_STATE_GRACE_PERIOD)"

lemma emit_fields [simp]:
  "user_work (emit cs s) = user_work s" "system_work (emit cs s) = system_work s"
  "pending_user_work (emit cs s) = pending_user_work s" "pending_system_work (emit cs s) = pending_system_work s"
  "runtime_lock (emit cs s) = runtime_lock s" "runtime_state (emit cs s) = runtime_state s"
  "window_hooks (emit cs s) = window_hooks s" "active_hook_count (emit cs s) = active_hook_count s"
  "rt_initialized (emit cs s) = rt_initialized s" "window_start_time (emit cs s) = window_start_time s"
  "grace_start_time (emit cs s) = grace_start_time s" "grace_period_timer (emit cs s) = grace_period_timer s"
  "work_state (emit cs s) = work_state s" "shutdown_initialized (emit cs s) = shutdown_initialized s"
  "shutdown_sem (emit cs s) = shutdown_sem s" "pool_queues (emit cs s) = pool_queues s"
  by (simp_all add: emit_def)

lemma rt_ok_emit [simp]: "rt_ok items cap (emit cs s) = rt_ok items cap s"
  by (simp add: rt_ok_def)

lemma rt_ok_state [simp]:
  "rt_ok items cap (s\<lparr>runtime_state := x\<rparr>) = rt_ok items cap s"
  "rt_ok items cap (s\<lparr>window_start_time := t\<rparr>) = rt_ok items cap s"
  "rt_ok items cap (s\<lparr>grace_start_time := t\<rparr>) = rt_ok items cap s"
  by (simp_all add: rt_ok_def pool_ok_def)

lemma has_work_eq:
  assumes "queue_spec ops items cap" and "rt_ok items cap s"
  shows "\<exists>b. worker_pool_has_work ops s = Some b"
  using assms by (auto simp: worker_pool_has_work_def rt_ok_def queues_ok_def)

lemma arm_settlement_ok [simp]:
  "rt_ok items cap (arm_settlement env t l s) = rt_ok items cap s"
  "runtime_state (arm_settlement env t l s) = runtime_state s"
  by (simp_all add: arm_settlement_def Let_def)

lemma evaluate_ok:
  assumes "queue_spec ops items cap" and "rt_ok items cap s"
  shows "\<exists>s'. evaluate_early_curfew_body env ops s = Some s' \<and> rt_ok items cap s' \<and> runtime_state s' = runtime_state s"
proof -
  obtain b where "worker_pool_has_work ops s = Some b"
    using has_work_eq [OF assms] by blast
  then show ?thesis
    using assms(2) by (simp add: evaluate_early_curfew_body_def is_system_completely_idle_def)
qed

text \<open>Entering sleep: pending work moves behind the waiting work, and no worker is left working.\<close>

lemma rt_ok_same_manager:
  "same_manager s s' \<Longrightarrow> pool_ok s' \<Longrightarrow> rt_ok items cap s \<Longrightarrow> rt_ok items cap s'"
  by (simp add: rt_ok_def same_manager_fields)

lemma all_system_drained: "all_system xs \<Longrightarrow> all_system ys \<Longrightarrow> all_system (take c (xs @ ys))"
  by (auto simp: all_system_def dest!: in_set_takeD)

lemma enter_sleep_correct:
  assumes q: "queue_spec ops items cap" and ok: "rt_ok items cap s"
  shows "\<exists>s' uq yq puq pyq uq' yq' puq' pyq'. enter_sleep env ops s = Some s' \<and> rt_ok items cap s' \<and>
     runtime_state s' = RUNTIME_STATE_SLEEP \<and> (\<forall>w \<in> set (workers s'). \<not> w_working w) \<and>
     user_work s = Some uq \<and> system_work s = Some yq \<and> pending_user_work s = Some puq \<and> pending_system_work s = Some pyq \<and>
     user_work s' = Some uq' \<and> system_work s' = Some yq' \<and> pending_user_work s' = Some puq' \<and> pending_system_work s' = Some pyq' \<and>
     items uq' = take (cap uq) (items uq @ items puq) \<and> items puq' = [] \<and>
     items yq' = take (cap yq) (items yq @ items pyq) \<and> items pyq' = []"
proof -
  obtain uq yq puq pyq where qs: "user_work s = Some uq" "system_work s = Some yq" "pending_user_work s = Some puq"
    "pending_system_work s = Some pyq" "all_system (items yq)" "all_system (items pyq)"
    using ok by (auto simp: rt_ok_def queues_ok_def)
  obtain puq' uq' where d1: "drain_loop ops puq uq = Some (puq', uq')" "items puq' = []"
    "items uq' = take (cap uq) (items uq @ items puq)"
    using drain_loop_correct [OF q, of puq uq] by blast
  obtain pyq' yq' where d2: "drain_loop ops pyq yq = Some (pyq', yq')" "items pyq' = []"
    "items yq' = take (cap yq) (items yq @ items pyq)"
    using drain_loop_correct [OF q, of pyq yq] by blast
  let ?s1 = "(emit [Timer_stop Total_window_timer, Timer_stop Grace_period_timer, Timer_stop Curfew_settlement_timer] s)
                 \<lparr>runtime_state := RUNTIME_STATE_SLEEP\<rparr>"
  let ?s2 = "?s1\<lparr>pending_user_work := Some puq', user_work := Some uq', pending_system_work := Some pyq', system_work := Some yq'\<rparr>"
  have p2: "pool_ok ?s2"
    using ok by (simp add: rt_ok_def pool_ok_def)
  have "rt_ok items cap ?s2"
    using ok p2 d2(2,3) all_system_drained [OF qs(5,6), of "cap yq"]
    by (simp add: rt_ok_def queues_ok_def all_system_def [of "[]"])
  moreover obtain s3 where s3: "watchdog_force_all_mandatory_abort (e_timer_ok env) (e_task_ok env) ?s2 = Some s3"
    "pool_ok s3" "same_manager ?s2 s3" "\<forall>w \<in> set (workers s3). \<not> w_working w"
    using mandatory_abort_correct [OF p2] by blast
  ultimately have r3: "rt_ok items cap s3"
    using rt_ok_same_manager by blast
  note f = same_manager_fields [OF s3(3)]
  let ?s4 = "worker_pool_suspend_all s3"
  let ?s5 = "if shutdown_initialized ?s4 \<and> shutdown_sem ?s4 then emit [Shutdown_sem_give] ?s4 else ?s4"
  have e: "enter_sleep env ops s = Some ?s5"
    using qs(1-4) d1(1) d2(1) s3(1)
    by (simp add: enter_sleep_def drain_pending_queue_def Let_def)
  have "rt_ok items cap ?s5" "runtime_state ?s5 = RUNTIME_STATE_SLEEP" "\<forall>w \<in> set (workers ?s5). \<not> w_working w"
    "user_work ?s5 = Some uq'" "system_work ?s5 = Some yq'" "pending_user_work ?s5 = Some puq'" "pending_system_work ?s5 = Some pyq'"
    using r3 f s3(4) by (simp_all add: worker_pool_suspend_all_def)
  then show ?thesis
    using e qs(1-4) d1(2,3) d2(2,3) by blast
qed

lemma enter_active_ok:
  assumes "queue_spec ops items cap" and "rt_ok items cap s" and "e_now env \<noteq> 0" and "is_active_state target"
  shows "\<exists>s'. enter_active env ops target s = Some s' \<and> rt_ok items cap s' \<and>
     runtime_state s' = (if runtime_state s = RUNTIME_STATE_SLEEP then target else runtime_state s)"
proof (cases "runtime_state s = RUNTIME_STATE_SLEEP")
  case True
  let ?d = "if target = RUNTIME_STATE_UI_ACTIVE then WINDOW_UI_MAX_MS * 1000 else WINDOW_BACKGROUND_MAX_MS * 1000"
  let ?t = "worker_pool_resume_all (emit [Timer_start_once Total_window_timer ?d]
      (s\<lparr>runtime_state := target, window_start_time := e_now env\<rparr>))"
  have "rt_ok items cap ?t" "runtime_state ?t = target"
    using assms(2) by (simp_all add: worker_pool_resume_all_def)
  then show ?thesis
    using evaluate_ok [OF assms(1), of ?t env] True assms(3) by (simp add: enter_active_def Let_def)
qed (use assms(2) in \<open>simp add: enter_active_def\<close>)

lemma set_state_ok:
  assumes "queue_spec ops items cap" and "rt_ok items cap s" and "e_now env \<noteq> 0" and "target \<noteq> RUNTIME_STATE_GRACE_PERIOD"
  shows "\<exists>s'. set_runtime_state_body env ops target s = Some s' \<and> rt_ok items cap s' \<and>
     runtime_state s' = (if target = RUNTIME_STATE_SLEEP \<or> runtime_state s = RUNTIME_STATE_SLEEP then target else runtime_state s)"
proof -
  obtain s' where s': "enter_sleep env ops s = Some s'" "rt_ok items cap s'" "runtime_state s' = RUNTIME_STATE_SLEEP"
    using enter_sleep_correct [OF assms(1,2), of env] by blast
  show ?thesis
    using s' assms enter_active_ok [OF assms(1-3), of target]
    by (cases target) (auto simp: set_runtime_state_body_def is_active_state_def)
qed

lemma begin_curfew_ok:
  assumes q: "queue_spec ops items cap" and ok: "rt_ok items cap s" and now: "e_now env \<noteq> 0"
  shows "\<exists>s'. runtime_manager_begin_curfew_unsafe env ops s = Some s' \<and> rt_ok items cap s' \<and>
     (runtime_state s' = RUNTIME_STATE_SLEEP \<or> runtime_state s' = RUNTIME_STATE_GRACE_PERIOD)"
proof -
  let ?s1 = "emit [Timer_stop Total_window_timer, Timer_stop Curfew_settlement_timer] s"
  have ok1: "rt_ok items cap ?s1"
    using ok by simp
  obtain b where b: "worker_pool_has_work ops ?s1 = Some b"
    using has_work_eq [OF q ok1] by blast
  obtain s2 where s2: "set_runtime_state_body env ops RUNTIME_STATE_SLEEP ?s1 = Some s2" "rt_ok items cap s2"
    "runtime_state s2 = RUNTIME_STATE_SLEEP"
    using set_state_ok [OF q ok1 now, of RUNTIME_STATE_SLEEP] by auto
  obtain uq yq puq pyq where qs: "user_work s = Some uq" "system_work s = Some yq" "pending_user_work s = Some puq"
    "pending_system_work s = Some pyq" "all_system (items yq)" "all_system (items pyq)"
    using ok by (auto simp: rt_ok_def queues_ok_def)
  let ?y = "send_all ops (map hook_item (take (active_hook_count s) (window_hooks s))) yq"
  have "all_system (map hook_item (take (active_hook_count s) (window_hooks s)))"
    by (auto simp: all_system_def hook_item_def)
  then have y: "all_system (items ?y)"
    using send_all_items [OF q] all_system_drained [OF qs(5)] by metis
  let ?g = "(emit [Timer_start_once Grace_period_timer (WINDOW_GRACE_PERIOD_MS * 1000)]
      (?s1\<lparr>runtime_state := RUNTIME_STATE_GRACE_PERIOD, grace_start_time := e_now env\<rparr>))\<lparr>system_work := Some ?y\<rparr>"
  have "rt_ok items cap ?g"
    using ok y qs by (simp add: rt_ok_def pool_ok_def queues_ok_def)
  moreover have "runtime_state ?g = RUNTIME_STATE_GRACE_PERIOD"
    by simp
  moreover have "grace_period_timer s"
    using ok by (simp add: rt_ok_def)
  ultimately show ?thesis
    using b s2 qs(2) by (cases b) (auto simp: runtime_manager_begin_curfew_unsafe_def Let_def)
qed

section \<open>The operations as steps\<close>

datatype 'f rt_op =
    Op_tick
  | Op_window_expiry
  | Op_grace_expiry
  | Op_settlement_expiry
  | Op_schedule_user "'f work_item option"
  | Op_schedule_system "'f work_item option"
  | Op_register "'f option"
  | Op_unregister "'f option"
  | Op_set_active bool
  | Op_worker_begin nat
  | Op_worker_end nat "'f work_item"
  | Op_soft_abort nat
  | Op_hard_abort nat

definition rt_exec ::
  "rt_env \<Rightarrow> ('f work_item, 'q) queue_ops \<Rightarrow> 'f rt_op \<Rightarrow> ('f, 'q, 'z) runtime_scheme \<Rightarrow> ('f, 'q, 'z) runtime_scheme option" where
  "rt_exec env ops op s =
     (case op of
        Op_tick \<Rightarrow> start_work_cb env ops s
      | Op_window_expiry \<Rightarrow> work_window_expiry_cb env ops s
      | Op_grace_expiry \<Rightarrow> grace_period_expiry_cb env ops s
      | Op_settlement_expiry \<Rightarrow> curfew_settlement_expiry_cb env ops s
      | Op_schedule_user x \<Rightarrow> map_option snd (schedule_user_work env ops x s)
      | Op_schedule_system x \<Rightarrow> map_option snd (schedule_system_work env ops x s)
      | Op_register h \<Rightarrow> Some (snd (runtime_manager_register_hook env h s))
      | Op_unregister h \<Rightarrow> Some (snd (runtime_manager_unregister_hook env h s))
      | Op_set_active b \<Rightarrow> Some (runtime_manager_set_active_state b s)
      | Op_worker_begin i \<Rightarrow> map_option snd (pool_worker_begin env ops i s)
      | Op_worker_end i x \<Rightarrow> pool_worker_end env ops i x s
      | Op_soft_abort i \<Rightarrow> worker_soft_abort_cb i s
      | Op_hard_abort i \<Rightarrow> worker_hard_abort_cb (e_timer_ok env) (e_task_ok env i) i s)"

text \<open>
  When a step can happen: an idle worker with a task begins, a working one ends (a user item only on a
  user worker), watchdog timers belong to the user workers, and clients submit system work with the
  system type.
\<close>

definition op_enabled :: "'f rt_op \<Rightarrow> ('f, 'q, 'z) runtime_scheme \<Rightarrow> bool" where
  "op_enabled op s \<longleftrightarrow>
     (case op of
        Op_schedule_system (Some x) \<Rightarrow> wi_type x = WORK_TYPE_SYSTEM
      | Op_worker_begin i \<Rightarrow> i < WORKER_POOL_SIZE \<and> w_task (workers s ! i) \<and> \<not> w_working (workers s ! i)
      | Op_worker_end i x \<Rightarrow> i < WORKER_POOL_SIZE \<and> w_working (workers s ! i) \<and>
          (wi_type x = WORK_TYPE_USER \<longrightarrow> i < WORKER_POOL_USER_ALLOCATION)
      | Op_soft_abort i \<Rightarrow> i < WORKER_POOL_USER_ALLOCATION
      | Op_hard_abort i \<Rightarrow> i < WORKER_POOL_USER_ALLOCATION
      | _ \<Rightarrow> True)"

lemma lock_ok: "rt_ok items cap s \<Longrightarrow> acquire_lock_runtime env s = e_lock env"
  by (simp add: acquire_lock_runtime_def rt_ok_def)

lemma tick_ok:
  assumes "queue_spec ops items cap" and "rt_ok items cap s" and "e_now env \<noteq> 0"
  shows "\<exists>s'. start_work_cb env ops s = Some s' \<and> rt_ok items cap s' \<and> allowed (runtime_state s) (runtime_state s')"
proof -
  have a: "is_active_state (work_state s)"
    using assms(2) by (simp add: rt_ok_def)
  then have t: "work_state s \<noteq> RUNTIME_STATE_GRACE_PERIOD" "work_state s \<noteq> RUNTIME_STATE_SLEEP"
    by (auto simp: is_active_state_def)
  show ?thesis
    using set_state_ok [OF assms t(1)] assms(2) a t(2)
    by (auto simp: start_work_cb_def set_runtime_state_def with_runtime_lock_def lock_ok allowed_def)
qed

lemma window_expiry_ok:
  assumes "queue_spec ops items cap" and "rt_ok items cap s" and "e_now env \<noteq> 0"
  shows "\<exists>s'. work_window_expiry_cb env ops s = Some s' \<and> rt_ok items cap s' \<and> allowed (runtime_state s) (runtime_state s')"
  using begin_curfew_ok [OF assms] assms(2)
  by (auto simp: work_window_expiry_cb_def with_runtime_lock_def allowed_def)

lemma settlement_ok:
  assumes "queue_spec ops items cap" and "rt_ok items cap s" and "e_now env \<noteq> 0"
  shows "\<exists>s'. curfew_settlement_expiry_cb env ops s = Some s' \<and> rt_ok items cap s' \<and> allowed (runtime_state s) (runtime_state s')"
proof -
  obtain b where "worker_pool_has_work ops s = Some b"
    using has_work_eq [OF assms(1,2)] by blast
  then show ?thesis
    using begin_curfew_ok [OF assms] set_state_ok [OF assms, of RUNTIME_STATE_SLEEP] assms(2)
    by (cases b) (auto simp: curfew_settlement_expiry_cb_def with_runtime_lock_def allowed_def is_system_completely_idle_def)
qed

lemma cooperative_abort_pool:
  assumes "pool_ok s"
  shows "\<exists>s'. watchdog_force_all_cooperative_abort s = Some s' \<and> pool_ok s' \<and> same_manager s s' \<and>
     (\<forall>w \<in> set (workers s'). w_abort w)"
proof -
  let ?ws = "map (\<lambda>w. w\<lparr>w_abort := True\<rparr>) (workers s)"
  have "working_count ?ws = working_count (workers s)"
    by (simp add: working_count_def filter_map comp_def)
  then have "pool_ok (s\<lparr>workers := ?ws\<rparr>)"
    using assms by (simp add: pool_ok_def worker_ok_def)
  then show ?thesis
    using assms by (auto simp: watchdog_force_all_cooperative_abort_def pool_ok_def same_manager_def)
qed

lemma grace_expiry_ok:
  assumes q: "queue_spec ops items cap" and ok: "rt_ok items cap s" and now: "e_now env \<noteq> 0"
  shows "\<exists>s'. grace_period_expiry_cb env ops s = Some s' \<and> rt_ok items cap s' \<and> allowed (runtime_state s) (runtime_state s')"
proof (cases "e_lock env \<and> runtime_state s = RUNTIME_STATE_GRACE_PERIOD")
  case True
  let ?t = "emit [Timer_stop Grace_period_timer] s"
  have "pool_ok ?t"
    using ok by (simp add: rt_ok_def)
  then obtain s1 where s1: "watchdog_force_all_cooperative_abort ?t = Some s1" "pool_ok s1" "same_manager ?t s1"
    using cooperative_abort_pool by blast
  have r1: "rt_ok items cap s1"
    using rt_ok_same_manager [OF s1(3,2)] ok by simp
  then obtain uq where u: "user_work s1 = Some uq"
    by (auto simp: rt_ok_def queues_ok_def)
  let ?s2 = "s1\<lparr>user_work := Some (xQueueReset ops uq)\<rparr>"
  have "rt_ok items cap ?s2"
    using r1 by (auto simp: rt_ok_def queues_ok_def pool_ok_def)
  then obtain s3 where "set_runtime_state_body env ops RUNTIME_STATE_SLEEP ?s2 = Some s3" "rt_ok items cap s3"
    "runtime_state s3 = RUNTIME_STATE_SLEEP"
    using set_state_ok [OF q _ now, of ?s2 RUNTIME_STATE_SLEEP] by auto
  then show ?thesis
    using True ok s1(1) u by (simp add: grace_period_expiry_cb_def with_runtime_lock_def lock_ok allowed_def)
next
  case False
  then show ?thesis
    using ok by (auto simp: grace_period_expiry_cb_def with_runtime_lock_def lock_ok allowed_def)
qed

lemma rt_ok_queue_update:
  assumes "rt_ok items cap s"
  shows "rt_ok items cap (s\<lparr>user_work := Some q\<rparr>)" "rt_ok items cap (s\<lparr>pending_user_work := Some q\<rparr>)"
    and "all_system (items q) \<Longrightarrow> rt_ok items cap (s\<lparr>system_work := Some q\<rparr>)"
    and "all_system (items q) \<Longrightarrow> rt_ok items cap (s\<lparr>pending_system_work := Some q\<rparr>)"
  using assms by (auto simp: rt_ok_def pool_ok_def queues_ok_def)

lemma schedule_user_ok:
  assumes "queue_spec ops items cap" and "rt_ok items cap s"
  shows "\<exists>b s'. schedule_user_work env ops x s = Some (b, s') \<and> rt_ok items cap s' \<and> runtime_state s' = runtime_state s"
proof -
  obtain uq puq where "user_work s = Some uq" "pending_user_work s = Some puq"
    using assms(2) by (auto simp: rt_ok_def queues_ok_def)
  then show ?thesis
    using assms(2) rt_ok_queue_update(1,2) [OF assms(2)]
    by (cases x) (auto simp: schedule_user_work_def Let_def split: prod.split)
qed

lemma schedule_system_ok:
  assumes "queue_spec ops items cap" and "rt_ok items cap s" and "\<forall>y. x = Some y \<longrightarrow> wi_type y = WORK_TYPE_SYSTEM"
  shows "\<exists>b s'. schedule_system_work env ops x s = Some (b, s') \<and> rt_ok items cap s' \<and> runtime_state s' = runtime_state s"
proof -
  obtain yq pyq where qs: "system_work s = Some yq" "pending_system_work s = Some pyq" "all_system (items yq)" "all_system (items pyq)"
    using assms(2) by (auto simp: rt_ok_def queues_ok_def)
  have "all_system (items (snd (xQueueSend ops y q)))" if "all_system (items q)" "x = Some y" for y q
    using all_system_drained [OF that(1), of "[y]" "cap q"] assms(3) that(2)
    by (simp add: queue_send [OF assms(1)] all_system_def [of "[y]"] del: take_append)
  then show ?thesis
    using assms(2) rt_ok_queue_update(3,4) [OF assms(2)] qs
    by (cases x) (auto simp: schedule_system_work_def Let_def split_beta)
qed

lemma length_unregister_loop: "length (snd (unregister_loop h n i b hs)) = length hs"
proof (induction h n i b hs rule: unregister_loop.induct)
  case (1 hook n i success hs)
  then show ?case
    by (cases "i < n") (simp_all add: unregister_loop.simps [of hook n i success hs] Let_def)
qed

lemma hooks_ok:
  assumes "rt_ok items cap s"
  shows "rt_ok items cap (snd (runtime_manager_register_hook env h s))"
    and "rt_ok items cap (snd (runtime_manager_unregister_hook env h s))"
    and "runtime_state (snd (runtime_manager_register_hook env h s)) = runtime_state s"
    and "runtime_state (snd (runtime_manager_unregister_hook env h s)) = runtime_state s"
  using assms length_unregister_loop [of h "active_hook_count s" 0 False "window_hooks s"]
  by (auto simp: runtime_manager_register_hook_def runtime_manager_unregister_hook_def rt_ok_def pool_ok_def split: prod.split)

lemma set_worker_fields [simp]:
  "user_work (set_worker i w s) = user_work s" "system_work (set_worker i w s) = system_work s"
  "pending_user_work (set_worker i w s) = pending_user_work s" "pending_system_work (set_worker i w s) = pending_system_work s"
  "runtime_lock (set_worker i w s) = runtime_lock s" "runtime_state (set_worker i w s) = runtime_state s"
  "window_hooks (set_worker i w s) = window_hooks s" "active_hook_count (set_worker i w s) = active_hook_count s"
  "rt_initialized (set_worker i w s) = rt_initialized s" "grace_period_timer (set_worker i w s) = grace_period_timer s"
  "work_state (set_worker i w s) = work_state s" "pool_queues (set_worker i w s) = pool_queues s"
  "watchdog_workers (set_worker i w s) = watchdog_workers s" "active_workers (set_worker i w s) = active_workers s"
  "workers (set_worker i w s) = (workers s)[i := w]"
  by (simp_all add: set_worker_def)

lemma rt_ok_workers:
  assumes "rt_ok items cap s" and "pool_ok (s\<lparr>workers := ws, active_workers := n\<rparr>)"
  shows "rt_ok items cap (s\<lparr>workers := ws, active_workers := n\<rparr>)"
  using assms by (simp add: rt_ok_def)

lemma pool_ok_switch:
  assumes "pool_ok s" and "i < WORKER_POOL_SIZE" and "worker_ok i w"
    and "n = active_workers s + (if w_working w then 1 else 0) - (if w_working (workers s ! i) then 1 else 0)"
  shows "pool_ok (s\<lparr>workers := (workers s)[i := w], active_workers := n\<rparr>)"
  using assms working_count_update [of i "workers s" w]
  by (auto simp: pool_ok_def nth_list_update split: if_splits)

lemma worker_begin_ok:
  assumes q: "queue_spec ops items cap" and ok: "rt_ok items cap s"
    and i: "i < WORKER_POOL_SIZE" "w_task (workers s ! i)" "\<not> w_working (workers s ! i)"
  shows "\<exists>x s'. pool_worker_begin env ops i s = Some (x, s') \<and> rt_ok items cap s' \<and> runtime_state s' = runtime_state s"
proof -
  let ?w = "workers s ! i"
  have w: "worker_ok i ?w" "i < length (workers s)" and pool: "pool_ok s"
    using ok i(1) by (simp_all add: rt_ok_def pool_ok_def)
  obtain uq yq where qs: "user_work s = Some uq" "system_work s = Some yq" "all_system (items yq)"
    using ok by (auto simp: rt_ok_def queues_ok_def)
  define q0 where "q0 = (if w_type ?w = WORK_TYPE_USER then uq else yq)"
  show ?thesis
  proof (cases "items q0")
    case Nil
    then have "xQueueReceive ops q0 = None"
      using q unfolding queue_spec_def by blast
    then show ?thesis
      using ok w(2) qs by (simp add: pool_worker_begin_def rd_def q0_def split: if_splits)
  next
    case (Cons item rest)
    then obtain q1 where r: "xQueueReceive ops q0 = Some (item, q1)" "items q1 = rest"
      using q unfolding queue_spec_def by blast
    define s1 where "s1 = (if w_type ?w = WORK_TYPE_USER then s\<lparr>user_work := Some q1\<rparr> else s\<lparr>system_work := Some q1\<rparr>)"
    have sys: "w_type ?w \<noteq> WORK_TYPE_USER \<Longrightarrow> all_system (items q1) \<and> wi_type item = WORK_TYPE_SYSTEM"
      using qs(3) Cons r(2) by (simp add: q0_def all_system_def)
    then have ok1: "rt_ok items cap s1"
      using rt_ok_queue_update(1,3) [OF ok, of q1] by (simp add: s1_def)
    have ws1: "workers s1 = workers s" "active_workers s1 = active_workers s" "runtime_state s1 = runtime_state s"
      by (simp_all add: s1_def)
    let ?n = "?w\<lparr>w_abort := False, w_working := True\<rparr>"
    have n: "worker_ok i ?n"
      using w(1) i(2) by (simp add: worker_ok_def)
    have "pool_ok s1"
      using ok1 by (simp add: rt_ok_def)
    then have "pool_ok (s1\<lparr>workers := (workers s1)[i := ?n], active_workers := active_workers s1 + 1\<rparr>)"
      using pool_ok_switch [of s1 i ?n "active_workers s1 + 1"] i n by (simp add: ws1)
    then have "rt_ok items cap (s1\<lparr>workers := (workers s1)[i := ?n], active_workers := active_workers s1 + 1\<rparr>)"
      by (rule rt_ok_workers [OF ok1])
    moreover have soft: "wi_type item = WORK_TYPE_USER \<Longrightarrow> w_soft ?w"
      using sys w(1) by (cases "w_type ?w") (auto simp: worker_ok_def)
    moreover have "pool_worker_begin env ops i s = do {
        s2 \<leftarrow> runtime_manager_reset_settlement_timer env (s1\<lparr>active_workers := active_workers s1 + 1\<rparr>);
        let user = (wi_type item = WORK_TYPE_USER);
        let s3 = set_worker i (?w\<lparr>w_abort := False\<rparr>)
                   (emit [Task_priority i (if user then RUNTIME_USER_PRIORITY else RUNTIME_SYSTEM_PRIORITY)] s2);
        s4 \<leftarrow> (if user then watchdog_start_user_work i s3 else Some s3);
        Some (Some item, set_worker i ?n s4)
      }"
      using r(1) qs w(2) by (cases "w_type ?w") (simp_all add: pool_worker_begin_def rd_def q0_def s1_def)
    ultimately show ?thesis
      using w(2) ws1
      by (cases "wi_type item"; cases "e_lock env \<and> runtime_lock s1")
        (auto simp: runtime_manager_reset_settlement_timer_def with_runtime_lock_def rd_def
          acquire_lock_runtime_def watchdog_start_user_work_def rt_ok_def pool_ok_def Let_def)
  qed
qed

lemma trace_active_swap: "s\<lparr>rt_trace := t, active_workers := a\<rparr> = s\<lparr>active_workers := a, rt_trace := t\<rparr>"
  by (cases s) simp

lemma worker_end_ok:
  assumes q: "queue_spec ops items cap" and ok: "rt_ok items cap s"
    and i: "i < WORKER_POOL_SIZE" "w_working (workers s ! i)" "wi_type x = WORK_TYPE_USER \<longrightarrow> i < WORKER_POOL_USER_ALLOCATION"
  shows "\<exists>s'. pool_worker_end env ops i x s = Some s' \<and> rt_ok items cap s' \<and> runtime_state s' = runtime_state s"
proof -
  let ?w = "workers s ! i"
  let ?n = "?w\<lparr>w_working := False, w_abort := True\<rparr>"
  have w: "worker_ok i ?w" "i < length (workers s)" and pool: "pool_ok s"
    using ok i(1) by (simp_all add: rt_ok_def pool_ok_def)
  have n: "worker_ok i ?n"
    using w(1) by (simp add: worker_ok_def)
  have soft: "wi_type x = WORK_TYPE_USER \<Longrightarrow> w_soft ?w \<and> w_hard ?w"
    using i(3) w(1) by (simp add: worker_ok_def)
  let ?u = "s\<lparr>workers := (workers s)[i := ?n], active_workers := active_workers s - 1\<rparr>"
  have "pool_ok ?u"
    using pool_ok_switch [of s i ?n "active_workers s - 1"] pool i n by simp
  then have u: "rt_ok items cap ?u"
    by (rule rt_ok_workers [OF ok])
  define cs where "cs = (if wi_type x = WORK_TYPE_USER then [Timer_stop (Soft_close i), Timer_stop (Hard_close i)] else []) @
    [Task_priority i RUNTIME_BASELINE_PRIORITY]"
  have e: "pool_worker_end env ops i x s =
      (if active_workers s = 1 then runtime_manager_evaluate_early_curfew env ops (emit cs ?u) else Some (emit cs ?u))"
    using w(2) soft
    by (cases "wi_type x") (simp_all add: pool_worker_end_def rd_def watchdog_stop_user_work_def cs_def emit_def set_worker_def Let_def
        trace_active_swap)
  have "rt_ok items cap (emit cs ?u)"
    using u by simp
  then show ?thesis
    using evaluate_ok [OF q, of "emit cs ?u" env] unfolding e
    by (auto simp: runtime_manager_evaluate_early_curfew_def with_runtime_lock_def)
qed

lemma watchdog_cbs_ok:
  assumes ok: "rt_ok items cap s" and i: "i < WORKER_POOL_USER_ALLOCATION"
  shows "\<exists>s'. worker_soft_abort_cb i s = Some s' \<and> rt_ok items cap s' \<and> runtime_state s' = runtime_state s"
    and "\<exists>s'. worker_hard_abort_cb timer_ok task_ok i s = Some s' \<and> rt_ok items cap s' \<and> runtime_state s' = runtime_state s"
proof -
  let ?t = "set_worker i ((workers s ! i)\<lparr>w_abort := True\<rparr>) s"
  have i6: "i < WORKER_POOL_SIZE"
    using i by (simp add: runtime_consts)
  have pool: "pool_ok s" and hard: "w_hard (workers s ! i)" and len: "i < length (workers s)"
    using ok i i6 by (auto simp: rt_ok_def pool_ok_def worker_ok_def)
  have pt: "pool_ok ?t"
    by (rule pool_ok_abort [OF pool i6])
  have mt: "same_manager s ?t"
    by (simp add: same_manager_def set_worker_def)
  have "rt_ok items cap ?t"
    by (rule rt_ok_same_manager [OF mt pt ok])
  then show "\<exists>s'. worker_soft_abort_cb i s = Some s' \<and> rt_ok items cap s' \<and> runtime_state s' = runtime_state s"
    using hard len by (simp add: worker_soft_abort_cb_def rd_def)
  let ?t2 = "emit [Timer_stop (Hard_close i)] ?t"
  have p2: "pool_ok ?t2"
    using pt by simp
  obtain s' where s': "worker_pool_recover_stalled_worker timer_ok task_ok i True ?t2 = Some s'" "pool_ok s'" "same_manager ?t2 s'"
    using recover_correct [OF p2 i6, of timer_ok task_ok True] by blast
  have "same_manager s s'"
    using mt s'(3) by (blast intro: same_manager_trans same_manager_emit)
  then show "\<exists>s'. worker_hard_abort_cb timer_ok task_ok i s = Some s' \<and> rt_ok items cap s' \<and> runtime_state s' = runtime_state s"
    using s' hard len rt_ok_same_manager [OF _ s'(2) ok] by (simp add: worker_hard_abort_cb_def rd_def same_manager_fields)
qed

lemma set_active_ok:
  "rt_ok items cap s \<Longrightarrow> rt_ok items cap (runtime_manager_set_active_state b s)"
  by (simp add: rt_ok_def pool_ok_def runtime_manager_set_active_state_def is_active_state_def)

text \<open>
  C9: the runtime manager in operation. From a well-formed state every operation of a client, a timer,
  the watchdog or a worker returns (no assertion fires and no loop hangs) in a well-formed state, and
  the window automaton only makes its transitions: sleep to an active window, an active window to the
  grace period, anything to sleep. In a well-formed state the counter of active workers is the number of
  working workers.
\<close>

theorem runtime_step_ok:
  assumes "queue_spec ops items cap" and "rt_ok items cap s" and "op_enabled op s" and "e_now env \<noteq> 0"
  shows "\<exists>s'. rt_exec env ops op s = Some s' \<and> rt_ok items cap s' \<and> allowed (runtime_state s) (runtime_state s')"
proof (cases op)
  case Op_tick
  then show ?thesis
    using tick_ok [OF assms(1,2,4)] by (simp add: rt_exec_def)
next
  case Op_window_expiry
  then show ?thesis
    using window_expiry_ok [OF assms(1,2,4)] by (simp add: rt_exec_def)
next
  case Op_grace_expiry
  then show ?thesis
    using grace_expiry_ok [OF assms(1,2,4)] by (simp add: rt_exec_def)
next
  case Op_settlement_expiry
  then show ?thesis
    using settlement_ok [OF assms(1,2,4)] by (simp add: rt_exec_def)
next
  case (Op_schedule_user x)
  then show ?thesis
    using schedule_user_ok [OF assms(1,2), of env x] by (auto simp: rt_exec_def allowed_def)
next
  case (Op_schedule_system x)
  then show ?thesis
    using schedule_system_ok [OF assms(1,2), of x env] assms(3)
    by (cases x) (auto simp: rt_exec_def allowed_def op_enabled_def)
next
  case (Op_worker_begin i)
  then show ?thesis
    using worker_begin_ok [OF assms(1,2), of i env] assms(3) by (auto simp: rt_exec_def allowed_def op_enabled_def)
next
  case (Op_worker_end i x)
  then show ?thesis
    using worker_end_ok [OF assms(1,2), of i x env] assms(3) by (auto simp: rt_exec_def allowed_def op_enabled_def)
next
  case (Op_soft_abort i)
  then show ?thesis
    using watchdog_cbs_ok(1) [OF assms(2), of i] assms(3) by (auto simp: rt_exec_def allowed_def op_enabled_def)
next
  case (Op_hard_abort i)
  then show ?thesis
    using watchdog_cbs_ok(2) [OF assms(2), of i] assms(3) by (auto simp: rt_exec_def allowed_def op_enabled_def)
qed (use assms hooks_ok [OF assms(2)] set_active_ok [OF assms(2)] in
      \<open>simp_all add: rt_exec_def allowed_def runtime_manager_set_active_state_def\<close>)

text \<open>A watch right after initialisation.\<close>

lemma runtime_init_ok:
  fixes s :: "('f, 'q, 'z) runtime_scheme"
  assumes q: "queue_spec ops items cap" and "\<forall>n. xQueueCreate ops n \<noteq> None" and "\<not> rt_initialized s"
    and "active_workers s = 0" and "length (window_hooks s) = MAX_CURFEW_HOOKS" and "e_timer_ok env"
  shows "\<exists>b' s'. runtime_manager_init env ops h True b s = Some (b', s') \<and> rt_ok items cap s' \<and>
     runtime_state s' = RUNTIME_STATE_SLEEP"
proof -
  obtain uq where "xQueueCreate ops MAX_USER_WORK_PER_WINDOW = Some uq" "items uq = []"
    using assms(1,2) unfolding queue_spec_def by (metis not_None_eq)
  moreover obtain sq where "xQueueCreate ops MAX_SYSTEM_WORK_PER_WINDOW = Some sq" "items sq = []"
    using assms(1,2) unfolding queue_spec_def by (metis not_None_eq)
  moreover obtain puq where "xQueueCreate ops (MAX_USER_WORK_PER_WINDOW div 2) = Some puq" "items puq = []"
    using assms(1,2) unfolding queue_spec_def by (metis not_None_eq)
  moreover obtain psq where "xQueueCreate ops (MAX_SYSTEM_WORK_PER_WINDOW div 2) = Some psq" "items psq = []"
    using assms(1,2) unfolding queue_spec_def by (metis not_None_eq)
  ultimately have qs: "xQueueCreate ops MAX_USER_WORK_PER_WINDOW = Some uq" "xQueueCreate ops MAX_SYSTEM_WORK_PER_WINDOW = Some sq"
    "xQueueCreate ops (MAX_USER_WORK_PER_WINDOW div 2) = Some puq" "xQueueCreate ops (MAX_SYSTEM_WORK_PER_WINDOW div 2) = Some psq"
    "all_system (items sq)" "all_system (items psq)"
    by (simp_all add: all_system_def)
  let ?s1 = "s\<lparr>user_work := Some uq, system_work := Some sq, pending_user_work := Some puq,
                     pending_system_work := Some psq, runtime_lock := True, active_hook_count := 0,
                     runtime_state := RUNTIME_STATE_SLEEP, shutdown_initialized := False,
                     window_start_time := 0, grace_start_time := 0, total_window_timer := False,
                     grace_period_timer := False, curfew_settlement_timer := False\<rparr>"
  obtain s2 where s2: "worker_pool_init True (e_task_ok env) ?s1 = Some s2" "pool_ok s2" "pool_queues s2"
    using worker_pool_init_ok [of ?s1 "e_task_ok env"] assms(4) by auto
  have f: "user_work s2 = Some uq" "system_work s2 = Some sq" "pending_user_work s2 = Some puq" "pending_system_work s2 = Some psq"
    "runtime_lock s2" "active_hook_count s2 = 0" "runtime_state s2 = RUNTIME_STATE_SLEEP" "window_hooks s2 = window_hooks s"
    using s2(1) by (auto simp: worker_pool_init_def watchdog_manager_init_def worker_pool_suspend_all_def bind_eq_Some_iff Let_def)
  let ?s3 = "s2\<lparr>total_window_timer := True, grace_period_timer := True, curfew_settlement_timer := True,
                   rt_initialized := True, work_state := RUNTIME_STATE_UI_ACTIVE\<rparr>"
  have "runtime_manager_init env ops h True b s = Some (snd (event_subscribe EVENT_WORK_TICK (Some h) b), ?s3)"
    using assms(3,6) qs(1-4) s2(1) by (simp add: runtime_manager_init_def init_timer_def)
  moreover have "rt_ok items cap ?s3"
    using s2(2,3) f qs(5,6) assms(5) by (simp add: rt_ok_def pool_ok_def queues_ok_def is_active_state_def)
  ultimately show ?thesis
    using f(7) by auto
qed

definition ex_env :: rt_env where
  "ex_env = \<lparr>e_lock = True, e_now = 1000, e_now2 = 1001, e_settle_active = False, e_timer_ok = True, e_task_ok = (\<lambda>i. True)\<rparr>"

definition rt_static :: "(nat, nat \<times> nat work_item list) runtime" where
  "rt_static = \<lparr>user_work = None, system_work = None, pending_user_work = None, pending_system_work = None,
     runtime_lock = False, runtime_state = RUNTIME_STATE_SLEEP, window_hooks = replicate 4 None, active_hook_count = 0,
     rt_initialized = False, window_start_time = 0, grace_start_time = 0, total_window_timer = False,
     grace_period_timer = False, curfew_settlement_timer = False, work_state = RUNTIME_STATE_UI_ACTIVE,
     shutdown_initialized = False, shutdown_sem = False, workers = replicate 6 zero_worker, active_workers = 0,
     watchdog_workers = False, pool_queues = False, rt_trace = []\<rparr>"

lemma ex_rt_ok: "\<exists>s :: (nat, nat \<times> nat work_item list) runtime. rt_ok list_items fst s \<and> runtime_state s = RUNTIME_STATE_SLEEP"
  using runtime_init_ok [OF list_queue_spec, of rt_static ex_env 0 "\<lparr>em_subscriptions = [], em_initialized = False\<rparr>"]
  by (auto simp: rt_static_def ex_env_def list_queue_def runtime_consts)

theorem runtime_step_ok_witness:
  "\<exists>s s' :: (nat, nat \<times> nat work_item list) runtime. rt_ok list_items fst s \<and> runtime_state s = RUNTIME_STATE_SLEEP \<and>
     rt_exec ex_env list_queue Op_tick s = Some s' \<and> rt_ok list_items fst s' \<and> allowed RUNTIME_STATE_SLEEP (runtime_state s')"
proof -
  obtain s :: "(nat, nat \<times> nat work_item list) runtime" where
    "rt_ok list_items fst s" "runtime_state s = RUNTIME_STATE_SLEEP"
    using ex_rt_ok by blast
  moreover have "op_enabled Op_tick s" "e_now ex_env \<noteq> 0"
    by (simp_all add: op_enabled_def ex_env_def)
  ultimately show ?thesis
    using runtime_step_ok [OF list_queue_spec, of s Op_tick ex_env] by metis
qed

section \<open>Work submitted in the grace period\<close>

text \<open>The end of the grace period: what was left in the user queue is dropped, what was submitted meanwhile takes its place.\<close>

lemma grace_expiry:
  assumes q: "queue_spec ops items cap" and ok: "rt_ok items cap s" and st: "runtime_state s = RUNTIME_STATE_GRACE_PERIOD" and lock: "e_lock env"
    and qs: "user_work s = Some uq" "pending_user_work s = Some puq" "system_work s = Some yq" "pending_system_work s = Some pyq"
  shows "\<exists>s2 uq2 yq2. grace_period_expiry_cb env ops s = Some s2 \<and> runtime_state s2 = RUNTIME_STATE_SLEEP \<and>
     (\<forall>w \<in> set (workers s2). \<not> w_working w) \<and> user_work s2 = Some uq2 \<and> system_work s2 = Some yq2 \<and>
     items uq2 = take (cap uq) (items puq) \<and> items yq2 = take (cap yq) (items yq @ items pyq)"
proof -
  let ?t = "emit [Timer_stop Grace_period_timer] s"
  have "pool_ok ?t"
    using ok by (simp add: rt_ok_def)
  then obtain t1 where t1: "watchdog_force_all_cooperative_abort ?t = Some t1" "pool_ok t1" "same_manager ?t t1"
    using cooperative_abort_pool by blast
  note f = same_manager_fields [OF t1(3)]
  have okt: "rt_ok items cap t1"
    using rt_ok_same_manager [OF t1(3,2)] ok by simp
  have ut: "user_work t1 = Some uq" "pending_user_work t1 = Some puq" "system_work t1 = Some yq" "pending_system_work t1 = Some pyq"
    "runtime_state t1 = RUNTIME_STATE_GRACE_PERIOD"
    using f qs st by simp_all
  let ?t2 = "t1\<lparr>user_work := Some (xQueueReset ops uq)\<rparr>"
  have reset: "items (xQueueReset ops uq) = []" "cap (xQueueReset ops uq) = cap uq"
    using q unfolding queue_spec_def by blast+
  obtain s2 uq2 yq2 where s2: "enter_sleep env ops ?t2 = Some s2" "runtime_state s2 = RUNTIME_STATE_SLEEP"
    "\<forall>w \<in> set (workers s2). \<not> w_working w" "user_work s2 = Some uq2" "system_work s2 = Some yq2"
    "items uq2 = take (cap (xQueueReset ops uq)) (items (xQueueReset ops uq) @ items puq)"
    "items yq2 = take (cap yq) (items yq @ items pyq)"
    using enter_sleep_correct [OF q rt_ok_queue_update(1) [OF okt, of "xQueueReset ops uq"], of env] ut by auto
  moreover have "grace_period_expiry_cb env ops s = Some s2"
    using s2(1) t1(1) ut st ok lock
    by (simp add: grace_period_expiry_cb_def with_runtime_lock_def lock_ok set_runtime_state_body_def)
  ultimately show ?thesis
    by (simp add: reset)
qed

lemma schedule_in_grace:
  assumes "queue_spec ops items cap" "rt_ok items cap s" "runtime_state s = RUNTIME_STATE_GRACE_PERIOD"
  shows "schedule_user_work env ops (Some x) s = Some (True, s1) \<Longrightarrow> pending_user_work s = Some q \<Longrightarrow>
     \<exists>q'. s1 = s\<lparr>pending_user_work := Some q'\<rparr> \<and> cap q' = cap q \<and> items q' = items q @ (if e_lock env then [x] else []) \<and>
       (length (items q) \<le> cap q \<longrightarrow> length (items q') \<le> cap q)"
    and "schedule_system_work env ops (Some x) s = Some (True, s1) \<Longrightarrow> pending_system_work s = Some q \<Longrightarrow>
     \<exists>q'. s1 = s\<lparr>pending_system_work := Some q'\<rparr> \<and> items q' = items q @ (if e_lock env then [x] else [])"
proof -
  have sent: "length (items q) < cap q \<and> items (snd (xQueueSend ops x q)) = items q @ [x] \<and> cap (snd (xQueueSend ops x q)) = cap q"
    if "fst (xQueueSend ops x q)" for q
    using queue_send [OF assms(1), of x q] that by auto
  obtain uq yq where qs: "user_work s = Some uq" "system_work s = Some yq" "rt_initialized s" "runtime_lock s"
    using assms(2) by (auto simp: rt_ok_def queues_ok_def)
  show "\<exists>q'. s1 = s\<lparr>pending_user_work := Some q'\<rparr> \<and> cap q' = cap q \<and> items q' = items q @ (if e_lock env then [x] else []) \<and>
       (length (items q) \<le> cap q \<longrightarrow> length (items q') \<le> cap q)"
    if "schedule_user_work env ops (Some x) s = Some (True, s1)" "pending_user_work s = Some q"
  proof (cases "e_lock env")
    case True
    then show ?thesis
      using that qs assms(3) sent [of q] by (auto simp: schedule_user_work_def acquire_lock_runtime_def split_beta Let_def split: if_splits)
  next
    case False
    then have "s1 = s" using that qs by (auto simp: schedule_user_work_def acquire_lock_runtime_def split: if_splits)
    moreover have "s\<lparr>pending_user_work := Some q\<rparr> = s" using that(2) by (cases s) simp
    ultimately show ?thesis using False by (intro exI [of _ q]) simp
  qed
  show "\<exists>q'. s1 = s\<lparr>pending_system_work := Some q'\<rparr> \<and> items q' = items q @ (if e_lock env then [x] else [])"
    if "schedule_system_work env ops (Some x) s = Some (True, s1)" "pending_system_work s = Some q"
  proof (cases "e_lock env")
    case True
    then show ?thesis
      using that qs assms(3) sent [of q] by (auto simp: schedule_system_work_def acquire_lock_runtime_def split_beta Let_def split: if_splits)
  next
    case False
    then have "s1 = s" using that qs by (auto simp: schedule_system_work_def acquire_lock_runtime_def split: if_splits)
    moreover have "s\<lparr>pending_system_work := Some q\<rparr> = s" using that(2) by (cases s) simp
    ultimately show ?thesis using False by (intro exI [of _ q]) simp
  qed
qed

text \<open>
  C10: what becomes of work that is accepted in the grace period. Let an item be accepted while the window is in its grace period, and let the grace period expire with
  the runtime lock obtained. If the lock was obtained when the item was submitted, a user item is then in the user queue for the next window, behind
  the items submitted before it, and a system item is behind what the system queue and its pending queue held, as far as that queue
  has room. If the lock was not obtained within its 50 ms, the item is in no queue although it was accepted. The expiry leaves no worker working.
\<close>

theorem grace_work_survives:
  assumes q: "queue_spec ops items cap" and ok: "rt_ok items cap s" and st: "runtime_state s = RUNTIME_STATE_GRACE_PERIOD"
    and us: "user_work s = Some uq" "pending_user_work s = Some puq" and ys: "system_work s = Some yq" "pending_system_work s = Some pyq"
    and c: "cap puq \<le> cap uq" "length (items puq) \<le> cap puq" and lock: "e_lock env'"
  shows "(schedule_user_work env ops (Some x) s = Some (True, s1) \<longrightarrow>
       (\<exists>s2 uq2. grace_period_expiry_cb env' ops s1 = Some s2 \<and> runtime_state s2 = RUNTIME_STATE_SLEEP \<and> (\<forall>w \<in> set (workers s2). \<not> w_working w) \<and>
          user_work s2 = Some uq2 \<and> items uq2 = items puq @ (if e_lock env then [x] else []))) \<and>
     (wi_type x = WORK_TYPE_SYSTEM \<and> schedule_system_work env ops (Some x) s = Some (True, s1) \<longrightarrow>
       (\<exists>s2 yq2. grace_period_expiry_cb env' ops s1 = Some s2 \<and> runtime_state s2 = RUNTIME_STATE_SLEEP \<and> (\<forall>w \<in> set (workers s2). \<not> w_working w) \<and>
          system_work s2 = Some yq2 \<and> items yq2 = take (cap yq) (items yq @ items pyq @ (if e_lock env then [x] else []))))"
proof (intro conjI impI)
  assume "schedule_user_work env ops (Some x) s = Some (True, s1)"
  from schedule_in_grace(1) [OF q ok st this us(2)]
  obtain q' where q': "s1 = s\<lparr>pending_user_work := Some q'\<rparr>" "items q' = items puq @ (if e_lock env then [x] else [])" "length (items q') \<le> cap puq"
    using c(2) by blast
  have "take (cap uq) (items q') = items q'" using q'(3) c(1) by simp
  then show "\<exists>s2 uq2. grace_period_expiry_cb env' ops s1 = Some s2 \<and> runtime_state s2 = RUNTIME_STATE_SLEEP \<and> (\<forall>w \<in> set (workers s2). \<not> w_working w) \<and>
          user_work s2 = Some uq2 \<and> items uq2 = items puq @ (if e_lock env then [x] else [])"
    using grace_expiry [OF q rt_ok_queue_update(2) [OF ok, of q'] _ lock, of uq q' yq pyq] us ys st q'(1,2) by auto
next
  assume a: "wi_type x = WORK_TYPE_SYSTEM \<and> schedule_system_work env ops (Some x) s = Some (True, s1)"
  from schedule_in_grace(2) [OF q ok st conjunct2 [OF a] ys(2)]
  obtain q' where q': "s1 = s\<lparr>pending_system_work := Some q'\<rparr>" "items q' = items pyq @ (if e_lock env then [x] else [])"
    by blast
  have "all_system (items q')"
  proof -
    have "queues_ok items cap (user_work s) (system_work s) (pending_user_work s) (pending_system_work s)"
      using ok unfolding rt_ok_def by (elim conjE)
    then have "all_system (items pyq)" unfolding queues_ok_def ys(2) by blast
    moreover have "wi_type x = WORK_TYPE_SYSTEM" using a by (rule conjunct1)
    ultimately show ?thesis unfolding q'(2) all_system_def by (cases "e_lock env") simp_all
  qed
  then show "\<exists>s2 yq2. grace_period_expiry_cb env' ops s1 = Some s2 \<and> runtime_state s2 = RUNTIME_STATE_SLEEP \<and> (\<forall>w \<in> set (workers s2). \<not> w_working w) \<and>
          system_work s2 = Some yq2 \<and> items yq2 = take (cap yq) (items yq @ items pyq @ (if e_lock env then [x] else []))"
    using grace_expiry [OF q rt_ok_queue_update(4) [OF ok, of q'] _ lock, of uq puq yq q'] us ys st q' by auto
qed

definition ex_item :: "nat \<Rightarrow> nat work_item" where
  "ex_item n = \<lparr>wi_handler = Some (Work_fn n), wi_type = WORK_TYPE_USER, wi_arg = Arg_bytes [], wi_priority = 2\<rparr>"

theorem grace_work_survives_witness:
  "\<exists>(s :: (nat, nat \<times> nat work_item list) runtime) s1 s2 uq2. rt_ok list_items fst s \<and>
     schedule_user_work ex_env list_queue (Some (ex_item 7)) s = Some (True, s1) \<and>
     grace_period_expiry_cb ex_env list_queue s1 = Some s2 \<and> user_work s2 = Some uq2 \<and> list_items uq2 = [ex_item 7]"
proof -
  obtain s0 :: "(nat, nat \<times> nat work_item list) runtime" where s0: "rt_ok list_items fst s0"
    using ex_rt_ok by blast
  let ?s = "s0\<lparr>runtime_state := RUNTIME_STATE_GRACE_PERIOD, pending_user_work := Some (5, []), user_work := Some (10, []), shutdown_initialized := False\<rparr>"
  have ok: "rt_ok list_items fst ?s"
    using s0 by (auto simp: rt_ok_def pool_ok_def queues_ok_def)
  let ?s1 = "?s\<lparr>pending_user_work := Some (5, [ex_item 7])\<rparr>"
  obtain yq pyq where ys: "system_work ?s = Some yq" "pending_system_work ?s = Some pyq"
    using ok by (auto simp: rt_ok_def queues_ok_def)
  have acc: "schedule_user_work ex_env list_queue (Some (ex_item 7)) ?s = Some (True, ?s1)"
    using s0 by (simp add: schedule_user_work_def acquire_lock_runtime_def rt_ok_def ex_env_def list_queue_def list_items_def ex_item_def)
  have "\<exists>s2 uq2. grace_period_expiry_cb ex_env list_queue ?s1 = Some s2 \<and> user_work s2 = Some uq2 \<and> list_items uq2 = [ex_item 7]"
    using grace_work_survives [OF list_queue_spec ok, of "(10, [])" "(5, [])" yq pyq ex_env ex_env "ex_item 7" ?s1] acc ys
    by (auto simp: ex_env_def list_items_def)
  then show ?thesis
    using ok acc by blast
qed

text \<open>
  A lock timeout is reported as success. When the runtime lock cannot be taken within its 50 ms,
  \<open>schedule_user_work\<close> and \<open>schedule_system_work\<close> return true although the item was put into no queue, and
  registering a hook returns true although no hook was stored.
\<close>

lemma schedule_timeout_claims_success:
  assumes "rt_ok items cap s" and "\<not> e_lock env" and "\<not> shutdown_initialized s" and "wi_handler x \<noteq> None" and "h \<noteq> None"
  shows "schedule_user_work env ops (Some x) s = Some (True, s) \<and>
     schedule_system_work env ops (Some x) s = Some (True, s) \<and>
     runtime_manager_register_hook env h s = (True, s)"
proof -
  obtain uq yq where "user_work s = Some uq" "system_work s = Some yq"
    using assms(1) by (auto simp: rt_ok_def queues_ok_def)
  moreover have "rt_initialized s"
    using assms(1) by (simp add: rt_ok_def)
  ultimately show ?thesis
    using assms(2-5)
    by (simp add: schedule_user_work_def schedule_system_work_def runtime_manager_register_hook_def acquire_lock_runtime_def)
qed

lemma schedule_timeout_claims_success_witness:
  "\<exists>s :: (nat, nat \<times> nat work_item list) runtime. rt_ok list_items fst s \<and>
     schedule_user_work (ex_env\<lparr>e_lock := False\<rparr>) list_queue (Some (ex_item 7)) s = Some (True, s)"
proof -
  obtain s0 :: "(nat, nat \<times> nat work_item list) runtime" where s0: "rt_ok list_items fst s0"
    using ex_rt_ok by blast
  let ?s = "s0\<lparr>shutdown_initialized := False\<rparr>"
  have "rt_ok list_items fst ?s"
    using s0 by (simp add: rt_ok_def pool_ok_def)
  then show ?thesis
    using schedule_timeout_claims_success [of list_items fst ?s "ex_env\<lparr>e_lock := False\<rparr>" "ex_item 7" "Some 1" list_queue]
    by (intro exI [of _ ?s]) (simp add: ex_item_def)
qed

section \<open>Curfew hooks\<close>

lemma unregister_loop_found:
  assumes "i < n" and "n \<le> length hs"
  shows "\<exists>hs'. unregister_loop hook n i True hs = (True, hs') \<and> length hs' = length hs \<and>
     take (n - 1) hs' = take i hs @ take (n - 1 - i) (drop (Suc i) hs)"
  using assms
proof (induction "n - i" arbitrary: i hs)
  case (Suc k)
  show ?case
  proof (cases "i = n - 1")
    case True
    then have "n = Suc i"
      using Suc.prems by simp
    then show ?thesis
      using Suc.prems
      by (simp add: unregister_loop.simps [of hook "Suc i" i True hs] unregister_loop.simps [of hook "Suc i" "Suc i" True hs])
  next
    case False
    let ?hs = "hs[i := hs ! (i + 1)]"
    have "k = n - (i + 1)" "i + 1 < n" "n \<le> length ?hs"
      using Suc.hyps(2) Suc.prems False by auto
    then obtain hs' where hs': "unregister_loop hook n (i + 1) True ?hs = (True, hs')" "length hs' = length hs"
      "take (n - 1) hs' = take (i + 1) ?hs @ take (n - 1 - (i + 1)) (drop (Suc (i + 1)) ?hs)"
      using Suc.hyps(1) [of "i + 1" ?hs] by auto
    have "take (i + 1) ?hs = take i hs @ [hs ! (i + 1)]"
      using Suc.prems by (simp add: take_Suc_conv_app_nth)
    moreover have "take (n - 1 - i) (drop (Suc i) hs) = hs ! (i + 1) # take (n - 1 - (i + 1)) (drop (Suc (i + 1)) hs)"
    proof -
      have "drop (Suc i) hs = hs ! Suc i # drop (Suc (Suc i)) hs"
        using Suc.prems False by (simp add: Cons_nth_drop_Suc)
      moreover have "n - 1 - i = Suc (n - 1 - (i + 1))"
        using False Suc.prems by simp
      ultimately show ?thesis
        by simp
    qed
    ultimately have "take (n - 1) hs' = take i hs @ take (n - 1 - i) (drop (Suc i) hs)"
      using hs'(3) by simp
    then show ?thesis
      using hs'(1,2) Suc.prems False by (simp add: unregister_loop.simps [of hook n i True hs])
  qed
qed simp

lemma unregister_loop_skip:
  assumes "i \<le> k" and "k \<le> n" and "\<forall>j. i \<le> j \<longrightarrow> j < k \<longrightarrow> hs ! j \<noteq> hook"
  shows "unregister_loop hook n i False hs = unregister_loop hook n k False hs"
  using assms
proof (induction "k - i" arbitrary: i)
  case (Suc d)
  have "i < n" "hs ! i \<noteq> hook"
    using Suc.hyps(2) Suc.prems by auto
  then have "unregister_loop hook n i False hs = unregister_loop hook n (i + 1) False hs"
    by (simp add: unregister_loop.simps [of hook n i False hs])
  also have "\<dots> = unregister_loop hook n k False hs"
    using Suc.hyps(2) Suc.prems by (intro Suc.hyps(1)) auto
  finally show ?case .
qed simp

lemma unregister_loop_correct:
  assumes "n \<le> length hs"
  shows "\<exists>hs'. unregister_loop hook n 0 False hs = (hook \<in> set (take n hs), hs') \<and> length hs' = length hs \<and>
     (if hook \<in> set (take n hs) then take (n - 1) hs' = remove1 hook (take n hs) else hs' = hs)"
proof (cases "hook \<in> set (take n hs)")
  case False
  then have "\<forall>j. 0 \<le> j \<longrightarrow> j < n \<longrightarrow> hs ! j \<noteq> hook"
    using assms by (auto simp: in_set_conv_nth)
  then show ?thesis
    using unregister_loop_skip [of 0 n n hs hook] False by (simp add: unregister_loop.simps [of hook n n False hs])
next
  case True
  then obtain ys zs where yz: "take n hs = ys @ hook # zs" "hook \<notin> set ys"
    by (meson split_list_first)
  let ?k = "length ys"
  have "length (take n hs) = ?k + Suc (length zs)" "take n hs ! ?k = hook"
    using yz(1) by simp_all
  then have k: "?k < n" "hs ! ?k = hook"
    using assms by simp_all
  have ys: "take ?k hs = ys" "take (n - 1 - ?k) (drop (Suc ?k) hs) = zs"
  proof -
    show "take ?k hs = ys"
      using arg_cong [OF yz(1), of "take ?k"] k(1) by simp
    have "drop (Suc ?k) (take n hs) = zs"
      using yz(1) by simp
    then show "take (n - 1 - ?k) (drop (Suc ?k) hs) = zs"
      using k(1) by (simp add: drop_take)
  qed
  have "\<forall>j. 0 \<le> j \<longrightarrow> j < ?k \<longrightarrow> hs ! j \<noteq> hook"
    using yz(2) ys(1) by (metis nth_mem nth_take)
  then have "unregister_loop hook n 0 False hs = unregister_loop hook n ?k False hs"
    using unregister_loop_skip [of 0 ?k n hs hook] k(1) by simp
  also have "\<dots> = unregister_loop hook n ?k True hs"
    using k by (simp add: unregister_loop.simps [of hook n ?k False hs] unregister_loop.simps [of hook n ?k True hs])
  finally have "unregister_loop hook n 0 False hs = unregister_loop hook n ?k True hs" .
  moreover have "remove1 hook (take n hs) = ys @ zs"
    using yz by (simp add: remove1_append)
  ultimately show ?thesis
    using unregister_loop_found [OF k(1) assms, of hook] True ys by simp
qed

text \<open>
  The curfew hooks form a list without gaps: registering appends (up to four), unregistering
  removes the first registration of the hook and keeps the order of the others, and reports whether
  there was one.
\<close>

lemma curfew_hooks_list:
  assumes "rt_ok items cap s" and "e_lock env" and "\<not> shutdown_initialized s"
  shows "(\<exists>s1. runtime_manager_register_hook env (Some h) s = (active_hook_count s < MAX_CURFEW_HOOKS, s1) \<and>
       take (active_hook_count s1) (window_hooks s1) =
         take MAX_CURFEW_HOOKS (take (active_hook_count s) (window_hooks s) @ [Some h])) \<and>
     (\<exists>s2. runtime_manager_unregister_hook env (Some h) s =
         (Some h \<in> set (take (active_hook_count s) (window_hooks s)), s2) \<and>
       take (active_hook_count s2) (window_hooks s2) = remove1 (Some h) (take (active_hook_count s) (window_hooks s)))"
proof (intro conjI)
  let ?n = "active_hook_count s"
  have len: "length (window_hooks s) = MAX_CURFEW_HOOKS" "?n \<le> MAX_CURFEW_HOOKS" "rt_initialized s" "runtime_lock s"
    using assms(1) by (simp_all add: rt_ok_def)
  show "\<exists>s1. runtime_manager_register_hook env (Some h) s = (?n < MAX_CURFEW_HOOKS, s1) \<and>
       take (active_hook_count s1) (window_hooks s1) = take MAX_CURFEW_HOOKS (take ?n (window_hooks s) @ [Some h])"
    using assms(2,3) len
    by (auto simp: runtime_manager_register_hook_def acquire_lock_runtime_def take_Suc_conv_app_nth)
  obtain hs' where u: "unregister_loop (Some h) ?n 0 False (window_hooks s) = (Some h \<in> set (take ?n (window_hooks s)), hs')"
    "length hs' = MAX_CURFEW_HOOKS"
    "if Some h \<in> set (take ?n (window_hooks s)) then take (?n - 1) hs' = remove1 (Some h) (take ?n (window_hooks s))
     else hs' = window_hooks s"
    using unregister_loop_correct [of ?n "window_hooks s" "Some h"] len by auto
  then show "\<exists>s2. runtime_manager_unregister_hook env (Some h) s = (Some h \<in> set (take ?n (window_hooks s)), s2) \<and>
       take (active_hook_count s2) (window_hooks s2) = remove1 (Some h) (take ?n (window_hooks s))"
    using assms(2) len
    by (cases "Some h \<in> set (take ?n (window_hooks s))")
      (auto simp: runtime_manager_unregister_hook_def acquire_lock_runtime_def remove1_idem)
qed

lemma curfew_hooks_list_witness:
  "\<exists>(s :: (nat, nat \<times> nat work_item list) runtime) s1. rt_ok list_items fst s \<and>
     runtime_manager_register_hook ex_env (Some 3) s = (active_hook_count s < 4, s1)"
proof -
  obtain s0 :: "(nat, nat \<times> nat work_item list) runtime" where s0: "rt_ok list_items fst s0"
    using ex_rt_ok by blast
  let ?s = "s0\<lparr>shutdown_initialized := False\<rparr>"
  have ok: "rt_ok list_items fst ?s"
    using s0 by (simp add: rt_ok_def pool_ok_def)
  have "\<exists>s1. runtime_manager_register_hook ex_env (Some 3) ?s = (active_hook_count ?s < 4, s1)"
    using curfew_hooks_list [OF ok, of ex_env 3] by (auto simp: ex_env_def runtime_consts)
  then show ?thesis
    using ok by blast
qed

end
