(* ===== verification/Power_Manager.thy ===== *)
theory Power_Manager
  imports Tick_Manager Rtos_Queue
begin

text \<open>
  The power manager (\<open>power_manager.c\<close>): a task that switches between user interface and background, the
  statistics of light sleep, the alignment of the work tick with the wake-ups of the Bluetooth
  controller, and the hand-over to the main task at shutdown.

  Calls into other components and into ESP-IDF are returned as \<open>power_call\<close>s in order. The power-management lock
  of ESP-IDF is the number of its acquisitions; whether a call of ESP-IDF succeeds is an argument.
\<close>

section \<open>State\<close>

datatype power_cmd = POWER_CMD_UI_SLEEP | POWER_CMD_UI_WAKE | POWER_CMD_SHUTDOWN

datatype power_state = POWER_STATE_UI_ACTIVE | POWER_STATE_BACKGROUND | POWER_STATE_SLEEP

record phase_shift_calculator =
  last_bt_wake_time :: int
  delta_mean :: int
  shift_sample :: nat
  early_wakeup :: bool

definition zero_calculator :: phase_shift_calculator where
  "zero_calculator = \<lparr>last_bt_wake_time = 0, delta_mean = 0, shift_sample = 0, early_wakeup = False\<rparr>"

record sleep_stats =
  slept :: int
  last_sleep_exit_us :: int
  first_sleep_exit_us :: int
  first_sleep :: bool
  sleep_wakes :: nat
  gpio_sleep_wakes :: nat
  bt_sleep_wakes :: nat
  unknown_sleep_wakes :: nat
  last_wakeup_cause :: nat
  requested_sleep_total :: int
  sleep_entries :: nat

record ('h, 'q) power_sys = "'h tick_sys" +
  power_queue :: "'q option"
  power_task :: bool
  main_task :: bool
  pm_initialized :: bool
  pm_state :: power_state
  hw_sleep_lock :: "nat option"
  shift_calculator :: phase_shift_calculator
  pm_stats :: sleep_stats

datatype power_call =
    Ui_sleep | Ui_resume | Gpio_enter_background | Gpio_enter_active | Runtime_set_active bool
  | Tick_cmd timer_cmd | Notify_main nat | Task_exit

definition MAX_ACCEPTABLE_DELTA_CHANGE_US :: int where "MAX_ACCEPTABLE_DELTA_CHANGE_US = 1000"
definition MIN_SHIFT_SAMPLES_FOR_SHIFT :: nat where "MIN_SHIFT_SAMPLES_FOR_SHIFT = 5"
definition WORK_TICK_OVERLAP_BUFFER :: int where "WORK_TICK_OVERLAP_BUFFER = 2000"
definition POWER_MANAGER_SHUTDOWN_REASON_DEEP_SLEEP :: nat where "POWER_MANAGER_SHUTDOWN_REASON_DEEP_SLEEP = 1"
definition POWER_MANAGER_SHUTDOWN_REASON_DFU :: nat where "POWER_MANAGER_SHUTDOWN_REASON_DFU = 2"

lemmas power_consts =
  MAX_ACCEPTABLE_DELTA_CHANGE_US_def MIN_SHIFT_SAMPLES_FOR_SHIFT_def WORK_TICK_OVERLAP_BUFFER_def

datatype power_handler = Ui_inactive_event_cb | Sleep_debug_cb | Alarm_triggered_cb | Dfu_update_start_handler

section \<open>The power task\<close>

text \<open>One pass of the loop of \<open>power_task_fn\<close> on a received command.\<close>

definition power_task_step ::
  "power_cmd \<Rightarrow> ('h, 'q, 'z) power_sys_scheme \<Rightarrow> power_call list \<times> ('h, 'q, 'z) power_sys_scheme" where
  "power_task_step cmd s =
     (case cmd of
        POWER_CMD_UI_SLEEP \<Rightarrow>
          if pm_state s = POWER_STATE_BACKGROUND then ([], s)
          else ([Ui_sleep, Gpio_enter_background, Runtime_set_active False], s\<lparr>pm_state := POWER_STATE_BACKGROUND\<rparr>)
      | POWER_CMD_UI_WAKE \<Rightarrow>
          if pm_state s = POWER_STATE_UI_ACTIVE then ([], s)
          else ([Gpio_enter_active, Runtime_set_active True, Ui_resume], s\<lparr>pm_state := POWER_STATE_UI_ACTIVE\<rparr>)
      | POWER_CMD_SHUTDOWN \<Rightarrow>
          if pm_state s = POWER_STATE_SLEEP then ([], s)
          else ([Task_exit], s\<lparr>pm_state := POWER_STATE_SLEEP, power_queue := None, power_task := False\<rparr>))"

text \<open>Receiving from the queue; nothing happens while it is empty (the wait is unbounded).\<close>

definition power_task_fn ::
  "(power_cmd, 'q) queue_ops \<Rightarrow> ('h, 'q, 'z) power_sys_scheme \<Rightarrow>
   (power_call list \<times> ('h, 'q, 'z) power_sys_scheme) option" where
  "power_task_fn ops s =
     do {
       q \<leftarrow> power_queue s;
       case xQueueReceive ops q of
         None \<Rightarrow> Some ([], s)
       | Some (cmd, q') \<Rightarrow> Some (power_task_step cmd (s\<lparr>power_queue := Some q'\<rparr>))
     }"

definition transition_to_ui_active ::
  "(power_cmd, 'q) queue_ops \<Rightarrow> ('h, 'q, 'z) power_sys_scheme \<Rightarrow> ('h, 'q, 'z) power_sys_scheme" where
  "transition_to_ui_active ops s =
     (case power_queue s of
        None \<Rightarrow> s
      | Some q \<Rightarrow> s\<lparr>power_queue := Some (snd (xQueueSend ops POWER_CMD_UI_WAKE q))\<rparr>)"

definition ui_inactive_event_cb ::
  "(power_cmd, 'q) queue_ops \<Rightarrow> 'd event \<Rightarrow> ('h, 'q, 'z) power_sys_scheme \<Rightarrow> ('h, 'q, 'z) power_sys_scheme option" where
  "ui_inactive_event_cb ops e s =
     (if ev e = EVENT_UI_INACTIVE then do {
        q \<leftarrow> power_queue s;
        Some (s\<lparr>power_queue := Some (snd (xQueueSend ops POWER_CMD_UI_SLEEP q))\<rparr>)
      }
      else Some s)"

definition alarm_triggered_cb ::
  "(power_cmd, 'q) queue_ops \<Rightarrow> ('h, 'q, 'z) power_sys_scheme \<Rightarrow> ('h, 'q, 'z) power_sys_scheme" where
  "alarm_triggered_cb ops s = (if pm_state s \<noteq> POWER_STATE_UI_ACTIVE then transition_to_ui_active ops s else s)"

section \<open>Light sleep\<close>

definition light_sleep_enter_cb :: "int \<Rightarrow> ('h, 'q, 'z) power_sys_scheme \<Rightarrow> ('h, 'q, 'z) power_sys_scheme" where
  "light_sleep_enter_cb sleep_us s =
     s\<lparr>pm_stats := (pm_stats s)\<lparr>requested_sleep_total := requested_sleep_total (pm_stats s) + sleep_us,
                               sleep_entries := u32 (sleep_entries (pm_stats s) + 1)\<rparr>\<rparr>"

text \<open>The wake-up causes are a bit mask; \<open>gpio\<close> and \<open>bt\<close> are its two bits that the code tests.\<close>

definition light_sleep_exit_cb ::
  "(power_cmd, 'q) queue_ops \<Rightarrow> bool \<Rightarrow> bool \<Rightarrow> nat \<Rightarrow> int \<Rightarrow> int \<Rightarrow> int \<Rightarrow> ('h, 'q, 'z) power_sys_scheme \<Rightarrow>
   ('h, 'q, 'z) power_sys_scheme" where
  "light_sleep_exit_cb ops gpio bt cause now now2 sleep_us s =
     (let st = pm_stats s;
          st1 = st\<lparr>slept := slept st + sleep_us, sleep_wakes := u8 (sleep_wakes st + 1), last_sleep_exit_us := now\<rparr>;
          st2 = (if first_sleep st1 then st1\<lparr>first_sleep_exit_us := now, first_sleep := False\<rparr> else st1)
      in if gpio then
           transition_to_ui_active ops (s\<lparr>pm_stats := st2\<lparr>gpio_sleep_wakes := u8 (gpio_sleep_wakes st2 + 1)\<rparr>\<rparr>)
         else if bt then
           s\<lparr>pm_stats := st2\<lparr>bt_sleep_wakes := u8 (bt_sleep_wakes st2 + 1)\<rparr>,
             shift_calculator := (shift_calculator s)\<lparr>early_wakeup := True, last_bt_wake_time := now2\<rparr>\<rparr>
         else
           s\<lparr>pm_stats := st2\<lparr>unknown_sleep_wakes := u8 (unknown_sleep_wakes st2 + 1), last_wakeup_cause := cause\<rparr>\<rparr>)"

text \<open>
  Alignment of the work tick: the mean distance of the tick from the wake-up before it, over five
  consecutive ticks, gives the shift of the next tick. \<open>now\<close> is the clock at the call.
\<close>

definition sync_bt_with_work_window ::
  "bool \<Rightarrow> int \<Rightarrow> ('h, 'q, 'z) power_sys_scheme \<Rightarrow> power_call list \<times> ('h, 'q, 'z) power_sys_scheme" where
  "sync_bt_with_work_window restart_ok now s =
     (let calc = shift_calculator s; reset = s\<lparr>shift_calculator := zero_calculator\<rparr> in
      if last_bt_wake_time calc \<le> 0 then ([], reset)
      else
        let delta_now = now - last_bt_wake_time calc in
        if delta_now > 0 then
          if shift_sample calc \<noteq> 0 \<and> delta_now - delta_mean calc > MAX_ACCEPTABLE_DELTA_CHANGE_US then ([], reset)
          else
            let mean = c_div (delta_mean calc * int (shift_sample calc) + delta_now) (int (shift_sample calc) + 1);
                calc1 = calc\<lparr>delta_mean := mean, shift_sample := u8 (shift_sample calc + 1)\<rparr>
            in if shift_sample calc1 \<ge> MIN_SHIFT_SAMPLES_FOR_SHIFT then
                 let work_interval_us = int (tick_manager_get_tick_interval_ms TICK_WORK) * 1000;
                     shift = work_interval_us - mean - WORK_TICK_OVERLAP_BUFFER
                 in if shift \<le> 0 \<or> shift > work_interval_us then ([], reset)
                    else (map Tick_cmd (snd (tick_manager_shift_work_tick restart_ok (nat shift) s)), reset)
               else ([], s\<lparr>shift_calculator := calc1\<rparr>)
        else ([], reset))"

definition print_debug_logs :: "('h, 'q, 'z) power_sys_scheme \<Rightarrow> ('h, 'q, 'z) power_sys_scheme" where
  "print_debug_logs s =
     s\<lparr>pm_stats := (pm_stats s)\<lparr>slept := 0, sleep_wakes := 0, gpio_sleep_wakes := 0, bt_sleep_wakes := 0,
         unknown_sleep_wakes := 0, requested_sleep_total := 0, sleep_entries := 0, first_sleep := True,
         last_wakeup_cause := 0\<rparr>\<rparr>"

definition sleep_debug_cb ::
  "bool \<Rightarrow> int \<Rightarrow> 'd event option \<Rightarrow> ('h, 'q, 'z) power_sys_scheme \<Rightarrow>
   power_call list \<times> ('h, 'q, 'z) power_sys_scheme" where
  "sleep_debug_cb restart_ok now ep s =
     (case ep of
        None \<Rightarrow> ([], s)
      | Some e \<Rightarrow>
          if ev e \<noteq> EVENT_WORK_TICK then ([], s)
          else
            let (calls, s1) =
              (if early_wakeup (shift_calculator s) then
                 sync_bt_with_work_window restart_ok now (s\<lparr>shift_calculator := (shift_calculator s)\<lparr>early_wakeup := False\<rparr>\<rparr>)
               else if shift_sample (shift_calculator s) > 0 then ([], s\<lparr>shift_calculator := zero_calculator\<rparr>)
               else ([], s))
            in (calls, print_debug_logs s1))"

section \<open>Sleep lock and shutdown\<close>

definition power_manager_prevent_sleep ::
  "('h, 'q, 'z) power_sys_scheme \<Rightarrow> ('h, 'q, 'z) power_sys_scheme option" where
  "power_manager_prevent_sleep s =
     (if \<not> pm_initialized s then None
      else map_option (\<lambda>n. s\<lparr>hw_sleep_lock := Some (n + 1)\<rparr>) (hw_sleep_lock s))"

text \<open>Releasing a lock that is not held is an error of ESP-IDF, on which \<open>ESP_ERROR_CHECK\<close> aborts.\<close>

definition power_manager_allow_sleep ::
  "('h, 'q, 'z) power_sys_scheme \<Rightarrow> ('h, 'q, 'z) power_sys_scheme option" where
  "power_manager_allow_sleep s =
     (if \<not> pm_initialized s then None
      else case hw_sleep_lock s of
        Some (Suc n) \<Rightarrow> Some (s\<lparr>hw_sleep_lock := Some n\<rparr>)
      | _ \<Rightarrow> None)"

definition no_motion_detected_handler ::
  "('h, 'q, 'z) power_sys_scheme \<Rightarrow> power_call list \<times> ('h, 'q, 'z) power_sys_scheme" where
  "no_motion_detected_handler s =
     (if main_task s then ([Notify_main POWER_MANAGER_SHUTDOWN_REASON_DEEP_SLEEP], s\<lparr>main_task := False\<rparr>) else ([], s))"

definition dfu_update_start_handler ::
  "('h, 'q, 'z) power_sys_scheme \<Rightarrow> (power_call list \<times> ('h, 'q, 'z) power_sys_scheme) option" where
  "dfu_update_start_handler s =
     (if main_task s then do {
        s1 \<leftarrow> power_manager_prevent_sleep s;
        Some ([Notify_main POWER_MANAGER_SHUTDOWN_REASON_DFU], s1\<lparr>main_task := False\<rparr>)
      }
      else Some ([], s))"

definition power_manager_init ::
  "(power_cmd, 'q) queue_ops \<Rightarrow> (power_handler \<Rightarrow> 'h) \<Rightarrow> bool \<Rightarrow> bool \<Rightarrow> bool \<Rightarrow> ('h, 'q, 'z) power_sys_scheme \<Rightarrow>
   ('h, 'q, 'z) power_sys_scheme option" where
  "power_manager_init ops hid task task_ok lock_ok s =
     (if pm_initialized s then Some s
      else do {
        q \<leftarrow> xQueueCreate ops 4;
        if \<not> task_ok \<or> \<not> lock_ok then None
        else
          let s1 = s\<lparr>main_task := task, power_queue := Some q, power_task := True, shift_calculator := zero_calculator\<rparr>;
              s2 = snd (event_subscribe EVENT_UI_INACTIVE (Some (hid Ui_inactive_event_cb)) s1);
              s3 = snd (event_subscribe EVENT_WORK_TICK (Some (hid Sleep_debug_cb)) s2);
              s4 = snd (event_subscribe EVENT_ALARM_TRIGGERED (Some (hid Alarm_triggered_cb)) s3);
              s5 = snd (event_subscribe EVENT_DFU_START (Some (hid Dfu_update_start_handler)) s4)
          in Some (s5\<lparr>hw_sleep_lock := Some 0, pm_state := POWER_STATE_UI_ACTIVE,
                      pm_stats := (pm_stats s5)\<lparr>slept := 0\<rparr>, pm_initialized := True\<rparr>)
      })"

text \<open>The loop that releases the lock until ESP-IDF refuses ends with the count at zero.\<close>

primrec release_all :: "nat \<Rightarrow> nat" where
  "release_all 0 = 0"
| "release_all (Suc n) = release_all n"

definition power_manager_deinit ::
  "(power_cmd, 'q) queue_ops \<Rightarrow> (power_handler \<Rightarrow> 'h) \<Rightarrow> ('h, 'q, 'z) power_sys_scheme \<Rightarrow>
   ('h, 'q, 'z) power_sys_scheme option" where
  "power_manager_deinit ops hid s =
     (let s1 = s\<lparr>pm_initialized := False\<rparr>;
          s2 = (case hw_sleep_lock s1 of
                  None \<Rightarrow> Some s1
                | Some n \<Rightarrow> if release_all n = 0 then Some (s1\<lparr>hw_sleep_lock := None\<rparr>) else None)
      in do {
        t2 \<leftarrow> s2;
        let t3 = t2\<lparr>shift_calculator := zero_calculator\<rparr>;
        let t4 = snd (event_unsubscribe EVENT_DFU_START (Some (hid Dfu_update_start_handler)) t3);
        let t5 = snd (event_unsubscribe EVENT_ALARM_TRIGGERED (Some (hid Alarm_triggered_cb)) t4);
        let t6 = snd (event_unsubscribe EVENT_UI_INACTIVE (Some (hid Ui_inactive_event_cb)) t5);
        let t7 = snd (event_unsubscribe EVENT_WORK_TICK (Some (hid Sleep_debug_cb)) t6);
        q \<leftarrow> power_queue t7;
        Some (t7\<lparr>power_queue := Some (snd (xQueueSend ops POWER_CMD_SHUTDOWN q))\<rparr>)
      })"

section \<open>Alignment of the work tick\<close>

definition calc_ok :: "phase_shift_calculator \<Rightarrow> bool" where
  "calc_ok c \<longleftrightarrow> shift_sample c < MIN_SHIFT_SAMPLES_FOR_SHIFT \<and> 0 \<le> delta_mean c"

lemma calc_ok_zero [simp]: "calc_ok zero_calculator"
  by (simp add: calc_ok_def zero_calculator_def power_consts)

lemma work_interval: "tick_manager_get_tick_interval_ms TICK_WORK = 1025"
  by (simp add: tick_manager_get_tick_interval_ms_def tick_intervals_ms_def)

text \<open>Whatever the wake-ups, a shift lies between 1 us and the interval less the overlap buffer.\<close>

lemma sync_bounded:
  assumes "calc_ok (shift_calculator s)" and "sync_bt_with_work_window restart_ok now s = (calls, s')"
  shows "calc_ok (shift_calculator s') \<and> (calls = [] \<or>
     (\<exists>d. 0 < d \<and> d \<le> 1023000 \<and> calls = map Tick_cmd (snd (tick_manager_shift_work_tick restart_ok d s))))"
proof -
  let ?c = "shift_calculator s"
  let ?d = "now - last_bt_wake_time ?c"
  let ?m = "c_div (delta_mean ?c * int (shift_sample ?c) + ?d) (int (shift_sample ?c) + 1)"
  have k: "shift_sample ?c < 5" "0 \<le> delta_mean ?c"
    using assms(1) by (simp_all add: calc_ok_def power_consts)
  have m: "0 \<le> ?m" if "0 < ?d"
  proof -
    have "0 \<le> delta_mean ?c * int (shift_sample ?c) + ?d"
      using k(2) that by (intro add_nonneg_nonneg mult_nonneg_nonneg) simp_all
    then show ?thesis
      by (simp add: c_div_nonneg pos_imp_zdiv_nonneg_iff)
  qed
  have "u8 (shift_sample ?c + 1) = shift_sample ?c + 1"
    using k(1) by (simp add: u8_id)
  then show ?thesis
    using assms(2) m k
    by (auto simp: sync_bt_with_work_window_def Let_def work_interval power_consts calc_ok_def zero_calculator_def
        split: if_splits intro!: exI [of _ "nat (1023000 - ?m)"])
qed

text \<open>
  A round: the Bluetooth controller wakes the watch at \<open>w\<close> and the work tick follows \<open>d\<close> later.
\<close>

definition bt_round ::
  "(power_cmd, 'q) queue_ops \<Rightarrow> bool \<Rightarrow> int \<Rightarrow> int \<Rightarrow> ('h, 'q, 'z) power_sys_scheme \<Rightarrow>
   power_call list \<times> ('h, 'q, 'z) power_sys_scheme" where
  "bt_round ops restart_ok d w s =
     sleep_debug_cb restart_ok (w + d) (Some (plain_event EVENT_WORK_TICK))
       ((light_sleep_exit_cb ops False True 0 w w 0 s)\<lparr>last_work_tick_us := w + d\<rparr>)"

primrec bt_rounds ::
  "(power_cmd, 'q) queue_ops \<Rightarrow> bool \<Rightarrow> int \<Rightarrow> int list \<Rightarrow> ('h, 'q, 'z) power_sys_scheme \<Rightarrow>
   power_call list list \<times> ('h, 'q, 'z) power_sys_scheme" where
  "bt_rounds ops restart_ok d [] s = ([], s)"
| "bt_rounds ops restart_ok d (w # ws) s =
     (let (c, s1) = bt_round ops restart_ok d w s; (cs, s2) = bt_rounds ops restart_ok d ws s1 in (c # cs, s2))"

lemma mean_const: "k \<noteq> 0 \<longrightarrow> m = d \<Longrightarrow> 0 < d \<Longrightarrow> c_div (m * int k + d) (int k + 1) = d"
proof -
  assume km: "k \<noteq> 0 \<longrightarrow> m = d" and d: "0 < d"
  have "m * int k + d = d * (int k + 1)"
    using km by (cases "k = 0") (simp_all add: algebra_simps)
  then show "c_div (m * int k + d) (int k + 1) = d"
    using d by (simp add: c_div_nonneg)
qed

lemma bt_round_collect:
  assumes k: "shift_sample (shift_calculator s) = k" "k < 4" "k \<noteq> 0 \<longrightarrow> delta_mean (shift_calculator s) = d"
    and d: "0 < d" and w: "0 < w"
  shows "\<exists>s'. bt_round ops restart_ok d w s = ([], s') \<and> shift_sample (shift_calculator s') = k + 1 \<and>
     delta_mean (shift_calculator s') = d \<and> tick_timers s' = tick_timers s"
proof -
  have "u8 (k + 1) = k + 1"
    using k(2) by (simp add: u8_id)
  moreover have "c_div (delta_mean (shift_calculator s) * int k + d) (int k + 1) = d"
    using k(3) d by (intro mean_const) simp_all
  moreover have "k = 0 \<or> delta_mean (shift_calculator s) = d"
    using k(3) by blast
  ultimately show ?thesis
    using k d w
    by (auto simp: bt_round_def sleep_debug_cb_def light_sleep_exit_cb_def sync_bt_with_work_window_def plain_event_def
        print_debug_logs_def power_consts Let_def)
qed

lemma bt_round_shift:
  assumes k: "shift_sample (shift_calculator s) = 4" "delta_mean (shift_calculator s) = d"
    and d: "0 < d" "d < 1023000" and w: "0 < w" "w + 2050000 < 18446744073709551616" and t: "tick_timers s = [a, True]"
  shows "\<exists>s'. bt_round ops restart_ok d w s = ([Tick_cmd (Timer_restart_at 1 1025000 (nat (w + 2 * 1025000 - 2000)))], s') \<and>
     shift_calculator s' = zero_calculator"
proof -
  have "u8 5 = 5"
    by (simp add: u8_id)
  moreover have "c_div (delta_mean (shift_calculator s) * 4 + d) (4 + 1) = d"
    using mean_const [of 4 "delta_mean (shift_calculator s)" d] k(2) d by simp
  moreover have "u64 (u64 (nat (w + d) + 1025000) + nat (1025000 - d - 2000)) = nat (w + 2 * 1025000 - 2000)"
    using d w by (subst u64_id; simp add: u64_id nat_add_distrib [symmetric] nat_less_iff)
  ultimately show ?thesis
    using k d w t
    by (auto simp: bt_round_def sleep_debug_cb_def light_sleep_exit_cb_def sync_bt_with_work_window_def plain_event_def
        print_debug_logs_def power_consts work_interval tick_manager_shift_work_tick_def tick_intervals_ms_def Let_def)
qed

lemma bt_rounds_append:
  "bt_rounds ops r d (us @ ws) s =
     (fst (bt_rounds ops r d us s) @ fst (bt_rounds ops r d ws (snd (bt_rounds ops r d us s))),
      snd (bt_rounds ops r d ws (snd (bt_rounds ops r d us s))))"
  by (induction us arbitrary: s) (simp_all add: split_beta Let_def)

lemma bt_rounds_collect:
  assumes "length ws + k \<le> 4" and "shift_sample (shift_calculator s) = k" and "k \<noteq> 0 \<longrightarrow> delta_mean (shift_calculator s) = d"
    and "0 < d" and "\<forall>w \<in> set ws. 0 < w"
  shows "\<exists>s'. bt_rounds ops restart_ok d ws s = (map (\<lambda>w. []) ws, s') \<and>
     shift_sample (shift_calculator s') = k + length ws \<and> (k + length ws \<noteq> 0 \<longrightarrow> delta_mean (shift_calculator s') = d) \<and>
     tick_timers s' = tick_timers s"
  using assms
proof (induction ws arbitrary: k s)
  case (Cons w ws)
  obtain s1 where s1: "bt_round ops restart_ok d w s = ([], s1)" "shift_sample (shift_calculator s1) = k + 1"
    "delta_mean (shift_calculator s1) = d" "tick_timers s1 = tick_timers s"
    using bt_round_collect [OF Cons.prems(2) _ Cons.prems(3,4), of w ops restart_ok] Cons.prems(1,5) by auto
  have "\<exists>s'. bt_rounds ops restart_ok d ws s1 = (map (\<lambda>w. []) ws, s') \<and>
     shift_sample (shift_calculator s') = k + 1 + length ws \<and> (k + 1 + length ws \<noteq> 0 \<longrightarrow> delta_mean (shift_calculator s') = d) \<and>
     tick_timers s' = tick_timers s1"
    using Cons.prems s1 by (intro Cons.IH) auto
  then show ?case
    using s1 by auto
qed simp

text \<open>
  Alignment of the work tick with Bluetooth. When the work tick follows the wake-up of the Bluetooth
  controller by the same distance \<open>d\<close> in five consecutive rounds, the first four send no command and the
  fifth restarts the work timer so that the next tick comes 2 ms before two work intervals after the
  last wake-up, whatever \<open>d\<close> is; then the measurement starts again.
\<close>

lemma work_tick_aligned:
  assumes "shift_calculator s = zero_calculator" and "length ws = 4" and "\<forall>v \<in> set ws. 0 < v"
    and "0 < d" and "d < 1023000" and "0 < w" and "w + 2050000 < 18446744073709551616" and "tick_timers s = [a, True]"
  shows "\<exists>s'. bt_rounds ops restart_ok d (ws @ [w]) s =
       ([[], [], [], [], [Tick_cmd (Timer_restart_at 1 1025000 (nat (w + 2 * 1025000 - 2000)))]], s') \<and>
     shift_calculator s' = zero_calculator"
proof -
  have z: "shift_sample (shift_calculator s) = 0"
    by (simp add: assms(1) zero_calculator_def)
  obtain s4 where s4: "bt_rounds ops restart_ok d ws s = (map (\<lambda>w. []) ws, s4)" "shift_sample (shift_calculator s4) = 4"
    "delta_mean (shift_calculator s4) = d" "tick_timers s4 = [a, True]"
    using bt_rounds_collect [of ws 0 s d ops restart_ok] z assms by auto
  obtain s5 where s5: "bt_round ops restart_ok d w s4 =
      ([Tick_cmd (Timer_restart_at 1 1025000 (nat (w + 2 * 1025000 - 2000)))], s5)" "shift_calculator s5 = zero_calculator"
    using bt_round_shift [OF s4(2,3) assms(4-7) s4(4), of ops restart_ok] by blast
  have "map (\<lambda>w. [] :: power_call list) ws = [[], [], [], []]"
    using assms(2) by (simp add: map_replicate_const numeral_eq_Suc)
  then show ?thesis
    using s4(1) s5 by (intro exI [of _ s5]) (simp add: bt_rounds_append)
qed

definition ex_power :: "(nat, nat \<times> power_cmd list) power_sys" where
  "ex_power = \<lparr>em_subscriptions = replicate 14 empty_subscription, em_initialized = True,
     tick_timers = [True, True], dep_ticks_counter = [0], last_work_tick_us = -1, power_queue = Some (4, []), power_task = True, main_task = True,
     pm_initialized = True, pm_state = POWER_STATE_UI_ACTIVE, hw_sleep_lock = Some 0, shift_calculator = zero_calculator,
     pm_stats = \<lparr>slept = 0, last_sleep_exit_us = 0, first_sleep_exit_us = 0, first_sleep = True, sleep_wakes = 0,
       gpio_sleep_wakes = 0, bt_sleep_wakes = 0, unknown_sleep_wakes = 0, last_wakeup_cause = 0,
       requested_sleep_total = 0, sleep_entries = 0\<rparr>\<rparr>"

lemma work_tick_aligned_witness:
  "\<exists>s'. bt_rounds list_queue True 300000 [1000000, 2025000, 3050000, 4075000, 5100000] ex_power =
     ([[], [], [], [], [Tick_cmd (Timer_restart_at 1 1025000 7148000)]], s')"
  using work_tick_aligned [of ex_power "[1000000, 2025000, 3050000, 4075000]" 300000 5100000 True list_queue True]
  by (auto simp: ex_power_def)

text \<open>Shutdown is requested once: after either handler the main task is not notified again.\<close>

lemma notified_once:
  "fst (no_motion_detected_handler (snd (no_motion_detected_handler s))) = []"
  "dfu_update_start_handler s = Some (c, s1) \<Longrightarrow> fst (no_motion_detected_handler s1) = [] \<and> dfu_update_start_handler s1 = Some ([], s1)"
  by (auto simp: no_motion_detected_handler_def dfu_update_start_handler_def bind_eq_Some_iff split: if_splits)

lemma prevent_allow_sleep:
  "power_manager_prevent_sleep s = Some s1 \<Longrightarrow> power_manager_allow_sleep s1 = Some s"
  by (auto simp: power_manager_prevent_sleep_def power_manager_allow_sleep_def split: if_splits)

end
