(* ===== verification/Ir_Blaster.thy ===== *)
theory Ir_Blaster
  imports Rtos_Queue
begin

unbundle bit_operations_syntax

text \<open>
  The infrared transmitter: the translation of a packet into RMT symbols
  (\<open>ir_blaster_driver_unsafe.c\<close>) and the queue and task in front of it (\<open>ir_driver.c\<close>).

  The symbol buffer is a list with bounds-checked writes. The heap is the number of payload copies that
  are allocated and not yet freed. The allocator, the queue and the outcome of creating objects are
  parameters; the RMT peripheral receives the list of symbols that are transmitted.
\<close>

section \<open>Symbols\<close>

record ir_blaster_data =
  burst_packets :: byte
  ir_payload_len :: byte
  header_mark :: "16 word"
  header_space :: "16 word"
  bit0_mark :: "16 word"
  bit0_space :: "16 word"
  bit1_mark :: "16 word"
  bit1_space :: "16 word"
  inter_frame_mark :: "16 word"
  inter_frame_space :: "16 word"
  gap_mark :: "16 word"
  gap_space :: "16 word"
  frequency :: "32 word"
  payload_data :: "byte list option"

definition mark_space_to_symbol_val :: "16 word \<Rightarrow> 16 word \<Rightarrow> 32 word" where
  "mark_space_to_symbol_val mark_duration space_duration =
     (ucast mark_duration AND 0x7FFF) OR push_bit 15 1 OR push_bit 16 (ucast space_duration AND 0x7FFF) OR push_bit 31 0"

type_synonym symbols = "32 word list"

text \<open>\<open>(*out_symbols)[symbol_idx++] = v\<close>.\<close>

definition put_symbol :: "32 word \<Rightarrow> symbols \<times> nat \<Rightarrow> (symbols \<times> nat) option" where
  "put_symbol v st = (case st of (buf, idx) \<Rightarrow> if idx < length buf then Some (buf[idx := v], idx + 1) else None)"

definition bit_symbol :: "ir_blaster_data \<Rightarrow> byte \<Rightarrow> nat \<Rightarrow> 32 word" where
  "bit_symbol d b k =
     (if b AND push_bit k 1 \<noteq> 0 then mark_space_to_symbol_val (bit1_mark d) (bit1_space d)
      else mark_space_to_symbol_val (bit0_mark d) (bit0_space d))"

primrec put_bits :: "ir_blaster_data \<Rightarrow> byte \<Rightarrow> nat list \<Rightarrow> symbols \<times> nat \<Rightarrow> (symbols \<times> nat) option" where
  "put_bits d b [] st = Some st"
| "put_bits d b (k # ks) st = do { st' \<leftarrow> put_symbol (bit_symbol d b k) st; put_bits d b ks st' }"

primrec put_bytes :: "ir_blaster_data \<Rightarrow> byte list \<Rightarrow> nat list \<Rightarrow> symbols \<times> nat \<Rightarrow> (symbols \<times> nat) option" where
  "put_bytes d payload [] st = Some st"
| "put_bytes d payload (i # is) st =
     do { b \<leftarrow> rd payload i; st' \<leftarrow> put_bits d b [0..<8] st; put_bytes d payload is st' }"

primrec put_frames :: "ir_blaster_data \<Rightarrow> byte list \<Rightarrow> nat list \<Rightarrow> symbols \<times> nat \<Rightarrow> (symbols \<times> nat) option" where
  "put_frames d payload [] st = Some st"
| "put_frames d payload (frame # fs) st =
     do {
       st1 \<leftarrow> put_symbol (mark_space_to_symbol_val (header_mark d) (header_space d)) st;
       st2 \<leftarrow> put_bytes d payload [0..<unat (ir_payload_len d)] st1;
       st3 \<leftarrow> (if frame + 1 < unat (burst_packets d)
               then put_symbol (mark_space_to_symbol_val (inter_frame_mark d) (inter_frame_space d)) st2
               else Some st2);
       put_frames d payload fs st3
     }"

definition symbol_count_of :: "ir_blaster_data \<Rightarrow> nat" where
  "symbol_count_of d =
     (1 + unat (ir_payload_len d) * 8) * unat (burst_packets d) + unat (burst_packets d)"

text \<open>The result is the returned count and the buffer; \<open>None\<close> inside is the failed allocation.\<close>

definition generate_rmt_symbol ::
  "(nat \<Rightarrow> symbols option) \<Rightarrow> ir_blaster_data \<Rightarrow> byte list \<Rightarrow> (nat \<times> symbols) option option" where
  "generate_rmt_symbol malloc d payload =
     (let symbol_count = symbol_count_of d in
      case malloc symbol_count of
        None \<Rightarrow> Some None
      | Some buf \<Rightarrow> do {
          st \<leftarrow> put_frames d payload [0..<unat (burst_packets d)] (buf, 0);
          (out, idx) \<leftarrow> put_symbol (mark_space_to_symbol_val (gap_mark d) (gap_space d)) st;
          Some (Some (symbol_count, out))
        })"

definition ir_blaster_driver_unsafe_send_data ::
  "(nat \<Rightarrow> symbols option) \<Rightarrow> bool \<Rightarrow> ir_blaster_data option \<Rightarrow> (bool \<times> symbols option) option" where
  "ir_blaster_driver_unsafe_send_data malloc tx_chan msgp =
     (case msgp of
        None \<Rightarrow> Some (False, None)
      | Some msg \<Rightarrow>
          (case payload_data msg of
             None \<Rightarrow> Some (False, None)
           | Some payload \<Rightarrow>
               if \<not> tx_chan \<or> frequency msg = 0 then Some (False, None)
               else do {
                 r \<leftarrow> generate_rmt_symbol malloc msg payload;
                 case r of
                   None \<Rightarrow> Some (False, None)
                 | Some (n, symbols) \<Rightarrow> do { sent \<leftarrow> mem_read symbols 0 n; Some (True, Some sent) }
               }))"

definition ir_blaster_driver_unsafe_init :: "bool \<Rightarrow> bool option" where
  "ir_blaster_driver_unsafe_init chan_ok = (if chan_ok then Some True else None)"

definition ir_blaster_driver_unsafe_deinit :: "bool \<Rightarrow> bool \<Rightarrow> bool option" where
  "ir_blaster_driver_unsafe_deinit del_ok tx_chan =
     (if tx_chan then if del_ok then Some False else None else Some tx_chan)"

text \<open>Reference: the burst as the source describes it, frame by frame.\<close>

definition frame_symbols :: "ir_blaster_data \<Rightarrow> byte list \<Rightarrow> symbols" where
  "frame_symbols d payload =
     mark_space_to_symbol_val (header_mark d) (header_space d) #
     concat (map (\<lambda>b. map (bit_symbol d b) [0..<8]) payload)"

definition burst_symbols :: "ir_blaster_data \<Rightarrow> byte list \<Rightarrow> symbols" where
  "burst_symbols d payload =
     concat (replicate (unat (burst_packets d) - 1)
       (frame_symbols d payload @ [mark_space_to_symbol_val (inter_frame_mark d) (inter_frame_space d)])) @
     frame_symbols d payload @ [mark_space_to_symbol_val (gap_mark d) (gap_space d)]"

section \<open>The generator writes the burst\<close>

text \<open>Invariant of the writing loops: the buffer holds the symbols written so far, then what was there.\<close>

definition wrote :: "symbols \<Rightarrow> symbols \<times> nat \<Rightarrow> symbols \<times> nat" where
  "wrote xs st = (case st of (buf, idx) \<Rightarrow> (take idx buf @ xs @ drop (idx + length xs) buf, idx + length xs))"

lemma wrote_Nil [simp]: "wrote [] st = st"
  by (cases st) (simp add: wrote_def)

lemma wrote_append:
  assumes "snd st \<le> length (fst st)" 
  shows "wrote ys (wrote xs st) = wrote (xs @ ys) st"
  using assms by (cases st) (auto simp: wrote_def ac_simps)

lemma length_wrote: "snd st + length xs \<le> length (fst st) \<Longrightarrow> length (fst (wrote xs st)) = length (fst st) \<and> snd (wrote xs st) = snd st + length xs"
  by (cases st) (auto simp: wrote_def)

lemma put_symbol_wrote: "snd st < length (fst st) \<Longrightarrow> put_symbol v st = Some (wrote [v] st)"
  by (cases st) (simp add: put_symbol_def wrote_def upd_conv_take_nth_drop)

lemma put_bits_wrote:
  "snd st + length ks \<le> length (fst st) \<Longrightarrow> put_bits d b ks st = Some (wrote (map (bit_symbol d b) ks) st)"
proof (induction ks arbitrary: st)
  case (Cons k ks)
  then show ?case
    using length_wrote [of st "[bit_symbol d b k]"]
    by (simp add: put_symbol_wrote wrote_append)
qed simp

lemma put_bytes_wrote:
  assumes "\<forall>i \<in> set is. i < length payload" and "snd st + 8 * length is \<le> length (fst st)"
  shows "put_bytes d payload is st = Some (wrote (concat (map (\<lambda>i. map (bit_symbol d (payload ! i)) [0..<8]) is)) st)"
  using assms
proof (induction "is" arbitrary: st)
  case (Cons i "is")
  let ?xs = "map (bit_symbol d (payload ! i)) [0..<8]"
  have "put_bits d (payload ! i) [0..<8] st = Some (wrote ?xs st)"
    using Cons.prems(2) by (intro put_bits_wrote) simp
  moreover have "length (fst (wrote ?xs st)) = length (fst st) \<and> snd (wrote ?xs st) = snd st + 8"
    using length_wrote [of st ?xs] Cons.prems(2) by simp
  ultimately show ?case
    using Cons.IH [of "wrote ?xs st"] Cons.prems by (simp add: rd_def wrote_append)
qed simp

lemma length_bit_symbols: "length (concat (map (\<lambda>b. map (bit_symbol d b) [0..<8]) bs)) = 8 * length bs"
  by (induction bs) simp_all

lemma length_frame_symbols: "length (frame_symbols d payload) = 1 + 8 * length payload"
  by (simp add: frame_symbols_def length_bit_symbols)

definition frame_and_gap :: "ir_blaster_data \<Rightarrow> byte list \<Rightarrow> nat \<Rightarrow> symbols" where
  "frame_and_gap d payload f = frame_symbols d payload @
     (if f + 1 < unat (burst_packets d) then [mark_space_to_symbol_val (inter_frame_mark d) (inter_frame_space d)] else [])"

lemma put_frames_wrote:
  assumes "length payload = unat (ir_payload_len d)"
    and "snd st + length (concat (map (frame_and_gap d payload) fs)) \<le> length (fst st)"
  shows "put_frames d payload fs st = Some (wrote (concat (map (frame_and_gap d payload) fs)) st)"
  using assms(2)
proof (induction fs arbitrary: st)
  case (Cons f fs)
  let ?n = "unat (ir_payload_len d)"
  let ?h = "mark_space_to_symbol_val (header_mark d) (header_space d)"
  let ?i = "mark_space_to_symbol_val (inter_frame_mark d) (inter_frame_space d)"
  let ?b = "concat (map (\<lambda>b. map (bit_symbol d b) [0..<8]) payload)"
  let ?last = "f + 1 < unat (burst_packets d)"
  have fit: "snd st + (1 + 8 * ?n + (if ?last then 1 else 0)) \<le> length (fst st)"
  proof -
    have "length (frame_and_gap d payload f) = 1 + 8 * ?n + (if ?last then 1 else 0)"
      using assms(1) by (simp add: frame_and_gap_def length_frame_symbols)
    then show ?thesis
      using Cons.prems by simp
  qed
  have b: "concat (map (\<lambda>i. map (bit_symbol d (payload ! i)) [0..<8]) [0..<?n]) = ?b"
  proof -
    have "map (\<lambda>i. map (bit_symbol d (payload ! i)) [0..<8]) [0..<?n] = map (\<lambda>b. map (bit_symbol d b) [0..<8]) payload"
      using assms(1) by (intro nth_equalityI) simp_all
    then show ?thesis
      by simp
  qed
  have 1: "put_symbol ?h st = Some (wrote [?h] st)"
    using fit by (intro put_symbol_wrote) simp
  have l1: "length (fst (wrote [?h] st)) = length (fst st) \<and> snd (wrote [?h] st) = snd st + 1"
    using length_wrote [of st "[?h]"] fit by simp
  have 2: "put_bytes d payload [0..<?n] (wrote [?h] st) = Some (wrote (frame_symbols d payload) st)"
    using put_bytes_wrote [of "[0..<?n]" payload "wrote [?h] st" d] l1 fit assms(1)
    by (simp add: b wrote_append frame_symbols_def)
  have l2: "length (fst (wrote (frame_symbols d payload) st)) = length (fst st) \<and>
      snd (wrote (frame_symbols d payload) st) = snd st + (1 + 8 * ?n)"
    using length_wrote [of st "frame_symbols d payload"] fit assms(1) by (simp add: length_frame_symbols)
  have 3: "(if ?last then put_symbol ?i (wrote (frame_symbols d payload) st) else Some (wrote (frame_symbols d payload) st)) =
      Some (wrote (frame_and_gap d payload f) st)"
    using l2 fit by (cases ?last) (simp_all add: put_symbol_wrote wrote_append frame_and_gap_def)
  have l3: "length (fst (wrote (frame_and_gap d payload f) st)) = length (fst st) \<and>
      snd (wrote (frame_and_gap d payload f) st) = snd st + length (frame_and_gap d payload f)"
    using Cons.prems by (intro length_wrote) simp
  have "put_frames d payload (f # fs) st = put_frames d payload fs (wrote (frame_and_gap d payload f) st)"
    using 1 2 3 by simp
  also have "\<dots> = Some (wrote (concat (map (frame_and_gap d payload) fs)) (wrote (frame_and_gap d payload f) st))"
    using Cons.prems l3 by (intro Cons.IH) simp
  also have "\<dots> = Some (wrote (concat (map (frame_and_gap d payload) (f # fs))) st)"
    using fit by (simp add: wrote_append)
  finally show ?case .
qed simp

lemma frames_burst:
  assumes "0 < unat (burst_packets d)"
  shows "concat (map (frame_and_gap d payload) [0..<unat (burst_packets d)]) @
     [mark_space_to_symbol_val (gap_mark d) (gap_space d)] = burst_symbols d payload"
proof -
  let ?n = "unat (burst_packets d)"
  have "[0..<?n] = [0..<?n - 1] @ [?n - 1]"
    using assms by (metis Suc_diff_1 upt_Suc_append zero_le)
  moreover have "map (frame_and_gap d payload) [0..<?n - 1] =
      replicate (?n - 1) (frame_symbols d payload @ [mark_space_to_symbol_val (inter_frame_mark d) (inter_frame_space d)])"
    by (rule nth_equalityI) (simp_all add: frame_and_gap_def)
  moreover have "frame_and_gap d payload (?n - 1) = frame_symbols d payload"
    using assms by (simp add: frame_and_gap_def)
  ultimately show ?thesis
    by (simp add: burst_symbols_def)
qed

lemma length_burst_symbols:
  assumes "0 < unat (burst_packets d)" and "length payload = unat (ir_payload_len d)"
  shows "length (burst_symbols d payload) = symbol_count_of d"
proof -
  obtain m where m: "unat (burst_packets d) = Suc m"
    using assms(1) gr0_conv_Suc by blast
  have "length (concat (replicate m xs)) = m * length xs" for xs :: symbols
    by (induction m) simp_all
  then show ?thesis
    using assms(2) by (simp add: burst_symbols_def length_frame_symbols symbol_count_of_def m algebra_simps)
qed

text \<open>
  C15: for every packet with at least one frame, the in-place generator fills the buffer it allocated
  exactly, never writes outside it, and transmits the burst in its documented order: header, the bits
  of every byte from the lowest, the inter-frame gap between frames and the final gap at the end.
\<close>

theorem ir_burst_equivalent:
  assumes "0 < unat (burst_packets d)" and "payload_data d = Some payload" and "length payload = unat (ir_payload_len d)"
    and "frequency d \<noteq> 0" and "malloc (symbol_count_of d) = Some buf" and "length buf = symbol_count_of d"
  shows "ir_blaster_driver_unsafe_send_data malloc True (Some d) = Some (True, Some (burst_symbols d payload))"
proof -
  let ?fs = "concat (map (frame_and_gap d payload) [0..<unat (burst_packets d)])"
  let ?g = "mark_space_to_symbol_val (gap_mark d) (gap_space d)"
  have len: "length (?fs @ [?g]) = length buf"
    using length_burst_symbols [OF assms(1,3)] assms(6) by (simp only: frames_burst [OF assms(1)])
  have "put_frames d payload [0..<unat (burst_packets d)] (buf, 0) = Some (wrote ?fs (buf, 0))"
    using len by (intro put_frames_wrote assms(3)) simp
  moreover have "put_symbol ?g (wrote ?fs (buf, 0)) = Some (wrote (?fs @ [?g]) (buf, 0))"
    using length_wrote [of "(buf, 0)" ?fs] len by (simp add: put_symbol_wrote wrote_append)
  moreover have "wrote (?fs @ [?g]) (buf, 0) = (burst_symbols d payload, length buf)"
    using len by (simp add: wrote_def frames_burst [OF assms(1)])
  ultimately have "generate_rmt_symbol malloc d payload = Some (Some (symbol_count_of d, burst_symbols d payload))"
    using assms(5) by (simp add: generate_rmt_symbol_def Let_def)
  then show ?thesis
    using assms length_burst_symbols [OF assms(1,3)]
    by (simp add: ir_blaster_driver_unsafe_send_data_def mem_read_def)
qed

definition ex_ir :: ir_blaster_data where
  "ex_ir = \<lparr>burst_packets = 2, ir_payload_len = 1, header_mark = 440, header_space = 440, bit0_mark = 50, bit0_space = 50,
     bit1_mark = 50, bit1_space = 160, inter_frame_mark = 50, inter_frame_space = 520, gap_mark = 50, gap_space = 1000,
     frequency = 38000, payload_data = Some [5]\<rparr>"

theorem ir_burst_equivalent_witness:
  "ir_blaster_driver_unsafe_send_data (\<lambda>n. Some (replicate n 0)) True (Some ex_ir) = Some (True, Some (burst_symbols ex_ir [5]))"
  using ir_burst_equivalent [of ex_ir "[5]" "\<lambda>n. Some (replicate n 0)" "replicate (symbol_count_of ex_ir) 0"]
  by (simp add: ex_ir_def)

text \<open>A burst of no frames asks for an empty buffer; nothing is sent when the allocator refuses that.\<close>

lemma ir_burst_zero:
  assumes "unat (burst_packets d) = 0" and "malloc 0 = None"
  shows "ir_blaster_driver_unsafe_send_data malloc tx (Some d) = Some (False, None)"
  using assms
  by (auto simp: ir_blaster_driver_unsafe_send_data_def generate_rmt_symbol_def symbol_count_of_def split: option.split)

section \<open>Queue and task\<close>

record 'q ir_driver =
  ir_queue :: "'q option"
  ir_initialized :: bool
  abort_flag :: bool
  exit_sem :: bool
  ir_task :: bool
  ir_tx_chan :: bool
  live_payloads :: nat
  ir_sent :: "symbols list"

definition MAX_CONCURRENT_IR_MESSAGES :: nat where "MAX_CONCURRENT_IR_MESSAGES = 5"

definition is_poison :: "ir_blaster_data \<Rightarrow> bool" where
  "is_poison m \<longleftrightarrow> frequency m = 0xFFFFFFFF \<and> ir_payload_len m = 0xFF \<and> payload_data m = None"

text \<open>One pass of the loop of \<open>ir_task_fn\<close>; the result tells whether the loop goes on.\<close>

definition ir_task_fn ::
  "(nat \<Rightarrow> symbols option) \<Rightarrow> (ir_blaster_data, 'q) queue_ops \<Rightarrow> 'q ir_driver \<Rightarrow> (bool \<times> 'q ir_driver) option" where
  "ir_task_fn malloc ops s =
     (if abort_flag s then if exit_sem s then Some (False, s\<lparr>ir_task := False\<rparr>) else None
      else do {
        q \<leftarrow> ir_queue s;
        case xQueueReceive ops q of
          None \<Rightarrow> Some (True, s)
        | Some (msg, q') \<Rightarrow>
            let s1 = s\<lparr>ir_queue := Some q'\<rparr> in
            if is_poison msg then if exit_sem s1 then Some (False, s1\<lparr>ir_task := False\<rparr>) else None
            else do {
              (success, out) \<leftarrow> ir_blaster_driver_unsafe_send_data malloc (ir_tx_chan s1) (Some msg);
              Some (True, s1\<lparr>ir_sent := ir_sent s1 @ (case out of None \<Rightarrow> [] | Some x \<Rightarrow> [x]),
                             live_payloads := (if payload_data msg = None then live_payloads s1 else live_payloads s1 - 1)\<rparr>)
            }
      })"

definition ir_blaster_driver_send_data ::
  "bool \<Rightarrow> (ir_blaster_data, 'q) queue_ops \<Rightarrow> ir_blaster_data option \<Rightarrow> 'q ir_driver \<Rightarrow> (bool \<times> 'q ir_driver) option" where
  "ir_blaster_driver_send_data malloc_ok ops datap s =
     (case (datap, ir_queue s) of
        (Some d, Some q) \<Rightarrow>
          (case payload_data d of
             None \<Rightarrow> Some (False, s)
           | Some payload \<Rightarrow>
               if \<not> ir_initialized s \<or> abort_flag s then Some (False, s)
               else if \<not> malloc_ok then Some (False, s)
               else do {
                 copy \<leftarrow> mem_read payload 0 (unat (ir_payload_len d));
                 let (r, q') = xQueueSend ops (d\<lparr>payload_data := Some copy\<rparr>) q;
                 Some (if r then (True, s\<lparr>ir_queue := Some q', live_payloads := live_payloads s + 1\<rparr>) else (False, s))
               })
      | _ \<Rightarrow> Some (False, s))"

definition ir_blaster_driver_init ::
  "(ir_blaster_data, 'q) queue_ops \<Rightarrow> bool \<Rightarrow> bool \<Rightarrow> 'q ir_driver \<Rightarrow> 'q ir_driver option" where
  "ir_blaster_driver_init ops chan_ok task_ok s =
     (if ir_initialized s then Some s
      else do {
        ch \<leftarrow> ir_blaster_driver_unsafe_init chan_ok;
        q \<leftarrow> xQueueCreate ops MAX_CONCURRENT_IR_MESSAGES;
        if \<not> task_ok then None
        else Some (s\<lparr>ir_tx_chan := ch, abort_flag := False, ir_queue := Some q, ir_task := True, ir_initialized := True\<rparr>)
      })"

text \<open>
  Shutdown: \<open>ir_deinit_begin\<close> is the code up to waiting for the task, during which the task may still make
  passes; \<open>ir_deinit_end\<close> is the rest. The draining loop frees the payloads still queued.
\<close>

definition poison_msg :: ir_blaster_data where
  "poison_msg = \<lparr>burst_packets = 0, ir_payload_len = 0xFF, header_mark = 0, header_space = 0, bit0_mark = 0, bit0_space = 0,
     bit1_mark = 0, bit1_space = 0, inter_frame_mark = 0, inter_frame_space = 0, gap_mark = 0, gap_space = 0,
     frequency = 0xFFFFFFFF, payload_data = None\<rparr>"

definition ir_deinit_begin :: "(ir_blaster_data, 'q) queue_ops \<Rightarrow> 'q ir_driver \<Rightarrow> 'q ir_driver option" where
  "ir_deinit_begin ops s =
     (if \<not> ir_initialized s then Some s
      else do {
        q \<leftarrow> ir_queue s;
        Some (s\<lparr>ir_initialized := False, exit_sem := True, abort_flag := True,
                ir_queue := Some (snd (xQueueSend ops poison_msg q))\<rparr>)
      })"

partial_function (option) drain_payloads ::
  "(ir_blaster_data, 'q) queue_ops \<Rightarrow> 'q \<Rightarrow> nat \<Rightarrow> ('q \<times> nat) option" where
  "drain_payloads ops q live =
     (case xQueueReceive ops q of
        None \<Rightarrow> Some (q, live)
      | Some (leftover, q') \<Rightarrow>
          drain_payloads ops q' (if payload_data leftover = None then live else live - 1))"

definition ir_deinit_end ::
  "(ir_blaster_data, 'q) queue_ops \<Rightarrow> bool \<Rightarrow> 'q ir_driver \<Rightarrow> 'q ir_driver option" where
  "ir_deinit_end ops del_ok s =
     do {
       s1 \<leftarrow> (case ir_queue s of
                None \<Rightarrow> Some s
              | Some q \<Rightarrow> do {
                  (q', live) \<leftarrow> drain_payloads ops q (live_payloads s);
                  Some (s\<lparr>live_payloads := live, ir_queue := None\<rparr>)
                });
       ch \<leftarrow> ir_blaster_driver_unsafe_deinit del_ok (ir_tx_chan s1);
       Some (s1\<lparr>ir_tx_chan := ch, exit_sem := False, ir_task := False\<rparr>)
     }"

section \<open>No payload is leaked\<close>

definition queued_payloads :: "ir_blaster_data list \<Rightarrow> nat" where
  "queued_payloads ms = length (filter (\<lambda>m. payload_data m \<noteq> None) ms)"

definition ir_inv :: "('q \<Rightarrow> ir_blaster_data list) \<Rightarrow> 'q ir_driver \<Rightarrow> bool" where
  "ir_inv items s \<longleftrightarrow> (\<exists>q. ir_queue s = Some q \<and> live_payloads s = queued_payloads (items q))"

lemma queued_payloads_simps [simp]:
  "queued_payloads [] = 0"
  "queued_payloads (m # ms) = (if payload_data m = None then 0 else 1) + queued_payloads ms"
  "queued_payloads (ms @ ms') = queued_payloads ms + queued_payloads ms'"
  by (simp_all add: queued_payloads_def)

text \<open>The clients and the task, in any order.\<close>

inductive ir_step ::
  "(nat \<Rightarrow> symbols option) \<Rightarrow> (ir_blaster_data, 'q) queue_ops \<Rightarrow> 'q ir_driver \<Rightarrow> 'q ir_driver \<Rightarrow> bool"
  for malloc ops where
  send: "ir_blaster_driver_send_data malloc_ok ops d s = Some (r, s') \<Longrightarrow> ir_step malloc ops s s'"
| task: "ir_task_fn malloc ops s = Some (go, s') \<Longrightarrow> ir_step malloc ops s s'"
| deinit: "ir_deinit_begin ops s = Some s' \<Longrightarrow> ir_step malloc ops s s'"

inductive_cases ir_stepE: "ir_step malloc ops s s'"

lemma send_keeps:
  assumes "queue_spec ops items cap" and "ir_inv items s" and "ir_blaster_driver_send_data malloc_ok ops d s = Some (r, s')"
  shows "ir_inv items s'"
proof -
  obtain q where q: "ir_queue s = Some q" "live_payloads s = queued_payloads (items q)"
    using assms(2) by (auto simp: ir_inv_def)
  note send = queue_send [OF assms(1)]
  have "items (snd (xQueueSend ops m q)) = items q @ [m]" if "fst (xQueueSend ops m q)" for m
    using that send(1) [of m q] send(3) [of m q] by simp
  then show ?thesis
    using assms(2,3) q
    by (auto simp: ir_blaster_driver_send_data_def ir_inv_def bind_eq_Some_iff split_beta Let_def
        split: option.splits if_splits)
qed

lemma receive_cases:
  assumes "queue_spec ops items cap"
  shows "xQueueReceive ops q = Some (m, q') \<Longrightarrow> items q = m # items q'"
  using assms unfolding queue_spec_def
  by (cases "items q") (fastforce+)

lemma task_keeps:
  assumes "queue_spec ops items cap" and "ir_inv items s" and "ir_task_fn malloc ops s = Some (go, s')"
  shows "ir_inv items s'"
proof -
  obtain q where q: "ir_queue s = Some q" "live_payloads s = queued_payloads (items q)"
    using assms(2) by (auto simp: ir_inv_def)
  show ?thesis
    using assms(2,3) q
    by (auto simp: ir_task_fn_def ir_inv_def is_poison_def bind_eq_Some_iff Let_def receive_cases [OF assms(1)]
        split: option.splits if_splits)
qed

lemma deinit_begin_keeps:
  assumes "queue_spec ops items cap" and "ir_inv items s" and "ir_deinit_begin ops s = Some s'"
  shows "ir_inv items s'"
proof -
  obtain q where q: "ir_queue s = Some q" "live_payloads s = queued_payloads (items q)"
    using assms(2) by (auto simp: ir_inv_def)
  have l: "length (items q) \<le> cap q"
    using assms(1) unfolding queue_spec_def by blast
  have "items (snd (xQueueSend ops poison_msg q)) = take (cap q) (items q @ [poison_msg])"
    by (rule queue_send(1) [OF assms(1)])
  then have "queued_payloads (items (snd (xQueueSend ops poison_msg q))) = queued_payloads (items q)"
    using l by (cases "cap q - length (items q)") (simp_all add: poison_msg_def)
  then show ?thesis
    using assms(2,3) q by (auto simp: ir_deinit_begin_def ir_inv_def split: if_splits)
qed

lemma drain_payloads_correct:
  assumes "queue_spec ops items cap"
  shows "\<exists>q'. drain_payloads ops q (queued_payloads (items q) + n) = Some (q', n)"
proof (induction "items q" arbitrary: q)
  case Nil
  then have "xQueueReceive ops q = None"
    using assms unfolding queue_spec_def by metis
  then show ?case
    using Nil by (simp add: drain_payloads.simps [of ops q] flip: Nil)
next
  case (Cons m ms)
  obtain q1 where q1: "xQueueReceive ops q = Some (m, q1)" "items q1 = ms"
    using assms Cons.hyps(2) [symmetric] unfolding queue_spec_def by blast
  have "drain_payloads ops q (queued_payloads (items q) + n) = drain_payloads ops q1 (queued_payloads (items q1) + n)"
    using q1 Cons.hyps(2) [symmetric] by (simp add: drain_payloads.simps [of ops q])
  then show ?case
    using Cons.hyps(1) [of q1] q1(2) by simp
qed

text \<open>
  The infrared driver frees every payload it copied. Whatever clients send and however the task's
  passes interleave with them and with the start of the shutdown, the number of live copies is the
  number of queued messages that carry one, and after the shutdown it is zero.
\<close>

lemma ir_no_leak:
  assumes "queue_spec ops items cap" and "ir_inv items s" and "(ir_step malloc ops)\<^sup>*\<^sup>* s s'"
  shows "ir_inv items s' \<and> (\<exists>s2. ir_deinit_end ops True s' = Some s2 \<and> live_payloads s2 = 0 \<and> ir_queue s2 = None)"
proof -
  have inv: "ir_inv items s'"
    using assms(3,2)
  proof (induction rule: rtranclp_induct)
    case (step y z)
    then show ?case
      by (auto elim!: ir_stepE intro: send_keeps [OF assms(1)] task_keeps [OF assms(1)] deinit_begin_keeps [OF assms(1)])
  qed
  then obtain q where q: "ir_queue s' = Some q" "live_payloads s' = queued_payloads (items q)"
    by (auto simp: ir_inv_def)
  then obtain q' where "drain_payloads ops q (live_payloads s') = Some (q', 0)"
    using drain_payloads_correct [OF assms(1), of q 0] by auto
  then show ?thesis
    using inv q by (simp add: ir_deinit_end_def ir_blaster_driver_unsafe_deinit_def)
qed

definition ex_ir_driver :: "(nat \<times> ir_blaster_data list) ir_driver" where
  "ex_ir_driver = \<lparr>ir_queue = Some (5, []), ir_initialized = True, abort_flag = False, exit_sem = False, ir_task = True,
     ir_tx_chan = True, live_payloads = 0, ir_sent = []\<rparr>"

lemma ir_no_leak_witness:
  "\<exists>s' s2. ir_blaster_driver_send_data True list_queue (Some ex_ir) ex_ir_driver = Some (True, s') \<and>
     live_payloads s' = 1 \<and> ir_deinit_end list_queue True s' = Some s2 \<and> live_payloads s2 = 0"
proof -
  let ?s' = "ex_ir_driver\<lparr>ir_queue := Some (5, [ex_ir]), live_payloads := 1\<rparr>"
  have s: "ir_blaster_driver_send_data True list_queue (Some ex_ir) ex_ir_driver = Some (True, ?s')"
    by (simp add: ir_blaster_driver_send_data_def ex_ir_driver_def ex_ir_def list_queue_def list_items_def mem_read_def)
  then have "(ir_step (\<lambda>n. None) list_queue)\<^sup>*\<^sup>* ex_ir_driver ?s'"
    by (intro r_into_rtranclp ir_step.send)
  moreover have "ir_inv list_items ex_ir_driver"
    by (simp add: ir_inv_def ex_ir_driver_def list_items_def)
  ultimately show ?thesis
    using ir_no_leak [OF list_queue_spec, of ex_ir_driver "\<lambda>n. None" ?s'] s by auto
qed

end
