(* ===== verification/Storage_Manager.thy ===== *)
theory Storage_Manager
  imports Runtime_Manager
begin

text \<open>
  Per-application storage (\<open>storage_manager.c\<close>). Writes are packed into a work item and carried out later
  by a system worker; reads go to the flash directly. Every application has its own namespace.

  The NVS library is not part of the repository: its operations are the parameter \<open>nvs_ops\<close> over an
  opaque flash state, and \<open>nvs_spec\<close> states their documented effect on the stored blobs. A key argument
  is the characters before the terminating zero.
\<close>

section \<open>Types\<close>

datatype storage_op = STORAGE_OP_SAVE | STORAGE_OP_ERASE_KEY | STORAGE_OP_ERASE_ALL

record storage_work =
  sw_app_id :: byte
  sw_op :: storage_op
  sw_data_len :: byte
  sw_key :: "byte list"
  sw_data :: "byte list"

definition STORAGE_MAX_DATA_SIZE :: nat where "STORAGE_MAX_DATA_SIZE = 220"

datatype nvs_err = NVS_OK | NVS_NOT_FOUND | NVS_NO_FREE_PAGES | NVS_NEW_VERSION_FOUND | NVS_FAIL

type_synonym namespace = "nat list"

record 'n nvs_ops =
  nvs_flash_init_partition :: "'n \<Rightarrow> nvs_err \<times> 'n"
  nvs_flash_erase_partition :: "'n \<Rightarrow> nvs_err \<times> 'n"
  nvs_open :: "namespace \<Rightarrow> bool \<Rightarrow> 'n \<Rightarrow> nvs_err"
  nvs_set_blob :: "namespace \<Rightarrow> byte list \<Rightarrow> byte list \<Rightarrow> 'n \<Rightarrow> nvs_err \<times> 'n"
  nvs_erase_key :: "namespace \<Rightarrow> byte list \<Rightarrow> 'n \<Rightarrow> nvs_err \<times> 'n"
  nvs_erase_all :: "namespace \<Rightarrow> 'n \<Rightarrow> nvs_err \<times> 'n"
  nvs_commit :: "'n \<Rightarrow> nvs_err \<times> 'n"
  nvs_get_blob :: "namespace \<Rightarrow> byte list \<Rightarrow> nat \<Rightarrow> 'n \<Rightarrow> byte list option"
  nvs_entries :: "namespace \<Rightarrow> 'n \<Rightarrow> byte list list"

text \<open>
  \<open>look st ns key\<close> is the blob stored under a key. An operation that reports an error may have changed what it was to change, and
  nothing else.
\<close>

definition nvs_spec :: "'n nvs_ops \<Rightarrow> ('n \<Rightarrow> namespace \<Rightarrow> byte list \<Rightarrow> byte list option) \<Rightarrow> bool" where
  "nvs_spec ops look \<longleftrightarrow>
     (\<forall>ns k d st. \<exists>x. look (snd (nvs_set_blob ops ns k d st)) = (look st)(ns := (look st ns)(k := x)) \<and>
        (fst (nvs_set_blob ops ns k d st) = NVS_OK \<longrightarrow> x = Some d)) \<and>
     (\<forall>ns k st. \<exists>x. look (snd (nvs_erase_key ops ns k st)) = (look st)(ns := (look st ns)(k := x)) \<and>
        (fst (nvs_erase_key ops ns k st) = NVS_OK \<longrightarrow> x = None)) \<and>
     (\<forall>ns st. \<exists>m. look (snd (nvs_erase_all ops ns st)) = (look st)(ns := m) \<and>
        (fst (nvs_erase_all ops ns st) = NVS_OK \<longrightarrow> m = (\<lambda>k. None))) \<and>
     (\<forall>st. look (snd (nvs_commit ops st)) = look st) \<and>
     (\<forall>ns k n st. nvs_get_blob ops ns k n st =
        (case look st ns k of Some d \<Rightarrow> if length d \<le> n then Some d else None | None \<Rightarrow> None)) \<and>
     (\<forall>ns st. distinct (nvs_entries ops ns st) \<and> set (nvs_entries ops ns st) = dom (look st ns))"

section \<open>The packed request\<close>

text \<open>The struct as \<open>memcpy\<close> sees it: three bytes of padding, a four-byte enumeration, three bytes at the end.\<close>

primrec op_code :: "storage_op \<Rightarrow> nat" where
  "op_code STORAGE_OP_SAVE = 0"
| "op_code STORAGE_OP_ERASE_KEY = 1"
| "op_code STORAGE_OP_ERASE_ALL = 2"

definition work_bytes :: "storage_work \<Rightarrow> byte list" where
  "work_bytes w =
     [sw_app_id w, 0, 0, 0, byte_of (op_code (sw_op w)), 0, 0, 0, sw_data_len w] @ sw_key w @ sw_data w @ [0, 0, 0]"

definition op_of_code :: "nat \<Rightarrow> storage_op option" where
  "op_of_code n = (if n = 0 then Some STORAGE_OP_SAVE else if n = 1 then Some STORAGE_OP_ERASE_KEY
     else if n = 2 then Some STORAGE_OP_ERASE_ALL else None)"

definition work_of_bytes :: "byte list \<Rightarrow> storage_work option" where
  "work_of_bytes bs =
     do {
       app \<leftarrow> rd bs 0;
       code \<leftarrow> rd bs 4;
       op \<leftarrow> op_of_code (unat code);
       len \<leftarrow> rd bs 8;
       key \<leftarrow> mem_read bs 9 16;
       data \<leftarrow> mem_read bs 25 STORAGE_MAX_DATA_SIZE;
       Some \<lparr>sw_app_id = app, sw_op = op, sw_data_len = len, sw_key = key, sw_data = data\<rparr>
     }"

definition work_typed :: "storage_work \<Rightarrow> bool" where
  "work_typed w \<longleftrightarrow> length (sw_key w) = 16 \<and> length (sw_data w) = STORAGE_MAX_DATA_SIZE"

lemma work_bytes_roundtrip: "work_typed w \<Longrightarrow> work_of_bytes (work_bytes w) = Some w"
  by (cases "sw_op w")
    (simp_all add: work_of_bytes_def work_bytes_def work_typed_def rd_def mem_read_def op_of_code_def
      STORAGE_MAX_DATA_SIZE_def u8_def nth_Cons')

text \<open>\<open>strncpy\<close> of at most 15 characters into the zeroed key array, and \<open>strnlen\<close>.\<close>

definition key_field :: "byte list \<Rightarrow> byte list" where
  "key_field key = take 15 key @ replicate (16 - length (take 15 key)) 0"

definition strnlen :: "byte list \<Rightarrow> nat \<Rightarrow> nat" where
  "strnlen xs n = length (takeWhile (\<lambda>b. b \<noteq> 0) (take n xs))"

definition key_string :: "byte list \<Rightarrow> byte list" where
  "key_string xs = takeWhile (\<lambda>b. b \<noteq> 0) xs"

section \<open>Operations\<close>

text \<open>\<open>snprintf(ns_name, ..., "app_%03u", app_id)\<close> as character codes.\<close>

definition ns_name :: "byte \<Rightarrow> namespace" where
  "ns_name app =
     [97, 112, 112, 95, 48 + unat app div 100, 48 + unat app div 10 mod 10, 48 + unat app mod 10]"

definition storage_manager_init :: "'n nvs_ops \<Rightarrow> bool \<Rightarrow> 'n \<Rightarrow> bool \<times> 'n" where
  "storage_manager_init nvs initialized st =
     (if initialized then (True, st)
      else
        let (err, st1) = nvs_flash_init_partition nvs st;
            (err2, st2) =
              (if err = NVS_NO_FREE_PAGES \<or> err = NVS_NEW_VERSION_FOUND then
                 let (e, st') = nvs_flash_erase_partition nvs st1 in
                 if e = NVS_OK then nvs_flash_init_partition nvs st' else (err, st')
               else (err, st1))
        in (err2 = NVS_OK, st2))"

definition storage_manager_deinit :: "bool \<Rightarrow> bool" where
  "storage_manager_deinit initialized = False"

definition storage_manager_execute_work :: "'n nvs_ops \<Rightarrow> byte list option \<Rightarrow> 'n \<Rightarrow> 'n option" where
  "storage_manager_execute_work nvs arg st =
     (case arg of
        None \<Rightarrow> Some st
      | Some bytes \<Rightarrow> do {
          work \<leftarrow> work_of_bytes bytes;
          let ns = ns_name (sw_app_id work);
          if nvs_open nvs ns True st \<noteq> NVS_OK then Some st
          else case sw_op work of
            STORAGE_OP_SAVE \<Rightarrow>
              if strnlen (sw_key work) 16 \<le> 15 then do {
                d \<leftarrow> mem_read (sw_data work) 0 (unat (sw_data_len work));
                let (err, st1) = nvs_set_blob nvs ns (key_string (sw_key work)) d st;
                Some (if err = NVS_OK then snd (nvs_commit nvs st1) else st1)
              }
              else Some st
          | STORAGE_OP_ERASE_KEY \<Rightarrow>
              if strnlen (sw_key work) 16 \<le> 15 then
                let (err, st1) = nvs_erase_key nvs ns (key_string (sw_key work)) st
                in Some (if err = NVS_OK then snd (nvs_commit nvs st1) else st1)
              else Some st
          | STORAGE_OP_ERASE_ALL \<Rightarrow>
              let (err, st1) = nvs_erase_all nvs ns st
              in Some (if err = NVS_OK then snd (nvs_commit nvs st1) else st1)
        })"

text \<open>A request becomes a system work item; \<open>f\<close> is the identity of \<open>storage_manager_execute_work\<close>.\<close>

definition storage_item :: "'f \<Rightarrow> storage_work \<Rightarrow> 'f work_item" where
  "storage_item f w = \<lparr>wi_handler = Some (Work_fn f), wi_type = WORK_TYPE_SYSTEM, wi_arg = Arg_bytes (work_bytes w), wi_priority = 0\<rparr>"

definition storage_manager_save_key ::
  "rt_env \<Rightarrow> ('f work_item, 'q) queue_ops \<Rightarrow> 'f \<Rightarrow> bool \<Rightarrow> byte \<Rightarrow> byte list option \<Rightarrow> byte list option \<Rightarrow> byte \<Rightarrow>
   ('f, 'q, 'z) runtime_scheme \<Rightarrow> (bool \<times> ('f, 'q, 'z) runtime_scheme) option" where
  "storage_manager_save_key env ops f initialized app_id keyp datap len s =
     (if \<not> initialized then Some (False, s)
      else case (keyp, datap) of
        (Some key, Some data) \<Rightarrow>
          if strnlen key 16 > 15 \<or> unat len > STORAGE_MAX_DATA_SIZE then Some (False, s)
          else do {
            src \<leftarrow> mem_read data 0 (unat len);
            dst \<leftarrow> mem_write (replicate STORAGE_MAX_DATA_SIZE 0) 0 src;
            schedule_system_work env ops
              (Some (storage_item f \<lparr>sw_app_id = app_id, sw_op = STORAGE_OP_SAVE, sw_data_len = len,
                                     sw_key = key_field key, sw_data = dst\<rparr>)) s
          }
      | _ \<Rightarrow> Some (False, s))"

definition storage_manager_erase_key ::
  "rt_env \<Rightarrow> ('f work_item, 'q) queue_ops \<Rightarrow> 'f \<Rightarrow> bool \<Rightarrow> byte \<Rightarrow> byte list option \<Rightarrow>
   ('f, 'q, 'z) runtime_scheme \<Rightarrow> (bool \<times> ('f, 'q, 'z) runtime_scheme) option" where
  "storage_manager_erase_key env ops f initialized app_id keyp s =
     (if \<not> initialized then Some (False, s)
      else case keyp of
        None \<Rightarrow> Some (False, s)
      | Some key \<Rightarrow>
          if strnlen key 16 > 15 then Some (False, s)
          else schedule_system_work env ops
                 (Some (storage_item f \<lparr>sw_app_id = app_id, sw_op = STORAGE_OP_ERASE_KEY, sw_data_len = 0,
                                        sw_key = key_field key, sw_data = replicate STORAGE_MAX_DATA_SIZE 0\<rparr>)) s)"

definition storage_manager_erase_all ::
  "rt_env \<Rightarrow> ('f work_item, 'q) queue_ops \<Rightarrow> 'f \<Rightarrow> bool \<Rightarrow> byte \<Rightarrow>
   ('f, 'q, 'z) runtime_scheme \<Rightarrow> (bool \<times> ('f, 'q, 'z) runtime_scheme) option" where
  "storage_manager_erase_all env ops f initialized app_id s =
     (if \<not> initialized then Some (False, s)
      else schedule_system_work env ops
             (Some (storage_item f \<lparr>sw_app_id = app_id, sw_op = STORAGE_OP_ERASE_ALL, sw_data_len = 0,
                                    sw_key = replicate 16 0, sw_data = replicate STORAGE_MAX_DATA_SIZE 0\<rparr>)) s)"

text \<open>Reading: the destination buffer (with the length the caller passes) and the new value of \<open>*len\<close>.\<close>

definition storage_manager_retrieve_key ::
  "'n nvs_ops \<Rightarrow> bool \<Rightarrow> byte \<Rightarrow> byte list option \<Rightarrow> byte list option \<Rightarrow> byte option \<Rightarrow> 'n \<Rightarrow>
   (bool \<times> byte list option \<times> byte option) option" where
  "storage_manager_retrieve_key nvs initialized app_id keyp destp lenp st =
     (if \<not> initialized then Some (False, destp, lenp)
      else case (keyp, destp, lenp) of
        (Some key, Some dest, Some len) \<Rightarrow>
          if strnlen key 16 > 15 \<or> unat len > STORAGE_MAX_DATA_SIZE then Some (False, destp, lenp)
          else if nvs_open nvs (ns_name app_id) False st \<noteq> NVS_OK then Some (False, destp, lenp)
          else (case nvs_get_blob nvs (ns_name app_id) (key_string key) (unat len) st of
                  None \<Rightarrow> Some (False, destp, lenp)
                | Some d \<Rightarrow> do {
                    dest' \<leftarrow> mem_write dest 0 d;
                    Some (True, Some dest', Some (byte_of (length d)))
                  })
      | _ \<Rightarrow> Some (False, destp, lenp))"

text \<open>The blobs handed to the callback, in the order of the entries.\<close>

definition storage_manager_retrieve_all ::
  "'n nvs_ops \<Rightarrow> bool \<Rightarrow> byte \<Rightarrow> bool \<Rightarrow> 'n \<Rightarrow> bool \<times> (byte list \<times> byte list \<times> byte) list" where
  "storage_manager_retrieve_all nvs initialized app_id callback st =
     (if \<not> initialized \<or> \<not> callback then (False, [])
      else
        let ns = ns_name app_id; keys = nvs_entries nvs ns st in
        if keys = [] then (False, [])
        else if nvs_open nvs ns False st \<noteq> NVS_OK then (False, [])
        else (True, List.map_filter (\<lambda>k. map_option (\<lambda>d. (k, d, byte_of (length d)))
                                           (nvs_get_blob nvs ns k STORAGE_MAX_DATA_SIZE st)) keys))"

definition storage_manager_get_app_storage_size :: "'n nvs_ops \<Rightarrow> (byte list \<Rightarrow> nat option) \<Rightarrow> bool \<Rightarrow> byte \<Rightarrow> 'n \<Rightarrow> nat" where
  "storage_manager_get_app_storage_size nvs blob_size initialized app_id st =
     (if \<not> initialized then 0
      else
        let ns = ns_name app_id; keys = nvs_entries nvs ns st in
        if keys = [] then 0
        else if nvs_open nvs ns False st \<noteq> NVS_OK then 0
        else foldl (\<lambda>total_size k. u32 (total_size + (case blob_size k of None \<Rightarrow> 0 | Some n \<Rightarrow> n))) 0 keys)"

definition CORE_SYSTEM_APP_ID :: byte where "CORE_SYSTEM_APP_ID = 2"

text \<open>What the storage manager needs: the runtime's environment and queues, the flash and whether it is initialised.\<close>

record ('f, 'q, 'n) store_env =
  se_rt :: rt_env
  se_ops :: "('f work_item, 'q) queue_ops"
  se_work_fn :: 'f
  se_initialized :: bool
  se_nvs :: "'n nvs_ops"

section \<open>Namespaces are separate\<close>

lemma ns_name_inj: "ns_name a = ns_name b \<Longrightarrow> a = b"
proof -
  assume "ns_name a = ns_name b"
  then have "unat a div 100 = unat b div 100" "unat a div 10 mod 10 = unat b div 10 mod 10" "unat a mod 10 = unat b mod 10"
    by (simp_all add: ns_name_def)
  moreover have "n = 100 * (n div 100) + 10 * (n div 10 mod 10) + n mod 10" for n :: nat
    using div_mult_mod_eq [of n 10] div_mult_mod_eq [of "n div 10" 10] div_mult2_eq [of n 10 10, simplified] by linarith
  ultimately have "unat a = unat b"
    by metis
  then show "a = b"
    by (simp add: word_unat_eq_iff)
qed

lemma nvs_effects:
  assumes "nvs_spec nvs look"
  shows "nvs_set_blob nvs ns k d st = (e, st') \<Longrightarrow> \<exists>x. look st' = (look st)(ns := (look st ns)(k := x)) \<and> (e = NVS_OK \<longrightarrow> x = Some d)"
    and "nvs_erase_key nvs ns k st = (e, st') \<Longrightarrow> \<exists>x. look st' = (look st)(ns := (look st ns)(k := x)) \<and> (e = NVS_OK \<longrightarrow> x = None)"
    and "nvs_erase_all nvs ns st = (e, st') \<Longrightarrow> \<exists>m. look st' = (look st)(ns := m) \<and> (e = NVS_OK \<longrightarrow> m = (\<lambda>k. None))"
    and "look (snd (nvs_commit nvs st)) = look st"
    and "nvs_get_blob nvs ns k n st = (case look st ns k of Some d \<Rightarrow> if length d \<le> n then Some d else None | None \<Rightarrow> None)"
  using assms unfolding nvs_spec_def by (metis fst_conv snd_conv)+

text \<open>The flash after a blob has been written and committed.\<close>

definition flash_written :: "'n nvs_ops \<Rightarrow> namespace \<Rightarrow> byte list \<Rightarrow> byte list \<Rightarrow> 'n \<Rightarrow> 'n" where
  "flash_written nvs ns k d st = snd (nvs_commit nvs (snd (nvs_set_blob nvs ns k d st)))"

text \<open>
  The storage of an application is its own. Whatever request a worker carries out, the blobs of
  every application other than the one named in the request stay as they are (the namespaces of two
  applications never coincide).
\<close>

lemma storage_isolated:
  assumes "nvs_spec nvs look" and "work_of_bytes bytes = Some w" and "storage_manager_execute_work nvs (Some bytes) st = Some st'"
    and "app \<noteq> sw_app_id w"
  shows "look st' (ns_name app) = look st (ns_name app)"
proof -
  let ?ns = "ns_name (sw_app_id w)"
  have ns: "ns_name app \<noteq> ?ns"
    using assms(4) ns_name_inj by blast
  obtain e1 st1 where 1: "nvs_erase_key nvs ?ns (key_string (sw_key w)) st = (e1, st1)"
    by (cases "nvs_erase_key nvs ?ns (key_string (sw_key w)) st")
  obtain e2 st2 where 2: "nvs_erase_all nvs ?ns st = (e2, st2)"
    by (cases "nvs_erase_all nvs ?ns st")
  obtain e3 st3 where 3: "nvs_set_blob nvs ?ns (key_string (sw_key w)) (take (unat (sw_data_len w)) (sw_data w)) st = (e3, st3)"
    by (cases "nvs_set_blob nvs ?ns (key_string (sw_key w)) (take (unat (sw_data_len w)) (sw_data w)) st")
  have eff: "look (snd (nvs_commit nvs t)) = look t" "look st1 (ns_name app) = look st (ns_name app)"
    "look st2 (ns_name app) = look st (ns_name app)" "look st3 (ns_name app) = look st (ns_name app)" for t
    using nvs_effects(4) [OF assms(1)] nvs_effects(2) [OF assms(1) 1] nvs_effects(3) [OF assms(1) 2] nvs_effects(1) [OF assms(1) 3] ns
    by auto
  show ?thesis
    using assms(2,3) ns 1 2 3 eff
    by (cases "sw_op w") (auto simp: storage_manager_execute_work_def Let_def mem_read_def split: if_splits)
qed

section \<open>Saving and reading back\<close>

lemma takeWhile_nonzero: "0 \<notin> set key \<Longrightarrow> takeWhile (\<lambda>b. b \<noteq> 0) (key @ replicate n (0 :: byte)) = key"
  by (cases n) (auto simp: takeWhile_append takeWhile_eq_all_conv)

lemma key_roundtrip:
  assumes "0 \<notin> set key" and "length key \<le> 15"
  shows "key_string (key_field key) = key" and "strnlen (key_field key) 16 \<le> 15" and "length (key_field key) = 16"
    and "strnlen key 16 \<le> 15" and "key_string key = key"
proof -
  have f: "key_field key = key @ replicate (16 - length key) 0"
    using assms(2) by (simp add: key_field_def)
  then show ks: "key_string (key_field key) = key"
    using takeWhile_nonzero [OF assms(1)] by (simp add: key_string_def)
  show "length (key_field key) = 16"
    using f assms(2) by simp
  then show "strnlen (key_field key) 16 \<le> 15"
    using ks assms(2) by (simp add: strnlen_def key_string_def)
  show "strnlen key 16 \<le> 15"
    using length_takeWhile_le [of "\<lambda>b. b \<noteq> 0" "take 16 key"] assms(2) by (simp add: strnlen_def)
  show "key_string key = key"
    using assms(1) by (auto simp: key_string_def takeWhile_eq_all_conv)
qed

definition save_work :: "byte \<Rightarrow> byte list \<Rightarrow> byte list \<Rightarrow> byte \<Rightarrow> storage_work" where
  "save_work app key data len = \<lparr>sw_app_id = app, sw_op = STORAGE_OP_SAVE, sw_data_len = len, sw_key = key_field key,
     sw_data = take (unat len) data @ replicate (STORAGE_MAX_DATA_SIZE - unat len) 0\<rparr>"

lemma save_schedules:
  assumes "0 \<notin> set key" and "length key \<le> 15" and "unat len \<le> STORAGE_MAX_DATA_SIZE" and "unat len \<le> length data"
  shows "storage_manager_save_key env ops f True app (Some key) (Some data) len s =
     schedule_system_work env ops (Some (storage_item f (save_work app key data len))) s"
  using assms key_roundtrip(4) [OF assms(1,2)]
  by (simp add: storage_manager_save_key_def mem_read_def mem_write_def save_work_def)

lemma save_executed:
  assumes nvs: "nvs_spec nvs look" and key: "0 \<notin> set key" "length key \<le> 15"
    and len: "unat len \<le> STORAGE_MAX_DATA_SIZE" "unat len \<le> length data"
    and ok: "nvs_open nvs (ns_name app) True st = NVS_OK"
      "fst (nvs_set_blob nvs (ns_name app) key (take (unat len) data) st) = NVS_OK"
  shows "storage_manager_execute_work nvs (Some (work_bytes (save_work app key data len))) st =
       Some (flash_written nvs (ns_name app) key (take (unat len) data) st) \<and>
     look (flash_written nvs (ns_name app) key (take (unat len) data) st) (ns_name app) key = Some (take (unat len) data)"
proof -
  let ?w = "save_work app key data len"
  have typed: "work_typed ?w"
    using len key_roundtrip(3) [OF key] by (simp add: work_typed_def save_work_def)
  obtain st1 where st1: "nvs_set_blob nvs (ns_name app) key (take (unat len) data) st = (NVS_OK, st1)"
    using ok(2) by (cases "nvs_set_blob nvs (ns_name app) key (take (unat len) data) st") auto
  have "look (snd (nvs_commit nvs st1)) (ns_name app) key = Some (take (unat len) data)"
    using nvs_effects(1) [OF nvs st1] nvs_effects(4) [OF nvs] by auto
  then show ?thesis
    using st1 ok(1) len key_roundtrip [OF key] work_bytes_roundtrip [OF typed]
    by (simp add: storage_manager_execute_work_def mem_read_def save_work_def flash_written_def)
qed

text \<open>
  C14: what an application saves it reads back. A save with a key of at most 15 characters and at most 220
  bytes schedules a work item; once a worker has carried it out on a flash that can be opened and accepts the write, a
  read with a large enough buffer reports success and returns exactly those bytes and their number, if the namespace that has just been
  written can be opened for reading.
\<close>

theorem storage_save_retrieve:
  assumes "nvs_spec nvs look" and "0 \<notin> set key" and "length key \<le> 15" and "unat len \<le> STORAGE_MAX_DATA_SIZE"
    and "unat len \<le> length data" and "nvs_open nvs (ns_name app) True st = NVS_OK"
    and "fst (nvs_set_blob nvs (ns_name app) key (take (unat len) data) st) = NVS_OK"
    and "nvs_open nvs (ns_name app) False (flash_written nvs (ns_name app) key (take (unat len) data) st) = NVS_OK"
    and "unat len \<le> unat cap" and "unat cap \<le> STORAGE_MAX_DATA_SIZE" and "length dest = unat cap"
  shows "\<exists>w st'. storage_manager_save_key env ops f True app (Some key) (Some data) len s =
         schedule_system_work env ops (Some (storage_item f w)) s \<and>
     storage_manager_execute_work nvs (Some (work_bytes w)) st = Some st' \<and>
     storage_manager_retrieve_key nvs True app (Some key) (Some dest) (Some cap) st' =
       Some (True, Some (take (unat len) data @ drop (unat len) dest), Some len)"
proof -
  let ?st = "flash_written nvs (ns_name app) key (take (unat len) data) st"
  have w: "storage_manager_execute_work nvs (Some (work_bytes (save_work app key data len))) st = Some ?st"
    "look ?st (ns_name app) key = Some (take (unat len) data)"
    using save_executed [OF assms(1-7)] by blast+
  have "storage_manager_retrieve_key nvs True app (Some key) (Some dest) (Some cap) ?st =
       Some (True, Some (take (unat len) data @ drop (unat len) dest), Some len)"
    using assms(5,8-11) key_roundtrip(4,5) [OF assms(2,3)] w(2) nvs_effects(5) [OF assms(1)]
    by (simp add: storage_manager_retrieve_key_def mem_write_def)
  then show ?thesis
    using save_schedules [OF assms(2-5), of env ops f app s] w(1)
    by (intro exI [of _ "save_work app key data len"] exI [of _ ?st]) simp
qed

text \<open>A flash that is a map satisfies the specification. A namespace in which nothing is stored cannot be opened for reading.\<close>

type_synonym map_flash = "(namespace \<times> byte list \<times> byte list) list"

definition flash_look :: "map_flash \<Rightarrow> namespace \<Rightarrow> byte list \<Rightarrow> byte list option" where
  "flash_look st ns k = map_of (map (\<lambda>(n, k, d). ((n, k), d)) st) (ns, k)"

definition map_nvs :: "map_flash nvs_ops" where
  "map_nvs = \<lparr>nvs_flash_init_partition = (\<lambda>st. (NVS_OK, st)), nvs_flash_erase_partition = (\<lambda>st. (NVS_OK, [])),
     nvs_open = (\<lambda>ns rw st. if rw \<or> ns \<in> fst ` set st then NVS_OK else NVS_NOT_FOUND), nvs_set_blob = (\<lambda>ns k d st. (NVS_OK, (ns, k, d) # st)),
     nvs_erase_key = (\<lambda>ns k st. (NVS_OK, filter (\<lambda>(n, j, d). \<not> (n = ns \<and> j = k)) st)),
     nvs_erase_all = (\<lambda>ns st. (NVS_OK, filter (\<lambda>(n, j, d). n \<noteq> ns) st)), nvs_commit = (\<lambda>st. (NVS_OK, st)),
     nvs_get_blob = (\<lambda>ns k n st. case flash_look st ns k of Some d \<Rightarrow> if length d \<le> n then Some d else None | None \<Rightarrow> None),
     nvs_entries = (\<lambda>ns st. remdups (map (\<lambda>(n, k, d). k) (filter (\<lambda>(n, k, d). n = ns) st)))\<rparr>"

lemma flash_look_filter:
  "flash_look (filter (\<lambda>(n, k, d). P n k) st) ns k = (if P ns k then flash_look st ns k else None)"
  by (induction st) (auto simp: flash_look_def)

lemma flash_look_dom: "dom (flash_look st ns) = (\<lambda>(n, k, d). k) ` {e \<in> set st. fst e = ns}"
  by (induction st) (auto simp: flash_look_def dom_def image_iff split: if_splits)

lemma map_nvs_spec: "nvs_spec map_nvs flash_look"
proof -
  have "flash_look (filter (\<lambda>(n, j, d). \<not> (n = ns \<and> j = k)) st) = (flash_look st)(ns := (flash_look st ns)(k := None))" for ns k st
    by (intro ext) (simp add: flash_look_filter)
  moreover have "flash_look (filter (\<lambda>(n, j, d). n \<noteq> ns) st) = (flash_look st)(ns := (\<lambda>k. None))" for ns st
    by (intro ext) (simp add: flash_look_filter)
  moreover have "flash_look ((ns, k, d) # st) = (flash_look st)(ns := (flash_look st ns)(k := Some d))" for ns k d st
    by (intro ext) (simp add: flash_look_def)
  moreover have "set (remdups (map (\<lambda>(n, k, d). k) (filter (\<lambda>(n, k, d). n = ns) st))) = dom (flash_look st ns)" for ns st
    unfolding flash_look_dom by force
  ultimately show ?thesis
    unfolding nvs_spec_def by (simp add: map_nvs_def del: set_remdups set_map set_filter)
qed

definition ex_store :: "(nat, nat \<times> nat work_item list, map_flash) store_env" where
  "ex_store = \<lparr>se_rt = ex_env, se_ops = list_queue, se_work_fn = 7, se_initialized = True, se_nvs = map_nvs\<rparr>"

lemma storage_isolated_witness:
  "\<exists>st'. storage_manager_execute_work map_nvs (Some (work_bytes (save_work 3 [65] [1, 2] 2))) [] = Some st' \<and>
     flash_look st' (ns_name 4) = flash_look [] (ns_name 4)"
proof -
  obtain st' where st': "storage_manager_execute_work map_nvs (Some (work_bytes (save_work 3 [65] [1, 2] 2))) [] = Some st'"
    using save_executed [OF map_nvs_spec, of "[65]" 2 "[1, 2]" 3 "[]"] by (auto simp: map_nvs_def STORAGE_MAX_DATA_SIZE_def)
  have "work_typed (save_work 3 [65] [1, 2] 2)"
    by (simp add: work_typed_def save_work_def key_field_def STORAGE_MAX_DATA_SIZE_def)
  then have "work_of_bytes (work_bytes (save_work 3 [65] [1, 2] 2)) = Some (save_work 3 [65] [1, 2] 2)"
    by (rule work_bytes_roundtrip)
  then show ?thesis
    using storage_isolated [OF map_nvs_spec _ st', of "save_work 3 [65] [1, 2] 2" 4] st' by (auto simp: save_work_def)
qed

theorem storage_save_retrieve_witness:
  "\<exists>w st'. storage_manager_save_key ex_env list_queue (7 :: nat) True 3 (Some [65]) (Some [1, 2]) 2 rt_static =
         schedule_system_work ex_env list_queue (Some (storage_item 7 w)) rt_static \<and>
     storage_manager_execute_work map_nvs (Some (work_bytes w)) [] = Some st' \<and>
     storage_manager_retrieve_key map_nvs True 3 (Some [65]) (Some [9, 9, 9]) (Some 3) st' = Some (True, Some [1, 2, 9], Some 2)"
  using storage_save_retrieve [OF map_nvs_spec, of "[65]" 2 "[1, 2]" 3 "[]" 3 "[9, 9, 9]" ex_env list_queue 7 rt_static]
  by (simp add: map_nvs_def STORAGE_MAX_DATA_SIZE_def flash_written_def)

end
