(* ===== verification/Float_Param.thy ===== *)
theory Float_Param
  imports Prelude "HOL-Library.Monad_Syntax" Complex_Main
begin

text \<open>
  Single-precision arithmetic as a parameter of the model: the components that compute with floats (motion
  engine, battery, pressure sensor) take the operations as an argument, so that what is proved holds for
  every rounding. The real numbers are one instance.
\<close>

section \<open>Single-precision arithmetic as a parameter\<close>

record 'f float_ops =
  f_add :: "'f \<Rightarrow> 'f \<Rightarrow> 'f"
  f_sub :: "'f \<Rightarrow> 'f \<Rightarrow> 'f"
  f_mul :: "'f \<Rightarrow> 'f \<Rightarrow> 'f"
  f_div :: "'f \<Rightarrow> 'f \<Rightarrow> 'f"
  f_sqrt :: "'f \<Rightarrow> 'f"
  f_lt :: "'f \<Rightarrow> 'f \<Rightarrow> bool"
  f_le :: "'f \<Rightarrow> 'f \<Rightarrow> bool"
  f_eq :: "'f \<Rightarrow> 'f \<Rightarrow> bool"
  f_int :: "int \<Rightarrow> 'f"
  f_lit :: "int \<Rightarrow> nat \<Rightarrow> 'f"
  f_inf :: 'f
  f_ninf :: 'f
  f_u8 :: "'f \<Rightarrow> nat"
  f_s32 :: "'f \<Rightarrow> int"
  f_pow :: "'f \<Rightarrow> 'f \<Rightarrow> 'f"

text \<open>
  \<open>f_int\<close> converts an integer, \<open>f_lit m e\<close> is the literal with mantissa \<open>m\<close> and \<open>e\<close> decimals
  (\<open>0.7f\<close> is \<open>f_lit 7 1\<close>) \<open>f_u8\<close> and \<open>f_s32\<close> are the conversions to \<open>uint8_t\<close> and \<open>int\<close>,
  and \<open>f_pow\<close> is \<open>powf\<close>.
\<close>

definition real_ops :: "real float_ops" where
  "real_ops = \<lparr>f_add = (+), f_sub = (-), f_mul = (*), f_div = (/), f_sqrt = sqrt, f_lt = (<), f_le = (\<le>), f_eq = (=),
     f_int = of_int, f_lit = (\<lambda>m e. of_int m / 10 ^ e), f_inf = 1000000, f_ninf = - 1000000,
     f_u8 = (\<lambda>x. nat (floor x)), f_s32 = (\<lambda>x. if x < 0 then ceiling x else floor x), f_pow = (powr)\<rparr>"

end
