(* ===== verification/Motion_Signal.thy ===== *)
theory Motion_Signal
  imports Float_Param
begin

text \<open>
  The data of the motion engine (\<open>components/motion_stage1_engine\<close>): vectors, tuning parameters, the
  context, the sample history of \<open>utils.c\<close> and the no-motion detector of \<open>no_motion_algo.c\<close>.

  Single-precision arithmetic is an argument of the definitions, so that the theorems hold for every
  rounding. What a proof needs of it (small integers and their halves are exact) is the contract
  \<open>float_arith\<close>, which the real numbers satisfy at the end of the theory. An abort (a failed assertion)
  and an access outside an array are the value \<open>None\<close>.
\<close>

section \<open>What the proofs need of the arithmetic\<close>

locale float_arith =
  fixes fo :: "'f float_ops"
  assumes int_u8: "n < 256 \<Longrightarrow> f_u8 fo (f_int fo (int n)) = n"
    and half_u8: "n < 512 \<Longrightarrow> f_u8 fo (f_div fo (f_int fo (int n)) (f_lit fo 2 0)) = n div 2"
    and int_le: "a < 256 \<Longrightarrow> b < 256 \<Longrightarrow> f_le fo (f_int fo (int a)) (f_int fo (int b)) \<longleftrightarrow> a \<le> b"
    and confidence_above_start: "\<not> f_lt fo (f_lit fo 7 1) (f_lit fo (- 2) 0)"
    and zero_confidence: "\<not> f_le fo (f_lit fo 8 1) (f_mul fo c (f_lit fo 0 0))"
      "\<not> f_lt fo (f_lit fo 9 1) (f_mul fo c (f_lit fo 0 0))"
    and mul_one: "f_mul fo c (f_lit fo 1 0) = c"
    and lt_not_le: "f_lt fo x y \<Longrightarrow> \<not> f_le fo y x"

section \<open>Types\<close>

datatype motion_state = MOTION_MODE_ACCEL_ONLY | MOTION_MODE_ACCEL_GYRO

record 'f motion_vec3 =
  vec_x :: 'f
  vec_y :: 'f
  vec_z :: 'f

record imu_stage1_result =
  no_motion :: bool
  res_steps :: nat

record 'f motion_ring =
  mr_data :: "'f list option"
  mr_elem_size :: nat
  mr_max_size :: nat
  mr_elements :: nat
  mr_read_idx :: nat
  mr_write_idx :: nat

record 'f stage1_ctx =
  motion_mode :: motion_state
  accel_prev :: "'f motion_vec3"
  gravity_prev :: "'f motion_vec3"
  vertical_accel_mod_history :: "'f motion_ring"
  no_motion_window_count :: nat
  pending_steps :: nat
  samples_since_valid_step :: nat
  is_walking :: bool

record 'f stage1_tuning_params =
  MAX_VERTICAL_ACCEL_HISTORY_SIZE :: nat
  MIN_SAMPLES_BEFORE_STEP_INFERENCE :: nat
  MIN_SAMPLES_BETWEEN_STEPS :: nat
  MAX_SAMPLES_BETWEEN_STEPS :: nat
  STEP_MIN_VARIANCE_ACTIVITY_FOR_STEP :: 'f
  STEP_MIN_PROMINENCE_FOR_PEAK :: 'f
  VERTICAL_ACCEL_ALPHA :: 'f
  GRAVITY_ALPHA :: 'f
  ACCEL_STABLE_THRESHOLD :: 'f
  MAX_ACCEL_UNSTABLE_THRESHOLD_DENSITY :: 'f
  MAX_JERK_THRESHOLD_PER_SAMPLE :: 'f
  MAX_STEP_PERIODICITY_DEVIATION :: 'f
  MIN_WINDOW_NO_MOTION_THRESHOLD :: nat
  STEP_MIN_ACCEPTABLE_CONSECUTIVE_STEPS :: nat
  STEP_MAX_SAMPLES_BEFORE_STATE_CHANGE :: nat

definition STAGE1_CANDIDATE_BUFFER_SIZE :: nat where "STAGE1_CANDIDATE_BUFFER_SIZE = 126"
definition STAGE1_CORELATION_BUFFER_SIZE :: nat where "STAGE1_CORELATION_BUFFER_SIZE = 126"
definition sizeof_float :: nat where "sizeof_float = 4"

section \<open>The sample history\<close>

text \<open>
  The buffer holds floats, so its memory is a list of slots; \<open>mem\<close> is what \<open>malloc\<close> returns
  (\<open>None\<close> for \<open>NULL\<close>).
\<close>

definition empty_motion_ring :: "'f motion_ring" where
  "empty_motion_ring = \<lparr>mr_data = None, mr_elem_size = 0, mr_max_size = 0, mr_elements = 0, mr_read_idx = 0, mr_write_idx = 0\<rparr>"

definition ring_buffer_init :: "'f list option \<Rightarrow> nat \<Rightarrow> nat \<Rightarrow> 'f motion_ring \<Rightarrow> bool \<times> 'f motion_ring" where
  "ring_buffer_init mem sz elem_size out =
     (case mem of
        None \<Rightarrow> (False, out\<lparr>mr_data := None\<rparr>)
      | Some slots \<Rightarrow>
          (True, out\<lparr>mr_data := Some slots, mr_read_idx := 0, mr_write_idx := 0, mr_elements := 0,
                     mr_elem_size := elem_size, mr_max_size := sz\<rparr>))"

definition ring_buffer_deinit :: "'f motion_ring \<Rightarrow> bool \<times> 'f motion_ring" where
  "ring_buffer_deinit buf = (case mr_data buf of None \<Rightarrow> (False, buf) | Some _ \<Rightarrow> (True, empty_motion_ring))"

definition ring_buffer_pointer_at_index :: "'f motion_ring \<Rightarrow> nat \<Rightarrow> nat" where
  "ring_buffer_pointer_at_index buf i = u8 i"

definition ring_buffer_insert :: "'f motion_ring \<Rightarrow> 'f \<Rightarrow> 'f motion_ring option" where
  "ring_buffer_insert buf elem =
     do {
       slots \<leftarrow> mr_data buf;
       b1 \<leftarrow> (if mr_elements buf < mr_max_size buf then Some (buf\<lparr>mr_elements := mr_elements buf + 1\<rparr>)
             else if mr_read_idx buf = mr_write_idx buf
             then Some (buf\<lparr>mr_read_idx := if mr_read_idx buf + 1 \<ge> mr_max_size buf then 0 else mr_read_idx buf + 1\<rparr>)
             else None);
       slots' \<leftarrow> mem_write slots (ring_buffer_pointer_at_index b1 (mr_write_idx b1)) [elem];
       Some (b1\<lparr>mr_data := Some slots',
                mr_write_idx := if mr_write_idx b1 + 1 \<ge> mr_max_size b1 then 0 else mr_write_idx b1 + 1\<rparr>)
     }"

definition ring_buffer_get_element_at_index :: "'f motion_ring \<Rightarrow> nat \<Rightarrow> nat option" where
  "ring_buffer_get_element_at_index buf idx =
     (if u8 idx < mr_elements buf
      then let pos = mr_read_idx buf + u8 idx
           in Some (ring_buffer_pointer_at_index buf (if pos \<ge> mr_max_size buf then pos - mr_max_size buf else pos))
      else None)"

text \<open>Dereferencing the pointer that the function returns.\<close>

definition ring_read :: "'f motion_ring \<Rightarrow> nat \<Rightarrow> 'f option" where
  "ring_read buf idx =
     do {
       p \<leftarrow> ring_buffer_get_element_at_index buf idx;
       slots \<leftarrow> mr_data buf;
       rd slots p
     }"

section \<open>Vectors\<close>

definition squaref :: "'f float_ops \<Rightarrow> 'f \<Rightarrow> 'f" where
  "squaref fo x = f_mul fo x x"

definition vec_mod_square :: "'f float_ops \<Rightarrow> 'f motion_vec3 \<Rightarrow> 'f" where
  "vec_mod_square fo v = f_add fo (f_add fo (squaref fo (vec_x v)) (squaref fo (vec_y v))) (squaref fo (vec_z v))"

definition vec_subtract :: "'f float_ops \<Rightarrow> 'f motion_vec3 \<Rightarrow> 'f motion_vec3 \<Rightarrow> 'f motion_vec3" where
  "vec_subtract fo a b =
     \<lparr>vec_x = f_sub fo (vec_x a) (vec_x b), vec_y = f_sub fo (vec_y a) (vec_y b), vec_z = f_sub fo (vec_z a) (vec_z b)\<rparr>"

definition vec_add :: "'f float_ops \<Rightarrow> 'f motion_vec3 \<Rightarrow> 'f motion_vec3 \<Rightarrow> 'f motion_vec3" where
  "vec_add fo a b =
     \<lparr>vec_x = f_add fo (vec_x a) (vec_x b), vec_y = f_add fo (vec_y a) (vec_y b), vec_z = f_add fo (vec_z a) (vec_z b)\<rparr>"

definition vec_scale :: "'f float_ops \<Rightarrow> 'f motion_vec3 \<Rightarrow> 'f \<Rightarrow> 'f motion_vec3" where
  "vec_scale fo v scalar =
     \<lparr>vec_x = f_mul fo (vec_x v) scalar, vec_y = f_mul fo (vec_y v) scalar, vec_z = f_mul fo (vec_z v) scalar\<rparr>"

definition vec_mod_of_a_minus_b_square :: "'f float_ops \<Rightarrow> 'f motion_vec3 \<Rightarrow> 'f motion_vec3 \<Rightarrow> 'f" where
  "vec_mod_of_a_minus_b_square fo a b = vec_mod_square fo (vec_subtract fo a b)"

definition vec_a_component_on_g :: "'f float_ops \<Rightarrow> 'f motion_vec3 \<Rightarrow> 'f motion_vec3 \<Rightarrow> 'f" where
  "vec_a_component_on_g fo a g =
     (let res = f_add fo (f_add fo (f_mul fo (vec_x a) (vec_x g)) (f_mul fo (vec_y a) (vec_y g))) (f_mul fo (vec_z a) (vec_z g));
          denominator_sq = vec_mod_square fo g
      in if f_le fo denominator_sq (f_lit fo 2 1) then res else f_div fo res denominator_sq)"

definition sample_to_g :: "'f float_ops \<Rightarrow> int \<Rightarrow> int \<Rightarrow> int \<Rightarrow> 'f motion_vec3" where
  "sample_to_g fo x y z =
     \<lparr>vec_x = f_mul fo (f_int fo x) (f_lit fo 2441 7), vec_y = f_mul fo (f_int fo y) (f_lit fo 2441 7),
      vec_z = f_mul fo (f_int fo z) (f_lit fo 2441 7)\<rparr>"

section \<open>The no-motion detector\<close>

definition accel_confidence :: "'f float_ops \<Rightarrow> 'f stage1_tuning_params \<Rightarrow> 'f \<Rightarrow> 'f" where
  "accel_confidence fo params accel_unstability =
     (let one_plus = f_add fo (f_lit fo 1 0) accel_unstability in
      if f_lt fo accel_unstability (MAX_ACCEL_UNSTABLE_THRESHOLD_DENSITY params) then f_div fo (f_lit fo 1 0) one_plus
      else f_div fo (f_lit fo 4 1)
             (squaref fo (squaref fo (f_sub fo one_plus (MAX_ACCEL_UNSTABLE_THRESHOLD_DENSITY params)))))"

definition jerk_confidence :: "'f float_ops \<Rightarrow> 'f stage1_tuning_params \<Rightarrow> 'f \<Rightarrow> 'f" where
  "jerk_confidence fo params jerk_average =
     (if f_lt fo jerk_average (MAX_JERK_THRESHOLD_PER_SAMPLE params) then f_lit fo 1 0
      else f_div fo (f_lit fo 4 1)
             (squaref fo (squaref fo (f_sub fo (f_add fo (f_lit fo 1 0) jerk_average) (MAX_JERK_THRESHOLD_PER_SAMPLE params)))))"

definition stage1_detect_no_motion ::
  "'f float_ops \<Rightarrow> 'f stage1_tuning_params \<Rightarrow> 'f \<Rightarrow> 'f \<Rightarrow> 'f stage1_ctx \<Rightarrow> bool \<times> 'f stage1_ctx" where
  "stage1_detect_no_motion fo params accel_unstability jerk_average ctx =
     (let learning = no_motion_window_count ctx < MIN_WINDOW_NO_MOTION_THRESHOLD params;
          confidence_multiplier = (if learning then f_lit fo 0 0 else f_lit fo 1 0);
          count1 = (if learning then u8 (no_motion_window_count ctx + 1) else no_motion_window_count ctx);
          confidence = f_add fo (f_mul fo (f_lit fo 4 1) (accel_confidence fo params accel_unstability))
                                (f_mul fo (f_lit fo 6 1) (jerk_confidence fo params jerk_average));
          count2 = (if f_lt fo confidence (f_lit fo 8 1) then 0 else count1);
          scaled = f_mul fo confidence confidence_multiplier
      in if f_le fo (f_lit fo 8 1) scaled \<and> f_le fo scaled (f_lit fo 9 1)
         then (False, ctx\<lparr>no_motion_window_count := u8_minus count2 1\<rparr>)
         else (f_lt fo (f_lit fo 9 1) scaled, ctx\<lparr>no_motion_window_count := count2\<rparr>))"

section \<open>The history is the list of the last samples\<close>

definition motion_ring_inv :: "'f motion_ring \<Rightarrow> bool" where
  "motion_ring_inv buf \<longleftrightarrow>
     (case mr_data buf of None \<Rightarrow> False | Some slots \<Rightarrow> length slots = mr_max_size buf) \<and>
     0 < mr_max_size buf \<and> mr_max_size buf < 256 \<and> mr_elements buf \<le> mr_max_size buf \<and>
     mr_read_idx buf < mr_max_size buf \<and>
     mr_write_idx buf = (mr_read_idx buf + mr_elements buf) mod mr_max_size buf"

definition ring_items :: "'f motion_ring \<Rightarrow> 'f list" where
  "ring_items buf = map (\<lambda>i. the (mr_data buf) ! ((mr_read_idx buf + i) mod mr_max_size buf)) [0..<mr_elements buf]"

lemma length_ring_items [simp]: "length (ring_items buf) = mr_elements buf"
  by (simp add: ring_items_def)

lemma wrap_index: "(a :: nat) < m \<Longrightarrow> i \<le> m \<Longrightarrow> (if m \<le> a + i then a + i - m else a + i) = (a + i) mod m"
  by (simp add: mod_if)

lemma ring_read_items:
  assumes "motion_ring_inv buf" and "i < mr_elements buf"
  shows "ring_read buf i = Some (ring_items buf ! i)"
proof -
  obtain slots where d: "mr_data buf = Some slots" "length slots = mr_max_size buf"
    using assms(1) by (auto simp: motion_ring_inv_def split: option.splits)
  have b: "0 < mr_max_size buf" "mr_max_size buf < 256" "i < mr_max_size buf" "mr_read_idx buf < mr_max_size buf"
    using assms by (auto simp: motion_ring_inv_def)
  have p: "(mr_read_idx buf + i) mod mr_max_size buf < mr_max_size buf"
    using b(1) by simp
  then have "u8 ((mr_read_idx buf + i) mod mr_max_size buf) = (mr_read_idx buf + i) mod mr_max_size buf"
    using b(2) by (intro u8_id) (rule less_trans)
  then have "ring_buffer_get_element_at_index buf i = Some ((mr_read_idx buf + i) mod mr_max_size buf)"
    using assms(2) b wrap_index [of "mr_read_idx buf" "mr_max_size buf" i]
    by (simp add: ring_buffer_get_element_at_index_def ring_buffer_pointer_at_index_def Let_def u8_id)
  then show ?thesis
    using d p assms(2) by (simp add: ring_read_def ring_items_def rd_Some)
qed

lemma ring_insert_items:
  assumes "motion_ring_inv buf"
  shows "\<exists>buf'. ring_buffer_insert buf x = Some buf' \<and> motion_ring_inv buf' \<and>
     ring_items buf' = last_n (mr_max_size buf) (ring_items buf @ [x]) \<and>
     mr_max_size buf' = mr_max_size buf \<and> mr_elem_size buf' = mr_elem_size buf"
proof -
  let ?m = "mr_max_size buf" and ?r = "mr_read_idx buf" and ?n = "mr_elements buf"
  let ?w = "(?r + ?n) mod ?m"
  obtain slots where d: "mr_data buf = Some slots" "length slots = ?m"
    using assms by (auto simp: motion_ring_inv_def split: option.splits)
  have b: "0 < ?m" "?m < 256" "?n \<le> ?m" "?r < ?m" "mr_write_idx buf = ?w"
    using assms by (auto simp: motion_ring_inv_def)
  have w: "?w < ?m" using b(1) by simp
  have step: "(if ?m \<le> i + 1 then 0 else i + 1) = (i + 1) mod ?m" if "i < ?m" for i
    using that by (simp add: mod_if)
  have wr: "mem_write slots (u8 ?w) [x] = Some (slots[?w := x])"
    using w b(2) d(2) by (simp add: mem_write_def u8_id upd_conv_take_nth_drop)
  show ?thesis
  proof (cases "?n < ?m")
    case True
    let ?b = "buf\<lparr>mr_elements := ?n + 1, mr_data := Some (slots[?w := x]), mr_write_idx := if ?m \<le> ?w + 1 then 0 else ?w + 1\<rparr>"
    have "ring_buffer_insert buf x = Some ?b"
      using d b True wr by (simp add: ring_buffer_insert_def ring_buffer_pointer_at_index_def)
    moreover have "motion_ring_inv ?b"
      using d b True by (simp add: motion_ring_inv_def step [OF w, simplified] mod_simps)
    moreover have "ring_items ?b = ring_items buf @ [x]"
    proof -
      have "?w \<noteq> (?r + i) mod ?m" if "i < ?n" for i
        using that True b(4) by (auto simp: mod_if split: if_splits)
      then have "slots[?w := x] ! ((?r + i) mod ?m) = slots ! ((?r + i) mod ?m)" if "i < ?n" for i
        using that by simp
      then show ?thesis
        using d w True by (simp add: ring_items_def)
    qed
    ultimately show ?thesis
      using True by (intro exI [of _ ?b]) simp
  next
    case False
    then have n: "?n = ?m" using b(3) by simp
    then have wr_r: "?w = ?r" using b(4) by simp
    let ?b = "buf\<lparr>mr_read_idx := if ?m \<le> ?r + 1 then 0 else ?r + 1, mr_data := Some (slots[?r := x]),
                    mr_write_idx := if ?m \<le> ?r + 1 then 0 else ?r + 1\<rparr>"
    note step_r = step [OF b(4), simplified]
    have "ring_buffer_insert buf x = Some ?b"
      using d b n wr wr_r by (simp add: ring_buffer_insert_def ring_buffer_pointer_at_index_def)
    moreover have "motion_ring_inv ?b"
      using d b n by (simp add: motion_ring_inv_def step_r mod_simps)
    moreover have "ring_items ?b = last_n ?m (ring_items buf @ [x])"
    proof (rule nth_equalityI)
      fix i assume "i < length (ring_items ?b)"
      then have i: "i < ?m" using n by simp
      have "(Suc ?r mod ?m + i) mod ?m = (?r + Suc i) mod ?m"
        by (simp add: mod_simps)
      moreover have "(?r + Suc i) mod ?m = ?r \<longleftrightarrow> Suc i = ?m"
        using i b(4) by (auto simp: mod_if split: if_splits)
      ultimately show "ring_items ?b ! i = last_n ?m (ring_items buf @ [x]) ! i"
        using i n d b(1,4) by (auto simp: ring_items_def step_r last_n_def nth_append nth_list_update)
    qed (simp add: n)
    ultimately show ?thesis
      by (intro exI [of _ ?b]) simp
  qed
qed

lemma ring_init_inv:
  assumes "length slots = sz" and "0 < sz" and "sz < 256"
  shows "\<exists>buf. ring_buffer_init (Some slots) sz e out = (True, buf) \<and> motion_ring_inv buf \<and> ring_items buf = [] \<and>
     mr_max_size buf = sz \<and> mr_elem_size buf = e"
  using assms by (simp add: ring_buffer_init_def motion_ring_inv_def ring_items_def)

section \<open>The no-motion counter\<close>

text \<open>The window counter stays within the learning threshold and never wraps below zero.\<close>

lemma no_motion_counter:
  assumes "float_arith fo" and "no_motion_window_count ctx \<le> MIN_WINDOW_NO_MOTION_THRESHOLD params"
    and "0 < MIN_WINDOW_NO_MOTION_THRESHOLD params" "MIN_WINDOW_NO_MOTION_THRESHOLD params < 256"
    and "stage1_detect_no_motion fo params u j ctx = (r, ctx')"
  shows "no_motion_window_count ctx' \<le> MIN_WINDOW_NO_MOTION_THRESHOLD params"
    and "r \<Longrightarrow> no_motion_window_count ctx = MIN_WINDOW_NO_MOTION_THRESHOLD params"
    and "ctx' = ctx\<lparr>no_motion_window_count := no_motion_window_count ctx'\<rparr>"
proof -
  let ?t = "MIN_WINDOW_NO_MOTION_THRESHOLD params"
  note laws = float_arith.zero_confidence [OF assms(1)] float_arith.mul_one [OF assms(1)]
  note lt = float_arith.lt_not_le [OF assms(1)]
  show "ctx' = ctx\<lparr>no_motion_window_count := no_motion_window_count ctx'\<rparr>"
    using assms(5) by (auto simp: stage1_detect_no_motion_def Let_def split: if_splits)
  have "no_motion_window_count ctx' \<le> ?t \<and> (r \<longrightarrow> no_motion_window_count ctx = ?t)"
  proof (cases "no_motion_window_count ctx < ?t")
    case True
    then have "no_motion_window_count ctx + 1 \<le> ?t" "u8 (no_motion_window_count ctx + 1) = no_motion_window_count ctx + 1"
      using assms(4) by (simp_all add: u8_id)
    then show ?thesis
      using assms(5) True laws by (auto simp: stage1_detect_no_motion_def Let_def split: if_splits)
  next
    case False
    then have eq: "no_motion_window_count ctx = ?t" using assms(2) by simp
    then have "u8_minus ?t 1 = ?t - 1"
      using assms(3,4) by (simp add: u8_minus_id)
    then show ?thesis
      using assms(5) eq laws lt by (auto simp: stage1_detect_no_motion_def Let_def split: if_splits)
  qed
  then show "no_motion_window_count ctx' \<le> ?t" and "r \<Longrightarrow> no_motion_window_count ctx = ?t"
    by simp_all
qed

section \<open>The real numbers satisfy the contract\<close>

interpretation exact: float_arith real_ops
proof
  show "f_u8 real_ops (f_int real_ops (int n)) = n" if "n < 256" for n
    by (simp add: real_ops_def)
  show "f_u8 real_ops (f_div real_ops (f_int real_ops (int n)) (f_lit real_ops 2 0)) = n div 2" if "n < 512" for n
  proof -
    have "floor (real n / real 2) = int (n div 2)"
      by (rule floor_divide_of_nat_eq)
    then show ?thesis
      by (simp add: real_ops_def)
  qed
qed (simp_all add: real_ops_def)

end
