(* ===== verification/Step_Detection.thy ===== *)
theory Step_Detection
  imports Motion_Signal
begin

text \<open>
  Step detection (\<open>step_detection_algo.c\<close>): statistics of the history, the auto-correlation that finds the
  period of a walk, the peaks with their prominence, the acceptance of a peak as a step, and the gate that
  counts steps only once a walk is established.

  The two arrays on the stack are lists of optional cells: an index outside the array and a read of a
  cell that was never written are the value \<open>None\<close>, as a failed assertion is.
\<close>

section \<open>Arrays on the stack\<close>

definition arr_get :: "'a option list \<Rightarrow> nat \<Rightarrow> 'a option" where
  "arr_get a i = (if i < length a then a ! i else None)"

definition arr_put :: "'a option list \<Rightarrow> nat \<Rightarrow> 'a \<Rightarrow> 'a option list option" where
  "arr_put a i v = (if i < length a then Some (a[i := Some v]) else None)"

section \<open>Statistics of a range of the history\<close>

definition range_ok :: "'f motion_ring \<Rightarrow> nat \<Rightarrow> nat \<Rightarrow> bool" where
  "range_ok history start_idx end_idx \<longleftrightarrow>
     mr_elements history > 0 \<and> mr_elem_size history = sizeof_float \<and> start_idx < mr_elements history \<and>
     end_idx < mr_elements history \<and> start_idx < end_idx"

definition calculate_signal_mean :: "'f float_ops \<Rightarrow> 'f motion_ring \<Rightarrow> nat \<Rightarrow> nat \<Rightarrow> 'f option" where
  "calculate_signal_mean fo history start_idx end_idx =
     (if range_ok history start_idx end_idx
      then do {
        mean \<leftarrow> mfold (\<lambda>i mean. do { v \<leftarrow> ring_read history i; Some (f_add fo mean v) })
                  [start_idx..<end_idx + 1] (f_lit fo 0 0);
        Some (f_div fo mean (f_int fo (int end_idx - int start_idx + 1)))
      }
      else None)"

definition calculate_signal_variance :: "'f float_ops \<Rightarrow> 'f motion_ring \<Rightarrow> 'f \<Rightarrow> nat \<Rightarrow> nat \<Rightarrow> 'f option" where
  "calculate_signal_variance fo history mean start_idx end_idx =
     (if range_ok history start_idx end_idx
      then do {
        variance \<leftarrow> mfold (\<lambda>i variance. do {
                        v \<leftarrow> ring_read history i;
                        let delta_signal = f_sub fo v mean
                        in Some (f_add fo variance (f_mul fo delta_signal delta_signal)) })
                      [start_idx..<end_idx + 1] (f_lit fo 0 0);
        Some (f_div fo variance (f_int fo (int end_idx - int start_idx + 1)))
      }
      else None)"

section \<open>The period of the signal\<close>

definition MIN_CORELATION_FOR_CONFIDENCE :: "'f float_ops \<Rightarrow> 'f" where
  "MIN_CORELATION_FOR_CONFIDENCE fo = f_lit fo 7 1"

definition MAX_PERIODICTY_TIE_MARGIN :: "'f float_ops \<Rightarrow> 'f" where
  "MAX_PERIODICTY_TIE_MARGIN fo = f_lit fo 5 2"

text \<open>The sums over all pairs at distance \<open>lag\<close>.\<close>

definition lag_sums :: "'f float_ops \<Rightarrow> 'f motion_ring \<Rightarrow> 'f \<Rightarrow> nat \<Rightarrow> nat \<Rightarrow> ('f \<times> 'f \<times> 'f) option" where
  "lag_sums fo history mean pair_boundary lag =
     mfold (\<lambda>pair_first (product_sum, energy_a, energy_b). do {
         va \<leftarrow> ring_read history pair_first;
         vb \<leftarrow> ring_read history (pair_first + lag);
         let a = f_sub fo va mean; b = f_sub fo vb mean
         in Some (f_add fo product_sum (f_mul fo a b), f_add fo energy_a (f_mul fo a a), f_add fo energy_b (f_mul fo b b)) })
       [0..<pair_boundary] (f_lit fo 0 0, f_lit fo 0 0, f_lit fo 0 0)"

definition clamp_correlation :: "'f float_ops \<Rightarrow> 'f \<Rightarrow> 'f" where
  "clamp_correlation fo c =
     (let c1 = (if f_lt fo (f_lit fo 1 0) c then f_lit fo 1 0 else c)
      in if f_lt fo c1 (f_lit fo (- 1) 0) then f_lit fo (- 1) 0 else c1)"

definition correlate_lag ::
  "'f float_ops \<Rightarrow> 'f motion_ring \<Rightarrow> 'f \<Rightarrow> nat \<Rightarrow> nat \<Rightarrow> 'f option list \<times> 'f \<times> 'f \<Rightarrow> ('f option list \<times> 'f \<times> 'f) option" where
  "correlate_lag fo history mean min_periodicity lag = (\<lambda>(correlations, best_period, best_correlation).
     if \<not> mr_elements history > lag then None
     else do {
       (product_sum, energy_a, energy_b) \<leftarrow> lag_sums fo history mean (mr_elements history - lag) lag;
       let denominator = f_sqrt fo (f_mul fo energy_a energy_b) in
       if f_le fo denominator (f_lit fo 1 5) then Some (correlations, best_period, best_correlation)
       else
         let correlation = clamp_correlation fo (f_div fo product_sum denominator)
         in do {
           correlations' \<leftarrow> arr_put correlations (lag - min_periodicity) correlation;
           Some (if f_lt fo best_correlation correlation
                 then (correlations', f_int fo (int (u8 lag)), correlation)
                 else (correlations', best_period, best_correlation))
         }
     })"

text \<open>The first local maximum close to the best correlation, from the smallest lag on.\<close>

partial_function (option) harmonic_scan ::
  "'f float_ops \<Rightarrow> 'f option list \<Rightarrow> nat \<Rightarrow> nat \<Rightarrow> 'f \<Rightarrow> 'f \<Rightarrow> nat \<Rightarrow> 'f option" where
  "harmonic_scan fo correlations min_periodicity max_periodicity best_correlation best_period lag =
     (if \<not> f_le fo (f_int fo (int lag)) best_period then Some best_period
      else do {
        current \<leftarrow> arr_get correlations (lag - min_periodicity);
        if f_lt fo current (f_sub fo best_correlation (MAX_PERIODICTY_TIE_MARGIN fo))
        then harmonic_scan fo correlations min_periodicity max_periodicity best_correlation best_period (lag + 1)
        else do {
          prev \<leftarrow> (if lag > min_periodicity then arr_get correlations (lag - min_periodicity - 1) else Some (f_lit fo (- 2) 0));
          next \<leftarrow> (if lag < max_periodicity then arr_get correlations (lag - min_periodicity + 1) else Some (f_lit fo (- 2) 0));
          if f_le fo prev current \<and> f_le fo next current then Some (f_int fo (int (u8 lag)))
          else harmonic_scan fo correlations min_periodicity max_periodicity best_correlation best_period (lag + 1)
        }
      })"

definition calculate_signal_periodicity ::
  "'f float_ops \<Rightarrow> 'f motion_ring \<Rightarrow> nat \<Rightarrow> nat \<Rightarrow> (nat \<times> bool) option" where
  "calculate_signal_periodicity fo history min_periodicity max_periodicity =
     (if \<not> max_periodicity > min_periodicity \<or> \<not> mr_elements history > max_periodicity then None
      else
        let fallback_period = f_div fo (f_int fo (int (max_periodicity + min_periodicity))) (f_lit fo 2 0);
            correlation_count = max_periodicity - min_periodicity + 1
        in do {
          correlations \<leftarrow> mfold (\<lambda>i a. arr_put a i (f_lit fo (- 2) 0)) [0..<correlation_count]
                            (replicate STAGE1_CORELATION_BUFFER_SIZE None);
          mean \<leftarrow> calculate_signal_mean fo history 0 (mr_elements history - 1);
          (correlations', best_period, best_correlation) \<leftarrow>
             mfold (correlate_lag fo history mean min_periodicity) [min_periodicity..<max_periodicity + 1]
               (correlations, fallback_period, f_lit fo (- 2) 0);
          if f_lt fo (MIN_CORELATION_FOR_CONFIDENCE fo) best_correlation
          then do {
            best_period' \<leftarrow> harmonic_scan fo correlations' min_periodicity max_periodicity best_correlation best_period min_periodicity;
            Some (f_u8 fo best_period', True)
          }
          else Some (f_u8 fo best_period, False)
        })"

section \<open>Peaks\<close>

record 'f peak_candidate =
  cand_index :: nat
  cand_prominence :: 'f

definition PEAK_NEIGHBOURHOOD_COVERAGE_PCNT :: nat where "PEAK_NEIGHBOURHOOD_COVERAGE_PCNT = 45"

definition calculate_peak_radius :: "nat \<Rightarrow> nat" where
  "calculate_peak_radius period = u8 (u16 ((period * PEAK_NEIGHBOURHOOD_COVERAGE_PCNT + 50) div 100))"

definition calculate_peak_boundaries :: "'f motion_ring \<Rightarrow> nat \<Rightarrow> nat \<Rightarrow> (nat \<times> nat) option" where
  "calculate_peak_boundaries history peak_idx peak_radius =
     (if mr_elements history > 3
      then Some (if peak_idx > peak_radius then peak_idx - peak_radius else 0,
                 if mr_elements history > peak_idx + peak_radius then u8 (peak_idx + peak_radius) else mr_elements history - 1)
      else None)"

text \<open>The minimum over a range, starting from the value at one of its ends.\<close>

definition min_over :: "'f float_ops \<Rightarrow> 'f motion_ring \<Rightarrow> nat \<Rightarrow> nat list \<Rightarrow> 'f option" where
  "min_over fo history start_idx idxs =
     do {
       m \<leftarrow> ring_read history start_idx;
       mfold (\<lambda>i m. do { signal \<leftarrow> ring_read history i; Some (if f_lt fo signal m then signal else m) }) idxs m
     }"

definition calculate_peak_prominence :: "'f float_ops \<Rightarrow> 'f motion_ring \<Rightarrow> nat \<Rightarrow> nat \<Rightarrow> 'f option" where
  "calculate_peak_prominence fo history peak_idx peak_radius =
     do {
       (left_boundary, right_boundary) \<leftarrow> calculate_peak_boundaries history peak_idx peak_radius;
       let has_left = peak_idx \<ge> peak_radius;
           has_right = int right_boundary - int peak_idx \<ge> int peak_radius
       in do {
         left_min \<leftarrow> (if has_left then min_over fo history left_boundary [left_boundary..<peak_idx] else Some (f_ninf fo));
         right_min \<leftarrow> (if has_right then min_over fo history right_boundary [peak_idx + 1..<right_boundary] else Some (f_ninf fo));
         peak_prominence \<leftarrow> ring_read history peak_idx;
         let baseline = (if f_lt fo left_min right_min then right_min else left_min);
             baseline_prominence = (if \<not> has_left \<and> \<not> has_right then peak_prominence else baseline)
         in Some (f_sub fo peak_prominence baseline_prominence)
       }
     }"

text \<open>The smallest distance of a neighbouring interval from the period, over the other candidates.\<close>

definition neighbor_step ::
  "'f peak_candidate option list \<Rightarrow> nat \<Rightarrow> nat \<Rightarrow> nat \<Rightarrow> nat \<Rightarrow> nat \<Rightarrow> nat \<Rightarrow> bool \<times> nat \<Rightarrow> (bool \<times> nat) option" where
  "neighbor_step candidates candidate_idx curr_idx min_interval max_interval periodicity i = (\<lambda>(found, min_delta).
     if i = candidate_idx then Some (found, min_delta)
     else do {
       c \<leftarrow> arr_get candidates i;
       let neighbor_peak_idx = cand_index c;
           interval = (if curr_idx \<ge> neighbor_peak_idx then u8 (curr_idx - neighbor_peak_idx) else u8 (neighbor_peak_idx - curr_idx))
       in Some (if interval \<ge> min_interval \<and> interval \<le> max_interval
                then (let delta = (if interval > periodicity then interval - periodicity else periodicity - interval)
                      in (True, if delta < min_delta then delta else min_delta))
                else (found, min_delta))
     })"

definition peak_has_rhythmic_neighbor ::
  "'f float_ops \<Rightarrow> 'f peak_candidate option list \<Rightarrow> nat \<Rightarrow> nat \<Rightarrow> nat \<Rightarrow> nat \<Rightarrow> nat \<Rightarrow> 'f \<Rightarrow> (bool \<times> 'f) option" where
  "peak_has_rhythmic_neighbor fo candidates candidate_count candidate_idx min_interval max_interval periodicity deviation =
     do {
       curr \<leftarrow> arr_get candidates candidate_idx;
       (found, min_delta) \<leftarrow>
          mfold (neighbor_step candidates candidate_idx (cand_index curr) min_interval max_interval periodicity)
            [0..<candidate_count] (False, 4294967295);
       Some (if found \<and> periodicity \<noteq> 0
             then (True, f_div fo (f_int fo (int min_delta)) (f_int fo (int periodicity)))
             else (False, deviation))
     }"

definition append_peak_candidate ::
  "'f float_ops \<Rightarrow> 'f peak_candidate option list \<Rightarrow> nat \<Rightarrow> nat \<Rightarrow> 'f \<Rightarrow> nat \<Rightarrow> ('f peak_candidate option list \<times> nat) option" where
  "append_peak_candidate fo candidates candidate_count peak_idx prominence min_interval =
     do {
       merge_with \<leftarrow> (if candidate_count > 0
                      then do {
                        prev \<leftarrow> arr_get candidates (candidate_count - 1);
                        Some (if u8_minus peak_idx (cand_index prev) < min_interval then Some prev else None)
                      }
                      else Some None);
       case merge_with of
         Some prev \<Rightarrow>
           if f_lt fo (cand_prominence prev) prominence
           then do {
             candidates' \<leftarrow> arr_put candidates (candidate_count - 1) \<lparr>cand_index = peak_idx, cand_prominence = prominence\<rparr>;
             Some (candidates', candidate_count)
           }
           else Some (candidates, candidate_count)
       | None \<Rightarrow>
           do {
             candidates' \<leftarrow> arr_put candidates candidate_count \<lparr>cand_index = peak_idx, cand_prominence = prominence\<rparr>;
             Some (candidates', u8 (candidate_count + 1))
           }
     }"

section \<open>Steps of a window\<close>

definition peak_step ::
  "'f float_ops \<Rightarrow> 'f stage1_tuning_params \<Rightarrow> 'f motion_ring \<Rightarrow> nat \<Rightarrow> nat \<Rightarrow>
   'f peak_candidate option list \<times> nat \<Rightarrow> ('f peak_candidate option list \<times> nat) option" where
  "peak_step fo params history peak_radius i = (\<lambda>(candidates, candidate_count). do {
     prev \<leftarrow> ring_read history (i - 1);
     next \<leftarrow> ring_read history (i + 1);
     curr \<leftarrow> ring_read history i;
     if \<not> (f_le fo prev curr \<and> f_le fo next curr) then Some (candidates, candidate_count)
     else do {
       prominence \<leftarrow> calculate_peak_prominence fo history (u8 i) peak_radius;
       if f_lt fo prominence (STEP_MIN_PROMINENCE_FOR_PEAK params) then Some (candidates, candidate_count)
       else append_peak_candidate fo candidates candidate_count (u8 i) prominence (MIN_SAMPLES_BETWEEN_STEPS params)
     }
   })"

text \<open>The conditions under which a candidate counts as a step.\<close>

definition accept_peak ::
  "'f float_ops \<Rightarrow> 'f stage1_tuning_params \<Rightarrow> 'f stage1_ctx \<Rightarrow> bool \<Rightarrow> nat \<Rightarrow> 'f \<Rightarrow> bool \<Rightarrow> 'f \<Rightarrow> bool" where
  "accept_peak fo params ctx periodicity_confidence detected_steps peak_prominence has_rhythmic_neighbor deviation =
     (let clearly_prominent = f_le fo (f_mul fo (STEP_MIN_PROMINENCE_FOR_PEAK params) (f_lit fo 15 1)) peak_prominence;
          is_first_step = (\<not> is_walking ctx \<and> pending_steps ctx = 0 \<and> detected_steps = 0 \<and> clearly_prominent);
          supported_by_prominence = (\<not> periodicity_confidence \<and> has_rhythmic_neighbor \<and> clearly_prominent);
          timing_supported = (periodicity_confidence \<and> has_rhythmic_neighbor \<and>
            f_le fo deviation (MAX_STEP_PERIODICITY_DEVIATION params) \<and>
            f_le fo (f_mul fo (STEP_MIN_PROMINENCE_FOR_PEAK params) (f_lit fo 115 2)) peak_prominence)
      in timing_supported \<or> supported_by_prominence \<or> is_first_step)"

definition filter_step ::
  "'f float_ops \<Rightarrow> 'f stage1_tuning_params \<Rightarrow> 'f stage1_ctx \<Rightarrow> 'f peak_candidate option list \<Rightarrow> nat \<Rightarrow> nat \<Rightarrow> nat \<Rightarrow> bool \<Rightarrow>
   nat \<Rightarrow> nat \<Rightarrow> nat \<Rightarrow> nat option" where
  "filter_step fo params ctx candidates candidate_count peak_radius period periodicity_confidence window_boundary i detected_steps =
     (let history = vertical_accel_mod_history ctx in do {
        c \<leftarrow> arr_get candidates i;
        if cand_index c < window_boundary then Some detected_steps
        else do {
          (left_boundary, right_boundary) \<leftarrow> calculate_peak_boundaries history (cand_index c) peak_radius;
          local_mean \<leftarrow> calculate_signal_mean fo history left_boundary right_boundary;
          peak_variance \<leftarrow> calculate_signal_variance fo history local_mean left_boundary right_boundary;
          if f_lt fo peak_variance (STEP_MIN_VARIANCE_ACTIVITY_FOR_STEP params) then Some detected_steps
          else do {
            (has_rhythmic_neighbor, deviation) \<leftarrow>
               peak_has_rhythmic_neighbor fo candidates candidate_count (u8 i) (MIN_SAMPLES_BETWEEN_STEPS params)
                 (MAX_SAMPLES_BETWEEN_STEPS params) period (f_inf fo);
            Some (if accept_peak fo params ctx periodicity_confidence detected_steps (cand_prominence c)
                       has_rhythmic_neighbor deviation \<and> detected_steps < 255
                  then detected_steps + 1 else detected_steps)
          }
        }
      })"

definition stage1_detect_window_steps ::
  "'f float_ops \<Rightarrow> 'f stage1_tuning_params \<Rightarrow> nat \<Rightarrow> 'f stage1_ctx \<Rightarrow> nat option" where
  "stage1_detect_window_steps fo params window_samples ctx =
     (let history = vertical_accel_mod_history ctx in
      if window_samples = 0 then Some 0
      else if mr_data history = None \<or> mr_elements history < MIN_SAMPLES_BEFORE_STEP_INFERENCE params then Some 0
      else if \<not> mr_elements history < 255 \<or> \<not> window_samples < mr_elements history then None
      else do {
        (period, periodicity_confidence) \<leftarrow>
           calculate_signal_periodicity fo history (MIN_SAMPLES_BETWEEN_STEPS params) (MAX_SAMPLES_BETWEEN_STEPS params);
        let peak_radius = calculate_peak_radius period; samples = mr_elements history in do {
          (candidates, candidate_count) \<leftarrow>
             mfold (peak_step fo params history peak_radius) [1..<samples - 1]
               (replicate STAGE1_CANDIDATE_BUFFER_SIZE None, 0);
          if candidate_count = 0 then Some 0
          else
            let window_boundary = u8 (mr_elements history - window_samples - 1)
            in mfold (filter_step fo params ctx candidates candidate_count peak_radius period periodicity_confidence window_boundary)
                 [0..<candidate_count] 0
        }
      })"

section \<open>The gate\<close>

definition stage1_derive_accepted_steps_from_window ::
  "'f stage1_tuning_params \<Rightarrow> nat \<Rightarrow> nat \<Rightarrow> 'f stage1_ctx \<Rightarrow> nat \<times> 'f stage1_ctx" where
  "stage1_derive_accepted_steps_from_window params window_steps samples ctx =
     (if window_steps = 0
      then
        let elapsed = u32 (samples_since_valid_step ctx + samples);
            since = (if elapsed > 65535 then 65535 else elapsed);
            ctx1 = ctx\<lparr>samples_since_valid_step := since\<rparr>
        in (0, if since \<ge> STEP_MAX_SAMPLES_BEFORE_STATE_CHANGE params
               then ctx1\<lparr>is_walking := False, pending_steps := 0\<rparr> else ctx1)
      else
        let ctx1 = ctx\<lparr>samples_since_valid_step := 0\<rparr> in
        if is_walking ctx1 then (window_steps, ctx1\<lparr>pending_steps := 0\<rparr>)
        else
          let total = u16 (pending_steps ctx1 + window_steps);
              pending = (if total > 255 then 255 else total);
              ctx2 = ctx1\<lparr>pending_steps := pending\<rparr>
          in if pending \<ge> STEP_MIN_ACCEPTABLE_CONSECUTIVE_STEPS params
             then (pending, ctx2\<lparr>is_walking := True, pending_steps := 0\<rparr>)
             else (0, ctx2))"

section \<open>Reading the history never fails\<close>

definition history_ok :: "'f motion_ring \<Rightarrow> bool" where
  "history_ok h \<longleftrightarrow> motion_ring_inv h \<and> mr_elem_size h = sizeof_float"

lemma history_read: "history_ok h \<Longrightarrow> i < mr_elements h \<Longrightarrow> ring_read h i = Some (ring_items h ! i)"
  by (simp add: history_ok_def ring_read_items)

lemma history_small: "history_ok h \<Longrightarrow> mr_elements h < 256"
  by (auto simp: history_ok_def motion_ring_inv_def)

lemma mean_total:
  assumes "history_ok h" and "range_ok h a b"
  shows "\<exists>m. calculate_signal_mean fo h a b = Some m"
proof -
  have "\<exists>m. mfold (\<lambda>i mean. do { v \<leftarrow> ring_read h i; Some (f_add fo mean v) }) [a..<b + 1] (f_lit fo 0 0) = Some m"
    using assms by (intro mfold_total) (auto simp: range_ok_def history_read)
  then show ?thesis
    using assms(2) by (auto simp: calculate_signal_mean_def)
qed

lemma variance_total:
  assumes "history_ok h" and "range_ok h a b"
  shows "\<exists>m. calculate_signal_variance fo h c a b = Some m"
proof -
  have "\<exists>m. mfold (\<lambda>i variance. do { v \<leftarrow> ring_read h i; let delta_signal = f_sub fo v c
         in Some (f_add fo variance (f_mul fo delta_signal delta_signal)) }) [a..<b + 1] (f_lit fo 0 0) = Some m"
    using assms by (intro mfold_total) (auto simp: range_ok_def history_read Let_def)
  then show ?thesis
    using assms(2) by (auto simp: calculate_signal_variance_def)
qed

lemma lag_sums_total:
  assumes "history_ok h" and "k + lag \<le> mr_elements h"
  shows "\<exists>p a b. lag_sums fo h c k lag = Some (p, a, b)"
proof -
  have "\<exists>s. lag_sums fo h c k lag = Some s"
    unfolding lag_sums_def using assms by (intro mfold_total) (auto simp: history_read Let_def)
  then show ?thesis
    by auto
qed

section \<open>The period lies between the limits\<close>

definition cells_set :: "nat \<Rightarrow> 'a option list \<Rightarrow> bool" where
  "cells_set n a \<longleftrightarrow> n \<le> length a \<and> (\<forall>i < n. a ! i \<noteq> None)"

lemma cells_set_get: "cells_set n a \<Longrightarrow> i < n \<Longrightarrow> \<exists>v. arr_get a i = Some v"
  by (auto simp: cells_set_def arr_get_def)

lemma cells_set_put: "cells_set n a \<Longrightarrow> i < n \<Longrightarrow> \<exists>a'. arr_put a i v = Some a' \<and> cells_set n a'"
  by (auto simp: cells_set_def arr_put_def nth_list_update)

lemma cells_set_fill:
  assumes "n \<le> m"
  shows "\<exists>a. mfold (\<lambda>i a. arr_put a i v) [0..<n] (replicate m None) = Some a \<and> cells_set n a"
proof -
  have "\<exists>a. mfold (\<lambda>i a. arr_put a i v) [0..<n] (replicate m None) = Some a \<and> (length a = m \<and> (\<forall>j < n. a ! j \<noteq> None))"
    using assms by (intro mfold_upt [where P = "\<lambda>i a. length a = m \<and> (\<forall>j < i. a ! j \<noteq> None)"])
      (auto simp: arr_put_def nth_list_update less_Suc_eq)
  then show ?thesis
    using assms by (auto simp: cells_set_def)
qed

definition best_ok :: "'f float_ops \<Rightarrow> nat \<Rightarrow> nat \<Rightarrow> 'f \<times> 'f \<Rightarrow> bool" where
  "best_ok fo lo hi = (\<lambda>(best_period, best_correlation).
     best_period = f_div fo (f_int fo (int (hi + lo))) (f_lit fo 2 0) \<and> best_correlation = f_lit fo (- 2) 0 \<or>
     (\<exists>l. lo \<le> l \<and> l \<le> hi \<and> best_period = f_int fo (int l)))"

lemma correlate_lag_total:
  assumes "history_ok h" and "lo \<le> lag" "lag \<le> hi" "hi < mr_elements h"
    and "cells_set (hi - lo + 1) (fst st)" "best_ok fo lo hi (snd st)"
  shows "\<exists>st'. correlate_lag fo h mean lo lag st = Some st' \<and> cells_set (hi - lo + 1) (fst st') \<and> best_ok fo lo hi (snd st')"
proof -
  obtain c bp bc where st: "st = (c, bp, bc)" by (cases st) auto
  obtain p a b where sums: "lag_sums fo h mean (mr_elements h - lag) lag = Some (p, a, b)"
    using lag_sums_total [OF assms(1), of "mr_elements h - lag" lag fo mean] assms(3,4) by auto
  have put: "\<exists>c'. arr_put c (lag - lo) v = Some c' \<and> cells_set (hi - lo + 1) c'" for v
    using assms(2,3,5) st by (intro cells_set_put) auto
  have "u8 lag = lag"
    using assms(3,4) history_small [OF assms(1)] by (simp add: u8_id)
  then have new: "best_ok fo lo hi (f_int fo (int (u8 lag)), v)" for v
    using assms(2,3) by (auto simp: best_ok_def)
  let ?d = "f_sqrt fo (f_mul fo a b)"
  let ?cor = "clamp_correlation fo (f_div fo p ?d)"
  obtain c' where c': "arr_put c (lag - lo) ?cor = Some c'" "cells_set (hi - lo + 1) c'"
    using put by blast
  have "correlate_lag fo h mean lo lag st = Some (if f_le fo ?d (f_lit fo 1 5) then (c, bp, bc)
      else if f_lt fo bc ?cor then (c', f_int fo (int (u8 lag)), ?cor) else (c', bp, bc))"
    using assms(3,4) sums c'(1) by (simp add: correlate_lag_def st Let_def)
  then show ?thesis
    using c'(2) new [of ?cor] assms(5,6) st by auto
qed

lemma harmonic_scan_total:
  assumes "float_arith fo" and "cells_set (hi - lo + 1) c" and "lo \<le> lag" "lag \<le> l + 1" "lo \<le> l" "l \<le> hi" "hi < 255"
  shows "\<exists>m. lo \<le> m \<and> m \<le> hi \<and> harmonic_scan fo c lo hi bc (f_int fo (int l)) lag = Some (f_int fo (int m))"
  using assms(3,4)
proof (induction "l + 1 - lag" arbitrary: lag)
  case 0
  then have "\<not> f_le fo (f_int fo (int lag)) (f_int fo (int l))"
    using float_arith.int_le [OF assms(1), of lag l] assms(6,7) by simp
  then show ?case
    using assms(5,6) by (auto simp: harmonic_scan.simps [of fo c lo hi bc "f_int fo (int l)" lag])
next
  case (Suc k)
  then have le: "lag \<le> l" by simp
  have u: "u8 lag = lag" using le assms(6,7) by (simp add: u8_id)
  have cmp: "f_le fo (f_int fo (int lag)) (f_int fo (int l))"
    using float_arith.int_le [OF assms(1), of lag l] le assms(6,7) by simp
  have idx: "lag - lo < hi - lo + 1"
    using Suc.prems(1) le assms(6) by arith
  obtain cur where cur: "arr_get c (lag - lo) = Some cur"
    using cells_set_get [OF assms(2) idx] by blast
  obtain prev where prev: "(if lag > lo then arr_get c (lag - lo - 1) else Some (f_lit fo (- 2) 0)) = Some prev"
    using cells_set_get [OF assms(2) le_less_trans [OF diff_le_self idx], of 1] by (cases "lag > lo") auto
  obtain nxt where nxt: "(if lag < hi then arr_get c (lag - lo + 1) else Some (f_lit fo (- 2) 0)) = Some nxt"
    using cells_set_get [OF assms(2), of "lag - lo + 1"] diff_less_mono [of lag hi lo] Suc.prems(1)
    by (cases "lag < hi") auto
  have rest: "\<exists>m. lo \<le> m \<and> m \<le> hi \<and> harmonic_scan fo c lo hi bc (f_int fo (int l)) (lag + 1) = Some (f_int fo (int m))"
    using Suc.hyps(2) Suc.prems le by (intro Suc.hyps(1)) auto
  show ?case
    using cmp cur prev nxt rest u Suc.prems(1) le assms(6)
    by (simp add: harmonic_scan.simps [of fo c lo hi bc "f_int fo (int l)" lag]) (auto intro!: exI [of _ lag])
qed

lemma periodicity_total:
  assumes fo: "float_arith fo" and h: "history_ok h" and "lo < hi" "hi < mr_elements h" "hi - lo < 126" "mr_elements h < 255"
  shows "\<exists>p c. calculate_signal_periodicity fo h lo hi = Some (p, c) \<and> lo \<le> p \<and> p \<le> hi"
proof -
  let ?fb = "f_div fo (f_int fo (int (hi + lo))) (f_lit fo 2 0)"
  obtain c0 where c0: "mfold (\<lambda>i a. arr_put a i (f_lit fo (- 2) 0)) [0..<hi - lo + 1] (replicate 126 None) = Some c0"
    "cells_set (hi - lo + 1) c0"
    using cells_set_fill [of "hi - lo + 1" 126 "f_lit fo (- 2) 0"] assms(5) by auto
  obtain mean where mean: "calculate_signal_mean fo h 0 (mr_elements h - 1) = Some mean"
    using mean_total [OF h, of 0 "mr_elements h - 1" fo] h assms(3,4) by (auto simp: range_ok_def history_ok_def)
  have "\<exists>st. mfold (correlate_lag fo h mean lo) [lo..<hi + 1] (c0, ?fb, f_lit fo (- 2) 0) = Some st \<and>
      cells_set (hi - lo + 1) (fst st) \<and> best_ok fo lo hi (snd st)"
  proof (rule mfold_invariant [where P = "\<lambda>st. cells_set (hi - lo + 1) (fst st) \<and> best_ok fo lo hi (snd st)"])
    show "cells_set (hi - lo + 1) (fst (c0, ?fb, f_lit fo (- 2) 0)) \<and> best_ok fo lo hi (snd (c0, ?fb, f_lit fo (- 2) 0))"
      using c0(2) by (simp add: best_ok_def)
    fix lag and st :: "'a option list \<times> 'a \<times> 'a"
    assume "lag \<in> set [lo..<hi + 1]" and inv: "cells_set (hi - lo + 1) (fst st) \<and> best_ok fo lo hi (snd st)"
    then have "lo \<le> lag" "lag \<le> hi" by auto
    then show "\<exists>st'. correlate_lag fo h mean lo lag st = Some st' \<and> cells_set (hi - lo + 1) (fst st') \<and> best_ok fo lo hi (snd st')"
      using correlate_lag_total [OF h _ _ assms(4)] inv by blast
  qed
  then obtain c bp bc where st: "mfold (correlate_lag fo h mean lo) [lo..<hi + 1] (c0, ?fb, f_lit fo (- 2) 0) = Some (c, bp, bc)"
    "cells_set (hi - lo + 1) c" "best_ok fo lo hi (bp, bc)"
    by auto
  have run: "calculate_signal_periodicity fo h lo hi =
      (if f_lt fo (f_lit fo 7 1) bc then Option.bind (harmonic_scan fo c lo hi bc bp lo) (\<lambda>b. Some (f_u8 fo b, True))
       else Some (f_u8 fo bp, False))"
    using c0(1) mean st(1) assms(3,4)
    by (simp add: calculate_signal_periodicity_def STAGE1_CORELATION_BUFFER_SIZE_def MIN_CORELATION_FOR_CONFIDENCE_def)
  have exact: "f_u8 fo (f_int fo (int m)) = m" if "m \<le> hi" for m
    using that assms(4,6) by (intro float_arith.int_u8 [OF fo]) simp
  consider (none) "bp = ?fb" "bc = f_lit fo (- 2) 0" | (lag) l where "lo \<le> l" "l \<le> hi" "bp = f_int fo (int l)"
    using st(3) by (auto simp: best_ok_def)
  then show ?thesis
  proof cases
    case none
    have "f_u8 fo ?fb = (hi + lo) div 2"
      using assms(3,4,6) by (intro float_arith.half_u8 [OF fo]) simp
    then show ?thesis
      using run none float_arith.confidence_above_start [OF fo] assms(3) by auto
  next
    case lag
    obtain m where "lo \<le> m" "m \<le> hi" "harmonic_scan fo c lo hi bc (f_int fo (int l)) lo = Some (f_int fo (int m))"
      using harmonic_scan_total [OF fo st(2), of lo l bc] lag assms(4,6) by auto
    then show ?thesis
      using run lag exact [of m] exact [of l] by (cases "f_lt fo (f_lit fo 7 1) bc") auto
  qed
qed

section \<open>Candidates keep their distance\<close>

definition spaced :: "nat \<Rightarrow> 'f peak_candidate list \<Rightarrow> bool" where
  "spaced gap cs \<longleftrightarrow> sorted_wrt (\<lambda>a b. cand_index a + gap \<le> cand_index b) cs"

lemma spaced_length:
  assumes "spaced gap cs" and "\<forall>c \<in> set cs. lo \<le> cand_index c \<and> cand_index c < hi" and "cs \<noteq> []"
  shows "(length cs - 1) * gap + lo < hi"
  using assms
proof (induction cs arbitrary: lo)
  case (Cons c cs)
  show ?case
  proof (cases "cs = []")
    case False
    have "(length cs - 1) * gap + (lo + gap) < hi"
      using Cons.prems False by (intro Cons.IH) (fastforce simp: spaced_def)+
    moreover have "length cs = Suc (length cs - 1)"
      using False by (cases cs) simp_all
    ultimately show ?thesis
      by (metis add.assoc add.commute length_Cons diff_Suc_1 mult_Suc)
  qed (use Cons.prems in simp)
qed simp

lemma spaced_snoc:
  "spaced gap (cs @ [c]) \<longleftrightarrow> spaced gap cs \<and> (\<forall>d \<in> set cs. cand_index d + gap \<le> cand_index c)"
  by (simp add: spaced_def sorted_wrt_append)

definition cands_ok :: "nat \<Rightarrow> nat \<Rightarrow> 'f peak_candidate option list \<times> nat \<Rightarrow> 'f peak_candidate list \<Rightarrow> bool" where
  "cands_ok gap i = (\<lambda>(cands, count) cs.
     length cands = 126 \<and> count = length cs \<and> length cs \<le> 126 \<and> (\<forall>k < length cs. cands ! k = Some (cs ! k)) \<and> spaced gap cs \<and>
     (\<forall>c \<in> set cs. 1 \<le> cand_index c \<and> cand_index c < i))"

lemma cands_ok_count:
  assumes "cands_ok gap i (cands, count) cs" and "0 < gap"
  shows "count \<le> i - 1"
proof (cases "cs = []")
  case False
  then have "(length cs - 1) * gap + 1 < i"
    using assms(1) by (intro spaced_length) (auto simp: cands_ok_def)
  moreover have "length cs - 1 \<le> (length cs - 1) * gap"
    using assms(2) by (cases gap) simp_all
  ultimately have "length cs - 1 + 1 < i"
    by linarith
  then show ?thesis
    using assms(1) by (simp add: cands_ok_def)
qed (use assms(1) in \<open>simp add: cands_ok_def\<close>)

lemma append_new:
  assumes "cands_ok gap i (cands, count) cs" and "0 < gap" and "i \<le> 125" "1 \<le> i"
    and "\<forall>d \<in> set cs. cand_index d + gap \<le> i"
  shows "\<exists>cands' cs'. arr_put cands count \<lparr>cand_index = i, cand_prominence = p\<rparr> = Some cands' \<and>
     cands_ok gap (Suc i) (cands', u8 (count + 1)) cs'"
proof -
  have c: "count \<le> 124"
    using cands_ok_count [OF assms(1,2)] assms(3) by simp
  let ?new = "\<lparr>cand_index = i, cand_prominence = p\<rparr>"
  have "cands_ok gap (Suc i) (cands[count := Some ?new], count + 1) (cs @ [?new])"
    using assms(1,4,5) c by (auto simp: cands_ok_def nth_append nth_list_update spaced_snoc less_Suc_eq)
  moreover have "arr_put cands count ?new = Some (cands[count := Some ?new])" "u8 (count + 1) = count + 1"
    using c assms(1) by (simp_all add: arr_put_def cands_ok_def u8_id)
  ultimately show ?thesis
    by (intro exI [of _ "cands[count := Some ?new]"] exI [of _ "cs @ [?new]"]) simp
qed

lemma replace_last:
  assumes "cands_ok gap i (cands, count) (ds @ [prev])" and "cand_index prev < i" and "cand_index new = i"
  shows "cands_ok gap (Suc i) (cands[length ds := Some new], count) (ds @ [new])"
proof -
  have cells: "\<forall>k < Suc (length ds). cands ! k = Some ((ds @ [prev]) ! k)" and len: "length cands = 126" "length ds < 126"
    and gaps: "spaced gap ds" "\<forall>d \<in> set ds. cand_index d + gap \<le> cand_index prev"
    and bounds: "\<forall>c \<in> set ds. 1 \<le> cand_index c \<and> cand_index c < i" and "1 \<le> i" "count = Suc (length ds)"
    using assms(1,2) by (auto simp: cands_ok_def spaced_snoc)
  moreover have "cands[length ds := Some new] ! k = Some ((ds @ [new]) ! k)" if "k < Suc (length ds)" for k
    using that cells len by (cases "k = length ds") (auto simp: nth_append)
  moreover have "\<forall>d \<in> set ds. cand_index d + gap \<le> i"
    using gaps(2) assms(2) by fastforce
  ultimately show ?thesis
    using assms(3) by (auto simp: cands_ok_def spaced_snoc)
qed

lemma append_total:
  assumes ok: "cands_ok gap i (cands, count) cs" and "0 < gap" and "i \<le> 125" "1 \<le> i"
  shows "\<exists>st' cs'. append_peak_candidate fo cands count i p gap = Some st' \<and> cands_ok gap (Suc i) st' cs'"
proof (cases cs rule: rev_cases)
  case Nil
  then have "count = 0" using ok by (simp add: cands_ok_def)
  then show ?thesis
    using append_new [OF assms, of p] Nil by (auto simp: append_peak_candidate_def)
next
  case (snoc ds prev)
  have cnt: "count = Suc (length ds)" and len: "length cands = 126"
    using ok snoc by (simp_all add: cands_ok_def)
  have prev: "arr_get cands (count - 1) = Some prev"
    using ok snoc cands_ok_count [OF ok assms(2)] assms(3) by (auto simp: cands_ok_def arr_get_def)
  have lt: "cand_index prev < i"
    using ok snoc by (auto simp: cands_ok_def)
  then have dist: "u8_minus i (cand_index prev) = i - cand_index prev"
    using assms(3) by (simp add: u8_minus_id)
  have before: "\<forall>d \<in> set ds. cand_index d + gap \<le> cand_index prev"
    using ok snoc by (simp add: cands_ok_def spaced_snoc)
  let ?new = "\<lparr>cand_index = i, cand_prominence = p\<rparr>"
  show ?thesis
  proof (cases "i - cand_index prev < gap")
    case True
    show ?thesis
    proof (cases "f_lt fo (cand_prominence prev) p")
      case replace: True
      have put: "arr_put cands (length ds) ?new = Some (cands[length ds := Some ?new])"
        using len cnt cands_ok_count [OF ok assms(2)] assms(3) by (simp add: arr_put_def)
      have "cands_ok gap (Suc i) (cands[length ds := Some ?new], count) (ds @ [?new])"
        using ok snoc lt by (intro replace_last) simp_all
      then show ?thesis
        using prev dist True replace put cnt by (auto simp: append_peak_candidate_def)
    next
      case False
      have "cands_ok gap (Suc i) (cands, count) cs"
        using ok by (auto simp: cands_ok_def)
      then show ?thesis
        using prev dist True False cnt by (auto simp: append_peak_candidate_def)
    qed
  next
    case False
    then have "\<forall>d \<in> set cs. cand_index d + gap \<le> i"
      using before snoc lt by (fastforce)
    then show ?thesis
      using append_new [OF assms, of p] prev dist False cnt by (auto simp: append_peak_candidate_def)
  qed
qed

section \<open>Prominence and acceptance never fail\<close>

lemma boundaries:
  assumes "history_ok h" and "3 < mr_elements h" and "i < mr_elements h"
  shows "\<exists>l r. calculate_peak_boundaries h i rad = Some (l, r) \<and> l \<le> i \<and> i \<le> r \<and> r < mr_elements h \<and>
     (0 < rad \<longrightarrow> 0 < i \<longrightarrow> i + 1 < mr_elements h \<longrightarrow> l < r)"
  using assms history_small [OF assms(1)] by (auto simp: calculate_peak_boundaries_def u8_id)

lemma min_over_total:
  assumes "history_ok h" and "a < mr_elements h" and "\<forall>i \<in> set idxs. i < mr_elements h"
  shows "\<exists>m. min_over fo h a idxs = Some m"
proof -
  have "\<exists>m. mfold (\<lambda>i m. do { signal \<leftarrow> ring_read h i; Some (if f_lt fo signal m then signal else m) }) idxs m0 = Some m" for m0
    using assms by (intro mfold_total) (auto simp: history_read)
  then show ?thesis
    using assms by (simp add: min_over_def history_read)
qed

lemma prominence_total:
  assumes "history_ok h" and "3 < mr_elements h" and "i < mr_elements h"
  shows "\<exists>p. calculate_peak_prominence fo h i rad = Some p"
proof -
  obtain l r where lr: "calculate_peak_boundaries h i rad = Some (l, r)" "l \<le> i" "r < mr_elements h"
    using boundaries [OF assms, of rad] by auto
  obtain ml where ml: "(if i \<ge> rad then min_over fo h l [l..<i] else Some (f_ninf fo)) = Some ml"
    using min_over_total [OF assms(1), of l "[l..<i]" fo] lr(2) assms(3) by (cases "i \<ge> rad") auto
  obtain mr where mr: "(if int r - int i \<ge> int rad then min_over fo h r [i + 1..<r] else Some (f_ninf fo)) = Some mr"
    using min_over_total [OF assms(1), of r "[i + 1..<r]" fo] lr(3) by (cases "int r - int i \<ge> int rad") auto
  show ?thesis
    using lr(1) ml mr history_read [OF assms(1,3)] by (simp add: calculate_peak_prominence_def Let_def)
qed

lemma peak_step_total:
  assumes "history_ok h" and "3 < mr_elements h" "mr_elements h \<le> 126" and "1 \<le> i" "i < mr_elements h - 1"
    and "cands_ok (MIN_SAMPLES_BETWEEN_STEPS params) i st cs" and "0 < MIN_SAMPLES_BETWEEN_STEPS params"
  shows "\<exists>st' cs'. peak_step fo params h rad i st = Some st' \<and> cands_ok (MIN_SAMPLES_BETWEEN_STEPS params) (Suc i) st' cs'"
proof -
  obtain cands count where st: "st = (cands, count)" by (cases st)
  have u: "u8 i = i" using assms(3,5) by (simp add: u8_id)
  obtain p where p: "calculate_peak_prominence fo h i rad = Some p"
    using prominence_total [OF assms(1,2) less_le_trans [OF assms(5) diff_le_self]] by blast
  have keep: "cands_ok (MIN_SAMPLES_BETWEEN_STEPS params) (Suc i) st cs"
    using assms(6) by (auto simp: cands_ok_def)
  have le125: "i \<le> 125"
    using assms(3,5) by arith
  obtain st' cs' where app: "append_peak_candidate fo cands count i p (MIN_SAMPLES_BETWEEN_STEPS params) = Some st'"
    "cands_ok (MIN_SAMPLES_BETWEEN_STEPS params) (Suc i) st' cs'"
    using append_total [OF assms(6) [unfolded st] assms(7) _ assms(4)] le125 by blast
  have "peak_step fo params h rad i st = Some st \<or> peak_step fo params h rad i st = Some st'"
    using assms(4,5) u p app(1) by (auto simp: peak_step_def st history_read [OF assms(1)])
  then show ?thesis
    using keep app(2) by blast
qed

lemma neighbor_total:
  assumes "cands_ok gap i (cands, count) cs" and "k < count"
  shows "\<exists>b d. peak_has_rhythmic_neighbor fo cands count k lo hi period dev = Some (b, d)"
proof -
  have get: "\<exists>c. arr_get cands j = Some c" if "j < count" for j
    using assms(1) that by (cases "j < length cands") (auto simp: cands_ok_def arr_get_def)
  obtain curr where "arr_get cands k = Some curr"
    using get [OF assms(2)] by auto
  moreover have "\<exists>s. mfold (neighbor_step cands k (cand_index curr) lo hi period) [0..<count] (False, 4294967295) = Some s"
    using get by (intro mfold_total) (fastforce simp: neighbor_step_def Let_def)
  ultimately show ?thesis
    by (auto simp: peak_has_rhythmic_neighbor_def)
qed

lemma filter_step_total:
  assumes "history_ok (vertical_accel_mod_history ctx)" and "3 < mr_elements (vertical_accel_mod_history ctx)"
    and "cands_ok gap (mr_elements (vertical_accel_mod_history ctx) - 1) (cands, count) cs" and "k < count" and "0 < rad"
  shows "\<exists>d'. filter_step fo params ctx cands count rad period conf wb k d = Some d' \<and>
     d' \<le> d + (if wb \<le> cand_index (cs ! k) then 1 else 0)"
proof -
  let ?h = "vertical_accel_mod_history ctx"
  have c: "arr_get cands k = Some (cs ! k)" and k: "k < length cs" "u8 k = k"
    using assms(3,4) by (auto simp: cands_ok_def arr_get_def u8_id)
  then have i: "1 \<le> cand_index (cs ! k)" "cand_index (cs ! k) < mr_elements ?h - 1"
    using assms(3) nth_mem [OF k(1)] by (auto simp: cands_ok_def)
  obtain l r where lr: "calculate_peak_boundaries ?h (cand_index (cs ! k)) rad = Some (l, r)" "r < mr_elements ?h" "l < r"
    using boundaries [OF assms(1,2), of "cand_index (cs ! k)" rad] i assms(5) by (auto simp: less_diff_conv)
  then have rg: "range_ok ?h l r"
    using assms(1) by (auto simp: range_ok_def history_ok_def)
  obtain m where m: "calculate_signal_mean fo ?h l r = Some m"
    using mean_total [OF assms(1) rg] by blast
  obtain v where v: "calculate_signal_variance fo ?h m l r = Some v"
    using variance_total [OF assms(1) rg] by blast
  obtain b dev where n: "peak_has_rhythmic_neighbor fo cands count k (MIN_SAMPLES_BETWEEN_STEPS params)
      (MAX_SAMPLES_BETWEEN_STEPS params) period (f_inf fo) = Some (b, dev)"
    using neighbor_total [OF assms(3,4)] by blast
  show ?thesis
    using c lr(1) m v n k(2) by (simp add: filter_step_def Let_def)
qed

section \<open>At most one step per minimal step interval\<close>

definition params_ok :: "'f stage1_tuning_params \<Rightarrow> bool" where
  "params_ok params \<longleftrightarrow> 2 \<le> MIN_SAMPLES_BETWEEN_STEPS params \<and> MIN_SAMPLES_BETWEEN_STEPS params < MAX_SAMPLES_BETWEEN_STEPS params \<and>
     MAX_SAMPLES_BETWEEN_STEPS params - MIN_SAMPLES_BETWEEN_STEPS params < 126 \<and>
     MAX_SAMPLES_BETWEEN_STEPS params < MIN_SAMPLES_BEFORE_STEP_INFERENCE params"

lemma radius_pos: "2 \<le> p \<Longrightarrow> p < 256 \<Longrightarrow> 0 < calculate_peak_radius p"
  by (simp add: calculate_peak_radius_def PEAK_NEIGHBOURHOOD_COVERAGE_PCNT_def u8_def u16_def)

lemma filter_run:
  assumes "history_ok (vertical_accel_mod_history ctx)" and "3 < mr_elements (vertical_accel_mod_history ctx)"
    and "cands_ok gap (mr_elements (vertical_accel_mod_history ctx) - 1) (cands, count) cs" and "0 < rad"
  shows "\<exists>d. mfold (filter_step fo params ctx cands count rad period conf wb) [0..<count] 0 = Some d \<and>
     d \<le> length (filter (\<lambda>c. wb \<le> cand_index c) cs)"
proof -
  have len: "count = length cs"
    using assms(3) by (simp add: cands_ok_def)
  have "\<exists>d. mfold (filter_step fo params ctx cands count rad period conf wb) [0..<count] 0 = Some d \<and>
     d \<le> length (filter (\<lambda>c. wb \<le> cand_index c) (take count cs))"
  proof (rule mfold_upt [where P = "\<lambda>i d. d \<le> length (filter (\<lambda>c. wb \<le> cand_index c) (take i cs))"])
    fix k d assume k: "k < count" and d: "d \<le> length (filter (\<lambda>c. wb \<le> cand_index c) (take k cs))"
    obtain d' where "filter_step fo params ctx cands count rad period conf wb k d = Some d'"
      "d' \<le> d + (if wb \<le> cand_index (cs ! k) then 1 else 0)"
      using filter_step_total [OF assms(1-3) k assms(4)] by blast
    then show "\<exists>d'. filter_step fo params ctx cands count rad period conf wb k d = Some d' \<and>
        d' \<le> length (filter (\<lambda>c. wb \<le> cand_index c) (take (Suc k) cs))"
      using d k len by (intro exI [of _ d']) (auto simp: take_Suc_conv_app_nth split: if_splits)
  qed simp_all
  then show ?thesis
    using len by simp
qed

lemma window_bound:
  assumes "cands_ok gap (n - 1) (cands, count) cs" and "0 < w" "w < n" and "0 < gap"
  shows "length (filter (\<lambda>c. n - w - 1 \<le> cand_index c) cs) \<le> (w + gap - 1) div gap"
proof (cases "filter (\<lambda>c. n - w - 1 \<le> cand_index c) cs = []")
  case False
  let ?fs = "filter (\<lambda>c. n - w - 1 \<le> cand_index c) cs"
  have "(length ?fs - 1) * gap + (n - w - 1) < n - 1"
    using assms(1) False by (intro spaced_length) (auto simp: cands_ok_def spaced_def intro: sorted_wrt_filter)
  then have lt: "(length ?fs - 1) * gap < w"
    using assms(2,3) by linarith
  obtain m where m: "length ?fs = Suc m"
    using False by (cases "length ?fs") auto
  then have "length ?fs * gap \<le> w + gap - 1"
    using lt assms(4) by (simp add: m)
  then show ?thesis
    using assms(4) by (simp only: less_eq_div_iff_mult_less_eq)
next
  case True
  then show ?thesis
    by (simp only: list.size)
qed

lemma detect_total:
  assumes fo: "float_arith fo" and h: "history_ok (vertical_accel_mod_history ctx)"
    and "mr_elements (vertical_accel_mod_history ctx) \<le> 126" and "params_ok params"
    and w: "w < mr_elements (vertical_accel_mod_history ctx) \<or>
       mr_elements (vertical_accel_mod_history ctx) < MIN_SAMPLES_BEFORE_STEP_INFERENCE params"
  shows "\<exists>k. stage1_detect_window_steps fo params w ctx = Some k \<and>
     k \<le> (w + MIN_SAMPLES_BETWEEN_STEPS params - 1) div MIN_SAMPLES_BETWEEN_STEPS params"
proof -
  let ?h = "vertical_accel_mod_history ctx" and ?gap = "MIN_SAMPLES_BETWEEN_STEPS params"
  let ?n = "mr_elements ?h"
  show ?thesis
  proof (cases "w = 0 \<or> ?n < MIN_SAMPLES_BEFORE_STEP_INFERENCE params")
    case False
    obtain slots where data: "mr_data ?h = Some slots"
      using h by (auto simp: history_ok_def motion_ring_inv_def split: option.splits)
    have b: "0 < w" "w < ?n" "3 < ?n" "2 \<le> ?gap" "0 < ?gap" "MAX_SAMPLES_BETWEEN_STEPS params < ?n"
      using False w assms(4) by (auto simp: params_ok_def)
    obtain p c where pc: "calculate_signal_periodicity fo ?h ?gap (MAX_SAMPLES_BETWEEN_STEPS params) = Some (p, c)"
      "?gap \<le> p" "p \<le> MAX_SAMPLES_BETWEEN_STEPS params"
      using periodicity_total [OF fo h, of ?gap "MAX_SAMPLES_BETWEEN_STEPS params"] assms(3,4) b(6) by (auto simp: params_ok_def)
    define rad where "rad = calculate_peak_radius p"
    have rad: "0 < rad"
      unfolding rad_def using pc(2,3) b(4,6) assms(3) by (intro radius_pos) auto
    have "\<exists>st. mfold (peak_step fo params ?h rad) [1..<?n - 1] (replicate 126 None, 0) = Some st \<and>
        (\<exists>cs. cands_ok ?gap (?n - 1) st cs)"
      using peak_step_total [OF h b(3) assms(3) _ _ _ b(5)] b(3)
      by (intro mfold_upt [where P = "\<lambda>i st. \<exists>cs. cands_ok ?gap i st cs"])
        (blast | simp add: cands_ok_def spaced_def)+
    then obtain cands count cs where st: "mfold (peak_step fo params ?h rad) [1..<?n - 1] (replicate 126 None, 0) = Some (cands, count)"
      "cands_ok ?gap (?n - 1) (cands, count) cs"
      by auto
    obtain d where d: "mfold (filter_step fo params ctx cands count rad p c (?n - w - 1)) [0..<count] 0 = Some d"
      "d \<le> length (filter (\<lambda>c. ?n - w - 1 \<le> cand_index c) cs)"
      using filter_run [OF h b(3) st(2) rad] by blast
    have u: "u8 (?n - w - 1) = ?n - w - 1"
      using assms(3) by (intro u8_id) simp
    have "stage1_detect_window_steps fo params w ctx = Some (if count = 0 then 0 else d)"
      using False data b(2) assms(3) pc(1) st(1) d(1) u rad_def
      by (simp add: stage1_detect_window_steps_def Let_def STAGE1_CANDIDATE_BUFFER_SIZE_def)
    then show ?thesis
      using d(2) window_bound [OF st(2) b(1,2,5)] by simp
  qed (auto simp: stage1_detect_window_steps_def Let_def)
qed

section \<open>The gate over a sequence of windows\<close>

text \<open>Windows are pairs of detected steps and number of samples; the result is the number of steps counted.\<close>

primrec gate_run :: "'f stage1_tuning_params \<Rightarrow> (nat \<times> nat) list \<Rightarrow> 'f stage1_ctx \<Rightarrow> nat \<times> 'f stage1_ctx" where
  "gate_run params [] ctx = (0, ctx)"
| "gate_run params (w # ws) ctx =
     (let (a, ctx1) = stage1_derive_accepted_steps_from_window params (fst w) (snd w) ctx;
          (b, ctx2) = gate_run params ws ctx1
      in (a + b, ctx2))"

text \<open>No pause between steps reaches the time-out; \<open>since\<close> samples have passed since the last step.\<close>

primrec no_timeout :: "'f stage1_tuning_params \<Rightarrow> nat \<Rightarrow> (nat \<times> nat) list \<Rightarrow> bool" where
  "no_timeout params since [] = True"
| "no_timeout params since (w # ws) =
     (if fst w = 0 then since + snd w < STEP_MAX_SAMPLES_BEFORE_STATE_CHANGE params \<and> no_timeout params (since + snd w) ws
      else no_timeout params 0 ws)"

definition gate_ok :: "'f stage1_tuning_params \<Rightarrow> 'f stage1_ctx \<Rightarrow> bool" where
  "gate_ok params ctx \<longleftrightarrow> (is_walking ctx \<longrightarrow> pending_steps ctx = 0) \<and> pending_steps ctx < STEP_MIN_ACCEPTABLE_CONSECUTIVE_STEPS params"

lemma gate_step:
  assumes "gate_ok params ctx" and "k + STEP_MIN_ACCEPTABLE_CONSECUTIVE_STEPS params \<le> 255"
    and "stage1_derive_accepted_steps_from_window params k n ctx = (a, ctx')"
  shows "gate_ok params ctx'" and "a + pending_steps ctx' \<le> pending_steps ctx + k"
    and "vertical_accel_mod_history ctx' = vertical_accel_mod_history ctx" and "motion_mode ctx' = motion_mode ctx"
    and "no_motion_window_count ctx' = no_motion_window_count ctx"
  using assms
  by (auto simp: stage1_derive_accepted_steps_from_window_def gate_ok_def Let_def u16_id split: if_splits)

lemma gate_step_active:
  assumes "gate_ok params ctx" and "0 < k" and "k + STEP_MIN_ACCEPTABLE_CONSECUTIVE_STEPS params \<le> 255"
    and "stage1_derive_accepted_steps_from_window params k n ctx = (a, ctx')"
  shows "a + pending_steps ctx' = pending_steps ctx + k" and "samples_since_valid_step ctx' = 0"
    and "is_walking ctx' \<longleftrightarrow> is_walking ctx \<or> STEP_MIN_ACCEPTABLE_CONSECUTIVE_STEPS params \<le> pending_steps ctx + k"
  using assms
  by (auto simp: stage1_derive_accepted_steps_from_window_def gate_ok_def Let_def u16_id split: if_splits)

lemma gate_step_quiet:
  assumes "samples_since_valid_step ctx + n < STEP_MAX_SAMPLES_BEFORE_STATE_CHANGE params"
    and "STEP_MAX_SAMPLES_BEFORE_STATE_CHANGE params \<le> 65535"
    and "stage1_derive_accepted_steps_from_window params 0 n ctx = (a, ctx')"
  shows "a = 0" and "ctx' = ctx\<lparr>samples_since_valid_step := samples_since_valid_step ctx + n\<rparr>"
proof -
  have "u32 (samples_since_valid_step ctx + n) = samples_since_valid_step ctx + n"
    using assms(1,2) by (simp add: u32_id)
  then show "a = 0" and "ctx' = ctx\<lparr>samples_since_valid_step := samples_since_valid_step ctx + n\<rparr>"
    using assms by (auto simp: stage1_derive_accepted_steps_from_window_def Let_def split: if_splits)
qed

lemma gate_run_bounded:
  assumes "gate_ok params ctx" and "\<forall>w \<in> set ws. fst w + STEP_MIN_ACCEPTABLE_CONSECUTIVE_STEPS params \<le> 255"
    and "gate_run params ws ctx = (a, ctx')"
  shows "gate_ok params ctx' \<and> a + pending_steps ctx' \<le> pending_steps ctx + sum_list (map fst ws)"
  using assms
proof (induction ws arbitrary: ctx a)
  case (Cons w ws)
  obtain a1 ctx1 where s1: "stage1_derive_accepted_steps_from_window params (fst w) (snd w) ctx = (a1, ctx1)"
    by (cases "stage1_derive_accepted_steps_from_window params (fst w) (snd w) ctx")
  obtain a2 where s2: "gate_run params ws ctx1 = (a2, ctx')" "a = a1 + a2"
    using Cons.prems(3) s1 by (auto split: prod.splits)
  have "gate_ok params ctx1" "a1 + pending_steps ctx1 \<le> pending_steps ctx + fst w"
    using gate_step [OF Cons.prems(1) _ s1] Cons.prems(2) by auto
  then show ?case
    using Cons.IH [of ctx1 a2] Cons.prems(2) s2 by auto
qed simp

lemma gate_run_walk:
  assumes "gate_ok params ctx" and "\<forall>w \<in> set ws. fst w + STEP_MIN_ACCEPTABLE_CONSECUTIVE_STEPS params \<le> 255"
    and "STEP_MAX_SAMPLES_BEFORE_STATE_CHANGE params \<le> 65535" and "no_timeout params (samples_since_valid_step ctx) ws"
    and "gate_run params ws ctx = (a, ctx')"
  shows "a + pending_steps ctx' = pending_steps ctx + sum_list (map fst ws) \<and>
     (is_walking ctx' \<longleftrightarrow> is_walking ctx \<or> STEP_MIN_ACCEPTABLE_CONSECUTIVE_STEPS params \<le> pending_steps ctx + sum_list (map fst ws)) \<and>
     (\<not> is_walking ctx' \<longrightarrow> a = 0)"
  using assms
proof (induction ws arbitrary: ctx a)
  case (Cons w ws)
  obtain a1 ctx1 where s1: "stage1_derive_accepted_steps_from_window params (fst w) (snd w) ctx = (a1, ctx1)"
    by (cases "stage1_derive_accepted_steps_from_window params (fst w) (snd w) ctx")
  obtain a2 where s2: "gate_run params ws ctx1 = (a2, ctx')" "a = a1 + a2"
    using Cons.prems(5) s1 by (auto split: prod.splits)
  have ok1: "gate_ok params ctx1"
    using gate_step(1) [OF Cons.prems(1) _ s1] Cons.prems(2) by simp
  show ?case
  proof (cases "fst w = 0")
    case True
    then have lt: "samples_since_valid_step ctx + snd w < STEP_MAX_SAMPLES_BEFORE_STATE_CHANGE params"
      using Cons.prems(4) by simp
    note q = gate_step_quiet [OF lt Cons.prems(3) s1 [unfolded True]]
    show ?thesis
      using Cons.IH [OF ok1 _ Cons.prems(3) _ s2(1)] Cons.prems(2,4) q True s2(2) by auto
  next
    case False
    note act = gate_step_active [OF Cons.prems(1) _ _ s1]
    have "a1 + pending_steps ctx1 = pending_steps ctx + fst w" "samples_since_valid_step ctx1 = 0"
      "is_walking ctx1 \<longleftrightarrow> is_walking ctx \<or> STEP_MIN_ACCEPTABLE_CONSECUTIVE_STEPS params \<le> pending_steps ctx + fst w"
      using act False Cons.prems(2) by simp_all
    moreover have "a2 + pending_steps ctx' = pending_steps ctx1 + sum_list (map fst ws) \<and>
       (is_walking ctx' \<longleftrightarrow> is_walking ctx1 \<or> STEP_MIN_ACCEPTABLE_CONSECUTIVE_STEPS params \<le> pending_steps ctx1 + sum_list (map fst ws)) \<and>
       (\<not> is_walking ctx' \<longrightarrow> a2 = 0)"
      using Cons.IH [OF ok1 _ Cons.prems(3) _ s2(1)] Cons.prems(2,4) calculation(2) False by simp
    moreover have "is_walking ctx1 \<or> pending_steps ctx1 = pending_steps ctx + fst w \<and> a1 = 0"
      using s1 False Cons.prems(1,2)
      by (auto simp: stage1_derive_accepted_steps_from_window_def gate_ok_def Let_def u16_id split: if_splits)
    ultimately show ?thesis
      using s2(2) by auto
  qed
qed (auto simp: gate_ok_def)

end
