(* ===== verification/Motion_Engine.thy ===== *)
theory Motion_Engine
  imports Step_Detection "HOL-Library.Word"
begin

unbundle bit_operations_syntax

text \<open>
  The first stage of motion detection (\<open>motion_detection_engine_stage1.c\<close>): raw samples of the IMU are
  scaled, separated from gravity and appended to the history; a window then yields the no-motion flag and
  the number of new steps.
\<close>

section \<open>Definitions\<close>

definition params :: "'f float_ops \<Rightarrow> 'f stage1_tuning_params" where
  "params fo = \<lparr>
     MAX_VERTICAL_ACCEL_HISTORY_SIZE = 126,
     MIN_SAMPLES_BEFORE_STEP_INFERENCE = 63,
     MIN_SAMPLES_BETWEEN_STEPS = 11,
     MAX_SAMPLES_BETWEEN_STEPS = 28,
     STEP_MIN_VARIANCE_ACTIVITY_FOR_STEP = f_lit fo 5 3,
     STEP_MIN_PROMINENCE_FOR_PEAK = f_lit fo 1 1,
     VERTICAL_ACCEL_ALPHA = f_lit fo 2 1,
     GRAVITY_ALPHA = f_lit fo 1 1,
     ACCEL_STABLE_THRESHOLD = f_lit fo 2 3,
     MAX_ACCEL_UNSTABLE_THRESHOLD_DENSITY = f_lit fo 5 3,
     MAX_JERK_THRESHOLD_PER_SAMPLE = f_lit fo 5 5,
     MAX_STEP_PERIODICITY_DEVIATION = f_lit fo 3 1,
     MIN_WINDOW_NO_MOTION_THRESHOLD = 15,
     STEP_MIN_ACCEPTABLE_CONSECUTIVE_STEPS = 4,
     STEP_MAX_SAMPLES_BEFORE_STATE_CHANGE = 42\<rparr>"

definition zero_vec :: "'f float_ops \<Rightarrow> 'f motion_vec3" where
  "zero_vec fo = \<lparr>vec_x = f_lit fo 0 0, vec_y = f_lit fo 0 0, vec_z = f_lit fo 0 0\<rparr>"

definition zero_ctx :: "'f float_ops \<Rightarrow> 'f stage1_ctx" where
  "zero_ctx fo = \<lparr>motion_mode = MOTION_MODE_ACCEL_ONLY, accel_prev = zero_vec fo, gravity_prev = zero_vec fo,
     vertical_accel_mod_history = empty_motion_ring, no_motion_window_count = 0, pending_steps = 0,
     samples_since_valid_step = 0, is_walking = False\<rparr>"

text \<open>A signed 16-bit value from its two bytes.\<close>

definition raw16 :: "byte \<Rightarrow> byte \<Rightarrow> 16 word" where
  "raw16 l h = (ucast l OR push_bit 8 (ucast h))"

text \<open>The sample at index \<open>j\<close>: the board turns the axes, so x is y and y is minus x; the product with -1 is cut to 16 bits.\<close>

definition decode_sample :: "'f float_ops \<Rightarrow> byte list \<Rightarrow> nat \<Rightarrow> 'f motion_vec3 option" where
  "decode_sample fo data j =
     (let base = j * 6 in do {
        raw_y_l \<leftarrow> rd data (base + 0);
        raw_y_h \<leftarrow> rd data (base + 1);
        raw_x_l \<leftarrow> rd data (base + 2);
        raw_x_h \<leftarrow> rd data (base + 3);
        raw_z_l \<leftarrow> rd data (base + 4);
        raw_z_h \<leftarrow> rd data (base + 5);
        Some (sample_to_g fo (sint (raw16 raw_y_l raw_y_h)) (sint (- raw16 raw_x_l raw_x_h)) (sint (raw16 raw_z_l raw_z_h)))
      })"

text \<open>One pass of the sample loop; the state is the context with the jerk sum and the unstability count.\<close>

definition sample_step ::
  "'f float_ops \<Rightarrow> byte list \<Rightarrow> nat \<Rightarrow> 'f stage1_ctx \<times> 'f \<times> 'f \<Rightarrow> ('f stage1_ctx \<times> 'f \<times> 'f) option" where
  "sample_step fo data j = (\<lambda>(ctx, window_jerk_sum, accel_unstability_avg).
     if motion_mode ctx \<noteq> MOTION_MODE_ACCEL_ONLY then Some (ctx, window_jerk_sum, accel_unstability_avg)
     else do {
       curr_sample \<leftarrow> decode_sample fo data j;
       let g0 = gravity_prev ctx;
           g1 = (if f_eq fo (vec_x g0) (f_lit fo 0 0) \<and> f_eq fo (vec_y g0) (f_lit fo 0 0) \<and> f_eq fo (vec_z g0) (f_lit fo 0 0)
                 then curr_sample else g0);
           relative_accel = vec_subtract fo curr_sample g1;
           g2 = vec_add fo g1 (vec_scale fo relative_accel (GRAVITY_ALPHA (params fo)));
           energy = vec_mod_square fo relative_accel;
           jerk' = f_add fo window_jerk_sum (vec_mod_square fo (vec_subtract fo curr_sample (accel_prev ctx)));
           unst' = f_add fo accel_unstability_avg
                     (f_int fo (if f_lt fo (ACCEL_STABLE_THRESHOLD (params fo)) energy then 1 else 0));
           v0 = f_sub fo (vec_a_component_on_g fo curr_sample g2) (f_lit fo 1 0);
           history = vertical_accel_mod_history ctx
       in do {
         vertical_accel_mod \<leftarrow>
           (if mr_elements history \<noteq> 0
            then do {
              vertical_accel_prev \<leftarrow> ring_read history (mr_elements history - 1);
              Some (f_add fo (f_mul fo (VERTICAL_ACCEL_ALPHA (params fo)) vertical_accel_prev)
                             (f_mul fo (f_sub fo (f_lit fo 1 0) (VERTICAL_ACCEL_ALPHA (params fo))) v0))
            }
            else Some v0);
         history' \<leftarrow> ring_buffer_insert history vertical_accel_mod;
         Some (ctx\<lparr>gravity_prev := g2, accel_prev := curr_sample, vertical_accel_mod_history := history'\<rparr>, jerk', unst')
       }
     })"

definition stage1_process_motion_data ::
  "'f float_ops \<Rightarrow> byte list \<Rightarrow> nat \<Rightarrow> imu_stage1_result \<Rightarrow> 'f stage1_ctx \<Rightarrow> (imu_stage1_result \<times> 'f stage1_ctx) option" where
  "stage1_process_motion_data fo data bytes out_res ctx =
     (if bytes = 0 then None
      else
        let samples = bytes div (if motion_mode ctx = MOTION_MODE_ACCEL_ONLY then 6 else 12) in
        if samples = 0 then Some (out_res, ctx)
        else do {
          (ctx1, window_jerk_sum, accel_unstability) \<leftarrow>
             mfold (sample_step fo data) [0..<samples] (ctx, f_lit fo 0 0, f_lit fo 0 0);
          let (no_motion_flag, ctx2) = stage1_detect_no_motion fo (params fo)
                 (f_div fo accel_unstability (f_int fo (int samples))) (f_div fo window_jerk_sum (f_int fo (int samples))) ctx1
          in do {
            window_steps \<leftarrow> stage1_detect_window_steps fo (params fo) samples ctx2;
            let (accepted, ctx3) = stage1_derive_accepted_steps_from_window (params fo) window_steps samples ctx2
            in Some (out_res\<lparr>no_motion := no_motion_flag, res_steps := accepted\<rparr>, ctx3)
          }
        })"

definition stage1_init :: "'f float_ops \<Rightarrow> 'f list option \<Rightarrow> 'f stage1_ctx" where
  "stage1_init fo mem =
     (zero_ctx fo)\<lparr>vertical_accel_mod_history :=
        snd (ring_buffer_init mem (MAX_VERTICAL_ACCEL_HISTORY_SIZE (params fo)) sizeof_float empty_motion_ring)\<rparr>"

definition stage1_deinit :: "'f float_ops \<Rightarrow> 'f stage1_ctx \<Rightarrow> 'f stage1_ctx" where
  "stage1_deinit fo ctx = zero_ctx fo"

section \<open>The invariant of the engine\<close>

definition stage1_ok :: "'f float_ops \<Rightarrow> 'f stage1_ctx \<Rightarrow> bool" where
  "stage1_ok fo ctx \<longleftrightarrow> motion_mode ctx = MOTION_MODE_ACCEL_ONLY \<and>
     history_ok (vertical_accel_mod_history ctx) \<and> mr_max_size (vertical_accel_mod_history ctx) = 126 \<and>
     no_motion_window_count ctx \<le> 15 \<and> gate_ok (params fo) ctx"

lemma params_params_ok: "params_ok (params fo)"
  by (simp add: params_ok_def params_def)

lemma params_fields:
  "MIN_SAMPLES_BETWEEN_STEPS (params fo) = 11" "MIN_SAMPLES_BEFORE_STEP_INFERENCE (params fo) = 63"
  "STEP_MIN_ACCEPTABLE_CONSECUTIVE_STEPS (params fo) = 4" "STEP_MAX_SAMPLES_BEFORE_STATE_CHANGE (params fo) = 42"
  by (simp_all add: params_def)

lemma stage1_init_ok: "length mem = 126 \<Longrightarrow> stage1_ok fo (stage1_init fo (Some mem)) \<and>
    mr_elements (vertical_accel_mod_history (stage1_init fo (Some mem))) = 0"
  by (simp add: stage1_ok_def stage1_init_def zero_ctx_def params_def ring_buffer_init_def history_ok_def
      motion_ring_inv_def gate_ok_def)

text \<open>What the sample loop leaves alone, and how the history grows.\<close>

definition sampled :: "'f stage1_ctx \<Rightarrow> nat \<Rightarrow> 'f stage1_ctx \<Rightarrow> bool" where
  "sampled ctx j ctx' \<longleftrightarrow> motion_mode ctx' = motion_mode ctx \<and> no_motion_window_count ctx' = no_motion_window_count ctx \<and>
     pending_steps ctx' = pending_steps ctx \<and> is_walking ctx' = is_walking ctx \<and>
     samples_since_valid_step ctx' = samples_since_valid_step ctx \<and>
     history_ok (vertical_accel_mod_history ctx') \<and> mr_max_size (vertical_accel_mod_history ctx') = 126 \<and>
     mr_elements (vertical_accel_mod_history ctx') = min 126 (mr_elements (vertical_accel_mod_history ctx) + j)"

lemma decode_total: "j * 6 + 5 < length data \<Longrightarrow> \<exists>v. decode_sample fo data j = Some v"
  by (simp add: decode_sample_def rd_Some Let_def)

lemma sample_step_total:
  assumes "motion_mode ctx0 = MOTION_MODE_ACCEL_ONLY" and "j * 6 + 5 < length data" and "sampled ctx0 j (fst st)"
  shows "\<exists>st'. sample_step fo data j st = Some st' \<and> sampled ctx0 (Suc j) (fst st')"
proof -
  obtain ctx js un where st: "st = (ctx, js, un)" by (cases st) auto
  let ?h = "vertical_accel_mod_history ctx"
  have s: "sampled ctx0 j ctx" using assms(3) st by simp
  then have h: "history_ok ?h" "mr_max_size ?h = 126" and mode: "motion_mode ctx = MOTION_MODE_ACCEL_ONLY"
    using assms(1) by (auto simp: sampled_def)
  obtain cur where cur: "decode_sample fo data j = Some cur"
    using decode_total [OF assms(2)] by blast
  have rdp: "mr_elements ?h \<noteq> 0 \<Longrightarrow> ring_read ?h (mr_elements ?h - 1) = Some (ring_items ?h ! (mr_elements ?h - 1))"
    using history_read [OF h(1), of "mr_elements ?h - 1"] by simp
  obtain v g2 js' un' where run: "sample_step fo data j st =
     Option.bind (ring_buffer_insert ?h v) (\<lambda>h'. Some (ctx\<lparr>gravity_prev := g2, accel_prev := cur, vertical_accel_mod_history := h'\<rparr>, js', un'))"
    using st mode cur rdp by (cases "mr_elements ?h = 0") (auto simp: sample_step_def Let_def)
  obtain h' where h': "ring_buffer_insert ?h v = Some h'" "motion_ring_inv h'" "ring_items h' = last_n 126 (ring_items ?h @ [v])"
    "mr_max_size h' = 126" "mr_elem_size h' = mr_elem_size ?h"
    using ring_insert_items [of ?h v] h by (auto simp: history_ok_def)
  have "mr_elements h' = min 126 (mr_elements ?h + 1)"
    using arg_cong [OF h'(3), of length] by simp
  then show ?thesis
    using run h' s h(1) by (auto simp: sampled_def history_ok_def)
qed

lemma sample_loop:
  assumes "motion_mode ctx = MOTION_MODE_ACCEL_ONLY" and "history_ok (vertical_accel_mod_history ctx)"
    and "mr_max_size (vertical_accel_mod_history ctx) = 126" and "n * 6 \<le> length data"
  shows "\<exists>ctx' js un. mfold (sample_step fo data) [0..<n] (ctx, z, z') = Some (ctx', js, un) \<and> sampled ctx n ctx'"
proof -
  have le: "mr_elements (vertical_accel_mod_history ctx) \<le> 126"
    using assms(2,3) by (auto simp: history_ok_def motion_ring_inv_def)
  have "\<exists>st. mfold (sample_step fo data) [0..<n] (ctx, z, z') = Some st \<and> sampled ctx n (fst st)"
  proof (rule mfold_upt [where P = "\<lambda>i st. sampled ctx i (fst st)"])
    show "sampled ctx 0 (fst (ctx, z, z'))"
      using assms(2,3) le by (simp add: sampled_def)
    fix j and st :: "'a stage1_ctx \<times> 'a \<times> 'a"
    assume "j < n" "sampled ctx j (fst st)"
    then show "\<exists>st'. sample_step fo data j st = Some st' \<and> sampled ctx (Suc j) (fst st')"
      using assms(4) by (intro sample_step_total [OF assms(1)]) auto
  qed simp
  then show ?thesis
    by auto
qed

section \<open>A window aborts exactly when it covers the whole history\<close>

lemma process_run:
  assumes fo: "float_arith fo" and ok: "stage1_ok fo ctx" and len: "bytes div 6 * 6 \<le> length data" and "6 \<le> bytes"
  defines "n \<equiv> bytes div 6"
  defines "els \<equiv> min 126 (mr_elements (vertical_accel_mod_history ctx) + n)"
  shows "if n < els \<or> els < 63
     then \<exists>res' ctx'. stage1_process_motion_data fo data bytes res ctx = Some (res', ctx') \<and> stage1_ok fo ctx' \<and>
       res_steps res' + pending_steps ctx' \<le> pending_steps ctx + (n + 10) div 11 \<and>
       mr_elements (vertical_accel_mod_history ctx') = els
     else stage1_process_motion_data fo data bytes res ctx = None"
proof -
  have n: "0 < n" "n * 6 \<le> length data"
    using assms(4) len unfolding n_def by (simp_all add: div_greater_zero_iff)
  have mode: "motion_mode ctx = MOTION_MODE_ACCEL_ONLY" and h: "history_ok (vertical_accel_mod_history ctx)"
    "mr_max_size (vertical_accel_mod_history ctx) = 126" and cnt: "no_motion_window_count ctx \<le> 15" and g: "gate_ok (params fo) ctx"
    using ok by (auto simp: stage1_ok_def)
  obtain c1 js un where c1: "mfold (sample_step fo data) [0..<n] (ctx, f_lit fo 0 0, f_lit fo 0 0) = Some (c1, js, un)"
    "sampled ctx n c1"
    using sample_loop [OF mode h n(2)] by blast
  obtain nm c2 where c2: "stage1_detect_no_motion fo (params fo) (f_div fo un (f_int fo (int n))) (f_div fo js (f_int fo (int n))) c1 = (nm, c2)"
    by (cases "stage1_detect_no_motion fo (params fo) (f_div fo un (f_int fo (int n))) (f_div fo js (f_int fo (int n))) c1")
  have t: "MIN_WINDOW_NO_MOTION_THRESHOLD (params fo) = 15"
    by (simp add: params_def)
  note nmc = no_motion_counter [OF fo _ _ _ c2, unfolded t]
  have eq2: "c2 = c1\<lparr>no_motion_window_count := no_motion_window_count c2\<rparr>" and le2: "no_motion_window_count c2 \<le> 15"
    using nmc c1(2) cnt by (auto simp: sampled_def)
  have h2: "vertical_accel_mod_history c2 = vertical_accel_mod_history c1" and g2: "gate_ok (params fo) c2"
    and m2: "motion_mode c2 = MOTION_MODE_ACCEL_ONLY" "pending_steps c2 = pending_steps ctx"
    using c1(2) g mode by (subst eq2, simp add: sampled_def gate_ok_def)+
  have els: "mr_elements (vertical_accel_mod_history c2) = els" and hok: "history_ok (vertical_accel_mod_history c2)"
    and mx: "mr_max_size (vertical_accel_mod_history c2) = 126"
    using c1(2) h2 by (auto simp: sampled_def els_def)
  have run: "stage1_process_motion_data fo data bytes res ctx =
     Option.bind (stage1_detect_window_steps fo (params fo) n c2)
       (\<lambda>k. let (a, c3) = stage1_derive_accepted_steps_from_window (params fo) k n c2
            in Some (res\<lparr>no_motion := nm, res_steps := a\<rparr>, c3))"
    using c1(1) c2 n(1) mode assms(4) by (simp add: stage1_process_motion_data_def Let_def n_def)
  show ?thesis
  proof (cases "n < els \<or> els < 63")
    case True
    obtain k where k: "stage1_detect_window_steps fo (params fo) n c2 = Some k" "k \<le> (n + 10) div 11"
      using detect_total [OF fo hok _ params_params_ok [of fo], of n] els True
      by (auto simp: params_fields els_def add.commute [of n])
    obtain a c3 where c3: "stage1_derive_accepted_steps_from_window (params fo) k n c2 = (a, c3)"
      by (cases "stage1_derive_accepted_steps_from_window (params fo) k n c2")
    have "k \<le> 12"
    proof -
      have "n \<le> 126"
        using True by (auto simp: els_def)
      then show ?thesis
        using k(2) by linarith
    qed
    then have "gate_ok (params fo) c3 \<and> a + pending_steps c3 \<le> pending_steps c2 + k \<and>
        vertical_accel_mod_history c3 = vertical_accel_mod_history c2 \<and> motion_mode c3 = motion_mode c2 \<and>
        no_motion_window_count c3 = no_motion_window_count c2"
      using gate_step [OF g2 _ c3] by (simp add: params_fields)
    then show ?thesis
      using True run k c3 els hok mx m2 le2 by (auto simp: stage1_ok_def)
  next
    case False
    obtain slots where "mr_data (vertical_accel_mod_history c2) = Some slots"
      using hok by (auto simp: history_ok_def motion_ring_inv_def split: option.splits)
    then have "stage1_detect_window_steps fo (params fo) n c2 = None"
      using False els n(1) by (simp add: stage1_detect_window_steps_def Let_def params_fields)
    then show ?thesis
      using False run by simp
  qed
qed

text \<open>
  C16: which windows the engine accepts. Started in a well-formed state with the bytes of at least one
  sample, the engine aborts (on the assertion that the window is shorter than the history) exactly when the
  window has 126 samples or more, or when it is the first one and has 63 or more; in every other case it
  returns, keeps its state well-formed, and reports at most the pending steps plus one step per eleven
  samples.
\<close>

theorem stage1_window_accepted_iff:
  assumes "float_arith fo" and "stage1_ok fo ctx" and "bytes div 6 * 6 \<le> length data" and "6 \<le> bytes"
  shows "(stage1_process_motion_data fo data bytes res ctx = None \<longleftrightarrow>
       126 \<le> bytes div 6 \<or> mr_elements (vertical_accel_mod_history ctx) = 0 \<and> 63 \<le> bytes div 6) \<and>
     (\<forall>res' ctx'. stage1_process_motion_data fo data bytes res ctx = Some (res', ctx') \<longrightarrow>
       stage1_ok fo ctx' \<and> res_steps res' + pending_steps ctx' \<le> pending_steps ctx + (bytes div 6 + 10) div 11)"
proof -
  let ?n = "bytes div 6" and ?e = "mr_elements (vertical_accel_mod_history ctx)"
  have "0 < ?n"
    using assms(4) by (simp add: div_greater_zero_iff)
  then have "(?n < min 126 (?e + ?n) \<or> min 126 (?e + ?n) < 63) \<longleftrightarrow> \<not> (126 \<le> ?n \<or> ?e = 0 \<and> 63 \<le> ?n)"
    by auto
  then show ?thesis
    using process_run [OF assms, of res] by (auto split: if_splits)
qed

theorem stage1_window_accepted_iff_witness:
  "stage1_process_motion_data real_ops (replicate 378 0) 378 \<lparr>no_motion = False, res_steps = 0\<rparr>
      (stage1_init real_ops (Some (replicate 126 0))) = None \<and>
   stage1_process_motion_data real_ops (replicate 372 0) 372 \<lparr>no_motion = False, res_steps = 0\<rparr>
      (stage1_init real_ops (Some (replicate 126 0))) \<noteq> None"
proof -
  have "stage1_ok real_ops (stage1_init real_ops (Some (replicate 126 0)))"
    and z: "mr_elements (vertical_accel_mod_history (stage1_init real_ops (Some (replicate 126 0)))) = 0"
    using stage1_init_ok [of "replicate 126 0" real_ops] by simp_all
  note iff = stage1_window_accepted_iff [OF exact.float_arith_axioms this(1), THEN conjunct1]
  show ?thesis
    using iff [of 378 "replicate 378 0"] iff [of 372 "replicate 372 0"] z by simp
qed

text \<open>
  Counting of an uninterrupted walk. Over any sequence of windows whose pauses stay below the
  time-out of 42 samples, the steps counted and the steps pending are together the steps detected; nothing
  is counted before four of them have been seen, and from then on every detected step is.
\<close>

lemma walk_counted:
  assumes "gate_ok (params fo) ctx" and "\<forall>w \<in> set ws. fst w \<le> 251" and "no_timeout (params fo) (samples_since_valid_step ctx) ws"
    and "\<not> is_walking ctx" and "gate_run (params fo) ws ctx = (counted, ctx')"
  shows "counted = (if 4 \<le> pending_steps ctx + sum_list (map fst ws) then pending_steps ctx + sum_list (map fst ws) else 0) \<and>
     (is_walking ctx' \<longleftrightarrow> 4 \<le> pending_steps ctx + sum_list (map fst ws))"
proof -
  have b: "\<forall>w \<in> set ws. fst w + STEP_MIN_ACCEPTABLE_CONSECUTIVE_STEPS (params fo) \<le> 255"
    using assms(2) by (auto simp: params_fields)
  have "counted + pending_steps ctx' = pending_steps ctx + sum_list (map fst ws)"
    and w: "is_walking ctx' \<longleftrightarrow> 4 \<le> pending_steps ctx + sum_list (map fst ws)"
    using gate_run_walk [OF assms(1) b _ assms(3,5)] assms(4) by (simp_all add: params_fields)
  moreover have "\<not> is_walking ctx' \<longrightarrow> counted = 0"
    using gate_run_walk [OF assms(1) b _ assms(3,5)] by (simp add: params_fields)
  moreover have "is_walking ctx' \<longrightarrow> pending_steps ctx' = 0"
    using gate_run_bounded [OF assms(1) b assms(5)] by (simp add: gate_ok_def)
  ultimately show ?thesis
    by auto
qed

lemma walk_counted_witness:
  "fst (gate_run (params real_ops) [(1, 21), (0, 21), (2, 21)] (zero_ctx real_ops)) = 0 \<and>
   fst (gate_run (params real_ops) [(1, 21), (0, 21), (2, 21), (2, 21)] (zero_ctx real_ops)) = 5"
proof -
  have ok: "gate_ok (params real_ops) (zero_ctx real_ops)" and nw: "\<not> is_walking (zero_ctx real_ops)"
    by (simp_all add: gate_ok_def params_fields zero_ctx_def)
  note run = walk_counted [OF ok _ _ nw, THEN conjunct1]
  show ?thesis
    using run [of "[(1, 21), (0, 21), (2, 21)]"] run [of "[(1, 21), (0, 21), (2, 21), (2, 21)]"]
    by (auto simp: params_fields zero_ctx_def prod_eq_iff simp del: gate_run.simps)
qed

end
