(* ===== verification/Imu_Driver.thy ===== *)
theory Imu_Driver
  imports Locks "HOL-Library.Word" "HOL-Library.Monad_Syntax"
begin

unbundle bit_operations_syntax

text \<open>
  The driver of the inertial sensor (\<open>components/QMI8658A_driver\<close>): register access over SPI
  (\<open>imu_driver_internal.c\<close>), the command sequences and the CTRL9 handshake (\<open>imu_driver.c\<close>).

  The SPI transfer is a parameter: a function of the bytes sent and of the device's state, giving whether
  the transfer succeeded, the bytes received and the new state. The state of the driver adds the sleep
  lock and the milliseconds spent in \<open>vTaskDelay\<close>. An operation returns an error code and the new state,
  and is \<open>None\<close> where the code aborts, calls through a null pointer or leaves a buffer.
\<close>

section \<open>Registers and masks\<close>

definition QMI8658A_WHO_AM_I_VAL :: byte where "QMI8658A_WHO_AM_I_VAL = 5"
definition QMI8658A_REVISION_ID :: byte where "QMI8658A_REVISION_ID = 124"
definition QMI8658A_RESET_CMD :: byte where "QMI8658A_RESET_CMD = 176"
definition QMI8658A_REG_WHO_AM_I :: byte where "QMI8658A_REG_WHO_AM_I = 0"
definition QMI8658A_REG_REVISION_ID :: byte where "QMI8658A_REG_REVISION_ID = 1"
definition QMI8658A_REG_CTRL1 :: byte where "QMI8658A_REG_CTRL1 = 2"
definition QMI8658A_REG_CTRL2 :: byte where "QMI8658A_REG_CTRL2 = 3"
definition QMI8658A_REG_CTRL3 :: byte where "QMI8658A_REG_CTRL3 = 4"
definition QMI8658A_REG_CTRL7 :: byte where "QMI8658A_REG_CTRL7 = 8"
definition QMI8658A_REG_CTRL8 :: byte where "QMI8658A_REG_CTRL8 = 9"
definition QMI8658A_REG_CTRL9 :: byte where "QMI8658A_REG_CTRL9 = 10"
definition QMI8658A_REG_CAL1_L :: byte where "QMI8658A_REG_CAL1_L = 11"
definition QMI8658A_REG_CAL1_H :: byte where "QMI8658A_REG_CAL1_H = 12"
definition QMI8658A_REG_CAL2_L :: byte where "QMI8658A_REG_CAL2_L = 13"
definition QMI8658A_REG_CAL2_H :: byte where "QMI8658A_REG_CAL2_H = 14"
definition QMI8658A_REG_CAL3_L :: byte where "QMI8658A_REG_CAL3_L = 15"
definition QMI8658A_REG_CAL3_H :: byte where "QMI8658A_REG_CAL3_H = 16"
definition QMI8658A_REG_CAL4_L :: byte where "QMI8658A_REG_CAL4_L = 17"
definition QMI8658A_REG_CAL4_H :: byte where "QMI8658A_REG_CAL4_H = 18"
definition QMI8658A_REG_FIFO_CTRL :: byte where "QMI8658A_REG_FIFO_CTRL = 20"
definition QMI8658A_REG_FIFO_SMPL_CNT :: byte where "QMI8658A_REG_FIFO_SMPL_CNT = 21"
definition QMI8658A_REG_FIFO_DATA :: byte where "QMI8658A_REG_FIFO_DATA = 23"
definition QMI8658A_REG_STATUSINT :: byte where "QMI8658A_REG_STATUSINT = 45"
definition QMI8658A_REG_STATUS1 :: byte where "QMI8658A_REG_STATUS1 = 47"
definition QMI8658A_REG_TEMP_L :: byte where "QMI8658A_REG_TEMP_L = 51"
definition QMI8658A_REG_STEP_CNT_LOW :: byte where "QMI8658A_REG_STEP_CNT_LOW = 90"
definition QMI8658A_REG_RESET :: byte where "QMI8658A_REG_RESET = 96"
definition QMI8658A_CTRL1_ADDR_AI_MASK :: byte where "QMI8658A_CTRL1_ADDR_AI_MASK = 64"
definition QMI8658A_CTRL1_BE_MASK :: byte where "QMI8658A_CTRL1_BE_MASK = 32"
definition QMI8658A_CTRL1_INT2_EN_MASK :: byte where "QMI8658A_CTRL1_INT2_EN_MASK = 16"
definition QMI8658A_CTRL1_INT1_EN_MASK :: byte where "QMI8658A_CTRL1_INT1_EN_MASK = 8"
definition QMI8658A_ACCEL_FS_8G :: byte where "QMI8658A_ACCEL_FS_8G = 32"
definition QMI8658A_ACCEL_ODR_62_5HZ :: byte where "QMI8658A_ACCEL_ODR_62_5HZ = 7"
definition QMI8658A_ACCEL_ODR_LP_21HZ :: byte where "QMI8658A_ACCEL_ODR_LP_21HZ = 13"
definition QMI8658A_GYRO_FS_1024DPS :: byte where "QMI8658A_GYRO_FS_1024DPS = 96"
definition QMI8658A_GYRO_ODR_56_05HZ :: byte where "QMI8658A_GYRO_ODR_56_05HZ = 7"
definition QMI8658A_CTRL7_DRDY_DIS_MASK :: byte where "QMI8658A_CTRL7_DRDY_DIS_MASK = 32"
definition QMI8658A_CTRL7_GEN_MASK :: byte where "QMI8658A_CTRL7_GEN_MASK = 2"
definition QMI8658A_CTRL7_AEN_MASK :: byte where "QMI8658A_CTRL7_AEN_MASK = 1"
definition QMI8658A_CTRL8_CTRL9_HANDSHAKE_TYPE :: byte where "QMI8658A_CTRL8_CTRL9_HANDSHAKE_TYPE = 128"
definition QMI8658A_CTRL8_PEDO_EN_MASK :: byte where "QMI8658A_CTRL8_PEDO_EN_MASK = 16"
definition QMI8658A_CTRL8_NO_MOTION_EN_MASK :: byte where "QMI8658A_CTRL8_NO_MOTION_EN_MASK = 4"
definition QMI8658A_FIFO_CTRL_RD_MODE_MASK :: byte where "QMI8658A_FIFO_CTRL_RD_MODE_MASK = 128"
definition QMI8658A_FIFO_SIZE_128_SAMPLES :: byte where "QMI8658A_FIFO_SIZE_128_SAMPLES = 12"
definition QMI8658A_FIFO_MODE_STREAM :: byte where "QMI8658A_FIFO_MODE_STREAM = 2"
definition QMI8658A_STATUSINT_CMD_DONE_MASK :: byte where "QMI8658A_STATUSINT_CMD_DONE_MASK = 128"
definition QMI8658A_STATUS1_NO_MOTION :: byte where "QMI8658A_STATUS1_NO_MOTION = 64"
definition QMI8658A_STATUS1_WOM :: byte where "QMI8658A_STATUS1_WOM = 4"
definition QMI8658A_CTRL9_CMD_ACK :: byte where "QMI8658A_CTRL9_CMD_ACK = 0"
definition QMI8658A_CTRL9_CMD_RST_FIFO :: byte where "QMI8658A_CTRL9_CMD_RST_FIFO = 4"
definition QMI8658A_CTRL9_CMD_REQ_FIFO :: byte where "QMI8658A_CTRL9_CMD_REQ_FIFO = 5"
definition QMI8658A_CTRL9_CMD_WRITE_WOM_SETTING :: byte where "QMI8658A_CTRL9_CMD_WRITE_WOM_SETTING = 8"
definition QMI8658A_CTRL9_CMD_CONFIGURE_PEDOMETER :: byte where "QMI8658A_CTRL9_CMD_CONFIGURE_PEDOMETER = 13"
definition QMI8658A_CTRL9_CMD_CONFIGURE_MOTION :: byte where "QMI8658A_CTRL9_CMD_CONFIGURE_MOTION = 14"
definition QMI8658A_CTRL9_CMD_RESET_PEDOMETER :: byte where "QMI8658A_CTRL9_CMD_RESET_PEDOMETER = 15"

lemmas imu_regs =
  QMI8658A_WHO_AM_I_VAL_def QMI8658A_REVISION_ID_def QMI8658A_RESET_CMD_def QMI8658A_REG_WHO_AM_I_def
  QMI8658A_REG_REVISION_ID_def QMI8658A_REG_CTRL1_def QMI8658A_REG_CTRL2_def QMI8658A_REG_CTRL3_def
  QMI8658A_REG_CTRL7_def QMI8658A_REG_CTRL8_def QMI8658A_REG_CTRL9_def QMI8658A_REG_CAL1_L_def
  QMI8658A_REG_CAL1_H_def QMI8658A_REG_CAL2_L_def QMI8658A_REG_CAL2_H_def QMI8658A_REG_CAL3_L_def
  QMI8658A_REG_CAL3_H_def QMI8658A_REG_CAL4_L_def QMI8658A_REG_CAL4_H_def QMI8658A_REG_FIFO_CTRL_def
  QMI8658A_REG_FIFO_SMPL_CNT_def QMI8658A_REG_FIFO_DATA_def QMI8658A_REG_STATUSINT_def QMI8658A_REG_STATUS1_def
  QMI8658A_REG_TEMP_L_def QMI8658A_REG_STEP_CNT_LOW_def QMI8658A_REG_RESET_def QMI8658A_CTRL1_ADDR_AI_MASK_def
  QMI8658A_CTRL1_BE_MASK_def QMI8658A_CTRL1_INT2_EN_MASK_def QMI8658A_CTRL1_INT1_EN_MASK_def QMI8658A_ACCEL_FS_8G_def
  QMI8658A_ACCEL_ODR_62_5HZ_def QMI8658A_ACCEL_ODR_LP_21HZ_def QMI8658A_GYRO_FS_1024DPS_def
  QMI8658A_GYRO_ODR_56_05HZ_def QMI8658A_CTRL7_DRDY_DIS_MASK_def QMI8658A_CTRL7_GEN_MASK_def
  QMI8658A_CTRL7_AEN_MASK_def QMI8658A_CTRL8_CTRL9_HANDSHAKE_TYPE_def QMI8658A_CTRL8_PEDO_EN_MASK_def
  QMI8658A_CTRL8_NO_MOTION_EN_MASK_def QMI8658A_FIFO_CTRL_RD_MODE_MASK_def QMI8658A_FIFO_SIZE_128_SAMPLES_def
  QMI8658A_FIFO_MODE_STREAM_def QMI8658A_STATUSINT_CMD_DONE_MASK_def QMI8658A_STATUS1_NO_MOTION_def
  QMI8658A_STATUS1_WOM_def QMI8658A_CTRL9_CMD_ACK_def QMI8658A_CTRL9_CMD_RST_FIFO_def QMI8658A_CTRL9_CMD_REQ_FIFO_def
  QMI8658A_CTRL9_CMD_WRITE_WOM_SETTING_def QMI8658A_CTRL9_CMD_CONFIGURE_PEDOMETER_def
  QMI8658A_CTRL9_CMD_CONFIGURE_MOTION_def QMI8658A_CTRL9_CMD_RESET_PEDOMETER_def

section \<open>State and bus access\<close>

datatype imu_err = IMU_OK | IMU_INVALID_CONFIG | IMU_FAILED

record qmi8658_cmd =
  reg_addr :: byte
  cmd_data :: byte
  delay_ms :: nat

record ('b, 's) imu_env =
  spi_device_transmit :: "byte list \<Rightarrow> 'b \<Rightarrow> bool \<times> byte list \<times> 'b"
  imu_lock_impl :: "'s lock_impl"
  buffer_dma_capable :: bool

text \<open>\<open>imu_interface\<close> says that the function pointers and the handle of the interface are set.\<close>

record ('b, 's) imu_state =
  spi_device :: bool
  imu_interface :: bool
  imu_dev :: 'b
  imu_lock :: 's
  imu_waited :: nat

type_synonym ('b, 's) imu_op = "('b, 's) imu_state \<Rightarrow> (imu_err \<times> ('b, 's) imu_state) option"

definition MAX_SINGLE_REG_DATA_LEN :: nat where "MAX_SINGLE_REG_DATA_LEN = 3"

text \<open>The receive buffer starts out as zero, so a short answer is padded.\<close>

definition rx_bytes :: "byte list \<Rightarrow> nat \<Rightarrow> byte list" where
  "rx_bytes rx n = take n (rx @ replicate n 0)"

definition esp32_imu_reg_read ::
  "('b, 's) imu_env \<Rightarrow> byte \<Rightarrow> nat \<Rightarrow> ('b, 's) imu_state \<Rightarrow> imu_err \<times> byte list \<times> ('b, 's) imu_state" where
  "esp32_imu_reg_read env reg len s =
     (if \<not> spi_device s then (IMU_FAILED, [], s)
      else if len > MAX_SINGLE_REG_DATA_LEN then (IMU_INVALID_CONFIG, [], s)
      else
        let (ret, rx, d) = spi_device_transmit env ((reg OR 0x80) # replicate len 0) (imu_dev s)
        in if ret then (IMU_OK, tl (rx_bytes rx (1 + len)), s\<lparr>imu_dev := d\<rparr>) else (IMU_FAILED, [], s\<lparr>imu_dev := d\<rparr>))"

definition esp32_imu_reg_write ::
  "('b, 's) imu_env \<Rightarrow> byte \<Rightarrow> byte list \<Rightarrow> ('b, 's) imu_state \<Rightarrow> imu_err \<times> ('b, 's) imu_state" where
  "esp32_imu_reg_write env reg data s =
     (if \<not> spi_device s then (IMU_FAILED, s)
      else if length data > MAX_SINGLE_REG_DATA_LEN then (IMU_INVALID_CONFIG, s)
      else
        let (ret, rx, d) = spi_device_transmit env ((reg AND 0x7F) # data) (imu_dev s)
        in (if ret then IMU_OK else IMU_FAILED, s\<lparr>imu_dev := d\<rparr>))"

text \<open>The transfer is one byte longer than the requested length, and the buffer receives all of it.\<close>

definition esp32_imu_fifo_read ::
  "('b, 's) imu_env \<Rightarrow> byte \<Rightarrow> byte list \<Rightarrow> nat \<Rightarrow> ('b, 's) imu_state \<Rightarrow> (imu_err \<times> byte list \<times> ('b, 's) imu_state) option" where
  "esp32_imu_fifo_read env reg buf len s =
     (if \<not> spi_device s then Some (IMU_FAILED, buf, s)
      else if len = 0 then Some (IMU_INVALID_CONFIG, buf, s)
      else if \<not> buffer_dma_capable env then Some (IMU_FAILED, buf, s)
      else do {
        buf1 \<leftarrow> mem_write buf 0 [reg OR 0x80];
        tx \<leftarrow> mem_read buf1 0 (1 + len);
        let (ret, rx, d) = spi_device_transmit env tx (imu_dev s)
        in do {
          buf2 \<leftarrow> mem_write buf1 0 (rx_bytes rx (1 + len));
          Some (if ret then IMU_OK else IMU_FAILED, buf2, s\<lparr>imu_dev := d\<rparr>)
        }
      })"

definition esp32_imu_init :: "bool \<Rightarrow> bool \<Rightarrow> ('b, 's) imu_state \<Rightarrow> ('b, 's) imu_state option" where
  "esp32_imu_init bus_ok add_ok s =
     (if \<not> bus_ok \<or> \<not> add_ok then None else Some (s\<lparr>spi_device := True, imu_interface := True\<rparr>))"

definition esp32_imu_deinit :: "bool \<Rightarrow> ('b, 's) imu_state \<Rightarrow> ('b, 's) imu_state" where
  "esp32_imu_deinit remove_ok s = (if spi_device s \<and> remove_ok then s\<lparr>spi_device := False\<rparr> else s)"

text \<open>
  Calls through the interface. \<open>imu_rd\<close> reads registers and goes on with their contents, or undoes what
  \<open>fail\<close> says and returns the error; \<open>imu_wr\<close> writes one register; \<open>imu_seq\<close> runs operations up to
  the first error.
\<close>

definition imu_rd ::
  "('b, 's) imu_env \<Rightarrow> byte \<Rightarrow> nat \<Rightarrow> (('b, 's) imu_state \<Rightarrow> ('b, 's) imu_state) \<Rightarrow> (byte list \<Rightarrow> ('b, 's) imu_op) \<Rightarrow> ('b, 's) imu_op" where
  "imu_rd env reg len fail k s =
     (if \<not> imu_interface s then None
      else let (e, data, s1) = esp32_imu_reg_read env reg len s
           in if e \<noteq> IMU_OK then Some (e, fail s1) else k data s1)"

definition imu_wr :: "('b, 's) imu_env \<Rightarrow> byte \<Rightarrow> byte \<Rightarrow> ('b, 's) imu_op" where
  "imu_wr env reg b s = (if \<not> imu_interface s then None else Some (esp32_imu_reg_write env reg [b] s))"

definition imu_then :: "('b, 's) imu_op \<Rightarrow> ('b, 's) imu_op \<Rightarrow> ('b, 's) imu_op" where
  "imu_then m k s = do { (e, s1) \<leftarrow> m s; if e \<noteq> IMU_OK then Some (e, s1) else k s1 }"

primrec imu_seq :: "('b, 's) imu_op list \<Rightarrow> ('b, 's) imu_op" where
  "imu_seq [] = (\<lambda>s. Some (IMU_OK, s))"
| "imu_seq (m # ms) = imu_then m (imu_seq ms)"

definition take_lock :: "('b, 's) imu_env \<Rightarrow> ('b, 's) imu_state \<Rightarrow> ('b, 's) imu_state" where
  "take_lock env s = s\<lparr>imu_lock := sleep_lock_service_acquire_lock (imu_lock_impl env) (imu_lock s)\<rparr>"

definition drop_lock :: "('b, 's) imu_env \<Rightarrow> ('b, 's) imu_state \<Rightarrow> ('b, 's) imu_state" where
  "drop_lock env s = s\<lparr>imu_lock := sleep_lock_service_release_lock (imu_lock_impl env) (imu_lock s)\<rparr>"

definition delay :: "nat \<Rightarrow> ('b, 's) imu_state \<Rightarrow> ('b, 's) imu_state" where
  "delay ms s = s\<lparr>imu_waited := imu_waited s + ms\<rparr>"

section \<open>Command sequences\<close>

definition init_cmds :: "qmi8658_cmd list" where
  "init_cmds =
     [\<lparr>reg_addr = QMI8658A_REG_CTRL1,
       cmd_data = QMI8658A_CTRL1_ADDR_AI_MASK OR QMI8658A_CTRL1_INT1_EN_MASK OR QMI8658A_CTRL1_BE_MASK OR QMI8658A_CTRL1_INT2_EN_MASK,
       delay_ms = 10\<rparr>,
      \<lparr>reg_addr = QMI8658A_REG_CTRL8, cmd_data = QMI8658A_CTRL8_CTRL9_HANDSHAKE_TYPE, delay_ms = 0\<rparr>,
      \<lparr>reg_addr = QMI8658A_REG_FIFO_CTRL, cmd_data = QMI8658A_FIFO_MODE_STREAM OR QMI8658A_FIFO_SIZE_128_SAMPLES, delay_ms = 0\<rparr>,
      \<lparr>reg_addr = QMI8658A_REG_CTRL2, cmd_data = QMI8658A_ACCEL_FS_8G OR QMI8658A_ACCEL_ODR_LP_21HZ, delay_ms = 120\<rparr>,
      \<lparr>reg_addr = QMI8658A_REG_CTRL7, cmd_data = QMI8658A_CTRL7_DRDY_DIS_MASK OR QMI8658A_CTRL7_AEN_MASK, delay_ms = 5\<rparr>]"

definition high_accuracy_cmds :: "qmi8658_cmd list" where
  "high_accuracy_cmds =
     [\<lparr>reg_addr = QMI8658A_REG_CTRL7, cmd_data = 0, delay_ms = 1\<rparr>,
      \<lparr>reg_addr = QMI8658A_REG_CTRL2, cmd_data = QMI8658A_ACCEL_FS_8G OR QMI8658A_ACCEL_ODR_62_5HZ, delay_ms = 0\<rparr>,
      \<lparr>reg_addr = QMI8658A_REG_CTRL3, cmd_data = QMI8658A_GYRO_FS_1024DPS OR QMI8658A_GYRO_ODR_56_05HZ, delay_ms = 5\<rparr>,
      \<lparr>reg_addr = QMI8658A_REG_CTRL7,
       cmd_data = QMI8658A_CTRL7_DRDY_DIS_MASK OR QMI8658A_CTRL7_AEN_MASK OR QMI8658A_CTRL7_GEN_MASK, delay_ms = 0\<rparr>]"

definition lp_accel_only_cmds :: "qmi8658_cmd list" where
  "lp_accel_only_cmds =
     [\<lparr>reg_addr = QMI8658A_REG_CTRL7, cmd_data = 0, delay_ms = 1\<rparr>,
      \<lparr>reg_addr = QMI8658A_REG_CTRL2, cmd_data = QMI8658A_ACCEL_FS_8G OR QMI8658A_ACCEL_ODR_LP_21HZ, delay_ms = 5\<rparr>,
      \<lparr>reg_addr = QMI8658A_REG_CTRL7,
       cmd_data = (QMI8658A_CTRL7_DRDY_DIS_MASK OR QMI8658A_CTRL7_AEN_MASK) AND NOT QMI8658A_CTRL7_GEN_MASK, delay_ms = 0\<rparr>]"

primrec cmd_loop :: "('b, 's) imu_env \<Rightarrow> qmi8658_cmd list \<Rightarrow> ('b, 's) imu_op" where
  "cmd_loop env [] s = Some (IMU_OK, drop_lock env s)"
| "cmd_loop env (c # cs) s =
     do {
       (success, s1) \<leftarrow> imu_wr env (reg_addr c) (cmd_data c) s;
       if success \<noteq> IMU_OK then Some (success, drop_lock env s1)
       else cmd_loop env cs (if delay_ms c \<noteq> 0 then delay (delay_ms c) s1 else s1)
     }"

definition execute_sequential_cmds :: "('b, 's) imu_env \<Rightarrow> qmi8658_cmd list \<Rightarrow> ('b, 's) imu_op" where
  "execute_sequential_cmds env cmds s = (if cmds = [] then None else cmd_loop env cmds (take_lock env s))"

text \<open>The handshake polls the status every 5 ms, for at most 120 ms.\<close>

function handshake_loop :: "('b, 's) imu_env \<Rightarrow> bool \<Rightarrow> nat \<Rightarrow> ('b, 's) imu_op" where
  "handshake_loop env ack_sent elapsed_ms s =
     (if elapsed_ms < 120
      then imu_rd env QMI8658A_REG_STATUSINT 1 (drop_lock env)
        (\<lambda>data s1.
           let status = hd data in
           if ack_sent \<and> status AND QMI8658A_STATUSINT_CMD_DONE_MASK = 0 then Some (IMU_OK, drop_lock env s1)
           else if \<not> ack_sent \<and> status AND QMI8658A_STATUSINT_CMD_DONE_MASK = QMI8658A_STATUSINT_CMD_DONE_MASK
           then do {
             (success, s2) \<leftarrow> imu_wr env QMI8658A_REG_CTRL9 QMI8658A_CTRL9_CMD_ACK s1;
             if success \<noteq> IMU_OK then Some (success, drop_lock env s2)
             else handshake_loop env True (elapsed_ms + 5) (delay 5 s2)
           }
           else handshake_loop env ack_sent (elapsed_ms + 5) (delay 5 s1)) s
      else Some (IMU_FAILED, drop_lock env s))"
  by pat_completeness auto
termination
  by (relation "measure (\<lambda>(env, ack_sent, elapsed_ms, s). 120 - elapsed_ms)") auto

declare handshake_loop.simps [simp del]

definition ctrl9_handshake :: "('b, 's) imu_env \<Rightarrow> byte \<Rightarrow> ('b, 's) imu_op" where
  "ctrl9_handshake env cmd =
     imu_then (imu_wr env QMI8658A_REG_CTRL9 cmd) (\<lambda>s. handshake_loop env False 0 (take_lock env s))"

definition imu_reset :: "('b, 's) imu_env \<Rightarrow> ('b, 's) imu_op" where
  "imu_reset env s0 =
     (let s = take_lock env s0 in do {
        (success, s1) \<leftarrow> imu_wr env QMI8658A_REG_RESET QMI8658A_RESET_CMD s;
        if success \<noteq> IMU_OK then Some (success, drop_lock env s1)
        else if \<not> imu_interface s1 then None
        else
          let (success, dev, s2) = esp32_imu_reg_read env QMI8658A_REG_WHO_AM_I 1 (delay 15 s1)
          in if success \<noteq> IMU_OK \<or> hd dev \<noteq> QMI8658A_WHO_AM_I_VAL then Some (IMU_FAILED, drop_lock env s2)
             else Some (success, drop_lock env s2)
      })"

text \<open>Reading an identification register: any mismatch is a failure.\<close>

definition check_id :: "('b, 's) imu_env \<Rightarrow> byte \<Rightarrow> byte \<Rightarrow> ('b, 's) imu_op" where
  "check_id env reg expected s =
     (if \<not> imu_interface s then None
      else let (success, dev, s1) = esp32_imu_reg_read env reg 1 s
           in Some (if success \<noteq> IMU_OK \<or> hd dev \<noteq> expected then IMU_FAILED else IMU_OK, s1))"

definition imu_init :: "('b, 's) imu_env \<Rightarrow> bool \<Rightarrow> bool \<Rightarrow> ('b, 's) imu_op" where
  "imu_init env bus_ok add_ok s =
     do {
       s1 \<leftarrow> esp32_imu_init bus_ok add_ok s;
       imu_seq [imu_reset env, check_id env QMI8658A_REG_WHO_AM_I QMI8658A_WHO_AM_I_VAL,
                check_id env QMI8658A_REG_REVISION_ID QMI8658A_REVISION_ID, execute_sequential_cmds env init_cmds] s1
     }"

section \<open>Sensors and power modes\<close>

text \<open>Read CTRL7, change it by \<open>f\<close>, write it back and wait, under the sleep lock.\<close>

definition update_ctrl7 :: "('b, 's) imu_env \<Rightarrow> (byte \<Rightarrow> byte) \<Rightarrow> ('b, 's) imu_op" where
  "update_ctrl7 env f s =
     imu_rd env QMI8658A_REG_CTRL7 1 (drop_lock env)
       (\<lambda>data s1. do {
          (success, s2) \<leftarrow> imu_wr env QMI8658A_REG_CTRL7 (f (hd data)) s1;
          Some (success, drop_lock env (delay 120 s2))
        }) (take_lock env s)"

definition imu_enable_accelerometer :: "('b, 's) imu_env \<Rightarrow> ('b, 's) imu_op" where
  "imu_enable_accelerometer env = update_ctrl7 env (\<lambda>data. data OR QMI8658A_CTRL7_AEN_MASK)"

definition imu_disable_accelerometer :: "('b, 's) imu_env \<Rightarrow> ('b, 's) imu_op" where
  "imu_disable_accelerometer env = update_ctrl7 env (\<lambda>data. data AND NOT QMI8658A_CTRL7_AEN_MASK)"

definition imu_enable_gyro :: "('b, 's) imu_env \<Rightarrow> ('b, 's) imu_op" where
  "imu_enable_gyro env = update_ctrl7 env (\<lambda>data. data OR QMI8658A_CTRL7_GEN_MASK)"

definition imu_disable_gyro :: "('b, 's) imu_env \<Rightarrow> ('b, 's) imu_op" where
  "imu_disable_gyro env = update_ctrl7 env (\<lambda>data. data AND NOT QMI8658A_CTRL7_GEN_MASK)"

definition imu_enter_high_accuracy_mode :: "('b, 's) imu_env \<Rightarrow> ('b, 's) imu_op" where
  "imu_enter_high_accuracy_mode env = execute_sequential_cmds env high_accuracy_cmds"

definition imu_enter_low_power_accel_only_mode :: "('b, 's) imu_env \<Rightarrow> ('b, 's) imu_op" where
  "imu_enter_low_power_accel_only_mode env = execute_sequential_cmds env lp_accel_only_cmds"

definition imu_enter_low_power_mode :: "('b, 's) imu_env \<Rightarrow> ('b, 's) imu_op" where
  "imu_enter_low_power_mode env =
     imu_rd env QMI8658A_REG_CTRL7 1 id
       (\<lambda>data. imu_wr env QMI8658A_REG_CTRL7
                 ((hd data AND NOT QMI8658A_CTRL7_AEN_MASK) AND NOT QMI8658A_CTRL7_GEN_MASK))"

section \<open>Configuration of the motion functions\<close>

definition accel_enabled :: "byte \<Rightarrow> bool" where
  "accel_enabled data \<longleftrightarrow> data AND QMI8658A_CTRL7_AEN_MASK = QMI8658A_CTRL7_AEN_MASK"

definition gyro_enabled :: "byte \<Rightarrow> bool" where
  "gyro_enabled data \<longleftrightarrow> data AND QMI8658A_CTRL7_GEN_MASK = QMI8658A_CTRL7_GEN_MASK"

text \<open>The end of every configuration: the sensors that were on are switched on again.\<close>

definition restore_sensors :: "('b, 's) imu_env \<Rightarrow> byte \<Rightarrow> ('b, 's) imu_op" where
  "restore_sensors env data =
     imu_seq [if accel_enabled data then imu_enable_accelerometer env else (\<lambda>s. Some (IMU_OK, s)),
              if gyro_enabled data then imu_enable_gyro env else (\<lambda>s. Some (IMU_OK, s))]"

definition pedometer_settings :: "('b, 's) imu_env \<Rightarrow> ('b, 's) imu_op list" where
  "pedometer_settings env =
     [imu_wr env QMI8658A_REG_CAL1_L 10, imu_wr env QMI8658A_REG_CAL1_H 0,
      imu_wr env QMI8658A_REG_CAL2_L 0x40, imu_wr env QMI8658A_REG_CAL2_H 0x01,
      imu_wr env QMI8658A_REG_CAL3_L 0xA0, imu_wr env QMI8658A_REG_CAL3_H 0x00,
      imu_wr env QMI8658A_REG_CAL4_H 0x10, ctrl9_handshake env QMI8658A_CTRL9_CMD_CONFIGURE_PEDOMETER,
      imu_wr env QMI8658A_REG_CAL1_L 31, imu_wr env QMI8658A_REG_CAL1_H 0,
      imu_wr env QMI8658A_REG_CAL2_L 6, imu_wr env QMI8658A_REG_CAL2_H 5,
      imu_wr env QMI8658A_REG_CAL3_L 0, imu_wr env QMI8658A_REG_CAL3_H 1,
      imu_wr env QMI8658A_REG_CAL4_H 0x20, ctrl9_handshake env QMI8658A_CTRL9_CMD_CONFIGURE_PEDOMETER]"

text \<open>Under the sleep lock: wait, then set the enable bit of the pedometer.\<close>

definition set_pedo_enable :: "('b, 's) imu_env \<Rightarrow> ('b, 's) imu_op" where
  "set_pedo_enable env s =
     imu_rd env QMI8658A_REG_CTRL8 1 (drop_lock env)
       (\<lambda>data s1. do {
          (success, s2) \<leftarrow> imu_wr env QMI8658A_REG_CTRL8 (hd data OR QMI8658A_CTRL8_PEDO_EN_MASK) s1;
          Some (success, drop_lock env s2)
        }) (delay 120 (take_lock env s))"

definition imu_enable_pedometer :: "('b, 's) imu_env \<Rightarrow> ('b, 's) imu_op" where
  "imu_enable_pedometer env =
     imu_rd env QMI8658A_REG_CTRL7 1 id
       (\<lambda>data. imu_seq ([imu_enter_low_power_mode env] @ pedometer_settings env @ [restore_sensors env (hd data), set_pedo_enable env]))"

definition imu_disable_pedometer :: "('b, 's) imu_env \<Rightarrow> ('b, 's) imu_op" where
  "imu_disable_pedometer env =
     imu_rd env QMI8658A_REG_CTRL8 1 id
       (\<lambda>data. imu_wr env QMI8658A_REG_CTRL8 (hd data AND NOT QMI8658A_CTRL8_PEDO_EN_MASK))"

definition imu_reset_pedometer :: "('b, 's) imu_env \<Rightarrow> ('b, 's) imu_op" where
  "imu_reset_pedometer env = ctrl9_handshake env QMI8658A_CTRL9_CMD_RESET_PEDOMETER"

text \<open>The wait under the sleep lock happens before the error code of the mode change is looked at.\<close>

definition imu_setup_wake_on_motion :: "('b, 's) imu_env \<Rightarrow> ('b, 's) imu_op" where
  "imu_setup_wake_on_motion env =
     imu_rd env QMI8658A_REG_CTRL7 1 id
       (\<lambda>data s. do {
          (success, s1) \<leftarrow> imu_enter_low_power_mode env s;
          let s2 = drop_lock env (delay 120 (take_lock env s1)) in
          if success \<noteq> IMU_OK then Some (success, s2)
          else imu_seq [imu_wr env QMI8658A_REG_CAL1_L 100, imu_wr env QMI8658A_REG_CAL1_H 15,
                        ctrl9_handshake env QMI8658A_CTRL9_CMD_WRITE_WOM_SETTING, restore_sensors env (hd data)] s2
        })"

definition no_motion_settings :: "('b, 's) imu_env \<Rightarrow> ('b, 's) imu_op list" where
  "no_motion_settings env =
     [imu_wr env QMI8658A_REG_CAL1_L 3, imu_wr env QMI8658A_REG_CAL1_H 3,
      imu_wr env QMI8658A_REG_CAL2_L 3, imu_wr env QMI8658A_REG_CAL2_H 2,
      imu_wr env QMI8658A_REG_CAL3_L 2, imu_wr env QMI8658A_REG_CAL3_H 2,
      imu_wr env QMI8658A_REG_CAL4_L 0xF7, imu_wr env QMI8658A_REG_CAL4_H 0x10,
      ctrl9_handshake env QMI8658A_CTRL9_CMD_CONFIGURE_MOTION,
      imu_wr env QMI8658A_REG_CAL1_L 2, imu_wr env QMI8658A_REG_CAL1_H 15,
      imu_wr env QMI8658A_REG_CAL2_L 0xE8, imu_wr env QMI8658A_REG_CAL2_H 0x03,
      imu_wr env QMI8658A_REG_CAL3_L 0xE8, imu_wr env QMI8658A_REG_CAL3_H 0x03,
      imu_wr env QMI8658A_REG_CAL4_H 0x20, ctrl9_handshake env QMI8658A_CTRL9_CMD_CONFIGURE_MOTION]"

definition imu_setup_detect_no_motion :: "('b, 's) imu_env \<Rightarrow> ('b, 's) imu_op" where
  "imu_setup_detect_no_motion env =
     imu_rd env QMI8658A_REG_CTRL7 1 id
       (\<lambda>data. imu_seq ([imu_enter_low_power_mode env] @ no_motion_settings env @
          [imu_rd env QMI8658A_REG_CTRL8 1 id
             (\<lambda>ctrl8. imu_wr env QMI8658A_REG_CTRL8 (hd ctrl8 OR QMI8658A_CTRL8_NO_MOTION_EN_MASK)),
           restore_sensors env (hd data)]))"

definition imu_disable_detect_no_motion :: "('b, 's) imu_env \<Rightarrow> ('b, 's) imu_op" where
  "imu_disable_detect_no_motion env =
     imu_rd env QMI8658A_REG_CTRL8 1 id
       (\<lambda>data. imu_wr env QMI8658A_REG_CTRL8 (hd data AND NOT QMI8658A_CTRL8_NO_MOTION_EN_MASK))"

definition imu_disable_wake_on_motion :: "('b, 's) imu_env \<Rightarrow> ('b, 's) imu_op" where
  "imu_disable_wake_on_motion env =
     imu_rd env QMI8658A_REG_STATUS1 1 id
       (\<lambda>_. imu_rd env QMI8658A_REG_CTRL7 1 id
         (\<lambda>data. imu_seq [imu_enter_low_power_mode env, imu_wr env QMI8658A_REG_CAL1_L 0,
                          ctrl9_handshake env QMI8658A_CTRL9_CMD_WRITE_WOM_SETTING, restore_sensors env (hd data)]))"

section \<open>Reading data\<close>

text \<open>An operation with a result: the error code, what the out-parameter receives and the new state.\<close>

definition imu_value ::
  "('b, 's) imu_env \<Rightarrow> byte \<Rightarrow> nat \<Rightarrow> (byte list \<Rightarrow> 'v) \<Rightarrow> ('b, 's) imu_state \<Rightarrow> (imu_err \<times> 'v option \<times> ('b, 's) imu_state) option" where
  "imu_value env reg len f s =
     (if \<not> imu_interface s then None
      else let (e, data, s1) = esp32_imu_reg_read env reg len s
           in Some (e, if e = IMU_OK then Some (f data) else None, s1))"

definition imu_read_pedometer_steps ::
  "('b, 's) imu_env \<Rightarrow> ('b, 's) imu_state \<Rightarrow> (imu_err \<times> 32 word option \<times> ('b, 's) imu_state) option" where
  "imu_read_pedometer_steps env =
     imu_value env QMI8658A_REG_STEP_CNT_LOW 3
       (\<lambda>data. ucast (data ! 0) OR push_bit 8 (ucast (data ! 1)) OR push_bit 16 (ucast (data ! 2)))"

definition imu_detect_no_motion ::
  "('b, 's) imu_env \<Rightarrow> ('b, 's) imu_state \<Rightarrow> (imu_err \<times> bool option \<times> ('b, 's) imu_state) option" where
  "imu_detect_no_motion env =
     imu_value env QMI8658A_REG_STATUS1 1 (\<lambda>data. hd data AND QMI8658A_STATUS1_NO_MOTION = QMI8658A_STATUS1_NO_MOTION)"

definition imu_detect_motion ::
  "('b, 's) imu_env \<Rightarrow> ('b, 's) imu_state \<Rightarrow> (imu_err \<times> bool option \<times> ('b, 's) imu_state) option" where
  "imu_detect_motion env =
     imu_value env QMI8658A_REG_STATUS1 1 (\<lambda>data. hd data AND QMI8658A_STATUS1_WOM = QMI8658A_STATUS1_WOM)"

text \<open>A signed 16-bit reading in 1/256 degrees, scaled to hundredths with C's truncating division.\<close>

definition imu_read_temperature ::
  "('b, 's) imu_env \<Rightarrow> ('b, 's) imu_state \<Rightarrow> (imu_err \<times> int option \<times> ('b, 's) imu_state) option" where
  "imu_read_temperature env =
     imu_value env QMI8658A_REG_TEMP_L 2
       (\<lambda>data. c_div (sint (push_bit 8 (ucast (data ! 1)) OR ucast (data ! 0) :: 16 word) * 100) 256)"

text \<open>Number of bytes in the FIFO: a ten-bit count of two-byte words.\<close>

definition fifo_bytes :: "byte list \<Rightarrow> nat" where
  "fifo_bytes count_bytes = (256 * unat ((count_bytes ! 1) AND 3) + unat (count_bytes ! 0)) * 2"

definition imu_read_fifo_buffer ::
  "('b, 's) imu_env \<Rightarrow> byte list \<Rightarrow> nat \<Rightarrow> ('b, 's) imu_state \<Rightarrow> (imu_err \<times> byte list \<times> nat \<times> ('b, 's) imu_state) option" where
  "imu_read_fifo_buffer env buff max_len s =
     do {
       (e, count_bytes, s1) \<leftarrow> imu_value env QMI8658A_REG_FIFO_SMPL_CNT 2 id s;
       case count_bytes of
         None \<Rightarrow> Some (e, buff, max_len, s1)
       | Some cb \<Rightarrow>
           let len = fifo_bytes cb in
           if len = 0 then Some (e, buff, len, s1)
           else
             let read_len = (if max_len > len then len else max_len) in do {
               (e2, ctrl, s2) \<leftarrow> imu_value env QMI8658A_REG_FIFO_CTRL 1 hd s1;
               case ctrl of
                 None \<Rightarrow> Some (e2, buff, len, s2)
               | Some fifo_ctrl \<Rightarrow> do {
                   (e3, s3) \<leftarrow> ctrl9_handshake env QMI8658A_CTRL9_CMD_REQ_FIFO s2;
                   if e3 \<noteq> IMU_OK then Some (e3, buff, len, s3)
                   else do {
                     (e4, buff', s4) \<leftarrow> esp32_imu_fifo_read env QMI8658A_REG_FIFO_DATA buff read_len s3;
                     if e4 \<noteq> IMU_OK then Some (e4, buff', len, s4)
                     else do {
                       (e5, s5) \<leftarrow> imu_wr env QMI8658A_REG_FIFO_CTRL (fifo_ctrl AND NOT QMI8658A_FIFO_CTRL_RD_MODE_MASK) s4;
                       Some (e5, buff', read_len, s5)
                     }
                   }
                 }
             }
     }"

definition imu_reset_fifo_buffer :: "('b, 's) imu_env \<Rightarrow> ('b, 's) imu_op" where
  "imu_reset_fifo_buffer env =
     imu_rd env QMI8658A_REG_FIFO_CTRL 1 id
       (\<lambda>data. imu_seq [ctrl9_handshake env QMI8658A_CTRL9_CMD_RST_FIFO, imu_wr env QMI8658A_REG_FIFO_CTRL (hd data)])"

section \<open>Every operation returns and gives the sleep lock back\<close>

named_theorems good_rules "operations that return with the sleep lock at a known level"

definition good :: "'s \<Rightarrow> 's \<Rightarrow> ('b, 's) imu_op \<Rightarrow> bool" where
  "good x y op \<longleftrightarrow> (\<forall>s. imu_interface s \<and> imu_lock s = x \<longrightarrow> (\<exists>e s'. op s = Some (e, s') \<and> imu_interface s' \<and> imu_lock s' = y))"

lemma goodD: "good x y op \<Longrightarrow> imu_interface s \<Longrightarrow> imu_lock s = x \<Longrightarrow> \<exists>e s'. op s = Some (e, s') \<and> imu_interface s' \<and> imu_lock s' = y"
  by (simp add: good_def)

lemma reg_read_frame:
  "esp32_imu_reg_read env r n s = (e, d, s1) \<Longrightarrow> imu_interface s1 = imu_interface s \<and> imu_lock s1 = imu_lock s"
  by (auto simp: esp32_imu_reg_read_def split: if_splits prod.splits)

lemma reg_write_frame:
  "esp32_imu_reg_write env r b s = (e, s1) \<Longrightarrow> imu_interface s1 = imu_interface s \<and> imu_lock s1 = imu_lock s"
  by (auto simp: esp32_imu_reg_write_def split: if_splits prod.splits)

lemma lock_state_simps [simp]:
  "imu_lock (delay n s) = imu_lock s" "imu_interface (delay n s) = imu_interface s" "imu_dev (delay n s) = imu_dev s"
  "imu_interface (take_lock env s) = imu_interface s" "imu_interface (drop_lock env s) = imu_interface s"
  "imu_dev (take_lock env s) = imu_dev s" "imu_dev (drop_lock env s) = imu_dev s"
  "imu_lock (take_lock env s) = sleep_lock_service_acquire_lock (imu_lock_impl env) (imu_lock s)"
  "imu_lock (drop_lock env s) = sleep_lock_service_release_lock (imu_lock_impl env) (imu_lock s)"
  by (simp_all add: delay_def take_lock_def drop_lock_def)

lemma good_return [good_rules]: "good x x (\<lambda>s. Some (IMU_OK, s))"
  by (simp add: good_def)

lemma good_wr [good_rules]: "good x x (imu_wr env r b)"
  unfolding good_def
proof (intro allI impI)
  fix s :: "('b, 'a) imu_state" assume "imu_interface s \<and> imu_lock s = x"
  then show "\<exists>e s'. imu_wr env r b s = Some (e, s') \<and> imu_interface s' \<and> imu_lock s' = x"
    using reg_write_frame [of env r "[b]" s] by (cases "esp32_imu_reg_write env r [b] s") (simp add: imu_wr_def)
qed

lemma good_rd_fail:
  assumes "\<And>d. good x y (k d)" and "\<And>s. imu_interface (fail s) = imu_interface s" and "\<And>s. imu_lock s = x \<Longrightarrow> imu_lock (fail s) = y"
  shows "good x y (imu_rd env r n fail k)"
  unfolding good_def
proof (intro allI impI)
  fix s :: "('b, 'a) imu_state" assume s: "imu_interface s \<and> imu_lock s = x"
  obtain e d s1 where r: "esp32_imu_reg_read env r n s = (e, d, s1)"
    by (cases "esp32_imu_reg_read env r n s") auto
  then have s1: "imu_interface s1" "imu_lock s1 = x"
    using reg_read_frame [OF r] s by auto
  show "\<exists>e s'. imu_rd env r n fail k s = Some (e, s') \<and> imu_interface s' \<and> imu_lock s' = y"
    using r s s1 assms(2,3) goodD [OF assms(1), of s1 d] by (cases "e = IMU_OK") (auto simp: imu_rd_def)
qed

lemma good_rd [good_rules]: "(\<And>d. good x x (k d)) \<Longrightarrow> good x x (imu_rd env r n id k)"
  by (rule good_rd_fail) simp_all

lemma good_rd_drop:
  "(\<And>d. good x (sleep_lock_service_release_lock (imu_lock_impl env) x) (k d)) \<Longrightarrow>
   good x (sleep_lock_service_release_lock (imu_lock_impl env) x) (imu_rd env r n (drop_lock env) k)"
  by (rule good_rd_fail) simp_all

lemma good_then [good_rules]:
  assumes "good x x m" and "good x x k"
  shows "good x x (imu_then m k)"
  unfolding good_def
proof (intro allI impI)
  fix s :: "('b, 'a) imu_state" assume "imu_interface s \<and> imu_lock s = x"
  then obtain e s1 where "m s = Some (e, s1)" "imu_interface s1" "imu_lock s1 = x"
    using goodD [OF assms(1), of s] by auto
  then show "\<exists>e s'. imu_then m k s = Some (e, s') \<and> imu_interface s' \<and> imu_lock s' = x"
    using goodD [OF assms(2), of s1] by (cases "e = IMU_OK") (auto simp: imu_then_def)
qed

lemma good_seq_Nil [good_rules]: "good x x (imu_seq [])"
  by (simp add: good_return)

lemma good_seq_Cons [good_rules]: "good x x m \<Longrightarrow> good x x (imu_seq ms) \<Longrightarrow> good x x (imu_seq (m # ms))"
  by (simp add: good_then)

lemma good_if [good_rules]: "good x y a \<Longrightarrow> good x y b \<Longrightarrow> good x y (if c then a else b)"
  by simp

definition balanced :: "('b, 's) imu_env \<Rightarrow> 's \<Rightarrow> bool" where
  "balanced env x \<longleftrightarrow>
     sleep_lock_service_release_lock (imu_lock_impl env) (sleep_lock_service_acquire_lock (imu_lock_impl env) x) = x"

lemma good_section:
  assumes "balanced env x"
    and "good (sleep_lock_service_acquire_lock (imu_lock_impl env) x)
          (sleep_lock_service_release_lock (imu_lock_impl env) (sleep_lock_service_acquire_lock (imu_lock_impl env) x)) op"
  shows "good x x (\<lambda>s. op (take_lock env s))"
  using assms by (simp add: good_def balanced_def)

lemma good_wr_drop:
  "good x (sleep_lock_service_release_lock (imu_lock_impl env) x)
     (\<lambda>s. do { (e, s1) \<leftarrow> imu_wr env r b s; Some (e, drop_lock env (delay n s1)) })"
  using goodD [OF good_wr, of _ x env r b] by (fastforce simp: good_def)

lemma good_update_ctrl7 [good_rules]: "balanced env x \<Longrightarrow> good x x (update_ctrl7 env f)"
  unfolding update_ctrl7_def by (rule good_section) (auto intro!: good_rd_drop good_wr_drop)

lemma cmd_loop_good: "good x (sleep_lock_service_release_lock (imu_lock_impl env) x) (cmd_loop env cs)"
proof (induction cs)
  case (Cons c cs)
  show ?case
    unfolding good_def
  proof (intro allI impI)
    fix s :: "('b, 'a) imu_state" assume "imu_interface s \<and> imu_lock s = x"
    then obtain e s1 where w: "imu_wr env (reg_addr c) (cmd_data c) s = Some (e, s1)" "imu_interface s1" "imu_lock s1 = x"
      using goodD [OF good_wr, of s x env] by blast
    then show "\<exists>e s'. cmd_loop env (c # cs) s = Some (e, s') \<and> imu_interface s' \<and>
        imu_lock s' = sleep_lock_service_release_lock (imu_lock_impl env) x"
      using goodD [OF Cons.IH, of s1] goodD [OF Cons.IH, of "delay (delay_ms c) s1"] by (cases "e = IMU_OK") auto
  qed
qed (simp add: good_def)

lemma good_execute [good_rules]: "balanced env x \<Longrightarrow> cs \<noteq> [] \<Longrightarrow> good x x (execute_sequential_cmds env cs)"
  unfolding execute_sequential_cmds_def using good_section [OF _ cmd_loop_good] by fastforce

lemma handshake_loop_good: "good x (sleep_lock_service_release_lock (imu_lock_impl env) x) (handshake_loop env ack el)"
proof (induction "120 - el" arbitrary: ack el rule: less_induct)
  case less
  show ?case
  proof (cases "el < 120")
    case True
    have IH: "good x (sleep_lock_service_release_lock (imu_lock_impl env) x) (handshake_loop env a (el + 5))" for a
      using True by (intro less) simp
    have next_poll: "\<exists>e s'. handshake_loop env a (el + 5) (delay 5 s) = Some (e, s') \<and> imu_interface s' \<and>
        imu_lock s' = sleep_lock_service_release_lock (imu_lock_impl env) x" if "imu_interface s" "imu_lock s = x" for a s
      using goodD [OF IH, of "delay 5 s"] that by simp
    let ?k = "\<lambda>data s1.
           let status = hd data in
           if ack \<and> status AND QMI8658A_STATUSINT_CMD_DONE_MASK = 0 then Some (IMU_OK, drop_lock env s1)
           else if \<not> ack \<and> status AND QMI8658A_STATUSINT_CMD_DONE_MASK = QMI8658A_STATUSINT_CMD_DONE_MASK
           then do {
             (success, s2) \<leftarrow> imu_wr env QMI8658A_REG_CTRL9 QMI8658A_CTRL9_CMD_ACK s1;
             if success \<noteq> IMU_OK then Some (success, drop_lock env s2)
             else handshake_loop env True (el + 5) (delay 5 s2)
           }
           else handshake_loop env ack (el + 5) (delay 5 s1)"
    have k: "good x (sleep_lock_service_release_lock (imu_lock_impl env) x) (?k data)" for data
      unfolding good_def
    proof (intro allI impI)
      fix s :: "('b, 'a) imu_state" assume s: "imu_interface s \<and> imu_lock s = x"
      obtain e s2 where "imu_wr env QMI8658A_REG_CTRL9 QMI8658A_CTRL9_CMD_ACK s = Some (e, s2)" "imu_interface s2" "imu_lock s2 = x"
        using goodD [OF good_wr, of s x env QMI8658A_REG_CTRL9 QMI8658A_CTRL9_CMD_ACK] s by auto
      then show "\<exists>e s'. ?k data s = Some (e, s') \<and> imu_interface s' \<and>
          imu_lock s' = sleep_lock_service_release_lock (imu_lock_impl env) x"
        using s next_poll by (auto simp: Let_def)
    qed
    have "handshake_loop env ack el = imu_rd env QMI8658A_REG_STATUSINT 1 (drop_lock env) ?k"
      using True by (intro ext) (simp add: handshake_loop.simps [of env ack el])
    then show ?thesis
      using good_rd_drop [of x env ?k, OF k] by simp
  next
    case False
    then show ?thesis
      by (simp add: good_def handshake_loop.simps)
  qed
qed

lemma good_ctrl9 [good_rules]: "balanced env x \<Longrightarrow> good x x (ctrl9_handshake env cmd)"
  unfolding ctrl9_handshake_def by (intro good_then good_wr good_section handshake_loop_good)

lemma good_low_power [good_rules]: "good x x (imu_enter_low_power_mode env)"
  unfolding imu_enter_low_power_mode_def by (intro good_rules)

lemma good_check_id [good_rules]: "good x x (check_id env r v)"
  unfolding good_def
proof (intro allI impI)
  fix s :: "('b, 'a) imu_state" assume "imu_interface s \<and> imu_lock s = x"
  then show "\<exists>e s'. check_id env r v s = Some (e, s') \<and> imu_interface s' \<and> imu_lock s' = x"
    using reg_read_frame [of env r 1 s] by (cases "esp32_imu_reg_read env r 1 s") (simp add: check_id_def)
qed

lemma good_reset [good_rules]:
  assumes "balanced env x"
  shows "good x x (imu_reset env)"
  unfolding good_def
proof (intro allI impI)
  fix s :: "('a, 'b) imu_state" assume s: "imu_interface s \<and> imu_lock s = x"
  let ?a = "sleep_lock_service_acquire_lock (imu_lock_impl env) x"
  obtain e s1 where w: "imu_wr env QMI8658A_REG_RESET QMI8658A_RESET_CMD (take_lock env s) = Some (e, s1)"
    "imu_interface s1" "imu_lock s1 = ?a"
    using goodD [OF good_wr, of "take_lock env s" ?a env QMI8658A_REG_RESET QMI8658A_RESET_CMD] s by auto
  obtain e2 d s2 where r: "esp32_imu_reg_read env QMI8658A_REG_WHO_AM_I 1 (delay 15 s1) = (e2, d, s2)"
    by (cases "esp32_imu_reg_read env QMI8658A_REG_WHO_AM_I 1 (delay 15 s1)") auto
  then have "imu_interface s2" "imu_lock s2 = ?a"
    using reg_read_frame [OF r] w by auto
  then show "\<exists>e s'. imu_reset env s = Some (e, s') \<and> imu_interface s' \<and> imu_lock s' = x"
    using w r assms by (auto simp: imu_reset_def balanced_def Let_def)
qed

lemma good_restore [good_rules]: "balanced env x \<Longrightarrow> good x x (restore_sensors env data)"
  unfolding restore_sensors_def imu_enable_accelerometer_def imu_enable_gyro_def by (intro good_rules)

lemma good_set_pedo [good_rules]:
  assumes "balanced env x"
  shows "good x x (set_pedo_enable env)"
proof -
  let ?a = "sleep_lock_service_acquire_lock (imu_lock_impl env) x"
  let ?op = "imu_rd env QMI8658A_REG_CTRL8 1 (drop_lock env)
       (\<lambda>data s1. do {
          (success, s2) \<leftarrow> imu_wr env QMI8658A_REG_CTRL8 (hd data OR QMI8658A_CTRL8_PEDO_EN_MASK) s1;
          Some (success, drop_lock env s2)
        })"
  have "good ?a (sleep_lock_service_release_lock (imu_lock_impl env) ?a) ?op"
    using good_wr_drop [of ?a env _ _ 0] by (intro good_rd_drop) (simp add: delay_def)
  then show ?thesis
    using assms by (simp add: good_def set_pedo_enable_def balanced_def)
qed

lemma good_settings:
  "balanced env x \<Longrightarrow> good x x (imu_seq ms) \<Longrightarrow> good x x (imu_seq (pedometer_settings env @ ms))"
  "balanced env x \<Longrightarrow> good x x (imu_seq ms) \<Longrightarrow> good x x (imu_seq (no_motion_settings env @ ms))"
  unfolding pedometer_settings_def no_motion_settings_def append.simps by (intro good_rules; assumption)+

lemma good_wake_on_motion [good_rules]:
  assumes "balanced env x"
  shows "good x x (imu_setup_wake_on_motion env)"
  unfolding imu_setup_wake_on_motion_def
proof (rule good_rd)
  fix data
  let ?ms = "imu_seq [imu_wr env QMI8658A_REG_CAL1_L 100, imu_wr env QMI8658A_REG_CAL1_H 15,
      ctrl9_handshake env QMI8658A_CTRL9_CMD_WRITE_WOM_SETTING, restore_sensors env (hd data)]"
  have ms: "good x x ?ms"
    using assms by (intro good_rules)
  show "good x x (\<lambda>s. do {
      (success, s1) \<leftarrow> imu_enter_low_power_mode env s;
      let s2 = drop_lock env (delay 120 (take_lock env s1)) in
      if success \<noteq> IMU_OK then Some (success, s2) else ?ms s2 })"
    unfolding good_def
  proof (intro allI impI)
    fix s :: "('a, 'b) imu_state" assume "imu_interface s \<and> imu_lock s = x"
    then obtain e s1 where s1: "imu_enter_low_power_mode env s = Some (e, s1)" "imu_interface s1" "imu_lock s1 = x"
      using goodD [OF good_low_power, of s x env] by auto
    let ?s2 = "drop_lock env (delay 120 (take_lock env s1))"
    have "imu_interface ?s2" "imu_lock ?s2 = x"
      using s1 assms by (simp_all add: balanced_def)
    then show "\<exists>e s'. (do { (success, s1) \<leftarrow> imu_enter_low_power_mode env s;
        let s2 = drop_lock env (delay 120 (take_lock env s1)) in
        if success \<noteq> IMU_OK then Some (success, s2) else ?ms s2 }) = Some (e, s') \<and> imu_interface s' \<and> imu_lock s' = x"
      using s1(1) goodD [OF ms, of ?s2] by (cases "e = IMU_OK") (simp_all add: Let_def)
  qed
qed

lemma good_init:
  assumes "balanced env (imu_lock s)"
  shows "\<exists>e s'. imu_init env True True s = Some (e, s') \<and> imu_interface s' \<and> imu_lock s' = imu_lock s"
proof -
  have "good (imu_lock s) (imu_lock s)
      (imu_seq [imu_reset env, check_id env QMI8658A_REG_WHO_AM_I QMI8658A_WHO_AM_I_VAL,
         check_id env QMI8658A_REG_REVISION_ID QMI8658A_REVISION_ID, execute_sequential_cmds env init_cmds])"
    using assms by (intro good_rules) (auto simp: init_cmds_def)
  then show ?thesis
    using goodD [of "imu_lock s" "imu_lock s" _ "s\<lparr>spi_device := True, imu_interface := True\<rparr>"]
    by (simp add: imu_init_def esp32_imu_init_def del: imu_seq.simps)
qed

text \<open>An operation that reads something, seen as one that returns its error code only.\<close>

definition without_value :: "(('b, 's) imu_state \<Rightarrow> (imu_err \<times> 'v \<times> ('b, 's) imu_state) option) \<Rightarrow> ('b, 's) imu_op" where
  "without_value m s = do { (e, v, s1) \<leftarrow> m s; Some (e, s1) }"

definition read_fifo_call :: "('b, 's) imu_env \<Rightarrow> byte list \<Rightarrow> nat \<Rightarrow> ('b, 's) imu_op" where
  "read_fifo_call env buff max_len s = do { (e, buff', len, s1) \<leftarrow> imu_read_fifo_buffer env buff max_len s; Some (e, s1) }"

lemma imu_value_runs:
  assumes "imu_interface s"
  obtains e v s1 where "imu_value env r n f s = Some (e, v, s1)" and "imu_interface s1" and "imu_lock s1 = imu_lock s"
    and "v = None \<longleftrightarrow> e \<noteq> IMU_OK"
  using assms reg_read_frame [of env r n s] that by (cases "esp32_imu_reg_read env r n s") (simp add: imu_value_def)

lemma good_value [good_rules]: "good x x (without_value (imu_value env r n f))"
  unfolding good_def
proof (intro allI impI)
  fix s :: "('b, 'a) imu_state" assume s: "imu_interface s \<and> imu_lock s = x"
  obtain e v s1 where "imu_value env r n f s = Some (e, v, s1)" "imu_interface s1" "imu_lock s1 = x"
    using imu_value_runs [of s env r n f] s by metis
  then show "\<exists>e s'. without_value (imu_value env r n f) s = Some (e, s') \<and> imu_interface s' \<and> imu_lock s' = x"
    by (simp add: without_value_def)
qed

lemma mem_write_in: "length xs \<le> length buf \<Longrightarrow> \<exists>b. mem_write buf 0 xs = Some b \<and> length b = length buf"
  by (simp add: mem_write_def)

lemma length_rx_bytes [simp]: "length (rx_bytes rx n) = n"
  by (simp add: rx_bytes_def)

lemma fifo_read_runs:
  assumes "len < length buf"
  obtains e buf' s1 where "esp32_imu_fifo_read env reg buf len s = Some (e, buf', s1)"
    and "imu_interface s1 = imu_interface s" and "imu_lock s1 = imu_lock s"
proof (cases "\<not> spi_device s \<or> len = 0 \<or> \<not> buffer_dma_capable env")
  case True
  then have "\<exists>e. esp32_imu_fifo_read env reg buf len s = Some (e, buf, s)"
    by (auto simp: esp32_imu_fifo_read_def)
  then show ?thesis
    using that by blast
next
  case False
  obtain b1 where b1: "mem_write buf 0 [reg OR 0x80] = Some b1" "length b1 = length buf"
    using mem_write_in [of "[reg OR 0x80]" buf] assms by auto
  obtain tx where tx: "mem_read b1 0 (1 + len) = Some tx"
    using b1(2) assms by (simp add: mem_read_def)
  obtain ret rx d where t: "spi_device_transmit env tx (imu_dev s) = (ret, rx, d)"
    using prod_cases3 by blast
  obtain b2 where b2: "mem_write b1 0 (rx_bytes rx (1 + len)) = Some b2"
    using mem_write_in [of "rx_bytes rx (1 + len)" b1] b1(2) assms by auto
  show ?thesis
    using False b1 tx t b2 by (intro that [of "if ret then IMU_OK else IMU_FAILED" b2 "s\<lparr>imu_dev := d\<rparr>"])
      (simp_all add: esp32_imu_fifo_read_def)
qed

text \<open>
  The FIFO read gives one byte more than the requested length to the transfer, so the buffer has to be
  longer than the length that is asked for.
\<close>

lemma good_read_fifo:
  assumes "balanced env x" and "max_len < length buff"
  shows "good x x (read_fifo_call env buff max_len)"
  unfolding good_def
proof (intro allI impI)
  fix s :: "('a, 'b) imu_state" assume s: "imu_interface s \<and> imu_lock s = x"
  let ?ends = "\<exists>e s'. read_fifo_call env buff max_len s = Some (e, s') \<and> imu_interface s' \<and> imu_lock s' = x"
  obtain e cb s1 where count: "imu_value env QMI8658A_REG_FIFO_SMPL_CNT 2 id s = Some (e, cb, s1)" "imu_interface s1" "imu_lock s1 = x"
    using imu_value_runs [of s env QMI8658A_REG_FIFO_SMPL_CNT 2 id] s by metis
  obtain e2 ctrl s2 where ctrl: "imu_value env QMI8658A_REG_FIFO_CTRL 1 hd s1 = Some (e2, ctrl, s2)" "imu_interface s2" "imu_lock s2 = x"
    using imu_value_runs [of s1 env QMI8658A_REG_FIFO_CTRL 1 hd] count by metis
  obtain e3 s3 where hs: "ctrl9_handshake env QMI8658A_CTRL9_CMD_REQ_FIFO s2 = Some (e3, s3)" "imu_interface s3" "imu_lock s3 = x"
    using goodD [OF good_ctrl9 [OF assms(1)] ctrl(2,3)] by blast
  consider "cb = None" | c where "cb = Some c" "fifo_bytes c = 0" | c where "cb = Some c" "fifo_bytes c \<noteq> 0" "ctrl = None"
    | c f where "cb = Some c" "fifo_bytes c \<noteq> 0" "ctrl = Some f" "e3 \<noteq> IMU_OK"
    | c f where "cb = Some c" "fifo_bytes c \<noteq> 0" "ctrl = Some f" "e3 = IMU_OK"
    by (cases cb; cases ctrl) auto
  then show ?ends
  proof cases
    case 1
    then show ?thesis
      using count by (simp add: read_fifo_call_def imu_read_fifo_buffer_def)
  next
    case 2
    then show ?thesis
      using count by (simp add: read_fifo_call_def imu_read_fifo_buffer_def)
  next
    case 3
    then show ?thesis
      using count ctrl by (simp add: read_fifo_call_def imu_read_fifo_buffer_def Let_def)
  next
    case 4
    then show ?thesis
      using count ctrl hs by (simp add: read_fifo_call_def imu_read_fifo_buffer_def Let_def)
  next
    case cf: 5
    let ?l = "if max_len > fifo_bytes c then fifo_bytes c else max_len"
    obtain e4 b4 s4 where data: "esp32_imu_fifo_read env QMI8658A_REG_FIFO_DATA buff ?l s3 = Some (e4, b4, s4)"
      "imu_interface s4" "imu_lock s4 = x"
    proof -
      have "?l < length buff"
        using assms(2) by simp
      then show thesis
        by (rule fifo_read_runs [where env = env and reg = QMI8658A_REG_FIFO_DATA and s = s3]) (use hs(2,3) that in auto)
    qed
    obtain e5 s5 where last: "imu_wr env QMI8658A_REG_FIFO_CTRL (f AND NOT QMI8658A_FIFO_CTRL_RD_MODE_MASK) s4 = Some (e5, s5)"
      "imu_interface s5" "imu_lock s5 = x"
      using goodD [OF good_wr data(2,3)] by blast
    have "imu_read_fifo_buffer env buff max_len s = (if e4 \<noteq> IMU_OK then Some (e4, b4, fifo_bytes c, s4) else Some (e5, b4, ?l, s5))"
      unfolding imu_read_fifo_buffer_def Let_def count(1) cf(1) bind.bind_lunit option.case prod.case if_not_P [OF cf(2)]
        ctrl(1) cf(3) hs(1) cf(4) data(1) last(1) by simp
    then show ?thesis
      using last data(2,3) by (simp add: read_fifo_call_def)
  qed
qed

text \<open>
  The operations of the driver other than \<open>imu_init\<close>, each with its error code. The FIFO is read into
  the buffer \<open>buff\<close>, of which the caller offers \<open>max_len\<close> bytes.
\<close>

definition imu_operations :: "('b, 's) imu_env \<Rightarrow> byte list \<Rightarrow> nat \<Rightarrow> ('b, 's) imu_op list" where
  "imu_operations env buff max_len =
     [imu_reset env, imu_enable_accelerometer env, imu_disable_accelerometer env, imu_enable_gyro env, imu_disable_gyro env,
      imu_enter_high_accuracy_mode env, imu_enter_low_power_accel_only_mode env, imu_enter_low_power_mode env,
      imu_enable_pedometer env, imu_disable_pedometer env, imu_reset_pedometer env, without_value (imu_read_pedometer_steps env),
      read_fifo_call env buff max_len, imu_reset_fifo_buffer env,
      imu_setup_wake_on_motion env, imu_disable_wake_on_motion env, imu_setup_detect_no_motion env,
      imu_disable_detect_no_motion env, without_value (imu_detect_no_motion env), without_value (imu_detect_motion env),
      without_value (imu_read_temperature env)]"

lemma operations_good:
  assumes "balanced env x" and "max_len < length buff" and "op \<in> set (imu_operations env buff max_len)"
  shows "good x x op"
proof -
  have "list_all (good x x) (imu_operations env buff max_len)"
    unfolding imu_operations_def list.pred_inject
      imu_enable_accelerometer_def imu_disable_accelerometer_def imu_enable_gyro_def imu_disable_gyro_def
      imu_enter_high_accuracy_mode_def imu_enter_low_power_accel_only_mode_def imu_enable_pedometer_def
      imu_disable_pedometer_def imu_reset_pedometer_def imu_reset_fifo_buffer_def imu_disable_wake_on_motion_def
      imu_setup_detect_no_motion_def imu_disable_detect_no_motion_def high_accuracy_cmds_def lp_accel_only_cmds_def
      imu_read_pedometer_steps_def imu_detect_no_motion_def imu_detect_motion_def imu_read_temperature_def
    using assms(1,2) by (intro conjI TrueI good_rules) (auto intro!: good_rules good_settings good_read_fifo)
  then show ?thesis
    using assms(3) by (simp add: list_all_iff)
qed

text \<open>
  C17: an operation of the IMU driver always returns and always gives the sleep lock back. Whatever the
  SPI bus answers and wherever a transfer fails, \<open>imu_init\<close> (once the SPI bus and the device are set up;
  \<open>esp32_imu_init\<close> aborts otherwise) and, with the interface set, each of the other operations, the
  reading ones included, ends with an error code (the handshake within its 24 polls) and with the wake
  lock at the level it had before, so a sensor fault never keeps the watch awake. The FIFO is read into a
  buffer longer than the length that is asked for.
\<close>

theorem imu_lock_balanced:
  assumes "imu_lock_impl env = wakelock_impl" and "0 \<le> imu_lock s" and "imu_lock s < 2147483647"
    and "max_len < length buff"
  shows "(\<exists>e s'. imu_init env True True s = Some (e, s') \<and> imu_interface s' \<and> imu_lock s' = imu_lock s) \<and>
    (imu_interface s \<longrightarrow>
      (\<forall>op \<in> set (imu_operations env buff max_len). \<exists>e s'. op s = Some (e, s') \<and> imu_interface s' \<and> imu_lock s' = imu_lock s))"
proof -
  have "balanced env (imu_lock s)"
    using assms(1-3)
    by (simp add: balanced_def wakelock_impl_def sleep_lock_service_acquire_lock_def sleep_lock_service_release_lock_def
        wakelock_manager_acquire_wakelock_def wakelock_manager_release_wakelock_def s32_id)
  then show ?thesis
    using good_init [of env s] goodD [OF operations_good [OF _ assms(4)] _ refl, of env s] by blast
qed

text \<open>A device with the enable register and the command-done flag.\<close>

definition toy_spi :: "byte list \<Rightarrow> byte \<times> bool \<Rightarrow> bool \<times> byte list \<times> byte \<times> bool" where
  "toy_spi tx = (\<lambda>(c7, cmd_done).
     case tx of
       [a, b] \<Rightarrow>
         if a = 0x88 then (True, [0, c7], c7, cmd_done)
         else if a = 0x08 then (True, [0, 0], b, cmd_done)
         else if a = 0x0A then (True, [0, 0], c7, b \<noteq> 0)
         else if a = 0xAD then (True, [0, if cmd_done then 0x80 else 0], c7, cmd_done)
         else (True, [0, 0], c7, cmd_done)
     | _ \<Rightarrow> (True, tx, c7, cmd_done))"

definition toy_env :: "(byte \<times> bool, int) imu_env" where
  "toy_env = \<lparr>spi_device_transmit = toy_spi, imu_lock_impl = wakelock_impl, buffer_dma_capable = True\<rparr>"

definition toy_imu :: "(byte \<times> bool, int) imu_state" where
  "toy_imu = \<lparr>spi_device = True, imu_interface = True, imu_dev = (0x23, False), imu_lock = 2, imu_waited = 0\<rparr>"

theorem imu_lock_balanced_witness:
  "(\<exists>e s'. imu_init toy_env True True toy_imu = Some (e, s') \<and> imu_interface s' \<and> imu_lock s' = 2) \<and>
   (\<exists>e s'. imu_setup_wake_on_motion toy_env toy_imu = Some (e, s') \<and> imu_interface s' \<and> imu_lock s' = 2) \<and>
   (\<exists>e s'. read_fifo_call toy_env (replicate 8 0) 7 toy_imu = Some (e, s') \<and> imu_interface s' \<and> imu_lock s' = 2)"
proof -
  have state: "imu_lock_impl toy_env = wakelock_impl" "imu_lock toy_imu = 2" "imu_interface toy_imu"
    by (simp_all add: toy_env_def toy_imu_def)
  have ops: "imu_setup_wake_on_motion toy_env \<in> set (imu_operations toy_env (replicate 8 0) 7)"
    "read_fifo_call toy_env (replicate 8 0) 7 \<in> set (imu_operations toy_env (replicate 8 0) 7)"
    by (simp_all add: imu_operations_def)
  show ?thesis
    using imu_lock_balanced [of toy_env toy_imu 7 "replicate 8 0"] state ops by simp
qed

section \<open>Configuration leaves the sensors as they were\<close>

text \<open>
  What the configuration relies on of the device: a two-byte frame that is transferred writes the enable
  register exactly if it is addressed to it, and a read frame of that register returns its contents.
\<close>

definition ctrl7_spec :: "(byte list \<Rightarrow> 'b \<Rightarrow> bool \<times> byte list \<times> 'b) \<Rightarrow> ('b \<Rightarrow> byte) \<Rightarrow> bool" where
  "ctrl7_spec spi look \<longleftrightarrow>
     (\<forall>a b d rx d'. spi [a, b] d = (True, rx, d') \<longrightarrow>
        look d' = (if a = 0x08 then b else look d) \<and> (a = 0x88 \<longrightarrow> length rx = 2 \<and> rx ! 1 = look d))"

lemma ctrl7_specD:
  assumes "ctrl7_spec spi look" and "spi [a, b] d = (True, rx, d')"
  shows "look d' = (if a = 0x08 then b else look d)" and "a = 0x88 \<Longrightarrow> length rx = 2 \<and> rx ! 1 = look d"
  using assms unfolding ctrl7_spec_def by blast+

named_theorems c7_rules "effect of an operation that succeeds on the enable register"

definition c7 :: "('b \<Rightarrow> byte) \<Rightarrow> byte \<Rightarrow> byte \<Rightarrow> ('b, 's) imu_op \<Rightarrow> bool" where
  "c7 look v w op \<longleftrightarrow> (\<forall>s s'. look (imu_dev s) = v \<longrightarrow> op s = Some (IMU_OK, s') \<longrightarrow> look (imu_dev s') = w)"

lemma c7I: "(\<And>s s'. look (imu_dev s) = v \<Longrightarrow> op s = Some (IMU_OK, s') \<Longrightarrow> look (imu_dev s') = w) \<Longrightarrow> c7 look v w op"
  by (simp add: c7_def)

lemma c7D: "c7 look v w op \<Longrightarrow> look (imu_dev s) = v \<Longrightarrow> op s = Some (IMU_OK, s') \<Longrightarrow> look (imu_dev s') = w"
  unfolding c7_def by blast

lemma c7_return [c7_rules]: "c7 look v v (\<lambda>s. Some (IMU_OK, s))"
  by (simp add: c7_def)

lemma c7_wr:
  assumes "ctrl7_spec (spi_device_transmit env) look"
  shows "c7 look v (if r AND 0x7F = 0x08 then b else v) (imu_wr env r b)"
  unfolding c7_def
proof (intro allI impI)
  fix s s' assume v: "look (imu_dev s) = v" and run: "imu_wr env r b s = Some (IMU_OK, s')"
  obtain ret rx d' where spi: "spi_device_transmit env [r AND 0x7F, b] (imu_dev s) = (ret, rx, d')"
    by (cases "spi_device_transmit env [r AND 0x7F, b] (imu_dev s)") auto
  then have "ret" "imu_dev s' = d'"
    using run by (auto simp: imu_wr_def esp32_imu_reg_write_def split: if_splits)
  then show "look (imu_dev s') = (if r AND 0x7F = 0x08 then b else v)"
    using ctrl7_specD(1) [OF assms, of "r AND 0x7F" b "imu_dev s" rx d'] spi v by simp
qed

lemma reg_read_ok:
  assumes "esp32_imu_reg_read env r 1 s = (IMU_OK, d, s1)"
  obtains rx d' where "spi_device_transmit env [r OR 0x80, 0] (imu_dev s) = (True, rx, d')" "d = tl (rx_bytes rx 2)" "imu_dev s1 = d'"
  using assms by (auto simp: esp32_imu_reg_read_def Let_def numeral_2_eq_2 split: if_splits prod.splits)

lemma c7_rd:
  assumes "ctrl7_spec (spi_device_transmit env) look" and "r OR 0x80 \<noteq> 0x08" and "\<And>d. (r OR 0x80 = 0x88 \<Longrightarrow> hd d = v) \<Longrightarrow> c7 look v w (k d)"
    and "\<And>s. imu_dev (fail s) = imu_dev s"
  shows "c7 look v w (imu_rd env r 1 fail k)"
  unfolding c7_def
proof (intro allI impI)
  fix s s' assume v: "look (imu_dev s) = v" and run: "imu_rd env r 1 fail k s = Some (IMU_OK, s')"
  obtain e d s1 where rd: "esp32_imu_reg_read env r 1 s = (e, d, s1)"
    by (cases "esp32_imu_reg_read env r 1 s") auto
  then have e: "e = IMU_OK" and k: "k d s1 = Some (IMU_OK, s')"
    using run by (auto simp: imu_rd_def split: if_splits)
  obtain rx d' where spi: "spi_device_transmit env [r OR 0x80, 0] (imu_dev s) = (True, rx, d')" "d = tl (rx_bytes rx 2)" "imu_dev s1 = d'"
    using reg_read_ok [OF rd [unfolded e]] by blast
  have sp: "look d' = v" "r OR 0x80 = 0x88 \<Longrightarrow> length rx = 2 \<and> rx ! 1 = v"
    using ctrl7_specD [OF assms(1) spi(1)] assms(2) v by simp_all
  have "hd d = v" if r: "r OR 0x80 = 0x88"
  proof -
    obtain p q where "rx = [p, q]"
      using sp(2) [OF r] by (auto simp: numeral_2_eq_2 length_Suc_conv)
    then show ?thesis
      using sp(2) [OF r] spi(2) by (simp add: rx_bytes_def)
  qed
  then show "look (imu_dev s') = w"
    using assms(3) [of d] k sp(1) spi(3) by (auto simp: c7_def)
qed

lemma c7_then [c7_rules]: "c7 look v u m \<Longrightarrow> c7 look u w k \<Longrightarrow> c7 look v w (imu_then m k)"
  unfolding c7_def imu_then_def
proof (intro allI impI)
  fix s s' assume m: "\<forall>s s'. look (imu_dev s) = v \<longrightarrow> m s = Some (IMU_OK, s') \<longrightarrow> look (imu_dev s') = u"
    and k: "\<forall>s s'. look (imu_dev s) = u \<longrightarrow> k s = Some (IMU_OK, s') \<longrightarrow> look (imu_dev s') = w"
    and s: "look (imu_dev s) = v" and run: "(do { (e, s1) \<leftarrow> m s; if e \<noteq> IMU_OK then Some (e, s1) else k s1 }) = Some (IMU_OK, s')"
  obtain s1 where "m s = Some (IMU_OK, s1)" "k s1 = Some (IMU_OK, s')"
    using run by (auto simp: bind_eq_Some_iff split: if_splits)
  then show "look (imu_dev s') = w"
    using m k s by blast
qed

lemma c7_seq_Cons [c7_rules]: "c7 look v u m \<Longrightarrow> c7 look u w (imu_seq ms) \<Longrightarrow> c7 look v w (imu_seq (m # ms))"
  by (simp add: c7_then)

lemma c7_seq_Nil [c7_rules]: "c7 look v v (imu_seq [])"
  by (simp add: c7_return)

lemma c7_wr_other [c7_rules]: "ctrl7_spec (spi_device_transmit env) look \<Longrightarrow> r AND 0x7F \<noteq> 0x08 \<Longrightarrow> c7 look v v (imu_wr env r b)"
  using c7_wr [of env look v r b] by simp

lemma c7_rd_other [c7_rules]:
  "ctrl7_spec (spi_device_transmit env) look \<Longrightarrow> r OR 0x80 \<noteq> 0x08 \<Longrightarrow> (\<And>d. c7 look v w (k d)) \<Longrightarrow> c7 look v w (imu_rd env r 1 id k)"
  by (rule c7_rd) simp_all

lemma c7_wr_drop:
  assumes "c7 look v w (imu_wr env r b)"
  shows "c7 look v w (\<lambda>s. do { (e, s1) \<leftarrow> imu_wr env r b s; Some (e, drop_lock env (delay n s1)) })"
proof (rule c7I)
  fix s s' assume v: "look (imu_dev s) = v"
    and "(do { (e, s1) \<leftarrow> imu_wr env r b s; Some (e, drop_lock env (delay n s1)) }) = Some (IMU_OK, s')"
  then obtain s1 where "imu_wr env r b s = Some (IMU_OK, s1)" "s' = drop_lock env (delay n s1)"
    by (auto simp: bind_eq_Some_iff)
  then show "look (imu_dev s') = w"
    using c7D [OF assms v] by simp
qed

lemma c7_update:
  assumes "ctrl7_spec (spi_device_transmit env) look"
  shows "c7 look v (f v) (update_ctrl7 env f)"
proof -
  have w: "c7 look v b (imu_wr env QMI8658A_REG_CTRL7 b)" for b
    using c7_wr [OF assms, of v QMI8658A_REG_CTRL7 b] by (simp add: QMI8658A_REG_CTRL7_def)
  have "c7 look v (f v) (imu_rd env QMI8658A_REG_CTRL7 1 (drop_lock env)
       (\<lambda>data s1. do {
          (success, s2) \<leftarrow> imu_wr env QMI8658A_REG_CTRL7 (f (hd data)) s1;
          Some (success, drop_lock env (delay 120 s2)) }))"
    (is "c7 look v (f v) ?op")
  proof (rule c7_rd [OF assms])
    fix data :: "byte list" assume "QMI8658A_REG_CTRL7 OR 0x80 = 0x88 \<Longrightarrow> hd data = v"
    then have hd: "hd data = v" by (simp add: QMI8658A_REG_CTRL7_def)
    show "c7 look v (f v) (\<lambda>s1. do { (success, s2) \<leftarrow> imu_wr env QMI8658A_REG_CTRL7 (f (hd data)) s1;
        Some (success, drop_lock env (delay 120 s2)) })"
      unfolding hd by (rule c7_wr_drop [OF w])
  qed (simp_all add: QMI8658A_REG_CTRL7_def)
  then show ?thesis
    unfolding update_ctrl7_def by (intro c7I) (erule c7D, simp_all)
qed

lemma c7_low_power:
  assumes "ctrl7_spec (spi_device_transmit env) look"
  shows "c7 look v ((v AND NOT QMI8658A_CTRL7_AEN_MASK) AND NOT QMI8658A_CTRL7_GEN_MASK) (imu_enter_low_power_mode env)"
  unfolding imu_enter_low_power_mode_def
  using c7_wr [OF assms, of v QMI8658A_REG_CTRL7]
  by (intro c7_rd [OF assms]) (auto simp: QMI8658A_REG_CTRL7_def)

lemma handshake_loop_c7:
  assumes "ctrl7_spec (spi_device_transmit env) look"
  shows "c7 look v v (handshake_loop env ack el)"
proof (induction "120 - el" arbitrary: ack el rule: less_induct)
  case less
  show ?case
  proof (cases "el < 120")
    case True
    have sub: "c7 look v v (handshake_loop env a (el + 5))" for a
      using True by (intro less) simp
    have IH: "look (imu_dev s') = v" if "handshake_loop env a (el + 5) (delay 5 s) = Some (IMU_OK, s')" "look (imu_dev s) = v" for a s s'
      using c7D [OF sub _ that(1)] that(2) by simp
    have ackw: "look (imu_dev s') = v" if "imu_wr env QMI8658A_REG_CTRL9 QMI8658A_CTRL9_CMD_ACK s = Some (IMU_OK, s')" "look (imu_dev s) = v" for s s'
      using c7D [OF c7_wr [OF assms] that(2,1)] by (simp add: QMI8658A_REG_CTRL9_def)
    let ?k = "\<lambda>data s1.
           let status = hd data in
           if ack \<and> status AND QMI8658A_STATUSINT_CMD_DONE_MASK = 0 then Some (IMU_OK, drop_lock env s1)
           else if \<not> ack \<and> status AND QMI8658A_STATUSINT_CMD_DONE_MASK = QMI8658A_STATUSINT_CMD_DONE_MASK
           then do {
             (success, s2) \<leftarrow> imu_wr env QMI8658A_REG_CTRL9 QMI8658A_CTRL9_CMD_ACK s1;
             if success \<noteq> IMU_OK then Some (success, drop_lock env s2)
             else handshake_loop env True (el + 5) (delay 5 s2)
           }
           else handshake_loop env ack (el + 5) (delay 5 s1)"
    have "c7 look v v (?k data)" for data
    proof (rule c7I)
      fix s s' assume v: "look (imu_dev s) = v" and run: "?k data s = Some (IMU_OK, s')"
      let ?clear = "ack \<and> hd data AND QMI8658A_STATUSINT_CMD_DONE_MASK = 0"
      let ?set = "\<not> ack \<and> hd data AND QMI8658A_STATUSINT_CMD_DONE_MASK = QMI8658A_STATUSINT_CMD_DONE_MASK"
      show "look (imu_dev s') = v"
      proof (cases ?clear)
        case True
        then have "s' = drop_lock env s"
          using run by (simp add: Let_def)
        then show ?thesis
          using v by simp
      next
        case clear: False
        show ?thesis
        proof (cases ?set)
          case True
          obtain e s2 where s2: "imu_wr env QMI8658A_REG_CTRL9 QMI8658A_CTRL9_CMD_ACK s = Some (e, s2)"
            "(if e \<noteq> IMU_OK then Some (e, drop_lock env s2) else handshake_loop env True (el + 5) (delay 5 s2)) = Some (IMU_OK, s')"
            using run unfolding Let_def if_not_P [OF clear] if_P [OF True] bind_eq_Some_iff by auto
          then have "e = IMU_OK"
            by (cases "e = IMU_OK") simp_all
          then show ?thesis
            using s2 IH [of True s2 s'] ackw [OF _ v] by simp
        next
          case False
          then have "handshake_loop env ack (el + 5) (delay 5 s) = Some (IMU_OK, s')"
            using run by (simp only: Let_def if_not_P [OF clear] if_not_P [OF False] if_False)
          then show ?thesis
            by (rule IH) (rule v)
        qed
      qed
    qed
    then have "c7 look v v (imu_rd env QMI8658A_REG_STATUSINT 1 (drop_lock env) ?k)"
      by (intro c7_rd [OF assms]) (auto simp: QMI8658A_REG_STATUSINT_def)
    moreover have "handshake_loop env ack el = imu_rd env QMI8658A_REG_STATUSINT 1 (drop_lock env) ?k"
      using True by (intro ext) (simp add: handshake_loop.simps [of env ack el])
    ultimately show ?thesis
      by simp
  next
    case False
    then show ?thesis
      by (simp add: c7_def handshake_loop.simps)
  qed
qed

lemma c7_ctrl9 [c7_rules]:
  assumes "ctrl7_spec (spi_device_transmit env) look"
  shows "c7 look v v (ctrl9_handshake env cmd)"
proof -
  have "c7 look v v (\<lambda>s. handshake_loop env False 0 (take_lock env s))"
    by (intro c7I) (erule c7D [OF handshake_loop_c7 [OF assms], rotated], simp)
  then show ?thesis
    unfolding ctrl9_handshake_def
    using assms by (intro c7_then [OF c7_wr_other]) (simp_all add: QMI8658A_REG_CTRL9_def)
qed

definition restored :: "byte \<Rightarrow> byte \<Rightarrow> byte" where
  "restored data v =
     (let v1 = (if accel_enabled data then v OR QMI8658A_CTRL7_AEN_MASK else v)
      in if gyro_enabled data then v1 OR QMI8658A_CTRL7_GEN_MASK else v1)"

lemma c7_restore: "ctrl7_spec (spi_device_transmit env) look \<Longrightarrow> c7 look v (restored data v) (restore_sensors env data)"
  unfolding restore_sensors_def restored_def Let_def imu_enable_accelerometer_def imu_enable_gyro_def
  using c7_update [of env look]
  by (cases "accel_enabled data"; cases "gyro_enabled data") (auto intro!: c7_seq_Cons c7_seq_Nil c7_return simp del: imu_seq.simps)

lemma bit_one: "bit (1 :: byte) n \<longleftrightarrow> n = 0"
  by (simp add: bit_1_iff)

lemma bit_two: "bit (2 :: byte) n \<longleftrightarrow> n = 1"
  using bit_exp_iff [of 1 n, where 'a = byte] by auto

lemma mask_bit:
  fixes v m :: byte
  assumes "\<And>n. bit m n \<longleftrightarrow> n = k"
  shows "v AND m = m \<longleftrightarrow> bit v k"
proof
  assume "v AND m = m"
  then have "bit (v AND m) k"
    using assms by (simp only:)
  then show "bit v k"
    by (simp only: bit_and_iff)
next
  assume "bit v k"
  then show "v AND m = m"
    by (intro bit_word_eqI) (simp only: bit_and_iff assms, auto)
qed

lemma restored_low_power: "restored v ((v AND NOT QMI8658A_CTRL7_AEN_MASK) AND NOT QMI8658A_CTRL7_GEN_MASK) = v"
proof (rule bit_word_eqI)
  have en: "accel_enabled v \<longleftrightarrow> bit v 0" "gyro_enabled v \<longleftrightarrow> bit v 1"
    unfolding accel_enabled_def gyro_enabled_def QMI8658A_CTRL7_AEN_MASK_def QMI8658A_CTRL7_GEN_MASK_def
    by (intro mask_bit bit_one bit_two)+
  fix n
  show "bit (restored v ((v AND NOT QMI8658A_CTRL7_AEN_MASK) AND NOT QMI8658A_CTRL7_GEN_MASK)) n = bit v n" if "n < LENGTH(8)"
    using that unfolding restored_def Let_def en QMI8658A_CTRL7_AEN_MASK_def QMI8658A_CTRL7_GEN_MASK_def
    by (cases "bit v 0"; cases "bit v 1"; simp only: if_True if_False bit_and_iff bit_or_iff bit_not_iff bit_one bit_two)
      (auto intro!: gr0I)
qed

lemma c7_set_pedo [c7_rules]:
  assumes "ctrl7_spec (spi_device_transmit env) look"
  shows "c7 look v v (set_pedo_enable env)"
proof -
  have "c7 look v v (imu_rd env QMI8658A_REG_CTRL8 1 (drop_lock env)
       (\<lambda>data s1. do {
          (success, s2) \<leftarrow> imu_wr env QMI8658A_REG_CTRL8 (hd data OR QMI8658A_CTRL8_PEDO_EN_MASK) s1;
          Some (success, drop_lock env s2) }))"
    using c7_wr_drop [OF c7_wr_other [OF assms], of QMI8658A_REG_CTRL8 v _ 0]
    by (intro c7_rd [OF assms]) (simp_all add: QMI8658A_REG_CTRL8_def delay_def)
  then show ?thesis
    unfolding set_pedo_enable_def by (intro c7I) (erule c7D, simp_all)
qed

lemma c7_settings:
  assumes "ctrl7_spec (spi_device_transmit env) look" and "c7 look v w (imu_seq ms)"
  shows "c7 look v w (imu_seq (pedometer_settings env @ ms))" and "c7 look v w (imu_seq (no_motion_settings env @ ms))"
proof -
  have wr: "c7 look v v (imu_wr env r b)" if "r AND 0x7F \<noteq> 0x08" for r b
    using that by (rule c7_wr_other [OF assms(1)])
  have h: "c7 look v v (ctrl9_handshake env cmd)" for cmd
    by (rule c7_ctrl9 [OF assms(1)])
  show "c7 look v w (imu_seq (pedometer_settings env @ ms))" and "c7 look v w (imu_seq (no_motion_settings env @ ms))"
    unfolding pedometer_settings_def no_motion_settings_def append.simps
    by (intro c7_seq_Cons [where u = v] wr h assms(2); simp add: imu_regs)+
qed

text \<open>The four operations that switch the sensors off to configure a motion function.\<close>

definition configurations :: "('b, 's) imu_env \<Rightarrow> ('b, 's) imu_op list" where
  "configurations env =
     [imu_enable_pedometer env, imu_setup_detect_no_motion env, imu_disable_wake_on_motion env, imu_setup_wake_on_motion env]"

definition lp7 :: "byte \<Rightarrow> byte" where
  "lp7 v = (v AND NOT QMI8658A_CTRL7_AEN_MASK) AND NOT QMI8658A_CTRL7_GEN_MASK"

lemma c7_low: "ctrl7_spec (spi_device_transmit env) look \<Longrightarrow> c7 look v (lp7 v) (imu_enter_low_power_mode env)"
  unfolding lp7_def by (rule c7_low_power)

lemma c7_restore_low: "ctrl7_spec (spi_device_transmit env) look \<Longrightarrow> c7 look (lp7 v) v (restore_sensors env v)"
  using c7_restore [of env look "lp7 v" v] by (simp only: restored_low_power lp7_def)

lemma c7_rd7:
  "ctrl7_spec (spi_device_transmit env) look \<Longrightarrow> (\<And>d. hd d = v \<Longrightarrow> c7 look v v (k d)) \<Longrightarrow>
   c7 look v v (imu_rd env QMI8658A_REG_CTRL7 1 id k)"
  by (rule c7_rd) (simp_all add: QMI8658A_REG_CTRL7_def)

lemma pedometer_c7:
  assumes sp: "ctrl7_spec (spi_device_transmit env) look"
  shows "c7 look v v (imu_enable_pedometer env)"
  unfolding imu_enable_pedometer_def append.simps
proof (rule c7_rd7 [OF sp])
  fix d assume hd: "hd d = v"
  show "c7 look v v (imu_seq (imu_enter_low_power_mode env # pedometer_settings env @ [restore_sensors env (hd d), set_pedo_enable env]))"
    unfolding hd by (rule c7_seq_Cons [OF c7_low [OF sp]], rule c7_settings(1) [OF sp])
      (intro c7_seq_Cons [OF c7_restore_low [OF sp]] c7_seq_Cons [OF c7_set_pedo [OF sp]] c7_seq_Nil)
qed

lemma no_motion_c7:
  assumes sp: "ctrl7_spec (spi_device_transmit env) look"
  shows "c7 look v v (imu_setup_detect_no_motion env)"
  unfolding imu_setup_detect_no_motion_def append.simps
proof (rule c7_rd7 [OF sp])
  fix d assume hd: "hd d = v"
  have en: "c7 look (lp7 v) (lp7 v) (imu_rd env QMI8658A_REG_CTRL8 1 id
           (\<lambda>ctrl8. imu_wr env QMI8658A_REG_CTRL8 (hd ctrl8 OR QMI8658A_CTRL8_NO_MOTION_EN_MASK)))"
    by (intro c7_rd_other [OF sp] c7_wr_other [OF sp]) (simp_all add: QMI8658A_REG_CTRL8_def)
  show "c7 look v v (imu_seq (imu_enter_low_power_mode env # no_motion_settings env @
        [imu_rd env QMI8658A_REG_CTRL8 1 id
           (\<lambda>ctrl8. imu_wr env QMI8658A_REG_CTRL8 (hd ctrl8 OR QMI8658A_CTRL8_NO_MOTION_EN_MASK)),
         restore_sensors env (hd d)]))"
    unfolding hd by (rule c7_seq_Cons [OF c7_low [OF sp]], rule c7_settings(2) [OF sp])
      (intro c7_seq_Cons [OF en] c7_seq_Cons [OF c7_restore_low [OF sp]] c7_seq_Nil)
qed

lemma wake_on_motion_off_c7:
  assumes sp: "ctrl7_spec (spi_device_transmit env) look"
  shows "c7 look v v (imu_disable_wake_on_motion env)"
  unfolding imu_disable_wake_on_motion_def
proof (rule c7_rd_other [OF sp])
  show "QMI8658A_REG_STATUS1 OR 0x80 \<noteq> 0x08"
    by (simp add: QMI8658A_REG_STATUS1_def)
  show "c7 look v v (imu_rd env QMI8658A_REG_CTRL7 1 id (\<lambda>data. imu_seq [imu_enter_low_power_mode env,
     imu_wr env QMI8658A_REG_CAL1_L 0, ctrl9_handshake env QMI8658A_CTRL9_CMD_WRITE_WOM_SETTING, restore_sensors env (hd data)]))"
  proof (rule c7_rd7 [OF sp])
    fix d assume hd: "hd d = v"
    show "c7 look v v (imu_seq [imu_enter_low_power_mode env, imu_wr env QMI8658A_REG_CAL1_L 0,
        ctrl9_handshake env QMI8658A_CTRL9_CMD_WRITE_WOM_SETTING, restore_sensors env (hd d)])"
      unfolding hd by (intro c7_seq_Cons [OF c7_low [OF sp]] c7_seq_Cons [OF c7_wr_other [OF sp]] c7_seq_Cons [OF c7_ctrl9 [OF sp]] c7_seq_Cons [OF c7_restore_low [OF sp]] c7_seq_Nil)
        (simp add: QMI8658A_REG_CAL1_L_def)
  qed
qed

lemma wake_on_motion_c7:
  assumes sp: "ctrl7_spec (spi_device_transmit env) look"
  shows "c7 look v v (imu_setup_wake_on_motion env)"
  unfolding imu_setup_wake_on_motion_def
proof (rule c7_rd7 [OF sp])
  fix d assume hd: "hd d = v"
  let ?ms = "imu_seq [imu_wr env QMI8658A_REG_CAL1_L 100, imu_wr env QMI8658A_REG_CAL1_H 15,
      ctrl9_handshake env QMI8658A_CTRL9_CMD_WRITE_WOM_SETTING, restore_sensors env (hd d)]"
  have ms: "c7 look (lp7 v) v ?ms"
    unfolding hd by (intro c7_seq_Cons [OF c7_wr_other [OF sp]] c7_seq_Cons [OF c7_ctrl9 [OF sp]] c7_seq_Cons [OF c7_restore_low [OF sp]] c7_seq_Nil)
      (simp_all add: QMI8658A_REG_CAL1_L_def QMI8658A_REG_CAL1_H_def)
  show "c7 look v v (\<lambda>s. do { (success, s1) \<leftarrow> imu_enter_low_power_mode env s;
      let s2 = drop_lock env (delay 120 (take_lock env s1)) in if success \<noteq> IMU_OK then Some (success, s2) else ?ms s2 })"
  proof (rule c7I)
    fix s s' assume v: "look (imu_dev s) = v" and run: "(do { (success, s1) \<leftarrow> imu_enter_low_power_mode env s;
      let s2 = drop_lock env (delay 120 (take_lock env s1)) in if success \<noteq> IMU_OK then Some (success, s2) else ?ms s2 }) = Some (IMU_OK, s')"
    obtain e s1 where s1: "imu_enter_low_power_mode env s = Some (e, s1)"
      "(let s2 = drop_lock env (delay 120 (take_lock env s1)) in if e \<noteq> IMU_OK then Some (e, s2) else ?ms s2) = Some (IMU_OK, s')"
      using run unfolding bind_eq_Some_iff by auto
    then have e: "e = IMU_OK"
      by (cases "e = IMU_OK") (simp_all add: Let_def)
    have "look (imu_dev (drop_lock env (delay 120 (take_lock env s1)))) = (lp7 v)"
      using c7D [OF c7_low [OF sp] v] s1(1) e by simp
    then show "look (imu_dev s') = v"
      using s1(2) e by (intro c7D [OF ms]) (simp_all only: Let_def if_False not_True_eq_False simp_thms)
  qed
qed

lemma configuration_c7:
  "ctrl7_spec (spi_device_transmit env) look \<Longrightarrow> op \<in> set (configurations env) \<Longrightarrow> c7 look v v op"
  using pedometer_c7 no_motion_c7 wake_on_motion_off_c7 wake_on_motion_c7 by (auto simp: configurations_def)

text \<open>
  Configuring a motion function leaves the sensors as they were. The pedometer, wake-on-motion and
  no-motion set-ups switch both sensors off and on again: when one of them succeeds, the enable register
  has exactly the value it had before, so what was measuring still is and nothing else has been started.
\<close>

lemma imu_configuration_restores_sensors:
  assumes "ctrl7_spec (spi_device_transmit env) look" and "op \<in> set (configurations env)" and "op s = Some (IMU_OK, s')"
  shows "look (imu_dev s') = look (imu_dev s)"
  using c7D [OF configuration_c7 [OF assms(1,2)] refl assms(3)] .

lemma toy_spec: "ctrl7_spec toy_spi fst"
  by (auto simp: ctrl7_spec_def toy_spi_def split: if_splits)

lemma imu_configuration_restores_sensors_witness:
  "\<exists>s'. imu_setup_wake_on_motion toy_env toy_imu = Some (IMU_OK, s') \<and> fst (imu_dev s') = 0x23"
proof -
  have "map_option fst (imu_setup_wake_on_motion toy_env toy_imu) = Some IMU_OK"
    by code_simp
  then obtain s' where "imu_setup_wake_on_motion toy_env toy_imu = Some (IMU_OK, s')"
    by auto
  then show ?thesis
    using imu_configuration_restores_sensors [of toy_env fst "imu_setup_wake_on_motion toy_env" toy_imu s'] toy_spec
    by (simp add: configurations_def toy_env_def toy_imu_def)
qed

end
