(* ===== verification/Gpio_Manager.thy ===== *)
theory Gpio_Manager
  imports Storage_Manager
begin

text \<open>
  Pins and backlight (\<open>components/gpio_manager\<close>): \<open>pin_parking.c\<close> puts the pins into a defined state for
  light and deep sleep, \<open>gpio_manager.c\<close> sets up the pins, reads the battery voltage and drives the
  backlight, whose brightness is kept in the storage of the core system.

  ESP-IDF is a parameter: an operation yields the list of driver calls it makes, and \<open>ok\<close> says which calls
  succeed. A call inside \<open>ESP_ERROR_CHECK\<close> that fails aborts (\<open>None\<close>); the other failures are only logged.
\<close>

section \<open>Pins and driver calls\<close>

definition DISPLAY_PIN_NUM_MOSI :: nat where "DISPLAY_PIN_NUM_MOSI = 11"
definition DISPLAY_PIN_NUM_CLK :: nat where "DISPLAY_PIN_NUM_CLK = 10"
definition DISPLAY_PIN_NUM_CS :: nat where "DISPLAY_PIN_NUM_CS = 9"
definition DISPLAY_PIN_NUM_DC :: nat where "DISPLAY_PIN_NUM_DC = 12"
definition DISPLAY_PIN_NUM_RST :: nat where "DISPLAY_PIN_NUM_RST = 13"
definition DISPLAY_PIN_BACKLIGHT :: nat where "DISPLAY_PIN_BACKLIGHT = 46"
definition ENCODER_PIN_A :: nat where "ENCODER_PIN_A = 6"
definition ENCODER_PIN_B :: nat where "ENCODER_PIN_B = 4"
definition ENCODER_KEY_OK :: nat where "ENCODER_KEY_OK = 5"
definition SYSTEM_PIN_PG :: nat where "SYSTEM_PIN_PG = 17"
definition SYSTEM_PIN_WAKEUP :: nat where "SYSTEM_PIN_WAKEUP = 1"
definition SYSTEM_PIN_LBO :: nat where "SYSTEM_PIN_LBO = 2"
definition SYSTEM_TPS_PS_PIN :: nat where "SYSTEM_TPS_PS_PIN = 14"
definition IR_BLASTER_GATE_PIN :: nat where "IR_BLASTER_GATE_PIN = 3"
definition PIEZO_GATE_PIN :: nat where "PIEZO_GATE_PIN = 8"
definition SENSOR_BATTERY_READ_PIN :: nat where "SENSOR_BATTERY_READ_PIN = 7"
definition SENSOR_BATTERY_READ_EN_PIN :: nat where "SENSOR_BATTERY_READ_EN_PIN = 40"
definition SENSOR_I2C_SDA_PIN :: nat where "SENSOR_I2C_SDA_PIN = 21"
definition SENSOR_I2C_SCL_PIN :: nat where "SENSOR_I2C_SCL_PIN = 48"
definition SENSOR_IMU_CS :: nat where "SENSOR_IMU_CS = 38"
definition SENSOR_IMU_SCL :: nat where "SENSOR_IMU_SCL = 39"
definition SENSOR_IMU_MOSI :: nat where "SENSOR_IMU_MOSI = 41"
definition SENSOR_IMU_MISO :: nat where "SENSOR_IMU_MISO = 42"
definition SENSOR_GSR_READ :: nat where "SENSOR_GSR_READ = 18"

lemmas gpio_pins =
  DISPLAY_PIN_NUM_MOSI_def DISPLAY_PIN_NUM_CLK_def DISPLAY_PIN_NUM_CS_def DISPLAY_PIN_NUM_DC_def DISPLAY_PIN_NUM_RST_def
  DISPLAY_PIN_BACKLIGHT_def ENCODER_PIN_A_def ENCODER_PIN_B_def ENCODER_KEY_OK_def SYSTEM_PIN_PG_def SYSTEM_PIN_WAKEUP_def
  SYSTEM_PIN_LBO_def SYSTEM_TPS_PS_PIN_def IR_BLASTER_GATE_PIN_def PIEZO_GATE_PIN_def SENSOR_BATTERY_READ_PIN_def
  SENSOR_BATTERY_READ_EN_PIN_def SENSOR_I2C_SDA_PIN_def SENSOR_I2C_SCL_PIN_def SENSOR_IMU_CS_def SENSOR_IMU_SCL_def
  SENSOR_IMU_MOSI_def SENSOR_IMU_MISO_def SENSOR_GSR_READ_def

datatype gpio_pull = GPIO_PULLUP_ENABLE | GPIO_PULLDOWN_ENABLE | GPIO_FLOATING

datatype gpio_mode = GPIO_MODE_INPUT | GPIO_MODE_OUTPUT

datatype gpio_call =
    Deep_sleep_hold_en | Deep_sleep_hold_dis | Hold_en nat | Hold_dis nat
  | Set_direction nat gpio_mode | Set_level nat bool
  | Sleep_sel_en nat | Sleep_set_direction nat gpio_mode | Sleep_set_pull nat gpio_pull
  | Install_isr | Uninstall_isr | Enable_gpio_wakeup | Wakeup_enable nat | Wakeup_disable nat
  | Gpio_config nat gpio_mode gpio_pull bool
  | Adc_new_unit | Adc_config_channel | Adc_cali_create | Adc_del_unit | Adc_cali_delete
  | Ledc_timer_config | Ledc_channel_config nat | Ledc_set_duty nat | Ledc_update_duty | Ledc_stop | Ledc_timer_pause
  | Ext1_wakeup "nat list" | Disable_timer_wakeup

text \<open>A sequence of calls under \<open>ESP_ERROR_CHECK\<close>.\<close>

definition checked :: "(gpio_call \<Rightarrow> bool) \<Rightarrow> gpio_call list \<Rightarrow> gpio_call list option" where
  "checked ok cs = (if list_all ok cs then Some cs else None)"

section \<open>Pin parking\<close>

definition input_pullup :: "nat list" where
  "input_pullup = [DISPLAY_PIN_NUM_CS, DISPLAY_PIN_NUM_RST, SENSOR_IMU_CS]"

definition input_pulldown :: "nat list" where
  "input_pulldown = [DISPLAY_PIN_NUM_MOSI, DISPLAY_PIN_NUM_CLK, DISPLAY_PIN_NUM_DC, DISPLAY_PIN_BACKLIGHT, SENSOR_IMU_SCL,
     SENSOR_IMU_MOSI, SENSOR_IMU_MISO, SENSOR_GSR_READ, SENSOR_BATTERY_READ_EN_PIN]"

definition input_floating :: "nat list" where
  "input_floating = [ENCODER_PIN_A, ENCODER_PIN_B, SYSTEM_PIN_PG, SYSTEM_TPS_PS_PIN, IR_BLASTER_GATE_PIN, PIEZO_GATE_PIN,
     SENSOR_I2C_SDA_PIN, SENSOR_I2C_SCL_PIN, SENSOR_BATTERY_READ_PIN, ENCODER_KEY_OK, SYSTEM_PIN_LBO, SYSTEM_PIN_WAKEUP]"

definition park :: "gpio_pull \<Rightarrow> nat \<Rightarrow> gpio_call list" where
  "park pull pin = [Sleep_sel_en pin, Sleep_set_direction pin GPIO_MODE_INPUT, Sleep_set_pull pin pull]"

definition configure_light_sleep_pin_parking :: "(gpio_call \<Rightarrow> bool) \<Rightarrow> gpio_call list option" where
  "configure_light_sleep_pin_parking ok =
     checked ok (concat (map (park GPIO_PULLUP_ENABLE) input_pullup) @
                 concat (map (park GPIO_PULLDOWN_ENABLE) input_pulldown) @
                 concat (map (park GPIO_FLOATING) input_floating))"

definition hold_pin :: "bool \<Rightarrow> nat \<Rightarrow> gpio_call list" where
  "hold_pin level pin = [Set_direction pin GPIO_MODE_OUTPUT, Set_level pin level, Hold_en pin]"

definition configure_deep_sleep_pin_parking :: "(gpio_call \<Rightarrow> bool) \<Rightarrow> gpio_call list option" where
  "configure_deep_sleep_pin_parking ok =
     do {
       cs \<leftarrow> checked ok (concat (map (hold_pin False) [SENSOR_BATTERY_READ_EN_PIN, DISPLAY_PIN_BACKLIGHT]) @
                         concat (map (hold_pin True) [DISPLAY_PIN_NUM_CS, SENSOR_IMU_CS, DISPLAY_PIN_NUM_RST]));
       Some (cs @ [Deep_sleep_hold_en])
     }"

definition configure_active_mode_pin_unparking :: "(gpio_call \<Rightarrow> bool) \<Rightarrow> gpio_call list option" where
  "configure_active_mode_pin_unparking ok =
     do {
       cs \<leftarrow> checked ok [Hold_dis DISPLAY_PIN_BACKLIGHT, Hold_dis SENSOR_BATTERY_READ_EN_PIN, Hold_dis DISPLAY_PIN_NUM_CS,
                         Hold_dis SENSOR_IMU_CS, Hold_dis DISPLAY_PIN_NUM_RST];
       Some (Deep_sleep_hold_dis # cs)
     }"

section \<open>The GPIO manager\<close>

record gpio_sys =
  gm_initialized :: bool
  backlight_percent :: nat
  adc_handle :: bool
  adc_cali_handle :: bool

definition BATTERY_VOLTAGE_DIV_MULTIPLIER :: int where "BATTERY_VOLTAGE_DIV_MULTIPLIER = 2"

text \<open>The key \<open>"BACKLIGHT"\<close>.\<close>

definition backlight_key :: "byte list" where
  "backlight_key = [66, 65, 67, 75, 76, 73, 71, 72, 84]"

definition gpio_manager_arm_wakeup_interrupt :: "nat \<Rightarrow> gpio_sys \<Rightarrow> gpio_call list" where
  "gpio_manager_arm_wakeup_interrupt pin s = (if \<not> gm_initialized s then [] else [Wakeup_enable pin])"

definition gpio_manager_disarm_wakeup_interrupt :: "nat \<Rightarrow> gpio_sys \<Rightarrow> gpio_call list" where
  "gpio_manager_disarm_wakeup_interrupt pin s = (if \<not> gm_initialized s then [] else [Wakeup_disable pin])"

definition save_backlight_brightness ::
  "('f, 'q, 'n) store_env \<Rightarrow> nat \<Rightarrow> ('f, 'q, 'z) runtime_scheme \<Rightarrow> ('f, 'q, 'z) runtime_scheme option" where
  "save_backlight_brightness se percent r =
     map_option snd (storage_manager_save_key (se_rt se) (se_ops se) (se_work_fn se) (se_initialized se) CORE_SYSTEM_APP_ID
       (Some backlight_key) (Some [byte_of percent]) 1 r)"

text \<open>The result, the new value of \<open>backlight_percent\<close> and the runtime; \<open>junk\<close> is the uninitialised local byte.\<close>

definition retrieve_backlight_brightness ::
  "('f, 'q, 'n) store_env \<Rightarrow> byte \<Rightarrow> 'n \<Rightarrow> gpio_sys \<Rightarrow> ('f, 'q, 'z) runtime_scheme \<Rightarrow>
   (nat \<times> gpio_sys \<times> ('f, 'q, 'z) runtime_scheme) option" where
  "retrieve_backlight_brightness se junk flash s r =
     do {
       (success, dest, len) \<leftarrow> storage_manager_retrieve_key (se_nvs se) (se_initialized se) CORE_SYSTEM_APP_ID
          (Some backlight_key) (Some [junk]) (Some 1) flash;
       if success
       then if len \<noteq> Some 1 then None
            else let percent = unat (the dest ! 0) in Some (if percent > 100 then 100 else percent, s, r)
       else do {
         r1 \<leftarrow> save_backlight_brightness se 100 r;
         Some (100, s\<lparr>backlight_percent := 100\<rparr>, r1)
       }
     }"

definition gpio_manager_backlight_get_brightness :: "gpio_sys \<Rightarrow> nat" where
  "gpio_manager_backlight_get_brightness s = (if \<not> gm_initialized s then 100 else backlight_percent s)"

definition gpio_manager_backlight_set_brightness ::
  "(gpio_call \<Rightarrow> bool) \<Rightarrow> ('f, 'q, 'n) store_env \<Rightarrow> int \<Rightarrow> gpio_sys \<Rightarrow> ('f, 'q, 'z) runtime_scheme \<Rightarrow>
   (bool \<times> gpio_call list \<times> gpio_sys \<times> ('f, 'q, 'z) runtime_scheme) option" where
  "gpio_manager_backlight_set_brightness ok se percent s r =
     (if \<not> gm_initialized s \<or> percent < 0 \<or> percent > 100 then Some (False, [], s, r)
      else do {
        r1 \<leftarrow> (if nat percent \<noteq> backlight_percent s then save_backlight_brightness se (nat percent) r else Some r);
        cs \<leftarrow> checked ok [Ledc_set_duty (nat (percent * 4095 div 100)), Ledc_update_duty];
        Some (True, cs, s\<lparr>backlight_percent := nat percent\<rparr>, r1)
      })"

definition gpio_manager_power_backlight ::
  "(gpio_call \<Rightarrow> bool) \<Rightarrow> ('f, 'q, 'n) store_env \<Rightarrow> gpio_sys \<Rightarrow> ('f, 'q, 'z) runtime_scheme \<Rightarrow>
   (gpio_call list \<times> gpio_sys \<times> ('f, 'q, 'z) runtime_scheme) option" where
  "gpio_manager_power_backlight ok se s r =
     (if \<not> gm_initialized s then Some ([], s, r)
      else map_option snd (gpio_manager_backlight_set_brightness ok se (int (backlight_percent s)) s r))"

definition gpio_manager_backlight_off :: "(gpio_call \<Rightarrow> bool) \<Rightarrow> gpio_sys \<Rightarrow> gpio_call list option" where
  "gpio_manager_backlight_off ok s = (if \<not> gm_initialized s then Some [] else checked ok [Ledc_set_duty 0, Ledc_stop])"

definition gpio_manager_enable_battery_read :: "gpio_sys \<Rightarrow> gpio_call list" where
  "gpio_manager_enable_battery_read s = (if \<not> gm_initialized s then [] else [Set_level SENSOR_BATTERY_READ_EN_PIN True])"

definition gpio_manager_disable_battery_read :: "gpio_sys \<Rightarrow> gpio_call list" where
  "gpio_manager_disable_battery_read s = (if \<not> gm_initialized s then [] else [Set_level SENSOR_BATTERY_READ_EN_PIN False])"

text \<open>The ADC gives a raw sample or an error; the calibration turns it into a voltage or an error.\<close>

definition gpio_manager_read_battery_mv :: "int option \<Rightarrow> (int \<Rightarrow> int option) \<Rightarrow> gpio_sys \<Rightarrow> int option" where
  "gpio_manager_read_battery_mv adc cali s =
     (if \<not> gm_initialized s then Some (- 1)
      else if \<not> adc_handle s \<or> \<not> adc_cali_handle s then None
      else case adc of
        None \<Rightarrow> Some (- 1)
      | Some raw_sample \<Rightarrow>
          (case cali raw_sample of
             None \<Rightarrow> Some (- 1)
           | Some voltage_mv \<Rightarrow> Some (voltage_mv * BATTERY_VOLTAGE_DIV_MULTIPLIER)))"

definition gpio_manager_is_charging :: "bool \<Rightarrow> gpio_sys \<Rightarrow> bool" where
  "gpio_manager_is_charging pg_level s = (if \<not> gm_initialized s then False else \<not> pg_level)"

definition gpio_manager_init ::
  "(gpio_call \<Rightarrow> bool) \<Rightarrow> ('f, 'q, 'n) store_env \<Rightarrow> byte \<Rightarrow> 'n \<Rightarrow> gpio_sys \<Rightarrow> ('f, 'q, 'z) runtime_scheme \<Rightarrow>
   (gpio_call list \<times> gpio_sys \<times> ('f, 'q, 'z) runtime_scheme) option" where
  "gpio_manager_init ok se junk flash s r =
     (if gm_initialized s then Some ([], s, r)
      else do {
        cs1 \<leftarrow> configure_active_mode_pin_unparking ok;
        let cs2 = [Install_isr, Enable_gpio_wakeup, Gpio_config SENSOR_BATTERY_READ_EN_PIN GPIO_MODE_OUTPUT GPIO_PULLDOWN_ENABLE False];
        cs3 \<leftarrow> checked ok [Set_level SENSOR_BATTERY_READ_EN_PIN False];
        let cs4 = [Gpio_config SYSTEM_TPS_PS_PIN GPIO_MODE_OUTPUT GPIO_FLOATING False];
        cs5 \<leftarrow> checked ok [Set_level SYSTEM_TPS_PS_PIN True];
        let cs6 = [Gpio_config SYSTEM_PIN_PG GPIO_MODE_INPUT GPIO_FLOATING False,
                   Gpio_config SYSTEM_PIN_LBO GPIO_MODE_INPUT GPIO_FLOATING True,
                   Gpio_config ENCODER_KEY_OK GPIO_MODE_INPUT GPIO_FLOATING False];
        cs7 \<leftarrow> checked ok [Adc_new_unit, Adc_config_channel, Adc_cali_create];
        (percent, s1, r1) \<leftarrow> retrieve_backlight_brightness se junk flash (s\<lparr>adc_handle := True, adc_cali_handle := True\<rparr>) r;
        cs8 \<leftarrow> checked ok [Ledc_timer_config, Ledc_channel_config DISPLAY_PIN_BACKLIGHT];
        cs9 \<leftarrow> configure_light_sleep_pin_parking ok;
        let s2 = s1\<lparr>backlight_percent := percent, gm_initialized := True\<rparr>;
        Some (cs1 @ cs2 @ cs3 @ cs4 @ cs5 @ cs6 @ cs7 @ cs8 @ cs9 @ gpio_manager_arm_wakeup_interrupt ENCODER_KEY_OK s2, s2, r1)
      })"

definition gpio_manager_deinit :: "(gpio_call \<Rightarrow> bool) \<Rightarrow> gpio_sys \<Rightarrow> (gpio_call list \<times> gpio_sys) option" where
  "gpio_manager_deinit ok s =
     (if \<not> gm_initialized s then Some ([], s)
      else do {
        let cs1 = gpio_manager_disarm_wakeup_interrupt ENCODER_KEY_OK s @ [Uninstall_isr, Ledc_stop, Ledc_timer_pause];
        cs2 \<leftarrow> (if adc_handle s then checked ok [Adc_del_unit] else Some []);
        cs3 \<leftarrow> (if adc_cali_handle s then checked ok [Adc_cali_delete] else Some []);
        cs4 \<leftarrow> configure_deep_sleep_pin_parking ok;
        cs5 \<leftarrow> checked ok [Ext1_wakeup [ENCODER_KEY_OK]];
        Some (cs1 @ cs2 @ cs3 @ cs4 @ cs5 @ [Disable_timer_wakeup],
              s\<lparr>adc_handle := False, adc_cali_handle := False, gm_initialized := False\<rparr>)
      })"

section \<open>Holding and releasing pins\<close>

text \<open>The pins held after a sequence of calls.\<close>

fun held_after :: "gpio_call list \<Rightarrow> nat set \<Rightarrow> nat set" where
  "held_after [] hs = hs"
| "held_after (Hold_en p # cs) hs = held_after cs (insert p hs)"
| "held_after (Hold_dis p # cs) hs = held_after cs (hs - {p})"
| "held_after (_ # cs) hs = held_after cs hs"

lemma unpark_releases_parked:
  assumes "configure_deep_sleep_pin_parking ok = Some ds" and "configure_active_mode_pin_unparking ok' = Some us"
  shows "held_after (ds @ us) {} = {}"
  using assms
  by (auto simp: configure_deep_sleep_pin_parking_def configure_active_mode_pin_unparking_def checked_def hold_pin_def
      gpio_pins split: if_splits)

lemma light_sleep_pins: "distinct (input_pullup @ input_pulldown @ input_floating)" "length (input_pullup @ input_pulldown @ input_floating) = 24"
  by (simp_all add: input_pullup_def input_pulldown_def input_floating_def gpio_pins)

section \<open>The brightness survives a restart\<close>

lemma duty_range: "0 \<le> percent \<Longrightarrow> percent \<le> 100 \<Longrightarrow> nat (percent * 4095 div 100) \<le> 4095"
proof -
  assume "0 \<le> percent" "percent \<le> (100 :: int)"
  then have "percent * 4095 div 100 \<le> 409500 div 100"
    by (intro zdiv_mono1) simp_all
  then show ?thesis
    by simp
qed

lemma backlight_key_ok: "0 \<notin> set backlight_key" "length backlight_key \<le> 15"
  by (simp_all add: backlight_key_def)

text \<open>
  The brightness chosen by the user is back after a restart. Setting a new brightness between 0 and
  100 percent drives the backlight with the proportional 12-bit duty and schedules one write; once a worker
  has carried it out on a flash that accepts it, the brightness read at the next start is the one set.
\<close>

lemma brightness_survives_restart:
  assumes "nvs_spec (se_nvs se) look" and "se_initialized se" and "gm_initialized s" and "0 \<le> percent" "percent \<le> 100"
    and "nat percent \<noteq> backlight_percent s" and "\<forall>c. ok c"
    and "nvs_open (se_nvs se) (ns_name CORE_SYSTEM_APP_ID) True flash = NVS_OK"
    and "fst (nvs_set_blob (se_nvs se) (ns_name CORE_SYSTEM_APP_ID) backlight_key [byte_of (nat percent)] flash) = NVS_OK"
    and "nvs_open (se_nvs se) (ns_name CORE_SYSTEM_APP_ID) False
      (flash_written (se_nvs se) (ns_name CORE_SYSTEM_APP_ID) backlight_key [byte_of (nat percent)] flash) = NVS_OK"
  shows "\<exists>w flash'. gpio_manager_backlight_set_brightness ok se percent s r =
       map_option (\<lambda>r1. (True, [Ledc_set_duty (nat (percent * 4095 div 100)), Ledc_update_duty], s\<lparr>backlight_percent := nat percent\<rparr>, snd r1))
         (schedule_system_work (se_rt se) (se_ops se) (Some (storage_item (se_work_fn se) w)) r) \<and>
     storage_manager_execute_work (se_nvs se) (Some (work_bytes w)) flash = Some flash' \<and>
     retrieve_backlight_brightness se junk flash' s' r' = Some (nat percent, s', r') \<and>
     nat (percent * 4095 div 100) \<le> 4095"
proof -
  let ?d = "[byte_of (nat percent)]"
  let ?w = "save_work CORE_SYSTEM_APP_ID backlight_key ?d 1"
  have one: "unat (1 :: byte) \<le> STORAGE_MAX_DATA_SIZE" "unat (1 :: byte) \<le> length ?d"
    by (simp_all add: STORAGE_MAX_DATA_SIZE_def)
  have t: "take (unat (1 :: byte)) ?d = ?d"
    by simp
  define flash' where "flash' = flash_written (se_nvs se) (ns_name CORE_SYSTEM_APP_ID) backlight_key ?d flash"
  have f: "storage_manager_execute_work (se_nvs se) (Some (work_bytes ?w)) flash = Some flash'"
    "look flash' (ns_name CORE_SYSTEM_APP_ID) backlight_key = Some ?d"
    using save_executed [OF assms(1) backlight_key_ok one assms(8)] assms(9) unfolding t flash'_def by blast+
  have p: "unat (byte_of (nat percent)) = nat percent"
    using assms(4,5) by (simp add: u8_id)
  have k: "strnlen backlight_key 16 \<le> 15" "key_string backlight_key = backlight_key"
    using key_roundtrip(4,5) [OF backlight_key_ok] by simp_all
  have "retrieve_backlight_brightness se junk flash' s' r' = Some (nat percent, s', r')"
    using assms(2,5,10) [folded flash'_def] k p f(2) nvs_effects(5) [OF assms(1)]
    by (simp add: retrieve_backlight_brightness_def storage_manager_retrieve_key_def mem_write_def STORAGE_MAX_DATA_SIZE_def byte_of_def Let_def)
  moreover have "gpio_manager_backlight_set_brightness ok se percent s r =
       map_option (\<lambda>r1. (True, [Ledc_set_duty (nat (percent * 4095 div 100)), Ledc_update_duty], s\<lparr>backlight_percent := nat percent\<rparr>, snd r1))
         (schedule_system_work (se_rt se) (se_ops se) (Some (storage_item (se_work_fn se) ?w)) r)"
    using assms(2-7) save_schedules [OF backlight_key_ok one, of "se_rt se" "se_ops se" "se_work_fn se" CORE_SYSTEM_APP_ID r]
    by (auto simp: gpio_manager_backlight_set_brightness_def save_backlight_brightness_def checked_def list_all_iff map_option_case split: option.splits)
  ultimately show ?thesis
    using f(1) duty_range [OF assms(4,5)] by (intro exI [of _ ?w] exI [of _ flash']) simp
qed

definition ex_gpio :: gpio_sys where
  "ex_gpio = \<lparr>gm_initialized = True, backlight_percent = 100, adc_handle = True, adc_cali_handle = True\<rparr>"

lemma brightness_survives_restart_witness:
  "\<exists>w flash'. gpio_manager_backlight_set_brightness (\<lambda>c. True) ex_store 40 ex_gpio rt_static =
       map_option (\<lambda>r1. (True, [Ledc_set_duty 1638, Ledc_update_duty], ex_gpio\<lparr>backlight_percent := 40\<rparr>, snd r1))
         (schedule_system_work ex_env list_queue (Some (storage_item 7 w)) rt_static) \<and>
     storage_manager_execute_work map_nvs (Some (work_bytes w)) [] = Some flash' \<and>
     retrieve_backlight_brightness ex_store 0 flash' ex_gpio rt_static = Some (40, ex_gpio, rt_static)"
  using brightness_survives_restart [of ex_store flash_look ex_gpio 40 "\<lambda>c. True" "[]" rt_static 0 ex_gpio rt_static]
    map_nvs_spec
  by (simp add: ex_store_def ex_gpio_def map_nvs_def flash_written_def)

end
