(* ===== verification/Battery_Driver.thy ===== *)
theory Battery_Driver
  imports Gpio_Manager Float_Param Locks
begin

text \<open>
  The battery gauge (\<open>components/battery_driver\<close>): a burst of ten readings is filtered by dropping the three
  smallest and the three largest, smoothed by a one-dimensional Kalman filter, mapped to a percentage along
  the discharge curve and passed through a hysteresis.

  The readings are the results of \<open>gpio_manager_read_battery_mv\<close>; float arithmetic is a parameter.
\<close>

section \<open>The Kalman filter\<close>

record 'f kalman_state =
  est_mv :: 'f
  error_est :: 'f
  error_meas :: 'f
  kf_q :: 'f
  sample_count :: nat

definition MIN_SAMPLE_FOR_KALMAN_FILTER :: nat where "MIN_SAMPLE_FOR_KALMAN_FILTER = 5"

definition kalman_filter_update :: "'f float_ops \<Rightarrow> int \<Rightarrow> 'f kalman_state \<Rightarrow> int \<times> 'f kalman_state" where
  "kalman_filter_update fo measurement_mv st =
     (let st1 = (if sample_count st < MIN_SAMPLE_FOR_KALMAN_FILTER then st\<lparr>est_mv := f_int fo measurement_mv\<rparr>
                 else
                   let e1 = f_add fo (error_est st) (kf_q st);
                       kalman_gain = f_div fo e1 (f_add fo e1 (error_meas st))
                   in st\<lparr>est_mv := f_add fo (est_mv st) (f_mul fo kalman_gain (f_sub fo (f_int fo measurement_mv) (est_mv st))),
                         error_est := f_mul fo (f_sub fo (f_lit fo 1 0) kalman_gain) e1\<rparr>);
          st2 = st1\<lparr>sample_count := u32 (sample_count st1 + 1)\<rparr>
      in (f_s32 fo (est_mv st2), st2))"

definition kalman_filter_init :: "'f float_ops \<Rightarrow> 'f \<Rightarrow> 'f \<Rightarrow> 'f kalman_state" where
  "kalman_filter_init fo meas q =
     \<lparr>est_mv = f_lit fo 0 0, error_est = f_lit fo 1 0, error_meas = meas, kf_q = q, sample_count = 0\<rparr>"

section \<open>The driver\<close>

record 'f battery =
  batt_kalman_state :: "'f kalman_state"
  reported_pct :: nat
  first_run :: bool

definition lipo_curve_mv :: "int list" where
  "lipo_curve_mv = [3270, 3610, 3690, 3710, 3730, 3770, 3790, 3820, 3870, 3950, 4200]"

definition lipo_curve_pct :: "int list" where
  "lipo_curve_pct = [0, 10, 20, 30, 40, 50, 60, 70, 80, 90, 100]"

definition BURST_READ_SAMPLE_COUNT :: nat where "BURST_READ_SAMPLE_COUNT = 10"
definition OLYMPIC_DROP_COUNT :: nat where "OLYMPIC_DROP_COUNT = 3"
definition RECOVERY_THRESHOLD :: nat where "RECOVERY_THRESHOLD = 3"

text \<open>The average of the middle of the sorted burst.\<close>

definition burst_average :: "int list \<Rightarrow> int" where
  "burst_average samples =
     (let sorted_samples = sort samples;
          total = sum_list (map (\<lambda>i. sorted_samples ! i) [OLYMPIC_DROP_COUNT..<BURST_READ_SAMPLE_COUNT - OLYMPIC_DROP_COUNT])
      in c_div total (int (BURST_READ_SAMPLE_COUNT - OLYMPIC_DROP_COUNT * 2)))"

text \<open>The segment search: the first segment that contains the voltage.\<close>

fun curve_segment :: "int \<Rightarrow> nat list \<Rightarrow> int" where
  "curve_segment mv [] = 0"
| "curve_segment mv (i # is) =
     (if mv \<ge> lipo_curve_mv ! i \<and> mv \<le> lipo_curve_mv ! (i + 1)
      then lipo_curve_pct ! i +
           c_div ((mv - lipo_curve_mv ! i) * (lipo_curve_pct ! (i + 1) - lipo_curve_pct ! i)) (lipo_curve_mv ! (i + 1) - lipo_curve_mv ! i)
      else curve_segment mv is)"

definition curve_pct :: "int \<Rightarrow> nat" where
  "curve_pct mv =
     (if mv \<le> lipo_curve_mv ! 0 then 0
      else if mv \<ge> lipo_curve_mv ! 10 then 100
      else u8 (nat (curve_segment mv [0..<10])))"

definition hysteresis :: "bool \<Rightarrow> nat \<Rightarrow> 'f battery \<Rightarrow> 'f battery" where
  "hysteresis is_charging calculated_pct b =
     (if first_run b then b\<lparr>reported_pct := calculated_pct, first_run := False\<rparr>
      else if is_charging then b\<lparr>reported_pct := calculated_pct\<rparr>
      else if calculated_pct < reported_pct b then b\<lparr>reported_pct := calculated_pct\<rparr>
      else if calculated_pct \<ge> reported_pct b + RECOVERY_THRESHOLD then b\<lparr>reported_pct := calculated_pct\<rparr>
      else b)"

text \<open>The burst under the sleep lock: enable, ten readings (each may abort), disable.\<close>

primrec read_burst :: "(nat \<Rightarrow> int option) \<Rightarrow> nat \<Rightarrow> int list option" where
  "read_burst adc 0 = Some []"
| "read_burst adc (Suc n) = do { xs \<leftarrow> read_burst adc n; x \<leftarrow> adc n; Some (xs @ [x]) }"

definition battery_driver_read_battery_percentage ::
  "'f float_ops \<Rightarrow> 's lock_impl \<Rightarrow> (nat \<Rightarrow> int option) \<Rightarrow> (int \<Rightarrow> int option) \<Rightarrow> bool \<Rightarrow> gpio_sys \<Rightarrow> 's \<Rightarrow> 'f battery \<Rightarrow>
   (nat \<times> gpio_call list \<times> 's \<times> 'f battery) option" where
  "battery_driver_read_battery_percentage fo impl adc cali pg_level g lock b =
     do {
       let lock1 = sleep_lock_service_acquire_lock impl lock;
       samples \<leftarrow> read_burst (\<lambda>i. gpio_manager_read_battery_mv (adc i) cali g) BURST_READ_SAMPLE_COUNT;
       let lock2 = sleep_lock_service_release_lock impl lock1;
       let (final_smoothed_mv, k) = kalman_filter_update fo (burst_average samples) (batt_kalman_state b);
       let b1 = hysteresis (gpio_manager_is_charging pg_level g) (curve_pct final_smoothed_mv) (b\<lparr>batt_kalman_state := k\<rparr>);
       Some (reported_pct b1, gpio_manager_enable_battery_read g @ gpio_manager_disable_battery_read g, lock2, b1)
     }"

definition battery_driver_init :: "'f float_ops \<Rightarrow> 'f battery" where
  "battery_driver_init fo =
     \<lparr>batt_kalman_state = kalman_filter_init fo (f_lit fo 50 0) (f_lit fo 1 1), reported_pct = 100, first_run = True\<rparr>"

definition battery_driver_deinit :: "'f battery \<Rightarrow> 'f battery" where
  "battery_driver_deinit b = b\<lparr>batt_kalman_state := (batt_kalman_state b)\<lparr>sample_count := 0\<rparr>\<rparr>"

section \<open>Robustness against outliers\<close>

lemma sorted_index_bounds:
  fixes xs :: "int list"
  assumes "sorted xs" and "length xs = n" and "length (filter (\<lambda>x. x < lo) xs) \<le> i" and "i < n" and "length (filter (\<lambda>x. x > hi) xs) \<le> n - 1 - i"
  shows "lo \<le> xs ! i" and "xs ! i \<le> hi"
proof -
  show "lo \<le> xs ! i"
  proof (rule ccontr)
    assume "\<not> lo \<le> xs ! i"
    moreover have "x \<le> xs ! i" if "x \<in> set (take (Suc i) xs)" for x
      using that assms(1,2,4) by (auto simp: in_set_conv_nth intro!: sorted_nth_mono)
    ultimately have "\<forall>x \<in> set (take (Suc i) xs). x < lo"
      by fastforce
    then have "filter (\<lambda>x. x < lo) (take (Suc i) xs) = take (Suc i) xs"
      by (simp add: filter_id_conv)
    moreover have "length (filter (\<lambda>x. x < lo) xs) = length (filter (\<lambda>x. x < lo) (take (Suc i) xs)) + length (filter (\<lambda>x. x < lo) (drop (Suc i) xs))"
      by (metis append_take_drop_id filter_append length_append)
    ultimately show False
      using assms(2-4) by simp
  qed
  show "xs ! i \<le> hi"
  proof (rule ccontr)
    assume "\<not> xs ! i \<le> hi"
    moreover have "xs ! i \<le> x" if "x \<in> set (drop i xs)" for x
      using that assms(1,2) by (auto simp: in_set_conv_nth intro!: sorted_nth_mono)
    ultimately have "\<forall>x \<in> set (drop i xs). x > hi"
      by fastforce
    then have "filter (\<lambda>x. x > hi) (drop i xs) = drop i xs"
      by (simp add: filter_id_conv)
    moreover have "length (filter (\<lambda>x. x > hi) xs) = length (filter (\<lambda>x. x > hi) (take i xs)) + length (filter (\<lambda>x. x > hi) (drop i xs))"
      by (metis append_take_drop_id filter_append length_append)
    ultimately show False
      using assms(2,4,5) by simp
  qed
qed

lemma filter_sort_length: "length (filter P (sort xs)) = length (filter P xs)"
  by (metis filter_sort length_sort)

lemma average_bounds:
  fixes a b c d :: int
  assumes "lo \<le> a" "lo \<le> b" "lo \<le> c" "lo \<le> d" "a \<le> hi" "b \<le> hi" "c \<le> hi" "d \<le> hi" and "0 \<le> lo"
  shows "lo \<le> c_div (a + (b + (c + d))) 4" and "c_div (a + (b + (c + d))) 4 \<le> hi"
  using assms by (simp_all add: c_div_nonneg)

lemma burst_average_bounds:
  assumes "length samples = 10" and "length (filter (\<lambda>x. x < lo) samples) \<le> 3" and "length (filter (\<lambda>x. x > hi) samples) \<le> 3" and "0 \<le> lo"
  shows "lo \<le> burst_average samples" and "burst_average samples \<le> hi"
proof -
  have b: "lo \<le> sort samples ! i" "sort samples ! i \<le> hi" if "3 \<le> i" "i \<le> 6" for i
    using sorted_index_bounds [of "sort samples" 10 lo i hi] assms(1-3) that by (simp_all add: filter_sort_length)
  have "burst_average samples = c_div (sort samples ! 3 + (sort samples ! 4 + (sort samples ! 5 + sort samples ! 6))) 4"
    by (simp add: burst_average_def OLYMPIC_DROP_COUNT_def BURST_READ_SAMPLE_COUNT_def upt_rec Let_def)
  then show "lo \<le> burst_average samples" and "burst_average samples \<le> hi"
    using average_bounds [of lo "sort samples ! 3" "sort samples ! 4" "sort samples ! 5" "sort samples ! 6" hi] b assms(4) by simp_all
qed

section \<open>The discharge curve\<close>

definition seg :: "nat \<Rightarrow> int \<Rightarrow> int" where
  "seg i mv = 10 * int i + (mv - lipo_curve_mv ! i) * 10 div (lipo_curve_mv ! (i + 1) - lipo_curve_mv ! i)"

definition in_seg :: "nat \<Rightarrow> int \<Rightarrow> bool" where
  "in_seg i mv \<longleftrightarrow> i < 10 \<and> lipo_curve_mv ! i < mv \<and> mv \<le> lipo_curve_mv ! (i + 1)"

lemma below_ten: "i < 10 \<Longrightarrow> i = 0 \<or> i = 1 \<or> i = 2 \<or> i = 3 \<or> i = 4 \<or> i = 5 \<or> i = 6 \<or> i = 7 \<or> i = 8 \<or> i = (9 :: nat)"
  by presburger

lemma curve_mono: "i < j \<Longrightarrow> j < 11 \<Longrightarrow> lipo_curve_mv ! i < lipo_curve_mv ! j"
  using sorted_wrt_nth_less [of "(<)" lipo_curve_mv i j] by (simp add: lipo_curve_mv_def)

lemma curve_points: "i < 10 \<Longrightarrow> lipo_curve_pct ! i = 10 * int i \<and> lipo_curve_pct ! (i + 1) = 10 * int i + 10"
  using below_ten [of i] by (auto simp: lipo_curve_pct_def)

lemma curve_segment_skip:
  "\<forall>k \<in> set is. lipo_curve_mv ! (k + 1) < mv \<Longrightarrow> curve_segment mv (is @ js) = curve_segment mv js"
  by (induction "is") auto

lemma curve_segment_seg:
  assumes "in_seg i mv"
  shows "curve_segment mv [0..<10] = seg i mv"
proof -
  have i: "i < 10" "lipo_curve_mv ! i < mv" "mv \<le> lipo_curve_mv ! (i + 1)"
    using assms by (simp_all add: in_seg_def)
  have split: "[0..<10] = [0..<i] @ i # [i + 1..<10]"
    using i(1) upt_add_eq_append [of 0 i "10 - i"] by (simp add: upt_conv_Cons)
  have "lipo_curve_mv ! (k + 1) < mv" if "k \<in> set [0..<i]" for k
    using that i curve_mono [of "k + 1" i] by (cases "k + 1 = i") auto
  then have "curve_segment mv [0..<10] = curve_segment mv (i # [i + 1..<10])"
    unfolding split by (intro curve_segment_skip) blast
  then show ?thesis
    using i curve_mono [of i "i + 1"] curve_points [OF i(1)] by (simp add: seg_def c_div_nonneg)
qed

lemma seg_range:
  assumes "in_seg i mv"
  shows "10 * int i \<le> seg i mv" and "seg i mv \<le> 10 * int i + 10"
proof -
  let ?w = "lipo_curve_mv ! (i + 1) - lipo_curve_mv ! i"
  have w: "0 < ?w" "0 \<le> mv - lipo_curve_mv ! i" "mv - lipo_curve_mv ! i \<le> ?w"
    using assms curve_mono [of i "i + 1"] by (auto simp: in_seg_def)
  then show "10 * int i \<le> seg i mv"
    by (simp add: seg_def pos_imp_zdiv_nonneg_iff)
  have "(mv - lipo_curve_mv ! i) * 10 div ?w \<le> (10 * ?w) div ?w"
    using w by (intro zdiv_mono1) simp_all
  moreover have "(10 * ?w) div ?w = 10"
    using w(1) by (intro nonzero_mult_div_cancel_right) simp
  ultimately show "seg i mv \<le> 10 * int i + 10"
    unfolding seg_def by linarith
qed

lemma in_seg_exists:
  assumes "lipo_curve_mv ! 0 < mv" and "mv \<le> lipo_curve_mv ! 10"
  shows "\<exists>i. in_seg i mv"
proof -
  have "\<exists>k \<le> n. k < 10 \<and> lipo_curve_mv ! k < mv \<and> mv \<le> lipo_curve_mv ! (k + 1)" if "n < 10" "mv \<le> lipo_curve_mv ! (n + 1)" for n
    using that
  proof (induction n)
    case 0
    then show ?case using assms(1) by auto
  next
    case (Suc n)
    then show ?case
      by (cases "mv \<le> lipo_curve_mv ! (n + 1)") (auto intro: le_SucI)
  qed
  from this [of 9] show ?thesis
    using assms(2) by (auto simp: in_seg_def)
qed

lemma curve_pct_seg: "in_seg i mv \<Longrightarrow> mv < lipo_curve_mv ! 10 \<Longrightarrow> int (curve_pct mv) = seg i mv"
  using seg_range [of i mv] curve_segment_seg [of i mv] curve_mono [of 0 i]
  by (cases "i = 0") (auto simp: curve_pct_def in_seg_def u8_id)

lemma curve_pct_le: "curve_pct mv \<le> 100"
proof (cases "lipo_curve_mv ! 0 < mv \<and> mv < lipo_curve_mv ! 10")
  case True
  then obtain i where "in_seg i mv"
    using in_seg_exists [of mv] by auto
  then show ?thesis
    using curve_pct_seg [of i mv] seg_range(2) [of i mv] True by (simp add: in_seg_def)
qed (auto simp: curve_pct_def)

lemma curve_pct_mono:
  assumes "mv \<le> mv'"
  shows "curve_pct mv \<le> curve_pct mv'"
proof (cases "lipo_curve_mv ! 0 < mv \<and> mv' < lipo_curve_mv ! 10")
  case True
  then obtain i j where ij: "in_seg i mv" "in_seg j mv'"
    using in_seg_exists [of mv] in_seg_exists [of mv'] assms by fastforce
  have le: "i \<le> j"
  proof (rule ccontr)
    assume "\<not> i \<le> j"
    then have "lipo_curve_mv ! (j + 1) \<le> lipo_curve_mv ! i"
      using curve_mono [of "j + 1" i] ij by (cases "j + 1 = i") (auto simp: in_seg_def)
    then show False
      using ij assms by (simp add: in_seg_def)
  qed
  have "seg i mv \<le> seg j mv'"
  proof (cases "i = j")
    case True
    then show ?thesis
      using assms ij curve_mono [of i "i + 1"] by (simp add: seg_def in_seg_def zdiv_mono1)
  next
    case False
    then show ?thesis
      using seg_range(2) [OF ij(1)] seg_range(1) [OF ij(2)] le by linarith
  qed
  then show ?thesis
    using curve_pct_seg [OF ij(1)] curve_pct_seg [OF ij(2)] True assms by simp
next
  case False
  then show ?thesis
    using curve_pct_le [of mv] assms by (auto simp: curve_pct_def lipo_curve_mv_def)
qed

section \<open>The reported percentage\<close>

lemma read_burst_total: "\<forall>i < n. \<exists>x. adc i = Some x \<and> P x \<Longrightarrow> \<exists>xs. read_burst adc n = Some xs \<and> length xs = n"
  by (induction n) auto

lemma hysteresis_range: "p \<le> 100 \<Longrightarrow> reported_pct b \<le> 100 \<Longrightarrow> reported_pct (hysteresis c p b) \<le> 100"
  by (simp add: hysteresis_def)

lemma hysteresis_jump:
  "\<not> first_run b \<Longrightarrow> reported_pct (hysteresis False p b) \<le> reported_pct b \<or> reported_pct b + 3 \<le> reported_pct (hysteresis False p b)"
  by (auto simp: hysteresis_def RECOVERY_THRESHOLD_def)

lemma battery_gauge_facts:
  assumes "gm_initialized g" and "adc_handle g" and "adc_cali_handle g" and "reported_pct b \<le> 100"
  shows "\<exists>lock' b'. battery_driver_read_battery_percentage fo impl adc cali pg g lock b =
       Some (reported_pct b', [Set_level SENSOR_BATTERY_READ_EN_PIN True, Set_level SENSOR_BATTERY_READ_EN_PIN False], lock', b') \<and>
       reported_pct b' \<le> 100 \<and> lock' = sleep_lock_service_release_lock impl (sleep_lock_service_acquire_lock impl lock) \<and>
       (\<not> first_run b \<and> pg \<longrightarrow> reported_pct b' \<le> reported_pct b \<or> reported_pct b + 3 \<le> reported_pct b')"
    and "length samples = 10 \<Longrightarrow> length (filter (\<lambda>x. x < lo) samples) \<le> 3 \<Longrightarrow> length (filter (\<lambda>x. x > hi) samples) \<le> 3 \<Longrightarrow> 0 \<le> lo \<Longrightarrow>
       lo \<le> burst_average samples \<and> burst_average samples \<le> hi"
    and "mv \<le> mv' \<Longrightarrow> curve_pct mv \<le> curve_pct mv'"
proof -
  have "\<exists>x. gpio_manager_read_battery_mv (adc i) cali g = Some x \<and> True" for i
    using assms(1-3) by (auto simp: gpio_manager_read_battery_mv_def split: option.splits)
  then obtain xs where xs: "read_burst (\<lambda>i. gpio_manager_read_battery_mv (adc i) cali g) 10 = Some xs"
    using read_burst_total [of 10 "\<lambda>i. gpio_manager_read_battery_mv (adc i) cali g" "\<lambda>_. True"] by blast
  obtain mv k where k: "kalman_filter_update fo (burst_average xs) (batt_kalman_state b) = (mv, k)"
    by (cases "kalman_filter_update fo (burst_average xs) (batt_kalman_state b)")
  define b1 where "b1 = hysteresis (gpio_manager_is_charging pg g) (curve_pct mv) (b\<lparr>batt_kalman_state := k\<rparr>)"
  have "battery_driver_read_battery_percentage fo impl adc cali pg g lock b =
       Some (reported_pct b1, [Set_level SENSOR_BATTERY_READ_EN_PIN True, Set_level SENSOR_BATTERY_READ_EN_PIN False],
         sleep_lock_service_release_lock impl (sleep_lock_service_acquire_lock impl lock), b1)"
    using xs k assms(1) by (simp add: battery_driver_read_battery_percentage_def BURST_READ_SAMPLE_COUNT_def
        gpio_manager_enable_battery_read_def gpio_manager_disable_battery_read_def b1_def Let_def)
  moreover have "reported_pct b1 \<le> 100"
    unfolding b1_def using curve_pct_le [of mv] assms(4) by (simp add: hysteresis_range)
  moreover have "\<not> first_run b \<and> pg \<longrightarrow> reported_pct b1 \<le> reported_pct b \<or> reported_pct b + 3 \<le> reported_pct b1"
    using hysteresis_jump [of "b\<lparr>batt_kalman_state := k\<rparr>" "curve_pct mv"] assms(1) by (auto simp: b1_def gpio_manager_is_charging_def)
  ultimately show "\<exists>lock' b'. battery_driver_read_battery_percentage fo impl adc cali pg g lock b =
       Some (reported_pct b', [Set_level SENSOR_BATTERY_READ_EN_PIN True, Set_level SENSOR_BATTERY_READ_EN_PIN False], lock', b') \<and>
       reported_pct b' \<le> 100 \<and> lock' = sleep_lock_service_release_lock impl (sleep_lock_service_acquire_lock impl lock) \<and>
       (\<not> first_run b \<and> pg \<longrightarrow> reported_pct b' \<le> reported_pct b \<or> reported_pct b + 3 \<le> reported_pct b')"
    by blast
  show "length samples = 10 \<Longrightarrow> length (filter (\<lambda>x. x < lo) samples) \<le> 3 \<Longrightarrow> length (filter (\<lambda>x. x > hi) samples) \<le> 3 \<Longrightarrow> 0 \<le> lo \<Longrightarrow>
       lo \<le> burst_average samples \<and> burst_average samples \<le> hi"
    using burst_average_bounds [of samples lo hi] by simp
  show "mv \<le> mv' \<Longrightarrow> curve_pct mv \<le> curve_pct mv'" for mv mv'
    by (rule curve_pct_mono)
qed

text \<open>
  The battery gauge is stable and within range. With the ADC set up, a reading returns a percentage
  of at most 100, takes and gives back the sleep lock and switches the divider on and off. The filtered
  voltage of a burst lies between any bounds that at most three of the ten readings undercut and at most three
  exceed; the percentage grows with the voltage; and without the charger the reported value never rises by
  one or two points.
\<close>

lemma battery_gauge:
  assumes "gm_initialized g" and "adc_handle g" and "adc_cali_handle g" and "reported_pct b \<le> 100"
  shows "(\<exists>lock' b'. battery_driver_read_battery_percentage fo impl adc cali pg g lock b =
       Some (reported_pct b', [Set_level SENSOR_BATTERY_READ_EN_PIN True, Set_level SENSOR_BATTERY_READ_EN_PIN False], lock', b') \<and>
       reported_pct b' \<le> 100 \<and> lock' = sleep_lock_service_release_lock impl (sleep_lock_service_acquire_lock impl lock) \<and>
       (\<not> first_run b \<and> pg \<longrightarrow> reported_pct b' \<le> reported_pct b \<or> reported_pct b + 3 \<le> reported_pct b')) \<and>
     (\<forall>samples lo hi. length samples = 10 \<and> length (filter (\<lambda>x. x < lo) samples) \<le> 3 \<and>
         length (filter (\<lambda>x. x > hi) samples) \<le> 3 \<and> 0 \<le> lo \<longrightarrow>
       lo \<le> burst_average samples \<and> burst_average samples \<le> hi) \<and>
     (\<forall>mv mv'. mv \<le> mv' \<longrightarrow> curve_pct mv \<le> curve_pct mv')"
proof (intro conjI allI impI)
  fix samples :: "int list" and lo hi
  assume "length samples = 10 \<and> length (filter (\<lambda>x. x < lo) samples) \<le> 3 \<and> length (filter (\<lambda>x. x > hi) samples) \<le> 3 \<and> 0 \<le> lo"
  then show "lo \<le> burst_average samples" and "burst_average samples \<le> hi"
    using battery_gauge_facts(2) [OF assms, of samples lo hi] by simp_all
qed (rule battery_gauge_facts(1) [OF assms], rule battery_gauge_facts(3) [OF assms])

lemma battery_gauge_witness:
  "(\<exists>lock' b'. battery_driver_read_battery_percentage real_ops wakelock_impl (\<lambda>i. Some 1900) Some True ex_gpio 0 (battery_driver_init real_ops) =
       Some (reported_pct b', [Set_level SENSOR_BATTERY_READ_EN_PIN True, Set_level SENSOR_BATTERY_READ_EN_PIN False], lock', b') \<and>
       reported_pct b' \<le> 100) \<and>
   3700 \<le> burst_average [-1, -1, 3700, 3705, 3710, 3710, 3702, 3701, 4100, 4200] \<and>
   curve_pct 3700 \<le> curve_pct 3800"
proof -
  have g: "gm_initialized ex_gpio" "adc_handle ex_gpio" "adc_cali_handle ex_gpio"
    by (simp_all add: ex_gpio_def)
  have b: "reported_pct (battery_driver_init real_ops) \<le> 100"
    by (simp add: battery_driver_init_def)
  note gauge = battery_gauge [OF g b, of real_ops wakelock_impl "\<lambda>i. Some 1900" Some True 0]
  have "3700 \<le> burst_average [-1, -1, 3700, 3705, 3710, 3710, 3702, 3701, 4100, 4200]"
    using conjunct1 [OF conjunct2 [OF gauge], rule_format, of "[-1, -1, 3700, 3705, 3710, 3710, 3702, 3701, 4100, 4200]" 3700 4000]
    by simp
  then show ?thesis
    using gauge by auto
qed

end
