(* ===== verification/Bmp180_Driver.thy ===== *)
theory Bmp180_Driver
  imports Storage_Manager Locks Float_Param
begin

unbundle bit_operations_syntax

text \<open>
  The pressure sensor (\<open>components/BMP180_driver\<close>): calibration data, kept in the storage of the core
  system, and the compensation of temperature and pressure of the data sheet.

  The I2C transfers are parameters. Signed arithmetic is on integers with an explicit check: a result
  outside 32 bits and a division by zero, which the language leaves undefined, are the value \<open>None\<close>, as are
  a failed assertion and a call through a null pointer.
\<close>

section \<open>Types\<close>

definition BMP180_REG_AC1_H :: byte where "BMP180_REG_AC1_H = 0xAA"
definition BMP180_REG_CONTROL :: byte where "BMP180_REG_CONTROL = 0xF4"
definition BMP180_REG_DATA_MSB :: byte where "BMP180_REG_DATA_MSB = 0xF6"
definition BMP180_REG_CHIP_ID :: byte where "BMP180_REG_CHIP_ID = 0xD0"
definition BMP180_CMD_READ_TEMP :: byte where "BMP180_CMD_READ_TEMP = 0x2E"
definition BMP180_CMD_READ_PRESS :: byte where "BMP180_CMD_READ_PRESS = 0x34"
definition BMP180_OSS_SHIFT :: nat where "BMP180_OSS_SHIFT = 6"
definition BMP180_CHIP_ID_VALUE :: byte where "BMP180_CHIP_ID_VALUE = 0x55"

datatype bmp180_sensor_mode =
    BMP180_SENSOR_MODE_ULTRA_LOW_POWER | BMP180_SENSOR_MODE_STANDARD | BMP180_SENSOR_MODE_HIGH_RES
  | BMP180_SENSOR_MODE_ULTRA_HIGH_RES | BMP180_SENSOR_MODE_INVALID

primrec mode_code :: "bmp180_sensor_mode \<Rightarrow> nat" where
  "mode_code BMP180_SENSOR_MODE_ULTRA_LOW_POWER = 0"
| "mode_code BMP180_SENSOR_MODE_STANDARD = 1"
| "mode_code BMP180_SENSOR_MODE_HIGH_RES = 2"
| "mode_code BMP180_SENSOR_MODE_ULTRA_HIGH_RES = 3"
| "mode_code BMP180_SENSOR_MODE_INVALID = 4"

record calibration_regs =
  AC1 :: int
  AC2 :: int
  AC3 :: int
  AC4 :: nat
  AC5 :: nat
  AC6 :: nat
  B1 :: int
  B2 :: int
  MB :: int
  MC :: int
  MD :: int

definition zero_calibration :: calibration_regs where
  "zero_calibration = \<lparr>AC1 = 0, AC2 = 0, AC3 = 0, AC4 = 0, AC5 = 0, AC6 = 0, B1 = 0, B2 = 0, MB = 0, MC = 0, MD = 0\<rparr>"

record ('b, 's) bmp_env =
  i2c_master_transmit_receive :: "byte \<Rightarrow> nat \<Rightarrow> 'b \<Rightarrow> bool \<times> byte list \<times> 'b"
  i2c_master_transmit :: "byte list \<Rightarrow> 'b \<Rightarrow> bool \<times> 'b"
  bmp_lock_impl :: "'s lock_impl"

text \<open>\<open>bmp_bus\<close> says that the handles and the function pointers are set.\<close>

record ('f, 'b, 's) bmp_state =
  bmp_bus :: bool
  bmp_dev :: 'b
  bmp_lock :: 's
  calibration :: calibration_regs
  sea_level_pa :: 'f
  bmp_waited :: nat

section \<open>Bus access\<close>

definition i2c_read_register ::
  "('b, 's) bmp_env \<Rightarrow> byte \<Rightarrow> nat \<Rightarrow> ('f, 'b, 's) bmp_state \<Rightarrow> (bool \<times> byte list \<times> ('f, 'b, 's) bmp_state) option" where
  "i2c_read_register env reg n s =
     (if \<not> bmp_bus s then None
      else let (ok, data, d) = i2c_master_transmit_receive env reg n (bmp_dev s)
           in Some (ok, take n (data @ replicate n 0), s\<lparr>bmp_dev := d\<rparr>))"

definition i2c_write_register ::
  "('b, 's) bmp_env \<Rightarrow> byte \<Rightarrow> byte \<Rightarrow> ('f, 'b, 's) bmp_state \<Rightarrow> (bool \<times> ('f, 'b, 's) bmp_state) option" where
  "i2c_write_register env reg b s =
     (if \<not> bmp_bus s then None
      else let (ok, d) = i2c_master_transmit env [reg, b] (bmp_dev s) in Some (ok, s\<lparr>bmp_dev := d\<rparr>))"

definition bmp180_configure_i2c :: "bool \<Rightarrow> bool \<Rightarrow> ('f, 'b, 's) bmp_state \<Rightarrow> ('f, 'b, 's) bmp_state option" where
  "bmp180_configure_i2c new_bus_ok add_device_ok s =
     (if \<not> new_bus_ok \<or> \<not> add_device_ok then None else Some (s\<lparr>bmp_bus := True\<rparr>))"

text \<open>Releasing asserts that the handles are set; the callers clear the interface afterwards in any case.\<close>

definition bmp180_release_i2c :: "('f, 'b, 's) bmp_state \<Rightarrow> ('f, 'b, 's) bmp_state option" where
  "bmp180_release_i2c s = (if \<not> bmp_bus s then None else Some s)"

section \<open>Checked 32-bit arithmetic\<close>

definition i32 :: "int \<Rightarrow> int option" where
  "i32 x = (if - 2147483648 \<le> x \<and> x < 2147483648 then Some x else None)"

definition i32_mul :: "int \<Rightarrow> int \<Rightarrow> int option" where "i32_mul a b = i32 (a * b)"
definition i32_add :: "int \<Rightarrow> int \<Rightarrow> int option" where "i32_add a b = i32 (a + b)"
definition i32_div :: "int \<Rightarrow> int \<Rightarrow> int option" where "i32_div a b = (if b = 0 then None else i32 (c_div a b))"

definition asr :: "int \<Rightarrow> nat \<Rightarrow> int" where "asr a n = a div 2 ^ n"

text \<open>Unsigned 32-bit values as naturals.\<close>

definition u32_of_int :: "int \<Rightarrow> nat" where "u32_of_int x = nat (x mod 4294967296)"

section \<open>Compensation\<close>

text \<open>The intermediate value \<open>B5\<close> of the data sheet from the raw temperature.\<close>

definition compute_B5 :: "calibration_regs \<Rightarrow> int \<Rightarrow> int option" where
  "compute_B5 c UT =
     do {
       m \<leftarrow> i32_mul (UT - int (AC6 c)) (int (AC5 c));
       let X1 = asr m 15;
       n \<leftarrow> i32_mul (MC c) 2048;
       d \<leftarrow> i32_add X1 (MD c);
       X2 \<leftarrow> i32_div n d;
       i32_add X1 X2
     }"

definition temp_of_B5 :: "int \<Rightarrow> int option" where
  "temp_of_B5 B5 = do { t \<leftarrow> i32_add B5 8; Some (asr t 4) }"

text \<open>The pressure in pascal from the raw pressure, the oversampling setting and \<open>B5\<close>.\<close>

definition compute_pressure :: "calibration_regs \<Rightarrow> int \<Rightarrow> nat \<Rightarrow> int \<Rightarrow> int option" where
  "compute_pressure c UP oss B5 =
     do {
       B6 \<leftarrow> i32_add B5 (- 4000);
       q \<leftarrow> i32_mul B6 B6;
       a1 \<leftarrow> i32_mul (B2 c) (asr q 12);
       a2 \<leftarrow> i32_mul (AC2 c) B6;
       X3 \<leftarrow> i32_add (asr a1 11) (asr a2 11);
       b0 \<leftarrow> i32_add (AC1 c * 4) X3;
       b1 \<leftarrow> i32_mul b0 (2 ^ oss);
       b2 \<leftarrow> i32_add b1 2;
       let B3 = asr b2 2;
       c1 \<leftarrow> i32_mul (AC3 c) B6;
       c2 \<leftarrow> i32_mul (B1 c) (asr q 12);
       c3 \<leftarrow> i32_add (asr c1 13) (asr c2 16);
       c4 \<leftarrow> i32_add c3 2;
       let X3' = asr c4 2;
       x \<leftarrow> i32_add X3' 32768;
       let B4 = u32 (AC4 c * u32_of_int x) div 32768;
       let B7 = u32 (u32_of_int (UP - B3) * (50000 div 2 ^ oss));
       if B4 = 0 then None
       else do {
         p0 \<leftarrow> i32 (int (if B7 < 2147483648 then B7 * 2 div B4 else u32 (B7 div B4 * 2)));
         s1 \<leftarrow> i32_mul (asr p0 8) (asr p0 8);
         s2 \<leftarrow> i32_mul s1 3038;
         s3 \<leftarrow> i32_mul (- 7357) p0;
         s4 \<leftarrow> i32_add (asr s2 16) (asr s3 16);
         s5 \<leftarrow> i32_add s4 3791;
         i32_add p0 (asr s5 4)
       }
     }"

section \<open>Reading\<close>

definition bmp180_update_sea_level_pa :: "'f \<Rightarrow> ('f, 'b, 's) bmp_state \<Rightarrow> ('f, 'b, 's) bmp_state" where
  "bmp180_update_sea_level_pa pa s = s\<lparr>sea_level_pa := pa\<rparr>"

definition bmp_acquire :: "('b, 's) bmp_env \<Rightarrow> ('f, 'b, 's) bmp_state \<Rightarrow> ('f, 'b, 's) bmp_state" where
  "bmp_acquire env s = s\<lparr>bmp_lock := sleep_lock_service_acquire_lock (bmp_lock_impl env) (bmp_lock s)\<rparr>"

definition bmp_release :: "('b, 's) bmp_env \<Rightarrow> ('f, 'b, 's) bmp_state \<Rightarrow> ('f, 'b, 's) bmp_state" where
  "bmp_release env s = s\<lparr>bmp_lock := sleep_lock_service_release_lock (bmp_lock_impl env) (bmp_lock s)\<rparr>"

text \<open>
  One conversion under the sleep lock: write the command, wait, read \<open>n\<close> bytes. The result is \<open>None\<close> inside
  the pair when a transfer failed; every path releases the lock.
\<close>

definition convert ::
  "('b, 's) bmp_env \<Rightarrow> byte \<Rightarrow> nat \<Rightarrow> nat \<Rightarrow> ('f, 'b, 's) bmp_state \<Rightarrow> (byte list option \<times> ('f, 'b, 's) bmp_state) option" where
  "convert env cmd wait n s0 =
     do {
       (success, s1) \<leftarrow> i2c_write_register env BMP180_REG_CONTROL cmd (bmp_acquire env s0);
       if \<not> success then Some (None, bmp_release env s1)
       else do {
         (success2, raw, s2) \<leftarrow> i2c_read_register env BMP180_REG_DATA_MSB n (s1\<lparr>bmp_waited := bmp_waited s1 + wait\<rparr>);
         Some (if success2 then Some raw else None, bmp_release env s2)
       }
     }"

definition raw_temperature :: "byte list \<Rightarrow> int" where
  "raw_temperature raw = int (256 * unat (raw ! 0) + unat (raw ! 1))"

definition bmp180_read_temp ::
  "('b, 's) bmp_env \<Rightarrow> bool \<Rightarrow> ('f, 'b, 's) bmp_state \<Rightarrow> (int option \<times> ('f, 'b, 's) bmp_state) option" where
  "bmp180_read_temp env out_given s =
     (if \<not> out_given then Some (None, s)
      else do {
        (raw, s1) \<leftarrow> convert env BMP180_CMD_READ_TEMP 5 2 s;
        case raw of
          None \<Rightarrow> Some (None, s1)
        | Some bytes \<Rightarrow> do {
            B5 \<leftarrow> compute_B5 (calibration s1) (raw_temperature bytes);
            t \<leftarrow> temp_of_B5 B5;
            Some (Some t, s1)
          }
      })"

definition conversion_delay :: "nat \<Rightarrow> nat" where
  "conversion_delay oss = [5, 8, 14, 26] ! oss"

definition raw_pressure :: "nat \<Rightarrow> byte list \<Rightarrow> int" where
  "raw_pressure oss raw = int ((65536 * unat (raw ! 0) + 256 * unat (raw ! 1) + unat (raw ! 2)) div 2 ^ (8 - oss))"

text \<open>On success the temperature in tenths of a degree and the altitude in tenths of a metre.\<close>

definition bmp180_read_temp_and_altitude ::
  "'f float_ops \<Rightarrow> ('b, 's) bmp_env \<Rightarrow> bool \<Rightarrow> bmp180_sensor_mode \<Rightarrow> ('f, 'b, 's) bmp_state \<Rightarrow>
   ((int \<times> int) option \<times> ('f, 'b, 's) bmp_state) option" where
  "bmp180_read_temp_and_altitude fo env out_given mode s =
     (if \<not> out_given then Some (None, s)
      else do {
        (raw, s1) \<leftarrow> convert env BMP180_CMD_READ_TEMP 5 2 s;
        case raw of
          None \<Rightarrow> Some (None, s1)
        | Some bytes \<Rightarrow> do {
            B5 \<leftarrow> compute_B5 (calibration s1) (raw_temperature bytes);
            t \<leftarrow> temp_of_B5 B5;
            let oss = (if mode_code mode \<ge> 4 then 0 else mode_code mode);
            (raw2, s2) \<leftarrow> convert env (BMP180_CMD_READ_PRESS OR byte_of (oss * 2 ^ BMP180_OSS_SHIFT)) (conversion_delay oss) 3 s1;
            case raw2 of
              None \<Rightarrow> Some (None, s2)
            | Some bytes2 \<Rightarrow> do {
                p \<leftarrow> compute_pressure (calibration s2) (raw_pressure oss bytes2) oss B5;
                let alt = f_s32 fo (f_mul fo (f_mul fo (f_lit fo 44330 0)
                            (f_sub fo (f_lit fo 1 0) (f_pow fo (f_div fo (f_int fo p) (sea_level_pa s2)) (f_lit fo 1902949 7)))) (f_int fo 10));
                Some (Some (t, alt), s2)
              }
          }
      })"

section \<open>Calibration and life cycle\<close>

definition word_at :: "byte list \<Rightarrow> nat \<Rightarrow> 16 word" where
  "word_at data i = (push_bit 8 (ucast (data ! i)) OR ucast (data ! (i + 1)))"

definition populate_calibration_regs :: "byte list \<Rightarrow> ('f, 'b, 's) bmp_state \<Rightarrow> ('f, 'b, 's) bmp_state" where
  "populate_calibration_regs data s = s\<lparr>calibration :=
     \<lparr>AC1 = sint (word_at data 0), AC2 = sint (word_at data 2), AC3 = sint (word_at data 4),
      AC4 = unat (word_at data 6), AC5 = unat (word_at data 8), AC6 = unat (word_at data 10),
      B1 = sint (word_at data 12), B2 = sint (word_at data 14), MB = sint (word_at data 16),
      MC = sint (word_at data 18), MD = sint (word_at data 20)\<rparr>\<rparr>"

text \<open>The key \<open>"BMP180"\<close>.\<close>

definition bmp_key :: "byte list" where "bmp_key = [66, 77, 80, 49, 56, 48]"

definition read_and_store_calibration_data_if_required ::
  "('b, 's) bmp_env \<Rightarrow> ('w, 'q, 'n) store_env \<Rightarrow> byte list \<Rightarrow> 'n \<Rightarrow> ('f, 'b, 's) bmp_state \<Rightarrow> ('w, 'q, 'z) runtime_scheme \<Rightarrow>
   (('f, 'b, 's) bmp_state \<times> ('w, 'q, 'z) runtime_scheme) option" where
  "read_and_store_calibration_data_if_required env se cal_reg flash s r =
     do {
       (stored, dest, len) \<leftarrow> storage_manager_retrieve_key (se_nvs se) (se_initialized se) CORE_SYSTEM_APP_ID
          (Some bmp_key) (Some cal_reg) (Some 22) flash;
       if stored
       then if len \<noteq> Some 22 then None else Some (populate_calibration_regs (the dest) s, r)
       else do {
         (success, data, s1) \<leftarrow> i2c_read_register env BMP180_REG_AC1_H 22 s;
         if \<not> success then Some (s1, r)
         else do {
           (saved, r1) \<leftarrow> storage_manager_save_key (se_rt se) (se_ops se) (se_work_fn se) (se_initialized se) CORE_SYSTEM_APP_ID
              (Some bmp_key) (Some data) 22 r;
           Some (populate_calibration_regs data s1, r1)
         }
       }
     }"

definition bmp180_init ::
  "('b, 's) bmp_env \<Rightarrow> ('w, 'q, 'n) store_env \<Rightarrow> byte list \<Rightarrow> bool \<Rightarrow> bool \<Rightarrow> 'n \<Rightarrow> ('f, 'b, 's) bmp_state \<Rightarrow>
   ('w, 'q, 'z) runtime_scheme \<Rightarrow> (('f, 'b, 's) bmp_state \<times> ('w, 'q, 'z) runtime_scheme) option" where
  "bmp180_init env se cal_reg new_bus_ok add_device_ok flash s r =
     do {
       s1 \<leftarrow> bmp180_configure_i2c new_bus_ok add_device_ok s;
       (success, dev, s2) \<leftarrow> i2c_read_register env BMP180_REG_CHIP_ID 1 s1;
       if success \<and> dev ! 0 = BMP180_CHIP_ID_VALUE
       then read_and_store_calibration_data_if_required env se cal_reg flash s2 r
       else do {
         s3 \<leftarrow> bmp180_release_i2c s2;
         Some (s3\<lparr>bmp_bus := False\<rparr>, r)
       }
     }"

definition bmp180_deinit :: "('f, 'b, 's) bmp_state \<Rightarrow> ('f, 'b, 's) bmp_state option" where
  "bmp180_deinit s = do { s1 \<leftarrow> bmp180_release_i2c s; Some (s1\<lparr>bmp_bus := False\<rparr>) }"

section \<open>Conversions give the sleep lock back\<close>

lemma convert_balanced:
  assumes "convert env cmd wait n s = Some (raw, s')"
  shows "bmp_lock s' = sleep_lock_service_release_lock (bmp_lock_impl env) (sleep_lock_service_acquire_lock (bmp_lock_impl env) (bmp_lock s))"
    and "calibration s' = calibration s" and "bmp_bus s' = bmp_bus s"
  using assms
  by (auto simp: convert_def i2c_write_register_def i2c_read_register_def bmp_acquire_def bmp_release_def bind_eq_Some_iff
      split: if_splits prod.splits)

section \<open>Without calibration or without the chip\<close>

lemma zero_calibration_divides: "compute_B5 zero_calibration UT = None"
  by (simp add: compute_B5_def zero_calibration_def i32_mul_def i32_def asr_def i32_add_def i32_div_def)

lemma missing_chip_no_bus:
  assumes "bmp180_init env se cal_reg True True flash s r = Some (s1, r1)"
    and no: "\<not> (\<exists>data d. i2c_master_transmit_receive env BMP180_REG_CHIP_ID 1 (bmp_dev s) = (True, BMP180_CHIP_ID_VALUE # data, d))"
  shows "\<not> bmp_bus s1"
proof -
  obtain ok data d where t: "i2c_master_transmit_receive env BMP180_REG_CHIP_ID 1 (bmp_dev s) = (ok, data, d)"
    by (cases "i2c_master_transmit_receive env BMP180_REG_CHIP_ID 1 (bmp_dev s)") auto
  have "\<not> (ok \<and> take 1 (data @ [0]) ! 0 = BMP180_CHIP_ID_VALUE)"
    using no t by (cases data) (auto simp: BMP180_CHIP_ID_VALUE_def)
  then show ?thesis
    using assms(1) t by (auto simp: bmp180_init_def bmp180_configure_i2c_def i2c_read_register_def bmp180_release_i2c_def)
qed

lemma uncalibrated_reading:
  assumes z: "calibration s1 = zero_calibration"
    and run: "bmp180_read_temp_and_altitude fo env True mode s1 = Some (v, s2)"
  shows "v = None"
proof -
  have "convert env BMP180_CMD_READ_TEMP 5 2 s1 \<noteq> None"
    using run by (cases "convert env BMP180_CMD_READ_TEMP 5 2 s1") (simp_all add: bmp180_read_temp_and_altitude_def)
  then obtain raw s' where c: "convert env BMP180_CMD_READ_TEMP 5 2 s1 = Some (raw, s')" by auto
  have cal: "calibration s' = zero_calibration" using convert_balanced(2) [OF c] z by simp
  show ?thesis
  proof (cases raw)
    case None
    then show ?thesis using run c by (simp add: bmp180_read_temp_and_altitude_def)
  next
    case (Some bytes)
    then show ?thesis using run c cal by (simp add: bmp180_read_temp_and_altitude_def zero_calibration_divides)
  qed
qed

text \<open>
  A missing sensor brings the system down. If the chip does not answer with its identity at start,
  initialisation succeeds but leaves the interface without handlers: the next reading calls a null pointer and
  the shutdown fails its assertion. If the chip answers but its calibration registers cannot be read, the
  first reading whose transfer succeeds divides by zero.
\<close>

lemma bmp180_missing_sensor_aborts:
  assumes "bmp180_init env se cal_reg True True flash s r = Some (s1, r1)"
  shows "(\<not> (\<exists>data d. i2c_master_transmit_receive env BMP180_REG_CHIP_ID 1 (bmp_dev s) = (True, BMP180_CHIP_ID_VALUE # data, d)) \<longrightarrow>
            bmp180_read_temp_and_altitude fo env True mode s1 = None \<and> bmp180_deinit s1 = None)
       \<and> (calibration s1 = zero_calibration \<longrightarrow>
            (\<forall>v s2. bmp180_read_temp_and_altitude fo env True mode s1 = Some (v, s2) \<longrightarrow> v = None))"
proof (intro conjI impI allI)
  assume no: "\<not> (\<exists>data d. i2c_master_transmit_receive env BMP180_REG_CHIP_ID 1 (bmp_dev s) = (True, BMP180_CHIP_ID_VALUE # data, d))"
  have gone: "\<not> bmp_bus s1" by (rule missing_chip_no_bus [OF assms no])
  show "bmp180_read_temp_and_altitude fo env True mode s1 = None"
    using gone by (simp add: bmp180_read_temp_and_altitude_def convert_def i2c_write_register_def bmp_acquire_def)
  show "bmp180_deinit s1 = None"
    using gone by (simp add: bmp180_deinit_def bmp180_release_i2c_def)
next
  fix v s2
  assume "calibration s1 = zero_calibration" and "bmp180_read_temp_and_altitude fo env True mode s1 = Some (v, s2)"
  then show "v = None" by (rule uncalibrated_reading)
qed

text \<open>A bus on which no device answers.\<close>

definition silent_bus :: "(nat, int) bmp_env" where
  "silent_bus = \<lparr>i2c_master_transmit_receive = \<lambda>reg n d. (False, [], d), i2c_master_transmit = \<lambda>xs d. (False, d),
     bmp_lock_impl = wakelock_impl\<rparr>"

definition ex_bmp :: "(real, nat, int) bmp_state" where
  "ex_bmp = \<lparr>bmp_bus = False, bmp_dev = 0, bmp_lock = 0, calibration = zero_calibration, sea_level_pa = 100300, bmp_waited = 0\<rparr>"

lemma bmp180_missing_sensor_aborts_witness:
  "bmp180_init silent_bus ex_store (replicate 22 0) True True [] ex_bmp rt_static = Some (ex_bmp, rt_static) \<and>
   bmp180_read_temp_and_altitude real_ops silent_bus True BMP180_SENSOR_MODE_HIGH_RES ex_bmp = None \<and> bmp180_deinit ex_bmp = None"
proof -
  have i: "bmp180_init silent_bus ex_store (replicate 22 0) True True [] ex_bmp rt_static = Some (ex_bmp, rt_static)"
    by (simp add: bmp180_init_def bmp180_configure_i2c_def i2c_read_register_def silent_bus_def bmp180_release_i2c_def ex_bmp_def)
  then show ?thesis
    using bmp180_missing_sensor_aborts [OF i, of real_ops BMP180_SENSOR_MODE_HIGH_RES] by (simp add: silent_bus_def)
qed

text \<open>The example of the data sheet.\<close>

definition datasheet_calibration :: calibration_regs where
  "datasheet_calibration = \<lparr>AC1 = 408, AC2 = - 72, AC3 = - 14383, AC4 = 32741, AC5 = 32757, AC6 = 23153, B1 = 6190, B2 = 4,
     MB = - 32768, MC = - 8711, MD = 2868\<rparr>"

lemma datasheet_example:
  "compute_B5 datasheet_calibration 27898 = Some 2400" "temp_of_B5 2400 = Some 150"
  "compute_pressure datasheet_calibration 23843 0 2400 = Some 69964"
  by (simp_all add: compute_B5_def temp_of_B5_def compute_pressure_def datasheet_calibration_def i32_mul_def i32_add_def
      i32_div_def i32_def asr_def c_div_def u32_of_int_def u32_def Let_def)

end
