(* ===== verification/Sensor_Manager.thy ===== *)
theory Sensor_Manager
  imports Motion_Engine Imu_Driver Battery_Driver Bmp180_Driver State_Manager
begin

text \<open>
  The sensor manager (\<open>components/sensor_manager\<close>): system work that reads the IMU FIFO into the motion
  engine and publishes the steps found, and that reads pressure and battery; the ticks schedule this work.

  The drivers share the sleep lock, which is therefore kept once, in \<open>sn_lock\<close>, and handed to the driver that
  runs. Event handlers act on the state of the state manager; \<open>None\<close> is an aborted system.
\<close>

section \<open>State\<close>

definition IMU_FIFO_SIZE :: nat where "IMU_FIFO_SIZE = 800"
definition MAX_WORKER_ARG_PAYLOAD :: nat where "MAX_WORKER_ARG_PAYLOAD = 255"

record ('f, 'b, 'c, 's) sensors =
  sn_imu :: "('b, 's) imu_state"
  sn_bmp :: "('f, 'c, 's) bmp_state"
  sn_battery :: "'f battery"
  sn_stage1 :: "'f stage1_ctx"
  imu_fifo :: "byte list"
  sn_lock :: 's

definition imu_now :: "('f, 'b, 'c, 's, 'z) sensors_scheme \<Rightarrow> ('b, 's) imu_state" where
  "imu_now sn = (sn_imu sn)\<lparr>imu_lock := sn_lock sn\<rparr>"

definition put_imu :: "('b, 's) imu_state \<Rightarrow> ('f, 'b, 'c, 's, 'z) sensors_scheme \<Rightarrow> ('f, 'b, 'c, 's, 'z) sensors_scheme" where
  "put_imu i sn = sn\<lparr>sn_imu := i, sn_lock := imu_lock i\<rparr>"

definition bmp_now :: "('f, 'b, 'c, 's, 'z) sensors_scheme \<Rightarrow> ('f, 'c, 's) bmp_state" where
  "bmp_now sn = (sn_bmp sn)\<lparr>bmp_lock := sn_lock sn\<rparr>"

definition put_bmp :: "('f, 'c, 's) bmp_state \<Rightarrow> ('f, 'b, 'c, 's, 'z) sensors_scheme \<Rightarrow> ('f, 'b, 'c, 's, 'z) sensors_scheme" where
  "put_bmp b sn = sn\<lparr>sn_bmp := b, sn_lock := bmp_lock b\<rparr>"

definition clear_fifo :: "('f, 'b, 'c, 's, 'z) sensors_scheme \<Rightarrow> ('f, 'b, 'c, 's, 'z) sensors_scheme" where
  "clear_fifo sn = sn\<lparr>imu_fifo := replicate IMU_FIFO_SIZE 0\<rparr>"

section \<open>Work functions\<close>

definition step_event :: "nat \<Rightarrow> sys_event" where
  "step_event n = \<lparr>ev = EVENT_NEW_STEPS, ev_payload_len = 4, ev_data = Data_steps n\<rparr>"

text \<open>
  The abort flag is read once, after the transfers. \<open>junk\<close> is what the uninitialised result structure holds.
  The errors of the driver are logged and otherwise ignored.
\<close>

definition process_imu_data ::
  "'f float_ops \<Rightarrow> ('b, 's) imu_env \<Rightarrow> ('h, 'z) state_call \<Rightarrow> bool \<Rightarrow> imu_stage1_result \<Rightarrow>
   ('f, 'b, 'c, 's, 'y) sensors_scheme \<Rightarrow> ('h, 'z) state_sys_scheme \<Rightarrow>
   (('f, 'b, 'c, 's, 'y) sensors_scheme \<times> ('h, 'z) state_sys_scheme) option" where
  "process_imu_data fo env call flag junk sn g =
     do {
       (temp_err, temp, i1) \<leftarrow> imu_read_temperature env (imu_now sn);
       (fifo_err, buf, samples, i2) \<leftarrow> imu_read_fifo_buffer env (imu_fifo sn) IMU_FIFO_SIZE i1;
       let sn1 = (put_imu i2 sn)\<lparr>imu_fifo := buf\<rparr>;
       if flag then Some (clear_fifo sn1, g)
       else if samples = 0 then Some (sn1, g)
       else do {
         (res, ctx) \<leftarrow> stage1_process_motion_data fo (drop 1 buf) samples junk (sn_stage1 sn1);
         let sn2 = sn1\<lparr>sn_stage1 := ctx\<rparr>;
         if res_steps res \<noteq> 0
         then do {
           (delivered, g1) \<leftarrow> event_publish call (Some (step_event (res_steps res))) g;
           Some (clear_fifo sn2, g1)
         }
         else Some (clear_fifo sn2, g)
       }
     }"

definition process_bmp_data ::
  "'f float_ops \<Rightarrow> ('c, 's) bmp_env \<Rightarrow> ('f, 'b, 'c, 's, 'y) sensors_scheme \<Rightarrow>
   ((int \<times> int) option \<times> ('f, 'b, 'c, 's, 'y) sensors_scheme) option" where
  "process_bmp_data fo env sn =
     do {
       (reading, b) \<leftarrow> bmp180_read_temp_and_altitude fo env True BMP180_SENSOR_MODE_HIGH_RES (bmp_now sn);
       Some (reading, put_bmp b sn)
     }"

definition process_battery_data ::
  "'f float_ops \<Rightarrow> 's lock_impl \<Rightarrow> (nat \<Rightarrow> int option) \<Rightarrow> (int \<Rightarrow> int option) \<Rightarrow> bool \<Rightarrow> gpio_sys \<Rightarrow>
   ('f, 'b, 'c, 's, 'y) sensors_scheme \<Rightarrow> (nat \<times> gpio_call list \<times> ('f, 'b, 'c, 's, 'y) sensors_scheme) option" where
  "process_battery_data fo impl adc cali pg_level gp sn =
     do {
       (pct, cs, lock, b) \<leftarrow> battery_driver_read_battery_percentage fo impl adc cali pg_level gp (sn_lock sn) (sn_battery sn);
       Some (pct, cs, sn\<lparr>sn_battery := b, sn_lock := lock\<rparr>)
     }"

section \<open>Scheduling\<close>

text \<open>A work item with everything but handler and type zero.\<close>

definition sensor_item :: "'w \<Rightarrow> 'w work_item" where
  "sensor_item f = \<lparr>wi_handler = Some (Work_fn f), wi_type = WORK_TYPE_SYSTEM, wi_arg = Arg_bytes (replicate MAX_WORKER_ARG_PAYLOAD 0),
     wi_priority = 0\<rparr>"

definition schedule_imu_work ::
  "rt_env \<Rightarrow> ('w work_item, 'q) queue_ops \<Rightarrow> 'w \<Rightarrow> ('w, 'q, 'z) runtime_scheme \<Rightarrow> ('w, 'q, 'z) runtime_scheme option" where
  "schedule_imu_work env ops imu_fn r =
     do { (success, r1) \<leftarrow> schedule_system_work env ops (Some (sensor_item imu_fn)) r; Some r1 }"

definition schedule_sensor_work ::
  "rt_env \<Rightarrow> ('w work_item, 'q) queue_ops \<Rightarrow> 'w \<Rightarrow> 'w \<Rightarrow> ('w, 'q, 'z) runtime_scheme \<Rightarrow> ('w, 'q, 'z) runtime_scheme option" where
  "schedule_sensor_work env ops bmp_fn batt_fn r =
     do {
       (success, r1) \<leftarrow> schedule_system_work env ops (Some (sensor_item bmp_fn)) r;
       (success2, r2) \<leftarrow> schedule_system_work env ops (Some (sensor_item batt_fn)) r1;
       Some r2
     }"

definition sensor_manager_arm_wakeup_interrupt ::
  "('b, 's) imu_env \<Rightarrow> ('f, 'b, 'c, 's, 'y) sensors_scheme \<Rightarrow> ('f, 'b, 'c, 's, 'y) sensors_scheme option" where
  "sensor_manager_arm_wakeup_interrupt env sn = do { (e, i) \<leftarrow> imu_setup_wake_on_motion env (imu_now sn); Some (put_imu i sn) }"

definition sensor_manager_disarm_wakup_interrupt ::
  "('b, 's) imu_env \<Rightarrow> ('f, 'b, 'c, 's, 'y) sensors_scheme \<Rightarrow> ('f, 'b, 'c, 's, 'y) sensors_scheme option" where
  "sensor_manager_disarm_wakup_interrupt env sn = do { (e, i) \<leftarrow> imu_disable_wake_on_motion env (imu_now sn); Some (put_imu i sn) }"

section \<open>Life cycle\<close>

text \<open>The two buses, the allocation of the history and the stored calibration are outcomes of the environment.\<close>

definition sensor_manager_init ::
  "'f float_ops \<Rightarrow> ('b, 's) imu_env \<Rightarrow> ('c, 's) bmp_env \<Rightarrow> ('w, 'q, 'n) store_env \<Rightarrow> 'f list option \<Rightarrow> byte list \<Rightarrow>
   bool \<Rightarrow> bool \<Rightarrow> bool \<Rightarrow> bool \<Rightarrow> 'n \<Rightarrow> 'h \<Rightarrow> 'h \<Rightarrow> ('f, 'b, 'c, 's, 'y) sensors_scheme \<Rightarrow> ('h, 'z) event_mgr_scheme \<Rightarrow>
   ('w, 'q, 'x) runtime_scheme \<Rightarrow>
   (('f, 'b, 'c, 's, 'y) sensors_scheme \<times> ('h, 'z) event_mgr_scheme \<times> ('w, 'q, 'x) runtime_scheme) option" where
  "sensor_manager_init fo ienv benv se mem cal_reg i2c_bus_ok i2c_dev_ok spi_bus_ok spi_dev_ok flash imu_h sensor_h sn g r =
     do {
       let sn1 = sn\<lparr>sn_stage1 := stage1_init fo mem\<rparr>;
       (b, r1) \<leftarrow> bmp180_init benv se cal_reg i2c_bus_ok i2c_dev_ok flash (bmp_now sn1) r;
       let sn2 = (put_bmp b sn1)\<lparr>sn_battery := battery_driver_init fo\<rparr>;
       (e, i) \<leftarrow> imu_init ienv spi_bus_ok spi_dev_ok (imu_now sn2);
       let g1 = snd (event_subscribe EVENT_WORK_TICK (Some imu_h) g);
       let g2 = snd (event_subscribe EVENT_SENSOR_TICK (Some sensor_h) g1);
       Some (put_imu i sn2, g2, r1)
     }"

definition sensor_manager_deinit ::
  "'f float_ops \<Rightarrow> ('b, 's) imu_env \<Rightarrow> 'h \<Rightarrow> 'h \<Rightarrow> ('f, 'b, 'c, 's, 'y) sensors_scheme \<Rightarrow> ('h, 'z) event_mgr_scheme \<Rightarrow>
   (('f, 'b, 'c, 's, 'y) sensors_scheme \<times> ('h, 'z) event_mgr_scheme) option" where
  "sensor_manager_deinit fo ienv imu_h sensor_h sn g =
     do {
       let g1 = snd (event_unsubscribe EVENT_WORK_TICK (Some imu_h) g);
       let g2 = snd (event_unsubscribe EVENT_SENSOR_TICK (Some sensor_h) g1);
       (e, i) \<leftarrow> imu_enter_low_power_mode ienv (imu_now sn);
       let sn1 = (put_imu i sn)\<lparr>sn_battery := battery_driver_deinit (sn_battery sn)\<rparr>;
       b \<leftarrow> bmp180_deinit (bmp_now sn1);
       let sn2 = put_bmp b sn1;
       Some (sn2\<lparr>sn_stage1 := stage1_deinit fo (sn_stage1 sn2)\<rparr>, g2)
     }"

section \<open>Steps reach the counter\<close>

lemma publish_steps:
  fixes g :: "('h, 'z) state_sys_scheme"
  assumes "em_ok g" and "em_initialized g" and "subs g EVENT_NEW_STEPS = [h]"
    and frame: "\<And>k e t. em_subscriptions (call k e t) = em_subscriptions t"
    and "\<And>e t. update_steps_cb (Some e) t \<noteq> None \<Longrightarrow> update_steps_cb (Some e) t = Some (call h e t)"
  shows "event_publish call (Some (step_event n)) g = Some (True, g\<lparr>sm_watch := (sm_watch g)\<lparr>steps := u32 (steps (sm_watch g) + n)\<rparr>\<rparr>)"
proof -
  have "publish_loop call (step_event n) 0 g = Some (fold (\<lambda>k. call k (step_event n)) (drop 0 (subs g EVENT_NEW_STEPS)) g)"
    using publish_loop_fold [of g "step_event n" call 0] assms(1) frame by (simp add: step_event_def)
  moreover have "update_steps_cb (Some (step_event n)) g = Some (call h (step_event n) g)"
    by (rule assms(5)) (simp add: update_steps_cb_def step_event_def)
  then have "call h (step_event n) g = g\<lparr>sm_watch := (sm_watch g)\<lparr>steps := u32 (steps (sm_watch g) + n)\<rparr>\<rparr>"
    by (simp add: update_steps_cb_def step_event_def)
  ultimately show ?thesis
    using assms(2,3) by (simp add: event_publish_def step_event_def)
qed

text \<open>Frame conditions of the steps of a FIFO read, as predicates on the result if there is one.\<close>

lemma pred_bindI: "pred_option Q m \<Longrightarrow> (\<And>x. Q x \<Longrightarrow> pred_option P (k x)) \<Longrightarrow> pred_option P (Option.bind m k)"
  by (cases m) auto

definition imu_frame :: "('b, 's) imu_state \<Rightarrow> ('b, 's) imu_state \<Rightarrow> bool" where
  "imu_frame s s1 \<longleftrightarrow> imu_interface s1 = imu_interface s \<and> imu_lock s1 = imu_lock s"

lemma imu_frame_trans: "imu_frame s s1 \<Longrightarrow> imu_frame s1 s2 \<Longrightarrow> imu_frame s s2"
  by (simp add: imu_frame_def)

lemma imu_value_frame: "pred_option (\<lambda>(e, v, s1). imu_frame s s1 \<and> imu_interface s) (imu_value env r n f s)"
  by (auto simp: imu_value_def imu_frame_def split: prod.splits dest: reg_read_frame)

lemma imu_wr_frame: "pred_option (\<lambda>(e, s1). imu_frame s s1) (imu_wr env r b s)"
  by (auto simp: imu_wr_def imu_frame_def dest: reg_write_frame)

lemma handshake_frame:
  "imu_interface s \<Longrightarrow> balanced env (imu_lock s) \<Longrightarrow> pred_option (\<lambda>(e, s1). imu_frame s s1) (ctrl9_handshake env c s)"
  using goodD [OF good_ctrl9, of env "imu_lock s" s c] by (auto simp: imu_frame_def)

lemma mem_write_frame: "pred_option (\<lambda>b. length b = length buf) (mem_write buf i xs)"
  by (cases "mem_write buf i xs") (auto dest: mem_write_length)

lemma mem_read_frame: "pred_option (\<lambda>xs. True) (mem_read buf i n)"
  by (cases "mem_read buf i n") auto

lemma fifo_read_frame: "pred_option (\<lambda>(e, buf', s1). length buf' = length buf \<and> imu_frame s s1) (esp32_imu_fifo_read env r buf n s)"
  unfolding esp32_imu_fifo_read_def
  by (auto simp: imu_frame_def Let_def split: prod.split intro!: pred_bindI [OF mem_write_frame] pred_bindI [OF mem_read_frame])

text \<open>Reading the FIFO keeps the buffer's size and gives back the sleep lock of the handshake.\<close>

lemma fifo_buffer_frame:
  assumes "balanced env (imu_lock s)"
  shows "pred_option (\<lambda>(e, buf', n, s'). length buf' = length buf \<and> imu_frame s s') (imu_read_fifo_buffer env buf m s)"
  unfolding imu_read_fifo_buffer_def Let_def
  using assms
  by (auto split: option.split intro!: pred_bindI [OF imu_value_frame] pred_bindI [OF handshake_frame]
      pred_bindI [OF fifo_read_frame] pred_bindI [OF imu_wr_frame]; simp add: imu_frame_def)

lemma temperature_frame: "pred_option (\<lambda>(e, v, s1). imu_frame s s1 \<and> imu_interface s) (imu_read_temperature env s)"
  unfolding imu_read_temperature_def by (rule imu_value_frame)

text \<open>
  From the sensor to the step counter. When the FIFO delivers a window of one to 62 samples, the work
  function feeds it to the motion engine, which accepts it; the steps found reach the counter of the state
  manager through the event bus, the FIFO buffer is cleared for the next window, and the sleep lock is back
  where it was.
\<close>

lemma imu_window_counted:
  fixes g :: "('h, 'z) state_sys_scheme"
  assumes fo: "float_arith fo" and ok: "stage1_ok fo (sn_stage1 sn)" and buf0: "length (imu_fifo sn) = IMU_FIFO_SIZE"
    and lock: "balanced env (sn_lock sn)"
    and temp: "imu_read_temperature env (imu_now sn) = Some (e1, t, i1)"
    and fifo: "imu_read_fifo_buffer env (imu_fifo sn) IMU_FIFO_SIZE i1 = Some (e2, buf, samples, i2)"
    and n: "6 \<le> samples" "samples < 378"
    and bus: "em_ok g" "em_initialized g" "subs g EVENT_NEW_STEPS = [h]" "steps (sm_watch g) < 4294967296"
    and call: "\<And>k e t. em_subscriptions (call k e t) = em_subscriptions t"
      "\<And>e t. update_steps_cb (Some e) t \<noteq> None \<Longrightarrow> update_steps_cb (Some e) t = Some (call h e t)"
  shows "\<exists>res ctx sn'. stage1_process_motion_data fo (drop 1 buf) samples junk (sn_stage1 sn) = Some (res, ctx) \<and>
     process_imu_data fo env call False junk sn g =
       Some (sn', g\<lparr>sm_watch := (sm_watch g)\<lparr>steps := u32 (steps (sm_watch g) + res_steps res)\<rparr>\<rparr>) \<and>
     sn_stage1 sn' = ctx \<and> stage1_ok fo ctx \<and> imu_fifo sn' = replicate IMU_FIFO_SIZE 0 \<and> sn_lock sn' = sn_lock sn"
proof -
  have f1: "imu_lock i1 = sn_lock sn"
    using temperature_frame [of "imu_now sn" env] temp by (simp add: imu_frame_def imu_now_def)
  have f2: "length buf = 800" "imu_lock i2 = sn_lock sn"
    using fifo_buffer_frame [of env i1 "imu_fifo sn" IMU_FIFO_SIZE] fifo f1 lock buf0 by (simp_all add: imu_frame_def IMU_FIFO_SIZE_def)
  have len: "samples div 6 * 6 \<le> length (drop 1 buf)" and small: "samples div 6 < 63"
    using f2(1) n by auto
  obtain res ctx where run: "stage1_process_motion_data fo (drop 1 buf) samples junk (sn_stage1 sn) = Some (res, ctx)" "stage1_ok fo ctx"
    using process_run [OF fo ok len n(1), of junk] small by (auto split: if_splits)
  define sn' where "sn' = clear_fifo ((put_imu i2 sn)\<lparr>imu_fifo := buf, sn_stage1 := ctx\<rparr>)"
  have "event_publish call (Some (step_event (res_steps res))) g =
      Some (True, g\<lparr>sm_watch := (sm_watch g)\<lparr>steps := u32 (steps (sm_watch g) + res_steps res)\<rparr>\<rparr>)"
    by (rule publish_steps [of g h call]) (simp_all add: bus call)
  then have "process_imu_data fo env call False junk sn g =
       Some (sn', g\<lparr>sm_watch := (sm_watch g)\<lparr>steps := u32 (steps (sm_watch g) + res_steps res)\<rparr>\<rparr>)"
    using temp fifo n(1) run(1) bus(4)
    by (auto simp: process_imu_data_def Let_def put_imu_def sn'_def u32_id)
  then show ?thesis
    using run f2(2) by (auto simp: sn'_def clear_fifo_def put_imu_def)
qed

text \<open>
  A failed read of the FIFO level aborts the system. The work function logs the error and goes on with
  the size of its buffer as if that many bytes had been read; the 133 samples that the engine then sees are
  more than its history may hold, and its assertion fails.
\<close>

lemma fifo_failure_aborts:
  assumes fo: "float_arith fo" and ok: "stage1_ok fo (sn_stage1 sn)" and buf: "length (imu_fifo sn) = IMU_FIFO_SIZE"
    and on: "imu_interface (sn_imu sn)"
    and fail: "\<And>d. \<not> fst (spi_device_transmit env [QMI8658A_REG_FIFO_SMPL_CNT OR 0x80, 0, 0] d)"
  shows "process_imu_data fo env call False junk sn g = None"
proof -
  obtain e1 t i1 where temp: "imu_read_temperature env (imu_now sn) = Some (e1, t, i1)"
    using on by (cases "esp32_imu_reg_read env QMI8658A_REG_TEMP_L 2 (imu_now sn)")
      (auto simp: imu_read_temperature_def imu_value_def imu_now_def)
  have "imu_interface i1"
    using temperature_frame [of "imu_now sn" env] temp on by (simp add: imu_frame_def imu_now_def)
  moreover have "fst (esp32_imu_reg_read env QMI8658A_REG_FIFO_SMPL_CNT 2 i1) = IMU_FAILED"
    using fail [of "imu_dev i1"]
    by (auto simp: esp32_imu_reg_read_def MAX_SINGLE_REG_DATA_LEN_def numeral_2_eq_2 split: prod.splits)
  ultimately obtain e2 i2 where "imu_value env QMI8658A_REG_FIFO_SMPL_CNT 2 id i1 = Some (e2, None, i2)"
    by (cases "esp32_imu_reg_read env QMI8658A_REG_FIFO_SMPL_CNT 2 i1") (auto simp: imu_value_def)
  then have fifo: "imu_read_fifo_buffer env (imu_fifo sn) IMU_FIFO_SIZE i1 = Some (e2, imu_fifo sn, 800, i2)"
    by (simp add: imu_read_fifo_buffer_def IMU_FIFO_SIZE_def)
  have "stage1_process_motion_data fo (drop 1 (imu_fifo sn)) 800 junk (sn_stage1 sn) = None"
    using process_run [OF fo ok, of 800 "drop 1 (imu_fifo sn)" junk] buf by (simp add: IMU_FIFO_SIZE_def)
  then show ?thesis
    using temp fifo by (simp add: process_imu_data_def Let_def put_imu_def)
qed

section \<open>Concrete sensors\<close>

text \<open>A device with twelve bytes in its FIFO, and one that does not answer at all.\<close>

definition fifo_spi :: "byte list \<Rightarrow> byte \<times> bool \<Rightarrow> bool \<times> byte list \<times> byte \<times> bool" where
  "fifo_spi tx d =
     (if length tx > 3 then (True, [], d)
      else if length tx = 3 \<and> hd tx = 0x95 then (True, [0, 6, 0], d)
      else toy_spi tx d)"

definition fifo_env :: "(byte \<times> bool, int) imu_env" where
  "fifo_env = \<lparr>spi_device_transmit = fifo_spi, imu_lock_impl = wakelock_impl, buffer_dma_capable = True\<rparr>"

definition dead_env :: "(byte \<times> bool, int) imu_env" where
  "dead_env = \<lparr>spi_device_transmit = \<lambda>tx d. (False, [], d), imu_lock_impl = wakelock_impl, buffer_dma_capable = True\<rparr>"

definition ex_sensors :: "(real, byte \<times> bool, nat, int) sensors" where
  "ex_sensors = \<lparr>sn_imu = toy_imu, sn_bmp = ex_bmp, sn_battery = battery_driver_init real_ops,
     sn_stage1 = stage1_init real_ops (Some (replicate 126 0)), imu_fifo = replicate 800 0, sn_lock = 2\<rparr>"

definition steps_call :: "(nat, unit) state_call" where
  "steps_call h e s = (case update_steps_cb (Some e) s of Some s' \<Rightarrow> s' | None \<Rightarrow> s)"

lemma steps_call_frame: "em_subscriptions (steps_call h e s) = em_subscriptions s"
  by (auto simp: steps_call_def update_steps_cb_def split: event_data.splits if_splits)

lemmas toy_run = imu_read_temperature_def imu_value_def imu_now_def toy_imu_def fifo_env_def fifo_spi_def toy_spi_def
  esp32_imu_reg_read_def esp32_imu_reg_write_def MAX_SINGLE_REG_DATA_LEN_def rx_bytes_def imu_regs

lemma replicate_two: "replicate 2 x = [x, x]"
  by (simp add: numeral_2_eq_2)

lemma ex_sensors_facts:
  "stage1_ok real_ops (sn_stage1 ex_sensors)" "length (imu_fifo ex_sensors) = IMU_FIFO_SIZE" "balanced fifo_env (sn_lock ex_sensors)"
  "imu_interface (sn_imu ex_sensors)"
  using stage1_init_ok [of "replicate 126 0" real_ops]
  by (simp_all add: ex_sensors_def IMU_FIFO_SIZE_def balanced_def fifo_env_def wakelock_impl_def sleep_lock_service_acquire_lock_def
      sleep_lock_service_release_lock_def wakelock_manager_acquire_wakelock_def wakelock_manager_release_wakelock_def s32_id toy_imu_def)

lemma ex_temperature: "\<exists>t. imu_read_temperature fifo_env (imu_now ex_sensors) = Some (IMU_OK, t, toy_imu)"
  by (simp add: toy_run ex_sensors_def replicate_two)

lemma ex_handshake: "\<exists>i. ctrl9_handshake fifo_env QMI8658A_CTRL9_CMD_REQ_FIFO toy_imu = Some (IMU_OK, i) \<and> spi_device i \<and> imu_interface i"
  by (simp add: ctrl9_handshake_def imu_then_def imu_wr_def imu_rd_def take_lock_def drop_lock_def delay_def toy_run Let_def
      handshake_loop.simps)

lemma ex_fifo_read:
  assumes "spi_device i"
  shows "\<exists>buf i2. esp32_imu_fifo_read fifo_env r (replicate 800 0) 12 i = Some (IMU_OK, buf, i2) \<and> imu_interface i2 = imu_interface i \<and> spi_device i2"
  using assms by (simp add: esp32_imu_fifo_read_def fifo_env_def fifo_spi_def mem_read_def mem_write_def rx_bytes_def)

lemma ex_fifo:
  "\<exists>buf i2. imu_read_fifo_buffer fifo_env (imu_fifo ex_sensors) IMU_FIFO_SIZE toy_imu = Some (IMU_OK, buf, 12, i2)"
proof -
  have count: "imu_value fifo_env QMI8658A_REG_FIFO_SMPL_CNT 2 id toy_imu = Some (IMU_OK, Some [6, 0], toy_imu)"
    by (simp add: toy_run replicate_two)
  have ctrl: "imu_value fifo_env QMI8658A_REG_FIFO_CTRL 1 hd toy_imu = Some (IMU_OK, Some 0, toy_imu)"
    by (simp add: toy_run)
  obtain i where i: "ctrl9_handshake fifo_env QMI8658A_CTRL9_CMD_REQ_FIFO toy_imu = Some (IMU_OK, i)" "spi_device i" "imu_interface i"
    using ex_handshake by blast
  obtain buf i2 where r: "esp32_imu_fifo_read fifo_env QMI8658A_REG_FIFO_DATA (replicate 800 0) 12 i = Some (IMU_OK, buf, i2)"
    "imu_interface i2" "spi_device i2"
    using ex_fifo_read [OF i(2)] i(3) by blast
  obtain i3 where w: "imu_wr fifo_env QMI8658A_REG_FIFO_CTRL (0 AND NOT QMI8658A_FIFO_CTRL_RD_MODE_MASK) i2 = Some (IMU_OK, i3)"
    using r(2,3) by (cases "imu_dev i2") (simp add: imu_wr_def toy_run)
  have "fifo_bytes [6, 0] = 12" by (simp add: fifo_bytes_def)
  then show ?thesis
    using count ctrl i(1) r(1) w by (simp add: imu_read_fifo_buffer_def ex_sensors_def IMU_FIFO_SIZE_def)
qed

lemma ex_bus:
  "\<exists>g. em_ok g \<and> em_initialized g \<and> subs g EVENT_NEW_STEPS = [3] \<and> sm_watch g = zero_watch \<and> g = snd (event_subscribe EVENT_NEW_STEPS (Some 3) (ex_state []))"
proof -
  let ?s = "ex_state []" and ?g = "snd (event_subscribe EVENT_NEW_STEPS (Some 3) (ex_state []))"
  have r: "em_ready ?s" "subs ?s EVENT_NEW_STEPS = []"
    by (auto simp: em_ready_def em_ok_def ex_state_def sub_ok_def empty_subscription_def subs_def nth_replicate)
  then have "em_ready ?g" "subs ?g EVENT_NEW_STEPS = [3]"
    using event_subscribe_correct [of ?s EVENT_NEW_STEPS 3] by (auto simp: MAX_EVENT_SUBSCRIBERS_def)
  moreover have "sm_watch ?g = zero_watch"
    by (auto simp: event_subscribe_def put_sub_def ex_state_def Let_def)
  ultimately show ?thesis
    by (simp add: em_ready_def)
qed

lemma imu_window_counted_witness:
  "\<exists>sn' g. process_imu_data real_ops fifo_env steps_call False \<lparr>no_motion = False, res_steps = 0\<rparr> ex_sensors
      (snd (event_subscribe EVENT_NEW_STEPS (Some 3) (ex_state []))) = Some (sn', g) \<and>
     imu_fifo sn' = replicate IMU_FIFO_SIZE 0 \<and> sn_lock sn' = 2"
proof -
  obtain t where temp: "imu_read_temperature fifo_env (imu_now ex_sensors) = Some (IMU_OK, t, toy_imu)"
    using ex_temperature by blast
  obtain buf i2 where fifo: "imu_read_fifo_buffer fifo_env (imu_fifo ex_sensors) IMU_FIFO_SIZE toy_imu = Some (IMU_OK, buf, 12, i2)"
    using ex_fifo by blast
  obtain g where g: "em_ok g" "em_initialized g" "subs g EVENT_NEW_STEPS = [3]" "sm_watch g = zero_watch"
    "g = snd (event_subscribe EVENT_NEW_STEPS (Some 3) (ex_state []))"
    using ex_bus by blast
  have up: "update_steps_cb (Some e) s \<noteq> None \<Longrightarrow> update_steps_cb (Some e) s = Some (steps_call 3 e s)" for e s
    by (auto simp: steps_call_def)
  show ?thesis
    using imu_window_counted [OF exact.float_arith_axioms ex_sensors_facts(1-3) temp fifo, of g 3 steps_call "\<lparr>no_motion = False, res_steps = 0\<rparr>"]
      g steps_call_frame up by (auto simp: zero_watch_def ex_sensors_def)
qed

lemma fifo_failure_aborts_witness:
  "process_imu_data real_ops dead_env steps_call False \<lparr>no_motion = False, res_steps = 0\<rparr> ex_sensors (ex_state []) = None"
  using fifo_failure_aborts [OF exact.float_arith_axioms ex_sensors_facts(1,2,4), of dead_env] by (simp add: dead_env_def)

end
