(* ===== verification/Uart_Ota.thy ===== *)
theory Uart_Ota
  imports Prelude "HOL-Library.Word"
begin

unbundle bit_operations_syntax

text \<open>
  The firmware update over the serial port (\<open>components/uart_maintainence/src/uart_ota.c\<close>): the image arrives in
  blocks of at most 2048 bytes, each followed by its CRC; a good block is written to the inactive partition and
  acknowledged, a bad one refused; three refusals in a row end the update.

  The serial port is a parameter: what a read of \<open>n\<close> bytes returns (\<open>None\<close> is the driver's error, the empty list a
  time-out; the driver delivers at most \<open>n\<close> bytes), what a flush and a transmitted byte do to the other side. The
  CRC routine of the ROM and the outcome of each call to the partition driver are parameters too. The function never
  returns once it has started: its outcome is the restart.
\<close>

section \<open>State\<close>

definition CMD_ACK :: byte where "CMD_ACK = 0x06"
definition CMD_NACK :: byte where "CMD_NACK = 0x15"
definition CMD_EOT :: byte where "CMD_EOT = 0x04"
definition BLOCK_SIZE_CRC :: nat where "BLOCK_SIZE_CRC = 4"
definition BLOCK_SIZE :: nat where "BLOCK_SIZE = 2 * 1024 + BLOCK_SIZE_CRC"
definition MAX_RETRIES :: nat where "MAX_RETRIES = 3"

lemmas ota_consts = CMD_ACK_def CMD_NACK_def CMD_EOT_def BLOCK_SIZE_CRC_def BLOCK_SIZE_def MAX_RETRIES_def

datatype ota_cmd =
    Ota_begin
  | Ota_write "byte list"
  | Ota_end
  | Set_boot_partition
  | Mark_valid

text \<open>
  \<open>partition_ok\<close> is the success of a call after the calls made so far. The last two fields are for the
  statements only: the calls to the partition driver and what the reads of the serial port gave, in order.
\<close>

record 'u ota_env =
  uart_read_bytes :: "nat \<Rightarrow> 'u \<Rightarrow> byte list option \<times> 'u"
  uart_flush_input :: "'u \<Rightarrow> 'u"
  uart_write_byte :: "byte \<Rightarrow> 'u \<Rightarrow> 'u"
  esp_rom_crc32_le :: "byte list \<Rightarrow> 32 word"
  partition_ok :: "ota_cmd list \<Rightarrow> ota_cmd \<Rightarrow> bool"
  next_partition :: bool
  malloc_ok :: bool

record 'u ota =
  update_underway :: bool
  ota_retries :: nat
  ota_uart :: 'u
  ota_log :: "ota_cmd list"
  ota_reads :: "byte list list"

text \<open>A restart ends everything; the flag is what \<open>trigger_reboot\<close> is told.\<close>

datatype 'u ota_end = Reboot bool "'u ota" | Refused "'u ota"

definition ota_call :: "'u ota_env \<Rightarrow> ota_cmd \<Rightarrow> 'u ota \<Rightarrow> bool \<times> 'u ota" where
  "ota_call env c s = (partition_ok env (ota_log s) c, s\<lparr>ota_log := ota_log s @ [c]\<rparr>)"

definition send_cmd :: "'u ota_env \<Rightarrow> byte \<Rightarrow> 'u ota \<Rightarrow> 'u ota" where
  "send_cmd env b s = s\<lparr>ota_uart := uart_write_byte env b (ota_uart s)\<rparr>"

definition flush_input :: "'u ota_env \<Rightarrow> 'u ota \<Rightarrow> 'u ota" where
  "flush_input env s = s\<lparr>ota_uart := uart_flush_input env (ota_uart s)\<rparr>"

definition read_uart :: "'u ota_env \<Rightarrow> nat \<Rightarrow> 'u ota \<Rightarrow> byte list option \<times> 'u ota" where
  "read_uart env n s = (let (r, u) = uart_read_bytes env n (ota_uart s) in (map_option (take n) r,
       s\<lparr>ota_uart := u, ota_reads := ota_reads s @ (case r of None \<Rightarrow> [] | Some data \<Rightarrow> [take n data])\<rparr>))"

definition uart_ota_mark_firmware_valid :: "'u ota_env \<Rightarrow> 'u ota \<Rightarrow> 'u ota" where
  "uart_ota_mark_firmware_valid env s = snd (ota_call env Mark_valid s)"

section \<open>Receiving a block\<close>

text \<open>
  The inner loop: \<open>buf\<close> is the first \<open>bytes_in_block\<close> bytes of the data buffer. \<open>Inl\<close> is a restart.
\<close>

function read_block ::
  "'u ota_env \<Rightarrow> int \<Rightarrow> byte list \<Rightarrow> bool \<Rightarrow> nat \<Rightarrow> 'u ota \<Rightarrow> 'u ota_end + (byte list \<times> bool \<times> 'u ota)" where
  "read_block env expected buf success block_retries s =
     (if int (length buf) < expected then
        case read_uart env (nat (expected - int (length buf))) s of
          (None, s1) \<Rightarrow> Inl (Reboot False s1)
        | (Some data, s1) \<Rightarrow>
            if data = [] then
              if block_retries + 1 \<ge> MAX_RETRIES then Inr (buf, False, s1)
              else read_block env expected buf False (block_retries + 1) s1
            else read_block env expected (buf @ data) success block_retries s1
      else Inr (buf, success, s))"
  by pat_completeness auto
termination
  by (relation "measure (\<lambda>(env, expected, buf, success, r, s). nat (expected - int (length buf)) + (MAX_RETRIES - r))")
    (auto simp: read_uart_def MAX_RETRIES_def split: prod.splits)

declare read_block.simps [simp del]

text \<open>A little-endian 32-bit value, as \<open>memcpy\<close> reads it on the target.\<close>

definition le32 :: "byte list \<Rightarrow> 32 word" where
  "le32 bs = (ucast (bs ! 0) OR push_bit 8 (ucast (bs ! 1)) OR push_bit 16 (ucast (bs ! 2)) OR push_bit 24 (ucast (bs ! 3)))"

text \<open>A refused block: three in a row restart.\<close>

definition refuse_block :: "'u ota_env \<Rightarrow> bool \<Rightarrow> 'u ota \<Rightarrow> 'u ota_end + 'u ota" where
  "refuse_block env flush s =
     (let s1 = send_cmd env CMD_NACK (if flush then flush_input env s else s);
          s2 = s1\<lparr>ota_retries := ota_retries s1 + 1\<rparr>
      in if ota_retries s2 \<ge> MAX_RETRIES then Inl (Reboot False s2) else Inr s2)"

text \<open>One pass of the outer loop; the result carries the number of bytes received so far.\<close>

definition receive_block :: "'u ota_env \<Rightarrow> nat \<Rightarrow> nat \<Rightarrow> 'u ota \<Rightarrow> 'u ota_end + (nat \<times> 'u ota)" where
  "receive_block env expected_app_size total_received s =
     (let remaining_app_bytes = sint (of_nat (expected_app_size - total_received) :: 32 word);
          block_data_size = int (BLOCK_SIZE - BLOCK_SIZE_CRC);
          expected_payload = (if remaining_app_bytes < block_data_size then remaining_app_bytes else block_data_size);
          expected_uart_bytes = expected_payload + int BLOCK_SIZE_CRC
      in case read_block env expected_uart_bytes [] True 0 s of
           Inl e \<Rightarrow> Inl e
         | Inr (buf, success, s1) \<Rightarrow>
             if \<not> success then map_sum id (Pair total_received) (refuse_block env True s1)
             else if length buf > BLOCK_SIZE_CRC then
               let payload = take (length buf - BLOCK_SIZE_CRC) buf;
                   received_crc = le32 (drop (length buf - BLOCK_SIZE_CRC) buf)
               in if esp_rom_crc32_le env payload = received_crc then
                    let (ok, s2) = ota_call env (Ota_write payload) (s1\<lparr>ota_retries := 0\<rparr>)
                    in if \<not> ok then Inl (Reboot False s2)
                       else Inr (total_received + length payload, send_cmd env CMD_ACK s2)
                  else map_sum id (Pair total_received) (refuse_block env False s1)
             else map_sum id (Pair total_received) (refuse_block env True s1))"

lemma refuse_block_retries:
  "refuse_block env f s = Inr s' \<Longrightarrow> ota_retries s' = Suc (ota_retries s) \<and> ota_retries s' < MAX_RETRIES"
  by (auto simp: refuse_block_def Let_def send_cmd_def flush_input_def split: if_splits)

lemma read_block_retries:
  "read_block env e buf b r s = Inr (buf', b', s') \<Longrightarrow> ota_retries s' = ota_retries s \<and> ota_log s' = ota_log s"
proof (induction env e buf b r s rule: read_block.induct)
  case (1 env e buf b r s)
  then show ?case
    by (subst (asm) (3) read_block.simps)
      (auto simp: read_uart_def split: if_splits prod.splits option.splits)
qed

text \<open>Every pass makes progress: more of the image, or one more refusal in a row.\<close>

lemma receive_block_progress:
  assumes "receive_block env n t s = Inr (t', s')" and "t < n"
  shows "t < t' \<or> t' = t \<and> ota_retries s < ota_retries s' \<and> ota_retries s' < MAX_RETRIES"
  using assms
  by (auto simp: receive_block_def Let_def BLOCK_SIZE_CRC_def map_sum_def split: sum.splits if_splits prod.splits
      dest!: refuse_block_retries read_block_retries)

function receive_loop :: "'u ota_env \<Rightarrow> nat \<Rightarrow> nat \<Rightarrow> 'u ota \<Rightarrow> 'u ota_end + (nat \<times> 'u ota)" where
  "receive_loop env expected_app_size total_received s =
     (if total_received < expected_app_size then
        case receive_block env expected_app_size total_received s of
          Inl e \<Rightarrow> Inl e
        | Inr (t, s1) \<Rightarrow> receive_loop env expected_app_size t s1
      else Inr (total_received, s))"
  by pat_completeness auto
termination
  by (relation "measures [\<lambda>(env, n, t, s). n - t, \<lambda>(env, n, t, s). MAX_RETRIES - ota_retries s]")
    (auto dest!: receive_block_progress)

declare receive_loop.simps [simp del]

section \<open>The update\<close>

text \<open>After the loop: close the partition and select it for booting.\<close>

definition finish_update :: "'u ota_env \<Rightarrow> nat \<Rightarrow> nat \<Rightarrow> 'u ota \<Rightarrow> 'u ota_end" where
  "finish_update env expected_app_size total_received s =
     (if u32 total_received \<noteq> expected_app_size then Reboot False s
      else
        let (ended, s1) = ota_call env Ota_end s
        in if \<not> ended then Reboot False s1
           else
             let (boot, s2) = ota_call env Set_boot_partition s1
             in if boot then Reboot True (send_cmd env CMD_EOT s2) else Reboot False s2)"

definition uart_ota_start_firmware_update :: "'u ota_env \<Rightarrow> 'u ota \<Rightarrow> 'u ota_end" where
  "uart_ota_start_firmware_update env s =
     (if update_underway s then Refused s
      else if \<not> next_partition env then Reboot False s
      else
        let s0 = (flush_input env s)\<lparr>update_underway := True\<rparr>;
            (begun, s1) = ota_call env Ota_begin s0
        in if \<not> begun \<or> \<not> malloc_ok env then Reboot False s1
           else case read_uart env 4 s1 of
             (None, s2) \<Rightarrow> Reboot False s2
           | (Some size_bytes, s2) \<Rightarrow>
               let expected_app_size = unat (le32 (size_bytes @ replicate 4 0)) in
               if length size_bytes \<noteq> 4 \<or> expected_app_size = 0 then Reboot False s2
               else case receive_loop env expected_app_size 0 (send_cmd env CMD_ACK s2) of
                 Inl e \<Rightarrow> e
               | Inr (total_received, s3) \<Rightarrow> finish_update env expected_app_size total_received s3)"

section \<open>Only a complete image is booted\<close>

lemma read_block_length:
  "read_block env e buf b r s = Inr (buf', b', s') \<Longrightarrow> int (length buf) \<le> max e 0 \<Longrightarrow> int (length buf') \<le> max e 0"
proof (induction env e buf b r s rule: read_block.induct)
  case (1 env e buf b r s)
  show ?case
  proof (cases "int (length buf) < e")
    case True
    obtain d u where d: "read_uart env (nat (e - int (length buf))) s = (d, u)" by (cases "read_uart env (nat (e - int (length buf))) s")
    have len: "length x \<le> nat (e - int (length buf))" if "d = Some x" for x
      using d that by (auto simp: read_uart_def split: prod.splits)
    show ?thesis
    proof (cases d)
      case None
      then show ?thesis using 1(3) True d by (simp add: read_block.simps [of env e buf b r s])
    next
      case (Some x)
      note run = 1(3) [unfolded read_block.simps [of env e buf b r s]]
      show ?thesis
        using run True d Some len 1(1,2,4) by (auto split: if_splits)
    qed
  next
    case False
    then show ?thesis using 1(3,4) by (simp add: read_block.simps [of env e buf b r s])
  qed
qed

definition block_ok :: "byte list \<Rightarrow> bool" where "block_ok p \<longleftrightarrow> p \<noteq> [] \<and> length p \<le> 2048"

lemma refuse_block_log: "refuse_block env f s = Inr s' \<Longrightarrow> ota_log s' = ota_log s"
  "refuse_block env f s = Inl (Reboot b s') \<Longrightarrow> \<not> b \<and> ota_log s' = ota_log s"
  "refuse_block env f s \<noteq> Inl (Refused s')"
  by (auto simp: refuse_block_def Let_def send_cmd_def flush_input_def split: if_splits)

lemma refuse_block_reads: "refuse_block env f s = Inr s' \<Longrightarrow> ota_reads s' = ota_reads s"
  by (auto simp: refuse_block_def Let_def send_cmd_def flush_input_def split: if_splits)

text \<open>The block that is put together is what the reads of the inner loop gave.\<close>

lemma read_block_reads:
  "read_block env e buf b r s = Inr (buf', b', s') \<Longrightarrow> \<exists>rs. ota_reads s' = ota_reads s @ rs \<and> buf' = buf @ concat rs"
proof (induction env e buf b r s rule: read_block.induct)
  case (1 env e buf b r s)
  show ?case
  proof (cases "int (length buf) < e")
    case True
    obtain d u where d: "read_uart env (nat (e - int (length buf))) s = (d, u)" by (cases "read_uart env (nat (e - int (length buf))) s")
    note run = 1(3) [unfolded read_block.simps [of env e buf b r s]]
    show ?thesis
    proof (cases d)
      case None
      then show ?thesis using run True d by simp
    next
      case (Some x)
      have u: "ota_reads u = ota_reads s @ [x]"
        using d Some by (auto simp: read_uart_def split: prod.splits option.splits)
      consider "x = []" "b' = False" "buf' = buf" "s' = u"
        | "x = []" "\<not> r + 1 \<ge> MAX_RETRIES" "read_block env e buf False (r + 1) u = Inr (buf', b', s')"
        | "x \<noteq> []" "read_block env e (buf @ x) b r u = Inr (buf', b', s')"
        using run True d Some by (auto split: if_splits)
      then show ?thesis
      proof cases
        case 1
        then show ?thesis using u by (intro exI [of _ "[x]"]) simp
      next
        case 2
        then show ?thesis
          using 1(1) [OF True d [symmetric] Some] u by fastforce
      next
        case 3
        then show ?thesis
          using 1(2) [OF True d [symmetric] Some] u by (metis append.assoc append_Cons append_Nil concat.simps(2))
      qed
    qed
  next
    case False
    then show ?thesis using 1(3) by (simp add: read_block.simps [of env e buf b r s])
  qed
qed

text \<open>
  The blocks \<open>ps\<close> came in over the line: in the given order, each of them as a run of consecutive reads that
  gave the block and four bytes of checksum, which is the checksum of the block.
\<close>

inductive arrived :: "(byte list \<Rightarrow> 32 word) \<Rightarrow> byte list list \<Rightarrow> byte list list \<Rightarrow> bool" for crc where
  arrived_none: "arrived crc [] rs"
| arrived_more: "arrived crc ps later \<Longrightarrow> concat run = p @ c \<Longrightarrow> length c = 4 \<Longrightarrow> crc p = le32 c \<Longrightarrow>
    arrived crc (p # ps) (skipped @ run @ later)"

lemma arrived_later: "arrived crc ps rs \<Longrightarrow> arrived crc ps (xs @ rs)"
  by (induction rule: arrived.induct) (metis append.assoc arrived.intros)+

lemma arrived_append: "arrived crc ps rs \<Longrightarrow> arrived crc qs xs \<Longrightarrow> arrived crc (ps @ qs) (rs @ xs)"
proof (induction rule: arrived.induct)
  case (arrived_more ps later run p c skipped)
  then show ?case
    using arrived.arrived_more [of crc "ps @ qs" "later @ xs" run p c skipped] by simp
qed (simp add: arrived_later)

lemma signed_of_unsigned:
  "n < 4294967296 \<Longrightarrow> sint (of_nat n :: 32 word) = (if n < 2147483648 then int n else int n - 4294967296)"
  using int_word_sint [where 'a = 32, of "int n"] mod_add_self2 [of "int n - 2147483648" 4294967296] by (auto simp: add.commute)

lemma read_block_end: "read_block env e buf b r s = Inl x \<Longrightarrow> \<exists>s'. x = Reboot False s' \<and> ota_log s' = ota_log s"
proof (induction env e buf b r s rule: read_block.induct)
  case (1 env e buf b r s)
  then show ?case
    by (subst (asm) (3) read_block.simps) (fastforce simp: read_uart_def split: if_splits prod.splits option.splits)
qed

text \<open>What one pass of the loop logs: nothing, or one block that fits into what is missing.\<close>

definition logged :: "(byte list \<Rightarrow> 32 word) \<Rightarrow> nat \<Rightarrow> nat \<Rightarrow> 'u ota \<Rightarrow> 'u ota_end + (nat \<times> 'u ota) \<Rightarrow> bool" where
  "logged crc n t s r \<longleftrightarrow> (case r of
      Inl e \<Rightarrow> \<exists>s' ps. e = Reboot False s' \<and> ota_log s' = ota_log s @ map Ota_write ps
    | Inr (t', s') \<Rightarrow> t' \<le> n \<and> (\<exists>ps rs. ota_log s' = ota_log s @ map Ota_write ps \<and> list_all block_ok ps \<and>
        t' = t + length (concat ps) \<and> ota_reads s' = ota_reads s @ rs \<and> arrived crc ps rs))"

lemma refuse_logged:
  assumes "t \<le> n" and "ota_log s1 = ota_log s" and "ota_reads s1 = ota_reads s @ rs"
  shows "logged crc n t s (map_sum id (Pair t) (refuse_block env f s1))"
proof (cases "refuse_block env f s1")
  case (Inl e)
  then show ?thesis
    using refuse_block_log(2,3) [of env f s1] assms by (cases e) (auto simp: logged_def intro!: exI [of _ "[]"])
next
  case (Inr s2)
  then show ?thesis
    using refuse_block_log(1) [OF Inr] refuse_block_reads [OF Inr] assms
    by (simp add: logged_def) (intro exI [of _ "[]"] conjI exI [of _ rs] arrived_none; simp)
qed

lemma write_logged:
  assumes "block_ok p" and "t + length p \<le> n" and "ota_log s1 = ota_log s" and "ota_reads s1 = ota_reads s @ rs"
    and "concat rs = p @ c" and "length c = 4" and "crc p = le32 c"
  shows "logged crc n t s (let (ok, s2) = ota_call env (Ota_write p) (s1\<lparr>ota_retries := 0\<rparr>)
     in if \<not> ok then Inl (Reboot False s2) else Inr (t + length p, send_cmd env CMD_ACK s2))"
proof -
  have "arrived crc [p] rs"
    using arrived_more [of crc "[]" "[]" rs p c "[]"] arrived_none [of crc "[]"] assms(5-7) by simp
  then show ?thesis
    using assms(1-4) by (auto simp: logged_def ota_call_def send_cmd_def intro!: exI [of _ "[p]"])
qed

lemma receive_block_log:
  assumes "t < n" and "n < 4294967296"
  shows "logged (esp_rom_crc32_le env) n t s (receive_block env n t s)"
proof -
  let ?rem = "sint (of_nat (n - t) :: 32 word)"
  let ?exp = "(if ?rem < 2048 then ?rem else 2048) + 4"
  have rem: "?rem \<le> int (n - t)"
    using signed_of_unsigned [of "n - t"] assms(2) by (simp del: of_nat_diff)
  show ?thesis
  proof (cases "read_block env ?exp [] True 0 s")
    case (Inl e)
    then show ?thesis
      using read_block_end [OF Inl] by (auto simp: logged_def receive_block_def Let_def ota_consts intro!: exI [of _ "[]"])
  next
    case (Inr x)
    obtain buf ok s1 where x: "x = (buf, ok, s1)" by (cases x) auto
    have len: "int (length buf) \<le> max ?exp 0" and log: "ota_log s1 = ota_log s"
      using read_block_length [OF Inr [unfolded x]] read_block_retries [OF Inr [unfolded x]] by auto
    obtain rs where rs: "ota_reads s1 = ota_reads s @ rs" "buf = concat rs"
      using read_block_reads [OF Inr [unfolded x]] by auto
    let ?p = "take (length buf - 4) buf" and ?c = "drop (length buf - 4) buf"
    have fits: "block_ok ?p \<and> t + length ?p \<le> n" if "length buf > 4"
      using that len rem assms(1) by (auto simp: block_ok_def split: if_splits)
    have written: "logged (esp_rom_crc32_le env) n t s (let (ok, s2) = ota_call env (Ota_write ?p) (s1\<lparr>ota_retries := 0\<rparr>)
        in if \<not> ok then Inl (Reboot False s2) else Inr (t + length ?p, send_cmd env CMD_ACK s2))"
      if "length buf > 4" "esp_rom_crc32_le env ?p = le32 ?c"
      using fits [OF that(1)] that log rs by (intro write_logged [of ?p t n s1 s rs ?c]) auto
    have refused: "logged (esp_rom_crc32_le env) n t s (map_sum id (Pair t) (refuse_block env f s1))" for f
      using assms(1) log rs(1) by (intro refuse_logged) auto
    have "receive_block env n t s =
        (if ok \<and> length buf > 4 \<and> esp_rom_crc32_le env ?p = le32 ?c
         then (let (ok, s2) = ota_call env (Ota_write ?p) (s1\<lparr>ota_retries := 0\<rparr>)
               in if \<not> ok then Inl (Reboot False s2) else Inr (t + length ?p, send_cmd env CMD_ACK s2))
         else map_sum id (Pair t) (refuse_block env (\<not> (ok \<and> length buf > 4)) s1))"
      using Inr x by (cases "?rem < 2048") (simp_all add: receive_block_def Let_def ota_consts del: of_nat_diff)
    then show ?thesis
      using written refused by (simp split: if_splits)
  qed
qed

lemma logged_more:
  assumes "logged crc n t1 s1 r" and "ota_log s1 = ota_log s @ map Ota_write ps" and "list_all block_ok ps"
    and "t1 = t + length (concat ps)" and "ota_reads s1 = ota_reads s @ rs" and "arrived crc ps rs"
  shows "logged crc n t s r"
proof (cases r)
  case (Inl e)
  then obtain s' qs where "e = Reboot False s'" "ota_log s' = ota_log s1 @ map Ota_write qs"
    using assms(1) by (auto simp: logged_def)
  then show ?thesis
    using Inl assms(2) by (auto simp: logged_def intro!: exI [of _ "ps @ qs"])
next
  case (Inr x)
  then obtain t' s' qs xs where q: "x = (t', s')" "t' \<le> n" "ota_log s' = ota_log s1 @ map Ota_write qs" "list_all block_ok qs"
    "t' = t1 + length (concat qs)" "ota_reads s' = ota_reads s1 @ xs" "arrived crc qs xs"
    using assms(1) by (cases x) (auto simp: logged_def)
  then show ?thesis
    using Inr assms(2-5) arrived_append [OF assms(6) q(7)]
    by (simp add: logged_def) (intro exI [of _ "ps @ qs"] conjI exI [of _ "rs @ xs"]; simp)
qed

lemma receive_loop_log:
  "n < 4294967296 \<Longrightarrow> t \<le> n \<Longrightarrow> logged (esp_rom_crc32_le env) n t s (receive_loop env n t s) \<and> (\<forall>t' s'. receive_loop env n t s = Inr (t', s') \<longrightarrow> t' = n)"
proof (induction env n t s rule: receive_loop.induct)
  case (1 env n t s)
  show ?case
  proof (cases "t < n")
    case True
    note one = receive_block_log [OF True 1(2), of env s]
    show ?thesis
    proof (cases "receive_block env n t s")
      case (Inl e)
      then show ?thesis using one True by (simp add: receive_loop.simps [of env n t s])
    next
      case (Inr x)
      obtain t1 s1 where x: "x = (t1, s1)" by (cases x)
      have run: "receive_loop env n t s = receive_loop env n t1 s1"
        using True Inr x by (simp add: receive_loop.simps [of env n t s])
      obtain ps rs where ps: "ota_log s1 = ota_log s @ map Ota_write ps" "list_all block_ok ps" "t1 = t + length (concat ps)" "t1 \<le> n"
        "ota_reads s1 = ota_reads s @ rs" "arrived (esp_rom_crc32_le env) ps rs"
        using one Inr x by (auto simp: logged_def)
      have IH: "logged (esp_rom_crc32_le env) n t1 s1 (receive_loop env n t1 s1) \<and>
          (\<forall>t' s'. receive_loop env n t1 s1 = Inr (t', s') \<longrightarrow> t' = n)"
        using 1(1) [OF True Inr x [symmetric] 1(2) ps(4)] x by simp
      have "logged (esp_rom_crc32_le env) n t s (receive_loop env n t1 s1)"
        by (rule logged_more) (use IH ps in auto)
      then show ?thesis using IH run by simp
    qed
  next
    case False
    then show ?thesis
      using 1(3) by (auto simp: receive_loop.simps [of env n n s] logged_def intro!: exI [of _ "[]"] arrived_none)
  qed
qed

text \<open>
  The outcome of an update: a restart, and if the new partition was selected for booting, the first read gave
  the four bytes of the size, the blocks written had all arrived with their checksums after it, and together they
  have the announced size.
\<close>

definition complete_image :: "(byte list \<Rightarrow> 32 word) \<Rightarrow> byte list list \<Rightarrow> byte list list \<Rightarrow> bool" where
  "complete_image crc reads ps \<longleftrightarrow> (\<exists>size rs. reads = size # rs \<and> length size = 4 \<and>
     length (concat ps) = unat (le32 size) \<and> 0 < length (concat ps) \<and> arrived crc ps rs \<and> list_all block_ok ps)"

definition boot_log_ok :: "'u ota_env \<Rightarrow> 'u ota_end \<Rightarrow> bool" where
  "boot_log_ok env out \<longleftrightarrow> (\<exists>ok s'. out = Reboot ok s' \<and> (Set_boot_partition \<in> set (ota_log s') \<longrightarrow>
     (\<exists>ps. ota_log s' = Ota_begin # map Ota_write ps @ [Ota_end, Set_boot_partition] \<and>
        complete_image (esp_rom_crc32_le env) (ota_reads s') ps \<and>
        partition_ok env (Ota_begin # map Ota_write ps) Ota_end \<and>
        ok = partition_ok env (Ota_begin # map Ota_write ps @ [Ota_end]) Set_boot_partition)))"

lemma boot_log_fail: "Set_boot_partition \<notin> set (ota_log s') \<Longrightarrow> boot_log_ok env (Reboot ok s')"
  by (simp add: boot_log_ok_def)

lemma finish_log_ok:
  assumes "ota_log s = Ota_begin # map Ota_write ps" and "complete_image (esp_rom_crc32_le env) (ota_reads s) ps"
    and "length (concat ps) = n" and "n < 4294967296"
  shows "boot_log_ok env (finish_update env n n s)"
proof -
  have n: "u32 n = n" using assms(4) by (rule u32_id)
  show ?thesis
  proof (cases "partition_ok env (Ota_begin # map Ota_write ps) Ota_end")
    case False
    then show ?thesis
      using assms(1) n by (auto simp: finish_update_def ota_call_def intro!: boot_log_fail)
  next
    case True
    let ?boot = "partition_ok env (Ota_begin # map Ota_write ps @ [Ota_end]) Set_boot_partition"
    obtain s' where "finish_update env n n s = Reboot ?boot s'"
      "ota_log s' = Ota_begin # map Ota_write ps @ [Ota_end, Set_boot_partition]" "ota_reads s' = ota_reads s"
      using True n assms(1) by (cases ?boot) (auto simp: finish_update_def ota_call_def send_cmd_def)
    then show ?thesis
      unfolding boot_log_ok_def using assms(2) True by (intro exI [of _ ?boot] exI [of _ s'] conjI impI exI [of _ ps]) auto
  qed
qed

text \<open>
  C18: the boot partition is switched only to a complete image. Whatever arrives on the serial port, the update
  ends in a restart; if the new partition was selected for booting, then the calls made before were the begin of
  the update, the writes of non-empty blocks of at most 2048 bytes and the successful end of the update; each of the
  blocks had come in over the line, in this order, followed by the checksum the ROM computes for it; and together
  they have as many bytes as the first four bytes that were read announce.
\<close>

theorem boots_only_complete_image:
  assumes "\<not> update_underway s" and "ota_log s = []" and "ota_reads s = []"
    and "uart_ota_start_firmware_update env s = out"
  shows "boot_log_ok env out"
proof -
  define s0 where "s0 = (flush_input env s)\<lparr>update_underway := True\<rparr>"
  obtain begun s1 where s1: "ota_call env Ota_begin s0 = (begun, s1)" by (cases "ota_call env Ota_begin s0")
  have l1: "ota_log s1 = [Ota_begin]" "ota_reads s1 = []" and l0: "ota_log s = []"
    using assms(2,3) s1 by (auto simp: s0_def ota_call_def flush_input_def)
  obtain r s2 where r: "read_uart env 4 s1 = (r, s2)" by (cases "read_uart env 4 s1")
  have l2: "ota_log (send_cmd env CMD_ACK s2) = [Ota_begin]" "ota_log s2 = [Ota_begin]"
    and r2: "r = Some size \<Longrightarrow> ota_reads (send_cmd env CMD_ACK s2) = [size]" for size
    using r l1 by (auto simp: read_uart_def send_cmd_def split: prod.splits)
  have loop: "boot_log_ok env (case receive_loop env n 0 (send_cmd env CMD_ACK s2) of Inl e \<Rightarrow> e | Inr (t, s3) \<Rightarrow> finish_update env n t s3)"
    if size: "r = Some size" "length size = 4" "n = unat (le32 (size @ replicate 4 0))" "n \<noteq> 0" for n size
  proof -
    have n: "n = unat (le32 size)" "n < 4294967296"
      using size(2,3) unsigned_less [where 'a = nat, of "le32 size"] by (simp_all add: le32_def nth_append)
    note log = receive_loop_log [OF n(2), of 0 env "send_cmd env CMD_ACK s2"]
    show ?thesis
    proof (cases "receive_loop env n 0 (send_cmd env CMD_ACK s2)")
      case (Inl e)
      then show ?thesis
        using log l2 by (auto simp: logged_def intro!: boot_log_fail)
    next
      case (Inr x)
      then obtain s3 ps rs where x: "x = (n, s3)" "ota_log s3 = Ota_begin # map Ota_write ps" "list_all block_ok ps"
        "n = length (concat ps)" "ota_reads s3 = size # rs" "arrived (esp_rom_crc32_le env) ps rs"
        using log l2 r2 [OF size(1)] by (cases x) (auto simp: logged_def)
      then have "complete_image (esp_rom_crc32_le env) (ota_reads s3) ps"
        using n(1) size(2,4) by (auto simp: complete_image_def)
      then show ?thesis
        using Inr x n(2) by (auto intro!: finish_log_ok)
    qed
  qed
  show ?thesis
    unfolding assms(4) [symmetric] uart_ota_start_firmware_update_def Let_def s0_def [symmetric] s1 prod.case r
    using assms(1) l0 l1 l2 loop by (cases r) (auto intro!: boot_log_fail)
qed

section \<open>A sender and a noisy line\<close>

definition le32_bytes :: "32 word \<Rightarrow> byte list" where
  "le32_bytes w = [ucast w, ucast (drop_bit 8 w), ucast (drop_bit 16 w), ucast (drop_bit 24 w)]"

lemma length_le32_bytes [simp]: "length (le32_bytes w) = 4"
  by (simp add: le32_bytes_def)

lemma le32_le32_bytes: "le32 (le32_bytes w @ xs) = w"
proof (rule bit_word_eqI)
  fix n assume "n < LENGTH(32)"
  then consider "n < 8" | "8 \<le> n" "n < 16" | "16 \<le> n" "n < 24" | "24 \<le> n" "n < 32"
    by force
  then show "bit (le32 (le32_bytes w @ xs)) n = bit w n"
    by cases (auto simp: le32_def le32_bytes_def bit_or_iff bit_push_bit_iff bit_ucast_iff bit_drop_bit_eq)
qed

text \<open>
  The host announces the size once the device has flushed its input, sends a block after every acknowledgement and
  repeats it after a refusal. \<open>line\<close> is what the line does to the transmissions to come: \<open>None\<close> leaves one intact,
  \<open>Some f\<close> damages it by \<open>f\<close>.
\<close>

record host =
  inbox :: "byte list"
  size_bytes :: "byte list"
  started :: bool
  blocks :: "byte list list"
  line :: "(byte list \<Rightarrow> byte list) option list"

definition frame :: "(byte list \<Rightarrow> 32 word) \<Rightarrow> byte list \<Rightarrow> byte list" where
  "frame crc b = b @ le32_bytes (crc b)"

definition damage :: "(byte list \<Rightarrow> byte list) option \<Rightarrow> byte list \<Rightarrow> byte list" where
  "damage d = (case d of None \<Rightarrow> id | Some f \<Rightarrow> f)"

definition next_damage :: "(byte list \<Rightarrow> byte list) option list \<Rightarrow> (byte list \<Rightarrow> byte list) option" where
  "next_damage ds = (case ds of [] \<Rightarrow> None | d # _ \<Rightarrow> d)"

definition send_block :: "(byte list \<Rightarrow> 32 word) \<Rightarrow> host \<Rightarrow> host" where
  "send_block crc h = (case blocks h of
      [] \<Rightarrow> h
    | b # _ \<Rightarrow> h\<lparr>inbox := inbox h @ damage (next_damage (line h)) (frame crc b), line := tl (line h)\<rparr>)"

definition host_read :: "nat \<Rightarrow> host \<Rightarrow> byte list option \<times> host" where
  "host_read n h = (Some (take n (inbox h)), h\<lparr>inbox := drop n (inbox h)\<rparr>)"

definition host_flush :: "host \<Rightarrow> host" where
  "host_flush h = h\<lparr>inbox := if started h then [] else size_bytes h\<rparr>"

definition host_hears :: "(byte list \<Rightarrow> 32 word) \<Rightarrow> byte \<Rightarrow> host \<Rightarrow> host" where
  "host_hears crc b h =
     (if b = CMD_ACK then send_block crc (if started h then h\<lparr>blocks := tl (blocks h)\<rparr> else h\<lparr>started := True\<rparr>)
      else if b = CMD_NACK then send_block crc h
      else h)"

definition host_env :: "(byte list \<Rightarrow> 32 word) \<Rightarrow> host ota_env" where
  "host_env crc = \<lparr>uart_read_bytes = host_read, uart_flush_input = host_flush, uart_write_byte = host_hears crc,
     esp_rom_crc32_le = crc, partition_ok = \<lambda>cs c. True, next_partition = True, malloc_ok = True\<rparr>"

fun chop :: "byte list \<Rightarrow> byte list list" where
  "chop [] = []"
| "chop (b # bs) = take 2048 (b # bs) # chop (drop 2047 bs)"

declare chop.simps [simp del]

lemma chop_nonempty: "xs \<noteq> [] \<Longrightarrow> chop xs = take 2048 xs # chop (drop 2048 xs)"
  by (cases xs) (simp_all add: chop.simps drop_Cons')

lemma concat_chop: "concat (chop xs) = xs"
  by (induction xs rule: chop.induct) (simp_all add: chop.simps take_Cons')

text \<open>Damage that the checksum shows, and fewer than three damaged transmissions in a row.\<close>

definition detected :: "(byte list \<Rightarrow> 32 word) \<Rightarrow> (byte list \<Rightarrow> byte list) \<Rightarrow> bool" where
  "detected crc f \<longleftrightarrow> (\<forall>b. length (f (frame crc b)) = length b + 4 \<and>
     crc (take (length b) (f (frame crc b))) \<noteq> le32 (drop (length b) (f (frame crc b))))"

fun tolerable :: "nat \<Rightarrow> 'a option list \<Rightarrow> bool" where
  "tolerable k [] = True"
| "tolerable k (None # ds) = tolerable 0 ds"
| "tolerable k (Some f # ds) = (k + 1 < MAX_RETRIES \<and> tolerable (k + 1) ds)"

text \<open>The host is waiting for the answer to a block; \<open>rest\<close> is what is still to be transferred.\<close>

definition waiting :: "(byte list \<Rightarrow> 32 word) \<Rightarrow> byte list \<Rightarrow> host ota \<Rightarrow> bool" where
  "waiting crc rest s \<longleftrightarrow> started (ota_uart s) \<and> blocks (ota_uart s) = chop rest \<and>
     (rest \<noteq> [] \<longrightarrow> (\<exists>d. inbox (ota_uart s) = damage d (frame crc (take 2048 rest)) \<and>
        tolerable (ota_retries s) (d # line (ota_uart s)) \<and> (\<forall>f. d = Some f \<longrightarrow> detected crc f))) \<and>
     (\<forall>f. Some f \<in> set (line (ota_uart s)) \<longrightarrow> detected crc f)"

lemma length_frame: "length (frame crc b) = length b + 4"
  by (simp add: frame_def le32_bytes_def)

lemma frame_parts: "take (length b) (frame crc b) = b" "le32 (drop (length b) (frame crc b)) = crc b"
  using le32_le32_bytes [of "crc b" "[]"] by (simp_all add: frame_def)

lemma read_whole_block:
  assumes "inbox (ota_uart s) = xs" and "e = int (length xs)" and "xs \<noteq> []"
  shows "read_block (host_env crc) e [] True 0 s = Inr (xs, True, s\<lparr>ota_uart := (ota_uart s)\<lparr>inbox := []\<rparr>, ota_reads := ota_reads s @ [xs]\<rparr>)"
proof -
  have r: "read_uart (host_env crc) (nat e) s = (Some xs, s\<lparr>ota_uart := (ota_uart s)\<lparr>inbox := []\<rparr>, ota_reads := ota_reads s @ [xs]\<rparr>)"
    using assms by (simp add: read_uart_def host_env_def host_read_def)
  show ?thesis
    using assms(2,3) r by (simp add: read_block.simps [of _ "int (length xs)" "[]"] read_block.simps [of _ "int (length xs)" xs])
qed

text \<open>The next transmission keeps the host waiting.\<close>

lemma send_block_waiting:
  assumes "started h" and "inbox h = []" and "blocks h = chop rest" and "ota_uart s = send_block crc h"
    and "tolerable (ota_retries s) (line h)" and "\<forall>f. Some f \<in> set (line h) \<longrightarrow> detected crc f"
  shows "waiting crc rest s"
proof (cases "rest = []")
  case True
  then show ?thesis
    using assms by (simp add: waiting_def send_block_def chop.simps)
next
  case False
  have "tolerable (ota_retries s) (next_damage (line h) # tl (line h))"
    using assms(5) by (cases "line h") (simp_all add: next_damage_def)
  moreover have "next_damage (line h) = Some f \<Longrightarrow> detected crc f" for f
    using assms(6) by (cases "line h") (auto simp: next_damage_def)
  moreover have "set (tl (line h)) \<subseteq> set (line h)"
    by (cases "line h") auto
  ultimately show ?thesis
    using assms(1-4,6) chop_nonempty [OF False] by (auto simp: waiting_def send_block_def)
qed

lemma receive_block_waiting:
  assumes w: "waiting crc rest s" and "rest \<noteq> []" and len: "length rest = n - t" and "n < 2147483648"
  shows "\<exists>t' s'. receive_block (host_env crc) n t s = Inr (t', s') \<and>
     (t' = t + length (take 2048 rest) \<and> ota_log s' = ota_log s @ [Ota_write (take 2048 rest)] \<and> waiting crc (drop 2048 rest) s' \<or>
      t' = t \<and> ota_log s' = ota_log s \<and> waiting crc rest s')"
proof -
  let ?b = "take 2048 rest" and ?h = "ota_uart s"
  obtain d where d: "inbox ?h = damage d (frame crc ?b)" "tolerable (ota_retries s) (d # line ?h)" "\<And>f. d = Some f \<Longrightarrow> detected crc f"
    using w assms(2) by (auto simp: waiting_def)
  let ?x = "inbox ?h" and ?s1 = "s\<lparr>ota_uart := ?h\<lparr>inbox := []\<rparr>, ota_reads := ota_reads s @ [inbox ?h]\<rparr>"
  have lx: "length ?x = length ?b + 4"
    using d(1,3) by (cases d) (auto simp: damage_def length_frame detected_def)
  let ?rem = "sint (of_nat (n - t) :: 32 word)"
  have rem: "?rem = int (length rest)"
    using signed_of_unsigned [of "n - t"] assms(4) len by (simp del: of_nat_diff)
  have rd: "read_block (host_env crc) ((if ?rem < 2048 then ?rem else 2048) + 4) [] True 0 s = Inr (?x, True, ?s1)"
    by (rule read_whole_block) (use lx rem assms(2) in \<open>auto\<close>)
  have b: "?b \<noteq> []" using assms(2) by simp
  have c: "esp_rom_crc32_le (host_env crc) = crc" by (simp add: host_env_def)
  have block: "receive_block (host_env crc) n t s =
     (if crc (take (length ?b) ?x) = le32 (drop (length ?b) ?x) then
        let (ok, s2) = ota_call (host_env crc) (Ota_write (take (length ?b) ?x)) (?s1\<lparr>ota_retries := 0\<rparr>)
        in if \<not> ok then Inl (Reboot False s2) else Inr (t + length (take (length ?b) ?x), send_cmd (host_env crc) CMD_ACK s2)
      else map_sum id (Pair t) (refuse_block (host_env crc) False ?s1))"
    using rd lx b by (cases "?rem < 2048")
      (simp_all add: receive_block_def Let_def BLOCK_SIZE_def BLOCK_SIZE_CRC_def c del: of_nat_diff length_take)
  show ?thesis
  proof (cases d)
    case None
    let ?h2 = "?h\<lparr>inbox := [], blocks := tl (blocks ?h)\<rparr>"
    let ?s' = "?s1\<lparr>ota_retries := 0, ota_log := ota_log s @ [Ota_write ?b], ota_uart := send_block crc ?h2\<rparr>"
    have x: "?x = frame crc ?b" using d(1) None by (simp add: damage_def)
    have "receive_block (host_env crc) n t s = Inr (t + length ?b, ?s')"
      using block x b frame_parts [of ?b crc] lx w
      by (simp add: host_env_def ota_call_def send_cmd_def host_hears_def waiting_def)
    moreover have "waiting crc (drop 2048 rest) ?s'"
      by (rule send_block_waiting [of ?h2])
        (use w d(2) None chop_nonempty [OF assms(2)] in \<open>auto simp: waiting_def\<close>)
    ultimately show ?thesis by auto
  next
    case (Some f)
    let ?s' = "?s1\<lparr>ota_retries := ota_retries s + 1, ota_uart := send_block crc (?h\<lparr>inbox := []\<rparr>)\<rparr>"
    have "crc (take (length ?b) ?x) \<noteq> le32 (drop (length ?b) ?x)" and "ota_retries s + 1 < 3"
      using d Some by (auto simp: detected_def damage_def MAX_RETRIES_def simp del: length_take)
    then have "receive_block (host_env crc) n t s = Inr (t, ?s')"
      using block b lx by (simp add: host_env_def refuse_block_def send_cmd_def host_hears_def ota_consts Let_def)
    moreover have "waiting crc rest ?s'"
      by (rule send_block_waiting [of "?h\<lparr>inbox := []\<rparr>"])
        (use w d(2) Some in \<open>auto simp: waiting_def\<close>)
    ultimately show ?thesis by auto
  qed
qed

lemma receive_loop_waiting:
  "waiting crc rest s \<Longrightarrow> length rest = n - t \<Longrightarrow> t \<le> n \<Longrightarrow> n < 2147483648 \<Longrightarrow>
   \<exists>s' ps. receive_loop (host_env crc) n t s = Inr (n, s') \<and> ota_log s' = ota_log s @ map Ota_write ps \<and> concat ps = rest"
proof (induction "host_env crc" n t s arbitrary: rest rule: receive_loop.induct)
  case (1 n t s)
  show ?case
  proof (cases "rest = []")
    case True
    then show ?thesis
      using 1(3,4) by (auto simp: receive_loop.simps [of _ t t s] intro!: exI [of _ "[]"])
  next
    case False
    then have tn: "t < n" using 1(3) by (cases rest) auto
    obtain t' s1 where b: "receive_block (host_env crc) n t s = Inr (t', s1)"
      "t' = t + length (take 2048 rest) \<and> ota_log s1 = ota_log s @ [Ota_write (take 2048 rest)] \<and> waiting crc (drop 2048 rest) s1 \<or>
       t' = t \<and> ota_log s1 = ota_log s \<and> waiting crc rest s1"
      using receive_block_waiting [OF 1(2) False 1(3,5)] by blast
    have run: "receive_loop (host_env crc) n t s = receive_loop (host_env crc) n t' s1"
      using tn b(1) by (simp add: receive_loop.simps [of _ n t s])
    from b(2) show ?thesis
    proof
      assume c: "t' = t + length (take 2048 rest) \<and> ota_log s1 = ota_log s @ [Ota_write (take 2048 rest)] \<and> waiting crc (drop 2048 rest) s1"
      then have "length (drop 2048 rest) = n - t'" "t' \<le> n"
        using 1(3) tn by auto
      then obtain s' ps where "receive_loop (host_env crc) n t' s1 = Inr (n, s')" "ota_log s' = ota_log s1 @ map Ota_write ps"
        "concat ps = drop 2048 rest"
        using 1(1) [OF tn b(1) refl, of "drop 2048 rest"] 1(5) c by auto
      then show ?thesis
        using run c by (intro exI [of _ s'] exI [of _ "take 2048 rest # ps"]) auto
    next
      assume "t' = t \<and> ota_log s1 = ota_log s \<and> waiting crc rest s1"
      then show ?thesis
        using 1(1) [OF tn b(1) refl, of rest] 1(3-5) run by auto
    qed
  qed
qed

text \<open>
  C19: an update over a noisy line delivers the image. If the host sends an image (of less than two gigabytes) in
  blocks with their checksums, and every damaged transmission is shown by its checksum and no three in a row are
  damaged, then the update ends with the restart into the new partition, and what has been written there is the image.
\<close>

theorem noisy_update_delivers_image:
  assumes "\<not> update_underway s" and "ota_log s = []" and "ota_retries s = 0"
    and "img \<noteq> []" and "length img < 2147483648"
    and "ota_uart s = \<lparr>inbox = junk, size_bytes = le32_bytes (of_nat (length img)), started = False, blocks = chop img, line = ds\<rparr>"
    and "tolerable 0 ds" and "\<forall>f. Some f \<in> set ds \<longrightarrow> detected crc f"
  shows "\<exists>s' ps. uart_ota_start_firmware_update (host_env crc) s = Reboot True s' \<and>
     ota_log s' = Ota_begin # map Ota_write ps @ [Ota_end, Set_boot_partition] \<and> concat ps = img"
proof -
  let ?n = "length img" and ?e = "host_env crc"
  let ?h = "(ota_uart s)\<lparr>inbox := [], started := True\<rparr>"
  define s3 where "s3 = s\<lparr>update_underway := True, ota_log := [Ota_begin], ota_uart := send_block crc ?h,
    ota_reads := ota_reads s @ [le32_bytes (of_nat ?n)]\<rparr>"
  have n: "unat (le32 (le32_bytes (of_nat ?n) @ xs)) = ?n" for xs
    using assms(5) by (simp add: le32_le32_bytes unat_of_nat)
  have "waiting crc img s3"
    by (rule send_block_waiting [of ?h]) (use assms in \<open>auto simp: s3_def\<close>)
  then obtain s4 ps where l: "receive_loop ?e ?n 0 s3 = Inr (?n, s4)" "ota_log s4 = Ota_begin # map Ota_write ps" "concat ps = img"
    using receive_loop_waiting [of crc img s3 ?n 0] assms(5) by (auto simp: s3_def)
  define s1 where "s1 = s\<lparr>update_underway := True, ota_log := [Ota_begin], ota_uart := host_flush (ota_uart s)\<rparr>"
  define s2 where "s2 = s1\<lparr>ota_uart := (ota_uart s1)\<lparr>inbox := []\<rparr>, ota_reads := ota_reads s @ [le32_bytes (of_nat ?n)]\<rparr>"
  have "ota_call ?e Ota_begin ((flush_input ?e s)\<lparr>update_underway := True\<rparr>) = (True, s1)"
    using assms(2) by (simp add: ota_call_def flush_input_def host_env_def s1_def)
  moreover have "read_uart ?e 4 s1 = (Some (le32_bytes (of_nat ?n)), s2)"
    using assms(6) by (simp add: read_uart_def host_read_def host_env_def s1_def s2_def host_flush_def)
  moreover have "send_cmd ?e CMD_ACK s2 = s3"
    using assms(6) by (simp add: send_cmd_def host_env_def host_hears_def s1_def s2_def s3_def host_flush_def)
  moreover have "next_partition ?e" "malloc_ok ?e" "?n \<noteq> 0"
    using assms(4) by (simp_all add: host_env_def)
  ultimately have "uart_ota_start_firmware_update ?e s = finish_update ?e ?n ?n s4"
    using assms(1) n [of "replicate 4 0"] l(1) by (simp add: uart_ota_start_firmware_update_def Let_def)
  moreover have "u32 ?n = ?n" using assms(5) by (simp add: u32_id)
  ultimately show ?thesis
    using l(2,3) by (auto simp: finish_update_def ota_call_def host_env_def send_cmd_def)
qed

text \<open>
  Concrete transfers: with the sum of the bytes as checksum, a line that turns the first checksum byte around is
  noticed; the first transmission is damaged, the second is not.
\<close>

definition sum_crc :: "byte list \<Rightarrow> 32 word" where "sum_crc bs = of_nat (sum_list (map unat bs))"

definition flip_crc :: "byte list \<Rightarrow> byte list" where
  "flip_crc xs = xs[length xs - 4 := NOT (xs ! (length xs - 4))]"

lemma flip_frame:
  "flip_crc (frame crc b) = b @ [NOT (ucast (crc b)), ucast (drop_bit 8 (crc b)), ucast (drop_bit 16 (crc b)), ucast (drop_bit 24 (crc b))]"
  by (simp add: flip_crc_def frame_def le32_bytes_def list_update_append nth_append)

lemma flip_detected: "detected crc flip_crc"
proof -
  have "le32 [NOT (ucast w), x, y, z] \<noteq> w" for w x y z
  proof
    assume "le32 [NOT (ucast w), x, y, z] = w"
    then have "bit (le32 [NOT (ucast w), x, y, z]) 0 = bit w 0" by simp
    then show False
      by (simp add: le32_def bit_or_iff bit_push_bit_iff bit_ucast_iff bit_not_iff)
  qed
  then show ?thesis
    unfolding detected_def flip_frame by (auto dest: sym)
qed

definition ex_ota :: "host ota" where
  "ex_ota = \<lparr>update_underway = False, ota_retries = 0,
     ota_uart = \<lparr>inbox = [9, 9], size_bytes = le32_bytes 3, started = False, blocks = chop [7, 8, 9], line = [Some flip_crc, None]\<rparr>,
     ota_log = [], ota_reads = []\<rparr>"

theorem noisy_update_delivers_image_witness:
  "\<exists>s' ps. uart_ota_start_firmware_update (host_env sum_crc) ex_ota = Reboot True s' \<and>
     ota_log s' = Ota_begin # map Ota_write ps @ [Ota_end, Set_boot_partition] \<and> concat ps = [7, 8, 9]"
  using noisy_update_delivers_image [of ex_ota "[7, 8, 9]" "[9, 9]" "[Some flip_crc, None]" sum_crc] flip_detected
  by (simp add: ex_ota_def MAX_RETRIES_def)

theorem boots_only_complete_image_witness:
  "boot_log_ok (host_env sum_crc) (uart_ota_start_firmware_update (host_env sum_crc) ex_ota)"
  using boots_only_complete_image [of ex_ota "host_env sum_crc"] by (simp add: ex_ota_def)

end
