(* ===== verification/Display.thy ===== *)
theory Display
  imports Gpio_Manager Locks
begin

unbundle bit_operations_syntax

text \<open>
  The display (\<open>components/display_driver\<close>): the ST7735 panel driver, the three-state machine of the display and
  the operations that keep the two together.

  The panel is driven by commands; what has been sent is the log \<open>lcd_log\<close>, and whether a transmission succeeds is
  the parameter \<open>tx_ok\<close>. Switching the backlight belongs to the GPIO manager: \<open>gpio_lcd_env\<close> puts its operations
  into the interface used here. \<open>None\<close> is an aborted system (a failed \<open>ESP_ERROR_CHECK\<close> or assertion).
\<close>

section \<open>Types\<close>

definition ST7735_SWRESET :: byte where "ST7735_SWRESET = 0x01"
definition ST7735_SLPIN :: byte where "ST7735_SLPIN = 0x10"
definition ST7735_SLPOUT :: byte where "ST7735_SLPOUT = 0x11"
definition ST7735_NORON :: byte where "ST7735_NORON = 0x13"
definition ST7735_INVOFF :: byte where "ST7735_INVOFF = 0x20"
definition ST7735_INVON :: byte where "ST7735_INVON = 0x21"
definition ST7735_DISPOFF :: byte where "ST7735_DISPOFF = 0x28"
definition ST7735_DISPON :: byte where "ST7735_DISPON = 0x29"
definition ST7735_CASET :: byte where "ST7735_CASET = 0x2A"
definition ST7735_RASET :: byte where "ST7735_RASET = 0x2B"
definition ST7735_RAMWR :: byte where "ST7735_RAMWR = 0x2C"
definition ST7735_MADCTL :: byte where "ST7735_MADCTL = 0x36"
definition ST7735_COLMOD :: byte where "ST7735_COLMOD = 0x3A"
definition ST7735_FRMCTR1 :: byte where "ST7735_FRMCTR1 = 0xB1"
definition ST7735_FRMCTR2 :: byte where "ST7735_FRMCTR2 = 0xB2"
definition ST7735_FRMCTR3 :: byte where "ST7735_FRMCTR3 = 0xB3"
definition ST7735_INVCTR :: byte where "ST7735_INVCTR = 0xB4"
definition ST7735_PWCTR1 :: byte where "ST7735_PWCTR1 = 0xC0"
definition ST7735_PWCTR2 :: byte where "ST7735_PWCTR2 = 0xC1"
definition ST7735_PWCTR3 :: byte where "ST7735_PWCTR3 = 0xC2"
definition ST7735_PWCTR4 :: byte where "ST7735_PWCTR4 = 0xC3"
definition ST7735_PWCTR5 :: byte where "ST7735_PWCTR5 = 0xC4"
definition ST7735_VMCTR1 :: byte where "ST7735_VMCTR1 = 0xC5"
definition ST7735_GMCTRP1 :: byte where "ST7735_GMCTRP1 = 0xE0"
definition ST7735_GMCTRN1 :: byte where "ST7735_GMCTRN1 = 0xE1"

text \<open>The bits of the memory access control register, as the panel library names them.\<close>

definition LCD_CMD_MY_BIT :: byte where "LCD_CMD_MY_BIT = 0x80"
definition LCD_CMD_MX_BIT :: byte where "LCD_CMD_MX_BIT = 0x40"
definition LCD_CMD_MV_BIT :: byte where "LCD_CMD_MV_BIT = 0x20"
definition LCD_CMD_BGR_BIT :: byte where "LCD_CMD_BGR_BIT = 0x08"

lemmas lcd_cmds = ST7735_SWRESET_def ST7735_SLPIN_def ST7735_SLPOUT_def ST7735_NORON_def ST7735_INVOFF_def ST7735_INVON_def
  ST7735_DISPOFF_def ST7735_DISPON_def ST7735_CASET_def ST7735_RASET_def ST7735_RAMWR_def ST7735_MADCTL_def ST7735_COLMOD_def
  ST7735_FRMCTR1_def ST7735_FRMCTR2_def ST7735_FRMCTR3_def ST7735_INVCTR_def ST7735_PWCTR1_def ST7735_PWCTR2_def
  ST7735_PWCTR3_def ST7735_PWCTR4_def ST7735_PWCTR5_def ST7735_VMCTR1_def ST7735_GMCTRP1_def ST7735_GMCTRN1_def

datatype display_state = DISPLAY_STATE_OFF | DISPLAY_STATE_ON | DISPLAY_STATE_SLEEP

datatype lcd_esp_err = LCD_ESP_OK | LCD_ESP_FAIL | LCD_ERR_INVALID_ARG | LCD_ERR_NO_MEM | LCD_ERR_NOT_SUPPORTED

datatype rgb_ele_order = LCD_RGB_ELEMENT_ORDER_RGB | LCD_RGB_ELEMENT_ORDER_BGR | LCD_RGB_ELEMENT_ORDER_OTHER

datatype lcd_op =
    Tx_param byte "byte list"
  | Tx_color nat
  | Lcd_delay nat
  | Rst_level bool
  | Rst_config
  | Rst_pin_reset

record lcd_init_cmd =
  ic_cmd :: byte
  ic_data :: "byte list"
  ic_delay_ms :: nat

record st7735_panel =
  reset_gpio_num :: int
  reset_level :: bool
  x_gap :: int
  y_gap :: int
  fb_bits_per_pixel :: nat
  madctl_val :: byte
  colmod_val :: byte
  init_cmds_of :: "lcd_init_cmd list option"

record panel_dev_config =
  pd_reset_gpio_num :: int
  pd_rgb_ele_order :: rgb_ele_order
  pd_bits_per_pixel :: nat
  pd_reset_active_high :: bool
  pd_init_cmds :: "lcd_init_cmd list option"

record ('g, 's) lcd_env =
  tx_ok :: "lcd_op list \<Rightarrow> lcd_op \<Rightarrow> bool"
  backlight_power :: "'g \<Rightarrow> 'g option"
  backlight_off :: "'g \<Rightarrow> 'g option"
  lcd_lock_impl :: "'s lock_impl"

record ('g, 's) display =
  panel_handle :: "st7735_panel option"
  io_handle :: bool
  flush_callback :: bool
  fsm_state :: display_state
  lcd_log :: "lcd_op list"
  lcd_gpio :: 'g
  lcd_lock :: 's

section \<open>The panel driver\<close>

definition lcd_emit :: "lcd_op \<Rightarrow> ('g, 's) display \<Rightarrow> ('g, 's) display" where
  "lcd_emit op d = d\<lparr>lcd_log := lcd_log d @ [op]\<rparr>"

definition tx_param :: "('g, 's) lcd_env \<Rightarrow> byte \<Rightarrow> byte list \<Rightarrow> ('g, 's) display \<Rightarrow> bool \<times> ('g, 's) display" where
  "tx_param env c data d = (tx_ok env (lcd_log d) (Tx_param c data), lcd_emit (Tx_param c data) d)"

text \<open>One command under \<open>ESP_ERROR_CHECK\<close>, with the delay after it.\<close>

definition tx_checked :: "('g, 's) lcd_env \<Rightarrow> byte \<times> byte list \<times> nat \<Rightarrow> ('g, 's) display \<Rightarrow> ('g, 's) display option" where
  "tx_checked env = (\<lambda>(c, data, ms) d.
     let (ok, d1) = tx_param env c data d in if \<not> ok then None else Some (if ms = 0 then d1 else lcd_emit (Lcd_delay ms) d1))"

definition lcd_locked ::
  "('g, 's) lcd_env \<Rightarrow> (('g, 's) display \<Rightarrow> ('g, 's) display option) \<Rightarrow> ('g, 's) display \<Rightarrow> ('g, 's) display option" where
  "lcd_locked env body d =
     do {
       d1 \<leftarrow> body (d\<lparr>lcd_lock := sleep_lock_service_acquire_lock (lcd_lock_impl env) (lcd_lock d)\<rparr>);
       Some (d1\<lparr>lcd_lock := sleep_lock_service_release_lock (lcd_lock_impl env) (lcd_lock d1)\<rparr>)
     }"

definition lcd_backlight :: "('g \<Rightarrow> 'g option) \<Rightarrow> ('g, 's) display \<Rightarrow> ('g, 's) display option" where
  "lcd_backlight f d = map_option (\<lambda>g. d\<lparr>lcd_gpio := g\<rparr>) (f (lcd_gpio d))"

text \<open>
  Creation: \<open>calloc\<close> clears the panel; every failure after it frees the panel and gives the reset pin back.
\<close>

definition esp_lcd_new_panel_st7735 ::
  "bool \<Rightarrow> bool \<Rightarrow> bool \<Rightarrow> panel_dev_config \<Rightarrow> ('g, 's) display \<Rightarrow> lcd_esp_err \<times> st7735_panel option \<times> ('g, 's) display" where
  "esp_lcd_new_panel_st7735 args_ok calloc_ok rst_ok cfg d =
     (if \<not> args_ok then (LCD_ERR_INVALID_ARG, None, d)
      else if \<not> calloc_ok then (LCD_ERR_NO_MEM, None, d)
      else
        let has_rst = pd_reset_gpio_num cfg \<ge> 0;
            d1 = (if has_rst then lcd_emit Rst_config d else d);
            fail = (\<lambda>e. (e, None, if has_rst then lcd_emit Rst_pin_reset d1 else d1))
        in if has_rst \<and> \<not> rst_ok then fail LCD_ESP_FAIL
           else if pd_rgb_ele_order cfg = LCD_RGB_ELEMENT_ORDER_OTHER then fail LCD_ERR_NOT_SUPPORTED
           else if pd_bits_per_pixel cfg \<noteq> 16 \<and> pd_bits_per_pixel cfg \<noteq> 18 then fail LCD_ERR_NOT_SUPPORTED
           else (LCD_ESP_OK, Some \<lparr>
                   reset_gpio_num = pd_reset_gpio_num cfg, reset_level = pd_reset_active_high cfg, x_gap = 0, y_gap = 0,
                   fb_bits_per_pixel = (if pd_bits_per_pixel cfg = 16 then 16 else 24),
                   madctl_val = (if pd_rgb_ele_order cfg = LCD_RGB_ELEMENT_ORDER_BGR then LCD_CMD_BGR_BIT else 0),
                   colmod_val = (if pd_bits_per_pixel cfg = 16 then 0x55 else 0x66),
                   init_cmds_of = pd_init_cmds cfg\<rparr>, d1))"

definition panel_st7735_del :: "st7735_panel \<Rightarrow> ('g, 's) display \<Rightarrow> ('g, 's) display" where
  "panel_st7735_del p d = (if reset_gpio_num p \<ge> 0 then lcd_emit Rst_pin_reset d else d)"

definition panel_st7735_reset :: "('g, 's) lcd_env \<Rightarrow> st7735_panel \<Rightarrow> ('g, 's) display \<Rightarrow> ('g, 's) display option" where
  "panel_st7735_reset env p =
     lcd_locked env (\<lambda>d.
       if reset_gpio_num p \<ge> 0
       then Some (lcd_emit (Lcd_delay 10) (lcd_emit (Rst_level (\<not> reset_level p))
                   (lcd_emit (Lcd_delay 10) (lcd_emit (Rst_level (reset_level p)) d))))
       else tx_checked env (ST7735_SWRESET, [], 20) d)"

definition TFT_INIT_DELAY :: nat where "TFT_INIT_DELAY = 0"

definition gamma_p :: "byte list" where
  "gamma_p = [0x02, 0x1c, 0x07, 0x12, 0x37, 0x32, 0x29, 0x2d, 0x29, 0x25, 0x2B, 0x39, 0x00, 0x01, 0x03, 0x10]"

definition gamma_n :: "byte list" where
  "gamma_n = [0x03, 0x1d, 0x07, 0x06, 0x2E, 0x2C, 0x29, 0x2D, 0x2E, 0x2E, 0x37, 0x3F, 0x00, 0x00, 0x02, 0x10]"

definition st7735_init_cmds :: "lcd_init_cmd list" where
  "st7735_init_cmds = map (\<lambda>(c, data, ms). \<lparr>ic_cmd = c, ic_data = data, ic_delay_ms = ms\<rparr>)
     [(ST7735_SWRESET, [0], 150), (ST7735_SLPOUT, [0], 255), (ST7735_FRMCTR1, [0x01, 0x2C, 0x2D], 0),
      (ST7735_FRMCTR2, [0x01, 0x2C, 0x2D], 0), (ST7735_FRMCTR3, [0x01, 0x2C, 0x2D, 0x01, 0x2C, 0x2D], 0),
      (ST7735_INVCTR, [0x07], 0), (ST7735_PWCTR1, [0xA2, 0x02, 0x84], 0), (ST7735_PWCTR2, [0xC5], 0),
      (ST7735_PWCTR3, [0x0A, 0x00], 0), (ST7735_PWCTR4, [0x8A, 0x2A], 0), (ST7735_PWCTR5, [0x8A, 0xEE], 0),
      (ST7735_VMCTR1, [0x0E], 0), (ST7735_INVOFF, [0], 0), (ST7735_COLMOD, [0x05], 0),
      (ST7735_GMCTRP1, gamma_p, 0), (ST7735_GMCTRN1, gamma_n, 0),
      (ST7735_NORON, [0], TFT_INIT_DELAY), (ST7735_DISPON, [0], TFT_INIT_DELAY)]"

text \<open>One entry of the table; the entries for the two registers kept in the panel update them.\<close>

definition init_cmd_step ::
  "('g, 's) lcd_env \<Rightarrow> lcd_init_cmd \<Rightarrow> st7735_panel \<times> ('g, 's) display \<Rightarrow> (st7735_panel \<times> ('g, 's) display) option" where
  "init_cmd_step env c = (\<lambda>(p, d). do {
     p1 \<leftarrow> (if ic_cmd c = ST7735_MADCTL then map_option (\<lambda>b. p\<lparr>madctl_val := b\<rparr>) (rd (ic_data c) 0)
            else if ic_cmd c = ST7735_COLMOD then map_option (\<lambda>b. p\<lparr>colmod_val := b\<rparr>) (rd (ic_data c) 0)
            else Some p);
     d1 \<leftarrow> tx_checked env (ic_cmd c, ic_data c, ic_delay_ms c) d;
     Some (p1, d1)
   })"

definition panel_st7735_init ::
  "('g, 's) lcd_env \<Rightarrow> st7735_panel \<Rightarrow> ('g, 's) display \<Rightarrow> (st7735_panel \<times> ('g, 's) display) option" where
  "panel_st7735_init env p d =
     do {
       let d0 = d\<lparr>lcd_lock := sleep_lock_service_acquire_lock (lcd_lock_impl env) (lcd_lock d)\<rparr>;
       d1 \<leftarrow> tx_checked env (ST7735_SLPOUT, [], 100) d0;
       d2 \<leftarrow> tx_checked env (ST7735_MADCTL, [madctl_val p], 0) d1;
       d3 \<leftarrow> tx_checked env (ST7735_COLMOD, [colmod_val p], 0) d2;
       (p1, d4) \<leftarrow> mfold (init_cmd_step env) (case init_cmds_of p of Some cs \<Rightarrow> cs | None \<Rightarrow> st7735_init_cmds) (p, d3);
       Some (p1, d4\<lparr>lcd_lock := sleep_lock_service_release_lock (lcd_lock_impl env) (lcd_lock d4)\<rparr>)
     }"

text \<open>The low two bytes of a coordinate, high byte first.\<close>

definition coord_bytes :: "int \<Rightarrow> byte list" where
  "coord_bytes x = [of_int (x div 256), of_int x]"

definition panel_st7735_draw_bitmap ::
  "('g, 's) lcd_env \<Rightarrow> st7735_panel \<Rightarrow> int \<Rightarrow> int \<Rightarrow> int \<Rightarrow> int \<Rightarrow> ('g, 's) display \<Rightarrow> (lcd_esp_err \<times> ('g, 's) display) option" where
  "panel_st7735_draw_bitmap env p x_start y_start x_end y_end d =
     (if \<not> (x_start < x_end \<and> y_start < y_end) then None
      else
        let xs = x_start + x_gap p; xe = x_end + x_gap p; ys = y_start + y_gap p; ye = y_end + y_gap p;
            (ok1, d1) = tx_param env ST7735_CASET (coord_bytes xs @ coord_bytes (xe - 1)) d
        in if \<not> ok1 then Some (LCD_ESP_FAIL, d1)
           else
             let (ok2, d2) = tx_param env ST7735_RASET (coord_bytes ys @ coord_bytes (ye - 1)) d1
             in if \<not> ok2 then Some (LCD_ESP_FAIL, d2)
                else
                  let len = nat ((xe - xs) * (ye - ys) * int (fb_bits_per_pixel p) div 8)
                  in Some (LCD_ESP_OK, lcd_emit (Tx_color len) d2))"

text \<open>Commands whose failure is returned to the caller.\<close>

definition send_returned :: "('g, 's) lcd_env \<Rightarrow> byte \<Rightarrow> byte list \<Rightarrow> ('g, 's) display \<Rightarrow> lcd_esp_err \<times> ('g, 's) display" where
  "send_returned env c data d = (let (ok, d1) = tx_param env c data d in (if ok then LCD_ESP_OK else LCD_ESP_FAIL, d1))"

definition panel_st7735_invert_color :: "('g, 's) lcd_env \<Rightarrow> bool \<Rightarrow> ('g, 's) display \<Rightarrow> lcd_esp_err \<times> ('g, 's) display" where
  "panel_st7735_invert_color env invert = send_returned env (if invert then ST7735_INVON else ST7735_INVOFF) []"

definition set_bits :: "bool \<Rightarrow> byte \<Rightarrow> byte \<Rightarrow> byte" where
  "set_bits on m v = (if on then v OR m else v AND NOT m)"

definition panel_st7735_mirror ::
  "('g, 's) lcd_env \<Rightarrow> bool \<Rightarrow> bool \<Rightarrow> st7735_panel \<Rightarrow> ('g, 's) display \<Rightarrow> lcd_esp_err \<times> st7735_panel \<times> ('g, 's) display" where
  "panel_st7735_mirror env mirror_x mirror_y p d =
     (let p1 = p\<lparr>madctl_val := set_bits mirror_y LCD_CMD_MY_BIT (set_bits mirror_x LCD_CMD_MX_BIT (madctl_val p))\<rparr>;
          (e, d1) = send_returned env ST7735_MADCTL [madctl_val p1] d
      in (e, p1, d1))"

definition panel_st7735_swap_xy ::
  "('g, 's) lcd_env \<Rightarrow> bool \<Rightarrow> st7735_panel \<Rightarrow> ('g, 's) display \<Rightarrow> lcd_esp_err \<times> st7735_panel \<times> ('g, 's) display" where
  "panel_st7735_swap_xy env swap_axes p d =
     (let p1 = p\<lparr>madctl_val := set_bits swap_axes LCD_CMD_MV_BIT (madctl_val p)\<rparr>;
          (e, d1) = send_returned env ST7735_MADCTL [madctl_val p1] d
      in (e, p1, d1))"

definition panel_st7735_set_gap :: "int \<Rightarrow> int \<Rightarrow> st7735_panel \<Rightarrow> st7735_panel" where
  "panel_st7735_set_gap gx gy p = p\<lparr>x_gap := gx, y_gap := gy\<rparr>"

definition panel_st7735_disp_on_off ::
  "('g, 's) lcd_env \<Rightarrow> bool \<Rightarrow> ('g, 's) display \<Rightarrow> (lcd_esp_err \<times> ('g, 's) display) option" where
  "panel_st7735_disp_on_off env on_off d =
     (let (e, d1) = send_returned env (if on_off then ST7735_DISPON else ST7735_DISPOFF) [] d
      in if e \<noteq> LCD_ESP_OK then Some (e, d1)
         else map_option (Pair LCD_ESP_OK) (lcd_backlight (if on_off then backlight_power env else backlight_off env) d1))"

definition panel_st7735_sleep ::
  "('g, 's) lcd_env \<Rightarrow> st7735_panel \<Rightarrow> bool \<Rightarrow> ('g, 's) display \<Rightarrow> (lcd_esp_err \<times> ('g, 's) display) option" where
  "panel_st7735_sleep env p sleep d =
     (if sleep then do {
        d1 \<leftarrow> lcd_backlight (backlight_off env) d;
        d2 \<leftarrow> lcd_locked env (mfold (tx_checked env) [(ST7735_DISPOFF, [], 10), (ST7735_SLPIN, [], 120)]) d1;
        Some (LCD_ESP_OK, d2)
      }
      else do {
        d1 \<leftarrow> lcd_locked env (mfold (tx_checked env)
                [(ST7735_SLPOUT, [], 120), (ST7735_MADCTL, [madctl_val p], 0), (ST7735_COLMOD, [colmod_val p], 0),
                 (ST7735_GMCTRP1, gamma_p, 0), (ST7735_GMCTRN1, gamma_n, 0), (ST7735_DISPON, [], 20)]) d;
        d2 \<leftarrow> lcd_backlight (backlight_power env) d1;
        Some (LCD_ESP_OK, d2)
      })"

section \<open>The state machine\<close>

definition init_fsm :: "('g, 's) display \<Rightarrow> ('g, 's) display" where
  "init_fsm d = d\<lparr>fsm_state := DISPLAY_STATE_OFF\<rparr>"

definition fsm_display_state_transition :: "display_state \<Rightarrow> ('g, 's) display \<Rightarrow> bool \<times> ('g, 's) display" where
  "fsm_display_state_transition next_state d =
     (if fsm_state d = next_state then (False, d)
      else if next_state = DISPLAY_STATE_SLEEP \<and> fsm_state d = DISPLAY_STATE_OFF then (False, d)
      else (True, d\<lparr>fsm_state := next_state\<rparr>))"

section \<open>Operations of the display\<close>

definition display_panel_config :: panel_dev_config where
  "display_panel_config = \<lparr>pd_reset_gpio_num = int DISPLAY_PIN_NUM_RST, pd_rgb_ele_order = LCD_RGB_ELEMENT_ORDER_RGB,
     pd_bits_per_pixel = 16, pd_reset_active_high = False, pd_init_cmds = None\<rparr>"

text \<open>\<open>buses_ok\<close>: the SPI bus, the panel interface and its callbacks could be set up.\<close>

definition init_display ::
  "('g, 's) lcd_env \<Rightarrow> bool \<Rightarrow> bool \<Rightarrow> bool \<Rightarrow> bool \<Rightarrow> ('g, 's) display \<Rightarrow> ('g, 's) display option" where
  "init_display env buses_ok calloc_ok rst_ok callback d =
     (if \<not> buses_ok then None
      else
        let d0 = d\<lparr>flush_callback := callback, io_handle := True\<rparr>;
            (e, pp, d1) = esp_lcd_new_panel_st7735 True calloc_ok rst_ok display_panel_config d0
        in if e \<noteq> LCD_ESP_OK then None
           else do {
             p \<leftarrow> pp;
             d2 \<leftarrow> panel_st7735_reset env p d1;
             (p1, d3) \<leftarrow> panel_st7735_init env p d2;
             let (e2, p2, d4) = panel_st7735_mirror env False False p1 d3
             in if e2 \<noteq> LCD_ESP_OK then None else Some (init_fsm (d4\<lparr>panel_handle := Some p2\<rparr>))
           })"

definition deinit_display :: "('g, 's) lcd_env \<Rightarrow> ('g, 's) display \<Rightarrow> ('g, 's) display option" where
  "deinit_display env d =
     do {
       d1 \<leftarrow> (case panel_handle d of
                None \<Rightarrow> Some d
              | Some p \<Rightarrow> do {
                  (e, d1) \<leftarrow> panel_st7735_disp_on_off env False d;
                  Some ((panel_st7735_del p d1)\<lparr>panel_handle := None\<rparr>)
                });
       Some (d1\<lparr>io_handle := False, flush_callback := False\<rparr>)
     }"

definition display_draw_bitmap ::
  "('g, 's) lcd_env \<Rightarrow> int \<Rightarrow> int \<Rightarrow> int \<Rightarrow> int \<Rightarrow> ('g, 's) display \<Rightarrow> ('g, 's) display option" where
  "display_draw_bitmap env x1 y1 x2 y2 d =
     (case panel_handle d of
        None \<Rightarrow> Some d
      | Some p \<Rightarrow> map_option snd (panel_st7735_draw_bitmap env p x1 y1 x2 y2 d))"

text \<open>An operation of the panel, or \<open>False\<close> when there is no panel.\<close>

definition with_panel ::
  "(st7735_panel \<Rightarrow> ('g, 's) display \<Rightarrow> (lcd_esp_err \<times> ('g, 's) display) option) \<Rightarrow> ('g, 's) display \<Rightarrow> (bool \<times> ('g, 's) display) option" where
  "with_panel op d =
     (case panel_handle d of
        None \<Rightarrow> Some (False, d)
      | Some p \<Rightarrow> map_option (\<lambda>(e, d1). (e = LCD_ESP_OK, d1)) (op p d))"

definition roll_back :: "display_state \<Rightarrow> bool \<times> ('g, 's) display \<Rightarrow> bool \<times> ('g, 's) display" where
  "roll_back rollback_state = (\<lambda>(success, d).
     if success then (True, d) else (False, snd (fsm_display_state_transition rollback_state d)))"

definition display_sleep :: "('g, 's) lcd_env \<Rightarrow> ('g, 's) display \<Rightarrow> (bool \<times> ('g, 's) display) option" where
  "display_sleep env d =
     (let (moved, d1) = fsm_display_state_transition DISPLAY_STATE_SLEEP d
      in map_option (roll_back (fsm_state d))
           (if moved then with_panel (\<lambda>p. panel_st7735_sleep env p True) d1 else Some (False, d1)))"

definition display_wakeup :: "('g, 's) lcd_env \<Rightarrow> ('g, 's) display \<Rightarrow> (bool \<times> ('g, 's) display) option" where
  "display_wakeup env = with_panel (\<lambda>p. panel_st7735_sleep env p False)"

definition display_on :: "('g, 's) lcd_env \<Rightarrow> ('g, 's) display \<Rightarrow> (bool \<times> ('g, 's) display) option" where
  "display_on env d =
     (let (moved, d1) = fsm_display_state_transition DISPLAY_STATE_ON d
      in map_option (roll_back (fsm_state d))
           (if fsm_state d = DISPLAY_STATE_SLEEP then if moved then display_wakeup env d1 else Some (True, d1)
            else if fsm_state d = DISPLAY_STATE_OFF
            then if moved then with_panel (\<lambda>p. panel_st7735_disp_on_off env True) d1 else Some (True, d1)
            else Some (False, d)))"

definition display_off :: "('g, 's) lcd_env \<Rightarrow> ('g, 's) display \<Rightarrow> (bool \<times> ('g, 's) display) option" where
  "display_off env d =
     (let (moved, d1) = fsm_display_state_transition DISPLAY_STATE_OFF d
      in map_option (roll_back (fsm_state d))
           (if moved then with_panel (\<lambda>p. panel_st7735_disp_on_off env False) d1 else Some (False, d1)))"

section \<open>The panel follows the state machine\<close>

text \<open>
  What a command does to the controller, as far as its two power switches are concerned: whether it is awake and
  whether it shows the image. A reset leaves it asleep and dark.
\<close>

definition controller :: "lcd_op \<Rightarrow> bool \<times> bool \<Rightarrow> bool \<times> bool" where
  "controller op = (\<lambda>(awake, shown). case op of
      Tx_param c data \<Rightarrow>
        if c = ST7735_SLPIN then (False, shown)
        else if c = ST7735_SLPOUT then (True, shown)
        else if c = ST7735_DISPON then (awake, True)
        else if c = ST7735_DISPOFF then (awake, False)
        else if c = ST7735_SWRESET then (False, False)
        else (awake, shown)
    | Rst_level _ \<Rightarrow> (False, False)
    | _ \<Rightarrow> (awake, shown))"

definition panel_mode :: "('g, 's) display \<Rightarrow> bool \<times> bool" where
  "panel_mode d = fold controller (lcd_log d) (False, False)"

definition display_ok :: "('g, 's) display \<Rightarrow> bool" where
  "display_ok d \<longleftrightarrow> panel_handle d \<noteq> None \<and> (case fsm_state d of
      DISPLAY_STATE_ON \<Rightarrow> panel_mode d = (True, True)
    | DISPLAY_STATE_SLEEP \<Rightarrow> panel_mode d = (False, False)
    | DISPLAY_STATE_OFF \<Rightarrow> fst (panel_mode d))"

text \<open>
  What \<open>display_ok\<close> leaves open: that a display which is off is dark. After \<open>init_display\<close> it is not, since
  the table of initial commands ends with DISPON and the state machine starts in OFF.
\<close>

definition off_is_dark :: "('g, 's) display \<Rightarrow> bool" where
  "off_is_dark d \<longleftrightarrow> (fsm_state d = DISPLAY_STATE_OFF \<longrightarrow> \<not> snd (panel_mode d))"

text \<open>A link on which everything works.\<close>

definition lcd_works :: "('g, 's) lcd_env \<Rightarrow> bool" where
  "lcd_works env \<longleftrightarrow> (\<forall>ops op. tx_ok env ops op) \<and> (\<forall>g. backlight_power env g \<noteq> None) \<and> (\<forall>g. backlight_off env g \<noteq> None)"

definition cmd_ops :: "byte \<times> byte list \<times> nat \<Rightarrow> lcd_op list" where
  "cmd_ops = (\<lambda>(c, data, ms). Tx_param c data # (if ms = 0 then [] else [Lcd_delay ms]))"

lemma tx_checked_works: "lcd_works env \<Longrightarrow> tx_checked env c d = Some (d\<lparr>lcd_log := lcd_log d @ cmd_ops c\<rparr>)"
  by (cases c) (simp add: tx_checked_def tx_param_def lcd_works_def lcd_emit_def cmd_ops_def)

lemma mfold_tx_works: "lcd_works env \<Longrightarrow> mfold (tx_checked env) cs d = Some (d\<lparr>lcd_log := lcd_log d @ concat (map cmd_ops cs)\<rparr>)"
  by (induction cs arbitrary: d) (simp_all add: tx_checked_works)

lemma backlight_works:
  assumes "lcd_works env"
  shows "\<exists>g. lcd_backlight (backlight_power env) d = Some (d\<lparr>lcd_gpio := g\<rparr>)" "\<exists>g. lcd_backlight (backlight_off env) d = Some (d\<lparr>lcd_gpio := g\<rparr>)"
proof -
  obtain g g' where "backlight_power env (lcd_gpio d) = Some g" "backlight_off env (lcd_gpio d) = Some g'"
    using assms by (force simp: lcd_works_def)
  then show "\<exists>g. lcd_backlight (backlight_power env) d = Some (d\<lparr>lcd_gpio := g\<rparr>)"
    and "\<exists>g. lcd_backlight (backlight_off env) d = Some (d\<lparr>lcd_gpio := g\<rparr>)"
    by (auto simp: lcd_backlight_def)
qed

definition lcd_balanced :: "('g, 's) lcd_env \<Rightarrow> 's \<Rightarrow> bool" where
  "lcd_balanced env x \<longleftrightarrow> sleep_lock_service_release_lock (lcd_lock_impl env) (sleep_lock_service_acquire_lock (lcd_lock_impl env) x) = x"

lemma locked_works:
  "lcd_works env \<Longrightarrow> lcd_balanced env (lcd_lock d) \<Longrightarrow>
   lcd_locked env (mfold (tx_checked env) cs) d = Some (d\<lparr>lcd_log := lcd_log d @ concat (map cmd_ops cs)\<rparr>)"
  by (simp add: lcd_locked_def mfold_tx_works lcd_balanced_def)

lemma panel_sleep_works:
  assumes "lcd_works env" and "lcd_balanced env (lcd_lock d)"
  shows "\<exists>d1. panel_st7735_sleep env p True d = Some (LCD_ESP_OK, d1) \<and> panel_mode d1 = (False, False) \<and>
      panel_handle d1 = panel_handle d \<and> fsm_state d1 = fsm_state d \<and> lcd_lock d1 = lcd_lock d"
    and "\<exists>d1. panel_st7735_sleep env p False d = Some (LCD_ESP_OK, d1) \<and> panel_mode d1 = (True, True) \<and>
      panel_handle d1 = panel_handle d \<and> fsm_state d1 = fsm_state d \<and> lcd_lock d1 = lcd_lock d"
proof -
  obtain g where g: "lcd_backlight (backlight_off env) d = Some (d\<lparr>lcd_gpio := g\<rparr>)"
    using backlight_works(2) [OF assms(1)] by blast
  then show "\<exists>d1. panel_st7735_sleep env p True d = Some (LCD_ESP_OK, d1) \<and> panel_mode d1 = (False, False) \<and>
      panel_handle d1 = panel_handle d \<and> fsm_state d1 = fsm_state d \<and> lcd_lock d1 = lcd_lock d"
    using assms by (simp add: panel_st7735_sleep_def locked_works del: mfold.simps)
      (auto simp: panel_mode_def cmd_ops_def controller_def lcd_cmds split: prod.split)
  define d' where "d' = d\<lparr>lcd_log := lcd_log d @ concat (map cmd_ops
     [(ST7735_SLPOUT, [], 120), (ST7735_MADCTL, [madctl_val p], 0), (ST7735_COLMOD, [colmod_val p], 0),
      (ST7735_GMCTRP1, gamma_p, 0), (ST7735_GMCTRN1, gamma_n, 0), (ST7735_DISPON, [], 20)])\<rparr>"
  have d': "panel_mode d' = (True, True)" "panel_handle d' = panel_handle d" "fsm_state d' = fsm_state d" "lcd_lock d' = lcd_lock d"
    by (auto simp: d'_def panel_mode_def cmd_ops_def controller_def lcd_cmds split: prod.split)
  obtain g where "lcd_backlight (backlight_power env) d' = Some (d'\<lparr>lcd_gpio := g\<rparr>)"
    using backlight_works(1) [OF assms(1)] by blast
  then have "panel_st7735_sleep env p False d = Some (LCD_ESP_OK, d'\<lparr>lcd_gpio := g\<rparr>)"
    unfolding panel_st7735_sleep_def using locked_works [OF assms] by (simp add: d'_def del: mfold.simps)
  then show "\<exists>d1. panel_st7735_sleep env p False d = Some (LCD_ESP_OK, d1) \<and> panel_mode d1 = (True, True) \<and>
      panel_handle d1 = panel_handle d \<and> fsm_state d1 = fsm_state d \<and> lcd_lock d1 = lcd_lock d"
    using d' by (auto simp: panel_mode_def)
qed

lemma panel_on_off_works:
  assumes "lcd_works env"
  shows "\<exists>d1. panel_st7735_disp_on_off env b d = Some (LCD_ESP_OK, d1) \<and> panel_mode d1 = (fst (panel_mode d), b) \<and>
      panel_handle d1 = panel_handle d \<and> fsm_state d1 = fsm_state d \<and> lcd_lock d1 = lcd_lock d"
proof -
  define d' where "d' = lcd_emit (Tx_param (if b then ST7735_DISPON else ST7735_DISPOFF) []) d"
  have d': "panel_mode d' = (fst (panel_mode d), b)" "panel_handle d' = panel_handle d" "fsm_state d' = fsm_state d" "lcd_lock d' = lcd_lock d"
    by (auto simp: d'_def lcd_emit_def panel_mode_def controller_def lcd_cmds split: prod.split)
  obtain g where "lcd_backlight (if b then backlight_power env else backlight_off env) d' = Some (d'\<lparr>lcd_gpio := g\<rparr>)"
    using backlight_works [OF assms, of d'] by (cases b) auto
  then have "panel_st7735_disp_on_off env b d = Some (LCD_ESP_OK, d'\<lparr>lcd_gpio := g\<rparr>)"
    using assms by (simp add: panel_st7735_disp_on_off_def send_returned_def tx_param_def lcd_works_def d'_def)
  then show ?thesis
    using d' by (auto simp: panel_mode_def)
qed

datatype display_op = Display_on | Display_sleep | Display_off

primrec display_exec :: "('g, 's) lcd_env \<Rightarrow> display_op \<Rightarrow> ('g, 's) display \<Rightarrow> (bool \<times> ('g, 's) display) option" where
  "display_exec env Display_on = display_on env"
| "display_exec env Display_sleep = display_sleep env"
| "display_exec env Display_off = display_off env"

text \<open>The operations in a row; switching off is left out while the display sleeps.\<close>

primrec display_run :: "('g, 's) lcd_env \<Rightarrow> display_op list \<Rightarrow> ('g, 's) display \<Rightarrow> ('g, 's) display option" where
  "display_run env [] d = Some d"
| "display_run env (op # ops) d =
     (if op = Display_off \<and> fsm_state d = DISPLAY_STATE_SLEEP then display_run env ops d
      else do { (success, d1) \<leftarrow> display_exec env op d; display_run env ops d1 })"

text \<open>The state the display is meant to be in after an operation.\<close>

fun fsm_next :: "display_op \<Rightarrow> display_state \<Rightarrow> display_state" where
  "fsm_next Display_on st = DISPLAY_STATE_ON"
| "fsm_next Display_sleep st = (if st = DISPLAY_STATE_OFF then DISPLAY_STATE_OFF else DISPLAY_STATE_SLEEP)"
| "fsm_next Display_off st = (if st = DISPLAY_STATE_SLEEP then DISPLAY_STATE_SLEEP else DISPLAY_STATE_OFF)"

lemma display_exec_works:
  assumes w: "lcd_works env" and b: "lcd_balanced env (lcd_lock d)" and ok: "display_ok d"
    and off: "\<not> (op = Display_off \<and> fsm_state d = DISPLAY_STATE_SLEEP)"
  shows "\<exists>r d1. display_exec env op d = Some (r, d1) \<and> display_ok d1 \<and> lcd_lock d1 = lcd_lock d \<and>
    fsm_state d1 = fsm_next op (fsm_state d) \<and> (off_is_dark d \<or> op = Display_on \<longrightarrow> off_is_dark d1)"
proof -
  obtain p where p: "panel_handle d = Some p" using ok by (auto simp: display_ok_def)
  have frames: "panel_mode (d\<lparr>fsm_state := x\<rparr>) = panel_mode d" for x by (simp add: panel_mode_def)
  note sl = panel_sleep_works [OF w, of "d\<lparr>fsm_state := x\<rparr>" p for x]
  note oo = panel_on_off_works [OF w, of b "d\<lparr>fsm_state := x\<rparr>" for b x]
  show ?thesis
  proof (cases op)
    case Display_on
    then show ?thesis
      using p b ok sl(2) [of DISPLAY_STATE_ON] oo [of True DISPLAY_STATE_ON]
      by (cases "fsm_state d") (auto simp: display_on_def display_wakeup_def with_panel_def fsm_display_state_transition_def roll_back_def
          display_ok_def off_is_dark_def frames simp del: map_option_eq_Some)
  next
    case Display_sleep
    then show ?thesis
      using p b ok sl(1) [of DISPLAY_STATE_SLEEP]
      by (cases "fsm_state d") (auto simp: display_sleep_def with_panel_def fsm_display_state_transition_def roll_back_def display_ok_def off_is_dark_def frames simp del: map_option_eq_Some)
  next
    case Display_off
    then show ?thesis
      using p b ok off oo [of False DISPLAY_STATE_OFF]
      by (cases "fsm_state d") (auto simp: display_off_def with_panel_def fsm_display_state_transition_def roll_back_def display_ok_def off_is_dark_def frames simp del: map_option_eq_Some)
  qed
qed

text \<open>
  C20: the panel follows the state machine. On a working link, any sequence of the three operations that does not
  switch off a sleeping display takes the state machine where the operations mean it to go and keeps the panel with
  it: in state ON the controller is awake and shows the image, in state SLEEP it is asleep and dark, in state OFF it
  is awake and dark; and the sleep lock is back where it was. Only from the start until the display is first
  switched on, state OFF may find the panel still showing what the initial commands left (\<open>init_display_shows\<close>).
\<close>

theorem display_follows_fsm:
  assumes "lcd_works env" and "lcd_balanced env (lcd_lock d)" and "display_ok d"
  shows "\<exists>d'. display_run env ops d = Some d' \<and> fsm_state d' = fold fsm_next ops (fsm_state d) \<and> display_ok d' \<and>
    (off_is_dark d \<or> Display_on \<in> set ops \<longrightarrow> off_is_dark d') \<and> lcd_lock d' = lcd_lock d"
  using assms
proof (induction ops arbitrary: d)
  case (Cons op ops)
  show ?case
  proof (cases "op = Display_off \<and> fsm_state d = DISPLAY_STATE_SLEEP")
    case True
    then show ?thesis
      using Cons.IH [OF Cons.prems] by auto
  next
    case False
    then obtain r d1 where d1: "display_exec env op d = Some (r, d1)" "display_ok d1" "lcd_lock d1 = lcd_lock d"
      "fsm_state d1 = fsm_next op (fsm_state d)" "off_is_dark d \<or> op = Display_on \<longrightarrow> off_is_dark d1"
      using display_exec_works [OF Cons.prems, of op] by blast
    obtain d' where "display_run env ops d1 = Some d'" "fsm_state d' = fold fsm_next ops (fsm_state d1)" "display_ok d'"
      "off_is_dark d1 \<or> Display_on \<in> set ops \<longrightarrow> off_is_dark d'" "lcd_lock d' = lcd_lock d1"
      using Cons.IH [of d1] Cons.prems d1 by auto
    then show ?thesis
      using d1 False by auto
  qed
qed simp

text \<open>Where the sequence starts: after a successful initialisation.\<close>

definition init_ops :: "lcd_init_cmd list \<Rightarrow> lcd_op list" where
  "init_ops cs = concat (map (\<lambda>c. cmd_ops (ic_cmd c, ic_data c, ic_delay_ms c)) cs)"

lemma init_cmds_work:
  assumes "lcd_works env" and "list_all (\<lambda>c. ic_data c \<noteq> []) cs"
  shows "\<exists>p'. mfold (init_cmd_step env) cs (p, d) = Some (p', d\<lparr>lcd_log := lcd_log d @ init_ops cs\<rparr>)"
  using assms(2)
proof (induction cs arbitrary: p d)
  case (Cons c cs)
  then obtain b bs where "ic_data c = b # bs"
    by (cases "ic_data c") auto
  then have "\<exists>p1. init_cmd_step env c (p, d) = Some (p1, d\<lparr>lcd_log := lcd_log d @ cmd_ops (ic_cmd c, ic_data c, ic_delay_ms c)\<rparr>)"
    using tx_checked_works [OF assms(1)] by (simp add: init_cmd_step_def rd_def)
  then obtain p1 where p1: "init_cmd_step env c (p, d) = Some (p1, d\<lparr>lcd_log := lcd_log d @ cmd_ops (ic_cmd c, ic_data c, ic_delay_ms c)\<rparr>)"
    by blast
  show ?case
    using Cons.IH [of p1 "d\<lparr>lcd_log := lcd_log d @ cmd_ops (ic_cmd c, ic_data c, ic_delay_ms c)\<rparr>"] Cons.prems p1
    by (simp add: init_ops_def)
qed (simp add: init_ops_def)

lemma table_shows: "fold controller (init_ops st7735_init_cmds) m = (True, True)"
  by (cases m) (simp add: init_ops_def st7735_init_cmds_def cmd_ops_def controller_def lcd_cmds TFT_INIT_DELAY_def)

lemma init_display_shows:
  assumes w: "lcd_works env" and b: "lcd_balanced env (lcd_lock d)"
  shows "\<exists>d'. init_display env True True True cb d = Some d' \<and> display_ok d' \<and> fsm_state d' = DISPLAY_STATE_OFF \<and>
    \<not> off_is_dark d' \<and> lcd_lock d' = lcd_lock d"
proof -
  define d0 where "d0 = lcd_emit Rst_config (d\<lparr>flush_callback := cb, io_handle := True\<rparr>)"
  obtain p0 where p0: "esp_lcd_new_panel_st7735 True True True display_panel_config (d\<lparr>flush_callback := cb, io_handle := True\<rparr>)
      = (LCD_ESP_OK, Some p0, d0)" "init_cmds_of p0 = None" "reset_gpio_num p0 \<ge> 0"
    by (simp add: esp_lcd_new_panel_st7735_def display_panel_config_def d0_def)
  obtain d1 where d1: "panel_st7735_reset env p0 d0 = Some d1" "lcd_lock d1 = lcd_lock d"
    using b p0(3) by (auto simp: panel_st7735_reset_def lcd_locked_def lcd_emit_def lcd_balanced_def d0_def)
  define a where "a = sleep_lock_service_acquire_lock (lcd_lock_impl env) (lcd_lock d)"
  define ops where "ops = concat (map cmd_ops [(ST7735_SLPOUT, [], 100), (ST7735_MADCTL, [madctl_val p0], 0), (ST7735_COLMOD, [colmod_val p0], 0)])"
  have "list_all (\<lambda>c. ic_data c \<noteq> []) st7735_init_cmds"
    by (simp add: st7735_init_cmds_def gamma_p_def gamma_n_def)
  then obtain p1 where p1: "mfold (init_cmd_step env) st7735_init_cmds (p0, d1\<lparr>lcd_lock := a, lcd_log := lcd_log d1 @ ops\<rparr>)
      = Some (p1, d1\<lparr>lcd_lock := a, lcd_log := (lcd_log d1 @ ops) @ init_ops st7735_init_cmds\<rparr>)"
    using init_cmds_work [OF w, of st7735_init_cmds p0 "d1\<lparr>lcd_lock := a, lcd_log := lcd_log d1 @ ops\<rparr>"] by auto
  let ?d2 = "d1\<lparr>lcd_lock := lcd_lock d, lcd_log := lcd_log d1 @ ops @ init_ops st7735_init_cmds\<rparr>"
  have "panel_st7735_init env p0 d1 = Some (p1, ?d2)"
    using p1 p0(2) b d1(2) unfolding panel_st7735_init_def
    by (simp add: tx_checked_works [OF w] ops_def a_def lcd_balanced_def del: mfold.simps)
  moreover obtain p2 where "panel_st7735_mirror env False False p1 ?d2 = (LCD_ESP_OK, p2, lcd_emit (Tx_param ST7735_MADCTL [madctl_val p2]) ?d2)"
    using w by (simp add: panel_st7735_mirror_def send_returned_def tx_param_def lcd_works_def Let_def)
  ultimately have "init_display env True True True cb d =
      Some (init_fsm ((lcd_emit (Tx_param ST7735_MADCTL [madctl_val p2]) ?d2)\<lparr>panel_handle := Some p2\<rparr>))"
    using p0(1) d1(1) by (simp add: init_display_def)
  moreover have "fold controller (lcd_log d1 @ ops @ init_ops st7735_init_cmds @ [Tx_param ST7735_MADCTL [x]]) m = (True, True)" for x m
    using table_shows by (simp add: controller_def lcd_cmds)
  ultimately show ?thesis
    by (simp add: init_fsm_def lcd_emit_def display_ok_def off_is_dark_def panel_mode_def)
qed

text \<open>
  Switching off a sleeping display loses its state. If the command fails, the roll-back from OFF to SLEEP is
  itself refused, so the state machine says OFF; if it succeeds, switching on again reports success and the state
  machine says ON, but the controller has never been woken.
\<close>

lemma display_off_forgets_sleep:
  assumes "panel_handle d = Some p" and "fsm_state d = DISPLAY_STATE_SLEEP" and "\<not> fst (panel_mode d)"
  shows "(\<not> tx_ok env (lcd_log d) (Tx_param ST7735_DISPOFF []) \<longrightarrow>
       (\<exists>d1. display_off env d = Some (False, d1) \<and> fsm_state d1 = DISPLAY_STATE_OFF))
     \<and> (lcd_works env \<longrightarrow> (\<exists>d1 d2. display_off env d = Some (True, d1) \<and> display_on env d1 = Some (True, d2) \<and>
       fsm_state d2 = DISPLAY_STATE_ON \<and> \<not> fst (panel_mode d2)))"
proof (intro conjI impI)
  assume "\<not> tx_ok env (lcd_log d) (Tx_param ST7735_DISPOFF [])"
  then show "\<exists>d1. display_off env d = Some (False, d1) \<and> fsm_state d1 = DISPLAY_STATE_OFF"
    using assms(1,2) by (simp add: display_off_def with_panel_def fsm_display_state_transition_def panel_st7735_disp_on_off_def
        send_returned_def tx_param_def lcd_emit_def roll_back_def)
next
  assume w: "lcd_works env"
  obtain d1 where d1: "panel_st7735_disp_on_off env False (d\<lparr>fsm_state := DISPLAY_STATE_OFF\<rparr>) = Some (LCD_ESP_OK, d1)"
    "\<not> fst (panel_mode d1)" "panel_handle d1 = Some p" "fsm_state d1 = DISPLAY_STATE_OFF"
    using panel_on_off_works [OF w, of False "d\<lparr>fsm_state := DISPLAY_STATE_OFF\<rparr>"] assms by (auto simp: panel_mode_def)
  obtain d2 where d2: "panel_st7735_disp_on_off env True (d1\<lparr>fsm_state := DISPLAY_STATE_ON\<rparr>) = Some (LCD_ESP_OK, d2)"
    "\<not> fst (panel_mode d2)" "fsm_state d2 = DISPLAY_STATE_ON"
    using panel_on_off_works [OF w, of True "d1\<lparr>fsm_state := DISPLAY_STATE_ON\<rparr>"] d1 by (auto simp: panel_mode_def)
  have "display_off env d = Some (True, d1)" "display_on env d1 = Some (True, d2)"
    using assms(1,2) d1 d2 by (simp_all add: display_off_def display_on_def with_panel_def fsm_display_state_transition_def roll_back_def)
  then show "\<exists>d1 d2. display_off env d = Some (True, d1) \<and> display_on env d1 = Some (True, d2) \<and>
       fsm_state d2 = DISPLAY_STATE_ON \<and> \<not> fst (panel_mode d2)"
    using d2 by blast
qed

section \<open>The window of a bitmap\<close>

definition coord_of :: "byte list \<Rightarrow> nat" where "coord_of bs = 256 * unat (bs ! 0) + unat (bs ! 1)"

lemma coord_roundtrip:
  assumes "0 \<le> x" and "x < 65536"
  shows "coord_of (coord_bytes x) = nat x"
proof -
  have "x div 256 < 256" "0 \<le> x div 256" using assms by auto
  then have "unat (of_int (x div 256) :: byte) = nat (x div 256)" "unat (of_int x :: byte) = nat (x mod 256)"
    by (simp_all add: unsigned_of_int take_bit_eq_mod)
  then have "coord_of (coord_bytes x) = 256 * nat (x div 256) + nat (x mod 256)"
    by (simp add: coord_of_def coord_bytes_def)
  moreover have "x = 256 * (x div 256) + x mod 256" by simp
  ultimately show ?thesis using assms(1) by linarith
qed

text \<open>
  A bitmap is written to its rectangle. When all goes well, the panel is told exactly the first and the last
  column and row (moved by the gap) of the rectangle, and receives the bytes of as many pixels as the rectangle has.
\<close>

lemma draw_bitmap_window:
  assumes "panel_handle d = Some p" and "\<forall>ops op. tx_ok env ops op" and "0 \<le> x1 + x_gap p" "x1 < x2" "x2 + x_gap p \<le> 65536"
    and "0 \<le> y1 + y_gap p" "y1 < y2" "y2 + y_gap p \<le> 65536" and "fb_bits_per_pixel p = 8 * k"
  shows "\<exists>cols rows d'. display_draw_bitmap env x1 y1 x2 y2 d = Some d' \<and>
     lcd_log d' = lcd_log d @ [Tx_param ST7735_CASET cols, Tx_param ST7735_RASET rows, Tx_color (nat (x2 - x1) * nat (y2 - y1) * k)] \<and>
     coord_of (take 2 cols) = nat (x1 + x_gap p) \<and> coord_of (drop 2 cols) = nat (x2 + x_gap p - 1) \<and>
     coord_of (take 2 rows) = nat (y1 + y_gap p) \<and> coord_of (drop 2 rows) = nat (y2 + y_gap p - 1)"
proof -
  let ?cols = "coord_bytes (x1 + x_gap p) @ coord_bytes (x2 + x_gap p - 1)"
  let ?rows = "coord_bytes (y1 + y_gap p) @ coord_bytes (y2 + y_gap p - 1)"
  have "(x2 - x1) * (y2 - y1) * int (8 * k) div 8 = (x2 - x1) * (y2 - y1) * int k"
    by (simp add: algebra_simps)
  then have n: "nat ((x2 - x1) * (y2 - y1) * int (fb_bits_per_pixel p) div 8) = nat (x2 - x1) * nat (y2 - y1) * k"
    using assms(4,7,9) by (simp add: nat_mult_distrib)
  have two: "take 2 (coord_bytes a @ coord_bytes b) = coord_bytes a" "drop 2 (coord_bytes a @ coord_bytes b) = coord_bytes b" for a b
    by (simp_all add: coord_bytes_def)
  have "display_draw_bitmap env x1 y1 x2 y2 d = Some (d\<lparr>lcd_log := lcd_log d @
      [Tx_param ST7735_CASET ?cols, Tx_param ST7735_RASET ?rows, Tx_color (nat (x2 - x1) * nat (y2 - y1) * k)]\<rparr>)"
    using assms(1,2,4,7) n by (simp add: display_draw_bitmap_def panel_st7735_draw_bitmap_def tx_param_def lcd_emit_def)
  moreover have "coord_of (take 2 ?cols) = nat (x1 + x_gap p)" "coord_of (drop 2 ?cols) = nat (x2 + x_gap p - 1)"
    "coord_of (take 2 ?rows) = nat (y1 + y_gap p)" "coord_of (drop 2 ?rows) = nat (y2 + y_gap p - 1)"
    unfolding two using assms(3-8) by (simp_all add: coord_roundtrip)
  ultimately show ?thesis
    by (intro exI conjI) (assumption | simp)+
qed

section \<open>The display of the watch\<close>

text \<open>The backlight operations of the GPIO manager; its calls are collected.\<close>

definition gpio_lcd_env ::
  "(gpio_call \<Rightarrow> bool) \<Rightarrow> ('f, 'q, 'n) store_env \<Rightarrow> 's lock_impl \<Rightarrow> (lcd_op list \<Rightarrow> lcd_op \<Rightarrow> bool) \<Rightarrow>
   (gpio_call list \<times> gpio_sys \<times> ('f, 'q, 'z) runtime_scheme, 's) lcd_env" where
  "gpio_lcd_env ok se impl tx = \<lparr>tx_ok = tx,
     backlight_power = (\<lambda>(cs, s, r). map_option (\<lambda>(cs1, s1, r1). (cs @ cs1, s1, r1)) (gpio_manager_power_backlight ok se s r)),
     backlight_off = (\<lambda>(cs, s, r). map_option (\<lambda>cs1. (cs @ cs1, s, r)) (gpio_manager_backlight_off ok s)),
     lcd_lock_impl = impl\<rparr>"

lemma gpio_lcd_works:
  assumes "\<forall>c. ok c" and "\<forall>ops op. tx ops op"
  shows "lcd_works (gpio_lcd_env ok se impl tx)"
  using assms by (auto simp: lcd_works_def gpio_lcd_env_def gpio_manager_power_backlight_def gpio_manager_backlight_set_brightness_def
      gpio_manager_backlight_off_def checked_def list_all_iff split: prod.splits)

abbreviation ex_lcd_env :: "(gpio_call list \<times> gpio_sys \<times> (nat, nat \<times> nat work_item list) runtime, int) lcd_env" where
  "ex_lcd_env \<equiv> gpio_lcd_env (\<lambda>c. True) ex_store wakelock_impl (\<lambda>ops op. True)"

definition ex_panel :: st7735_panel where
  "ex_panel = \<lparr>reset_gpio_num = 13, reset_level = False, x_gap = 0, y_gap = 0, fb_bits_per_pixel = 16, madctl_val = 0, colmod_val = 5,
     init_cmds_of = None\<rparr>"

definition ex_display :: "display_state \<Rightarrow> lcd_op list \<Rightarrow> (gpio_call list \<times> gpio_sys \<times> (nat, nat \<times> nat work_item list) runtime, int) display" where
  "ex_display st ops = \<lparr>panel_handle = Some ex_panel, io_handle = True, flush_callback = True, fsm_state = st, lcd_log = ops,
     lcd_gpio = ([], ex_gpio, rt_static), lcd_lock = 0\<rparr>"

lemma ex_balanced: "lcd_balanced ex_lcd_env 0"
  by (simp add: lcd_balanced_def gpio_lcd_env_def wakelock_impl_def sleep_lock_service_acquire_lock_def sleep_lock_service_release_lock_def
      wakelock_manager_acquire_wakelock_def wakelock_manager_release_wakelock_def s32_id)

lemma ex_works: "lcd_works ex_lcd_env"
  by (rule gpio_lcd_works) simp_all

theorem display_follows_fsm_witness:
  "\<exists>d'. display_run ex_lcd_env [Display_on, Display_sleep, Display_on, Display_off] (ex_display DISPLAY_STATE_OFF [Tx_param ST7735_SLPOUT []]) = Some d' \<and>
     fsm_state d' = DISPLAY_STATE_OFF \<and> display_ok d' \<and> off_is_dark d' \<and> lcd_lock d' = 0"
  using display_follows_fsm [OF ex_works, of "ex_display DISPLAY_STATE_OFF [Tx_param ST7735_SLPOUT []]" "[Display_on, Display_sleep, Display_on, Display_off]"]
    ex_balanced
  by (simp add: ex_display_def display_ok_def panel_mode_def controller_def lcd_cmds del: display_run.simps)

lemma display_off_forgets_sleep_witness:
  "\<exists>d1 d2. display_off ex_lcd_env (ex_display DISPLAY_STATE_SLEEP [Tx_param ST7735_SLPIN []]) = Some (True, d1) \<and>
     display_on ex_lcd_env d1 = Some (True, d2) \<and> fsm_state d2 = DISPLAY_STATE_ON \<and> \<not> fst (panel_mode d2)"
  using display_off_forgets_sleep [of "ex_display DISPLAY_STATE_SLEEP [Tx_param ST7735_SLPIN []]" ex_panel ex_lcd_env] ex_works
  by (simp add: ex_display_def panel_mode_def controller_def lcd_cmds)

lemma draw_bitmap_window_witness:
  "\<exists>cols rows d'. display_draw_bitmap ex_lcd_env 2 1 130 129 (ex_display DISPLAY_STATE_ON []) = Some d' \<and>
     lcd_log d' = [Tx_param ST7735_CASET cols, Tx_param ST7735_RASET rows, Tx_color 32768] \<and>
     coord_of (take 2 cols) = 2 \<and> coord_of (drop 2 cols) = 129"
  using draw_bitmap_window [of "ex_display DISPLAY_STATE_ON []" ex_panel ex_lcd_env 2 130 1 129 2]
  by (simp add: ex_display_def ex_panel_def gpio_lcd_env_def) blast

end
