(* ===== verification/Navigation.thy ===== *)
theory Navigation
  imports Prelude "HOL-Library.Sublist"
begin

text \<open>
  The focus navigation of \<open>ui_base/src/navigation.c\<close>: the searches for the first focusable child, the nearest
  focusable ancestor, and the next and previous focusable object under that ancestor.

  The widget tree belongs to LVGL and is an argument: an object carries an identity (its address), the group it is
  in and its children in index order. The default group is an argument as well; it may be missing. The parent
  pointers of the library are the path from an object to the screen, \<open>ancestors\<close>.
\<close>

section \<open>Objects\<close>

datatype lv_obj = Obj (obj_id: nat) (obj_group: "nat option") (lv_children: "lv_obj list")

primrec nodes :: "lv_obj \<Rightarrow> lv_obj list" where
  "nodes (Obj i h cs) = Obj i h cs # concat (map nodes cs)"

text \<open>The chain of parents of the object \<open>x\<close> below \<open>obj\<close>, nearest first.\<close>

primrec ancestors :: "nat \<Rightarrow> lv_obj \<Rightarrow> lv_obj list option"
  and ancestors_list :: "nat \<Rightarrow> lv_obj list \<Rightarrow> lv_obj list option" where
  "ancestors x (Obj i h cs) =
     (if i = x then Some [] else map_option (\<lambda>ps. ps @ [Obj i h cs]) (ancestors_list x cs))"
| "ancestors_list x [] = None"
| "ancestors_list x (c # cs) = (case ancestors x c of Some ps \<Rightarrow> Some ps | None \<Rightarrow> ancestors_list x cs)"

section \<open>Operations\<close>

primrec first_focusable_child :: "nat option \<Rightarrow> lv_obj \<Rightarrow> lv_obj option"
  and first_focusable_in :: "nat option \<Rightarrow> lv_obj list \<Rightarrow> lv_obj option" where
  "first_focusable_child g (Obj i h cs) = (if g = None then None else first_focusable_in g cs)"
| "first_focusable_in g [] = None"
| "first_focusable_in g (c # cs) =
     (if obj_group c = g then Some c
      else case first_focusable_child g c of Some found \<Rightarrow> Some found | None \<Rightarrow> first_focusable_in g cs)"

definition find_first_focusable_child_dfs :: "nat option \<Rightarrow> lv_obj option \<Rightarrow> lv_obj option" where
  "find_first_focusable_child_dfs g root = (case root of None \<Rightarrow> None | Some obj \<Rightarrow> first_focusable_child g obj)"

primrec parent_loop :: "nat option \<Rightarrow> lv_obj list \<Rightarrow> lv_obj option" where
  "parent_loop g [] = None"
| "parent_loop g (parent # ps) = (if obj_group parent = g then Some parent else parent_loop g ps)"

definition find_first_focusable_parent_dfs :: "nat option \<Rightarrow> lv_obj \<Rightarrow> nat \<Rightarrow> lv_obj option" where
  "find_first_focusable_parent_dfs g scr x =
     (case ancestors x scr of None \<Rightarrow> None | Some ps \<Rightarrow> parent_loop g ps)"

text \<open>
  The scan threads the two out-parameters \<open>last_found_nav\<close> and \<open>origin_node_passed\<close>. A nested call that returns
  the null \<open>last_found_nav\<close> does not end the loop of its caller.
\<close>

primrec scan_subtree_focus_sequence ::
    "nat option \<Rightarrow> nat \<Rightarrow> bool \<Rightarrow> lv_obj \<Rightarrow> lv_obj option \<times> bool \<Rightarrow> lv_obj option \<times> lv_obj option \<times> bool"
  and scan_children ::
    "nat option \<Rightarrow> nat \<Rightarrow> bool \<Rightarrow> lv_obj list \<Rightarrow> lv_obj option \<times> bool \<Rightarrow> lv_obj option \<times> lv_obj option \<times> bool" where
  "scan_subtree_focus_sequence g cur fwd (Obj i h cs) st = scan_children g cur fwd cs st"
| "scan_children g cur fwd [] st = (None, st)"
| "scan_children g cur fwd (c # cs) st =
     (let (lst, passed) = st in
      if obj_group c = g then
        if fwd then
          if passed then (Some c, st)
          else scan_children g cur fwd cs (lst, obj_id c = cur)
        else
          if obj_id c = cur then (lst, st)
          else scan_children g cur fwd cs (Some c, passed)
      else case scan_subtree_focus_sequence g cur fwd c st of
          (Some target, st1) \<Rightarrow> (Some target, st1)
        | (None, st1) \<Rightarrow> scan_children g cur fwd cs st1)"

definition find_next_focusable_sibling :: "nat option \<Rightarrow> lv_obj \<Rightarrow> nat option \<Rightarrow> lv_obj option" where
  "find_next_focusable_sibling g scr obj = (case obj of None \<Rightarrow> None | Some x \<Rightarrow>
     (case find_first_focusable_parent_dfs g scr x of None \<Rightarrow> None
      | Some roof \<Rightarrow> fst (scan_subtree_focus_sequence g x True roof (None, False))))"

definition find_prev_focusable_sibling :: "nat option \<Rightarrow> lv_obj \<Rightarrow> nat option \<Rightarrow> lv_obj option" where
  "find_prev_focusable_sibling g scr obj = (case obj of None \<Rightarrow> None | Some x \<Rightarrow>
     (case find_first_focusable_parent_dfs g scr x of None \<Rightarrow> None
      | Some roof \<Rightarrow> fst (scan_subtree_focus_sequence g x False roof (None, False))))"

section \<open>Reference order\<close>

text \<open>
  The focus order below an object: the focusable objects that are reached without passing another focusable
  object, in the order of the tree.
\<close>

primrec nav_seq :: "nat option \<Rightarrow> lv_obj \<Rightarrow> lv_obj list" where
  "nav_seq g (Obj i h cs) = concat (map (\<lambda>c. if obj_group c = g then [c] else nav_seq g c) cs)"

definition nav_of :: "nat option \<Rightarrow> lv_obj list \<Rightarrow> lv_obj list" where
  "nav_of g cs = concat (map (\<lambda>c. if obj_group c = g then [c] else nav_seq g c) cs)"

lemma nav_of_simps [simp]:
  "nav_of g [] = []"
  "nav_of g (c # cs) = (if obj_group c = g then [c] else nav_seq g c) @ nav_of g cs"
  by (simp_all add: nav_of_def)

lemma nav_seq_nav_of [simp]: "nav_seq g (Obj i h cs) = nav_of g cs"
  by (simp add: nav_of_def)

declare nav_seq.simps [simp del]

definition first_of :: "'a list \<Rightarrow> 'a option" where
  "first_of xs = (case xs of [] \<Rightarrow> None | x # _ \<Rightarrow> Some x)"

definition after :: "nat \<Rightarrow> lv_obj list \<Rightarrow> lv_obj option" where
  "after x ns = (case dropWhile (\<lambda>n. obj_id n \<noteq> x) ns of n # m # _ \<Rightarrow> Some m | _ \<Rightarrow> None)"

primrec before :: "lv_obj option \<Rightarrow> nat \<Rightarrow> lv_obj list \<Rightarrow> lv_obj option" where
  "before l x [] = None"
| "before l x (n # ns) = (if obj_id n = x then l else before (Some n) x ns)"

definition last_or :: "lv_obj option \<Rightarrow> lv_obj list \<Rightarrow> lv_obj option" where
  "last_or l ns = (if ns = [] then l else Some (last ns))"

lemma first_of_simps [simp]: "first_of [] = None" "first_of (x # xs) = Some x"
  by (simp_all add: first_of_def)

lemma first_of_append: "first_of (xs @ ys) = (case first_of xs of None \<Rightarrow> first_of ys | Some x \<Rightarrow> Some x)"
  by (cases xs) simp_all

lemma first_focusable_child_spec:
  "g \<noteq> None \<Longrightarrow> first_focusable_child g obj = first_of (nav_seq g obj)"
  "g \<noteq> None \<Longrightarrow> first_focusable_in g cs = first_of (nav_of g cs)"
  by (induction obj and cs rule: first_focusable_child.induct first_focusable_in.induct)
    (auto simp: first_of_append split: option.splits)

abbreviation ids :: "lv_obj list \<Rightarrow> nat set" where
  "ids ns \<equiv> obj_id ` set ns"

lemma after_append:
  "after x (ms @ ns) = (if x \<in> ids ms then (case after x ms of None \<Rightarrow> first_of ns | Some m \<Rightarrow> Some m) else after x ns)"
  if "distinct (map obj_id (ms @ ns))"
proof (cases "x \<in> ids ms")
  case True
  then obtain as m bs where ms: "ms = as @ m # bs" "obj_id m = x" and as: "\<forall>a \<in> set as. obj_id a \<noteq> x"
    using split_list_first_prop [of ms "\<lambda>m. obj_id m = x"] by auto
  then have "dropWhile (\<lambda>n. obj_id n \<noteq> x) (as @ m # zs) = m # zs" for zs
    by simp
  then show ?thesis
    using ms True by (cases bs) (simp_all add: after_def first_of_def split: list.splits)
next
  case False
  then have "dropWhile (\<lambda>n. obj_id n \<noteq> x) (ms @ ns) = dropWhile (\<lambda>n. obj_id n \<noteq> x) ns"
    by (induction ms) auto
  then show ?thesis
    using False by (simp add: after_def)
qed

lemma after_notin: "x \<notin> ids ns \<Longrightarrow> after x ns = None"
proof -
  assume "x \<notin> ids ns"
  then have "dropWhile (\<lambda>n. obj_id n \<noteq> x) ns = []" by auto
  then show ?thesis by (simp only: after_def list.case)
qed

lemma before_append:
  "before l x (ms @ ns) = (if x \<in> ids ms then before l x ms else before (last_or l ms) x ns)"
  by (induction ms arbitrary: l) (auto simp: last_or_def)

lemma before_notin: "x \<notin> ids ns \<Longrightarrow> before l x ns = None"
  by (induction ns arbitrary: l) auto

text \<open>The forward scan: before the origin it looks for it, behind it the first focusable object is the answer.\<close>

definition fwd_result :: "nat \<Rightarrow> bool \<Rightarrow> lv_obj list \<Rightarrow> lv_obj option" where
  "fwd_result x passed ns = (if passed then first_of ns else after x ns)"

lemma fwd_result_append:
  assumes "distinct (map obj_id (ms @ ns))"
  shows "fwd_result x p (ms @ ns) =
    (case fwd_result x p ms of Some r \<Rightarrow> Some r | None \<Rightarrow> fwd_result x (p \<or> x \<in> ids ms) ns)"
  using after_append [OF assms] by (auto simp: fwd_result_def first_of_append after_notin split: option.splits)

lemma scan_forward_spec:
  "distinct (map obj_id (nav_seq g obj)) \<Longrightarrow>
     fst (scan_subtree_focus_sequence g x True obj (l, p)) = fwd_result x p (nav_seq g obj) \<and>
     (fwd_result x p (nav_seq g obj) = None \<longrightarrow>
        snd (scan_subtree_focus_sequence g x True obj (l, p)) = (l, p \<or> x \<in> ids (nav_seq g obj)))"
  "distinct (map obj_id (nav_of g cs)) \<Longrightarrow>
     fst (scan_children g x True cs (l, p)) = fwd_result x p (nav_of g cs) \<and>
     (fwd_result x p (nav_of g cs) = None \<longrightarrow>
        snd (scan_children g x True cs (l, p)) = (l, p \<or> x \<in> ids (nav_of g cs)))"
proof (induction obj and cs arbitrary: l p and l p rule: scan_subtree_focus_sequence.induct scan_children.induct)
  case (Cons_lv_obj c cs)
  show ?case
  proof (cases "obj_group c = g")
    case True
    have "fwd_result x p ([c] @ nav_of g cs) =
        (case fwd_result x p [c] of Some r \<Rightarrow> Some r | None \<Rightarrow> fwd_result x (p \<or> x \<in> ids [c]) (nav_of g cs))"
      using Cons_lv_obj.prems True by (intro fwd_result_append) simp
    then show ?thesis
      using True Cons_lv_obj.IH(2) [of l "obj_id c = x"] Cons_lv_obj.prems
      by (cases p; cases "obj_id c = x") (auto simp: fwd_result_def after_def)
  next
    case False
    obtain r st where r: "scan_subtree_focus_sequence g x True c (l, p) = (r, st)"
      by (cases "scan_subtree_focus_sequence g x True c (l, p)")
    have c: "r = fwd_result x p (nav_seq g c)" "r = None \<longrightarrow> st = (l, p \<or> x \<in> ids (nav_seq g c))"
      using Cons_lv_obj.IH(1) [of l p] Cons_lv_obj.prems False r by auto
    have "fwd_result x p (nav_seq g c @ nav_of g cs) =
        (case r of Some r \<Rightarrow> Some r | None \<Rightarrow> fwd_result x (p \<or> x \<in> ids (nav_seq g c)) (nav_of g cs))"
      unfolding c(1) using Cons_lv_obj.prems False by (intro fwd_result_append) simp
    then show ?thesis
      using False r c(2) Cons_lv_obj.IH(2) [of l "p \<or> x \<in> ids (nav_seq g c)"] Cons_lv_obj.prems
      by (cases r) (auto simp: image_Un)
  qed
qed (auto simp: fwd_result_def after_def)

lemma scan_backward_spec:
  "distinct (map obj_id (nav_seq g obj)) \<Longrightarrow>
     fst (scan_subtree_focus_sequence g x False obj (l, p)) = before l x (nav_seq g obj) \<and>
     (x \<notin> ids (nav_seq g obj) \<longrightarrow> snd (scan_subtree_focus_sequence g x False obj (l, p)) = (last_or l (nav_seq g obj), p))"
  "distinct (map obj_id (nav_of g cs)) \<Longrightarrow>
     fst (scan_children g x False cs (l, p)) = before l x (nav_of g cs) \<and>
     (x \<notin> ids (nav_of g cs) \<longrightarrow> snd (scan_children g x False cs (l, p)) = (last_or l (nav_of g cs), p))"
proof (induction obj and cs arbitrary: l p and l p rule: scan_subtree_focus_sequence.induct scan_children.induct)
  case (Cons_lv_obj c cs)
  show ?case
  proof (cases "obj_group c = g")
    case True
    then show ?thesis
      using Cons_lv_obj.IH(2) [of "Some c" p] Cons_lv_obj.prems by (auto simp: last_or_def)
  next
    case False
    obtain r l1 p1 where r: "scan_subtree_focus_sequence g x False c (l, p) = (r, l1, p1)"
      by (cases "scan_subtree_focus_sequence g x False c (l, p)")
    have c: "r = before l x (nav_seq g c)" "x \<notin> ids (nav_seq g c) \<Longrightarrow> l1 = last_or l (nav_seq g c) \<and> p1 = p"
      using Cons_lv_obj.IH(1) [of l p] Cons_lv_obj.prems False r by auto
    have cs: "fst (scan_children g x False cs (l', p')) = before l' x (nav_of g cs) \<and>
        (x \<notin> ids (nav_of g cs) \<longrightarrow> snd (scan_children g x False cs (l', p')) = (last_or l' (nav_of g cs), p'))" for l' p'
      using Cons_lv_obj.IH(2) [of l' p'] Cons_lv_obj.prems by simp
    show ?thesis
    proof (cases "x \<in> ids (nav_seq g c)")
      case True
      then have "x \<notin> ids (nav_of g cs)"
        using Cons_lv_obj.prems False by auto
      then show ?thesis
        using True False r c(1) [symmetric] cs by (cases r) (auto simp: before_append before_notin)
    next
      case nc: False
      then have "r = None" "l1 = last_or l (nav_seq g c)" "p1 = p"
        using c by (simp_all add: before_notin)
      then show ?thesis
        using nc False r cs [of l1 p1] by (auto simp: before_append last_or_def)
    qed
  qed
qed (auto simp: last_or_def)

section \<open>Paths\<close>

lemma nodes_self [simp]: "obj \<in> set (nodes obj)"
  by (cases obj) simp

lemma nodes_children: "set (nodes obj) = insert obj (\<Union>c \<in> set (lv_children obj). set (nodes c))"
  by (cases obj) simp

lemma nodes_sub: "r \<in> set (nodes obj) \<Longrightarrow> set (nodes r) \<subseteq> set (nodes obj)"
proof (induction obj)
  case (Obj i h cs)
  then show ?case
  proof (cases "r = Obj i h cs")
    case False
    then obtain c where c: "c \<in> set cs" "r \<in> set (nodes c)"
      using Obj.prems by auto
    then show ?thesis
      using Obj.IH [OF c] by auto
  qed simp
qed

lemma subseq_concat_map:
  assumes "\<And>c. c \<in> set cs \<Longrightarrow> subseq (f c) (h c)"
  shows "subseq (concat (map f cs)) (concat (map h cs))"
  using assms by (induction cs) (auto intro: list_emb_append_mono)

lemma nav_seq_subseq: "subseq (nav_seq g obj) (concat (map nodes (lv_children obj)))"
proof (induction obj)
  case (Obj i h cs)
  have "subseq (if obj_group c = g then [c] else nav_seq g c) (nodes c)" if "c \<in> set cs" for c
  proof (cases c)
    case (Obj j k ds)
    have "subseq (nav_seq g c) (nodes c)"
      using Obj.IH [OF that] unfolding \<open>c = Obj j k ds\<close> by auto
    then show ?thesis
      by (auto simp: Obj subseq_singleton_left)
  qed
  then show ?case
    unfolding nav_seq_nav_of nav_of_def lv_obj.sel by (rule subseq_concat_map)
qed

lemma subseq_distinct_ids: "subseq xs ys \<Longrightarrow> distinct ys \<Longrightarrow> distinct xs"
  by (induction rule: list_emb.induct) (auto dest: list_emb_set)

lemma distinct_nav_seq:
  assumes "distinct (map obj_id (nodes obj))"
  shows "distinct (map obj_id (nav_seq g obj))"
proof (cases obj)
  case (Obj i h cs)
  have "subseq (nav_seq g obj) (nodes obj)"
    using nav_seq_subseq [of g obj] Obj by auto
  then show ?thesis
    using assms subseq_map [of "nav_seq g obj" "nodes obj" obj_id] by (auto dest: subseq_distinct_ids)
qed

lemma nav_seq_nodes: "n \<in> set (nav_seq g obj) \<Longrightarrow> n \<in> set (nodes obj) \<and> obj_group n = g"
proof (induction obj)
  case (Obj i h cs)
  then show ?case
    by (fastforce simp: nav_of_def split: if_splits)
qed

lemma same_id:
  "distinct (map obj_id (nodes obj)) \<Longrightarrow> n \<in> set (nodes obj) \<Longrightarrow> m \<in> set (nodes obj) \<Longrightarrow> obj_id n = obj_id m \<Longrightarrow> n = m"
  by (auto simp: distinct_map dest: inj_onD)

lemma distinct_child:
  "distinct (map obj_id (nodes (Obj i h cs))) \<Longrightarrow> c \<in> set cs \<Longrightarrow>
     distinct (map obj_id (nodes c)) \<and> (\<forall>n \<in> set (nodes c). obj_id n \<noteq> i)"
  by (induction cs) auto

lemma distinct_node:
  "distinct (map obj_id (nodes obj)) \<Longrightarrow> r \<in> set (nodes obj) \<Longrightarrow> distinct (map obj_id (nodes r))"
proof (induction obj)
  case (Obj i h cs)
  then show ?case
    using distinct_child [OF Obj.prems(1)] by (cases "r = Obj i h cs") auto
qed

lemma ancestors_iff:
  "ancestors x obj = None \<longleftrightarrow> x \<notin> ids (nodes obj)"
  "ancestors_list x cs = None \<longleftrightarrow> x \<notin> ids (concat (map nodes cs))"
  by (induction obj and cs rule: ancestors.induct ancestors_list.induct) (auto split: option.splits)

lemma ancestors_list_unique:
  assumes "distinct (map obj_id (concat (map nodes cs)))" "c \<in> set cs" "x \<in> ids (nodes c)"
  shows "ancestors_list x cs = ancestors x c"
  using assms
proof (induction cs)
  case (Cons d cs)
  show ?case
  proof (cases "d = c")
    case True
    then show ?thesis
      using Cons.prems ancestors_iff(1) [of x c] by (auto split: option.splits)
  next
    case False
    then have "x \<in> ids (concat (map nodes cs))"
      using Cons.prems by auto
    then have "x \<notin> ids (nodes d)"
      using Cons.prems(1) by auto
    then have "ancestors x d = None"
      by (simp add: ancestors_iff)
    then show ?thesis
      using Cons False by auto
  qed
qed simp

text \<open>The path of an object below \<open>r\<close> continues with the path of \<open>r\<close>.\<close>

lemma ancestors_through:
  assumes "distinct (map obj_id (nodes obj))" "r \<in> set (nodes obj)" "ancestors x r = Some ps"
  shows "\<exists>qs. ancestors x obj = Some (ps @ qs)"
  using assms
proof (induction obj)
  case (Obj i h cs)
  have x: "x \<in> ids (nodes r)"
    using Obj.prems(3) ancestors_iff(1) [of x r] by auto
  show ?case
  proof (cases "r = Obj i h cs")
    case False
    then obtain c where c: "c \<in> set cs" "r \<in> set (nodes c)"
      using Obj.prems(2) by auto
    have "set (nodes r) \<subseteq> set (nodes c)"
      using c(2) by (rule nodes_sub)
    then have xc: "x \<in> ids (nodes c)"
      using x by auto
    have "distinct (map obj_id (nodes c))"
      using distinct_child [OF Obj.prems(1) c(1)] by blast
    then obtain qs where "ancestors x c = Some (ps @ qs)"
      using Obj.IH [OF c(1) _ c(2)] Obj.prems(3) by blast
    moreover have "ancestors_list x cs = ancestors x c"
      using Obj.prems(1) c(1) xc by (intro ancestors_list_unique) auto
    moreover have "i \<noteq> x"
      using Obj.prems(1) c(1) xc by auto
    ultimately show ?thesis
      by simp
  qed (use Obj.prems in auto)
qed

lemma parent_loop_append:
  "parent_loop g (ps @ qs) = (case parent_loop g ps of None \<Rightarrow> parent_loop g qs | Some p \<Rightarrow> Some p)"
  by (induction ps) auto

lemma nav_boundary:
  assumes "distinct (map obj_id (nodes obj))" "x \<in> ids (nav_seq g obj)"
  shows "\<exists>ps. ancestors x obj = Some (ps @ [obj]) \<and> parent_loop g ps = None"
  using assms
proof (induction obj)
  case (Obj i h cs)
  obtain c n where c: "c \<in> set cs" "n \<in> set (if obj_group c = g then [c] else nav_seq g c)" "x = obj_id n"
    using Obj.prems(2) by (auto simp: nav_of_def)
  have d: "distinct (map obj_id (nodes c))" "\<forall>n \<in> set (nodes c). obj_id n \<noteq> i"
    using distinct_child [OF Obj.prems(1) c(1)] by auto
  have n: "n \<in> set (nodes c)"
    using c(2) nav_seq_nodes [of n g c] by (auto split: if_splits)
  then have "ancestors_list x cs = ancestors x c" "i \<noteq> x"
    using Obj.prems(1) c d by (auto intro: ancestors_list_unique)
  moreover have "\<exists>ps. ancestors x c = Some ps \<and> parent_loop g ps = None"
  proof (cases "obj_group c = g")
    case True
    then show ?thesis using c by (cases c) auto
  next
    case False
    then show ?thesis
      using Obj.IH [OF c(1) d(1)] c by (auto simp: parent_loop_append)
  qed
  ultimately show ?case by auto
qed

lemma parent_of_nav:
  assumes "distinct (map obj_id (nodes scr))" "r \<in> set (nodes scr)" "obj_group r = g" "x \<in> ids (nav_seq g r)"
  shows "find_first_focusable_parent_dfs g scr x = Some r"
proof -
  obtain ps where "ancestors x r = Some (ps @ [r])" "parent_loop g ps = None"
    using nav_boundary [OF distinct_node [OF assms(1,2)] assms(4)] by blast
  moreover obtain qs where "ancestors x scr = Some ((ps @ [r]) @ qs)"
    using ancestors_through [OF assms(1,2)] calculation by blast
  ultimately show ?thesis
    using assms(3) by (simp add: find_first_focusable_parent_dfs_def parent_loop_append)
qed

lemma roof_contains_aux:
  assumes "distinct (map obj_id (nodes obj))" "n \<in> set (nodes obj)" "obj_group n = g" "ancestors (obj_id n) obj = Some ps"
  shows "case parent_loop g ps of
      Some r \<Rightarrow> r \<in> set (nodes obj) \<and> obj_group r = g \<and> n \<in> set (nav_seq g r)
    | None \<Rightarrow> n \<noteq> obj \<longrightarrow> n \<in> set (nav_seq g obj)"
  using assms
proof (induction obj arbitrary: ps)
  case (Obj i h cs)
  let ?obj = "Obj i h cs"
  show ?case
  proof (cases "n = ?obj")
    case False
    then obtain c where c: "c \<in> set cs" "n \<in> set (nodes c)"
      using Obj.prems(2) by auto
    have d: "distinct (map obj_id (nodes c))" "obj_id n \<noteq> i"
      using distinct_child [OF Obj.prems(1) c(1)] c(2) by auto
    have "ancestors_list (obj_id n) cs = ancestors (obj_id n) c"
      using Obj.prems(1) c by (intro ancestors_list_unique) auto
    then obtain qs where qs: "ancestors (obj_id n) c = Some qs" "ps = qs @ [?obj]"
      using Obj.prems(4) d(2) by auto
    have IH: "case parent_loop g qs of
        Some r \<Rightarrow> r \<in> set (nodes c) \<and> obj_group r = g \<and> n \<in> set (nav_seq g r)
      | None \<Rightarrow> n \<noteq> c \<longrightarrow> n \<in> set (nav_seq g c)"
      using Obj.IH [OF c(1) d(1) c(2) Obj.prems(3) qs(1)] .
    show ?thesis
    proof (cases "parent_loop g qs")
      case (Some r)
      then show ?thesis using IH c(1) by (auto simp: qs(2) parent_loop_append)
    next
      case None
      have "n = c" if "obj_group c = g"
      proof (rule ccontr)
        assume "n \<noteq> c"
        then have "obj_id n \<noteq> obj_id c" using same_id [OF d(1) c(2)] by auto
        then have "\<exists>zs. qs = zs @ [c]" using qs(1) by (cases c) auto
        then show False using None that by (auto simp: parent_loop_append split: option.splits)
      qed
      then have "n \<in> set (if obj_group c = g then [c] else nav_seq g c)"
        using IH None Obj.prems(3) by auto
      then have "n \<in> set (nav_seq g ?obj)"
        unfolding nav_seq_nav_of nav_of_def set_concat set_map using c(1) by blast
      then show ?thesis
        using None by (auto simp: qs(2) parent_loop_append simp del: nav_seq_nav_of)
    qed
  qed (use Obj.prems in auto)
qed

lemma roof_contains:
  assumes "distinct (map obj_id (nodes scr))" "n \<in> set (nodes scr)" "obj_group n = g"
    and "find_first_focusable_parent_dfs g scr (obj_id n) = Some r"
  shows "r \<in> set (nodes scr) \<and> obj_group r = g \<and> n \<in> set (nav_seq g r)"
proof -
  obtain ps where "ancestors (obj_id n) scr = Some ps" "parent_loop g ps = Some r"
    using assms(4) by (auto simp: find_first_focusable_parent_dfs_def split: option.splits)
  then show ?thesis
    using roof_contains_aux [OF assms(1-3)] by fastforce
qed

lemma siblings_at:
  assumes "distinct (map obj_id (nodes scr))" "r \<in> set (nodes scr)" "obj_group r = g" "nav_seq g r = as @ n # bs"
  shows "find_next_focusable_sibling g scr (Some (obj_id n)) = first_of bs"
    and "find_prev_focusable_sibling g scr (Some (obj_id n)) = last_or None as"
proof -
  have roof: "find_first_focusable_parent_dfs g scr (obj_id n) = Some r"
    using assms by (intro parent_of_nav) auto
  have d: "distinct (map obj_id (nav_seq g r))"
    using distinct_nav_seq [OF distinct_node [OF assms(1,2)]] .
  then have n: "obj_id n \<notin> ids as" "distinct (map obj_id (as @ n # bs))"
    by (auto simp: assms(4))
  have "after (obj_id n) (n # bs) = first_of bs"
    by (simp add: after_def first_of_def split: list.splits)
  then show "find_next_focusable_sibling g scr (Some (obj_id n)) = first_of bs"
    using scan_forward_spec(1) [OF d, of "obj_id n" None False] roof n after_append [OF n(2), of "obj_id n"]
    by (simp add: find_next_focusable_sibling_def fwd_result_def assms(4))
  show "find_prev_focusable_sibling g scr (Some (obj_id n)) = last_or None as"
    using scan_backward_spec(1) [OF d, of "obj_id n" None False] roof n
    by (simp add: find_prev_focusable_sibling_def before_append assms(4))
qed

section \<open>Properties\<close>

text \<open>
  The two scans compute the neighbours in the focus order. For every focusable object below a focusable
  ancestor, the object stands in the focus order of that ancestor, the next sibling is the object right behind it
  there and the previous sibling the one right before it, and there is none exactly at the ends.
\<close>

lemma siblings_are_neighbours:
  assumes "distinct (map obj_id (nodes scr))" and "n \<in> set (nodes scr)" and "obj_group n = g"
    and "find_first_focusable_parent_dfs g scr (obj_id n) = Some r"
  shows "\<exists>as bs. nav_seq g r = as @ n # bs \<and>
     find_next_focusable_sibling g scr (Some (obj_id n)) = (case bs of [] \<Rightarrow> None | m # _ \<Rightarrow> Some m) \<and>
     find_prev_focusable_sibling g scr (Some (obj_id n)) = (if as = [] then None else Some (last as))"
proof -
  have r: "r \<in> set (nodes scr)" "obj_group r = g" "n \<in> set (nav_seq g r)"
    using roof_contains [OF assms] by blast+
  then obtain as bs where "nav_seq g r = as @ n # bs"
    by (meson split_list)
  then show ?thesis
    using siblings_at [OF assms(1) r(1,2), of as n bs] by (auto simp: first_of_def last_or_def)
qed

text \<open>
  Every navigation step can be undone. On a screen with a default group, going to the next sibling and back,
  to the previous sibling and forth, or entering an object and leaving it ends at the object where it began.
\<close>

lemma navigation_undone:
  assumes "distinct (map obj_id (nodes scr))" and "n \<in> set (nodes scr)" and "obj_group n = Some k"
  shows "(find_next_focusable_sibling (Some k) scr (Some (obj_id n)) = Some m \<longrightarrow>
            find_prev_focusable_sibling (Some k) scr (Some (obj_id m)) = Some n) \<and>
     (find_prev_focusable_sibling (Some k) scr (Some (obj_id n)) = Some m \<longrightarrow>
            find_next_focusable_sibling (Some k) scr (Some (obj_id m)) = Some n) \<and>
     (find_first_focusable_child_dfs (Some k) (Some n) = Some m \<longrightarrow>
            find_first_focusable_parent_dfs (Some k) scr (obj_id m) = Some n)"
proof (intro conjI impI)
  have "\<exists>r as bs. r \<in> set (nodes scr) \<and> obj_group r = Some k \<and> nav_seq (Some k) r = as @ n # bs"
    if "find_first_focusable_parent_dfs (Some k) scr (obj_id n) \<noteq> None"
    using that roof_contains [OF assms] by (metis not_None_eq split_list)
  note roof = this
  {
    assume *: "find_next_focusable_sibling (Some k) scr (Some (obj_id n)) = Some m"
    then obtain r as bs where r: "r \<in> set (nodes scr)" "obj_group r = Some k" "nav_seq (Some k) r = as @ n # bs"
      using roof by (auto simp: find_next_focusable_sibling_def split: option.splits)
    then obtain bs' where "bs = m # bs'"
      using * siblings_at(1) [OF assms(1) r] by (cases bs) simp_all
    then show "find_prev_focusable_sibling (Some k) scr (Some (obj_id m)) = Some n"
      using siblings_at(2) [OF assms(1) r(1,2), of "as @ [n]" m bs'] r(3) by (simp add: last_or_def)
  }
  {
    assume *: "find_prev_focusable_sibling (Some k) scr (Some (obj_id n)) = Some m"
    then obtain r as bs where r: "r \<in> set (nodes scr)" "obj_group r = Some k" "nav_seq (Some k) r = as @ n # bs"
      using roof by (auto simp: find_prev_focusable_sibling_def split: option.splits)
    then obtain as' where "as = as' @ [m]"
      using * siblings_at(2) [OF assms(1) r] by (cases as rule: rev_cases) (simp_all add: last_or_def)
    then show "find_next_focusable_sibling (Some k) scr (Some (obj_id m)) = Some n"
      using siblings_at(1) [OF assms(1) r(1,2), of as' m "n # bs"] r(3) by simp
  }
  assume "find_first_focusable_child_dfs (Some k) (Some n) = Some m"
  then have "obj_id m \<in> ids (nav_seq (Some k) n)"
    by (auto simp: find_first_focusable_child_dfs_def first_focusable_child_spec first_of_def split: list.splits)
  then show "find_first_focusable_parent_dfs (Some k) scr (obj_id m) = Some n"
    using parent_of_nav [OF assms] by blast
qed

text \<open>A screen with a focusable page, a layout panel with two buttons and a button beside it.\<close>

definition ex_button :: "nat \<Rightarrow> lv_obj" where
  "ex_button i = Obj i (Some 1) []"

definition ex_page :: lv_obj where
  "ex_page = Obj 1 (Some 1) [Obj 2 None [ex_button 3, Obj 4 None [], ex_button 5], ex_button 6]"

definition ex_screen :: lv_obj where
  "ex_screen = Obj 0 None [ex_page]"

lemma siblings_are_neighbours_witness:
  "\<exists>as bs. nav_seq (Some 1) ex_page = as @ ex_button 5 # bs \<and>
     find_next_focusable_sibling (Some 1) ex_screen (Some 5) = (case bs of [] \<Rightarrow> None | m # _ \<Rightarrow> Some m) \<and>
     find_prev_focusable_sibling (Some 1) ex_screen (Some 5) = (if as = [] then None else Some (last as))"
  using siblings_are_neighbours [of ex_screen "ex_button 5" "Some 1" ex_page]
  by (simp add: ex_screen_def ex_page_def ex_button_def find_first_focusable_parent_dfs_def del: nav_seq_nav_of)

lemma navigation_undone_witness:
  "find_prev_focusable_sibling (Some 1) ex_screen (Some 6) = Some (ex_button 5)"
  using navigation_undone [of ex_screen "ex_button 5" 1 "ex_button 6"]
  by (simp add: ex_screen_def ex_page_def ex_button_def find_first_focusable_parent_dfs_def find_next_focusable_sibling_def)

end
