(* ===== verification/Input_Keys.thy ===== *)
theory Input_Keys
  imports Rtos_Queue Gpio_Manager
begin

text \<open>
  From the knob to a key of the user interface: \<open>encoder_driver.c\<close> turns the pulse counter and the button into
  pairs of press and release events on a queue, \<open>lvgl_input_translator.c\<close> reads the queue as a keypad of LVGL.

  The queue is the FreeRTOS queue of \<open>Rtos_Queue\<close>, the level of the button a function of time in microseconds,
  and whether a call of the pulse counter, the pins or the timers succeeds an argument; a failed
  \<open>ESP_ERROR_CHECK\<close> and \<open>esp_system_abort\<close> are \<open>None\<close>. A one-shot timer is its handle with the time it is due:
  starting an armed timer is refused by the timer service and, as in the code, the refusal is not looked at.
\<close>

section \<open>Types\<close>

datatype input_key = INPUT_LEFT | INPUT_RIGHT | INPUT_OK | INPUT_ESC | INPUT_INVALID

datatype input_key_state = INPUT_STATE_PRESSED | INPUT_STATE_RELEASED | INPUT_STATE_INVALID

record encoder_input =
  in_key :: input_key
  in_state :: input_key_state

datatype lv_key = LV_KEY_0 | LV_KEY_ENTER | LV_KEY_ESC | LV_KEY_LEFT | LV_KEY_RIGHT | LV_KEY_HOME

datatype lv_indev_state = LV_INDEV_STATE_RELEASED | LV_INDEV_STATE_PRESSED

type_synonym one_shot = "nat option option"

datatype enc_call =
    Pcnt_new_unit int int
  | Pcnt_unit_set_glitch_filter nat
  | Pcnt_new_channel nat nat
  | Pcnt_channel_set_edge_action
  | Pcnt_channel_set_level_action
  | Pcnt_unit_add_watch_point int
  | Pcnt_unit_register_event_callbacks
  | Pcnt_unit_enable
  | Pcnt_unit_clear_count
  | Pcnt_unit_start
  | Pcnt_unit_stop
  | Pcnt_unit_disable
  | Pcnt_del_channel
  | Pcnt_del_unit
  | Key_set_direction nat
  | Key_set_pull_mode nat
  | Key_set_intr_type nat
  | Key_isr_handler_add nat
  | Key_isr_handler_remove nat
  | Key_timer_create

definition DEBOUNCE_MS :: nat where "DEBOUNCE_MS = 50"
definition LONG_PRESS_MS :: nat where "LONG_PRESS_MS = 250"
definition MAX_INPUTS :: nat where "MAX_INPUTS = 10"

text \<open>\<open>enc_queue\<close> and \<open>kbd_queue\<close> are the handles of the two files to the queue \<open>inputs\<close>, null or not.\<close>

record 'q input =
  inputs :: 'q
  enc_queue :: bool
  long_press_timer :: one_shot
  debounce_timer :: one_shot
  pcnt_unit :: bool
  pcnt_channel :: bool
  key_isr :: bool
  enc_log :: "enc_call list"
  kbd_queue :: bool
  last_key :: lv_key
  last_input_state :: lv_indev_state
  keypad_indev :: "bool option"
  key_grp :: bool

definition esp_timer_start_once :: "nat \<Rightarrow> nat \<Rightarrow> one_shot \<Rightarrow> one_shot" where
  "esp_timer_start_once now us tm = (if tm = Some None then Some (Some (now + us)) else tm)"

definition esp_timer_stop :: "one_shot \<Rightarrow> one_shot" where
  "esp_timer_stop tm = map_option (\<lambda>_. None) tm"

definition esp_timer_is_active :: "one_shot \<Rightarrow> bool" where
  "esp_timer_is_active tm \<longleftrightarrow> tm \<noteq> None \<and> tm \<noteq> Some None"

section \<open>Encoder driver\<close>

definition key_press :: "input_key \<Rightarrow> encoder_input" where
  "key_press k = \<lparr>in_key = k, in_state = INPUT_STATE_PRESSED\<rparr>"

definition key_release :: "input_key \<Rightarrow> encoder_input" where
  "key_release k = \<lparr>in_key = k, in_state = INPUT_STATE_RELEASED\<rparr>"

text \<open>The two branches for interrupt and task context differ in the name of the queue call only.\<close>

definition register_input :: "(encoder_input, 'q) queue_ops \<Rightarrow> input_key \<Rightarrow> 'q input \<Rightarrow> 'q input" where
  "register_input ops k s =
     (if \<not> enc_queue s then s
      else let (_, q1) = xQueueSend ops (key_press k) (inputs s); (_, q2) = xQueueSend ops (key_release k) q1
           in s\<lparr>inputs := q2\<rparr>)"

definition pcnt_on_reach_cb :: "(encoder_input, 'q) queue_ops \<Rightarrow> int \<Rightarrow> 'q input \<Rightarrow> 'q input" where
  "pcnt_on_reach_cb ops watch_point_value s =
     (let s1 = (if watch_point_value > 0 then register_input ops INPUT_RIGHT s else register_input ops INPUT_LEFT s)
      in s1\<lparr>enc_log := enc_log s1 @ [Pcnt_unit_clear_count]\<rparr>)"

definition long_press_timer_cb :: "(encoder_input, 'q) queue_ops \<Rightarrow> bool \<Rightarrow> 'q input \<Rightarrow> 'q input" where
  "long_press_timer_cb ops level s =
     (let button_pressed = (\<not> level) in
      if button_pressed then register_input ops INPUT_ESC s else register_input ops INPUT_OK s)"

definition gpio_isr_handler_cb :: "nat \<Rightarrow> 'q input \<Rightarrow> 'q input" where
  "gpio_isr_handler_cb now s =
     s\<lparr>debounce_timer := esp_timer_start_once now (DEBOUNCE_MS * 1000) (esp_timer_stop (debounce_timer s))\<rparr>"

definition debounce_timer_cb :: "(encoder_input, 'q) queue_ops \<Rightarrow> nat \<Rightarrow> bool \<Rightarrow> 'q input \<Rightarrow> 'q input" where
  "debounce_timer_cb ops now level s =
     (let button_pressed = (\<not> level) in
      if button_pressed then s\<lparr>long_press_timer := esp_timer_start_once now (LONG_PRESS_MS * 1000) (long_press_timer s)\<rparr>
      else
        let s1 = (if esp_timer_is_active (long_press_timer s)
                  then s\<lparr>long_press_timer := esp_timer_stop (long_press_timer s)\<rparr> else s)
        in register_input ops INPUT_OK s1)"

type_synonym enc_env = "enc_call list \<Rightarrow> enc_call \<Rightarrow> bool"

definition enc_check :: "enc_env \<Rightarrow> enc_call \<Rightarrow> 'q input \<Rightarrow> 'q input option" where
  "enc_check env c s = (if env (enc_log s) c then Some (s\<lparr>enc_log := enc_log s @ [c]\<rparr>) else None)"

primrec enc_checks :: "enc_env \<Rightarrow> enc_call list \<Rightarrow> 'q input \<Rightarrow> 'q input option" where
  "enc_checks env [] s = Some s"
| "enc_checks env (c # cs) s = Option.bind (enc_check env c s) (enc_checks env cs)"

definition encoder_init :: "enc_env \<Rightarrow> bool \<Rightarrow> 'q input \<Rightarrow> 'q input option" where
  "encoder_init env queue s =
     (let s0 = s\<lparr>enc_queue := queue\<rparr> in
      if \<not> queue then None
      else do {
        s1 \<leftarrow> enc_check env (Pcnt_new_unit 100 (-100)) s0;
        s2 \<leftarrow> enc_checks env [Pcnt_unit_set_glitch_filter 5000, Pcnt_new_channel ENCODER_PIN_A ENCODER_PIN_B]
               (s1\<lparr>pcnt_unit := True\<rparr>);
        s3 \<leftarrow> enc_checks env [Pcnt_channel_set_edge_action, Pcnt_channel_set_level_action, Pcnt_unit_add_watch_point 2,
                Pcnt_unit_add_watch_point (-2), Pcnt_unit_register_event_callbacks, Pcnt_unit_enable,
                Pcnt_unit_clear_count, Pcnt_unit_start, Key_set_direction ENCODER_KEY_OK, Key_set_pull_mode ENCODER_KEY_OK]
               (s2\<lparr>pcnt_channel := True\<rparr>);
        s4 \<leftarrow> enc_check env (Key_isr_handler_add ENCODER_KEY_OK)
               (s3\<lparr>enc_log := enc_log s3 @ [Key_set_intr_type ENCODER_KEY_OK]\<rparr>);
        s5 \<leftarrow> enc_check env Key_timer_create (s4\<lparr>key_isr := True\<rparr>);
        s6 \<leftarrow> enc_check env Key_timer_create (s5\<lparr>long_press_timer := Some None\<rparr>);
        Some (s6\<lparr>debounce_timer := Some None\<rparr>)
      })"

definition encoder_deinit :: "enc_env \<Rightarrow> 'q input \<Rightarrow> 'q input option" where
  "encoder_deinit env s = do {
     s1 \<leftarrow> enc_check env (Key_isr_handler_remove ENCODER_KEY_OK) s;
     let s2 = s1\<lparr>key_isr := False, long_press_timer := None, debounce_timer := None\<rparr>;
     s3 \<leftarrow> (if pcnt_unit s2 then enc_checks env [Pcnt_unit_stop, Pcnt_unit_disable] s2 else Some s2);
     s4 \<leftarrow> (if pcnt_channel s3 then map_option (\<lambda>s'. s'\<lparr>pcnt_channel := False\<rparr>) (enc_check env Pcnt_del_channel s3)
            else Some s3);
     s5 \<leftarrow> (if pcnt_unit s4 then map_option (\<lambda>s'. s'\<lparr>pcnt_unit := False\<rparr>) (enc_check env Pcnt_del_unit s4) else Some s4);
     Some (s5\<lparr>enc_queue := False\<rparr>)
   }"

section \<open>Key translator\<close>

definition lv_key_of :: "input_key \<Rightarrow> lv_key \<Rightarrow> lv_key" where
  "lv_key_of k lst = (case k of INPUT_OK \<Rightarrow> LV_KEY_ENTER | INPUT_ESC \<Rightarrow> LV_KEY_ESC | INPUT_LEFT \<Rightarrow> LV_KEY_LEFT
     | INPUT_RIGHT \<Rightarrow> LV_KEY_RIGHT | INPUT_INVALID \<Rightarrow> lst)"

definition lv_state_of :: "input_key_state \<Rightarrow> lv_indev_state" where
  "lv_state_of st = (if st = INPUT_STATE_PRESSED then LV_INDEV_STATE_PRESSED else LV_INDEV_STATE_RELEASED)"

definition keypad_read_callback ::
    "(encoder_input, 'q) queue_ops \<Rightarrow> 'q input \<Rightarrow> ((lv_key \<times> lv_indev_state) \<times> 'q input) option" where
  "keypad_read_callback ops s =
     (if \<not> kbd_queue s then None
      else let s1 = (case xQueueReceive ops (inputs s) of
               None \<Rightarrow> s
             | Some (received_key, q) \<Rightarrow> s\<lparr>inputs := q, last_key := lv_key_of (in_key received_key) (last_key s),
                 last_input_state := lv_state_of (in_state received_key)\<rparr>)
           in Some ((last_key s1, last_input_state s1), s1))"

text \<open>\<open>keypad_indev\<close> is null or the input device, enabled or not.\<close>

definition setup_keyboard :: "bool \<Rightarrow> 'q input \<Rightarrow> 'q input" where
  "setup_keyboard queue s = s\<lparr>kbd_queue := queue, keypad_indev := Some True, key_grp := True\<rparr>"

definition delete_keyboard :: "'q input \<Rightarrow> 'q input" where
  "delete_keyboard s = s\<lparr>keypad_indev := None, key_grp := False, kbd_queue := False, last_key := LV_KEY_0,
     last_input_state := LV_INDEV_STATE_RELEASED\<rparr>"

definition suspend_keyboard :: "'q input \<Rightarrow> 'q input" where
  "suspend_keyboard s = s\<lparr>keypad_indev := map_option (\<lambda>_. False) (keypad_indev s)\<rparr>"

definition resume_keyboard :: "'q input \<Rightarrow> 'q input" where
  "resume_keyboard s = s\<lparr>keypad_indev := map_option (\<lambda>_. True) (keypad_indev s)\<rparr>"

section \<open>The button over time\<close>

text \<open>
  The timer service runs the callbacks when they are due. \<open>fire_due lvl t\<close> lets everything happen that is due up
  to time \<open>t\<close>, for a button whose level at a time is \<open>lvl\<close>; \<open>button_run\<close> takes the falling edges of the line.
\<close>

definition due :: "one_shot \<Rightarrow> nat \<Rightarrow> bool" where
  "due tm t \<longleftrightarrow> (case tm of Some (Some d) \<Rightarrow> d \<le> t | _ \<Rightarrow> False)"

abbreviation due_at :: "one_shot \<Rightarrow> nat" where
  "due_at tm \<equiv> the (the tm)"

lemma register_input_timers [simp]:
  "long_press_timer (register_input ops k s) = long_press_timer s"
  "debounce_timer (register_input ops k s) = debounce_timer s"
  "enc_queue (register_input ops k s) = enc_queue s"
  "kbd_queue (register_input ops k s) = kbd_queue s"
  "last_key (register_input ops k s) = last_key s"
  "last_input_state (register_input ops k s) = last_input_state s"
  by (simp_all add: register_input_def split: prod.splits)

function fire_due :: "(encoder_input, 'q) queue_ops \<Rightarrow> (nat \<Rightarrow> bool) \<Rightarrow> nat \<Rightarrow> 'q input \<Rightarrow> 'q input" where
  "fire_due ops lvl t s =
     (if due (debounce_timer s) t \<and> (due (long_press_timer s) t \<longrightarrow> due_at (debounce_timer s) \<le> due_at (long_press_timer s))
      then let d = due_at (debounce_timer s)
           in fire_due ops lvl t (debounce_timer_cb ops d (lvl d) (s\<lparr>debounce_timer := Some None\<rparr>))
      else if due (long_press_timer s) t
      then let d = due_at (long_press_timer s)
           in fire_due ops lvl t (long_press_timer_cb ops (lvl d) (s\<lparr>long_press_timer := Some None\<rparr>))
      else s)"
  by pat_completeness auto
termination
proof (relation "measure (\<lambda>(ops, lvl, t, s). (if esp_timer_is_active (debounce_timer s) then 2 else 0) +
      (if esp_timer_is_active (long_press_timer s) then 1 else 0 :: nat))", goal_cases)
  case (2 ops lvl t s x)
  then show ?case
    by (auto simp: due_def esp_timer_is_active_def debounce_timer_cb_def Let_def split: option.splits)
next
  case (3 ops lvl t s x)
  then show ?case
    by (auto simp: due_def esp_timer_is_active_def long_press_timer_cb_def Let_def split: option.splits)
qed simp

declare fire_due.simps [simp del]

definition button_run :: "(encoder_input, 'q) queue_ops \<Rightarrow> (nat \<Rightarrow> bool) \<Rightarrow> nat list \<Rightarrow> 'q input \<Rightarrow> 'q input" where
  "button_run ops lvl edges s = fold (\<lambda>t s. gpio_isr_handler_cb t (fire_due ops lvl t s)) edges s"

definition encoder_idle :: "'q input \<Rightarrow> bool" where
  "encoder_idle s \<longleftrightarrow> debounce_timer s = Some None \<and> long_press_timer s = Some None"

abbreviation settle :: nat where
  "settle \<equiv> DEBOUNCE_MS * 1000"

abbreviation hold :: nat where
  "hold \<equiv> LONG_PRESS_MS * 1000"

lemma fire_due_not_due: "\<not> due (debounce_timer s) t \<Longrightarrow> \<not> due (long_press_timer s) t \<Longrightarrow> fire_due ops lvl t s = s"
  by (simp add: fire_due.simps [of ops lvl t s])

text \<open>One step of the timer service, for each of the two timers.\<close>

lemma fire_debounce:
  assumes "debounce_timer s = Some (Some d)" "d \<le> t" "\<And>l. long_press_timer s = Some (Some l) \<Longrightarrow> d \<le> l"
  shows "fire_due ops lvl t s = fire_due ops lvl t (debounce_timer_cb ops d (lvl d) (s\<lparr>debounce_timer := Some None\<rparr>))"
  using assms by (subst fire_due.simps) (auto simp: due_def split: option.splits)

lemma fire_long_press:
  assumes "long_press_timer s = Some (Some l)" "l \<le> t" "\<And>d. debounce_timer s = Some (Some d) \<Longrightarrow> l < d"
  shows "fire_due ops lvl t s = fire_due ops lvl t (long_press_timer_cb ops (lvl l) (s\<lparr>long_press_timer := Some None\<rparr>))"
  using assms by (subst fire_due.simps) (auto simp: due_def split: option.splits)

lemma button_run_bounces:
  assumes "encoder_idle s" and "edges \<noteq> []" and "successively (\<lambda>a b. a \<le> b \<and> b < a + settle) edges"
  shows "button_run ops lvl edges s = s\<lparr>debounce_timer := Some (Some (last edges + settle))\<rparr>"
  using assms(2,3)
proof (induction edges rule: rev_nonempty_induct)
  case (single t)
  then show ?case
    using assms(1)
    by (simp add: button_run_def fire_due_not_due due_def encoder_idle_def gpio_isr_handler_cb_def esp_timer_stop_def
        esp_timer_start_once_def)
next
  case (snoc t ts)
  then have run: "button_run ops lvl ts s = s\<lparr>debounce_timer := Some (Some (last ts + settle))\<rparr>" "t < last ts + settle"
    by (simp_all add: successively_append_iff)
  then have "fire_due ops lvl t (button_run ops lvl ts s) = button_run ops lvl ts s"
    using assms(1) by (intro fire_due_not_due) (simp_all add: due_def encoder_idle_def)
  then show ?case
    using run by (simp add: button_run_def gpio_isr_handler_cb_def esp_timer_stop_def esp_timer_start_once_def)
qed

lemma idle_update [simp]:
  "encoder_idle s \<Longrightarrow> s\<lparr>debounce_timer := Some None\<rparr> = s"
  "encoder_idle s \<Longrightarrow> s\<lparr>long_press_timer := Some None\<rparr> = s"
  by (simp_all add: encoder_idle_def)

lemma idle_fire [simp]: "encoder_idle s \<Longrightarrow> fire_due ops lvl t s = s"
  by (intro fire_due_not_due) (simp_all add: due_def encoder_idle_def)

lemma idle_register [simp]: "encoder_idle (register_input ops k s) = encoder_idle s"
  by (simp add: encoder_idle_def)

text \<open>From an armed debounce timer on, with no further edge.\<close>

lemma debounced_press:
  assumes "encoder_idle s" and "d + hold \<le> t"
  shows "fire_due ops lvl t (s\<lparr>debounce_timer := Some (Some d)\<rparr>) =
    register_input ops (if \<not> lvl d \<and> \<not> lvl (d + hold) then INPUT_ESC else INPUT_OK) s"
proof -
  have step: "fire_due ops lvl t (s\<lparr>debounce_timer := Some (Some d)\<rparr>) = fire_due ops lvl t (debounce_timer_cb ops d (lvl d) s)"
    using assms by (subst fire_debounce [of _ d]) (simp_all add: encoder_idle_def)
  show ?thesis
  proof (cases "lvl d")
    case True
    then show ?thesis
      using assms step by (simp add: debounce_timer_cb_def Let_def encoder_idle_def [of s] esp_timer_is_active_def)
  next
    case False
    then have "debounce_timer_cb ops d (lvl d) s = s\<lparr>long_press_timer := Some (Some (d + hold))\<rparr>"
      using assms by (simp add: debounce_timer_cb_def encoder_idle_def esp_timer_start_once_def)
    moreover have "fire_due ops lvl t (s\<lparr>long_press_timer := Some (Some (d + hold))\<rparr>) =
        fire_due ops lvl t (long_press_timer_cb ops (lvl (d + hold)) s)"
      using assms by (subst fire_long_press [of _ "d + hold"]) (simp_all add: encoder_idle_def)
    ultimately show ?thesis
      using False assms step by (simp add: long_press_timer_cb_def Let_def)
  qed
qed

section \<open>From the queue to LVGL\<close>

text \<open>The keypad is polled \<open>n\<close> times.\<close>

primrec keypad_reads ::
    "(encoder_input, 'q) queue_ops \<Rightarrow> nat \<Rightarrow> 'q input \<Rightarrow> ((lv_key \<times> lv_indev_state) list \<times> 'q input) option" where
  "keypad_reads ops 0 s = Some ([], s)"
| "keypad_reads ops (Suc n) s = do {
     (r, s1) \<leftarrow> keypad_read_callback ops s;
     (rs, s2) \<leftarrow> keypad_reads ops n s1;
     Some (r # rs, s2)
   }"

definition lv_event :: "encoder_input \<Rightarrow> lv_key \<times> lv_indev_state" where
  "lv_event e = (lv_key_of (in_key e) LV_KEY_0, lv_state_of (in_state e))"

definition valid_input :: "encoder_input \<Rightarrow> bool" where
  "valid_input e \<longleftrightarrow> in_key e \<noteq> INPUT_INVALID"

lemma keypad_read_one:
  assumes "queue_spec ops items cap" "kbd_queue s" "items (inputs s) = e # es" "valid_input e"
  shows "\<exists>s1. keypad_read_callback ops s = Some (lv_event e, s1) \<and> items (inputs s1) = es \<and> kbd_queue s1 \<and>
    (last_key s1, last_input_state s1) = lv_event e"
proof -
  obtain q where "xQueueReceive ops (inputs s) = Some (e, q)" "items q = es"
    using assms(1,3) unfolding queue_spec_def by blast
  moreover have "lv_key_of (in_key e) l = lv_key_of (in_key e) LV_KEY_0" for l
    using assms(4) by (simp add: lv_key_of_def valid_input_def split: input_key.splits)
  ultimately show ?thesis
    using assms(2) by (simp add: keypad_read_callback_def lv_event_def)
qed

lemma keypad_reads_items:
  assumes "queue_spec ops items cap" "kbd_queue s" "items (inputs s) = es" "\<forall>e \<in> set es. valid_input e"
  shows "\<exists>s1. keypad_reads ops (length es) s = Some (map lv_event es, s1) \<and> items (inputs s1) = [] \<and> kbd_queue s1 \<and>
    (es \<noteq> [] \<longrightarrow> (last_key s1, last_input_state s1) = lv_event (last es))"
  using assms(2-4)
proof (induction es arbitrary: s)
  case (Cons e es)
  then obtain s1 where s1: "keypad_read_callback ops s = Some (lv_event e, s1)" "items (inputs s1) = es" "kbd_queue s1"
    "(last_key s1, last_input_state s1) = lv_event e"
    using keypad_read_one [OF assms(1)] by (metis list.set_intros(1))
  then obtain s2 where s2: "keypad_reads ops (length es) s1 = Some (map lv_event es, s2)" "items (inputs s2) = []" "kbd_queue s2"
    "es \<noteq> [] \<longrightarrow> (last_key s2, last_input_state s2) = lv_event (last es)"
    using Cons.IH [of s1] Cons.prems by auto
  moreover have "s2 = s1" if "es = []"
    using s2(1) that by simp
  ultimately show ?case
    using s1 by auto
qed simp

lemma keypad_reads_idle:
  assumes "queue_spec ops items cap" "kbd_queue s" "items (inputs s) = []"
  shows "keypad_reads ops n s = Some (replicate n (last_key s, last_input_state s), s)"
proof -
  have "xQueueReceive ops (inputs s) = None"
    using assms unfolding queue_spec_def by blast
  then have "keypad_read_callback ops s = Some ((last_key s, last_input_state s), s)"
    using assms(2) by (simp add: keypad_read_callback_def)
  then show ?thesis
    by (induction n) simp_all
qed

lemma keypad_reads_add:
  assumes "keypad_reads ops m s = Some (rs, s1)"
  shows "keypad_reads ops (m + n) s = map_option (map_prod ((@) rs) id) (keypad_reads ops n s1)"
  using assms
proof (induction m arbitrary: s rs)
  case 0
  then show ?case by (cases "keypad_reads ops n s1") (auto simp: map_prod_def)
next
  case (Suc m)
  then obtain r s0 rs0 where "keypad_read_callback ops s = Some (r, s0)" "keypad_reads ops m s0 = Some (rs0, s1)" "rs = r # rs0"
    by (auto simp: bind_eq_Some_iff)
  then show ?case
    using Suc.IH by (cases "keypad_reads ops n s1") auto
qed

lemma register_input_items:
  assumes "queue_spec ops items cap" "enc_queue s"
  shows "items (inputs (register_input ops k s)) = take (cap (inputs s)) (items (inputs s) @ [key_press k, key_release k])"
    and "cap (inputs (register_input ops k s)) = cap (inputs s)"
proof -
  have "inputs (register_input ops k s) = send_all ops [key_press k, key_release k] (inputs s)"
    using assms(2) by (simp add: register_input_def split: prod.splits)
  then show "items (inputs (register_input ops k s)) = take (cap (inputs s)) (items (inputs s) @ [key_press k, key_release k])"
    "cap (inputs (register_input ops k s)) = cap (inputs s)"
    using send_all_items [OF assms(1)] by metis+
qed

lemma fold_register_items:
  assumes "queue_spec ops items cap" "enc_queue s" "length (items (inputs s)) + 2 * length ks \<le> cap (inputs s)"
  shows "items (inputs (fold (register_input ops) ks s)) =
    items (inputs s) @ concat (map (\<lambda>k. [key_press k, key_release k]) ks)"
  using assms(2,3)
proof (induction ks arbitrary: s)
  case (Cons k ks)
  have r: "items (inputs (register_input ops k s)) = items (inputs s) @ [key_press k, key_release k]"
    "cap (inputs (register_input ops k s)) = cap (inputs s)"
    using register_input_items [OF assms(1) Cons.prems(1)] Cons.prems(2) by simp_all
  show ?case
    using Cons.IH [of "register_input ops k s"] Cons.prems by (simp add: r)
qed simp

lemma fold_register_kbd [simp]: "kbd_queue (fold (register_input ops) ks s) = kbd_queue s"
  by (induction ks arbitrary: s) simp_all

section \<open>Properties\<close>

text \<open>
  C21: one press of the button is one key. However often the contact bounces, as long as the edges follow each
  other within the debounce time and no edge comes later, the press registers exactly one key: the escape key when
  the button is down after the debounce time and still down after the long-press time, the OK key otherwise; and
  the driver is idle again.
\<close>

theorem button_registers_one_key:
  assumes "encoder_idle s" and "edges \<noteq> []" and "successively (\<lambda>a b. a \<le> b \<and> b < a + DEBOUNCE_MS * 1000) edges"
    and "d = last edges + DEBOUNCE_MS * 1000" and "d + LONG_PRESS_MS * 1000 \<le> t"
  shows "fire_due ops lvl t (button_run ops lvl edges s) =
    register_input ops (if \<not> lvl d \<and> \<not> lvl (d + LONG_PRESS_MS * 1000) then INPUT_ESC else INPUT_OK) s"
  using button_run_bounces [OF assms(1-3)] debounced_press [OF assms(1,5)] assms(4) by simp

text \<open>
  Edges that come later are misread. A second press while the long-press timer runs does not restart the timer,
  so two short presses give one escape key; and a bounce when the button is let go after a long press adds an OK key.
\<close>

lemma later_edges_misread:
  assumes "encoder_idle s" and "d = a + DEBOUNCE_MS * 1000" and "d < b" and "\<not> lvl d" and "\<not> lvl (d + LONG_PRESS_MS * 1000)"
    and "b + DEBOUNCE_MS * 1000 + LONG_PRESS_MS * 1000 \<le> t"
  shows "(b + DEBOUNCE_MS * 1000 < d + LONG_PRESS_MS * 1000 \<longrightarrow> \<not> lvl (b + DEBOUNCE_MS * 1000) \<longrightarrow>
       fire_due ops lvl t (button_run ops lvl [a, b] s) = register_input ops INPUT_ESC s) \<and>
     (d + LONG_PRESS_MS * 1000 < b \<longrightarrow> lvl (b + DEBOUNCE_MS * 1000) \<longrightarrow>
       fire_due ops lvl t (button_run ops lvl [a, b] s) = register_input ops INPUT_OK (register_input ops INPUT_ESC s))"
proof (intro conjI impI)
  let ?armed = "s\<lparr>long_press_timer := Some (Some (d + hold))\<rparr>"
  have first: "button_run ops lvl [a] s = s\<lparr>debounce_timer := Some (Some d)\<rparr>"
    using button_run_bounces [OF assms(1), of "[a]"] assms(2) by simp
  have run: "button_run ops lvl [a, b] s = gpio_isr_handler_cb b (fire_due ops lvl b (button_run ops lvl [a] s))"
    by (simp add: button_run_def)
  {
    assume early: "b + settle < d + hold" and down: "\<not> lvl (b + settle)"
    have "fire_due ops lvl b (s\<lparr>debounce_timer := Some (Some d)\<rparr>) = fire_due ops lvl b (debounce_timer_cb ops d (lvl d) s)"
      using assms(1,3) by (subst fire_debounce [of _ d]) (simp_all add: encoder_idle_def)
    also have "debounce_timer_cb ops d (lvl d) s = ?armed"
      using assms(1,4) by (simp add: debounce_timer_cb_def encoder_idle_def esp_timer_start_once_def)
    also have "fire_due ops lvl b ?armed = ?armed"
      using assms(1) early by (intro fire_due_not_due) (simp_all add: due_def encoder_idle_def)
    finally have "button_run ops lvl [a, b] s = ?armed\<lparr>debounce_timer := Some (Some (b + settle))\<rparr>"
      using assms(1) by (simp add: run first gpio_isr_handler_cb_def encoder_idle_def esp_timer_stop_def esp_timer_start_once_def)
    also have "fire_due ops lvl t \<dots> = fire_due ops lvl t ?armed"
      using assms(1,6) early down
      by (subst fire_debounce [of _ "b + settle"])
        (simp_all add: debounce_timer_cb_def encoder_idle_def esp_timer_start_once_def)
    also have "\<dots> = fire_due ops lvl t (long_press_timer_cb ops (lvl (d + hold)) s)"
      using assms(1,3,6) early by (subst fire_long_press [of _ "d + hold"]) (simp_all add: encoder_idle_def)
    finally show "fire_due ops lvl t (button_run ops lvl [a, b] s) = register_input ops INPUT_ESC s"
      using assms(1,5) by (simp add: long_press_timer_cb_def)
  }
  assume late: "d + hold < b" and up: "lvl (b + settle)"
  have "fire_due ops lvl b (button_run ops lvl [a] s) = register_input ops INPUT_ESC s"
    using debounced_press [OF assms(1), of d b] late assms(4,5) by (simp add: first)
  then have "button_run ops lvl [a, b] s = (register_input ops INPUT_ESC s)\<lparr>debounce_timer := Some (Some (b + settle))\<rparr>"
    using assms(1) by (simp add: run gpio_isr_handler_cb_def encoder_idle_def esp_timer_stop_def esp_timer_start_once_def)
  then show "fire_due ops lvl t (button_run ops lvl [a, b] s) = register_input ops INPUT_OK (register_input ops INPUT_ESC s)"
    using debounced_press [of "register_input ops INPUT_ESC s" "b + settle" t ops lvl] assms(1,6) up by simp
qed

text \<open>
  C22: keys reach the user interface as they were made. While the queue has room, the keys registered by the
  driver are read by the keypad of LVGL as one press and one release each, in the order they were made, and polling
  it further reports the last key as released.
\<close>

theorem keys_reach_lvgl:
  assumes "queue_spec ops items cap" and "enc_queue s" and "kbd_queue s" and "items (inputs s) = []"
    and "2 * length ks \<le> cap (inputs s)" and "INPUT_INVALID \<notin> set ks" and "ks \<noteq> []"
  shows "\<exists>s1. keypad_reads ops (2 * length ks + n) (fold (register_input ops) ks s) = Some
      (concat (map (\<lambda>k. [(lv_key_of k LV_KEY_0, LV_INDEV_STATE_PRESSED), (lv_key_of k LV_KEY_0, LV_INDEV_STATE_RELEASED)]) ks) @
       replicate n (lv_key_of (last ks) LV_KEY_0, LV_INDEV_STATE_RELEASED), s1)"
proof -
  let ?es = "concat (map (\<lambda>k. [key_press k, key_release k]) ks)" and ?s = "fold (register_input ops) ks s"
  have es: "length ?es = 2 * length ks" "\<forall>e \<in> set ?es. valid_input e" "?es \<noteq> []"
    using assms(6,7) by (auto simp: length_concat comp_def sum_list_triv valid_input_def key_press_def key_release_def)
  have last: "last ?es = key_release (last ks)"
    using assms(7) by (cases ks rule: rev_cases) simp_all
  have ev: "map lv_event ?es =
      concat (map (\<lambda>k. [(lv_key_of k LV_KEY_0, LV_INDEV_STATE_PRESSED), (lv_key_of k LV_KEY_0, LV_INDEV_STATE_RELEASED)]) ks)"
    by (simp add: map_concat comp_def lv_event_def lv_state_of_def key_press_def key_release_def)
  have "items (inputs ?s) = ?es"
    using fold_register_items [OF assms(1,2), of ks] assms(4,5) by simp
  then obtain s1 where s1: "keypad_reads ops (length ?es) ?s = Some (map lv_event ?es, s1)" "items (inputs s1) = []"
    "kbd_queue s1" "(last_key s1, last_input_state s1) = lv_event (last ?es)"
    using keypad_reads_items [OF assms(1), of ?s ?es] assms(3) es by auto
  have "keypad_reads ops n s1 = Some (replicate n (lv_event (last ?es)), s1)"
    using keypad_reads_idle [OF assms(1) s1(3,2)] s1(4) by simp
  moreover have "lv_event (last ?es) = (lv_key_of (last ks) LV_KEY_0, LV_INDEV_STATE_RELEASED)"
    unfolding last by (simp add: lv_event_def lv_state_of_def key_release_def)
  ultimately show ?thesis
    using keypad_reads_add [OF s1(1), of n] unfolding es(1) ev by simp
qed

text \<open>
  A queue with a single free place sticks a key. The press of the next key takes the place and its release is
  dropped, so after the queue has been read the keypad reports the key as pressed at every poll until another key
  arrives.
\<close>

lemma full_queue_sticks_key:
  assumes "queue_spec ops items cap" and "enc_queue s" and "kbd_queue s" and "\<forall>e \<in> set (items (inputs s)). valid_input e"
    and "length (items (inputs s)) + 1 = cap (inputs s)" and "k \<noteq> INPUT_INVALID"
  shows "\<exists>rs s1. keypad_reads ops (cap (inputs s) + n) (register_input ops k s) =
     Some (rs @ replicate n (lv_key_of k LV_KEY_0, LV_INDEV_STATE_PRESSED), s1)"
proof -
  let ?es = "items (inputs s) @ [key_press k]"
  have "items (inputs (register_input ops k s)) = ?es"
    using register_input_items(1) [OF assms(1,2), of k] assms(5) [symmetric] by simp
  moreover have "\<forall>e \<in> set ?es. valid_input e"
    using assms(4,6) by (simp add: valid_input_def key_press_def)
  ultimately obtain s1 where s1: "keypad_reads ops (length ?es) (register_input ops k s) = Some (map lv_event ?es, s1)"
    "items (inputs s1) = []" "kbd_queue s1" "(last_key s1, last_input_state s1) = lv_event (key_press k)"
    using keypad_reads_items [OF assms(1), of "register_input ops k s" ?es] assms(3) by auto
  then have "keypad_reads ops n s1 = Some (replicate n (lv_event (key_press k)), s1)"
    using keypad_reads_idle [OF assms(1) s1(3,2)] by simp
  then have "keypad_reads ops (length ?es + n) (register_input ops k s) =
      Some (map lv_event ?es @ replicate n (lv_event (key_press k)), s1)"
    using keypad_reads_add [OF s1(1), of n] by (simp del: keypad_reads.simps)
  moreover have "lv_event (key_press k) = (lv_key_of k LV_KEY_0, LV_INDEV_STATE_PRESSED)" "length ?es = cap (inputs s)"
    using assms(5) by (simp_all add: lv_event_def lv_state_of_def key_press_def)
  ultimately show ?thesis
    by metis
qed

definition ex_input :: "(nat \<times> encoder_input list) input" where
  "ex_input = \<lparr>inputs = (MAX_INPUTS, []), enc_queue = True, long_press_timer = Some None, debounce_timer = Some None,
     pcnt_unit = True, pcnt_channel = True, key_isr = True, enc_log = [], kbd_queue = True, last_key = LV_KEY_0,
     last_input_state = LV_INDEV_STATE_RELEASED, keypad_indev = Some True, key_grp = True\<rparr>"

theorem button_registers_one_key_witness:
  "fire_due list_queue (\<lambda>t. t > 400000) 400000 (button_run list_queue (\<lambda>t. t > 400000) [0, 10000, 20000] ex_input) =
    register_input list_queue INPUT_ESC ex_input"
  using button_registers_one_key [of ex_input "[0, 10000, 20000]" 70000 400000 list_queue "\<lambda>t. t > 400000"]
  by (simp add: ex_input_def encoder_idle_def DEBOUNCE_MS_def LONG_PRESS_MS_def)

lemma later_edges_misread_witness:
  "fire_due list_queue (\<lambda>t. 100000 < t \<and> t < 150000) 600000 (button_run list_queue (\<lambda>t. 100000 < t \<and> t < 150000) [0, 150000] ex_input) =
    register_input list_queue INPUT_ESC ex_input"
  using later_edges_misread [of ex_input 50000 0 150000 "\<lambda>t. 100000 < t \<and> t < 150000" 600000 list_queue]
  by (simp add: ex_input_def encoder_idle_def DEBOUNCE_MS_def LONG_PRESS_MS_def)

theorem keys_reach_lvgl_witness:
  "\<exists>s1. keypad_reads list_queue 5 (fold (register_input list_queue) [INPUT_RIGHT, INPUT_OK] ex_input) = Some
    ([(LV_KEY_RIGHT, LV_INDEV_STATE_PRESSED), (LV_KEY_RIGHT, LV_INDEV_STATE_RELEASED), (LV_KEY_ENTER, LV_INDEV_STATE_PRESSED),
      (LV_KEY_ENTER, LV_INDEV_STATE_RELEASED), (LV_KEY_ENTER, LV_INDEV_STATE_RELEASED)], s1)"
  using keys_reach_lvgl [OF list_queue_spec, of ex_input "[INPUT_RIGHT, INPUT_OK]" 1]
  by (simp add: ex_input_def list_items_def MAX_INPUTS_def lv_key_of_def del: keypad_reads.simps)

lemma full_queue_sticks_key_witness:
  "\<exists>rs s1. keypad_reads list_queue 12 (register_input list_queue INPUT_OK (ex_input\<lparr>inputs := (10, replicate 9 (key_press INPUT_LEFT))\<rparr>)) =
    Some (rs @ replicate 2 (LV_KEY_ENTER, LV_INDEV_STATE_PRESSED), s1)"
  using full_queue_sticks_key [OF list_queue_spec, of "ex_input\<lparr>inputs := (10, replicate 9 (key_press INPUT_LEFT))\<rparr>" INPUT_OK 2]
  by (simp add: ex_input_def list_items_def lv_key_of_def valid_input_def key_press_def del: keypad_reads.simps)

end
