(* ===== verification/Stored_Setting.thy ===== *)
theory Stored_Setting
  imports Storage_Manager
begin

text \<open>
  Several components keep one setting in the storage manager under a fixed key: the screen timeout, the chosen
  watchface. The locale states what such a component relies on, a key that fits and an encoding of the values by a
  fixed number of bytes that can be undone, and proves once that a setting written by the scheduled work is the one
  read at the next start.
\<close>

locale stored_setting =
  fixes app :: byte and key :: "byte list" and len :: byte and enc :: "'v \<Rightarrow> byte list" and dec :: "byte list \<Rightarrow> 'v"
    and valid :: "'v \<Rightarrow> bool"
  assumes key_ok: "0 \<notin> set key" "length key \<le> 15"
    and len_ok: "unat len \<le> STORAGE_MAX_DATA_SIZE"
    and enc_length: "length (enc v) = unat len"
    and dec_enc: "valid v \<Longrightarrow> dec (enc v) = v"
begin

definition work :: "'v \<Rightarrow> storage_work" where
  "work v = save_work app key (enc v) len"

lemma save_scheduled:
  "storage_manager_save_key env ops f True app (Some key) (Some (enc v)) len s =
     schedule_system_work env ops (Some (storage_item f (work v))) s"
  unfolding work_def using key_ok len_ok enc_length by (intro save_schedules) simp_all

lemma read_stored:
  assumes "nvs_spec nvs look" "nvs_open nvs (ns_name app) False st = NVS_OK" "look st (ns_name app) key = Some (enc v)"
    and "length buf = unat len"
  shows "storage_manager_retrieve_key nvs True app (Some key) (Some buf) (Some len) st = Some (True, Some (enc v), Some len)"
  using assms key_roundtrip(4,5) [OF key_ok] nvs_effects(5) [OF assms(1)] len_ok enc_length [of v]
  by (simp add: storage_manager_retrieve_key_def mem_write_def)

lemma setting_stored:
  assumes "nvs_spec nvs look" "nvs_open nvs (ns_name app) True st = NVS_OK"
    and "fst (nvs_set_blob nvs (ns_name app) key (enc v) st) = NVS_OK"
  shows "storage_manager_execute_work nvs (Some (work_bytes (work v))) st = Some (flash_written nvs (ns_name app) key (enc v) st) \<and>
     look (flash_written nvs (ns_name app) key (enc v) st) (ns_name app) key = Some (enc v)"
proof -
  have t: "take (unat len) (enc v) = enc v"
    by (simp add: enc_length)
  then show ?thesis
    using save_executed [OF assms(1) key_ok len_ok _ assms(2), of "enc v"] assms(3) enc_length [of v]
    unfolding work_def by auto
qed

lemma setting_read_back:
  assumes "nvs_spec nvs look" "nvs_open nvs (ns_name app) True st = NVS_OK"
    and "fst (nvs_set_blob nvs (ns_name app) key (enc v) st) = NVS_OK" "nvs_open nvs (ns_name app) False (flash_written nvs (ns_name app) key (enc v) st) = NVS_OK"
    and "length buf = unat len"
  shows "\<exists>st'. storage_manager_execute_work nvs (Some (work_bytes (work v))) st = Some st' \<and>
     storage_manager_retrieve_key nvs True app (Some key) (Some buf) (Some len) st' = Some (True, Some (enc v), Some len)"
  using setting_stored [OF assms(1-3)] read_stored [OF assms(1) assms(4) _ assms(5)] by blast

end

end
