(* ===== verification/Lvgl_Bridge.thy ===== *)
theory Lvgl_Bridge
  imports Common_Types Stored_Setting Display Input_Keys
begin

text \<open>
  The bridge to the graphics library: the handler thread of \<open>lvgl_handler_thread.c\<close> with its screen timeout, and the
  life cycle of \<open>lvgl_bridge.c\<close>, which puts the display driver, the encoder, the keypad, the wake lock and the thread
  together.

  LVGL and FreeRTOS are parameters: what the library answers in a pass of the thread, whether its objects and the
  queue can be created, and whether the thread leaves its loop before a join times out are arguments. The exit
  semaphore is null, empty or given; giving a null semaphore and a failed assertion are \<open>None\<close>.
\<close>

section \<open>The handler thread\<close>

definition DISPLAY_MIN_USER_INPUT_TIMEOUT :: nat where "DISPLAY_MIN_USER_INPUT_TIMEOUT = 5000"

definition LV_NO_TIMER_READY :: nat where "LV_NO_TIMER_READY = 0xFFFFFFFF"

text \<open>The tick rate of the build is 500 Hz.\<close>

definition pdMS_TO_TICKS :: "nat \<Rightarrow> nat" where
  "pdMS_TO_TICKS ms = u32 (ms * 500) div 1000"

record lvgl_thread =
  lvgl_run_flag :: bool
  worker_handle :: bool
  lvgl_exit_semaphore :: "bool option"
  input_timeout :: nat

text \<open>What a pass sees: the clock in microseconds, the answer of the timer handler, the idle time.\<close>

record lvgl_pass =
  pass_time :: nat
  pass_next :: nat
  pass_idle :: nat

text \<open>What a pass does: the tick increment, whether inactivity is published, and the ticks it sleeps.\<close>

record lvgl_did =
  did_render :: bool
  did_tick_inc :: nat
  did_publish :: bool
  did_delay :: nat

definition ui_inactive_event :: sys_event where
  "ui_inactive_event = \<lparr>ev = EVENT_UI_INACTIVE, ev_payload_len = 0, ev_data = Data_none\<rparr>"

text \<open>
  One pass: render at the first time, tell the library the time, and publish on the event bus when nobody keeps the
  watch awake and the user has been idle for longer than the timeout. \<open>call\<close> runs the subscribers on the bus.
\<close>

definition lvgl_task_pass ::
  "('h \<Rightarrow> sys_event \<Rightarrow> ('h, 'z) event_mgr_scheme \<Rightarrow> ('h, 'z) event_mgr_scheme) \<Rightarrow> bool \<Rightarrow> nat \<Rightarrow> lvgl_pass \<Rightarrow>
   (bool \<times> nat) \<times> ('h, 'z) event_mgr_scheme \<Rightarrow> (lvgl_did \<times> (bool \<times> nat) \<times> ('h, 'z) event_mgr_scheme) option" where
  "lvgl_task_pass call wake_locked timeout p = (\<lambda>((first_render, time_prev), bus).
     let time_now = pass_time p div 1000;
         elapsed = int time_now - int time_prev;
         publish = (\<not> wake_locked \<and> pass_idle p > timeout);
         next_refresh = (if pass_next p = LV_NO_TIMER_READY \<or> pass_next p > 30 then 30 else pass_next p);
         ticks = pdMS_TO_TICKS next_refresh
     in do {
       bus1 \<leftarrow> (if publish then map_option snd (event_publish call (Some ui_inactive_event) bus) else Some bus);
       Some (\<lparr>did_render = first_render, did_tick_inc = nat (elapsed mod 4294967296), did_publish = publish,
               did_delay = (if ticks = 0 then 1 else ticks)\<rparr>, (False, time_now), bus1)
     })"

text \<open>The passes of the loop, each with the wake lock and the timeout it finds.\<close>

primrec lvgl_task_loop ::
  "('h \<Rightarrow> sys_event \<Rightarrow> ('h, 'z) event_mgr_scheme \<Rightarrow> ('h, 'z) event_mgr_scheme) \<Rightarrow> (bool \<times> nat \<times> lvgl_pass) list \<Rightarrow>
   (bool \<times> nat) \<times> ('h, 'z) event_mgr_scheme \<Rightarrow> (lvgl_did list \<times> ('h, 'z) event_mgr_scheme) option" where
  "lvgl_task_loop call [] st = Some ([], snd st)"
| "lvgl_task_loop call (x # xs) st =
     do {
       (d, st1) \<leftarrow> lvgl_task_pass call (fst x) (fst (snd x)) (snd (snd x)) st;
       (ds, bus) \<leftarrow> lvgl_task_loop call xs st1;
       Some (d # ds, bus)
     }"

text \<open>The thread starts at a time; it ends by clearing its handle and giving the semaphore.\<close>

definition lvgl_task ::
  "('h \<Rightarrow> sys_event \<Rightarrow> ('h, 'z) event_mgr_scheme \<Rightarrow> ('h, 'z) event_mgr_scheme) \<Rightarrow> nat \<Rightarrow> (bool \<times> nat \<times> lvgl_pass) list \<Rightarrow>
   ('h, 'z) event_mgr_scheme \<Rightarrow> (lvgl_did list \<times> ('h, 'z) event_mgr_scheme) option" where
  "lvgl_task call start_time passes bus = lvgl_task_loop call passes ((True, start_time div 1000), bus)"

definition lvgl_task_exit :: "lvgl_thread \<Rightarrow> lvgl_thread option" where
  "lvgl_task_exit th =
     (case lvgl_exit_semaphore th of None \<Rightarrow> None
      | Some _ \<Rightarrow> Some (th\<lparr>worker_handle := False, lvgl_exit_semaphore := Some True\<rparr>))"

definition timeout_key :: "byte list" where
  "timeout_key = [84, 73, 77, 69, 79, 85, 84]"

definition timeout_bytes :: "nat \<Rightarrow> byte list" where
  "timeout_bytes timeout = [byte_of timeout, byte_of (timeout div 256), byte_of (timeout div 65536), byte_of (timeout div 16777216)]"

definition bytes_timeout :: "byte list \<Rightarrow> nat" where
  "bytes_timeout d = unat (d ! 3) * 16777216 + unat (d ! 2) * 65536 + unat (d ! 1) * 256 + unat (d ! 0)"

definition save_input_timeout ::
  "('f, 'q, 'n) store_env \<Rightarrow> nat \<Rightarrow> ('f, 'q, 'z) runtime_scheme \<Rightarrow> (bool \<times> ('f, 'q, 'z) runtime_scheme) option" where
  "save_input_timeout se timeout r =
     storage_manager_save_key (se_rt se) (se_ops se) (se_work_fn se) (se_initialized se) CORE_SYSTEM_APP_ID
       (Some timeout_key) (Some (timeout_bytes timeout)) 4 r"

text \<open>\<open>junk\<close> is the uninitialised local array.\<close>

definition retrieve_input_timeout ::
  "('f, 'q, 'n) store_env \<Rightarrow> byte list \<Rightarrow> 'n \<Rightarrow> lvgl_thread \<Rightarrow> ('f, 'q, 'z) runtime_scheme \<Rightarrow>
   (nat \<times> lvgl_thread \<times> ('f, 'q, 'z) runtime_scheme) option" where
  "retrieve_input_timeout se junk flash th r =
     do {
       (success, dest, len) \<leftarrow> storage_manager_retrieve_key (se_nvs se) (se_initialized se) CORE_SYSTEM_APP_ID
          (Some timeout_key) (Some junk) (Some 4) flash;
       if success
       then if len \<noteq> Some 4 then None
            else let timeout = bytes_timeout (the dest) in
              if timeout < DISPLAY_MIN_USER_INPUT_TIMEOUT
              then do {
                (_, r1) \<leftarrow> save_input_timeout se DISPLAY_MIN_USER_INPUT_TIMEOUT r;
                Some (DISPLAY_MIN_USER_INPUT_TIMEOUT, th\<lparr>input_timeout := DISPLAY_MIN_USER_INPUT_TIMEOUT\<rparr>, r1)
              }
              else Some (timeout, th, r)
       else do {
         (_, r1) \<leftarrow> save_input_timeout se DISPLAY_MIN_USER_INPUT_TIMEOUT r;
         Some (DISPLAY_MIN_USER_INPUT_TIMEOUT, th\<lparr>input_timeout := DISPLAY_MIN_USER_INPUT_TIMEOUT\<rparr>, r1)
       }
     }"

definition update_input_timeout ::
  "('f, 'q, 'n) store_env \<Rightarrow> nat \<Rightarrow> lvgl_thread \<Rightarrow> ('f, 'q, 'z) runtime_scheme \<Rightarrow>
   (bool \<times> lvgl_thread \<times> ('f, 'q, 'z) runtime_scheme) option" where
  "update_input_timeout se timeout th r =
     (if timeout < DISPLAY_MIN_USER_INPUT_TIMEOUT then None
      else map_option (\<lambda>(b, r1). (b, th\<lparr>input_timeout := timeout\<rparr>, r1)) (save_input_timeout se timeout r))"

text \<open>\<open>joined\<close>: the running thread leaves its loop within the 100 ms of the join.\<close>

definition stop_lvgl_thread :: "bool \<Rightarrow> lvgl_thread \<Rightarrow> lvgl_thread option" where
  "stop_lvgl_thread joined th =
     (let th0 = th\<lparr>lvgl_run_flag := False\<rparr> in
      if lvgl_exit_semaphore th0 = None then Some th0
      else do {
        th1 \<leftarrow> (if worker_handle th0 \<and> joined then lvgl_task_exit th0 else Some th0);
        Some (th1\<lparr>lvgl_exit_semaphore := None\<rparr>)
      })"

definition start_lvgl_thread ::
  "('f, 'q, 'n) store_env \<Rightarrow> byte list \<Rightarrow> 'n \<Rightarrow> bool \<Rightarrow> bool \<Rightarrow> bool \<Rightarrow> lvgl_thread \<Rightarrow> ('f, 'q, 'z) runtime_scheme \<Rightarrow>
   (lvgl_thread \<times> ('f, 'q, 'z) runtime_scheme) option" where
  "start_lvgl_thread se junk flash joined sem_ok task_ok th r =
     do {
       (timeout, th0, r1) \<leftarrow> retrieve_input_timeout se junk flash th r;
       let th1 = th0\<lparr>input_timeout := timeout\<rparr>;
       th2 \<leftarrow> (if worker_handle th1 \<and> lvgl_exit_semaphore th1 \<noteq> None then stop_lvgl_thread joined th1 else Some th1);
       if \<not> sem_ok then None
       else if task_ok
       then Some (th2\<lparr>lvgl_run_flag := True, lvgl_exit_semaphore := Some False, worker_handle := True\<rparr>, r1)
       else Some (th2\<lparr>lvgl_run_flag := False, lvgl_exit_semaphore := None, worker_handle := False\<rparr>, r1)
     }"

definition lvgl_thread_exists :: "lvgl_thread \<Rightarrow> bool" where
  "lvgl_thread_exists th \<longleftrightarrow> worker_handle th"

section \<open>The bridge\<close>

record ('g, 's, 'q) lvgl =
  lv_disp :: bool
  lv_panel :: "('g, 's) display"
  lv_in :: "'q input"
  lv_queue :: bool
  lv_wake :: int
  lv_thread :: lvgl_thread

text \<open>The environment: the display link, the input hardware and its queue, the storage, and the success of the creating calls.\<close>

record ('g, 's, 'q, 'f, 'w, 'n) lvgl_env =
  le_lcd :: "('g, 's) lcd_env"
  le_enc :: enc_env
  le_ops :: "(encoder_input, 'q) queue_ops"
  le_store :: "('f, 'w, 'n) store_env"
  le_buses_ok :: bool
  le_calloc_ok :: bool
  le_rst_ok :: bool
  le_disp_ok :: bool
  le_sem_ok :: bool
  le_task_ok :: bool
  le_joined :: bool
  le_junk :: "byte list"

definition lvgl_display_flush_cb ::
  "('g, 's) lcd_env \<Rightarrow> int \<Rightarrow> int \<Rightarrow> int \<Rightarrow> int \<Rightarrow> ('g, 's) display \<Rightarrow> ('g, 's) display option" where
  "lvgl_display_flush_cb env area_x1 area_y1 area_x2 area_y2 d =
     display_draw_bitmap env area_x1 area_y1 (area_x2 + 1) (area_y2 + 1) d"

definition start_thread_unless_running ::
  "('g, 's, 'q, 'f, 'w, 'n) lvgl_env \<Rightarrow> 'n \<Rightarrow> ('g, 's, 'q) lvgl \<Rightarrow> ('f, 'w, 'z) runtime_scheme \<Rightarrow>
   (('g, 's, 'q) lvgl \<times> ('f, 'w, 'z) runtime_scheme) option" where
  "start_thread_unless_running env flash l r =
     (if lvgl_thread_exists (lv_thread l) then Some (l, r)
      else map_option (\<lambda>(th, r1). (l\<lparr>lv_thread := th\<rparr>, r1))
        (start_lvgl_thread (le_store env) (le_junk env) flash (le_joined env) (le_sem_ok env) (le_task_ok env) (lv_thread l) r))"

definition init_lvgl ::
  "('g, 's, 'q, 'f, 'w, 'n) lvgl_env \<Rightarrow> 'n \<Rightarrow> ('g, 's, 'q) lvgl \<Rightarrow> ('f, 'w, 'z) runtime_scheme \<Rightarrow>
   (('g, 's, 'q) lvgl \<times> ('f, 'w, 'z) runtime_scheme) option" where
  "init_lvgl env flash l r =
     do {
       d1 \<leftarrow> init_display (le_lcd env) (le_buses_ok env) (le_calloc_ok env) (le_rst_ok env) True (lv_panel l);
       if \<not> le_disp_ok env then None else
       do {
       q \<leftarrow> xQueueCreate (le_ops env) MAX_INPUTS;
       i1 \<leftarrow> encoder_init (le_enc env) True ((lv_in l)\<lparr>inputs := q\<rparr>);
       (_, d2) \<leftarrow> display_on (le_lcd env) d1;
       start_thread_unless_running env flash
         (l\<lparr>lv_disp := True, lv_panel := d2, lv_in := setup_keyboard True i1, lv_queue := True,
            lv_wake := wakelock_manager_init (lv_wake l)\<rparr>) r
       }
     }"

definition deinit_lvgl :: "('g, 's, 'q, 'f, 'w, 'n) lvgl_env \<Rightarrow> ('g, 's, 'q) lvgl \<Rightarrow> ('g, 's, 'q) lvgl option" where
  "deinit_lvgl env l =
     do {
       th1 \<leftarrow> stop_lvgl_thread (le_joined env) (lv_thread l);
       w1 \<leftarrow> (if wakelock_manager_is_wake_locked (lv_wake l) then None else wakelock_manager_deinit (lv_wake l));
       i1 \<leftarrow> encoder_deinit (le_enc env) (delete_keyboard (lv_in l));
       (_, d1) \<leftarrow> display_off (le_lcd env) (lv_panel l);
       d2 \<leftarrow> deinit_display (le_lcd env) d1;
       Some (l\<lparr>lv_thread := th1, lv_disp := False, lv_wake := w1, lv_in := i1, lv_queue := False, lv_panel := d2\<rparr>)
     }"

definition suspend_lvgl :: "('g, 's, 'q, 'f, 'w, 'n) lvgl_env \<Rightarrow> ('g, 's, 'q) lvgl \<Rightarrow> ('g, 's, 'q) lvgl option" where
  "suspend_lvgl env l =
     (if wakelock_manager_is_wake_locked (lv_wake l) then None
      else do {
        th1 \<leftarrow> stop_lvgl_thread (le_joined env) (lv_thread l);
        i1 \<leftarrow> encoder_deinit (le_enc env) (lv_in l);
        (_, d1) \<leftarrow> display_sleep (le_lcd env) (lv_panel l);
        Some (l\<lparr>lv_thread := th1, lv_in := suspend_keyboard i1, lv_panel := d1\<rparr>)
      })"

definition resume_lvgl ::
  "('g, 's, 'q, 'f, 'w, 'n) lvgl_env \<Rightarrow> 'n \<Rightarrow> ('g, 's, 'q) lvgl \<Rightarrow> ('f, 'w, 'z) runtime_scheme \<Rightarrow>
   (('g, 's, 'q) lvgl \<times> ('f, 'w, 'z) runtime_scheme) option" where
  "resume_lvgl env flash l r =
     do {
       (_, d1) \<leftarrow> display_on (le_lcd env) (lv_panel l);
       i1 \<leftarrow> encoder_init (le_enc env) (lv_queue l) (resume_keyboard (lv_in l));
       start_thread_unless_running env flash (l\<lparr>lv_panel := d1, lv_in := i1\<rparr>) r
     }"

definition lvgl_bridge_update_inactivity_timeout ::
  "('f, 'q, 'n) store_env \<Rightarrow> nat \<Rightarrow> lvgl_thread \<Rightarrow> ('f, 'q, 'z) runtime_scheme \<Rightarrow>
   (bool \<times> lvgl_thread \<times> ('f, 'q, 'z) runtime_scheme) option" where
  "lvgl_bridge_update_inactivity_timeout se to th r =
     (if to < DISPLAY_MIN_USER_INPUT_TIMEOUT then Some (False, th, r) else update_input_timeout se to th r)"

section \<open>The screen timeout\<close>

lemma timeout_bytes_roundtrip: "t < 4294967296 \<Longrightarrow> bytes_timeout (timeout_bytes t) = t"
proof -
  assume t: "t < 4294967296"
  have "t div 16777216 < 256"
    using t by (simp add: div_less_iff_less_mult)
  then have m: "t div 16777216 mod 256 = t div 16777216"
    by simp
  have "t div 65536 = t div 16777216 * 256 + t div 65536 mod 256"
    using div_mult_mod_eq [of "t div 65536" 256] by (simp add: div_mult2_eq [symmetric])
  moreover have "t div 256 = t div 65536 * 256 + t div 256 mod 256"
    using div_mult_mod_eq [of "t div 256" 256] by (simp add: div_mult2_eq [symmetric])
  moreover have "t = t div 256 * 256 + t mod 256"
    by simp
  ultimately have "t div 16777216 * 16777216 + t div 65536 mod 256 * 65536 + t div 256 mod 256 * 256 + t mod 256 = t"
    by linarith
  then show ?thesis
    using m by (simp add: bytes_timeout_def timeout_bytes_def u8_def)
qed

interpretation timeout: stored_setting CORE_SYSTEM_APP_ID timeout_key 4 timeout_bytes bytes_timeout "\<lambda>t. t < 4294967296"
  by unfold_locales
    (simp_all add: timeout_key_def STORAGE_MAX_DATA_SIZE_def timeout_bytes_def [abs_def] timeout_bytes_roundtrip [unfolded timeout_bytes_def])

text \<open>
  The screen timeout is back after a restart. A timeout of at least five seconds is taken over at once and one
  write is scheduled; once a worker has carried it out on a flash that accepts it, a thread started from the stopped
  state runs with exactly this timeout. Shorter timeouts are refused and nothing changes.
\<close>

lemma timeout_survives_restart:
  assumes "nvs_spec (se_nvs se) look" and "se_initialized se" and "t < 4294967296"
    and "nvs_open (se_nvs se) (ns_name CORE_SYSTEM_APP_ID) True flash = NVS_OK"
    and "fst (nvs_set_blob (se_nvs se) (ns_name CORE_SYSTEM_APP_ID) timeout_key (timeout_bytes t) flash) = NVS_OK"
    and "nvs_open (se_nvs se) (ns_name CORE_SYSTEM_APP_ID) False
      (flash_written (se_nvs se) (ns_name CORE_SYSTEM_APP_ID) timeout_key (timeout_bytes t) flash) = NVS_OK"
    and "length junk = 4" and "\<not> worker_handle th'"
  shows "if t < DISPLAY_MIN_USER_INPUT_TIMEOUT then lvgl_bridge_update_inactivity_timeout se t th r = Some (False, th, r)
     else \<exists>w flash'. lvgl_bridge_update_inactivity_timeout se t th r =
         map_option (\<lambda>(b, r1). (b, th\<lparr>input_timeout := t\<rparr>, r1))
           (schedule_system_work (se_rt se) (se_ops se) (Some (storage_item (se_work_fn se) w)) r) \<and>
       storage_manager_execute_work (se_nvs se) (Some (work_bytes w)) flash = Some flash' \<and>
       start_lvgl_thread se junk flash' joined True True th' r' =
         Some (\<lparr>lvgl_run_flag = True, worker_handle = True, lvgl_exit_semaphore = Some False, input_timeout = t\<rparr>, r')"
proof -
  obtain flash' where f: "storage_manager_execute_work (se_nvs se) (Some (work_bytes (timeout.work t))) flash = Some flash'"
    "storage_manager_retrieve_key (se_nvs se) True CORE_SYSTEM_APP_ID (Some timeout_key) (Some junk) (Some 4) flash' =
      Some (True, Some (timeout_bytes t), Some 4)"
    using timeout.setting_read_back [OF assms(1,4-6), of junk] assms(7) by auto
  have "start_lvgl_thread se junk flash' joined True True th' r' =
      Some (\<lparr>lvgl_run_flag = True, worker_handle = True, lvgl_exit_semaphore = Some False, input_timeout = t\<rparr>, r')"
    if "\<not> t < DISPLAY_MIN_USER_INPUT_TIMEOUT"
    using that assms(2,8) f(2) timeout_bytes_roundtrip [OF assms(3)]
    by (simp add: start_lvgl_thread_def retrieve_input_timeout_def)
  then show ?thesis
    using f(1) assms(2) timeout.save_scheduled [of "se_rt se" "se_ops se" "se_work_fn se" t r]
    by (auto simp: lvgl_bridge_update_inactivity_timeout_def update_input_timeout_def save_input_timeout_def)
qed

lemma timeout_survives_restart_witness:
  "\<exists>w flash'. lvgl_bridge_update_inactivity_timeout ex_store 70000
       \<lparr>lvgl_run_flag = True, worker_handle = True, lvgl_exit_semaphore = Some False, input_timeout = 5000\<rparr> rt_static =
       map_option (\<lambda>(b, r1). (b, \<lparr>lvgl_run_flag = True, worker_handle = True, lvgl_exit_semaphore = Some False, input_timeout = 70000\<rparr>, r1))
         (schedule_system_work ex_env list_queue (Some (storage_item 7 w)) rt_static) \<and>
     storage_manager_execute_work map_nvs (Some (work_bytes w)) [] = Some flash' \<and>
     start_lvgl_thread ex_store [0, 0, 0, 0] flash' True True True
       \<lparr>lvgl_run_flag = False, worker_handle = False, lvgl_exit_semaphore = None, input_timeout = 0\<rparr> rt_static =
     Some (\<lparr>lvgl_run_flag = True, worker_handle = True, lvgl_exit_semaphore = Some False, input_timeout = 70000\<rparr>, rt_static)"
  using timeout_survives_restart [of ex_store flash_look 70000 "[]" "[0, 0, 0, 0]"
      "\<lparr>lvgl_run_flag = False, worker_handle = False, lvgl_exit_semaphore = None, input_timeout = 0\<rparr>"
      "\<lparr>lvgl_run_flag = True, worker_handle = True, lvgl_exit_semaphore = Some False, input_timeout = 5000\<rparr>" rt_static True rt_static]
    map_nvs_spec
  by (simp add: ex_store_def map_nvs_def DISPLAY_MIN_USER_INPUT_TIMEOUT_def flash_written_def)

section \<open>The clock of the library\<close>

definition did_bounded :: "lvgl_did \<Rightarrow> bool" where
  "did_bounded d \<longleftrightarrow> 1 \<le> did_delay d \<and> did_delay d \<le> 15"

lemma delay_bounds: "n \<le> 30 \<Longrightarrow> (if pdMS_TO_TICKS n = 0 then 1 else pdMS_TO_TICKS n) \<in> {1..15}"
  by (auto simp: pdMS_TO_TICKS_def u32_def)

text \<open>Subscribers that come back and leave the bus in order (\<open>keeps\<close>) when inactivity is published.\<close>

definition publishes :: "('h \<Rightarrow> sys_event \<Rightarrow> ('h, 'z) event_mgr_scheme \<Rightarrow> ('h, 'z) event_mgr_scheme) \<Rightarrow> (('h, 'z) event_mgr_scheme \<Rightarrow> bool) \<Rightarrow> bool" where
  "publishes call keeps \<longleftrightarrow> (\<forall>b. keeps b \<longrightarrow> (\<exists>r b'. event_publish call (Some ui_inactive_event) b = Some (r, b') \<and> keeps b'))"

lemma pass_effect:
  assumes "int (pass_time p div 1000) - int prev < 4294967296" "prev \<le> pass_time p div 1000" "publishes call keeps" "keeps bus"
  shows "\<exists>d bus1. lvgl_task_pass call wl timeout p ((b, prev), bus) = Some (d, (False, pass_time p div 1000), bus1) \<and>
     did_tick_inc d = pass_time p div 1000 - prev \<and> did_bounded d \<and> did_render d = b \<and>
     did_publish d = (\<not> wl \<and> pass_idle p > timeout) \<and> keeps bus1"
proof -
  obtain r b' where "event_publish call (Some ui_inactive_event) bus = Some (r, b')" "keeps b'"
    using assms(3,4) unfolding publishes_def by blast
  then show ?thesis
    using assms(1,2,4) delay_bounds [of "if pass_next p = LV_NO_TIMER_READY \<or> pass_next p > 30 then 30 else pass_next p"]
    by (auto simp: lvgl_task_pass_def Let_def did_bounded_def nat_diff_distrib)
qed

abbreviation pass_at :: "bool \<times> nat \<times> lvgl_pass \<Rightarrow> nat" where
  "pass_at x \<equiv> pass_time (snd (snd x))"

lemma lvgl_loop_effect:
  assumes "sorted (prev # map pass_at passes)" "\<forall>x \<in> set passes. pass_at x div 1000 < 4294967296" "publishes call keeps" "keeps bus"
  shows "\<exists>ds bus'. lvgl_task_loop call passes ((b, prev div 1000), bus) = Some (ds, bus') \<and>
     sum_list (map did_tick_inc ds) = last (prev # map pass_at passes) div 1000 - prev div 1000 \<and>
     (\<forall>d \<in> set ds. did_bounded d) \<and>
     map did_render ds = take (length passes) (b # replicate (length passes) False) \<and>
     map did_publish ds = map (\<lambda>(wl, timeout, p). \<not> wl \<and> pass_idle p > timeout) passes \<and> keeps bus'"
  using assms(1,2,4)
proof (induction passes arbitrary: b prev bus)
  case (Cons x xs)
  obtain wl timeout p where x: "x = (wl, timeout, p)" by (cases x)
  have p: "prev div 1000 \<le> pass_time p div 1000" "int (pass_time p div 1000) - int (prev div 1000) < 4294967296"
    using Cons.prems by (auto simp: x div_le_mono)
  obtain d bus1 where d: "lvgl_task_pass call wl timeout p ((b, prev div 1000), bus) = Some (d, (False, pass_time p div 1000), bus1)"
    "did_tick_inc d = pass_time p div 1000 - prev div 1000" "did_bounded d" "did_render d = b"
    "did_publish d = (\<not> wl \<and> pass_idle p > timeout)" "keeps bus1"
    using pass_effect [OF p(2,1) assms(3) Cons.prems(3)] by blast
  have "sorted (pass_time p # map pass_at xs)" "\<forall>x \<in> set xs. pass_at x div 1000 < 4294967296"
    using Cons.prems by (auto simp: x)
  then obtain ds bus' where ds: "lvgl_task_loop call xs ((False, pass_time p div 1000), bus1) = Some (ds, bus')"
    "sum_list (map did_tick_inc ds) = last (pass_time p # map pass_at xs) div 1000 - pass_time p div 1000"
    "\<forall>d \<in> set ds. did_bounded d" "map did_render ds = take (length xs) (False # replicate (length xs) False)"
    "map did_publish ds = map (\<lambda>(wl, timeout, p). \<not> wl \<and> pass_idle p > timeout) xs" "keeps bus'"
    using Cons.IH [OF _ _ d(6), of "pass_time p" False] by blast
  have "pass_time p \<le> last (pass_time p # map pass_at xs)"
    using Cons.prems(1) by (auto simp: x last_map)
  then have le: "pass_time p div 1000 \<le> last (pass_time p # map pass_at xs) div 1000"
    by (rule div_le_mono)
  show ?case
    using d ds p(1) le by (intro exI [of _ "d # ds"] exI [of _ bus']) (auto simp: x take_Cons')
qed simp

text \<open>
  The clock of the graphics library follows the clock of the system. Over any number of passes at times that do
  not run backwards, the tick increments add up to exactly the milliseconds between the start of the thread and its
  last pass, although each is rounded down; the thread sleeps between 1 and 15 ticks in every pass; only the first pass
  forces a full rendering; and inactivity is published exactly in the passes that find the watch not wake locked and
  idle for longer than the timeout.
\<close>

lemma lvgl_clock_exact:
  assumes "sorted (start # map (\<lambda>x. pass_time (snd (snd x))) passes)"
    and "\<forall>x \<in> set passes. pass_time (snd (snd x)) div 1000 < 4294967296" and "publishes call keeps" and "keeps bus"
  shows "\<exists>ds bus'. lvgl_task call start passes bus = Some (ds, bus') \<and>
     sum_list (map did_tick_inc ds) = last (start # map (\<lambda>x. pass_time (snd (snd x))) passes) div 1000 - start div 1000 \<and>
     (\<forall>d \<in> set ds. 1 \<le> did_delay d \<and> did_delay d \<le> 15) \<and>
     map did_render ds = take (length passes) (True # replicate (length passes) False) \<and>
     map did_publish ds = map (\<lambda>(wl, timeout, p). \<not> wl \<and> pass_idle p > timeout) passes"
  using lvgl_loop_effect [OF assms, of True] unfolding lvgl_task_def did_bounded_def by blast

lemma lvgl_clock_exact_witness:
  "\<exists>ds bus'. lvgl_task (\<lambda>h e s. s) 1999 [(False, 5000, \<lparr>pass_time = 3500, pass_next = 0, pass_idle = 10\<rparr>),
      (False, 5000, \<lparr>pass_time = 40000, pass_next = 33, pass_idle = 6000\<rparr>)] (\<lparr>em_subscriptions = [], em_initialized = False\<rparr> :: nat event_mgr) = Some (ds, bus') \<and>
     sum_list (map did_tick_inc ds) = 39"
proof -
  have "publishes (\<lambda>h e s. s) (\<lambda>b :: (nat, unit) event_mgr_scheme. \<not> em_initialized b)"
    unfolding publishes_def event_publish_def by simp blast
  then show ?thesis
    using lvgl_clock_exact [of 1999 "[(False, 5000, \<lparr>pass_time = 3500, pass_next = 0, pass_idle = 10\<rparr>),
      (False, 5000, \<lparr>pass_time = 40000, pass_next = 33, pass_idle = 6000\<rparr>)]"
      "\<lambda>h e s. s" "\<lambda>b :: nat event_mgr. \<not> em_initialized b" "\<lparr>em_subscriptions = [], em_initialized = False\<rparr>"]
    by auto
qed

section \<open>Sleeping and waking\<close>

definition input_ready :: "'q input \<Rightarrow> bool" where
  "input_ready i \<longleftrightarrow> enc_queue i \<and> kbd_queue i \<and> encoder_idle i \<and> pcnt_unit i \<and> pcnt_channel i \<and> key_isr i \<and>
     keypad_indev i = Some True"

definition input_parked :: "'q input \<Rightarrow> bool" where
  "input_parked i \<longleftrightarrow> \<not> enc_queue i \<and> kbd_queue i \<and> debounce_timer i = None \<and> long_press_timer i = None \<and>
     \<not> pcnt_unit i \<and> \<not> pcnt_channel i \<and> \<not> key_isr i \<and> keypad_indev i = Some False"

definition thread_running :: "lvgl_thread \<Rightarrow> bool" where
  "thread_running th \<longleftrightarrow> lvgl_run_flag th \<and> worker_handle th \<and> lvgl_exit_semaphore th = Some False"

definition thread_stopped :: "lvgl_thread \<Rightarrow> bool" where
  "thread_stopped th \<longleftrightarrow> \<not> lvgl_run_flag th \<and> \<not> worker_handle th \<and> lvgl_exit_semaphore th = None"

definition lvgl_active :: "('g, 's, 'q) lvgl \<Rightarrow> bool" where
  "lvgl_active l \<longleftrightarrow> lv_queue l \<and> display_ok (lv_panel l) \<and> fsm_state (lv_panel l) = DISPLAY_STATE_ON \<and>
     input_ready (lv_in l) \<and> thread_running (lv_thread l)"

definition lvgl_asleep :: "('g, 's, 'q) lvgl \<Rightarrow> bool" where
  "lvgl_asleep l \<longleftrightarrow> lv_queue l \<and> display_ok (lv_panel l) \<and> fsm_state (lv_panel l) = DISPLAY_STATE_SLEEP \<and>
     input_parked (lv_in l) \<and> thread_stopped (lv_thread l)"

lemma enc_checks_works:
  "(\<And>ops c. env ops c) \<Longrightarrow> enc_checks env cs s = Some (s\<lparr>enc_log := enc_log s @ cs\<rparr>)"
  by (induction cs arbitrary: s) (simp_all add: enc_check_def)

lemma encoder_init_works:
  assumes "\<And>ops c. env ops c"
  shows "\<exists>i'. encoder_init env True i = Some i' \<and> enc_queue i' \<and> encoder_idle i' \<and> pcnt_unit i' \<and> pcnt_channel i' \<and> key_isr i' \<and>
     kbd_queue i' = kbd_queue i \<and> keypad_indev i' = keypad_indev i \<and> inputs i' = inputs i"
  using assms by (simp add: encoder_init_def enc_check_def enc_checks_works encoder_idle_def)

lemma encoder_deinit_works:
  assumes "\<And>ops c. env ops c"
  shows "\<exists>i'. encoder_deinit env i = Some i' \<and> \<not> enc_queue i' \<and> debounce_timer i' = None \<and> long_press_timer i' = None \<and>
     \<not> pcnt_unit i' \<and> \<not> pcnt_channel i' \<and> \<not> key_isr i' \<and> kbd_queue i' = kbd_queue i \<and> keypad_indev i' = keypad_indev i \<and>
     inputs i' = inputs i"
  using assms by (cases "pcnt_unit i"; cases "pcnt_channel i") (simp_all add: encoder_deinit_def enc_check_def Let_def)

lemma display_sleep_works:
  assumes "lcd_works env" "lcd_balanced env (lcd_lock d)" "panel_handle d \<noteq> None" "fsm_state d = DISPLAY_STATE_ON"
  shows "\<exists>d1. display_sleep env d = Some (True, d1) \<and> display_ok d1 \<and> fsm_state d1 = DISPLAY_STATE_SLEEP \<and> lcd_lock d1 = lcd_lock d"
proof -
  obtain p where p: "panel_handle d = Some p" using assms(3) by auto
  show ?thesis
    using panel_sleep_works(1) [OF assms(1), of "d\<lparr>fsm_state := DISPLAY_STATE_SLEEP\<rparr>" p] assms(2,4) p
    by (auto simp: display_sleep_def fsm_display_state_transition_def with_panel_def roll_back_def display_ok_def)
qed

lemma display_wake_works:
  assumes "lcd_works env" "lcd_balanced env (lcd_lock d)" "panel_handle d \<noteq> None" "fsm_state d = DISPLAY_STATE_SLEEP"
  shows "\<exists>d1. display_on env d = Some (True, d1) \<and> display_ok d1 \<and> fsm_state d1 = DISPLAY_STATE_ON \<and> lcd_lock d1 = lcd_lock d"
proof -
  obtain p where p: "panel_handle d = Some p" using assms(3) by auto
  show ?thesis
    using panel_sleep_works(2) [OF assms(1), of "d\<lparr>fsm_state := DISPLAY_STATE_ON\<rparr>" p] assms(2,4) p
    by (auto simp: display_on_def display_wakeup_def fsm_display_state_transition_def with_panel_def roll_back_def display_ok_def)
qed

text \<open>Hardware and link work, and the timeout has been stored.\<close>

definition lvgl_works :: "('g, 's, 'q, 'f, 'w, 'n) lvgl_env \<Rightarrow> bool" where
  "lvgl_works env \<longleftrightarrow> lcd_works (le_lcd env) \<and> (\<forall>ops c. le_enc env ops c) \<and> le_sem_ok env \<and> le_task_ok env \<and>
     se_initialized (le_store env) \<and> length (le_junk env) = 4"

definition timeout_stored :: "'n nvs_ops \<Rightarrow> ('n \<Rightarrow> namespace \<Rightarrow> byte list \<Rightarrow> byte list option) \<Rightarrow> 'n \<Rightarrow> nat \<Rightarrow> bool" where
  "timeout_stored nvs look flash t \<longleftrightarrow> nvs_spec nvs look \<and> nvs_open nvs (ns_name CORE_SYSTEM_APP_ID) False flash = NVS_OK \<and>
     look flash (ns_name CORE_SYSTEM_APP_ID) timeout_key = Some (timeout_bytes t) \<and>
     DISPLAY_MIN_USER_INPUT_TIMEOUT \<le> t \<and> t < 4294967296"

lemma start_stored:
  assumes "timeout_stored (se_nvs se) look flash t" "se_initialized se" "length junk = 4" "\<not> worker_handle th"
  shows "start_lvgl_thread se junk flash joined True True th r =
    Some (\<lparr>lvgl_run_flag = True, worker_handle = True, lvgl_exit_semaphore = Some False, input_timeout = t\<rparr>, r)"
proof -
  have "storage_manager_retrieve_key (se_nvs se) True CORE_SYSTEM_APP_ID (Some timeout_key) (Some junk) (Some 4) flash =
      Some (True, Some (timeout_bytes t), Some 4)"
    using assms(1,3) by (intro timeout.read_stored [of _ look]) (simp_all add: timeout_stored_def)
  then show ?thesis
    using assms timeout_bytes_roundtrip [of t]
    by (simp add: start_lvgl_thread_def retrieve_input_timeout_def timeout_stored_def)
qed

lemma suspend_works:
  assumes "lvgl_works env" "le_joined env" "lvgl_active l" "lv_wake l \<le> 0" "lcd_balanced (le_lcd env) (lcd_lock (lv_panel l))"
  shows "\<exists>l1. suspend_lvgl env l = Some l1 \<and> lvgl_asleep l1 \<and> inputs (lv_in l1) = inputs (lv_in l) \<and> lv_wake l1 = lv_wake l \<and>
     lcd_lock (lv_panel l1) = lcd_lock (lv_panel l)"
proof -
  obtain d1 where d1: "display_sleep (le_lcd env) (lv_panel l) = Some (True, d1)" "display_ok d1" "fsm_state d1 = DISPLAY_STATE_SLEEP"
    "lcd_lock d1 = lcd_lock (lv_panel l)"
    using display_sleep_works [of "le_lcd env" "lv_panel l"] assms by (auto simp: lvgl_works_def lvgl_active_def display_ok_def)
  obtain i1 where i1: "encoder_deinit (le_enc env) (lv_in l) = Some i1" "input_parked (suspend_keyboard i1)" "inputs i1 = inputs (lv_in l)"
    using encoder_deinit_works [of "le_enc env" "lv_in l"] assms(1,3)
    by (auto simp: lvgl_works_def lvgl_active_def input_ready_def input_parked_def suspend_keyboard_def)
  show ?thesis
    using assms(2-4) d1 i1
    by (auto simp: suspend_lvgl_def wakelock_manager_is_wake_locked_def stop_lvgl_thread_def lvgl_task_exit_def Let_def
        lvgl_active_def lvgl_asleep_def thread_running_def thread_stopped_def suspend_keyboard_def)
qed

lemma resume_works:
  assumes "lvgl_works env" "timeout_stored (se_nvs (le_store env)) look flash t" "lvgl_asleep l"
    "lcd_balanced (le_lcd env) (lcd_lock (lv_panel l))"
  shows "\<exists>l1. resume_lvgl env flash l r = Some (l1, r) \<and> lvgl_active l1 \<and> inputs (lv_in l1) = inputs (lv_in l) \<and> lv_wake l1 = lv_wake l \<and>
     input_timeout (lv_thread l1) = t"
proof -
  obtain d1 where d1: "display_on (le_lcd env) (lv_panel l) = Some (True, d1)" "display_ok d1" "fsm_state d1 = DISPLAY_STATE_ON"
    using display_wake_works [of "le_lcd env" "lv_panel l"] assms by (auto simp: lvgl_works_def lvgl_asleep_def display_ok_def)
  obtain i1 where i1: "encoder_init (le_enc env) True (resume_keyboard (lv_in l)) = Some i1" "input_ready i1" "inputs i1 = inputs (lv_in l)"
    using encoder_init_works [of "le_enc env" "resume_keyboard (lv_in l)"] assms(1,3)
    by (auto simp: lvgl_works_def lvgl_asleep_def input_ready_def input_parked_def resume_keyboard_def)
  have "start_lvgl_thread (le_store env) (le_junk env) flash (le_joined env) True True (lv_thread l) r =
      Some (\<lparr>lvgl_run_flag = True, worker_handle = True, lvgl_exit_semaphore = Some False, input_timeout = t\<rparr>, r)"
    using assms(1,3) by (intro start_stored [OF assms(2)]) (simp_all add: lvgl_works_def lvgl_asleep_def thread_stopped_def)
  then show ?thesis
    using assms(1,3) d1 i1
    by (simp add: resume_lvgl_def start_thread_unless_running_def lvgl_thread_exists_def lvgl_works_def lvgl_asleep_def
        thread_stopped_def lvgl_active_def thread_running_def)
qed

text \<open>
  The user interface sleeps and wakes. On working hardware, suspending an active interface that nobody keeps awake
  stops the thread, releases the pulse counter, the timers and the button interrupt, disables the keypad and puts the
  panel to sleep; resuming brings all of it back, with the keys still in the queue and the stored timeout.
\<close>

lemma ui_sleeps_and_wakes:
  assumes "lvgl_works env" and "le_joined env" and "lvgl_active l" and "lv_wake l \<le> 0"
    and "lcd_balanced (le_lcd env) (lcd_lock (lv_panel l))" and "timeout_stored (se_nvs (le_store env)) look flash t"
  shows "\<exists>l1 l2. suspend_lvgl env l = Some l1 \<and> lvgl_asleep l1 \<and> resume_lvgl env flash l1 r = Some (l2, r) \<and> lvgl_active l2 \<and>
     inputs (lv_in l2) = inputs (lv_in l) \<and> lv_wake l2 = lv_wake l \<and> input_timeout (lv_thread l2) = t"
proof -
  obtain l1 where l1: "suspend_lvgl env l = Some l1" "lvgl_asleep l1" "inputs (lv_in l1) = inputs (lv_in l)" "lv_wake l1 = lv_wake l"
    "lcd_lock (lv_panel l1) = lcd_lock (lv_panel l)"
    using suspend_works [OF assms(1-5)] by blast
  then show ?thesis
    using resume_works [OF assms(1,6) l1(2), of r] assms(5) by auto
qed

text \<open>
  A thread that is late for the join takes the interface down. When the handler thread does not leave its loop
  within the 100 ms of the join, the suspension deletes the exit semaphore all the same: the thread then gives a null
  semaphore when it ends, which aborts; and if the interface is resumed before that, the thread counts as running, so
  no new one is started, and the flag that lets it run stays false.
\<close>

lemma late_join_stops_ui:
  assumes "lvgl_works env" and "\<not> le_joined env" and "lvgl_active l" and "lv_wake l \<le> 0"
    and "lcd_balanced (le_lcd env) (lcd_lock (lv_panel l))"
  shows "\<exists>l1 l2. suspend_lvgl env l = Some l1 \<and> lvgl_task_exit (lv_thread l1) = None \<and>
     resume_lvgl env flash l1 r = Some (l2, r) \<and> \<not> lvgl_run_flag (lv_thread l2) \<and> lvgl_task_exit (lv_thread l2) = None"
proof -
  have ok: "display_ok (lv_panel l)" "fsm_state (lv_panel l) = DISPLAY_STATE_ON"
    using assms(3) by (simp_all add: lvgl_active_def)
  obtain d1 where d1: "display_sleep (le_lcd env) (lv_panel l) = Some (True, d1)" "display_ok d1" "fsm_state d1 = DISPLAY_STATE_SLEEP"
    "lcd_lock d1 = lcd_lock (lv_panel l)"
    using display_sleep_works [of "le_lcd env" "lv_panel l"] assms(1,5) ok by (auto simp: lvgl_works_def display_ok_def)
  obtain i1 where i1: "encoder_deinit (le_enc env) (lv_in l) = Some i1"
    using encoder_deinit_works [of "le_enc env" "lv_in l"] assms(1) by (auto simp: lvgl_works_def)
  let ?th = "(lv_thread l)\<lparr>lvgl_run_flag := False, lvgl_exit_semaphore := None\<rparr>"
  let ?l1 = "l\<lparr>lv_thread := ?th, lv_in := suspend_keyboard i1, lv_panel := d1\<rparr>"
  have l1: "suspend_lvgl env l = Some ?l1"
    using assms(2-4) d1(1) i1
    by (simp add: suspend_lvgl_def wakelock_manager_is_wake_locked_def stop_lvgl_thread_def lvgl_active_def thread_running_def)
  obtain d2 where d2: "display_on (le_lcd env) d1 = Some (True, d2)"
    using display_wake_works [of "le_lcd env" d1] assms(1,5) d1 by (auto simp: lvgl_works_def display_ok_def)
  obtain i2 where i2: "encoder_init (le_enc env) True (resume_keyboard (suspend_keyboard i1)) = Some i2"
    using encoder_init_works [of "le_enc env" "resume_keyboard (suspend_keyboard i1)"] assms(1) by (auto simp: lvgl_works_def)
  have "resume_lvgl env flash ?l1 r = Some (?l1\<lparr>lv_panel := d2, lv_in := i2\<rparr>, r)"
    using assms(3) d2 i2
    by (simp add: resume_lvgl_def start_thread_unless_running_def lvgl_thread_exists_def lvgl_active_def thread_running_def)
  then show ?thesis
    using l1 by (intro exI [of _ ?l1] exI [of _ "?l1\<lparr>lv_panel := d2, lv_in := i2\<rparr>"]) (simp add: lvgl_task_exit_def)
qed

definition ex_lvgl_env ::
  "bool \<Rightarrow> (gpio_call list \<times> gpio_sys \<times> (nat, nat \<times> nat work_item list) runtime, int, nat \<times> encoder_input list, nat,
    nat \<times> nat work_item list, map_flash) lvgl_env" where
  "ex_lvgl_env joined = \<lparr>le_lcd = ex_lcd_env, le_enc = (\<lambda>ops c. True), le_ops = list_queue, le_store = ex_store, le_buses_ok = True,
     le_calloc_ok = True, le_rst_ok = True, le_disp_ok = True, le_sem_ok = True, le_task_ok = True, le_joined = joined,
     le_junk = [0, 0, 0, 0]\<rparr>"

definition ex_lvgl :: "(gpio_call list \<times> gpio_sys \<times> (nat, nat \<times> nat work_item list) runtime, int, nat \<times> encoder_input list) lvgl" where
  "ex_lvgl = \<lparr>lv_disp = True, lv_panel = ex_display DISPLAY_STATE_ON [Tx_param ST7735_SLPOUT [], Tx_param ST7735_DISPON []],
     lv_in = ex_input, lv_queue = True, lv_wake = 0, lv_thread = \<lparr>lvgl_run_flag = True, worker_handle = True,
     lvgl_exit_semaphore = Some False, input_timeout = 5000\<rparr>\<rparr>"

lemma ex_lvgl_env_works: "lvgl_works (ex_lvgl_env joined)"
  using ex_works by (simp add: lvgl_works_def ex_lvgl_env_def ex_store_def)

lemma ex_lvgl_active: "lvgl_active ex_lvgl"
  by (simp add: lvgl_active_def ex_lvgl_def ex_display_def display_ok_def panel_mode_def controller_def lcd_cmds input_ready_def
      ex_input_def encoder_idle_def thread_running_def)

lemma ex_timeout_stored: "timeout_stored map_nvs flash_look [(ns_name CORE_SYSTEM_APP_ID, timeout_key, timeout_bytes 9000)] 9000"
  using map_nvs_spec by (simp add: timeout_stored_def map_nvs_def flash_look_def DISPLAY_MIN_USER_INPUT_TIMEOUT_def)

lemma ui_sleeps_and_wakes_witness:
  "\<exists>l1 l2. suspend_lvgl (ex_lvgl_env True) ex_lvgl = Some l1 \<and> lvgl_asleep l1 \<and>
     resume_lvgl (ex_lvgl_env True) [(ns_name CORE_SYSTEM_APP_ID, timeout_key, timeout_bytes 9000)] l1 rt_static = Some (l2, rt_static) \<and>
     lvgl_active l2 \<and> input_timeout (lv_thread l2) = 9000"
  using ui_sleeps_and_wakes [OF ex_lvgl_env_works _ ex_lvgl_active, of True flash_look
      "[(ns_name CORE_SYSTEM_APP_ID, timeout_key, timeout_bytes 9000)]" 9000 rt_static] ex_timeout_stored ex_balanced
  by (auto simp: ex_lvgl_env_def ex_lvgl_def ex_store_def ex_display_def)

lemma late_join_stops_ui_witness:
  "\<exists>l1 l2. suspend_lvgl (ex_lvgl_env False) ex_lvgl = Some l1 \<and> lvgl_task_exit (lv_thread l1) = None \<and>
     resume_lvgl (ex_lvgl_env False) [] l1 rt_static = Some (l2, rt_static) \<and> \<not> lvgl_run_flag (lv_thread l2)"
  using late_join_stops_ui [OF ex_lvgl_env_works _ ex_lvgl_active, of False "[]" rt_static] ex_balanced
  by (auto simp: ex_lvgl_env_def ex_lvgl_def ex_display_def)

end
