(* ===== verification/Calendar.thy ===== *)
theory Calendar
  imports Common_Types
begin

text \<open>
  Dates and times of \<open>common_apis.c\<close>: the conversion between seconds since 1970 and calendar fields, and the check of
  a date entered by the user. The code uses \<open>gmtime_r\<close> and \<open>timegm\<close> of the C library; both are modelled here for the
  proleptic Gregorian calendar of POSIX, with months counted from 0 and out-of-range fields normalised by \<open>timegm\<close>.
  \<open>time_t\<close> has 64 bits on the target, more than the fields can reach.
\<close>

section \<open>The calendar of the C library\<close>

record tm =
  tm_sec :: int
  tm_min :: int
  tm_hour :: int
  tm_mday :: int
  tm_mon :: int
  tm_year :: int

definition is_leap :: "int \<Rightarrow> bool" where
  "is_leap y \<longleftrightarrow> y mod 4 = 0 \<and> (y mod 100 \<noteq> 0 \<or> y mod 400 = 0)"

definition year_length :: "int \<Rightarrow> int" where
  "year_length y = (if is_leap y then 366 else 365)"

definition month_length :: "int \<Rightarrow> int \<Rightarrow> int" where
  "month_length y m = (if m = 1 then (if is_leap y then 29 else 28) else if m \<in> {3, 5, 8, 10} then 30 else 31)"

text \<open>Days from 1 January 1970 to 1 January of a year, and from there to the first of a month.\<close>

definition days_before_year :: "int \<Rightarrow> int" where
  "days_before_year y = 365 * (y - 1970) + ((y - 1) div 4 - (y - 1) div 100 + (y - 1) div 400) - 477"

definition days_before_month :: "int \<Rightarrow> int \<Rightarrow> int" where
  "days_before_month y m =
     [0, 31, 59, 90, 120, 151, 181, 212, 243, 273, 304, 334] ! nat m + (if 2 \<le> m \<and> is_leap y then 1 else 0)"

definition timegm :: "tm \<Rightarrow> int" where
  "timegm tm =
     (let y = tm_year tm + 1900 + tm_mon tm div 12; m = tm_mon tm mod 12;
          days = days_before_year y + days_before_month y m + tm_mday tm - 1
      in ((days * 24 + tm_hour tm) * 60 + tm_min tm) * 60 + tm_sec tm)"

lemma div_step: "y div n = (y - 1) div n + (if y mod n = 0 then 1 else 0)" if "0 < n" for n y :: int
proof (cases "y mod n = 0")
  case True
  then have "y - 1 = n * (y div n - 1) + (n - 1)"
    using mult_div_mod_eq [of n y] by (simp add: algebra_simps)
  then have "(y - 1) div n = y div n - 1"
    using that by (intro int_div_pos_eq [where r = "n - 1"]) simp_all
  then show ?thesis using True by simp
next
  case False
  have r: "0 \<le> y mod n" "y mod n < n" using that by simp_all
  have "y - 1 = n * (y div n) + (y mod n - 1)"
    by simp
  then have "(y - 1) div n = y div n"
    using False r by (intro int_div_pos_eq [where r = "y mod n - 1"]) simp_all
  then show ?thesis using False by simp
qed

lemma leap_nested: "y mod 400 = 0 \<Longrightarrow> y mod 100 = 0" "y mod 100 = 0 \<Longrightarrow> y mod 4 = 0" for y :: int
  using dvd_trans [of 100 400 y] dvd_trans [of 4 100 y] by (auto simp: mod_eq_0_iff_dvd)

lemma leap_count:
  "(C \<longrightarrow> B) \<Longrightarrow> (B \<longrightarrow> A) \<Longrightarrow>
   (if A \<and> (\<not> B \<or> C) then 366 else 365 :: int) = 365 + (if A then 1 else 0) - (if B then 1 else 0) + (if C then 1 else 0)"
  by (cases A; cases B; cases C) simp_all

lemma next_year_sum:
  "l = 365 + a - b + c \<Longrightarrow> p = p' + a \<Longrightarrow> q = q' + b \<Longrightarrow> r = r' + c \<Longrightarrow>
   365 * (y + 1 - 1970) + (p - q + r) - 477 = 365 * (y - 1970) + (p' - q' + r') - 477 + l" for y :: int
  by simp

lemma days_before_next_year: "days_before_year (y + 1) = days_before_year y + year_length y"
proof -
  have "year_length y = 365 + (if y mod 4 = 0 then 1 else 0) - (if y mod 100 = 0 then 1 else 0) + (if y mod 400 = 0 then 1 else 0)"
    unfolding year_length_def is_leap_def using leap_nested [of y] by (intro leap_count) blast+
  from next_year_sum [OF this div_step [of 4 y] div_step [of 100 y] div_step [of 400 y]] show ?thesis
    unfolding days_before_year_def add_diff_cancel_right' by simp
qed

lemma year_length_bounds: "365 \<le> year_length y" "year_length y \<le> 366"
  by (simp_all add: year_length_def)

function year_up :: "int \<Rightarrow> int \<Rightarrow> int" where
  "year_up y d = (if d < days_before_year (y + 1) then y else year_up (y + 1) d)"
  by pat_completeness auto
termination
proof (relation "measure (\<lambda>(y, d). nat (d + 1 - days_before_year y))", goal_cases)
  case (2 y d)
  then show ?case
    using days_before_next_year [of y] year_length_bounds [of y] by auto
qed simp

declare year_up.simps [simp del]

primrec month_up :: "nat \<Rightarrow> int \<Rightarrow> int \<Rightarrow> int \<Rightarrow> int \<times> int" where
  "month_up 0 y m d = (m, d)"
| "month_up (Suc n) y m d = (if d < month_length y m then (m, d) else month_up n y (m + 1) (d - month_length y m))"

text \<open>Years are found in the cycle of 400 years that begins in 1970.\<close>

definition civil :: "int \<Rightarrow> int \<times> int \<times> int" where
  "civil days =
     (let cycle = days div 146097; y0 = year_up 1970 (days mod 146097); y = y0 + 400 * cycle;
          (m, d) = month_up 11 y 0 (days mod 146097 - days_before_year y0)
      in (y, m, d + 1))"

definition gmtime :: "int \<Rightarrow> tm" where
  "gmtime t =
     (let (y, m, d) = civil (t div 86400); r = t mod 86400
      in \<lparr>tm_sec = r mod 60, tm_min = r div 60 mod 60, tm_hour = r div 3600, tm_mday = d, tm_mon = m, tm_year = y - 1900\<rparr>)"

definition tm_wday :: "int \<Rightarrow> int" where
  "tm_wday t = (t div 86400 + 4) mod 7"

section \<open>Operations\<close>

record date_time =
  dt_day :: byte
  dt_month :: byte
  dt_year :: "16 word"
  dt_hr :: byte
  dt_min :: byte
  dt_sec :: byte
  d_week :: byte

definition get_date_time_from_epoch :: "nat \<Rightarrow> date_time" where
  "get_date_time_from_epoch secs =
     (let curr_time = gmtime (int secs)
      in \<lparr>dt_day = of_int (tm_mday curr_time), dt_month = of_int (tm_mon curr_time + 1), dt_year = of_int (tm_year curr_time + 1900),
          dt_hr = of_int (tm_hour curr_time), dt_min = of_int (tm_min curr_time), dt_sec = of_int (tm_sec curr_time),
          d_week = of_int (tm_wday (int secs))\<rparr>)"

definition tm_of :: "date_time \<Rightarrow> tm" where
  "tm_of dt = \<lparr>tm_sec = uint (dt_sec dt), tm_min = uint (dt_min dt), tm_hour = uint (dt_hr dt), tm_mday = uint (dt_day dt),
     tm_mon = uint (dt_month dt) - 1, tm_year = uint (dt_year dt) - 1900\<rparr>"

definition get_epoch_from_date_time :: "date_time \<Rightarrow> nat" where
  "get_epoch_from_date_time dt = nat (timegm (tm_of dt) mod 4294967296)"

definition validate_date_time :: "date_time \<Rightarrow> bool" where
  "validate_date_time dt =
     (let temp_tm = tm_of dt; t = timegm temp_tm; check_tm = gmtime t
      in if t = -1 then False
         else tm_sec temp_tm = tm_sec check_tm \<and> tm_min temp_tm = tm_min check_tm \<and> tm_hour temp_tm = tm_hour check_tm \<and>
           tm_mday temp_tm = tm_mday check_tm \<and> tm_mon temp_tm = tm_mon check_tm \<and> tm_year temp_tm = tm_year check_tm)"

section \<open>Days and dates\<close>

definition valid_civil :: "int \<times> int \<times> int \<Rightarrow> bool" where
  "valid_civil = (\<lambda>(y, m, d). 0 \<le> m \<and> m < 12 \<and> 1 \<le> d \<and> d \<le> month_length y m)"

definition day_number :: "int \<times> int \<times> int \<Rightarrow> int" where
  "day_number = (\<lambda>(y, m, d). days_before_year y + days_before_month y m + d - 1)"

lemma days_before_next_month:
  assumes "0 \<le> m" "m < 11"
  shows "days_before_month y (m + 1) = days_before_month y m + month_length y m"
proof -
  have "m = 0 \<or> m = 1 \<or> m = 2 \<or> m = 3 \<or> m = 4 \<or> m = 5 \<or> m = 6 \<or> m = 7 \<or> m = 8 \<or> m = 9 \<or> m = 10"
    using assms by presburger
  then show ?thesis by (elim disjE) (simp_all add: days_before_month_def month_length_def)
qed

lemma last_month: "days_before_month y 11 + month_length y 11 = year_length y" "days_before_month y 0 = 0"
  by (simp_all add: days_before_month_def month_length_def year_length_def)

lemma month_length_bounds: "28 \<le> month_length y m" "month_length y m \<le> 31"
  by (simp_all add: month_length_def)

lemma days_before_year_mono: "y \<le> z \<Longrightarrow> days_before_year y \<le> days_before_year z"
proof (induction "nat (z - y)" arbitrary: z)
  case (Suc n)
  then have "days_before_year y \<le> days_before_year (z - 1)"
    by (intro Suc.hyps(1)) auto
  then show ?case
    using days_before_next_year [of "z - 1"] year_length_bounds(1) [of "z - 1"] by simp
qed simp

lemma days_before_month_mono: "0 \<le> m \<Longrightarrow> m \<le> n \<Longrightarrow> n < 12 \<Longrightarrow> days_before_month y m \<le> days_before_month y n"
proof (induction "nat (n - m)" arbitrary: n)
  case (Suc k)
  then have "days_before_month y m \<le> days_before_month y (n - 1)"
    by (intro Suc.hyps(1)) auto
  then show ?case
    using days_before_next_month [of "n - 1" y] month_length_bounds(1) [of y "n - 1"] Suc.hyps(2) Suc.prems by auto
qed simp

lemma in_year:
  assumes "valid_civil (y, m, d)"
  shows "0 \<le> days_before_month y m + d - 1" "days_before_month y m + d - 1 < year_length y"
proof -
  have md: "0 \<le> m" "m < 12" "1 \<le> d" "d \<le> month_length y m"
    using assms by (auto simp: valid_civil_def)
  show "0 \<le> days_before_month y m + d - 1"
    using days_before_month_mono [of 0 m y] last_month(2) [of y] md by simp
  show "days_before_month y m + d - 1 < year_length y"
  proof (cases "m = 11")
    case False
    then show ?thesis
      using days_before_next_month [of m y] days_before_month_mono [of "m + 1" 11 y] last_month(1) [of y] month_length_bounds(1) [of y 11] md
      by simp
  qed (use md last_month(1) [of y] in auto)
qed

lemma day_number_inj:
  assumes "valid_civil (y, m, d)" "valid_civil (y', m', d')" "day_number (y, m, d) = day_number (y', m', d')"
  shows "(y, m, d) = (y', m', d')"
proof -
  have year: "\<not> a < b" if "valid_civil (a, k, i)" "valid_civil (b, l, j)" "day_number (a, k, i) = day_number (b, l, j)" for a k i b l j
    using in_year [OF that(1)] in_year [OF that(2)] that(3) days_before_year_mono [of "a + 1" b] days_before_next_year [of a]
    by (auto simp: day_number_def)
  have "y = y'"
    using year [OF assms] year [OF assms(2,1)] assms(3) by simp
  moreover have month: "\<not> k < l" if "valid_civil (y, k, i)" "valid_civil (y, l, j)" "day_number (y, k, i) = day_number (y, l, j)" for k i l j
    using that days_before_month_mono [of "k + 1" l y] days_before_next_month [of k y] by (auto simp: day_number_def valid_civil_def)
  ultimately have "m = m'"
    using month [of m d m' d'] month [of m' d' m d] assms by (metis linorder_neqE)
  then show ?thesis
    using \<open>y = y'\<close> assms(3) by (simp add: day_number_def)
qed

lemma year_up_spec:
  "days_before_year y \<le> d \<Longrightarrow> days_before_year (year_up y d) \<le> d \<and> d < days_before_year (year_up y d + 1)"
proof (induction y d rule: year_up.induct)
  case (1 y d)
  then show ?case
    by (subst (1 2) year_up.simps) auto
qed

lemma month_up_spec:
  assumes "0 \<le> m" "m + int n = 11" "0 \<le> d" "days_before_month y m + d < year_length y" "month_up n y m d = (m', d')"
  shows "0 \<le> m' \<and> m' < 12 \<and> 0 \<le> d' \<and> d' < month_length y m' \<and> days_before_month y m' + d' = days_before_month y m + d"
  using assms
proof (induction n arbitrary: m d)
  case 0
  then show ?case
    using last_month(1) [of y] by auto
next
  case (Suc n)
  show ?case
  proof (cases "d < month_length y m")
    case True
    then show ?thesis using Suc.prems by auto
  next
    case False
    then show ?thesis
      using Suc.prems days_before_next_month [of m y] Suc.IH [of "m + 1" "d - month_length y m"] by auto
  qed
qed

lemma cycle_div: "(a + 400 * k) div 4 = a div 4 + 100 * k" "(a + 400 * k) div 100 = a div 100 + 4 * k"
  "(a + 400 * k) div 400 = a div 400 + k" for a k :: int
  using div_mult_self2 [of 4 a "100 * k"] div_mult_self2 [of 100 a "4 * k"] div_mult_self2 [of 400 a k] by simp_all

lemma cycle_mod: "(a + 400 * k) mod 4 = a mod 4" "(a + 400 * k) mod 100 = a mod 100" "(a + 400 * k) mod 400 = a mod 400"
  for a k :: int
  using mod_mult_self2 [of a 4 "100 * k"] mod_mult_self2 [of a 100 "4 * k"] mod_mult_self2 [of a 400 k] by simp_all

lemma cycle:
  "days_before_year (y + 400 * k) = days_before_year y + 146097 * k"
  "is_leap (y + 400 * k) = is_leap y"
  "year_length (y + 400 * k) = year_length y"
proof -
  have "y + 400 * k - 1 = y - 1 + 400 * k" by simp
  then show "days_before_year (y + 400 * k) = days_before_year y + 146097 * k"
    unfolding days_before_year_def by (simp only: cycle_div) simp
  show "is_leap (y + 400 * k) = is_leap y"
    unfolding is_leap_def cycle_mod ..
  then show "year_length (y + 400 * k) = year_length y"
    by (simp add: year_length_def)
qed

lemma epoch_year: "days_before_year 1970 = 0"
  by (simp add: days_before_year_def)

lemma civil_correct: "valid_civil (civil days) \<and> day_number (civil days) = days"
proof -
  define c r y0 y where "c = days div 146097" and "r = days mod 146097" and "y0 = year_up 1970 r" and "y = y0 + 400 * c"
  obtain m d where md: "month_up 11 y 0 (r - days_before_year y0) = (m, d)"
    by (cases "month_up 11 y 0 (r - days_before_year y0)")
  have days: "days = 146097 * c + r" "0 \<le> r"
    by (simp_all add: c_def r_def)
  have r: "days_before_year y0 \<le> r" "r < days_before_year (y0 + 1)"
    using year_up_spec [of 1970 r] days(2) by (simp_all add: y0_def epoch_year)
  have "0 \<le> m \<and> m < 12 \<and> 0 \<le> d \<and> d < month_length y m \<and> days_before_month y m + d = r - days_before_year y0"
    using month_up_spec [OF _ _ _ _ md] r days_before_next_year [of y0] cycle(3) [of y0 c] last_month(2) [of y] by (simp add: y_def)
  moreover have "civil days = (y, m, d + 1)"
    unfolding civil_def Let_def c_def [symmetric] r_def [symmetric] y0_def [symmetric] y_def [symmetric] md by simp
  moreover have "days_before_year y = days_before_year y0 + 146097 * c"
    unfolding y_def by (rule cycle)
  ultimately show ?thesis
    using days(1) by (auto simp: valid_civil_def day_number_def)
qed

lemma civil_unique: "valid_civil c \<Longrightarrow> civil (day_number c) = c"
  using day_number_inj civil_correct by (metis prod_cases3)

section \<open>Seconds and times\<close>

definition valid_tm :: "tm \<Rightarrow> bool" where
  "valid_tm tm \<longleftrightarrow> valid_civil (tm_year tm + 1900, tm_mon tm, tm_mday tm) \<and> 0 \<le> tm_hour tm \<and> tm_hour tm < 24 \<and>
     0 \<le> tm_min tm \<and> tm_min tm < 60 \<and> 0 \<le> tm_sec tm \<and> tm_sec tm < 60"

lemma time_of_day:
  fixes r :: int
  assumes "0 \<le> r" "r < 86400"
  shows "0 \<le> r div 3600" "r div 3600 < 24" "(r div 3600 * 60 + r div 60 mod 60) * 60 + r mod 60 = r"
proof -
  show "0 \<le> r div 3600"
    using assms by (simp add: pos_imp_zdiv_nonneg_iff)
  have "r div 3600 \<le> 86399 div 3600"
    using assms by (intro zdiv_mono1) simp_all
  then show "r div 3600 < 24" by simp
  show "(r div 3600 * 60 + r div 60 mod 60) * 60 + r mod 60 = r"
    using div_mult_mod_eq [of r 60] div_mult_mod_eq [of "r div 60" 60] zdiv_zmult2_eq [of 60 r 60] by simp
qed

lemma time_fields:
  fixes h m s :: int
  assumes "0 \<le> h" "h < 24" "0 \<le> m" "m < 60" "0 \<le> s" "s < 60" and r: "r = (h * 60 + m) * 60 + s"
  shows "r div 3600 = h" "r div 60 mod 60 = m" "r mod 60 = s" "0 \<le> r" "r < 86400"
proof -
  show bounds: "0 \<le> r" "r < 86400"
    using assms by simp_all
  show "r div 3600 = h"
    using assms by (intro int_div_pos_eq [where r = "m * 60 + s"]) simp_all
  have "r div 60 = h * 60 + m"
    using assms by (intro int_div_pos_eq [where r = s]) simp_all
  then show "r div 60 mod 60 = m"
    using assms by simp
  show "r mod 60 = s"
    using assms by (intro int_mod_pos_eq [where q = "h * 60 + m"]) simp_all
qed

lemma gmtime_fields:
  "gmtime t = \<lparr>tm_sec = t mod 86400 mod 60, tm_min = t mod 86400 div 60 mod 60, tm_hour = t mod 86400 div 3600,
     tm_mday = snd (snd (civil (t div 86400))), tm_mon = fst (snd (civil (t div 86400))), tm_year = fst (civil (t div 86400)) - 1900\<rparr>"
  by (simp add: gmtime_def Let_def split: prod.splits)

lemma gmtime_valid: "valid_tm (gmtime t)"
  using civil_correct [of "t div 86400"] time_of_day [of "t mod 86400"] by (simp add: valid_tm_def gmtime_fields)

lemma timegm_valid:
  assumes "valid_tm tm"
  shows "timegm tm = day_number (tm_year tm + 1900, tm_mon tm, tm_mday tm) * 86400 + ((tm_hour tm * 60 + tm_min tm) * 60 + tm_sec tm)"
proof -
  have "tm_mon tm div 12 = 0" "tm_mon tm mod 12 = tm_mon tm"
    using assms by (simp_all add: valid_tm_def valid_civil_def)
  then show ?thesis
    by (simp add: timegm_def day_number_def Let_def)
qed

lemma timegm_gmtime: "timegm (gmtime t) = t"
proof -
  have "day_number (civil (t div 86400)) = t div 86400"
    using civil_correct by blast
  then show ?thesis
    using timegm_valid [OF gmtime_valid] time_of_day(3) [of "t mod 86400"] by (simp add: gmtime_fields)
qed

lemma gmtime_timegm:
  assumes "valid_tm tm"
  shows "gmtime (timegm tm) = tm"
proof -
  let ?c = "(tm_year tm + 1900, tm_mon tm, tm_mday tm)" and ?r = "(tm_hour tm * 60 + tm_min tm) * 60 + tm_sec tm"
  have v: "valid_civil ?c" and t: "0 \<le> tm_hour tm" "tm_hour tm < 24" "0 \<le> tm_min tm" "tm_min tm < 60" "0 \<le> tm_sec tm" "tm_sec tm < 60"
    using assms by (simp_all add: valid_tm_def)
  note f = time_fields [OF t refl]
  have "timegm tm div 86400 = day_number ?c" "timegm tm mod 86400 = ?r"
    unfolding timegm_valid [OF assms] using f(4,5)
    by (auto intro!: int_div_pos_eq [where r = ?r] int_mod_pos_eq [where q = "day_number ?c"])
  then have "gmtime (timegm tm) = \<lparr>tm_sec = tm_sec tm, tm_min = tm_min tm, tm_hour = tm_hour tm, tm_mday = tm_mday tm,
      tm_mon = tm_mon tm, tm_year = tm_year tm\<rparr>"
    unfolding gmtime_fields by (simp only: civil_unique [OF v] f fst_conv snd_conv add_diff_cancel_right')
  then show ?thesis by simp
qed

section \<open>Properties\<close>

lemma civil_range:
  assumes "0 \<le> days" "days < 49711"
  shows "1970 \<le> fst (civil days)" "fst (civil days) < 2107"
proof -
  obtain y m d where c: "civil days = (y, m, d)" by (cases "civil days")
  have v: "valid_civil (y, m, d)" "day_number (y, m, d) = days"
    using civil_correct [of days] c by simp_all
  have lo: "days_before_year y \<le> days" and hi: "days < days_before_year (y + 1)"
    using in_year [OF v(1)] v(2) days_before_next_year [of y] by (simp_all add: day_number_def)
  have "\<not> y + 1 \<le> 1970" using days_before_year_mono [of "y + 1" 1970] hi assms(1) epoch_year by auto
  moreover have "days_before_year 2107 = 50038" by (simp add: days_before_year_def)
  then have "\<not> 2107 \<le> y" using days_before_year_mono [of 2107 y] lo assms(2) by auto
  ultimately show "1970 \<le> fst (civil days)" "fst (civil days) < 2107" by (simp_all add: c)
qed

lemma uint_of_int_byte: "0 \<le> i \<Longrightarrow> i < 256 \<Longrightarrow> uint (of_int i :: byte) = i"
  by (simp add: unsigned_of_int take_bit_eq_mod)

lemma uint_of_int_u16: "0 \<le> i \<Longrightarrow> i < 65536 \<Longrightarrow> uint (of_int i :: 16 word) = i"
  by (simp add: unsigned_of_int take_bit_eq_mod)

lemma tm_of_epoch:
  assumes "secs < 4294967296"
  shows "tm_of (get_date_time_from_epoch secs) = gmtime (int secs)"
proof -
  let ?tm = "gmtime (int secs)"
  have "int secs div 86400 \<le> 4294967295 div 86400"
    using assms by (intro zdiv_mono1) simp_all
  then have "0 \<le> int secs div 86400" "int secs div 86400 < 49711"
    by (simp_all add: pos_imp_zdiv_nonneg_iff)
  from civil_range [OF this] have y: "1970 \<le> tm_year ?tm + 1900" "tm_year ?tm + 1900 < 2107"
    by (simp_all add: gmtime_fields)
  have v: "valid_tm ?tm" by (rule gmtime_valid)
  show ?thesis
    using v y month_length_bounds(2) [of "tm_year ?tm + 1900" "tm_mon ?tm"]
    by (simp add: tm_of_def get_date_time_from_epoch_def Let_def uint_of_int_byte uint_of_int_u16 valid_tm_def valid_civil_def
        del: of_int_add)
qed

definition calendar_date :: "date_time \<Rightarrow> bool" where
  "calendar_date dt \<longleftrightarrow> 1 \<le> uint (dt_month dt) \<and> uint (dt_month dt) \<le> 12 \<and> 1 \<le> uint (dt_day dt) \<and>
     uint (dt_day dt) \<le> month_length (uint (dt_year dt)) (uint (dt_month dt) - 1) \<and>
     uint (dt_hr dt) < 24 \<and> uint (dt_min dt) < 60 \<and> uint (dt_sec dt) < 60"

definition before_epoch :: "date_time \<Rightarrow> bool" where
  "before_epoch dt \<longleftrightarrow> uint (dt_year dt) = 1969 \<and> uint (dt_month dt) = 12 \<and> uint (dt_day dt) = 31 \<and> uint (dt_hr dt) = 23 \<and>
     uint (dt_min dt) = 59 \<and> uint (dt_sec dt) = 59"

text \<open>
  The check of a date accepts exactly the dates of the calendar. A date passes when its month exists, its day exists
  in that month of that year, leap years included, and its time exists; the one exception is the last second before
  1970, whose number the library also uses to report an error.
\<close>

lemma validate_iff_calendar_date:
  "validate_date_time dt \<longleftrightarrow> calendar_date dt \<and> \<not> before_epoch dt"
proof -
  let ?tm = "tm_of dt"
  have cal: "calendar_date dt \<longleftrightarrow> valid_tm ?tm"
    by (auto simp: calendar_date_def valid_tm_def valid_civil_def tm_of_def)
  have "validate_date_time dt \<longleftrightarrow> timegm ?tm \<noteq> -1 \<and> gmtime (timegm ?tm) = ?tm"
    by (cases "gmtime (timegm ?tm)") (auto simp: validate_date_time_def Let_def tm_of_def)
  also have "\<dots> \<longleftrightarrow> timegm ?tm \<noteq> -1 \<and> valid_tm ?tm"
    using gmtime_timegm [of ?tm] gmtime_valid [of "timegm ?tm"] by auto
  also have "\<dots> \<longleftrightarrow> \<not> before_epoch dt \<and> valid_tm ?tm"
  proof -
    define e where "e = \<lparr>tm_sec = 59, tm_min = 59, tm_hour = 23, tm_mday = 31, tm_mon = 11, tm_year = 69\<rparr>"
    have e: "valid_tm e" "timegm e = -1"
      by (simp_all add: e_def valid_tm_def valid_civil_def month_length_def timegm_def days_before_year_def days_before_month_def is_leap_def)
    have "timegm ?tm = -1 \<longleftrightarrow> ?tm = e" if "valid_tm ?tm"
      using gmtime_timegm [OF that] gmtime_timegm [OF e(1)] e(2) by auto
    moreover have "?tm = e \<longleftrightarrow> before_epoch dt"
      by (auto simp: e_def tm_of_def before_epoch_def)
    ultimately show ?thesis by auto
  qed
  finally show ?thesis using cal by auto
qed

text \<open>
  C23: the clock and the calendar agree. Every 32-bit number of seconds survives the conversion into date and time
  fields and back; and date and time fields that pass the check, of a moment from 1970 until the last second that
  fits into 32 bits (7 February 2106, 6:28:15), survive the way to seconds and back, the weekday being computed anew.
\<close>

theorem epoch_date_roundtrip:
  "(secs < 4294967296 \<longrightarrow> get_epoch_from_date_time (get_date_time_from_epoch secs) = secs) \<and>
   (validate_date_time dt \<and> 0 \<le> timegm (tm_of dt) \<and> timegm (tm_of dt) < 4294967296 \<longrightarrow>
      get_date_time_from_epoch (get_epoch_from_date_time dt) = dt\<lparr>d_week := of_int (tm_wday (timegm (tm_of dt)))\<rparr>)"
proof (intro conjI impI)
  assume "secs < 4294967296"
  then show "get_epoch_from_date_time (get_date_time_from_epoch secs) = secs"
    by (simp add: get_epoch_from_date_time_def tm_of_epoch timegm_gmtime)
next
  assume a: "validate_date_time dt \<and> 0 \<le> timegm (tm_of dt) \<and> timegm (tm_of dt) < 4294967296"
  then have "calendar_date dt"
    by (simp add: validate_iff_calendar_date)
  then have "valid_tm (tm_of dt)"
    by (auto simp: calendar_date_def valid_tm_def valid_civil_def tm_of_def)
  then have g: "gmtime (timegm (tm_of dt)) = tm_of dt"
    by (rule gmtime_timegm)
  have e: "int (get_epoch_from_date_time dt) = timegm (tm_of dt)"
    using a by (simp add: get_epoch_from_date_time_def)
  show "get_date_time_from_epoch (get_epoch_from_date_time dt) = dt\<lparr>d_week := of_int (tm_wday (timegm (tm_of dt)))\<rparr>"
    unfolding get_date_time_from_epoch_def e g Let_def by (simp add: tm_of_def)
qed

definition leap_day :: date_time where
  "leap_day = \<lparr>dt_day = 29, dt_month = 2, dt_year = 2024, dt_hr = 0, dt_min = 0, dt_sec = 0, d_week = 0\<rparr>"

theorem epoch_date_roundtrip_witness:
  "get_epoch_from_date_time (get_date_time_from_epoch 1709164800) = 1709164800 \<and>
   get_date_time_from_epoch (get_epoch_from_date_time leap_day) = leap_day\<lparr>d_week := 4\<rparr>"
proof -
  have t: "timegm (tm_of leap_day) = 1709164800"
    by (simp add: leap_day_def tm_of_def timegm_def days_before_year_def days_before_month_def is_leap_def)
  have v: "validate_date_time leap_day"
    by (simp add: validate_iff_calendar_date calendar_date_def before_epoch_def leap_day_def month_length_def is_leap_def)
  show ?thesis
    using epoch_date_roundtrip [of 1709164800 leap_day] t v by (simp add: tm_wday_def)
qed

end
