(* ===== verification/Notification_Manager.thy ===== *)
theory Notification_Manager
  imports Common_Types
begin

text \<open>
  The notification list of \<open>notification_manager.c\<close>: an array of 20 entries with a counter. A new notification goes
  behind the others and pushes out the oldest when the array is full; dismissing one closes the gap. Writing or moving
  outside the array is \<open>None\<close>. The list is refined to a bounded list without the array.
\<close>

section \<open>State\<close>

definition MAX_NOTIFICATIONS :: nat where "MAX_NOTIFICATIONS = 20"

record 'h notif_sys = "'h event_mgr" +
  nm_initialized :: bool
  notifications :: "notification list"
  total_notifications :: nat

section \<open>Operations\<close>

definition assign_handlers :: "notification \<Rightarrow> notification" where
  "assign_handlers n =
     (case n_app n of
        NAVIGATION \<Rightarrow> n\<lparr>n_dismiss_handler := True\<rparr>
      | CALL \<Rightarrow> n\<lparr>n_dismiss_handler := True\<rparr>
      | _ \<Rightarrow> n\<lparr>n_dismiss_handler := True\<rparr>)"

text \<open>\<open>Open App\<close> and \<open>Dismiss\<close> with their terminating zero.\<close>

definition open_app_text :: "byte list" where
  "open_app_text = [79, 112, 101, 110, 32, 65, 112, 112, 0]"

definition dismiss_text :: "byte list" where
  "dismiss_text = [68, 105, 115, 109, 105, 115, 115, 0]"

text \<open>The notification as it is stored: the texts are written over the two fields, the handlers assigned.\<close>

definition stored_notification :: "notification \<Rightarrow> notification option" where
  "stored_notification n =
     do {
       action \<leftarrow> mem_write (n_action_name n) 0 open_app_text;
       dismiss \<leftarrow> mem_write (n_dismiss_text n) 0 dismiss_text;
       Some (assign_handlers (n\<lparr>n_action_name := action, n_dismiss_text := dismiss\<rparr>))
     }"

definition receive_notification :: "sys_event \<Rightarrow> ('h, 'z) notif_sys_scheme \<Rightarrow> ('h, 'z) notif_sys_scheme option" where
  "receive_notification event s =
     (case ev_data event of
        Data_notification n \<Rightarrow>
          if ev_payload_len event \<noteq> sizeof_notification then Some s
          else do {
            s1 \<leftarrow> (if total_notifications s = MAX_NOTIFICATIONS
                   then do {
                     tail \<leftarrow> mem_read (notifications s) 1 (MAX_NOTIFICATIONS - 1);
                     arr \<leftarrow> mem_write (notifications s) 0 tail;
                     Some (s\<lparr>notifications := arr, total_notifications := total_notifications s - 1\<rparr>)
                   }
                   else Some s);
            n' \<leftarrow> stored_notification n;
            arr \<leftarrow> mem_write (notifications s1) (total_notifications s1) [n'];
            Some (s1\<lparr>notifications := arr, total_notifications := total_notifications s1 + 1\<rparr>)
          }
      | Data_none \<Rightarrow> Some s
      | _ \<Rightarrow> if ev_payload_len event \<noteq> sizeof_notification then Some s else None)"

text \<open>\<open>h\<close> is the subscribed handler.\<close>

definition notification_manager_init :: "'h \<Rightarrow> ('h, 'z) notif_sys_scheme \<Rightarrow> ('h, 'z) notif_sys_scheme" where
  "notification_manager_init h s =
     (if nm_initialized s then s
      else (snd (event_subscribe EVENT_NOTIFICATION_RECEIVED (Some h) (s\<lparr>total_notifications := 0\<rparr>)))\<lparr>nm_initialized := True\<rparr>)"

definition notification_manager_deinit :: "'h \<Rightarrow> ('h, 'z) notif_sys_scheme \<Rightarrow> ('h, 'z) notif_sys_scheme" where
  "notification_manager_deinit h s =
     (snd (event_unsubscribe EVENT_NOTIFICATION_RECEIVED (Some h) s))\<lparr>total_notifications := 0, nm_initialized := False\<rparr>"

definition notification_manager_get_notification_count :: "('h, 'z) notif_sys_scheme \<Rightarrow> nat" where
  "notification_manager_get_notification_count s = total_notifications s"

definition notification_manager_retreive_all_notification ::
  "bool \<Rightarrow> ('h, 'z) notif_sys_scheme \<Rightarrow> (nat \<times> notification list) option" where
  "notification_manager_retreive_all_notification count_ok s =
     (if \<not> nm_initialized s \<or> \<not> count_ok then None else Some (total_notifications s, notifications s))"

definition notification_manager_retreive_notification :: "nat \<Rightarrow> ('h, 'z) notif_sys_scheme \<Rightarrow> notification option" where
  "notification_manager_retreive_notification index s =
     (if \<not> nm_initialized s then None
      else if index \<ge> total_notifications s then None
      else rd (notifications s) index)"

definition notification_manager_dismiss_notification ::
  "nat \<Rightarrow> ('h, 'z) notif_sys_scheme \<Rightarrow> ('h, 'z) notif_sys_scheme option" where
  "notification_manager_dismiss_notification index s =
     (if \<not> nm_initialized s then Some s
      else if index \<ge> total_notifications s then Some s
      else do {
        arr \<leftarrow> (if index \<noteq> total_notifications s - 1
                then do {
                  rest \<leftarrow> mem_read (notifications s) (index + 1) (total_notifications s - index - 1);
                  mem_write (notifications s) index rest
                }
                else Some (notifications s));
        Some (s\<lparr>notifications := arr, total_notifications := total_notifications s - 1\<rparr>)
      })"

section \<open>Refinement to a bounded list\<close>

definition notif_ok :: "('h, 'z) notif_sys_scheme \<Rightarrow> bool" where
  "notif_ok s \<longleftrightarrow> length (notifications s) = MAX_NOTIFICATIONS \<and> total_notifications s \<le> MAX_NOTIFICATIONS"

definition shown :: "('h, 'z) notif_sys_scheme \<Rightarrow> notification list" where
  "shown s = take (total_notifications s) (notifications s)"

text \<open>The text fields have their declared size of 15 bytes.\<close>

definition notif_typed :: "notification \<Rightarrow> bool" where
  "notif_typed n \<longleftrightarrow> length (n_action_name n) = 15 \<and> length (n_dismiss_text n) = 15"

definition fill :: "notification \<Rightarrow> notification" where
  "fill n = n\<lparr>n_action_name := open_app_text @ drop 9 (n_action_name n), n_dismiss_text := dismiss_text @ drop 8 (n_dismiss_text n),
     n_dismiss_handler := True\<rparr>"

datatype notif_op = Receive notification | Dismiss nat

definition notif_event :: "notification \<Rightarrow> sys_event" where
  "notif_event n = \<lparr>ev = EVENT_NOTIFICATION_RECEIVED, ev_payload_len = sizeof_notification, ev_data = Data_notification n\<rparr>"

primrec notif_exec :: "notif_op \<Rightarrow> ('h, 'z) notif_sys_scheme \<Rightarrow> ('h, 'z) notif_sys_scheme option" where
  "notif_exec (Receive n) s = receive_notification (notif_event n) s"
| "notif_exec (Dismiss i) s = notification_manager_dismiss_notification i s"

primrec spec_exec :: "notif_op \<Rightarrow> notification list \<Rightarrow> notification list" where
  "spec_exec (Receive n) ns = last_n MAX_NOTIFICATIONS (ns @ [fill n])"
| "spec_exec (Dismiss i) ns = remove_nth i ns"

primrec op_typed :: "notif_op \<Rightarrow> bool" where
  "op_typed (Receive n) = notif_typed n"
| "op_typed (Dismiss i) = True"

lemma length_shown: "notif_ok s \<Longrightarrow> length (shown s) = total_notifications s"
  by (simp add: notif_ok_def shown_def)

lemma text_lengths: "length open_app_text = 9" "length dismiss_text = 8"
  by (simp_all add: open_app_text_def dismiss_text_def)

lemma stored_fill: "notif_typed n \<Longrightarrow> stored_notification n = Some (fill n)"
  by (simp add: stored_notification_def notif_typed_def mem_write_def text_lengths fill_def assign_handlers_def
      split: phone_app.splits)

text \<open>Storing behind the last entry, when there is room.\<close>

lemma store_behind:
  assumes "notif_ok s" "total_notifications s < MAX_NOTIFICATIONS"
  shows "\<exists>arr. mem_write (notifications s) (total_notifications s) [x] = Some arr \<and> length arr = MAX_NOTIFICATIONS \<and>
     take (Suc (total_notifications s)) arr = shown s @ [x]"
  using assms by (simp add: mem_write_def notif_ok_def shown_def)

lemma receive_refines:
  assumes "notif_ok s" "notif_typed n"
  shows "\<exists>s'. receive_notification (notif_event n) s = Some s' \<and> notif_ok s' \<and> nm_initialized s' = nm_initialized s \<and>
     shown s' = last_n MAX_NOTIFICATIONS (shown s @ [fill n])"
proof (cases "total_notifications s = MAX_NOTIFICATIONS")
  case True
  define t where "t = s\<lparr>notifications := drop 1 (notifications s) @ [last (notifications s)], total_notifications := MAX_NOTIFICATIONS - 1\<rparr>"
  have len: "length (notifications s) = 20"
    using assms(1) by (simp add: notif_ok_def MAX_NOTIFICATIONS_def)
  have full: "shown s = notifications s"
    using True len by (simp add: shown_def MAX_NOTIFICATIONS_def)
  have "drop 19 (notifications s) = [last (notifications s)]"
    using len by (cases "notifications s" rule: rev_cases) simp_all
  then have move: "mem_read (notifications s) 1 (MAX_NOTIFICATIONS - 1) = Some (drop 1 (notifications s))"
    "mem_write (notifications s) 0 (drop 1 (notifications s)) = Some (drop 1 (notifications s) @ [last (notifications s)])"
    using len by (simp_all add: mem_read_def mem_write_def MAX_NOTIFICATIONS_def)
  have t: "notif_ok t" "total_notifications t < MAX_NOTIFICATIONS" "shown t = drop 1 (notifications s)"
    using len by (simp_all add: t_def notif_ok_def shown_def MAX_NOTIFICATIONS_def)
  obtain arr where arr: "mem_write (notifications t) (total_notifications t) [fill n] = Some arr" "length arr = MAX_NOTIFICATIONS"
    "take (Suc (total_notifications t)) arr = shown t @ [fill n]"
    using store_behind [OF t(1,2)] by blast
  have "receive_notification (notif_event n) s = Some (t\<lparr>notifications := arr, total_notifications := Suc (total_notifications t)\<rparr>)"
    using True move arr(1) stored_fill [OF assms(2)] by (simp add: receive_notification_def notif_event_def t_def)
  moreover have "last_n MAX_NOTIFICATIONS (shown s @ [fill n]) = drop 1 (notifications s) @ [fill n]"
    using len by (simp add: last_n_def full MAX_NOTIFICATIONS_def)
  ultimately show ?thesis
    using arr t by (auto simp: notif_ok_def shown_def t_def)
next
  case False
  then have room: "total_notifications s < MAX_NOTIFICATIONS"
    using assms(1) by (simp add: notif_ok_def)
  obtain arr where arr: "mem_write (notifications s) (total_notifications s) [fill n] = Some arr" "length arr = MAX_NOTIFICATIONS"
    "take (Suc (total_notifications s)) arr = shown s @ [fill n]"
    using store_behind [OF assms(1) room] by blast
  then show ?thesis
    using False room stored_fill [OF assms(2)] length_shown [OF assms(1)]
    by (auto simp: receive_notification_def notif_event_def notif_ok_def shown_def last_n_short)
qed

lemma dismiss_refines:
  assumes "notif_ok s" "nm_initialized s"
  shows "\<exists>s'. notification_manager_dismiss_notification i s = Some s' \<and> notif_ok s' \<and> nm_initialized s' \<and> shown s' = remove_nth i (shown s)"
proof (cases "i < total_notifications s")
  case True
  let ?t = "total_notifications s"
  have len: "length (notifications s) = MAX_NOTIFICATIONS" "?t \<le> MAX_NOTIFICATIONS"
    using assms(1) by (simp_all add: notif_ok_def)
  show ?thesis
  proof (cases "i = ?t - 1")
    case last: True
    then show ?thesis
      using True assms len
      by (simp add: notification_manager_dismiss_notification_def notif_ok_def shown_def remove_nth_def min_def)
  next
    case False
    define rest where "rest = take (?t - i - 1) (drop (i + 1) (notifications s))"
    have rest: "mem_read (notifications s) (i + 1) (?t - i - 1) = Some rest" "length rest = ?t - i - 1"
      using True len by (simp_all add: mem_read_def rest_def)
    have w: "mem_write (notifications s) i rest = Some (take i (notifications s) @ rest @ drop (i + length rest) (notifications s))"
      using True len rest by (simp add: mem_write_def)
    have "remove_nth i (shown s) = take i (notifications s) @ rest"
      using True by (simp add: remove_nth_def shown_def rest_def drop_take min_def)
    then show ?thesis
      using True False assms len rest w
      by (simp add: notification_manager_dismiss_notification_def notif_ok_def shown_def)
  qed
next
  case False
  then show ?thesis
    using assms length_shown [OF assms(1)] by (simp add: notification_manager_dismiss_notification_def remove_nth_def)
qed

text \<open>
  C24: the notification array is a bounded list. After any sequence of well-formed notifications received and
  entries dismissed, no access has left the array, and what the user interface is shown is what a plain list holds: new
  notifications at the end with the texts and the handler filled in, the oldest of more than twenty dropped, dismissed ones
  gone and the rest in order.
\<close>

theorem notifications_bounded_list:
  assumes "notif_ok s" and "nm_initialized s" and "list_all op_typed ops"
  shows "\<exists>s'. mfold notif_exec ops s = Some s' \<and> notif_ok s' \<and> shown s' = fold spec_exec ops (shown s) \<and>
     (\<forall>i. notification_manager_retreive_notification i s' = (if i < length (shown s') then Some (shown s' ! i) else None))"
proof -
  have "\<exists>s'. mfold notif_exec ops s = Some s' \<and> notif_ok s' \<and> nm_initialized s' \<and> shown s' = fold spec_exec ops (shown s)"
    using assms
  proof (induction ops arbitrary: s)
    case (Cons op ops)
    obtain s1 where s1: "notif_exec op s = Some s1" "notif_ok s1" "nm_initialized s1" "shown s1 = spec_exec op (shown s)"
    proof (cases op)
      case (Receive n)
      then show ?thesis using receive_refines [of s n] Cons.prems that by auto
    next
      case (Dismiss i)
      then show ?thesis using dismiss_refines [of s i] Cons.prems that by auto
    qed
    then show ?case using Cons.IH [of s1] Cons.prems by simp
  qed simp
  then obtain s' where s': "mfold notif_exec ops s = Some s'" "notif_ok s'" "nm_initialized s'" "shown s' = fold spec_exec ops (shown s)"
    by blast
  have "notification_manager_retreive_notification i s' = (if i < length (shown s') then Some (shown s' ! i) else None)" for i
    using s'(2,3) length_shown [OF s'(2)]
    by (auto simp: notification_manager_retreive_notification_def rd_def shown_def notif_ok_def)
  then show ?thesis using s' by auto
qed

definition ex_notification :: notification where
  "ex_notification = \<lparr>n_app = MESSAGE, n_app_name = replicate 14 0, n_body = replicate 100 0, n_action_name = replicate 15 0,
     n_dismiss_text = replicate 15 0, n_action_handler = False, n_dismiss_handler = False\<rparr>"

definition ex_notif_sys :: "nat notif_sys" where
  "ex_notif_sys = \<lparr>em_subscriptions = [], em_initialized = True, nm_initialized = True,
     notifications = replicate MAX_NOTIFICATIONS ex_notification, total_notifications = 0\<rparr>"

theorem notifications_bounded_list_witness:
  "\<exists>s'. mfold notif_exec [Receive ex_notification, Receive ex_notification, Dismiss 0] ex_notif_sys = Some s' \<and>
     shown s' = [fill ex_notification]"
proof -
  have "fold spec_exec [Receive ex_notification, Receive ex_notification, Dismiss 0] [] = [fill ex_notification]"
    by (simp add: last_n_def MAX_NOTIFICATIONS_def remove_nth_def)
  then show ?thesis
    using notifications_bounded_list [of ex_notif_sys "[Receive ex_notification, Receive ex_notification, Dismiss 0]"]
    by (simp add: ex_notif_sys_def ex_notification_def notif_ok_def notif_typed_def shown_def del: mfold.simps fold.simps) blast
qed

end
