(* ===== verification/Watchface_Manager.thy ===== *)
theory Watchface_Manager
  imports Stored_Setting Tick_Manager Calendar
begin

text \<open>
  The watchface manager of \<open>wf_manager.c\<close>: the registered watchfaces, the choice of the user with its copy in the
  storage, and the running watchface, which is fed by the watchface tick. The callbacks of a watchface are present or
  null; a call is an entry of \<open>wf_log\<close>, a failed assertion or an access outside the table is \<open>None\<close>. The values of the
  state manager are arguments of the update.
\<close>

section \<open>State\<close>

definition MAX_WATCHFACES :: nat where "MAX_WATCHFACES = 10"

record watchface =
  wf_id :: byte
  wf_perms :: "16 word"
  wf_name :: "byte list"
  wf_draws :: bool
  wf_updates :: bool
  wf_dels :: bool

record wf_update_payload =
  pl_time :: date_time
  pl_weather :: hourly_weather
  pl_steps :: nat

datatype wf_call = Draw_watchface watchface | Update_watchface watchface wf_update_payload | Del_watchface watchface

record 'h wf_sys = "'h tick_sys" +
  all_wfs :: "watchface option list"
  selected_wf :: "watchface option"
  curr_wf :: "watchface option"
  wf_initialized :: bool
  num_wfs :: nat
  wf_log :: "wf_call list"
  wf_timers :: "timer_cmd list"

definition wf_idx_key :: "byte list" where
  "wf_idx_key = [87, 70, 95, 73, 68, 88]"

definition WF_APP :: byte where
  "WF_APP = of_nat WATCHFACE_SYSTEM_APP_ID"

section \<open>Operations\<close>

definition watchface_manager_register_wf :: "watchface option \<Rightarrow> ('h, 'z) wf_sys_scheme \<Rightarrow> ('h, 'z) wf_sys_scheme option" where
  "watchface_manager_register_wf face s =
     (if \<not> wf_initialized s then Some s
      else if num_wfs s \<ge> MAX_WATCHFACES then Some s
      else if face = None then None
      else Some (s\<lparr>all_wfs := (all_wfs s)[num_wfs s := face], num_wfs := num_wfs s + 1\<rparr>))"

definition watchface_manager_select_wf ::
  "('f, 'q, 'n) store_env \<Rightarrow> byte \<Rightarrow> ('h, 'z) wf_sys_scheme \<Rightarrow> ('f, 'q, 'y) runtime_scheme \<Rightarrow>
   (bool \<times> ('h, 'z) wf_sys_scheme \<times> ('f, 'q, 'y) runtime_scheme) option" where
  "watchface_manager_select_wf se idx s r =
     (if \<not> wf_initialized s then Some (False, s, r)
      else if num_wfs s = 0 \<or> num_wfs s \<le> unat idx then Some (False, s, r)
      else do {
        face \<leftarrow> rd (all_wfs s) (unat idx);
        (success, r1) \<leftarrow> storage_manager_save_key (se_rt se) (se_ops se) (se_work_fn se) (se_initialized se) WF_APP
           (Some wf_idx_key) (Some [idx]) 1 r;
        Some (success, s\<lparr>selected_wf := face\<rparr>, r1)
      })"

text \<open>\<open>junk\<close> is the uninitialised local byte.\<close>

definition watchface_manager_get_selected_wf ::
  "('f, 'q, 'n) store_env \<Rightarrow> byte \<Rightarrow> 'n \<Rightarrow> ('h, 'z) wf_sys_scheme \<Rightarrow> ('f, 'q, 'y) runtime_scheme \<Rightarrow>
   (watchface option \<times> ('h, 'z) wf_sys_scheme \<times> ('f, 'q, 'y) runtime_scheme) option" where
  "watchface_manager_get_selected_wf se junk flash s r =
     (if \<not> wf_initialized s then Some (None, s, r)
      else if selected_wf s \<noteq> None then Some (selected_wf s, s, r)
      else do {
        (success, dest, len) \<leftarrow> storage_manager_retrieve_key (se_nvs se) (se_initialized se) WF_APP
           (Some wf_idx_key) (Some [junk]) (Some 1) flash;
        if success
        then if len \<noteq> Some 1 then None
             else do {
               let stored = unat (the dest ! 0);
               let idx = (if stored \<ge> num_wfs s then 0 else stored);
               face \<leftarrow> rd (all_wfs s) idx;
               if face = None then None else Some (face, s\<lparr>selected_wf := face\<rparr>, r)
             }
        else do {
          face \<leftarrow> rd (all_wfs s) 0;
          if face = None then None
          else do {
            (_, s1, r1) \<leftarrow> watchface_manager_select_wf se 0 (s\<lparr>selected_wf := face\<rparr>) r;
            Some (selected_wf s1, s1, r1)
          }
        }
      })"

definition watchface_manager_get_total_wfs :: "('h, 'z) wf_sys_scheme \<Rightarrow> nat" where
  "watchface_manager_get_total_wfs s = (if \<not> wf_initialized s then 0 else num_wfs s)"

definition watchface_manager_get_all_wf_names :: "('h, 'z) wf_sys_scheme \<Rightarrow> byte list list option" where
  "watchface_manager_get_all_wf_names s =
     (if \<not> wf_initialized s then Some []
      else those (map (\<lambda>i. Option.bind (rd (all_wfs s) i) (map_option wf_name)) [0..<num_wfs s]))"

definition watchface_manager_get_selected_wf_name :: "('h, 'z) wf_sys_scheme \<Rightarrow> byte list option" where
  "watchface_manager_get_selected_wf_name s = (if \<not> wf_initialized s then None else map_option wf_name (selected_wf s))"

definition watchface_manager_init :: "('h, 'z) wf_sys_scheme \<Rightarrow> ('h, 'z) wf_sys_scheme" where
  "watchface_manager_init s = (if wf_initialized s then s else s\<lparr>wf_initialized := True\<rparr>)"

definition watchface_manager_deinit :: "('h, 'z) wf_sys_scheme \<Rightarrow> ('h, 'z) wf_sys_scheme" where
  "watchface_manager_deinit s = s\<lparr>num_wfs := 0, wf_initialized := False, curr_wf := None, selected_wf := None\<rparr>"

definition dispatch_wf_update ::
  "nat \<Rightarrow> hourly_weather list \<Rightarrow> nat \<Rightarrow> ('h, 'z) wf_sys_scheme \<Rightarrow> ('h, 'z) wf_sys_scheme option" where
  "dispatch_wf_update now weather_today steps s =
     (if \<not> wf_initialized s then Some s
      else case curr_wf s of
        None \<Rightarrow> Some s
      | Some face \<Rightarrow> do {
          let date = get_date_time_from_epoch now;
          weather \<leftarrow> mem_read weather_today 0 24;
          w \<leftarrow> rd weather (unat (dt_hr date));
          if \<not> wf_updates face then None
          else Some (s\<lparr>wf_log := wf_log s @ [Update_watchface face \<lparr>pl_time = date, pl_weather = w, pl_steps = steps\<rparr>]\<rparr>)
        })"

text \<open>Subscription and tick of a running watchface; \<open>h\<close> stands for \<open>dispatch_wf_update\<close> on the bus.\<close>

definition wf_listen :: "'h \<Rightarrow> ('h, 'z) wf_sys_scheme \<Rightarrow> ('h, 'z) wf_sys_scheme" where
  "wf_listen h s =
     (let s1 = snd (event_subscribe EVENT_WATCHFACE_UPDATE (Some h) s)
      in s1\<lparr>wf_timers := wf_timers s1 @ tick_manager_generate_tick TICK_WATCHFACE s1\<rparr>)"

definition wf_mute :: "'h \<Rightarrow> ('h, 'z) wf_sys_scheme \<Rightarrow> ('h, 'z) wf_sys_scheme" where
  "wf_mute h s =
     (let s1 = snd (event_unsubscribe EVENT_WATCHFACE_UPDATE (Some h) s);
          (cs, s2) = tick_manager_stop_tick TICK_WATCHFACE s1
      in s2\<lparr>wf_timers := wf_timers s2 @ cs\<rparr>)"

definition watchface_manager_suspend :: "'h \<Rightarrow> ('h, 'z) wf_sys_scheme \<Rightarrow> ('h, 'z) wf_sys_scheme" where
  "watchface_manager_suspend h s = (if \<not> wf_initialized s \<or> curr_wf s = None then s else wf_mute h s)"

definition watchface_manager_resume :: "'h \<Rightarrow> ('h, 'z) wf_sys_scheme \<Rightarrow> ('h, 'z) wf_sys_scheme" where
  "watchface_manager_resume h s = (if \<not> wf_initialized s \<or> curr_wf s = None then s else wf_listen h s)"

definition watchface_manager_start_wf ::
  "'h \<Rightarrow> ('f, 'q, 'n) store_env \<Rightarrow> byte \<Rightarrow> 'n \<Rightarrow> ('h, 'z) wf_sys_scheme \<Rightarrow> ('f, 'q, 'y) runtime_scheme \<Rightarrow>
   (('h, 'z) wf_sys_scheme \<times> ('f, 'q, 'y) runtime_scheme) option" where
  "watchface_manager_start_wf h se junk flash s r =
     (if \<not> wf_initialized s then Some (s, r)
      else do {
        (wfp, s1, r1) \<leftarrow> watchface_manager_get_selected_wf se junk flash s r;
        face \<leftarrow> wfp;
        if \<not> wf_draws face then None
        else Some (wf_listen h (s1\<lparr>curr_wf := Some face, wf_log := wf_log s1 @ [Draw_watchface face]\<rparr>), r1)
      })"

definition watchface_manager_stop_wf :: "'h \<Rightarrow> ('h, 'z) wf_sys_scheme \<Rightarrow> ('h, 'z) wf_sys_scheme" where
  "watchface_manager_stop_wf h s =
     (if \<not> wf_initialized s then s
      else case curr_wf s of
        None \<Rightarrow> s
      | Some face \<Rightarrow>
          (wf_mute h (if wf_dels face then s\<lparr>wf_log := wf_log s @ [Del_watchface face]\<rparr> else s))\<lparr>curr_wf := None\<rparr>)"

section \<open>The choice survives a restart\<close>

interpretation wf_choice: stored_setting WF_APP wf_idx_key 1 "\<lambda>idx. [idx]" hd "\<lambda>idx. True"
  by unfold_locales (simp_all add: wf_idx_key_def STORAGE_MAX_DATA_SIZE_def)

text \<open>The table after registering a list of watchfaces.\<close>

definition wfs_registered :: "watchface list \<Rightarrow> ('h, 'z) wf_sys_scheme \<Rightarrow> bool" where
  "wfs_registered wfs s \<longleftrightarrow> wf_initialized s \<and> num_wfs s = length wfs \<and> length (all_wfs s) = MAX_WATCHFACES \<and>
     length wfs \<le> MAX_WATCHFACES \<and> take (length wfs) (all_wfs s) = map Some wfs"

lemma register_all:
  assumes "wfs_registered wfs s" "length (wfs @ new) \<le> MAX_WATCHFACES"
  shows "\<exists>s'. mfold (\<lambda>face. watchface_manager_register_wf (Some face)) new s = Some s' \<and> wfs_registered (wfs @ new) s' \<and>
     selected_wf s' = selected_wf s \<and> wf_log s' = wf_log s"
  using assms
proof (induction new arbitrary: wfs s)
  case (Cons face new)
  let ?s1 = "s\<lparr>all_wfs := (all_wfs s)[num_wfs s := Some face], num_wfs := num_wfs s + 1\<rparr>"
  have "watchface_manager_register_wf (Some face) s = Some ?s1"
    using Cons.prems by (simp add: wfs_registered_def watchface_manager_register_wf_def)
  moreover have "wfs_registered (wfs @ [face]) ?s1"
    using Cons.prems by (auto simp: wfs_registered_def take_Suc_conv_app_nth)
  ultimately show ?case
    using Cons.IH [of "wfs @ [face]" ?s1] Cons.prems by auto
qed simp

lemma registered_nth: "wfs_registered wfs s \<Longrightarrow> i < length wfs \<Longrightarrow> rd (all_wfs s) i = Some (Some (wfs ! i))"
proof -
  assume a: "wfs_registered wfs s" "i < length wfs"
  then have "take (length wfs) (all_wfs s) ! i = map Some wfs ! i" by (simp add: wfs_registered_def)
  then show ?thesis using a by (simp add: wfs_registered_def rd_def)
qed

lemma wf_listen_frame [simp]:
  "wf_log (wf_listen h s) = wf_log s" "curr_wf (wf_listen h s) = curr_wf s" "wf_initialized (wf_listen h s) = wf_initialized s"
  by (auto simp: wf_listen_def Let_def event_subscribe_def put_sub_def)

lemma start_stored_choice:
  assumes "nvs_spec (se_nvs se) look" "se_initialized se" "nvs_open (se_nvs se) (ns_name WF_APP) False flash = NVS_OK"
    and "look flash (ns_name WF_APP) wf_idx_key = Some [idx]"
    and "wfs_registered wfs s" "selected_wf s = None" "wfs \<noteq> []" "\<forall>face \<in> set wfs. wf_draws face"
  shows "\<exists>s1. watchface_manager_start_wf h se junk flash s r = Some (s1, r) \<and>
     curr_wf s1 = Some (wfs ! (if unat idx < length wfs then unat idx else 0)) \<and>
     wf_log s1 = wf_log s @ [Draw_watchface (wfs ! (if unat idx < length wfs then unat idx else 0))]"
proof -
  define i where "i = (if unat idx < length wfs then unat idx else 0)"
  have i: "i < length wfs" using assms(7) by (simp add: i_def)
  have s: "wf_initialized s" "num_wfs s = length wfs" using assms(5) by (simp_all add: wfs_registered_def)
  have "storage_manager_retrieve_key (se_nvs se) True WF_APP (Some wf_idx_key) (Some [junk]) (Some 1) flash = Some (True, Some [idx], Some 1)"
    using wf_choice.read_stored [OF assms(1,3,4), of "[junk]"] by simp
  then have "watchface_manager_get_selected_wf se junk flash s r = Some (Some (wfs ! i), s\<lparr>selected_wf := Some (wfs ! i)\<rparr>, r)"
    using assms(2,6) s registered_nth [OF assms(5) i]
    by (simp add: watchface_manager_get_selected_wf_def Let_def i_def not_less split: if_splits)
  then show ?thesis
    using s(1) i assms(8) by (simp add: watchface_manager_start_wf_def i_def [symmetric])
qed

text \<open>
  The chosen watchface is back after a restart. Choosing a registered watchface takes effect at once and schedules
  one write of its index; once a worker has carried it out on a flash that accepts it, and the watchfaces are registered
  again after a restart, the watchface with that index is drawn, or the first one when there are fewer watchfaces
  now.
\<close>

lemma watchface_choice_survives:
  assumes "nvs_spec (se_nvs se) look" and "se_initialized se" and "wfs_registered wfs s" and "unat idx < length wfs"
    and "nvs_open (se_nvs se) (ns_name WF_APP) True flash = NVS_OK"
    and "fst (nvs_set_blob (se_nvs se) (ns_name WF_APP) wf_idx_key [idx] flash) = NVS_OK"
    and "nvs_open (se_nvs se) (ns_name WF_APP) False (flash_written (se_nvs se) (ns_name WF_APP) wf_idx_key [idx] flash) = NVS_OK"
    and "new \<noteq> []" and "length new \<le> MAX_WATCHFACES" and "\<forall>face \<in> set new. wf_draws face"
  shows "\<exists>w flash' s1 s2. watchface_manager_select_wf se idx s r =
       map_option (\<lambda>(b, r1). (b, s\<lparr>selected_wf := Some (wfs ! unat idx)\<rparr>, r1))
         (schedule_system_work (se_rt se) (se_ops se) (Some (storage_item (se_work_fn se) w)) r) \<and>
     storage_manager_execute_work (se_nvs se) (Some (work_bytes w)) flash = Some flash' \<and>
     mfold (\<lambda>face. watchface_manager_register_wf (Some face)) new (watchface_manager_init (watchface_manager_deinit s)) = Some s1 \<and>
     watchface_manager_start_wf h se junk flash' s1 r' = Some (s2, r') \<and>
     wf_log s2 = wf_log s @ [Draw_watchface (new ! (if unat idx < length new then unat idx else 0))]"
proof -
  let ?s0 = "watchface_manager_init (watchface_manager_deinit s)"
  have "wfs_registered [] ?s0" "selected_wf ?s0 = None" "wf_log ?s0 = wf_log s"
    using assms(3) by (simp_all add: wfs_registered_def watchface_manager_init_def watchface_manager_deinit_def)
  then obtain s1 where s1: "mfold (\<lambda>face. watchface_manager_register_wf (Some face)) new ?s0 = Some s1" "wfs_registered new s1"
    "selected_wf s1 = None" "wf_log s1 = wf_log s"
    using register_all [of "[]" ?s0 new] assms(9) by auto
  define flash' where "flash' = flash_written (se_nvs se) (ns_name WF_APP) wf_idx_key [idx] flash"
  have f: "storage_manager_execute_work (se_nvs se) (Some (work_bytes (wf_choice.work idx))) flash = Some flash'"
    "look flash' (ns_name WF_APP) wf_idx_key = Some [idx]"
    using wf_choice.setting_stored [OF assms(1,5,6)] unfolding flash'_def by blast+
  have "watchface_manager_select_wf se idx s r = map_option (\<lambda>(b, r1). (b, s\<lparr>selected_wf := Some (wfs ! unat idx)\<rparr>, r1))
         (schedule_system_work (se_rt se) (se_ops se) (Some (storage_item (se_work_fn se) (wf_choice.work idx))) r)"
    using assms(2-4) registered_nth [OF assms(3,4)] wf_choice.save_scheduled [of "se_rt se" "se_ops se" "se_work_fn se" idx r]
    by (auto simp: watchface_manager_select_wf_def wfs_registered_def map_option_case split: option.splits)
  then show ?thesis
    using f(1) s1 start_stored_choice [OF assms(1,2) assms(7) [folded flash'_def] f(2) s1(2,3) assms(8,10), of h junk r'] by auto
qed

text \<open>
  An update of the watchface shows the right hour. At every time of the day the update of a running watchface
  reads inside the table of the day's weather and hands over the entry of the current hour, with the date of the time and
  the steps.
\<close>

lemma watchface_update_hour:
  assumes "wf_initialized s" and "curr_wf s = Some face" and "wf_updates face" and "length weather = 24"
  shows "dispatch_wf_update now weather steps s = Some (s\<lparr>wf_log := wf_log s @ [Update_watchface face
     \<lparr>pl_time = get_date_time_from_epoch now, pl_weather = weather ! (now div 3600 mod 24), pl_steps = steps\<rparr>]\<rparr>)"
proof -
  have "now mod 86400 div 3600 = now div 3600 mod 24"
    using mod_mult2_eq [of now 3600 24] by simp
  then have "int now mod 86400 div 3600 = int (now div 3600 mod 24)"
    by (metis of_nat_numeral zdiv_int zmod_int)
  then have "uint (dt_hr (get_date_time_from_epoch now)) = int (now div 3600 mod 24)"
    by (simp add: get_date_time_from_epoch_def Let_def gmtime_fields uint_of_int_byte del: of_int_of_nat_eq)
  then have "unat (dt_hr (get_date_time_from_epoch now)) = now div 3600 mod 24"
    by (simp add: unat_eq_nat_uint)
  then show ?thesis
    using assms by (simp add: dispatch_wf_update_def mem_read_def rd_def)
qed

section \<open>Listening\<close>

lemma subs_timers [simp]:
  "subs (s\<lparr>wf_timers := x\<rparr>) e = subs s e" "subs (s\<lparr>curr_wf := c\<rparr>) e = subs s e" "subs (s\<lparr>wf_log := l\<rparr>) e = subs s e"
  "em_ready (s\<lparr>wf_timers := x\<rparr>) = em_ready s" "em_ready (s\<lparr>wf_log := l\<rparr>) = em_ready s"
  by (simp_all add: subs_def em_ready_def em_ok_def)

lemma stop_tick_watchface: "snd (tick_manager_stop_tick TICK_WATCHFACE s) = s"
  by (simp add: tick_manager_stop_tick_def)

lemma wf_mute_effect:
  assumes "em_ready s"
  shows "em_ready (wf_mute h s)" "subs (wf_mute h s) EVENT_WATCHFACE_UPDATE = remove1 h (subs s EVENT_WATCHFACE_UPDATE)"
proof -
  obtain cs where "wf_mute h s = (snd (event_unsubscribe EVENT_WATCHFACE_UPDATE (Some h) s))\<lparr>wf_timers := cs\<rparr>"
    by (auto simp: wf_mute_def Let_def tick_manager_stop_tick_def)
  then show "em_ready (wf_mute h s)" "subs (wf_mute h s) EVENT_WATCHFACE_UPDATE = remove1 h (subs s EVENT_WATCHFACE_UPDATE)"
    using bus.unsubscribe_invar [OF assms, of EVENT_WATCHFACE_UPDATE h] bus.unsubscribe_handlers [OF assms, of EVENT_WATCHFACE_UPDATE h]
    by simp_all
qed

lemma wf_listen_effect:
  assumes "em_ready s"
  shows "em_ready (wf_listen h s)" and "h \<in> set (subs s EVENT_WATCHFACE_UPDATE) \<or> length (subs s EVENT_WATCHFACE_UPDATE) < MAX_EVENT_SUBSCRIBERS \<Longrightarrow>
     subs (wf_listen h s) EVENT_WATCHFACE_UPDATE =
       (if h \<in> set (subs s EVENT_WATCHFACE_UPDATE) then subs s EVENT_WATCHFACE_UPDATE else subs s EVENT_WATCHFACE_UPDATE @ [h])"
  using bus.subscribe_invar [OF assms, of EVENT_WATCHFACE_UPDATE h] bus.subscribe_handlers [OF assms, of EVENT_WATCHFACE_UPDATE h]
    bus.subscribe_fst [OF assms, of EVENT_WATCHFACE_UPDATE h]
  by (auto simp: wf_listen_def Let_def)

lemma wf_mute_frame [simp]: "curr_wf (wf_mute h s) = curr_wf s" "wf_initialized (wf_mute h s) = wf_initialized s"
  by (auto simp: wf_mute_def Let_def tick_manager_stop_tick_def event_unsubscribe_def put_sub_def split: option.splits)

definition wf_toggle :: "'h \<Rightarrow> bool \<Rightarrow> ('h, 'z) wf_sys_scheme \<Rightarrow> ('h, 'z) wf_sys_scheme" where
  "wf_toggle h b = (if b then watchface_manager_resume h else watchface_manager_suspend h)"

text \<open>
  A watchface listens to its tick exactly while it is shown. For a running watchface, after any sequence of
  suspensions and resumptions, in any order, its handler is on the bus exactly once if the last of them was a resumption
  and not at all if it was a suspension; and stopping it leaves the other subscribers as they were.
\<close>

lemma watchface_listens_while_shown:
  assumes "em_ready s" and "wf_initialized s" and "curr_wf s = Some face" and "subs s EVENT_WATCHFACE_UPDATE = hs @ [h]"
    and "length hs < MAX_EVENT_SUBSCRIBERS"
  shows "subs (fold (wf_toggle h) bs s) EVENT_WATCHFACE_UPDATE = (if bs = [] \<or> last bs then hs @ [h] else hs) \<and>
     subs (watchface_manager_stop_wf h (fold (wf_toggle h) bs s)) EVENT_WATCHFACE_UPDATE = hs"
proof -
  have h: "h \<notin> set hs"
    using bus.handlers_distinct [OF assms(1), of EVENT_WATCHFACE_UPDATE] assms(4) by auto
  have run: "em_ready (fold (wf_toggle h) bs s) \<and> wf_initialized (fold (wf_toggle h) bs s) \<and> curr_wf (fold (wf_toggle h) bs s) = Some face \<and>
     subs (fold (wf_toggle h) bs s) EVENT_WATCHFACE_UPDATE = (if bs = [] \<or> last bs then hs @ [h] else hs)"
  proof (induction bs rule: rev_induct)
    case (snoc b bs)
    define t where "t = fold (wf_toggle h) bs s"
    have t: "em_ready t" "wf_initialized t" "curr_wf t = Some face" "subs t EVENT_WATCHFACE_UPDATE = (if bs = [] \<or> last bs then hs @ [h] else hs)"
      using snoc by (simp_all add: t_def)
    have "fold (wf_toggle h) (bs @ [b]) s = (if b then wf_listen h t else wf_mute h t)"
      using t(2,3) by (simp add: t_def [symmetric] wf_toggle_def watchface_manager_resume_def watchface_manager_suspend_def)
    then show ?case
      using t wf_listen_effect [OF t(1), of h] wf_mute_effect [OF t(1), of h] assms(5) h
      by (auto simp: remove1_append remove1_idem split: if_splits)
  qed (use assms in simp)
  define t where "t = fold (wf_toggle h) bs s"
  have "subs (watchface_manager_stop_wf h t) EVENT_WATCHFACE_UPDATE = remove1 h (subs t EVENT_WATCHFACE_UPDATE)"
    using run wf_mute_effect(2) [of t h] wf_mute_effect(2) [of "t\<lparr>wf_log := wf_log t @ [Del_watchface face]\<rparr>" h]
    unfolding t_def [symmetric] by (simp add: watchface_manager_stop_wf_def)
  then show ?thesis
    using run h unfolding t_def [symmetric] by (simp add: remove1_append remove1_idem)
qed

section \<open>Witnesses\<close>

definition ex_face :: "byte \<Rightarrow> watchface" where
  "ex_face i = \<lparr>wf_id = i, wf_perms = 0, wf_name = [i], wf_draws = True, wf_updates = True, wf_dels = True\<rparr>"

definition ex_wf_sys :: "nat wf_sys" where
  "ex_wf_sys = \<lparr>em_subscriptions = em_subscriptions em_start, em_initialized = True, tick_timers = [True, True], dep_ticks_counter = [0],
     last_work_tick_us = -1, all_wfs = [Some (ex_face 1), Some (ex_face 2)] @ replicate 8 None, selected_wf = None, curr_wf = None,
     wf_initialized = True, num_wfs = 2, wf_log = [], wf_timers = []\<rparr>"

lemma watchface_choice_survives_witness:
  "\<exists>w flash' s1 s2. watchface_manager_select_wf ex_store 1 ex_wf_sys rt_static =
       map_option (\<lambda>(b, r1). (b, ex_wf_sys\<lparr>selected_wf := Some (ex_face 2)\<rparr>, r1))
         (schedule_system_work ex_env list_queue (Some (storage_item 7 w)) rt_static) \<and>
     storage_manager_execute_work map_nvs (Some (work_bytes w)) [] = Some flash' \<and>
     mfold (\<lambda>face. watchface_manager_register_wf (Some face)) [ex_face 1, ex_face 2]
       (watchface_manager_init (watchface_manager_deinit ex_wf_sys)) = Some s1 \<and>
     watchface_manager_start_wf 5 ex_store 0 flash' s1 rt_static = Some (s2, rt_static) \<and> wf_log s2 = [Draw_watchface (ex_face 2)]"
  using watchface_choice_survives [of ex_store flash_look "[ex_face 1, ex_face 2]" ex_wf_sys 1 "[]" "[ex_face 1, ex_face 2]" rt_static 5 0 rt_static]
    map_nvs_spec
  by (simp add: ex_store_def ex_wf_sys_def wfs_registered_def MAX_WATCHFACES_def map_nvs_def ex_face_def flash_written_def)

definition ex_hour :: "int \<Rightarrow> hourly_weather" where
  "ex_hour t = \<lparr>temperature = t, humidity = 0, precip_prob = 0, weather_code = 0, wind_speed = 0\<rparr>"

lemma watchface_update_hour_witness:
  "dispatch_wf_update 7205 (map (\<lambda>i. ex_hour (int i)) [0..<24]) 10 (ex_wf_sys\<lparr>curr_wf := Some (ex_face 1)\<rparr>) =
     Some (ex_wf_sys\<lparr>curr_wf := Some (ex_face 1), wf_log := [Update_watchface (ex_face 1)
       \<lparr>pl_time = get_date_time_from_epoch 7205, pl_weather = ex_hour 2, pl_steps = 10\<rparr>]\<rparr>)"
  using watchface_update_hour [of "ex_wf_sys\<lparr>curr_wf := Some (ex_face 1)\<rparr>" "ex_face 1" "map (\<lambda>i. ex_hour (int i)) [0..<24]" 7205 10]
  by (simp add: ex_wf_sys_def ex_face_def del: upt_rec_numeral upt_Suc)

lemma watchface_listens_while_shown_witness:
  "subs (fold (wf_toggle 5) [False, True, True, False] (wf_listen 5 (ex_wf_sys\<lparr>curr_wf := Some (ex_face 1)\<rparr>))) EVENT_WATCHFACE_UPDATE = []"
proof -
  let ?s = "ex_wf_sys\<lparr>curr_wf := Some (ex_face 1)\<rparr>"
  have "em_ready ex_wf_sys" "subs ex_wf_sys e = subs em_start e" for e
    using event_manager_init_ready [of em_static] by (simp_all add: ex_wf_sys_def em_start_def em_ready_def em_ok_def subs_def)
  then have s: "em_ready ?s" "subs ?s EVENT_WATCHFACE_UPDATE = []"
    using event_manager_init_subs [of EVENT_WATCHFACE_UPDATE em_static] by (simp_all add: em_start_def em_ready_def em_ok_def)
  then show ?thesis
    using watchface_listens_while_shown [of "wf_listen 5 ?s" "ex_face 1" "[]" 5 "[False, True, True, False]"] wf_listen_effect [OF s(1), of 5]
    by (simp add: ex_wf_sys_def MAX_EVENT_SUBSCRIBERS_def)
qed

end
