(* ===== verification/Widgets.thy ===== *)
theory Widgets
  imports Prelude
begin

text \<open>
  The interface of the LVGL object store as far as the lifetime of objects matters. LVGL is not part of the repository:
  definitions take its operations as an argument, and theorems assume \<open>lv_spec\<close>, the documented behaviour: a new object
  has a fresh identity and a parent, deleting an object deletes everything below it, cleaning deletes everything
  strictly below it. Using an object that has been deleted is undefined; the operations give \<open>None\<close> for it.
\<close>

record 'w lv_ops =
  lv_obj_create :: "nat \<Rightarrow> 'w \<Rightarrow> (nat \<times> 'w) option"
  lv_obj_delete :: "nat \<Rightarrow> 'w \<Rightarrow> 'w option"
  lv_obj_clean :: "nat \<Rightarrow> 'w \<Rightarrow> 'w option"

text \<open>\<open>par w x\<close>: the object is dead (\<open>None\<close>), a screen (\<open>Some None\<close>) or has a parent.\<close>

type_synonym 'w lv_par = "'w \<Rightarrow> nat \<Rightarrow> nat option option"

definition alive :: "'w lv_par \<Rightarrow> 'w \<Rightarrow> nat \<Rightarrow> bool" where
  "alive par w x \<longleftrightarrow> par w x \<noteq> None"

definition child_of :: "'w lv_par \<Rightarrow> 'w \<Rightarrow> nat \<Rightarrow> nat \<Rightarrow> bool" where
  "child_of par w x p \<longleftrightarrow> par w x = Some (Some p)"

definition below :: "'w lv_par \<Rightarrow> 'w \<Rightarrow> nat \<Rightarrow> nat \<Rightarrow> bool" where
  "below par w = (child_of par w)\<^sup>*\<^sup>*"

definition strictly_below :: "'w lv_par \<Rightarrow> 'w \<Rightarrow> nat \<Rightarrow> nat \<Rightarrow> bool" where
  "strictly_below par w = (child_of par w)\<^sup>+\<^sup>+"

definition lv_spec :: "'w lv_ops \<Rightarrow> 'w lv_par \<Rightarrow> bool" where
  "lv_spec ops par \<longleftrightarrow>
     (\<forall>p w. alive par w p \<longrightarrow> (\<exists>x w'. lv_obj_create ops p w = Some (x, w') \<and> \<not> alive par w x \<and> x \<noteq> p \<and>
        par w' = (par w)(x := Some (Some p)))) \<and>
     (\<forall>x w. alive par w x \<longrightarrow> (\<exists>w'. lv_obj_delete ops x w = Some w' \<and>
        par w' = (\<lambda>y. if below par w y x then None else par w y))) \<and>
     (\<forall>x w. alive par w x \<longrightarrow> (\<exists>w'. lv_obj_clean ops x w = Some w' \<and>
        par w' = (\<lambda>y. if strictly_below par w y x then None else par w y))) \<and>
     (\<forall>x w. \<not> alive par w x \<longrightarrow> lv_obj_create ops x w = None \<and> lv_obj_delete ops x w = None \<and> lv_obj_clean ops x w = None)"

lemma lv_create:
  assumes "lv_spec ops par" "alive par w p"
  obtains x w' where "lv_obj_create ops p w = Some (x, w')" "\<not> alive par w x" "x \<noteq> p" "par w' = (par w)(x := Some (Some p))"
  using assms unfolding lv_spec_def by blast

lemma lv_delete:
  assumes "lv_spec ops par" "alive par w x"
  obtains w' where "lv_obj_delete ops x w = Some w'" "\<And>y. par w' y = (if below par w y x then None else par w y)"
  using assms unfolding lv_spec_def by metis

lemma lv_clean:
  assumes "lv_spec ops par" "alive par w x"
  obtains w' where "lv_obj_clean ops x w = Some w'" "\<And>y. par w' y = (if strictly_below par w y x then None else par w y)"
  using assms unfolding lv_spec_def by metis

lemma lv_dead:
  assumes "lv_spec ops par" "\<not> alive par w x"
  shows "lv_obj_create ops x w = None" "lv_obj_delete ops x w = None" "lv_obj_clean ops x w = None"
  using assms unfolding lv_spec_def by blast+

lemma below_refl [simp]: "below par w x x"
  by (simp add: below_def)

lemma below_child: "child_of par w x p \<Longrightarrow> below par w x p"
  by (auto simp: below_def)

lemma strictly_below_child: "child_of par w x p \<Longrightarrow> strictly_below par w x p"
  by (auto simp: strictly_below_def)

text \<open>The parent of a living object is alive; creating an object keeps this.\<close>

definition lv_wf :: "'w lv_par \<Rightarrow> 'w \<Rightarrow> bool" where
  "lv_wf par w \<longleftrightarrow> (\<forall>x p. child_of par w x p \<longrightarrow> alive par w p)"

lemma lv_wf_create: "lv_wf par w \<Longrightarrow> alive par w p \<Longrightarrow> par w' = (par w)(x := Some (Some p)) \<Longrightarrow> lv_wf par w'"
  by (auto simp: lv_wf_def child_of_def alive_def)

lemma fresh_not_above:
  assumes "lv_wf par w" "\<not> alive par w x" "alive par w p" "par w' = (par w)(x := Some (Some p))" "below par w' y x"
  shows "y = x"
  using assms(5) unfolding below_def
proof (cases rule: rtranclp.cases)
  case (rtrancl_into_rtrancl z)
  then have "child_of par w' z x" by simp
  then have "child_of par w z x \<or> p = x"
    using assms(4) by (auto simp: child_of_def split: if_splits)
  then have "alive par w x"
    using assms(1,3) unfolding lv_wf_def by blast
  then show ?thesis using assms(2) by simp
qed simp

lemma below_mono: "(\<And>x p. child_of par w' x p \<Longrightarrow> child_of par w x p) \<Longrightarrow> below par w' y z \<Longrightarrow> below par w y z"
  unfolding below_def by (rule mono_rtranclp [rule_format, of "child_of par w'" "child_of par w"])

lemma strictly_belowD: "strictly_below par w y z \<Longrightarrow> par w y = Some (Some c) \<Longrightarrow> below par w c z"
  by (auto simp: strictly_below_def below_def child_of_def elim: converse_tranclpE)

lemma belowD: "below par w y z \<Longrightarrow> par w y = Some (Some c) \<Longrightarrow> y = z \<or> below par w c z"
  by (auto simp: below_def child_of_def elim: converse_rtranclpE)

lemma strictly_below_below: "strictly_below par w y z \<Longrightarrow> below par w y z"
  by (simp add: strictly_below_def below_def tranclp_into_rtranclp)

lemma below_parent: "child_of par w y p \<Longrightarrow> below par w p z \<Longrightarrow> strictly_below par w y z"
  by (auto simp: below_def strictly_below_def)

text \<open>What dies with an object is closed downwards, so deleting and cleaning keep the parents of living objects alive.\<close>

lemma lv_wf_remove:
  assumes "lv_wf par w" "\<And>y. par w' y = (if dead y then None else par w y)" "\<And>y p. child_of par w y p \<Longrightarrow> dead p \<Longrightarrow> dead y"
  shows "lv_wf par w'" "child_of par w' y p \<Longrightarrow> child_of par w y p"
  using assms by (auto simp: lv_wf_def child_of_def alive_def split: if_splits)

lemma lv_delete_wf:
  assumes "lv_spec ops par" "lv_wf par w" "alive par w x"
  obtains w' where "lv_obj_delete ops x w = Some w'" "lv_wf par w'" "\<And>y. \<not> below par w y x \<Longrightarrow> par w' y = par w y"
    "\<And>y p. child_of par w' y p \<Longrightarrow> child_of par w y p"
proof -
  obtain w' where w': "lv_obj_delete ops x w = Some w'" "\<And>y. par w' y = (if below par w y x then None else par w y)"
    using lv_delete [OF assms(1,3)] by metis
  have "below par w y x" if "child_of par w y p" "below par w p x" for y p
    using below_parent [OF that] by (rule strictly_below_below)
  then show ?thesis
    using that w' lv_wf_remove [OF assms(2) w'(2)] by metis
qed

lemma lv_clean_wf:
  assumes "lv_spec ops par" "lv_wf par w" "alive par w x"
  obtains w' where "lv_obj_clean ops x w = Some w'" "lv_wf par w'" "\<And>y. \<not> strictly_below par w y x \<Longrightarrow> par w' y = par w y"
    "\<And>y p. child_of par w' y p \<Longrightarrow> child_of par w y p"
proof -
  obtain w' where w': "lv_obj_clean ops x w = Some w'" "\<And>y. par w' y = (if strictly_below par w y x then None else par w y)"
    using lv_clean [OF assms(1,3)] by metis
  have "strictly_below par w y x" if "child_of par w y p" "strictly_below par w p x" for y p
    using below_parent [OF that(1) strictly_below_below [OF that(2)]] .
  then show ?thesis
    using that w' lv_wf_remove [OF assms(2) w'(2)] by metis
qed

lemma create_below:
  assumes "lv_wf par w" "\<not> alive par w x" "alive par w p" "par w' = (par w)(x := Some (Some p))" "alive par w y" "below par w' y z"
  shows "below par w y z"
  using assms(6,5) unfolding below_def
proof (induction rule: converse_rtranclp_induct)
  case (step y u)
  have "y \<noteq> x" using step.prems assms(2) by auto
  then have c: "child_of par w y u" using step.hyps(1) assms(4) by (simp add: child_of_def)
  then have "alive par w u" using assms(1) by (auto simp: lv_wf_def)
  then show ?case using step.IH c by (meson converse_rtranclp_into_rtranclp)
qed simp

lemma lv_create_wf:
  assumes "lv_spec ops par" "lv_wf par w" "alive par w p"
  obtains x w' where "lv_obj_create ops p w = Some (x, w')" "lv_wf par w'" "\<not> alive par w x" "child_of par w' x p"
    "\<And>y. alive par w y \<Longrightarrow> par w' y = par w y" "\<And>y z. alive par w y \<Longrightarrow> below par w' y z \<Longrightarrow> below par w y z"
    "\<And>y. below par w' y x \<Longrightarrow> y = x"
proof -
  obtain x w' where x: "lv_obj_create ops p w = Some (x, w')" "\<not> alive par w x" "x \<noteq> p" "par w' = (par w)(x := Some (Some p))"
    using lv_create [OF assms(1,3)] by metis
  show ?thesis
  proof (rule that [OF x(1) lv_wf_create [OF assms(2,3) x(4)] x(2)])
    show "child_of par w' x p" using x(4) by (simp add: child_of_def)
    show "par w' y = par w y" if "alive par w y" for y using that x(2,4) by (auto simp: alive_def)
    show "below par w y z" if "alive par w y" "below par w' y z" for y z
      using create_below [OF assms(2) x(2) assms(3) x(4) that] .
    show "y = x" if "below par w' y x" for y
      using fresh_not_above [OF assms(2) x(2) assms(3) x(4) that] .
  qed
qed

section \<open>Building screens\<close>

text \<open>The store after drawing: all objects that were alive are as before, and parents are still alive.\<close>

definition extends :: "'w lv_par \<Rightarrow> 'w \<Rightarrow> 'w \<Rightarrow> bool" where
  "extends par w w' \<longleftrightarrow> lv_wf par w' \<and> (\<forall>y. alive par w y \<longrightarrow> par w' y = par w y)"

lemma extends_trans: "extends par u v \<Longrightarrow> extends par v w \<Longrightarrow> extends par u w"
  by (auto simp: extends_def alive_def)

lemma extends_alive: "extends par u v \<Longrightarrow> alive par u y \<Longrightarrow> alive par v y"
  by (auto simp: extends_def alive_def)

lemma create_extends:
  assumes "lv_spec lv par" "lv_wf par w" "alive par w p"
  shows "\<exists>x w'. lv_obj_create lv p w = Some (x, w') \<and> extends par w w' \<and> alive par w' x"
proof -
  obtain x w' where x: "lv_obj_create lv p w = Some (x, w')" "\<not> alive par w x" "par w' = (par w)(x := Some (Some p))"
    using lv_create [OF assms(1,3)] by metis
  then show ?thesis
    using lv_wf_create [OF assms(2,3) x(3)] by (auto simp: extends_def alive_def)
qed

text \<open>
  Drawing functions are long sequences of creations. The predicate says that a computation returns and its result
  satisfies a postcondition; with the rules below, the conditions of a whole sequence are computed from its end.
\<close>

definition yields :: "'a option \<Rightarrow> ('a \<Rightarrow> bool) \<Rightarrow> bool" where
  "yields m Q \<longleftrightarrow> (case m of None \<Rightarrow> False | Some r \<Rightarrow> Q r)"

lemma yields_Some [simp]: "yields (Some r) Q \<longleftrightarrow> Q r"
  by (simp add: yields_def)

lemma yields_None [simp]: "\<not> yields None Q"
  by (simp add: yields_def)

lemma yields_bind [simp]: "yields (Option.bind m f) Q \<longleftrightarrow> yields m (\<lambda>r. yields (f r) Q)"
  by (cases m) simp_all

lemma yields_map [simp]: "yields (map_option f m) Q \<longleftrightarrow> yields m (\<lambda>r. Q (f r))"
  by (cases m) simp_all

lemma yieldsD: "yields m Q \<Longrightarrow> \<exists>r. m = Some r \<and> Q r"
  by (cases m) simp_all

lemma yieldsI: "m = Some r \<Longrightarrow> Q r \<Longrightarrow> yields m Q"
  by simp

lemma yields_mono: "yields m P \<Longrightarrow> (\<And>r. P r \<Longrightarrow> Q r) \<Longrightarrow> yields m Q"
  by (cases m) simp_all

lemma extends_refl: "lv_wf par w \<Longrightarrow> extends par w w"
  by (simp add: extends_def)

lemma extends_wf: "extends par w w' \<Longrightarrow> lv_wf par w'"
  by (simp add: extends_def)

lemma extends_child: "extends par w w' \<Longrightarrow> child_of par w x p \<Longrightarrow> child_of par w' x p"
  by (auto simp: extends_def child_of_def alive_def)

text \<open>Everything drawn so far counts from the store \<open>w0\<close> at the beginning.\<close>

lemma create_yields:
  assumes "lv_spec lv par" "extends par w0 w" "alive par w p"
    and "\<And>x w'. extends par w0 w' \<Longrightarrow> extends par w w' \<Longrightarrow> child_of par w' x p \<Longrightarrow> alive par w' x \<Longrightarrow> \<not> alive par w x \<Longrightarrow> Q (x, w')"
  shows "yields (lv_obj_create lv p w) Q"
proof -
  obtain x w' where x: "lv_obj_create lv p w = Some (x, w')" "\<not> alive par w x" "par w' = (par w)(x := Some (Some p))"
    using lv_create [OF assms(1,3)] by metis
  have e: "extends par w w'"
    using lv_wf_create [OF extends_wf [OF assms(2)] assms(3) x(3)] x(2,3) by (auto simp: extends_def alive_def)
  then show ?thesis
    using assms(4) [OF extends_trans [OF assms(2) e] e] x by (simp add: child_of_def alive_def)
qed

text \<open>The objects drawn since the store \<open>w0\<close>, with their parents.\<close>

definition drawn :: "'w lv_par \<Rightarrow> 'w \<Rightarrow> (nat \<times> nat) list \<Rightarrow> 'w \<Rightarrow> bool" where
  "drawn par w0 C w \<longleftrightarrow> extends par w0 w \<and> (\<forall>(x, p) \<in> set C. child_of par w x p \<and> \<not> alive par w0 x)"

lemma drawn_start: "lv_wf par w \<Longrightarrow> drawn par w [] w"
  by (simp add: drawn_def extends_refl)

lemma drawn_extends: "drawn par w0 C w \<Longrightarrow> extends par w w' \<Longrightarrow> drawn par w0 C w'"
  using extends_trans extends_child by (fastforce simp: drawn_def)

lemma drawn_alive: "drawn par w0 C w \<Longrightarrow> p \<in> fst ` set C \<or> alive par w0 p \<Longrightarrow> alive par w p"
  by (auto simp: drawn_def child_of_def alive_def extends_def)

lemma create_drawn:
  assumes "lv_spec lv par" "drawn par w0 C w" "p \<in> fst ` set C \<or> alive par w0 p"
    and "\<And>x w'. drawn par w0 ((x, p) # C) w' \<Longrightarrow> Q (x, w')"
  shows "yields (lv_obj_create lv p w) Q"
proof (rule create_yields [OF assms(1) _ drawn_alive [OF assms(2,3)]])
  show e: "extends par w0 w" using assms(2) by (simp add: drawn_def)
  fix x w'
  assume x: "extends par w w'" "child_of par w' x p" "\<not> alive par w x"
  have "\<not> alive par w0 x"
    using x(3) extends_alive [OF e] by blast
  then show "Q (x, w')"
    using assms(4) drawn_extends [OF assms(2) x(1)] x(2) by (simp add: drawn_def)
qed

text \<open>Older objects are not below younger ones.\<close>

lemma extends_below:
  assumes "lv_wf par w" "extends par w w'" "alive par w y" "below par w' y z"
  shows "below par w y z \<and> alive par w z"
  using assms(4,3) unfolding below_def
proof (induction rule: converse_rtranclp_induct)
  case (step y u)
  then have c: "child_of par w y u"
    using assms(2) by (simp add: extends_def child_of_def)
  then have "alive par w u" using assms(1) by (auto simp: lv_wf_def)
  then show ?case using step.IH c by (meson converse_rtranclp_into_rtranclp)
qed simp

lemma drawn_wf: "drawn par w0 C w \<Longrightarrow> lv_wf par w"
  by (simp add: drawn_def extends_def)

lemma drawn_old: "drawn par w0 C w \<Longrightarrow> alive par w0 y \<Longrightarrow> alive par w y"
  by (auto simp: drawn_def intro: extends_alive)

lemma drawn_child: "drawn par w0 C w \<Longrightarrow> (x, p) \<in> set C \<Longrightarrow> child_of par w x p"
  by (auto simp: drawn_def)

lemma drawn_not_below:
  assumes "lv_wf par w0" "drawn par w0 C w" "alive par w0 y" "x \<in> fst ` set C"
  shows "\<not> below par w y x"
  using extends_below [OF assms(1) _ assms(3)] assms(2,4) by (auto simp: drawn_def)

text \<open>
  An object that was drawn into a place that had been there before: it can be deleted again, and the place stays.
\<close>

definition placed :: "'w lv_par \<Rightarrow> nat \<Rightarrow> nat \<Rightarrow> 'w \<Rightarrow> bool" where
  "placed par root x w \<longleftrightarrow> lv_wf par w \<and> alive par w root \<and> child_of par w x root \<and> \<not> below par w root x"

lemma drawn_placed: "drawn par w0 C w \<Longrightarrow> lv_wf par w0 \<Longrightarrow> alive par w0 root \<Longrightarrow> (x, root) \<in> set C \<Longrightarrow> placed par root x w"
  unfolding placed_def using drawn_not_below drawn_child drawn_old drawn_wf by (metis fst_conv image_eqI)

lemma placed_all: "placed par root x w \<Longrightarrow> lv_wf par w \<and> alive par w root \<and> placed par root x w"
  by (simp add: placed_def)

lemma delete_placed:
  assumes "lv_spec lv par" "placed par root x w"
  shows "yields (lv_obj_delete lv x w) (\<lambda>w'. lv_wf par w' \<and> alive par w' root \<and> \<not> alive par w' x)"
proof -
  have x: "alive par w x" "lv_wf par w" "\<not> below par w root x" "alive par w root"
    using assms(2) by (auto simp: placed_def child_of_def alive_def)
  then obtain w' where w': "lv_obj_delete lv x w = Some w'" "\<And>y. par w' y = (if below par w y x then None else par w y)"
    using lv_delete [OF assms(1)] by metis
  obtain w2 where "lv_obj_delete lv x w = Some w2" "lv_wf par w2"
    using lv_delete_wf [OF assms(1) x(2,1)] by metis
  then show ?thesis
    using w' x by (auto intro!: yieldsI [OF w'(1)] simp: alive_def)
qed

lemma placed_extends: "placed par root x w \<Longrightarrow> extends par w w' \<Longrightarrow> placed par root x w'"
  unfolding placed_def using extends_below extends_alive extends_child extends_wf by metis

lemma create_placed:
  assumes "lv_spec lv par" "lv_wf par w" "alive par w p" "\<And>x w'. extends par w w' \<Longrightarrow> placed par p x w' \<Longrightarrow> Q (x, w')"
  shows "yields (lv_obj_create lv p w) Q"
proof (rule create_yields [OF assms(1) extends_refl [OF assms(2)] assms(3)])
  fix x w'
  assume x: "extends par w w'" "child_of par w' x p" "\<not> alive par w x"
  then have "\<not> below par w' p x" using extends_below [OF assms(2) x(1) assms(3)] by blast
  then show "Q (x, w')"
    using assms(4) [OF x(1)] x extends_wf [OF x(1)] extends_alive [OF x(1) assms(3)] by (simp add: placed_def)
qed

lemma below_trans: "below par w x y \<Longrightarrow> below par w y z \<Longrightarrow> below par w x z"
  unfolding below_def by (rule rtranclp_trans)

text \<open>An object that was placed stays placed when something is removed that is neither itself nor its place.\<close>

lemma removal_keeps_placed:
  assumes "placed par root b w" "\<And>y. par w' y = (if dead y then None else par w y)" "lv_wf par w'" "\<not> dead root" "\<not> dead b"
  shows "placed par root b w'"
proof -
  have b: "child_of par w b root" "\<not> below par w root b" "alive par w root" using assms(1) by (simp_all add: placed_def)
  have c: "child_of par w y p" if "child_of par w' y p" for y p
  proof -
    have "(if dead y then None else par w y) = Some (Some p)" using that unfolding child_of_def assms(2) .
    then have "par w y = Some (Some p)" by (cases "dead y") (simp_all only: if_True if_False option.distinct)
    then show ?thesis unfolding child_of_def .
  qed
  have "par w' root = par w root" "par w' b = par w b" using assms(2,4,5) by simp_all
  moreover have "\<not> below par w' root b" using below_mono [OF c] b(2) by blast
  ultimately show ?thesis using assms(3) b by (simp add: placed_def alive_def child_of_def)
qed

lemma delete_removes:
  assumes "lv_spec ops par" "lv_wf par w" "alive par w x"
  obtains w' where "lv_obj_delete ops x w = Some w'" "lv_wf par w'" "\<And>y. par w' y = (if below par w y x then None else par w y)"
proof -
  obtain w' where w': "lv_obj_delete ops x w = Some w'" "\<And>y. par w' y = (if below par w y x then None else par w y)"
    using lv_delete [OF assms(1,3)] by metis
  obtain w2 where "lv_obj_delete ops x w = Some w2" "lv_wf par w2"
    using lv_delete_wf [OF assms] by metis
  then show ?thesis using that w' by simp
qed

lemma clean_removes:
  assumes "lv_spec ops par" "lv_wf par w" "alive par w x"
  obtains w' where "lv_obj_clean ops x w = Some w'" "lv_wf par w'" "\<And>y. par w' y = (if strictly_below par w y x then None else par w y)"
proof -
  obtain w' where w': "lv_obj_clean ops x w = Some w'" "\<And>y. par w' y = (if strictly_below par w y x then None else par w y)"
    using lv_clean [OF assms(1,3)] by metis
  obtain w2 where "lv_obj_clean ops x w = Some w2" "lv_wf par w2"
    using lv_clean_wf [OF assms] by metis
  then show ?thesis using that w' by simp
qed

lemma delete_keeps_placed:
  assumes "lv_spec lv par" "placed par root b w" "alive par w x" "\<not> below par w b x"
  shows "yields (lv_obj_delete lv x w) (\<lambda>w'. placed par root b w')"
proof -
  have b: "lv_wf par w" "child_of par w b root" using assms(2) by (simp_all add: placed_def)
  have "\<not> below par w root x" using below_trans [OF below_child [OF b(2)], of x] assms(4) by blast
  moreover obtain w' where w': "lv_obj_delete lv x w = Some w'" "lv_wf par w'"
    "\<And>y. par w' y = (if below par w y x then None else par w y)"
    using delete_removes [OF assms(1) b(1) assms(3)] by blast
  ultimately have "placed par root b w'" using removal_keeps_placed [OF assms(2) w'(3,2)] assms(4) by blast
  then show ?thesis using w'(1) by simp
qed

lemma delete_nested:
  assumes "lv_spec lv par" "placed par root b w" "placed par b x w"
  shows "yields (lv_obj_delete lv x w) (\<lambda>w'. placed par root b w')"
  using delete_keeps_placed [OF assms(1,2), of x] assms(3) by (auto simp: placed_def child_of_def alive_def)

lemma beside:
  assumes "placed par root b w" "placed par root x w" "x \<noteq> b"
  shows "\<not> below par w b x" "alive par w x"
proof -
  have b: "par w b = Some (Some root)" "\<not> below par w root x" using assms(1,2) by (simp_all add: placed_def child_of_def)
  then show "\<not> below par w b x" using belowD [of par w b x root] assms(3) by blast
  show "alive par w x" using assms(2) by (simp add: placed_def child_of_def alive_def)
qed

text \<open>A store: which objects below a counter are alive, and their parents.\<close>

type_synonym map_store = "(nat \<Rightarrow> nat option option) \<times> nat"

definition store_par :: "map_store lv_par" where
  "store_par w x = (if x < snd w then fst w x else None)"

definition store_ops :: "map_store lv_ops" where
  "store_ops = \<lparr>lv_obj_create = (\<lambda>p w. if alive store_par w p then Some (snd w, ((fst w)(snd w := Some (Some p)), Suc (snd w))) else None),
     lv_obj_delete = (\<lambda>x w. if alive store_par w x then Some (\<lambda>y. if below store_par w y x then None else fst w y, snd w) else None),
     lv_obj_clean = (\<lambda>x w. if alive store_par w x then Some (\<lambda>y. if strictly_below store_par w y x then None else fst w y, snd w) else None)\<rparr>"

lemma store_spec: "lv_spec store_ops store_par"
  by (auto simp: lv_spec_def store_ops_def store_par_def alive_def fun_eq_iff)

end
