(* ===== verification/App_Manager.thy ===== *)
theory App_Manager
  imports Widgets Common_Types Runtime_Manager
begin

text \<open>
  The application manager: the registry, the running application and its updates (\<open>app_manager.c\<close>), the picker that
  opens and closes applications (\<open>app_picker_ui.c\<close>), and the numbering and permissions of \<open>app_utils.c\<close>.

  The callbacks of an application are entries of \<open>app_log\<close>. The widgets live in an object store given by its operations;
  using a deleted object and failed assertions are \<open>None\<close>. Styles, images and animations of the picker are left out.
\<close>

section \<open>State\<close>

definition MAX_APPS :: nat where "MAX_APPS = 15"
definition MAX_SYSTEM_APPS :: nat where "MAX_SYSTEM_APPS = 5"
definition MAX_WATCHFACE_IDS :: nat where "MAX_WATCHFACE_IDS = 10"

definition APP_PERM_ALL :: "16 word" where "APP_PERM_ALL = 0x7FFF"
definition APP_FLAG_SYSTEM :: "16 word" where "APP_FLAG_SYSTEM = 0x8000"
definition APP_PERM_SYSTEM :: "16 word" where "APP_PERM_SYSTEM = or APP_FLAG_SYSTEM APP_PERM_ALL"
definition APP_PERM_BLE :: "16 word" where "APP_PERM_BLE = 0x0001"
definition APP_PERM_SENSOR :: "16 word" where "APP_PERM_SENSOR = 0x0002"
definition APP_PERM_WAKELOCK :: "16 word" where "APP_PERM_WAKELOCK = 0x0004"

record application =
  app_id :: byte
  app_perms :: "16 word"
  app_name :: "byte list"
  app_handles :: bool

datatype app_call = Draw_app application nat | Close_app application | Handle_event application app_update

record ('h, 'w) app_sys = "'h event_mgr" +
  all_apps :: "application option list"
  curr_app :: "application option"
  num_apps :: nat
  is_app_running :: bool
  am_initialized :: bool
  app_log :: "app_call list"
  app_scr :: "nat option"
  app_root_cont :: "nat option"
  row_dsc :: "nat option"
  app_widgets :: 'w

section \<open>Numbering and permissions\<close>

definition get_system_app_id :: "application \<Rightarrow> byte" where
  "get_system_app_id app = of_nat (MAX_SYSTEM_APPS + MAX_WATCHFACE_IDS) + app_id app - 1"

definition check_app_permission :: "application \<Rightarrow> 16 word \<Rightarrow> bool" where
  "check_app_permission app perm \<longleftrightarrow> and (app_perms app) perm = perm"

section \<open>Application manager\<close>

text \<open>Registering an application gives it its number.\<close>

definition app_manager_add_app :: "application option \<Rightarrow> ('h, 'w, 'z) app_sys_scheme \<Rightarrow> ('h, 'w, 'z) app_sys_scheme" where
  "app_manager_add_app appp s =
     (case appp of
        None \<Rightarrow> s
      | Some app \<Rightarrow>
          if num_apps s \<ge> MAX_APPS then s
          else s\<lparr>all_apps := (all_apps s)[num_apps s := Some (app\<lparr>app_id := of_nat (num_apps s + 1)\<rparr>)], num_apps := num_apps s + 1\<rparr>)"

definition dispatch_app_update :: "app_update \<Rightarrow> ('h, 'w, 'z) app_sys_scheme \<Rightarrow> ('h, 'w, 'z) app_sys_scheme" where
  "dispatch_app_update upd s =
     (case curr_app s of
        None \<Rightarrow> s
      | Some app \<Rightarrow>
          if get_system_app_id app \<noteq> au_req_app upd then s
          else if app_handles app then s\<lparr>app_log := app_log s @ [Handle_event app upd]\<rparr>
          else s)"

text \<open>An update as the bytes of a work item: the request, the application, the data and three bytes of padding.\<close>

definition app_update_bytes :: "app_update \<Rightarrow> byte list" where
  "app_update_bytes upd = [0, 0, 0, 0, au_req_app upd] @ au_data upd @ [0, 0, 0]"

definition app_update_of :: "byte list \<Rightarrow> app_update option" where
  "app_update_of bs =
     (if length bs = sizeof_app_update \<and> take 4 bs = [0, 0, 0, 0]
      then Some \<lparr>au_req = DATED_WEATHER_REQUEST, au_req_app = bs ! 4, au_data = take MAX_APP_RESPONSE_SIZE (drop 5 bs)\<rparr>
      else None)"

definition app_work :: "'f \<Rightarrow> app_update \<Rightarrow> 'f work_item" where
  "app_work f upd = \<lparr>wi_handler = Some (Work_fn f), wi_type = WORK_TYPE_USER, wi_arg = Arg_bytes (app_update_bytes upd), wi_priority = 0\<rparr>"

definition receive_app_update ::
  "rt_env \<Rightarrow> ('f work_item, 'q) queue_ops \<Rightarrow> 'f \<Rightarrow> sys_event option \<Rightarrow> ('h, 'w, 'z) app_sys_scheme \<Rightarrow>
   ('f, 'q, 'y) runtime_scheme \<Rightarrow> ('f, 'q, 'y) runtime_scheme option" where
  "receive_app_update env ops f evp s r =
     (case evp of
        None \<Rightarrow> Some r
      | Some e \<Rightarrow>
          if \<not> am_initialized s then Some r
          else case ev_data e of
            Data_app_update upd \<Rightarrow>
              if ev_payload_len e \<noteq> sizeof_app_update then None
              else map_option snd (schedule_user_work env ops (Some (app_work f upd)) r)
          | Data_none \<Rightarrow> Some r
          | _ \<Rightarrow> None)"

text \<open>
  What a worker does with the item \<open>receive_app_update\<close> queues for it: it calls \<open>dispatch_app_update\<close> with the
  payload of the item. \<open>f\<close> is the identity of that handler.
\<close>

definition run_app_work ::
  "'f \<Rightarrow> 'f work_item \<Rightarrow> ('h, 'w, 'z) app_sys_scheme \<Rightarrow> ('h, 'w, 'z) app_sys_scheme option" where
  "run_app_work f item s =
     (case (wi_handler item, wi_arg item) of
        (Some (Work_fn g), Arg_bytes arg) \<Rightarrow>
          if g = f then map_option (\<lambda>update. dispatch_app_update update s) (app_update_of arg) else None
      | _ \<Rightarrow> None)"

definition close_curr_app :: "('h, 'w, 'z) app_sys_scheme \<Rightarrow> ('h, 'w, 'z) app_sys_scheme" where
  "close_curr_app s =
     (if \<not> is_app_running s \<or> \<not> am_initialized s then s
      else case curr_app s of
        None \<Rightarrow> s
      | Some app \<Rightarrow> s\<lparr>app_log := app_log s @ [Close_app app], curr_app := None, is_app_running := False\<rparr>)"

definition open_app :: "application option \<Rightarrow> nat option \<Rightarrow> ('h, 'w, 'z) app_sys_scheme \<Rightarrow> ('h, 'w, 'z) app_sys_scheme" where
  "open_app appp parentp s =
     (case (appp, parentp) of
        (Some app, Some parent) \<Rightarrow>
          if \<not> am_initialized s then s
          else let s1 = (if is_app_running s then close_curr_app s else s)
               in s1\<lparr>curr_app := Some app, is_app_running := True, app_log := app_log s1 @ [Draw_app app parent]\<rparr>
      | _ \<Rightarrow> s)"

definition check_if_app_running :: "('h, 'w, 'z) app_sys_scheme \<Rightarrow> bool" where
  "check_if_app_running s \<longleftrightarrow> am_initialized s \<and> is_app_running s"

definition get_current_app :: "('h, 'w, 'z) app_sys_scheme \<Rightarrow> application option" where
  "get_current_app s = (if am_initialized s then curr_app s else None)"

section \<open>The picker\<close>

definition GRID_COLUMNS_PER_ROW :: nat where "GRID_COLUMNS_PER_ROW = 2"

definition total_rows :: "nat \<Rightarrow> nat" where
  "total_rows n = (n + 1) div GRID_COLUMNS_PER_ROW"

text \<open>Column and row of the cell of an application.\<close>

definition grid_cell :: "nat \<Rightarrow> nat \<times> nat" where
  "grid_cell i = (i mod GRID_COLUMNS_PER_ROW, i div GRID_COLUMNS_PER_ROW)"

definition draw_button :: "'w lv_ops \<Rightarrow> nat \<Rightarrow> nat \<Rightarrow> 'w \<Rightarrow> 'w option" where
  "draw_button lv cont i w =
     do {
       (btn, w1) \<leftarrow> lv_obj_create lv cont w;
       (icon, w2) \<leftarrow> lv_obj_create lv btn w1;
       (label, w3) \<leftarrow> lv_obj_create lv btn w2;
       Some w3
     }"

definition draw_app_picker_ui :: "'w lv_ops \<Rightarrow> nat \<Rightarrow> nat \<Rightarrow> ('h, 'w, 'z) app_sys_scheme \<Rightarrow> ('h, 'w, 'z) app_sys_scheme option" where
  "draw_app_picker_ui lv root n s =
     do {
       (root_cont, w1) \<leftarrow> lv_obj_create lv root (app_widgets s);
       (cont, w2) \<leftarrow> lv_obj_create lv root_cont w1;
       w3 \<leftarrow> mfold (draw_button lv cont) [0..<n] w2;
       Some (s\<lparr>row_dsc := Some (total_rows n), app_root_cont := Some root_cont, app_widgets := w3\<rparr>)
     }"

definition lv_delete_if :: "'w lv_ops \<Rightarrow> nat option \<Rightarrow> 'w \<Rightarrow> 'w option" where
  "lv_delete_if lv obj w = (case obj of None \<Rightarrow> Some w | Some x \<Rightarrow> lv_obj_delete lv x w)"

definition del_app_picker_ui :: "'w lv_ops \<Rightarrow> ('h, 'w, 'z) app_sys_scheme \<Rightarrow> ('h, 'w, 'z) app_sys_scheme option" where
  "del_app_picker_ui lv s =
     do {
       w1 \<leftarrow> lv_delete_if lv (app_root_cont s) (app_widgets s);
       w2 \<leftarrow> lv_delete_if lv (app_scr s) w1;
       Some (s\<lparr>row_dsc := None, app_root_cont := None, app_scr := None, app_widgets := w2\<rparr>)
     }"

definition app_manager_show_app_picker_ui ::
  "'w lv_ops \<Rightarrow> nat option \<Rightarrow> ('h, 'w, 'z) app_sys_scheme \<Rightarrow> ('h, 'w, 'z) app_sys_scheme option" where
  "app_manager_show_app_picker_ui lv parentp s =
     (case parentp of
        None \<Rightarrow> Some s
      | Some parent \<Rightarrow> if \<not> am_initialized s then Some s else draw_app_picker_ui lv parent (num_apps s) s)"

definition app_manager_del_app_picker_ui :: "'w lv_ops \<Rightarrow> ('h, 'w, 'z) app_sys_scheme \<Rightarrow> ('h, 'w, 'z) app_sys_scheme option" where
  "app_manager_del_app_picker_ui lv s = del_app_picker_ui lv s"

text \<open>The key events: \<open>enter\<close> and \<open>esc\<close> tell the key, \<open>focused\<close> whether the screen of the application has the focus.\<close>

definition open_app_cb ::
  "'w lv_ops \<Rightarrow> bool \<Rightarrow> application option \<Rightarrow> ('h, 'w, 'z) app_sys_scheme \<Rightarrow> ('h, 'w, 'z) app_sys_scheme option" where
  "open_app_cb lv enter appp s =
     (case app_root_cont s of
        None \<Rightarrow> Some s
      | Some root_cont \<Rightarrow>
          if app_scr s \<noteq> None then Some s
          else if \<not> enter then Some s
          else if appp = None then Some s
          else do {
            (scr, w1) \<leftarrow> lv_obj_create lv root_cont (app_widgets s);
            Some (open_app appp (Some scr) (s\<lparr>app_scr := Some scr, app_widgets := w1\<rparr>))
          })"

text \<open>The result tells whether the event stops bubbling.\<close>

definition close_current_app_cb ::
  "'w lv_ops \<Rightarrow> bool \<Rightarrow> bool \<Rightarrow> bool \<Rightarrow> ('h, 'w, 'z) app_sys_scheme \<Rightarrow> (bool \<times> ('h, 'w, 'z) app_sys_scheme) option" where
  "close_current_app_cb lv focused esc enter s =
     (if \<not> check_if_app_running s then Some (False, s)
      else if \<not> focused then Some (False, s)
      else do {
        s1 \<leftarrow> (if esc
               then let s0 = close_curr_app s in
                 do {
                   scr \<leftarrow> app_scr s0;
                   w1 \<leftarrow> lv_obj_delete lv scr (app_widgets s0);
                   Some (s0\<lparr>app_scr := None, app_widgets := w1\<rparr>)
                 }
               else Some s);
        Some (\<not> enter, s1)
      })"

definition app_manager_init :: "'h \<Rightarrow> ('h, 'w, 'z) app_sys_scheme \<Rightarrow> ('h, 'w, 'z) app_sys_scheme" where
  "app_manager_init h s =
     (if am_initialized s then s
      else snd (event_subscribe EVENT_APP_WORK_SCHEDULE (Some h)
        (s\<lparr>num_apps := 0, curr_app := None, is_app_running := False, am_initialized := True\<rparr>)))"

definition app_manager_deinit :: "'w lv_ops \<Rightarrow> 'h \<Rightarrow> ('h, 'w, 'z) app_sys_scheme \<Rightarrow> ('h, 'w, 'z) app_sys_scheme option" where
  "app_manager_deinit lv h s =
     (let s1 = (snd (event_unsubscribe EVENT_APP_WORK_SCHEDULE (Some h) s))\<lparr>num_apps := 0\<rparr>;
          s2 = (if curr_app s1 \<noteq> None then (close_curr_app s1)\<lparr>curr_app := None\<rparr> else s1)
      in do {
        s3 \<leftarrow> del_app_picker_ui lv s2;
        Some (s3\<lparr>is_app_running := False, all_apps := replicate MAX_APPS None, am_initialized := False\<rparr>)
      })"

section \<open>Updates reach their application\<close>

definition numbered :: "application list \<Rightarrow> nat \<Rightarrow> application" where
  "numbered apps i = (apps ! i)\<lparr>app_id := of_nat (i + 1)\<rparr>"

lemma register_apps:
  assumes "num_apps s = 0" "length (all_apps s) = MAX_APPS" "length apps \<le> MAX_APPS"
  shows "num_apps (fold (\<lambda>a. app_manager_add_app (Some a)) apps s) = length apps \<and>
     length (all_apps (fold (\<lambda>a. app_manager_add_app (Some a)) apps s)) = MAX_APPS \<and>
     (\<forall>i < length apps. all_apps (fold (\<lambda>a. app_manager_add_app (Some a)) apps s) ! i = Some (numbered apps i)) \<and>
     am_initialized (fold (\<lambda>a. app_manager_add_app (Some a)) apps s) = am_initialized s"
  using assms(3)
proof (induction apps rule: rev_induct)
  case (snoc a apps)
  then show ?case
    by (auto simp: app_manager_add_app_def numbered_def nth_list_update nth_append less_Suc_eq)
qed (use assms in simp)

lemma system_id_inj:
  assumes "i < MAX_APPS" "j < MAX_APPS"
  shows "get_system_app_id (numbered apps i) = get_system_app_id (numbered apps j) \<longleftrightarrow> i = j"
proof -
  have *: "unat (of_nat (k + 1) :: byte) = k + 1" if "k < 15" for k
    using that by (simp add: unat_of_nat take_bit_eq_mod del: of_nat_Suc of_nat_add)
  have "(of_nat (i + 1) :: byte) = of_nat (j + 1) \<Longrightarrow> i = j"
    using * [of i] * [of j] assms unfolding MAX_APPS_def by (metis add_right_cancel)
  then show ?thesis
    by (auto simp: get_system_app_id_def numbered_def simp del: of_nat_Suc of_nat_add)
qed

lemma app_update_roundtrip: "length (au_data upd) = MAX_APP_RESPONSE_SIZE \<Longrightarrow> app_update_of (app_update_bytes upd) = Some upd"
  by (cases upd; cases "au_req upd") (simp add: app_update_of_def app_update_bytes_def sizeof_app_update_def MAX_APP_RESPONSE_SIZE_def)

definition update_event :: "app_update \<Rightarrow> sys_event" where
  "update_event upd = \<lparr>ev = EVENT_APP_WORK_SCHEDULE, ev_payload_len = sizeof_app_update, ev_data = Data_app_update upd\<rparr>"

text \<open>A received update is one more item in the queue of user work.\<close>

lemma receive_queues:
  assumes "queue_spec ops items cap" and "rt_initialized r" "runtime_lock r" "\<not> shutdown_initialized r" "e_lock env"
    and "runtime_state r \<noteq> RUNTIME_STATE_GRACE_PERIOD" and "user_work r = Some uq" and "length (items uq) < cap uq"
    and "am_initialized s"
  shows "\<exists>uq'. receive_app_update env ops f (Some (update_event upd)) s r = Some (r\<lparr>user_work := Some uq'\<rparr>) \<and>
     items uq' = items uq @ [app_work f upd] \<and> cap uq' = cap uq"
proof -
  obtain b uq' where send: "xQueueSend ops (app_work f upd) uq = (b, uq')"
    by (cases "xQueueSend ops (app_work f upd) uq")
  then have "items uq' = items uq @ [app_work f upd]" "cap uq' = cap uq"
    using queue_send [OF assms(1), of "app_work f upd" uq] assms(8) by auto
  then show ?thesis
    using assms(2-7,9) send
    by (intro exI [of _ uq']) (simp add: receive_app_update_def update_event_def schedule_user_work_def acquire_lock_runtime_def app_work_def)
qed

lemma receives_queue:
  assumes "queue_spec ops items cap" and "rt_initialized r" "runtime_lock r" "\<not> shutdown_initialized r" "e_lock env"
    and "runtime_state r \<noteq> RUNTIME_STATE_GRACE_PERIOD" and "user_work r = Some uq" and "length (items uq) + length us \<le> cap uq"
    and "am_initialized s"
  shows "\<exists>uq'. mfold (\<lambda>u. receive_app_update env ops f (Some (update_event u)) s) us r = Some (r\<lparr>user_work := Some uq'\<rparr>) \<and>
     items uq' = items uq @ map (app_work f) us"
  using assms(2-8)
proof (induction us arbitrary: r uq)
  case Nil
  then have "r\<lparr>user_work := Some uq\<rparr> = r" by (cases r) simp
  then show ?case by (intro exI [of _ uq]) simp
next
  case (Cons u us)
  obtain q1 where q1: "receive_app_update env ops f (Some (update_event u)) s r = Some (r\<lparr>user_work := Some q1\<rparr>)"
    "items q1 = items uq @ [app_work f u]" "cap q1 = cap uq"
    using receive_queues [OF assms(1) Cons.prems(1-6) _ assms(9), of f u] Cons.prems(7) by auto
  show ?case
    using Cons.IH [of "r\<lparr>user_work := Some q1\<rparr>" q1] Cons.prems q1 by simp
qed

lemma run_app_works:
  assumes "curr_app t = Some app" and "\<forall>u \<in> set us. length (au_data u) = MAX_APP_RESPONSE_SIZE"
  shows "mfold (run_app_work f) (map (app_work f) us) t = Some (t\<lparr>app_log := app_log t @
     (if app_handles app then map (Handle_event app) (filter (\<lambda>u. au_req_app u = get_system_app_id app) us) else [])\<rparr>)"
  using assms
proof (induction us arbitrary: t)
  case (Cons u us)
  have one: "run_app_work f (app_work f u) t = Some (dispatch_app_update u t)"
    using Cons.prems(2) app_update_roundtrip [of u] by (simp add: run_app_work_def app_work_def)
  have "curr_app (dispatch_app_update u t) = Some app"
    using Cons.prems(1) by (simp add: dispatch_app_update_def)
  then show ?case
    using Cons.IH [of "dispatch_app_update u t"] Cons.prems one by (auto simp: dispatch_app_update_def)
qed simp

text \<open>
  C25: an update reaches the application that asked for it and no other. Let at most 15 applications be registered and
  one of them be open, and let updates arrive as events while the runtime accepts work (its lock is obtained, no grace
  period, no shutdown) and the user queue has room for them. Then the updates are queued as work items behind what the
  queue holds, and the workers that take these items hand exactly the updates with the number of the open application
  to it, in their order (to none if it does not handle events), and do nothing else; and the number of an application
  is its own among those registered.
\<close>

theorem app_updates_isolated:
  assumes "am_initialized s" and "num_apps s = 0" and "length (all_apps s) = MAX_APPS" and "length apps \<le> MAX_APPS"
    and "j < length apps" and "\<forall>u \<in> set us. length (au_data u) = MAX_APP_RESPONSE_SIZE"
    and "t = open_app (all_apps (fold (\<lambda>a. app_manager_add_app (Some a)) apps s) ! j) (Some scr)
               (fold (\<lambda>a. app_manager_add_app (Some a)) apps s)"
    and "queue_spec ops items cap" and "rt_initialized r" "runtime_lock r" "\<not> shutdown_initialized r" "e_lock env"
    and "runtime_state r \<noteq> RUNTIME_STATE_GRACE_PERIOD" and "user_work r = Some uq" and "length (items uq) + length us \<le> cap uq"
  shows "(\<exists>uq' works. mfold (\<lambda>u. receive_app_update env ops f (Some (update_event u)) t) us r = Some (r\<lparr>user_work := Some uq'\<rparr>) \<and>
       items uq' = items uq @ works \<and>
       mfold (run_app_work f) works t = Some (t\<lparr>app_log := app_log t @
         (if app_handles (apps ! j)
          then map (Handle_event (numbered apps j)) (filter (\<lambda>u. au_req_app u = get_system_app_id (numbered apps j)) us) else [])\<rparr>)) \<and>
     (\<forall>i < length apps. get_system_app_id (numbered apps i) = get_system_app_id (numbered apps j) \<longleftrightarrow> i = j)"
proof (intro conjI)
  have c: "curr_app t = Some (numbered apps j)" "am_initialized t"
    using register_apps [OF assms(2-4)] assms(1,5,7) by (auto simp: open_app_def Let_def close_curr_app_def split: option.splits)
  have "app_handles (numbered apps j) = app_handles (apps ! j)"
    by (simp add: numbered_def)
  then show "\<exists>uq' works. mfold (\<lambda>u. receive_app_update env ops f (Some (update_event u)) t) us r = Some (r\<lparr>user_work := Some uq'\<rparr>) \<and>
       items uq' = items uq @ works \<and>
       mfold (run_app_work f) works t = Some (t\<lparr>app_log := app_log t @
         (if app_handles (apps ! j)
          then map (Handle_event (numbered apps j)) (filter (\<lambda>u. au_req_app u = get_system_app_id (numbered apps j)) us) else [])\<rparr>)"
    using receives_queue [OF assms(8-15) c(2), of f] run_app_works [OF c(1) assms(6), of f] by auto
  show "\<forall>i < length apps. get_system_app_id (numbered apps i) = get_system_app_id (numbered apps j) \<longleftrightarrow> i = j"
    using system_id_inj [of _ j apps] assms(4,5) by simp
qed

section \<open>One application at a time\<close>

text \<open>The application left open by a sequence of calls, if every call is in order.\<close>

primrec log_run :: "app_call list \<Rightarrow> application option \<Rightarrow> application option option" where
  "log_run [] cur = Some cur"
| "log_run (c # cs) cur =
     (case c of
        Draw_app a p \<Rightarrow> if cur = None then log_run cs (Some a) else None
      | Close_app a \<Rightarrow> if cur = Some a then log_run cs None else None
      | Handle_event a u \<Rightarrow> if cur = Some a then log_run cs cur else None)"

lemma log_run_append: "log_run (cs @ ds) cur = Option.bind (log_run cs cur) (log_run ds)"
  by (induction cs arbitrary: cur) (auto split: app_call.splits)

datatype app_op = Open_app application nat | Close_current | App_update app_update

primrec app_exec :: "app_op \<Rightarrow> ('h, 'w, 'z) app_sys_scheme \<Rightarrow> ('h, 'w, 'z) app_sys_scheme" where
  "app_exec (Open_app a p) s = open_app (Some a) (Some p) s"
| "app_exec Close_current s = close_curr_app s"
| "app_exec (App_update u) s = dispatch_app_update u s"

definition app_ok :: "('h, 'w, 'z) app_sys_scheme \<Rightarrow> bool" where
  "app_ok s \<longleftrightarrow> am_initialized s \<and> (is_app_running s \<longleftrightarrow> curr_app s \<noteq> None) \<and> log_run (app_log s) None = Some (curr_app s)"

lemma app_exec_ok: "app_ok s \<Longrightarrow> app_ok (app_exec op s)"
  by (cases op) (auto simp: app_ok_def open_app_def close_curr_app_def dispatch_app_update_def Let_def log_run_append split: option.splits)

text \<open>
  At most one application is open. Whatever the order of opening, closing and updates, every application that is
  drawn is closed before another is drawn, only an open application is closed or handed updates, and the manager's
  current application is the one left open.
\<close>

lemma one_app_at_a_time:
  assumes "am_initialized s" and "\<not> is_app_running s" and "curr_app s = None" and "app_log s = []"
  shows "log_run (app_log (fold app_exec ops s)) None = Some (get_current_app (fold app_exec ops s)) \<and>
     (check_if_app_running (fold app_exec ops s) \<longleftrightarrow> get_current_app (fold app_exec ops s) \<noteq> None)"
proof -
  have "app_ok s" using assms by (simp add: app_ok_def)
  then have "app_ok (fold app_exec ops s)"
    by (induction ops arbitrary: s) (simp_all add: app_exec_ok)
  then show ?thesis
    by (simp add: app_ok_def get_current_app_def check_if_app_running_def)
qed

section \<open>Deleting the picker\<close>

lemma draw_button_extends:
  assumes lv: "lv_spec lv par" and w: "lv_wf par w" "alive par w cont"
  shows "\<exists>w'. draw_button lv cont i w = Some w' \<and> extends par w w'"
proof -
  obtain b w1 where b: "lv_obj_create lv cont w = Some (b, w1)" "extends par w w1" "alive par w1 b"
    using create_extends [OF lv w] by blast
  obtain c w2 where c: "lv_obj_create lv b w1 = Some (c, w2)" "extends par w1 w2"
    using create_extends [OF lv _ b(3)] b(2) by (auto simp: extends_def)
  obtain d w3 where d: "lv_obj_create lv b w2 = Some (d, w3)" "extends par w2 w3"
    using create_extends [OF lv _ extends_alive [OF c(2) b(3)]] c(2) by (auto simp: extends_def)
  then show ?thesis
    using b(1) c(1) extends_trans [OF b(2) extends_trans [OF c(2) d(2)]] by (simp add: draw_button_def)
qed

lemma draw_buttons_extend:
  assumes "lv_spec lv par" "lv_wf par w" "alive par w cont"
  shows "\<exists>w'. mfold (draw_button lv cont) is w = Some w' \<and> extends par w w'"
  using assms(2,3)
proof (induction "is" arbitrary: w)
  case (Cons i "is")
  then obtain w1 where w1: "draw_button lv cont i w = Some w1" "extends par w w1"
    using draw_button_extends [OF assms(1)] by blast
  have "lv_wf par w1" "alive par w1 cont"
    using w1(2) extends_alive [OF w1(2) Cons.prems(2)] by (simp_all add: extends_def)
  then obtain w2 where w2: "mfold (draw_button lv cont) is w1 = Some w2" "extends par w1 w2"
    using Cons.IH by blast
  then show ?case
    using w1(1) extends_trans [OF w1(2) w2(2)] by simp
qed (simp add: extends_def)

lemma draw_picker:
  assumes "lv_spec lv par" "lv_wf par (app_widgets s)" "alive par (app_widgets s) root"
  shows "\<exists>rc w. draw_app_picker_ui lv root n s = Some (s\<lparr>row_dsc := Some (total_rows n), app_root_cont := Some rc, app_widgets := w\<rparr>) \<and>
     alive par w rc \<and> lv_wf par w"
proof -
  obtain rc w1 where rc: "lv_obj_create lv root (app_widgets s) = Some (rc, w1)" "extends par (app_widgets s) w1" "alive par w1 rc"
    using create_extends [OF assms] by blast
  obtain c w2 where c: "lv_obj_create lv rc w1 = Some (c, w2)" "extends par w1 w2" "alive par w2 c"
    using create_extends [OF assms(1) _ rc(3)] rc(2) by (auto simp: extends_def)
  obtain w3 where w3: "mfold (draw_button lv c) [0..<n] w2 = Some w3" "extends par w2 w3"
    using draw_buttons_extend [OF assms(1) _ c(3), of "[0..<n]"] c(2) unfolding extends_def by blast
  then have "draw_app_picker_ui lv root n s = Some (s\<lparr>row_dsc := Some (total_rows n), app_root_cont := Some rc, app_widgets := w3\<rparr>)"
    using rc(1) c(1) by (simp add: draw_app_picker_ui_def)
  moreover have "alive par w3 rc" "lv_wf par w3"
    using w3(2) extends_alive [OF c(2) rc(3)] extends_alive [OF w3(2)] by (auto simp: extends_def)
  ultimately show ?thesis by blast
qed

text \<open>Deleting a container first kills the screen in it; deleting the screen first leaves the container.\<close>

lemma delete_parent_first:
  assumes "lv_spec lv par" "alive par w rc" "child_of par w x rc"
  shows "\<exists>w'. lv_obj_delete lv rc w = Some w' \<and> lv_obj_delete lv x w' = None"
proof -
  obtain w' where w': "lv_obj_delete lv rc w = Some w'" "\<And>y. par w' y = (if below par w y rc then None else par w y)"
    using lv_delete [OF assms(1,2)] by metis
  then have "\<not> alive par w' x"
    using below_child [OF assms(3)] by (simp add: alive_def)
  then show ?thesis
    using w'(1) lv_dead [OF assms(1)] by blast
qed

lemma delete_child_first:
  assumes "lv_spec lv par" "lv_wf par w" "alive par w rc" "\<not> alive par w x" "x \<noteq> rc" "par w1 = (par w)(x := Some (Some rc))"
  shows "\<exists>w'. lv_obj_delete lv x w1 = Some w' \<and> alive par w' rc"
proof -
  have "alive par w1 x" using assms(6) by (simp add: alive_def)
  then obtain w' where w': "lv_obj_delete lv x w1 = Some w'" "\<And>y. par w' y = (if below par w1 y x then None else par w1 y)"
    using lv_delete [OF assms(1)] by metis
  moreover have "\<not> below par w1 rc x"
    using fresh_not_above [OF assms(2,4,3,6), of rc] assms(5) by blast
  ultimately show ?thesis
    using assms(3,5,6) by (simp add: alive_def)
qed

lemma unsubscribe_widgets [simp]:
  "app_root_cont (snd (event_unsubscribe e h s)) = app_root_cont s" "app_scr (snd (event_unsubscribe e h s)) = app_scr s"
  "app_widgets (snd (event_unsubscribe e h s)) = app_widgets s" "curr_app (snd (event_unsubscribe e h s)) = curr_app s"
  "is_app_running (snd (event_unsubscribe e h s)) = is_app_running s" "am_initialized (snd (event_unsubscribe e h s)) = am_initialized s"
  by (auto simp: event_unsubscribe_def put_sub_def Let_def split: option.splits)

text \<open>
  Taking down the picker while an application is open deletes a widget twice. The screen of the application is
  a child of the picker's container, so deleting the container deletes it too, and deleting it again uses a dead
  object; the shutdown of the manager, which closes the application but keeps its screen, runs into the same. When
  the application has been left with the escape key before, the picker is taken down cleanly.
\<close>

lemma picker_deletes_twice:
  assumes "lv_spec lv par" and "lv_wf par (app_widgets s)" and "alive par (app_widgets s) root" and "am_initialized s" and "app_scr s = None"
  shows "\<exists>s1 s2. draw_app_picker_ui lv root n s = Some s1 \<and> open_app_cb lv True (Some a) s1 = Some s2 \<and>
     del_app_picker_ui lv s2 = None \<and> app_manager_deinit lv h s2 = None \<and>
     (\<exists>s3. close_current_app_cb lv True True False s2 = Some (True, s3) \<and> del_app_picker_ui lv s3 \<noteq> None)"
proof -
  obtain rc w where s1: "draw_app_picker_ui lv root n s = Some (s\<lparr>row_dsc := Some (total_rows n), app_root_cont := Some rc, app_widgets := w\<rparr>)"
    (is "_ = Some ?s1") and rc: "alive par w rc" and wf: "lv_wf par w"
    using draw_picker [OF assms(1-3)] by blast
  obtain x w1 where x: "lv_obj_create lv rc w = Some (x, w1)" "\<not> alive par w x" "x \<noteq> rc" "par w1 = (par w)(x := Some (Some rc))"
    using lv_create [OF assms(1) rc] by metis
  define s2 where "s2 = open_app (Some a) (Some x) (?s1\<lparr>app_scr := Some x, app_widgets := w1\<rparr>)"
  have s2: "open_app_cb lv True (Some a) ?s1 = Some s2"
    using assms(5) x(1) by (simp add: open_app_cb_def s2_def)
  have f: "app_root_cont s2 = Some rc" "app_scr s2 = Some x" "app_widgets s2 = w1" "curr_app s2 = Some a" "is_app_running s2" "am_initialized s2"
    using assms(4) by (simp_all add: s2_def open_app_def Let_def close_curr_app_def split: option.splits)
  have a1: "alive par w1 rc" "alive par w1 x" "child_of par w1 x rc"
    using rc x by (simp_all add: alive_def child_of_def)
  obtain w2 where del: "lv_obj_delete lv rc w1 = Some w2" "lv_obj_delete lv x w2 = None"
    using delete_parent_first [OF assms(1) a1(1,3)] by blast
  obtain w3 where w3: "lv_obj_delete lv x w1 = Some w3" "alive par w3 rc"
    using delete_child_first [OF assms(1) wf rc x(2-4)] by blast
  obtain w4 where w4: "lv_obj_delete lv rc w3 = Some w4"
    using lv_delete [OF assms(1) w3(2)] by metis
  have "del_app_picker_ui lv s2 = None"
    using del f by (simp add: del_app_picker_ui_def lv_delete_if_def)
  moreover have "app_manager_deinit lv h s2 = None"
    using del f by (simp add: app_manager_deinit_def Let_def close_curr_app_def del_app_picker_ui_def lv_delete_if_def unsubscribe_widgets)
  moreover have "close_current_app_cb lv True True False s2 = Some (True, (close_curr_app s2)\<lparr>app_scr := None, app_widgets := w3\<rparr>)"
    using f w3(1) by (simp add: close_current_app_cb_def check_if_app_running_def close_curr_app_def)
  moreover have "del_app_picker_ui lv ((close_curr_app s2)\<lparr>app_scr := None, app_widgets := w3\<rparr>) \<noteq> None"
    using f w4 by (simp add: del_app_picker_ui_def lv_delete_if_def close_curr_app_def)
  ultimately show ?thesis
    using s1 s2 by blast
qed

section \<open>Witnesses\<close>

definition ex_app :: application where
  "ex_app = \<lparr>app_id = 0, app_perms = 1, app_name = [65], app_handles = True\<rparr>"

definition ex_app_sys :: "(nat, map_store) app_sys" where
  "ex_app_sys = \<lparr>em_subscriptions = [], em_initialized = False, all_apps = replicate MAX_APPS None, curr_app = None, num_apps = 0,
     is_app_running = False, am_initialized = True, app_log = [], app_scr = None, app_root_cont = None, row_dsc = None,
     app_widgets = (\<lambda>x. Some None, 1)\<rparr>"

definition ex_update :: app_update where
  "ex_update = \<lparr>au_req = DATED_WEATHER_REQUEST, au_req_app = 16, au_data = replicate MAX_APP_RESPONSE_SIZE 0\<rparr>"

theorem app_updates_isolated_witness:
  "\<exists>(r :: (nat, nat \<times> nat work_item list) runtime) (t :: (nat, map_store) app_sys) uq' works.
     curr_app t = Some (numbered [ex_app, ex_app] 1) \<and>
     mfold (\<lambda>u. receive_app_update ex_env list_queue 7 (Some (update_event u)) t) [ex_update, ex_update\<lparr>au_req_app := 15\<rparr>] r =
       Some (r\<lparr>user_work := Some uq'\<rparr>) \<and>
     list_items uq' = works \<and>
     mfold (run_app_work 7) works t = Some (t\<lparr>app_log := app_log t @ [Handle_event (numbered [ex_app, ex_app] 1) ex_update]\<rparr>)"
proof -
  have id: "get_system_app_id (numbered [ex_app, ex_app] 1) = 16"
    by (simp add: get_system_app_id_def numbered_def ex_app_def MAX_SYSTEM_APPS_def MAX_WATCHFACE_IDS_def)
  define r :: "(nat, nat \<times> nat work_item list) runtime" where
    "r = rt_static\<lparr>rt_initialized := True, runtime_lock := True, user_work := Some (10, [])\<rparr>"
  define t :: "(nat, map_store) app_sys" where
    "t = open_app (all_apps (fold (\<lambda>a. app_manager_add_app (Some a)) [ex_app, ex_app] ex_app_sys) ! 1) (Some 3)
           (fold (\<lambda>a. app_manager_add_app (Some a)) [ex_app, ex_app] ex_app_sys)"
  let ?us = "[ex_update, ex_update\<lparr>au_req_app := 15\<rparr>]"
  have r: "rt_initialized r" "runtime_lock r" "\<not> shutdown_initialized r" "runtime_state r \<noteq> RUNTIME_STATE_GRACE_PERIOD"
    "user_work r = Some (10, [])"
    by (simp_all add: r_def rt_static_def)
  have a: "am_initialized ex_app_sys" "num_apps ex_app_sys = 0" "length (all_apps ex_app_sys) = MAX_APPS"
    "length [ex_app, ex_app] \<le> MAX_APPS" "1 < length [ex_app, ex_app]"
    by (simp_all add: ex_app_sys_def MAX_APPS_def)
  have u: "\<forall>u \<in> set ?us. length (au_data u) = MAX_APP_RESPONSE_SIZE"
    by (simp add: ex_update_def)
  obtain uq' works where w: "mfold (\<lambda>u. receive_app_update ex_env list_queue 7 (Some (update_event u)) t) ?us r = Some (r\<lparr>user_work := Some uq'\<rparr>)"
    "list_items uq' = works"
    "mfold (run_app_work 7) works t = Some (t\<lparr>app_log := app_log t @ [Handle_event (numbered [ex_app, ex_app] 1) ex_update]\<rparr>)"
    using app_updates_isolated [OF a u t_def list_queue_spec r(1-3), of ex_env "(10, [])" 7] r(4,5) id
    by (auto simp: ex_env_def list_items_def ex_update_def ex_app_def)
  have "curr_app t = Some (numbered [ex_app, ex_app] 1)"
    by (simp add: t_def open_app_def app_manager_add_app_def numbered_def ex_app_sys_def MAX_APPS_def)
  then show ?thesis
    using w by blast
qed

lemma one_app_at_a_time_witness:
  "log_run (app_log (fold app_exec [Open_app ex_app 1, Open_app (ex_app\<lparr>app_id := 2\<rparr>) 1, Close_current] ex_app_sys)) None = Some None"
  using one_app_at_a_time [of ex_app_sys "[Open_app ex_app 1, Open_app (ex_app\<lparr>app_id := 2\<rparr>) 1, Close_current]"]
  by (simp add: ex_app_sys_def ex_app_def get_current_app_def close_curr_app_def open_app_def)

lemma picker_deletes_twice_witness:
  "\<exists>s1 s2. draw_app_picker_ui store_ops 0 3 ex_app_sys = Some s1 \<and> open_app_cb store_ops True (Some ex_app) s1 = Some s2 \<and>
     del_app_picker_ui store_ops s2 = None"
proof -
  have "lv_wf store_par (app_widgets ex_app_sys)" "alive store_par (app_widgets ex_app_sys) 0"
    by (auto simp: ex_app_sys_def lv_wf_def child_of_def alive_def store_par_def split: if_splits)
  moreover have "am_initialized ex_app_sys" "app_scr ex_app_sys = None"
    by (simp_all add: ex_app_sys_def)
  ultimately show ?thesis
    using picker_deletes_twice [OF store_spec, of ex_app_sys 0 3 ex_app 5] by blast
qed

end
