(* ===== verification/Ui_Base.thy ===== *)
theory Ui_Base
  imports Widgets Navigation Lvgl_Bridge Calendar
begin

text \<open>
  The root of the user interface: the three tabs of \<open>base_page.c\<close>, the page shell of \<open>draw_tab_page.c\<close> and the alarm
  screen of \<open>ui_event_screen.c\<close>.

  The callbacks of the tabs are entries of \<open>ui_log\<close>; widgets live in an object store given by its operations. A key
  handler gets the widget tree for the navigation and answers whether the event stops bubbling. Failed assertions and
  uses of a deleted object are \<open>None\<close>. The alarm screen is deleted asynchronously: its object waits in \<open>ui_dying\<close>
  for the next pass of the library (\<open>ui_async_pass\<close>). Sizes, styles and texts are left out, and so are the moves of the
  focus that the library makes itself when a focused object is deleted.
\<close>

section \<open>State\<close>

definition NOTIFY :: nat where "NOTIFY = 0"
definition WATCHFACE :: nat where "WATCHFACE = 1"
definition APP :: nat where "APP = 2"
definition UISTATE_INVALID :: nat where "UISTATE_INVALID = 3"
definition UI_BASE_MAX_TABS :: nat where "UI_BASE_MAX_TABS = 3"

lemmas ui_states = NOTIFY_def WATCHFACE_def APP_def UISTATE_INVALID_def UI_BASE_MAX_TABS_def

record ui_tab_handlers =
  on_draw :: bool
  on_close :: bool
  on_suspend :: bool
  on_resume :: bool

datatype ui_call = On_draw nat nat | On_close nat | On_suspend nat | On_resume nat

record 'w ui_base =
  home_tab :: "nat option"
  curr_watch_state :: nat
  tabs :: "nat option list"
  tab_handlers :: "ui_tab_handlers list"
  active_tab :: nat
  shell :: "nat option"
  background :: "nat option"
  expiry_timer :: bool
  ui_wake :: int
  ui_focus :: "nat option"
  ui_log :: "ui_call list"
  ui_dying :: "nat list"
  ui_widgets :: 'w

definition emit_ui :: "ui_call \<Rightarrow> 'w ui_base \<Rightarrow> 'w ui_base" where
  "emit_ui c s = s\<lparr>ui_log := ui_log s @ [c]\<rparr>"

definition valid_page :: "nat \<Rightarrow> bool" where
  "valid_page p \<longleftrightarrow> p < UISTATE_INVALID"

section \<open>The page shell\<close>

definition draw_tab_page :: "'w lv_ops \<Rightarrow> nat option \<Rightarrow> nat \<Rightarrow> 'w ui_base \<Rightarrow> 'w ui_base option" where
  "draw_tab_page lv parentp page s =
     (if shell s \<noteq> None then None
      else do {
        parent \<leftarrow> parentp;
        (x, w) \<leftarrow> lv_obj_create lv parent (ui_widgets s);
        Some (emit_ui (On_draw page x) (s\<lparr>shell := Some x, ui_widgets := w, ui_focus := Some x\<rparr>))
      })"

definition clean_tab_page :: "'w lv_ops \<Rightarrow> nat \<Rightarrow> 'w ui_base \<Rightarrow> 'w ui_base option" where
  "clean_tab_page lv page s =
     (let s1 = emit_ui (On_close page) s in
      case shell s1 of
        None \<Rightarrow> Some s1
      | Some x \<Rightarrow> map_option (\<lambda>w. s1\<lparr>ui_widgets := w, shell := None\<rparr>) (lv_obj_delete lv x (ui_widgets s1)))"

definition handle_tab_screen_keys_cb :: "nat option \<Rightarrow> lv_obj \<Rightarrow> lv_key \<Rightarrow> 'w ui_base \<Rightarrow> bool \<times> 'w ui_base" where
  "handle_tab_screen_keys_cb g scr key s =
     (case ui_focus s of
        None \<Rightarrow> (False, s)
      | Some f \<Rightarrow>
          if key = LV_KEY_ESC then (Some f = shell s, s)
          else if key = LV_KEY_RIGHT then
            if Some f = shell s then (False, s)
            else (True, case find_next_focusable_sibling g scr (Some f) of
                     Some n \<Rightarrow> s\<lparr>ui_focus := Some (obj_id n)\<rparr> | None \<Rightarrow> s)
          else if key = LV_KEY_LEFT then
            if Some f = shell s then (False, s)
            else (True, case find_prev_focusable_sibling g scr (Some f) of
                     Some n \<Rightarrow> s\<lparr>ui_focus := Some (obj_id n)\<rparr> | None \<Rightarrow> s)
          else (False, s))"

section \<open>The tabs\<close>

definition close_curr_page :: "'w lv_ops \<Rightarrow> 'w ui_base \<Rightarrow> 'w ui_base option" where
  "close_curr_page lv s =
     (let page = curr_watch_state s in
      if \<not> valid_page page \<or> \<not> on_close (tab_handlers s ! page) then None
      else do {
        s1 \<leftarrow> clean_tab_page lv page s;
        tab \<leftarrow> tabs s1 ! page;
        w \<leftarrow> lv_obj_clean lv tab (ui_widgets s1);
        Some (s1\<lparr>ui_widgets := w\<rparr>)
      })"

definition show_page :: "'w lv_ops \<Rightarrow> nat \<Rightarrow> 'w ui_base \<Rightarrow> 'w ui_base option" where
  "show_page lv page s =
     (if \<not> valid_page page \<or> \<not> on_draw (tab_handlers s ! page) then None
      else draw_tab_page lv (tabs s ! page) page s)"

definition handle_right_action_on_root :: "'w lv_ops \<Rightarrow> 'w ui_base \<Rightarrow> 'w ui_base option" where
  "handle_right_action_on_root lv s =
     (if curr_watch_state s \<noteq> UISTATE_INVALID - 1
      then do {
        s1 \<leftarrow> close_curr_page lv s;
        let s2 = s1\<lparr>curr_watch_state := curr_watch_state s1 + 1, active_tab := active_tab s1 + 1\<rparr>;
        show_page lv (curr_watch_state s2) s2
      }
      else Some s)"

definition handle_left_action_on_root :: "'w lv_ops \<Rightarrow> 'w ui_base \<Rightarrow> 'w ui_base option" where
  "handle_left_action_on_root lv s =
     (if curr_watch_state s \<noteq> 0
      then do {
        s1 \<leftarrow> close_curr_page lv s;
        let s2 = s1\<lparr>curr_watch_state := curr_watch_state s1 - 1, active_tab := active_tab s1 - 1\<rparr>;
        show_page lv (curr_watch_state s2) s2
      }
      else Some s)"

text \<open>\<open>scr\<close> is the widget tree; \<open>at f\<close> finds the focused object in it.\<close>

definition obj_at :: "lv_obj \<Rightarrow> nat \<Rightarrow> lv_obj option" where
  "obj_at scr x = find (\<lambda>n. obj_id n = x) (nodes scr)"

definition handle_root_scr_actions ::
  "'w lv_ops \<Rightarrow> nat option \<Rightarrow> lv_obj \<Rightarrow> lv_key \<Rightarrow> 'w ui_base \<Rightarrow> (bool \<times> 'w ui_base) option" where
  "handle_root_scr_actions lv g scr key s =
     (if key = LV_KEY_LEFT then map_option (Pair False) (handle_left_action_on_root lv s)
      else if key = LV_KEY_RIGHT then map_option (Pair False) (handle_right_action_on_root lv s)
      else if key = LV_KEY_ENTER then
        Some (True, case ui_focus s of
            None \<Rightarrow> s
          | Some f \<Rightarrow> (case find_first_focusable_child_dfs g (obj_at scr f) of
                Some target \<Rightarrow> s\<lparr>ui_focus := Some (obj_id target)\<rparr> | None \<Rightarrow> s))
      else if key = LV_KEY_ESC then
        Some (case ui_focus s of
            None \<Rightarrow> (False, s)
          | Some f \<Rightarrow> (True, case find_first_focusable_parent_dfs g scr f of
                Some parent \<Rightarrow> s\<lparr>ui_focus := Some (obj_id parent)\<rparr> | None \<Rightarrow> s))
      else Some (False, s))"

definition ui_base_register_tab :: "nat \<Rightarrow> ui_tab_handlers option \<Rightarrow> 'w ui_base \<Rightarrow> 'w ui_base option" where
  "ui_base_register_tab page hs s =
     (case hs of
        None \<Rightarrow> None
      | Some h \<Rightarrow> if \<not> valid_page page then None else Some (s\<lparr>tab_handlers := (tab_handlers s)[page := h]\<rparr>))"

text \<open>The tab view creates its content container; the tabs are created in it.\<close>

definition ui_base_draw_base_screen :: "'w lv_ops \<Rightarrow> nat \<Rightarrow> 'w ui_base \<Rightarrow> 'w ui_base option" where
  "ui_base_draw_base_screen lv root_screen s =
     do {
       (home, w1) \<leftarrow> lv_obj_create lv root_screen (ui_widgets s);
       (content, w2) \<leftarrow> lv_obj_create lv home w1;
       (t0, w3) \<leftarrow> lv_obj_create lv content w2;
       (t1, w4) \<leftarrow> lv_obj_create lv content w3;
       (t2, w5) \<leftarrow> lv_obj_create lv content w4;
       show_page lv WATCHFACE (s\<lparr>home_tab := Some home, tabs := [Some t0, Some t1, Some t2], active_tab := WATCHFACE,
         ui_focus := Some content, curr_watch_state := WATCHFACE, ui_widgets := w5\<rparr>)
     }"

definition clean_tab :: "'w lv_ops \<Rightarrow> nat option \<Rightarrow> 'w \<Rightarrow> 'w option" where
  "clean_tab lv tab w = (case tab of None \<Rightarrow> Some w | Some x \<Rightarrow> lv_obj_clean lv x w)"

definition ui_base_clean_base_screen :: "'w lv_ops \<Rightarrow> 'w ui_base \<Rightarrow> 'w ui_base option" where
  "ui_base_clean_base_screen lv s =
     do {
       s1 \<leftarrow> close_curr_page lv s;
       w \<leftarrow> mfold (\<lambda>i. clean_tab lv (tabs s1 ! i)) [0..<UI_BASE_MAX_TABS] (ui_widgets s1);
       Some (s1\<lparr>ui_widgets := w\<rparr>)
     }"

definition ui_base_suspend_base_screen :: "'w ui_base \<Rightarrow> 'w ui_base option" where
  "ui_base_suspend_base_screen s =
     (let page = curr_watch_state s in
      if \<not> valid_page page then None
      else Some (if on_suspend (tab_handlers s ! page) then emit_ui (On_suspend page) s else s))"

definition ui_base_resume_base_screen :: "'w ui_base \<Rightarrow> 'w ui_base option" where
  "ui_base_resume_base_screen s =
     (let page = curr_watch_state s in
      if \<not> valid_page page then None
      else Some (if on_resume (tab_handlers s ! page) then emit_ui (On_resume page) s else s))"

section \<open>The alarm screen\<close>

definition alarm_screen_exit_cleanup :: "'w ui_base \<Rightarrow> 'w ui_base option" where
  "alarm_screen_exit_cleanup s =
     (case background s of
        None \<Rightarrow> Some s
      | Some x \<Rightarrow> do {
          s1 \<leftarrow> ui_base_resume_base_screen (s\<lparr>ui_dying := ui_dying s @ [x], background := None,
                  ui_wake := wakelock_manager_release_wakelock (ui_wake s)\<rparr>);
          Some (s1\<lparr>expiry_timer := False\<rparr>)
        })"

text \<open>
  What \<open>lv_obj_delete_async\<close> has put off until the next run of the library's timers. The library cancels it
  for an object that is deleted before; there is no such deletion in what follows.
\<close>

definition ui_async_pass :: "'w lv_ops \<Rightarrow> 'w ui_base \<Rightarrow> 'w ui_base option" where
  "ui_async_pass lv s = map_option (\<lambda>w. s\<lparr>ui_widgets := w, ui_dying := []\<rparr>) (mfold (lv_obj_delete lv) (ui_dying s) (ui_widgets s))"

definition timer_expiry_cb :: "'w ui_base \<Rightarrow> 'w ui_base option" where
  "timer_expiry_cb s = alarm_screen_exit_cleanup s"

text \<open>\<open>on_self\<close>: the event was sent to the background itself and not to a child of it.\<close>

definition background_key_event_cb :: "bool \<Rightarrow> lv_key \<Rightarrow> bool" where
  "background_key_event_cb on_self key =
     (if on_self then key \<noteq> LV_KEY_ENTER else key = LV_KEY_LEFT \<or> key = LV_KEY_RIGHT)"

definition dismiss_btn_click_cb :: "lv_key \<Rightarrow> 'w ui_base \<Rightarrow> (bool \<times> 'w ui_base) option" where
  "dismiss_btn_click_cb key s =
     (if key = LV_KEY_ENTER \<and> expiry_timer s then map_option (Pair True) (alarm_screen_exit_cleanup s)
      else Some (False, s))"

definition show_alarm_page :: "'w lv_ops \<Rightarrow> bool \<Rightarrow> nat \<Rightarrow> 'w ui_base \<Rightarrow> 'w ui_base option" where
  "show_alarm_page lv timer_ok parent s =
     (if background s \<noteq> None then Some s
      else do {
        (bg, w1) \<leftarrow> lv_obj_create lv parent (ui_widgets s);
        (time_lbl, w2) \<leftarrow> lv_obj_create lv bg w1;
        (btn, w3) \<leftarrow> lv_obj_create lv bg w2;
        (btn_lbl, w4) \<leftarrow> lv_obj_create lv btn w3;
        if \<not> timer_ok then None
        else Some (s\<lparr>ui_wake := wakelock_manager_acquire_wakelock (ui_wake s), background := Some bg, ui_focus := Some bg,
               expiry_timer := True, ui_widgets := w4\<rparr>)
      })"

datatype ui_event = Ui_alarm alarm | Ui_call | Ui_notification

definition ui_base_handle_base_screen_event ::
  "'w lv_ops \<Rightarrow> bool \<Rightarrow> ui_event option \<Rightarrow> 'w ui_base \<Rightarrow> 'w ui_base option" where
  "ui_base_handle_base_screen_event lv timer_ok evp s =
     (if \<not> valid_page (curr_watch_state s) then None
      else case tabs s ! curr_watch_state s of
        None \<Rightarrow> Some s
      | Some parent \<Rightarrow>
          (case evp of
             Some (Ui_alarm al) \<Rightarrow> do { s1 \<leftarrow> ui_base_suspend_base_screen s; show_alarm_page lv timer_ok parent s1 }
           | _ \<Rightarrow> Some s))"

section \<open>Invariant\<close>

text \<open>The three tabs are in one container that is not inside any of them.\<close>

definition tabs_ok :: "'w lv_par \<Rightarrow> nat option list \<Rightarrow> 'w \<Rightarrow> bool" where
  "tabs_ok par ts w \<longleftrightarrow> lv_wf par w \<and> length ts = 3 \<and>
     (\<exists>c. \<forall>i < 3. \<exists>t. ts ! i = Some t \<and> child_of par w t c \<and> \<not> below par w c t)"

definition handlers_ok :: "'w ui_base \<Rightarrow> bool" where
  "handlers_ok s \<longleftrightarrow> length (tab_handlers s) = 3 \<and> (\<forall>h \<in> set (tab_handlers s). on_draw h \<and> on_close h)"

definition base_ok :: "'w lv_par \<Rightarrow> 'w ui_base \<Rightarrow> bool" where
  "base_ok par s \<longleftrightarrow> curr_watch_state s < 3 \<and> active_tab s = curr_watch_state s \<and> handlers_ok s \<and> tabs_ok par (tabs s) (ui_widgets s) \<and>
     (\<exists>x t. shell s = Some x \<and> tabs s ! curr_watch_state s = Some t \<and> child_of par (ui_widgets s) x t)"

lemma handlers_page: "handlers_ok s \<Longrightarrow> p < 3 \<Longrightarrow> on_draw (tab_handlers s ! p) \<and> on_close (tab_handlers s ! p)"
  by (simp add: handlers_ok_def)

text \<open>Removing objects keeps the tabs when they themselves survive.\<close>

lemma tabs_ok_remove:
  assumes "tabs_ok par ts w" "lv_wf par w'" "\<And>i t. i < 3 \<Longrightarrow> ts ! i = Some t \<Longrightarrow> par w' t = par w t"
    "\<And>y p. child_of par w' y p \<Longrightarrow> child_of par w y p"
  shows "tabs_ok par ts w'"
proof -
  obtain c where c: "\<forall>i < 3. \<exists>t. ts ! i = Some t \<and> child_of par w t c \<and> \<not> below par w c t" "length ts = 3"
    using assms(1) by (auto simp: tabs_ok_def)
  have "\<exists>t. ts ! i = Some t \<and> child_of par w' t c \<and> \<not> below par w' c t" if "i < 3" for i
    using c(1) that assms(3) [OF that] below_mono [OF assms(4)] by (fastforce simp: child_of_def)
  then show ?thesis
    using c(2) assms(2) by (auto simp: tabs_ok_def)
qed

lemma tab_not_below:
  assumes "tabs_ok par ts w" "i < 3" "ts ! i = Some u" "j < 3" "ts ! j = Some t"
  shows "\<not> strictly_below par w t u" "child_of par w x u \<Longrightarrow> \<not> below par w t x"
proof -
  obtain c where c: "\<forall>i < 3. \<exists>t. ts ! i = Some t \<and> child_of par w t c \<and> \<not> below par w c t"
    using assms(1) by (auto simp: tabs_ok_def)
  have t: "par w t = Some (Some c)" "\<not> below par w c u"
    using c assms(2-5) by (auto simp: child_of_def)
  show "\<not> strictly_below par w t u"
    using strictly_belowD [of par w t u c] t by blast
  show "\<not> below par w t x" if x: "child_of par w x u"
  proof
    assume "below par w t x"
    then have "t = x \<or> below par w c x" using belowD t(1) by metis
    moreover have "below par w c u" if "below par w c x"
      using that x unfolding below_def by (rule rtranclp.rtrancl_into_rtrancl)
    moreover have "c = u" if "t = x" using that x t(1) by (simp add: child_of_def)
    ultimately show False using t(2) by auto
  qed
qed

lemma close_works:
  assumes "lv_spec lv par" "base_ok par s"
  shows "\<exists>w. close_curr_page lv s = Some (s\<lparr>ui_log := ui_log s @ [On_close (curr_watch_state s)], shell := None, ui_widgets := w\<rparr>) \<and>
     tabs_ok par (tabs s) w"
proof -
  let ?p = "curr_watch_state s"
  obtain x t where x: "shell s = Some x" "tabs s ! ?p = Some t" "child_of par (ui_widgets s) x t" and p: "?p < 3" "handlers_ok s"
    and ok: "tabs_ok par (tabs s) (ui_widgets s)"
    using assms(2) by (auto simp: base_ok_def)
  have a: "lv_wf par (ui_widgets s)" "alive par (ui_widgets s) x"
    using ok x(3) by (auto simp: tabs_ok_def child_of_def alive_def)
  obtain w1 where w1: "lv_obj_delete lv x (ui_widgets s) = Some w1" "lv_wf par w1"
    "\<And>y. \<not> below par (ui_widgets s) y x \<Longrightarrow> par w1 y = par (ui_widgets s) y" "\<And>y p. child_of par w1 y p \<Longrightarrow> child_of par (ui_widgets s) y p"
    using lv_delete_wf [OF assms(1) a] by metis
  have ok1: "tabs_ok par (tabs s) w1"
    using tabs_ok_remove [OF ok w1(2) _ w1(4)] w1(3) tab_not_below(2) [OF ok p(1) x(2) _ _ x(3)] by blast
  then have "alive par w1 t"
    using p(1) x(2) by (auto simp: tabs_ok_def child_of_def alive_def)
  then obtain w2 where w2: "lv_obj_clean lv t w1 = Some w2" "lv_wf par w2"
    "\<And>y. \<not> strictly_below par w1 y t \<Longrightarrow> par w2 y = par w1 y" "\<And>y p. child_of par w2 y p \<Longrightarrow> child_of par w1 y p"
    using lv_clean_wf [OF assms(1) w1(2)] by metis
  have "tabs_ok par (tabs s) w2"
    using tabs_ok_remove [OF ok1 w2(2) _ w2(4)] w2(3) tab_not_below(1) [OF ok1 p(1) x(2)] by blast
  moreover have "close_curr_page lv s = Some (s\<lparr>ui_log := ui_log s @ [On_close ?p], shell := None, ui_widgets := w2\<rparr>)"
    using handlers_page [OF p(2,1)] p(1) x(1,2) w1(1) w2(1)
    by (simp add: close_curr_page_def clean_tab_page_def Let_def valid_page_def UISTATE_INVALID_def emit_ui_def)
  ultimately show ?thesis by blast
qed

lemma show_works:
  assumes "lv_spec lv par" "tabs_ok par (tabs s) (ui_widgets s)" "handlers_ok s" "shell s = None" "curr_watch_state s < 3"
    "active_tab s = curr_watch_state s"
  shows "\<exists>s'. show_page lv (curr_watch_state s) s = Some s' \<and> base_ok par s' \<and> curr_watch_state s' = curr_watch_state s \<and>
     (\<exists>x. ui_log s' = ui_log s @ [On_draw (curr_watch_state s) x]) \<and> background s' = background s \<and> ui_dying s' = ui_dying s \<and> ui_wake s' = ui_wake s"
proof -
  let ?p = "curr_watch_state s"
  obtain c where c: "\<forall>i < 3. \<exists>t. tabs s ! i = Some t \<and> child_of par (ui_widgets s) t c \<and> \<not> below par (ui_widgets s) c t"
    and wf: "lv_wf par (ui_widgets s)" "length (tabs s) = 3"
    using assms(2) by (auto simp: tabs_ok_def)
  obtain t where t: "tabs s ! ?p = Some t" "alive par (ui_widgets s) t"
    using c assms(5) by (auto simp: child_of_def alive_def)
  obtain x w where x: "lv_obj_create lv t (ui_widgets s) = Some (x, w)" "lv_wf par w" "child_of par w x t"
    "\<And>y. alive par (ui_widgets s) y \<Longrightarrow> par w y = par (ui_widgets s) y"
    "\<And>y z. alive par (ui_widgets s) y \<Longrightarrow> below par w y z \<Longrightarrow> below par (ui_widgets s) y z"
    using lv_create_wf [OF assms(1) wf(1) t(2)] by metis
  have "alive par (ui_widgets s) c"
    using c [rule_format, of 0] wf(1) by (auto simp: lv_wf_def)
  then have "\<exists>t. tabs s ! i = Some t \<and> child_of par w t c \<and> \<not> below par w c t" if "i < 3" for i
    using c that x(4,5) by (fastforce simp: child_of_def alive_def)
  then have "tabs_ok par (tabs s) w"
    using x(2) wf(2) by (auto simp: tabs_ok_def)
  then show ?thesis
    using assms(3-6) handlers_page [OF assms(3,5)] t(1) x(1,3)
    by (auto simp: show_page_def draw_tab_page_def valid_page_def UISTATE_INVALID_def base_ok_def emit_ui_def handlers_ok_def)
qed

lemma draw_base_works:
  assumes "lv_spec lv par" "lv_wf par (ui_widgets s)" "alive par (ui_widgets s) root" "handlers_ok s" "shell s = None"
  shows "\<exists>s'. ui_base_draw_base_screen lv root s = Some s' \<and> base_ok par s' \<and> curr_watch_state s' = WATCHFACE \<and>
     (\<exists>x. ui_log s' = ui_log s @ [On_draw WATCHFACE x]) \<and> background s' = background s \<and> ui_dying s' = ui_dying s \<and> ui_wake s' = ui_wake s"
proof -
  obtain h w1 where h: "lv_obj_create lv root (ui_widgets s) = Some (h, w1)" "lv_wf par w1" "alive par w1 h"
    using lv_create_wf [OF assms(1-3)] by (metis alive_def child_of_def option.distinct(1))
  obtain c w2 where c: "lv_obj_create lv h w1 = Some (c, w2)" "lv_wf par w2" "alive par w2 c"
    using lv_create_wf [OF assms(1) h(2,3)] by (metis alive_def child_of_def option.distinct(1))
  obtain t0 w3 where t0: "lv_obj_create lv c w2 = Some (t0, w3)" "lv_wf par w3" "child_of par w3 t0 c" "\<not> alive par w2 t0"
    "\<And>y. alive par w2 y \<Longrightarrow> par w3 y = par w2 y" "\<And>y. below par w3 y t0 \<Longrightarrow> y = t0"
    using lv_create_wf [OF assms(1) c(2,3)] by metis
  have a3: "alive par w3 c" "c \<noteq> t0" using t0 c(3) by (auto simp: alive_def)
  obtain t1 w4 where t1: "lv_obj_create lv c w3 = Some (t1, w4)" "lv_wf par w4" "child_of par w4 t1 c" "\<not> alive par w3 t1"
    "\<And>y. alive par w3 y \<Longrightarrow> par w4 y = par w3 y" "\<And>y z. alive par w3 y \<Longrightarrow> below par w4 y z \<Longrightarrow> below par w3 y z"
    "\<And>y. below par w4 y t1 \<Longrightarrow> y = t1"
    using lv_create_wf [OF assms(1) t0(2) a3(1)] by metis
  have a4: "alive par w4 c" "c \<noteq> t1" using t1 a3(1) by (auto simp: alive_def)
  obtain t2 w5 where t2: "lv_obj_create lv c w4 = Some (t2, w5)" "lv_wf par w5" "child_of par w5 t2 c" "\<not> alive par w4 t2"
    "\<And>y. alive par w4 y \<Longrightarrow> par w5 y = par w4 y" "\<And>y z. alive par w4 y \<Longrightarrow> below par w5 y z \<Longrightarrow> below par w4 y z"
    "\<And>y. below par w5 y t2 \<Longrightarrow> y = t2"
    using lv_create_wf [OF assms(1) t1(2) a4(1)] by metis
  have a5: "c \<noteq> t2" using t2 a4(1) by (auto simp: alive_def)
  have "child_of par w5 t0 c" "child_of par w5 t1 c"
    using t0(3) t1(3,5) t2(5) by (auto simp: child_of_def alive_def)
  moreover have "\<not> below par w5 c t0" "\<not> below par w5 c t1" "\<not> below par w5 c t2"
    using t0(6) t1(6,7) t2(6,7) a3 a4 a5 by metis+
  ultimately have "tabs_ok par [Some t0, Some t1, Some t2] w5"
    using t2(2,3) by (auto simp: tabs_ok_def less_Suc_eq numeral_3_eq_3)
  then show ?thesis
    using show_works [OF assms(1), of "s\<lparr>home_tab := Some h, tabs := [Some t0, Some t1, Some t2], active_tab := WATCHFACE,
         ui_focus := Some c, curr_watch_state := WATCHFACE, ui_widgets := w5\<rparr>"] assms(4,5) h(1) c(1) t0(1) t1(1) t2(1)
    by (simp add: ui_base_draw_base_screen_def handlers_ok_def ui_states)
qed

section \<open>Moving between the tabs\<close>

text \<open>The page left open by a sequence of callbacks, if every callback is in order.\<close>

primrec page_run :: "ui_call list \<Rightarrow> nat option \<Rightarrow> nat option option" where
  "page_run [] cur = Some cur"
| "page_run (c # cs) cur =
     (case c of
        On_draw p x \<Rightarrow> if cur = None then page_run cs (Some p) else None
      | On_close p \<Rightarrow> if cur = Some p then page_run cs None else None
      | On_suspend p \<Rightarrow> if cur = Some p then page_run cs cur else None
      | On_resume p \<Rightarrow> if cur = Some p then page_run cs cur else None)"

lemma page_run_append: "page_run (cs @ ds) cur = Option.bind (page_run cs cur) (page_run ds)"
  by (induction cs arbitrary: cur) (auto split: ui_call.splits)

definition root_key :: "'w lv_ops \<Rightarrow> bool \<Rightarrow> 'w ui_base \<Rightarrow> 'w ui_base option" where
  "root_key lv right = (if right then handle_right_action_on_root lv else handle_left_action_on_root lv)"

definition page_step :: "bool \<Rightarrow> nat \<Rightarrow> nat" where
  "page_step right p = (if right then min 2 (p + 1) else p - 1)"

definition ui_ok :: "'w lv_par \<Rightarrow> 'w ui_base \<Rightarrow> bool" where
  "ui_ok par s \<longleftrightarrow> base_ok par s \<and> page_run (ui_log s) None = Some (Some (curr_watch_state s))"

lemma move_works:
  assumes "lv_spec lv par" "ui_ok par s" "p' < 3"
  shows "\<exists>s'. Option.bind (close_curr_page lv s) (\<lambda>s1. show_page lv p' (s1\<lparr>curr_watch_state := p', active_tab := p'\<rparr>)) = Some s' \<and>
     ui_ok par s' \<and> curr_watch_state s' = p' \<and> ui_wake s' = ui_wake s"
proof -
  have ok: "base_ok par s" "page_run (ui_log s) None = Some (Some (curr_watch_state s))"
    using assms(2) by (simp_all add: ui_ok_def)
  obtain w where w: "close_curr_page lv s = Some (s\<lparr>ui_log := ui_log s @ [On_close (curr_watch_state s)], shell := None, ui_widgets := w\<rparr>)"
    "tabs_ok par (tabs s) w"
    using close_works [OF assms(1) ok(1)] by blast
  let ?s = "s\<lparr>ui_log := ui_log s @ [On_close (curr_watch_state s)], shell := None, ui_widgets := w, curr_watch_state := p', active_tab := p'\<rparr>"
  obtain s' x where "show_page lv p' ?s = Some s'" "base_ok par s'" "curr_watch_state s' = p'"
    "ui_log s' = ui_log s @ [On_close (curr_watch_state s)] @ [On_draw p' x]" "ui_wake s' = ui_wake s"
    using show_works [OF assms(1), of ?s] w(2) ok(1) assms(3) by (auto simp: base_ok_def handlers_ok_def)
  then show ?thesis
    using w(1) ok(2) by (auto simp: ui_ok_def page_run_append)
qed

lemma root_key_works:
  assumes "lv_spec lv par" "ui_ok par s"
  shows "\<exists>s'. root_key lv right s = Some s' \<and> ui_ok par s' \<and> curr_watch_state s' = page_step right (curr_watch_state s) \<and>
     ui_wake s' = ui_wake s"
proof -
  let ?p = "curr_watch_state s"
  have p: "?p < 3" "active_tab s = ?p"
    using assms(2) by (simp_all add: ui_ok_def base_ok_def)
  have c: "close_curr_page lv s = Some s1 \<Longrightarrow> curr_watch_state s1 = ?p \<and> active_tab s1 = ?p" for s1
    using close_works [OF assms(1)] assms(2) p(2) by (fastforce simp: ui_ok_def)
  note move = move_works [OF assms, of "page_step right ?p"]
  show ?thesis
  proof (cases "(right \<and> ?p = 2) \<or> (\<not> right \<and> ?p = 0)")
    case True
    then show ?thesis
      using assms(2) by (auto simp: root_key_def handle_right_action_on_root_def handle_left_action_on_root_def page_step_def ui_states)
  next
    case False
    have step: "right \<Longrightarrow> page_step right ?p = ?p + 1" "\<not> right \<Longrightarrow> page_step right ?p = ?p - 1"
      using False p(1) by (auto simp: page_step_def)
    have "root_key lv right s = Option.bind (close_curr_page lv s)
        (\<lambda>s1. show_page lv (page_step right ?p) (s1\<lparr>curr_watch_state := page_step right ?p, active_tab := page_step right ?p\<rparr>))"
    proof (cases "close_curr_page lv s")
      case None
      then show ?thesis
        using False by (auto simp: root_key_def handle_right_action_on_root_def handle_left_action_on_root_def ui_states)
    next
      case (Some s1)
      then show ?thesis
        using False c [OF Some] step
        by (cases right) (simp_all add: root_key_def handle_right_action_on_root_def handle_left_action_on_root_def ui_states)
    qed
    then show ?thesis
      using move p(1) by (auto simp: page_step_def)
  qed
qed

text \<open>
  C26: the user can move freely between the pages. After the base screen has been drawn, any sequence of left and right
  keys is handled without a failed assertion or a use of a deleted widget; the page shown is the start page moved by the
  keys within the three tabs, every page is closed before the next is drawn, and the wake lock is not touched.
\<close>

theorem pages_follow_keys:
  assumes "lv_spec lv par" and "lv_wf par (ui_widgets s)" and "alive par (ui_widgets s) root" and "handlers_ok s"
    and "shell s = None" and "ui_log s = []"
  shows "\<exists>s0 s'. ui_base_draw_base_screen lv root s = Some s0 \<and> mfold (root_key lv) keys s0 = Some s' \<and>
     curr_watch_state s' = fold page_step keys WATCHFACE \<and> active_tab s' = curr_watch_state s' \<and>
     page_run (ui_log s') None = Some (Some (curr_watch_state s')) \<and> ui_wake s' = ui_wake s"
proof -
  obtain s0 where s0: "ui_base_draw_base_screen lv root s = Some s0" "ui_ok par s0" "curr_watch_state s0 = WATCHFACE" "ui_wake s0 = ui_wake s"
    using draw_base_works [OF assms(1-5)] assms(6) by (auto simp: ui_ok_def)
  have "\<exists>s'. mfold (root_key lv) keys t = Some s' \<and> ui_ok par s' \<and> curr_watch_state s' = fold page_step keys (curr_watch_state t) \<and>
      ui_wake s' = ui_wake t" if "ui_ok par t" for t
    using that
  proof (induction keys arbitrary: t)
    case (Cons k ks)
    then obtain t1 where "root_key lv k t = Some t1" "ui_ok par t1" "curr_watch_state t1 = page_step k (curr_watch_state t)" "ui_wake t1 = ui_wake t"
      using root_key_works [OF assms(1)] by metis
    then show ?case using Cons.IH [of t1] by simp
  qed simp
  then obtain s' where "mfold (root_key lv) keys s0 = Some s'" "ui_ok par s'" "curr_watch_state s' = fold page_step keys WATCHFACE" "ui_wake s' = ui_wake s"
    using s0 by metis
  then show ?thesis
    using s0(1) by (auto simp: ui_ok_def base_ok_def)
qed

section \<open>The alarm screen over a page\<close>

lemma create_keeps_base:
  assumes "lv_spec lv par" "base_ok par s" "alive par (ui_widgets s) p"
  obtains x w where "lv_obj_create lv p (ui_widgets s) = Some (x, w)" "base_ok par (s\<lparr>ui_widgets := w\<rparr>)" "child_of par w x p"
    "\<not> alive par (ui_widgets s) x" "\<And>y. alive par (ui_widgets s) y \<Longrightarrow> par w y = par (ui_widgets s) y"
proof -
  have ok: "tabs_ok par (tabs s) (ui_widgets s)" and wf: "lv_wf par (ui_widgets s)"
    using assms(2) by (auto simp: base_ok_def tabs_ok_def)
  obtain x w where x: "lv_obj_create lv p (ui_widgets s) = Some (x, w)" "lv_wf par w" "\<not> alive par (ui_widgets s) x" "child_of par w x p"
    "\<And>y. alive par (ui_widgets s) y \<Longrightarrow> par w y = par (ui_widgets s) y"
    "\<And>y z. alive par (ui_widgets s) y \<Longrightarrow> below par w y z \<Longrightarrow> below par (ui_widgets s) y z"
    using lv_create_wf [OF assms(1) wf assms(3)] by metis
  obtain c where c: "\<forall>i < 3. \<exists>t. tabs s ! i = Some t \<and> child_of par (ui_widgets s) t c \<and> \<not> below par (ui_widgets s) c t" "length (tabs s) = 3"
    using ok by (auto simp: tabs_ok_def)
  have "alive par (ui_widgets s) c"
    using c(1) [rule_format, of 0] wf by (auto simp: lv_wf_def)
  then have "\<exists>t. tabs s ! i = Some t \<and> child_of par w t c \<and> \<not> below par w c t" if "i < 3" for i
    using c(1) that x(5,6) by (fastforce simp: child_of_def alive_def)
  then have "tabs_ok par (tabs s) w"
    using x(2) c(2) by (auto simp: tabs_ok_def)
  moreover obtain y t where y: "shell s = Some y" "tabs s ! curr_watch_state s = Some t" "child_of par (ui_widgets s) y t"
    using assms(2) by (auto simp: base_ok_def)
  moreover have "child_of par w y t"
    using y(3) x(5) [of y] by (simp add: child_of_def alive_def)
  ultimately have "base_ok par (s\<lparr>ui_widgets := w\<rparr>)"
    using assms(2) by (auto simp: base_ok_def handlers_ok_def)
  then show ?thesis
    using that x by blast
qed

definition alarm_shown :: "'w lv_par \<Rightarrow> 'w ui_base \<Rightarrow> bool" where
  "alarm_shown par s \<longleftrightarrow> ui_ok par s \<and> expiry_timer s \<and>
     (\<exists>b t. background s = Some b \<and> tabs s ! curr_watch_state s = Some t \<and> child_of par (ui_widgets s) b t \<and> shell s \<noteq> Some b)"

text \<open>The callbacks of the page that a suspension and a resumption make.\<close>

definition suspend_calls :: "'w ui_base \<Rightarrow> ui_call list" where
  "suspend_calls s = (if on_suspend (tab_handlers s ! curr_watch_state s) then [On_suspend (curr_watch_state s)] else [])"

definition resume_calls :: "'w ui_base \<Rightarrow> ui_call list" where
  "resume_calls s = (if on_resume (tab_handlers s ! curr_watch_state s) then [On_resume (curr_watch_state s)] else [])"

lemma suspend_in_order:
  assumes "ui_ok par s"
  shows "ui_base_suspend_base_screen s = Some (s\<lparr>ui_log := ui_log s @ suspend_calls s\<rparr>) \<and> ui_ok par (s\<lparr>ui_log := ui_log s @ suspend_calls s\<rparr>)"
    and "ui_base_resume_base_screen s = Some (s\<lparr>ui_log := ui_log s @ resume_calls s\<rparr>) \<and> ui_ok par (s\<lparr>ui_log := ui_log s @ resume_calls s\<rparr>)"
proof -
  have p: "curr_watch_state s < 3" "s\<lparr>ui_log := ui_log s\<rparr> = s"
    using assms by (simp_all add: ui_ok_def base_ok_def)
  have ok: "ui_ok par (s\<lparr>ui_log := ui_log s @ [c]\<rparr>)" if "c = On_suspend (curr_watch_state s) \<or> c = On_resume (curr_watch_state s)" for c
    using assms that by (auto simp: ui_ok_def base_ok_def handlers_ok_def page_run_append)
  show "ui_base_suspend_base_screen s = Some (s\<lparr>ui_log := ui_log s @ suspend_calls s\<rparr>) \<and> ui_ok par (s\<lparr>ui_log := ui_log s @ suspend_calls s\<rparr>)"
    using p ok assms by (auto simp: ui_base_suspend_base_screen_def suspend_calls_def Let_def valid_page_def UISTATE_INVALID_def emit_ui_def)
  show "ui_base_resume_base_screen s = Some (s\<lparr>ui_log := ui_log s @ resume_calls s\<rparr>) \<and> ui_ok par (s\<lparr>ui_log := ui_log s @ resume_calls s\<rparr>)"
    using p ok assms by (auto simp: ui_base_resume_base_screen_def resume_calls_def Let_def valid_page_def UISTATE_INVALID_def emit_ui_def)
qed

lemma show_alarm_works:
  assumes "lv_spec lv par" "ui_ok par s" "background s = None" "tabs s ! curr_watch_state s = Some t"
  shows "\<exists>s1. show_alarm_page lv True t s = Some s1 \<and> alarm_shown par s1 \<and> ui_wake s1 = wakelock_manager_acquire_wakelock (ui_wake s) \<and>
     curr_watch_state s1 = curr_watch_state s \<and> ui_focus s1 = background s1 \<and> ui_log s1 = ui_log s \<and> ui_dying s1 = ui_dying s \<and>
     tab_handlers s1 = tab_handlers s"
proof -
  have ok: "base_ok par s" using assms(2) by (simp add: ui_ok_def)
  have "curr_watch_state s < 3" "alive par (ui_widgets s) t"
    using ok assms(4) by (auto simp: base_ok_def tabs_ok_def child_of_def alive_def)
  then obtain b w1 where b: "lv_obj_create lv t (ui_widgets s) = Some (b, w1)" "base_ok par (s\<lparr>ui_widgets := w1\<rparr>)" "child_of par w1 b t"
    "\<not> alive par (ui_widgets s) b"
    using create_keeps_base [OF assms(1) ok] by metis
  have "alive par w1 b" using b(3) by (simp add: child_of_def alive_def)
  then obtain l w2 where l: "lv_obj_create lv b w1 = Some (l, w2)" "base_ok par (s\<lparr>ui_widgets := w2\<rparr>)" "par w2 b = par w1 b"
    using create_keeps_base [OF assms(1) b(2)] by simp metis
  have "alive par w2 b" using l(3) b(3) by (simp add: child_of_def alive_def)
  then obtain d w3 where d: "lv_obj_create lv b w2 = Some (d, w3)" "base_ok par (s\<lparr>ui_widgets := w3\<rparr>)" "par w3 b = par w2 b" "child_of par w3 d b"
    using create_keeps_base [OF assms(1) l(2)] by simp metis
  have "alive par w3 d" "alive par w3 b" using d(3,4) l(3) b(3) by (simp_all add: child_of_def alive_def)
  then obtain k w4 where k: "lv_obj_create lv d w3 = Some (k, w4)" "base_ok par (s\<lparr>ui_widgets := w4\<rparr>)" "par w4 b = par w3 b"
    using create_keeps_base [OF assms(1) d(2)] by simp metis
  have "child_of par w4 b t"
    using k(3) d(3) l(3) b(3) by (simp add: child_of_def)
  moreover have "shell s \<noteq> Some b"
    using ok b(4) by (auto simp: base_ok_def child_of_def alive_def)
  ultimately show ?thesis
    using assms b(1) l(1) d(1) k(1,2)
    by (auto simp: show_alarm_page_def alarm_shown_def ui_ok_def base_ok_def handlers_ok_def)
qed

text \<open>Closing the screen, and the pass of the library that deletes it.\<close>

lemma cleanup_works:
  assumes "alarm_shown par s"
  shows "\<exists>s1. alarm_screen_exit_cleanup s = Some s1 \<and> ui_ok par s1 \<and> background s1 = None \<and> \<not> expiry_timer s1 \<and>
     ui_wake s1 = wakelock_manager_release_wakelock (ui_wake s) \<and> curr_watch_state s1 = curr_watch_state s \<and>
     ui_log s1 = ui_log s @ resume_calls s \<and> ui_dying s1 = ui_dying s @ [the (background s)] \<and>
     tabs s1 = tabs s \<and> shell s1 = shell s \<and> ui_widgets s1 = ui_widgets s"
proof -
  obtain b where b: "background s = Some b" and ok: "ui_ok par s"
    using assms by (auto simp: alarm_shown_def)
  let ?s = "s\<lparr>ui_dying := ui_dying s @ [b], background := None, ui_wake := wakelock_manager_release_wakelock (ui_wake s)\<rparr>"
  have "ui_ok par ?s"
    using ok by (auto simp: ui_ok_def base_ok_def handlers_ok_def)
  moreover have same: "resume_calls ?s = resume_calls s"
    by (simp add: resume_calls_def)
  ultimately have r: "ui_base_resume_base_screen ?s = Some (?s\<lparr>ui_log := ui_log s @ resume_calls s\<rparr>)"
    "ui_ok par (?s\<lparr>ui_log := ui_log s @ resume_calls s\<rparr>)"
    using suspend_in_order(2) [of par ?s] same by simp_all
  have "ui_ok par (?s\<lparr>ui_log := ui_log s @ resume_calls s, expiry_timer := False\<rparr>)"
    using r(2) by (simp add: ui_ok_def base_ok_def handlers_ok_def)
  then show ?thesis
    using b r(1) by (simp add: alarm_screen_exit_cleanup_def)
qed

lemma async_pass_works:
  assumes lv: "lv_spec lv par" and u: "ui_ok par s" and b: "ui_dying s = [b]" "tabs s ! curr_watch_state s = Some t"
    "child_of par (ui_widgets s) b t" "shell s \<noteq> Some b"
  shows "\<exists>w. ui_async_pass lv s = Some (s\<lparr>ui_widgets := w, ui_dying := []\<rparr>) \<and> ui_ok par (s\<lparr>ui_widgets := w, ui_dying := []\<rparr>) \<and> \<not> alive par w b"
proof -
  have ok: "base_ok par s" "page_run (ui_log s) None = Some (Some (curr_watch_state s))"
    using u by (auto simp: ui_ok_def)
  have p: "curr_watch_state s < 3" and tok: "tabs_ok par (tabs s) (ui_widgets s)"
    using ok(1) by (auto simp: base_ok_def)
  have a: "lv_wf par (ui_widgets s)" "alive par (ui_widgets s) b"
    using tok b(3) by (auto simp: tabs_ok_def child_of_def alive_def)
  obtain w where w: "lv_obj_delete lv b (ui_widgets s) = Some w" "lv_wf par w" "\<And>y. \<not> below par (ui_widgets s) y b \<Longrightarrow> par w y = par (ui_widgets s) y"
    "\<And>y p. child_of par w y p \<Longrightarrow> child_of par (ui_widgets s) y p"
    using lv_delete_wf [OF lv a] by metis
  obtain w' where w': "lv_obj_delete lv b (ui_widgets s) = Some w'" "\<And>y. par w' y = (if below par (ui_widgets s) y b then None else par (ui_widgets s) y)"
    using lv_delete [OF lv a(2)] by metis
  have gone: "\<not> alive par w b"
    using w(1) w' by (simp add: alive_def below_def)
  note nb = tab_not_below(2) [OF tok p b(2) _ _ b(3)]
  have tok': "tabs_ok par (tabs s) w"
    using tabs_ok_remove [OF tok w(2) _ w(4)] w(3) nb by blast
  obtain x where x: "shell s = Some x" "child_of par (ui_widgets s) x t"
    using ok(1) b(2) by (auto simp: base_ok_def)
  have "\<not> below par (ui_widgets s) x b"
    using belowD [of par "ui_widgets s" x b t] x b(4) nb [OF p b(2)] by (auto simp: child_of_def)
  then have "child_of par w x t"
    using w(3) x(2) by (simp add: child_of_def)
  then have "ui_ok par (s\<lparr>ui_widgets := w, ui_dying := []\<rparr>)"
    using ok tok' x(1) b(2) by (auto simp: ui_ok_def base_ok_def handlers_ok_def)
  then show ?thesis
    using b(1) w(1) gone by (auto simp: ui_async_pass_def)
qed

lemma alarm_screen_shown:
  assumes "lv_spec lv par" "ui_ok par s" "background s = None" "0 \<le> ui_wake s" "ui_wake s < 2147483647"
  shows "\<exists>s1. ui_base_handle_base_screen_event lv True (Some (Ui_alarm a)) s = Some s1 \<and> alarm_shown par s1 \<and>
     ui_wake s1 = ui_wake s + 1 \<and> background s1 \<noteq> None \<and> curr_watch_state s1 = curr_watch_state s \<and>
     ui_log s1 = ui_log s @ suspend_calls s \<and> ui_dying s1 = ui_dying s \<and> tab_handlers s1 = tab_handlers s"
proof -
  let ?l = "ui_log s @ suspend_calls s"
  have l: "ui_base_suspend_base_screen s = Some (s\<lparr>ui_log := ?l\<rparr>)" "ui_ok par (s\<lparr>ui_log := ?l\<rparr>)"
    using suspend_in_order(1) [OF assms(2)] by blast+
  obtain t where t: "tabs s ! curr_watch_state s = Some t" "curr_watch_state s < 3"
    using assms(2) by (auto simp: ui_ok_def base_ok_def)
  obtain s1 where s1: "show_alarm_page lv True t (s\<lparr>ui_log := ?l\<rparr>) = Some s1" "alarm_shown par s1"
    "ui_wake s1 = wakelock_manager_acquire_wakelock (ui_wake s)" "curr_watch_state s1 = curr_watch_state s"
    "ui_log s1 = ?l" "ui_dying s1 = ui_dying s" "tab_handlers s1 = tab_handlers s"
    using show_alarm_works [OF assms(1) l(2), of t] assms(3) t(1) by auto
  then have "ui_base_handle_base_screen_event lv True (Some (Ui_alarm a)) s = Some s1"
    using t l(1) by (simp add: ui_base_handle_base_screen_event_def valid_page_def UISTATE_INVALID_def)
  then show ?thesis
    using s1 assms(4,5) by (auto simp: alarm_shown_def wakelock_manager_acquire_wakelock_def s32_id)
qed


text \<open>
  A key while the alarm screen has the focus, as the library lets it bubble: from the button to the background and on to
  the root screen, or from the background, until a handler stops it.
\<close>

definition alarm_key :: "'w lv_ops \<Rightarrow> nat option \<Rightarrow> lv_obj \<Rightarrow> lv_key \<Rightarrow> 'w ui_base \<Rightarrow> 'w ui_base option" where
  "alarm_key lv g scr key s =
     (if ui_focus s = background s
      then if background_key_event_cb True key then Some s else map_option snd (handle_root_scr_actions lv g scr key s)
      else do {
        (stop, s1) \<leftarrow> dismiss_btn_click_cb key s;
        if stop \<or> background_key_event_cb False key then Some s1
        else map_option snd (handle_root_scr_actions lv g scr key s1)
      })"

text \<open>
  The alarm screen is captive. Whatever the widget tree, a key pressed while the alarm is shown moves the focus at
  most; pages, widgets, wake lock and timer stay as they are, except for the enter key on the dismiss button, which
  closes the screen.
\<close>

lemma alarm_screen_captive:
  assumes "expiry_timer s" and "key \<in> {LV_KEY_LEFT, LV_KEY_RIGHT, LV_KEY_ENTER, LV_KEY_ESC}"
  shows "if key = LV_KEY_ENTER \<and> ui_focus s \<noteq> background s then alarm_key lv g scr key s = alarm_screen_exit_cleanup s
     else \<exists>f. alarm_key lv g scr key s = Some (s\<lparr>ui_focus := f\<rparr>)"
proof -
  have focus: "\<exists>f. snd (b, s) = s\<lparr>ui_focus := f\<rparr>" for b
    by (intro exI [of _ "ui_focus s"]) simp
  have enter: "\<exists>f. map_option snd (handle_root_scr_actions lv g scr LV_KEY_ENTER s) = Some (s\<lparr>ui_focus := f\<rparr>)"
    and esc: "\<exists>f. map_option snd (handle_root_scr_actions lv g scr LV_KEY_ESC s) = Some (s\<lparr>ui_focus := f\<rparr>)"
    using focus by (auto simp: handle_root_scr_actions_def split: option.splits)
  have "alarm_key lv g scr LV_KEY_ENTER s = alarm_screen_exit_cleanup s" if "ui_focus s \<noteq> background s"
    using that assms(1) by (cases "alarm_screen_exit_cleanup s") (simp_all add: alarm_key_def dismiss_btn_click_cb_def)
  moreover have "\<exists>f. alarm_key lv g scr key s = Some (s\<lparr>ui_focus := f\<rparr>)" if "key = LV_KEY_LEFT \<or> key = LV_KEY_RIGHT"
    using that focus by (auto simp: alarm_key_def background_key_event_cb_def dismiss_btn_click_cb_def)
  moreover have "\<exists>f. alarm_key lv g scr LV_KEY_ESC s = Some (s\<lparr>ui_focus := f\<rparr>)"
    using esc focus by (auto simp: alarm_key_def background_key_event_cb_def dismiss_btn_click_cb_def)
  moreover have "\<exists>f. alarm_key lv g scr LV_KEY_ENTER s = Some (s\<lparr>ui_focus := f\<rparr>)" if "ui_focus s = background s"
    using that enter by (auto simp: alarm_key_def background_key_event_cb_def)
  ultimately show ?thesis
    using assms(2) by auto
qed

section \<open>Witnesses\<close>

definition ex_ui_base :: "map_store ui_base" where
  "ex_ui_base = \<lparr>home_tab = None, curr_watch_state = UISTATE_INVALID, tabs = [None, None, None],
     tab_handlers = replicate 3 \<lparr>on_draw = True, on_close = True, on_suspend = True, on_resume = False\<rparr>, active_tab = 0, shell = None,
     background = None, expiry_timer = False, ui_wake = 0, ui_focus = None, ui_log = [], ui_dying = [], ui_widgets = (\<lambda>x. Some None, 1)\<rparr>"

lemma ex_ui_store: "lv_wf store_par (ui_widgets ex_ui_base)" "alive store_par (ui_widgets ex_ui_base) 0" "handlers_ok ex_ui_base"
  by (auto simp: ex_ui_base_def lv_wf_def child_of_def alive_def store_par_def handlers_ok_def split: if_splits)

theorem pages_follow_keys_witness:
  "\<exists>s0 s'. ui_base_draw_base_screen store_ops 0 ex_ui_base = Some s0 \<and> mfold (root_key store_ops) [True, True, False] s0 = Some s' \<and>
     curr_watch_state s' = WATCHFACE"
proof -
  have "fold page_step [True, True, False] WATCHFACE = WATCHFACE"
    by (simp add: page_step_def WATCHFACE_def)
  moreover have "shell ex_ui_base = None" "ui_log ex_ui_base = []"
    by (simp_all add: ex_ui_base_def)
  ultimately show ?thesis
    using pages_follow_keys [OF store_spec ex_ui_store, of "[True, True, False]"] by metis
qed

definition ex_alarm :: alarm where
  "ex_alarm = \<lparr>epoch = 60, al_type = ALARM_TYPE_WATCH, sync_with_phone = False\<rparr>"


lemma alarm_screen_captive_witness:
  "\<exists>f. alarm_key store_ops (Some 1) (Obj 7 None []) LV_KEY_RIGHT (ex_ui_base\<lparr>expiry_timer := True, background := Some 3, ui_focus := Some 3\<rparr>) =
     Some (ex_ui_base\<lparr>expiry_timer := True, background := Some 3, ui_focus := f\<rparr>)"
  using alarm_screen_captive [of "ex_ui_base\<lparr>expiry_timer := True, background := Some 3, ui_focus := Some 3\<rparr>" LV_KEY_RIGHT store_ops "Some 1" "Obj 7 None []"]
  by simp

end
