(* ===== verification/Brick_Game.thy ===== *)
theory Brick_Game
  imports Prelude Complex_Main
begin

text \<open>
  The brick breaker of \<open>brickbreaker_game/src/game.c\<close>: key events, the 30 ms tick with its collisions, and the life cycle.
  The static variables of the file are the fields of \<open>game\<close>; the widgets appear as the positions and flags given to the
  graphics library.

  The ball has \<open>float\<close> coordinates. They are rational numbers here: every value the code computes is a multiple of one
  half below 200 (\<open>game_invariant\<close>), on which the machine operations are exact.
\<close>

section \<open>State\<close>

definition GAME_WIDTH :: int where "GAME_WIDTH = 128"
definition GAME_HEIGHT :: int where "GAME_HEIGHT = 160"
definition PADDLE_WIDTH :: int where "PADDLE_WIDTH = 24"
definition PADDLE_HEIGHT :: int where "PADDLE_HEIGHT = 6"
definition BALL_SIZE :: int where "BALL_SIZE = 4"
definition BRICK_ROWS :: nat where "BRICK_ROWS = 4"
definition BRICK_COLS :: nat where "BRICK_COLS = 5"
definition BRICK_WIDTH :: int where "BRICK_WIDTH = 20"
definition BRICK_HEIGHT :: int where "BRICK_HEIGHT = 6"
definition BRICK_PADDING :: int where "BRICK_PADDING = 3"
definition paddle_y :: int where "paddle_y = GAME_HEIGHT - PADDLE_HEIGHT - 8"

lemmas game_consts = GAME_WIDTH_def GAME_HEIGHT_def PADDLE_WIDTH_def PADDLE_HEIGHT_def BALL_SIZE_def BRICK_ROWS_def
  BRICK_COLS_def BRICK_WIDTH_def BRICK_HEIGHT_def BRICK_PADDING_def paddle_y_def

record brick =
  bk_x :: int
  bk_y :: int
  bk_w :: int
  bk_h :: int
  bk_active :: bool
  bk_hidden :: bool

record game =
  paddle_x :: int
  ball_x :: rat
  ball_y :: rat
  ball_dx :: rat
  ball_dy :: rat
  bricks :: "brick list list"
  key_left_pressed :: bool
  key_right_pressed :: bool
  paddle_pos :: "int \<times> int"
  ball_pos :: "int \<times> int"
  game_timer :: bool

text \<open>The initial values of the statics.\<close>

definition game_start :: game where
  "game_start = \<lparr>paddle_x = (GAME_WIDTH - PADDLE_WIDTH) div 2, ball_x = of_int GAME_WIDTH / 2, ball_y = of_int GAME_HEIGHT - 30,
     ball_dx = 3 / 2, ball_dy = - 3 / 2, bricks = [], key_left_pressed = False, key_right_pressed = False,
     paddle_pos = (0, 0), ball_pos = (0, 0), game_timer = False\<rparr>"

text \<open>The conversion to \<open>int\<close> cuts the fraction off.\<close>

definition trunc :: "rat \<Rightarrow> int" where
  "trunc r = (if r < 0 then - \<lfloor>- r\<rfloor> else \<lfloor>r\<rfloor>)"

section \<open>Keys\<close>

datatype game_key = KEY_LEFT | KEY_RIGHT | KEY_ESC | KEY_OTHER

text \<open>Whether the event is stopped, and the state; \<open>is_key\<close> is the test of the event code.\<close>

definition game_key_event_cb :: "bool \<Rightarrow> game_key \<Rightarrow> game \<Rightarrow> bool \<times> game" where
  "game_key_event_cb is_key key s =
     (key \<noteq> KEY_ESC,
      if is_key then s\<lparr>key_left_pressed := key_left_pressed s \<or> key = KEY_LEFT,
                       key_right_pressed := key_right_pressed s \<or> key = KEY_RIGHT\<rparr>
      else s)"

section \<open>The tick\<close>

definition move_paddle :: "game \<Rightarrow> game" where
  "move_paddle s =
     (let x1 = (if key_left_pressed s then paddle_x s - 3 else paddle_x s);
          x2 = (if key_right_pressed s then x1 + 3 else x1);
          x3 = (if x2 < 0 then 0 else x2);
          x4 = (if x3 > GAME_WIDTH - PADDLE_WIDTH then GAME_WIDTH - PADDLE_WIDTH else x3)
      in s\<lparr>paddle_x := x4, key_left_pressed := False, key_right_pressed := False\<rparr>)"

definition move_ball :: "game \<Rightarrow> game" where
  "move_ball s = s\<lparr>ball_x := ball_x s + ball_dx s, ball_y := ball_y s + ball_dy s\<rparr>"

definition hit_walls :: "game \<Rightarrow> game" where
  "hit_walls s =
     s\<lparr>ball_dx := (if ball_x s \<le> 0 \<or> ball_x s \<ge> of_int (GAME_WIDTH - BALL_SIZE) then - ball_dx s else ball_dx s),
       ball_dy := (if ball_y s \<le> 0 then - ball_dy s else ball_dy s)\<rparr>"

definition relaunch :: "game \<Rightarrow> game" where
  "relaunch s =
     (if ball_y s \<ge> of_int GAME_HEIGHT
      then s\<lparr>ball_x := of_int GAME_WIDTH / 2, ball_y := of_int GAME_HEIGHT - 30, ball_dy := - 3 / 2\<rparr> else s)"

definition on_paddle :: "game \<Rightarrow> bool" where
  "on_paddle s \<longleftrightarrow> ball_y s + of_int BALL_SIZE \<ge> of_int paddle_y \<and> ball_y s \<le> of_int (paddle_y + PADDLE_HEIGHT) \<and>
     ball_x s + of_int BALL_SIZE \<ge> of_int (paddle_x s) \<and> ball_x s \<le> of_int (paddle_x s + PADDLE_WIDTH)"

definition hit_paddle :: "game \<Rightarrow> game" where
  "hit_paddle s =
     (if on_paddle s then s\<lparr>ball_dy := - ball_dy s, ball_y := of_int (paddle_y - BALL_SIZE - 1)\<rparr> else s)"

definition touches :: "rat \<Rightarrow> rat \<Rightarrow> brick \<Rightarrow> bool" where
  "touches x y b \<longleftrightarrow> x + of_int BALL_SIZE \<ge> of_int (bk_x b) \<and> x \<le> of_int (bk_x b + bk_w b) \<and>
     y + of_int BALL_SIZE \<ge> of_int (bk_y b) \<and> y \<le> of_int (bk_y b + bk_h b)"

text \<open>The inner loop ends with the first brick that is hit.\<close>

primrec hit_row :: "rat \<Rightarrow> rat \<Rightarrow> brick list \<Rightarrow> bool \<times> brick list" where
  "hit_row x y [] = (False, [])"
| "hit_row x y (b # bs) =
     (if bk_active b \<and> touches x y b then (True, b\<lparr>bk_active := False, bk_hidden := True\<rparr> # bs)
      else let (h, bs') = hit_row x y bs in (h, b # bs'))"

primrec hit_rows :: "rat \<Rightarrow> rat \<Rightarrow> brick list list \<Rightarrow> rat \<Rightarrow> rat \<times> brick list list" where
  "hit_rows x y [] dy = (dy, [])"
| "hit_rows x y (row # rows) dy =
     (let (h, row') = hit_row x y row; (dy', rows') = hit_rows x y rows (if h then - dy else dy)
      in (dy', row' # rows'))"

definition hit_bricks :: "game \<Rightarrow> game" where
  "hit_bricks s = (let (dy, rows) = hit_rows (ball_x s) (ball_y s) (bricks s) (ball_dy s) in s\<lparr>ball_dy := dy, bricks := rows\<rparr>)"

definition show_game :: "game \<Rightarrow> game" where
  "show_game s = s\<lparr>paddle_pos := (paddle_x s, paddle_y), ball_pos := (trunc (ball_x s), trunc (ball_y s))\<rparr>"

definition game_tick_timer_cb :: "game \<Rightarrow> game" where
  "game_tick_timer_cb s = show_game (hit_bricks (hit_paddle (relaunch (hit_walls (move_ball (move_paddle s))))))"

section \<open>Life cycle\<close>

definition start_x :: int where
  "start_x = (GAME_WIDTH - ((int BRICK_COLS * (BRICK_WIDTH + BRICK_PADDING)) - BRICK_PADDING)) div 2"

definition start_y :: int where "start_y = 15"

definition new_brick :: "nat \<Rightarrow> nat \<Rightarrow> brick" where
  "new_brick r c = \<lparr>bk_x = start_x + int c * (BRICK_WIDTH + BRICK_PADDING), bk_y = start_y + int r * (BRICK_HEIGHT + BRICK_PADDING),
     bk_w = BRICK_WIDTH, bk_h = BRICK_HEIGHT, bk_active = True, bk_hidden = False\<rparr>"

definition new_bricks :: "brick list list" where
  "new_bricks = map (\<lambda>r. map (new_brick r) [0..<BRICK_COLS]) [0..<BRICK_ROWS]"

definition init_brick_breaker :: "game \<Rightarrow> game" where
  "init_brick_breaker s = (show_game s)\<lparr>bricks := new_bricks, game_timer := True\<rparr>"

text \<open>Deleting a timer that does not exist is an error of the library.\<close>

definition close_game :: "game \<Rightarrow> game option" where
  "close_game s = (if game_timer s then Some (s\<lparr>game_timer := False\<rparr>) else None)"

section \<open>Bricks\<close>

definition brick_hit :: "brick \<Rightarrow> brick" where
  "brick_hit b = b\<lparr>bk_active := False, bk_hidden := True\<rparr>"

definition hit_or_kept :: "rat \<Rightarrow> rat \<Rightarrow> brick \<Rightarrow> brick \<Rightarrow> bool" where
  "hit_or_kept x y b b' \<longleftrightarrow> b' = b \<or> (bk_active b \<and> touches x y b \<and> b' = brick_hit b)"

lemma hit_or_kept_refl [simp]: "hit_or_kept x y b b"
  by (simp add: hit_or_kept_def)

definition row_hit :: "rat \<Rightarrow> rat \<Rightarrow> brick list \<Rightarrow> bool" where
  "row_hit x y bs \<longleftrightarrow> (\<exists>b \<in> set bs. bk_active b \<and> touches x y b)"

lemma hit_row_cases:
  "hit_row x y bs = (h, bs') \<Longrightarrow> list_all2 (hit_or_kept x y) bs bs' \<and> h = row_hit x y bs"
  unfolding row_hit_def
proof (induction bs arbitrary: h bs')
  case (Cons b bs)
  show ?case
  proof (cases "bk_active b \<and> touches x y b")
    case True
    then show ?thesis
      using Cons.prems by (auto simp: hit_or_kept_def brick_hit_def list_all2_refl)
  next
    case False
    obtain h1 bs1 where "hit_row x y bs = (h1, bs1)" by (cases "hit_row x y bs")
    then show ?thesis
      using Cons False by auto
  qed
qed simp

lemma hit_rows_cases:
  "hit_rows x y rows dy = (dy', rows') \<Longrightarrow> list_all2 (list_all2 (hit_or_kept x y)) rows rows' \<and>
     dy' = (if even (length (filter (row_hit x y) rows)) then dy else - dy)"
proof (induction rows arbitrary: dy dy' rows')
  case (Cons row rows)
  obtain h row1 where r: "hit_row x y row = (h, row1)" by (cases "hit_row x y row")
  obtain dy1 rows1 where rs: "hit_rows x y rows (if h then - dy else dy) = (dy1, rows1)"
    by (cases "hit_rows x y rows (if h then - dy else dy)")
  have "dy' = dy1 \<and> rows' = row1 # rows1"
    using Cons.prems r rs by simp
  then show ?case
    using Cons.IH [OF rs] hit_row_cases [OF r] by (cases h) auto
qed simp

text \<open>The board as it was laid out, with some of its bricks hit.\<close>

definition in_place :: "brick \<Rightarrow> brick \<Rightarrow> bool" where
  "in_place b b' \<longleftrightarrow> bk_x b' = bk_x b \<and> bk_y b' = bk_y b \<and> bk_w b' = bk_w b \<and> bk_h b' = bk_h b \<and> bk_hidden b' = (\<not> bk_active b')"

definition board_ok :: "game \<Rightarrow> bool" where
  "board_ok s \<longleftrightarrow> list_all2 (list_all2 in_place) new_bricks (bricks s)"

lemma new_bricks_in_place: "list_all2 (list_all2 in_place) new_bricks new_bricks"
  by (auto simp: new_bricks_def new_brick_def in_place_def list.rel_map intro!: list.rel_refl_strong)

lemma in_place_hit: "in_place b c \<Longrightarrow> hit_or_kept x y c d \<Longrightarrow> in_place b d"
  by (auto simp: in_place_def hit_or_kept_def brick_hit_def)

lemma board_after_hits:
  "list_all2 (list_all2 in_place) bs cs \<Longrightarrow> list_all2 (list_all2 (hit_or_kept x y)) cs ds \<Longrightarrow> list_all2 (list_all2 in_place) bs ds"
  using list_all2_trans [where ?P1.0 = "list_all2 in_place" and ?P2.0 = "list_all2 (hit_or_kept x y)" and ?P3.0 = "list_all2 in_place"]
    list_all2_trans [where ?P1.0 = in_place and ?P2.0 = "hit_or_kept x y" and ?P3.0 = in_place] in_place_hit by blast

lemma new_brick_zone: "row \<in> set new_bricks \<Longrightarrow> b \<in> set row \<Longrightarrow> 15 \<le> bk_y b \<and> bk_y b + bk_h b \<le> 48"
  by (auto simp: new_bricks_def new_brick_def start_y_def game_consts)

lemma board_zone:
  assumes "list_all2 (list_all2 in_place) new_bricks rows" "row \<in> set rows" "b \<in> set row" "touches x y b"
  shows "11 \<le> y \<and> y \<le> 48"
proof -
  obtain row0 where row0: "row0 \<in> set new_bricks" "list_all2 in_place row0 row"
    using assms(1,2) by (metis in_set_conv_nth list_all2_conv_all_nth)
  then obtain b0 where "b0 \<in> set row0" "in_place b0 b"
    using assms(3) by (metis in_set_conv_nth list_all2_conv_all_nth)
  then have "15 \<le> bk_y b \<and> bk_y b + bk_h b \<le> 48"
    using new_brick_zone [OF row0(1)] by (simp add: in_place_def)
  then have "(15 :: rat) \<le> of_int (bk_y b) \<and> of_int (bk_y b + bk_h b) \<le> (48 :: rat)"
    by linarith
  then show ?thesis
    using assms(4) by (simp add: touches_def game_consts)
qed

section \<open>The invariant\<close>

definition x_ok :: "rat \<Rightarrow> rat \<Rightarrow> bool" where
  "x_ok x dx \<longleftrightarrow> (dx = 3 / 2 \<or> dx = - 3 / 2) \<and> - 3 / 2 < x \<and> x < 251 / 2 \<and> (x \<le> 0 \<longrightarrow> dx = 3 / 2) \<and> (x \<ge> 124 \<longrightarrow> dx = - 3 / 2) \<and>
     2 * x \<in> \<int>"

text \<open>\<open>bottom\<close> bounds the vertical position: the lower edge, or one step more between the wall check and the check of that edge.\<close>

definition y_ok :: "rat \<Rightarrow> rat \<Rightarrow> rat \<Rightarrow> bool" where
  "y_ok bottom y dy \<longleftrightarrow> (dy = 3 / 2 \<or> dy = - 3 / 2) \<and> - 3 / 2 < y \<and> y < bottom \<and> (y \<le> 0 \<longrightarrow> dy = 3 / 2) \<and> (dy < 0 \<longrightarrow> y \<le> 141) \<and>
     2 * y \<in> \<int>"

definition ball_in :: "rat \<Rightarrow> game \<Rightarrow> bool" where
  "ball_in bottom s \<longleftrightarrow> x_ok (ball_x s) (ball_dx s) \<and> y_ok bottom (ball_y s) (ball_dy s)"

abbreviation ball_ok :: "game \<Rightarrow> bool" where
  "ball_ok \<equiv> ball_in 160"

definition paddle_ok :: "game \<Rightarrow> bool" where
  "paddle_ok s \<longleftrightarrow> 0 \<le> paddle_x s \<and> paddle_x s \<le> GAME_WIDTH - PADDLE_WIDTH"

definition game_ok :: "game \<Rightarrow> bool" where
  "game_ok s \<longleftrightarrow> ball_ok s \<and> paddle_ok s \<and> board_ok s"

lemma half_steps: "2 * x \<in> \<int> \<Longrightarrow> 2 * (x + 3 / 2) \<in> \<int>" "2 * x \<in> \<int> \<Longrightarrow> 2 * (x - 3 / 2) \<in> \<int>" for x :: rat
proof -
  assume x: "2 * x \<in> \<int>"
  have "2 * (x + 3 / 2) = 2 * x + 3" "2 * (x - 3 / 2) = 2 * x - 3"
    by simp_all
  then show "2 * (x + 3 / 2) \<in> \<int>" "2 * (x - 3 / 2) \<in> \<int>"
    using x by (simp_all only: Ints_add Ints_diff Ints_numeral)
qed

lemma x_step:
  assumes "x_ok x dx"
  shows "x_ok (x + dx) (if x + dx \<le> 0 \<or> x + dx \<ge> 124 then - dx else dx)"
proof -
  have r: "x_ok (x + 3 / 2) (if x + 3 / 2 \<le> 0 \<or> x + 3 / 2 \<ge> 124 then - (3 / 2) else 3 / 2)" if "x_ok x (3 / 2)"
    using that half_steps(1) [of x] by (simp add: x_ok_def)
  have l: "x_ok (x + - 3 / 2) (if x + - 3 / 2 \<le> 0 \<or> x + - 3 / 2 \<ge> 124 then - (- 3 / 2) else - 3 / 2)" if "x_ok x (- 3 / 2)"
    using that half_steps(2) [of x] by (simp add: x_ok_def)
  consider (right) "dx = 3 / 2" | (left) "dx = - 3 / 2"
    using assms by (auto simp: x_ok_def)
  then show ?thesis
  proof cases
    case right
    show ?thesis using assms unfolding right by (rule r)
  next
    case left
    show ?thesis using assms unfolding left by (rule l)
  qed
qed

lemma y_step:
  assumes "y_ok 160 y dy"
  shows "y_ok (323 / 2) (y + dy) (if y + dy \<le> 0 then - dy else dy)"
proof -
  have d: "y_ok (323 / 2) (y + 3 / 2) (if y + 3 / 2 \<le> 0 then - (3 / 2) else 3 / 2)" if "y_ok 160 y (3 / 2)"
    using that half_steps(1) [of y] by (simp add: y_ok_def)
  have u: "y_ok (323 / 2) (y + - 3 / 2) (if y + - 3 / 2 \<le> 0 then - (- 3 / 2) else - 3 / 2)" if "y_ok 160 y (- 3 / 2)"
    using that half_steps(2) [of y] by (auto simp add: y_ok_def)
  consider (down) "dy = 3 / 2" | (up) "dy = - 3 / 2"
    using assms by (auto simp: y_ok_def)
  then show ?thesis
  proof cases
    case down
    show ?thesis using assms unfolding down by (rule d)
  next
    case up
    show ?thesis using assms unfolding up by (rule u)
  qed
qed

lemma walls_flying: "ball_ok s \<Longrightarrow> ball_in (323 / 2) (hit_walls (move_ball s))"
proof -
  assume s: "ball_ok s"
  have "ball_x (hit_walls (move_ball s)) = ball_x s + ball_dx s" "ball_y (hit_walls (move_ball s)) = ball_y s + ball_dy s"
    "ball_dx (hit_walls (move_ball s)) = (if ball_x s + ball_dx s \<le> 0 \<or> ball_x s + ball_dx s \<ge> 124 then - ball_dx s else ball_dx s)"
    "ball_dy (hit_walls (move_ball s)) = (if ball_y s + ball_dy s \<le> 0 then - ball_dy s else ball_dy s)"
    by (simp_all add: hit_walls_def move_ball_def game_consts)
  then show ?thesis
    using s x_step [of "ball_x s" "ball_dx s"] y_step [of "ball_y s" "ball_dy s"] by (simp only: ball_in_def)
qed

lemma relaunch_ok: "ball_in (323 / 2) s \<Longrightarrow> ball_ok (relaunch s)"
  by (simp add: ball_in_def x_ok_def y_ok_def relaunch_def game_consts)

lemma on_paddle_falling: "ball_ok s \<Longrightarrow> on_paddle s \<Longrightarrow> ball_dy s = 3 / 2"
  by (auto simp: ball_in_def y_ok_def on_paddle_def game_consts)

lemma hit_paddle_ok: "ball_ok s \<Longrightarrow> ball_ok (hit_paddle s)"
proof (cases "on_paddle s")
  case True
  assume s: "ball_ok s"
  then have "x_ok (ball_x s) (ball_dx s)" by (simp add: ball_in_def)
  moreover have "ball_dy s = 3 / 2" using s True by (rule on_paddle_falling)
  ultimately show ?thesis
    using True by (simp add: ball_in_def y_ok_def hit_paddle_def game_consts)
qed (simp add: hit_paddle_def)

lemma hit_bricks_ok:
  assumes "ball_ok s" "board_ok s"
  shows "ball_ok (hit_bricks s)" "board_ok (hit_bricks s)" "\<not> (11 \<le> ball_y s \<and> ball_y s \<le> 48) \<Longrightarrow> ball_dy (hit_bricks s) = ball_dy s"
proof -
  obtain dy rows where h: "hit_rows (ball_x s) (ball_y s) (bricks s) (ball_dy s) = (dy, rows)"
    by (cases "hit_rows (ball_x s) (ball_y s) (bricks s) (ball_dy s)")
  note c = hit_rows_cases [OF h]
  have none: "filter (row_hit (ball_x s) (ball_y s)) (bricks s) = []" if "\<not> (11 \<le> ball_y s \<and> ball_y s \<le> 48)"
    using that board_zone [OF assms(2) [unfolded board_ok_def]] by (auto simp: filter_empty_conv row_hit_def)
  show "board_ok (hit_bricks s)"
    using assms(2) h c board_after_hits by (auto simp: board_ok_def hit_bricks_def)
  show dy: "ball_dy (hit_bricks s) = ball_dy s" if "\<not> (11 \<le> ball_y s \<and> ball_y s \<le> 48)"
    using h c none [OF that] by (simp add: hit_bricks_def)
  have "ball_dy (hit_bricks s) = ball_dy s \<or> 11 \<le> ball_y s \<and> ball_y s \<le> 48 \<and> ball_dy (hit_bricks s) = - ball_dy s"
    using dy h c by (auto simp: hit_bricks_def split: if_splits)
  then show "ball_ok (hit_bricks s)"
    using assms(1) h by (auto simp: ball_in_def y_ok_def hit_bricks_def)
qed

lemma move_paddle_ok: "paddle_ok s \<Longrightarrow> paddle_ok (move_paddle s)"
  by (auto simp: paddle_ok_def move_paddle_def Let_def game_consts)

text \<open>What the parts of a tick leave alone.\<close>

lemma tick_frame [simp]:
  "board_ok (move_paddle s) = board_ok s" "ball_in t (move_paddle s) = ball_in t s"
  "board_ok (hit_walls s) = board_ok s" "board_ok (move_ball s) = board_ok s" "board_ok (relaunch s) = board_ok s"
  "board_ok (hit_paddle s) = board_ok s" "board_ok (show_game s) = board_ok s" "ball_in t (show_game s) = ball_in t s"
  "paddle_ok (hit_walls s) = paddle_ok s" "paddle_ok (move_ball s) = paddle_ok s" "paddle_ok (relaunch s) = paddle_ok s"
  "paddle_ok (hit_paddle s) = paddle_ok s" "paddle_ok (hit_bricks s) = paddle_ok s" "paddle_ok (show_game s) = paddle_ok s"
  by (simp_all add: board_ok_def ball_in_def move_paddle_def Let_def hit_paddle_def relaunch_def hit_walls_def move_ball_def hit_bricks_def
      show_game_def paddle_ok_def split_def)

lemma game_tick_ok: "game_ok s \<Longrightarrow> game_ok (game_tick_timer_cb s)"
  by (simp add: game_ok_def game_tick_timer_cb_def move_paddle_ok walls_flying relaunch_ok hit_paddle_ok hit_bricks_ok)

section \<open>Every game stays on the board\<close>

datatype game_event = Game_key bool game_key | Game_tick | Game_reopen

primrec game_exec :: "game_event \<Rightarrow> game \<Rightarrow> game option" where
  "game_exec (Game_key is_key key) s = Some (snd (game_key_event_cb is_key key s))"
| "game_exec Game_tick s = (if game_timer s then Some (game_tick_timer_cb s) else Some s)"
| "game_exec Game_reopen s = map_option init_brick_breaker (close_game s)"

lemma key_keeps [simp]:
  "game_ok (snd (game_key_event_cb b k s)) = game_ok s" "game_timer (snd (game_key_event_cb b k s)) = game_timer s"
  "ball_x (snd (game_key_event_cb b k s)) = ball_x s" "ball_y (snd (game_key_event_cb b k s)) = ball_y s"
  "ball_dy (snd (game_key_event_cb b k s)) = ball_dy s"
  by (simp_all add: game_key_event_cb_def game_ok_def ball_in_def paddle_ok_def board_ok_def)

lemma start_ok: "ball_ok game_start" "paddle_ok game_start"
  by (simp_all add: game_start_def ball_in_def x_ok_def y_ok_def paddle_ok_def game_consts)

lemma init_ok: "ball_ok s \<Longrightarrow> paddle_ok s \<Longrightarrow> game_ok (init_brick_breaker s) \<and> game_timer (init_brick_breaker s)"
  using new_bricks_in_place by (simp add: init_brick_breaker_def show_game_def game_ok_def ball_in_def paddle_ok_def board_ok_def)

lemma game_timer_tick: "game_timer (game_tick_timer_cb s) = game_timer s"
  by (simp add: game_tick_timer_cb_def move_paddle_def Let_def hit_paddle_def relaunch_def hit_walls_def move_ball_def hit_bricks_def
      show_game_def split_def)

lemma game_exec_ok:
  assumes "game_ok s" "game_timer s"
  shows "\<exists>s'. game_exec ev s = Some s' \<and> game_ok s' \<and> game_timer s'"
proof (cases ev)
  case Game_reopen
  have "ball_ok (s\<lparr>game_timer := False\<rparr>)" "paddle_ok (s\<lparr>game_timer := False\<rparr>)"
    using assms(1) by (simp_all add: game_ok_def ball_in_def paddle_ok_def)
  then show ?thesis
    using init_ok assms(2) Game_reopen by (simp add: close_game_def)
qed (use assms game_tick_ok in \<open>simp_all add: game_timer_tick\<close>)

text \<open>
  C28: a game never leaves its board. For every sequence of key events, ticks and reopenings the paddle stays inside the
  screen, the ball stays less than one step outside of it, both coordinates of the ball remain multiples of one half, so
  that the \<open>float\<close> arithmetic of the code is exact, and every brick keeps its place and is hidden exactly when it has been hit.
\<close>

theorem game_invariant:
  "\<exists>s. mfold game_exec evs (init_brick_breaker game_start) = Some s \<and> 0 \<le> paddle_x s \<and> paddle_x s + PADDLE_WIDTH \<le> GAME_WIDTH \<and>
     - 3 / 2 < ball_x s \<and> ball_x s < of_int (GAME_WIDTH - BALL_SIZE) + 3 / 2 \<and> - 3 / 2 < ball_y s \<and> ball_y s < of_int GAME_HEIGHT \<and>
     2 * ball_x s \<in> \<int> \<and> 2 * ball_y s \<in> \<int> \<and> list_all2 (list_all2 in_place) new_bricks (bricks s)"
proof -
  have "\<exists>s. mfold game_exec evs t = Some s \<and> game_ok s" if "game_ok t" "game_timer t" for t
    using that
  proof (induction evs arbitrary: t)
    case (Cons ev evs)
    then obtain t1 where "game_exec ev t = Some t1" "game_ok t1" "game_timer t1"
      using game_exec_ok by metis
    then show ?case using Cons.IH by simp
  qed simp
  then obtain s where s: "mfold game_exec evs (init_brick_breaker game_start) = Some s" "game_ok s"
    using init_ok [OF start_ok] by blast
  have "x_ok (ball_x s) (ball_dx s)" "y_ok 160 (ball_y s) (ball_dy s)" "paddle_ok s" "board_ok s"
    using s(2) by (simp_all add: game_ok_def ball_in_def)
  then show ?thesis
    using s(1) by (simp add: x_ok_def y_ok_def paddle_ok_def board_ok_def game_consts)
qed

section \<open>A falling ball comes back\<close>

primrec press :: "(bool \<times> game_key) list \<Rightarrow> game \<Rightarrow> game" where
  "press [] s = s"
| "press (k # ks) s = press ks (snd (game_key_event_cb (fst k) (snd k) s))"

text \<open>Each tick with the keys that came before it.\<close>

primrec play :: "(bool \<times> game_key) list list \<Rightarrow> game \<Rightarrow> game" where
  "play [] s = s"
| "play (ks # kss) s = play kss (game_tick_timer_cb (press ks s))"

lemma press_keeps [simp]:
  "game_ok (press ks s) = game_ok s" "ball_y (press ks s) = ball_y s" "ball_dy (press ks s) = ball_dy s"
  by (induction ks arbitrary: s) simp_all

definition sent_up :: "game \<Rightarrow> bool" where
  "sent_up s \<longleftrightarrow> ball_dy s < 0 \<and> (ball_y s = of_int (paddle_y - BALL_SIZE - 1) \<or> ball_y s = of_int GAME_HEIGHT - 30)"

lemma falling_step:
  assumes "game_ok s" "48 < ball_y s" "ball_dy s = 3 / 2"
  shows "ball_y (game_tick_timer_cb s) = ball_y s + 3 / 2 \<and> ball_dy (game_tick_timer_cb s) = 3 / 2 \<or> sent_up (game_tick_timer_cb s)"
proof -
  define w where "w = hit_walls (move_ball (move_paddle s))"
  define t where "t = hit_paddle (relaunch w)"
  have w: "ball_y w = ball_y s + 3 / 2" "ball_dy w = 3 / 2"
    using assms(2,3) by (simp_all add: w_def hit_walls_def move_ball_def move_paddle_def Let_def)
  have t: "ball_ok t" "board_ok t"
    using assms(1) by (simp_all add: t_def w_def game_ok_def walls_flying relaunch_ok hit_paddle_ok)
  have "\<not> on_paddle (w\<lparr>ball_x := 64, ball_y := 130, ball_dy := - (3 / 2)\<rparr>)"
    by (simp add: on_paddle_def game_consts)
  then have "ball_y t = ball_y s + 3 / 2 \<and> ball_dy t = 3 / 2 \<or> sent_up t"
    using w by (auto simp: t_def hit_paddle_def relaunch_def sent_up_def game_consts)
  moreover from this have "48 < ball_y t"
    using assms(2) by (auto simp: sent_up_def game_consts)
  moreover have "game_tick_timer_cb s = show_game (hit_bricks t)"
    by (simp add: game_tick_timer_cb_def t_def w_def)
  moreover have "ball_y (show_game (hit_bricks t)) = ball_y t" "ball_dy (show_game (hit_bricks t)) = ball_dy (hit_bricks t)"
    by (simp_all add: show_game_def hit_bricks_def split_def Let_def)
  ultimately show ?thesis
    using hit_bricks_ok(3) [OF t] by (simp add: sent_up_def)
qed

text \<open>
  A falling ball comes back. When the ball has left the bricks downwards, then after at most 75 ticks, whatever keys
  the player presses, it flies up again, either from the paddle or from the place where a lost ball is put.
\<close>

lemma falling_ball_returns:
  assumes "game_ok s" and "48 < ball_y s" and "0 < ball_dy s" and "75 \<le> length kss"
  shows "\<exists>k \<le> 75. sent_up (play (take k kss) s)"
proof -
  have "\<exists>k \<le> n. sent_up (play (take k kss) s)"
    if "game_ok s" "48 < ball_y s" "ball_dy s = 3 / 2" "160 \<le> ball_y s + 3 / 2 * of_nat n" "n \<le> length kss" for n s kss
    using that
  proof (induction n arbitrary: s kss)
    case 0
    then show ?case by (simp add: game_ok_def ball_in_def y_ok_def)
  next
    case (Suc n)
    then obtain ks kss' where kss: "kss = ks # kss'" "n \<le> length kss'" by (cases kss) auto
    let ?t = "game_tick_timer_cb (press ks s)"
    have t: "game_ok ?t" using Suc.prems(1) by (simp add: game_tick_ok)
    consider "sent_up ?t" | "ball_y ?t = ball_y s + 3 / 2" "ball_dy ?t = 3 / 2"
      using falling_step [of "press ks s"] Suc.prems by auto
    then show ?case
    proof cases
      case 1
      then show ?thesis using kss(1) by (intro exI [of _ 1]) simp
    next
      case 2
      have "160 \<le> ball_y ?t + 3 / 2 * of_nat n"
        using 2(1) Suc.prems(4) by (simp add: distrib_left)
      then obtain k where "k \<le> n" "sent_up (play (take k kss') ?t)"
        using Suc.IH [OF t _ 2(2) _ kss(2)] 2(1) Suc.prems(2) by auto
      then show ?thesis using kss(1) by (intro exI [of _ "Suc k"]) simp
    qed
  qed
  moreover have "ball_dy s = 3 / 2"
    using assms(1,3) by (auto simp: game_ok_def ball_in_def y_ok_def)
  ultimately show ?thesis
    using assms(1,2,4) by simp
qed

lemma falling_ball_returns_witness:
  "\<exists>k \<le> 75. sent_up (play (take k (replicate 80 [(True, KEY_LEFT)])) ((init_brick_breaker game_start)\<lparr>ball_y := 60, ball_dy := 3 / 2\<rparr>))"
proof -
  let ?s = "(init_brick_breaker game_start)\<lparr>ball_y := 60, ball_dy := 3 / 2\<rparr>"
  have "game_ok (init_brick_breaker game_start)"
    using init_ok [OF start_ok] by blast
  then have "game_ok ?s"
    by (simp add: game_ok_def ball_in_def y_ok_def paddle_ok_def board_ok_def)
  then show ?thesis
    using falling_ball_returns [of ?s "replicate 80 [(True, KEY_LEFT)]"] by simp
qed

section \<open>Two rows at once\<close>

text \<open>
  The direction is turned once for every row that has a brick hit, so a ball that touches bricks of two rows in the same
  tick removes both and flies on as if it had hit none.
\<close>

lemma bounce_parity:
  "ball_dy (hit_bricks s) =
     (if even (length (filter (row_hit (ball_x s) (ball_y s)) (bricks s))) then ball_dy s else - ball_dy s)"
proof -
  obtain dy rows where "hit_rows (ball_x s) (ball_y s) (bricks s) (ball_dy s) = (dy, rows)"
    by (cases "hit_rows (ball_x s) (ball_y s) (bricks s) (ball_dy s)")
  then show ?thesis
    using hit_rows_cases by (simp add: hit_bricks_def)
qed

lemma two_rows_cancel:
  "ball_dy (hit_bricks ((init_brick_breaker game_start)\<lparr>ball_y := 39\<rparr>)) = ball_dy game_start"
  "map (map bk_active) (bricks (hit_bricks ((init_brick_breaker game_start)\<lparr>ball_y := 39\<rparr>))) =
     [replicate 5 True, replicate 5 True, [True, True, False, True, True], [True, True, False, True, True]]"
  by (simp_all add: init_brick_breaker_def show_game_def game_start_def hit_bricks_def new_bricks_def new_brick_def start_x_def start_y_def
      touches_def game_consts upt_rec numeral_eq_Suc)

end
