(* ===== verification/Common_Apis.thy ===== *)
theory Common_Apis
  imports App_Manager Calendar State_Manager Watchface_Manager Gpio_Manager Lvgl_Bridge Locks Ir_Blaster Ble_Manager
begin

text \<open>
  The interface of the applications (\<open>common_apis.c\<close>): readings of the state, and calls into the managers that are
  guarded by the permissions of the calling application. A call gets the state of the manager it goes to; \<open>watch\<close> puts
  these states together, for the statement of what an application can reach.
\<close>

section \<open>Readings\<close>

definition get_epoch_time_now :: "('h, 'z) state_sys_scheme \<Rightarrow> nat" where
  "get_epoch_time_now s = state_manager_get_epoch_time s"

definition get_date_time :: "('h, 'z) state_sys_scheme \<Rightarrow> date_time" where
  "get_date_time s = get_date_time_from_epoch (state_manager_get_epoch_time s)"

definition get_weather_day :: "('h, 'z) state_sys_scheme \<Rightarrow> hourly_weather list option" where
  "get_weather_day s = mem_read (state_manager_get_weather_today s) 0 24"

definition get_all_alarms :: "bool \<Rightarrow> bool \<Rightarrow> alarm_mgr \<Rightarrow> (nat \<times> alarm list) option" where
  "get_all_alarms take_ok buff_nonnull m = alarm_manager_get_all_alarms take_ok buff_nonnull m"

definition get_system_brightness :: "gpio_sys \<Rightarrow> nat" where
  "get_system_brightness s = gpio_manager_backlight_get_brightness s"

definition get_system_watchface_names :: "('h, 'z) wf_sys_scheme \<Rightarrow> byte list list option" where
  "get_system_watchface_names s = watchface_manager_get_all_wf_names s"

definition get_system_selected_watchface_name :: "('h, 'z) wf_sys_scheme \<Rightarrow> byte list option" where
  "get_system_selected_watchface_name s = watchface_manager_get_selected_wf_name s"

definition get_ui_inactivity_timeout :: "lvgl_thread \<Rightarrow> nat" where
  "get_ui_inactivity_timeout th = input_timeout th"

section \<open>Guarded calls\<close>

text \<open>The two early returns at the top of every guarded call.\<close>

definition permitted :: "application option \<Rightarrow> 16 word \<Rightarrow> bool" where
  "permitted req_app perm = (case req_app of None \<Rightarrow> False | Some app \<Rightarrow> check_app_permission app perm)"

definition create_new_alarm ::
  "application option \<Rightarrow> bool \<Rightarrow> nat \<Rightarrow> nat \<Rightarrow> alarm option \<Rightarrow> alarm_mgr \<Rightarrow> (bool \<times> alarm_cmd list \<times> alarm_mgr) option" where
  "create_new_alarm req_app take_ok now now2 alarmp m =
     (if \<not> permitted req_app APP_PERM_SYSTEM then Some (False, [], m)
      else alarm_manager_create_alarm take_ok now now2 alarmp m)"

definition edit_alarm_by_index ::
  "application option \<Rightarrow> (nat \<Rightarrow> bool) \<Rightarrow> (nat \<Rightarrow> nat) \<Rightarrow> int \<Rightarrow> alarm option \<Rightarrow> alarm_mgr \<Rightarrow>
   (bool \<times> alarm_cmd list \<times> alarm_mgr) option" where
  "edit_alarm_by_index req_app t n idx newp m =
     (if \<not> permitted req_app APP_PERM_SYSTEM then Some (False, [], m)
      else alarm_manager_edit_alarm (t 0) (t 1) (t 2) (t 3) (n 0) (n 1) (n 2) (n 3) (n 4) idx newp m)"

definition delete_alarm_by_index ::
  "application option \<Rightarrow> bool \<Rightarrow> nat \<Rightarrow> int \<Rightarrow> alarm_mgr \<Rightarrow> (bool \<times> alarm_cmd list \<times> alarm_mgr) option" where
  "delete_alarm_by_index req_app take_ok now idx m =
     (if \<not> permitted req_app APP_PERM_SYSTEM then Some (False, [], m)
      else alarm_manager_delete_alarm take_ok now idx m)"

text \<open>The four bytes of a date in a request, and the request.\<close>

definition date_payload :: "date_time \<Rightarrow> byte list" where
  "date_payload d = [dt_day d, dt_month d, ucast (drop_bit 8 (dt_year d)), ucast (dt_year d)]"

definition dated_weather_event :: "application \<Rightarrow> date_time \<Rightarrow> sys_event" where
  "dated_weather_event app d =
     \<lparr>ev = EVENT_BLE_REQUEST, ev_payload_len = sizeof_ble_req,
      ev_data = Data_ble_req \<lparr>req_code = DATED_WEATHER_QUERY, req_app_id = get_system_app_id app,
        req_data_len = length (date_payload d), req_data = Some (date_payload d)\<rparr>\<rparr>"

definition request_ble_resource ::
  "('h \<Rightarrow> sys_event \<Rightarrow> ('h, 'z) event_mgr_scheme \<Rightarrow> ('h, 'z) event_mgr_scheme) \<Rightarrow> application option \<Rightarrow> app_ble_req \<Rightarrow>
   date_time option \<Rightarrow> ('h, 'z) event_mgr_scheme \<Rightarrow> (bool \<times> ('h, 'z) event_mgr_scheme) option" where
  "request_ble_resource call req_app req data s =
     (if \<not> permitted req_app APP_PERM_BLE then Some (False, s)
      else case req of DATED_WEATHER_REQUEST \<Rightarrow> do {
          req_date \<leftarrow> data;
          event_publish call (Some (dated_weather_event (the req_app) req_date)) s
        })"

definition set_system_brightness ::
  "application option \<Rightarrow> (gpio_call \<Rightarrow> bool) \<Rightarrow> ('f, 'q, 'n) store_env \<Rightarrow> int \<Rightarrow> gpio_sys \<Rightarrow> ('f, 'q, 'z) runtime_scheme \<Rightarrow>
   (bool \<times> gpio_call list \<times> gpio_sys \<times> ('f, 'q, 'z) runtime_scheme) option" where
  "set_system_brightness req_app ok se percent s r =
     (if \<not> permitted req_app APP_PERM_SYSTEM then Some (False, [], s, r)
      else gpio_manager_backlight_set_brightness ok se percent s r)"

text \<open>The index is converted to eight bits on the way.\<close>

definition set_system_watchface ::
  "application option \<Rightarrow> ('f, 'q, 'n) store_env \<Rightarrow> int \<Rightarrow> ('h, 'z) wf_sys_scheme \<Rightarrow> ('f, 'q, 'y) runtime_scheme \<Rightarrow>
   (bool \<times> ('h, 'z) wf_sys_scheme \<times> ('f, 'q, 'y) runtime_scheme) option" where
  "set_system_watchface req_app se index s r =
     (if \<not> permitted req_app APP_PERM_SYSTEM then Some (False, s, r)
      else watchface_manager_select_wf se (of_int index) s r)"

definition set_ui_inactivity_timeout ::
  "application option \<Rightarrow> ('f, 'q, 'n) store_env \<Rightarrow> nat \<Rightarrow> lvgl_thread \<Rightarrow> ('f, 'q, 'z) runtime_scheme \<Rightarrow>
   (bool \<times> lvgl_thread \<times> ('f, 'q, 'z) runtime_scheme) option" where
  "set_ui_inactivity_timeout req_app se tout th r =
     (if \<not> permitted req_app APP_PERM_SYSTEM then Some (False, th, r)
      else lvgl_bridge_update_inactivity_timeout se tout th r)"

definition acquire_wakelock :: "application option \<Rightarrow> int \<Rightarrow> bool \<times> int" where
  "acquire_wakelock req_app c =
     (if \<not> permitted req_app APP_PERM_WAKELOCK then (False, c) else (True, wakelock_manager_acquire_wakelock c))"

definition release_wakelock :: "application option \<Rightarrow> int \<Rightarrow> bool \<times> int" where
  "release_wakelock req_app c =
     (if \<not> permitted req_app APP_PERM_WAKELOCK then (False, c) else (True, wakelock_manager_release_wakelock c))"

definition trigger_dfu_over_uart ::
  "('h \<Rightarrow> sys_event \<Rightarrow> ('h, 'z) event_mgr_scheme \<Rightarrow> ('h, 'z) event_mgr_scheme) \<Rightarrow> application option \<Rightarrow>
   ('h, 'z) event_mgr_scheme \<Rightarrow> (bool \<times> ('h, 'z) event_mgr_scheme) option" where
  "trigger_dfu_over_uart call req_app s =
     (if \<not> permitted req_app APP_PERM_SYSTEM then Some (False, s)
      else event_publish call (Some \<lparr>ev = EVENT_DFU_START, ev_payload_len = 0, ev_data = Data_none\<rparr>) s)"

definition send_ir_packet ::
  "application option \<Rightarrow> bool \<Rightarrow> (ir_blaster_data, 'q) queue_ops \<Rightarrow> 32 word \<Rightarrow> 16 word \<Rightarrow> 16 word \<Rightarrow> 16 word \<Rightarrow> 16 word \<Rightarrow> 16 word \<Rightarrow>
   16 word \<Rightarrow> 16 word \<Rightarrow> 16 word \<Rightarrow> 16 word \<Rightarrow> 16 word \<Rightarrow> byte \<Rightarrow> byte list option \<Rightarrow> byte \<Rightarrow> 'q ir_driver \<Rightarrow>
   (bool \<times> 'q ir_driver) option" where
  "send_ir_packet req_app malloc_ok ops freq b0_mark b0_space b1_mark b1_space h_mark h_space if_mark if_space
     g_mark g_space data_len data burst s =
     (if \<not> permitted req_app APP_PERM_SENSOR then Some (False, s)
      else ir_blaster_driver_send_data malloc_ok ops
        (Some \<lparr>burst_packets = burst, ir_payload_len = data_len, header_mark = h_mark, header_space = h_space,
           bit0_mark = b0_mark, bit0_space = b0_space, bit1_mark = b1_mark, bit1_space = b1_space,
           inter_frame_mark = if_mark, inter_frame_space = if_space, gap_mark = g_mark, gap_space = g_space,
           frequency = freq, payload_data = data\<rparr>) s)"

section \<open>What an application can reach\<close>

record ('h, 'f, 'q, 'x) watch =
  wt_alarms :: alarm_mgr
  wt_gpio :: gpio_sys
  wt_rt :: "('f, 'q) runtime"
  wt_sys :: "'h wf_sys"
  wt_thread :: lvgl_thread
  wt_wake :: int
  wt_ir :: "'x ir_driver"
  wt_alarm_cmds :: "alarm_cmd list"
  wt_gpio_cmds :: "gpio_call list"

text \<open>The environment: outcomes of takes, clock readings, the storage, the PWM, the subscribers and the queue of the IR driver.\<close>

record ('h, 'f, 'q, 'n, 'x) api_env =
  ae_take :: "nat \<Rightarrow> bool"
  ae_clock :: "nat \<Rightarrow> nat"
  ae_store :: "('f, 'q, 'n) store_env"
  ae_pwm :: "gpio_call \<Rightarrow> bool"
  ae_call :: "'h \<Rightarrow> sys_event \<Rightarrow> 'h wf_sys \<Rightarrow> 'h wf_sys"
  ae_ir :: "(ir_blaster_data, 'x) queue_ops"
  ae_malloc :: bool

datatype api_call =
    Api_create_alarm "alarm option" | Api_edit_alarm int "alarm option" | Api_delete_alarm int
  | Api_ble_request app_ble_req "date_time option" | Api_brightness int | Api_watchface int | Api_timeout nat
  | Api_acquire_wakelock | Api_release_wakelock | Api_dfu | Api_send_ir ir_blaster_data

primrec api_exec ::
  "('h, 'f, 'q, 'n, 'x) api_env \<Rightarrow> application option \<Rightarrow> api_call \<Rightarrow> ('h, 'f, 'q, 'x) watch \<Rightarrow>
   (bool \<times> ('h, 'f, 'q, 'x) watch) option" where
  "api_exec e app (Api_create_alarm a) w =
     map_option (\<lambda>(ok, cs, m). (ok, w\<lparr>wt_alarms := m, wt_alarm_cmds := wt_alarm_cmds w @ cs\<rparr>))
       (create_new_alarm app (ae_take e 0) (ae_clock e 0) (ae_clock e 1) a (wt_alarms w))"
| "api_exec e app (Api_edit_alarm i a) w =
     map_option (\<lambda>(ok, cs, m). (ok, w\<lparr>wt_alarms := m, wt_alarm_cmds := wt_alarm_cmds w @ cs\<rparr>))
       (edit_alarm_by_index app (ae_take e) (ae_clock e) i a (wt_alarms w))"
| "api_exec e app (Api_delete_alarm i) w =
     map_option (\<lambda>(ok, cs, m). (ok, w\<lparr>wt_alarms := m, wt_alarm_cmds := wt_alarm_cmds w @ cs\<rparr>))
       (delete_alarm_by_index app (ae_take e 0) (ae_clock e 0) i (wt_alarms w))"
| "api_exec e app (Api_ble_request req d) w =
     map_option (\<lambda>(ok, s). (ok, w\<lparr>wt_sys := s\<rparr>)) (request_ble_resource (ae_call e) app req d (wt_sys w))"
| "api_exec e app (Api_brightness p) w =
     map_option (\<lambda>(ok, cs, g, r). (ok, w\<lparr>wt_gpio := g, wt_rt := r, wt_gpio_cmds := wt_gpio_cmds w @ cs\<rparr>))
       (set_system_brightness app (ae_pwm e) (ae_store e) p (wt_gpio w) (wt_rt w))"
| "api_exec e app (Api_watchface i) w =
     map_option (\<lambda>(ok, s, r). (ok, w\<lparr>wt_sys := s, wt_rt := r\<rparr>)) (set_system_watchface app (ae_store e) i (wt_sys w) (wt_rt w))"
| "api_exec e app (Api_timeout t) w =
     map_option (\<lambda>(ok, th, r). (ok, w\<lparr>wt_thread := th, wt_rt := r\<rparr>))
       (set_ui_inactivity_timeout app (ae_store e) t (wt_thread w) (wt_rt w))"
| "api_exec e app Api_acquire_wakelock w = (let (ok, c) = acquire_wakelock app (wt_wake w) in Some (ok, w\<lparr>wt_wake := c\<rparr>))"
| "api_exec e app Api_release_wakelock w = (let (ok, c) = release_wakelock app (wt_wake w) in Some (ok, w\<lparr>wt_wake := c\<rparr>))"
| "api_exec e app Api_dfu w = map_option (\<lambda>(ok, s). (ok, w\<lparr>wt_sys := s\<rparr>)) (trigger_dfu_over_uart (ae_call e) app (wt_sys w))"
| "api_exec e app (Api_send_ir d) w =
     map_option (\<lambda>(ok, s). (ok, w\<lparr>wt_ir := s\<rparr>))
       (send_ir_packet app (ae_malloc e) (ae_ir e) (frequency d) (bit0_mark d) (bit0_space d) (bit1_mark d) (bit1_space d)
         (header_mark d) (header_space d) (inter_frame_mark d) (inter_frame_space d) (gap_mark d) (gap_space d)
         (ir_payload_len d) (payload_data d) (burst_packets d) (wt_ir w))"

primrec api_run ::
  "('h, 'f, 'q, 'n, 'x) api_env \<Rightarrow> application option \<Rightarrow> api_call list \<Rightarrow> ('h, 'f, 'q, 'x) watch \<Rightarrow>
   (bool list \<times> ('h, 'f, 'q, 'x) watch) option" where
  "api_run e app [] w = Some ([], w)"
| "api_run e app (c # cs) w = do { (ok, w1) \<leftarrow> api_exec e app c w; (oks, w2) \<leftarrow> api_run e app cs w1; Some (ok # oks, w2) }"

text \<open>The permission a call asks for and the parts of the watch it can change.\<close>

primrec call_perm :: "api_call \<Rightarrow> 16 word" where
  "call_perm (Api_create_alarm a) = APP_PERM_SYSTEM"
| "call_perm (Api_edit_alarm i a) = APP_PERM_SYSTEM"
| "call_perm (Api_delete_alarm i) = APP_PERM_SYSTEM"
| "call_perm (Api_ble_request req d) = APP_PERM_BLE"
| "call_perm (Api_brightness p) = APP_PERM_SYSTEM"
| "call_perm (Api_watchface i) = APP_PERM_SYSTEM"
| "call_perm (Api_timeout t) = APP_PERM_SYSTEM"
| "call_perm Api_acquire_wakelock = APP_PERM_WAKELOCK"
| "call_perm Api_release_wakelock = APP_PERM_WAKELOCK"
| "call_perm Api_dfu = APP_PERM_SYSTEM"
| "call_perm (Api_send_ir d) = APP_PERM_SENSOR"

datatype part = Part_alarms | Part_backlight | Part_storage | Part_bus | Part_timeout | Part_wakelock | Part_infrared

primrec part_same :: "part \<Rightarrow> ('h, 'f, 'q, 'x) watch \<Rightarrow> ('h, 'f, 'q, 'x) watch \<Rightarrow> bool" where
  "part_same Part_alarms w v \<longleftrightarrow> wt_alarms v = wt_alarms w \<and> wt_alarm_cmds v = wt_alarm_cmds w"
| "part_same Part_backlight w v \<longleftrightarrow> wt_gpio v = wt_gpio w \<and> wt_gpio_cmds v = wt_gpio_cmds w"
| "part_same Part_storage w v \<longleftrightarrow> wt_rt v = wt_rt w"
| "part_same Part_bus w v \<longleftrightarrow> wt_sys v = wt_sys w"
| "part_same Part_timeout w v \<longleftrightarrow> wt_thread v = wt_thread w"
| "part_same Part_wakelock w v \<longleftrightarrow> wt_wake v = wt_wake w"
| "part_same Part_infrared w v \<longleftrightarrow> wt_ir v = wt_ir w"

primrec reaches :: "api_call \<Rightarrow> part list" where
  "reaches (Api_create_alarm a) = [Part_alarms]"
| "reaches (Api_edit_alarm i a) = [Part_alarms]"
| "reaches (Api_delete_alarm i) = [Part_alarms]"
| "reaches (Api_ble_request req d) = [Part_bus]"
| "reaches (Api_brightness p) = [Part_backlight, Part_storage]"
| "reaches (Api_watchface i) = [Part_bus, Part_storage]"
| "reaches (Api_timeout t) = [Part_timeout, Part_storage]"
| "reaches Api_acquire_wakelock = [Part_wakelock]"
| "reaches Api_release_wakelock = [Part_wakelock]"
| "reaches Api_dfu = [Part_bus]"
| "reaches (Api_send_ir d) = [Part_infrared]"

lemmas guarded_calls = create_new_alarm_def edit_alarm_by_index_def delete_alarm_by_index_def request_ble_resource_def
  set_system_brightness_def set_system_watchface_def set_ui_inactivity_timeout_def acquire_wakelock_def release_wakelock_def
  trigger_dfu_over_uart_def send_ir_packet_def

lemma refused: "\<not> permitted app (call_perm c) \<Longrightarrow> api_exec e app c w = Some (False, w)"
  by (cases c) (simp_all add: guarded_calls)

lemma part_same_refl: "part_same p w w"
  by (cases p) simp_all

lemma part_same_trans: "part_same p u v \<Longrightarrow> part_same p v w \<Longrightarrow> part_same p u w"
  by (cases p) simp_all

lemma reach_only:
  assumes "api_exec e app c w = Some (ok, w')" "p \<notin> set (reaches c)"
  shows "part_same p w w'"
  using assms by (cases c; cases p) (auto simp: Let_def split: prod.splits)

text \<open>
  C29: applications reach what they have a permission for. Whatever calls an application makes, a call it has no
  permission for reports failure, and a part of the watch (alarms, backlight, storage, event bus, screen timeout, wake
  lock, infrared) is changed only when one of the calls that reach this part was made with its permission.
\<close>

theorem api_needs_permission:
  assumes "api_run e app calls w = Some (oks, w')"
  shows "length oks = length calls \<and> (\<forall>i < length calls. oks ! i \<longrightarrow> permitted app (call_perm (calls ! i))) \<and>
     (\<forall>p. \<not> part_same p w w' \<longrightarrow> (\<exists>c \<in> set calls. p \<in> set (reaches c) \<and> permitted app (call_perm c)))"
  using assms
proof (induction calls arbitrary: w oks)
  case (Cons c cs)
  obtain ok w1 oks1 where c: "api_exec e app c w = Some (ok, w1)" "api_run e app cs w1 = Some (oks1, w')" "oks = ok # oks1"
    using Cons.prems by (auto simp: bind_eq_Some_conv)
  note ih = Cons.IH [OF c(2)]
  have ok: "ok \<longrightarrow> permitted app (call_perm c)"
    using refused [of app c e w] c(1) by auto
  have first: "part_same p w w1 \<or> p \<in> set (reaches c) \<and> permitted app (call_perm c)" for p
    using refused [of app c e w] reach_only [OF c(1)] c(1) part_same_refl [of p w] by (cases "permitted app (call_perm c)") auto
  have "\<exists>c \<in> set (c # cs). p \<in> set (reaches c) \<and> permitted app (call_perm c)" if "\<not> part_same p w w'" for p
    using first [of p] ih that part_same_trans [of p w w1 w'] by auto
  moreover have "\<forall>i < length (c # cs). oks ! i \<longrightarrow> permitted app (call_perm ((c # cs) ! i))"
    using ih ok c(3) by (auto simp: nth_Cons split: nat.splits)
  ultimately show ?case
    using ih c(3) by simp
qed (simp add: part_same_refl)

section \<open>A request on its way to the phone\<close>

text \<open>The bus with the link as its state, and the subscriber of \<open>EVENT_BLE_REQUEST\<close> under the identity \<open>hb\<close>.\<close>

record 'h phone_sys = "'h event_mgr" +
  ps_link :: ble_link

definition ble_subscriber :: "'h \<Rightarrow> 'h \<Rightarrow> sys_event \<Rightarrow> 'h phone_sys \<Rightarrow> 'h phone_sys" where
  "ble_subscriber hb h e s =
     (if h = hb then case submit_ble_request (Some e) (ps_link s) of Some b \<Rightarrow> s\<lparr>ps_link := b\<rparr> | None \<Rightarrow> s else s)"

lemma date_payload_year:
  "256 * unat (date_payload d ! 2) + unat (date_payload d ! 3) = unat (dt_year d)"
proof -
  have "unat (ucast (drop_bit 8 (dt_year d)) :: byte) = unat (dt_year d) div 256"
    using unat_u16_less [of "dt_year d"] by (simp add: unsigned_ucast_eq take_bit_eq_mod drop_bit_eq_div unat_div less_mult_imp_div_less)
  moreover have "unat (ucast (dt_year d) :: byte) = unat (dt_year d) mod 256"
    by (simp add: unsigned_ucast_eq take_bit_eq_mod)
  ultimately show ?thesis
    by (simp add: date_payload_def)
qed

text \<open>
  C30: a weather request reaches the phone. With the Bluetooth manager subscribed, the request of an application that
  has the permission ends as one message in the transmit queue: it asks for dated weather, names the application by its
  system id, and carries the day, the month and both bytes of the year.
\<close>

theorem weather_request_reaches_phone:
  assumes "check_app_permission app APP_PERM_BLE" and "em_ready s" and "subs s EVENT_BLE_REQUEST = [hb]"
    and "ble_fifo_ok (bl_fifo (ps_link s))"
  shows "\<exists>m s'. request_ble_resource (ble_subscriber hb) (Some app) DATED_WEATHER_REQUEST (Some d) s = Some (True, s') \<and>
     ble_items BLE_TX (bl_fifo (ps_link s')) = last_n BLE_FIFO_SIZE (ble_items BLE_TX (bl_fifo (ps_link s)) @ [m]) \<and>
     h_opcode (m_hdr m) = BLE_OP_DATED_WEATHER_QUERY \<and> h_req_app (m_hdr m) = get_system_app_id app \<and>
     length (msg_data m) = 4 \<and> msg_data m ! 0 = dt_day d \<and> msg_data m ! 1 = dt_month d \<and>
     256 * unat (msg_data m ! 2) + unat (msg_data m ! 3) = unat (dt_year d)"
proof -
  let ?req = "\<lparr>req_code = DATED_WEATHER_QUERY, req_app_id = get_system_app_id app, req_data_len = length (date_payload d),
    req_data = Some (date_payload d)\<rparr>"
  let ?e = "dated_weather_event app d"
  have "req_ok ?req" by (simp add: req_ok_def date_payload_def ble_consts)
  then obtain m q where m: "handle_ble_request (Some ?req) (bl_fifo (ps_link s)) = Some (True, q)" "ble_fifo_ok q"
    "ble_items BLE_TX q = last_n BLE_FIFO_SIZE (ble_items BLE_TX (bl_fifo (ps_link s)) @ [m])"
    "m_hdr m = \<lparr>h_opcode = req_opcode (req_code ?req), h_req_app = req_app_id ?req, h_len = byte_of (length (req_bytes ?req))\<rparr>"
    "msg_data m = req_bytes ?req"
    using handle_ble_request_ok [OF assms(4), of ?req] by blast
  have "ble_subscriber hb hb ?e s = s\<lparr>ps_link := (ps_link s)\<lparr>bl_fifo := q\<rparr>\<rparr>"
    using m(1) by (simp add: ble_subscriber_def submit_ble_request_def dated_weather_event_def)
  moreover have "em_subscriptions (ble_subscriber hb h e t) = em_subscriptions t" for h e t
    by (simp add: ble_subscriber_def split: option.split)
  then have "publish_loop (ble_subscriber hb) ?e 0 s = Some (fold (\<lambda>h. ble_subscriber hb h ?e) (subs s (ev ?e)) s)"
    using publish_loop_fold [of s ?e "ble_subscriber hb" 0] assms(2) by (simp add: em_ready_def dated_weather_event_def)
  ultimately have "request_ble_resource (ble_subscriber hb) (Some app) DATED_WEATHER_REQUEST (Some d) s =
      Some (True, s\<lparr>ps_link := (ps_link s)\<lparr>bl_fifo := q\<rparr>\<rparr>)"
    using assms(1-3) by (simp add: request_ble_resource_def permitted_def event_publish_def em_ready_def dated_weather_event_def)
  moreover have "msg_data m = date_payload d" "h_opcode (m_hdr m) = BLE_OP_DATED_WEATHER_QUERY" "h_req_app (m_hdr m) = get_system_app_id app"
    using m(4,5) by (simp_all add: req_bytes_def req_opcode_def)
  ultimately show ?thesis
    using m(3) date_payload_year [of d] by (intro exI [of _ m]) (simp add: date_payload_def)
qed

section \<open>The index of a watchface\<close>

text \<open>The index is an \<open>int\<close> of the caller and a byte for the manager: indices that differ by 256 select the same watchface.\<close>

lemma watchface_index_wraps: "set_system_watchface app se (i + 256) s r = set_system_watchface app se i s r"
proof -
  have "(of_int (i + 256) :: byte) = of_int i"
    by simp
  then show ?thesis
    by (simp only: set_system_watchface_def)
qed

section \<open>Witnesses\<close>

definition ex_stopwatch_app :: application where
  "ex_stopwatch_app = ex_app\<lparr>app_perms := APP_PERM_WAKELOCK\<rparr>"

definition ex_api_env :: "(nat, nat, nat \<times> nat work_item list, map_flash, nat \<times> ir_blaster_data list) api_env" where
  "ex_api_env = \<lparr>ae_take = (\<lambda>i. True), ae_clock = (\<lambda>i. 1000), ae_store = ex_store, ae_pwm = (\<lambda>c. True), ae_call = (\<lambda>h e s. s),
     ae_ir = list_queue, ae_malloc = True\<rparr>"

definition ex_watch :: "(nat, nat, nat \<times> nat work_item list, nat \<times> ir_blaster_data list) watch" where
  "ex_watch = \<lparr>wt_alarms = \<lparr>am_alarms = None, am_timer = True, am_mutex = True\<rparr>, wt_gpio = ex_gpio, wt_rt = rt_static,
     wt_sys = ex_wf_sys, wt_thread = lv_thread ex_lvgl, wt_wake = 0, wt_ir = ex_ir_driver, wt_alarm_cmds = [], wt_gpio_cmds = []\<rparr>"

text \<open>The stopwatch takes the wake lock and tries to set the brightness and to start an update.\<close>

theorem api_needs_permission_witness:
  "api_run ex_api_env (Some ex_stopwatch_app) [Api_acquire_wakelock, Api_brightness 5, Api_dfu] ex_watch =
     Some ([True, False, False], ex_watch\<lparr>wt_wake := 1\<rparr>) \<and>
   permitted (Some ex_stopwatch_app) (call_perm Api_acquire_wakelock) \<and>
   (\<exists>c \<in> set [Api_acquire_wakelock, Api_brightness 5, Api_dfu]. Part_wakelock \<in> set (reaches c) \<and> permitted (Some ex_stopwatch_app) (call_perm c))"
proof -
  have p: "permitted (Some ex_stopwatch_app) APP_PERM_WAKELOCK" "\<not> permitted (Some ex_stopwatch_app) APP_PERM_SYSTEM"
    by (simp_all add: permitted_def check_app_permission_def ex_stopwatch_app_def ex_app_def APP_PERM_WAKELOCK_def APP_PERM_SYSTEM_def
        APP_FLAG_SYSTEM_def APP_PERM_ALL_def)
  have no: "api_exec ex_api_env (Some ex_stopwatch_app) (Api_brightness 5) w = Some (False, w)"
    "api_exec ex_api_env (Some ex_stopwatch_app) Api_dfu w = Some (False, w)" for w
    using p(2) refused [of "Some ex_stopwatch_app" "Api_brightness 5" ex_api_env w] refused [of "Some ex_stopwatch_app" Api_dfu ex_api_env w]
    by simp_all
  have r: "api_run ex_api_env (Some ex_stopwatch_app) [Api_acquire_wakelock, Api_brightness 5, Api_dfu] ex_watch =
     Some ([True, False, False], ex_watch\<lparr>wt_wake := 1\<rparr>)"
    using p(1) no
    by (simp add: acquire_wakelock_def wakelock_manager_acquire_wakelock_def ex_watch_def s32_id del: api_exec.simps(5) api_exec.simps(10))
  have "\<not> part_same Part_wakelock ex_watch (ex_watch\<lparr>wt_wake := 1\<rparr>)"
    by (simp add: ex_watch_def)
  then show ?thesis
    using api_needs_permission [OF r] r p(1) by auto
qed

theorem weather_request_reaches_phone_witness:
  "\<exists>s m s'. request_ble_resource (ble_subscriber (7 :: nat)) (Some ex_app) DATED_WEATHER_REQUEST
      (Some \<lparr>dt_day = 9, dt_month = 3, dt_year = 2027, dt_hr = 0, dt_min = 0, dt_sec = 0, d_week = 0\<rparr>) s = Some (True, s') \<and>
     ble_items BLE_TX (bl_fifo (ps_link s')) = [m] \<and> h_req_app (m_hdr m) = 14 \<and> 256 * unat (msg_data m ! 2) + unat (msg_data m ! 3) = 2027"
proof -
  define s0 :: "nat phone_sys" where "s0 = \<lparr>em_subscriptions = (replicate 14 empty_subscription)
     [8 := \<lparr>es_handlers = [Some 7] @ replicate 7 None, es_count = 1\<rparr>], em_initialized = True,
     ps_link = ble_link_start\<lparr>bl_fifo := ble_fifo_start\<rparr>\<rparr>"
  have "sub_ok \<lparr>es_handlers = [Some (7 :: nat)] @ replicate 7 None, es_count = 1\<rparr>" "sub_ok (empty_subscription :: nat event_subscription)"
    unfolding sub_ok_def by (auto simp: MAX_EVENT_SUBSCRIBERS_def empty_subscription_def intro!: exI [of _ "[7]"])
  then have s: "em_ready s0" "subs s0 EVENT_BLE_REQUEST = [7]" "ble_fifo_ok (bl_fifo (ps_link s0))"
    using ble_fifo_start_ok
    by (auto simp: em_ready_def em_ok_def s0_def subs_def dest!: set_update_subset_insert [THEN subsetD])
  have app: "check_app_permission ex_app APP_PERM_BLE" "get_system_app_id ex_app = 14"
    by (simp_all add: check_app_permission_def ex_app_def APP_PERM_BLE_def get_system_app_id_def MAX_SYSTEM_APPS_def MAX_WATCHFACE_IDS_def)
  have "ble_items BLE_TX (bl_fifo (ps_link s0)) = []"
    by (simp add: s0_def ble_fifo_start_items)
  then show ?thesis
    using weather_request_reaches_phone [OF app(1) s, of "\<lparr>dt_day = 9, dt_month = 3, dt_year = 2027, dt_hr = 0, dt_min = 0, dt_sec = 0, d_week = 0\<rparr>"]
      app(2) by (auto simp: ble_consts)
qed

end
