(* ===== verification/Ui_Kit.thy ===== *)
theory Ui_Kit
  imports Widgets Input_Keys
begin

text \<open>
  The shared building blocks of the applications' screens (\<open>common_ui\<close>): dividers, the cards of a list view, and the popup
  list with its registry. Sizes, styles and texts are left out; what is kept is which objects exist, and the registry, which
  every application keeps in a static variable and which must be clean before the popup can be opened again.
\<close>

section \<open>Dividers and cards\<close>

definition draw_horizoantal_divider :: "'w lv_ops \<Rightarrow> nat \<Rightarrow> 'w \<Rightarrow> 'w option" where
  "draw_horizoantal_divider lv parent w = map_option snd (lv_obj_create lv parent w)"

text \<open>A card with its title and, for an item that has a value, its value label.\<close>

definition draw_listview_item :: "'w lv_ops \<Rightarrow> nat \<Rightarrow> bool \<Rightarrow> 'w \<Rightarrow> (nat option \<times> 'w) option" where
  "draw_listview_item lv base_obj has_value w =
     do {
       (card, w1) \<leftarrow> lv_obj_create lv base_obj w;
       (title, w2) \<leftarrow> lv_obj_create lv card w1;
       if has_value then map_option (\<lambda>(v, w3). (Some v, w3)) (lv_obj_create lv card w2) else Some (None, w2)
     }"

text \<open>A key on the title of an item: whether its callback is called; the enter key does not bubble.\<close>

definition onclick_label_cb :: "lv_key \<Rightarrow> bool \<Rightarrow> bool \<times> bool" where
  "onclick_label_cb key has_cb = (key = LV_KEY_ENTER \<and> has_cb, key = LV_KEY_ENTER)"

section \<open>The popup list\<close>

record popup_registry =
  popup :: "nat option"
  item_data_array :: "nat option"
  item_count :: nat

definition popup_free :: popup_registry where
  "popup_free = \<lparr>popup = None, item_data_array = None, item_count = 0\<rparr>"

text \<open>The callback of the deletion of the popup object.\<close>

definition delete_popup_cb :: "popup_registry \<Rightarrow> popup_registry" where
  "delete_popup_cb reg =
     (if item_data_array reg \<noteq> None then reg\<lparr>item_data_array := None, item_count := 0, popup := None\<rparr> else reg)"

definition draw_popup :: "'w lv_ops \<Rightarrow> nat \<Rightarrow> 'w \<Rightarrow> (nat \<times> 'w) option" where
  "draw_popup lv parent w = lv_obj_create lv parent w"

definition dismiss_popup :: "'w lv_ops \<Rightarrow> popup_registry \<Rightarrow> 'w \<Rightarrow> (popup_registry \<times> 'w) option" where
  "dismiss_popup lv reg w =
     do {
       p \<leftarrow> popup reg;
       w1 \<leftarrow> lv_obj_delete lv p w;
       Some (delete_popup_cb reg, w1)
     }"

primrec draw_popup_items :: "'w lv_ops \<Rightarrow> nat \<Rightarrow> nat \<Rightarrow> 'w \<Rightarrow> 'w option" where
  "draw_popup_items lv p 0 w = Some w"
| "draw_popup_items lv p (Suc n) w =
     do {
       (v, w1) \<leftarrow> draw_listview_item lv p False w;
       w2 \<leftarrow> draw_horizoantal_divider lv p w1;
       draw_popup_items lv p n w2
     }"

definition create_popup_listview ::
  "'w lv_ops \<Rightarrow> bool \<Rightarrow> nat option \<Rightarrow> nat \<Rightarrow> popup_registry \<Rightarrow> 'w \<Rightarrow> (popup_registry \<times> 'w) option" where
  "create_popup_listview lv calloc_ok parent_container n reg w =
     (case parent_container of
        None \<Rightarrow> None
      | Some parent \<Rightarrow>
          if popup reg \<noteq> None \<or> item_data_array reg \<noteq> None \<or> n = 0 then None
          else if \<not> calloc_ok then Some (reg\<lparr>item_count := n\<rparr>, w)
          else do {
            (p, w1) \<leftarrow> draw_popup lv parent w;
            w2 \<leftarrow> draw_horizoantal_divider lv p w1;
            w3 \<leftarrow> draw_popup_items lv p n w2;
            Some (\<lparr>popup = Some p, item_data_array = Some n, item_count = n\<rparr>, w3)
          })"

text \<open>Selecting an item runs the callback of the application, then closes the popup.\<close>

definition select_item_cb ::
  "'w lv_ops \<Rightarrow> (nat \<Rightarrow> 'w \<times> 's \<Rightarrow> ('w \<times> 's) option) option \<Rightarrow> nat \<Rightarrow> popup_registry \<Rightarrow> 'w \<times> 's \<Rightarrow> (popup_registry \<times> 'w \<times> 's) option" where
  "select_item_cb lv select_cb selected_index reg ws =
     do {
       (w1, s1) \<leftarrow> (case select_cb of None \<Rightarrow> Some ws | Some cb \<Rightarrow> cb selected_index ws);
       (reg1, w2) \<leftarrow> dismiss_popup lv reg w1;
       Some (reg1, w2, s1)
     }"

text \<open>A key that reaches the popup; \<open>on_popup\<close> tells whether the popup itself has the focus. The flag is whether it stops.\<close>

definition popup_event_cb :: "'w lv_ops \<Rightarrow> bool \<Rightarrow> lv_key \<Rightarrow> popup_registry \<Rightarrow> 'w \<Rightarrow> (bool \<times> popup_registry \<times> 'w) option" where
  "popup_event_cb lv on_popup key reg w =
     (if key = LV_KEY_ENTER \<or> \<not> on_popup then Some (False, reg, w)
      else if key = LV_KEY_ESC then map_option (Pair True) (dismiss_popup lv reg w)
      else Some (True, reg, w))"

section \<open>Drawing\<close>

lemma divider_yields:
  assumes "lv_spec lv par" "extends par w0 w" "alive par w p"
    and "\<And>w'. extends par w0 w' \<Longrightarrow> extends par w w' \<Longrightarrow> Q w'"
  shows "yields (draw_horizoantal_divider lv p w) Q"
  unfolding draw_horizoantal_divider_def using assms(4) by (auto intro: create_yields [OF assms(1-3)])

lemma listview_item_yields:
  assumes "lv_spec lv par" "extends par w0 w" "alive par w p"
    and "\<And>v w'. extends par w0 w' \<Longrightarrow> extends par w w' \<Longrightarrow> (v \<noteq> None) = has_value \<Longrightarrow> Q (v, w')"
  shows "yields (draw_listview_item lv p has_value w) Q"
proof -
  have "yields (lv_obj_create lv p w) (\<lambda>(card, w1). yields (lv_obj_create lv card w1) (\<lambda>(title, w2).
      yields (if has_value then map_option (\<lambda>(v, w3). (Some v, w3)) (lv_obj_create lv card w2) else Some (None, w2)) Q))"
  proof (rule create_yields [OF assms(1-3)], unfold prod.case)
    fix card w1
    assume 1: "extends par w0 w1" "extends par w w1" "alive par w1 card"
    show "yields (lv_obj_create lv card w1) (\<lambda>(title, w2).
      yields (if has_value then map_option (\<lambda>(v, w3). (Some v, w3)) (lv_obj_create lv card w2) else Some (None, w2)) Q)"
    proof (rule create_yields [OF assms(1) 1(1,3)], unfold prod.case)
      fix title w2
      assume 2: "extends par w0 w2" "extends par w1 w2"
      have "yields (lv_obj_create lv card w2) (\<lambda>(v, w3). Q (Some v, w3))" if has_value
        using assms(4) that extends_trans [OF extends_trans [OF 1(2) 2(2)]]
        by (auto intro: create_yields [OF assms(1) 2(1) extends_alive [OF 2(2) 1(3)]])
      then show "yields (if has_value then map_option (\<lambda>(v, w3). (Some v, w3)) (lv_obj_create lv card w2) else Some (None, w2)) Q"
        using assms(4) [OF 2(1) extends_trans [OF 1(2) 2(2)], of None] by (auto simp: case_prod_unfold)
    qed
  qed
  then show ?thesis
    by (simp add: draw_listview_item_def case_prod_unfold)
qed

lemma popup_items_yield:
  assumes "lv_spec lv par" "extends par w0 w" "alive par w p" "\<And>w'. extends par w0 w' \<Longrightarrow> extends par w w' \<Longrightarrow> Q w'"
  shows "yields (draw_popup_items lv p n w) Q"
  using assms(2,3,4)
proof (induction n arbitrary: w)
  case 0
  then show ?case using extends_refl [OF extends_wf [OF 0(1)]] by simp
next
  case (Suc n)
  have "yields (draw_listview_item lv p False w) (\<lambda>(v, w1). yields (draw_horizoantal_divider lv p w1) (\<lambda>w2. yields (draw_popup_items lv p n w2) Q))"
  proof (rule listview_item_yields [OF assms(1) Suc.prems(1,2)], unfold prod.case)
    fix w1
    assume 1: "extends par w0 w1" "extends par w w1"
    show "yields (draw_horizoantal_divider lv p w1) (\<lambda>w2. yields (draw_popup_items lv p n w2) Q)"
    proof (rule divider_yields [OF assms(1) 1(1) extends_alive [OF 1(2) Suc.prems(2)]])
      fix w2
      assume 2: "extends par w0 w2" "extends par w1 w2"
      show "yields (draw_popup_items lv p n w2) Q"
        using Suc.IH [OF 2(1) extends_alive [OF extends_trans [OF 1(2) 2(2)] Suc.prems(2)]] Suc.prems(3)
          extends_trans [OF extends_trans [OF 1(2) 2(2)]] by blast
    qed
  qed
  then show ?case by (simp add: case_prod_unfold)
qed

lemma divider_drawn:
  assumes "lv_spec lv par" "drawn par w0 C w" "p \<in> fst ` set C \<or> alive par w0 p" "\<And>w'. drawn par w0 C w' \<Longrightarrow> Q w'"
  shows "yields (draw_horizoantal_divider lv p w) Q"
  using assms(2) drawn_extends [OF assms(2)] assms(4)
  by (auto simp: drawn_def intro: divider_yields [OF assms(1) _ drawn_alive [OF assms(2,3)]])

lemma item_drawn:
  assumes "lv_spec lv par" "drawn par w0 C w" "p \<in> fst ` set C \<or> alive par w0 p"
    and "\<And>v w'. drawn par w0 C w' \<Longrightarrow> (v \<noteq> None) = has_value \<Longrightarrow> Q (v, w')"
  shows "yields (draw_listview_item lv p has_value w) Q"
proof (rule listview_item_yields [OF assms(1) _ drawn_alive [OF assms(2,3)]])
  show "extends par w0 w" using assms(2) by (simp add: drawn_def)
qed (use drawn_extends [OF assms(2)] assms(4) in blast)

section \<open>The popup can be opened again\<close>

definition popup_open :: "'w lv_par \<Rightarrow> nat \<Rightarrow> popup_registry \<Rightarrow> 'w \<Rightarrow> bool" where
  "popup_open par parent reg w \<longleftrightarrow> item_data_array reg \<noteq> None \<and> (\<exists>p. popup reg = Some p \<and> child_of par w p parent)"

lemma create_popup_yields:
  assumes "lv_spec lv par" "lv_wf par w" "alive par w parent" "popup reg = None" "item_data_array reg = None" "0 < n"
  shows "yields (create_popup_listview lv True (Some parent) n reg w)
     (\<lambda>(reg', w'). extends par w w' \<and> popup_open par parent reg' w' \<and> \<not> alive par w (the (popup reg')) \<and>
       item_data_array reg' = Some n)"
proof -
  let ?Q = "\<lambda>(reg', w'). extends par w w' \<and> popup_open par parent reg' w' \<and> \<not> alive par w (the (popup reg')) \<and> item_data_array reg' = Some n"
  have "yields (lv_obj_create lv parent w) (\<lambda>(p, w1). yields (draw_horizoantal_divider lv p w1) (\<lambda>w2. yields (draw_popup_items lv p n w2)
      (\<lambda>w3. ?Q (\<lparr>popup = Some p, item_data_array = Some n, item_count = n\<rparr>, w3))))"
  proof (rule create_yields [OF assms(1) extends_refl [OF assms(2)] assms(3)], unfold prod.case)
    fix p w1
    assume 1: "extends par w w1" "child_of par w1 p parent" "alive par w1 p" "\<not> alive par w p"
    show "yields (draw_horizoantal_divider lv p w1) (\<lambda>w2. yields (draw_popup_items lv p n w2)
      (\<lambda>w3. extends par w w3 \<and> popup_open par parent \<lparr>popup = Some p, item_data_array = Some n, item_count = n\<rparr> w3 \<and>
        \<not> alive par w (the (popup \<lparr>popup = Some p, item_data_array = Some n, item_count = n\<rparr>)) \<and>
        item_data_array \<lparr>popup = Some p, item_data_array = Some n, item_count = n\<rparr> = Some n))"
    proof (rule divider_yields [OF assms(1) 1(1,3)])
      fix w2
      assume 2: "extends par w w2" "extends par w1 w2"
      show "yields (draw_popup_items lv p n w2) (\<lambda>w3. extends par w w3 \<and>
          popup_open par parent \<lparr>popup = Some p, item_data_array = Some n, item_count = n\<rparr> w3 \<and>
          \<not> alive par w (the (popup \<lparr>popup = Some p, item_data_array = Some n, item_count = n\<rparr>)) \<and>
          item_data_array \<lparr>popup = Some p, item_data_array = Some n, item_count = n\<rparr> = Some n)"
        using 1(4) extends_child [OF extends_trans [OF 2(2)] 1(2)]
        by (intro popup_items_yield [OF assms(1) 2(1) extends_alive [OF 2(2) 1(3)]]) (simp add: popup_open_def)
    qed
  qed
  then show ?thesis
    using assms(4-6) by (simp add: create_popup_listview_def draw_popup_def case_prod_unfold)
qed

text \<open>Closing the popup leaves everything outside of it alone and the registry free.\<close>

lemma dismiss_yields:
  assumes "lv_spec lv par" "lv_wf par w" "popup_open par parent reg w"
  shows "yields (dismiss_popup lv reg w)
     (\<lambda>(reg', w'). popup reg' = None \<and> item_data_array reg' = None \<and> lv_wf par w' \<and>
       (\<forall>y. \<not> below par w y (the (popup reg)) \<longrightarrow> par w' y = par w y))"
proof -
  obtain p where p: "popup reg = Some p" "child_of par w p parent" "item_data_array reg \<noteq> None"
    using assms(3) by (auto simp: popup_open_def)
  then obtain w' where "lv_obj_delete lv p w = Some w'" "lv_wf par w'" "\<And>y. \<not> below par w y p \<Longrightarrow> par w' y = par w y"
    using lv_delete_wf [OF assms(1,2)] by (metis alive_def child_of_def option.distinct(1))
  then show ?thesis
    using p by (simp add: dismiss_popup_def delete_popup_cb_def)
qed

end
