(* ===== verification/Stopwatch_App.thy ===== *)
theory Stopwatch_App
  imports Ui_Kit Common_Apis
begin

text \<open>
  The stopwatch (\<open>stopwatch_app.c\<close>): a timer of the graphics library counts in steps of 120 ms, three labels show the
  laps, and the watch is kept awake while the stopwatch runs. The texts of the labels are the numbers they are formatted
  from; a label that does not exist is \<open>None\<close>. The wake lock counter of the system is \<open>sw_wake\<close>.
\<close>

section \<open>State\<close>

definition TIMER_INTERVAL :: nat where "TIMER_INTERVAL = 120"
definition TIMER_INTERVAL_DIV_10 :: nat where "TIMER_INTERVAL_DIV_10 = TIMER_INTERVAL div 10"

type_synonym lap_text = "nat \<times> nat \<times> nat"

record 'w stopwatch =
  sw_background :: "nat option"
  lap_values :: "lap_text option list"
  start_btn_lbl :: "string option"
  time_h_lbl :: "(nat \<times> nat) option"
  time_l_lbl :: "nat option"
  n_laps :: nat
  stopwatch_timer :: bool
  elapsed_ms_div_10 :: nat
  is_wakelock_acquired :: bool
  sw_wake :: int
  sw_widgets :: 'w

text \<open>The application with the permission it declares; its number is given at registration.\<close>

definition stopwatch_app :: "byte \<Rightarrow> application" where
  "stopwatch_app n = \<lparr>app_id = n, app_perms = APP_PERM_WAKELOCK, app_name = map of_char ''Stopwatch'', app_handles = False\<rparr>"

definition lap_of :: "nat \<Rightarrow> lap_text" where
  "lap_of t = (t div (60 * 100), (t div 100) mod 60, t mod 100)"

section \<open>Callbacks\<close>

definition stopwatch_timer_cb :: "'w stopwatch \<Rightarrow> 'w stopwatch option" where
  "stopwatch_timer_cb s =
     (let t = u32 (elapsed_ms_div_10 s + TIMER_INTERVAL_DIV_10)
      in if time_l_lbl s = None \<or> time_h_lbl s = None then None
         else Some (s\<lparr>elapsed_ms_div_10 := t, time_l_lbl := Some (t mod 100), time_h_lbl := Some (t div (60 * 100), (t div 100) mod 60)\<rparr>))"

text \<open>A full list of laps drops its first one.\<close>

definition shift_laps :: "'w stopwatch \<Rightarrow> 'w stopwatch option" where
  "shift_laps s =
     (if n_laps s \<noteq> 3 then Some s
      else if None \<in> set (lap_values s) then None
      else Some (s\<lparr>lap_values := (lap_values s)[0 := lap_values s ! 1, 1 := lap_values s ! 2], n_laps := n_laps s - 1\<rparr>))"

definition set_lap :: "nat \<Rightarrow> lap_text \<Rightarrow> 'w stopwatch \<Rightarrow> 'w stopwatch option" where
  "set_lap i t s =
     (if i < length (lap_values s) \<and> lap_values s ! i \<noteq> None then Some (s\<lparr>lap_values := (lap_values s)[i := Some t]\<rparr>) else None)"

definition start_stop_btn_click_cb :: "byte \<Rightarrow> lv_key \<Rightarrow> 'w stopwatch \<Rightarrow> (bool \<times> 'w stopwatch) option" where
  "start_stop_btn_click_cb app key s =
     (if key \<noteq> LV_KEY_ENTER then Some (False, s)
      else if start_btn_lbl s = None then None
      else if \<not> stopwatch_timer s then
        if None \<in> set (lap_values s) \<or> is_wakelock_acquired s then None
        else
          let s1 = s\<lparr>stopwatch_timer := True, start_btn_lbl := Some ''Stop'', n_laps := 0,
                lap_values := map (\<lambda>_. Some (0, 0, 0)) (lap_values s)\<rparr>;
              (ok, w) = acquire_wakelock (Some (stopwatch_app app)) (sw_wake s1)
          in Some (True, s1\<lparr>sw_wake := w, is_wakelock_acquired := ok\<rparr>)
      else do {
        s0 \<leftarrow> shift_laps (s\<lparr>stopwatch_timer := False, start_btn_lbl := Some ''Start''\<rparr>);
        s1 \<leftarrow> set_lap (n_laps s0) (lap_of (elapsed_ms_div_10 s0)) s0;
        if time_l_lbl s1 = None \<or> time_h_lbl s1 = None \<or> \<not> is_wakelock_acquired s1 then None
        else
          let (ok, w) = release_wakelock (Some (stopwatch_app app)) (sw_wake s1)
          in Some (True, s1\<lparr>elapsed_ms_div_10 := 0, time_l_lbl := Some 0, time_h_lbl := Some (0, 0), sw_wake := w,
               is_wakelock_acquired := \<not> ok\<rparr>)
      })"

definition lap_btn_click_cb :: "lv_key \<Rightarrow> 'w stopwatch \<Rightarrow> (bool \<times> 'w stopwatch) option" where
  "lap_btn_click_cb key s =
     (if key \<noteq> LV_KEY_ENTER then Some (False, s)
      else if \<not> stopwatch_timer s then Some (True, s)
      else do {
        s0 \<leftarrow> shift_laps s;
        s1 \<leftarrow> set_lap (n_laps s0) (lap_of (elapsed_ms_div_10 s)) s0;
        Some (True, s1\<lparr>n_laps := n_laps s1 + 1\<rparr>)
      })"

section \<open>The screen\<close>

definition draw_listview_card :: "'w lv_ops \<Rightarrow> nat \<Rightarrow> 'w \<Rightarrow> (nat \<times> 'w) option" where
  "draw_listview_card lv base_obj w =
     do {
       (card, w1) \<leftarrow> lv_obj_create lv base_obj w;
       (label_title, w2) \<leftarrow> lv_obj_create lv card w1;
       lv_obj_create lv card w2
     }"

definition draw_stopwatch_app_ui :: "'w lv_ops \<Rightarrow> nat option \<Rightarrow> 'w stopwatch \<Rightarrow> 'w stopwatch option" where
  "draw_stopwatch_app_ui lv parentp s =
     do {
       parent \<leftarrow> parentp;
       (bg, w1) \<leftarrow> lv_obj_create lv parent (sw_widgets s);
       (time_container, w2) \<leftarrow> lv_obj_create lv bg w1;
       (time_h, w3) \<leftarrow> lv_obj_create lv time_container w2;
       (time_l, w4) \<leftarrow> lv_obj_create lv time_container w3;
       (btn_container, w5) \<leftarrow> lv_obj_create lv bg w4;
       (start_btn, w6) \<leftarrow> lv_obj_create lv btn_container w5;
       (start_lbl, w7) \<leftarrow> lv_obj_create lv start_btn w6;
       (lap_btn, w8) \<leftarrow> lv_obj_create lv btn_container w7;
       (lap_btn_lbl, w9) \<leftarrow> lv_obj_create lv lap_btn w8;
       (lap_container, w10) \<leftarrow> lv_obj_create lv bg w9;
       w11 \<leftarrow> draw_horizoantal_divider lv lap_container w10;
       (lap1, w12) \<leftarrow> draw_listview_card lv lap_container w11;
       w13 \<leftarrow> draw_horizoantal_divider lv lap_container w12;
       (lap2, w14) \<leftarrow> draw_listview_card lv lap_container w13;
       w15 \<leftarrow> draw_horizoantal_divider lv lap_container w14;
       (lap3, w16) \<leftarrow> draw_listview_card lv lap_container w15;
       w17 \<leftarrow> draw_horizoantal_divider lv lap_container w16;
       Some (s\<lparr>sw_background := Some bg, time_h_lbl := Some (0, 0), time_l_lbl := Some 0, start_btn_lbl := Some ''Start'',
          lap_values := replicate 3 (Some (0, 0, 0)), sw_widgets := w17\<rparr>)
     }"

definition delete_stopwatch_app_ui :: "'w lv_ops \<Rightarrow> byte \<Rightarrow> 'w stopwatch \<Rightarrow> 'w stopwatch option" where
  "delete_stopwatch_app_ui lv app s =
     do {
       w \<leftarrow> (case sw_background s of None \<Rightarrow> Some (sw_widgets s) | Some bg \<Rightarrow> lv_obj_delete lv bg (sw_widgets s));
       let s1 = s\<lparr>stopwatch_timer := False, sw_widgets := w, sw_background := None, start_btn_lbl := None, time_h_lbl := None,
             time_l_lbl := None, n_laps := 0, elapsed_ms_div_10 := 0, lap_values := replicate 3 None\<rparr>;
       Some (if is_wakelock_acquired s1
             then let (ok, c) = release_wakelock (Some (stopwatch_app app)) (sw_wake s1)
                  in s1\<lparr>sw_wake := c, is_wakelock_acquired := \<not> ok\<rparr>
             else s1)
     }"

section \<open>Drawing and deleting the screen\<close>

lemma card_drawn:
  assumes "lv_spec lv par" "drawn par w0 C w" "p \<in> fst ` set C \<or> alive par w0 p" "\<And>x w'. drawn par w0 C w' \<Longrightarrow> Q (x, w')"
  shows "yields (draw_listview_card lv p w) Q"
  unfolding draw_listview_card_def yields_bind case_prod_unfold
proof (rule create_drawn [OF assms(1-3)], unfold prod.sel)
  fix card w1
  assume 1: "drawn par w0 ((card, p) # C) w1"
  show "yields (lv_obj_create lv card w1) (\<lambda>r. yields (lv_obj_create lv card (snd r)) Q)"
  proof (rule create_drawn [OF assms(1) 1], simp, unfold prod.sel)
    fix title w2
    assume 2: "drawn par w0 ((title, card) # (card, p) # C) w2"
    show "yields (lv_obj_create lv card w2) Q"
    proof (rule create_drawn [OF assms(1) 2], simp)
      fix v w3
      assume "drawn par w0 ((v, card) # (title, card) # (card, p) # C) w3"
      then show "Q (v, w3)" using assms(4) by (simp add: drawn_def)
    qed
  qed
qed

definition sw_labels :: "'w stopwatch \<Rightarrow> bool" where
  "sw_labels s \<longleftrightarrow> start_btn_lbl s \<noteq> None \<and> time_l_lbl s \<noteq> None \<and> time_h_lbl s \<noteq> None \<and> None \<notin> set (lap_values s)"

definition sw_shown :: "'w lv_par \<Rightarrow> nat \<Rightarrow> 'w stopwatch \<Rightarrow> bool" where
  "sw_shown par root s \<longleftrightarrow> lv_wf par (sw_widgets s) \<and> alive par (sw_widgets s) root \<and> length (lap_values s) = 3 \<and>
     (case sw_background s of None \<Rightarrow> \<not> stopwatch_timer s | Some b \<Rightarrow> placed par root b (sw_widgets s) \<and> sw_labels s)"

lemma draw_yields:
  assumes "lv_spec lv par" "sw_shown par root s"
  shows "yields (draw_stopwatch_app_ui lv (Some root) s)
     (\<lambda>s'. sw_shown par root s' \<and> sw_background s' \<noteq> None \<and> n_laps s' = n_laps s \<and> stopwatch_timer s' = stopwatch_timer s \<and>
       elapsed_ms_div_10 s' = elapsed_ms_div_10 s \<and> is_wakelock_acquired s' = is_wakelock_acquired s \<and> sw_wake s' = sw_wake s)"
proof -
  have w0: "drawn par (sw_widgets s) [] (sw_widgets s)" "alive par (sw_widgets s) root" "lv_wf par (sw_widgets s)"
    using assms(2) by (simp_all add: sw_shown_def drawn_start)
  show ?thesis
    unfolding draw_stopwatch_app_ui_def yields_bind case_prod_unfold Option.bind.simps
    apply (rule create_drawn [OF assms(1) w0(1)], use w0(2) in simp, unfold prod.sel)
    apply ((rule create_drawn [OF assms(1)] divider_drawn [OF assms(1)] card_drawn [OF assms(1)], assumption, simp, (unfold prod.sel)?)+)
    apply (simp add: sw_shown_def sw_labels_def)
    apply (rule placed_all, erule drawn_placed [OF _ w0(3,2)], simp)
    done
qed

section \<open>The wake lock\<close>

definition sw_ok :: "'w lv_par \<Rightarrow> nat \<Rightarrow> int \<Rightarrow> 'w stopwatch \<Rightarrow> bool" where
  "sw_ok par root base s \<longleftrightarrow> sw_shown par root s \<and> n_laps s \<le> 3 \<and> is_wakelock_acquired s = stopwatch_timer s \<and>
     sw_wake s = base + of_bool (stopwatch_timer s)"

lemma own_wakelock:
  "acquire_wakelock (Some (stopwatch_app n)) c = (True, wakelock_manager_acquire_wakelock c)"
  "release_wakelock (Some (stopwatch_app n)) c = (True, wakelock_manager_release_wakelock c)"
  by (simp_all add: acquire_wakelock_def release_wakelock_def permitted_def check_app_permission_def stopwatch_app_def)

lemma wakelock_up_down:
  "0 \<le> c \<Longrightarrow> c < 2147483647 \<Longrightarrow> wakelock_manager_acquire_wakelock c = c + 1"
  "0 \<le> c \<Longrightarrow> c < 2147483647 \<Longrightarrow> wakelock_manager_release_wakelock (c + 1) = c"
  by (simp_all add: wakelock_manager_acquire_wakelock_def wakelock_manager_release_wakelock_def s32_id)

datatype sw_event = Sw_open | Sw_timer | Sw_start_stop lv_key | Sw_lap lv_key | Sw_close

text \<open>The timer exists only while the stopwatch runs, and the buttons only while the screen is open.\<close>

primrec sw_exec :: "'w lv_ops \<Rightarrow> byte \<Rightarrow> nat \<Rightarrow> sw_event \<Rightarrow> 'w stopwatch \<Rightarrow> 'w stopwatch option" where
  "sw_exec lv app root Sw_open s = (if sw_background s = None then draw_stopwatch_app_ui lv (Some root) s else Some s)"
| "sw_exec lv app root Sw_timer s = (if stopwatch_timer s then stopwatch_timer_cb s else Some s)"
| "sw_exec lv app root (Sw_start_stop key) s =
     (if sw_background s = None then Some s else map_option snd (start_stop_btn_click_cb app key s))"
| "sw_exec lv app root (Sw_lap key) s = (if sw_background s = None then Some s else map_option snd (lap_btn_click_cb key s))"
| "sw_exec lv app root Sw_close s = delete_stopwatch_app_ui lv app s"

text \<open>Making room for a lap and writing it: the newest laps in order, and nothing else changes.\<close>

definition laps_of :: "'w stopwatch \<Rightarrow> lap_text list" where
  "laps_of s = map the (take (n_laps s) (lap_values s))"

lemma three: "length xs = 3 \<Longrightarrow> \<exists>a b c. xs = [a, b, c]"
  by (auto simp: length_Suc_conv numeral_3_eq_3)

lemma room_for_lap:
  assumes "n_laps s \<le> 3" "length (lap_values s) = 3" "None \<notin> set (lap_values s)"
  obtains k V where "shift_laps s = Some (s\<lparr>lap_values := V, n_laps := k\<rparr>)"
    "set_lap k t (s\<lparr>lap_values := V, n_laps := k\<rparr>) = Some (s\<lparr>lap_values := V[k := Some t], n_laps := k\<rparr>)"
    "k < 3" "length V = 3" "None \<notin> set (V[k := Some t])" "map the (take (k + 1) (V[k := Some t])) = last_n 3 (laps_of s @ [t])"
proof -
  obtain a b c where v: "lap_values s = [Some a, Some b, Some c]"
    using three [OF assms(2)] assms(3) by (metis list.set_intros(1,2) not_None_eq)
  consider "n_laps s = 0" | "n_laps s = 1" | "n_laps s = 2" | "n_laps s = 3" using assms(1) by linarith
  then show ?thesis
  proof cases
    case 4
    show ?thesis
      by (rule that [of 2 "[Some b, Some c, Some c]"]) (simp_all add: shift_laps_def set_lap_def laps_of_def last_n_def v 4 eval_nat_numeral)
  qed (rule that [of "n_laps s" "lap_values s"],
    simp_all add: shift_laps_def set_lap_def laps_of_def last_n_def v eval_nat_numeral)+
qed

lemma start_stop_ok:
  assumes "sw_ok par root base s" "0 \<le> base" "base < 2147483647" "sw_background s \<noteq> None"
  shows "yields (start_stop_btn_click_cb app key s) (\<lambda>(stop, s'). sw_ok par root base s' \<and> sw_background s' = sw_background s \<and>
     stop = (key = LV_KEY_ENTER) \<and> stopwatch_timer s' = (stopwatch_timer s \<noteq> (key = LV_KEY_ENTER)))"
proof -
  obtain b where b: "sw_background s = Some b" "placed par root b (sw_widgets s)" "sw_labels s" "length (lap_values s) = 3"
    "lv_wf par (sw_widgets s)" "alive par (sw_widgets s) root"
    using assms(1,4) by (auto simp: sw_ok_def sw_shown_def)
  consider "key \<noteq> LV_KEY_ENTER" | (start) "key = LV_KEY_ENTER" "\<not> stopwatch_timer s" | (stop) "key = LV_KEY_ENTER" "stopwatch_timer s"
    by blast
  then show ?thesis
  proof cases
    case 1
    then show ?thesis using assms(1) by (simp add: start_stop_btn_click_cb_def)
  next
    case start
    then show ?thesis
      using assms b wakelock_up_down(1) [of base]
      by (auto simp: start_stop_btn_click_cb_def own_wakelock sw_ok_def sw_shown_def sw_labels_def Let_def)
  next
    case stop
    let ?t = "s\<lparr>stopwatch_timer := False, start_btn_lbl := Some ''Start''\<rparr>"
    have t: "n_laps ?t \<le> 3" "length (lap_values ?t) = 3" "None \<notin> set (lap_values ?t)"
      using assms(1) b by (simp_all add: sw_ok_def sw_labels_def)
    obtain k V where "shift_laps ?t = Some (?t\<lparr>lap_values := V, n_laps := k\<rparr>)"
      "set_lap k (lap_of (elapsed_ms_div_10 s)) (?t\<lparr>lap_values := V, n_laps := k\<rparr>) =
        Some (?t\<lparr>lap_values := V[k := Some (lap_of (elapsed_ms_div_10 s))], n_laps := k\<rparr>)"
      "k < 3" "length V = 3" "None \<notin> set (V[k := Some (lap_of (elapsed_ms_div_10 s))])"
      by (rule room_for_lap [OF t])
    then show ?thesis
      using assms b stop wakelock_up_down(2) [of base]
      by (simp add: start_stop_btn_click_cb_def own_wakelock sw_ok_def sw_shown_def sw_labels_def Let_def)
  qed
qed

text \<open>The lap key adds the time to the laps shown, of which the newest three stay.\<close>

lemma lap_ok:
  assumes "sw_ok par root base s" "sw_background s \<noteq> None"
  shows "yields (lap_btn_click_cb key s) (\<lambda>(stop, s'). sw_ok par root base s' \<and> sw_background s' = sw_background s \<and>
     stop = (key = LV_KEY_ENTER) \<and> stopwatch_timer s' = stopwatch_timer s \<and> elapsed_ms_div_10 s' = elapsed_ms_div_10 s \<and>
     laps_of s' = (if key = LV_KEY_ENTER \<and> stopwatch_timer s then last_n 3 (laps_of s @ [lap_of (elapsed_ms_div_10 s)]) else laps_of s))"
proof -
  obtain b where b: "sw_background s = Some b" "placed par root b (sw_widgets s)" "sw_labels s" "length (lap_values s) = 3"
    "lv_wf par (sw_widgets s)" "alive par (sw_widgets s) root"
    using assms by (auto simp: sw_ok_def sw_shown_def)
  have t: "n_laps s \<le> 3" "length (lap_values s) = 3" "None \<notin> set (lap_values s)"
    using assms(1) b by (simp_all add: sw_ok_def sw_labels_def)
  obtain k V where "shift_laps s = Some (s\<lparr>lap_values := V, n_laps := k\<rparr>)"
    "set_lap k (lap_of (elapsed_ms_div_10 s)) (s\<lparr>lap_values := V, n_laps := k\<rparr>) =
      Some (s\<lparr>lap_values := V[k := Some (lap_of (elapsed_ms_div_10 s))], n_laps := k\<rparr>)"
    "k < 3" "length V = 3" "None \<notin> set (V[k := Some (lap_of (elapsed_ms_div_10 s))])"
    "map the (take (k + 1) (V[k := Some (lap_of (elapsed_ms_div_10 s))])) = last_n 3 (laps_of s @ [lap_of (elapsed_ms_div_10 s)])"
    by (rule room_for_lap [OF t])
  then show ?thesis
    using assms b
    by (cases "key = LV_KEY_ENTER"; cases "stopwatch_timer s")
      (simp_all add: lap_btn_click_cb_def sw_ok_def sw_shown_def sw_labels_def laps_of_def)
qed

lemma close_ok:
  assumes "lv_spec lv par" "sw_ok par root base s" "0 \<le> base" "base < 2147483647"
  shows "yields (delete_stopwatch_app_ui lv app s)
     (\<lambda>s'. sw_ok par root base s' \<and> sw_background s' = None \<and> \<not> stopwatch_timer s' \<and> elapsed_ms_div_10 s' = 0)"
proof -
  have del: "yields (case sw_background s of None \<Rightarrow> Some (sw_widgets s) | Some bg \<Rightarrow> lv_obj_delete lv bg (sw_widgets s))
      (\<lambda>w. lv_wf par w \<and> alive par w root)"
  proof (cases "sw_background s")
    case None
    then show ?thesis using assms(2) by (simp add: sw_ok_def sw_shown_def)
  next
    case (Some b)
    then have "placed par root b (sw_widgets s)" using assms(2) by (simp add: sw_ok_def sw_shown_def)
    then show ?thesis
      using Some by (auto intro: yields_mono [OF delete_placed [OF assms(1)]])
  qed
  note ok = assms(2) [unfolded sw_ok_def sw_shown_def]
  show ?thesis
    unfolding delete_stopwatch_app_ui_def yields_bind
  proof (rule yields_mono [OF del], goal_cases)
    case (1 w)
    then show ?case
      using ok assms(3,4) wakelock_up_down(2) [of base]
      by (cases "stopwatch_timer s") (simp_all add: own_wakelock sw_ok_def sw_shown_def)
  qed
qed

lemma timer_ok:
  assumes "sw_ok par root base s" "stopwatch_timer s"
  shows "yields (stopwatch_timer_cb s) (\<lambda>s'. sw_ok par root base s')"
proof -
  note ok = assms(1) [unfolded sw_ok_def sw_shown_def]
  obtain b where b: "sw_background s = Some b" "placed par root b (sw_widgets s)" "sw_labels s"
    using ok assms(2) by (cases "sw_background s") simp_all
  then have "time_l_lbl s \<noteq> None" "time_h_lbl s \<noteq> None"
    by (simp_all add: sw_labels_def)
  then show ?thesis
    using ok b assms(2) unfolding stopwatch_timer_cb_def Let_def
    by (simp add: sw_ok_def sw_shown_def sw_labels_def del: not_None_eq)
qed

text \<open>
  C31: the stopwatch keeps the watch awake exactly while it runs. Whatever the order of opening and closing the screen, of
  timer ticks and of keys on the two buttons, no assertion fails, no write leaves the three lap labels, no deleted widget
  is used, and the system's wake lock is held once more than before exactly while the stopwatch is running; a closed
  stopwatch does not run.
\<close>

theorem stopwatch_keeps_awake:
  assumes "lv_spec lv par" and "sw_ok par root base s" and "0 \<le> base" and "base < 2147483647"
  shows "\<exists>s'. mfold (sw_exec lv app root) evs s = Some s' \<and> n_laps s' \<le> 3 \<and> is_wakelock_acquired s' = stopwatch_timer s' \<and>
     sw_wake s' = base + of_bool (stopwatch_timer s') \<and> (sw_background s' = None \<longrightarrow> \<not> stopwatch_timer s')"
proof -
  have step: "yields (sw_exec lv app root ev t) (sw_ok par root base)" if ok: "sw_ok par root base t" for ev t
  proof (cases ev)
    case Sw_open
    have "yields (draw_stopwatch_app_ui lv (Some root) t) (sw_ok par root base)"
      by (rule yields_mono [OF draw_yields [OF assms(1)]]) (use ok in \<open>simp_all add: sw_ok_def\<close>)
    then show ?thesis
      using Sw_open ok by simp
  next
    case Sw_timer
    then show ?thesis
      using ok timer_ok [OF ok] by simp
  next
    case (Sw_start_stop key)
    have "yields (start_stop_btn_click_cb app key t) (\<lambda>r. sw_ok par root base (snd r))" if "sw_background t \<noteq> None"
      by (rule yields_mono [OF start_stop_ok [OF ok assms(3,4) that]]) auto
    then show ?thesis
      using Sw_start_stop ok by simp
  next
    case (Sw_lap key)
    have "yields (lap_btn_click_cb key t) (\<lambda>r. sw_ok par root base (snd r))" if "sw_background t \<noteq> None"
      by (rule yields_mono [OF lap_ok [OF ok that]]) auto
    then show ?thesis
      using Sw_lap ok by simp
  next
    case Sw_close
    have "yields (delete_stopwatch_app_ui lv app t) (sw_ok par root base)"
      by (rule yields_mono [OF close_ok [OF assms(1) ok assms(3,4)]]) simp
    then show ?thesis
      using Sw_close by simp
  qed
  have "\<exists>s'. mfold (sw_exec lv app root) evs t = Some s' \<and> sw_ok par root base s'" if "sw_ok par root base t" for t
    using that
  proof (induction evs arbitrary: t)
    case (Cons ev evs)
    then show ?case using yieldsD [OF step, of t ev] by auto
  qed simp
  then obtain s' where "mfold (sw_exec lv app root) evs s = Some s'" "sw_ok par root base s'"
    using assms(2) by blast
  then show ?thesis
    by (cases "sw_background s'") (simp_all add: sw_ok_def sw_shown_def)
qed

text \<open>Opened, started, 120 ms later a lap, stopped.\<close>

theorem stopwatch_keeps_awake_witness:
  "\<exists>s'. mfold (sw_exec store_ops 0 0) [Sw_open, Sw_start_stop LV_KEY_ENTER, Sw_timer, Sw_lap LV_KEY_ENTER]
     \<lparr>sw_background = None, lap_values = replicate 3 None, start_btn_lbl = None, time_h_lbl = None, time_l_lbl = None, n_laps = 0,
       stopwatch_timer = False, elapsed_ms_div_10 = 0, is_wakelock_acquired = False, sw_wake = 0,
       sw_widgets = (\<lambda>x. if x = 0 then Some None else None, 1)\<rparr> = Some s' \<and> sw_wake s' = of_bool (stopwatch_timer s')"
proof -
  define s0 where "s0 = \<lparr>sw_background = None, lap_values = replicate 3 None, start_btn_lbl = None, time_h_lbl = None, time_l_lbl = None,
    n_laps = 0, stopwatch_timer = False, elapsed_ms_div_10 = 0, is_wakelock_acquired = False, sw_wake = 0,
    sw_widgets = (\<lambda>x :: nat. if x = 0 then Some (None :: nat option) else None, 1 :: nat)\<rparr>"
  have "sw_ok store_par 0 0 s0"
    by (simp add: s0_def sw_ok_def sw_shown_def lv_wf_def alive_def child_of_def store_par_def)
  from stopwatch_keeps_awake [OF store_spec this] show ?thesis
    unfolding s0_def [symmetric] by fastforce
qed

end
