(* ===== verification/Ui_Manager.thy ===== *)
theory Ui_Manager
  imports Ui_Base Sensor_Manager
begin

text \<open>
  The user interface as a whole (\<open>ui_manager.c\<close>): it turns the graphics library and the base screen on and off together,
  and brings the alarms of the event bus to the base screen by way of a work item, because screens are drawn by workers.
  The wake lock counter is one variable of the firmware; it lives in \<open>lv_wake\<close>, and the base screen works on it.
\<close>

section \<open>State\<close>

record ('g, 's, 'q, 'w) ui_mgr =
  um_initialized :: bool
  um_lvgl :: "('g, 's, 'q) lvgl"
  um_base :: "'w ui_base"

definition on_base :: "('w ui_base \<Rightarrow> 'w ui_base option) \<Rightarrow> ('g, 's, 'q, 'w) ui_mgr \<Rightarrow> ('g, 's, 'q, 'w) ui_mgr option" where
  "on_base f u =
     map_option (\<lambda>b. u\<lparr>um_base := b, um_lvgl := (um_lvgl u)\<lparr>lv_wake := ui_wake b\<rparr>\<rparr>) (f ((um_base u)\<lparr>ui_wake := lv_wake (um_lvgl u)\<rparr>))"

section \<open>Alarms on their way to the screen\<close>

definition sizeof_ui_event :: nat where "sizeof_ui_event = 160"

definition alarm_type_code :: "alarm_type \<Rightarrow> byte" where
  "alarm_type_code t = (case t of ALARM_TYPE_GLOBAL \<Rightarrow> 0 | ALARM_TYPE_WATCH \<Rightarrow> 1 | ALARM_TYPE_INVALID \<Rightarrow> 2)"

definition alarm_type_of :: "byte \<Rightarrow> alarm_type" where
  "alarm_type_of b = (if b = 0 then ALARM_TYPE_GLOBAL else if b = 1 then ALARM_TYPE_WATCH else ALARM_TYPE_INVALID)"

text \<open>An alarm in memory: the time, the type and the flag with three bytes of padding.\<close>

definition alarm_bytes :: "alarm \<Rightarrow> byte list" where
  "alarm_bytes al = timeout_bytes (epoch al) @ [alarm_type_code (al_type al), 0, 0, 0] @ [of_bool (sync_with_phone al), 0, 0, 0]"

definition alarm_of :: "byte list \<Rightarrow> alarm" where
  "alarm_of bs = \<lparr>epoch = bytes_timeout bs, al_type = alarm_type_of (bs ! 4), sync_with_phone = (bs ! 8 \<noteq> 0)\<rparr>"

text \<open>
  The event structure: its type and a union as large as a notification, of which an alarm fills the front; \<open>junk\<close> is the
  rest of the uninitialised local variable. It is copied to the front of the zeroed argument of the work item.
\<close>

definition ui_event_bytes :: "byte list \<Rightarrow> alarm \<Rightarrow> byte list" where
  "ui_event_bytes junk al = [0, 0, 0, 0] @ alarm_bytes al @ take (sizeof_ui_event - 16) junk"

definition ui_event_of :: "byte list \<Rightarrow> ui_event" where
  "ui_event_of bs = (if bs ! 0 = 0 then Ui_alarm (alarm_of (drop 4 bs)) else if bs ! 0 = 1 then Ui_call else Ui_notification)"

definition alarm_work :: "'f \<Rightarrow> byte list \<Rightarrow> alarm \<Rightarrow> 'f work_item" where
  "alarm_work f junk al = \<lparr>wi_handler = Some (Work_fn f), wi_type = WORK_TYPE_SYSTEM,
     wi_arg = Arg_bytes (ui_event_bytes junk al @ replicate (MAX_WORKER_ARG_PAYLOAD - sizeof_ui_event) 0), wi_priority = 0\<rparr>"

definition handle_ui_event_cb :: "'w lv_ops \<Rightarrow> bool \<Rightarrow> byte list option \<Rightarrow> ('g, 's, 'q, 'w) ui_mgr \<Rightarrow> ('g, 's, 'q, 'w) ui_mgr option" where
  "handle_ui_event_cb lv timer_ok arg u =
     (case arg of
        None \<Rightarrow> Some u
      | Some bs \<Rightarrow> on_base (ui_base_handle_base_screen_event lv timer_ok (Some (ui_event_of bs))) u)"

definition alarm_triggred_event_cb ::
  "rt_env \<Rightarrow> ('f work_item, 'r) queue_ops \<Rightarrow> 'f \<Rightarrow> byte list \<Rightarrow> sys_event option \<Rightarrow> ('f, 'r, 'z) runtime_scheme \<Rightarrow>
   ('f, 'r, 'z) runtime_scheme option" where
  "alarm_triggred_event_cb env ops f junk evp r =
     (case evp of
        None \<Rightarrow> Some r
      | Some e \<Rightarrow> (case ev_data e of
            Data_none \<Rightarrow> Some r
          | Data_alarm al \<Rightarrow>
              if ev_payload_len e \<noteq> sizeof_alarm then None
              else map_option snd (schedule_system_work env ops (Some (alarm_work f junk al)) r)
          | _ \<Rightarrow> None))"

section \<open>On and off\<close>

definition ui_on ::
  "('g, 's, 'q, 'f, 'v, 'n) lvgl_env \<Rightarrow> 'n \<Rightarrow> 'w lv_ops \<Rightarrow> nat \<Rightarrow> ('g, 's, 'q, 'w) ui_mgr \<Rightarrow> ('f, 'v, 'z) runtime_scheme \<Rightarrow>
   (('g, 's, 'q, 'w) ui_mgr \<times> ('f, 'v, 'z) runtime_scheme) option" where
  "ui_on env flash lv scr u r =
     do {
       (l, r1) \<leftarrow> init_lvgl env flash (um_lvgl u) r;
       map_option (\<lambda>u1. (u1, r1)) (on_base (ui_base_draw_base_screen lv scr) (u\<lparr>um_lvgl := l\<rparr>))
     }"

definition ui_off :: "('g, 's, 'q, 'f, 'v, 'n) lvgl_env \<Rightarrow> 'w lv_ops \<Rightarrow> ('g, 's, 'q, 'w) ui_mgr \<Rightarrow> ('g, 's, 'q, 'w) ui_mgr option" where
  "ui_off env lv u =
     do {
       u1 \<leftarrow> on_base (ui_base_clean_base_screen lv) u;
       map_option (\<lambda>l. u1\<lparr>um_lvgl := l\<rparr>) (deinit_lvgl env (um_lvgl u1))
     }"

definition ui_sleep :: "('g, 's, 'q, 'f, 'v, 'n) lvgl_env \<Rightarrow> ('g, 's, 'q, 'w) ui_mgr \<Rightarrow> ('g, 's, 'q, 'w) ui_mgr option" where
  "ui_sleep env u =
     do {
       u1 \<leftarrow> on_base ui_base_suspend_base_screen u;
       map_option (\<lambda>l. u1\<lparr>um_lvgl := l\<rparr>) (suspend_lvgl env (um_lvgl u1))
     }"

definition ui_resume ::
  "('g, 's, 'q, 'f, 'v, 'n) lvgl_env \<Rightarrow> 'n \<Rightarrow> ('g, 's, 'q, 'w) ui_mgr \<Rightarrow> ('f, 'v, 'z) runtime_scheme \<Rightarrow>
   (('g, 's, 'q, 'w) ui_mgr \<times> ('f, 'v, 'z) runtime_scheme) option" where
  "ui_resume env flash u r =
     do {
       (l, r1) \<leftarrow> resume_lvgl env flash (um_lvgl u) r;
       map_option (\<lambda>u1. (u1, r1)) (on_base ui_base_resume_base_screen (u\<lparr>um_lvgl := l\<rparr>))
     }"

text \<open>\<open>h\<close> is \<open>alarm_triggred_event_cb\<close> on the bus.\<close>

definition ui_manager_init ::
  "'h \<Rightarrow> ('g, 's, 'q, 'w) ui_mgr \<Rightarrow> ('h, 'z) event_mgr_scheme \<Rightarrow> ('g, 's, 'q, 'w) ui_mgr \<times> ('h, 'z) event_mgr_scheme" where
  "ui_manager_init h u s =
     (if um_initialized u then (u, s)
      else (u\<lparr>um_initialized := True\<rparr>, snd (event_subscribe EVENT_ALARM_TRIGGERED (Some h) s)))"

definition ui_manager_deinit ::
  "('g, 's, 'q, 'f, 'v, 'n) lvgl_env \<Rightarrow> 'w lv_ops \<Rightarrow> 'h \<Rightarrow> ('g, 's, 'q, 'w) ui_mgr \<Rightarrow> ('h, 'z) event_mgr_scheme \<Rightarrow>
   (('g, 's, 'q, 'w) ui_mgr \<times> ('h, 'z) event_mgr_scheme) option" where
  "ui_manager_deinit env lv h u s =
     map_option (\<lambda>u1. (u1\<lparr>um_initialized := False\<rparr>, snd (event_unsubscribe EVENT_ALARM_TRIGGERED (Some h) s))) (ui_off env lv u)"

section \<open>Encoding\<close>

lemma alarm_type_roundtrip: "alarm_type_of (alarm_type_code t) = t"
  by (cases t) (simp_all add: alarm_type_of_def alarm_type_code_def)

lemma length_alarm_bytes: "length (alarm_bytes al) = sizeof_alarm"
  by (simp add: alarm_bytes_def timeout_bytes_def sizeof_alarm_def)

lemma alarm_roundtrip:
  assumes "epoch al < 4294967296"
  shows "alarm_of (alarm_bytes al @ rest) = al"
proof -
  have "bytes_timeout (alarm_bytes al @ rest) = epoch al"
    using timeout_bytes_roundtrip [OF assms] by (simp add: bytes_timeout_def alarm_bytes_def timeout_bytes_def)
  moreover have "(alarm_bytes al @ rest) ! 4 = alarm_type_code (al_type al)" "(alarm_bytes al @ rest) ! 8 = of_bool (sync_with_phone al)"
    by (simp_all add: alarm_bytes_def timeout_bytes_def)
  ultimately show ?thesis
    by (simp add: alarm_of_def alarm_type_roundtrip)
qed

lemma ui_event_roundtrip: "epoch al < 4294967296 \<Longrightarrow> ui_event_of (ui_event_bytes junk al @ rest) = Ui_alarm al"
  using alarm_roundtrip by (simp add: ui_event_of_def ui_event_bytes_def)

section \<open>Properties\<close>

text \<open>An active interface: the library runs and a page is open.\<close>

definition ui_active :: "'w lv_par \<Rightarrow> ('g, 's, 'q, 'w) ui_mgr \<Rightarrow> bool" where
  "ui_active par u \<longleftrightarrow> lvgl_active (um_lvgl u) \<and> ui_ok par (um_base u)"

lemma ui_ok_wake: "ui_ok par (s\<lparr>ui_wake := c\<rparr>) = ui_ok par s"
  by (simp add: ui_ok_def base_ok_def handlers_ok_def)

lemma ui_ok_log: "ui_ok par s \<Longrightarrow> page_run l None = Some (Some (curr_watch_state s)) \<Longrightarrow> ui_ok par (s\<lparr>ui_log := l\<rparr>)"
  by (simp add: ui_ok_def base_ok_def handlers_ok_def)

text \<open>
  C34: the interface sleeps and wakes as one. On working hardware, with nobody keeping the watch awake, the graphics
  thread ending within the 100 ms it is given, and a display timeout stored in flash, putting an active interface to
  sleep calls the suspend callback of the page shown (if it has one) and then suspends the library; waking it brings
  the library back and then calls the resume callback of the same page. The keys waiting in the queue are still there
  and the widgets are untouched. (A thread that takes longer stops the interface: \<open>late_join_stops_ui\<close>.)
\<close>

theorem ui_nap:
  assumes "lvgl_works env" and "le_joined env" and "ui_active par u" and "lv_wake (um_lvgl u) \<le> 0"
    and "lcd_balanced (le_lcd env) (lcd_lock (lv_panel (um_lvgl u)))" and "timeout_stored (se_nvs (le_store env)) look flash t"
  shows "\<exists>u1 u2. ui_sleep env u = Some u1 \<and> lvgl_asleep (um_lvgl u1) \<and>
     ui_log (um_base u1) = ui_log (um_base u) @ suspend_calls (um_base u) \<and>
     ui_resume env flash u1 r = Some (u2, r) \<and> ui_active par u2 \<and>
     ui_log (um_base u2) = ui_log (um_base u1) @ resume_calls (um_base u) \<and>
     curr_watch_state (um_base u2) = curr_watch_state (um_base u) \<and> ui_widgets (um_base u2) = ui_widgets (um_base u) \<and>
     inputs (lv_in (um_lvgl u2)) = inputs (lv_in (um_lvgl u)) \<and> lv_wake (um_lvgl u2) = lv_wake (um_lvgl u)"
proof -
  let ?b = "(um_base u)\<lparr>ui_wake := lv_wake (um_lvgl u)\<rparr>"
  let ?log1 = "ui_log (um_base u) @ suspend_calls (um_base u)"
  let ?log2 = "?log1 @ resume_calls (um_base u)"
  have b: "ui_ok par ?b" "lvgl_active (um_lvgl u)"
    using assms(3) by (simp_all add: ui_active_def ui_ok_wake)
  have same: "suspend_calls ?b = suspend_calls (um_base u)" "resume_calls (?b\<lparr>ui_log := ?log1\<rparr>) = resume_calls (um_base u)"
    by (simp_all add: suspend_calls_def resume_calls_def)
  have s: "ui_base_suspend_base_screen ?b = Some (?b\<lparr>ui_log := ?log1\<rparr>)" "ui_ok par (?b\<lparr>ui_log := ?log1\<rparr>)"
    using suspend_in_order(1) [OF b(1)] same(1) by simp_all
  have q: "ui_base_resume_base_screen (?b\<lparr>ui_log := ?log1\<rparr>) = Some (?b\<lparr>ui_log := ?log2\<rparr>)" "ui_ok par (?b\<lparr>ui_log := ?log2\<rparr>)"
    using suspend_in_order(2) [OF s(2)] same(2) by simp_all
  have l: "(um_lvgl u)\<lparr>lv_wake := lv_wake (um_lvgl u)\<rparr> = um_lvgl u" by simp
  obtain l1 l2 where l1: "suspend_lvgl env (um_lvgl u) = Some l1" "lvgl_asleep l1" "lv_wake l1 = lv_wake (um_lvgl u)"
    and l2: "resume_lvgl env flash l1 r = Some (l2, r)" "lvgl_active l2" "inputs (lv_in l2) = inputs (lv_in (um_lvgl u))"
    "lv_wake l2 = lv_wake (um_lvgl u)"
    using suspend_works [OF assms(1,2) b(2) assms(4,5)] resume_works [OF assms(1,6)] assms(5) by metis
  have "ui_sleep env u = Some (u\<lparr>um_base := ?b\<lparr>ui_log := ?log1\<rparr>, um_lvgl := l1\<rparr>)"
    using s(1) l1(1) by (simp add: ui_sleep_def on_base_def)
  moreover have "(um_base u)\<lparr>ui_wake := lv_wake (um_lvgl u), ui_log := ?log1, ui_wake := lv_wake l2\<rparr> = ?b\<lparr>ui_log := ?log1\<rparr>"
    using l2(4) by simp
  then have "ui_resume env flash (u\<lparr>um_base := ?b\<lparr>ui_log := ?log1\<rparr>, um_lvgl := l1\<rparr>) r =
      Some (u\<lparr>um_base := ?b\<lparr>ui_log := ?log2\<rparr>, um_lvgl := l2\<lparr>lv_wake := lv_wake (um_lvgl u)\<rparr>\<rparr>, r)"
    using q(1) l2(1) by (simp add: ui_resume_def on_base_def)
  ultimately show ?thesis
    using l1(2) l2(2-4) q(2) by (auto simp: ui_active_def lvgl_active_def)
qed

text \<open>Where the work item of an alarm goes: to the end of the queue that takes it, or nowhere.\<close>

lemma alarm_scheduled:
  assumes "queue_spec ops items cap" and "rt_ok items cap r" and "\<not> shutdown_initialized r"
    and "system_work r = Some sq" and "pending_system_work r = Some pq" and "length (items sq) \<le> cap sq" and "length (items pq) \<le> cap pq"
  shows "\<exists>r' sq' pq'. alarm_triggred_event_cb env ops f junk
       (Some \<lparr>ev = EVENT_ALARM_TRIGGERED, ev_payload_len = sizeof_alarm, ev_data = Data_alarm al\<rparr>) r = Some r' \<and>
     system_work r' = Some sq' \<and> pending_system_work r' = Some pq' \<and>
     items sq' = items sq @ (if e_lock env \<and> runtime_state r \<noteq> RUNTIME_STATE_GRACE_PERIOD \<and> length (items sq) < cap sq
       then [alarm_work f junk al] else []) \<and>
     items pq' = items pq @ (if e_lock env \<and> runtime_state r = RUNTIME_STATE_GRACE_PERIOD \<and> length (items pq) < cap pq
       then [alarm_work f junk al] else [])"
proof -
  let ?item = "alarm_work f junk al"
  have send: "items (snd (xQueueSend ops ?item q)) = items q @ (if length (items q) < cap q then [?item] else [])" if "length (items q) \<le> cap q" for q
    using queue_send [OF assms(1), of ?item q] that by simp
  have init: "rt_initialized r" "runtime_lock r"
    using assms(2) by (simp_all add: rt_ok_def)
  have h: "wi_handler ?item = Some (Work_fn f)"
    by (simp add: alarm_work_def)
  consider "\<not> e_lock env" | "e_lock env" "runtime_state r = RUNTIME_STATE_GRACE_PERIOD" | "e_lock env" "runtime_state r \<noteq> RUNTIME_STATE_GRACE_PERIOD"
    by blast
  then show ?thesis
  proof cases
    case 1
    then have "schedule_system_work env ops (Some ?item) r = Some (True, r)"
      using init assms(3,4) h by (simp add: schedule_system_work_def acquire_lock_runtime_def)
    then show ?thesis
      using 1 assms(4,5) by (simp add: alarm_triggred_event_cb_def)
  next
    case 2
    then have "schedule_system_work env ops (Some ?item) r =
        Some (fst (xQueueSend ops ?item pq), r\<lparr>pending_system_work := Some (snd (xQueueSend ops ?item pq))\<rparr>)"
      using init assms(3-5) h by (simp add: schedule_system_work_def acquire_lock_runtime_def split_beta)
    then show ?thesis
      using 2 assms(4) send [of pq] assms(7) by (simp add: alarm_triggred_event_cb_def)
  next
    case 3
    then have "schedule_system_work env ops (Some ?item) r =
        Some (fst (xQueueSend ops ?item sq), r\<lparr>system_work := Some (snd (xQueueSend ops ?item sq))\<rparr>)"
      using init assms(3,4) h by (simp add: schedule_system_work_def acquire_lock_runtime_def split_beta)
    then show ?thesis
      using 3 assms(5) send [of sq] assms(6) by (simp add: alarm_triggred_event_cb_def)
  qed
qed

text \<open>
  C35: an alarm reaches the screen. While the runtime is not being shut down, the event of a fired alarm becomes
  exactly one work item: at the end of the system queue, or of its pending queue in the grace period, if the runtime
  lock is obtained and that queue has room; otherwise it is in no queue, and the alarm is only logged. When a worker
  runs the item and no alarm is shown yet, whether the interface is awake or asleep, the page gets its suspend
  callback, the alarm screen is up and the watch is kept awake by one more wake lock; from then on the interface
  cannot be put to sleep: the attempt fails an assertion.
\<close>

theorem alarm_reaches_screen:
  fixes u :: "('g, 's, 'q, 'w) ui_mgr"
  assumes "queue_spec ops items cap" and "rt_ok items cap r" and "\<not> shutdown_initialized r"
    and "system_work r = Some sq" and "pending_system_work r = Some pq" and "length (items sq) \<le> cap sq" and "length (items pq) \<le> cap pq"
    and "epoch al < 4294967296" and "lv_spec lv par" and "ui_ok par (um_base u)" and "background (um_base u) = None"
    and "0 \<le> lv_wake (um_lvgl u)" and "lv_wake (um_lvgl u) < 2147483647"
  shows "\<exists>r' sq' pq' item bs u1.
     alarm_triggred_event_cb env ops f junk (Some \<lparr>ev = EVENT_ALARM_TRIGGERED, ev_payload_len = sizeof_alarm, ev_data = Data_alarm al\<rparr>) r =
       Some r' \<and> system_work r' = Some sq' \<and> pending_system_work r' = Some pq' \<and>
     items sq' = items sq @ (if e_lock env \<and> runtime_state r \<noteq> RUNTIME_STATE_GRACE_PERIOD \<and> length (items sq) < cap sq then [item] else []) \<and>
     items pq' = items pq @ (if e_lock env \<and> runtime_state r = RUNTIME_STATE_GRACE_PERIOD \<and> length (items pq) < cap pq then [item] else []) \<and>
     wi_handler item = Some (Work_fn f) \<and> wi_arg item = Arg_bytes bs \<and> handle_ui_event_cb lv True (Some bs) u = Some u1 \<and>
     ui_log (um_base u1) = ui_log (um_base u) @ suspend_calls (um_base u) \<and> background (um_base u1) \<noteq> None \<and>
     lv_wake (um_lvgl u1) = lv_wake (um_lvgl u) + 1 \<and> curr_watch_state (um_base u1) = curr_watch_state (um_base u) \<and>
     ui_sleep lenv u1 = None"
proof -
  let ?item = "alarm_work f junk al"
  let ?bs = "ui_event_bytes junk al @ replicate (MAX_WORKER_ARG_PAYLOAD - sizeof_ui_event) 0"
  obtain r' sq' pq' where r: "alarm_triggred_event_cb env ops f junk (Some \<lparr>ev = EVENT_ALARM_TRIGGERED, ev_payload_len = sizeof_alarm,
      ev_data = Data_alarm al\<rparr>) r = Some r'" "system_work r' = Some sq'" "pending_system_work r' = Some pq'"
    "items sq' = items sq @ (if e_lock env \<and> runtime_state r \<noteq> RUNTIME_STATE_GRACE_PERIOD \<and> length (items sq) < cap sq then [?item] else [])"
    "items pq' = items pq @ (if e_lock env \<and> runtime_state r = RUNTIME_STATE_GRACE_PERIOD \<and> length (items pq) < cap pq then [?item] else [])"
    using alarm_scheduled [OF assms(1-7)] by blast
  let ?b = "(um_base u)\<lparr>ui_wake := lv_wake (um_lvgl u)\<rparr>"
  have b: "ui_ok par ?b" "suspend_calls ?b = suspend_calls (um_base u)"
    using assms(10) by (simp_all add: ui_ok_wake suspend_calls_def)
  obtain s1 where s1: "ui_base_handle_base_screen_event lv True (Some (Ui_alarm al)) ?b = Some s1"
    "ui_wake s1 = lv_wake (um_lvgl u) + 1" "background s1 \<noteq> None" "curr_watch_state s1 = curr_watch_state (um_base u)"
    "ui_log s1 = ui_log (um_base u) @ suspend_calls (um_base u)"
    using alarm_screen_shown [OF assms(9) b(1), of al] assms(11-13) b(2) by auto
  let ?u1 = "u\<lparr>um_base := s1, um_lvgl := (um_lvgl u)\<lparr>lv_wake := ui_wake s1\<rparr>\<rparr>"
  have u1: "handle_ui_event_cb lv True (Some ?bs) u = Some ?u1"
    using s1(1) by (simp add: handle_ui_event_cb_def on_base_def ui_event_roundtrip [OF assms(8)])
  have "ui_sleep lenv ?u1 = None"
    using s1(2) assms(12)
    by (cases "ui_base_suspend_base_screen ((um_base ?u1)\<lparr>ui_wake := lv_wake (um_lvgl ?u1)\<rparr>)")
      (auto simp: ui_sleep_def on_base_def suspend_lvgl_def wakelock_manager_is_wake_locked_def
        ui_base_suspend_base_screen_def Let_def emit_ui_def split: if_splits)
  moreover have "wi_handler ?item = Some (Work_fn f)" "wi_arg ?item = Arg_bytes ?bs"
    by (simp_all add: alarm_work_def)
  ultimately show ?thesis
    using r u1 s1(2-5)
    by (intro exI [of _ r'] exI [of _ sq'] exI [of _ pq'] exI [of _ ?item] exI [of _ ?bs] exI [of _ ?u1]) simp
qed

section \<open>Witnesses\<close>

lemma ex_ui_active:
  "\<exists>b. ui_ok store_par b \<and> background b = None"
proof -
  obtain b where "ui_base_draw_base_screen store_ops 0 ex_ui_base = Some b" "ui_ok store_par b" "background b = None"
    using draw_base_works [OF store_spec ex_ui_store] by (auto simp: ui_ok_def ex_ui_base_def)
  then show ?thesis by blast
qed

theorem ui_nap_witness:
  "\<exists>b u1 u2. ui_sleep (ex_lvgl_env True) \<lparr>um_initialized = True, um_lvgl = ex_lvgl, um_base = b\<rparr> = Some u1 \<and> lvgl_asleep (um_lvgl u1) \<and>
     ui_resume (ex_lvgl_env True) [(ns_name Storage_Manager.CORE_SYSTEM_APP_ID, timeout_key, timeout_bytes 9000)] u1 rt_static = Some (u2, rt_static) \<and>
     ui_active store_par u2 \<and> curr_watch_state (um_base u2) = curr_watch_state b"
proof -
  obtain b where "ui_ok store_par b"
    using ex_ui_active by blast
  then have "ui_active store_par \<lparr>um_initialized = True, um_lvgl = ex_lvgl, um_base = b\<rparr>"
    using ex_lvgl_active by (simp add: ui_active_def)
  from ui_nap [OF ex_lvgl_env_works _ this, of True flash_look
      "[(ns_name Storage_Manager.CORE_SYSTEM_APP_ID, timeout_key, timeout_bytes 9000)]" 9000 rt_static] ex_timeout_stored ex_balanced
  show ?thesis
    by (intro exI [of _ b]) (auto simp: ex_lvgl_env_def ex_lvgl_def ex_store_def ex_display_def)
qed

theorem alarm_reaches_screen_witness:
  "\<exists>(r :: (nat, nat \<times> nat work_item list) runtime) r' item bs u u1.
     alarm_triggred_event_cb ex_env list_queue 7 [] (Some \<lparr>ev = EVENT_ALARM_TRIGGERED, ev_payload_len = sizeof_alarm, ev_data = Data_alarm Ui_Base.ex_alarm\<rparr>) r =
       Some r' \<and> (\<exists>q. system_work r' = Some q \<and> last (list_items q) = item) \<and> wi_arg item = Arg_bytes bs \<and>
     handle_ui_event_cb store_ops True (Some bs) u = Some u1 \<and> lv_wake (um_lvgl u1) = 1 \<and>
     (ui_sleep (ex_lvgl_env True) u1 :: (gpio_call list \<times> gpio_sys \<times> (nat, nat \<times> nat work_item list) runtime, int,
       nat \<times> encoder_input list, map_store) ui_mgr option) = None"
proof -
  obtain r0 :: "(nat, nat \<times> nat work_item list) runtime" where r0: "rt_ok list_items fst r0" "runtime_state r0 = RUNTIME_STATE_SLEEP"
    using ex_rt_ok by blast
  let ?q = "(10 :: nat, [] :: nat work_item list)"
  let ?r = "r0\<lparr>shutdown_initialized := False, system_work := Some ?q, pending_system_work := Some ?q\<rparr>"
  have empty: "all_system (list_items ?q)"
    by (simp add: list_items_def all_system_def)
  have "rt_ok list_items fst (r0\<lparr>system_work := Some ?q, pending_system_work := Some ?q\<rparr>)"
    by (rule rt_ok_queue_update(4) [OF rt_ok_queue_update(3) [OF r0(1) empty] empty])
  then have r: "rt_ok list_items fst ?r" "\<not> shutdown_initialized ?r" "system_work ?r = Some ?q" "pending_system_work ?r = Some ?q"
    "length (list_items ?q) \<le> fst ?q" "length (list_items ?q) < fst ?q"
    by (simp_all add: rt_ok_def pool_ok_def list_items_def)
  obtain b where b: "ui_ok store_par b" "background b = None"
    using ex_ui_active by blast
  let ?u = "\<lparr>um_initialized = True, um_lvgl = ex_lvgl, um_base = b\<rparr>"
  have u: "ui_ok store_par (um_base ?u)" "background (um_base ?u) = None" "0 \<le> lv_wake (um_lvgl ?u)" "lv_wake (um_lvgl ?u) < 2147483647"
    using b by simp_all (simp_all add: ex_lvgl_def)
  have e: "e_lock ex_env \<and> runtime_state ?r \<noteq> RUNTIME_STATE_GRACE_PERIOD \<and> length (list_items ?q) < fst ?q" "epoch Ui_Base.ex_alarm < 4294967296"
    using r0(2) r(6) by (simp_all add: ex_env_def Ui_Base.ex_alarm_def)
  from alarm_reaches_screen [OF list_queue_spec r(1-5) r(5) e(2) store_spec u, of ex_env 7 "[]" "ex_lvgl_env True"]
  obtain r' q' item bs u1 where w: "alarm_triggred_event_cb ex_env list_queue 7 [] (Some \<lparr>ev = EVENT_ALARM_TRIGGERED,
      ev_payload_len = sizeof_alarm, ev_data = Data_alarm Ui_Base.ex_alarm\<rparr>) ?r = Some r'" "system_work r' = Some q'"
    "list_items q' = list_items ?q @ [item]" "wi_arg item = Arg_bytes bs" "handle_ui_event_cb store_ops True (Some bs) ?u = Some u1"
    "lv_wake (um_lvgl u1) = lv_wake (um_lvgl ?u) + 1" "ui_sleep (ex_lvgl_env True) u1 = None"
    unfolding if_P [OF e(1)] by blast
  have "last (list_items q') = item" "lv_wake (um_lvgl u1) = 1"
    using w(3,6) by (simp_all add: ex_lvgl_def)
  then show ?thesis
    using w(1,2,4,5,7) by blast
qed

end
