(* ===== verification/Event_Types.thy ===== *)
theory Event_Types
  imports Ble_Manager Tick_Manager Power_Manager Notification_Manager Watchface_Manager Common_Apis Ui_Manager
begin

text \<open>
  The event bus passes untyped data: a subscriber casts the \<open>data\<close> pointer to the type it expects and asserts the length.
  This theory gives the events types: what each event carries, that every publisher of the firmware keeps to it, and that
  no subscriber fails on an event that does.
\<close>

section \<open>Types of events\<close>

text \<open>Data that has the declared sizes, and the size the code puts into \<open>payload_len\<close>.\<close>

primrec data_ok :: "event_data \<Rightarrow> bool" where
  "data_ok Data_none \<longleftrightarrow> True"
| "data_ok (Data_time t) \<longleftrightarrow> True"
| "data_ok (Data_weather w) \<longleftrightarrow> length (hourly_today w) = 24"
| "data_ok (Data_app_update u) \<longleftrightarrow> length (au_data u) = MAX_APP_RESPONSE_SIZE"
| "data_ok (Data_notification n) \<longleftrightarrow> Ble_Response.notif_typed n \<and> Notification_Manager.notif_typed n"
| "data_ok (Data_ble_req r) \<longleftrightarrow> req_ok r"
| "data_ok (Data_alarm al) \<longleftrightarrow> True"
| "data_ok (Data_steps n) \<longleftrightarrow> True"

primrec data_size :: "event_data \<Rightarrow> nat" where
  "data_size Data_none = 0"
| "data_size (Data_time t) = 4"
| "data_size (Data_weather w) = sizeof_weather_sync"
| "data_size (Data_app_update u) = sizeof_app_update"
| "data_size (Data_notification n) = sizeof_notification"
| "data_size (Data_ble_req r) = sizeof_ble_req"
| "data_size (Data_alarm al) = sizeof_alarm"
| "data_size (Data_steps n) = 4"

primrec carried_by :: "event_data \<Rightarrow> event_id set" where
  "carried_by Data_none = {EVENT_UI_INACTIVE, EVENT_WATCHFACE_UPDATE, EVENT_WORK_TICK, EVENT_SENSOR_TICK, EVENT_DFU_START}"
| "carried_by (Data_time t) = {EVENT_TIME_SYNC}"
| "carried_by (Data_weather w) = {EVENT_WEATHER_SYNC}"
| "carried_by (Data_app_update u) = {EVENT_APP_WORK_SCHEDULE}"
| "carried_by (Data_notification n) = {EVENT_NOTIFICATION_RECEIVED}"
| "carried_by (Data_ble_req r) = {EVENT_BLE_REQUEST}"
| "carried_by (Data_alarm al) = {EVENT_ALARM_TRIGGERED}"
| "carried_by (Data_steps n) = {EVENT_NEW_STEPS}"

definition event_wt :: "sys_event \<Rightarrow> bool" where
  "event_wt e \<longleftrightarrow> ev e \<in> carried_by (ev_data e) \<and> ev_payload_len e = data_size (ev_data e) \<and> data_ok (ev_data e)"

lemma wt_data:
  assumes "event_wt e"
  shows "ev e = EVENT_TIME_SYNC \<Longrightarrow> \<exists>t. ev_data e = Data_time t \<and> ev_payload_len e = 4"
    and "ev e = EVENT_WEATHER_SYNC \<Longrightarrow> \<exists>w. ev_data e = Data_weather w \<and> ev_payload_len e = sizeof_weather_sync \<and> length (hourly_today w) = 24"
    and "ev e = EVENT_NEW_STEPS \<Longrightarrow> \<exists>n. ev_data e = Data_steps n \<and> ev_payload_len e = 4"
    and "ev e = EVENT_NOTIFICATION_RECEIVED \<Longrightarrow>
      \<exists>n. ev_data e = Data_notification n \<and> ev_payload_len e = sizeof_notification \<and> Notification_Manager.notif_typed n"
    and "ev e = EVENT_BLE_REQUEST \<Longrightarrow> \<exists>r. ev_data e = Data_ble_req r \<and> ev_payload_len e = sizeof_ble_req \<and> req_ok r"
    and "ev e = EVENT_APP_WORK_SCHEDULE \<Longrightarrow> \<exists>u. ev_data e = Data_app_update u \<and> ev_payload_len e = sizeof_app_update"
    and "ev e = EVENT_ALARM_TRIGGERED \<Longrightarrow> \<exists>al. ev_data e = Data_alarm al \<and> ev_payload_len e = sizeof_alarm"
  using assms by (cases "ev_data e"; simp add: event_wt_def)+

section \<open>Publishers\<close>

text \<open>Subscribers that behave in any way at all on an ill-typed event.\<close>

definition only_typed :: "('h \<Rightarrow> sys_event \<Rightarrow> 'a \<Rightarrow> 'a) \<Rightarrow> ('h \<Rightarrow> sys_event \<Rightarrow> 'a \<Rightarrow> 'a) \<Rightarrow> 'h \<Rightarrow> sys_event \<Rightarrow> 'a \<Rightarrow> 'a" where
  "only_typed bad call h e s = (if event_wt e then call h e s else bad h e s)"

lemma only_typed_wt: "event_wt e \<Longrightarrow> only_typed bad call h e s = call h e s"
  by (simp add: only_typed_def)

lemma publish_loop_typed: "event_wt e \<Longrightarrow> publish_loop (only_typed bad call) e i s = publish_loop call e i s"
proof (induction call e i s rule: publish_loop.induct)
  case (1 call e i s)
  then show ?case
    by (subst (1 2) publish_loop.simps) (auto simp: only_typed_wt split: option.split)
qed

lemma publish_typed: "event_wt e \<Longrightarrow> event_publish (only_typed bad call) (Some e) s = event_publish call (Some e) s"
  by (simp add: event_publish_def publish_loop_typed)

lemma plain_wt: "e \<in> carried_by Data_none \<Longrightarrow> event_wt (plain_event e)"
  by (simp add: event_wt_def plain_event_def)

lemma request_wt: "event_wt (sync_request UPDATE_SYSTEM_TIME)" "event_wt (sync_request UPDATE_SYSTEM_WEATHER)"
  "event_wt (dated_weather_event app d)"
  by (simp_all add: event_wt_def sync_request_def dated_weather_event_def req_ok_def date_payload_def ble_consts)

lemma inactive_wt: "event_wt ui_inactive_event"
  by (simp add: event_wt_def ui_inactive_event_def)

lemma step_wt: "event_wt (step_event n)"
  by (simp add: event_wt_def step_event_def)

lemma alarm_wt: "event_wt \<lparr>ev = EVENT_ALARM_TRIGGERED, ev_payload_len = sizeof_alarm, ev_data = Data_alarm al\<rparr>"
  by (simp add: event_wt_def)

lemma dfu_wt: "event_wt \<lparr>ev = EVENT_DFU_START, ev_payload_len = 0, ev_data = Data_none\<rparr>"
  by (simp add: event_wt_def)

lemma dep_tick_typed: "set ls \<subseteq> {..<length dep_tick_registry} \<Longrightarrow> dep_tick_loop (only_typed bad call) ls s = dep_tick_loop call ls s"
proof (induction ls arbitrary: s)
  case (Cons i ls)
  then have "i = 0" by (simp add: dep_tick_registry_def)
  then have "event_publish (only_typed bad call) (Some (plain_event (event_mapping (dep_tick_registry ! i)))) t =
      event_publish call (Some (plain_event (event_mapping (dep_tick_registry ! i)))) t" for t
    by (intro publish_typed plain_wt) (simp add: dep_tick_registry_def)
  moreover have "dep_tick_loop (only_typed bad call) ls = dep_tick_loop call ls"
    using Cons by auto
  ultimately show ?case
    by (simp only: dep_tick_loop.simps)
qed simp

lemma tick_typed: "tick_event_cb (only_typed bad call) type now s = tick_event_cb call type now s"
proof -
  have ticks: "dep_tick_loop (only_typed bad call) [0..<length dep_tick_registry] t = dep_tick_loop call [0..<length dep_tick_registry] t" for t
    by (rule dep_tick_typed) auto
  have wt: "event_wt (plain_event EVENT_WATCHFACE_UPDATE)" "event_wt (plain_event EVENT_WORK_TICK)"
    by (simp_all add: plain_wt)
  show ?thesis
    unfolding tick_event_cb_def publish_typed [OF wt(1)] publish_typed [OF wt(2)] ticks by (rule refl)
qed

lemma state_typed:
  "state_manager_init (only_typed bad call) hid timer_ok mutex_ok s = state_manager_init call hid timer_ok mutex_ok s"
  "state_manager_check_validity (only_typed bad call) s = state_manager_check_validity call s"
  unfolding state_manager_init_def state_manager_check_validity_def publish_typed [OF request_wt(1)] publish_typed [OF request_wt(2)]
  by (rule refl)+

lemma notification_typed:
  assumes "parse_notification_payload payload len n0 = Some (Some n)" "data_ok (Data_notification n0)"
  shows "data_ok (Data_notification n)"
  using assms
  by (auto simp: parse_notification_payload_def extract_lean_string_def Let_def bind_eq_Some_conv Ble_Response.notif_typed_def
      Notification_Manager.notif_typed_def split: if_splits option.splits dest!: mem_write_length)

lemma response_typed:
  assumes "ble_msg_ok msg" "data_ok (Data_notification garbage_n)" "length garbage_data = MAX_APP_RESPONSE_SIZE"
  shows "handle_ble_response (only_typed bad call) crc32 malloc garbage_n garbage_data (Some msg) s =
     handle_ble_response call crc32 malloc garbage_n garbage_data (Some msg) s"
proof -
  have len: "148 \<le> length (m_payload msg)"
    using assms(1) by (simp add: ble_msg_ok_def ble_msg_typed_def ble_consts)
  obtain w where w: "parse_weather_payload (m_payload msg) = Some w" "length (hourly_today w) = 24"
    using parse_weather_total [OF len] by blast
  have pub: "publish_data (only_typed bad call) e n d s = publish_data call e n d s"
    if "event_wt \<lparr>ev = e, ev_payload_len = n, ev_data = d\<rparr>" for e n d
    using publish_typed [OF that] by (simp add: publish_data_def)
  have time: "publish_data (only_typed bad call) EVENT_TIME_SYNC 4 (Data_time t) s = publish_data call EVENT_TIME_SYNC 4 (Data_time t) s" for t
    by (rule pub) (simp add: event_wt_def)
  have weather: "publish_data (only_typed bad call) EVENT_WEATHER_SYNC sizeof_weather_sync (Data_weather w) s =
      publish_data call EVENT_WEATHER_SYNC sizeof_weather_sync (Data_weather w) s"
    by (rule pub) (simp add: event_wt_def w(2))
  have update: "publish_data (only_typed bad call) EVENT_APP_WORK_SCHEDULE sizeof_app_update (Data_app_update u) s =
      publish_data call EVENT_APP_WORK_SCHEDULE sizeof_app_update (Data_app_update u) s" if "length (au_data u) = MAX_APP_RESPONSE_SIZE" for u
    by (rule pub) (simp add: event_wt_def that)
  have note1: "publish_data (only_typed bad call) EVENT_NOTIFICATION_RECEIVED sizeof_notification (Data_notification n) s =
      publish_data call EVENT_NOTIFICATION_RECEIVED sizeof_notification (Data_notification n) s"
    if "parse_notification_payload (m_payload msg) l garbage_n = Some (Some n)" for n l
    by (rule pub) (use notification_typed [OF that assms(2)] in \<open>simp add: event_wt_def\<close>)
  have dated: "Option.bind (mem_write garbage_data 0 x) (\<lambda>d. publish_data (only_typed bad call) EVENT_APP_WORK_SCHEDULE sizeof_app_update
      (Data_app_update \<lparr>au_req = DATED_WEATHER_REQUEST, au_req_app = a, au_data = d\<rparr>) s) =
    Option.bind (mem_write garbage_data 0 x) (\<lambda>d. publish_data call EVENT_APP_WORK_SCHEDULE sizeof_app_update
      (Data_app_update \<lparr>au_req = DATED_WEATHER_REQUEST, au_req_app = a, au_data = d\<rparr>) s)" for x a
    using update assms(3) by (cases "mem_write garbage_data 0 x") (auto dest: mem_write_length)
  have ntf: "Option.bind (parse_notification_payload (m_payload msg) l garbage_n) (\<lambda>r. case r of None \<Rightarrow> Some (False, s)
      | Some nt \<Rightarrow> publish_data (only_typed bad call) EVENT_NOTIFICATION_RECEIVED sizeof_notification (Data_notification nt) s) =
    Option.bind (parse_notification_payload (m_payload msg) l garbage_n) (\<lambda>r. case r of None \<Rightarrow> Some (False, s)
      | Some nt \<Rightarrow> publish_data call EVENT_NOTIFICATION_RECEIVED sizeof_notification (Data_notification nt) s)" for l
    using note1 by (cases "parse_notification_payload (m_payload msg) l garbage_n") (auto split: option.split)
  show ?thesis
    unfolding handle_ble_response_def Let_def option.case w(1) Option.bind.simps time weather dated ntf by (rule refl)
qed

text \<open>
  C32: every publisher sends what its event promises. These are all the functions that publish: the handling of a
  response from the phone, the tick callback, the motion work, the alarm callback, the start of the state manager and its
  validity check, two calls of applications, and the thread of the graphics library. They put events on the bus whose
  data has the type, the length and the array sizes that belong to the event; so none of them could tell the real
  subscribers from subscribers that do anything whatever with an ill-typed event.
\<close>

theorem publishers_well_typed:
  assumes "ble_msg_ok msg" and "data_ok (Data_notification garbage_n)" and "length garbage_data = MAX_APP_RESPONSE_SIZE"
  shows "handle_ble_response (only_typed bad1 c1) crc32 malloc garbage_n garbage_data (Some msg) s1 =
       handle_ble_response c1 crc32 malloc garbage_n garbage_data (Some msg) s1 \<and>
     tick_event_cb (only_typed bad2 c2) type now s2 = tick_event_cb c2 type now s2 \<and>
     process_imu_data fo ienv (only_typed bad3 c3) flag junk sn s3 = process_imu_data fo ienv c3 flag junk sn s3 \<and>
     alarm_fired_cb (only_typed bad4 c4) take_ok now4 s4 = alarm_fired_cb c4 take_ok now4 s4 \<and>
     state_manager_init (only_typed bad3 c3) hid timer_ok mutex_ok s3 = state_manager_init c3 hid timer_ok mutex_ok s3 \<and>
     state_manager_check_validity (only_typed bad3 c3) s3 = state_manager_check_validity c3 s3 \<and>
     request_ble_resource (only_typed bad5 c5) app req data s5 = request_ble_resource c5 app req data s5 \<and>
     trigger_dfu_over_uart (only_typed bad5 c5) app s5 = trigger_dfu_over_uart c5 app s5 \<and>
     lvgl_task (only_typed bad6 c6) start passes s6 = lvgl_task c6 start passes s6"
proof (intro conjI)
  show "process_imu_data fo ienv (only_typed bad3 c3) flag junk sn s3 = process_imu_data fo ienv c3 flag junk sn s3"
    unfolding process_imu_data_def publish_typed [OF step_wt] by (rule refl)
  show "alarm_fired_cb (only_typed bad4 c4) take_ok now4 s4 = alarm_fired_cb c4 take_ok now4 s4"
    unfolding alarm_fired_cb_def publish_typed [OF alarm_wt] by (rule refl)
  show "request_ble_resource (only_typed bad5 c5) app req data s5 = request_ble_resource c5 app req data s5"
    unfolding request_ble_resource_def publish_typed [OF request_wt(3)] by (rule refl)
  have "lvgl_task_pass (only_typed bad6 c6) wl timeout p = lvgl_task_pass c6 wl timeout p" for wl timeout p
    unfolding lvgl_task_pass_def publish_typed [OF inactive_wt] by (rule refl)
  then have "lvgl_task_loop (only_typed bad6 c6) passes st = lvgl_task_loop c6 passes st" for st
    by (induction passes arbitrary: st) simp_all
  then show "lvgl_task (only_typed bad6 c6) start passes s6 = lvgl_task c6 start passes s6"
    by (simp add: lvgl_task_def)
  show "trigger_dfu_over_uart (only_typed bad5 c5) app s5 = trigger_dfu_over_uart c5 app s5"
    unfolding trigger_dfu_over_uart_def publish_typed [OF dfu_wt] by (rule refl)
qed (rule response_typed [OF assms] tick_typed state_typed)+

section \<open>Subscribers\<close>

text \<open>
  The subscribers of the firmware with their states, each under the event it subscribes to, in the order in which the
  components are started (\<open>main.c\<close>). \<open>dv_take\<close>: the alarm lock can be taken; \<open>dv_app\<close>, \<open>dv_ui\<close>, \<open>dv_imu\<close>, \<open>dv_bmp\<close>
  and \<open>dv_batt\<close> are the work functions of the application manager, the user interface and the sensors;
  \<open>dv_junk\<close> is uninitialised memory; \<open>dv_restart\<close> and \<open>dv_now\<close> are the answer of the timer and the clock that the
  power manager finds.
\<close>

record ('f, 'q, 'p) delivery =
  dv_env :: rt_env
  dv_ops :: "('f work_item, 'q) queue_ops"
  dv_power :: "(power_cmd, 'p) queue_ops"
  dv_restart :: bool
  dv_now :: int
  dv_take :: bool
  dv_app :: 'f
  dv_ui :: 'f
  dv_imu :: 'f
  dv_bmp :: 'f
  dv_batt :: 'f
  dv_junk :: "byte list"

record ('h, 'f, 'q, 'p, 'w) parts =
  pt_state :: "'h state_sys"
  pt_power :: "('h, 'p) power_sys"
  pt_notif :: "'h notif_sys"
  pt_link :: ble_link
  pt_apps :: "('h, 'w) app_sys"
  pt_faces :: "'h wf_sys"
  pt_rt :: "('f, 'q) runtime"

definition deliver :: "('f, 'q, 'p) delivery \<Rightarrow> sys_event \<Rightarrow> ('h, 'f, 'q, 'p, 'w) parts \<Rightarrow> ('h, 'f, 'q, 'p, 'w) parts option" where
  "deliver d e p =
     (let g = pt_state p; env = dv_env d; ops = dv_ops d in
      case ev e of
        EVENT_TIME_SYNC \<Rightarrow> map_option (\<lambda>(cs, s). p\<lparr>pt_state := s\<rparr>) (update_time_state_cb (dv_take d) e g)
      | EVENT_WEATHER_SYNC \<Rightarrow> map_option (\<lambda>s. p\<lparr>pt_state := s\<rparr>) (update_weather_state_cb e g)
      | EVENT_NEW_STEPS \<Rightarrow> map_option (\<lambda>s. p\<lparr>pt_state := s\<rparr>) (update_steps_cb (Some e) g)
      | EVENT_NOTIFICATION_RECEIVED \<Rightarrow> map_option (\<lambda>s. p\<lparr>pt_notif := s\<rparr>) (receive_notification e (pt_notif p))
      | EVENT_BLE_REQUEST \<Rightarrow> map_option (\<lambda>b. p\<lparr>pt_link := b\<rparr>) (submit_ble_request (Some e) (pt_link p))
      | EVENT_APP_WORK_SCHEDULE \<Rightarrow>
          map_option (\<lambda>r. p\<lparr>pt_rt := r\<rparr>) (receive_app_update env ops (dv_app d) (Some e) (pt_apps p) (pt_rt p))
      | EVENT_ALARM_TRIGGERED \<Rightarrow>
          map_option (\<lambda>r. p\<lparr>pt_power := alarm_triggered_cb (dv_power d) (pt_power p), pt_rt := r\<rparr>)
            (alarm_triggred_event_cb env ops (dv_ui d) (dv_junk d) (Some e) (pt_rt p))
      | EVENT_WATCHFACE_UPDATE \<Rightarrow>
          map_option (\<lambda>s. p\<lparr>pt_faces := s\<rparr>)
            (dispatch_wf_update (state_manager_get_epoch_time g) (state_manager_get_weather_today g) (state_manager_get_step_count g)
              (pt_faces p))
      | EVENT_UI_INACTIVE \<Rightarrow> map_option (\<lambda>s. p\<lparr>pt_power := s\<rparr>) (ui_inactive_event_cb (dv_power d) e (pt_power p))
      | EVENT_DFU_START \<Rightarrow> map_option (\<lambda>(cs, s). p\<lparr>pt_power := s\<rparr>) (dfu_update_start_handler (pt_power p))
      | EVENT_WORK_TICK \<Rightarrow>
          map_option (\<lambda>r. p\<lparr>pt_power := snd (sleep_debug_cb (dv_restart d) (dv_now d) (Some e) (pt_power p)), pt_rt := r\<rparr>)
            (Option.bind (start_work_cb env ops (pt_rt p)) (schedule_imu_work env ops (dv_imu d)))
      | EVENT_SENSOR_TICK \<Rightarrow> map_option (\<lambda>r. p\<lparr>pt_rt := r\<rparr>) (schedule_sensor_work env ops (dv_bmp d) (dv_batt d) (pt_rt p))
      | _ \<Rightarrow> Some p)"

text \<open>A power manager that has been started and has its queue and its lock.\<close>

definition power_ok :: "('h, 'p, 'z) power_sys_scheme \<Rightarrow> bool" where
  "power_ok s \<longleftrightarrow> pm_initialized s \<and> power_queue s \<noteq> None \<and> hw_sleep_lock s \<noteq> None"

definition parts_ok :: "('q \<Rightarrow> 'f work_item list) \<Rightarrow> ('q \<Rightarrow> nat) \<Rightarrow> ('h, 'f, 'q, 'p, 'w) parts \<Rightarrow> bool" where
  "parts_ok items cap p \<longleftrightarrow>
     length (state_manager_get_weather_today (pt_state p)) = 24 \<and> alarm_mgr_ok (as_mgr (pt_state p)) \<and> power_ok (pt_power p) \<and>
     notif_ok (pt_notif p) \<and> ble_fifo_ok (bl_fifo (pt_link p)) \<and> rt_ok items cap (pt_rt p) \<and>
     (\<forall>face. curr_wf (pt_faces p) = Some face \<longrightarrow> wf_updates face)"

lemma revalidate_total:
  assumes "alarm_mgr_ok m"
  shows "yields (alarm_manager_revalidate take_ok now now2 m) (\<lambda>(r, cs, m'). alarm_mgr_ok m')"
proof (cases "alarm_manager_revalidate take_ok now now2 m")
  case None
  then obtain a where "am_alarms m = Some a" "discard_expired_alarms now a = None"
    by (auto simp: alarm_manager_revalidate_def Let_def bind_eq_None_conv split: option.splits if_splits)
  then show ?thesis
    using discard_correct [of a now] assms by (auto simp: alarm_mgr_ok_def)
next
  case (Some r)
  then show ?thesis
    using revalidate_keeps [OF _ assms] by (cases r) auto
qed

lemma deliver_state:
  assumes "event_wt e" "length (state_manager_get_weather_today s) = 24" "alarm_mgr_ok (as_mgr s)"
  shows "ev e = EVENT_TIME_SYNC \<Longrightarrow> yields (update_time_state_cb take_ok e s)
      (\<lambda>(cs, s'). length (state_manager_get_weather_today s') = 24 \<and> alarm_mgr_ok (as_mgr s'))"
    and "ev e = EVENT_WEATHER_SYNC \<Longrightarrow> yields (update_weather_state_cb e s)
      (\<lambda>s'. length (state_manager_get_weather_today s') = 24 \<and> alarm_mgr_ok (as_mgr s'))"
    and "ev e = EVENT_NEW_STEPS \<Longrightarrow> yields (update_steps_cb (Some e) s)
      (\<lambda>s'. length (state_manager_get_weather_today s') = 24 \<and> alarm_mgr_ok (as_mgr s'))"
proof -
  show "yields (update_time_state_cb take_ok e s) (\<lambda>(cs, s'). length (state_manager_get_weather_today s') = 24 \<and> alarm_mgr_ok (as_mgr s'))"
    if ev: "ev e = EVENT_TIME_SYNC"
  proof -
    obtain t where t: "ev_data e = Data_time t" "ev_payload_len e = 4"
      using wt_data(1) [OF assms(1) ev] by blast
    show ?thesis
      unfolding update_time_state_cb_def t(1) event_data.case Let_def
      using t(2) assms(2)
      by (auto simp: state_manager_get_weather_today_def intro!: yields_mono [OF revalidate_total [OF assms(3)]])
  qed
  show "yields (update_weather_state_cb e s) (\<lambda>s'. length (state_manager_get_weather_today s') = 24 \<and> alarm_mgr_ok (as_mgr s'))"
    if "ev e = EVENT_WEATHER_SYNC"
    using wt_data(2) [OF assms(1) that] assms(2,3) by (auto simp: update_weather_state_cb_def state_manager_get_weather_today_def)
  show "yields (update_steps_cb (Some e) s) (\<lambda>s'. length (state_manager_get_weather_today s') = 24 \<and> alarm_mgr_ok (as_mgr s'))"
    if "ev e = EVENT_NEW_STEPS"
    using wt_data(3) [OF assms(1) that] assms(2,3) by (auto simp: update_steps_cb_def state_manager_get_weather_today_def)
qed

lemma deliver_notification:
  assumes "event_wt e" "ev e = EVENT_NOTIFICATION_RECEIVED" "notif_ok s"
  shows "yields (receive_notification e s) notif_ok"
proof -
  obtain n where "ev_data e = Data_notification n" "ev_payload_len e = sizeof_notification" "Notification_Manager.notif_typed n"
    using wt_data(4) [OF assms(1,2)] by blast
  then have "e = notif_event n" "Notification_Manager.notif_typed n"
    using assms(2) by (simp_all add: notif_event_def)
  then show ?thesis
    using receive_refines [OF assms(3), of n] by auto
qed

lemma deliver_request:
  assumes "event_wt e" "ev e = EVENT_BLE_REQUEST" "ble_fifo_ok (bl_fifo b)"
  shows "yields (submit_ble_request (Some e) b) (\<lambda>b'. ble_fifo_ok (bl_fifo b'))"
proof -
  obtain r where "ev_data e = Data_ble_req r" "ev_payload_len e = sizeof_ble_req" "req_ok r"
    using wt_data(5) [OF assms(1,2)] by blast
  then show ?thesis
    using handle_ble_request_ok [OF assms(3), of r] by (auto simp: submit_ble_request_def)
qed

lemma deliver_work:
  assumes "event_wt e" "queue_spec ops items cap" "rt_ok items cap r"
  shows "ev e = EVENT_APP_WORK_SCHEDULE \<Longrightarrow> yields (receive_app_update env ops f (Some e) a r) (rt_ok items cap)"
    and "ev e = EVENT_ALARM_TRIGGERED \<Longrightarrow> yields (alarm_triggred_event_cb env ops f junk (Some e) r) (rt_ok items cap)"
proof -
  show "yields (receive_app_update env ops f (Some e) a r) (rt_ok items cap)" if ev: "ev e = EVENT_APP_WORK_SCHEDULE"
  proof -
    obtain u where "ev_data e = Data_app_update u" "ev_payload_len e = sizeof_app_update"
      using wt_data(6) [OF assms(1) ev] by blast
    then show ?thesis
      using assms(3) schedule_user_ok [OF assms(2,3), of env "Some (app_work f u)"] by (auto simp: receive_app_update_def)
  qed
  show "yields (alarm_triggred_event_cb env ops f junk (Some e) r) (rt_ok items cap)" if ev: "ev e = EVENT_ALARM_TRIGGERED"
  proof -
    obtain al where "ev_data e = Data_alarm al" "ev_payload_len e = sizeof_alarm"
      using wt_data(7) [OF assms(1) ev] by blast
    then show ?thesis
      using schedule_system_ok [OF assms(2,3), of "Some (alarm_work f junk al)" env]
      by (auto simp: alarm_triggred_event_cb_def alarm_work_def)
  qed
qed

lemma deliver_face:
  assumes "length weather = 24" "\<forall>face. curr_wf s = Some face \<longrightarrow> wf_updates face"
  shows "yields (dispatch_wf_update now weather cnt s) (\<lambda>s'. \<forall>face. curr_wf s' = Some face \<longrightarrow> wf_updates face)"
proof (cases "wf_initialized s \<and> curr_wf s \<noteq> None")
  case True
  then obtain face where "wf_initialized s" "curr_wf s = Some face" "wf_updates face"
    using assms(2) by auto
  then show ?thesis
    using watchface_update_hour [of s face weather now cnt] assms by simp
next
  case False
  then show ?thesis
    using assms(2) by (auto simp: dispatch_wf_update_def split: option.split)
qed

lemma deliver_power:
  assumes "power_ok s"
  shows "power_ok (alarm_triggered_cb pops s)" and "yields (ui_inactive_event_cb pops e s) power_ok"
    and "yields (dfu_update_start_handler s) (\<lambda>(cs, s'). power_ok s')" and "power_ok (snd (sleep_debug_cb restart now (Some e) s))"
proof -
  show "power_ok (alarm_triggered_cb pops s)"
    using assms by (auto simp: power_ok_def alarm_triggered_cb_def transition_to_ui_active_def split: option.split)
  show "yields (ui_inactive_event_cb pops e s) power_ok"
    using assms by (auto simp: power_ok_def ui_inactive_event_cb_def)
  show "yields (dfu_update_start_handler s) (\<lambda>(cs, s'). power_ok s')"
    using assms by (auto simp: power_ok_def dfu_update_start_handler_def power_manager_prevent_sleep_def)
  have "power_ok (snd (sync_bt_with_work_window restart now t))" if "power_ok t" for t :: "('a, 'b, 'c) power_sys_scheme"
    using that by (auto simp: power_ok_def sync_bt_with_work_window_def Let_def)
  moreover have "power_ok (t\<lparr>shift_calculator := c\<rparr>) = power_ok t" "power_ok (t\<lparr>pm_stats := st\<rparr>) = power_ok t"
    for t :: "('a, 'b, 'c) power_sys_scheme" and c st
    by (simp_all add: power_ok_def)
  ultimately show "power_ok (snd (sleep_debug_cb restart now (Some e) s))"
    using assms by (simp add: sleep_debug_cb_def print_debug_logs_def split_beta Let_def)
qed

lemma deliver_ticks:
  assumes "queue_spec ops items cap" "rt_ok items cap r" "e_now env \<noteq> 0"
  shows "\<exists>r'. Option.bind (start_work_cb env ops r) (schedule_imu_work env ops f) = Some r' \<and> rt_ok items cap r'"
    and "yields (schedule_sensor_work env ops f1 f2 r) (rt_ok items cap)"
proof -
  have sys: "\<forall>y. Some (sensor_item g) = Some y \<longrightarrow> wi_type y = WORK_TYPE_SYSTEM" for g :: 'a
    by (simp add: sensor_item_def)
  obtain r1 where r1: "start_work_cb env ops r = Some r1" "rt_ok items cap r1"
    using tick_ok [OF assms] by blast
  obtain b r2 where "schedule_system_work env ops (Some (sensor_item f)) r1 = Some (b, r2)" "rt_ok items cap r2"
    using schedule_system_ok [OF assms(1) r1(2) sys] by blast
  then show "\<exists>r'. Option.bind (start_work_cb env ops r) (schedule_imu_work env ops f) = Some r' \<and> rt_ok items cap r'"
    using r1 by (simp add: schedule_imu_work_def)
  obtain b1 s1 where s1: "schedule_system_work env ops (Some (sensor_item f1)) r = Some (b1, s1)" "rt_ok items cap s1"
    using schedule_system_ok [OF assms(1,2) sys] by blast
  obtain b2 s2 where "schedule_system_work env ops (Some (sensor_item f2)) s1 = Some (b2, s2)" "rt_ok items cap s2"
    using schedule_system_ok [OF assms(1) s1(2) sys] by blast
  then show "yields (schedule_sensor_work env ops f1 f2 r) (rt_ok items cap)"
    using s1(1) by (simp add: schedule_sensor_work_def)
qed

lemma deliver_ok:
  assumes "queue_spec (dv_ops d) items cap" "event_wt e" "parts_ok items cap p" "e_now (dv_env d) \<noteq> 0"
  shows "yields (deliver d e p) (parts_ok items cap)"
proof -
  note ok = assms(3) [unfolded parts_ok_def]
  note ticks = deliver_ticks [OF assms(1) _ assms(4), of "pt_rt p"]
  show ?thesis
  proof (cases "ev e = EVENT_WORK_TICK")
    case True
    obtain r' where "Option.bind (start_work_cb (dv_env d) (dv_ops d) (pt_rt p)) (schedule_imu_work (dv_env d) (dv_ops d) (dv_imu d)) = Some r'"
      "rt_ok items cap r'"
      using ticks(1) ok by blast
    then have "deliver d e p = Some (p\<lparr>pt_power := snd (sleep_debug_cb (dv_restart d) (dv_now d) (Some e) (pt_power p)), pt_rt := r'\<rparr>)"
      using True by (simp add: deliver_def Let_def)
    then show ?thesis
      using ok \<open>rt_ok items cap r'\<close> deliver_power(4) [of "pt_power p"] by (simp add: parts_ok_def)
  next
    case False
    then show ?thesis
      using ok deliver_state(1) [OF assms(2), of "pt_state p" "dv_take d"] deliver_state(2,3) [OF assms(2), of "pt_state p"] deliver_notification [OF assms(2), of "pt_notif p"]
        deliver_request [OF assms(2), of "pt_link p"] deliver_work [OF assms(2,1), of "pt_rt p"]
        deliver_face [of "state_manager_get_weather_today (pt_state p)" "pt_faces p"] deliver_power(1-3) [of "pt_power p"] ticks(2)
      by (cases "ev e") (auto simp: deliver_def Let_def parts_ok_def elim!: yields_mono)
  qed
qed

text \<open>
  C33: well-typed events never go wrong. Let the components be started, and let the clock not read zero. However many
  well-typed events are delivered, and in whatever order, no subscriber fails an assertion, reads data as something else,
  leaves an array or uses a null queue, and the states of all of them stay in order: the 24 hours of weather that the
  watchface reads, the alarm list, the power manager with its queue and lock, the notification array, the queues to the
  phone and to the workers. (On every event of the firmware; the subscribers are all those of the managers of state,
  power, notifications, Bluetooth, applications, watchfaces, runtime, sensors and user interface.)
\<close>

theorem well_typed_events_handled:
  assumes "queue_spec (dv_ops d) items cap" and "parts_ok items cap p" and "\<forall>e \<in> set es. event_wt e" and "e_now (dv_env d) \<noteq> 0"
  shows "\<exists>p'. mfold (deliver d) es p = Some p' \<and> parts_ok items cap p'"
  using assms(2,3)
proof (induction es arbitrary: p)
  case (Cons e es)
  then obtain p1 where "deliver d e p = Some p1" "parts_ok items cap p1"
    using yieldsD [OF deliver_ok [OF assms(1) _ _ assms(4)], of e p] by auto
  then show ?case
    using Cons by simp
qed simp

section \<open>Witnesses\<close>

theorem publishers_well_typed_witness:
  "handle_ble_response (only_typed (\<lambda>h e s. s\<lparr>em_initialized := False\<rparr>) (\<lambda>h e s. s)) (\<lambda>d. 0) malloc_zero notif_zero (replicate 220 0)
      (Some ble_msg_example) sys_start =
   handle_ble_response (\<lambda>h e s. s) (\<lambda>d. 0) malloc_zero notif_zero (replicate 220 0) (Some ble_msg_example) sys_start"
proof -
  have "data_ok (Data_notification notif_zero)"
    by (simp add: Ble_Response.notif_typed_def Notification_Manager.notif_typed_def notif_zero_def)
  then show ?thesis
    by (rule publishers_well_typed [OF ble_msg_example_ok, THEN conjunct1]) (simp add: common_consts)
qed

definition ex_delivery :: "(nat, nat \<times> nat work_item list, nat \<times> power_cmd list) delivery" where
  "ex_delivery = \<lparr>dv_env = ex_env, dv_ops = list_queue, dv_power = list_queue, dv_restart = True, dv_now = 5000, dv_take = True,
     dv_app = 1, dv_ui = 2, dv_imu = 3, dv_bmp = 4, dv_batt = 5, dv_junk = []\<rparr>"

text \<open>Steps, a weather request, ticks of the work and of the watchface, inactivity, an alarm and the start of an update.\<close>

theorem well_typed_events_handled_witness:
  "\<exists>(p :: (nat, nat, nat \<times> nat work_item list, nat \<times> power_cmd list, map_store) parts) p'.
     mfold (deliver ex_delivery) [step_event 5, dated_weather_event ex_app (get_date_time_from_epoch 0), plain_event EVENT_WATCHFACE_UPDATE,
       plain_event EVENT_WORK_TICK, ui_inactive_event, plain_event EVENT_DFU_START,
       \<lparr>ev = EVENT_ALARM_TRIGGERED, ev_payload_len = sizeof_alarm, ev_data = Data_alarm Ui_Base.ex_alarm\<rparr>] p = Some p' \<and>
     parts_ok list_items fst p'"
proof -
  obtain r :: "(nat, nat \<times> nat work_item list) runtime" where r: "rt_ok list_items fst r"
    using ex_rt_ok by blast
  define p :: "(nat, nat, nat \<times> nat work_item list, nat \<times> power_cmd list, map_store) parts" where
    "p = \<lparr>pt_state = ex_state [], pt_power = ex_power, pt_notif = ex_notif_sys, pt_link = ble_link_start\<lparr>bl_fifo := ble_fifo_start\<rparr>, pt_apps = ex_app_sys,
       pt_faces = ex_wf_sys\<lparr>curr_wf := Some (ex_face 1)\<rparr>, pt_rt = r\<rparr>"
  have "alarm_mgr_ok (ex_mgr [])"
    using ex_alarms_ok [of "[]"] by (simp add: alarm_mgr_ok_def ex_mgr_def ex_alarms_list)
  then have "parts_ok list_items fst p"
    using r ble_fifo_start_ok
    by (simp add: parts_ok_def p_def ex_state_def state_manager_get_weather_today_def zero_defs ex_notif_sys_def notif_ok_def ex_face_def
        power_ok_def ex_power_def)
  moreover have "queue_spec (dv_ops ex_delivery) list_items fst"
    using list_queue_spec by (simp add: ex_delivery_def)
  moreover have "event_wt (step_event 5)" "event_wt (plain_event EVENT_WATCHFACE_UPDATE)" "event_wt (plain_event EVENT_WORK_TICK)"
    "event_wt (plain_event EVENT_DFU_START)"
    by (rule step_wt) (simp_all add: plain_wt)
  then have "\<forall>e \<in> set [step_event 5, dated_weather_event ex_app (get_date_time_from_epoch 0), plain_event EVENT_WATCHFACE_UPDATE,
       plain_event EVENT_WORK_TICK, ui_inactive_event, plain_event EVENT_DFU_START,
      \<lparr>ev = EVENT_ALARM_TRIGGERED, ev_payload_len = sizeof_alarm, ev_data = Data_alarm Ui_Base.ex_alarm\<rparr>]. event_wt e"
    using request_wt(3) alarm_wt inactive_wt by simp
  moreover have "e_now (dv_env ex_delivery) \<noteq> 0"
    by (simp add: ex_delivery_def ex_env_def)
  ultimately show ?thesis
    using well_typed_events_handled [of ex_delivery list_items fst p] by blast
qed

end
