(* ===== verification/Text_Format.thy ===== *)
theory Text_Format
  imports Prelude
begin

text \<open>
  Numbers in texts: what the program uses of \<open>snprintf\<close> and \<open>sscanf\<close> in the texts of its screens.
\<close>

section \<open>Printing and scanning\<close>

text \<open>\<open>%0wu\<close> of \<open>snprintf\<close>, and \<open>%wu\<close> of \<open>sscanf\<close> on a text without white space.\<close>

definition digit_char :: "nat \<Rightarrow> char" where
  "digit_char d = char_of (48 + d)"

definition char_digit :: "char \<Rightarrow> nat option" where
  "char_digit c = (let k = of_char c :: nat in if 48 \<le> k \<and> k \<le> 57 then Some (k - 48) else None)"

fun udec :: "nat \<Rightarrow> string" where
  "udec n = (if n < 10 then [digit_char n] else udec (n div 10) @ [digit_char (n mod 10)])"

declare udec.simps [simp del]

definition fmt_u :: "nat \<Rightarrow> nat \<Rightarrow> string" where
  "fmt_u w n = replicate (w - length (udec n)) (CHR ''0'') @ udec n"

primrec scan_digits :: "string \<Rightarrow> nat \<Rightarrow> nat \<Rightarrow> nat \<times> nat \<times> string" where
  "scan_digits [] w acc = (0, acc, [])"
| "scan_digits (c # cs) w acc =
     (case char_digit c of
        None \<Rightarrow> (0, acc, c # cs)
      | Some d \<Rightarrow> if w = 0 then (0, acc, c # cs)
                  else let (n, v, rest) = scan_digits cs (w - 1) (acc * 10 + d) in (n + 1, v, rest))"

definition scan_u :: "nat \<Rightarrow> string \<Rightarrow> (nat \<times> string) option" where
  "scan_u w s = (let (n, v, rest) = scan_digits s w 0 in if n = 0 then None else Some (v, rest))"

definition scan_char :: "char \<Rightarrow> string \<Rightarrow> string option" where
  "scan_char c s = (case s of [] \<Rightarrow> None | x # xs \<Rightarrow> if x = c then Some xs else None)"

section \<open>Numbers are read as they are written\<close>

lemma char_digit_char [simp]: "d \<le> 9 \<Longrightarrow> char_digit (digit_char d) = Some d"
  by (simp add: char_digit_def digit_char_def)

lemma digit_char_zero: "digit_char 0 = CHR ''0''"
proof -
  have "of_char (CHR ''0'') = (48 :: nat)" by simp
  then show ?thesis
    by (metis add.right_neutral char_of_char digit_char_def)
qed

lemma separators: "char_digit (CHR '':'') = None" "char_digit (CHR ''/'') = None" "char_digit (CHR ''*'') = None"
  by (simp_all add: char_digit_def)

lemma digit_not_star [simp]: "d \<le> 9 \<Longrightarrow> digit_char d \<noteq> CHR ''*''"
  by (metis char_digit_char option.distinct(1) separators(3))

lemma scan_digits_full: "scan_digits rest 0 acc = (0, acc, rest)"
  by (cases rest) (auto split: option.split)

lemma scan_two: "a \<le> 9 \<Longrightarrow> b \<le> 9 \<Longrightarrow> scan_u 2 (digit_char a # digit_char b # rest) = Some (10 * a + b, rest)"
  by (simp add: scan_u_def scan_digits_full mult.commute)

lemma scan_four:
  "a \<le> 9 \<Longrightarrow> b \<le> 9 \<Longrightarrow> c \<le> 9 \<Longrightarrow> d \<le> 9 \<Longrightarrow>
   scan_u 4 (digit_char a # digit_char b # digit_char c # digit_char d # rest) = Some (1000 * a + 100 * b + 10 * c + d, rest)"
  by (simp add: scan_u_def scan_digits_full algebra_simps)

lemma udec_small: "n < 10 \<Longrightarrow> udec n = [digit_char n]"
  by (subst udec.simps) simp

lemma udec_step: "10 \<le> n \<Longrightarrow> udec n = udec (n div 10) @ [digit_char (n mod 10)]"
  by (subst udec.simps) simp

lemma fmt_two: "n < 100 \<Longrightarrow> fmt_u 2 n = [digit_char (n div 10), digit_char (n mod 10)]"
proof (cases "n < 10")
  case True
  then show ?thesis by (simp add: fmt_u_def udec_small digit_char_zero numeral_2_eq_2)
next
  case False
  assume "n < 100"
  then have "n div 10 < 10" by (simp add: div_less_iff_less_mult)
  then show ?thesis using False by (simp add: fmt_u_def udec_step udec_small)
qed

lemma udec_two: "10 \<le> n \<Longrightarrow> n < 100 \<Longrightarrow> udec n = [digit_char (n div 10), digit_char (n mod 10)]"
  by (simp add: udec_step udec_small div_less_iff_less_mult)

lemma udec_three:
  assumes "100 \<le> n" "n < 1000"
  shows "udec n = [digit_char (n div 100), digit_char (n div 10 mod 10), digit_char (n mod 10)]"
proof -
  have "10 \<le> n div 10" "n div 10 < 100" "n div 10 div 10 = n div 100"
    using assms by (simp_all add: div_less_iff_less_mult less_eq_div_iff_mult_less_eq div_mult2_eq [symmetric])
  then show ?thesis
    using assms udec_two [of "n div 10"] by (simp add: udec_step [of n])
qed

lemma udec_four:
  assumes "1000 \<le> n" "n < 10000"
  shows "udec n = [digit_char (n div 1000), digit_char (n div 100 mod 10), digit_char (n div 10 mod 10), digit_char (n mod 10)]"
proof -
  have "100 \<le> n div 10" "n div 10 < 1000" "n div 10 div 100 = n div 1000" "n div 10 div 10 = n div 100"
    using assms by (simp_all add: div_less_iff_less_mult less_eq_div_iff_mult_less_eq div_mult2_eq [symmetric])
  then show ?thesis
    using assms udec_three [of "n div 10"] by (simp add: udec_step [of n])
qed

lemma fmt_four:
  assumes "n < 10000"
  shows "fmt_u 4 n = [digit_char (n div 1000), digit_char (n div 100 mod 10), digit_char (n div 10 mod 10), digit_char (n mod 10)]"
proof -
  consider "n < 10" | "10 \<le> n" "n < 100" | "100 \<le> n" "n < 1000" | "1000 \<le> n" by linarith
  then show ?thesis
  proof cases
    case 1
    then show ?thesis by (simp add: fmt_u_def udec_small digit_char_zero numeral_3_eq_3)
  next
    case 2
    then have "n div 10 < 10" by (simp add: div_less_iff_less_mult)
    then show ?thesis using 2 by (simp add: fmt_u_def udec_two digit_char_zero numeral_2_eq_2)
  next
    case 3
    then have "n div 100 < 10" by (simp add: div_less_iff_less_mult)
    then show ?thesis using 3 by (simp add: fmt_u_def udec_three digit_char_zero)
  next
    case 4
    then show ?thesis using assms by (simp add: fmt_u_def udec_four)
  qed
qed

end
