(* ===== verification/Date_Fields.thy ===== *)
theory Date_Fields
  imports Calendar
begin

text \<open>
  The fields of a date that is made from the seconds of the clock: their ranges, and that the date is valid and leads back.
\<close>

lemma unat_less_iff: "unat w < n \<longleftrightarrow> uint w < int n"
  by (simp only: of_nat_less_iff [where ?'a = int, symmetric] of_nat_unat)

lemma fields_of_epoch:
  assumes "e < 4294967296"
  shows "unat (dt_hr (get_date_time_from_epoch e)) < 24" "unat (dt_min (get_date_time_from_epoch e)) < 60"
    "unat (dt_sec (get_date_time_from_epoch e)) < 60" "unat (dt_day (get_date_time_from_epoch e)) < 100"
    "unat (dt_month (get_date_time_from_epoch e)) < 100" "unat (dt_year (get_date_time_from_epoch e)) < 10000"
proof -
  let ?dt = "get_date_time_from_epoch e" and ?tm = "gmtime (int e)"
  have t: "tm_of ?dt = ?tm" by (rule tm_of_epoch [OF assms])
  have v: "valid_tm ?tm" by (rule gmtime_valid)
  have "int e div 86400 \<le> 4294967295 div 86400"
    using assms by (intro zdiv_mono1) simp_all
  then have "0 \<le> int e div 86400" "int e div 86400 < 49711"
    by (simp_all add: pos_imp_zdiv_nonneg_iff)
  from civil_range [OF this] have y: "tm_year ?tm + 1900 < 2107"
    by (simp add: gmtime_fields)
  have c: "valid_civil (tm_year ?tm + 1900, tm_mon ?tm, tm_mday ?tm)" and h: "tm_hour ?tm < 24" "tm_min ?tm < 60" "tm_sec ?tm < 60"
    using v unfolding valid_tm_def by blast+
  have m: "tm_mon ?tm < 12" "tm_mday ?tm \<le> month_length (tm_year ?tm + 1900) (tm_mon ?tm)"
    using c unfolding valid_civil_def prod.case by blast+
  have l: "tm_mday ?tm \<le> 31" using m(2) month_length_bounds(2) by (rule order_trans)
  have u: "uint (dt_hr ?dt) = tm_hour ?tm" "uint (dt_min ?dt) = tm_min ?tm" "uint (dt_sec ?dt) = tm_sec ?tm"
    "uint (dt_day ?dt) = tm_mday ?tm" "uint (dt_month ?dt) - 1 = tm_mon ?tm" "uint (dt_year ?dt) - 1900 = tm_year ?tm"
    unfolding t [symmetric] tm_of_def tm.simps by (rule refl)+
  have "uint (dt_hr ?dt) < 24" "uint (dt_min ?dt) < 60" "uint (dt_sec ?dt) < 60" "uint (dt_day ?dt) < 100" "uint (dt_month ?dt) < 100"
    "uint (dt_year ?dt) < 10000"
    using u h m(1) l y by linarith+
  then show "unat (dt_hr ?dt) < 24" "unat (dt_min ?dt) < 60" "unat (dt_sec ?dt) < 60" "unat (dt_day ?dt) < 100"
    "unat (dt_month ?dt) < 100" "unat (dt_year ?dt) < 10000"
    by (simp_all only: unat_less_iff of_nat_numeral)
qed

lemma epoch_of_date: "E < 4294967296 \<Longrightarrow> get_epoch_from_date_time (get_date_time_from_epoch E) = E"
  by (simp add: get_epoch_from_date_time_def tm_of_epoch timegm_gmtime)

lemma epoch_less: "get_epoch_from_date_time d < 4294967296"
  by (simp add: get_epoch_from_date_time_def nat_less_iff)

lemma validate_of_epoch: "E < 4294967296 \<Longrightarrow> validate_date_time (get_date_time_from_epoch E)"
  by (simp add: validate_date_time_def tm_of_epoch timegm_gmtime)

end
