(* ===== verification/Alarm_App.thy ===== *)
theory Alarm_App
  imports Ui_Kit Common_Apis Text_Format Date_Fields
begin

text \<open>
  The alarm application: the list of alarms with its popup (\<open>alarm_ui.c\<close>), the page on which a date is chosen
  (\<open>draw_alarm_create_page.c\<close>) and its digit pickers (\<open>day_time_picker_widget.c\<close>).

  A pointer into the snapshot of the alarms is an index into it. The text of a digit label is its digit; the other texts are
  strings. Failed assertions, uses of null and of deleted widgets are \<open>None\<close>.
\<close>

section \<open>The digit picker\<close>

definition MAX_PATTERN_LEN :: nat where "MAX_PATTERN_LEN = 20"

text \<open>The remainder of C has the sign of its left argument. The result: whether the event stops, and the digit shown.\<close>

definition c_mod :: "int \<Rightarrow> int \<Rightarrow> int" where
  "c_mod a b = a - b * c_div a b"

definition digit_key_cb :: "lv_key \<Rightarrow> nat \<Rightarrow> (bool \<times> nat) option" where
  "digit_key_cb key val =
     (if key \<noteq> LV_KEY_LEFT \<and> key \<noteq> LV_KEY_RIGHT then Some (False, val)
      else if \<not> val \<le> 9 then None
      else if key = LV_KEY_LEFT then Some (True, nat (c_mod (c_mod (int val - 1) 10 + 10) 10))
      else Some (True, nat (c_mod (c_mod (int val + 1) 10 + 10) 10)))"

definition draw_focusable_label :: "'w lv_ops \<Rightarrow> nat \<Rightarrow> 'w \<Rightarrow> (nat \<times> 'w) option" where
  "draw_focusable_label lv parent w = do { (label_bg, w1) \<leftarrow> lv_obj_create lv parent w; lv_obj_create lv label_bg w1 }"

text \<open>The digits of the labels that a pattern makes, in order.\<close>

primrec picker_loop :: "'w lv_ops \<Rightarrow> nat \<Rightarrow> string \<Rightarrow> 'w \<Rightarrow> (nat list \<times> 'w) option" where
  "picker_loop lv sel_base [] w = Some ([], w)"
| "picker_loop lv sel_base (c # cs) w =
     (if c = CHR ''*'' \<or> char_digit c \<noteq> None
      then do {
        (label, w1) \<leftarrow> draw_focusable_label lv sel_base w;
        (ds, w2) \<leftarrow> picker_loop lv sel_base cs w1;
        Some ((if c = CHR ''*'' then 0 else the (char_digit c)) # ds, w2)
      }
      else do { (sep, w1) \<leftarrow> lv_obj_create lv sel_base w; picker_loop lv sel_base cs w1 })"

definition day_time_picker_widget_draw :: "'w lv_ops \<Rightarrow> nat \<Rightarrow> string \<Rightarrow> 'w \<Rightarrow> (nat list \<times> 'w) option" where
  "day_time_picker_widget_draw lv parent pattern w =
     do {
       (sel_base, w1) \<leftarrow> lv_obj_create lv parent w;
       picker_loop lv sel_base (take MAX_PATTERN_LEN pattern) w1
     }"

text \<open>Reading back: every star of the pattern is the text of the next label.\<close>

fun selected_loop :: "string \<Rightarrow> nat option list \<Rightarrow> string option" where
  "selected_loop [] labels = Some []"
| "selected_loop (c # cs) labels =
     (if c = CHR ''*'' then
        (case labels of
           Some d # ls \<Rightarrow> if \<not> d \<le> 9 then None else map_option ((#) (digit_char d)) (selected_loop cs ls)
         | _ \<Rightarrow> None)
      else map_option ((#) c) (selected_loop cs labels))"

definition day_time_picker_widget_get_selected_value :: "string \<Rightarrow> nat option list \<Rightarrow> string option" where
  "day_time_picker_widget_get_selected_value pattern labels = selected_loop (take MAX_PATTERN_LEN pattern) labels"

section \<open>State\<close>

text \<open>\<open>al_titles\<close> are the two texts of every card of the list; \<open>al_cmds\<close> the commands to the alarm timer.\<close>

record 'w alarm_ui =
  base_container :: "nat option"
  al_bg :: "nat option"
  alarm_details :: "nat option"
  change_popup_registry :: popup_registry
  all_alarms_snapshot :: "alarm list option"
  n_alarms :: nat
  alarm_list_alloc :: bool
  change_list :: bool
  selected_alarm :: "nat option"
  al_titles :: "(string \<times> string) list"
  cr_background :: "nat option"
  err_lbl :: "bool option"
  date_labels :: "nat option list"
  time_labels :: "nat option list"
  al_mgr :: alarm_mgr
  al_cmds :: "alarm_cmd list"
  al_widgets :: 'w

text \<open>What the calls around the application answer: the alarm lock, memory, and the number of the application.\<close>

record alarm_env =
  ae_locked :: bool
  ae_calloc :: bool
  ae_calloc_snapshot :: bool
  ae_id :: byte

definition alarm_app :: "alarm_env \<Rightarrow> application" where
  "alarm_app env = \<lparr>app_id = ae_id env, app_perms = APP_PERM_SYSTEM, app_name = map of_char ''Alarm'', app_handles = False\<rparr>"

section \<open>The page for a date\<close>

text \<open>The error label is \<open>Some hidden\<close> while it exists.\<close>

definition close_alarm_creator :: "'w lv_ops \<Rightarrow> 'w alarm_ui \<Rightarrow> 'w alarm_ui option" where
  "close_alarm_creator lv s =
     do {
       x \<leftarrow> cr_background s;
       w \<leftarrow> lv_obj_delete lv x (al_widgets s);
       Some (s\<lparr>cr_background := None, err_lbl := None, date_labels := replicate 8 None, time_labels := replicate 4 None, al_widgets := w\<rparr>)
     }"

definition time_pattern :: "date_time \<Rightarrow> string" where
  "time_pattern dt = fmt_u 2 (unat (dt_hr dt) mod 24) @ '':'' @ fmt_u 2 (unat (dt_min dt) mod 60)"

definition date_pattern :: "date_time \<Rightarrow> string" where
  "date_pattern dt = fmt_u 2 (unat (dt_day dt) mod 100) @ ''/'' @ fmt_u 2 (unat (dt_month dt) mod 100) @ ''/'' @
     fmt_u 4 (unat (dt_year dt) mod 10000)"

text \<open>\<open>now\<close> is the time of the watch, shown for a new alarm.\<close>

definition draw_modify_alarm_page :: "'w lv_ops \<Rightarrow> nat \<Rightarrow> nat option \<Rightarrow> alarm option \<Rightarrow> 'w alarm_ui \<Rightarrow> 'w alarm_ui option" where
  "draw_modify_alarm_page lv now parentp al s =
     (let dt = (case al of None \<Rightarrow> get_date_time_from_epoch now | Some a \<Rightarrow> get_date_time_from_epoch (epoch a))
      in if cr_background s \<noteq> None then None
      else do {
        parent \<leftarrow> parentp;
        (bg, w1) \<leftarrow> lv_obj_create lv parent (al_widgets s);
        (ts, w2) \<leftarrow> day_time_picker_widget_draw lv bg (time_pattern dt) w1;
        (ds, w3) \<leftarrow> day_time_picker_widget_draw lv bg (date_pattern dt) w2;
        (btn, w4) \<leftarrow> lv_obj_create lv bg w3;
        (btn_lbl, w5) \<leftarrow> lv_obj_create lv btn w4;
        (err, w6) \<leftarrow> lv_obj_create lv bg w5;
        Some (s\<lparr>cr_background := Some bg, err_lbl := Some True, time_labels := map Some ts, date_labels := map Some ds, al_widgets := w6\<rparr>)
      })"

text \<open>A key on the page; \<open>on_self\<close>: the page itself has the focus.\<close>

definition page_key_cb :: "'w lv_ops \<Rightarrow> bool \<Rightarrow> lv_key \<Rightarrow> 'w alarm_ui \<Rightarrow> (bool \<times> 'w alarm_ui) option" where
  "page_key_cb lv on_self key s =
     (if \<not> on_self then Some (False, s)
      else if key = LV_KEY_ESC then map_option (Pair True) (close_alarm_creator lv s)
      else Some (key = LV_KEY_LEFT \<or> key = LV_KEY_RIGHT, s))"

section \<open>The list\<close>

definition find_alarm_index :: "'w alarm_ui \<Rightarrow> int option" where
  "find_alarm_index s =
     (case (selected_alarm s, all_alarms_snapshot s) of
        (Some i, Some snap) \<Rightarrow> Some (if i < n_alarms s then int i else -1)
      | _ \<Rightarrow> None)"

definition card_texts :: "alarm \<Rightarrow> string \<times> string" where
  "card_texts a =
     (let dt = get_date_time_from_epoch (epoch a)
      in (take 7 (fmt_u 2 (unat (dt_hr dt)) @ '':'' @ fmt_u 2 (unat (dt_min dt))),
          take 15 (fmt_u 2 (unat (dt_day dt)) @ ''/'' @ fmt_u 2 (unat (dt_month dt)) @ ''/'' @ fmt_u 4 (unat (dt_year dt)))))"

primrec draw_cards :: "'w lv_ops \<Rightarrow> nat \<Rightarrow> alarm list \<Rightarrow> 'w \<Rightarrow> 'w option" where
  "draw_cards lv parent [] w = Some w"
| "draw_cards lv parent (a # as) w =
     do {
       w1 \<leftarrow> draw_horizoantal_divider lv parent w;
       (v, w2) \<leftarrow> draw_listview_item lv parent True w1;
       draw_cards lv parent as w2
     }"

definition populate_alarms_list :: "'w lv_ops \<Rightarrow> alarm_env \<Rightarrow> nat \<Rightarrow> 'w alarm_ui \<Rightarrow> 'w alarm_ui option" where
  "populate_alarms_list lv env parent s =
     (if alarm_list_alloc s then None
      else do {
        (n, xs) \<leftarrow> get_all_alarms (ae_locked env) (all_alarms_snapshot s \<noteq> None) (al_mgr s);
        snap \<leftarrow> (case all_alarms_snapshot s of None \<Rightarrow> Some None | Some a \<Rightarrow> map_option Some (mem_write a 0 xs));
        let s1 = s\<lparr>selected_alarm := None, n_alarms := n, all_alarms_snapshot := snap, al_titles := []\<rparr>;
        if n = 0 \<or> \<not> ae_calloc env then Some s1
        else do {
          w \<leftarrow> draw_cards lv parent xs (al_widgets s1);
          Some (s1\<lparr>alarm_list_alloc := True, al_titles := map card_texts xs, al_widgets := w\<rparr>)
        }
      })"

definition invalidate_and_repopulate_alarm_list :: "'w lv_ops \<Rightarrow> alarm_env \<Rightarrow> 'w alarm_ui \<Rightarrow> 'w alarm_ui option" where
  "invalidate_and_repopulate_alarm_list lv env s =
     (let s1 = (if alarm_list_alloc s then s\<lparr>alarm_list_alloc := False, selected_alarm := None\<rparr> else s)
      in do {
        d \<leftarrow> alarm_details s1;
        w \<leftarrow> lv_obj_clean lv d (al_widgets s1);
        populate_alarms_list lv env d (s1\<lparr>al_widgets := w\<rparr>)
      })"

text \<open>The alarm a pointer into the snapshot refers to.\<close>

definition pointed_alarm :: "'w alarm_ui \<Rightarrow> alarm option" where
  "pointed_alarm s = do { i \<leftarrow> selected_alarm s; snap \<leftarrow> all_alarms_snapshot s; rd snap i }"

definition delete_selected :: "alarm_env \<Rightarrow> nat \<Rightarrow> 'w alarm_ui \<Rightarrow> 'w alarm_ui option" where
  "delete_selected env now s =
     do {
       del_idx \<leftarrow> find_alarm_index s;
       if del_idx \<ge> 0
       then map_option (\<lambda>(ok, cs, m). s\<lparr>al_mgr := m, al_cmds := al_cmds s @ cs\<rparr>)
         (delete_alarm_by_index (Some (alarm_app env)) (ae_locked env) now del_idx (al_mgr s))
       else Some s
     }"

definition popup_sel_cb :: "'w lv_ops \<Rightarrow> alarm_env \<Rightarrow> nat \<Rightarrow> nat \<Rightarrow> 'w alarm_ui \<Rightarrow> 'w alarm_ui option" where
  "popup_sel_cb lv env now index s =
     (if index = 0 then do {
        s1 \<leftarrow> draw_modify_alarm_page lv now (base_container s) (pointed_alarm s) s;
        s2 \<leftarrow> delete_selected env now s1;
        s3 \<leftarrow> invalidate_and_repopulate_alarm_list lv env s2;
        Some (s3\<lparr>selected_alarm := None\<rparr>)
      }
      else if index = 1 then
        map_option (\<lambda>s1. s1\<lparr>selected_alarm := None\<rparr>) (draw_modify_alarm_page lv now (base_container s) (pointed_alarm s) s)
      else if index = 2 then do {
        s1 \<leftarrow> delete_selected env now s;
        s2 \<leftarrow> invalidate_and_repopulate_alarm_list lv env s1;
        Some (s2\<lparr>selected_alarm := None\<rparr>)
      }
      else Some s)"

definition open_alarm_change_popup :: "'w lv_ops \<Rightarrow> alarm_env \<Rightarrow> nat \<Rightarrow> 'w alarm_ui \<Rightarrow> 'w alarm_ui option" where
  "open_alarm_change_popup lv env i s =
     (if al_bg s = None then None
      else map_option (\<lambda>(reg, w). s\<lparr>selected_alarm := Some i, change_popup_registry := reg, al_widgets := w\<rparr>)
        (create_popup_listview lv (ae_calloc env) (base_container s) 3 (change_popup_registry s) (al_widgets s)))"

definition add_alarm_click_cb :: "'w lv_ops \<Rightarrow> nat \<Rightarrow> lv_key \<Rightarrow> 'w alarm_ui \<Rightarrow> (bool \<times> 'w alarm_ui) option" where
  "add_alarm_click_cb lv now key s =
     (if key = LV_KEY_ENTER then map_option (Pair True) (draw_modify_alarm_page lv now (base_container s) None s) else Some (False, s))"

section \<open>Confirming a date\<close>

definition scan_time :: "string \<Rightarrow> (nat \<times> nat) option" where
  "scan_time t = do { (hr, r) \<leftarrow> scan_u 2 t; r1 \<leftarrow> scan_char (CHR '':'') r; (mn, r2) \<leftarrow> scan_u 2 r1; Some (hr, mn) }"

definition scan_date :: "string \<Rightarrow> (nat \<times> nat \<times> nat) option" where
  "scan_date t =
     do { (day, r) \<leftarrow> scan_u 2 t; r1 \<leftarrow> scan_char (CHR ''/'') r; (mth, r2) \<leftarrow> scan_u 2 r1;
          r3 \<leftarrow> scan_char (CHR ''/'') r2; (year, r4) \<leftarrow> scan_u 4 r3; Some (day, mth, year) }"

definition chosen_date :: "'w alarm_ui \<Rightarrow> date_time option" where
  "chosen_date s =
     do {
       time_str \<leftarrow> day_time_picker_widget_get_selected_value ''**:**'' (time_labels s);
       date_str \<leftarrow> day_time_picker_widget_get_selected_value ''**/**/****'' (date_labels s);
       (hr, mn) \<leftarrow> scan_time time_str;
       (day, mth, year) \<leftarrow> scan_date date_str;
       Some \<lparr>dt_day = of_nat day, dt_month = of_nat mth, dt_year = of_nat year, dt_hr = of_nat hr, dt_min = of_nat mn, dt_sec = 0, d_week = 0\<rparr>
     }"

definition new_alarm :: "date_time \<Rightarrow> alarm" where
  "new_alarm date = \<lparr>epoch = get_epoch_from_date_time date, al_type = ALARM_TYPE_WATCH, sync_with_phone = False\<rparr>"

definition show_error :: "'w alarm_ui \<Rightarrow> 'w alarm_ui option" where
  "show_error s = (if err_lbl s = None then None else Some (s\<lparr>err_lbl := Some False\<rparr>))"

text \<open>The two readings of the clock are those of the alarm manager.\<close>

definition on_btn_clicked_cb :: "'w lv_ops \<Rightarrow> alarm_env \<Rightarrow> nat \<Rightarrow> nat \<Rightarrow> lv_key \<Rightarrow> 'w alarm_ui \<Rightarrow> (bool \<times> 'w alarm_ui) option" where
  "on_btn_clicked_cb lv env now now2 key s =
     (if key \<noteq> LV_KEY_ENTER then Some (False, s)
      else do {
        date \<leftarrow> chosen_date s;
        s' \<leftarrow> (if validate_date_time date then do {
                 (ok, cs, m) \<leftarrow> create_new_alarm (Some (alarm_app env)) (ae_locked env) now now2
                   (Some (new_alarm date)) (al_mgr s);
                 let s1 = s\<lparr>al_mgr := m, al_cmds := al_cmds s @ cs\<rparr>;
                 if ok then do { s2 \<leftarrow> close_alarm_creator lv s1; invalidate_and_repopulate_alarm_list lv env s2 }
                 else show_error s1
               }
               else show_error s);
        Some (True, s')
      })"

section \<open>Opening and closing\<close>

definition draw_alarm_app_ui :: "'w lv_ops \<Rightarrow> alarm_env \<Rightarrow> nat option \<Rightarrow> 'w alarm_ui \<Rightarrow> 'w alarm_ui option" where
  "draw_alarm_app_ui lv env parentp s =
     do {
       parent \<leftarrow> parentp;
       if change_list s then None
       else if \<not> ae_calloc env then Some s
       else if all_alarms_snapshot s \<noteq> None then None
       else if \<not> ae_calloc_snapshot env then Some (s\<lparr>change_list := True\<rparr>)
       else do {
         let s1 = s\<lparr>change_list := True, all_alarms_snapshot := Some (replicate MAX_WATCH_ALARMS zero_alarm), base_container := Some parent\<rparr>;
         (bg, w1) \<leftarrow> lv_obj_create lv parent (al_widgets s1);
         (add_btn, w2) \<leftarrow> lv_obj_create lv bg w1;
         (btn_label, w3) \<leftarrow> lv_obj_create lv add_btn w2;
         (details, w4) \<leftarrow> lv_obj_create lv bg w3;
         populate_alarms_list lv env details (s1\<lparr>al_bg := Some bg, alarm_details := Some details, al_widgets := w4\<rparr>)
       }
     }"

text \<open>Cleaning the container deletes an open popup, whose callback frees the registry.\<close>

definition delete_alarm_app_ui :: "'w lv_ops \<Rightarrow> 'w alarm_ui \<Rightarrow> 'w alarm_ui option" where
  "delete_alarm_app_ui lv s =
     do {
       w \<leftarrow> (case al_bg s of
               None \<Rightarrow> Some (al_widgets s)
             | Some bg \<Rightarrow> do {
                 w1 \<leftarrow> lv_obj_delete lv bg (al_widgets s);
                 case base_container s of None \<Rightarrow> Some w1 | Some b \<Rightarrow> lv_obj_clean lv b w1
               });
       let reg = change_popup_registry s;
       Some (s\<lparr>change_popup_registry := (if al_bg s \<noteq> None \<and> base_container s \<noteq> None \<and> popup reg \<noteq> None then delete_popup_cb reg else reg),
          alarm_list_alloc := False, change_list := False, all_alarms_snapshot := None, n_alarms := 0, base_container := None,
          al_bg := None, alarm_details := None, selected_alarm := None, al_titles := [], al_widgets := w\<rparr>)
     }"

section \<open>The list shows what was chosen\<close>

text \<open>All digit labels exist and hold digits.\<close>

definition digits :: "nat \<Rightarrow> nat option list \<Rightarrow> bool" where
  "digits n ls \<longleftrightarrow> length ls = n \<and> (\<forall>l \<in> set ls. \<exists>d \<le> 9. l = Some d)"

definition labels_ok :: "'w alarm_ui \<Rightarrow> bool" where
  "labels_ok s \<longleftrightarrow> digits 4 (time_labels s) \<and> digits 8 (date_labels s)"

lemma digits_Suc: "digits (Suc n) ls \<longleftrightarrow> (\<exists>d ls'. ls = Some d # ls' \<and> d \<le> 9 \<and> digits n ls')"
  by (cases ls) (auto simp: digits_def)

lemma digits_0: "digits 0 ls \<longleftrightarrow> ls = []"
  by (auto simp: digits_def)

lemma digits_four: "digits 4 ls \<Longrightarrow> \<exists>a b c d. ls = [Some a, Some b, Some c, Some d] \<and> a \<le> 9 \<and> b \<le> 9 \<and> c \<le> 9 \<and> d \<le> 9"
  by (auto simp: eval_nat_numeral digits_Suc digits_0)

lemma digits_eight:
  "digits 8 ls \<Longrightarrow> \<exists>a b c d e f g h. ls = [Some a, Some b, Some c, Some d, Some e, Some f, Some g, Some h] \<and>
     a \<le> 9 \<and> b \<le> 9 \<and> c \<le> 9 \<and> d \<le> 9 \<and> e \<le> 9 \<and> f \<le> 9 \<and> g \<le> 9 \<and> h \<le> 9"
  by (auto simp: eval_nat_numeral digits_Suc digits_0)

lemma chosen_time:
  assumes "a \<le> 9" "b \<le> 9" "c \<le> 9" "d \<le> 9"
  shows "day_time_picker_widget_get_selected_value ''**:**'' [Some a, Some b, Some c, Some d] =
      Some [digit_char a, digit_char b, CHR '':'', digit_char c, digit_char d]"
    and "scan_time [digit_char a, digit_char b, CHR '':'', digit_char c, digit_char d] = Some (10 * a + b, 10 * c + d)"
  using assms by (simp_all add: day_time_picker_widget_get_selected_value_def MAX_PATTERN_LEN_def scan_time_def scan_two scan_char_def)

lemma chosen_day:
  assumes "a \<le> 9" "b \<le> 9" "c \<le> 9" "d \<le> 9" "e \<le> 9" "f \<le> 9" "g \<le> 9" "h \<le> 9"
  shows "day_time_picker_widget_get_selected_value ''**/**/****'' [Some a, Some b, Some c, Some d, Some e, Some f, Some g, Some h] =
      Some [digit_char a, digit_char b, CHR ''/'', digit_char c, digit_char d, CHR ''/'', digit_char e, digit_char f, digit_char g, digit_char h]"
    and "scan_date [digit_char a, digit_char b, CHR ''/'', digit_char c, digit_char d, CHR ''/'', digit_char e, digit_char f, digit_char g, digit_char h] =
      Some (10 * a + b, 10 * c + d, 1000 * e + 100 * f + 10 * g + h)"
  using assms
  by (simp_all add: day_time_picker_widget_get_selected_value_def MAX_PATTERN_LEN_def scan_date_def scan_two scan_four scan_char_def)

text \<open>A printed number is a text of digits exactly when it is the number the digits make.\<close>

lemma fmt_two_iff: "n < 100 \<Longrightarrow> a \<le> 9 \<Longrightarrow> b \<le> 9 \<Longrightarrow> fmt_u 2 n = [digit_char a, digit_char b] \<longleftrightarrow> n = 10 * a + b"
proof
  assume n: "n < 100" "a \<le> 9" "b \<le> 9"
  have d: "n div 10 \<le> 9" "n mod 10 \<le> 9" using n(1) by (simp_all add: less_mult_imp_div_less)
  have "scan_u 2 (fmt_u 2 n) = Some (n, [])"
    using scan_two [OF d, of "[]"] n(1) by (simp add: fmt_two)
  then show "n = 10 * a + b" if "fmt_u 2 n = [digit_char a, digit_char b]"
    using that scan_two [OF n(2,3), of "[]"] by simp
  show "fmt_u 2 n = [digit_char a, digit_char b]" if "n = 10 * a + b"
    using that n by (simp add: fmt_two)
qed

lemma last_digit: "d \<le> 9 \<Longrightarrow> (10 * m + d) mod 10 = d" "d \<le> 9 \<Longrightarrow> (10 * m + d) div 10 = m" for m d :: nat
  by simp_all

lemma four_digits:
  fixes a b c d :: nat
  assumes "b \<le> 9" "c \<le> 9" "d \<le> 9" and n: "n = 1000 * a + 100 * b + 10 * c + d"
  shows "n div 1000 = a" "n div 100 mod 10 = b" "n div 10 mod 10 = c" "n mod 10 = d"
proof -
  have e: "n = 10 * (10 * (10 * a + b) + c) + d" by (simp add: n)
  have q: "n div 10 = 10 * (10 * a + b) + c" unfolding e by (rule last_digit(2) [OF assms(3)])
  have r: "n div 10 div 10 = 10 * a + b" unfolding q by (rule last_digit(2) [OF assms(2)])
  have t: "n div 10 div 10 div 10 = a" unfolding r by (rule last_digit(2) [OF assms(1)])
  show "n mod 10 = d" unfolding e by (rule last_digit(1) [OF assms(3)])
  show "n div 10 mod 10 = c" unfolding q by (rule last_digit(1) [OF assms(2)])
  show "n div 100 mod 10 = b" using r last_digit(1) [OF assms(1), of a] by (simp add: div_mult2_eq [symmetric])
  show "n div 1000 = a" using t by (simp add: div_mult2_eq [symmetric])
qed

lemma fmt_four_iff:
  assumes "n < 10000" "a \<le> 9" "b \<le> 9" "c \<le> 9" "d \<le> 9"
  shows "fmt_u 4 n = [digit_char a, digit_char b, digit_char c, digit_char d] \<longleftrightarrow> n = 1000 * a + 100 * b + 10 * c + d"
proof
  have q: "n div 1000 \<le> 9" "n div 100 mod 10 \<le> 9" "n div 10 mod 10 \<le> 9" "n mod 10 \<le> 9"
    using assms(1) by (simp_all add: less_mult_imp_div_less)
  have e: "1000 * (n div 1000) + 100 * (n div 100 mod 10) + 10 * (n div 10 mod 10) + n mod 10 = n"
  proof -
    have "n = 10 * (n div 10) + n mod 10" "n div 10 = 10 * (n div 100) + n div 10 mod 10" "n div 100 = 10 * (n div 1000) + n div 100 mod 10"
      using mult_div_mod_eq [of 10 n] mult_div_mod_eq [of 10 "n div 10"] mult_div_mod_eq [of 10 "n div 100"]
      by (simp_all only: div_mult2_eq [symmetric]) simp_all
    then show ?thesis by linarith
  qed
  then have "scan_u 4 (fmt_u 4 n) = Some (n, [])"
    using scan_four [OF q, of "[]"] assms(1) by (simp only: fmt_four e)
  then show "n = 1000 * a + 100 * b + 10 * c + d" if "fmt_u 4 n = [digit_char a, digit_char b, digit_char c, digit_char d]"
    using that scan_four [OF assms(2-5), of "[]"] by simp
  show "fmt_u 4 n = [digit_char a, digit_char b, digit_char c, digit_char d]" if "n = 1000 * a + 100 * b + 10 * c + d"
    using four_digits [OF assms(3-5) that] assms(1) by (simp only: fmt_four)
qed

lemma time_text_iff:
  assumes "x < 100" "y < 100" "a \<le> 9" "b \<le> 9" "c \<le> 9" "d \<le> 9"
  shows "[digit_char a, digit_char b, CHR '':'', digit_char c, digit_char d] = fmt_u 2 x @ '':'' @ fmt_u 2 y \<longleftrightarrow> x = 10 * a + b \<and> y = 10 * c + d"
proof -
  obtain p q where x: "fmt_u 2 x = [p, q]" using fmt_two [OF assms(1)] by blast
  obtain r t where y: "fmt_u 2 y = [r, t]" using fmt_two [OF assms(2)] by blast
  have "[p, q] = [digit_char a, digit_char b] \<longleftrightarrow> x = 10 * a + b" "[r, t] = [digit_char c, digit_char d] \<longleftrightarrow> y = 10 * c + d"
    unfolding x [symmetric] y [symmetric] using assms fmt_two_iff by blast+
  then show ?thesis by (auto simp: x y)
qed

lemma date_text_iff:
  assumes "x < 100" "y < 100" "z < 10000" "e \<le> 9" "f \<le> 9" "g \<le> 9" "h \<le> 9" "i \<le> 9" "j \<le> 9" "k \<le> 9" "l \<le> 9"
  shows "[digit_char e, digit_char f, CHR ''/'', digit_char g, digit_char h, CHR ''/'', digit_char i, digit_char j, digit_char k, digit_char l] =
      fmt_u 2 x @ ''/'' @ fmt_u 2 y @ ''/'' @ fmt_u 4 z \<longleftrightarrow>
      x = 10 * e + f \<and> y = 10 * g + h \<and> z = 1000 * i + 100 * j + 10 * k + l"
proof -
  obtain p q where x: "fmt_u 2 x = [p, q]" using fmt_two [OF assms(1)] by blast
  obtain r t where y: "fmt_u 2 y = [r, t]" using fmt_two [OF assms(2)] by blast
  obtain u v m n where z: "fmt_u 4 z = [u, v, m, n]" using fmt_four [OF assms(3)] by blast
  have "[p, q] = [digit_char e, digit_char f] \<longleftrightarrow> x = 10 * e + f" "[r, t] = [digit_char g, digit_char h] \<longleftrightarrow> y = 10 * g + h"
    unfolding x [symmetric] y [symmetric] using assms fmt_two_iff by blast+
  moreover have "[u, v, m, n] = [digit_char i, digit_char j, digit_char k, digit_char l] \<longleftrightarrow> z = 1000 * i + 100 * j + 10 * k + l"
    unfolding z [symmetric] using assms fmt_four_iff by blast
  ultimately show ?thesis by (auto simp: x y z)
qed

text \<open>The six fields a card shows agree exactly when the time the epoch stands for has not wrapped around.\<close>

definition same_minute :: "date_time \<Rightarrow> date_time \<Rightarrow> bool" where
  "same_minute d e \<longleftrightarrow> dt_day d = dt_day e \<and> dt_month d = dt_month e \<and> dt_year d = dt_year e \<and> dt_hr d = dt_hr e \<and> dt_min d = dt_min e"

lemma same_minute_iff:
  assumes "validate_date_time d" "dt_sec d = 0"
  shows "same_minute (get_date_time_from_epoch (get_epoch_from_date_time d)) d \<longleftrightarrow> 0 \<le> timegm (tm_of d) \<and> timegm (tm_of d) < 4294967296"
proof
  let ?E = "get_epoch_from_date_time d" and ?T = "timegm (tm_of d)"
  let ?e = "get_date_time_from_epoch ?E"
  have E: "int ?E = ?T mod 4294967296" "?E < 4294967296"
    by (simp_all add: get_epoch_from_date_time_def nat_less_iff)
  have tm: "tm_of ?e = gmtime (int ?E)" by (rule tm_of_epoch [OF E(2)])
  have "validate_date_time d \<longleftrightarrow> timegm (tm_of d) \<noteq> -1 \<and> gmtime (timegm (tm_of d)) = tm_of d"
    by (cases "gmtime (timegm (tm_of d))") (auto simp: validate_date_time_def Let_def tm_of_def)
  then have valid: "gmtime (timegm (tm_of d)) = tm_of d" using assms(1) by simp
  show "same_minute ?e d" if "0 \<le> ?T \<and> ?T < 4294967296"
  proof -
    have "tm_of ?e = tm_of d" using that tm E(1) valid by simp
    then show ?thesis
      unfolding tm_of_def same_minute_def tm.ext_inject diff_conv_add_uminus add_right_cancel word_uint_eq_iff [symmetric] by blast
  qed
  assume "same_minute ?e d"
  then have "tm_of ?e = (tm_of d)\<lparr>tm_sec := uint (dt_sec ?e)\<rparr>"
    by (simp add: tm_of_def same_minute_def)
  moreover have "tm_sec (tm_of d) = 0" using assms(2) by (simp add: tm_of_def)
  ultimately have "timegm (tm_of ?e) = ?T + uint (dt_sec ?e)"
    by (simp add: timegm_def Let_def)
  then have "int ?E = ?T + uint (dt_sec ?e)"
    using timegm_gmtime [of "int ?E"] tm by simp
  moreover have "uint (dt_sec ?e) < 60"
    using fields_of_epoch(3) [OF E(2)] by (simp only: unat_less_iff of_nat_numeral)
  moreover have "sec = 0" if "x = t + sec" "x = t mod 4294967296" "0 \<le> sec" "sec < 60" for x t sec :: int
  proof -
    have "t mod 4294967296 = t + sec" using that(1,2) by simp
    then have "(t + sec) mod 4294967296 = t mod 4294967296" by (metis mod_mod_trivial)
    then have "(t + sec - t) mod 4294967296 = 0" by (simp only: mod_eq_dvd_iff dvd_imp_mod_0)
    then show ?thesis using that(3,4) by simp
  qed
  ultimately have "uint (dt_sec ?e) = 0" using E(1) by simp
  then show "0 \<le> ?T \<and> ?T < 4294967296"
    using \<open>int ?E = ?T + uint (dt_sec ?e)\<close> E(2) by simp
qed

lemma card_of_epoch:
  assumes "epoch a < 4294967296"
  shows "card_texts a =
    (fmt_u 2 (unat (dt_hr (get_date_time_from_epoch (epoch a)))) @ '':'' @ fmt_u 2 (unat (dt_min (get_date_time_from_epoch (epoch a)))),
     fmt_u 2 (unat (dt_day (get_date_time_from_epoch (epoch a)))) @ ''/'' @ fmt_u 2 (unat (dt_month (get_date_time_from_epoch (epoch a)))) @ ''/'' @
       fmt_u 4 (unat (dt_year (get_date_time_from_epoch (epoch a)))))"
  using fields_of_epoch [OF assms] by (simp add: card_texts_def Let_def fmt_two fmt_four)

lemma epoch_of_new [simp]: "epoch (new_alarm date) = get_epoch_from_date_time date" "epoch (new_alarm date) < 4294967296"
  by (simp_all add: new_alarm_def get_epoch_from_date_time_def nat_less_iff)

lemma digit_fields:
  assumes "a \<le> 9" "b \<le> 9" "c \<le> 9" "d \<le> 9"
  shows "(x :: byte) = of_nat (10 * a + b) \<longleftrightarrow> unat x = 10 * a + b"
    and "(y :: 16 word) = of_nat (1000 * a + 100 * b + 10 * c + d) \<longleftrightarrow> unat y = 1000 * a + 100 * b + 10 * c + d"
proof -
  have small: "x = of_nat n \<longleftrightarrow> unat x = n" if "n < 256" for n and x :: byte
    using that by (auto simp: unat_of_nat)
  have year: "y = of_nat n \<longleftrightarrow> unat y = n" if "n < 65536" for n and y :: "16 word"
    using that by (auto simp: unat_of_nat)
  have "10 * a + b < 256" "1000 * a + 100 * b + 10 * c + d < 65536"
    using assms by linarith+
  then show "x = of_nat (10 * a + b) \<longleftrightarrow> unat x = 10 * a + b"
    and "y = of_nat (1000 * a + 100 * b + 10 * c + d) \<longleftrightarrow> unat y = 1000 * a + 100 * b + 10 * c + d"
    using small year by blast+
qed

text \<open>
  C36: the list shows an alarm exactly as it was chosen, until 2106. Whatever the digits on the page, if they form a date of the
  calendar, the two texts of the alarm in the list are the two texts that were chosen if and only if the date lies in the
  range of the 32-bit clock. The page accepts every year up to 9999: the time of a date outside that range is cut to 32 bits, and
  the alarm is set for another day.
\<close>

theorem list_shows_chosen_date:
  assumes "labels_ok s" and "chosen_date s = Some date" and "validate_date_time date"
  shows "(day_time_picker_widget_get_selected_value ''**:**'' (time_labels s) = Some (fst (card_texts (new_alarm date))) \<and>
      day_time_picker_widget_get_selected_value ''**/**/****'' (date_labels s) = Some (snd (card_texts (new_alarm date)))) =
    (0 \<le> timegm (tm_of date) \<and> timegm (tm_of date) < 4294967296)"
proof -
  have "digits 4 (time_labels s)" "digits 8 (date_labels s)"
    using assms(1) unfolding labels_ok_def by blast+
  from digits_four [OF this(1)] obtain a b c d
    where t: "time_labels s = [Some a, Some b, Some c, Some d]" "a \<le> 9" "b \<le> 9" "c \<le> 9" "d \<le> 9" by blast
  obtain e f g h i j k l where u: "date_labels s = [Some e, Some f, Some g, Some h, Some i, Some j, Some k, Some l]"
    "e \<le> 9" "f \<le> 9" "g \<le> 9" "h \<le> 9" "i \<le> 9" "j \<le> 9" "k \<le> 9" "l \<le> 9"
    using digits_eight [OF \<open>digits 8 (date_labels s)\<close>] by blast
  have date: "date = \<lparr>dt_day = of_nat (10 * e + f), dt_month = of_nat (10 * g + h), dt_year = of_nat (1000 * i + 100 * j + 10 * k + l),
      dt_hr = of_nat (10 * a + b), dt_min = of_nat (10 * c + d), dt_sec = 0, d_week = 0\<rparr>"
    using assms(2) chosen_time [OF t(2-5)] chosen_day [OF u(2-9)] by (simp add: chosen_date_def t(1) u(1))
  let ?e = "get_date_time_from_epoch (get_epoch_from_date_time date)"
  note f = fields_of_epoch [OF epoch_of_new(2) [of date], unfolded epoch_of_new(1)]
  note card = card_of_epoch [OF epoch_of_new(2) [of date], unfolded epoch_of_new(1)]
  have time: "[digit_char a, digit_char b, CHR '':'', digit_char c, digit_char d] = fst (card_texts (new_alarm date)) \<longleftrightarrow>
      unat (dt_hr ?e) = 10 * a + b \<and> unat (dt_min ?e) = 10 * c + d"
    unfolding card fst_conv using f t by (intro time_text_iff) simp_all
  have day: "[digit_char e, digit_char f, CHR ''/'', digit_char g, digit_char h, CHR ''/'', digit_char i, digit_char j, digit_char k, digit_char l] =
      snd (card_texts (new_alarm date)) \<longleftrightarrow>
      unat (dt_day ?e) = 10 * e + f \<and> unat (dt_month ?e) = 10 * g + h \<and> unat (dt_year ?e) = 1000 * i + 100 * j + 10 * k + l"
    unfolding card snd_conv using f u by (intro date_text_iff) simp_all
  have v: "dt_day date = of_nat (10 * e + f)" "dt_month date = of_nat (10 * g + h)" "dt_year date = of_nat (1000 * i + 100 * j + 10 * k + l)"
    "dt_hr date = of_nat (10 * a + b)" "dt_min date = of_nat (10 * c + d)" "dt_sec date = 0"
    unfolding date date_time.simps by (rule refl)+
  have "same_minute ?e date \<longleftrightarrow> unat (dt_hr ?e) = 10 * a + b \<and> unat (dt_min ?e) = 10 * c + d \<and>
      unat (dt_day ?e) = 10 * e + f \<and> unat (dt_month ?e) = 10 * g + h \<and> unat (dt_year ?e) = 1000 * i + 100 * j + 10 * k + l"
    unfolding same_minute_def v digit_fields(1) [OF t(2-5)] digit_fields(1) [OF t(4,5,2,3)] digit_fields(1) [OF u(2-5)]
      digit_fields(1) [OF u(4,5,2,3)] digit_fields(2) [OF u(6-9)] by blast
  then have "fst (card_texts (new_alarm date)) = [digit_char a, digit_char b, CHR '':'', digit_char c, digit_char d] \<and>
      snd (card_texts (new_alarm date)) =
        [digit_char e, digit_char f, CHR ''/'', digit_char g, digit_char h, CHR ''/'', digit_char i, digit_char j, digit_char k, digit_char l]
      \<longleftrightarrow> 0 \<le> timegm (tm_of date) \<and> timegm (tm_of date) < 4294967296"
    using same_minute_iff [OF assms(3) v(6)] time day by metis
  then show ?thesis
    unfolding t(1) u(1) chosen_time(1) [OF t(2-5)] chosen_day(1) [OF u(2-9)] option.inject by metis
qed

text \<open>The page for a new alarm at 08:05 on 29/02/2104.\<close>

definition ex_page :: "nat alarm_ui" where
  "ex_page = \<lparr>base_container = Some 0, al_bg = Some 1, alarm_details = Some 2,
     change_popup_registry = \<lparr>popup = None, item_data_array = None, item_count = 0\<rparr>,
     all_alarms_snapshot = Some (replicate MAX_WATCH_ALARMS zero_alarm), n_alarms = 0, alarm_list_alloc = False, change_list = True,
     selected_alarm = None, al_titles = [], cr_background = Some 3, err_lbl = Some True,
     date_labels = map Some [2, 9, 0, 2, 2, 1, 0, 4], time_labels = map Some [0, 8, 0, 5],
     al_mgr = ex_mgr [], al_cmds = [], al_widgets = 0\<rparr>"

definition ex_date :: date_time where
  "ex_date = \<lparr>dt_day = 29, dt_month = 2, dt_year = 2104, dt_hr = 8, dt_min = 5, dt_sec = 0, d_week = 0\<rparr>"

theorem list_shows_chosen_date_witness:
  "day_time_picker_widget_get_selected_value ''**:**'' (time_labels ex_page) = Some (fst (card_texts (new_alarm ex_date))) \<and>
   day_time_picker_widget_get_selected_value ''**/**/****'' (date_labels ex_page) = Some (snd (card_texts (new_alarm ex_date)))"
proof -
  have d: "digits 4 (time_labels ex_page)" "digits 8 (date_labels ex_page)"
    by (simp_all add: digits_def ex_page_def)
  then have l: "labels_ok ex_page" by (simp add: labels_ok_def)
  have "chosen_date ex_page = Some ex_date"
    using chosen_time [of 0 8 0 5] chosen_day [of 2 9 0 2 2 1 0 4] by (simp add: chosen_date_def ex_page_def ex_date_def)
  moreover have t: "timegm (tm_of ex_date) = 4233715500"
    by (simp add: ex_date_def tm_of_def timegm_def Let_def days_before_year_def days_before_month_def)
  moreover have "validate_date_time ex_date"
    by code_simp
  ultimately show ?thesis
    using list_shows_chosen_date [OF l] by simp
qed

section \<open>Deleting from the list\<close>

text \<open>
  C37: the card and the alarm. With the alarms of the list in hand, \<open>Delete\<close> removes the alarm at the position of the selected
  card. The snapshot behind the cards is not renewed when alarms fire: after \<open>k\<close> of them have left the manager, the alarm at
  that position, and so the one that is deleted, is the one \<open>k\<close> cards below the selected card.
\<close>

theorem delete_after_alarms_fired:
  assumes "am_alarms (al_mgr s) = Some a" and "alarms_ok a" and "am_mutex (al_mgr s) \<longrightarrow> ae_locked env"
    and "all_alarms_snapshot s = Some (xs @ rest)" and "n_alarms s = length xs" and "selected_alarm s = Some i"
    and "alarm_list a = drop k xs" and "i + k < length xs"
  shows "pointed_alarm s = Some (xs ! i) \<and>
    (\<exists>s' a'. delete_selected env now s = Some s' \<and> am_alarms (al_mgr s') = Some a' \<and>
       alarm_list a = take i (alarm_list a') @ xs ! (i + k) # drop i (alarm_list a'))"
proof -
  have i: "i < length (alarm_list a)" "alarm_list a ! i = xs ! (i + k)" using assms(7,8) by (simp_all add: add.commute)
  then have n: "int i < int (as_n_alarms a)" using length_alarm_list [OF assms(2)] by simp
  have "find_alarm_index s = Some (int i)" using assms(4-6,8) by (simp add: find_alarm_index_def)
  moreover have "permitted (Some (alarm_app env)) APP_PERM_SYSTEM"
    by (simp add: alarm_app_def permitted_def check_app_permission_def APP_PERM_SYSTEM_def)
  moreover obtain a' cs where "alarm_list a' = remove_nth i (alarm_list a)"
    "alarm_manager_delete_alarm (ae_locked env) now (int i) (al_mgr s) = Some (True, cs, (al_mgr s)\<lparr>am_alarms := Some a'\<rparr>)"
    using delete_eq [OF assms(2,1,3) of_nat_0_le_iff n, of now] by auto
  ultimately have "delete_selected env now s = Some (s\<lparr>al_mgr := (al_mgr s)\<lparr>am_alarms := Some a'\<rparr>, al_cmds := al_cmds s @ cs\<rparr>)"
    and r: "alarm_list a' = remove_nth i (alarm_list a)"
    by (simp_all add: delete_selected_def delete_alarm_by_index_def)
  moreover have "alarm_list a = take i (alarm_list a') @ xs ! (i + k) # drop i (alarm_list a')"
    using id_take_nth_drop [OF i(1)] i r by (simp add: remove_nth_def)
  moreover have "pointed_alarm s = Some (xs ! i)"
    using assms(4,6,8) by (simp add: pointed_alarm_def rd_def nth_append)
  ultimately show ?thesis by auto
qed

text \<open>Three alarms are shown, the first has fired, the first card is deleted: the second alarm is lost.\<close>

definition ex_stale :: "nat alarm_ui" where
  "ex_stale = ex_page\<lparr>all_alarms_snapshot := Some (map Alarm_Manager.ex_alarm [100, 200, 300] @ replicate 2 zero_alarm), n_alarms := 3,
     selected_alarm := Some 0, al_mgr := ex_mgr [200, 300]\<rparr>"

definition ex_alarm_env :: alarm_env where
  "ex_alarm_env = \<lparr>ae_locked = True, ae_calloc = True, ae_calloc_snapshot = True, ae_id = 7\<rparr>"

theorem delete_after_alarms_fired_witness:
  "pointed_alarm ex_stale = Some (Alarm_Manager.ex_alarm 100) \<and>
   (\<exists>s' a'. delete_selected ex_alarm_env 150 ex_stale = Some s' \<and> am_alarms (al_mgr s') = Some a' \<and>
      alarm_list a' = [Alarm_Manager.ex_alarm 300])"
proof -
  let ?xs = "map Alarm_Manager.ex_alarm [100, 200, 300]"
  have "am_alarms (al_mgr ex_stale) = Some (ex_alarms [200, 300])"
    by (simp add: ex_stale_def)
  moreover have "alarms_ok (ex_alarms [200, 300])"
    by (rule ex_alarms_ok) simp_all
  moreover have "am_mutex (al_mgr ex_stale) \<longrightarrow> ae_locked ex_alarm_env"
    by (simp add: ex_alarm_env_def)
  moreover have "all_alarms_snapshot ex_stale = Some (?xs @ replicate 2 zero_alarm)" "n_alarms ex_stale = length ?xs"
    "selected_alarm ex_stale = Some 0"
    by (simp_all add: ex_stale_def)
  moreover have "alarm_list (ex_alarms [200, 300]) = drop 1 ?xs" "0 + 1 < length ?xs"
    by (simp_all add: ex_alarms_list)
  ultimately have "pointed_alarm ex_stale = Some (?xs ! 0) \<and>
    (\<exists>s' a'. delete_selected ex_alarm_env 150 ex_stale = Some s' \<and> am_alarms (al_mgr s') = Some a' \<and>
       alarm_list (ex_alarms [200, 300]) = take 0 (alarm_list a') @ ?xs ! (0 + 1) # drop 0 (alarm_list a'))"
    by (rule delete_after_alarms_fired)
  then show ?thesis
    by (auto simp: ex_alarms_list)
qed

end
