(* ===== verification/Weather_App.thy ===== *)
theory Weather_App
  imports Ui_Kit Common_Apis Text_Format Date_Fields
begin

text \<open>
  The weather application (\<open>weather_app.c\<close>) with its helpers for hours and dates (\<open>weather_utils.h\<close>, \<open>weather_utils.c\<close>).

  The texts of the labels with measurements are the numbers they are formatted from; the texts of the hour and of the date are
  strings. A label that does not exist is \<open>None\<close>, and so is the whole screen while the application is closed. Failed assertions
  and accesses outside of an array are \<open>None\<close>.
\<close>

section \<open>Hours and dates\<close>

definition SECONDS_PER_DAY :: int where "SECONDS_PER_DAY = 86400"
definition MAX_DATE_OFFSET_DIFF :: int where "MAX_DATE_OFFSET_DIFF = 60"

datatype weather_icon = Sunny | Cloud | Rainy

definition get_icon_from_code :: "byte \<Rightarrow> weather_icon" where
  "get_icon_from_code code =
     (if code \<in> {0, 1} then Sunny
      else if code \<in> {2, 3, 45, 48} then Cloud
      else if code \<in> {51, 53, 55, 56, 57, 61, 63, 65, 66, 67, 80, 81, 82, 95, 96, 99} then Rainy
      else Sunny)"

definition validate_hour :: "int \<Rightarrow> bool" where
  "validate_hour hr \<longleftrightarrow> hr \<ge> 0 \<and> hr < 24"

definition validate_epoch :: "int \<Rightarrow> bool" where
  "validate_epoch t \<longleftrightarrow> t \<ge> 0 \<and> t \<le> 4294967295"

definition calculate_hr_with_offset :: "date_time \<Rightarrow> int \<Rightarrow> nat option" where
  "calculate_hr_with_offset time off =
     (let proposed_hr = uint (dt_hr time) + off in if \<not> validate_hour proposed_hr then None else Some (nat proposed_hr))"

definition validate_hr_offset_increment :: "date_time \<Rightarrow> int \<Rightarrow> bool" where
  "validate_hr_offset_increment time off = validate_hour (uint (dt_hr time) + off + 1)"

definition validate_hr_offset_decrement :: "date_time \<Rightarrow> int \<Rightarrow> bool" where
  "validate_hr_offset_decrement time off = validate_hour (uint (dt_hr time) + off - 1)"

definition calculate_date_with_offset :: "date_time \<Rightarrow> int \<Rightarrow> date_time option" where
  "calculate_date_with_offset time off =
     (if \<not> (off \<ge> (-1) * MAX_DATE_OFFSET_DIFF \<and> off \<le> MAX_DATE_OFFSET_DIFF) then None
      else let proposed_epoch = int (get_epoch_from_date_time time) + off * SECONDS_PER_DAY
           in if \<not> validate_epoch proposed_epoch then None else Some (get_date_time_from_epoch (nat proposed_epoch)))"

definition validate_date_offset_increment :: "date_time \<Rightarrow> int \<Rightarrow> bool" where
  "validate_date_offset_increment time off =
     (if off \<ge> MAX_DATE_OFFSET_DIFF then False
      else validate_epoch (int (get_epoch_from_date_time time) + (off + 1) * SECONDS_PER_DAY))"

definition validate_date_offset_decrement :: "date_time \<Rightarrow> int \<Rightarrow> bool" where
  "validate_date_offset_decrement time off =
     (if off \<le> (-1) * MAX_DATE_OFFSET_DIFF then False
      else validate_epoch (int (get_epoch_from_date_time time) + (off - 1) * SECONDS_PER_DAY))"

definition months_str :: "string list" where
  "months_str = [''Jan'', ''Feb'', ''Mar'', ''Apr'', ''May'', ''Jun'', ''Jul'', ''Aug'', ''Sep'', ''Oct'', ''Nov'', ''Dec'']"

definition get_date_time_hr_string_fmt :: "byte \<Rightarrow> int \<Rightarrow> string option" where
  "get_date_time_hr_string_fmt hour off =
     (let h = uint hour + off
      in if \<not> validate_hour h then None
         else let post_str = (if h \<ge> 12 then ''PM'' else ''AM'');
                  h1 = (if h > 12 then h mod 12 else h);
                  h2 = (if h1 = 0 then 12 else h1)
              in Some (take 5 (udec (nat h2) @ '' '' @ post_str)))"

definition get_date_time_date_string_fmt :: "date_time \<Rightarrow> int \<Rightarrow> string option" where
  "get_date_time_date_string_fmt date off =
     (let proposed_epoch = int (get_epoch_from_date_time date) + off * SECONDS_PER_DAY
      in if \<not> validate_epoch proposed_epoch then None
         else let d = get_date_time_from_epoch (nat proposed_epoch);
                  m = (if dt_month d = 0 \<or> dt_month d > 12 then 0 else unat (dt_month d) - 1)
              in Some (take 6 (udec (unat (dt_day d)) @ '' '' @ months_str ! m)))"

section \<open>State\<close>

definition TOTAL_HOURS :: nat where "TOTAL_HOURS = 24"

record weather_ctx =
  weather_data :: "hourly_weather list"
  active_date_time :: date_time
  date_offset :: int
  hr_offset :: int
  base_obj :: "nat option"
  curr_temp_lbl :: "int option"
  curr_humidity_lbl :: "nat option"
  curr_wind_lbl :: "nat option"
  curr_precipitation_lbl :: "nat option"
  curr_state_icon :: "weather_icon option"
  hourly_lbl :: "string option"
  hourly_temp_lbl :: "int option"
  hourly_humidity_lbl :: "nat option"
  hourly_wind_lbl :: "nat option"
  hourly_state_icon :: "weather_icon option"
  date_lbl :: "string option"
  bottom_card :: "nat option"
  bottom_hidden :: bool
  spinner :: "nat option"

definition zero_date :: date_time where
  "zero_date = \<lparr>dt_day = 0, dt_month = 0, dt_year = 0, dt_hr = 0, dt_min = 0, dt_sec = 0, d_week = 0\<rparr>"

text \<open>The context is \<open>None\<close> while the application is closed.\<close>

record 'w weather_sys =
  app_ctx :: "weather_ctx option"
  wx_widgets :: 'w

definition weather_app :: "byte \<Rightarrow> application" where
  "weather_app n = \<lparr>app_id = n, app_perms = APP_PERM_BLE, app_name = map of_char ''Weather'', app_handles = True\<rparr>"

definition trigger_dated_weather_request ::
  "('h \<Rightarrow> sys_event \<Rightarrow> ('h, 'z) event_mgr_scheme \<Rightarrow> ('h, 'z) event_mgr_scheme) \<Rightarrow> byte \<Rightarrow> date_time option \<Rightarrow>
   ('h, 'z) event_mgr_scheme \<Rightarrow> ('h, 'z) event_mgr_scheme option" where
  "trigger_dated_weather_request call n target_date em =
     (if target_date = None then Some em
      else map_option snd (request_ble_resource call (Some (weather_app n)) DATED_WEATHER_REQUEST target_date em))"

section \<open>Refreshing the labels\<close>

text \<open>
  These functions return at once without a context; they are given the context that their callers have found. A label is written
  only if it exists.
\<close>

definition label_set :: "'a option \<Rightarrow> 'a \<Rightarrow> 'a option" where
  "label_set lbl v = map_option (\<lambda>_. v) lbl"

definition update_top_card :: "hourly_weather \<Rightarrow> weather_ctx \<Rightarrow> weather_ctx" where
  "update_top_card h c =
     c\<lparr>curr_temp_lbl := label_set (curr_temp_lbl c) (c_div (temperature h) 10),
       curr_humidity_lbl := label_set (curr_humidity_lbl c) (unat (humidity h)),
       curr_precipitation_lbl := label_set (curr_precipitation_lbl c) (unat (precip_prob h)),
       curr_wind_lbl := label_set (curr_wind_lbl c) (unat (wind_speed h)),
       curr_state_icon := label_set (curr_state_icon c) (get_icon_from_code (weather_code h))\<rparr>"

definition update_bottom_card :: "hourly_weather \<Rightarrow> weather_ctx \<Rightarrow> weather_ctx" where
  "update_bottom_card h c =
     c\<lparr>hourly_temp_lbl := label_set (hourly_temp_lbl c) (c_div (temperature h) 10),
       hourly_humidity_lbl := label_set (hourly_humidity_lbl c) (unat (humidity h)),
       hourly_wind_lbl := label_set (hourly_wind_lbl c) (unat (wind_speed h)),
       hourly_state_icon := label_set (hourly_state_icon c) (get_icon_from_code (weather_code h))\<rparr>"

definition update_button_labels :: "weather_ctx \<Rightarrow> weather_ctx option" where
  "update_button_labels c =
     do {
       fmt_hr_str \<leftarrow> get_date_time_hr_string_fmt (dt_hr (active_date_time c)) (hr_offset c);
       fmt_date_str \<leftarrow> get_date_time_date_string_fmt (active_date_time c) (date_offset c);
       Some (c\<lparr>hourly_lbl := label_set (hourly_lbl c) fmt_hr_str, date_lbl := label_set (date_lbl c) fmt_date_str\<rparr>)
     }"

definition refresh_bottom_ui :: "weather_ctx \<Rightarrow> weather_ctx option" where
  "refresh_bottom_ui c =
     do {
       hr_idx \<leftarrow> calculate_hr_with_offset (active_date_time c) (hr_offset c);
       h \<leftarrow> rd (weather_data c) hr_idx;
       update_button_labels (update_bottom_card h c)
     }"

definition refresh_all_ui :: "weather_ctx \<Rightarrow> weather_ctx option" where
  "refresh_all_ui c =
     do { h \<leftarrow> rd (weather_data c) (unat (dt_hr (active_date_time c))); refresh_bottom_ui (update_top_card h c) }"

definition initialize_weather_ui :: "weather_ctx \<Rightarrow> weather_ctx option" where
  "initialize_weather_ui c =
     (if \<not> validate_date_time (active_date_time c) then Some (c\<lparr>active_date_time := zero_date\<rparr>)
      else refresh_all_ui
        (if validate_hr_offset_increment (active_date_time c) (hr_offset c) then c\<lparr>hr_offset := hr_offset c + 1\<rparr> else c))"

section \<open>Waiting for the phone\<close>

definition enter_loading_state :: "'w lv_ops \<Rightarrow> weather_ctx \<times> 'w \<Rightarrow> (weather_ctx \<times> 'w) option" where
  "enter_loading_state lv = (\<lambda>(c, w).
     case base_obj c of
       None \<Rightarrow> Some (c, w)
     | Some base \<Rightarrow>
         if bottom_card c = None \<or> spinner c \<noteq> None then Some (c, w)
         else do {
           c1 \<leftarrow> refresh_all_ui c;
           (sp, w1) \<leftarrow> lv_obj_create lv base w;
           Some (c1\<lparr>bottom_hidden := True, spinner := Some sp\<rparr>, w1)
         })"

definition exit_loading_state :: "'w lv_ops \<Rightarrow> weather_ctx \<times> 'w \<Rightarrow> (weather_ctx \<times> 'w) option" where
  "exit_loading_state lv = (\<lambda>(c, w).
     case spinner c of
       None \<Rightarrow> Some (c, w)
     | Some sp \<Rightarrow>
         if bottom_card c = None \<or> base_obj c = None then Some (c, w)
         else do {
           w1 \<leftarrow> lv_obj_delete lv sp w;
           c1 \<leftarrow> initialize_weather_ui (c\<lparr>spinner := None, bottom_hidden := False\<rparr>);
           Some (c1, w1)
         })"

definition initialize_weather_app :: "('h, 'z) state_sys_scheme \<Rightarrow> weather_ctx \<Rightarrow> weather_ctx option" where
  "initialize_weather_app ss c =
     do {
       hours \<leftarrow> get_weather_day ss;
       initialize_weather_ui (c\<lparr>active_date_time := get_date_time ss, weather_data := hours\<rparr>)
     }"

section \<open>Callbacks\<close>

datatype weather_label = Hour_label | Date_label

text \<open>The flags: whether the event stops bubbling, and whether the label is sent the escape key.\<close>

definition handle_label_key_event :: "weather_label \<Rightarrow> lv_key \<Rightarrow> 'w weather_sys \<Rightarrow> (bool \<times> bool \<times> 'w weather_sys) option" where
  "handle_label_key_event target key s =
     (case app_ctx s of
        None \<Rightarrow> Some (False, False, s)
      | Some c \<Rightarrow>
          if hourly_lbl c = None \<or> date_lbl c = None then Some (False, False, s)
          else if key = LV_KEY_LEFT then do {
            c1 \<leftarrow> (case target of
                     Date_label \<Rightarrow> if validate_date_offset_decrement (active_date_time c) (date_offset c)
                                   then update_button_labels (c\<lparr>date_offset := date_offset c - 1\<rparr>) else Some c
                   | Hour_label \<Rightarrow> if validate_hr_offset_decrement (active_date_time c) (hr_offset c)
                                   then refresh_bottom_ui (c\<lparr>hr_offset := hr_offset c - 1\<rparr>) else Some c);
            Some (True, False, s\<lparr>app_ctx := Some c1\<rparr>)
          }
          else if key = LV_KEY_RIGHT then do {
            c1 \<leftarrow> (case target of
                     Date_label \<Rightarrow> if validate_date_offset_increment (active_date_time c) (date_offset c)
                                   then update_button_labels (c\<lparr>date_offset := date_offset c + 1\<rparr>) else Some c
                   | Hour_label \<Rightarrow> if validate_hr_offset_increment (active_date_time c) (hr_offset c)
                                   then refresh_bottom_ui (c\<lparr>hr_offset := hr_offset c + 1\<rparr>) else Some c);
            Some (True, False, s\<lparr>app_ctx := Some c1\<rparr>)
          }
          else Some (key = LV_KEY_ENTER, key = LV_KEY_ENTER, s))"

definition handle_date_unfocused_event ::
  "'w lv_ops \<Rightarrow> ('h \<Rightarrow> sys_event \<Rightarrow> ('h, 'z) event_mgr_scheme \<Rightarrow> ('h, 'z) event_mgr_scheme) \<Rightarrow> byte \<Rightarrow>
   'w weather_sys \<Rightarrow> ('h, 'z) event_mgr_scheme \<Rightarrow> ('w weather_sys \<times> ('h, 'z) event_mgr_scheme) option" where
  "handle_date_unfocused_event lv call n s em =
     (case app_ctx s of
        None \<Rightarrow> Some (s, em)
      | Some c \<Rightarrow>
          if date_lbl c = None \<or> date_offset c = 0 then Some (s, em)
          else do {
            req_date \<leftarrow> calculate_date_with_offset (active_date_time c) (date_offset c);
            if validate_date_time req_date then do {
              (c1, w) \<leftarrow> enter_loading_state lv
                (c\<lparr>active_date_time := req_date, hr_offset := 0, date_offset := 0, weather_data := replicate TOTAL_HOURS zero_hour\<rparr>,
                 wx_widgets s);
              em1 \<leftarrow> trigger_dated_weather_request call n (Some (active_date_time c1)) em;
              Some (s\<lparr>app_ctx := Some c1, wx_widgets := w\<rparr>, em1)
            }
            else Some (s, em)
          })"

section \<open>The screen\<close>

text \<open>The manager of the applications never passes a null parent.\<close>

definition draw_app_ui :: "'w lv_ops \<Rightarrow> bool \<Rightarrow> ('h, 'z) state_sys_scheme \<Rightarrow> nat \<Rightarrow> 'w weather_sys \<Rightarrow> 'w weather_sys option" where
  "draw_app_ui lv calloc_ok ss parent s =
     (if \<not> calloc_ok then Some (s\<lparr>app_ctx := None\<rparr>)
      else do {
        (base, w1) \<leftarrow> lv_obj_create lv parent (wx_widgets s);
        (top_card, w2) \<leftarrow> lv_obj_create lv base w1;
        (text_container, w3) \<leftarrow> lv_obj_create lv top_card w2;
        (temp, w4) \<leftarrow> lv_obj_create lv text_container w3;
        (hum, w5) \<leftarrow> lv_obj_create lv text_container w4;
        (precip, w6) \<leftarrow> lv_obj_create lv text_container w5;
        (wind, w7) \<leftarrow> lv_obj_create lv text_container w6;
        (icon_container, w8) \<leftarrow> lv_obj_create lv top_card w7;
        (icon, w9) \<leftarrow> lv_obj_create lv icon_container w8;
        (bottom, w10) \<leftarrow> lv_obj_create lv base w9;
        (bottom_text_container, w11) \<leftarrow> lv_obj_create lv bottom w10;
        (hr_temp, w12) \<leftarrow> lv_obj_create lv bottom_text_container w11;
        (hr_hum, w13) \<leftarrow> lv_obj_create lv bottom_text_container w12;
        (hr_wind, w14) \<leftarrow> lv_obj_create lv bottom_text_container w13;
        (bottom_icon_container, w15) \<leftarrow> lv_obj_create lv bottom w14;
        (hr_icon, w16) \<leftarrow> lv_obj_create lv bottom_icon_container w15;
        (hour_container, w17) \<leftarrow> lv_obj_create lv base w16;
        (hr_lbl, w18) \<leftarrow> lv_obj_create lv hour_container w17;
        (date_container, w19) \<leftarrow> lv_obj_create lv base w18;
        (d_lbl, w20) \<leftarrow> lv_obj_create lv date_container w19;
        c \<leftarrow> initialize_weather_app ss
          \<lparr>weather_data = replicate TOTAL_HOURS zero_hour, active_date_time = zero_date, date_offset = 0, hr_offset = 0,
           base_obj = Some base, curr_temp_lbl = Some 0, curr_humidity_lbl = Some 0, curr_wind_lbl = Some 0,
           curr_precipitation_lbl = Some 0, curr_state_icon = Some Sunny, hourly_lbl = Some ''1 AM'', hourly_temp_lbl = Some 0,
           hourly_humidity_lbl = Some 0, hourly_wind_lbl = Some 0, hourly_state_icon = Some Sunny, date_lbl = Some ''26 Aug'',
           bottom_card = Some bottom, bottom_hidden = False, spinner = None\<rparr>;
        Some (s\<lparr>app_ctx := Some c, wx_widgets := w20\<rparr>)
      })"

text \<open>The bytes of an update, read as hours the way they were copied in.\<close>

definition hour_of :: "byte list \<Rightarrow> hourly_weather option" where
  "hour_of bs =
     (case bs of
        [t0, t1, h, p, c, v] \<Rightarrow> Some \<lparr>temperature = s16 (unat t0 + 256 * unat t1), humidity = h, precip_prob = p, weather_code = c, wind_speed = v\<rparr>
      | _ \<Rightarrow> None)"

primrec hours_of :: "nat \<Rightarrow> byte list \<Rightarrow> hourly_weather list option" where
  "hours_of 0 bs = Some []"
| "hours_of (Suc n) bs = do { h \<leftarrow> hour_of (take 6 bs); hs \<leftarrow> hours_of n (drop 6 bs); Some (h # hs) }"

definition receive_event :: "'w lv_ops \<Rightarrow> app_update option \<Rightarrow> 'w weather_sys \<Rightarrow> 'w weather_sys option" where
  "receive_event lv update s =
     (case (update, app_ctx s) of
        (Some u, Some c) \<Rightarrow>
          (case au_req u of DATED_WEATHER_REQUEST \<Rightarrow> do {
             hours \<leftarrow> hours_of TOTAL_HOURS (au_data u);
             (c1, w) \<leftarrow> exit_loading_state lv (c\<lparr>weather_data := hours\<rparr>, wx_widgets s);
             Some (s\<lparr>app_ctx := Some c1, wx_widgets := w\<rparr>)
           })
      | _ \<Rightarrow> Some s)"

definition delete_app_ui :: "'w lv_ops \<Rightarrow> 'w weather_sys \<Rightarrow> 'w weather_sys option" where
  "delete_app_ui lv s =
     do {
       w \<leftarrow> (case app_ctx s of
               None \<Rightarrow> Some (wx_widgets s)
             | Some c \<Rightarrow> (case base_obj c of None \<Rightarrow> Some (wx_widgets s) | Some b \<Rightarrow> lv_obj_delete lv b (wx_widgets s)));
       Some (s\<lparr>app_ctx := None, wx_widgets := w\<rparr>)
     }"

section \<open>Hours in the twelve-hour clock\<close>

text \<open>The text of an hour of the day: nothing is cut off.\<close>

lemma hour_text:
  assumes "0 \<le> h" "h < 24" "uint hour + off = h"
  shows "get_date_time_hr_string_fmt hour off =
    Some (udec (nat (if h mod 12 = 0 then 12 else h mod 12)) @ '' '' @ (if 12 \<le> h then ''PM'' else ''AM''))"
proof -
  have n: "(if (if h > 12 then h mod 12 else h) = 0 then 12 else if h > 12 then h mod 12 else h) = (if h mod 12 = 0 then 12 else h mod 12)"
  proof (cases "h < 12")
    case False
    then have "h = 12 \<or> h mod 12 = h - 12 \<and> 0 < h - 12"
      using assms(2) by (auto intro!: int_mod_pos_eq [of _ _ 1])
    then show ?thesis using assms(2) by auto
  qed (use assms in simp)
  have "length (udec (nat (if h mod 12 = 0 then 12 else h mod 12))) \<le> 2"
  proof -
    have "0 \<le> h mod 12" "h mod 12 < 12" by simp_all
    then have "nat (if h mod 12 = 0 then 12 else h mod 12) < 100" by auto
    then show ?thesis
      using udec_small udec_two by (metis length_Cons list.size(3) nat_le_linear not_less numeral_2_eq_2 order_refl One_nat_def le_SucI)
  qed
  then have t: "take 5 (udec (nat (if h mod 12 = 0 then 12 else h mod 12)) @ '' '' @ p) =
      udec (nat (if h mod 12 = 0 then 12 else h mod 12)) @ '' '' @ p" if "length p = 2" for p
    using that by (intro take_all) (simp only: length_append list.size)
  have v: "\<not> validate_hour h \<longleftrightarrow> False" using assms(1,2) by (simp add: validate_hour_def)
  show ?thesis
    unfolding get_date_time_hr_string_fmt_def assms(3) Let_def v n if_False by (subst t) simp_all
qed

text \<open>
  The text of an hour fits the six bytes of its callers and names the hour in the twelve-hour clock: it is a number from one to
  twelve with AM or PM, and the number and the half of the day give back the hour, with midnight and noon as twelve.
\<close>

lemma clock_text_names_hour:
  assumes "get_date_time_hr_string_fmt hour off = Some t"
  shows "\<exists>n p. t = udec n @ '' '' @ p \<and> 1 \<le> n \<and> n \<le> 12 \<and> length t \<le> 5 \<and>
    (p = ''AM'' \<and> uint hour + off = int n mod 12 \<or> p = ''PM'' \<and> uint hour + off = int n mod 12 + 12)"
proof -
  let ?h = "uint hour + off"
  have h: "0 \<le> ?h" "?h < 24"
    using assms by (auto simp: get_date_time_hr_string_fmt_def validate_hour_def Let_def split: if_splits)
  define n where "n = nat (if ?h mod 12 = 0 then 12 else ?h mod 12)"
  have m: "0 \<le> ?h mod 12" "?h mod 12 < 12" by simp_all
  have t: "t = udec n @ '' '' @ (if 12 \<le> ?h then ''PM'' else ''AM'')" using assms hour_text [OF h refl] by (simp add: n_def)
  have l: "length t \<le> 5" using assms by (auto simp: get_date_time_hr_string_fmt_def Let_def split: if_splits)
  have n: "1 \<le> n" "n \<le> 12" "int n mod 12 = ?h mod 12" using m by (auto simp: n_def)
  show ?thesis
  proof (cases "12 \<le> ?h")
    case True
    then have "?h mod 12 = ?h - 12" using h(2) by (intro int_mod_pos_eq [of _ _ 1]) simp_all
    then have "?h = int n mod 12 + 12" using n(3) by linarith
    then show ?thesis using t l n(1,2) True by (intro exI [of _ n] exI [of _ "''PM''"]) (simp only: if_True simp_thms)
  next
    case False
    then have "?h mod 12 = ?h" using h(1) by simp
    then have "?h = int n mod 12" using n(3) by linarith
    then show ?thesis using t l n(1,2) False by (intro exI [of _ n] exI [of _ "''AM''"]) (simp only: if_False simp_thms)
  qed
qed

lemma clock_text_names_hour_witness:
  "\<exists>n p. ''12 PM'' = udec n @ '' '' @ p \<and> 1 \<le> n \<and> n \<le> 12 \<and>
    (p = ''AM'' \<and> (12 :: int) = int n mod 12 \<or> p = ''PM'' \<and> (12 :: int) = int n mod 12 + 12)"
proof -
  have "get_date_time_hr_string_fmt 13 (-1) = Some ''12 PM''"
    by code_simp
  from clock_text_names_hour [OF this] show ?thesis by auto
qed

section \<open>Days of the calendar in words\<close>

text \<open>
  What a text says, without the code's own tables: the English names of the months, a day of the calendar by its number and the first
  three letters of its month, and an hour of the day in the twelve-hour clock.
\<close>

definition month_names :: "int \<Rightarrow> string" where
  "month_names m =
     (if m = 0 then ''January'' else if m = 1 then ''February'' else if m = 2 then ''March'' else if m = 3 then ''April''
      else if m = 4 then ''May'' else if m = 5 then ''June'' else if m = 6 then ''July'' else if m = 7 then ''August''
      else if m = 8 then ''September'' else if m = 9 then ''October'' else if m = 10 then ''November'' else ''December'')"

definition names_day :: "int \<Rightarrow> string \<Rightarrow> bool" where
  "names_day t text \<longleftrightarrow> (\<exists>y m d. valid_civil (y, m, d) \<and> day_number (y, m, d) = t div 86400 \<and>
     text = udec (nat d) @ '' '' @ take 3 (month_names m))"

definition names_hour :: "int \<Rightarrow> string \<Rightarrow> bool" where
  "names_hour h text \<longleftrightarrow> (\<exists>n p. 1 \<le> n \<and> n \<le> 12 \<and> text = udec n @ '' '' @ p \<and>
     (p = ''AM'' \<and> h = int n mod 12 \<or> p = ''PM'' \<and> h = int n mod 12 + 12))"

lemma hour_label_names_hour: "get_date_time_hr_string_fmt hour off = Some t \<Longrightarrow> names_hour (uint hour + off) t"
  unfolding names_hour_def using clock_text_names_hour by blast

lemma month_abbreviation:
  assumes "0 \<le> m" "m < 12"
  shows "months_str ! nat m = take 3 (month_names m)" "length (months_str ! nat m) = 3"
proof -
  have "m = 0 \<or> m = 1 \<or> m = 2 \<or> m = 3 \<or> m = 4 \<or> m = 5 \<or> m = 6 \<or> m = 7 \<or> m = 8 \<or> m = 9 \<or> m = 10 \<or> m = 11"
    using assms by presburger
  then show "months_str ! nat m = take 3 (month_names m)" "length (months_str ! nat m) = 3"
    by (elim disjE; simp add: months_str_def month_names_def)+
qed

text \<open>The text fits the six bytes of its buffer without the terminator, so nothing of the day is cut off.\<close>

lemma date_label_names_day:
  assumes "E < 4294967296" "get_date_time_date_string_fmt (get_date_time_from_epoch E) off = Some t"
  shows "names_day (int E + off * 86400) t"
proof -
  let ?t = "int E + off * 86400"
  let ?d = "get_date_time_from_epoch (nat ?t)"
  have v: "0 \<le> ?t" "?t < 4294967296"
    using assms(2) by (auto simp: get_date_time_date_string_fmt_def epoch_of_date [OF assms(1)] validate_epoch_def SECONDS_PER_DAY_def
        Let_def split: if_splits)
  then have n: "nat ?t < 4294967296" "int (nat ?t) = ?t" by simp_all
  obtain y m d where c: "civil (?t div 86400) = (y, m, d)" by (cases "civil (?t div 86400)")
  have ok: "valid_civil (y, m, d)" "day_number (y, m, d) = ?t div 86400"
    using civil_correct [of "?t div 86400"] c by simp_all
  have md: "0 \<le> m" "m < 12" "1 \<le> d" "d \<le> 31"
    using ok(1) month_length_bounds(2) [of y m] by (auto simp: valid_civil_def)
  have "uint (dt_day ?d) = d" "uint (dt_month ?d) = m + 1"
    using md by (simp_all only: get_date_time_from_epoch_def Let_def n(2) gmtime_fields c fst_conv snd_conv date_time.simps tm.simps
        uint_of_int_byte)
  then have w: "unat (dt_day ?d) = nat d" "unat (dt_month ?d) = nat (m + 1)"
    by (simp_all only: unat_eq_nat_uint)
  have z: "\<not> (dt_month ?d = 0 \<or> dt_month ?d > 12)"
    using w(2) md by (auto simp: word_less_nat_alt)
  have i: "nat (m + 1) - 1 = nat m" using md by simp
  have "nat d < 100" using md by simp
  then have "length (udec (nat d)) \<le> 2"
    using udec_small [of "nat d"] udec_two [of "nat d"] by (cases "nat d < 10") simp_all
  then have "take 6 (udec (nat d) @ '' '' @ months_str ! nat m) = udec (nat d) @ '' '' @ months_str ! nat m"
    using month_abbreviation(2) [OF md(1,2)] by simp
  moreover have "get_date_time_date_string_fmt (get_date_time_from_epoch E) off =
      Some (take 6 (udec (unat (dt_day ?d)) @ '' '' @ months_str ! (unat (dt_month ?d) - 1)))"
    using v z by (simp add: get_date_time_date_string_fmt_def epoch_of_date [OF assms(1)] validate_epoch_def SECONDS_PER_DAY_def Let_def)
  ultimately have "t = udec (nat d) @ '' '' @ take 3 (month_names m)"
    using assms(2) unfolding w i month_abbreviation(1) [OF md(1,2)] option.inject by (metis option.inject)
  then show ?thesis unfolding names_day_def using ok by blast
qed

section \<open>The context stays well-formed\<close>

definition dates_ok :: "weather_ctx \<Rightarrow> bool" where
  "dates_ok c \<longleftrightarrow> length (weather_data c) = TOTAL_HOURS \<and>
     (\<exists>E < 4294967296. active_date_time c = get_date_time_from_epoch E) \<and>
     - MAX_DATE_OFFSET_DIFF \<le> date_offset c \<and> date_offset c \<le> MAX_DATE_OFFSET_DIFF \<and>
     validate_epoch (int (get_epoch_from_date_time (active_date_time c)) + date_offset c * SECONDS_PER_DAY) \<and>
     validate_hour (uint (dt_hr (active_date_time c)) + hr_offset c)"

definition hour_shown :: "weather_ctx \<Rightarrow> bool" where
  "hour_shown c \<longleftrightarrow> hourly_lbl c \<noteq> None \<and> hourly_lbl c = get_date_time_hr_string_fmt (dt_hr (active_date_time c)) (hr_offset c)"

definition date_shown :: "weather_ctx \<Rightarrow> bool" where
  "date_shown c \<longleftrightarrow> date_lbl c \<noteq> None \<and> date_lbl c = get_date_time_date_string_fmt (active_date_time c) (date_offset c)"

text \<open>What refreshing leaves alone.\<close>

definition same_data :: "weather_ctx \<Rightarrow> weather_ctx \<Rightarrow> bool" where
  "same_data c d \<longleftrightarrow> weather_data d = weather_data c \<and> active_date_time d = active_date_time c \<and> date_offset d = date_offset c \<and>
     hr_offset d = hr_offset c \<and> base_obj d = base_obj c \<and> bottom_card d = bottom_card c \<and> bottom_hidden d = bottom_hidden c \<and>
     spinner d = spinner c \<and> (hourly_lbl d = None) = (hourly_lbl c = None) \<and> (date_lbl d = None) = (date_lbl c = None)"

lemma same_data_trans: "same_data c d \<Longrightarrow> same_data d e \<Longrightarrow> same_data c e"
  by (simp add: same_data_def)

lemma hr_fmt_some: "validate_hour (uint hour + off) \<Longrightarrow> \<exists>t. get_date_time_hr_string_fmt hour off = Some t"
  by (simp add: get_date_time_hr_string_fmt_def Let_def)

lemma date_fmt_some:
  "validate_epoch (int (get_epoch_from_date_time d) + off * SECONDS_PER_DAY) \<Longrightarrow> \<exists>t. get_date_time_date_string_fmt d off = Some t"
  by (simp add: get_date_time_date_string_fmt_def Let_def)

lemma button_labels_yield:
  assumes "dates_ok c" "hourly_lbl c \<noteq> None" "date_lbl c \<noteq> None"
  shows "yields (update_button_labels c) (\<lambda>d. same_data c d \<and> hour_shown d \<and> date_shown d)"
proof -
  obtain t where t: "get_date_time_hr_string_fmt (dt_hr (active_date_time c)) (hr_offset c) = Some t"
    using hr_fmt_some assms(1) unfolding dates_ok_def by blast
  obtain u where u: "get_date_time_date_string_fmt (active_date_time c) (date_offset c) = Some u"
    using date_fmt_some assms(1) unfolding dates_ok_def by blast
  show ?thesis
    using assms(2,3) by (auto simp: update_button_labels_def t u same_data_def hour_shown_def date_shown_def label_set_def)
qed

lemma same_data_update [simp]: "same_data (update_bottom_card h c) d = same_data c d" "same_data (update_top_card h c) d = same_data c d"
  by (simp_all add: same_data_def update_bottom_card_def update_top_card_def)

lemma update_fields [simp]:
  "active_date_time (update_bottom_card h c) = active_date_time c" "hr_offset (update_bottom_card h c) = hr_offset c"
  "weather_data (update_bottom_card h c) = weather_data c" "hourly_lbl (update_bottom_card h c) = hourly_lbl c"
  "date_lbl (update_bottom_card h c) = date_lbl c" "dates_ok (update_bottom_card h c) = dates_ok c"
  "active_date_time (update_top_card h c) = active_date_time c" "hr_offset (update_top_card h c) = hr_offset c"
  "weather_data (update_top_card h c) = weather_data c" "hourly_lbl (update_top_card h c) = hourly_lbl c"
  "date_lbl (update_top_card h c) = date_lbl c" "dates_ok (update_top_card h c) = dates_ok c"
  by (simp_all add: update_bottom_card_def update_top_card_def dates_ok_def)

text \<open>The measurements on a card are those of an hour.\<close>

definition bottom_shows :: "hourly_weather \<Rightarrow> weather_ctx \<Rightarrow> bool" where
  "bottom_shows h c \<longleftrightarrow> hourly_temp_lbl c = Some (c_div (temperature h) 10) \<and> hourly_humidity_lbl c = Some (unat (humidity h)) \<and>
     hourly_wind_lbl c = Some (unat (wind_speed h)) \<and> hourly_state_icon c = Some (get_icon_from_code (weather_code h))"

definition top_shows :: "hourly_weather \<Rightarrow> weather_ctx \<Rightarrow> bool" where
  "top_shows h c \<longleftrightarrow> curr_temp_lbl c = Some (c_div (temperature h) 10) \<and> curr_humidity_lbl c = Some (unat (humidity h)) \<and>
     curr_precipitation_lbl c = Some (unat (precip_prob h)) \<and> curr_wind_lbl c = Some (unat (wind_speed h)) \<and>
     curr_state_icon c = Some (get_icon_from_code (weather_code h))"

definition cards_exist :: "weather_ctx \<Rightarrow> bool" where
  "cards_exist c \<longleftrightarrow> hourly_temp_lbl c \<noteq> None \<and> hourly_humidity_lbl c \<noteq> None \<and> hourly_wind_lbl c \<noteq> None \<and> hourly_state_icon c \<noteq> None \<and>
     curr_temp_lbl c \<noteq> None \<and> curr_humidity_lbl c \<noteq> None \<and> curr_precipitation_lbl c \<noteq> None \<and> curr_wind_lbl c \<noteq> None \<and>
     curr_state_icon c \<noteq> None"

lemma button_labels_cards:
  "update_button_labels c = Some d \<Longrightarrow> bottom_shows h d = bottom_shows h c \<and> top_shows h d = top_shows h c \<and> cards_exist d = cards_exist c"
  by (auto simp: update_button_labels_def bottom_shows_def top_shows_def cards_exist_def split: bind_splits)

definition shown_hour :: "weather_ctx \<Rightarrow> nat" where
  "shown_hour c = nat (uint (dt_hr (active_date_time c)) + hr_offset c)"

lemma refresh_bottom_yields:
  assumes "dates_ok c" "hourly_lbl c \<noteq> None" "date_lbl c \<noteq> None" "cards_exist c"
  shows "yields (refresh_bottom_ui c) (\<lambda>d. same_data c d \<and> hour_shown d \<and> date_shown d \<and> cards_exist d \<and>
     bottom_shows (weather_data d ! shown_hour d) d \<and> (\<forall>h. top_shows h c \<longrightarrow> top_shows h d))"
proof -
  have v: "validate_hour (uint (dt_hr (active_date_time c)) + hr_offset c)" "length (weather_data c) = 24"
    using assms(1) by (simp_all add: dates_ok_def TOTAL_HOURS_def)
  then have i: "shown_hour c < length (weather_data c)"
    by (auto simp: shown_hour_def validate_hour_def)
  let ?c = "update_bottom_card (weather_data c ! shown_hour c) c"
  have r: "refresh_bottom_ui c = update_button_labels ?c"
    using v i by (simp add: refresh_bottom_ui_def calculate_hr_with_offset_def Let_def rd_def shown_hour_def)
  obtain d where d: "update_button_labels ?c = Some d" "same_data c d" "hour_shown d" "date_shown d"
    using yieldsD [OF button_labels_yield [of ?c]] assms by auto
  have "bottom_shows (weather_data c ! shown_hour c) ?c" "cards_exist ?c" "top_shows h c \<Longrightarrow> top_shows h ?c" for h
    using assms(4) by (auto simp: bottom_shows_def cards_exist_def update_bottom_card_def label_set_def top_shows_def)
  moreover have "shown_hour d = shown_hour c" "weather_data d = weather_data c"
    using d(2) by (simp_all add: shown_hour_def same_data_def)
  ultimately show ?thesis
    using d button_labels_cards [OF d(1)] by (simp add: r)
qed

definition all_shown :: "weather_ctx \<Rightarrow> bool" where
  "all_shown c \<longleftrightarrow> hour_shown c \<and> date_shown c \<and> bottom_shows (weather_data c ! shown_hour c) c \<and>
     top_shows (weather_data c ! unat (dt_hr (active_date_time c))) c"

lemma refresh_all_yields:
  assumes "dates_ok c" "hourly_lbl c \<noteq> None" "date_lbl c \<noteq> None" "cards_exist c"
  shows "yields (refresh_all_ui c) (\<lambda>d. same_data c d \<and> all_shown d \<and> cards_exist d)"
proof -
  obtain E where "E < 4294967296" "active_date_time c = get_date_time_from_epoch E"
    using assms(1) unfolding dates_ok_def by blast
  then have i: "unat (dt_hr (active_date_time c)) < length (weather_data c)"
    using fields_of_epoch(1) assms(1) by (simp add: dates_ok_def TOTAL_HOURS_def)
  let ?h = "weather_data c ! unat (dt_hr (active_date_time c))"
  let ?c = "update_top_card ?h c"
  have c: "dates_ok ?c" "hourly_lbl ?c \<noteq> None" "date_lbl ?c \<noteq> None" "cards_exist ?c" "top_shows ?h ?c"
    using assms by (auto simp: cards_exist_def update_top_card_def label_set_def top_shows_def dates_ok_def)
  have "yields (refresh_bottom_ui ?c) (\<lambda>d. same_data c d \<and> all_shown d \<and> cards_exist d)"
  proof (rule yields_mono [OF refresh_bottom_yields [OF c(1-4)]], goal_cases)
    case (1 d)
    then have s: "same_data c d" by simp
    then have "active_date_time d = active_date_time c" "weather_data d = weather_data c" by (simp_all add: same_data_def)
    then show ?case using 1 s c(5) by (simp add: all_shown_def)
  qed
  then show ?thesis using i by (simp add: refresh_all_ui_def rd_def)
qed

section \<open>The screen stays well-formed\<close>

definition screen_ok :: "'w lv_par \<Rightarrow> nat \<Rightarrow> weather_ctx \<Rightarrow> 'w \<Rightarrow> bool" where
  "screen_ok par root c w \<longleftrightarrow> bottom_card c \<noteq> None \<and> bottom_hidden c = (spinner c \<noteq> None) \<and>
     (\<exists>b. base_obj c = Some b \<and> placed par root b w \<and> (\<forall>x. spinner c = Some x \<longrightarrow> placed par b x w))"

definition ctx_ok :: "'w lv_par \<Rightarrow> nat \<Rightarrow> weather_ctx \<Rightarrow> 'w \<Rightarrow> bool" where
  "ctx_ok par root c w \<longleftrightarrow> dates_ok c \<and> cards_exist c \<and> date_shown c \<and> hourly_lbl c \<noteq> None \<and> (spinner c = None \<longrightarrow> hour_shown c) \<and>
     screen_ok par root c w"

lemma screen_ok_same: "same_data (c\<lparr>hr_offset := hr_offset d\<rparr>) d \<Longrightarrow> screen_ok par root c w \<Longrightarrow> screen_ok par root d w"
  by (simp add: same_data_def screen_ok_def)

lemma dates_ok_same: "same_data c d \<Longrightarrow> dates_ok d = dates_ok c"
  by (simp add: same_data_def dates_ok_def)

lemma same_data_hr: "same_data c d \<Longrightarrow> same_data (c\<lparr>hr_offset := hr_offset d\<rparr>) d"
  by (simp add: same_data_def)

lemma init_ui_yields:
  assumes "dates_ok c" "hourly_lbl c \<noteq> None" "date_lbl c \<noteq> None" "cards_exist c"
  shows "yields (initialize_weather_ui c)
     (\<lambda>d. same_data (c\<lparr>hr_offset := hr_offset d\<rparr>) d \<and> dates_ok d \<and> all_shown d \<and> cards_exist d)"
proof -
  let ?c = "if validate_hr_offset_increment (active_date_time c) (hr_offset c) then c\<lparr>hr_offset := hr_offset c + 1\<rparr> else c"
  have c: "dates_ok ?c" "hourly_lbl ?c \<noteq> None" "date_lbl ?c \<noteq> None" "cards_exist ?c" "same_data (c\<lparr>hr_offset := hr_offset ?c\<rparr>) ?c"
    using assms by (simp_all only: dates_ok_def validate_hr_offset_increment_def add.assoc cards_exist_def same_data_def
      split: if_split) simp_all
  obtain E where "E < 4294967296" "active_date_time c = get_date_time_from_epoch E"
    using assms(1) unfolding dates_ok_def by blast
  then have "validate_date_time (active_date_time c)"
    using validate_of_epoch by simp
  then have i: "initialize_weather_ui c = refresh_all_ui ?c" by (simp add: initialize_weather_ui_def)
  show ?thesis unfolding i
  proof (rule yields_mono [OF refresh_all_yields [OF c(1-4)]], goal_cases)
    case (1 d)
    then have "hr_offset d = hr_offset ?c" by (simp add: same_data_def)
    then show ?case using 1 c(1,5) same_data_trans dates_ok_same by metis
  qed
qed

lemma data_update [simp]:
  "date_shown (c\<lparr>weather_data := hs\<rparr>) = date_shown c" "hour_shown (c\<lparr>weather_data := hs\<rparr>) = hour_shown c"
  "cards_exist (c\<lparr>weather_data := hs\<rparr>) = cards_exist c" "screen_ok par root (c\<lparr>weather_data := hs\<rparr>) w = screen_ok par root c w"
  by (simp_all add: date_shown_def hour_shown_def cards_exist_def screen_ok_def)

lemma dates_ok_data: "dates_ok c \<Longrightarrow> length hs = TOTAL_HOURS \<Longrightarrow> dates_ok (c\<lparr>weather_data := hs\<rparr>)"
  by (simp add: dates_ok_def)

lemma exit_yields:
  assumes "lv_spec lv par" "ctx_ok par root c w" "length hours = TOTAL_HOURS"
  shows "yields (exit_loading_state lv (c\<lparr>weather_data := hours\<rparr>, w)) (\<lambda>(d, w'). ctx_ok par root d w' \<and> spinner d = None \<and>
     weather_data d = hours \<and> active_date_time d = active_date_time c \<and> date_offset d = date_offset c \<and>
     (spinner c \<noteq> None \<longrightarrow> all_shown d) \<and> (spinner c = None \<longrightarrow> d = c\<lparr>weather_data := hours\<rparr>))"
proof (cases "spinner c")
  case None
  then show ?thesis
    using assms by (simp add: exit_loading_state_def ctx_ok_def dates_ok_data)
next
  case (Some sp)
  let ?c = "c\<lparr>weather_data := hours, spinner := None, bottom_hidden := False\<rparr>"
  obtain b where b: "base_obj c = Some b" "placed par root b w" "placed par b sp w" "bottom_card c \<noteq> None"
    using assms(2) Some by (auto simp: ctx_ok_def screen_ok_def)
  have c: "dates_ok ?c" "hourly_lbl ?c \<noteq> None" "date_lbl ?c \<noteq> None" "cards_exist ?c"
  proof -
    have ok: "dates_ok c" "hourly_lbl c \<noteq> None" "cards_exist c" "date_shown c"
      using assms(2) unfolding ctx_ok_def by blast+
    show "dates_ok ?c" using ok(1) assms(3) by (simp add: dates_ok_def)
    show "hourly_lbl ?c \<noteq> None" using ok(2) by simp
    show "cards_exist ?c" using ok(3) by (simp add: cards_exist_def)
    have "date_lbl c \<noteq> None" using ok(4) unfolding date_shown_def by blast
    then show "date_lbl ?c \<noteq> None" by simp
  qed
  have "yields (lv_obj_delete lv sp w) (\<lambda>w1. yields (initialize_weather_ui ?c) (\<lambda>d. ctx_ok par root d w1 \<and> spinner d = None \<and>
     weather_data d = hours \<and> active_date_time d = active_date_time c \<and> date_offset d = date_offset c \<and> all_shown d))"
  proof (rule yields_mono [OF delete_nested [OF assms(1) b(2,3)]], goal_cases)
    case (1 w1)
    have s: "screen_ok par root ?c w1" using 1 b by (simp add: screen_ok_def)
    show ?case
    proof (rule yields_mono [OF init_ui_yields [OF c]], goal_cases)
      case (1 d)
      then have "weather_data d = hours \<and> active_date_time d = active_date_time c \<and> date_offset d = date_offset c \<and> spinner d = None"
        by (simp add: same_data_def)
      then show ?case
        using 1 screen_ok_same [OF _ s] by (auto simp: ctx_ok_def all_shown_def hour_shown_def)
    qed
  qed
  then show ?thesis
    using Some b(1,4) by (simp add: exit_loading_state_def)
qed

lemma ctx_okD:
  assumes "ctx_ok par root c w"
  shows "dates_ok c" "hourly_lbl c \<noteq> None" "cards_exist c" "date_shown c" "date_lbl c \<noteq> None" "screen_ok par root c w"
  using assms unfolding ctx_ok_def date_shown_def by blast+

lemma offsets_ok:
  "dates_ok c \<Longrightarrow> validate_date_offset_decrement (active_date_time c) (date_offset c) \<Longrightarrow> dates_ok (c\<lparr>date_offset := date_offset c - 1\<rparr>)"
  "dates_ok c \<Longrightarrow> validate_date_offset_increment (active_date_time c) (date_offset c) \<Longrightarrow> dates_ok (c\<lparr>date_offset := date_offset c + 1\<rparr>)"
  "dates_ok c \<Longrightarrow> validate_hr_offset_decrement (active_date_time c) (hr_offset c) \<Longrightarrow> dates_ok (c\<lparr>hr_offset := hr_offset c - 1\<rparr>)"
  "dates_ok c \<Longrightarrow> validate_hr_offset_increment (active_date_time c) (hr_offset c) \<Longrightarrow> dates_ok (c\<lparr>hr_offset := hr_offset c + 1\<rparr>)"
  by (simp_all add: dates_ok_def validate_date_offset_decrement_def validate_date_offset_increment_def validate_hr_offset_decrement_def
    validate_hr_offset_increment_def MAX_DATE_OFFSET_DIFF_def algebra_simps split: if_splits)

lemma hour_shownD: "hour_shown c \<Longrightarrow> hourly_lbl c \<noteq> None"
  unfolding hour_shown_def by blast

lemma move_date:
  assumes "ctx_ok par root c w" "dates_ok (c\<lparr>date_offset := k\<rparr>)"
  shows "yields (update_button_labels (c\<lparr>date_offset := k\<rparr>)) (\<lambda>d. ctx_ok par root d w)"
proof -
  let ?c = "c\<lparr>date_offset := k\<rparr>"
  have c: "hourly_lbl ?c \<noteq> None" "date_lbl ?c \<noteq> None" "cards_exist ?c" "screen_ok par root ?c w"
    using ctx_okD [OF assms(1)] by (simp_all add: cards_exist_def screen_ok_def)
  obtain d where d: "update_button_labels ?c = Some d" "same_data ?c d" "hour_shown d" "date_shown d"
    using yieldsD [OF button_labels_yield [OF assms(2) c(1,2)]] by blast
  then show ?thesis
    using c(3,4) assms(2) button_labels_cards [OF d(1)] dates_ok_same [OF d(2)] screen_ok_same [OF same_data_hr [OF d(2)] c(4)] hour_shownD [OF d(3)]
    by (simp add: ctx_ok_def)
qed

lemma move_hour:
  assumes "ctx_ok par root c w" "dates_ok (c\<lparr>hr_offset := k\<rparr>)"
  shows "yields (refresh_bottom_ui (c\<lparr>hr_offset := k\<rparr>)) (\<lambda>d. ctx_ok par root d w)"
proof -
  let ?c = "c\<lparr>hr_offset := k\<rparr>"
  have c: "hourly_lbl ?c \<noteq> None" "date_lbl ?c \<noteq> None" "cards_exist ?c" "screen_ok par root ?c w"
    using ctx_okD [OF assms(1)] by (simp_all add: cards_exist_def screen_ok_def)
  show ?thesis
  proof (rule yields_mono [OF refresh_bottom_yields [OF assms(2) c(1-3)]], goal_cases)
    case (1 d)
    then show ?case
      using assms(2) dates_ok_same [of ?c d] screen_ok_same [OF same_data_hr c(4), of d] hour_shownD [of d] by (simp add: ctx_ok_def)
  qed
qed

definition wx_ok :: "'w lv_par \<Rightarrow> nat \<Rightarrow> 'w weather_sys \<Rightarrow> bool" where
  "wx_ok par root s \<longleftrightarrow> lv_wf par (wx_widgets s) \<and> alive par (wx_widgets s) root \<and>
     (\<forall>c. app_ctx s = Some c \<longrightarrow> ctx_ok par root c (wx_widgets s))"

lemma ctx_ok_wx: "ctx_ok par root c w \<Longrightarrow> wx_ok par root (s\<lparr>app_ctx := Some c, wx_widgets := w\<rparr>)"
  by (auto simp: wx_ok_def ctx_ok_def screen_ok_def placed_def)

lemma key_ok:
  assumes "wx_ok par root s"
  shows "yields (handle_label_key_event target key s) (\<lambda>(stop, esc, s'). wx_ok par root s')"
proof (cases "app_ctx s")
  case None
  then show ?thesis using assms by (simp add: handle_label_key_event_def)
next
  case (Some c)
  then have c: "ctx_ok par root c (wx_widgets s)" using assms by (simp add: wx_ok_def)
  note d = ctx_okD [OF c]
  have w: "wx_ok par root (s\<lparr>app_ctx := Some c'\<rparr>)" if "ctx_ok par root c' (wx_widgets s)" for c'
    using ctx_ok_wx [OF that, of s] by simp
  have "yields (update_button_labels (c\<lparr>date_offset := date_offset c - 1\<rparr>)) (\<lambda>c'. wx_ok par root (s\<lparr>app_ctx := Some c'\<rparr>))"
    if "validate_date_offset_decrement (active_date_time c) (date_offset c)"
    using w by (rule yields_mono [OF move_date [OF c offsets_ok(1) [OF d(1) that]]])
  moreover have "yields (update_button_labels (c\<lparr>date_offset := date_offset c + 1\<rparr>)) (\<lambda>c'. wx_ok par root (s\<lparr>app_ctx := Some c'\<rparr>))"
    if "validate_date_offset_increment (active_date_time c) (date_offset c)"
    using w by (rule yields_mono [OF move_date [OF c offsets_ok(2) [OF d(1) that]]])
  moreover have "yields (refresh_bottom_ui (c\<lparr>hr_offset := hr_offset c - 1\<rparr>)) (\<lambda>c'. wx_ok par root (s\<lparr>app_ctx := Some c'\<rparr>))"
    if "validate_hr_offset_decrement (active_date_time c) (hr_offset c)"
    using w by (rule yields_mono [OF move_hour [OF c offsets_ok(3) [OF d(1) that]]])
  moreover have "yields (refresh_bottom_ui (c\<lparr>hr_offset := hr_offset c + 1\<rparr>)) (\<lambda>c'. wx_ok par root (s\<lparr>app_ctx := Some c'\<rparr>))"
    if "validate_hr_offset_increment (active_date_time c) (hr_offset c)"
    using w by (rule yields_mono [OF move_hour [OF c offsets_ok(4) [OF d(1) that]]])
  ultimately show ?thesis
    using assms Some d(2,5) w [OF c] by (cases target) (simp_all add: handle_label_key_event_def)
qed

text \<open>Whatever the subscribers do, as long as they leave the table of subscriptions alone, an event is published.\<close>

definition quiet :: "('h \<Rightarrow> sys_event \<Rightarrow> ('h, 'z) event_mgr_scheme \<Rightarrow> ('h, 'z) event_mgr_scheme) \<Rightarrow> bool" where
  "quiet call \<longleftrightarrow> (\<forall>h e t. em_subscriptions (call h e t) = em_subscriptions t \<and> em_initialized (call h e t) = em_initialized t)"

lemma request_ok:
  assumes "em_ready em" "quiet call"
  shows "yields (trigger_dated_weather_request call n (Some d) em) em_ready"
proof -
  let ?e = "dated_weather_event (weather_app n) d"
  have q: "em_subscriptions (call h e t) = em_subscriptions t" "em_initialized (call h e t) = em_initialized t" for h e t
    using assms(2) by (simp_all add: quiet_def)
  have "em_subscriptions (fold (\<lambda>h. call h ?e) hs t) = em_subscriptions t \<and> em_initialized (fold (\<lambda>h. call h ?e) hs t) = em_initialized t" for hs t
    by (induction hs arbitrary: t) (simp_all add: q)
  moreover have "ev ?e \<noteq> EVENT_COUNT" "event_index (ev ?e) < event_index EVENT_COUNT" by (simp_all add: dated_weather_event_def)
  moreover have "publish_loop call ?e 0 em = Some (fold (\<lambda>h. call h ?e) (subs em (ev ?e)) em)"
    using publish_loop_fold [of em ?e call 0] assms(1) q by (simp add: em_ready_def dated_weather_event_def)
  ultimately show ?thesis
    using assms(1) by (auto simp: trigger_dated_weather_request_def request_ble_resource_def event_publish_def em_ready_def em_ok_def)
qed

lemma date_fmt_moved:
  assumes "validate_epoch (int (get_epoch_from_date_time d) + off * SECONDS_PER_DAY)"
  shows "get_date_time_date_string_fmt (get_date_time_from_epoch (nat (int (get_epoch_from_date_time d) + off * SECONDS_PER_DAY))) 0 =
    get_date_time_date_string_fmt d off"
proof -
  have "nat (int (get_epoch_from_date_time d) + off * SECONDS_PER_DAY) < 4294967296"
    "0 \<le> int (get_epoch_from_date_time d) + off * SECONDS_PER_DAY"
    using assms by (simp_all add: validate_epoch_def nat_less_iff)
  then show ?thesis
    using epoch_of_date by (simp add: get_date_time_date_string_fmt_def)
qed

text \<open>The context on a new day, before its weather is known.\<close>

definition on_day :: "date_time \<Rightarrow> weather_ctx \<Rightarrow> weather_ctx" where
  "on_day d c = c\<lparr>active_date_time := d, hr_offset := 0, date_offset := 0, weather_data := replicate TOTAL_HOURS zero_hour\<rparr>"

lemma on_day_ok:
  assumes "ctx_ok par root c w" "calculate_date_with_offset (active_date_time c) (date_offset c) = Some d"
  shows "dates_ok (on_day d c)" "cards_exist (on_day d c)" "date_shown (on_day d c)" "hourly_lbl (on_day d c) \<noteq> None"
    "screen_ok par root (on_day d c) w" "validate_date_time d"
proof -
  note c = ctx_okD [OF assms(1)]
  let ?E = "int (get_epoch_from_date_time (active_date_time c)) + date_offset c * SECONDS_PER_DAY"
  have v: "validate_epoch ?E" "d = get_date_time_from_epoch (nat ?E)"
    using assms(2) by (auto simp: calculate_date_with_offset_def Let_def split: if_splits)
  then have e: "nat ?E < 4294967296" by (simp add: validate_epoch_def nat_less_iff)
  have "uint (dt_hr d) < 24" using fields_of_epoch(1) [OF e] by (simp add: v(2) unat_less_iff)
  moreover have "validate_epoch (int (get_epoch_from_date_time d))"
    using epoch_less [of d] by (simp add: validate_epoch_def)
  ultimately show "dates_ok (on_day d c)"
    using v(2) e by (auto simp: dates_ok_def on_day_def validate_hour_def MAX_DATE_OFFSET_DIFF_def)
  show "cards_exist (on_day d c)" "hourly_lbl (on_day d c) \<noteq> None" "screen_ok par root (on_day d c) w"
    using c by (simp_all add: on_day_def cards_exist_def screen_ok_def)
  have "date_lbl (on_day d c) = date_lbl c" "active_date_time (on_day d c) = d" "date_offset (on_day d c) = 0"
    by (simp_all add: on_day_def)
  then show "date_shown (on_day d c)"
    using c(4) date_fmt_moved [OF v(1)] unfolding date_shown_def v(2) by metis
  show "validate_date_time d" using validate_of_epoch [OF e] by (simp only: v(2))
qed

lemma loading_update [simp]:
  "dates_ok (c\<lparr>bottom_hidden := h, spinner := x\<rparr>) = dates_ok c" "cards_exist (c\<lparr>bottom_hidden := h, spinner := x\<rparr>) = cards_exist c"
  "date_shown (c\<lparr>bottom_hidden := h, spinner := x\<rparr>) = date_shown c"
  by (simp_all add: dates_ok_def cards_exist_def date_shown_def)

lemma enter_yields:
  assumes "lv_spec lv par" "ctx_ok par root c w" "calculate_date_with_offset (active_date_time c) (date_offset c) = Some d"
  shows "yields (enter_loading_state lv (on_day d c, w)) (\<lambda>(c', w'). ctx_ok par root c' w' \<and> active_date_time c' = d \<and> spinner c' \<noteq> None \<and>
     (spinner c \<noteq> None \<longrightarrow> c' = on_day d c \<and> w' = w))"
proof -
  note o = on_day_ok [OF assms(2,3)]
  obtain b where b: "base_obj c = Some b" "placed par root b w" "bottom_card c \<noteq> None"
    using ctx_okD(6) [OF assms(2)] by (auto simp: screen_ok_def)
  have f: "base_obj (on_day d c) = Some b" "bottom_card (on_day d c) \<noteq> None" "spinner (on_day d c) = spinner c"
    "active_date_time (on_day d c) = d"
    using b by (simp_all add: on_day_def)
  show ?thesis
  proof (cases "spinner c")
    case (Some x)
    then show ?thesis
      using o f by (auto simp: enter_loading_state_def ctx_ok_def)
  next
    case None
    have "yields (refresh_all_ui (on_day d c)) (\<lambda>c1. yields (lv_obj_create lv b w) (\<lambda>(sp, w1).
        ctx_ok par root (c1\<lparr>bottom_hidden := True, spinner := Some sp\<rparr>) w1 \<and> active_date_time c1 = d))"
    proof (rule yields_mono [OF refresh_all_yields [OF o(1,4) _ o(2)]], goal_cases)
      case 1
      then show ?case using o(3) unfolding date_shown_def by blast
    next
      case (2 c1)
      then have c1: "dates_ok c1" "cards_exist c1" "date_shown c1" "hourly_lbl c1 \<noteq> None" "base_obj c1 = Some b" "bottom_card c1 \<noteq> None"
        "active_date_time c1 = d"
        using o(1,4) dates_ok_same [of "on_day d c" c1] f by (auto simp: same_data_def all_shown_def)
      have w: "lv_wf par w" "alive par w b" using b(2) by (auto simp: placed_def child_of_def alive_def)
      show ?case
      proof (rule create_placed [OF assms(1) w], unfold prod.case)
        fix x w'
        assume "extends par w w'" "placed par b x w'"
        then have "screen_ok par root (c1\<lparr>bottom_hidden := True, spinner := Some x\<rparr>) w'"
          using c1(5,6) placed_extends [OF b(2)] by (simp add: screen_ok_def)
        then show "ctx_ok par root (c1\<lparr>bottom_hidden := True, spinner := Some x\<rparr>) w' \<and> active_date_time c1 = d"
          using c1 by (simp add: ctx_ok_def)
      qed
    qed
    then show ?thesis
      using None f by (auto simp: enter_loading_state_def case_prod_unfold elim!: yields_mono)
  qed
qed

lemma unfocus_ok:
  assumes "lv_spec lv par" "wx_ok par root s" "em_ready em" "quiet call"
  shows "yields (handle_date_unfocused_event lv call n s em) (\<lambda>(s', em'). wx_ok par root s' \<and> em_ready em')"
proof (cases "app_ctx s")
  case None
  then show ?thesis using assms by (simp add: handle_date_unfocused_event_def)
next
  case (Some c)
  then have c: "ctx_ok par root c (wx_widgets s)" using assms(2) by (simp add: wx_ok_def)
  have "validate_epoch (int (get_epoch_from_date_time (active_date_time c)) + date_offset c * SECONDS_PER_DAY)"
    "- MAX_DATE_OFFSET_DIFF \<le> date_offset c" "date_offset c \<le> MAX_DATE_OFFSET_DIFF"
    using ctx_okD(1) [OF c] unfolding dates_ok_def by blast+
  then obtain d where d: "calculate_date_with_offset (active_date_time c) (date_offset c) = Some d"
    by (simp add: calculate_date_with_offset_def Let_def)
  have e: "yields (enter_loading_state lv (on_day d c, wx_widgets s)) (\<lambda>r. yields (trigger_dated_weather_request call n
      (Some (active_date_time (fst r))) em) (\<lambda>em1. wx_ok par root (s\<lparr>app_ctx := Some (fst r), wx_widgets := snd r\<rparr>) \<and> em_ready em1))"
  proof (rule yields_mono [OF enter_yields [OF assms(1) c d]], goal_cases)
    case (1 r)
    then have "wx_ok par root (s\<lparr>app_ctx := Some (fst r), wx_widgets := snd r\<rparr>)"
      by (auto intro: ctx_ok_wx)
    then show ?case by (auto intro: yields_mono [OF request_ok [OF assms(3,4)]])
  qed
  show ?thesis
  proof (cases "date_offset c = 0")
    case True
    then show ?thesis using Some assms by (simp add: handle_date_unfocused_event_def)
  next
    case False
    obtain t where "date_lbl c = Some t" using ctx_okD(5) [OF c] by blast
    then show ?thesis
      using False Some d on_day_ok(6) [OF c d] e
      by (simp add: handle_date_unfocused_event_def on_day_def case_prod_unfold)
  qed
qed

lemma six: "length xs = 6 \<Longrightarrow> \<exists>a b c d e f. xs = [a, b, c, d, e, f]"
  by (auto simp: length_Suc_conv eval_nat_numeral)

lemma hour_of_some: "6 \<le> length bs \<Longrightarrow> hour_of (take 6 bs) \<noteq> None"
proof -
  assume "6 \<le> length bs"
  then have "length (take 6 bs) = 6" by simp
  from six [OF this] obtain a b c d e f where "take 6 bs = [a, b, c, d, e, f]" by blast
  then show ?thesis by (simp add: hour_of_def)
qed

lemma hours_of_some: "6 * n \<le> length bs \<Longrightarrow> \<exists>hs. hours_of n bs = Some hs \<and> length hs = n"
proof (induction n arbitrary: bs)
  case (Suc n)
  then have "6 * n \<le> length (drop 6 bs)" by simp
  from Suc.IH [OF this] obtain hs where "hours_of n (drop 6 bs) = Some hs" "length hs = n" by blast
  then show ?case using hour_of_some [of bs] Suc.prems by auto
qed simp

lemma receive_ok:
  assumes "lv_spec lv par" "wx_ok par root s" "\<And>u. update = Some u \<Longrightarrow> 6 * TOTAL_HOURS \<le> length (au_data u)"
  shows "yields (receive_event lv update s) (wx_ok par root)"
proof (cases "update = None \<or> app_ctx s = None")
  case True
  then show ?thesis using assms(2) by (cases update) (auto simp: receive_event_def split: option.split)
next
  case False
  then obtain u c where u: "update = Some u" "app_ctx s = Some c" by auto
  then have c: "ctx_ok par root c (wx_widgets s)" using assms(2) by (simp add: wx_ok_def)
  obtain hs where hs: "hours_of TOTAL_HOURS (au_data u) = Some hs" "length hs = TOTAL_HOURS"
    using hours_of_some assms(3) [OF u(1)] by blast
  have "yields (exit_loading_state lv (c\<lparr>weather_data := hs\<rparr>, wx_widgets s))
      (\<lambda>r. wx_ok par root (s\<lparr>app_ctx := Some (fst r), wx_widgets := snd r\<rparr>))"
    by (rule yields_mono [OF exit_yields [OF assms(1) c hs(2)]]) (auto intro: ctx_ok_wx)
  then show ?thesis
    using u hs(1) by (cases "au_req u") (simp add: receive_event_def case_prod_unfold)
qed

lemma delete_ok:
  assumes "lv_spec lv par" "wx_ok par root s"
  shows "yields (delete_app_ui lv s) (\<lambda>s'. wx_ok par root s' \<and> app_ctx s' = None)"
proof (cases "app_ctx s")
  case None
  then show ?thesis using assms(2) by (simp add: delete_app_ui_def wx_ok_def)
next
  case (Some c)
  then obtain b where "base_obj c = Some b" "placed par root b (wx_widgets s)"
    using assms(2) by (auto simp: wx_ok_def ctx_ok_def screen_ok_def)
  then show ?thesis
    using Some by (auto simp: delete_app_ui_def wx_ok_def intro: yields_mono [OF delete_placed [OF assms(1)]])
qed

lemma init_app_yields:
  assumes "get_weather_day ss \<noteq> None" "date_offset c = 0" "hr_offset c = 0" "hourly_lbl c \<noteq> None" "date_lbl c \<noteq> None" "cards_exist c"
  shows "yields (initialize_weather_app ss c) (\<lambda>d. dates_ok d \<and> cards_exist d \<and> date_shown d \<and> hour_shown d \<and>
     base_obj d = base_obj c \<and> bottom_card d = bottom_card c \<and> bottom_hidden d = bottom_hidden c \<and> spinner d = spinner c)"
proof -
  obtain hs where hs: "get_weather_day ss = Some hs" "length hs = TOTAL_HOURS"
    using assms(1) by (auto simp: get_weather_day_def mem_read_def TOTAL_HOURS_def split: if_splits)
  let ?c = "c\<lparr>active_date_time := get_date_time ss, weather_data := hs\<rparr>"
  have t: "state_manager_get_epoch_time ss < 4294967296"
    by (simp add: state_manager_get_epoch_time_def u32_def)
  have h: "uint (dt_hr (get_date_time ss)) < 24"
    using fields_of_epoch(1) [OF t] by (simp add: get_date_time_def unat_less_iff)
  have "validate_epoch (int (get_epoch_from_date_time (get_date_time ss)))"
    using epoch_less [of "get_date_time ss"] by (simp add: validate_epoch_def)
  then have c: "dates_ok ?c" "hourly_lbl ?c \<noteq> None" "date_lbl ?c \<noteq> None" "cards_exist ?c"
    using assms t h hs(2) by (auto simp: dates_ok_def validate_hour_def MAX_DATE_OFFSET_DIFF_def cards_exist_def get_date_time_def)
  have "yields (initialize_weather_ui ?c) (\<lambda>d. dates_ok d \<and> cards_exist d \<and> date_shown d \<and> hour_shown d \<and>
     base_obj d = base_obj c \<and> bottom_card d = bottom_card c \<and> bottom_hidden d = bottom_hidden c \<and> spinner d = spinner c)"
    by (rule yields_mono [OF init_ui_yields [OF c]]) (simp add: same_data_def all_shown_def)
  then show ?thesis by (simp add: initialize_weather_app_def hs(1))
qed

lemma draw_ok:
  assumes "lv_spec lv par" "wx_ok par root s" "get_weather_day ss \<noteq> None"
  shows "yields (draw_app_ui lv calloc_ok ss root s) (\<lambda>s'. wx_ok par root s' \<and> (app_ctx s' \<noteq> None) = calloc_ok)"
proof (cases calloc_ok)
  case False
  then show ?thesis using assms(2) by (simp add: draw_app_ui_def wx_ok_def)
next
  case True
  have w0: "drawn par (wx_widgets s) [] (wx_widgets s)" "alive par (wx_widgets s) root" "lv_wf par (wx_widgets s)"
    using assms(2) by (simp_all add: wx_ok_def drawn_start)
  have "yields (draw_app_ui lv True ss root s) (\<lambda>s'. wx_ok par root s' \<and> app_ctx s' \<noteq> None)"
    unfolding draw_app_ui_def not_True_eq_False if_False yields_bind case_prod_unfold
    apply (rule create_drawn [OF assms(1) w0(1)], use w0(2) in simp, unfold prod.sel)
    apply ((rule create_drawn [OF assms(1)], assumption, simp, unfold prod.sel)+)
    apply (rule yields_mono [OF init_app_yields [OF assms(3)]])
    apply (simp_all add: cards_exist_def)
    apply (rule ctx_ok_wx)
    apply (simp add: ctx_ok_def screen_ok_def cards_exist_def hour_shownD)
    apply (erule drawn_placed [OF _ w0(3,2)], simp)
    done
  then show ?thesis using True by simp
qed

section \<open>Any order of events\<close>

text \<open>
  Opening comes with the state of the watch at that moment. The manager of the applications opens an application only when it is
  closed.
\<close>

datatype 's wx_event = Wx_open bool 's | Wx_key weather_label lv_key | Wx_date_unfocused | Wx_update "app_update option" | Wx_close

primrec wx_exec ::
  "'w lv_ops \<Rightarrow> ('h \<Rightarrow> sys_event \<Rightarrow> ('h, 'z) event_mgr_scheme \<Rightarrow> ('h, 'z) event_mgr_scheme) \<Rightarrow> byte \<Rightarrow> nat \<Rightarrow>
   ('g, 'y) state_sys_scheme wx_event \<Rightarrow> 'w weather_sys \<times> ('h, 'z) event_mgr_scheme \<Rightarrow> ('w weather_sys \<times> ('h, 'z) event_mgr_scheme) option" where
  "wx_exec lv call n root (Wx_open ok ss) st =
     (if app_ctx (fst st) = None then map_option (\<lambda>s'. (s', snd st)) (draw_app_ui lv ok ss root (fst st)) else Some st)"
| "wx_exec lv call n root (Wx_key target key) st = map_option (\<lambda>(_, _, s'). (s', snd st)) (handle_label_key_event target key (fst st))"
| "wx_exec lv call n root Wx_date_unfocused st = handle_date_unfocused_event lv call n (fst st) (snd st)"
| "wx_exec lv call n root (Wx_update u) st = map_option (\<lambda>s'. (s', snd st)) (receive_event lv u (fst st))"
| "wx_exec lv call n root Wx_close st = map_option (\<lambda>s'. (s', snd st)) (delete_app_ui lv (fst st))"

text \<open>An update for the application carries a day of hours.\<close>

fun wx_event_ok :: "('g, 'y) state_sys_scheme wx_event \<Rightarrow> bool" where
  "wx_event_ok (Wx_open ok ss) = (get_weather_day ss \<noteq> None)"
| "wx_event_ok (Wx_update (Some u)) = (6 * TOTAL_HOURS \<le> length (au_data u))"
| "wx_event_ok e = True"

lemma exec_ok:
  assumes "lv_spec lv par" "quiet call" "wx_event_ok e" "wx_ok par root s" "em_ready em"
  shows "yields (wx_exec lv call n root e (s, em)) (\<lambda>(s', em'). wx_ok par root s' \<and> em_ready em')"
proof (cases e)
  case (Wx_open ok ss)
  then have "yields (draw_app_ui lv ok ss root s) (\<lambda>s'. wx_ok par root s')"
    using assms(3) by (intro yields_mono [OF draw_ok [OF assms(1,4)]]) auto
  then show ?thesis using Wx_open assms(4,5) by simp
next
  case (Wx_key target key)
  then show ?thesis using assms(5) by (auto simp: case_prod_unfold intro: yields_mono [OF key_ok [OF assms(4)]])
next
  case Wx_date_unfocused
  then show ?thesis using unfocus_ok [OF assms(1,4,5,2)] by simp
next
  case (Wx_update u)
  have "6 * TOTAL_HOURS \<le> length (au_data v)" if "u = Some v" for v
    using assms(3) Wx_update that by simp
  then show ?thesis using Wx_update assms(5) by (auto intro: yields_mono [OF receive_ok [OF assms(1,4)]])
next
  case Wx_close
  then show ?thesis using assms(5) by (auto intro: yields_mono [OF delete_ok [OF assms(1,4)]])
qed

lemma run_ok:
  assumes "lv_spec lv par" "quiet call" "list_all wx_event_ok es" "wx_ok par root s" "em_ready em"
  shows "yields (mfold (wx_exec lv call n root) es (s, em)) (\<lambda>(s', em'). wx_ok par root s' \<and> em_ready em')"
  using assms(3-5)
proof (induction es arbitrary: s em)
  case (Cons e es)
  then have e: "wx_event_ok e" "list_all wx_event_ok es" by simp_all
  have "yields (wx_exec lv call n root e (s, em)) (\<lambda>st. yields (mfold (wx_exec lv call n root) es st) (\<lambda>(s', em'). wx_ok par root s' \<and> em_ready em'))"
    by (rule yields_mono [OF exec_ok [OF assms(1,2) e(1) Cons.prems(2,3)]]) (use Cons.IH [OF e(2)] in auto)
  then show ?case by simp
qed simp


section \<open>Two requests at once\<close>

lemma shows_data [simp]:
  "top_shows h (c\<lparr>weather_data := hs\<rparr>) = top_shows h c" "bottom_shows h (c\<lparr>weather_data := hs\<rparr>) = bottom_shows h c"
  "shown_hour (c\<lparr>weather_data := hs\<rparr>) = shown_hour c"
  by (simp_all add: top_shows_def bottom_shows_def shown_hour_def)

lemma receive_eq:
  assumes "app_ctx s = Some c" "hours_of TOTAL_HOURS (au_data u) = Some hs"
  shows "receive_event lv (Some u) s =
    map_option (\<lambda>(c1, w). s\<lparr>app_ctx := Some c1, wx_widgets := w\<rparr>) (exit_loading_state lv (c\<lparr>weather_data := hs\<rparr>, wx_widgets s))"
  using assms by (cases "au_req u"; cases "exit_loading_state lv (c\<lparr>weather_data := hs\<rparr>, wx_widgets s)")
    (simp_all add: receive_event_def case_prod_unfold)

lemma hours_of_length: "hours_of n bs = Some hs \<Longrightarrow> length hs = n"
  by (induction n arbitrary: bs hs) (auto split: bind_splits)

text \<open>
  C39: answers are taken for the day that is shown. While the answer to one request is awaited, the user selects another day: the
  second request is sent as well, but the first answer ends the wait. The screen then shows the measurements of the first day under the
  date of the second, and it keeps showing them after the second answer has been stored.
\<close>

theorem first_answer_stays:
  assumes "lv_spec lv par" and "wx_ok par root s" and "quiet call" and "em_ready em" and "app_ctx s = Some c" and "spinner c \<noteq> None"
    and "date_offset c \<noteq> 0" and "calculate_date_with_offset (active_date_time c) (date_offset c) = Some d"
    and "hours_of TOTAL_HOURS (au_data u1) = Some hs1" and "hours_of TOTAL_HOURS (au_data u2) = Some hs2"
  shows "\<exists>s1 em1 s2 c2. mfold (wx_exec lv call n root) [Wx_date_unfocused, Wx_update (Some u1)] (s, em) = Some (s1, em1) \<and>
    wx_exec lv call n root (Wx_update (Some u2)) (s1, em1) = Some (s2, em1) \<and> app_ctx s2 = Some c2 \<and> spinner c2 = None \<and>
    active_date_time c2 = d \<and> date_shown c2 \<and> weather_data c2 = hs2 \<and>
    top_shows (hs1 ! unat (dt_hr d)) c2 \<and> bottom_shows (hs1 ! shown_hour c2) c2"
proof -
  let ?w = "wx_widgets s"
  have c: "ctx_ok par root c ?w" using assms(2,5) by (simp add: wx_ok_def)
  have on: "ctx_ok par root (on_day d c) ?w" "enter_loading_state lv (on_day d c, ?w) = Some (on_day d c, ?w)"
    using yieldsD [OF enter_yields [OF assms(1) c assms(8)]] assms(6) by auto
  obtain em1 where em1: "trigger_dated_weather_request call n (Some d) em = Some em1"
    using yieldsD [OF request_ok [OF assms(4,3)]] by blast
  obtain t where t: "date_lbl c = Some t" using ctx_okD(5) [OF c] by blast
  have a: "active_date_time (on_day d c) = d" "spinner (on_day d c) \<noteq> None" using assms(6) by (simp_all add: on_day_def)
  let ?s0 = "s\<lparr>app_ctx := Some (on_day d c)\<rparr>"
  have 1: "handle_date_unfocused_event lv call n s em = Some (?s0, em1)"
    using assms(5,7,8) t on_day_ok(6) [OF c assms(8)] on(2) em1 a(1) by (simp add: handle_date_unfocused_event_def on_day_def)
  obtain c1 w1 where c1: "exit_loading_state lv ((on_day d c)\<lparr>weather_data := hs1\<rparr>, ?w) = Some (c1, w1)" "ctx_ok par root c1 w1"
    "spinner c1 = None" "weather_data c1 = hs1" "active_date_time c1 = d" "all_shown c1"
    using yieldsD [OF exit_yields [OF assms(1) on(1) hours_of_length [OF assms(9)]]] a by auto
  let ?s1 = "s\<lparr>app_ctx := Some c1, wx_widgets := w1\<rparr>"
  have 2: "receive_event lv (Some u1) ?s0 = Some ?s1" using receive_eq [of ?s0] assms(9) c1(1) by simp
  have "exit_loading_state lv (c1\<lparr>weather_data := hs2\<rparr>, w1) = Some (c1\<lparr>weather_data := hs2\<rparr>, w1)"
    using c1(3) by (simp add: exit_loading_state_def)
  then have 3: "receive_event lv (Some u2) ?s1 = Some (?s1\<lparr>app_ctx := Some (c1\<lparr>weather_data := hs2\<rparr>)\<rparr>)"
    using receive_eq [of ?s1] assms(10) by simp
  have "top_shows (hs1 ! unat (dt_hr d)) c1" "bottom_shows (hs1 ! shown_hour c1) c1" "date_shown c1"
    using c1(4-6) unfolding all_shown_def by metis+
  then show ?thesis
    using 1 2 3 c1(3,5) by simp
qed

section \<open>Examples\<close>

text \<open>The bus with the phone as subscriber of the requests; its own number is 7.\<close>

definition ex_phone :: "nat phone_sys" where
  "ex_phone = \<lparr>em_subscriptions = (replicate 14 empty_subscription)[8 := \<lparr>es_handlers = [Some 7] @ replicate 7 None, es_count = 1\<rparr>],
     em_initialized = True, ps_link = ble_link_start\<lparr>bl_fifo := ble_fifo_start\<rparr>\<rparr>"

lemma ex_phone_ready: "em_ready ex_phone"
proof -
  have "sub_ok \<lparr>es_handlers = [Some (7 :: nat)] @ replicate 7 None, es_count = 1\<rparr>" "sub_ok (empty_subscription :: nat event_subscription)"
    unfolding sub_ok_def by (auto simp: MAX_EVENT_SUBSCRIBERS_def empty_subscription_def intro!: exI [of _ "[7]"])
  then show ?thesis
    by (auto simp: em_ready_def em_ok_def ex_phone_def dest!: set_update_subset_insert [THEN subsetD])
qed

lemma phone_quiet: "quiet (ble_subscriber hb)"
  by (simp add: quiet_def ble_subscriber_def split: option.split)

definition ex_weather_update :: app_update where
  "ex_weather_update = \<lparr>au_req = DATED_WEATHER_REQUEST, au_req_app = 7, au_data = replicate 144 9\<rparr>"

definition ex_root :: map_store where
  "ex_root = (\<lambda>x. if x = 0 then Some None else None, 1)"


text \<open>The application waits for an answer while its date label points at the next day.\<close>

definition ex_waiting :: weather_ctx where
  "ex_waiting = \<lparr>weather_data = replicate TOTAL_HOURS zero_hour, active_date_time = get_date_time_from_epoch 0, date_offset = 1, hr_offset = 0,
     base_obj = Some 1, curr_temp_lbl = Some 0, curr_humidity_lbl = Some 0, curr_wind_lbl = Some 0, curr_precipitation_lbl = Some 0,
     curr_state_icon = Some Sunny, hourly_lbl = Some ''12 AM'', hourly_temp_lbl = Some 0, hourly_humidity_lbl = Some 0,
     hourly_wind_lbl = Some 0, hourly_state_icon = Some Sunny,
     date_lbl = get_date_time_date_string_fmt (get_date_time_from_epoch 0) 1, bottom_card = Some 2, bottom_hidden = True, spinner = Some 3\<rparr>"

definition ex_waiting_sys :: "map_store weather_sys" where
  "ex_waiting_sys = \<lparr>app_ctx = Some ex_waiting, wx_widgets = (\<lambda>x. [Some None, Some (Some 0), Some (Some 1), Some (Some 1)] ! x, 4)\<rparr>"

lemma ex_waiting_ok: "wx_ok store_par 0 ex_waiting_sys"
proof -
  let ?w = "wx_widgets ex_waiting_sys"
  have par: "store_par ?w x = (if x = 0 then Some None else if x = 1 then Some (Some 0) else if x = 2 \<or> x = 3 then Some (Some 1) else None)" for x
    by (auto simp: ex_waiting_sys_def store_par_def less_Suc_eq eval_nat_numeral nth_Cons')
  have up: "child_of store_par ?w x p \<Longrightarrow> p < x" for x p
    by (auto simp: child_of_def par split: if_splits)
  have "below store_par ?w x y \<Longrightarrow> y \<le> x" for x y
    unfolding below_def by (induction rule: rtranclp_induct) (auto dest: up)
  then have b: "\<not> below store_par ?w 0 1" "\<not> below store_par ?w 1 3" by fastforce+
  have wf: "lv_wf store_par ?w" by (auto simp: lv_wf_def child_of_def alive_def par split: if_splits)
  have "placed store_par 0 1 ?w" "placed store_par 1 3 ?w"
    using b wf by (simp_all add: placed_def alive_def child_of_def par)
  then have s: "screen_ok store_par 0 ex_waiting ?w" by (simp add: screen_ok_def ex_waiting_def)
  have "\<exists>t. get_date_time_date_string_fmt (get_date_time_from_epoch 0) 1 = Some t"
    by (rule date_fmt_some) (simp add: epoch_of_date validate_epoch_def SECONDS_PER_DAY_def)
  then have d: "date_shown ex_waiting" by (auto simp: date_shown_def ex_waiting_def)
  have "uint (dt_hr (get_date_time_from_epoch 0)) < 24" using fields_of_epoch(1) [of 0] by (simp add: unat_less_iff)
  moreover have "\<exists>E < 4294967296. active_date_time ex_waiting = get_date_time_from_epoch E"
    by (rule exI [of _ 0]) (simp add: ex_waiting_def)
  ultimately have "dates_ok ex_waiting"
    unfolding dates_ok_def by (simp add: ex_waiting_def MAX_DATE_OFFSET_DIFF_def validate_hour_def epoch_of_date validate_epoch_def SECONDS_PER_DAY_def)
  then have "ctx_ok store_par 0 ex_waiting ?w"
    using s d by (simp add: ctx_ok_def) (simp add: ex_waiting_def cards_exist_def)
  then show ?thesis
    using wf by (simp add: wx_ok_def alive_def par) (simp add: ex_waiting_sys_def)
qed

theorem first_answer_stays_witness:
  "\<exists>s1 em1 s2 c2. mfold (wx_exec store_ops (ble_subscriber 7) 7 0) ([Wx_date_unfocused, Wx_update (Some ex_weather_update)] :: nat state_sys wx_event list) (ex_waiting_sys, ex_phone) =
      Some (s1, em1) \<and>
    wx_exec store_ops (ble_subscriber 7) 7 0 (Wx_update (Some (ex_weather_update\<lparr>au_data := replicate 144 0\<rparr>)) :: nat state_sys wx_event) (s1, em1) = Some (s2, em1) \<and>
    app_ctx s2 = Some c2 \<and> weather_data c2 = replicate 24 zero_hour \<and> curr_humidity_lbl c2 = Some 9"
proof -
  let ?h = "\<lparr>temperature = 2313, humidity = 9, precip_prob = 9, weather_code = 9, wind_speed = 9\<rparr>"
  have six: "replicate 6 x = [x, x, x, x, x, x]" for x :: byte by (simp add: eval_nat_numeral)
  have 9: "hours_of n (replicate (6 * n) 9) = Some (replicate n ?h)" for n
    by (induction n) (simp_all add: hour_of_def s16_def u16_def six)
  have 0: "hours_of n (replicate (6 * n) 0) = Some (replicate n zero_hour)" for n
    by (induction n) (simp_all add: hour_of_def s16_def u16_def six zero_hour_def)
  let ?d = "get_date_time_from_epoch 86400"
  have c: "calculate_date_with_offset (active_date_time ex_waiting) (date_offset ex_waiting) = Some ?d"
    by (simp add: calculate_date_with_offset_def ex_waiting_def MAX_DATE_OFFSET_DIFF_def epoch_of_date validate_epoch_def SECONDS_PER_DAY_def)
  have h: "hours_of TOTAL_HOURS (au_data ex_weather_update) = Some (replicate 24 ?h)"
    "hours_of TOTAL_HOURS (au_data (ex_weather_update\<lparr>au_data := replicate 144 0\<rparr>)) = Some (replicate 24 zero_hour)"
    using 9 [of 24] 0 [of 24] by (simp_all add: ex_weather_update_def TOTAL_HOURS_def)
  have "app_ctx ex_waiting_sys = Some ex_waiting" "spinner ex_waiting \<noteq> None" "date_offset ex_waiting \<noteq> 0"
    by (simp_all add: ex_waiting_sys_def ex_waiting_def)
  from first_answer_stays [OF store_spec ex_waiting_ok phone_quiet ex_phone_ready this c h, where n = 7]
  obtain s1 em1 s2 c2 where r: "mfold (wx_exec store_ops (ble_subscriber 7) 7 0) ([Wx_date_unfocused, Wx_update (Some ex_weather_update)] :: nat state_sys wx_event list)
      (ex_waiting_sys, ex_phone) = Some (s1, em1)"
    "wx_exec store_ops (ble_subscriber 7) 7 0 (Wx_update (Some (ex_weather_update\<lparr>au_data := replicate 144 0\<rparr>)) :: nat state_sys wx_event) (s1, em1) = Some (s2, em1)"
    "app_ctx s2 = Some c2" "weather_data c2 = replicate 24 zero_hour" "top_shows (replicate 24 ?h ! unat (dt_hr ?d)) c2"
    by blast
  have "unat (dt_hr ?d) < 24" by (rule fields_of_epoch(1)) simp
  then have "curr_humidity_lbl c2 = Some 9" using r(5) by (simp add: top_shows_def)
  then show ?thesis using r(1-4) by blast
qed

end
