(* ===== verification/Settings_App.thy ===== *)
theory Settings_App
  imports Ui_Kit Common_Apis Text_Format
begin

text \<open>
  The settings (\<open>settings_ui.c\<close>): a list with the watchface, the screen timeout, the brightness and the firmware update, and a popup
  for each. The calls of the application go through the common interface to the managers of the watch, \<open>api_exec\<close>. A text is a string; the texts
  that the popups show are those of the source.
\<close>

section \<open>State\<close>

datatype settings_popup = Wf_popup | Timeout_popup | Brightness_popup | Confirm_popup

text \<open>
  \<open>popups\<close> are the four static registries; \<open>wf_value\<close> is the text of the first list item, which the file keeps between two drawings;
  \<open>value_labels\<close> are the texts of the value labels of the list.
\<close>

record 'w settings_ui =
  base_container :: "nat option"
  parent_container :: "nat option"
  popups :: "settings_popup \<Rightarrow> popup_registry"
  wf_count :: nat
  wf_items :: "string list option"
  wf_value :: string
  value_labels :: "string option list"
  se_widgets :: 'w

definition settings_app :: "byte \<Rightarrow> application" where
  "settings_app n = \<lparr>app_id = n, app_perms = APP_PERM_SYSTEM, app_name = map of_char ''Settings'', app_handles = False\<rparr>"

definition timeout_values :: "nat list" where
  "timeout_values = [5000, 7000, 10000, 4294967295]"

definition timeout_items :: "string list" where
  "timeout_items = [''5s'', ''7s'', ''10s'', ''None'']"

definition brightness_percent :: "int list" where
  "brightness_percent = [10, 25, 40, 60, 80, 100]"

definition brightness_items :: "string list" where
  "brightness_items = [''10%'', ''25%'', ''40%'', ''60%'', ''80%'', ''100%'']"

definition confirm_items :: "string list" where
  "confirm_items = [''Yes'', ''No'']"

definition name_text :: "byte list \<Rightarrow> string" where
  "name_text bs = map (\<lambda>b. char_of (unat b)) bs"

text \<open>A label can be written while it exists: the labels are deleted with the list.\<close>

definition set_value :: "nat \<Rightarrow> string \<Rightarrow> 'w settings_ui \<Rightarrow> 'w settings_ui option" where
  "set_value i t s =
     (case rd (value_labels s) i of
        Some (Some old) \<Rightarrow> if base_container s = None then None else Some (s\<lparr>value_labels := (value_labels s)[i := Some t]\<rparr>)
      | _ \<Rightarrow> Some s)"

section \<open>Selections\<close>

text \<open>The index comes from the popup and is an \<open>int\<close> of the code that is never negative.\<close>

definition select_watchface ::
  "('h, 'f, 'q, 'n, 'x) api_env \<Rightarrow> byte \<Rightarrow> nat \<Rightarrow> 'w settings_ui \<times> ('h, 'f, 'q, 'x) watch \<Rightarrow>
   ('w settings_ui \<times> ('h, 'f, 'q, 'x) watch) option" where
  "select_watchface e n index = (\<lambda>(s, v).
     do {
       (success, v1) \<leftarrow> api_exec e (Some (settings_app n)) (Api_watchface (int index)) v;
       if \<not> success then Some (s, v1)
       else case get_system_selected_watchface_name (wt_sys v1) of
         None \<Rightarrow> Some (s, v1)
       | Some name \<Rightarrow> map_option (\<lambda>s1. (s1, v1)) (set_value 0 (name_text name) s)
     })"

definition select_timeout ::
  "('h, 'f, 'q, 'n, 'x) api_env \<Rightarrow> byte \<Rightarrow> nat \<Rightarrow> 'w settings_ui \<times> ('h, 'f, 'q, 'x) watch \<Rightarrow>
   ('w settings_ui \<times> ('h, 'f, 'q, 'x) watch) option" where
  "select_timeout e n index = (\<lambda>(s, v).
     do {
       t \<leftarrow> rd timeout_values index;
       title \<leftarrow> rd timeout_items index;
       (success, v1) \<leftarrow> api_exec e (Some (settings_app n)) (Api_timeout t) v;
       if \<not> success then Some (s, v1) else map_option (\<lambda>s1. (s1, v1)) (set_value 1 title s)
     })"

definition select_brightness ::
  "('h, 'f, 'q, 'n, 'x) api_env \<Rightarrow> byte \<Rightarrow> nat \<Rightarrow> 'w settings_ui \<times> ('h, 'f, 'q, 'x) watch \<Rightarrow>
   ('w settings_ui \<times> ('h, 'f, 'q, 'x) watch) option" where
  "select_brightness e n index = (\<lambda>(s, v).
     do {
       p \<leftarrow> rd brightness_percent index;
       title \<leftarrow> rd brightness_items index;
       (success, v1) \<leftarrow> api_exec e (Some (settings_app n)) (Api_brightness p) v;
       if \<not> success then Some (s, v1) else map_option (\<lambda>s1. (s1, v1)) (set_value 2 title s)
     })"

definition start_dfu_process ::
  "('h, 'f, 'q, 'n, 'x) api_env \<Rightarrow> byte \<Rightarrow> nat \<Rightarrow> 'w settings_ui \<times> ('h, 'f, 'q, 'x) watch \<Rightarrow>
   ('w settings_ui \<times> ('h, 'f, 'q, 'x) watch) option" where
  "start_dfu_process e n index = (\<lambda>(s, v).
     if index = 0 then map_option (\<lambda>(success, v1). (s, v1)) (api_exec e (Some (settings_app n)) Api_dfu v) else Some (s, v))"

text \<open>The popup of a list item: its items and the callback of its selection.\<close>

definition popup_size :: "settings_popup \<Rightarrow> 'w settings_ui \<Rightarrow> nat" where
  "popup_size p s =
     (case p of Wf_popup \<Rightarrow> wf_count s | Timeout_popup \<Rightarrow> length timeout_items | Brightness_popup \<Rightarrow> length brightness_items
      | Confirm_popup \<Rightarrow> length confirm_items)"

definition select_cb ::
  "settings_popup \<Rightarrow> ('h, 'f, 'q, 'n, 'x) api_env \<Rightarrow> byte \<Rightarrow> nat \<Rightarrow> 'w settings_ui \<times> ('h, 'f, 'q, 'x) watch \<Rightarrow>
   ('w settings_ui \<times> ('h, 'f, 'q, 'x) watch) option" where
  "select_cb p = (case p of Wf_popup \<Rightarrow> select_watchface | Timeout_popup \<Rightarrow> select_timeout | Brightness_popup \<Rightarrow> select_brightness
     | Confirm_popup \<Rightarrow> start_dfu_process)"

definition open_selection_popup :: "'w lv_ops \<Rightarrow> bool \<Rightarrow> settings_popup \<Rightarrow> 'w settings_ui \<Rightarrow> 'w settings_ui option" where
  "open_selection_popup lv calloc_ok p s =
     map_option (\<lambda>(reg, w). s\<lparr>popups := (popups s)(p := reg), se_widgets := w\<rparr>)
       (create_popup_listview lv calloc_ok (parent_container s) (popup_size p s) (popups s p) (se_widgets s))"

text \<open>Selecting an item of the open popup runs its callback and closes it.\<close>

definition select_popup_item ::
  "'w lv_ops \<Rightarrow> ('h, 'f, 'q, 'n, 'x) api_env \<Rightarrow> byte \<Rightarrow> settings_popup \<Rightarrow> nat \<Rightarrow> 'w settings_ui \<times> ('h, 'f, 'q, 'x) watch \<Rightarrow>
   ('w settings_ui \<times> ('h, 'f, 'q, 'x) watch) option" where
  "select_popup_item lv e n p index = (\<lambda>(s, v).
     map_option (\<lambda>(reg, w, s1, v1). (s1\<lparr>popups := (popups s1)(p := reg), se_widgets := w\<rparr>, v1))
       (select_item_cb lv (Some (\<lambda>i (w, st). map_option (Pair w) (select_cb p e n i st))) index (popups s p) (se_widgets s, s, v)))"

section \<open>The list\<close>

text \<open>The items with their values, each followed by a divider; the result are the value labels.\<close>

primrec draw_list_items :: "'w lv_ops \<Rightarrow> nat \<Rightarrow> string option list \<Rightarrow> 'w \<Rightarrow> (string option list \<times> 'w) option" where
  "draw_list_items lv base [] w = Some ([], w)"
| "draw_list_items lv base (value # values) w =
     do {
       (lbl, w1) \<leftarrow> draw_listview_item lv base (value \<noteq> None) w;
       w2 \<leftarrow> draw_horizoantal_divider lv base w1;
       (lbls, w3) \<leftarrow> draw_list_items lv base values w2;
       Some ((if lbl = None then None else value) # lbls, w3)
     }"

definition timeout_text :: "nat \<Rightarrow> string" where
  "timeout_text ms = (if ms div 1000 \<noteq> 4294967295 div 1000 then udec (ms div 1000) @ ''s'' else ''None'')"

definition brightness_text :: "nat \<Rightarrow> string" where
  "brightness_text percent = udec percent @ ''%''"

definition draw_settings_app_ui ::
  "'w lv_ops \<Rightarrow> bool \<Rightarrow> nat option \<Rightarrow> ('h, 'f, 'q, 'x) watch \<Rightarrow> 'w settings_ui \<Rightarrow> 'w settings_ui option" where
  "draw_settings_app_ui lv calloc_ok parentp v s =
     do {
       parent \<leftarrow> parentp;
       let s0 = (case get_system_selected_watchface_name (wt_sys v) of None \<Rightarrow> s | Some name \<Rightarrow> s\<lparr>wf_value := name_text name\<rparr>);
       names \<leftarrow> get_system_watchface_names (wt_sys v);
       let s1 = s0\<lparr>wf_count := length names\<rparr>;
       if wf_count s1 = 0 then Some s1
       else if \<not> calloc_ok then Some (s1\<lparr>wf_items := None\<rparr>)
       else do {
         (base, w1) \<leftarrow> lv_obj_create lv parent (se_widgets s1);
         w2 \<leftarrow> draw_horizoantal_divider lv base w1;
         (lbls, w3) \<leftarrow> draw_list_items lv base [Some (wf_value s1), Some ''5s'', Some ''100%'', None] w2;
         s2 \<leftarrow> set_value 1 (timeout_text (get_ui_inactivity_timeout (wt_thread v)))
           (s1\<lparr>wf_items := Some (map name_text names), parent_container := Some parent, base_container := Some base, value_labels := lbls,
              se_widgets := w3\<rparr>);
         set_value 2 (brightness_text (get_system_brightness (wt_gpio v))) s2
       }
     }"

definition delete_settings_app_ui :: "'w lv_ops \<Rightarrow> 'w settings_ui \<Rightarrow> 'w settings_ui option" where
  "delete_settings_app_ui lv s =
     do {
       base \<leftarrow> base_container s;
       w \<leftarrow> lv_obj_delete lv base (se_widgets s);
       Some (s\<lparr>wf_items := None, base_container := None, parent_container := None, wf_count := 0, se_widgets := w\<rparr>)
     }"

section \<open>What the calls of the settings change\<close>

lemma api_timeout:
  assumes "api_exec e a (Api_timeout t) v = Some (True, v1)"
  shows "get_ui_inactivity_timeout (wt_thread v1) = t" "wt_gpio v1 = wt_gpio v" "wt_sys v1 = wt_sys v"
  using assms
  by (auto simp: set_ui_inactivity_timeout_def lvgl_bridge_update_inactivity_timeout_def update_input_timeout_def get_ui_inactivity_timeout_def
    split: if_splits)

lemma api_brightness:
  assumes "api_exec e a (Api_brightness p) v = Some (True, v1)"
  shows "get_system_brightness (wt_gpio v1) = nat p" "wt_thread v1 = wt_thread v" "wt_sys v1 = wt_sys v"
  using assms
  by (auto simp: set_system_brightness_def gpio_manager_backlight_set_brightness_def get_system_brightness_def
    gpio_manager_backlight_get_brightness_def Let_def split: if_splits bind_splits)

lemma api_watchface:
  assumes "api_exec e a (Api_watchface i) v = Some (r, v1)"
  shows "wt_gpio v1 = wt_gpio v" "wt_thread v1 = wt_thread v"
  using assms by auto

text \<open>The subscribers of the start of an update leave the selected watchface alone.\<close>

definition calm :: "('h, 'f, 'q, 'n, 'x) api_env \<Rightarrow> bool" where
  "calm e \<longleftrightarrow> (\<forall>h x t. get_system_selected_watchface_name (ae_call e h x t) = get_system_selected_watchface_name t)"

lemma publish_loop_keeps:
  assumes "\<And>h t. f (call h x t) = f t"
  shows "publish_loop call x i s = Some s' \<Longrightarrow> f s' = f s"
  using assms
proof (induction call x i s arbitrary: s' rule: publish_loop.induct)
  case (1 call x i s)
  then show ?case
    by (subst (asm) publish_loop.simps) (auto split: if_splits option.splits bind_splits)
qed

lemma api_dfu:
  assumes "api_exec e a Api_dfu v = Some (r, v1)" "calm e"
  shows "wt_gpio v1 = wt_gpio v" "wt_thread v1 = wt_thread v"
    "get_system_selected_watchface_name (wt_sys v1) = get_system_selected_watchface_name (wt_sys v)"
proof -
  show "wt_gpio v1 = wt_gpio v" "wt_thread v1 = wt_thread v" using assms(1) by auto
  obtain s where s: "trigger_dfu_over_uart (ae_call e) a (wt_sys v) = Some (r, s)" "v1 = v\<lparr>wt_sys := s\<rparr>"
    using assms(1) by auto
  have "get_system_selected_watchface_name s = get_system_selected_watchface_name (wt_sys v)"
  proof -
    have k: "get_system_selected_watchface_name t' = get_system_selected_watchface_name t"
      if "publish_loop (ae_call e) x i t = Some t'" for x i t t'
      by (rule publish_loop_keeps [where f = get_system_selected_watchface_name, OF _ that]) (use assms(2) in \<open>simp add: calm_def\<close>)
    show ?thesis
      using s(1) by (auto simp: trigger_dfu_over_uart_def event_publish_def split: if_splits bind_splits dest: k)
  qed
  then show "get_system_selected_watchface_name (wt_sys v1) = get_system_selected_watchface_name (wt_sys v)"
    by (simp add: s(2))
qed

section \<open>The texts of the list\<close>

definition truthful :: "'w settings_ui \<Rightarrow> ('h, 'f, 'q, 'x) watch \<Rightarrow> bool" where
  "truthful s v \<longleftrightarrow>
     (\<forall>name. get_system_selected_watchface_name (wt_sys v) = Some name \<longrightarrow> value_labels s ! 0 = Some (name_text name)) \<and>
     value_labels s ! 1 = Some (timeout_text (get_ui_inactivity_timeout (wt_thread v))) \<and>
     value_labels s ! 2 = Some (brightness_text (get_system_brightness (wt_gpio v)))"

definition labels_exist :: "string option list \<Rightarrow> bool" where
  "labels_exist ls \<longleftrightarrow> (\<exists>a b c. ls = [Some a, Some b, Some c, None])"

lemma set_value_eq:
  assumes "labels_exist (value_labels s)" "base_container s \<noteq> None" "i < 3"
  shows "set_value i t s = Some (s\<lparr>value_labels := (value_labels s)[i := Some t]\<rparr>)" "labels_exist ((value_labels s)[i := Some t])"
proof -
  obtain a b c where l: "value_labels s = [Some a, Some b, Some c, None]" using assms(1) by (auto simp: labels_exist_def)
  have "i = 0 \<or> i = 1 \<or> i = 2" using assms(3) by linarith
  then show "set_value i t s = Some (s\<lparr>value_labels := (value_labels s)[i := Some t]\<rparr>)" "labels_exist ((value_labels s)[i := Some t])"
    using assms(2) by (auto simp: set_value_def rd_def l labels_exist_def)
qed

text \<open>The titles of the popups are the texts that a redrawn list shows.\<close>

lemma timeout_titles: "i < 4 \<Longrightarrow> timeout_text (timeout_values ! i) = timeout_items ! i"
proof -
  assume "i < 4"
  then consider "i = 0" | "i = 1" | "i = 2" | "i = 3" by linarith
  moreover have "udec 5 @ ''s'' = ''5s''" "udec 7 @ ''s'' = ''7s''" "udec 10 @ ''s'' = ''10s''"
    by code_simp+
  ultimately show ?thesis by cases (simp_all add: timeout_values_def timeout_items_def timeout_text_def)
qed

lemma brightness_titles: "i < 6 \<Longrightarrow> brightness_text (nat (brightness_percent ! i)) = brightness_items ! i"
proof -
  assume "i < 6"
  then consider "i = 0" | "i = 1" | "i = 2" | "i = 3" | "i = 4" | "i = 5" by linarith
  moreover have "brightness_text 10 = ''10%''" "brightness_text 25 = ''25%''" "brightness_text 40 = ''40%''" "brightness_text 60 = ''60%''"
    "brightness_text 80 = ''80%''" "brightness_text 100 = ''100%''"
    by code_simp+
  ultimately show ?thesis by cases (simp_all add: brightness_percent_def brightness_items_def)
qed

lemma lengths: "length timeout_values = 4" "length timeout_items = 4" "length brightness_percent = 6" "length brightness_items = 6"
  by (simp_all add: timeout_values_def timeout_items_def brightness_percent_def brightness_items_def)

text \<open>The call of a selection, and whether it fails or is refused.\<close>

definition selection_call :: "settings_popup \<Rightarrow> nat \<Rightarrow> api_call option" where
  "selection_call p i =
     (case p of Wf_popup \<Rightarrow> Some (Api_watchface (int i)) | Timeout_popup \<Rightarrow> Some (Api_timeout (timeout_values ! i))
      | Brightness_popup \<Rightarrow> Some (Api_brightness (brightness_percent ! i)) | Confirm_popup \<Rightarrow> if i = 0 then Some Api_dfu else None)"

definition call_fails :: "('h, 'f, 'q, 'n, 'x) api_env \<Rightarrow> byte \<Rightarrow> settings_popup \<Rightarrow> nat \<Rightarrow> ('h, 'f, 'q, 'x) watch \<Rightarrow> bool" where
  "call_fails e n p i v \<longleftrightarrow>
     (\<exists>c. selection_call p i = Some c \<and>
        (case api_exec e (Some (settings_app n)) c v of None \<Rightarrow> True | Some (success, v1) \<Rightarrow> \<not> success))"

lemma call_succeeds:
  assumes "\<not> call_fails e n p i v" "selection_call p i = Some c"
  obtains v1 where "api_exec e (Some (settings_app n)) c v = Some (True, v1)"
proof (cases "api_exec e (Some (settings_app n)) c v")
  case None
  then show ?thesis using assms by (auto simp: call_fails_def)
next
  case (Some r)
  then have "fst r" using assms by (auto simp: call_fails_def case_prod_unfold)
  then have "api_exec e (Some (settings_app n)) c v = Some (True, snd r)" using Some by (cases r) simp
  then show ?thesis by (rule that)
qed

lemma select_yields:
  assumes "calm e" "labels_exist (value_labels s)" "base_container s \<noteq> None" "truthful s v" "i < popup_size p s" "\<not> call_fails e n p i v"
  shows "yields (select_cb p e n i (s, v)) (\<lambda>(s1, v1). (\<exists>L. s1 = s\<lparr>value_labels := L\<rparr> \<and> labels_exist L) \<and> truthful s1 v1)"
proof -
  obtain a b c where l: "value_labels s = [Some a, Some b, Some c, None]" using assms(2) by (auto simp: labels_exist_def)
  have set: "set_value k t s = Some (s\<lparr>value_labels := (value_labels s)[k := Some t]\<rparr>)" "labels_exist ((value_labels s)[k := Some t])" if "k < 3" for k t
    using set_value_eq [OF assms(2,3) that] by blast+
  have same: "\<exists>L. s = s\<lparr>value_labels := L\<rparr> \<and> labels_exist L" using assms(2) by (intro exI [of _ "value_labels s"]) simp
  show ?thesis
  proof (cases p)
    case Timeout_popup
    then have i: "i < 4" using assms(5) by (simp add: popup_size_def timeout_items_def)
    obtain v1 where v: "api_exec e (Some (settings_app n)) (Api_timeout (timeout_values ! i)) v = Some (True, v1)"
      by (rule call_succeeds [OF assms(6)]) (simp add: Timeout_popup selection_call_def)
    have "truthful (s\<lparr>value_labels := (value_labels s)[1 := Some (timeout_items ! i)]\<rparr>) v1"
      using assms(4) api_timeout [OF v] timeout_titles [OF i] by (simp add: truthful_def l)
    moreover have "select_cb p e n i (s, v) = Some (s\<lparr>value_labels := (value_labels s)[1 := Some (timeout_items ! i)]\<rparr>, v1)"
      using i v set(1) [of 1 "timeout_items ! i"] Timeout_popup
      by (simp add: select_cb_def select_timeout_def rd_def lengths del: api_exec.simps One_nat_def)
    ultimately show ?thesis using set(2) [of 1] by auto
  next
    case Brightness_popup
    then have i: "i < 6" using assms(5) by (simp add: popup_size_def brightness_items_def)
    obtain v1 where v: "api_exec e (Some (settings_app n)) (Api_brightness (brightness_percent ! i)) v = Some (True, v1)"
      by (rule call_succeeds [OF assms(6)]) (simp add: Brightness_popup selection_call_def)
    have "truthful (s\<lparr>value_labels := (value_labels s)[2 := Some (brightness_items ! i)]\<rparr>) v1"
      using assms(4) api_brightness [OF v] brightness_titles [OF i] by (simp add: truthful_def l)
    moreover have "select_cb p e n i (s, v) = Some (s\<lparr>value_labels := (value_labels s)[2 := Some (brightness_items ! i)]\<rparr>, v1)"
      using i v set(1) [of 2 "brightness_items ! i"] Brightness_popup
      by (simp add: select_cb_def select_brightness_def rd_def lengths del: api_exec.simps)
    ultimately show ?thesis using set(2) [of 2] by auto
  next
    case Wf_popup
    obtain v1 where v: "api_exec e (Some (settings_app n)) (Api_watchface (int i)) v = Some (True, v1)"
      by (rule call_succeeds [OF assms(6)]) (simp add: Wf_popup selection_call_def)
    show ?thesis
    proof (cases "get_system_selected_watchface_name (wt_sys v1)")
      case None
      then have "truthful s v1" using assms(4) api_watchface [OF v] by (simp add: truthful_def)
      then show ?thesis using None v same Wf_popup by (simp add: select_cb_def select_watchface_def del: api_exec.simps)
    next
      case (Some name)
      have "truthful (s\<lparr>value_labels := (value_labels s)[0 := Some (name_text name)]\<rparr>) v1"
        using assms(4) api_watchface [OF v] Some by (simp add: truthful_def l)
      then show ?thesis using Some v set [of 0] Wf_popup by (auto simp: select_cb_def select_watchface_def simp del: api_exec.simps)
    qed
  next
    case Confirm_popup
    show ?thesis
    proof (cases "i = 0")
      case True
      obtain v1 where v: "api_exec e (Some (settings_app n)) Api_dfu v = Some (True, v1)"
        by (rule call_succeeds [OF assms(6)]) (simp add: Confirm_popup selection_call_def \<open>i = 0\<close>)
      have "truthful s v1" using assms(4) api_dfu [OF v assms(1)] by (simp add: truthful_def)
      then show ?thesis using True v same Confirm_popup by (simp add: select_cb_def start_dfu_process_def del: api_exec.simps)
    next
      case False
      then show ?thesis using assms(4) same Confirm_popup by (simp add: select_cb_def start_dfu_process_def)
    qed
  qed
qed

section \<open>The screen\<close>

definition no_popup :: "popup_registry \<Rightarrow> bool" where
  "no_popup reg \<longleftrightarrow> popup reg = None \<and> item_data_array reg = None"

text \<open>At most one popup is open; it lies beside the list.\<close>

definition shown_popup :: "'w lv_par \<Rightarrow> nat \<Rightarrow> nat \<Rightarrow> settings_popup \<Rightarrow> 'w settings_ui \<Rightarrow> bool" where
  "shown_popup par root b p s \<longleftrightarrow> item_data_array (popups s p) \<noteq> None \<and>
     (\<exists>x. popup (popups s p) = Some x \<and> placed par root x (se_widgets s) \<and> x \<noteq> b) \<and> (\<forall>q. q \<noteq> p \<longrightarrow> no_popup (popups s q))"

definition list_drawn :: "'w lv_par \<Rightarrow> nat \<Rightarrow> nat \<Rightarrow> 'w settings_ui \<Rightarrow> bool" where
  "list_drawn par root b s \<longleftrightarrow> base_container s = Some b \<and> placed par root b (se_widgets s) \<and> parent_container s = Some root \<and>
     0 < wf_count s \<and> labels_exist (value_labels s) \<and> ((\<forall>p. no_popup (popups s p)) \<or> (\<exists>p. shown_popup par root b p s))"

definition se_ok :: "'w lv_par \<Rightarrow> nat \<Rightarrow> 'w settings_ui \<times> ('h, 'f, 'q, 'x) watch \<Rightarrow> bool" where
  "se_ok par root st \<longleftrightarrow> lv_wf par (se_widgets (fst st)) \<and> alive par (se_widgets (fst st)) root \<and>
     (case base_container (fst st) of None \<Rightarrow> \<forall>p. no_popup (popups (fst st) p)
      | Some b \<Rightarrow> list_drawn par root b (fst st) \<and> truthful (fst st) (snd st))"

lemma dismiss_ok:
  assumes "lv_spec lv par" "list_drawn par root b s" "shown_popup par root b p s"
  shows "yields (dismiss_popup lv (popups s p) (se_widgets s))
    (\<lambda>(reg, w). no_popup reg \<and> placed par root b w)"
proof -
  obtain x where x: "popup (popups s p) = Some x" "placed par root x (se_widgets s)" "x \<noteq> b" "item_data_array (popups s p) \<noteq> None"
    using assms(3) by (auto simp: shown_popup_def)
  have b: "placed par root b (se_widgets s)" using assms(2) by (simp add: list_drawn_def)
  have "yields (lv_obj_delete lv x (se_widgets s)) (\<lambda>w. placed par root b w)"
    using delete_keeps_placed [OF assms(1) b] beside [OF b x(2,3)] by blast
  then show ?thesis
    using x(1,4) by (simp add: dismiss_popup_def delete_popup_cb_def no_popup_def)
qed

lemma closed_popup_ok:
  assumes "list_drawn par root b s" "shown_popup par root b p s" "no_popup reg" "placed par root b w" "labels_exist L"
  shows "list_drawn par root b (s\<lparr>value_labels := L, popups := (popups s)(p := reg), se_widgets := w\<rparr>)"
  using assms by (auto simp: list_drawn_def shown_popup_def)

lemma list_drawn_ok: "list_drawn par root b (fst st) \<Longrightarrow> truthful (fst st) (snd st) \<Longrightarrow> se_ok par root st"
  by (auto simp: se_ok_def list_drawn_def placed_def)

lemma shown_unique:
  assumes "list_drawn par root b s" "popup (popups s p) \<noteq> None"
  shows "shown_popup par root b p s"
proof -
  have "\<not> no_popup (popups s p)" using assms(2) by (simp add: no_popup_def)
  then obtain q where q: "shown_popup par root b q s" using assms(1) unfolding list_drawn_def by blast
  then have "p = q" using \<open>\<not> no_popup (popups s p)\<close> unfolding shown_popup_def by blast
  then show ?thesis using q by simp
qed

lemma click_ok:
  assumes "lv_spec lv par" "se_ok par root (s, v)" "base_container s \<noteq> None" "\<forall>q. popup (popups s q) = None"
  shows "yields (open_selection_popup lv ok p s) (\<lambda>s'. se_ok par root (s', v))"
proof -
  obtain b where b: "base_container s = Some b" "list_drawn par root b s" "truthful s v"
    using assms(2,3) by (auto simp: se_ok_def)
  have free: "no_popup (popups s q)" for q
    using b(2) assms(4) by (auto simp: list_drawn_def shown_popup_def)
  have pl: "placed par root b (se_widgets s)" "lv_wf par (se_widgets s)" "alive par (se_widgets s) root" "parent_container s = Some root"
    "0 < popup_size p s"
    using b(2) by (auto simp: list_drawn_def placed_def popup_size_def timeout_items_def brightness_items_def confirm_items_def split: settings_popup.split)
  show ?thesis
  proof (cases ok)
    case False
    have "list_drawn par root b (s\<lparr>popups := (popups s)(p := (popups s p)\<lparr>item_count := popup_size p s\<rparr>)\<rparr>)"
      using b(2) free by (auto simp: list_drawn_def no_popup_def)
    moreover have "truthful (s\<lparr>popups := (popups s)(p := (popups s p)\<lparr>item_count := popup_size p s\<rparr>)\<rparr>) v"
      using b(3) by (simp add: truthful_def)
    ultimately show ?thesis
      using False free [of p] pl(4,5) list_drawn_ok
      by (fastforce simp: open_selection_popup_def create_popup_listview_def no_popup_def)
  next
    case True
    have "yields (create_popup_listview lv True (Some root) (popup_size p s) (popups s p) (se_widgets s))
       (\<lambda>(reg, w). se_ok par root (s\<lparr>popups := (popups s)(p := reg), se_widgets := w\<rparr>, v))"
    proof (rule yields_mono [OF create_popup_yields [OF assms(1) pl(2,3) _ _ pl(5)]], goal_cases)
      case (3 r)
      obtain reg w where r: "r = (reg, w)" by (cases r)
      then obtain x where x: "popup reg = Some x" "item_data_array reg \<noteq> None" "child_of par w x root" "\<not> alive par (se_widgets s) x"
        "extends par (se_widgets s) w"
        using 3 by (auto simp: popup_open_def)
      have "\<not> below par w root x" using extends_below [OF pl(2) x(5) pl(3)] x(4) by blast
      moreover have "alive par (se_widgets s) b" using pl(1) by (simp add: placed_def child_of_def alive_def)
      moreover have "lv_wf par w" "alive par w root" using extends_wf [OF x(5)] extends_alive [OF x(5) pl(3)] by simp_all
      ultimately have "placed par root x w" "x \<noteq> b" using x(3,4) by (auto simp: placed_def)
      then have "list_drawn par root b (s\<lparr>popups := (popups s)(p := reg), se_widgets := w\<rparr>)"
        using b(2) x(1,2) free placed_extends [OF pl(1) x(5)] by (auto simp: list_drawn_def shown_popup_def)
      moreover have "truthful (s\<lparr>popups := (popups s)(p := reg), se_widgets := w\<rparr>) v"
        using b(3) by (simp add: truthful_def)
      ultimately show ?case unfolding r prod.case by (intro list_drawn_ok) simp_all
    qed (use free [of p] in \<open>simp_all add: no_popup_def\<close>)
    then show ?thesis
      using True pl(4) by (auto simp: open_selection_popup_def case_prod_unfold)
  qed
qed

lemma select_ok:
  assumes "lv_spec lv par" "calm e" "se_ok par root (s, v)" "base_container s \<noteq> None" "popup (popups s p) \<noteq> None" "i < popup_size p s"
    "\<not> call_fails e n p i v"
  shows "yields (select_popup_item lv e n p i (s, v)) (se_ok par root)"
proof -
  obtain b where b: "base_container s = Some b" "list_drawn par root b s" "truthful s v"
    using assms(3,4) by (auto simp: se_ok_def)
  note sh = shown_unique [OF b(2) assms(5)]
  have l: "labels_exist (value_labels s)" using b(2) by (simp add: list_drawn_def)
  obtain L v1 where r: "select_cb p e n i (s, v) = Some (s\<lparr>value_labels := L\<rparr>, v1)" "labels_exist L" "truthful (s\<lparr>value_labels := L\<rparr>) v1"
    using yieldsD [OF select_yields [OF assms(2) l assms(4) b(3) assms(6,7)]] by auto
  have "yields (dismiss_popup lv (popups s p) (se_widgets s))
    (\<lambda>r. se_ok par root (s\<lparr>value_labels := L, popups := (popups s)(p := fst r), se_widgets := snd r\<rparr>, v1))"
  proof (rule yields_mono [OF dismiss_ok [OF assms(1) b(2) sh]], goal_cases)
    case (1 r)
    obtain reg w where w: "r = (reg, w)" "no_popup reg" "placed par root b w" using 1 by (cases r) simp
    have "list_drawn par root b (s\<lparr>value_labels := L, popups := (popups s)(p := reg), se_widgets := w\<rparr>)"
      by (rule closed_popup_ok [OF b(2) sh w(2,3) r(2)])
    moreover have "truthful (s\<lparr>value_labels := L, popups := (popups s)(p := reg), se_widgets := w\<rparr>) v1"
      using r(3) by (simp add: truthful_def)
    ultimately show ?case unfolding w(1) prod.sel by (intro list_drawn_ok) simp_all
  qed
  then show ?thesis
    by (simp add: select_popup_item_def select_item_cb_def r(1) case_prod_unfold)
qed

lemma escape_ok:
  assumes "lv_spec lv par" "se_ok par root (s, v)" "base_container s \<noteq> None" "popup (popups s p) \<noteq> None"
  shows "yields (dismiss_popup lv (popups s p) (se_widgets s)) (\<lambda>(reg, w). se_ok par root (s\<lparr>popups := (popups s)(p := reg), se_widgets := w\<rparr>, v))"
proof -
  obtain b where b: "base_container s = Some b" "list_drawn par root b s" "truthful s v"
    using assms(2,3) by (auto simp: se_ok_def)
  note sh = shown_unique [OF b(2) assms(4)]
  show ?thesis
  proof (rule yields_mono [OF dismiss_ok [OF assms(1) b(2) sh]], goal_cases)
    case (1 r)
    obtain reg w where w: "r = (reg, w)" "no_popup reg" "placed par root b w" using 1 by (cases r) simp
    have "labels_exist (value_labels s)" using b(2) by (simp add: list_drawn_def)
    from closed_popup_ok [OF b(2) sh w(2,3) this]
    have "list_drawn par root b (s\<lparr>popups := (popups s)(p := reg), se_widgets := w\<rparr>)" by simp
    moreover have "truthful (s\<lparr>popups := (popups s)(p := reg), se_widgets := w\<rparr>) v"
      using b(3) by (simp add: truthful_def)
    ultimately show ?case unfolding w(1) prod.case by (intro list_drawn_ok) simp_all
  qed
qed

lemma list_items_drawn:
  assumes "lv_spec lv par" "drawn par w0 C w" "base \<in> fst ` set C" "\<And>w'. drawn par w0 C w' \<Longrightarrow> Q (values, w')"
  shows "yields (draw_list_items lv base values w) Q"
  using assms(2,4)
proof (induction "values" arbitrary: w Q)
  case (Cons v vs)
  have "yields (draw_listview_item lv base (v \<noteq> None) w) (\<lambda>(lbl, w1). yields (draw_horizoantal_divider lv base w1)
      (\<lambda>w2. yields (draw_list_items lv base vs w2) (\<lambda>(lbls, w3). Q ((if lbl = None then None else v) # lbls, w3))))"
  proof (rule item_drawn [OF assms(1) Cons.prems(1)], use assms(3) in simp, unfold prod.case)
    fix lbl w1
    assume 1: "drawn par w0 C w1" "(lbl \<noteq> None) = (v \<noteq> None)"
    show "yields (draw_horizoantal_divider lv base w1)
      (\<lambda>w2. yields (draw_list_items lv base vs w2) (\<lambda>(lbls, w3). Q ((if lbl = None then None else v) # lbls, w3)))"
    proof (rule divider_drawn [OF assms(1) 1(1)], use assms(3) in simp)
      fix w2
      assume 2: "drawn par w0 C w2"
      show "yields (draw_list_items lv base vs w2) (\<lambda>(lbls, w3). Q ((if lbl = None then None else v) # lbls, w3))"
        using 1(2) Cons.prems(2) by (intro Cons.IH [OF 2]) (cases lbl; simp)
    qed
  qed
  then show ?case by (simp add: case_prod_unfold)
qed simp

text \<open>Drawing succeeds with memory and at least one watchface.\<close>

lemma se_draw_ok:
  assumes "lv_spec lv par" "se_ok par root (s, v)" "base_container s = None" "get_system_watchface_names (wt_sys v) = Some names" "names \<noteq> []"
  shows "yields (draw_settings_app_ui lv True (Some root) v s) (\<lambda>s'. se_ok par root (s', v) \<and> base_container s' \<noteq> None)"
proof -
  have w0: "drawn par (se_widgets s) [] (se_widgets s)" "alive par (se_widgets s) root" "lv_wf par (se_widgets s)" "no_popup (popups s p)" for p
    using assms(2,3) by (simp_all add: se_ok_def drawn_start)
  let ?s0 = "case get_system_selected_watchface_name (wt_sys v) of None \<Rightarrow> s | Some name \<Rightarrow> s\<lparr>wf_value := name_text name\<rparr>"
  let ?s1 = "?s0\<lparr>wf_count := length names\<rparr>"
  have f: "se_widgets ?s0 = se_widgets s" "popups ?s0 = popups s" by (simp_all split: option.split)
  let ?ls = "[Some (wf_value ?s1), Some (timeout_text (get_ui_inactivity_timeout (wt_thread v))), Some (brightness_text (get_system_brightness (wt_gpio v))), None]"
  let ?d = "\<lambda>base w3. ?s1\<lparr>wf_items := Some (map name_text names), parent_container := Some root, base_container := Some base,
              se_widgets := w3, value_labels := ?ls\<rparr>"
  have "yields (lv_obj_create lv root (se_widgets s)) (\<lambda>(base, w1). yields (draw_horizoantal_divider lv base w1) (\<lambda>w2.
      yields (draw_list_items lv base [Some (wf_value ?s1), Some ''5s'', Some ''100%'', None] w2)
        (\<lambda>(lbls, w3). lbls = [Some (wf_value ?s1), Some ''5s'', Some ''100%'', None] \<and> se_ok par root (?d base w3, v))))"
  proof (rule create_drawn [OF assms(1) w0(1)], use w0(2) in simp, unfold prod.case)
    fix base w1
    assume 1: "drawn par (se_widgets s) [(base, root)] w1"
    show "yields (draw_horizoantal_divider lv base w1) (\<lambda>w2. yields (draw_list_items lv base [Some (wf_value ?s1), Some ''5s'', Some ''100%'', None] w2)
        (\<lambda>(lbls, w3). lbls = [Some (wf_value ?s1), Some ''5s'', Some ''100%'', None] \<and> se_ok par root (?d base w3, v)))"
    proof (rule divider_drawn [OF assms(1) 1], simp, rule list_items_drawn [OF assms(1)], assumption, simp, unfold prod.case)
      fix w2 w3
      assume 3: "drawn par (se_widgets s) [(base, root)] w3"
      have "placed par root base w3" by (rule drawn_placed [OF 3 w0(3,2)]) simp
      then have "list_drawn par root base (?d base w3)"
        using w0(4) assms(5) by (simp add: list_drawn_def labels_exist_def f)
      moreover have "truthful (?d base w3) v" by (simp add: truthful_def)
      ultimately have "se_ok par root (?d base w3, v)" by (intro list_drawn_ok) simp_all
      then show "[Some (wf_value ?s1), Some ''5s'', Some ''100%'', None] = [Some (wf_value ?s1), Some ''5s'', Some ''100%'', None] \<and>
        se_ok par root (?d base w3, v)" by blast
    qed
  qed
  then show ?thesis
    using assms(4,5)
    by (simp add: draw_settings_app_ui_def Let_def f case_prod_unfold set_value_def rd_def) (auto elim!: yields_mono)
qed

section \<open>Any order of events\<close>

text \<open>
  An open popup has the focus: the list behind it and the key that closes the application cannot be reached until it is closed. The flags are the
  outcomes of allocations.
\<close>

datatype se_event = Se_open bool | Se_click settings_popup bool | Se_select settings_popup nat | Se_escape settings_popup | Se_close

definition popup_shown :: "'w settings_ui \<Rightarrow> bool" where
  "popup_shown s \<longleftrightarrow> popup (popups s Wf_popup) \<noteq> None \<or> popup (popups s Timeout_popup) \<noteq> None \<or> popup (popups s Brightness_popup) \<noteq> None \<or>
     popup (popups s Confirm_popup) \<noteq> None"

primrec se_exec ::
  "'w lv_ops \<Rightarrow> ('h, 'f, 'q, 'n, 'x) api_env \<Rightarrow> byte \<Rightarrow> nat \<Rightarrow> se_event \<Rightarrow> 'w settings_ui \<times> ('h, 'f, 'q, 'x) watch \<Rightarrow>
   ('w settings_ui \<times> ('h, 'f, 'q, 'x) watch) option" where
  "se_exec lv e n root (Se_open ok) st =
     (if base_container (fst st) \<noteq> None then Some st
      else map_option (\<lambda>s'. (s', snd st)) (draw_settings_app_ui lv ok (Some root) (snd st) (fst st)))"
| "se_exec lv e n root (Se_click p ok) st =
     (if base_container (fst st) = None \<or> popup_shown (fst st) then Some st
      else map_option (\<lambda>s'. (s', snd st)) (open_selection_popup lv ok p (fst st)))"
| "se_exec lv e n root (Se_select p i) st =
     (if base_container (fst st) = None \<or> popup (popups (fst st) p) = None \<or> popup_size p (fst st) \<le> i then Some st
      else select_popup_item lv e n p i st)"
| "se_exec lv e n root (Se_escape p) st =
     (if base_container (fst st) = None \<or> popup (popups (fst st) p) = None then Some st
      else map_option (\<lambda>(stop, reg, w). ((fst st)\<lparr>popups := (popups (fst st))(p := reg), se_widgets := w\<rparr>, snd st))
        (popup_event_cb lv True LV_KEY_ESC (popups (fst st) p) (se_widgets (fst st))))"
| "se_exec lv e n root Se_close st =
     (if base_container (fst st) = None \<or> popup_shown (fst st) then Some st
      else map_option (\<lambda>s'. (s', snd st)) (delete_settings_app_ui lv (fst st)))"

text \<open>No memory or no watchface when the list is drawn; a call that the watch refuses or does not survive.\<close>

fun se_fails :: "('h, 'f, 'q, 'n, 'x) api_env \<Rightarrow> byte \<Rightarrow> se_event \<Rightarrow> 'w settings_ui \<times> ('h, 'f, 'q, 'x) watch \<Rightarrow> bool" where
  "se_fails e n (Se_open ok) (s, v) =
     (base_container s = None \<and> (\<not> ok \<or> get_system_watchface_names (wt_sys v) = None \<or> get_system_watchface_names (wt_sys v) = Some []))"
| "se_fails e n (Se_select p i) (s, v) = (i < popup_size p s \<and> call_fails e n p i v)"
| "se_fails e n x st = False"

lemma popup_shown_iff: "\<not> popup_shown s \<longleftrightarrow> (\<forall>p. popup (popups s p) = None)"
  unfolding popup_shown_def by (metis settings_popup.exhaust)

lemma se_close_ok:
  assumes "lv_spec lv par" "se_ok par root (s, v)" "base_container s \<noteq> None" "\<not> popup_shown s"
  shows "yields (delete_settings_app_ui lv s) (\<lambda>s'. se_ok par root (s', v))"
proof -
  obtain b where b: "base_container s = Some b" "list_drawn par root b s"
    using assms(2,3) by (auto simp: se_ok_def)
  have free: "no_popup (popups s q)" for q
    using b(2) assms(4) by (auto simp: popup_shown_iff list_drawn_def shown_popup_def)
  have "placed par root b (se_widgets s)" using b(2) by (simp add: list_drawn_def)
  then show ?thesis
    using b(1) free by (auto simp: delete_settings_app_ui_def se_ok_def intro: yields_mono [OF delete_placed [OF assms(1)]])
qed

lemma se_exec_ok:
  assumes "lv_spec lv par" "calm e" "se_ok par root st" "\<not> se_fails e n x st"
  shows "yields (se_exec lv e n root x st) (se_ok par root)"
proof -
  obtain s v where st: "st = (s, v)" by (cases st)
  have ok: "se_ok par root (s, v)" using assms(3) st by simp
  show ?thesis
  proof (cases x)
    case (Se_open k)
    show ?thesis
    proof (cases "base_container s = None")
      case True
      then obtain names where "k" "get_system_watchface_names (wt_sys v) = Some names" "names \<noteq> []"
        using assms(4) Se_open st by auto
      then show ?thesis
        using Se_open st True by (auto intro: yields_mono [OF se_draw_ok [OF assms(1) ok True]])
    qed (use Se_open st ok in simp)
  next
    case (Se_click p k)
    then show ?thesis
      using st ok click_ok [OF assms(1) ok] by (auto simp: popup_shown_iff)
  next
    case (Se_select p i)
    then show ?thesis
      using st ok assms(4) select_ok [OF assms(1,2) ok] by (auto simp: not_le)
  next
    case (Se_escape p)
    show ?thesis
    proof (cases "base_container s = None \<or> popup (popups s p) = None")
      case False
      then have "yields (dismiss_popup lv (popups s p) (se_widgets s))
          (\<lambda>r. se_ok par root (s\<lparr>popups := (popups s)(p := fst r), se_widgets := snd r\<rparr>, v))"
        by (intro yields_mono [OF escape_ok [OF assms(1) ok]]) (auto simp: case_prod_unfold)
      then show ?thesis
        using Se_escape st False by (auto simp: popup_event_cb_def case_prod_unfold)
    qed (use Se_escape st ok in auto)
  next
    case Se_close
    then show ?thesis
      using st ok se_close_ok [OF assms(1) ok] by auto
  qed
qed

lemma se_run_ok:
  assumes "lv_spec lv par" "calm e" "se_ok par root st"
  shows "\<exists>k \<le> length evs. \<exists>st'. mfold (se_exec lv e n root) (take k evs) st = Some st' \<and> se_ok par root st' \<and>
     (k = length evs \<or> se_fails e n (evs ! k) st')"
  using assms(3)
proof (induction evs arbitrary: st)
  case (Cons x evs)
  show ?case
  proof (cases "se_fails e n x st")
    case True
    then show ?thesis using Cons.prems by (intro exI [of _ 0]) auto
  next
    case False
    then obtain st1 where st1: "se_exec lv e n root x st = Some st1" "se_ok par root st1"
      using yieldsD [OF se_exec_ok [OF assms(1,2) Cons.prems]] by blast
    obtain k st' where "k \<le> length evs" "mfold (se_exec lv e n root) (take k evs) st1 = Some st'" "se_ok par root st'"
      "k = length evs \<or> se_fails e n (evs ! k) st'"
      using Cons.IH [OF st1(2)] by blast
    then show ?thesis
      using st1(1) by (intro exI [of _ "Suc k"]) auto
  qed
qed (auto intro: exI [of _ 0])

text \<open>
  C40: the settings show what is set. Whatever is opened, clicked, selected and closed, in any order, the application runs on and the texts of its
  list are those of the settings in force (the watchface, the timeout and the brightness that the managers report), up to the first
  event that the rest of the watch fails: memory or watchfaces are missing when the list is drawn, or a call is refused or does not return.
\<close>

theorem settings_list_truthful:
  assumes "lv_spec lv par" and "calm e" and "base_container s = None" and "\<forall>p. no_popup (popups s p)"
    and "lv_wf par (se_widgets s)" and "alive par (se_widgets s) root"
  shows "\<exists>k \<le> length evs. \<exists>s' v'. mfold (se_exec lv e n root) (take k evs) (s, v) = Some (s', v') \<and>
    (k = length evs \<or> se_fails e n (evs ! k) (s', v')) \<and>
    (base_container s' \<noteq> None \<longrightarrow>
       value_labels s' ! 1 = Some (timeout_text (get_ui_inactivity_timeout (wt_thread v'))) \<and>
       value_labels s' ! 2 = Some (brightness_text (get_system_brightness (wt_gpio v'))) \<and>
       (\<forall>name. get_system_selected_watchface_name (wt_sys v') = Some name \<longrightarrow> value_labels s' ! 0 = Some (name_text name)))"
proof -
  have "se_ok par root (s, v)" using assms(3-6) by (simp add: se_ok_def)
  from se_run_ok [OF assms(1,2) this, of evs n]
  obtain k s' v' where r: "k \<le> length evs" "mfold (se_exec lv e n root) (take k evs) (s, v) = Some (s', v')" "se_ok par root (s', v')"
    "k = length evs \<or> se_fails e n (evs ! k) (s', v')"
    by auto
  then have "base_container s' \<noteq> None \<longrightarrow> truthful s' v'" by (auto simp: se_ok_def)
  then show ?thesis using r unfolding truthful_def by blast
qed

section \<open>Refused and failed\<close>

text \<open>A timeout that cannot be stored is in force all the same, although the call reports a failure and the list keeps its old text.\<close>

lemma refused_timeout_in_force:
  assumes "save_input_timeout (ae_store e) (timeout_values ! i) (wt_rt v) = Some (False, r1)" "i < 4"
  shows "\<exists>v1. select_timeout e n i (s, v) = Some (s, v1) \<and> get_ui_inactivity_timeout (wt_thread v1) = timeout_values ! i"
proof -
  have "permitted (Some (settings_app n)) APP_PERM_SYSTEM"
    by (simp add: permitted_def check_app_permission_def settings_app_def)
  moreover have "5000 \<le> timeout_values ! i"
  proof -
    consider "i = 0" | "i = 1" | "i = 2" | "i = 3" using assms(2) by linarith
    then show ?thesis by cases (simp_all add: timeout_values_def)
  qed
  ultimately show ?thesis
    using assms by (simp add: select_timeout_def rd_def lengths set_ui_inactivity_timeout_def lvgl_bridge_update_inactivity_timeout_def
      update_input_timeout_def DISPLAY_MIN_USER_INPUT_TIMEOUT_def get_ui_inactivity_timeout_def)
qed

text \<open>If there is no memory for the names of the watchfaces, nothing is drawn, and closing the application deletes a null object.\<close>

lemma undrawn_settings_crash:
  assumes "base_container s = None" "get_system_watchface_names (wt_sys v) = Some names" "names \<noteq> []"
  shows "\<exists>s'. draw_settings_app_ui lv False (Some root) v s = Some s' \<and> delete_settings_app_ui lv s' = None"
  using assms by (simp add: draw_settings_app_ui_def delete_settings_app_ui_def Let_def split: option.split)

section \<open>Example\<close>

definition ex_settings :: "map_store settings_ui" where
  "ex_settings = \<lparr>base_container = None, parent_container = None, popups = (\<lambda>p. popup_free), wf_count = 0, wf_items = None,
     wf_value = ''Retro'', value_labels = [None, None, None, None], se_widgets = (\<lambda>x. if x = 0 then Some None else None, 1)\<rparr>"

theorem settings_list_truthful_witness:
  "\<exists>s' v'. mfold (se_exec store_ops ex_api_env 3 0) [Se_open True] (ex_settings, ex_watch) = Some (s', v') \<and>
     value_labels s' ! 1 = Some (timeout_text (get_ui_inactivity_timeout (wt_thread v')))"
proof -
  have s: "base_container ex_settings = None" "\<forall>p. no_popup (popups ex_settings p)" "lv_wf store_par (se_widgets ex_settings)"
    "alive store_par (se_widgets ex_settings) 0"
    by (simp_all add: ex_settings_def no_popup_def popup_free_def lv_wf_def child_of_def alive_def store_par_def)
  have c: "calm ex_api_env" by (simp add: calm_def ex_api_env_def)
  have names: "\<exists>names. get_system_watchface_names (wt_sys ex_watch) = Some names \<and> names \<noteq> []"
    by (simp add: get_system_watchface_names_def ex_watch_def ex_wf_sys_def watchface_manager_get_all_wf_names_def rd_def upt_rec)
  then have f: "\<not> se_fails ex_api_env 3 (Se_open True) (ex_settings, ex_watch)" by auto
  have ok: "se_ok store_par 0 (ex_settings, ex_watch)" using s by (simp add: se_ok_def)
  obtain s1 where "draw_settings_app_ui store_ops True (Some 0) ex_watch ex_settings = Some s1" "base_container s1 \<noteq> None"
    using names yieldsD [OF se_draw_ok [OF store_spec ok s(1)]] by blast
  then have d: "mfold (se_exec store_ops ex_api_env 3 0) [Se_open True] (ex_settings, ex_watch) = Some (s1, ex_watch)" "base_container s1 \<noteq> None"
    using s(1) by simp_all
  obtain k s' v' where k: "k \<le> 1" "mfold (se_exec store_ops ex_api_env 3 0) (take k [Se_open True]) (ex_settings, ex_watch) = Some (s', v')"
    "k = 1 \<or> se_fails ex_api_env 3 ([Se_open True] ! k) (s', v')"
    "base_container s' \<noteq> None \<longrightarrow> value_labels s' ! 1 = Some (timeout_text (get_ui_inactivity_timeout (wt_thread v')))"
    using settings_list_truthful [OF store_spec c s, of "[Se_open True]" 3 ex_watch] by auto
  have "k = 1"
  proof (rule ccontr)
    assume "k \<noteq> 1"
    then have "k = 0" using k(1) by simp
    then show False using k(2,3) f by simp
  qed
  then show ?thesis using k(2,4) d by auto
qed

end
